(* ===== verification/Prelude.thy ===== *)
theory Prelude
  imports Main "HOL-Library.Word" "HOL-Library.Monad_Syntax"
begin

text \<open>
  Shared vocabulary of the development: the machine integer types of the C sources, the
  fact collections the component theories feed, and generic lemmas on lists, options and
  words.

  C code that reads or writes outside an object, or follows a NULL pointer, has no defined
  result.  Operations that can do so return an \<open>option\<close>: \<open>None\<close> is that
  fault (or, for a loop that may run forever, not returning), and a safety theorem states
  that the result is \<open>Some\<close>.
\<close>

unbundle bit_operations_syntax

type_synonym u8 = "8 word"
type_synonym u16 = "16 word"
type_synonym u32 = "32 word"

named_theorems buf_simps \<open>reads and writes of byte buffers\<close>
named_theorems word_conv \<open>conversions between words and natural numbers\<close>
named_theorems handler_defs \<open>definitions of the operations a component exports\<close>
named_theorems keeps \<open>operations that keep an invariant\<close>

subsection \<open>Byte buffers\<close>

text \<open>\<open>rd\<close> is \<open>buf[i]\<close>; \<open>wr_bytes\<close> is \<open>memcpy(&buf[i], bs, n)\<close>.\<close>

definition rd :: "'a list \<Rightarrow> nat \<Rightarrow> 'a option" where
  "rd buf i = (if i < length buf then Some (buf ! i) else None)"

definition wr :: "'a list \<Rightarrow> nat \<Rightarrow> 'a \<Rightarrow> 'a list option" where
  "wr buf i v = (if i < length buf then Some (buf[i := v]) else None)"

definition rd_bytes :: "'a list \<Rightarrow> nat \<Rightarrow> nat \<Rightarrow> 'a list option" where
  "rd_bytes buf i n = (if i + n \<le> length buf then Some (take n (drop i buf)) else None)"

definition wr_bytes :: "'a list \<Rightarrow> nat \<Rightarrow> 'a list \<Rightarrow> 'a list option" where
  "wr_bytes buf i bs =
     (if i + length bs \<le> length buf then Some (take i buf @ bs @ drop (i + length bs) buf) else None)"

lemma rd_in [buf_simps]: "i < length buf \<Longrightarrow> rd buf i = Some (buf ! i)"
  by (simp add: rd_def)

lemma wr_in [buf_simps]: "i < length buf \<Longrightarrow> wr buf i v = Some (buf[i := v])"
  by (simp add: wr_def)

lemma rd_bytes_in [buf_simps]: "i + n \<le> length buf \<Longrightarrow> rd_bytes buf i n = Some (take n (drop i buf))"
  by (simp add: rd_bytes_def)

lemma wr_bytes_in [buf_simps]:
  "i + length bs \<le> length buf \<Longrightarrow>
     wr_bytes buf i bs = Some (take i buf @ bs @ drop (i + length bs) buf)"
  by (simp add: wr_bytes_def)

lemma rd_slice:
  assumes "drop i (take n buf) = ys" "k < length ys"
  shows "rd buf (i + k) = Some (ys ! k)"
  using assms by (auto simp: rd_def)

lemma update_slice: "i < length buf \<Longrightarrow> buf[i := v] = take i buf @ [v] @ drop (Suc i) buf"
  by (simp add: upd_conv_take_nth_drop)

lemma wr_bytes_Some:
  "wr_bytes buf i bs = Some buf' \<Longrightarrow>
     length buf' = length buf \<and> take i buf' = take i buf \<and> take (length bs) (drop i buf') = bs"
  by (auto simp: wr_bytes_def split: if_splits)

subsection \<open>Words\<close>

lemma unat_of_nat_small [word_conv]:
  "n < 2 ^ LENGTH('a::len) \<Longrightarrow> unat (of_nat n :: 'a word) = n"
  by (simp add: unat_of_nat take_bit_nat_eq_self)

lemma unat_minus_le [word_conv]:
  "b \<le> a \<Longrightarrow> unat (a - b :: 'a::len word) = unat a - unat b"
  by (rule unat_sub)

lemma unat_lt_8: "unat (x :: u8) < 256"
  by (rule order_less_le_trans [OF unsigned_less]) simp

lemma unat_lt_16: "unat (x :: u16) < 65536"
  by (rule order_less_le_trans [OF unsigned_less]) simp

lemma unat_lt_32: "unat (x :: u32) < 4294967296"
  by (rule order_less_le_trans [OF unsigned_less]) simp

lemma and_ff: "(x::'a::len word) AND 0xff = take_bit 8 x"
  by (simp add: take_bit_eq_mask mask_eq_exp_minus_1)

lemma high_byte: "ucast (ucast (drop_bit 8 (c::u16))::u8) = drop_bit 8 c"
  by (rule bit_word_eqI) (auto simp: bit_simps dest: bit_imp_le_length)

lemma low_byte: "ucast (ucast (c::u16) :: u8) = take_bit 8 c"
  by (rule bit_word_eqI) (auto simp: bit_simps)

lemma byte_take [simp]: "take_bit 8 (b::u8) = b"
  by (rule bit_word_eqI) (auto simp: bit_simps)

lemma unat_add_small [word_conv]:
  "unat (a::'a::len word) + unat b < 2 ^ LENGTH('a) \<Longrightarrow> unat (a + b) = unat a + unat b"
  by (simp add: unat_word_ariths)

lemma take_bit_small: "unat (w::'a::len word) < 2 ^ n \<Longrightarrow> take_bit n w = w"
  by (metis take_bit_nat_eq_self unsigned_take_bit_eq word_unat_eq_iff)

text \<open>Functions that commute with exclusive or are equal when they agree on the powers of
  two: a check of \<open>LENGTH('a)\<close> values instead of all words.\<close>

definition xor_linear :: "('a::len word \<Rightarrow> 'b::len word) \<Rightarrow> bool" where
  "xor_linear f \<longleftrightarrow> (\<forall>a b. f (a XOR b) = f a XOR f b)"

lemma take_bit_Suc_xor:
  "take_bit (Suc k) (w::'a::len word) = take_bit k w XOR (if bit w k then push_bit k 1 else 0)"
  by (rule bit_word_eqI) (auto simp: bit_simps less_Suc_eq)

lemma xor_linear_zero: "xor_linear f \<Longrightarrow> f 0 = 0"
  by (metis bit.xor_self xor_linear_def)

lemma xor_linear_eqI:
  fixes f g :: "'a::len word \<Rightarrow> 'b::len word"
  assumes f: "xor_linear f" and g: "xor_linear g"
    and basis: "\<And>k. k < LENGTH('a) \<Longrightarrow> f (push_bit k 1) = g (push_bit k 1)"
  shows "f w = g w"
proof -
  have "f (take_bit k w) = g (take_bit k w)" if "k \<le> LENGTH('a)" for k
    using that
  proof (induction k)
    case 0
    then show ?case using xor_linear_zero [OF f] xor_linear_zero [OF g] by simp
  next
    case (Suc k)
    then show ?case using f g basis [of k]
      by (simp add: take_bit_Suc_xor xor_linear_def xor_linear_zero)
  qed
  from this [of "LENGTH('a)"] show ?thesis by simp
qed

lemma split_top_bit:
  fixes w :: "'a::len word"
  assumes lt: "unat w < 2 ^ Suc n"
  obtains (low) "unat w < 2 ^ n"
  | (high) v where "unat v < 2 ^ n" "w = v XOR push_bit n 1" "unat w = 2 ^ n + unat v"
proof -
  have eq: "take_bit (Suc n) w = w"
    using lt by (rule take_bit_small)
  have h: "unat w = 2 ^ n * of_bool (bit w n) + unat (take_bit n w)"
    using lt take_bit_Suc_from_most [of n "unat w"]
    by (simp add: unsigned_take_bit_eq bit_unsigned_iff take_bit_nat_eq_self bit_imp_le_length)
  have v: "unat (take_bit n w) < 2 ^ n" by (simp add: unsigned_take_bit_eq)
  have x: "w = take_bit n w XOR (if bit w n then push_bit n 1 else 0)"
    using eq take_bit_Suc_xor [of n w] by simp
  show thesis
  proof (cases "bit w n")
    case True
    then have "w = take_bit n w XOR push_bit n 1" using x by metis
    moreover have "unat w = 2 ^ n + unat (take_bit n w)" using h True by (metis mult.right_neutral of_bool_eq(2))
    ultimately show thesis using v high by blast
  next
    case False
    then have "unat w = unat (take_bit n w)" using h by (metis add_0 mult_0_right of_bool_eq(1))
    with v show thesis using low by metis
  qed
qed

subsection \<open>Lists\<close>

lemma find_Some_nth:
  "List.find P xs = Some x \<Longrightarrow> \<exists>i < length xs. xs ! i = x \<and> P x \<and> (\<forall>j < i. \<not> P (xs ! j))"
  by (auto simp: find_Some_iff)

text \<open>The index of the first element that satisfies a predicate: the C search loops
  \<open>for (i = 0; i < N; i++) if (P(t[i])) { ...; break; }\<close>.\<close>

fun first_index :: "('a \<Rightarrow> bool) \<Rightarrow> 'a list \<Rightarrow> nat option" where
  "first_index P [] = None"
| "first_index P (x # xs) = (if P x then Some 0 else map_option Suc (first_index P xs))"

lemma first_index_Some:
  "first_index P xs = Some i \<longleftrightarrow> i < length xs \<and> P (xs ! i) \<and> (\<forall>j < i. \<not> P (xs ! j))"
proof (induction xs arbitrary: i)
  case Nil
  then show ?case by simp
next
  case (Cons x xs)
  show ?case
  proof (cases i)
    case 0
    then show ?thesis by auto
  next
    case (Suc k)
    then show ?thesis by (auto simp: Cons.IH less_Suc_eq_0_disj)
  qed
qed

lemma first_index_None: "first_index P xs = None \<longleftrightarrow> (\<forall>x \<in> set xs. \<not> P x)"
  by (induction xs) auto

lemma first_index_SomeD: "first_index P xs = Some i \<Longrightarrow> i < length xs \<and> P (xs ! i)"
  by (simp add: first_index_Some)

lemma first_index_NoneD: "first_index P xs = None \<Longrightarrow> i < length xs \<Longrightarrow> \<not> P (xs ! i)"
  by (simp add: first_index_None)

lemma first_index_lt: "first_index P xs = Some i \<Longrightarrow> i < length xs"
  by (simp add: first_index_Some)

lemma first_index_sat: "first_index P xs = Some i \<Longrightarrow> P (xs ! i)"
  by (simp add: first_index_Some)

text \<open>A loop whose body may fault.\<close>

fun foldo :: "('a \<Rightarrow> 's \<Rightarrow> 's option) \<Rightarrow> 'a list \<Rightarrow> 's \<Rightarrow> 's option" where
  "foldo f [] s = Some s"
| "foldo f (x # xs) s = do { s \<leftarrow> f x s; foldo f xs s }"

lemma foldo_append [simp]: "foldo f (xs @ ys) s = do { s \<leftarrow> foldo f xs s; foldo f ys s }"
  by (induction xs arbitrary: s) (simp_all add: bind_eq_Some_conv split: bind_splits)

lemma foldo_upt_run:
  assumes "\<And>k. k < n \<Longrightarrow> f k (st k) = Some (st (Suc k))"
  shows "foldo f [0..<n] (st 0) = Some (st n)"
  using assms by (induction n) simp_all

subsection \<open>Minima\<close>

text \<open>The running minimum of a loop.\<close>

lemma Min_insert2: "finite D \<Longrightarrow> Min (insert d (insert x D)) = Min (insert (if x < d then x else d) D)" for x :: "'a::linorder"
  by (cases "D = {}") (auto simp: min_def)

lemma Min_insert_if:
  fixes x :: "'a::linorder"
  assumes "finite D"
  shows "Min (insert m (insert x D)) = (if x < Min (insert m D) then x else Min (insert m D))"
proof -
  have "Min (insert x (insert m D)) = min x (Min (insert m D))" using assms by (intro Min_insert) simp_all
  then show ?thesis unfolding insert_commute [of m x] min_def by (metis leD le_less not_le)
qed

end
