(* ===== verification/Util_Crc.thy ===== *)
theory Util_Crc
  imports Prelude
begin

text \<open>
  \<open>util/crc.c\<close>: the two alternative implementations of the CRC16-CCITT, the table
  driven one that \<open>crc.h\<close> selects (\<open>CRC_CCITT_FAST_LUT\<close>) and the original one
  (\<open>CRC_CCITT_LEGACY\<close>), both against a bitwise shift register over the polynomial
  \<open>0x1021\<close>.
\<close>

definition crc_ccitt_lut :: "u16 list" where
  "crc_ccitt_lut =
  [ 0x0000, 0x1021, 0x2042, 0x3063, 0x4084, 0x50a5, 0x60c6, 0x70e7,
    0x8108, 0x9129, 0xa14a, 0xb16b, 0xc18c, 0xd1ad, 0xe1ce, 0xf1ef,
    0x1231, 0x0210, 0x3273, 0x2252, 0x52b5, 0x4294, 0x72f7, 0x62d6,
    0x9339, 0x8318, 0xb37b, 0xa35a, 0xd3bd, 0xc39c, 0xf3ff, 0xe3de,
    0x2462, 0x3443, 0x0420, 0x1401, 0x64e6, 0x74c7, 0x44a4, 0x5485,
    0xa56a, 0xb54b, 0x8528, 0x9509, 0xe5ee, 0xf5cf, 0xc5ac, 0xd58d,
    0x3653, 0x2672, 0x1611, 0x0630, 0x76d7, 0x66f6, 0x5695, 0x46b4,
    0xb75b, 0xa77a, 0x9719, 0x8738, 0xf7df, 0xe7fe, 0xd79d, 0xc7bc,
    0x48c4, 0x58e5, 0x6886, 0x78a7, 0x0840, 0x1861, 0x2802, 0x3823,
    0xc9cc, 0xd9ed, 0xe98e, 0xf9af, 0x8948, 0x9969, 0xa90a, 0xb92b,
    0x5af5, 0x4ad4, 0x7ab7, 0x6a96, 0x1a71, 0x0a50, 0x3a33, 0x2a12,
    0xdbfd, 0xcbdc, 0xfbbf, 0xeb9e, 0x9b79, 0x8b58, 0xbb3b, 0xab1a,
    0x6ca6, 0x7c87, 0x4ce4, 0x5cc5, 0x2c22, 0x3c03, 0x0c60, 0x1c41,
    0xedae, 0xfd8f, 0xcdec, 0xddcd, 0xad2a, 0xbd0b, 0x8d68, 0x9d49,
    0x7e97, 0x6eb6, 0x5ed5, 0x4ef4, 0x3e13, 0x2e32, 0x1e51, 0x0e70,
    0xff9f, 0xefbe, 0xdfdd, 0xcffc, 0xbf1b, 0xaf3a, 0x9f59, 0x8f78,
    0x9188, 0x81a9, 0xb1ca, 0xa1eb, 0xd10c, 0xc12d, 0xf14e, 0xe16f,
    0x1080, 0x00a1, 0x30c2, 0x20e3, 0x5004, 0x4025, 0x7046, 0x6067,
    0x83b9, 0x9398, 0xa3fb, 0xb3da, 0xc33d, 0xd31c, 0xe37f, 0xf35e,
    0x02b1, 0x1290, 0x22f3, 0x32d2, 0x4235, 0x5214, 0x6277, 0x7256,
    0xb5ea, 0xa5cb, 0x95a8, 0x8589, 0xf56e, 0xe54f, 0xd52c, 0xc50d,
    0x34e2, 0x24c3, 0x14a0, 0x0481, 0x7466, 0x6447, 0x5424, 0x4405,
    0xa7db, 0xb7fa, 0x8799, 0x97b8, 0xe75f, 0xf77e, 0xc71d, 0xd73c,
    0x26d3, 0x36f2, 0x0691, 0x16b0, 0x6657, 0x7676, 0x4615, 0x5634,
    0xd94c, 0xc96d, 0xf90e, 0xe92f, 0x99c8, 0x89e9, 0xb98a, 0xa9ab,
    0x5844, 0x4865, 0x7806, 0x6827, 0x18c0, 0x08e1, 0x3882, 0x28a3,
    0xcb7d, 0xdb5c, 0xeb3f, 0xfb1e, 0x8bf9, 0x9bd8, 0xabbb, 0xbb9a,
    0x4a75, 0x5a54, 0x6a37, 0x7a16, 0x0af1, 0x1ad0, 0x2ab3, 0x3a92,
    0xfd2e, 0xed0f, 0xdd6c, 0xcd4d, 0xbdaa, 0xad8b, 0x9de8, 0x8dc9,
    0x7c26, 0x6c07, 0x5c64, 0x4c45, 0x3ca2, 0x2c83, 0x1ce0, 0x0cc1,
    0xef1f, 0xff3e, 0xcf5d, 0xdf7c, 0xaf9b, 0xbfba, 0x8fd9, 0x9ff8,
    0x6e17, 0x7e36, 0x4e55, 0x5e74, 0x2e93, 0x3eb2, 0x0ed1, 0x1ef0 ]"

text \<open>\<open>Crc_addByte\<close> of the table driven implementation.  The index is at most 255.\<close>

definition Crc_addByte :: "u16 \<Rightarrow> u8 \<Rightarrow> u16" where
  "Crc_addByte crc byte =
     (let index = ucast byte XOR drop_bit 8 crc :: u16
      in crc_ccitt_lut ! unat index XOR push_bit 8 crc)"

text \<open>The loop of \<open>Crc_fromBuffer\<close> has \<open>Crc_addByte\<close> written out with an 8-bit index.\<close>

fun crc_loop :: "u16 \<Rightarrow> u8 list \<Rightarrow> u16" where
  "crc_loop crc [] = crc"
| "crc_loop crc (b # bs) =
     (let index = ucast (ucast b XOR drop_bit 8 crc :: u16) :: u8
      in crc_loop (crc_ccitt_lut ! unat index XOR push_bit 8 crc) bs)"

definition Crc_fromBuffer :: "u8 list \<Rightarrow> u16" where
  "Crc_fromBuffer buf = crc_loop 0xffff buf"

definition crc_word :: "u16 \<Rightarrow> u32 \<Rightarrow> u16" where
  "crc_word crc val =
     (let index = ucast (ucast (ucast (val AND 0xFF) :: u8) XOR drop_bit 8 crc :: u16) :: u8;
          crc = crc_ccitt_lut ! unat index XOR push_bit 8 crc;
          index = ucast (ucast (ucast (drop_bit 8 val AND 0xFF) :: u8) XOR drop_bit 8 crc :: u16) :: u8;
          crc = crc_ccitt_lut ! unat index XOR push_bit 8 crc;
          index = ucast (ucast (ucast (drop_bit 16 val AND 0xFF) :: u8) XOR drop_bit 8 crc :: u16) :: u8;
          crc = crc_ccitt_lut ! unat index XOR push_bit 8 crc;
          index = ucast (ucast (ucast (drop_bit 24 val AND 0xFF) :: u8) XOR drop_bit 8 crc :: u16) :: u8
      in crc_ccitt_lut ! unat index XOR push_bit 8 crc)"

definition Crc_fromBuffer32 :: "u32 list \<Rightarrow> u16" where
  "Crc_fromBuffer32 buf = foldl crc_word 0xffff buf"

text \<open>The \<open>CRC_CCITT_LEGACY\<close> alternative.\<close>

definition Crc_addByte_legacy :: "u16 \<Rightarrow> u8 \<Rightarrow> u16" where
  "Crc_addByte_legacy crc byte =
     (let crc = ucast (ucast (drop_bit 8 crc) :: u8) OR push_bit 8 crc;
          crc = crc XOR ucast byte;
          crc = crc XOR ucast (drop_bit 4 (ucast (crc AND 0xff) :: u8));
          crc = crc XOR push_bit 4 (push_bit 8 crc);
          crc = crc XOR push_bit 1 (push_bit 4 (crc AND 0xff))
      in crc)"

definition Crc_fromBuffer_legacy :: "u8 list \<Rightarrow> u16" where
  "Crc_fromBuffer_legacy buf = foldl Crc_addByte_legacy 0xffff buf"

definition Crc_fromBuffer32_legacy :: "u32 list \<Rightarrow> u16" where
  "Crc_fromBuffer32_legacy buf =
     foldl (\<lambda>crc val.
       (let crc = Crc_addByte_legacy crc (ucast (val AND 0xFF));
            crc = Crc_addByte_legacy crc (ucast (drop_bit 8 val AND 0xFF));
            crc = Crc_addByte_legacy crc (ucast (drop_bit 16 val AND 0xFF))
        in Crc_addByte_legacy crc (ucast (drop_bit 24 val AND 0xFF)))) 0xffff buf"

subsection \<open>Reference: a shift register\<close>

text \<open>One bit of the division by \<open>x^16 + x^12 + x^5 + 1\<close> (\<open>0x1021\<close> is the
  polynomial without its leading term), and the eight bits of a byte, most significant
  first.\<close>

definition crc_shift :: "u16 \<Rightarrow> u16" where
  "crc_shift r = (if bit r 15 then push_bit 1 r XOR 0x1021 else push_bit 1 r)"

definition crc_reference :: "u16 \<Rightarrow> u8 \<Rightarrow> u16" where
  "crc_reference crc byte = (crc_shift ^^ 8) (crc XOR push_bit 8 (ucast byte))"

text \<open>The contribution of the index to the new CRC, in closed form.\<close>

definition crc_tab :: "u16 \<Rightarrow> u16" where
  "crc_tab i =
     (let c = i XOR drop_bit 4 (i AND 0xff);
          c = c XOR push_bit 12 c
      in c XOR push_bit 5 (c AND 0xff))"

text \<open>All exclusive ors of a list of words, in the order of the subsets' numbers: a linear
  function tabulated from its values on the powers of two.\<close>

fun xor_span :: "u16 list \<Rightarrow> u16 list" where
  "xor_span [] = [0]"
| "xor_span (b # bs) = (let t = xor_span bs in t @ map (\<lambda>x. x XOR b) t)"

subsection \<open>Word lemmas\<close>

lemmas xor_distribs = push_bit_xor drop_bit_xor bit.conj_xor_distrib bit.conj_xor_distrib2

lemma word_xor_zeroD: "(a::'a::len word) XOR b = 0 \<Longrightarrow> a = b"
  by (metis xor.assoc xor.left_neutral xor.right_neutral bit.xor_self)

lemma word_xor_right_cancel: "(a::'a::len word) XOR c = b XOR c \<Longrightarrow> a = b"
  by (drule arg_cong [where f = "\<lambda>x. x XOR c"]) (simp add: xor.assoc)

lemma word_xor_left_cancel: "c XOR (a::'a::len word) = c XOR b \<Longrightarrow> a = b"
  by (drule word_xor_right_cancel [of a c b, unfolded xor.commute [of _ c]])

lemma low_of_push: "take_bit 8 (push_bit 8 (c::u16)) = 0" "push_bit 12 (push_bit 8 (c::u16)) = 0"
  by (rule bit_word_eqI, auto simp: bit_simps)+

lemma push_low: "push_bit 8 (take_bit 8 c) = push_bit 8 (c::u16)"
  by (rule bit_word_eqI) (auto simp: bit_simps dest: bit_imp_le_length)

lemma split_u16: "(c::u16) = push_bit 8 (ucast (ucast (drop_bit 8 c)::u8)) XOR take_bit 8 c"
  by (rule bit_word_eqI) (auto simp: bit_simps dest: bit_imp_le_length)

lemma swap_bytes:
  "ucast (ucast (drop_bit 8 (crc::u16)) :: u8) OR push_bit 8 crc = drop_bit 8 crc XOR push_bit 8 crc"
  by (rule bit_word_eqI) (auto simp: bit_simps dest: bit_imp_le_length)

lemma nibble_u8: "ucast (drop_bit 4 (ucast (take_bit 8 c) :: u8)) = drop_bit 4 (take_bit 8 (c::u16))"
  by (rule bit_word_eqI) (auto simp: bit_simps dest: bit_imp_le_length)

lemma index_lt: "unat (ucast (b::u8) XOR drop_bit 8 crc :: u16) < 256"
proof -
  have "take_bit 8 (ucast (b::u8) XOR drop_bit 8 crc :: u16) = ucast (b::u8) XOR drop_bit 8 crc"
    by (rule bit_word_eqI) (auto simp: bit_simps dest: bit_imp_le_length)
  then have eq: "unat (ucast (b::u8) XOR drop_bit 8 crc :: u16) =
      take_bit 8 (unat (ucast (b::u8) XOR drop_bit 8 crc :: u16))"
    by (metis unsigned_take_bit_eq)
  have "take_bit 8 m < (256::nat)" for m
    using take_bit_nat_less_exp [of 8 m] by simp
  then show ?thesis by (subst eq)
qed

lemma index_u8:
  "unat (ucast (ucast (b::u8) XOR drop_bit 8 crc :: u16) :: u8) = unat (ucast b XOR drop_bit 8 crc :: u16)"
  using index_lt [of b crc] by (simp add: unsigned_ucast_eq take_bit_nat_eq_self)

lemma funpow_8: "(f ^^ 8) x = f (f (f (f (f (f (f (f x)))))))"
  by (simp add: eval_nat_numeral)

subsection \<open>The table is the closed form\<close>

lemma length_xor_span: "length (xor_span bs) = 2 ^ length bs"
  by (induction bs) (simp_all add: Let_def)

lemma xor_span_nth:
  fixes w :: u16
  assumes f: "xor_linear f"
  shows "unat w < 2 ^ n \<Longrightarrow> xor_span (map (\<lambda>k. f (push_bit k 1)) (rev [0..<n])) ! unat w = f w"
proof (induction n arbitrary: w)
  case 0
  then have "w = 0" by (simp add: unat_eq_0)
  then show ?case by (simp add: xor_linear_zero [OF f])
next
  case (Suc n)
  from Suc.prems show ?case
  proof (cases rule: split_top_bit)
    case low
    with Suc.IH [of w] show ?thesis by (simp add: Let_def nth_append length_xor_span)
  next
    case (high v)
    then have "f w = f v XOR f (push_bit n 1)" using f by (simp add: xor_linear_def)
    with high Suc.IH [of v] show ?thesis
      by (simp add: Let_def nth_append length_xor_span)
  qed
qed

lemma crc_tab_linear: "crc_tab (a XOR b) = crc_tab a XOR crc_tab b"
  by (simp add: crc_tab_def Let_def xor_distribs ac_simps)

lemma lut_span: "crc_ccitt_lut = xor_span (map (\<lambda>k. crc_tab (push_bit k 1)) (rev [0..<8]))"
  by (simp add: upt_rec crc_tab_def Let_def crc_ccitt_lut_def)

lemma lut_nth: "unat i < 256 \<Longrightarrow> crc_ccitt_lut ! unat i = crc_tab i"
  unfolding lut_span by (rule xor_span_nth) (simp_all add: xor_linear_def crc_tab_linear)

lemma Crc_addByte_tab:
  "Crc_addByte crc b = crc_tab (ucast b XOR drop_bit 8 crc) XOR push_bit 8 crc"
  by (simp add: Crc_addByte_def lut_nth index_lt)

lemma crc_step_addByte:
  "crc_ccitt_lut ! unat (ucast (ucast (b::u8) XOR drop_bit 8 crc :: u16) :: u8) XOR push_bit 8 crc =
     Crc_addByte crc b"
  by (simp add: Crc_addByte_def index_u8)

lemma crc_loop_foldl: "crc_loop crc bs = foldl Crc_addByte crc bs"
  by (induction bs arbitrary: crc) (simp_all add: crc_step_addByte)

lemma Crc_fromBuffer_foldl: "Crc_fromBuffer buf = foldl Crc_addByte 0xffff buf"
  by (simp add: Crc_fromBuffer_def crc_loop_foldl)

lemma crc_tab_high: "crc_tab (push_bit 8 c) = push_bit 8 c"
  by (simp add: crc_tab_def and_ff low_of_push del: push_bit_push_bit)

subsection \<open>The legacy implementation\<close>

lemma legacy_tab:
  "Crc_addByte_legacy crc b = crc_tab (ucast b XOR drop_bit 8 crc) XOR push_bit 8 crc"
proof -
  have "Crc_addByte_legacy crc b = crc_tab ((drop_bit 8 crc XOR push_bit 8 crc) XOR ucast b)"
    unfolding Crc_addByte_legacy_def crc_tab_def Let_def and_ff swap_bytes nibble_u8 push_bit_push_bit
    by (simp del: push_bit_xor take_bit_xor drop_bit_xor)
  then show ?thesis by (simp add: crc_tab_linear crc_tab_high ac_simps)
qed

lemma legacy_eq: "Crc_addByte_legacy = Crc_addByte"
  by (intro ext) (simp add: legacy_tab Crc_addByte_tab)

subsection \<open>The shift register\<close>

lemma crc_shift_linear: "crc_shift (a XOR b) = crc_shift a XOR crc_shift b"
  by (auto simp: crc_shift_def push_bit_xor bit_xor_iff ac_simps)

lemma crc_shift_pow_linear: "(crc_shift ^^ n) (a XOR b) = (crc_shift ^^ n) a XOR (crc_shift ^^ n) b"
  by (induction n) (simp_all add: crc_shift_linear)

lemma crc_shift_pow_low: "n \<le> 8 \<Longrightarrow> (crc_shift ^^ n) (take_bit 8 c) = push_bit n (take_bit 8 c)"
proof (induction n)
  case (Suc n)
  then have "8 \<le> 15 - n" by simp
  then have "\<not> bit (push_bit n (take_bit 8 c)) 15" by (auto simp: bit_simps)
  with Suc show ?case by (simp add: crc_shift_def)
qed simp

lemma crc_shift_low: "(crc_shift ^^ 8) (take_bit 8 c) = push_bit 8 c"
  by (simp add: crc_shift_pow_low push_low)

lemma crc_shift_high: "(crc_shift ^^ 8) (push_bit 8 (ucast (b::u8))) = crc_tab (ucast b)"
proof -
  have lin: "xor_linear (\<lambda>b::u8. (crc_shift ^^ 8) (push_bit 8 (ucast b)))"
    "xor_linear (\<lambda>b::u8. crc_tab (ucast b))"
    by (simp_all add: xor_linear_def push_bit_xor crc_shift_pow_linear crc_tab_linear unsigned_xor_eq)
  show ?thesis
  proof (rule xor_linear_eqI [OF lin])
    fix k :: nat assume "k < LENGTH(8)"
    then have "k \<in> {0, 1, 2, 3, 4, 5, 6, 7}" by auto
    then show "(crc_shift ^^ 8) (push_bit 8 (ucast (push_bit k 1::u8))) = crc_tab (ucast (push_bit k 1::u8))"
      by (elim insertE emptyE) (simp_all add: crc_shift_def crc_tab_def funpow_8)
  qed
qed

lemma crc_shift_high_drop: "(crc_shift ^^ 8) (push_bit 8 (drop_bit 8 c)) = crc_tab (drop_bit 8 c)"
  using crc_shift_high [of "ucast (drop_bit 8 c)"] by (simp only: high_byte)

lemma reference_tab: "crc_reference crc b = crc_tab (ucast b XOR drop_bit 8 crc) XOR push_bit 8 crc"
proof -
  have "crc_reference crc b =
      (crc_shift ^^ 8) ((push_bit 8 (ucast (ucast (drop_bit 8 crc)::u8)) XOR take_bit 8 crc)
         XOR push_bit 8 (ucast b))"
    unfolding crc_reference_def by (subst (1) split_u16 [of crc]) (rule refl)
  also have "\<dots> = crc_tab (drop_bit 8 crc) XOR push_bit 8 crc XOR crc_tab (ucast b)"
    by (simp only: crc_shift_pow_linear crc_shift_low crc_shift_high crc_shift_high_drop high_byte xor.assoc)
  finally show ?thesis by (simp add: crc_tab_linear ac_simps)
qed

lemma reference_eq: "crc_reference = Crc_addByte"
  by (intro ext) (simp add: reference_tab Crc_addByte_tab)

lemma crc_shift_zero: "crc_shift r = 0 \<longleftrightarrow> r = 0"
proof
  assume r: "crc_shift r = 0"
  have "\<not> bit r 15"
  proof
    assume "bit r 15"
    with r have "push_bit 1 r XOR 0x1021 = 0" by (simp add: crc_shift_def)
    then have "bit (push_bit 1 r XOR 0x1021) 0 = bit (0::u16) 0" by simp
    then show False unfolding bit_xor_iff bit_push_bit_iff by simp
  qed
  with r have z: "push_bit 1 r = 0" by (simp add: crc_shift_def)
  show "r = 0"
  proof (rule bit_word_eqI)
    fix n assume n: "n < LENGTH(16)"
    show "bit r n = bit 0 n"
    proof (cases "n = 15")
      case True
      with \<open>\<not> bit r 15\<close> show ?thesis by simp
    next
      case False
      with n have "bit (push_bit 1 r) (Suc n) = bit r n" unfolding bit_push_bit_iff by simp
      with z show ?thesis by simp
    qed
  qed
qed (simp add: crc_shift_def)

lemma crc_shift_pow_zero: "(crc_shift ^^ n) r = 0 \<longleftrightarrow> r = 0"
  by (induction n) (simp_all add: crc_shift_zero)

lemma crc_shift_pow_inj: "(crc_shift ^^ n) a = (crc_shift ^^ n) b \<Longrightarrow> a = b"
  by (metis crc_shift_pow_linear crc_shift_pow_zero word_xor_zeroD bit.xor_self)

subsection \<open>Injectivity\<close>

lemma Crc_addByte_reference: "Crc_addByte crc b = (crc_shift ^^ 8) (crc XOR push_bit 8 (ucast b))"
  by (simp flip: reference_eq add: crc_reference_def)

lemma Crc_addByte_inj: "Crc_addByte c b = Crc_addByte c' b \<Longrightarrow> c = c'"
  unfolding Crc_addByte_reference
  by (drule crc_shift_pow_inj) (rule word_xor_right_cancel)

lemma foldl_Crc_inj: "foldl Crc_addByte c bs = foldl Crc_addByte c' bs \<Longrightarrow> c = c'"
  by (induction bs arbitrary: c c') (auto dest: Crc_addByte_inj)

text \<open>Two bytes are sixteen shifts of the register with both bytes added at its top.\<close>

lemma Crc_addByte_twice:
  "Crc_addByte (Crc_addByte s a) b =
     (crc_shift ^^ 16) (s XOR (push_bit 8 (ucast a) XOR ucast b))"
proof -
  have low: "(crc_shift ^^ 8) (ucast (b::u8)) = push_bit 8 (ucast b)"
  proof -
    have "take_bit 8 (ucast b :: u16) = ucast b"
      by (rule bit_word_eqI) (auto simp: bit_simps dest: bit_imp_le_length)
    with crc_shift_low [of "ucast b"] show ?thesis by simp
  qed
  have "Crc_addByte (Crc_addByte s a) b =
      (crc_shift ^^ 8) ((crc_shift ^^ 8) (s XOR push_bit 8 (ucast a)) XOR (crc_shift ^^ 8) (ucast b))"
    by (simp add: Crc_addByte_reference low)
  also have "\<dots> = (crc_shift ^^ (8 + 8)) ((s XOR push_bit 8 (ucast a)) XOR ucast b)"
    by (simp only: funpow_add o_apply crc_shift_pow_linear)
  finally show ?thesis by (simp add: xor.assoc)
qed

lemma two_bytes_inj:
  assumes "push_bit 8 (ucast (a::u8)) XOR ucast (b::u8) = push_bit 8 (ucast (a'::u8)) XOR (ucast (b'::u8) :: u16)"
  shows "a = a' \<and> b = b'"
proof -
  have hi: "ucast (drop_bit 8 (push_bit 8 (ucast a) XOR ucast b :: u16)) = a" for a b :: u8
    by (rule bit_word_eqI) (auto simp: bit_simps dest: bit_imp_le_length)
  have lo: "ucast (push_bit 8 (ucast a) XOR ucast b :: u16) = b" for a b :: u8
    by (rule bit_word_eqI) (auto simp: bit_simps dest: bit_imp_le_length)
  from assms show ?thesis by (metis hi lo)
qed

lemma foldl_Crc_burst:
  assumes "foldl Crc_addByte s (xs @ [a, b] @ ys) = foldl Crc_addByte s (xs @ [a', b'] @ ys)"
  shows "a = a' \<and> b = b'"
proof -
  let ?s = "foldl Crc_addByte s xs"
  from assms have "Crc_addByte (Crc_addByte ?s a) b = Crc_addByte (Crc_addByte ?s a') b'"
    by (auto dest: foldl_Crc_inj)
  then have "?s XOR (push_bit 8 (ucast a) XOR ucast b) = ?s XOR (push_bit 8 (ucast a') XOR ucast b')"
    unfolding Crc_addByte_twice by (rule crc_shift_pow_inj)
  then have "push_bit 8 (ucast a) XOR ucast b = push_bit 8 (ucast a') XOR (ucast b' :: u16)"
    by (rule word_xor_left_cancel)
  then show ?thesis by (rule two_bytes_inj)
qed

lemma low_byte_u32: "ucast ((v::u32) AND 0xFF) = (ucast v :: u8)"
  unfolding and_ff by (rule bit_word_eqI) (auto simp: bit_simps)

lemma crc_word_bytes:
  "crc_word crc v = foldl Crc_addByte crc [ucast v, ucast (drop_bit 8 v), ucast (drop_bit 16 v), ucast (drop_bit 24 v)]"
  unfolding crc_word_def Let_def crc_step_addByte low_byte_u32 by simp

subsection \<open>Properties\<close>

text \<open>C40: the table driven CRC that the build selects, the original implementation kept as
  an alternative, and the bitwise division by the polynomial \<open>0x1021\<close>
  (\<open>x^16 + x^12 + x^5 + 1\<close>) give the same result on every buffer.\<close>

theorem crc_implementations_agree:
  "Crc_fromBuffer buf = Crc_fromBuffer_legacy buf \<and>
   Crc_fromBuffer buf = foldl crc_reference 0xffff buf"
  by (simp add: Crc_fromBuffer_foldl Crc_fromBuffer_legacy_def legacy_eq reference_eq)

text \<open>The CRC over 32-bit words is the CRC over their bytes, least significant first,
  in both implementations.\<close>

lemma crc_words_are_bytes:
  "Crc_fromBuffer32 ws =
     Crc_fromBuffer (concat (map (\<lambda>v. [ucast v, ucast (drop_bit 8 v), ucast (drop_bit 16 v), ucast (drop_bit 24 v)]) ws))
   \<and> Crc_fromBuffer32_legacy ws = Crc_fromBuffer32 ws"
proof -
  have "foldl crc_word c ws =
      foldl Crc_addByte c (concat (map (\<lambda>v. [ucast v, ucast (drop_bit 8 v), ucast (drop_bit 16 v), ucast (drop_bit 24 v)]) ws))" for c
    by (induction ws arbitrary: c) (simp_all add: crc_word_bytes)
  then show ?thesis
    by (simp add: Crc_fromBuffer32_def Crc_fromBuffer_foldl Crc_fromBuffer32_legacy_def Let_def
        legacy_eq low_byte_u32 crc_word_bytes cong: foldl_cong)
qed

text \<open>The CRC detects every error burst of up to sixteen bits within two adjacent
  bytes, wherever it is in the buffer.\<close>

lemma crc_detects_two_byte_burst:
  assumes "(a, b) \<noteq> (a', b')"
  shows "Crc_fromBuffer (xs @ [a, b] @ ys) \<noteq> Crc_fromBuffer (xs @ [a', b'] @ ys)"
  using assms foldl_Crc_burst unfolding Crc_fromBuffer_foldl by blast

lemma crc_detects_two_byte_burst_example:
  "Crc_fromBuffer ([1] @ [2, 3] @ [4]) \<noteq> Crc_fromBuffer ([1] @ [2, 5] @ [4])"
  by (rule crc_detects_two_byte_burst) simp

end
