(* ===== verification/Util_Num.thy ===== *)
theory Util_Num
  imports Prelude
begin

text \<open>
  \<open>util/pack.c\<close> (little endian packing of integers) and \<open>util/util.c\<close> (comparison of
  wrapping counters, bit count).  A buffer is the list of the bytes from the address passed
  by the caller on; reading or writing outside of it is \<open>None\<close>.
\<close>

fun unpack_loop :: "u8 list \<Rightarrow> nat \<Rightarrow> u32 \<Rightarrow> u32 option" where
  "unpack_loop bytes 0 result = Some result"
| "unpack_loop bytes (Suc n) result =
     do { b \<leftarrow> rd bytes n; unpack_loop bytes n (push_bit 8 result OR ucast b) }"

definition Pack_unpackLe :: "u8 list \<Rightarrow> nat \<Rightarrow> u32 option" where
  "Pack_unpackLe bytes num_bytes = unpack_loop bytes num_bytes 0"

fun pack_loop :: "u8 list \<Rightarrow> nat \<Rightarrow> u32 \<Rightarrow> nat \<Rightarrow> u8 list option" where
  "pack_loop buf p value 0 = Some buf"
| "pack_loop buf p value (Suc n) =
     do { buf \<leftarrow> wr buf p (ucast (value AND 0xff)); pack_loop buf (Suc p) (drop_bit 8 value) n }"

definition Pack_packLe :: "u8 list \<Rightarrow> u32 \<Rightarrow> nat \<Rightarrow> u8 list option" where
  "Pack_packLe bytes value num_bytes = pack_loop bytes 0 value num_bytes"

definition Util_isLtUint32 :: "u32 \<Rightarrow> u32 \<Rightarrow> bool" where
  "Util_isLtUint32 a b \<longleftrightarrow> sint (a - b) < 0"

definition Util_isGtOrEqUint32 :: "u32 \<Rightarrow> u32 \<Rightarrow> bool" where
  "Util_isGtOrEqUint32 a b \<longleftrightarrow> \<not> Util_isLtUint32 a b"

definition Util_isGtUint32 :: "u32 \<Rightarrow> u32 \<Rightarrow> bool" where
  "Util_isGtUint32 a b \<longleftrightarrow> \<not> Util_isGtOrEqUint32 b a"

definition Util_isSmallest :: "u32 \<Rightarrow> u32 \<Rightarrow> u32 \<Rightarrow> bool" where
  "Util_isSmallest a b c \<longleftrightarrow> Util_isLtUint32 a b \<and> Util_isLtUint32 b c"

definition Util_inBetween :: "u32 \<Rightarrow> u32 \<Rightarrow> u32 \<Rightarrow> bool" where
  "Util_inBetween a b c \<longleftrightarrow> Util_isGtOrEqUint32 b a \<and> Util_isGtOrEqUint32 c b"

function bitcount_loop :: "u8 \<Rightarrow> u8 \<Rightarrow> u8" where
  "bitcount_loop value count =
     (if value = 0 then count else bitcount_loop (drop_bit 1 value) (count + (value AND 1)))"
  by auto

lemma drop_bit_1_less: "(v::u8) \<noteq> 0 \<Longrightarrow> unat (drop_bit 1 v) < unat v"
proof -
  assume "v \<noteq> 0"
  then have "0 < unat v" by (simp add: unat_gt_0)
  moreover have "unat (drop_bit 1 v) = unat v div 2"
    by (subst unat_drop_bit_eq) (simp only: drop_bit_eq_div power_one_right)
  ultimately show ?thesis by simp
qed

termination bitcount_loop
  using drop_bit_1_less by (relation "measure (\<lambda>(value, _). unat value)") auto

declare bitcount_loop.simps [simp del]

definition Util_bitCountU8 :: "u8 \<Rightarrow> u8" where
  "Util_bitCountU8 value = bitcount_loop value 0"

subsection \<open>Packing\<close>

text \<open>The little endian bytes of a value.\<close>

fun le_bytes :: "u32 \<Rightarrow> nat \<Rightarrow> u8 list" where
  "le_bytes value 0 = []"
| "le_bytes value (Suc n) = ucast value # le_bytes (drop_bit 8 value) n"

lemma length_le_bytes [simp]: "length (le_bytes v n) = n"
  by (induction v n rule: le_bytes.induct) auto

text \<open>The number of little endian bytes.\<close>

fun le_val :: "u8 list \<Rightarrow> u32" where
  "le_val [] = 0"
| "le_val (b # bs) = ucast b OR push_bit 8 (le_val bs)"

definition le16 :: "u16 \<Rightarrow> u8 list" where "le16 v = le_bytes (ucast v) 2"
definition le32 :: "u32 \<Rightarrow> u8 list" where "le32 v = le_bytes v 4"

lemma le_val_le_bytes: "le_val (le_bytes v n) = take_bit (8 * n) v"
proof (induction v n rule: le_bytes.induct)
  case (2 v n)
  have "ucast (ucast v :: u8) OR push_bit 8 (take_bit (8 * n) (drop_bit 8 v)) = take_bit (8 * Suc n) v"
    by (rule bit_word_eqI) (auto simp: bit_simps)
  with 2 show ?case by simp
qed simp

lemma le_val_le16: "ucast (le_val (le16 v)) = v"
  unfolding le16_def le_val_le_bytes by (rule bit_word_eqI) (auto simp: bit_simps)

lemma le_val_le32: "le_val (le32 v) = v"
  unfolding le32_def le_val_le_bytes by (rule bit_word_eqI) (auto simp: bit_simps)

lemma le_bytes_snoc: "le_bytes v (Suc n) = le_bytes v n @ [ucast (drop_bit (8 * n) v)]"
  by (induction v n rule: le_bytes.induct) (auto simp: add.commute)

lemma pack_loop_writes:
  "p + n \<le> length buf \<Longrightarrow> pack_loop buf p v n = Some (take p buf @ le_bytes v n @ drop (p + n) buf)"
proof (induction buf p v n rule: pack_loop.induct)
  case (2 buf p v n)
  have "ucast (v AND 0xff) = (ucast v :: u8)" unfolding and_ff by (rule bit_word_eqI) (auto simp: bit_simps)
  with 2 show ?case by (simp add: wr_in upd_conv_take_nth_drop min_absorb2 add.commute [of n p])
qed simp

lemma unpack_loop_acc:
  "n \<le> length bs \<Longrightarrow> unpack_loop bs n r = map_option (\<lambda>x. push_bit (8 * n) r OR x) (unpack_loop bs n 0)"
proof (induction n arbitrary: r)
  case (Suc n)
  have IH: "unpack_loop bs n x = map_option (\<lambda>y. push_bit (8 * n) x OR y) (unpack_loop bs n 0)" for x
    using Suc.IH [of x] Suc.prems by linarith
  have "rd bs n = Some (bs ! n)" using Suc.prems by (simp add: rd_in)
  moreover have "push_bit (8 * n) (push_bit 8 r OR x) = push_bit (8 * Suc n) r OR push_bit (8 * n) x" for x
    by (simp only: push_bit_or push_bit_push_bit mult_Suc_right add.commute)
  ultimately show ?case
    using IH [of "push_bit 8 r OR ucast (bs ! n)"] IH [of "ucast (bs ! n)"]
    by (cases "unpack_loop bs n 0") (simp_all only: unpack_loop.simps Option.bind.simps option.map or.assoc
      push_bit_of_0 or.left_neutral)
qed simp

lemma unpack_loop_take: "n \<le> m \<Longrightarrow> unpack_loop (take m bs) n r = unpack_loop bs n r"
proof (induction n arbitrary: r)
  case (Suc n)
  then have "rd (take m bs) n = rd bs n" by (simp add: rd_def)
  with Suc show ?case by (simp cong: Option.bind_cong)
qed simp

lemma take_bit_8_or: "take_bit (8 * Suc n) (v::u32) = push_bit (8 * n) (ucast (ucast (drop_bit (8 * n) v) :: u8)) OR take_bit (8 * n) v"
  by (rule bit_word_eqI) (auto simp: bit_simps)

lemma unpack_le_bytes: "unpack_loop (le_bytes v n @ rest) n 0 = Some (take_bit (8 * n) v)"
proof (induction n arbitrary: rest)
  case (Suc n)
  have "rd (le_bytes v (Suc n) @ rest) n = Some (ucast (drop_bit (8 * n) v))"
    unfolding le_bytes_snoc by (simp add: rd_def nth_append)
  moreover have "unpack_loop (le_bytes v (Suc n) @ rest) n 0 = Some (take_bit (8 * n) v)"
    unfolding le_bytes_snoc using Suc.IH [of "ucast (drop_bit (8 * n) v) # rest"] by simp
  ultimately show ?case
    using unpack_loop_acc [of n "le_bytes v (Suc n) @ rest" "ucast (ucast (drop_bit (8 * n) v) :: u8)"]
    by (simp add: take_bit_8_or del: le_bytes.simps mult_Suc_right)
qed simp

subsection \<open>Wrapping counters and bit count\<close>

lemma Util_isLtUint32_iff: "Util_isLtUint32 a b \<longleftrightarrow> 2 ^ 31 \<le> unat (a - b)"
proof -
  have "sint (a - b) < 0 \<longleftrightarrow> bit (a - b) 31"
    by (simp add: not_le flip: bit_last_iff)
  also have "\<dots> \<longleftrightarrow> odd (unat (a - b) div 2 ^ 31)"
    unfolding bit_iff_odd [symmetric] by (simp add: bit_unsigned_iff)
  also have "\<dots> \<longleftrightarrow> 2 ^ 31 \<le> unat (a - b)"
    using unat_lt_32 [of "a - b"] div_less [of "unat (a - b)" "2 ^ 31"]
      div_nat_eqI [of "2 ^ 31" 1 "unat (a - b)"] by (cases "2 ^ 31 \<le> unat (a - b)") (simp_all add: not_le)
  finally show ?thesis by (simp add: Util_isLtUint32_def)
qed

lemma window_diff:
  assumes "i < 2 ^ 31" "j < 2 ^ 31"
  shows "2 ^ 31 \<le> unat ((base + of_nat i) - (base + of_nat j) :: u32) \<longleftrightarrow> i < j"
proof -
  have u: "unat (of_nat i :: u32) = i" "unat (of_nat j :: u32) = j"
    using assms by (simp_all add: unat_of_nat_small)
  have "(base + of_nat i) - (base + of_nat j) = (of_nat i - of_nat j :: u32)" by simp
  then show ?thesis using assms u by (auto simp: unat_sub_if_size word_size)
qed

lemma Util_isLtUint32_window:
  "i < 2 ^ 31 \<Longrightarrow> j < 2 ^ 31 \<Longrightarrow> Util_isLtUint32 (base + of_nat i) (base + of_nat j) \<longleftrightarrow> i < j"
  unfolding Util_isLtUint32_iff by (rule window_diff)

lemma bits_drop_1: "{n. bit (drop_bit 1 v) n} = {n. bit (v :: u8) (Suc n)}"
  by (auto simp: bit_simps)

lemma card_bits: "card {n. bit v n} = (if bit v 0 then 1 else 0) + card {n. bit (v::u8) (Suc n)}"
proof -
  have eq: "{n. bit v n} = {n::nat. n = 0 \<and> bit v 0} \<union> Suc ` {n. bit v (Suc n)}"
    by (auto simp: image_iff) (metis not0_implies_Suc)+
  have fin: "finite {n. bit v (Suc n)}"
    by (rule finite_subset [of _ "{..<8}"]) (auto dest: bit_imp_le_length)
  have "card ({n::nat. n = 0 \<and> bit v 0} \<union> Suc ` {n. bit v (Suc n)}) =
      card {n::nat. n = 0 \<and> bit v 0} + card (Suc ` {n. bit v (Suc n)})"
    by (intro card_Un_disjnt) (auto simp: fin disjnt_def)
  then show ?thesis unfolding eq by (simp add: card_image)
qed

lemma bitcount_loop_card: "bitcount_loop v c = c + of_nat (card {n. bit v n})"
proof (induction v c rule: bitcount_loop.induct)
  case (1 v c)
  show ?case
  proof (cases "v = 0")
    case False
    have "v AND 1 = (if bit v 0 then 1 else 0)" by (simp add: and_one_eq bit_0 odd_iff_mod_2_eq_one)
    with 1 False show ?thesis
      unfolding bitcount_loop.simps [of v c] card_bits [of v] bits_drop_1 by simp
  qed (simp add: bitcount_loop.simps)
qed

subsection \<open>Properties\<close>

text \<open>Packing a value into a buffer and unpacking it gives the value back, truncated to
  the packed bytes, and the rest of the buffer is unchanged.\<close>

lemma pack_roundtrip:
  assumes "n \<le> length buf"
  shows "\<exists>buf'. Pack_packLe buf value n = Some buf' \<and> length buf' = length buf \<and>
     drop n buf' = drop n buf \<and> Pack_unpackLe buf' n = Some (take_bit (8 * n) value)"
  using assms pack_loop_writes [of 0 n buf "value"] unpack_le_bytes [of "value" n "drop n buf"]
  by (simp add: Pack_packLe_def Pack_unpackLe_def)

lemma pack_roundtrip_example:
  "\<exists>buf'. Pack_packLe [1, 2, 3, 4] 0xABCDEF 3 = Some buf' \<and> length buf' = length [1, 2, 3, 4::u8] \<and>
     drop 3 buf' = [4] \<and> Pack_unpackLe buf' 3 = Some 0xABCDEF"
  using pack_roundtrip [of 3 "[1, 2, 3, 4]" "0xABCDEF"] by simp

text \<open>The comparisons of wrapping 32-bit counters order three counter values that lie
  less than half of the range after a common base as their distances from the base are
  ordered, whether or not the counter wraps in between.  The middle test is strict: it is
  the order of three distinct values.\<close>

lemma counter_order:
  assumes "i < 2 ^ 31" "j < 2 ^ 31" "k < 2 ^ 31"
  shows "(Util_isLtUint32 (base + of_nat i) (base + of_nat j) \<longleftrightarrow> i < j) \<and>
     (Util_isGtUint32 (base + of_nat i) (base + of_nat j) \<longleftrightarrow> j < i) \<and>
     (Util_isSmallest (base + of_nat i) (base + of_nat j) (base + of_nat k) \<longleftrightarrow> i < j \<and> j < k) \<and>
     (Util_inBetween (base + of_nat i) (base + of_nat j) (base + of_nat k) \<longleftrightarrow> i \<le> j \<and> j \<le> k)"
  using assms
  by (simp add: Util_isSmallest_def Util_inBetween_def Util_isGtUint32_def Util_isGtOrEqUint32_def
      Util_isLtUint32_window not_less not_le)

lemma counter_order_example:
  "Util_isLtUint32 (0xFFFFFFF0 + of_nat 5) (0xFFFFFFF0 + of_nat 100) \<and>
   \<not> Util_isSmallest (0xFFFFFFF0 + of_nat 5) (0xFFFFFFF0 + of_nat 5) (0xFFFFFFF0 + of_nat 100)"
  using counter_order [of 5 100 100 "0xFFFFFFF0"] counter_order [of 5 5 100 "0xFFFFFFF0"] by simp

text \<open>The bit count loop ends and counts the one bits.\<close>

lemma bit_count:
  "Util_bitCountU8 value = of_nat (card {n. bit value n})"
  by (simp add: Util_bitCountU8_def bitcount_loop_card)

end
