(* ===== verification/Util_Tlv.thy ===== *)
theory Util_Tlv
  imports Prelude
begin

text \<open>
  \<open>util/tlv.c\<close>: the encoder and decoder of type-length-value items.  All sizes and
  indices are the 8-bit integers of the C structures, so that subtractions and increments
  wrap; every access to the buffer is checked and an access outside of it is \<open>None\<close>.

  An item's value is a pointer: it is modelled by the bytes found from that address on, of
  which the first \<open>it_length\<close> are the value.
\<close>

datatype tlv_res = TLV_RES_OK | TLV_RES_ERROR | TLV_RES_END

record tlv_item =
  it_value :: "u8 list"
  it_type :: u16
  it_length :: u8

record tlv_record =
  tlv_buffer :: "u8 list"
  tlv_length :: u8
  tlv_index :: u8

definition Tlv_init :: "u8 list \<Rightarrow> u8 \<Rightarrow> tlv_record" where
  "Tlv_init buffer len = \<lparr>tlv_buffer = buffer, tlv_length = len, tlv_index = 0\<rparr>"

definition Tlv_Decode_getNextItem ::
  "tlv_record \<Rightarrow> (tlv_res \<times> tlv_record \<times> tlv_item option) option" where
  "Tlv_Decode_getNextItem rcd =
     (let remaining_bytes = tlv_length rcd - tlv_index rcd in
      if remaining_bytes = 0 then Some (TLV_RES_END, rcd, None)
      else if remaining_bytes < 3 then Some (TLV_RES_ERROR, rcd, None)
      else do {
        b0 \<leftarrow> rd (tlv_buffer rcd) (unat (tlv_index rcd));
        b1 \<leftarrow> rd (tlv_buffer rcd) (unat (tlv_index rcd) + 1);
        let type = (ucast (b0 AND 0xFF) :: u16);
        let len = b1 AND 0x7f;
        let type_extended = (b1 AND 0x80 \<noteq> 0);
        let rcd = rcd\<lparr>tlv_index := tlv_index rcd + 2\<rparr>;
        (type, rcd) \<leftarrow>
          (if type_extended
           then do {
             b2 \<leftarrow> rd (tlv_buffer rcd) (unat (tlv_index rcd));
             Some (type + push_bit 8 (ucast (b2 AND 0xFF)), rcd\<lparr>tlv_index := tlv_index rcd + 1\<rparr>)
           }
           else Some (type, rcd));
        let remaining_bytes = tlv_length rcd - tlv_index rcd;
        if remaining_bytes < len then Some (TLV_RES_ERROR, rcd, None)
        else
          Some (TLV_RES_OK, rcd\<lparr>tlv_index := tlv_index rcd + len\<rparr>,
            Some \<lparr>it_value = drop (unat (tlv_index rcd)) (tlv_buffer rcd), it_type = type, it_length = len\<rparr>)
      })"

definition Tlv_Encode_addItem :: "tlv_record \<Rightarrow> tlv_item \<Rightarrow> (tlv_res \<times> tlv_record) option" where
  "Tlv_Encode_addItem rcd item =
     (let remaining_bytes = tlv_length rcd - tlv_index rcd in
      if it_length item > 127 then Some (TLV_RES_ERROR, rcd)
      else if it_type item > 255 \<and> unat remaining_bytes < 3 + unat (it_length item)
      then Some (TLV_RES_ERROR, rcd)
      else if \<not> it_type item > 255 \<and> unat remaining_bytes < 2 + unat (it_length item)
      then Some (TLV_RES_ERROR, rcd)
      else do {
        rcd \<leftarrow>
          (if it_type item > 255
           then do {
             buf \<leftarrow> wr (tlv_buffer rcd) (unat (tlv_index rcd)) (ucast (it_type item AND 0xff));
             buf \<leftarrow> wr buf (unat (tlv_index rcd) + 1) (0x80 OR it_length item);
             buf \<leftarrow> wr buf (unat (tlv_index rcd) + 2) (ucast (drop_bit 8 (it_type item) AND 0xff));
             Some (rcd\<lparr>tlv_buffer := buf, tlv_index := tlv_index rcd + 3\<rparr>)
           }
           else do {
             buf \<leftarrow> wr (tlv_buffer rcd) (unat (tlv_index rcd)) (ucast (it_type item AND 0xff));
             buf \<leftarrow> wr buf (unat (tlv_index rcd) + 1) (it_length item);
             Some (rcd\<lparr>tlv_buffer := buf, tlv_index := tlv_index rcd + 2\<rparr>)
           });
        value \<leftarrow> rd_bytes (it_value item) 0 (unat (it_length item));
        buf \<leftarrow> wr_bytes (tlv_buffer rcd) (unat (tlv_index rcd)) value;
        Some (TLV_RES_OK, rcd\<lparr>tlv_buffer := buf, tlv_index := tlv_index rcd + it_length item\<rparr>)
      })"

definition Tlv_Encode_getBufferSize :: "tlv_record \<Rightarrow> int" where
  "Tlv_Encode_getBufferSize rcd = uint (tlv_index rcd)"

subsection \<open>Sequences of calls and the wire format\<close>

text \<open>The callers' loops: add the items one by one, and read items until something else
  than \<open>TLV_RES_OK\<close> comes or \<open>n\<close> calls are made.\<close>

fun tlv_encode_all :: "tlv_record \<Rightarrow> tlv_item list \<Rightarrow> (tlv_res \<times> tlv_record) option" where
  "tlv_encode_all rcd [] = Some (TLV_RES_OK, rcd)"
| "tlv_encode_all rcd (i # is) =
     (case Tlv_Encode_addItem rcd i of
        Some (TLV_RES_OK, rcd') \<Rightarrow> tlv_encode_all rcd' is
      | r \<Rightarrow> r)"

fun tlv_decode_all :: "nat \<Rightarrow> tlv_record \<Rightarrow> (tlv_item list \<times> tlv_res) option" where
  "tlv_decode_all 0 rcd = Some ([], TLV_RES_OK)"
| "tlv_decode_all (Suc n) rcd =
     (case Tlv_Decode_getNextItem rcd of
        Some (TLV_RES_OK, rcd', Some i) \<Rightarrow> map_option (\<lambda>(is, r). (i # is, r)) (tlv_decode_all n rcd')
      | Some (r, _, _) \<Rightarrow> Some ([], r)
      | None \<Rightarrow> None)"

text \<open>The value bytes of an item, and what it occupies on the wire.\<close>

definition item_bytes :: "tlv_item \<Rightarrow> u8 list" where
  "item_bytes i = take (unat (it_length i)) (it_value i)"

definition item_wire :: "tlv_item \<Rightarrow> u8 list" where
  "item_wire i =
     (if it_type i > 255
      then [ucast (it_type i), 0x80 OR it_length i, ucast (drop_bit 8 (it_type i))]
      else [ucast (it_type i), it_length i]) @ item_bytes i"

text \<open>Items the encoder accepts, and items the decoder can read back at the end of a buffer.\<close>

definition item_ok :: "tlv_item \<Rightarrow> bool" where
  "item_ok i \<longleftrightarrow> it_length i \<le> 127 \<and> unat (it_length i) \<le> length (it_value i)"

definition item_decodable :: "tlv_item \<Rightarrow> bool" where
  "item_decodable i \<longleftrightarrow> item_ok i \<and> (it_length i \<noteq> 0 \<or> it_type i > 255)"

definition same_item :: "tlv_item \<Rightarrow> tlv_item \<Rightarrow> bool" where
  "same_item i j \<longleftrightarrow> it_type i = it_type j \<and> it_length i = it_length j \<and> item_bytes i = item_bytes j"

definition tlv_wf :: "tlv_record \<Rightarrow> bool" where
  "tlv_wf rcd \<longleftrightarrow> tlv_index rcd \<le> tlv_length rcd \<and> unat (tlv_length rcd) \<le> length (tlv_buffer rcd)"

subsection \<open>Bytes\<close>

lemma and_7f: "(b::u8) AND 0x7f = take_bit 7 b"
  by (simp add: take_bit_eq_mask mask_eq_exp_minus_1)

lemma and_80_iff: "(b::u8) AND 0x80 \<noteq> 0 \<longleftrightarrow> bit b 7"
  using and_exp_eq_0_iff_not_bit [of b 7] by simp

lemma take_7: "(l::u8) \<le> 127 \<Longrightarrow> take_bit 7 l = l"
  by (rule take_bit_small) (simp add: word_le_nat_alt)

lemma take_7_le: "take_bit 7 (l::u8) \<le> 127"
  unfolding and_7f [symmetric] by (rule word_and_le1)

lemma short_length: "(l::u8) \<le> 127 \<Longrightarrow> \<not> bit l 7"
  by (metis take_7 bit_take_bit_iff less_irrefl)

lemma extended_length: "(l::u8) \<le> 127 \<Longrightarrow> take_bit 7 (0x80 OR l) = l" "bit (0x80 OR l :: u8) 7"
  by (simp_all add: take_bit_or take_7 bit_or_iff)

lemma type_bytes: "ucast (ucast (t::u16) :: u8) + push_bit 8 (ucast (ucast (drop_bit 8 t) :: u8)) = t"
  unfolding high_byte unfolding low_byte using bits_ident [of 8 t] by (simp add: add.commute)

lemma short_type: "\<not> (t::u16) > 255 \<Longrightarrow> ucast (ucast t :: u8) = t"
  by (simp add: low_byte take_bit_small word_less_nat_alt not_less word_le_nat_alt)

lemma ucast_and_ff: "ucast ((t::u16) AND 0xff) = (ucast t :: u8)"
  unfolding and_ff by (rule bit_word_eqI) (auto simp: bit_simps)

lemma length_item_bytes: "item_ok i \<Longrightarrow> length (item_bytes i) = unat (it_length i)"
  by (simp add: item_ok_def item_bytes_def)

lemma length_item_wire:
  "item_ok i \<Longrightarrow> length (item_wire i) = (if it_type i > 255 then 3 else 2) + unat (it_length i)"
  by (simp add: item_wire_def length_item_bytes)

subsection \<open>The decoder is safe on every buffer\<close>

lemma tlv_remaining:
  "tlv_wf rcd \<Longrightarrow> unat (tlv_length rcd - tlv_index rcd) = unat (tlv_length rcd) - unat (tlv_index rcd)"
  "tlv_wf rcd \<Longrightarrow> unat (tlv_index rcd) \<le> unat (tlv_length rcd)"
  by (simp_all add: tlv_wf_def unat_minus_le word_le_nat_alt)

text \<open>The last step of the decoder, after the header: \<open>len\<close> bytes of value.\<close>

lemma tlv_wf_advance:
  assumes "tlv_wf rcd" "unat (tlv_index rcd) + unat n \<le> unat (tlv_length rcd)"
  shows "tlv_wf (rcd\<lparr>tlv_index := tlv_index rcd + n\<rparr>)"
    and "unat (tlv_index rcd + n) = unat (tlv_index rcd) + unat n"
proof -
  show u: "unat (tlv_index rcd + n) = unat (tlv_index rcd) + unat n"
    using assms(2) unat_lt_8 [of "tlv_length rcd"] by (intro unat_add_small) simp
  with assms show "tlv_wf (rcd\<lparr>tlv_index := tlv_index rcd + n\<rparr>)"
    by (simp add: tlv_wf_def word_le_nat_alt)
qed

text \<open>The body of the decoder after the length checks, with the accesses done.\<close>

definition tlv_finish :: "tlv_record \<Rightarrow> u16 \<Rightarrow> u8 \<Rightarrow> tlv_res \<times> tlv_record \<times> tlv_item option" where
  "tlv_finish rcd type len =
     (if tlv_length rcd - tlv_index rcd < len then (TLV_RES_ERROR, rcd, None)
      else (TLV_RES_OK, rcd\<lparr>tlv_index := tlv_index rcd + len\<rparr>,
        Some \<lparr>it_value = drop (unat (tlv_index rcd)) (tlv_buffer rcd), it_type = type, it_length = len\<rparr>))"

lemma decode_body:
  assumes wf: "tlv_wf rcd" and rem: "unat (tlv_index rcd) + 3 \<le> unat (tlv_length rcd)"
  defines "i \<equiv> unat (tlv_index rcd)" and "buf \<equiv> tlv_buffer rcd"
  shows "Tlv_Decode_getNextItem rcd =
     Some (if bit (buf ! (i + 1)) 7
           then tlv_finish (rcd\<lparr>tlv_index := tlv_index rcd + 3\<rparr>)
             (ucast (buf ! i) + push_bit 8 (ucast (buf ! (i + 2)))) (take_bit 7 (buf ! (i + 1)))
           else tlv_finish (rcd\<lparr>tlv_index := tlv_index rcd + 2\<rparr>) (ucast (buf ! i)) (take_bit 7 (buf ! (i + 1))))"
proof -
  have u2: "unat (tlv_index rcd + 2) = i + 2"
    using tlv_wf_advance(2) [of rcd 2] wf rem by (simp add: i_def)
  have "i + 3 \<le> length buf" using wf rem by (simp add: tlv_wf_def i_def buf_def)
  moreover have "3 \<le> unat (tlv_length rcd - tlv_index rcd)"
    using tlv_remaining [OF wf] rem by simp
  then have "tlv_length rcd - tlv_index rcd \<noteq> 0" "\<not> tlv_length rcd - tlv_index rcd < 3"
    by (auto simp: word_less_nat_alt)
  ultimately show ?thesis
    by (simp add: Tlv_Decode_getNextItem_def Let_def rd_in and_ff and_7f and_80_iff u2 tlv_finish_def
        add.commute [of 3] flip: i_def buf_def)
qed

lemma tlv_finish_safe:
  assumes wf: "tlv_wf rcd"
  shows "case tlv_finish rcd type len of (res, rcd', it) \<Rightarrow>
     tlv_wf rcd' \<and> tlv_buffer rcd' = tlv_buffer rcd \<and> tlv_length rcd' = tlv_length rcd \<and>
     unat (tlv_index rcd) \<le> unat (tlv_index rcd') \<and> res \<noteq> TLV_RES_END \<and>
     (res = TLV_RES_OK \<longrightarrow> (\<exists>i. it = Some i \<and> unat (it_length i) \<le> length (it_value i)))"
proof (cases "tlv_length rcd - tlv_index rcd < len")
  case True
  with wf show ?thesis by (simp add: tlv_finish_def)
next
  case False
  then have le: "unat (tlv_index rcd) + unat len \<le> unat (tlv_length rcd)"
    using tlv_remaining [OF wf] by (simp add: not_less word_le_nat_alt)
  moreover have "unat (tlv_length rcd) \<le> length (tlv_buffer rcd)" using wf by (simp add: tlv_wf_def)
  ultimately show ?thesis using False tlv_wf_advance [OF wf le] by (simp add: tlv_finish_def)
qed

lemma decode_short:
  assumes wf: "tlv_wf rcd" and rem: "\<not> unat (tlv_index rcd) + 3 \<le> unat (tlv_length rcd)"
  shows "Tlv_Decode_getNextItem rcd =
     Some (if tlv_index rcd = tlv_length rcd then TLV_RES_END else TLV_RES_ERROR, rcd, None)"
proof -
  have "\<not> 3 \<le> unat (tlv_length rcd - tlv_index rcd)" using tlv_remaining [OF wf] rem by simp
  then show ?thesis
    by (auto simp: Tlv_Decode_getNextItem_def Let_def word_less_nat_alt)
qed

subsection \<open>What the encoder writes, the decoder reads\<close>

lemma encode_writes:
  assumes wf: "tlv_wf rcd" and ok: "item_ok i"
    and fits: "unat (tlv_index rcd) + length (item_wire i) \<le> unat (tlv_length rcd)"
  defines "k \<equiv> unat (tlv_index rcd)"
  shows "Tlv_Encode_addItem rcd i =
     Some (TLV_RES_OK, rcd\<lparr>
       tlv_buffer := take k (tlv_buffer rcd) @ item_wire i @ drop (k + length (item_wire i)) (tlv_buffer rcd),
       tlv_index := tlv_index rcd + of_nat (length (item_wire i))\<rparr>)"
proof -
  let ?h = "if it_type i > 255 then 3 else 2 :: nat"
  let ?w = "if it_type i > 255 then 3 else 2 :: u8"
  have hw: "unat ?w = ?h" by simp
  have len: "length (item_wire i) = ?h + unat (it_length i)" by (rule length_item_wire [OF ok])
  have b: "k + ?h + unat (it_length i) \<le> length (tlv_buffer rcd)"
    using fits wf len by (simp add: tlv_wf_def k_def)
  have u: "unat (tlv_index rcd + ?w) = k + ?h"
    using tlv_wf_advance(2) [OF wf, of ?w] fits len hw by (simp add: k_def split del: if_split)
  have r: "\<not> unat (tlv_length rcd - tlv_index rcd) < ?h + unat (it_length i)"
    using fits len tlv_remaining [OF wf] by simp
  have "rd_bytes (it_value i) 0 (unat (it_length i)) = Some (item_bytes i)"
    using ok by (simp add: rd_bytes_in item_ok_def item_bytes_def)
  moreover have "of_nat (?h + unat (it_length i)) = ?w + it_length i" by simp
  moreover have "\<not> it_length i > 127" using ok by (simp add: item_ok_def not_less)
  ultimately show ?thesis
    using b u r length_item_bytes [OF ok]
    by (simp add: Tlv_Encode_addItem_def Let_def buf_simps ucast_and_ff len item_wire_def
        update_slice numeral_3_eq_3 add.assoc add.commute [of k] flip: k_def split: if_splits)
qed

lemma encode_no_room:
  assumes wf: "tlv_wf rcd" and ok: "item_ok i"
    and full: "unat (tlv_length rcd) < unat (tlv_index rcd) + length (item_wire i)"
  shows "Tlv_Encode_addItem rcd i = Some (TLV_RES_ERROR, rcd)"
  using full tlv_remaining [OF wf] length_item_wire [OF ok]
  by (auto simp: Tlv_Encode_addItem_def Let_def)

lemma slice_nth: "drop k (take n buf) = ys \<Longrightarrow> m < length ys \<Longrightarrow> buf ! (k + m) = ys ! m"
  by (drule (1) rd_slice) (simp add: rd_def split: if_splits)

lemma slice_take:
  assumes "drop k (take n buf) = ys @ zs"
  shows "take (length ys) (drop k buf) = ys"
proof -
  have eq: "take (n - k) (drop k buf) = ys @ zs" using assms by (simp add: drop_take)
  have "length (take (n - k) (drop k buf)) \<le> n - k" by simp
  then have "length ys \<le> n - k" unfolding eq by simp
  then show ?thesis using arg_cong [OF eq, of "take (length ys)"] by (simp add: min_absorb1)
qed

lemma tlv_finish_reads:
  assumes wf: "tlv_wf rcd" and le: "unat (tlv_index rcd) + unat len \<le> unat (tlv_length rcd)"
    and val: "take (unat len) (drop (unat (tlv_index rcd)) (tlv_buffer rcd)) = item_bytes i"
    and i: "it_type i = type" "it_length i = len"
  shows "\<exists>j. tlv_finish rcd type len = (TLV_RES_OK, rcd\<lparr>tlv_index := tlv_index rcd + len\<rparr>, Some j) \<and> same_item i j"
proof -
  have "\<not> tlv_length rcd - tlv_index rcd < len"
    using le tlv_remaining [OF wf] by (simp add: word_less_nat_alt)
  with val i show ?thesis by (auto simp: tlv_finish_def same_item_def item_bytes_def)
qed

lemma decode_reads:
  assumes wf: "tlv_wf rcd" and ok: "item_ok i"
    and wire: "drop (unat (tlv_index rcd)) (take (unat (tlv_length rcd)) (tlv_buffer rcd)) = item_wire i @ rest"
    and long: "3 \<le> length (item_wire i @ rest)"
  shows "\<exists>j. Tlv_Decode_getNextItem rcd =
     Some (TLV_RES_OK, rcd\<lparr>tlv_index := tlv_index rcd + of_nat (length (item_wire i))\<rparr>, Some j) \<and> same_item i j"
proof -
  let ?k = "unat (tlv_index rcd)" and ?buf = "tlv_buffer rcd" and ?l = "it_length i"
  let ?h = "if it_type i > 255 then 3 else 2 :: nat" and ?w = "if it_type i > 255 then 3 else 2 :: u8"
  let ?r = "rcd\<lparr>tlv_index := tlv_index rcd + ?w\<rparr>"
  note len = length_item_wire [OF ok]
  have l: "?l \<le> 127" using ok by (simp add: item_ok_def)
  have "length (item_wire i @ rest) = unat (tlv_length rcd) - ?k"
    using wf by (simp add: tlv_wf_def flip: wire)
  with long have rem: "?k + 3 \<le> unat (tlv_length rcd)" and tot: "?k + length (item_wire i) \<le> unat (tlv_length rcd)"
    by auto
  have nth: "?buf ! (?k + m) = item_wire i ! m" if "m < length (item_wire i)" for m
    using slice_nth [OF wire, of m] that by (simp add: nth_append)
  have adv: "?k + unat ?w \<le> unat (tlv_length rcd)" using tot len by (auto split: if_splits)
  note r = tlv_wf_advance [OF wf adv]
  have "take (unat ?l) (drop (?k + ?h) ?buf) = item_bytes i"
  proof -
    have "take (length (item_wire i)) (drop ?k ?buf) = item_wire i" by (rule slice_take [OF wire])
    then have "drop ?h (take (?h + unat ?l) (drop ?k ?buf)) = item_bytes i"
      using len by (auto simp: item_wire_def numeral_3_eq_3 split: if_splits)
    then show ?thesis by (simp add: drop_take add.commute split: if_splits)
  qed
  then have "\<exists>j. tlv_finish ?r (it_type i) ?l = (TLV_RES_OK, ?r\<lparr>tlv_index := tlv_index ?r + ?l\<rparr>, Some j) \<and> same_item i j"
    using tot len r by (intro tlv_finish_reads) (auto split: if_splits)
  then obtain j where j: "tlv_finish ?r (it_type i) ?l = (TLV_RES_OK, rcd\<lparr>tlv_index := tlv_index rcd + ?w + ?l\<rparr>, Some j)"
    "same_item i j" by auto
  have "Tlv_Decode_getNextItem rcd = Some (tlv_finish ?r (it_type i) ?l)"
    using decode_body [OF wf rem] nth [of 0] nth [of 1] nth [of 2] len l
    by (auto simp: item_wire_def type_bytes short_type extended_length short_length take_7 split: if_splits)
  moreover have "tlv_index rcd + of_nat (length (item_wire i)) = tlv_index rcd + ?w + ?l"
    using len by (simp add: add.assoc)
  ultimately show ?thesis using j by metis
qed

lemma encode_all_writes:
  assumes "tlv_wf rcd" "list_all item_ok is"
    "unat (tlv_index rcd) + length (concat (map item_wire is)) \<le> unat (tlv_length rcd)"
  shows "tlv_encode_all rcd is =
     Some (TLV_RES_OK, rcd\<lparr>
       tlv_buffer := take (unat (tlv_index rcd)) (tlv_buffer rcd) @ concat (map item_wire is) @
         drop (unat (tlv_index rcd) + length (concat (map item_wire is))) (tlv_buffer rcd),
       tlv_index := tlv_index rcd + of_nat (length (concat (map item_wire is)))\<rparr>)"
  using assms
proof (induction "is" arbitrary: rcd)
  case Nil
  then show ?case by simp
next
  case (Cons i "is")
  let ?k = "unat (tlv_index rcd)" and ?w = "item_wire i" and ?ws = "concat (map item_wire is)"
  let ?r = "rcd\<lparr>tlv_buffer := take ?k (tlv_buffer rcd) @ ?w @ drop (?k + length ?w) (tlv_buffer rcd),
      tlv_index := tlv_index rcd + of_nat (length ?w)\<rparr>"
  have e: "Tlv_Encode_addItem rcd i = Some (TLV_RES_OK, ?r)"
    using Cons.prems by (intro encode_writes) auto
  have w: "unat (of_nat (length ?w) :: u8) = length ?w"
    using Cons.prems unat_lt_8 [of "tlv_length rcd"] by (intro unat_of_nat_small) simp
  have b: "?k + length ?w + length ?ws \<le> length (tlv_buffer rcd)"
    using Cons.prems by (simp add: tlv_wf_def)
  have k: "unat (tlv_index ?r) = ?k + length ?w"
    using tlv_wf_advance(2) [of rcd "of_nat (length ?w)"] Cons.prems w by simp
  have "tlv_wf ?r" using Cons.prems k b by (simp add: tlv_wf_def word_le_nat_alt)
  then have "tlv_encode_all ?r is = Some (TLV_RES_OK, ?r\<lparr>
       tlv_buffer := take (unat (tlv_index ?r)) (tlv_buffer ?r) @ ?ws @
         drop (unat (tlv_index ?r) + length ?ws) (tlv_buffer ?r),
       tlv_index := tlv_index ?r + of_nat (length ?ws)\<rparr>)"
    using Cons.prems k by (intro Cons.IH) auto
  with e k b show ?case by (simp add: ac_simps)
qed

lemma decode_all_reads:
  assumes "tlv_wf rcd" "list_all item_decodable is"
    "drop (unat (tlv_index rcd)) (take (unat (tlv_length rcd)) (tlv_buffer rcd)) = concat (map item_wire is)"
  shows "\<exists>js. tlv_decode_all (Suc (length is)) rcd = Some (js, TLV_RES_END) \<and> list_all2 same_item is js"
  using assms
proof (induction "is" arbitrary: rcd)
  case Nil
  then have "unat (tlv_length rcd) \<le> unat (tlv_index rcd)" by (simp add: tlv_wf_def)
  then have "tlv_index rcd = tlv_length rcd"
    using Nil.prems(1) by (simp add: tlv_wf_def word_le_nat_alt word_unat_eq_iff)
  with decode_short [OF Nil.prems(1)] show ?case by simp
next
  case (Cons i "is")
  let ?w = "item_wire i" and ?ws = "concat (map item_wire is)"
  let ?r = "rcd\<lparr>tlv_index := tlv_index rcd + of_nat (length ?w)\<rparr>"
  from Cons.prems(2) have ok: "item_ok i" and nz: "it_length i \<noteq> 0 \<or> it_type i > 255"
    by (auto simp: item_decodable_def)
  from nz have "3 \<le> length ?w" by (auto simp: length_item_wire [OF ok] unat_gt_0 Suc_le_eq)
  then obtain j where j: "Tlv_Decode_getNextItem rcd = Some (TLV_RES_OK, ?r, Some j)" "same_item i j"
    using decode_reads [of rcd i ?ws] Cons.prems ok by auto
  have "length ?w + length ?ws = unat (tlv_length rcd) - unat (tlv_index rcd)"
    using Cons.prems(1) arg_cong [OF Cons.prems(3), of length] by (simp add: tlv_wf_def)
  moreover have "unat (tlv_index rcd) \<le> unat (tlv_length rcd)" using tlv_remaining(2) Cons.prems(1) .
  ultimately have le: "unat (tlv_index rcd) + length ?w \<le> unat (tlv_length rcd)" 
    using \<open>3 \<le> length ?w\<close> by linarith
  have w: "unat (of_nat (length ?w) :: u8) = length ?w"
    using le unat_lt_8 [of "tlv_length rcd"] by (intro unat_of_nat_small) simp
  note adv = tlv_wf_advance [OF Cons.prems(1), of "of_nat (length ?w)", unfolded w, OF le]
  have "drop (unat (tlv_index ?r)) (take (unat (tlv_length ?r)) (tlv_buffer ?r)) = ?ws"
    using arg_cong [OF Cons.prems(3), of "drop (length ?w)"] adv(2) by (simp add: add.commute)
  with adv(1) Cons obtain js where "tlv_decode_all (Suc (length is)) ?r = Some (js, TLV_RES_END)"
    "list_all2 same_item is js" by force
  with j show ?case by simp
qed

lemma decode_step:
  assumes wf: "tlv_wf rcd"
  shows "\<exists>res rcd' it. Tlv_Decode_getNextItem rcd = Some (res, rcd', it) \<and> tlv_wf rcd' \<and>
     tlv_buffer rcd' = tlv_buffer rcd \<and> tlv_length rcd' = tlv_length rcd \<and>
     (res = TLV_RES_END \<longleftrightarrow> tlv_index rcd = tlv_length rcd) \<and>
     unat (tlv_index rcd) \<le> unat (tlv_index rcd') \<and>
     (res = TLV_RES_OK \<longrightarrow> unat (tlv_index rcd) + 2 \<le> unat (tlv_index rcd') \<and>
        (\<exists>i. it = Some i \<and> unat (it_length i) \<le> length (it_value i)))"
proof (cases "unat (tlv_index rcd) + 3 \<le> unat (tlv_length rcd)")
  case False
  with wf decode_short [OF wf] show ?thesis by auto
next
  case True
  then have ne: "tlv_index rcd \<noteq> tlv_length rcd" by auto
  have step: "\<exists>res rcd' it. tlv_finish (rcd\<lparr>tlv_index := tlv_index rcd + w\<rparr>) type len = (res, rcd', it) \<and>
      tlv_wf rcd' \<and> tlv_buffer rcd' = tlv_buffer rcd \<and> tlv_length rcd' = tlv_length rcd \<and>
      res \<noteq> TLV_RES_END \<and> unat (tlv_index rcd) + 2 \<le> unat (tlv_index rcd') \<and>
      (res = TLV_RES_OK \<longrightarrow> (\<exists>i. it = Some i \<and> unat (it_length i) \<le> length (it_value i)))"
    if w: "2 \<le> unat w" "unat w \<le> 3" for w type len
  proof -
    have "unat (tlv_index rcd) + unat w \<le> unat (tlv_length rcd)" using True w by simp
    note adv = tlv_wf_advance [OF wf this]
    obtain res rcd' it where r: "tlv_finish (rcd\<lparr>tlv_index := tlv_index rcd + w\<rparr>) type len = (res, rcd', it)"
      by (cases "tlv_finish (rcd\<lparr>tlv_index := tlv_index rcd + w\<rparr>) type len")
    show ?thesis
      using tlv_finish_safe [OF adv(1), of type len] adv(2) w
      unfolding r prod.case by (intro exI [of _ res] exI [of _ rcd'] exI [of _ it]) simp
  qed
  let ?b = "tlv_buffer rcd ! (unat (tlv_index rcd) + 1)"
  obtain w type where w: "2 \<le> unat w" "unat w \<le> 3"
    and body: "Tlv_Decode_getNextItem rcd = Some (tlv_finish (rcd\<lparr>tlv_index := tlv_index rcd + w\<rparr>) type (take_bit 7 ?b))"
  proof (cases "bit ?b 7")
    case bit7: True
    show ?thesis using decode_body [OF wf True] bit7 by (intro that [of 3]) simp_all
  next
    case bit7: False
    show ?thesis using decode_body [OF wf True] bit7 by (intro that [of 2]) simp_all
  qed
  from step [OF w] obtain res rcd' it
    where "tlv_finish (rcd\<lparr>tlv_index := tlv_index rcd + w\<rparr>) type (take_bit 7 ?b) = (res, rcd', it)"
      "tlv_wf rcd'" "tlv_buffer rcd' = tlv_buffer rcd" "tlv_length rcd' = tlv_length rcd"
      "res \<noteq> TLV_RES_END" "unat (tlv_index rcd) + 2 \<le> unat (tlv_index rcd')"
      "res = TLV_RES_OK \<longrightarrow> (\<exists>i. it = Some i \<and> unat (it_length i) \<le> length (it_value i))"
    by blast
  then show ?thesis
    using body ne by (intro exI [of _ res] exI [of _ rcd'] exI [of _ it]) simp
qed

subsection \<open>Properties\<close>

text \<open>C39: on a well-formed record, whatever bytes the buffer holds, decoding reads only
  inside the buffer, keeps the record well-formed, never moves the index back or past the
  length, returns a value that lies inside the buffer, moves the index by at least the
  header when it returns an item, and reports the end exactly when the index is at the
  length.\<close>

theorem tlv_decode_safe:
  assumes wf: "tlv_wf rcd"
  shows "\<exists>res rcd' it. Tlv_Decode_getNextItem rcd = Some (res, rcd', it) \<and> tlv_wf rcd' \<and>
     tlv_buffer rcd' = tlv_buffer rcd \<and> tlv_length rcd' = tlv_length rcd \<and>
     (res = TLV_RES_END \<longleftrightarrow> tlv_index rcd = tlv_length rcd) \<and>
     unat (tlv_index rcd) \<le> unat (tlv_index rcd') \<and>
     (res = TLV_RES_OK \<longrightarrow> unat (tlv_index rcd) + 2 \<le> unat (tlv_index rcd') \<and>
        (\<exists>i. it = Some i \<and> unat (it_length i) \<le> length (it_value i)))"
  using wf by (rule decode_step)

theorem tlv_decode_safe_witness:
  "\<exists>res rcd' it. Tlv_Decode_getNextItem (Tlv_init [7, 0x82, 1, 9, 8] 5) = Some (res, rcd', it) \<and> tlv_wf rcd'"
proof -
  have "tlv_wf (Tlv_init [7, 0x82, 1, 9, 8] 5)" by (simp add: tlv_wf_def Tlv_init_def)
  from tlv_decode_safe [OF this] show ?thesis by blast
qed

text \<open>Items of at most 127 bytes that fit in the buffer are all accepted, the reported
  size is the number of bytes written, and decoding that many bytes gives back the same
  types, lengths and values, in order, and then the end.  An item of a one byte type
  needs at least one byte of value.\<close>

lemma tlv_roundtrip:
  assumes items: "list_all item_decodable is"
    and room: "length (concat (map item_wire is)) \<le> unat len" "unat len \<le> length buf"
  shows "\<exists>rcd js. tlv_encode_all (Tlv_init buf len) is = Some (TLV_RES_OK, rcd) \<and>
     Tlv_Encode_getBufferSize rcd = int (length (concat (map item_wire is))) \<and>
     tlv_decode_all (Suc (length is)) (Tlv_init (tlv_buffer rcd) (tlv_index rcd)) = Some (js, TLV_RES_END) \<and>
     list_all2 same_item is js"
proof -
  let ?n = "length (concat (map item_wire is))"
  let ?buf = "concat (map item_wire is) @ drop ?n buf"
  let ?rcd = "Tlv_init buf len \<lparr>tlv_buffer := ?buf, tlv_index := of_nat ?n\<rparr>"
  have ok: "list_all item_ok is" using items by (auto simp: list_all_iff item_decodable_def)
  have wf: "tlv_wf (Tlv_init buf len)" using room by (simp add: Tlv_init_def tlv_wf_def)
  have fits: "unat (tlv_index (Tlv_init buf len)) + ?n \<le> unat (tlv_length (Tlv_init buf len))"
    using room by (simp add: Tlv_init_def)
  have e: "tlv_encode_all (Tlv_init buf len) is = Some (TLV_RES_OK, ?rcd)"
    unfolding encode_all_writes [OF wf ok fits] by (simp add: Tlv_init_def)
  have n: "unat (of_nat ?n :: u8) = ?n"
    using room unat_lt_8 [of len] by (intro unat_of_nat_small) simp
  have "\<exists>js. tlv_decode_all (Suc (length is)) (Tlv_init ?buf (of_nat ?n)) = Some (js, TLV_RES_END) \<and>
      list_all2 same_item is js"
    using items n room by (intro decode_all_reads) (simp_all add: Tlv_init_def tlv_wf_def)
  then obtain js where js: "tlv_decode_all (Suc (length is)) (Tlv_init ?buf (of_nat ?n)) = Some (js, TLV_RES_END)"
    "list_all2 same_item is js" by blast
  have "Tlv_Encode_getBufferSize ?rcd = int ?n"
    using n by (simp add: Tlv_Encode_getBufferSize_def uint_nat del: length_concat map_map)
  with e js show ?thesis by (intro exI [of _ ?rcd] exI [of _ js]) (simp add: Tlv_init_def)
qed

lemma tlv_roundtrip_example:
  "let is = [\<lparr>it_value = [10, 11], it_type = 0x1234, it_length = 2\<rparr>, \<lparr>it_value = [5], it_type = 3, it_length = 1\<rparr>] in
   \<exists>rcd js. tlv_encode_all (Tlv_init (replicate 20 0) 20) is = Some (TLV_RES_OK, rcd) \<and>
     Tlv_Encode_getBufferSize rcd = int (length (concat (map item_wire is))) \<and>
     tlv_decode_all (Suc (length is)) (Tlv_init (tlv_buffer rcd) (tlv_index rcd)) = Some (js, TLV_RES_END) \<and>
     list_all2 same_item is js"
  unfolding Let_def
  by (rule tlv_roundtrip) (simp_all add: item_decodable_def item_ok_def item_wire_def item_bytes_def)

text \<open>An item of a one byte type and no value is accepted by the encoder, but when it
  ends the buffer the decoder reports an error instead of the item.\<close>

lemma tlv_empty_item_not_decoded:
  assumes "item_ok i" "it_length i = 0" "\<not> it_type i > 255"
    and "tlv_wf rcd" "unat (tlv_length rcd) = unat (tlv_index rcd) + 2"
  shows "(\<exists>rcd'. Tlv_Encode_addItem rcd i = Some (TLV_RES_OK, rcd') \<and> tlv_index rcd' = tlv_length rcd) \<and>
     Tlv_Decode_getNextItem rcd = Some (TLV_RES_ERROR, rcd, None)"
proof -
  have w: "length (item_wire i) = 2" using assms by (simp add: length_item_wire)
  have two: "tlv_index rcd + 2 = tlv_length rcd"
    using tlv_wf_advance(2) [of rcd 2] assms by (simp add: word_unat_eq_iff)
  have "tlv_index rcd \<noteq> tlv_length rcd" using assms(5) by auto
  then have "Tlv_Decode_getNextItem rcd = Some (TLV_RES_ERROR, rcd, None)"
    using decode_short [OF assms(4)] assms(5) by simp
  then show ?thesis
    using encode_writes [OF assms(4) assms(1)] assms(5) w two by simp
qed

lemma tlv_empty_item_not_decoded_example:
  "let rcd = Tlv_init [0, 0] 2; i = \<lparr>it_value = [], it_type = 5, it_length = 0\<rparr> in
   (\<exists>rcd'. Tlv_Encode_addItem rcd i = Some (TLV_RES_OK, rcd') \<and> tlv_index rcd' = tlv_length rcd) \<and>
   Tlv_Decode_getNextItem rcd = Some (TLV_RES_ERROR, rcd, None)"
  unfolding Let_def
  by (rule tlv_empty_item_not_decoded) (simp_all add: item_ok_def tlv_wf_def Tlv_init_def)

end
