(* ===== verification/Util_Buffers.thy ===== *)
theory Util_Buffers
  imports Prelude
begin

text \<open>
  \<open>util/ringbuffer.h\<close>, \<open>util/doublebuffer.h\<close> and \<open>util/bitfield.h\<close>: the macros that the drivers use
  for their buffers.  \<open>bsize\<close> is \<open>BUFFER_SIZE\<close>, for a ring a power of two.  The two indices of
  a ring run over all 16-bit values and wrap; the ring refines a bounded queue.
\<close>

subsection \<open>Ring\<close>

record ringbuffer =
  rb_in :: u16
  rb_out :: u16
  rb_buf :: "u8 list"

definition Ringbuffer_usage :: "ringbuffer \<Rightarrow> u16" where
  "Ringbuffer_usage p = rb_in p - rb_out p"

definition Ringbuffer_free :: "nat \<Rightarrow> ringbuffer \<Rightarrow> int" where
  "Ringbuffer_free bsize p = int bsize - uint (Ringbuffer_usage p)"

definition Ringbuffer_reset :: "ringbuffer \<Rightarrow> ringbuffer" where
  "Ringbuffer_reset p = p\<lparr>rb_out := 0, rb_in := 0\<rparr>"

definition Ringbuffer_isReset :: "ringbuffer \<Rightarrow> bool" where
  "Ringbuffer_isReset p \<longleftrightarrow> rb_out p = 0 \<and> rb_in p = 0"

definition Ringbuffer_getHeadIdx :: "nat \<Rightarrow> ringbuffer \<Rightarrow> nat" where
  "Ringbuffer_getHeadIdx bsize p = unat (rb_in p AND of_nat (bsize - 1))"

definition Ringbuffer_setHeadByte :: "nat \<Rightarrow> u8 \<Rightarrow> ringbuffer \<Rightarrow> ringbuffer option" where
  "Ringbuffer_setHeadByte bsize b p = map_option (\<lambda>buf. p\<lparr>rb_buf := buf\<rparr>) (wr (rb_buf p) (Ringbuffer_getHeadIdx bsize p) b)"

definition Ringbuffer_incrHead :: "u16 \<Rightarrow> ringbuffer \<Rightarrow> ringbuffer" where
  "Ringbuffer_incrHead a p = p\<lparr>rb_in := rb_in p + a\<rparr>"

definition Ringbuffer_getTailIdx :: "nat \<Rightarrow> ringbuffer \<Rightarrow> nat" where
  "Ringbuffer_getTailIdx bsize p = unat (rb_out p AND of_nat (bsize - 1))"

definition Ringbuffer_getTailByte :: "nat \<Rightarrow> ringbuffer \<Rightarrow> u8 option" where
  "Ringbuffer_getTailByte bsize p = rd (rb_buf p) (Ringbuffer_getTailIdx bsize p)"

definition Ringbuffer_incrTail :: "u16 \<Rightarrow> ringbuffer \<Rightarrow> ringbuffer" where
  "Ringbuffer_incrTail a p = p\<lparr>rb_out := rb_out p + a\<rparr>"

text \<open>The bytes in a ring, oldest first.\<close>

definition ring_ok :: "nat \<Rightarrow> ringbuffer \<Rightarrow> bool" where
  "ring_ok bsize p \<longleftrightarrow> (\<exists>k \<in> {1..15}. bsize = 2 ^ k) \<and> length (rb_buf p) = bsize \<and> unat (Ringbuffer_usage p) \<le> bsize"

definition ring_bytes :: "nat \<Rightarrow> ringbuffer \<Rightarrow> u8 list" where
  "ring_bytes bsize p = map (\<lambda>i. rb_buf p ! ((unat (rb_out p) + i) mod bsize)) [0..<unat (Ringbuffer_usage p)]"

lemma masked_index:
  assumes "k < 16"
  shows "unat (x AND of_nat (2 ^ k - 1) :: u16) = unat x mod 2 ^ k"
proof -
  have "of_nat (2 ^ k - 1) = (mask k :: u16)" by (simp add: mask_eq_exp_minus_1 of_nat_diff)
  then have "x AND of_nat (2 ^ k - 1) = take_bit k x" by (simp only: take_bit_eq_mask)
  then show ?thesis unfolding take_bit_eq_mod [symmetric] by (simp add: unsigned_take_bit_eq)
qed

lemma ring_indices:
  assumes "ring_ok bsize p"
  shows "Ringbuffer_getTailIdx bsize p = unat (rb_out p) mod bsize"
    "Ringbuffer_getHeadIdx bsize p = (unat (rb_out p) + unat (Ringbuffer_usage p)) mod bsize" "0 < bsize" "bsize < 65536" "bsize dvd 65536"
proof -
  obtain k where k: "bsize = 2 ^ k" "1 \<le> k" "k \<le> 15" using assms by (auto simp: ring_ok_def)
  show "Ringbuffer_getTailIdx bsize p = unat (rb_out p) mod bsize"
    unfolding Ringbuffer_getTailIdx_def k(1) by (rule masked_index) (use k in simp)
  have e: "rb_out p + Ringbuffer_usage p = rb_in p" by (simp add: Ringbuffer_usage_def)
  have "(unat (rb_out p) + unat (Ringbuffer_usage p)) mod 65536 = unat (rb_out p + Ringbuffer_usage p)" by (simp add: unat_word_ariths(1))
  then have s: "(unat (rb_out p) + unat (Ringbuffer_usage p)) mod 65536 = unat (rb_in p)" unfolding e .
  have "(2 :: nat) ^ k dvd 2 ^ 16" by (rule le_imp_power_dvd) (use k in simp)
  then show d: "bsize dvd 65536" unfolding k(1) by (rule back_subst [of "(dvd) (2 ^ k)"]) simp
  have "(unat (rb_out p) + unat (Ringbuffer_usage p)) mod bsize = unat (rb_in p) mod bsize"
    using mod_mod_cancel [OF d, of "unat (rb_out p) + unat (Ringbuffer_usage p)"] unfolding s by (rule sym)
  then show "Ringbuffer_getHeadIdx bsize p = (unat (rb_out p) + unat (Ringbuffer_usage p)) mod bsize"
    unfolding Ringbuffer_getHeadIdx_def k(1) by (subst masked_index) (use k in simp_all)
  show "0 < bsize" using k(1) by simp
  show "bsize < 65536" unfolding k(1) using power_strict_increasing [of k 16 "2 :: nat"] k(3) by simp
qed

text \<open>Adding a byte to a ring that is not full, and taking one from a ring that is not empty.\<close>

lemma ring_put:
  assumes ok: "ring_ok bsize p" and room: "0 < Ringbuffer_free bsize p"
  shows "\<exists>q. Ringbuffer_setHeadByte bsize b p = Some q \<and> ring_ok bsize (Ringbuffer_incrHead 1 q) \<and>
     ring_bytes bsize (Ringbuffer_incrHead 1 q) = ring_bytes bsize p @ [b]"
proof -
  let ?u = "unat (Ringbuffer_usage p)" and ?h = "Ringbuffer_getHeadIdx bsize p"
  note i = ring_indices [OF ok]
  let ?q = "p\<lparr>rb_buf := (rb_buf p)[?h := b]\<rparr>"
  have "int ?u = uint (Ringbuffer_usage p)" by simp
  then have u: "?u < bsize" using room unfolding Ringbuffer_free_def by linarith
  have l: "length (rb_buf p) = bsize" "?h < bsize" using ok i by (simp_all add: ring_ok_def)
  have "Ringbuffer_usage (Ringbuffer_incrHead 1 ?q) = Ringbuffer_usage p + 1" by (simp add: Ringbuffer_usage_def Ringbuffer_incrHead_def)
  then have n: "unat (Ringbuffer_usage (Ringbuffer_incrHead 1 ?q)) = Suc ?u" using u i(4) by (simp add: unat_word_ariths(1))
  have other: "(unat (rb_out p) + j) mod bsize \<noteq> ?h" if "j < ?u" for j
  proof
    assume "(unat (rb_out p) + j) mod bsize = ?h"
    then have "bsize dvd unat (rb_out p) + ?u - (unat (rb_out p) + j)"
      using that unfolding i(2) by (intro mod_eq_dvd_iff_nat [THEN iffD1]) simp_all
    then show False using that u by (auto dest: dvd_imp_le)
  qed
  have "map (\<lambda>j. (rb_buf p)[?h := b] ! ((unat (rb_out p) + j) mod bsize)) [0..<?u] = ring_bytes bsize p"
    unfolding ring_bytes_def by (intro map_cong refl nth_list_update_neq other [symmetric]) simp
  then have "ring_bytes bsize (Ringbuffer_incrHead 1 ?q) = ring_bytes bsize p @ [b]"
    using l i(2) unfolding ring_bytes_def n by (simp add: Ringbuffer_incrHead_def)
  moreover have "ring_ok bsize (Ringbuffer_incrHead 1 ?q)" using ok u n by (simp add: ring_ok_def Ringbuffer_incrHead_def)
  ultimately show ?thesis using l by (simp add: Ringbuffer_setHeadByte_def wr_def)
qed

lemma ring_get:
  assumes ok: "ring_ok bsize p" and some: "Ringbuffer_usage p \<noteq> 0"
  shows "\<exists>b bs. ring_bytes bsize p = b # bs \<and> Ringbuffer_getTailByte bsize p = Some b \<and> ring_ok bsize (Ringbuffer_incrTail 1 p) \<and>
     ring_bytes bsize (Ringbuffer_incrTail 1 p) = bs"
proof -
  let ?u = "unat (Ringbuffer_usage p)" and ?q = "Ringbuffer_incrTail 1 p"
  note i = ring_indices [OF ok]
  have u: "0 < ?u" using some by (simp add: unat_gt_0)
  have "Ringbuffer_usage ?q = Ringbuffer_usage p - 1" by (simp add: Ringbuffer_usage_def Ringbuffer_incrTail_def)
  then have n: "unat (Ringbuffer_usage ?q) = ?u - 1" using some by (simp add: unat_minus_one)
  have "(unat (rb_out ?q) + j) mod bsize = (unat (rb_out p) + Suc j) mod bsize" for j
  proof -
    have "unat (rb_out ?q) mod bsize = Suc (unat (rb_out p)) mod bsize"
      using mod_mod_cancel [OF i(5)] by (simp add: Ringbuffer_incrTail_def unat_word_ariths(1))
    then show ?thesis using mod_add_cong [of "unat (rb_out ?q)" bsize "Suc (unat (rb_out p))" j j] by simp
  qed
  then have "ring_bytes bsize ?q = map (\<lambda>j. rb_buf p ! ((unat (rb_out p) + Suc j) mod bsize)) [0..<?u - 1]"
    unfolding ring_bytes_def n by (simp add: Ringbuffer_incrTail_def)
  also have "\<dots> = tl (ring_bytes bsize p)" by (rule nth_equalityI) (simp_all add: ring_bytes_def nth_tl less_diff_conv)
  finally have "ring_bytes bsize ?q = tl (ring_bytes bsize p)" .
  moreover have "hd (ring_bytes bsize p) = rb_buf p ! (unat (rb_out p) mod bsize)" "ring_bytes bsize p \<noteq> []"
    using u by (simp_all add: ring_bytes_def hd_map)
  moreover have "Ringbuffer_getTailByte bsize p = Some (rb_buf p ! (unat (rb_out p) mod bsize))"
    using ok i by (simp add: Ringbuffer_getTailByte_def rd_def ring_ok_def)
  moreover have "?u - 1 \<le> bsize" using ok unfolding ring_ok_def by linarith
  then have "ring_ok bsize ?q" using ok n by (simp add: ring_ok_def Ringbuffer_incrTail_def)
  ultimately show ?thesis by (cases "ring_bytes bsize p") simp_all
qed

lemma ring_reset: "ring_ok bsize p \<Longrightarrow> ring_ok bsize (Ringbuffer_reset p) \<and> ring_bytes bsize (Ringbuffer_reset p) = []"
  by (simp add: ring_ok_def ring_bytes_def Ringbuffer_reset_def Ringbuffer_usage_def)

subsection \<open>Two buffers\<close>

datatype active_buffer = Buffer_1 | Buffer_2

record double_buffer =
  active_buffer_p :: active_buffer
  current_writing_index :: u8
  buffer_1 :: "u8 list"
  buffer_2 :: "u8 list"

definition DoubleBuffer_init :: "double_buffer \<Rightarrow> double_buffer" where
  "DoubleBuffer_init b = b\<lparr>active_buffer_p := Buffer_1, current_writing_index := 0\<rparr>"

definition DoubleBuffer_getActive :: "double_buffer \<Rightarrow> u8 list" where
  "DoubleBuffer_getActive b = (case active_buffer_p b of Buffer_1 \<Rightarrow> buffer_1 b | Buffer_2 \<Rightarrow> buffer_2 b)"

definition DoubleBuffer_swipe :: "double_buffer \<Rightarrow> double_buffer" where
  "DoubleBuffer_swipe b =
     b\<lparr>active_buffer_p := (if active_buffer_p b = Buffer_1 then Buffer_2 else Buffer_1), current_writing_index := 0\<rparr>"

definition DoubleBuffer_getIndex :: "double_buffer \<Rightarrow> u8" where
  "DoubleBuffer_getIndex b = current_writing_index b"

definition DoubleBuffer_incrIndex :: "u8 \<Rightarrow> double_buffer \<Rightarrow> double_buffer" where
  "DoubleBuffer_incrIndex n b = b\<lparr>current_writing_index := current_writing_index b + n\<rparr>"

text \<open>After a swipe the other buffer is written, from its start.\<close>

lemma swiped:
  "DoubleBuffer_getActive (DoubleBuffer_swipe b) = (if active_buffer_p b = Buffer_1 then buffer_2 b else buffer_1 b)"
  "DoubleBuffer_getIndex (DoubleBuffer_swipe b) = 0" "DoubleBuffer_getActive (DoubleBuffer_swipe (DoubleBuffer_swipe b)) = DoubleBuffer_getActive b"
  by (cases "active_buffer_p b"; simp add: DoubleBuffer_getActive_def DoubleBuffer_swipe_def DoubleBuffer_getIndex_def)+

subsection \<open>Bit fields\<close>

definition BITFIELD_SET :: "u8 list \<Rightarrow> nat \<Rightarrow> u8 list option" where
  "BITFIELD_SET arr b = do { x \<leftarrow> rd arr (b div 8); wr arr (b div 8) (x OR push_bit (b mod 8) 1) }"

definition BITFIELD_CLEAR :: "u8 list \<Rightarrow> nat \<Rightarrow> u8 list option" where
  "BITFIELD_CLEAR arr b = do { x \<leftarrow> rd arr (b div 8); wr arr (b div 8) (x AND NOT (push_bit (b mod 8) 1)) }"

definition BITFIELD_GET :: "u8 list \<Rightarrow> nat \<Rightarrow> u8 option" where
  "BITFIELD_GET arr b = map_option (\<lambda>x. x AND push_bit (b mod 8) 1) (rd arr (b div 8))"

text \<open>A bit is read as it was written, and writing it keeps the others.\<close>

lemma bit_of_byte: "x AND 2 ^ n = 0 \<longleftrightarrow> \<not> bit x n" for x :: u8
  using bit_iff_and_push_bit_not_eq_0 [of x n] by simp

lemma bitfield_written:
  assumes "i < 8 * length arr" "j < 8 * length arr"
  shows "\<exists>arr' x. BITFIELD_SET arr i = Some arr' \<and> length arr' = length arr \<and> BITFIELD_GET arr' j = Some x \<and>
       (x \<noteq> 0 \<longleftrightarrow> j = i \<or> the (BITFIELD_GET arr j) \<noteq> 0)"
    "\<exists>arr' x. BITFIELD_CLEAR arr i = Some arr' \<and> length arr' = length arr \<and> BITFIELD_GET arr' j = Some x \<and>
       (x \<noteq> 0 \<longleftrightarrow> j \<noteq> i \<and> the (BITFIELD_GET arr j) \<noteq> 0)"
proof -
  have d: "i div 8 < length arr" "j div 8 < length arr" using assms by simp_all
  have e: "j div 8 = i div 8 \<Longrightarrow> j mod 8 = i mod 8 \<Longrightarrow> j = i" by (metis div_mult_mod_eq)
  show "\<exists>arr' x. BITFIELD_SET arr i = Some arr' \<and> length arr' = length arr \<and> BITFIELD_GET arr' j = Some x \<and>
       (x \<noteq> 0 \<longleftrightarrow> j = i \<or> the (BITFIELD_GET arr j) \<noteq> 0)"
    "\<exists>arr' x. BITFIELD_CLEAR arr i = Some arr' \<and> length arr' = length arr \<and> BITFIELD_GET arr' j = Some x \<and>
       (x \<noteq> 0 \<longleftrightarrow> j \<noteq> i \<and> the (BITFIELD_GET arr j) \<noteq> 0)"
    using d e by (auto simp: BITFIELD_SET_def BITFIELD_CLEAR_def BITFIELD_GET_def rd_def wr_def bit_of_byte nth_list_update bit_simps)
qed

end
