(* ===== verification/Sl_List.thy ===== *)
theory Sl_List
  imports Prelude
begin

text \<open>
  \<open>util/sl_list.c\<close>: the intrusive singly linked list.  The \<open>next\<close> fields of the
  elements are an explicit store \<open>links\<close> from element addresses to an optional address
  (\<open>None\<close> is \<open>NULL\<close>), shared by all lists; a list head is a record.  A loop cursor
  of type \<open>sl_list_t *\<close> that starts at the head (the C code casts the head, whose first
  field is \<open>next\<close>) is an \<open>option\<close>: \<open>None\<close> is the head itself.

  A result \<open>None\<close> of the outer \<open>option\<close> is a NULL dereference or a loop that does
  not end.  The lemmas relate every operation to lists: \<open>sl_repr\<close> says which elements,
  in which order, a head and a store represent.
\<close>

type_synonym 'p links = "'p \<Rightarrow> 'p option"

record 'p sl_list_head =
  sl_next :: "'p option"
  sl_last :: "'p option"
  sl_size :: u32

type_synonym 'p sll = "'p sl_list_head \<times> 'p links"

subsection \<open>Operations\<close>

definition sl_list_init :: "'p sl_list_head" where
  "sl_list_init = \<lparr>sl_next = None, sl_last = None, sl_size = 0\<rparr>"

definition sl_list_next :: "'p links \<Rightarrow> 'p \<Rightarrow> 'p option" where
  "sl_list_next lk iter = lk iter"

text \<open>\<open>h->next\<close> for a cursor that may be the head.\<close>

definition cur_next :: "'p sll \<Rightarrow> 'p option \<Rightarrow> 'p option" where
  "cur_next s h = (case h of None \<Rightarrow> sl_next (fst s) | Some p \<Rightarrow> snd s p)"

definition set_cur_next :: "'p sll \<Rightarrow> 'p option \<Rightarrow> 'p option \<Rightarrow> 'p sll" where
  "set_cur_next s h v =
     (case h of None \<Rightarrow> ((fst s)\<lparr>sl_next := v\<rparr>, snd s)
              | Some p \<Rightarrow> (fst s, (snd s)(p := v)))"

definition sl_list_push_back :: "'p sll \<Rightarrow> 'p \<Rightarrow> 'p sll option" where
  "sl_list_push_back s e =
     (case s of (lh, lk) \<Rightarrow>
        do {
          (lh, lk) \<leftarrow> (if sl_next lh = None then Some (lh\<lparr>sl_next := Some e\<rparr>, lk)
                      else case sl_last lh of None \<Rightarrow> None
                           | Some l \<Rightarrow> Some (lh, lk(l := Some e)));
          Some (lh\<lparr>sl_last := Some e, sl_size := sl_size lh + 1\<rparr>, lk(e := None))
        })"

definition sl_list_push_front :: "'p sll \<Rightarrow> 'p \<Rightarrow> 'p sll" where
  "sl_list_push_front s e =
     (case s of (lh, lk) \<Rightarrow>
        let lk = lk(e := sl_next lh);
            lh = lh\<lparr>sl_next := Some e\<rparr>;
            lh = (if sl_last lh = None then lh\<lparr>sl_last := Some e\<rparr> else lh)
        in (lh\<lparr>sl_size := sl_size lh + 1\<rparr>, lk))"

text \<open>\<open>while (h->next != iter) h = h->next;\<close>\<close>

partial_function (option) sl_seek_before :: "'p sll \<Rightarrow> 'p option \<Rightarrow> 'p option \<Rightarrow> 'p option option" where
  "sl_seek_before s iter h =
     (if cur_next s h = iter then Some h
      else case cur_next s h of None \<Rightarrow> None | Some p \<Rightarrow> sl_seek_before s iter (Some p))"

definition sl_list_push_before :: "'p sll \<Rightarrow> 'p option \<Rightarrow> 'p \<Rightarrow> 'p sll option" where
  "sl_list_push_before s iter e =
     do {
       h \<leftarrow> sl_seek_before s iter None;
       let s = (fst s, (snd s)(e := cur_next s h));
       let s = set_cur_next s h (Some e);
       Some ((fst s)\<lparr>sl_size := sl_size (fst s) + 1\<rparr>, snd s)
     }"

text \<open>\<open>while (h->next != NULL) { prev = h; h = prev->next; }\<close> gives \<open>(prev, h)\<close>.\<close>

partial_function (option) sl_seek_last :: "'p sll \<Rightarrow> 'p option \<Rightarrow> 'p option \<Rightarrow> ('p option \<times> 'p option) option" where
  "sl_seek_last s prev h =
     (case cur_next s h of None \<Rightarrow> Some (prev, h) | Some p \<Rightarrow> sl_seek_last s h (Some p))"

definition sl_list_pop_back :: "'p sll \<Rightarrow> ('p option \<times> 'p sll) option" where
  "sl_list_pop_back s =
     (if sl_next (fst s) = None then Some (None, s)
      else do {
        (prev, h) \<leftarrow> sl_seek_last s None None;
        let s = set_cur_next s prev None;
        let s = ((fst s)\<lparr>sl_size := sl_size (fst s) - 1, sl_last := prev\<rparr>, snd s);
        Some (h, set_cur_next s h None)
      })"

definition sl_list_pop_front :: "'p sll \<Rightarrow> 'p option \<times> 'p sll" where
  "sl_list_pop_front s =
     (case s of (lh, lk) \<Rightarrow>
        case sl_next lh of
          None \<Rightarrow> (None, s)
        | Some ret \<Rightarrow>
            let lh = lh\<lparr>sl_size := sl_size lh - 1, sl_next := lk ret\<rparr>;
                lh = (if sl_next lh = None then lh\<lparr>sl_last := None\<rparr> else lh)
            in (Some ret, lh, lk(ret := None)))"

partial_function (option) sl_remove_loop :: "'p sll \<Rightarrow> 'p \<Rightarrow> 'p option \<Rightarrow> 'p sll option" where
  "sl_remove_loop s e h =
     (case cur_next s h of
        None \<Rightarrow> Some s
      | Some p \<Rightarrow>
          if p = e then
            (let s = set_cur_next s h (snd s e);
                 s = ((fst s)\<lparr>sl_size := sl_size (fst s) - 1\<rparr>, snd s)
             in Some (if sl_last (fst s) = Some e then ((fst s)\<lparr>sl_last := h\<rparr>, snd s) else s))
          else sl_remove_loop s e (Some p))"

text \<open>\<open>sl_list_remove\<close> returns \<open>element\<close> whether or not it was in the list.\<close>

definition sl_list_remove :: "'p sll \<Rightarrow> 'p \<Rightarrow> ('p \<times> 'p sll) option" where
  "sl_list_remove s e = map_option (\<lambda>s'. (e, s')) (sl_remove_loop s e None)"

definition sl_list_pop :: "'p sll \<Rightarrow> 'p \<Rightarrow> ('p \<times> 'p sll) option" where
  "sl_list_pop s e =
     do {
       (e, s) \<leftarrow> sl_list_remove s e;
       Some (e, fst s, (snd s)(e := None))
     }"

partial_function (option) sl_at_loop :: "'p links \<Rightarrow> 'p option \<Rightarrow> int \<Rightarrow> 'p option option" where
  "sl_at_loop lk h idx =
     (case h of None \<Rightarrow> Some None
      | Some p \<Rightarrow> if idx = 0 then Some (Some p) else sl_at_loop lk (sl_list_next lk p) (idx - 1))"

definition sl_list_at :: "'p sll \<Rightarrow> int \<Rightarrow> 'p option option" where
  "sl_list_at s idx = sl_at_loop (snd s) (sl_next (fst s)) idx"

text \<open>The loop that \<open>sl_list_contains\<close> and \<open>sl_list_search\<close> share.\<close>

partial_function (option) sl_search_loop :: "'p links \<Rightarrow> ('p \<Rightarrow> bool) \<Rightarrow> 'p option \<Rightarrow> 'p option option" where
  "sl_search_loop lk match x =
     (case x of None \<Rightarrow> Some None
      | Some p \<Rightarrow> if match p then Some (Some p) else sl_search_loop lk match (sl_list_next lk p))"

definition sl_list_contains :: "'p sll \<Rightarrow> 'p \<Rightarrow> bool option" where
  "sl_list_contains s e =
     map_option (\<lambda>r. r \<noteq> None) (sl_search_loop (snd s) (\<lambda>x. x = e) (sl_next (fst s)))"

definition sl_list_search :: "'p sll \<Rightarrow> 'p option \<Rightarrow> ('p \<Rightarrow> bool) \<Rightarrow> 'p option option" where
  "sl_list_search s start match = sl_search_loop (snd s) match (cur_next s start)"

definition sl_list_swap :: "'p sl_list_head \<Rightarrow> 'p sl_list_head \<Rightarrow> 'p sl_list_head \<times> 'p sl_list_head" where
  "sl_list_swap list1 list2 = (list2, list1)"

subsection \<open>Abstraction\<close>

text \<open>\<open>seg lk p xs q\<close>: following the links from \<open>p\<close> visits \<open>xs\<close> and arrives at
  \<open>q\<close>.  \<open>cursor xs\<close> is the cursor after \<open>xs\<close>, the head if it is empty.\<close>

fun seg :: "'p links \<Rightarrow> 'p option \<Rightarrow> 'p list \<Rightarrow> 'p option \<Rightarrow> bool" where
  "seg lk p [] q \<longleftrightarrow> p = q"
| "seg lk p (x # xs) q \<longleftrightarrow> p = Some x \<and> seg lk (lk x) xs q"

definition cursor :: "'p list \<Rightarrow> 'p option" where
  "cursor xs = (if xs = [] then None else Some (last xs))"

definition sl_repr :: "'p sll \<Rightarrow> 'p list \<Rightarrow> bool" where
  "sl_repr s xs \<longleftrightarrow>
     seg (snd s) (sl_next (fst s)) xs None \<and> distinct xs \<and>
     sl_last (fst s) = cursor xs \<and> sl_size (fst s) = of_nat (length xs)"

text \<open>The links outside a set of elements are untouched.\<close>

definition links_frame :: "'p set \<Rightarrow> 'p links \<Rightarrow> 'p links \<Rightarrow> bool" where
  "links_frame A lk lk' \<longleftrightarrow> (\<forall>p. p \<notin> A \<longrightarrow> lk' p = lk p)"

text \<open>Sequences of insertions and removals, for any list implementation.\<close>

fun push_seq :: "('s \<Rightarrow> 'p \<Rightarrow> 's option) \<Rightarrow> 's \<Rightarrow> 'p list \<Rightarrow> 's option" where
  "push_seq push s [] = Some s"
| "push_seq push s (e # es) = do { s' \<leftarrow> push s e; push_seq push s' es }"

fun pop_seq :: "('s \<Rightarrow> 'p option \<times> 's) \<Rightarrow> nat \<Rightarrow> 's \<Rightarrow> 'p list \<times> 's" where
  "pop_seq pop 0 s = ([], s)"
| "pop_seq pop (Suc n) s =
     (case pop s of (None, s') \<Rightarrow> ([], s')
      | (Some x, s') \<Rightarrow> (let (xs, s'') = pop_seq pop n s' in (x # xs, s'')))"

subsection \<open>Segments\<close>

lemma seg_append: "seg lk p (xs @ ys) q \<longleftrightarrow> (\<exists>r. seg lk p xs r \<and> seg lk r ys q)"
  by (induction xs arbitrary: p) auto

lemma seg_upd [simp]: "x \<notin> set xs \<Longrightarrow> seg (lk(x := v)) p xs q = seg lk p xs q"
  by (induction xs arbitrary: p) auto

lemma seg_frame: "links_frame A lk lk' \<Longrightarrow> set xs \<inter> A = {} \<Longrightarrow> seg lk' p xs q = seg lk p xs q"
  by (induction xs arbitrary: p) (auto simp: links_frame_def)

lemma seg_from_NULL [simp]: "seg lk None xs q \<longleftrightarrow> xs = [] \<and> q = None"
  by (cases xs) auto

lemma seg_det: "seg lk p xs q \<Longrightarrow> seg lk p xs r \<Longrightarrow> q = r"
  by (induction xs arbitrary: p) auto

lemma seg_None_det: "seg lk p xs None \<Longrightarrow> seg lk p ys None \<Longrightarrow> xs = ys"
proof (induction xs arbitrary: p ys)
  case Nil
  then show ?case by (cases ys) auto
next
  case (Cons x xs)
  then show ?case by (cases ys) auto
qed

lemma cursor_Nil [simp]: "cursor [] = None"
  by (simp add: cursor_def)

lemma cursor_snoc [simp]: "cursor (xs @ [x]) = Some x"
  by (simp add: cursor_def)

lemma cursor_eq_None [simp]: "cursor xs = None \<longleftrightarrow> xs = []"
  by (simp add: cursor_def)

lemma cursor_append: "cursor (xs @ ys) = (if ys = [] then cursor xs else cursor ys)"
  by (simp add: cursor_def)

lemma cur_next_seg: "seg (snd s) (sl_next (fst s)) xs r \<Longrightarrow> cur_next s (cursor xs) = r"
  by (cases xs rule: rev_cases) (auto simp: cur_next_def seg_append)

text \<open>Writing the \<open>next\<close> field of the cursor redirects the segment before it.\<close>

lemma seg_set_cursor:
  "seg (snd s) (sl_next (fst s)) xs r \<Longrightarrow> distinct xs \<Longrightarrow>
     seg (snd (set_cur_next s (cursor xs) v)) (sl_next (fst (set_cur_next s (cursor xs) v))) xs v"
  by (cases xs rule: rev_cases) (auto simp: set_cur_next_def seg_append)

lemma set_cur_next_head [simp]:
  "sl_last (fst (set_cur_next s h v)) = sl_last (fst s)"
  "sl_size (fst (set_cur_next s h v)) = sl_size (fst s)"
  by (auto simp: set_cur_next_def split: option.splits)

lemma set_cur_next_other: "h \<noteq> Some p \<Longrightarrow> snd (set_cur_next s h v) p = snd s p"
  by (auto simp: set_cur_next_def split: option.splits)

lemma cursor_in: "cursor xs = Some p \<Longrightarrow> p \<in> set xs"
  by (auto simp: cursor_def split: if_splits)

lemma set_cursor_other [simp]: "p \<notin> set xs \<Longrightarrow> snd (set_cur_next s (cursor xs) v) p = snd s p"
  using cursor_in [of xs] by (intro set_cur_next_other) auto

lemma set_cur_next_frame: "links_frame (set xs) (snd s) (snd (set_cur_next s (cursor xs) v))"
  by (simp add: links_frame_def)

lemma seg_set_cursor_other:
  "set ys \<inter> set xs = {} \<Longrightarrow> seg (snd (set_cur_next s (cursor xs) v)) p ys q = seg (snd s) p ys q"
  by (rule seg_frame [OF set_cur_next_frame])

lemma links_frame_refl [simp]: "links_frame A lk lk"
  by (simp add: links_frame_def)

lemma links_frame_upd: "links_frame A lk lk' \<Longrightarrow> links_frame (insert x A) lk (lk'(x := v))"
  by (simp add: links_frame_def)

lemma links_frame_mono: "links_frame A lk lk' \<Longrightarrow> A \<subseteq> B \<Longrightarrow> links_frame B lk lk'"
  by (auto simp: links_frame_def)

lemma links_frame_trans: "links_frame A lk lk' \<Longrightarrow> links_frame A lk' lk'' \<Longrightarrow> links_frame A lk lk''"
  by (auto simp: links_frame_def)

lemma sl_repr_frame:
  "sl_repr (lh, lk) xs \<Longrightarrow> links_frame A lk lk' \<Longrightarrow> set xs \<inter> A = {} \<Longrightarrow> sl_repr (lh, lk') xs"
  by (simp add: sl_repr_def seg_frame)

lemma sl_repr_distinct: "sl_repr s xs \<Longrightarrow> distinct xs"
  by (simp add: sl_repr_def)

lemma sl_repr_det: "sl_repr s xs \<Longrightarrow> sl_repr s ys \<Longrightarrow> xs = ys"
  unfolding sl_repr_def using seg_None_det by blast

lemma sl_repr_next: "sl_repr s xs \<Longrightarrow> sl_next (fst s) = (if xs = [] then None else Some (hd xs))"
  by (cases xs) (auto simp: sl_repr_def)

lemma sl_repr_init: "sl_repr (sl_list_init, lk) []"
  by (simp add: sl_repr_def sl_list_init_def)

subsection \<open>Every operation against its list counterpart\<close>

lemma sl_list_push_back_repr:
  assumes r: "sl_repr s xs" and e: "e \<notin> set xs"
  shows "\<exists>s'. sl_list_push_back s e = Some s' \<and> sl_repr s' (xs @ [e]) \<and>
     links_frame (insert e (set xs)) (snd s) (snd s')"
proof -
  let ?t = "set_cur_next s (cursor xs) (Some e)"
  have t: "seg (snd ?t) (sl_next (fst ?t)) xs (Some e)"
    using r seg_set_cursor [of s xs None "Some e"] by (simp add: sl_repr_def)
  have "sl_list_push_back s e =
      Some ((fst ?t)\<lparr>sl_last := Some e, sl_size := sl_size (fst ?t) + 1\<rparr>, (snd ?t)(e := None))"
    using r by (cases s; cases xs rule: rev_cases)
      (auto simp: sl_list_push_back_def set_cur_next_def sl_repr_def seg_append split: option.splits)
  moreover have "links_frame (insert e (set xs)) (snd s) ((snd ?t)(e := None))"
    by (rule links_frame_upd [OF set_cur_next_frame])
  ultimately show ?thesis using r e t
    by (auto simp: sl_repr_def seg_append intro!: exI)
qed

lemma sl_list_push_front_repr:
  assumes "sl_repr s xs" and "e \<notin> set xs"
  shows "sl_repr (sl_list_push_front s e) (e # xs) \<and>
     links_frame {e} (snd s) (snd (sl_list_push_front s e))"
  using assms
  by (cases s) (auto simp: sl_list_push_front_def sl_repr_def Let_def cursor_def links_frame_def)

lemma sl_list_pop_front_repr:
  assumes "sl_repr s xs"
  shows "case xs of
      [] \<Rightarrow> sl_list_pop_front s = (None, s)
    | x # ys \<Rightarrow> \<exists>s'. sl_list_pop_front s = (Some x, s') \<and> sl_repr s' ys \<and> snd s' = (snd s)(x := None)"
  using assms
  by (cases s; cases xs; cases "tl xs")
    (auto simp: sl_list_pop_front_def sl_repr_def Let_def cursor_def)

lemma sl_seek_before_repr:
  assumes "seg (snd s) (sl_next (fst s)) (xs @ ys @ y # zs) None" "distinct (xs @ ys @ y # zs)"
  shows "sl_seek_before s (Some y) (cursor xs) = Some (cursor (xs @ ys))"
  using assms
proof (induction ys arbitrary: xs)
  case Nil
  then have "cur_next s (cursor xs) = Some y"
    by (auto simp: seg_append intro!: cur_next_seg)
  then show ?case by (simp add: sl_seek_before.simps)
next
  case (Cons z ys)
  then have n: "cur_next s (cursor xs) = Some z"
    by (auto simp: seg_append intro!: cur_next_seg)
  from Cons.prems have "sl_seek_before s (Some y) (cursor (xs @ [z])) = Some (cursor ((xs @ [z]) @ ys))"
    by (intro Cons.IH) auto
  with n Cons.prems show ?case by (simp add: sl_seek_before.simps [of s "Some y" "cursor xs"])
qed

lemma sl_seek_before_end:
  assumes "seg (snd s) (sl_next (fst s)) (xs @ ys) None"
  shows "sl_seek_before s None (cursor xs) = Some (cursor (xs @ ys))"
  using assms
proof (induction ys arbitrary: xs)
  case Nil
  then show ?case by (simp add: sl_seek_before.simps cur_next_seg)
next
  case (Cons z ys)
  then have "cur_next s (cursor xs) = Some z"
    by (auto simp: seg_append intro!: cur_next_seg)
  moreover from Cons have "sl_seek_before s None (cursor (xs @ [z])) = Some (cursor ((xs @ [z]) @ ys))"
    by (intro Cons.IH) auto
  ultimately show ?case by (simp add: sl_seek_before.simps [of s None "cursor xs"])
qed

lemma sl_list_push_before_repr:
  assumes r: "sl_repr s (xs @ y # ys)" and e: "e \<notin> set (xs @ y # ys)"
  shows "\<exists>s'. sl_list_push_before s (Some y) e = Some s' \<and> sl_repr s' (xs @ e # y # ys) \<and>
     links_frame (insert e (set xs)) (snd s) (snd s')"
proof -
  from r have s: "seg (snd s) (sl_next (fst s)) xs (Some y)" "seg (snd s) (snd s y) ys None"
    and d: "distinct (xs @ y # ys)"
    by (auto simp: sl_repr_def seg_append)
  have k: "sl_seek_before s (Some y) None = Some (cursor xs)"
    using sl_seek_before_repr [of s "[]" xs y ys] r by (simp add: sl_repr_def)
  have n: "cur_next s (cursor xs) = Some y" using s(1) by (rule cur_next_seg)
  let ?u = "(fst s, (snd s)(e := Some y))"
  let ?t = "set_cur_next ?u (cursor xs) (Some e)"
  have u: "seg (snd ?u) (sl_next (fst ?u)) xs (Some y)" using s e by simp
  have t: "seg (snd ?t) (sl_next (fst ?t)) xs (Some e)"
    using seg_set_cursor [OF u] d by simp
  have e': "snd ?t e = Some y" "snd ?t y = snd s y"
    using e d by auto
  have "seg (snd ?t) (snd s y) ys None"
    using s(2) d e by (subst seg_set_cursor_other) auto
  with r t e e' have "sl_repr ((fst ?t)\<lparr>sl_size := sl_size (fst ?t) + 1\<rparr>, snd ?t) (xs @ e # y # ys)"
    by (auto simp: sl_repr_def seg_append cursor_append cursor_def)
  moreover have "links_frame (insert e (set xs)) (snd s) (snd ?t)"
    using set_cur_next_frame [of xs ?u "Some e"] by (auto simp: links_frame_def)
  ultimately show ?thesis by (simp add: sl_list_push_before_def k n Let_def)
qed

lemma sl_list_push_before_index:
  assumes "sl_repr s xs" "e \<notin> set xs" "i < length xs"
  shows "\<exists>s'. sl_list_push_before s (Some (xs ! i)) e = Some s' \<and> sl_repr s' (take i xs @ e # drop i xs) \<and>
     links_frame (insert e (set xs)) (snd s) (snd s')"
proof -
  have xs: "take i xs @ xs ! i # drop (Suc i) xs = xs" using assms(3) by (simp flip: id_take_nth_drop)
  obtain s' where s': "sl_list_push_before s (Some (xs ! i)) e = Some s'"
      "sl_repr s' (take i xs @ e # xs ! i # drop (Suc i) xs)"
      "links_frame (insert e (set (take i xs))) (snd s) (snd s')"
    using sl_list_push_before_repr [of s "take i xs" "xs ! i" "drop (Suc i) xs" e] assms(1,2) unfolding xs by blast
  moreover have "insert e (set (take i xs)) \<subseteq> insert e (set xs)" by (auto dest: in_set_takeD)
  ultimately show ?thesis using assms(3) by (auto simp: Cons_nth_drop_Suc intro: links_frame_mono)
qed

lemma sl_seek_last_repr:
  assumes "seg (snd s) (sl_next (fst s)) (xs @ [x] @ ys) None"
  shows "sl_seek_last s (cursor xs) (Some x) =
     Some (cursor (butlast (xs @ [x] @ ys)), cursor (xs @ [x] @ ys))"
  using assms
proof (induction ys arbitrary: xs x)
  case Nil
  then have "cur_next s (Some x) = None"
    using cur_next_seg [of s "xs @ [x]" None] by simp
  then show ?case by (simp add: sl_seek_last.simps [of s _ "Some x"])
next
  case (Cons y ys)
  then have n: "cur_next s (Some x) = Some y"
    using cur_next_seg [of s "xs @ [x]" "Some y"] by (auto simp: seg_append)
  from Cons.prems have "sl_seek_last s (cursor (xs @ [x])) (Some y) =
      Some (cursor (butlast ((xs @ [x]) @ [y] @ ys)), cursor ((xs @ [x]) @ [y] @ ys))"
    by (intro Cons.IH) simp
  with n show ?case by (simp add: sl_seek_last.simps [of s _ "Some x"])
qed

lemma sl_list_pop_back_empty: "sl_repr s [] \<Longrightarrow> sl_list_pop_back s = Some (None, s)"
  by (simp add: sl_list_pop_back_def sl_repr_def)

lemma sl_list_pop_back_repr:
  assumes r: "sl_repr s (xs @ [x])"
  shows "\<exists>s'. sl_list_pop_back s = Some (Some x, s') \<and> sl_repr s' xs \<and> snd s' x = None \<and>
     links_frame (insert x (set xs)) (snd s) (snd s')"
proof -
  from r have s: "seg (snd s) (sl_next (fst s)) xs (Some x)" and d: "distinct (xs @ [x])"
    by (auto simp: sl_repr_def seg_append)
  obtain y ys where y: "xs @ [x] = y # ys" by (cases "xs @ [x]") auto
  have seg: "seg (snd s) (sl_next (fst s)) ([] @ [y] @ ys) None"
    using r by (simp add: sl_repr_def flip: y)
  then have n: "sl_next (fst s) = Some y" by simp
  have "sl_seek_last s None None = sl_seek_last s (cursor []) (Some y)"
    using n by (simp add: sl_seek_last.simps [of s None None] cur_next_def)
  also have "\<dots> = Some (cursor xs, Some x)"
    using sl_seek_last_repr [OF seg] by (simp flip: y)
  finally have k: "sl_seek_last s None None = Some (cursor xs, Some x)" .
  let ?t = "set_cur_next s (cursor xs) None"
  have t: "seg (snd ?t) (sl_next (fst ?t)) xs None" using seg_set_cursor [OF s] d by simp
  have "sl_repr ((fst ?t)\<lparr>sl_size := sl_size (fst ?t) - 1, sl_last := cursor xs\<rparr>, (snd ?t)(x := None)) xs"
    using r t d by (simp add: sl_repr_def)
  moreover have "links_frame (insert x (set xs)) (snd s) ((snd ?t)(x := None))"
    by (rule links_frame_upd [OF set_cur_next_frame])
  ultimately show ?thesis
    by (simp add: sl_list_pop_back_def k n set_cur_next_def [of _ "Some x"] Let_def)
qed

lemma sl_list_pop_back_last:
  assumes "sl_repr s xs" "xs \<noteq> []"
  shows "\<exists>s'. sl_list_pop_back s = Some (Some (last xs), s') \<and> sl_repr s' (butlast xs) \<and>
     snd s' (last xs) = None \<and> links_frame (set xs) (snd s) (snd s')"
proof -
  have xs: "butlast xs @ [last xs] = xs" using assms(2) by simp
  have "insert (last xs) (set (butlast xs)) = set xs" by (subst (3) xs [symmetric]) simp
  then show ?thesis
    using sl_list_pop_back_repr [of s "butlast xs" "last xs"] assms(1) unfolding xs by simp
qed

text \<open>The search of \<open>sl_list_remove\<close> from a cursor: the element after it is unlinked, or
  the end is reached and nothing changes.\<close>

lemma sl_remove_loop_absent:
  assumes "seg (snd s) (sl_next (fst s)) (xs @ ys) None" and "e \<notin> set ys"
  shows "sl_remove_loop s e (cursor xs) = Some s"
  using assms
proof (induction ys arbitrary: xs)
  case Nil
  then have "cur_next s (cursor xs) = None" by (intro cur_next_seg) simp
  then show ?case by (simp add: sl_remove_loop.simps)
next
  case (Cons y ys)
  then have "cur_next s (cursor xs) = Some y" by (auto simp: seg_append intro!: cur_next_seg)
  moreover from Cons have "sl_remove_loop s e (cursor (xs @ [y])) = Some s"
    by (intro Cons.IH) auto
  ultimately show ?case using Cons.prems
    by (auto simp: sl_remove_loop.simps [of s e "cursor xs"])
qed

definition sl_unlink :: "'p sll \<Rightarrow> 'p \<Rightarrow> 'p option \<Rightarrow> 'p sll" where
  "sl_unlink s e h =
     (let s = set_cur_next s h (snd s e);
          s = ((fst s)\<lparr>sl_size := sl_size (fst s) - 1\<rparr>, snd s)
      in if sl_last (fst s) = Some e then ((fst s)\<lparr>sl_last := h\<rparr>, snd s) else s)"

lemma sl_remove_loop_present:
  assumes "seg (snd s) (sl_next (fst s)) (xs @ ys @ e # zs) None" and "e \<notin> set ys"
  shows "sl_remove_loop s e (cursor xs) = Some (sl_unlink s e (cursor (xs @ ys)))"
  using assms
proof (induction ys arbitrary: xs)
  case Nil
  then have "cur_next s (cursor xs) = Some e" by (auto simp: seg_append intro!: cur_next_seg)
  then show ?case by (simp add: sl_remove_loop.simps [of s e "cursor xs"] sl_unlink_def Let_def)
next
  case (Cons y ys)
  then have "cur_next s (cursor xs) = Some y" by (auto simp: seg_append intro!: cur_next_seg)
  moreover from Cons have
    "sl_remove_loop s e (cursor (xs @ [y])) = Some (sl_unlink s e (cursor ((xs @ [y]) @ ys)))"
    by (intro Cons.IH) auto
  ultimately show ?case using Cons.prems
    by (auto simp: sl_remove_loop.simps [of s e "cursor xs"])
qed

lemma sl_unlink_repr:
  assumes r: "sl_repr s (xs @ e # ys)"
  shows "sl_repr (sl_unlink s e (cursor xs)) (xs @ ys) \<and>
     links_frame (set xs) (snd s) (snd (sl_unlink s e (cursor xs)))"
proof -
  from r have s: "seg (snd s) (sl_next (fst s)) xs (Some e)" "seg (snd s) (snd s e) ys None"
    and d: "distinct (xs @ e # ys)" by (auto simp: sl_repr_def seg_append)
  let ?t = "set_cur_next s (cursor xs) (snd s e)"
  have t: "seg (snd ?t) (sl_next (fst ?t)) xs (snd s e)" using seg_set_cursor [OF s(1)] d by simp
  have "seg (snd ?t) (snd s e) ys None" using s(2) d by (subst seg_set_cursor_other) auto
  with t have "seg (snd ?t) (sl_next (fst ?t)) (xs @ ys) None" by (auto simp: seg_append)
  moreover have "sl_last (fst s) = Some e \<longleftrightarrow> ys = []"
    using r d by (cases ys rule: rev_cases) (auto simp: sl_repr_def cursor_def)
  ultimately show ?thesis using r d set_cur_next_frame [of xs s "snd s e"]
    by (auto simp: sl_repr_def sl_unlink_def Let_def cursor_append cursor_def)
qed

lemma sl_list_remove_repr:
  assumes r: "sl_repr s xs"
  shows "\<exists>s'. sl_list_remove s e = Some (e, s') \<and> sl_repr s' (removeAll e xs) \<and>
     links_frame (set xs - {e}) (snd s) (snd s') \<and> (e \<notin> set xs \<longrightarrow> s' = s)"
proof (cases "e \<in> set xs")
  case False
  then have "sl_remove_loop s e (cursor []) = Some s"
    using r by (intro sl_remove_loop_absent [where ys = xs]) (auto simp: sl_repr_def)
  with False r show ?thesis by (simp add: sl_list_remove_def)
next
  case True
  then obtain us vs where xs: "xs = us @ e # vs" by (auto simp: in_set_conv_decomp)
  with r have e: "e \<notin> set us" "e \<notin> set vs" by (auto simp: sl_repr_def)
  have "sl_remove_loop s e (cursor []) = Some (sl_unlink s e (cursor ([] @ us)))"
    using r e xs by (intro sl_remove_loop_present [where zs = vs]) (auto simp: sl_repr_def)
  then have "sl_list_remove s e = Some (e, sl_unlink s e (cursor us))"
    by (simp add: sl_list_remove_def)
  moreover have "removeAll e xs = us @ vs" using e xs by simp
  moreover have "set us \<subseteq> set xs - {e}" using e xs by auto
  ultimately show ?thesis
    using sl_unlink_repr [of s us e vs] r xs True by (auto intro: links_frame_mono)
qed

lemma sl_list_pop_repr:
  assumes "sl_repr s xs"
  shows "\<exists>s'. sl_list_pop s e = Some (e, s') \<and> sl_repr s' (removeAll e xs) \<and> snd s' e = None \<and>
     links_frame (insert e (set xs)) (snd s) (snd s')"
proof -
  obtain s' where s': "sl_list_remove s e = Some (e, s')" "sl_repr s' (removeAll e xs)"
    "links_frame (set xs - {e}) (snd s) (snd s')"
    using sl_list_remove_repr [OF assms, of e] by blast
  have "sl_repr (fst s', (snd s')(e := None)) (removeAll e xs)" using s'(2) by (simp add: sl_repr_def)
  moreover have "links_frame (insert e (set xs)) (snd s) ((snd s')(e := None))"
    using s'(3) by (simp add: links_frame_def)
  ultimately show ?thesis using s'(1) by (simp add: sl_list_pop_def)
qed

lemma sl_search_loop_seg:
  "seg lk p xs None \<Longrightarrow> sl_search_loop lk P p = Some (List.find P xs)"
  by (induction xs arbitrary: p) (simp_all add: sl_search_loop.simps sl_list_next_def)

lemma sl_list_contains_seg:
  "seg (snd s) (sl_next (fst s)) xs None \<Longrightarrow> sl_list_contains s e = Some (e \<in> set xs)"
  by (drule sl_search_loop_seg [where P = "\<lambda>x. x = e"])
    (simp add: sl_list_contains_def find_None_iff del: not_None_eq)

lemma sl_list_contains_repr: "sl_repr s xs \<Longrightarrow> sl_list_contains s e = Some (e \<in> set xs)"
  by (rule sl_list_contains_seg) (simp add: sl_repr_def)

lemma sl_list_search_repr:
  "sl_repr s (xs @ ys) \<Longrightarrow> sl_list_search s (cursor xs) P = Some (List.find P ys)"
proof -
  assume "sl_repr s (xs @ ys)"
  then obtain q where "seg (snd s) (sl_next (fst s)) xs q" "seg (snd s) q ys None"
    by (auto simp: sl_repr_def seg_append)
  then show ?thesis by (simp add: sl_list_search_def cur_next_seg sl_search_loop_seg)
qed

lemma sl_at_loop_seg:
  "seg lk p xs None \<Longrightarrow>
     sl_at_loop lk p i = Some (if 0 \<le> i \<and> nat i < length xs then Some (xs ! nat i) else None)"
proof (induction xs arbitrary: p i)
  case Nil
  then show ?case by (simp add: sl_at_loop.simps)
next
  case (Cons x xs)
  then have "sl_at_loop lk (lk x) (i - 1) =
      Some (if 0 \<le> i - 1 \<and> nat (i - 1) < length xs then Some (xs ! nat (i - 1)) else None)"
    by simp
  with Cons.prems show ?case
    by (auto simp: sl_at_loop.simps [of lk "Some x" i] sl_list_next_def nth_Cons' nat_diff_distrib)
qed

lemma sl_list_at_repr:
  "sl_repr s xs \<Longrightarrow>
     sl_list_at s i = Some (if 0 \<le> i \<and> nat i < length xs then Some (xs ! nat i) else None)"
  by (simp add: sl_list_at_def sl_repr_def sl_at_loop_seg)

subsection \<open>The interface the queues rely on\<close>

locale fifo_list =
  fixes repr :: "'s \<Rightarrow> 'p list \<Rightarrow> bool"
    and push_back :: "'s \<Rightarrow> 'p \<Rightarrow> 's option"
    and pop_front :: "'s \<Rightarrow> 'p option \<times> 's"
  assumes push_back_repr: "repr s xs \<Longrightarrow> e \<notin> set xs \<Longrightarrow> \<exists>s'. push_back s e = Some s' \<and> repr s' (xs @ [e])"
    and pop_front_Nil: "repr s [] \<Longrightarrow> pop_front s = (None, s)"
    and pop_front_Cons: "repr s (x # xs) \<Longrightarrow> \<exists>s'. pop_front s = (Some x, s') \<and> repr s' xs"
begin

lemma push_seq_repr:
  "repr s xs \<Longrightarrow> distinct es \<Longrightarrow> set es \<inter> set xs = {} \<Longrightarrow>
     \<exists>s'. push_seq push_back s es = Some s' \<and> repr s' (xs @ es)"
proof (induction es arbitrary: s xs)
  case Nil
  then show ?case by simp
next
  case (Cons e es)
  then obtain s1 where s1: "push_back s e = Some s1" "repr s1 (xs @ [e])"
    using push_back_repr [of s xs e] by auto
  with Cons.prems have "\<exists>s'. push_seq push_back s1 es = Some s' \<and> repr s' ((xs @ [e]) @ es)"
    by (intro Cons.IH) auto
  with s1 show ?case by simp
qed

lemma pop_seq_repr:
  "repr s xs \<Longrightarrow> \<exists>s'. pop_seq pop_front n s = (take n xs, s') \<and> repr s' (drop n xs)"
proof (induction n arbitrary: s xs)
  case 0
  then show ?case by simp
next
  case (Suc n)
  show ?case
  proof (cases xs)
    case Nil
    with Suc.prems pop_front_Nil [of s] show ?thesis by auto
  next
    case (Cons y ys)
    with Suc.prems obtain s1 where s1: "pop_front s = (Some y, s1)" "repr s1 ys"
      using pop_front_Cons [of s y ys] by auto
    from Suc.IH [OF s1(2)] obtain s2 where "pop_seq pop_front n s1 = (take n ys, s2)" "repr s2 (drop n ys)"
      by blast
    with s1 Cons show ?thesis by simp
  qed
qed

lemma fifo_order:
  assumes "repr s xs" "distinct es" "set es \<inter> set xs = {}"
  shows "\<exists>s' s''. push_seq push_back s es = Some s' \<and>
     pop_seq pop_front (length xs + length es) s' = (xs @ es, s'') \<and> repr s'' []"
proof -
  obtain s' where s': "push_seq push_back s es = Some s'" "repr s' (xs @ es)"
    using push_seq_repr [OF assms] by blast
  with pop_seq_repr [OF s'(2), of "length xs + length es"] show ?thesis by auto
qed

end

text \<open>A list that can also be fed at the front and searched for an element to unlink.\<close>

locale element_list = fifo_list repr push_back pop_front
  for repr :: "'s \<Rightarrow> 'p list \<Rightarrow> bool" and push_back pop_front +
  fixes push_front :: "'s \<Rightarrow> 'p \<Rightarrow> 's"
    and remove :: "'s \<Rightarrow> 'p \<Rightarrow> ('p \<times> 's) option"
    and contains :: "'s \<Rightarrow> 'p \<Rightarrow> bool option"
  assumes push_front_repr: "repr s xs \<Longrightarrow> e \<notin> set xs \<Longrightarrow> repr (push_front s e) (e # xs)"
    and remove_repr: "repr s xs \<Longrightarrow> \<exists>s'. remove s e = Some (e, s') \<and> repr s' (removeAll e xs)"
    and contains_repr: "repr s xs \<Longrightarrow> contains s e = Some (e \<in> set xs)"
begin

lemma remove_contains:
  "repr s xs \<Longrightarrow> \<exists>s'. remove s e = Some (e, s') \<and> contains s' e = Some False \<and>
     (\<forall>f. f \<noteq> e \<longrightarrow> contains s' f = contains s f)"
  using remove_repr [of s xs e] contains_repr by fastforce

lemma push_front_pop_front:
  "repr s xs \<Longrightarrow> e \<notin> set xs \<Longrightarrow> \<exists>s'. pop_front (push_front s e) = (Some e, s') \<and> repr s' xs"
  by (rule pop_front_Cons [OF push_front_repr])

end

interpretation sl: element_list sl_repr sl_list_push_back sl_list_pop_front sl_list_push_front
  sl_list_remove sl_list_contains
proof
  fix s :: "'a sll" and xs :: "'a list" and e x
  show "\<exists>s'. sl_list_push_back s e = Some s' \<and> sl_repr s' (xs @ [e])"
    if "sl_repr s xs" "e \<notin> set xs" using sl_list_push_back_repr [OF that] by blast
  show "sl_list_pop_front s = (None, s)" if "sl_repr s []"
    using sl_list_pop_front_repr [OF that] by simp
  show "\<exists>s'. sl_list_pop_front s = (Some x, s') \<and> sl_repr s' xs" if "sl_repr s (x # xs)"
    using sl_list_pop_front_repr [OF that] by auto
  show "sl_repr (sl_list_push_front s e) (e # xs)" if "sl_repr s xs" "e \<notin> set xs"
    using sl_list_push_front_repr [OF that] by blast
  show "\<exists>s'. sl_list_remove s e = Some (e, s') \<and> sl_repr s' (removeAll e xs)" if "sl_repr s xs"
    using sl_list_remove_repr [OF that] by blast
  show "sl_list_contains s e = Some (e \<in> set xs)" if "sl_repr s xs"
    by (rule sl_list_contains_repr [OF that])
qed

subsection \<open>Properties\<close>

text \<open>C38: on a list whose links, last pointer and size are consistent, every operation of
  \<open>sl_list.c\<close> returns (no NULL is followed, every loop ends), keeps them consistent and
  implements its counterpart on lists: pushing an element that is not in the list at the
  back, at the front or before an element of the list, taking the first or the last
  element, also of an empty list, taking or removing a given element, whether or not it is
  in the list, searching from the head or from an element, reading at an index, and
  swapping two lists.  The links of all other elements, those of another list among them,
  are untouched.\<close>

theorem sl_list_refines_lists:
  assumes r: "sl_repr s xs"
  shows "sl_repr (sl_list_init, lk) [] \<and>
    (e \<notin> set xs \<longrightarrow> (\<exists>s'. sl_list_push_back s e = Some s' \<and> sl_repr s' (xs @ [e]) \<and>
      links_frame (insert e (set xs)) (snd s) (snd s'))) \<and>
    (e \<notin> set xs \<longrightarrow> sl_repr (sl_list_push_front s e) (e # xs) \<and>
      links_frame {e} (snd s) (snd (sl_list_push_front s e))) \<and>
    (e \<notin> set xs \<longrightarrow> i < length xs \<longrightarrow>
      (\<exists>s'. sl_list_push_before s (Some (xs ! i)) e = Some s' \<and> sl_repr s' (take i xs @ e # drop i xs) \<and>
        links_frame (insert e (set xs)) (snd s) (snd s'))) \<and>
    (xs = [] \<longrightarrow> sl_list_pop_front s = (None, s) \<and> sl_list_pop_back s = Some (None, s)) \<and>
    (xs \<noteq> [] \<longrightarrow> (\<exists>s'. sl_list_pop_front s = (Some (hd xs), s') \<and> sl_repr s' (tl xs) \<and>
      snd s' = (snd s)(hd xs := None))) \<and>
    (xs \<noteq> [] \<longrightarrow> (\<exists>s'. sl_list_pop_back s = Some (Some (last xs), s') \<and> sl_repr s' (butlast xs) \<and>
      snd s' (last xs) = None \<and> links_frame (set xs) (snd s) (snd s'))) \<and>
    (\<exists>s'. sl_list_pop s e = Some (e, s') \<and> sl_repr s' (removeAll e xs) \<and> snd s' e = None \<and>
      links_frame (insert e (set xs)) (snd s) (snd s')) \<and>
    (\<exists>s'. sl_list_remove s e = Some (e, s') \<and> sl_repr s' (removeAll e xs) \<and>
      links_frame (set xs - {e}) (snd s) (snd s') \<and> (e \<notin> set xs \<longrightarrow> s' = s)) \<and>
    sl_list_contains s e = Some (e \<in> set xs) \<and>
    sl_list_at s j = Some (if 0 \<le> j \<and> nat j < length xs then Some (xs ! nat j) else None) \<and>
    sl_list_search s None P = Some (List.find P xs) \<and>
    (i < length xs \<longrightarrow> sl_list_search s (Some (xs ! i)) P = Some (List.find P (drop (Suc i) xs))) \<and>
    (sl_repr (h, snd s) ys \<longrightarrow> (case sl_list_swap (fst s) h of (h1, h2) \<Rightarrow>
      sl_repr (h1, snd s) ys \<and> sl_repr (h2, snd s) xs))"
proof (intro conjI impI)
  show "sl_repr (sl_list_init, lk) []" by (rule sl_repr_init)
  show "\<exists>s'. sl_list_push_back s e = Some s' \<and> sl_repr s' (xs @ [e]) \<and>
      links_frame (insert e (set xs)) (snd s) (snd s')" if "e \<notin> set xs"
    using r that by (rule sl_list_push_back_repr)
  show "sl_repr (sl_list_push_front s e) (e # xs)" "links_frame {e} (snd s) (snd (sl_list_push_front s e))"
    if "e \<notin> set xs" using sl_list_push_front_repr [OF r that] by simp_all
  show "\<exists>s'. sl_list_push_before s (Some (xs ! i)) e = Some s' \<and> sl_repr s' (take i xs @ e # drop i xs) \<and>
      links_frame (insert e (set xs)) (snd s) (snd s')" if "e \<notin> set xs" "i < length xs"
    using r that by (rule sl_list_push_before_index)
  show "sl_list_pop_front s = (None, s)" "sl_list_pop_back s = Some (None, s)" if "xs = []"
    using r that sl.pop_front_Nil sl_list_pop_back_empty by blast+
  show "\<exists>s'. sl_list_pop_front s = (Some (hd xs), s') \<and> sl_repr s' (tl xs) \<and> snd s' = (snd s)(hd xs := None)"
    if "xs \<noteq> []" using sl_list_pop_front_repr [OF r] that by (cases xs) auto
  show "\<exists>s'. sl_list_pop_back s = Some (Some (last xs), s') \<and> sl_repr s' (butlast xs) \<and>
      snd s' (last xs) = None \<and> links_frame (set xs) (snd s) (snd s')" if "xs \<noteq> []"
    using r that by (rule sl_list_pop_back_last)
  show "\<exists>s'. sl_list_pop s e = Some (e, s') \<and> sl_repr s' (removeAll e xs) \<and> snd s' e = None \<and>
      links_frame (insert e (set xs)) (snd s) (snd s')"
    using r by (rule sl_list_pop_repr)
  show "\<exists>s'. sl_list_remove s e = Some (e, s') \<and> sl_repr s' (removeAll e xs) \<and>
      links_frame (set xs - {e}) (snd s) (snd s') \<and> (e \<notin> set xs \<longrightarrow> s' = s)"
    using r by (rule sl_list_remove_repr)
  show "sl_list_contains s e = Some (e \<in> set xs)"
    using r by (rule sl.contains_repr)
  show "sl_list_at s j = Some (if 0 \<le> j \<and> nat j < length xs then Some (xs ! nat j) else None)"
    using r by (rule sl_list_at_repr)
  show "sl_list_search s None P = Some (List.find P xs)"
    using sl_list_search_repr [of s "[]" xs P] r by simp
  show "sl_list_search s (Some (xs ! i)) P = Some (List.find P (drop (Suc i) xs))" if "i < length xs"
    using sl_list_search_repr [of s "take (Suc i) xs" "drop (Suc i) xs" P] r that
    unfolding append_take_drop_id by (simp add: take_Suc_conv_app_nth)
  show "case sl_list_swap (fst s) h of (h1, h2) \<Rightarrow> sl_repr (h1, snd s) ys \<and> sl_repr (h2, snd s) xs"
    if "sl_repr (h, snd s) ys" using r that by (simp add: sl_list_swap_def)
qed

text \<open>A list of three elements, built by the operations themselves.\<close>

definition sl_example :: "nat sll" where
  "sl_example = (\<lparr>sl_next = Some 1, sl_last = Some 3, sl_size = 3\<rparr>, [1 \<mapsto> 2, 2 \<mapsto> 3])"

lemma sl_example_repr: "sl_repr sl_example [1, 2, 3]"
  by (simp add: sl_repr_def sl_example_def cursor_def)

theorem sl_list_refines_lists_witness:
  "sl_repr sl_example [1, 2, 3] \<and>
   (\<exists>s'. sl_list_push_back sl_example 7 = Some s' \<and> sl_repr s' [1, 2, 3, 7]) \<and>
   sl_list_search sl_example None (\<lambda>x. 1 < x) = Some (Some 2)"
  using sl_list_refines_lists [OF sl_example_repr, where e = 7 and P = "\<lambda>x. 1 < x"
      and i = 0 and j = 0 and lk = "\<lambda>_. None" and h = sl_list_init and ys = "[]"] sl_example_repr by auto

text \<open>A queue fed with \<open>sl_list_push_back\<close> and read with \<open>sl_list_pop_front\<close>
  returns the elements it held and then the new ones, in order, and is empty at the end.\<close>

lemma sl_list_fifo:
  assumes "sl_repr s xs" "distinct es" "set es \<inter> set xs = {}"
  shows "\<exists>s' s''. push_seq sl_list_push_back s es = Some s' \<and>
     pop_seq sl_list_pop_front (length xs + length es) s' = (xs @ es, s'') \<and> sl_repr s'' []"
  using assms by (rule sl.fifo_order)

lemma sl_list_fifo_example:
  "\<exists>s' s''. push_seq sl_list_push_back sl_example [5, 4] = Some s' \<and>
     pop_seq sl_list_pop_front (length [1, 2, 3 :: nat] + length [5, 4 :: nat]) s' = ([1, 2, 3] @ [5, 4], s'') \<and>
     sl_repr s'' []"
  by (rule sl_list_fifo [OF sl_example_repr]) simp_all

text \<open>Inserting before the end iterator (\<open>NULL\<close>) leaves the head's last pointer on
  the old last element, so that the next \<open>sl_list_push_back\<close> unlinks the inserted
  element: it is lost although the size counts it.\<close>

lemma sl_list_push_before_end_loses_element:
  assumes r: "sl_repr s (xs @ [l])" and d: "distinct (xs @ [l, e, f])"
  shows "\<exists>s1 s2. sl_list_push_before s None e = Some s1 \<and> sl_list_push_back s1 f = Some s2 \<and>
     sl_list_contains s1 e = Some True \<and> sl_list_contains s2 e = Some False \<and>
     sl_list_contains s2 f = Some True \<and> sl_size (fst s2) = of_nat (length (xs @ [l, e, f]))"
proof -
  from r have s: "seg (snd s) (sl_next (fst s)) xs (Some l)" "snd s l = None" "sl_last (fst s) = Some l"
    and z: "sl_size (fst s) = of_nat (length xs + 1)" by (auto simp: sl_repr_def seg_append)
  have k: "sl_seek_before s None (cursor []) = Some (Some l)"
    using sl_seek_before_end [of s "[]" "xs @ [l]"] r by (simp add: sl_repr_def)
  let ?lk = "(snd s)(e := None, l := Some e)"
  let ?s1 = "((fst s)\<lparr>sl_size := sl_size (fst s) + 1\<rparr>, ?lk)"
  have s1: "sl_list_push_before s None e = Some ?s1"
    using k s by (simp add: sl_list_push_before_def cur_next_def set_cur_next_def Let_def)
  have n: "sl_next (fst s) \<noteq> None" using r by (cases xs) (auto simp: sl_repr_def)
  let ?s2 = "((fst s)\<lparr>sl_last := Some f, sl_size := sl_size (fst s) + 1 + 1\<rparr>, ?lk(l := Some f, f := None))"
  have s2: "sl_list_push_back ?s1 f = Some ?s2"
    using n s d by (auto simp: sl_list_push_back_def fun_upd_twist)
  have "seg (snd ?s1) (sl_next (fst ?s1)) (xs @ [l, e]) None"
    using s d by (auto simp: seg_append)
  moreover have "seg (snd ?s2) (sl_next (fst ?s2)) (xs @ [l, f]) None"
    using s d by (auto simp: seg_append)
  ultimately show ?thesis using s1 s2 d z
    by (auto simp: sl_list_contains_seg)
qed

lemma sl_list_push_before_end_loses_element_example:
  "\<exists>s1 s2. sl_list_push_before sl_example None 4 = Some s1 \<and> sl_list_push_back s1 5 = Some s2 \<and>
     sl_list_contains s1 4 = Some True \<and> sl_list_contains s2 4 = Some False \<and>
     sl_list_contains s2 5 = Some True \<and> sl_size (fst s2) = of_nat (length ([1, 2] @ [3, 4, 5 :: nat]))"
  by (rule sl_list_push_before_end_loses_element) (use sl_example_repr in simp_all)

end
