(* ===== verification/Scheduler.thy ===== *)
theory Scheduler
  imports Util_Num
begin

text \<open>
  \<open>libraries/scheduler/app_scheduler.c\<close>: cooperative tasks run from the periodic
  callback of the stack.

  The module variables are the fields of \<open>sched\<close>.  A task is found by its index in
  \<open>m_tasks\<close>, \<open>m_next_task_p\<close> is the index of the selected task.  The table size
  \<open>APP_SCHEDULER_ALL_TASKS\<close> is the length of \<open>m_tasks\<close>; the loops count with
  a \<open>uint8_t\<close>, so it is below 256.  A callback is a value of an arbitrary type,
  \<open>None\<close> is the NULL pointer.

  The time library of the stack is the parameter \<open>lib_time\<close>; its two clocks are the
  fields \<open>now_hp\<close> and \<open>now_coarse\<close>, which the scheduler reads and never
  writes.  The last call of \<open>lib_system->setPeriodicCb\<close> is \<open>periodic_cb\<close>: its
  delay and execution time, or \<open>None\<close> when the callback is stopped.
\<close>

record lib_time =
  addUsToHpTimestamp :: "u32 \<Rightarrow> u32 \<Rightarrow> u32"
  isHpTimestampBefore :: "u32 \<Rightarrow> u32 \<Rightarrow> bool"
  getTimeDiffUs :: "u32 \<Rightarrow> u32 \<Rightarrow> u32"
  getMaxHpDelay :: u32

datatype timestamp = Coarse u32 | Hp u32

record 'f task =
  t_func :: "'f option"
  t_next_ts :: timestamp
  t_exec_time_us :: u32
  t_updated :: bool
  t_removed :: bool

record 'f sched =
  m_max_time_ms :: u32
  m_initialized :: bool
  m_tasks :: "'f task list"
  m_next_task_p :: "nat option"
  m_force_reschedule :: bool
  now_hp :: u32
  now_coarse :: u32
  periodic_cb :: "(u32 \<times> u32) option"

datatype app_scheduler_res =
  APP_SCHEDULER_RES_OK
| APP_SCHEDULER_RES_NO_MORE_TASK
| APP_SCHEDULER_RES_UNKNOWN_TASK
| APP_SCHEDULER_RES_UNINITIALIZED
| APP_SCHEDULER_RES_TOO_LONG_EXECUTION_TIME

definition APP_SCHEDULER_STOP_TASK :: u32 where
  "APP_SCHEDULER_STOP_TASK = 0xFFFFFFFF"

definition APP_SCHEDULER_SCHEDULE_ASAP :: u32 where "APP_SCHEDULER_SCHEDULE_ASAP = 0"

definition EXECUTION_TIME_NEEDED_FOR_SCHEDULING_US :: u32 where
  "EXECUTION_TIME_NEEDED_FOR_SCHEDULING_US = 20"

definition MAX_EXECUTION_TIME_ALLOWED_BY_STACK_US :: u32 where
  "MAX_EXECUTION_TIME_ALLOWED_BY_STACK_US = 100000"

subsection \<open>Timestamps\<close>

definition coarse_after :: "u32 \<Rightarrow> u32 \<Rightarrow> u32" where
  "coarse_after now ms =
     (let coarse = now;
          (coarse, ms) =
            (if drop_bit 25 ms \<noteq> 0
             then (coarse + (ms AND 0xfe000000) div 1000 * 128, ms AND 0x01ffffff)
             else (coarse, ms));
          coarse = coarse + ms * 128 div 1000
      in if ms * 128 mod 1000 \<noteq> 0 then coarse + 1 else coarse)"

definition get_timestamp :: "lib_time \<Rightarrow> 'f sched \<Rightarrow> u32 \<Rightarrow> timestamp" where
  "get_timestamp lt s ms =
     (if ms < m_max_time_ms s
      then Hp (addUsToHpTimestamp lt (now_hp s) (ms * 1000))
      else Coarse (coarse_after (now_coarse s) ms))"

definition coarse_delay_us :: "u32 \<Rightarrow> u32 \<Rightarrow> u32" where
  "coarse_delay_us coarse now =
     (if Util_isLtUint32 coarse now then 0
      else if coarse - now > 549755 then 0xFFFFFFFF
      else (coarse - now) * 1000 div 128 * 1000)"

definition get_delay_from_now_us :: "lib_time \<Rightarrow> 'f sched \<Rightarrow> timestamp \<Rightarrow> u32" where
  "get_delay_from_now_us lt s ts =
     (case ts of
        Hp hp \<Rightarrow> if isHpTimestampBefore lt hp (now_hp s) then 0 else getTimeDiffUs lt (now_hp s) hp
      | Coarse coarse \<Rightarrow> coarse_delay_us coarse (now_coarse s))"

definition is_timestamp_before :: "lib_time \<Rightarrow> 'f sched \<Rightarrow> timestamp \<Rightarrow> timestamp \<Rightarrow> bool" where
  "is_timestamp_before lt s ts1 ts2 =
     (case (ts1, ts2) of
        (Hp a, Hp b) \<Rightarrow> isHpTimestampBefore lt a b
      | (Coarse a, Coarse b) \<Rightarrow> Util_isLtUint32 a b
      | _ \<Rightarrow> get_delay_from_now_us lt s ts1 < get_delay_from_now_us lt s ts2)"

subsection \<open>The task table\<close>

definition set_task :: "'f sched \<Rightarrow> nat \<Rightarrow> 'f task \<Rightarrow> 'f sched" where
  "set_task s i t = s\<lparr>m_tasks := (m_tasks s)[i := t]\<rparr>"

definition setPeriodicCb :: "'f sched \<Rightarrow> u32 \<Rightarrow> u32 \<Rightarrow> 'f sched" where
  "setPeriodicCb s delay_us exec_time_us = s\<lparr>periodic_cb := Some (delay_us, exec_time_us)\<rparr>"

text \<open>One turn of the search of \<open>add_task_to_table_locked\<close> per element: the slot that
  holds the callback ends it, the first free slot is remembered.\<close>

fun add_scan :: "'f option \<Rightarrow> 'f task list \<Rightarrow> nat \<Rightarrow> nat option \<Rightarrow> nat option \<times> nat option" where
  "add_scan func [] i first_free = (None, first_free)"
| "add_scan func (t # ts) i first_free =
     (if t_func t = func then (Some i, first_free)
      else add_scan func ts (Suc i) (if t_func t = None \<and> first_free = None then Some i else first_free))"

definition add_task_to_table_locked :: "'f sched \<Rightarrow> 'f task \<Rightarrow> bool \<times> 'f sched" where
  "add_task_to_table_locked s task =
     (case add_scan (t_func task) (m_tasks s) 0 None of
        (Some i, _) \<Rightarrow>
          (True, set_task s i ((m_tasks s ! i)\<lparr>t_next_ts := t_next_ts task, t_updated := True, t_removed := False\<rparr>))
      | (None, Some i) \<Rightarrow> (True, set_task s i task)
      | (None, None) \<Rightarrow> (False, s))"

definition remove_task_from_table_locked :: "'f sched \<Rightarrow> 'f option \<Rightarrow> nat option \<times> 'f sched" where
  "remove_task_from_table_locked s cb =
     (case first_index (\<lambda>t. t_func t = cb) (m_tasks s) of
        Some i \<Rightarrow> (Some i, set_task s i ((m_tasks s ! i)\<lparr>t_updated := True, t_removed := True\<rparr>))
      | None \<Rightarrow> (None, s))"

definition App_Scheduler_init :: "lib_time \<Rightarrow> 'f sched \<Rightarrow> 'f sched" where
  "App_Scheduler_init lt s =
     (if m_initialized s then s
      else s\<lparr>m_max_time_ms := getMaxHpDelay lt div 1000,
             m_next_task_p := None,
             m_force_reschedule := False,
             m_tasks := map (\<lambda>t. t\<lparr>t_func := None\<rparr>) (m_tasks s),
             m_initialized := True\<rparr>)"

definition App_Scheduler_addTask_execTime ::
  "lib_time \<Rightarrow> 'f sched \<Rightarrow> 'f option \<Rightarrow> u32 \<Rightarrow> u32 \<Rightarrow> app_scheduler_res \<times> 'f sched" where
  "App_Scheduler_addTask_execTime lt s cb delay_ms exec_time_us =
     (let new_task = \<lparr>t_func = cb, t_next_ts = get_timestamp lt s delay_ms, t_exec_time_us = exec_time_us,
            t_updated = False, t_removed = False\<rparr>
      in if \<not> m_initialized s then (APP_SCHEDULER_RES_UNINITIALIZED, s)
      else if exec_time_us + EXECUTION_TIME_NEEDED_FOR_SCHEDULING_US > MAX_EXECUTION_TIME_ALLOWED_BY_STACK_US
      then (APP_SCHEDULER_RES_TOO_LONG_EXECUTION_TIME, s)
      else (case add_task_to_table_locked s new_task of
          (False, s) \<Rightarrow> (APP_SCHEDULER_RES_NO_MORE_TASK, s)
        | (True, s) \<Rightarrow>
            (APP_SCHEDULER_RES_OK,
             if (case m_next_task_p s of
                   None \<Rightarrow> True
                 | Some i \<Rightarrow> t_func (m_tasks s ! i) = cb
                     \<or> is_timestamp_before lt s (t_next_ts new_task) (t_next_ts (m_tasks s ! i)))
             then setPeriodicCb (s\<lparr>m_force_reschedule := True\<rparr>) 0 EXECUTION_TIME_NEEDED_FOR_SCHEDULING_US
             else s)))"

definition App_Scheduler_cancelTask :: "'f sched \<Rightarrow> 'f option \<Rightarrow> app_scheduler_res \<times> 'f sched" where
  "App_Scheduler_cancelTask s cb =
     (if \<not> m_initialized s then (APP_SCHEDULER_RES_UNINITIALIZED, s)
      else case remove_task_from_table_locked s cb of
          (Some _, s) \<Rightarrow>
            (APP_SCHEDULER_RES_OK,
             setPeriodicCb (s\<lparr>m_force_reschedule := True\<rparr>) 0 EXECUTION_TIME_NEEDED_FOR_SCHEDULING_US)
        | (None, s) \<Rightarrow> (APP_SCHEDULER_RES_UNKNOWN_TASK, s))"

subsection \<open>Running tasks\<close>

text \<open>What happens while a task runs, or between two critical sections: calls of the
  scheduler made by the task or by an interrupt, and the clocks moving on.\<close>

datatype 'f call = Add "'f option" u32 u32 | Cancel "'f option" | Tick u32 u32

fun exec_call :: "lib_time \<Rightarrow> 'f call \<Rightarrow> 'f sched \<Rightarrow> 'f sched" where
  "exec_call lt (Add cb delay_ms exec_time_us) s = snd (App_Scheduler_addTask_execTime lt s cb delay_ms exec_time_us)"
| "exec_call lt (Cancel cb) s = snd (App_Scheduler_cancelTask s cb)"
| "exec_call lt (Tick hp coarse) s = s\<lparr>now_hp := hp, now_coarse := coarse\<rparr>"

definition exec_calls :: "lib_time \<Rightarrow> 'f call list \<Rightarrow> 'f sched \<Rightarrow> 'f sched" where
  "exec_calls lt calls s = fold (exec_call lt) calls s"

text \<open>\<open>body f\<close> is what the callback \<open>f\<close> does in this execution and the delay it
  returns.\<close>

definition perform_task :: "lib_time \<Rightarrow> ('f \<Rightarrow> 'f call list \<times> u32) \<Rightarrow> 'f sched \<Rightarrow> nat option \<Rightarrow> 'f sched" where
  "perform_task lt body s task =
     (case task of
        None \<Rightarrow> s
      | Some i \<Rightarrow>
          (case t_func (m_tasks s ! i) of
             None \<Rightarrow> s
           | Some task_cb \<Rightarrow>
               (let (calls, nxt) = body task_cb;
                    s = exec_calls lt calls s;
                    t = m_tasks s ! i
                in if \<not> t_updated t \<and> \<not> t_removed t
                   then (if nxt = APP_SCHEDULER_STOP_TASK then set_task s i (t\<lparr>t_func := None\<rparr>)
                         else set_task s i (t\<lparr>t_next_ts := get_timestamp lt s nxt\<rparr>))
                   else s)))"

definition next_step :: "lib_time \<Rightarrow> nat \<Rightarrow> nat option \<times> 'f sched \<Rightarrow> nat option \<times> 'f sched" where
  "next_step lt i = (\<lambda>(nxt, s).
     let t = m_tasks s ! i in
     if t_func t \<noteq> None
     then (if t_removed t then (nxt, set_task s i (t\<lparr>t_func := None\<rparr>))
           else if (case nxt of
                      None \<Rightarrow> True
                    | Some k \<Rightarrow> is_timestamp_before lt s (t_next_ts t) (t_next_ts (m_tasks s ! k)))
           then (Some i, s)
           else (nxt, s))
     else (nxt, s))"

definition get_next_task_locked :: "lib_time \<Rightarrow> 'f sched \<Rightarrow> nat option \<times> 'f sched" where
  "get_next_task_locked lt s = fold (next_step lt) [0..<length (m_tasks s)] (None, s)"

definition schedule_task :: "lib_time \<Rightarrow> 'f sched \<Rightarrow> nat \<Rightarrow> 'f sched" where
  "schedule_task lt s task =
     (let t = m_tasks s ! task;
          nxt = get_timestamp lt s (m_max_time_ms s);
          (nxt, exec_time_us) =
            (if is_timestamp_before lt s (t_next_ts t) nxt
             then (t_next_ts t, t_exec_time_us t + EXECUTION_TIME_NEEDED_FOR_SCHEDULING_US)
             else (nxt, EXECUTION_TIME_NEEDED_FOR_SCHEDULING_US))
      in setPeriodicCb s (get_delay_from_now_us lt s nxt) exec_time_us)"

text \<open>The task \<open>periodic_work\<close> is about to execute, if any.\<close>

definition ready_task :: "lib_time \<Rightarrow> 'f sched \<Rightarrow> nat option" where
  "ready_task lt s =
     (if m_force_reschedule s then None
      else case m_next_task_p s of
          None \<Rightarrow> None
        | Some i \<Rightarrow>
            if get_delay_from_now_us lt s (t_next_ts (m_tasks s ! i)) = 0 \<and> \<not> t_removed (m_tasks s ! i)
            then Some i else None)"

text \<open>The second critical section of \<open>periodic_work\<close>: select and program the next task.\<close>

definition select_next :: "lib_time \<Rightarrow> 'f sched \<Rightarrow> 'f sched" where
  "select_next lt s =
     (let (nxt, s) = get_next_task_locked lt s;
          s = s\<lparr>m_next_task_p := nxt\<rparr>;
          s = (case nxt of
                 None \<Rightarrow> s
               | Some i \<Rightarrow>
                   (let s = schedule_task lt s i
                    in set_task s i ((m_tasks s ! i)\<lparr>t_updated := False\<rparr>)))
      in s\<lparr>m_force_reschedule := False\<rparr>)"

text \<open>\<open>irq0\<close> are the calls of interrupts between the test and the task, \<open>irq1\<close>
  those between the task and the last critical section.\<close>

definition periodic_work ::
  "lib_time \<Rightarrow> 'f call list \<Rightarrow> ('f \<Rightarrow> 'f call list \<times> u32) \<Rightarrow> 'f call list \<Rightarrow> 'f sched \<Rightarrow> 'f sched" where
  "periodic_work lt irq0 body irq1 s =
     select_next lt (exec_calls lt irq1
       (case ready_task lt s of
          None \<Rightarrow> s
        | Some i \<Rightarrow> perform_task lt body (exec_calls lt irq0 s) (Some i)))"

subsection \<open>Invariants\<close>

definition live :: "'f sched \<Rightarrow> nat \<Rightarrow> bool" where
  "live s i \<longleftrightarrow> i < length (m_tasks s) \<and> t_func (m_tasks s ! i) \<noteq> None"

text \<open>What holds at every moment: a callback is at most once in the table, and neither a
  task nor the programmed callback asks for more time than the stack grants.\<close>

definition sched_core :: "'f sched \<Rightarrow> bool" where
  "sched_core s \<longleftrightarrow>
     (\<forall>i j. live s i \<longrightarrow> live s j \<longrightarrow> t_func (m_tasks s ! i) = t_func (m_tasks s ! j) \<longrightarrow> i = j) \<and>
     (\<forall>i. live s i \<longrightarrow> t_exec_time_us (m_tasks s ! i) + 20 \<le> 100000) \<and>
     (\<forall>d e. periodic_cb s = Some (d, e) \<longrightarrow> e \<le> 100000) \<and>
     (\<not> m_initialized s \<longrightarrow> m_next_task_p s = None \<and> \<not> m_force_reschedule s \<and> (\<forall>i. \<not> live s i))"

text \<open>What holds outside of \<open>periodic_work\<close>: when there is a task, the callback of the
  stack is programmed, and a selected task that no call has touched since is neither
  updated nor removed.\<close>

definition sched_armed :: "'f sched \<Rightarrow> bool" where
  "sched_armed s \<longleftrightarrow>
     (\<forall>i. m_next_task_p s = Some i \<longrightarrow> live s i \<and>
        (\<not> m_force_reschedule s \<longrightarrow> \<not> t_updated (m_tasks s ! i) \<and> \<not> t_removed (m_tasks s ! i))) \<and>
     (\<forall>i. live s i \<longrightarrow> m_next_task_p s \<noteq> None \<or> m_force_reschedule s) \<and>
     (m_next_task_p s \<noteq> None \<or> m_force_reschedule s \<longrightarrow> periodic_cb s \<noteq> None)"

lemma set_task_simps [simp]:
  "length (m_tasks (set_task s i t)) = length (m_tasks s)"
  "m_next_task_p (set_task s i t) = m_next_task_p s"
  "m_force_reschedule (set_task s i t) = m_force_reschedule s"
  "m_initialized (set_task s i t) = m_initialized s"
  "m_max_time_ms (set_task s i t) = m_max_time_ms s"
  "now_hp (set_task s i t) = now_hp s"
  "now_coarse (set_task s i t) = now_coarse s"
  "periodic_cb (set_task s i t) = periodic_cb s"
  by (simp_all add: set_task_def)

lemma set_task_nth: "j < length (m_tasks s) \<Longrightarrow> m_tasks (set_task s i t) ! j = (if j = i then t else m_tasks s ! j)"
  by (simp add: set_task_def nth_list_update)

lemma live_set_task: "live (set_task s i t) j \<longleftrightarrow> (if j = i then i < length (m_tasks s) \<and> t_func t \<noteq> None else live s j)"
  by (auto simp: live_def set_task_nth)

lemma setPeriodicCb_simps [simp]:
  "m_tasks (setPeriodicCb s d e) = m_tasks s"
  "m_next_task_p (setPeriodicCb s d e) = m_next_task_p s"
  "m_force_reschedule (setPeriodicCb s d e) = m_force_reschedule s"
  "m_initialized (setPeriodicCb s d e) = m_initialized s"
  "periodic_cb (setPeriodicCb s d e) = Some (d, e)"
  by (simp_all add: setPeriodicCb_def)

lemma live_fields [simp]:
  "live (s\<lparr>m_next_task_p := n\<rparr>) i = live s i"
  "live (s\<lparr>m_force_reschedule := b\<rparr>) i = live s i"
  "live (s\<lparr>periodic_cb := c\<rparr>) i = live s i"
  "live (s\<lparr>now_hp := hp, now_coarse := co\<rparr>) i = live s i"
  "live (setPeriodicCb s d e) i = live s i"
  by (simp_all add: live_def)

lemma add_scan_fst: "fst (add_scan f ts k ff) = map_option ((+) k) (first_index (\<lambda>t. t_func t = f) ts)"
  by (induction f ts k ff rule: add_scan.induct) (auto simp: option.map_comp comp_def)

lemma add_scan_snd:
  "fst (add_scan f ts k ff) = None \<Longrightarrow> snd (add_scan f ts k ff) =
     (case ff of None \<Rightarrow> map_option ((+) k) (first_index (\<lambda>t. t_func t = None) ts) | Some _ \<Rightarrow> ff)"
  by (induction f ts k ff rule: add_scan.induct)
    (auto simp: option.map_comp comp_def add_Suc_shift split: option.splits if_splits intro!: option.map_cong)

lemma add_table_cases:
  obtains (update) i where "i < length (m_tasks s)" "t_func (m_tasks s ! i) = t_func task"
      "add_task_to_table_locked s task =
         (True, set_task s i ((m_tasks s ! i)\<lparr>t_next_ts := t_next_ts task, t_updated := True, t_removed := False\<rparr>))"
  | (fresh) i where "i < length (m_tasks s)" "t_func (m_tasks s ! i) = None"
      "\<And>j. j < length (m_tasks s) \<Longrightarrow> t_func (m_tasks s ! j) \<noteq> t_func task"
      "add_task_to_table_locked s task = (True, set_task s i task)"
  | (full) "\<And>j. j < length (m_tasks s) \<Longrightarrow> t_func (m_tasks s ! j) \<noteq> t_func task"
      "\<And>j. j < length (m_tasks s) \<Longrightarrow> t_func (m_tasks s ! j) \<noteq> None"
      "add_task_to_table_locked s task = (False, s)"
proof -
  let ?m = "first_index (\<lambda>t. t_func t = t_func task) (m_tasks s)"
  let ?f = "first_index (\<lambda>t. t_func t = None) (m_tasks s)"
  obtain a b where ab: "add_scan (t_func task) (m_tasks s) 0 None = (a, b)" by fastforce
  then have a: "a = ?m" using add_scan_fst [of "t_func task" "m_tasks s" 0 None] by (cases ?m) auto
  show thesis
  proof (cases a)
    case (Some i)
    with a have "?m = Some i" by simp
    from first_index_SomeD [OF this] Some ab show thesis
      by (intro update [of i]) (auto simp: add_task_to_table_locked_def)
  next
    case None
    then have b: "b = ?f" using ab add_scan_snd [of "t_func task" "m_tasks s" 0 None] by (cases ?f) auto
    have m: "?m = None" using None a by simp
    note no = first_index_NoneD [OF m]
    show thesis
    proof (cases b)
      case b': (Some i)
      with b have "?f = Some i" by simp
      from first_index_SomeD [OF this] b' None ab show thesis
        by (intro fresh [of i] no) (auto simp: add_task_to_table_locked_def)
    next
      case b': None
      with b have f: "?f = None" by simp
      show thesis using b' None ab
        by (intro full no first_index_NoneD [OF f]) (simp_all add: add_task_to_table_locked_def)
    qed
  qed
qed

lemma cancel_cases:
  obtains (uninit) "\<not> m_initialized s" "App_Scheduler_cancelTask s cb = (APP_SCHEDULER_RES_UNINITIALIZED, s)"
  | (marked) i where "m_initialized s" "i < length (m_tasks s)" "t_func (m_tasks s ! i) = cb"
      "App_Scheduler_cancelTask s cb = (APP_SCHEDULER_RES_OK,
         setPeriodicCb (set_task s i ((m_tasks s ! i)\<lparr>t_updated := True, t_removed := True\<rparr>)
           \<lparr>m_force_reschedule := True\<rparr>) 0 20)"
  | (unknown) "m_initialized s" "\<And>j. j < length (m_tasks s) \<Longrightarrow> t_func (m_tasks s ! j) \<noteq> cb"
      "App_Scheduler_cancelTask s cb = (APP_SCHEDULER_RES_UNKNOWN_TASK, s)"
proof (cases "m_initialized s")
  case True
  show thesis
  proof (cases "first_index (\<lambda>t. t_func t = cb) (m_tasks s)")
    case None
    with True first_index_NoneD [OF None] show thesis
      by (intro unknown) (auto simp: App_Scheduler_cancelTask_def remove_task_from_table_locked_def)
  next
    case (Some i)
    with True first_index_SomeD [OF Some] show thesis
      by (intro marked [of i])
        (auto simp: App_Scheduler_cancelTask_def remove_task_from_table_locked_def
          EXECUTION_TIME_NEEDED_FOR_SCHEDULING_US_def)
  qed
qed (simp add: uninit App_Scheduler_cancelTask_def)

lemma add_cases:
  obtains (uninit) "\<not> m_initialized s"
      "App_Scheduler_addTask_execTime lt s cb d e = (APP_SCHEDULER_RES_UNINITIALIZED, s)"
  | (too_long) "m_initialized s" "e + 20 > 100000"
      "App_Scheduler_addTask_execTime lt s cb d e = (APP_SCHEDULER_RES_TOO_LONG_EXECUTION_TIME, s)"
  | (full) "m_initialized s" "e + 20 \<le> 100000"
      "\<And>j. j < length (m_tasks s) \<Longrightarrow> t_func (m_tasks s ! j) \<noteq> cb"
      "\<And>j. j < length (m_tasks s) \<Longrightarrow> t_func (m_tasks s ! j) \<noteq> None"
      "App_Scheduler_addTask_execTime lt s cb d e = (APP_SCHEDULER_RES_NO_MORE_TASK, s)"
  | (ok) i t s1 where "m_initialized s" "e + 20 \<le> 100000" "i < length (m_tasks s)"
      "t_func t = cb" "t_next_ts t = get_timestamp lt s d" "\<not> t_removed t"
      "t_func (m_tasks s ! i) = cb \<and> t_exec_time_us t = t_exec_time_us (m_tasks s ! i) \<and> t_updated t \<or>
       t_func (m_tasks s ! i) = None \<and> t_exec_time_us t = e \<and>
         (\<forall>j < length (m_tasks s). t_func (m_tasks s ! j) \<noteq> cb)"
      "s1 = set_task s i t"
      "App_Scheduler_addTask_execTime lt s cb d e = (APP_SCHEDULER_RES_OK,
         if (case m_next_task_p s of None \<Rightarrow> True
             | Some k \<Rightarrow> t_func (m_tasks s1 ! k) = cb
                 \<or> is_timestamp_before lt s1 (get_timestamp lt s d) (t_next_ts (m_tasks s1 ! k)))
         then setPeriodicCb (s1\<lparr>m_force_reschedule := True\<rparr>) 0 20 else s1)"
proof (cases "m_initialized s \<and> e + 20 \<le> 100000")
  case True
  let ?new = "\<lparr>t_func = cb, t_next_ts = get_timestamp lt s d, t_exec_time_us = e, t_updated = False, t_removed = False\<rparr>"
  note D = App_Scheduler_addTask_execTime_def EXECUTION_TIME_NEEDED_FOR_SCHEDULING_US_def
    MAX_EXECUTION_TIME_ALLOWED_BY_STACK_US_def Let_def
  show thesis
  proof (cases rule: add_table_cases [of s ?new])
    case (update i)
    with True show thesis
      by (intro ok [of i "(m_tasks s ! i)\<lparr>t_next_ts := get_timestamp lt s d, t_updated := True, t_removed := False\<rparr>",
            OF _ _ _ _ _ _ _ refl]) (simp_all add: D not_less cong: option.case_cong)
  next
    case (fresh i)
    with True show thesis by (intro ok [of i ?new, OF _ _ _ _ _ _ _ refl]) (simp_all add: D not_less cong: option.case_cong)
  next
    case full': full
    with True show thesis by (intro full) (auto simp: D not_less)
  qed
qed (auto simp: not_le not_less App_Scheduler_addTask_execTime_def EXECUTION_TIME_NEEDED_FOR_SCHEDULING_US_def
    MAX_EXECUTION_TIME_ALLOWED_BY_STACK_US_def intro: uninit too_long)

lemma core_set_task:
  assumes "sched_core s"
    and "t_func t \<noteq> None \<Longrightarrow> i < length (m_tasks s) \<Longrightarrow> m_initialized s \<and> t_exec_time_us t + 20 \<le> 100000 \<and>
       (\<forall>j. live s j \<longrightarrow> j \<noteq> i \<longrightarrow> t_func (m_tasks s ! j) \<noteq> t_func t)"
  shows "sched_core (set_task s i t)"
proof -
  have new: "m_initialized s" "t_exec_time_us t + 20 \<le> 100000"
      "\<And>j. live s j \<Longrightarrow> j \<noteq> i \<Longrightarrow> t_func (m_tasks s ! j) \<noteq> t_func t" if "live (set_task s i t) i"
    using assms(2) that by (auto simp: live_set_task)
  have old: "live s j" if "live (set_task s i t) j" "j \<noteq> i" for j
    using that by (simp add: live_set_task)
  have nth: "m_tasks (set_task s i t) ! j = (if j = i then t else m_tasks s ! j)" if "live (set_task s i t) j" for j
    using that by (simp add: live_def set_task_nth)
  have "a = b" if "live (set_task s i t) a" "live (set_task s i t) b"
      "t_func (m_tasks (set_task s i t) ! a) = t_func (m_tasks (set_task s i t) ! b)" for a b
    using that new(3) old nth assms(1) unfolding sched_core_def by metis
  moreover have "t_exec_time_us (m_tasks (set_task s i t) ! a) + 20 \<le> 100000" if "live (set_task s i t) a" for a
    using that new(2) old nth assms(1) unfolding sched_core_def by metis
  moreover have "\<not> live (set_task s i t) a" if "\<not> m_initialized s" for a
    using that new(1) old assms(1) unfolding sched_core_def by metis
  ultimately show ?thesis using assms(1) by (simp add: sched_core_def)
qed

lemma core_fields:
  "sched_core s \<Longrightarrow> m_initialized s \<Longrightarrow> sched_core (s\<lparr>m_force_reschedule := b\<rparr>)"
  "sched_core s \<Longrightarrow> sched_core (s\<lparr>m_force_reschedule := False\<rparr>)"
  "sched_core s \<Longrightarrow> m_initialized s \<Longrightarrow> sched_core (s\<lparr>m_next_task_p := n\<rparr>)"
  "sched_core s \<Longrightarrow> sched_core (s\<lparr>m_next_task_p := None\<rparr>)"
  "sched_core s \<Longrightarrow> sched_core (s\<lparr>periodic_cb := None\<rparr>)"
  "sched_core s \<Longrightarrow> e \<le> 100000 \<Longrightarrow> sched_core (setPeriodicCb s d e)"
  "sched_core s \<Longrightarrow> sched_core (s\<lparr>now_hp := hp, now_coarse := co\<rparr>)"
  by (simp_all add: sched_core_def live_def)

lemma core_distinct:
  "sched_core s \<Longrightarrow> live s i \<Longrightarrow> live s j \<Longrightarrow> t_func (m_tasks s ! i) = t_func (m_tasks s ! j) \<Longrightarrow> i = j"
  by (simp add: sched_core_def)

lemma core_exec: "sched_core s \<Longrightarrow> live s i \<Longrightarrow> t_exec_time_us (m_tasks s ! i) + 20 \<le> 100000"
  by (simp add: sched_core_def)

lemma core_live_init: "sched_core s \<Longrightarrow> live s i \<Longrightarrow> m_initialized s"
  by (auto simp: sched_core_def)

lemma add_core [keeps]:
  assumes core: "sched_core s"
  shows "sched_core (snd (App_Scheduler_addTask_execTime lt s cb d e))"
proof (cases rule: add_cases [of s lt cb d e])
  case (ok i t s1)
  have "sched_core s1"
    unfolding \<open>s1 = _\<close>
  proof (rule core_set_task [OF core])
    assume f: "t_func t \<noteq> None"
    have "t_exec_time_us t + 20 \<le> 100000"
      using ok f core_exec [OF core, of i] by (auto simp: live_def)
    moreover have "t_func (m_tasks s ! j) \<noteq> t_func t" if "live s j" "j \<noteq> i" for j
      using ok(3,4,7) f that core_distinct [OF core, of i j] by (auto simp: live_def)
    ultimately show "m_initialized s \<and> t_exec_time_us t + 20 \<le> 100000 \<and>
        (\<forall>j. live s j \<longrightarrow> j \<noteq> i \<longrightarrow> t_func (m_tasks s ! j) \<noteq> t_func t)" using ok(1) by blast
  qed
  moreover have "m_initialized s1" using ok by simp
  ultimately have "sched_core (setPeriodicCb (s1\<lparr>m_force_reschedule := True\<rparr>) 0 20)"
    by (intro core_fields) simp_all
  then show ?thesis unfolding ok(9) using \<open>sched_core s1\<close> by simp
qed (use core in simp_all)

lemma cancel_core [keeps]:
  assumes core: "sched_core s"
  shows "sched_core (snd (App_Scheduler_cancelTask s cb))"
proof (cases rule: cancel_cases [of s cb])
  case (marked i)
  have "sched_core (set_task s i ((m_tasks s ! i)\<lparr>t_updated := True, t_removed := True\<rparr>))"
    using marked(1) core_distinct [OF core, of i] core_exec [OF core, of i]
    by (intro core_set_task [OF core]) (auto simp: live_def dest: sym)
  then show ?thesis unfolding marked(4) using marked(1) by (auto intro!: core_fields)
qed (use core in simp_all)

lemma exec_call_core [keeps]: "sched_core s \<Longrightarrow> sched_core (exec_call lt c s)"
  by (cases c) (simp_all add: keeps core_fields)

lemma exec_calls_core [keeps]: "sched_core s \<Longrightarrow> sched_core (exec_calls lt cs s)"
  unfolding exec_calls_def by (induction cs arbitrary: s) (simp_all add: keeps)

lemma is_timestamp_before_clock:
  "now_hp s = now_hp s' \<Longrightarrow> now_coarse s = now_coarse s' \<Longrightarrow> is_timestamp_before lt s = is_timestamp_before lt s'"
  "now_hp s = now_hp s' \<Longrightarrow> now_coarse s = now_coarse s' \<Longrightarrow> get_delay_from_now_us lt s = get_delay_from_now_us lt s'"
proof -
  show d: "get_delay_from_now_us lt s = get_delay_from_now_us lt s'"
    if "now_hp s = now_hp s'" "now_coarse s = now_coarse s'"
    using that by (auto simp: get_delay_from_now_us_def fun_eq_iff split: timestamp.split)
  show "is_timestamp_before lt s = is_timestamp_before lt s'"
    if "now_hp s = now_hp s'" "now_coarse s = now_coarse s'"
    using d [OF that] by (simp add: is_timestamp_before_def fun_eq_iff split: timestamp.split)
qed

text \<open>Selection clears the removed tasks, and nothing else.\<close>

definition clear_removed :: "'f task \<Rightarrow> 'f task" where
  "clear_removed t = (if t_removed t then t\<lparr>t_func := None\<rparr> else t)"

definition sweep :: "'f sched \<Rightarrow> 'f sched" where
  "sweep s = s\<lparr>m_tasks := map clear_removed (m_tasks s)\<rparr>"

lemma sweep_simps [simp]:
  "length (m_tasks (sweep s)) = length (m_tasks s)" "m_next_task_p (sweep s) = m_next_task_p s"
  "m_force_reschedule (sweep s) = m_force_reschedule s" "m_initialized (sweep s) = m_initialized s"
  "m_max_time_ms (sweep s) = m_max_time_ms s" "now_hp (sweep s) = now_hp s"
  "now_coarse (sweep s) = now_coarse s" "periodic_cb (sweep s) = periodic_cb s"
  by (simp_all add: sweep_def)

lemma sweep_nth: "i < length (m_tasks s) \<Longrightarrow> m_tasks (sweep s) ! i = clear_removed (m_tasks s ! i)"
  by (simp add: sweep_def)

lemma live_sweep: "live (sweep s) i \<longleftrightarrow> live s i \<and> \<not> t_removed (m_tasks s ! i)"
  by (cases "t_removed (m_tasks s ! i)") (auto simp: live_def sweep_nth clear_removed_def)

lemma live_sweep_nth: "live (sweep s) i \<Longrightarrow> m_tasks (sweep s) ! i = m_tasks s ! i"
  unfolding live_sweep by (auto simp: live_def sweep_nth clear_removed_def)

lemma sweep_core: "sched_core s \<Longrightarrow> sched_core (sweep s)"
  by (simp add: sched_core_def live_sweep_nth) (simp add: live_sweep)

text \<open>What the loop has selected after \<open>n\<close> turns: no task when none is left, otherwise a
  task of them that is left.\<close>

definition selection :: "lib_time \<Rightarrow> 'f sched \<Rightarrow> nat \<Rightarrow> nat option" where
  "selection lt s n = fst (fold (next_step lt) [0..<n] (None, s))"

lemma clear_removed_free: "t_func t = None \<Longrightarrow> clear_removed t = t"
  by (cases t) (simp add: clear_removed_def)

lemma next_step_snd:
  assumes "n < length (m_tasks s)"
  shows "snd (next_step lt n (k, s)) = s\<lparr>m_tasks := (m_tasks s)[n := clear_removed (m_tasks s ! n)]\<rparr>"
proof (cases "t_func (m_tasks s ! n) \<noteq> None \<and> t_removed (m_tasks s ! n)")
  case True
  then show ?thesis by (auto simp: next_step_def set_task_def clear_removed_def Let_def)
next
  case False
  then have "clear_removed (m_tasks s ! n) = m_tasks s ! n"
    using clear_removed_free by (auto simp: clear_removed_def)
  with False show ?thesis by (auto simp: next_step_def Let_def)
qed

lemma fold_next_Suc:
  "fold (next_step lt) [0..<Suc n] x = next_step lt n (fold (next_step lt) [0..<n] x)"
  by simp

lemma fold_next_step:
  assumes "n \<le> length (m_tasks s)"
  shows "snd (fold (next_step lt) [0..<n] (None, s)) =
     s\<lparr>m_tasks := map clear_removed (take n (m_tasks s)) @ drop n (m_tasks s)\<rparr>"
  using assms
proof (induction n)
  case (Suc n)
  let ?ts = "map clear_removed (take n (m_tasks s)) @ drop n (m_tasks s)" and ?t = "m_tasks s ! n"
  obtain k where k: "fold (next_step lt) [0..<n] (None, s) = (k, s\<lparr>m_tasks := ?ts\<rparr>)"
    using Suc by (metis Suc_leD prod.collapse)
  have n: "n < length (m_tasks s)" using Suc.prems by simp
  then have nth: "?ts ! n = ?t" by (simp add: nth_append)
  have upd: "?ts[n := clear_removed ?t] = map clear_removed (take (Suc n) (m_tasks s)) @ drop (Suc n) (m_tasks s)"
    using n by (simp add: list_update_append take_Suc_conv_app_nth flip: Cons_nth_drop_Suc)
  show ?case
    unfolding fold_next_Suc k upd [symmetric] using n nth
    by (subst next_step_snd) simp_all
qed simp

lemma get_next_sweep: "snd (get_next_task_locked lt s) = sweep s"
  unfolding get_next_task_locked_def by (subst fold_next_step) (simp_all add: sweep_def)

lemma selection_lt: "selection lt s n = Some k \<Longrightarrow> k < n"
proof (induction n arbitrary: k)
  case (Suc n)
  let ?x = "fold (next_step lt) [0..<n] (None, s)"
  have "fst (next_step lt n ?x) = fst ?x \<or> fst (next_step lt n ?x) = Some n"
    by (cases ?x) (simp add: next_step_def Let_def)
  with Suc.prems have "selection lt s n = Some k \<or> k = n"
    unfolding selection_def fold_next_Suc by auto
  with Suc.IH show ?case by (auto simp: less_Suc_eq)
qed (simp add: selection_def)

lemma selection_Suc:
  assumes n: "n < length (m_tasks s)"
  shows "selection lt s (Suc n) =
     (if live (sweep s) n \<and> (case selection lt s n of
           None \<Rightarrow> True
         | Some k \<Rightarrow> is_timestamp_before lt s (t_next_ts (m_tasks s ! n)) (t_next_ts (m_tasks s ! k)))
      then Some n else selection lt s n)"
proof -
  let ?ts = "map clear_removed (take n (m_tasks s)) @ drop n (m_tasks s)"
  have "snd (fold (next_step lt) [0..<n] (None, s)) = s\<lparr>m_tasks := ?ts\<rparr>"
    using n by (intro fold_next_step) simp
  then have k: "fold (next_step lt) [0..<n] (None, s) = (selection lt s n, s\<lparr>m_tasks := ?ts\<rparr>)"
    unfolding selection_def by (metis prod.collapse)
  have nth: "?ts ! n = m_tasks s ! n" using n by (simp add: nth_append)
  have ts: "t_next_ts (?ts ! k) = t_next_ts (m_tasks s ! k)" if "selection lt s n = Some k" for k
    using selection_lt [OF that] n by (simp add: nth_append clear_removed_def)
  have clk: "is_timestamp_before lt (s\<lparr>m_tasks := ?ts\<rparr>) = is_timestamp_before lt s"
    by (rule is_timestamp_before_clock) simp_all
  have l: "live (sweep s) n \<longleftrightarrow> t_func (m_tasks s ! n) \<noteq> None \<and> \<not> t_removed (m_tasks s ! n)"
    using n unfolding live_sweep by (simp add: live_def)
  show ?thesis
    unfolding selection_def [of lt s "Suc n"] fold_next_Suc k
    by (cases "selection lt s n") (simp_all add: next_step_def Let_def nth clk l ts)
qed

lemma selection_live:
  "n \<le> length (m_tasks s) \<Longrightarrow>
     (case selection lt s n of
        None \<Rightarrow> \<forall>j < n. \<not> live (sweep s) j
      | Some k \<Rightarrow> live (sweep s) k)"
proof (induction n)
  case 0
  then show ?case by (simp add: selection_def)
next
  case (Suc n)
  then show ?case by (auto simp: selection_Suc less_Suc_eq split: option.splits)
qed

lemma get_next_cases:
  obtains (none) "get_next_task_locked lt s = (None, sweep s)" "\<And>j. \<not> live (sweep s) j"
  | (task) k where "get_next_task_locked lt s = (Some k, sweep s)" "live (sweep s) k"
      "selection lt s (length (m_tasks s)) = Some k"
proof -
  have eq: "get_next_task_locked lt s = (selection lt s (length (m_tasks s)), sweep s)"
    using get_next_sweep [of lt s] unfolding selection_def get_next_task_locked_def by (metis prod.collapse)
  show thesis
  proof (cases "selection lt s (length (m_tasks s))")
    case None
    then have "\<not> live (sweep s) j" for j
      using selection_live [of "length (m_tasks s)" s lt] by (cases "j < length (m_tasks s)") (auto simp: live_def)
    with None eq none show thesis by simp
  next
    case (Some k)
    then show thesis using eq task selection_live [of "length (m_tasks s)" s lt] by simp
  qed
qed

lemma schedule_task_eq:
  "schedule_task lt s k =
     (let mx = get_timestamp lt s (m_max_time_ms s); ts = t_next_ts (m_tasks s ! k)
      in if is_timestamp_before lt s ts mx
         then setPeriodicCb s (get_delay_from_now_us lt s ts) (t_exec_time_us (m_tasks s ! k) + 20)
         else setPeriodicCb s (get_delay_from_now_us lt s mx) 20)"
  by (simp add: schedule_task_def Let_def EXECUTION_TIME_NEEDED_FOR_SCHEDULING_US_def)

lemma schedule_task_exec:
  "\<exists>d e. schedule_task lt s k = setPeriodicCb s d e \<and> (e = 20 \<or> e = t_exec_time_us (m_tasks s ! k) + 20)"
  by (cases "is_timestamp_before lt s (t_next_ts (m_tasks s ! k)) (get_timestamp lt s (m_max_time_ms s))")
    (auto simp: schedule_task_eq Let_def)

lemma select_next_inv:
  assumes core: "sched_core s"
  shows "sched_core (select_next lt s) \<and> sched_armed (select_next lt s)"
proof (cases rule: get_next_cases [of lt s])
  case none
  then have "select_next lt s = sweep s\<lparr>m_next_task_p := None, m_force_reschedule := False\<rparr>"
    by (simp add: select_next_def)
  with none(2) sweep_core [OF core] show ?thesis
    by (auto simp: sched_armed_def intro!: core_fields)
next
  case (task k)
  let ?s = "sweep s\<lparr>m_next_task_p := Some k\<rparr>"
  obtain d e where sch: "schedule_task lt ?s k = setPeriodicCb ?s d e"
    and e: "e = 20 \<or> e = t_exec_time_us (m_tasks ?s ! k) + 20"
    using schedule_task_exec by blast
  let ?s2 = "setPeriodicCb ?s d e"
  have sel: "select_next lt s = set_task ?s2 k ((m_tasks ?s2 ! k)\<lparr>t_updated := False\<rparr>)\<lparr>m_force_reschedule := False\<rparr>"
    using task by (simp add: select_next_def sch Let_def)
  have core1: "sched_core ?s"
    using core_live_init [OF sweep_core [OF core] task(2)] sweep_core [OF core] by (intro core_fields)
  have "e \<le> 100000" using e core_exec [OF core1, of k] task(2) by auto
  with core1 have core2: "sched_core ?s2" by (rule core_fields(6))
  have l: "live ?s2 k" using task(2) by simp
  have "sched_core (set_task ?s2 k ((m_tasks ?s2 ! k)\<lparr>t_updated := False\<rparr>))"
    using core_distinct [OF core2, of k] core_exec [OF core2 l] core_live_init [OF core2 l] l
    by (intro core_set_task [OF core2]) (auto dest: sym)
  moreover have "\<not> t_removed (m_tasks (sweep s) ! k)"
    using task(2) live_sweep_nth [OF task(2)] unfolding live_sweep by simp
  then have "sched_armed (select_next lt s)"
    using l task(2) unfolding sel sched_armed_def by (auto simp: live_def set_task_nth)
  ultimately show ?thesis unfolding sel by (auto intro: core_fields)
qed

lemma add_armed [keeps]:
  assumes armed: "sched_armed s" and core: "sched_core s"
  shows "sched_armed (snd (App_Scheduler_addTask_execTime lt s cb d e))"
proof (cases rule: add_cases [of s lt cb d e])
  case (ok i t s1)
  let ?c = "case m_next_task_p s of None \<Rightarrow> True
      | Some k \<Rightarrow> t_func (m_tasks s1 ! k) = cb
          \<or> is_timestamp_before lt s1 (get_timestamp lt s d) (t_next_ts (m_tasks s1 ! k))"
  have next_live: "live s1 k" if "m_next_task_p s = Some k" for k
    using that armed ok(3,4,7,8) by (auto simp: sched_armed_def live_set_task) (auto simp: live_def)
  show ?thesis
  proof (cases ?c)
    case True
    then show ?thesis unfolding ok(9) using next_live ok(8) by (auto simp: sched_armed_def)
  next
    case False
    then obtain k where k: "m_next_task_p s = Some k" "t_func (m_tasks s1 ! k) \<noteq> cb" by (auto split: option.splits)
    then have "k \<noteq> i" using ok(3,4,8) by (auto simp: set_task_nth)
    moreover have "k < length (m_tasks s)" using armed k(1) by (simp add: sched_armed_def live_def)
    ultimately have "m_tasks s1 ! k = m_tasks s ! k" using ok(8) by (simp add: set_task_nth)
    then have "sched_armed s1" using armed k(1) next_live [OF k(1)] ok(8) by (auto simp: sched_armed_def)
    with False show ?thesis unfolding ok(9) by simp
  qed
qed (use armed in simp_all)

lemma cancel_armed [keeps]:
  assumes armed: "sched_armed s"
  shows "sched_armed (snd (App_Scheduler_cancelTask s cb))"
proof (cases rule: cancel_cases [of s cb])
  case (marked i)
  then show ?thesis using armed unfolding marked(4) by (auto simp: sched_armed_def live_set_task) (auto simp: live_def)
qed (use armed in simp_all)

lemma init_inv [keeps]:
  assumes "sched_core s" "sched_armed s"
  shows "sched_core (App_Scheduler_init lt s) \<and> sched_armed (App_Scheduler_init lt s)"
proof (cases "m_initialized s")
  case False
  let ?s = "App_Scheduler_init lt s"
  have eq: "m_tasks ?s = map (\<lambda>t. t\<lparr>t_func := None\<rparr>) (m_tasks s)" "m_next_task_p ?s = None"
    "\<not> m_force_reschedule ?s" "m_initialized ?s" "periodic_cb ?s = periodic_cb s"
    using False by (simp_all add: App_Scheduler_init_def)
  have "\<not> live ?s i" for i by (simp add: live_def eq(1))
  with eq assms show ?thesis by (simp add: sched_core_def sched_armed_def)
qed (use assms in \<open>simp add: App_Scheduler_init_def\<close>)

lemma perform_core:
  assumes core: "sched_core s"
  shows "sched_core (perform_task lt body s task)"
proof (cases task)
  case (Some i)
  show ?thesis
  proof (cases "t_func (m_tasks s ! i)")
    case (Some f)
    obtain calls nxt where b: "body f = (calls, nxt)" by fastforce
    let ?s = "exec_calls lt calls s"
    have core': "sched_core ?s" using core by (simp add: keeps)
    have set: "sched_core (set_task ?s i t)"
      if t: "t_func t = None \<or> t_func t = t_func (m_tasks ?s ! i) \<and> t_exec_time_us t = t_exec_time_us (m_tasks ?s ! i)" for t
    proof (rule core_set_task [OF core'])
      assume f: "t_func t \<noteq> None" and "i < length (m_tasks ?s)"
      then have l: "live ?s i" using t by (auto simp: live_def)
      have "t_func (m_tasks ?s ! j) \<noteq> t_func t" if "live ?s j" "j \<noteq> i" for j
        using core_distinct [OF core' that(1) l] t f that(2) by auto
      then show "m_initialized ?s \<and> t_exec_time_us t + 20 \<le> 100000 \<and>
          (\<forall>j. live ?s j \<longrightarrow> j \<noteq> i \<longrightarrow> t_func (m_tasks ?s ! j) \<noteq> t_func t)"
        using core_exec [OF core' l] core_live_init [OF core' l] t f by auto
    qed
    show ?thesis unfolding perform_task_def \<open>task = Some i\<close> using Some b set core' by (simp add: Let_def)
  qed (simp add: perform_task_def \<open>task = Some i\<close> core)
qed (simp add: perform_task_def core)

lemma periodic_work_inv [keeps]:
  assumes "sched_core s"
  shows "sched_core (periodic_work lt irq0 body irq1 s) \<and> sched_armed (periodic_work lt irq0 body irq1 s)"
  unfolding periodic_work_def
  by (rule select_next_inv) (use assms in \<open>auto intro!: keeps perform_core split: option.split\<close>)

subsection \<open>Runs of the scheduler\<close>

text \<open>A step is a call from the application or from an interrupt outside of the periodic
  callback, or the stack calling the programmed callback: it forgets the program, and
  keeps whatever the callback programs.\<close>

inductive sched_step :: "lib_time \<Rightarrow> 'f sched \<Rightarrow> 'f sched \<Rightarrow> bool" for lt where
  init: "sched_step lt s (App_Scheduler_init lt s)"
| call: "sched_step lt s (exec_call lt c s)"
| work: "periodic_cb s \<noteq> None \<Longrightarrow>
    sched_step lt s (periodic_work lt irq0 body irq1 (s\<lparr>periodic_cb := None\<rparr>))"

definition sched_boot :: "nat \<Rightarrow> 'f sched" where
  "sched_boot n = \<lparr>m_max_time_ms = 0, m_initialized = False,
     m_tasks = replicate n \<lparr>t_func = None, t_next_ts = Coarse 0, t_exec_time_us = 0, t_updated = False, t_removed = False\<rparr>,
     m_next_task_p = None, m_force_reschedule = False, now_hp = 0, now_coarse = 0, periodic_cb = None\<rparr>"

inductive sched_reachable :: "lib_time \<Rightarrow> nat \<Rightarrow> 'f sched \<Rightarrow> bool" for lt n where
  boot: "sched_reachable lt n (sched_boot n)"
| step: "sched_reachable lt n s \<Longrightarrow> sched_step lt s s' \<Longrightarrow> sched_reachable lt n s'"

lemma tick_armed: "sched_armed (s\<lparr>now_hp := hp, now_coarse := co\<rparr>) = sched_armed s"
  by (simp add: sched_armed_def)

lemma exec_call_armed [keeps]: "sched_core s \<Longrightarrow> sched_armed s \<Longrightarrow> sched_armed (exec_call lt c s)"
  by (cases c) (simp_all add: keeps tick_armed)

lemma sched_step_inv:
  "sched_step lt s s' \<Longrightarrow> sched_core s \<Longrightarrow> sched_armed s \<Longrightarrow> sched_core s' \<and> sched_armed s'"
  by (induction rule: sched_step.induct) (auto simp: keeps core_fields)

lemma sched_reachable_inv: "sched_reachable lt n s \<Longrightarrow> sched_core s \<and> sched_armed s"
proof (induction rule: sched_reachable.induct)
  case boot
  have "\<not> live (sched_boot n :: 'a sched) i" for i by (simp add: live_def sched_boot_def)
  then show ?case by (simp add: sched_core_def sched_armed_def) (simp add: sched_boot_def)
qed (use sched_step_inv in blast)

subsection \<open>Delays\<close>

text \<open>The ticks of 1/128 s that \<open>get_timestamp\<close> adds for a delay in ms.\<close>

definition delay_ticks :: "nat \<Rightarrow> nat" where
  "delay_ticks ms = (ms - ms mod 2 ^ 25) div 1000 * 128 + ((ms mod 2 ^ 25) * 128 + 999) div 1000"

lemma unat_mod_25: "unat (ms AND 0x01ffffff :: u32) = unat ms mod 2 ^ 25"
proof -
  have "(0x01ffffff :: u32) = mask 25" by (simp add: mask_eq_exp_minus_1)
  then have "ms AND 0x01ffffff = take_bit 25 ms" by (simp only: take_bit_eq_mask)
  moreover have "unat (take_bit 25 ms) = take_bit 25 (unat ms)" by (rule unsigned_take_bit_eq)
  moreover have "take_bit 25 (unat ms) = unat ms mod 2 ^ 25" by (rule take_bit_eq_mod)
  ultimately show ?thesis by (simp only:)
qed

lemma unat_high_25: "unat (ms AND 0xfe000000 :: u32) = unat ms - unat ms mod 2 ^ 25"
proof -
  have n: "(0xfe000000 :: u32) = NOT 0x01ffffff" by simp
  have "ms - (ms AND 0x01ffffff) = ms AND NOT (ms AND 0x01ffffff)"
    by (rule disjunctive_diff_eq_and_not) (rule bit_word_eqI, auto simp: bit_simps)
  also have "\<dots> = ms AND NOT 0x01ffffff"
    by (rule bit_word_eqI) (auto simp: bit_simps)
  finally have "ms AND 0xfe000000 = ms - (ms AND 0x01ffffff)" unfolding n by (rule sym)
  moreover have "ms AND 0x01ffffff \<le> ms" by (rule word_and_le2)
  ultimately show ?thesis using unat_minus_le [of "ms AND 0x01ffffff" ms] unat_mod_25 by metis
qed

lemma unat_mult_small: "unat (a::u32) * unat b < 2 ^ 32 \<Longrightarrow> unat (a * b) = unat a * unat b"
  by (simp add: unat_word_ariths)

lemma ceil_1000: "((x::nat) + 999) div 1000 = x div 1000 + (if x mod 1000 = 0 then 0 else 1)"
proof -
  define q r where "q = x div 1000" and "r = x mod 1000"
  have x: "x = 1000 * q + r" "r < 1000" by (simp_all add: q_def r_def)
  have "(x + 999) div 1000 = q + (if r = 0 then 0 else 1)"
    by (rule div_nat_eqI) (use x in auto)
  then show ?thesis unfolding q_def r_def .
qed

lemma div_1000: "x div 1000 * 1000 \<le> (x::nat)" "x < x div 1000 * 1000 + 1000"
  using div_mult_mod_eq [of x 1000] mod_less_divisor [of 1000 x] by linarith+

lemma delay_ticks_bounds:
  "delay_ticks ms * 1000 \<le> ms * 128 + 999" "ms * 128 < (delay_ticks ms + 128) * 1000"
  "ms < 2 ^ 25 \<Longrightarrow> ms * 128 \<le> delay_ticks ms * 1000"
proof -
  define H L where "H = ms - ms mod 2 ^ 25" and "L = ms mod 2 ^ 25"
  have ms: "ms = H + L" by (simp add: H_def L_def)
  have d: "delay_ticks ms = H div 1000 * 128 + (L * 128 + 999) div 1000"
    by (simp add: delay_ticks_def H_def L_def)
  note h = div_1000 [of H]
  have l: "(L * 128 + 999) div 1000 * 1000 \<le> L * 128 + 999" "L * 128 \<le> (L * 128 + 999) div 1000 * 1000"
    using div_1000 [of "L * 128 + 999"] by linarith+
  define A B where "A = H div 1000" and "B = (L * 128 + 999) div 1000"
  have d': "delay_ticks ms = A * 128 + B" using d by (simp only: A_def B_def)
  have h': "A * 1000 \<le> H" "H \<le> A * 1000 + 999" using h unfolding A_def [symmetric] by linarith+
  have l': "B * 1000 \<le> L * 128 + 999" "L * 128 \<le> B * 1000" using l unfolding B_def [symmetric] by linarith+
  show "delay_ticks ms * 1000 \<le> ms * 128 + 999" using ms h' l' unfolding d' distrib_right by linarith
  show "ms * 128 < (delay_ticks ms + 128) * 1000" using ms h' l' unfolding d' distrib_right by linarith
  show "ms * 128 \<le> delay_ticks ms * 1000" if "ms < 2 ^ 25"
  proof -
    have "ms mod 2 ^ 25 = ms" using that by (rule mod_less)
    then have "H = 0" unfolding H_def by simp
    then show ?thesis using ms l'(2) unfolding d' distrib_right by linarith
  qed
qed

lemma coarse_after_ticks:
  "coarse_after now ms = now + of_nat (delay_ticks (unat ms))" "delay_ticks (unat ms) < 2 ^ 30"
proof -
  let ?h = "ms AND 0xfe000000" and ?l = "ms AND 0x01ffffff"
  let ?H = "unat ms - unat ms mod 2 ^ 25" and ?L = "unat ms mod 2 ^ 25"
  have H: "?H < 4294967296" using unat_lt_32 [of ms] by simp
  have L: "?L < 33554432" by simp
  have l: "?l * 128 div 1000 = of_nat (?L * 128 div 1000)" "?l * 128 mod 1000 = 0 \<longleftrightarrow> ?L * 128 mod 1000 = 0"
  proof -
    have m: "unat (?l * 128) = ?L * 128"
      using L unat_mod_25 [of ms] by (subst unat_mult_small) simp_all
    then show "?l * 128 div 1000 = of_nat (?L * 128 div 1000)"
      by (simp add: word_unat_eq_iff unat_div unat_of_nat_small less_mult_imp_div_less)
    show "?l * 128 mod 1000 = 0 \<longleftrightarrow> ?L * 128 mod 1000 = 0"
      using m by (simp add: word_unat_eq_iff unat_mod)
  qed
  have h: "?h div 1000 * 128 = of_nat (?H div 1000 * 128)"
    using unat_high_25 [of ms] by (simp add: word_arith_nat_div)
  note c = ceil_1000 [of "?L * 128"]
  have "coarse_after now ms = now + ?h div 1000 * 128 + ?l * 128 div 1000 + (if ?l * 128 mod 1000 = 0 then 0 else 1)"
  proof (cases "drop_bit 25 ms = 0")
    case True
    then have "unat ms div 2 ^ 25 = 0" by (metis unat_drop_bit_eq drop_bit_eq_div unat_0)
    then have "?L = unat ms" by (simp add: div_eq_0_iff)
    then have "?l = ms" "?h = 0" using unat_mod_25 [of ms] unat_high_25 [of ms] by (simp_all add: word_unat_eq_iff)
    with True show ?thesis by (simp add: coarse_after_def Let_def)
  qed (simp add: coarse_after_def Let_def)
  then show "coarse_after now ms = now + of_nat (delay_ticks (unat ms))"
    unfolding delay_ticks_def c l h by (simp add: add.assoc)
  show "delay_ticks (unat ms) < 2 ^ 30"
    using delay_ticks_bounds(1) [of "unat ms"] unat_lt_32 [of ms] by simp
qed

text \<open>Coarse timestamps less than 97 days (\<open>2 ^ 30\<close> ticks) from now, seen from the start
  of this window, and the delay in us to a tick in the future.\<close>

definition coarse_offset :: "u32 \<Rightarrow> u32 \<Rightarrow> nat" where
  "coarse_offset now c = unat (c - (now - 2 ^ 30))"

definition coarse_near :: "u32 \<Rightarrow> u32 \<Rightarrow> bool" where
  "coarse_near now c \<longleftrightarrow> coarse_offset now c < 2 ^ 31"

definition tick_delay_us :: "nat \<Rightarrow> nat" where
  "tick_delay_us ticks = (if ticks > 549755 then 2 ^ 32 - 1 else ticks * 1000 div 128 * 1000)"

lemma coarse_offset_eq: "c = (now - 2 ^ 30) + of_nat (coarse_offset now c)"
  by (simp add: coarse_offset_def)

lemma coarse_offset_now: "coarse_offset now now = 2 ^ 30" "coarse_near now now"
  by (simp_all add: coarse_offset_def coarse_near_def)

lemma coarse_lt_offset:
  assumes "coarse_near now a" "coarse_near now b"
  shows "Util_isLtUint32 a b \<longleftrightarrow> coarse_offset now a < coarse_offset now b"
  using Util_isLtUint32_window [of "coarse_offset now a" "coarse_offset now b" "now - 2 ^ 30"] assms
  unfolding coarse_near_def coarse_offset_eq [symmetric] by blast

lemma tick_delay_mono: "a \<le> b \<Longrightarrow> tick_delay_us a \<le> tick_delay_us b"
proof -
  assume ab: "a \<le> b"
  have m: "a * 1000 div 128 * 1000 \<le> b * 1000 div 128 * 1000"
    using ab by (intro mult_le_mono1 div_le_mono) simp
  have "549755 * 1000 div 128 * 1000 \<le> (2 ^ 32 - 1 :: nat)" by simp
  moreover have "a * 1000 div 128 * 1000 \<le> 549755 * 1000 div 128 * 1000" if "a \<le> 549755"
    using that by (intro mult_le_mono1 div_le_mono)
  ultimately show ?thesis using ab m by (auto simp: tick_delay_us_def)
qed

lemma coarse_delay_offset:
  assumes near: "coarse_near now c"
  shows "unat (coarse_delay_us c now) =
     (if coarse_offset now c < 2 ^ 30 then 0 else tick_delay_us (coarse_offset now c - 2 ^ 30))"
proof (cases "coarse_offset now c < 2 ^ 30")
  case True
  then show ?thesis using coarse_lt_offset [OF near coarse_offset_now(2)]
    by (simp add: coarse_delay_us_def coarse_offset_now)
next
  case False
  define d where "d = coarse_offset now c - 2 ^ 30"
  have lt: "\<not> Util_isLtUint32 c now"
    using False coarse_lt_offset [OF near coarse_offset_now(2)] by (simp add: coarse_offset_now)
  have "c - now = of_nat (coarse_offset now c) - 2 ^ 30"
    by (subst coarse_offset_eq [of c now]) simp
  also have "\<dots> = of_nat d" using False by (simp add: d_def)
  finally have cd: "c - now = of_nat d" .
  have d31: "d < 2 ^ 31" using near by (simp add: coarse_near_def d_def)
  then have ud: "unat (c - now) = d" unfolding cd by (intro unat_of_nat_small) simp
  have big: "c - now > 549755 \<longleftrightarrow> d > 549755" using ud by (simp add: word_less_nat_alt)
  show ?thesis
  proof (cases "d > 549755")
    case True
    then show ?thesis using lt big False by (simp add: coarse_delay_us_def tick_delay_us_def d_def)
  next
    case small: False
    have m: "unat ((c - now) * 1000) = d * 1000" using small ud by (subst unat_mult_small) simp_all
    then have dv: "unat ((c - now) * 1000 div 128) = d * 1000 div 128" by (simp add: unat_div)
    have "d * 1000 div 128 \<le> 549755 * 1000 div 128" using small by (intro div_le_mono) simp
    then have "unat ((c - now) * 1000 div 128 * 1000) = d * 1000 div 128 * 1000"
      using dv by (subst unat_mult_small) simp_all
    then have "unat (coarse_delay_us c now) = tick_delay_us d"
      using lt big small by (simp only: coarse_delay_us_def tick_delay_us_def if_False)
    with False show ?thesis by (simp add: d_def)
  qed
qed

text \<open>What the scheduler relies on in the time library: on the timestamps it compares, the
  order is that of their positions in time, and of two timestamps that are not in the
  past the later one has the larger difference from now.\<close>

definition hp_clock_ok :: "lib_time \<Rightarrow> u32 \<Rightarrow> u32 set \<Rightarrow> bool" where
  "hp_clock_ok lt now H \<longleftrightarrow> (\<exists>pos :: u32 \<Rightarrow> int.
     (\<forall>a \<in> insert now H. \<forall>b \<in> insert now H. isHpTimestampBefore lt a b \<longleftrightarrow> pos a < pos b) \<and>
     (\<forall>a \<in> H. \<forall>b \<in> H. pos now \<le> pos a \<and> pos a \<le> pos b \<longrightarrow> getTimeDiffUs lt now a \<le> getTimeDiffUs lt now b))"

definition ts_ok :: "lib_time \<Rightarrow> 'f sched \<Rightarrow> timestamp set \<Rightarrow> bool" where
  "ts_ok lt s T \<longleftrightarrow> (\<forall>c. Coarse c \<in> T \<longrightarrow> coarse_near (now_coarse s) c) \<and> hp_clock_ok lt (now_hp s) {h. Hp h \<in> T}"

lemma before_delay:
  assumes ok: "ts_ok lt s T" and T: "x \<in> T" "y \<in> T"
  shows "is_timestamp_before lt s x y \<Longrightarrow> get_delay_from_now_us lt s x \<le> get_delay_from_now_us lt s y"
    and "\<not> is_timestamp_before lt s x y \<Longrightarrow> get_delay_from_now_us lt s y \<le> get_delay_from_now_us lt s x"
proof -
  let ?D = "get_delay_from_now_us lt s" and ?B = "is_timestamp_before lt s"
  have "(?B x y \<longrightarrow> ?D x \<le> ?D y) \<and> (\<not> ?B x y \<longrightarrow> ?D y \<le> ?D x)"
  proof (cases x; cases y)
    fix a b assume xy: "x = Coarse a" "y = Coarse b"
    then have near: "coarse_near (now_coarse s) a" "coarse_near (now_coarse s) b" using ok T by (auto simp: ts_ok_def)
    show ?thesis
      using coarse_lt_offset [OF near] coarse_delay_offset [OF near(1)] coarse_delay_offset [OF near(2)]
        tick_delay_mono [of "coarse_offset (now_coarse s) a - 2 ^ 30" "coarse_offset (now_coarse s) b - 2 ^ 30"]
        tick_delay_mono [of "coarse_offset (now_coarse s) b - 2 ^ 30" "coarse_offset (now_coarse s) a - 2 ^ 30"]
      by (auto simp: xy get_delay_from_now_us_def is_timestamp_before_def word_le_nat_alt)
  next
    fix a b assume xy: "x = Hp a" "y = Hp b"
    with ok T show ?thesis
      unfolding ts_ok_def hp_clock_ok_def
      by (auto simp: get_delay_from_now_us_def is_timestamp_before_def) (force+)?
  qed (auto simp: is_timestamp_before_def get_delay_from_now_us_def not_less)
  then show "?B x y \<Longrightarrow> ?D x \<le> ?D y" "\<not> ?B x y \<Longrightarrow> ?D y \<le> ?D x" by blast+
qed

lemma selection_earliest:
  assumes "n \<le> length (m_tasks s)" "selection lt s n = Some k"
    and ok: "ts_ok lt s T" and T: "\<And>j. live (sweep s) j \<Longrightarrow> t_next_ts (m_tasks s ! j) \<in> T"
  shows "\<forall>j < n. live (sweep s) j \<longrightarrow>
     get_delay_from_now_us lt s (t_next_ts (m_tasks s ! k)) \<le> get_delay_from_now_us lt s (t_next_ts (m_tasks s ! j))"
  using assms(1,2)
proof (induction n arbitrary: k)
  case (Suc n)
  let ?D = "\<lambda>j. get_delay_from_now_us lt s (t_next_ts (m_tasks s ! j))"
  let ?B = "\<lambda>i j. is_timestamp_before lt s (t_next_ts (m_tasks s ! i)) (t_next_ts (m_tasks s ! j))"
  have n: "n < length (m_tasks s)" using Suc.prems by simp
  show ?case
  proof (cases "selection lt s n")
    case None
    then have "\<And>j. j < n \<Longrightarrow> \<not> live (sweep s) j" using selection_live [of n s lt] n by simp
    moreover have "k = n" using Suc.prems None by (simp add: selection_Suc n split: if_splits)
    ultimately show ?thesis by (auto simp: less_Suc_eq)
  next
    case (Some m)
    have lm: "live (sweep s) m" using selection_live [of n s lt] n Some by simp
    have IH: "?D m \<le> ?D j" if "j < n" "live (sweep s) j" for j
      using Suc.IH [OF _ Some] n that by simp
    show ?thesis
    proof (cases "live (sweep s) n")
      case False
      then show ?thesis using Suc.prems IH Some by (auto simp: selection_Suc n less_Suc_eq)
    next
      case ln: True
      note cmp = before_delay [OF ok T [OF ln] T [OF lm]]
      show ?thesis
      proof (cases "?B n m")
        case True
        then have "k = n" using Suc.prems Some ln by (simp add: selection_Suc n)
        then show ?thesis using IH cmp(1) [OF True] by (auto simp: less_Suc_eq intro: order_trans)
      next
        case False
        then have "k = m" using Suc.prems Some ln by (simp add: selection_Suc n)
        then show ?thesis using IH cmp(2) [OF False] by (auto simp: less_Suc_eq)
      qed
    qed
  qed
qed simp

text \<open>A time library with a tick of one microsecond, for examples.\<close>

definition us_clock :: lib_time where
  "us_clock = \<lparr>addUsToHpTimestamp = (\<lambda>a b. a + b), isHpTimestampBefore = Util_isLtUint32,
     getTimeDiffUs = (\<lambda>a b. b - a), getMaxHpDelay = 1800000000\<rparr>"

end
