(* ===== verification/Scheduler_Props.thy ===== *)
theory Scheduler_Props
  imports Scheduler
begin

text \<open>
  The properties of the scheduler: what holds in every reachable state, that the task
  selected is the one due first and the callback is programmed for it, that a cancelled
  task does not run, how a task and an interrupt that reschedule the same task interact,
  and the accuracy of the time conversions.
\<close>

subsection \<open>Selection in time\<close>

lemma ts_ok_insert: "ts_ok lt s T \<Longrightarrow> coarse_near (now_coarse s) c \<Longrightarrow> ts_ok lt s (insert (Coarse c) T)"
  by (simp add: ts_ok_def)

lemma coarse_after_near:
  "coarse_near now (coarse_after now ms)" "coarse_offset now (coarse_after now ms) = 2 ^ 30 + delay_ticks (unat ms)"
proof -
  have "coarse_after now ms - (now - 2 ^ 30) = of_nat (2 ^ 30 + delay_ticks (unat ms))"
    by (simp add: coarse_after_ticks(1))
  moreover have "unat (of_nat (2 ^ 30 + delay_ticks (unat ms)) :: u32) = 2 ^ 30 + delay_ticks (unat ms)"
    using coarse_after_ticks(2) [of ms] by (intro unat_of_nat_small) simp
  ultimately show "coarse_offset now (coarse_after now ms) = 2 ^ 30 + delay_ticks (unat ms)"
    by (simp only: coarse_offset_def)
  then show "coarse_near now (coarse_after now ms)"
    using coarse_after_ticks(2) [of ms] by (simp add: coarse_near_def)
qed

lemma max_delay_bound: "unat (coarse_delay_us (coarse_after now ms) now) \<le> unat ms * 1000 + 7999"
proof -
  let ?t = "delay_ticks (unat ms)"
  have b: "?t * 1000 \<le> unat ms * 128 + 999" by (rule delay_ticks_bounds)
  have "tick_delay_us ?t \<le> unat ms * 1000 + 7999"
  proof (cases "?t > 549755")
    case True
    then have "4294960 < unat ms" using b by linarith
    with True show ?thesis by (simp add: tick_delay_us_def)
  next
    case False
    have "?t * 1000 div 128 \<le> (unat ms * 128 + 999) div 128" using b by (rule div_le_mono)
    also have "\<dots> = unat ms + 7" by simp
    finally show ?thesis using False by (simp add: tick_delay_us_def)
  qed
  then show ?thesis by (simp add: coarse_delay_offset coarse_after_near)
qed

definition active :: "'f sched \<Rightarrow> nat \<Rightarrow> bool" where
  "active s i \<longleftrightarrow> live s i \<and> \<not> t_removed (m_tasks s ! i)"

definition task_delay :: "lib_time \<Rightarrow> 'f sched \<Rightarrow> nat \<Rightarrow> u32" where
  "task_delay lt s i = get_delay_from_now_us lt s (t_next_ts (m_tasks s ! i))"

definition live_ts :: "'f sched \<Rightarrow> timestamp set" where
  "live_ts s = set (map t_next_ts (filter (\<lambda>t. t_func t \<noteq> None) (m_tasks s)))"

lemma active_sweep: "live (sweep s) i \<longleftrightarrow> active s i"
  by (simp add: live_sweep active_def)

lemma active_ts: "active s i \<Longrightarrow> t_next_ts (m_tasks s ! i) \<in> live_ts s"
  by (auto simp: active_def live_def live_ts_def)

lemma select_next_spec:
  assumes ok: "ts_ok lt s (live_ts s)"
  shows "(\<forall>i. \<not> active s i) \<and> m_next_task_p (select_next lt s) = None \<and> periodic_cb (select_next lt s) = periodic_cb s \<or>
    (\<exists>k d e. active s k \<and> m_next_task_p (select_next lt s) = Some k \<and> periodic_cb (select_next lt s) = Some (d, e) \<and>
       m_tasks (select_next lt s) ! k = (m_tasks s ! k)\<lparr>t_updated := False\<rparr> \<and>
       (\<forall>j. active s j \<longrightarrow> task_delay lt s k \<le> task_delay lt s j) \<and>
       d \<le> task_delay lt s k \<and> unat d \<le> unat (m_max_time_ms s) * 1000 + 7999 \<and>
       (d = task_delay lt s k \<and> e = t_exec_time_us (m_tasks s ! k) + 20 \<or> e = 20))"
proof (cases rule: get_next_cases [of lt s])
  case none
  then show ?thesis by (simp add: select_next_def active_sweep)
next
  case (task k)
  let ?s = "sweep s\<lparr>m_next_task_p := Some k\<rparr>" and ?mx = "Coarse (coarse_after (now_coarse s) (m_max_time_ms s))"
  let ?ts = "t_next_ts (m_tasks s ! k)" and ?D = "get_delay_from_now_us lt s"
  have act: "active s k" using task(2) by (simp add: active_sweep)
  have clk: "is_timestamp_before lt ?s = is_timestamp_before lt s" "get_delay_from_now_us lt ?s = ?D"
    by (rule is_timestamp_before_clock; simp)+
  have mx: "get_timestamp lt ?s (m_max_time_ms ?s) = ?mx" by (simp add: get_timestamp_def)
  have nth: "m_tasks ?s ! k = m_tasks s ! k" using live_sweep_nth [OF task(2)] by simp
  note ok' = ts_ok_insert [OF ok coarse_after_near(1) [of "now_coarse s" "m_max_time_ms s"]]
  note cmp = before_delay [OF ok' insertI2 [OF active_ts [OF act]] insertI1]
  have bound: "unat (?D ?mx) \<le> unat (m_max_time_ms s) * 1000 + 7999"
    using max_delay_bound by (simp add: get_delay_from_now_us_def)
  define b where "b \<longleftrightarrow> is_timestamp_before lt s ?ts ?mx"
  define d where "d = (if b then ?D ?ts else ?D ?mx)"
  define e where "e = (if b then t_exec_time_us (m_tasks s ! k) + 20 else 20)"
  have sch: "schedule_task lt ?s k = setPeriodicCb ?s d e"
    unfolding schedule_task_eq mx nth clk Let_def d_def e_def b_def by (simp split: if_split)
  then have sel: "select_next lt s =
      set_task (setPeriodicCb ?s d e) k ((m_tasks s ! k)\<lparr>t_updated := False\<rparr>)\<lparr>m_force_reschedule := False\<rparr>"
    using task(1) nth by (simp add: select_next_def Let_def)
  have k: "k < length (m_tasks s)" using act by (simp add: active_def live_def)
  have early: "task_delay lt s k \<le> task_delay lt s j" if "active s j" for j
    using selection_earliest [OF le_refl task(3) ok] active_ts that unfolding task_delay_def active_sweep
    by (auto simp: active_def live_def)
  have d: "d \<le> ?D ?ts" "unat d \<le> unat (m_max_time_ms s) * 1000 + 7999"
    using cmp bound by (auto simp: d_def b_def word_le_nat_alt)
  show ?thesis
    using act early d k unfolding sel task_delay_def
    by (intro disjI2 exI [of _ k] exI [of _ d] exI [of _ e]) (auto simp: set_task_nth d_def e_def)
qed

subsection \<open>A cancelled task stays cancelled\<close>

fun adds :: "'f \<Rightarrow> 'f call \<Rightarrow> bool" where
  "adds f (Add cb _ _) \<longleftrightarrow> cb = Some f"
| "adds f _ \<longleftrightarrow> False"

text \<open>Runs in which nobody adds \<open>f\<close>: neither the application, nor an interrupt, nor a
  task.\<close>

inductive quiet_run :: "lib_time \<Rightarrow> 'f \<Rightarrow> 'f sched \<Rightarrow> 'f sched \<Rightarrow> bool" for lt f where
  refl: "quiet_run lt f s s"
| call: "quiet_run lt f s s' \<Longrightarrow> \<not> adds f c \<Longrightarrow> quiet_run lt f s (exec_call lt c s')"
| work: "quiet_run lt f s s' \<Longrightarrow> \<not> list_ex (adds f) irq0 \<Longrightarrow> \<not> list_ex (adds f) irq1 \<Longrightarrow>
    (\<And>g. \<not> list_ex (adds f) (fst (body g))) \<Longrightarrow> quiet_run lt f s (periodic_work lt irq0 body irq1 s')"

definition cancelled :: "'f \<Rightarrow> 'f sched \<Rightarrow> bool" where
  "cancelled f s \<longleftrightarrow> (\<forall>i < length (m_tasks s). t_func (m_tasks s ! i) = Some f \<longrightarrow> t_removed (m_tasks s ! i))"

lemma cancelled_set_task:
  "cancelled f s \<Longrightarrow> (t_func t = Some f \<Longrightarrow> i < length (m_tasks s) \<Longrightarrow> t_removed t) \<Longrightarrow> cancelled f (set_task s i t)"
  by (auto simp: cancelled_def set_task_nth)

lemma cancelled_fields [simp]:
  "cancelled f (s\<lparr>m_force_reschedule := b\<rparr>) = cancelled f s"
  "cancelled f (s\<lparr>m_next_task_p := n\<rparr>) = cancelled f s"
  "cancelled f (s\<lparr>now_hp := hp, now_coarse := co\<rparr>) = cancelled f s"
  "cancelled f (setPeriodicCb s d e) = cancelled f s"
  by (simp_all add: cancelled_def)

lemma cancelled_exec_call: "cancelled f s \<Longrightarrow> \<not> adds f c \<Longrightarrow> cancelled f (exec_call lt c s)"
proof (cases c)
  case (Add cb d e)
  assume c: "cancelled f s" and n: "\<not> adds f c"
  show ?thesis
  proof (cases rule: add_cases [of s lt cb d e])
    case (ok i t s1)
    have "cancelled f s1" unfolding ok(8) using c n ok(4) Add by (intro cancelled_set_task) auto
    then show ?thesis unfolding Add exec_call.simps ok(9) by simp
  qed (use c Add in simp_all)
next
  case (Cancel cb)
  assume c: "cancelled f s"
  show ?thesis
  proof (cases rule: cancel_cases [of s cb])
    case (marked i)
    then show ?thesis using c unfolding Cancel by (auto intro!: cancelled_set_task)
  qed (use c Cancel in simp_all)
qed simp

lemma cancelled_exec_calls: "cancelled f s \<Longrightarrow> \<not> list_ex (adds f) cs \<Longrightarrow> cancelled f (exec_calls lt cs s)"
  unfolding exec_calls_def by (induction cs arbitrary: s) (simp_all add: cancelled_exec_call)

lemma exec_call_length [simp]: "length (m_tasks (exec_call lt c s)) = length (m_tasks s)"
proof (cases c)
  case (Add cb d e)
  then show ?thesis by (cases rule: add_cases [of s lt cb d e]) auto
next
  case (Cancel cb)
  then show ?thesis by (cases rule: cancel_cases [of s cb]) auto
qed simp

lemma exec_calls_length [simp]: "length (m_tasks (exec_calls lt cs s)) = length (m_tasks s)"
  unfolding exec_calls_def by (induction cs arbitrary: s) simp_all

text \<open>A call never frees a slot and never gives it to another callback.\<close>

lemma exec_call_func: "live s i \<Longrightarrow> t_func (m_tasks (exec_call lt c s) ! i) = t_func (m_tasks s ! i)"
proof (cases c)
  case (Add cb d e)
  assume l: "live s i"
  show ?thesis
  proof (cases rule: add_cases [of s lt cb d e])
    case (ok k t s1)
    then show ?thesis using l unfolding Add exec_call.simps ok(9) by (auto simp: live_def set_task_nth)
  qed (use Add in simp_all)
next
  case (Cancel cb)
  assume l: "live s i"
  show ?thesis
  proof (cases rule: cancel_cases [of s cb])
    case (marked k)
    then show ?thesis using l unfolding Cancel by (auto simp: live_def set_task_nth)
  qed (use Cancel in simp_all)
qed simp

lemma exec_calls_func:
  "live s i \<Longrightarrow> live (exec_calls lt cs s) i \<and> t_func (m_tasks (exec_calls lt cs s) ! i) = t_func (m_tasks s ! i)"
  unfolding exec_calls_def
proof (induction cs arbitrary: s)
  case (Cons c cs)
  have "live (exec_call lt c s) i" using Cons.prems exec_call_func [OF Cons.prems] by (simp add: live_def)
  from Cons.IH [OF this] exec_call_func [OF Cons.prems] show ?case by simp
qed simp

lemma cancelled_select_next: "cancelled f s \<Longrightarrow> cancelled f (select_next lt s)"
proof (cases rule: get_next_cases [of lt s])
  assume c: "cancelled f s"
  then have sw: "cancelled f (sweep s)" by (auto simp: cancelled_def sweep_nth clear_removed_def split: if_splits)
  { case none
    then show ?thesis using sw by (simp add: select_next_def)
  next
    case (task k)
    obtain d e where "schedule_task lt (sweep s\<lparr>m_next_task_p := Some k\<rparr>) k = setPeriodicCb (sweep s\<lparr>m_next_task_p := Some k\<rparr>) d e"
      using schedule_task_exec by blast
    then show ?thesis using task sw
      by (auto simp: select_next_def Let_def cancelled_def set_task_nth) }
qed

lemma cancelled_perform:
  assumes c: "cancelled f s" and body: "\<And>g. \<not> list_ex (adds f) (fst (body g))"
  shows "cancelled f (perform_task lt body s task)"
proof (cases task)
  case (Some i)
  show ?thesis
  proof (cases "t_func (m_tasks s ! i)")
    case f: (Some g)
    obtain calls nxt where b: "body g = (calls, nxt)" by fastforce
    then have c': "cancelled f (exec_calls lt calls s)" using c body [of g] by (intro cancelled_exec_calls) auto
    have "cancelled f (set_task (exec_calls lt calls s) i t)"
      if "t_func t = None \<or> t_func t = t_func (m_tasks (exec_calls lt calls s) ! i) \<and> t_removed t = t_removed (m_tasks (exec_calls lt calls s) ! i)" for t
      using c' that by (intro cancelled_set_task) (auto simp: cancelled_def)
    then show ?thesis using Some f b c' by (simp add: perform_task_def Let_def)
  qed (use Some c in \<open>simp add: perform_task_def\<close>)
qed (simp add: perform_task_def c)

lemma quiet_run_cancelled: "quiet_run lt f s s' \<Longrightarrow> cancelled f s \<Longrightarrow> cancelled f s'"
  by (induction rule: quiet_run.induct)
    (auto simp: periodic_work_def cancelled_exec_call split: option.split
      intro!: cancelled_select_next cancelled_exec_calls cancelled_perform)

lemma cancel_cancelled:
  assumes "sched_core s" "App_Scheduler_cancelTask s (Some f) = (APP_SCHEDULER_RES_OK, s')"
  shows "cancelled f s'"
proof (cases rule: cancel_cases [of s "Some f"])
  case (marked i)
  have "j = i" if "j < length (m_tasks s)" "t_func (m_tasks s ! j) = Some f" for j
    using core_distinct [OF assms(1), of j i] marked that by (simp add: live_def)
  then show ?thesis using assms(2) unfolding marked(4) by (auto simp: cancelled_def set_task_nth)
qed (use assms in simp_all)

subsection \<open>Rescheduling from inside a task\<close>

fun touches :: "'f \<Rightarrow> 'f call \<Rightarrow> bool" where
  "touches f (Add cb _ _) \<longleftrightarrow> cb = Some f"
| "touches f (Cancel cb) \<longleftrightarrow> cb = Some f"
| "touches f (Tick _ _) \<longleftrightarrow> False"

lemma exec_call_untouched:
  assumes "live s i" "t_func (m_tasks s ! i) = Some f" "\<not> touches f c"
  shows "m_tasks (exec_call lt c s) ! i = m_tasks s ! i"
proof (cases c)
  case (Add cb d e)
  show ?thesis
  proof (cases rule: add_cases [of s lt cb d e])
    case (ok k t s1)
    then have "k \<noteq> i" using assms Add by (auto simp: live_def)
    then show ?thesis using assms(1) ok(8) unfolding Add exec_call.simps ok(9) by (simp add: live_def set_task_nth)
  qed (use Add in simp_all)
next
  case (Cancel cb)
  show ?thesis
  proof (cases rule: cancel_cases [of s cb])
    case (marked k)
    then have "k \<noteq> i" using assms Cancel by auto
    then show ?thesis using assms(1) marked(4) unfolding Cancel exec_call.simps by (simp add: live_def set_task_nth)
  qed (use Cancel in simp_all)
qed simp

lemma exec_calls_untouched:
  "live s i \<Longrightarrow> t_func (m_tasks s ! i) = Some f \<Longrightarrow> \<not> list_ex (touches f) cs \<Longrightarrow>
     m_tasks (exec_calls lt cs s) ! i = m_tasks s ! i"
  unfolding exec_calls_def
proof (induction cs arbitrary: s)
  case (Cons c cs)
  then have "m_tasks (exec_call lt c s) ! i = m_tasks s ! i" by (intro exec_call_untouched) auto
  moreover from this have "live (exec_call lt c s) i" using Cons.prems by (simp add: live_def)
  ultimately show ?case using Cons by simp
qed simp

subsection \<open>Properties\<close>

text \<open>C1: in every state the scheduler can reach, whatever the order of calls from the
  application, from interrupts and from running tasks: a callback has at most one slot,
  the time asked from the stack never exceeds the 100 ms it grants, the selected task is a
  live slot, and as long as there is a task the callback of the stack is programmed.\<close>

theorem scheduler_invariant:
  assumes "sched_reachable lt n s"
  shows "(\<forall>i j. live s i \<and> live s j \<and> t_func (m_tasks s ! i) = t_func (m_tasks s ! j) \<longrightarrow> i = j) \<and>
     (\<forall>d e. periodic_cb s = Some (d, e) \<longrightarrow> e \<le> 100000) \<and>
     (\<forall>i. m_next_task_p s = Some i \<longrightarrow> live s i) \<and>
     (\<forall>i. live s i \<longrightarrow> periodic_cb s \<noteq> None)"
  using sched_reachable_inv [OF assms] unfolding sched_core_def sched_armed_def by blast

theorem scheduler_invariant_witness:
  "let s = exec_call us_clock (Add (Some ''blink'') 500 200) (App_Scheduler_init us_clock (sched_boot 3))
   in live s 0 \<and> periodic_cb s \<noteq> None"
proof -
  let ?s = "exec_call us_clock (Add (Some ''blink'') 500 200) (App_Scheduler_init us_clock (sched_boot 3))"
  have r: "sched_reachable us_clock 3 ?s"
    by (rule sched_reachable.step [OF sched_reachable.step [OF sched_reachable.boot sched_step.init] sched_step.call])
  have "live ?s 0"
    by (simp add: live_def App_Scheduler_init_def sched_boot_def App_Scheduler_addTask_execTime_def Let_def
        add_task_to_table_locked_def set_task_def numeral_3_eq_3 EXECUTION_TIME_NEEDED_FOR_SCHEDULING_US_def
        MAX_EXECUTION_TIME_ALLOWED_BY_STACK_US_def setPeriodicCb_def)
  with scheduler_invariant [OF r] show ?thesis unfolding Let_def by blast
qed

text \<open>C2: the end of \<open>periodic_work\<close> selects a task of the smallest delay among those
  that are not cancelled, and programs the stack to call back no later than that delay, at
  most 8 ms after the longest delay the stack supports, with the time the task asked for
  when the task itself is due at that moment.\<close>

theorem select_next_earliest:
  assumes "ts_ok lt s (live_ts s)" "active s i"
  shows "\<exists>k d e. m_next_task_p (select_next lt s) = Some k \<and> active s k \<and>
     (\<forall>j. active s j \<longrightarrow> task_delay lt s k \<le> task_delay lt s j) \<and>
     periodic_cb (select_next lt s) = Some (d, e) \<and>
     d \<le> task_delay lt s k \<and> unat d \<le> unat (m_max_time_ms s) * 1000 + 7999 \<and>
     (d = task_delay lt s k \<and> e = t_exec_time_us (m_tasks s ! k) + 20 \<or> e = 20)"
  using select_next_spec [OF assms(1)] assms(2) by metis

definition two_tasks :: "string sched" where
  "two_tasks = \<lparr>m_max_time_ms = 1800000, m_initialized = True,
     m_tasks = [\<lparr>t_func = Some ''a'', t_next_ts = Hp 3000000, t_exec_time_us = 10, t_updated = False, t_removed = False\<rparr>,
       \<lparr>t_func = Some ''b'', t_next_ts = Coarse 200, t_exec_time_us = 30, t_updated = False, t_removed = False\<rparr>],
     m_next_task_p = None, m_force_reschedule = True, now_hp = 0, now_coarse = 100, periodic_cb = None\<rparr>"

lemma hp_clock_example: "hp_clock_ok us_clock 0 {3000000}"
  unfolding hp_clock_ok_def by (rule exI [of _ uint]) (simp add: us_clock_def Util_isLtUint32_iff)

lemma two_tasks_ts: "live_ts two_tasks = {Hp 3000000, Coarse 200}"
  by (simp add: live_ts_def two_tasks_def)

lemma two_tasks_ok: "ts_ok us_clock two_tasks (live_ts two_tasks)" "active two_tasks 0" "active two_tasks 1"
proof -
  show "ts_ok us_clock two_tasks (live_ts two_tasks)"
    unfolding two_tasks_ts ts_ok_def using hp_clock_example
    by (simp add: two_tasks_def coarse_near_def coarse_offset_def)
  show "active two_tasks 0" "active two_tasks 1" by (simp_all add: two_tasks_def active_def live_def)
qed

theorem select_next_earliest_witness:
  "\<exists>k d e. m_next_task_p (select_next us_clock two_tasks) = Some k \<and>
     periodic_cb (select_next us_clock two_tasks) = Some (d, e) \<and> task_delay us_clock two_tasks k \<le> task_delay us_clock two_tasks 0"
  using select_next_earliest [OF two_tasks_ok(1,2)] two_tasks_ok(2) by blast

text \<open>C3: when some task that is not cancelled is due, the end of \<open>periodic_work\<close>
  programs the stack to call back at once, and if the clocks have not moved on that call
  executes a task that is due.\<close>

theorem due_task_runs_next:
  assumes "ts_ok lt s (live_ts s)" "active s j" "task_delay lt s j = 0"
  shows "\<exists>k e. periodic_cb (select_next lt s) = Some (0, e) \<and> ready_task lt (select_next lt s) = Some k \<and>
     active s k \<and> task_delay lt s k = 0"
proof -
  obtain k d e where k: "active s k" "m_next_task_p (select_next lt s) = Some k" "periodic_cb (select_next lt s) = Some (d, e)"
    "m_tasks (select_next lt s) ! k = (m_tasks s ! k)\<lparr>t_updated := False\<rparr>"
    "\<forall>j. active s j \<longrightarrow> task_delay lt s k \<le> task_delay lt s j" "d \<le> task_delay lt s k"
    using select_next_spec [OF assms(1)] assms(2) by blast
  have z: "task_delay lt s k = 0" "d = 0" using k(5,6) assms(2,3) by auto
  have f: "\<not> m_force_reschedule (select_next lt s)" by (simp add: select_next_def Let_def split: prod.split)
  have "now_hp (select_next lt s) = now_hp s \<and> now_coarse (select_next lt s) = now_coarse s"
    using get_next_sweep [of lt s]
    by (auto simp: select_next_def schedule_task_eq setPeriodicCb_def Let_def split: prod.split option.split)
  then have "get_delay_from_now_us lt (select_next lt s) = get_delay_from_now_us lt s"
    by (intro is_timestamp_before_clock) auto
  then have "ready_task lt (select_next lt s) = Some k"
    using f k z by (simp add: ready_task_def task_delay_def active_def)
  with k z show ?thesis by blast
qed

theorem due_task_runs_next_witness:
  "let s = two_tasks\<lparr>now_coarse := 250\<rparr>
   in \<exists>k e. periodic_cb (select_next us_clock s) = Some (0, e) \<and> ready_task us_clock (select_next us_clock s) = Some k"
proof -
  let ?s = "two_tasks\<lparr>now_coarse := 250\<rparr>"
  have ts: "live_ts ?s = {Hp 3000000, Coarse 200}" using two_tasks_ts by (simp add: live_ts_def)
  have "ts_ok us_clock ?s (live_ts ?s)"
    unfolding ts ts_ok_def using hp_clock_example by (simp add: two_tasks_def coarse_near_def coarse_offset_def)
  moreover have "active ?s 1" "task_delay us_clock ?s 1 = 0"
    by (simp_all add: two_tasks_def active_def live_def task_delay_def get_delay_from_now_us_def
        coarse_delay_us_def Util_isLtUint32_iff)
  ultimately show ?thesis using due_task_runs_next [of us_clock ?s 1] unfolding Let_def by blast
qed

text \<open>C4: once a call of \<open>App_Scheduler_cancelTask\<close> has succeeded, and as long as nobody
  adds the callback again, no entry into \<open>periodic_work\<close> executes it, even when
  interrupts call the scheduler between the test and the execution.\<close>

theorem cancelled_task_never_runs:
  assumes "sched_reachable lt n s" "App_Scheduler_cancelTask s (Some f) = (APP_SCHEDULER_RES_OK, s1)"
    "quiet_run lt f s1 s2" "ready_task lt s2 = Some i" "live s2 i"
  shows "t_func (m_tasks (exec_calls lt irq0 s2) ! i) \<noteq> Some f"
proof -
  have "cancelled f s2"
    using quiet_run_cancelled cancel_cancelled sched_reachable_inv assms(1-3) by metis
  moreover have "\<not> t_removed (m_tasks s2 ! i)"
    using assms(4) by (auto simp: ready_task_def split: if_splits option.splits)
  ultimately show ?thesis using assms(5) exec_calls_func [OF assms(5), of lt irq0] by (auto simp: cancelled_def live_def)
qed

theorem cancelled_task_never_runs_witness:
  "let s0 = App_Scheduler_init us_clock (sched_boot 3);
       s = exec_call us_clock (Add (Some ''b'') 0 9) (exec_call us_clock (Add (Some ''a'') 0 9) s0);
       s2 = periodic_work us_clock [] (\<lambda>_. ([], 100)) [] (snd (App_Scheduler_cancelTask s (Some ''a'')))
   in ready_task us_clock s2 = Some 1 \<and> t_func (m_tasks (exec_calls us_clock [Cancel (Some ''c'')] s2) ! 1) \<noteq> Some ''a''"
proof -
  define s where "s = exec_call us_clock (Add (Some ''b'') 0 9) (exec_call us_clock (Add (Some ''a'') 0 9)
      (App_Scheduler_init us_clock (sched_boot 3)))"
  define s1 where "s1 = snd (App_Scheduler_cancelTask s (Some ''a''))"
  define s2 where "s2 = periodic_work us_clock [] (\<lambda>_. ([], 100)) [] s1"
  have r: "sched_reachable us_clock 3 s" unfolding s_def
    by (rule sched_reachable.step [OF sched_reachable.step [OF sched_reachable.step
          [OF sched_reachable.boot sched_step.init] sched_step.call] sched_step.call])
  have q: "quiet_run us_clock ''a'' s1 s2" unfolding s2_def
    by (rule quiet_run.work [OF quiet_run.refl]) simp_all
  have c: "App_Scheduler_cancelTask s (Some ''a'') = (APP_SCHEDULER_RES_OK, s1)"
    and rd: "ready_task us_clock s2 = Some 1" and l: "live s2 1"
    unfolding s1_def s2_def s_def live_def by code_simp+
  from cancelled_task_never_runs [OF r c q rd l] rd show ?thesis
    unfolding Let_def s2_def [symmetric] s1_def [symmetric] s_def [symmetric] by blast
qed

text \<open>C5: after a task has run, its slot is as the calls made meanwhile by the task or by
  interrupts left it when one of them added or cancelled this task; otherwise it is freed
  when the task returned the stop value, and else due after the delay it returned.\<close>

theorem perform_task_effect:
  assumes "live s i" "t_func (m_tasks s ! i) = Some f" "\<not> t_updated (m_tasks s ! i)" "\<not> t_removed (m_tasks s ! i)"
    and "body f = (calls, nxt)"
  shows "let s1 = exec_calls lt calls s in (t_updated (m_tasks s1 ! i) \<longrightarrow> perform_task lt body s (Some i) = s1) \<and>
     (\<not> list_ex (touches f) calls \<longrightarrow>
        m_tasks (perform_task lt body s (Some i)) ! i =
          (if nxt = APP_SCHEDULER_STOP_TASK then (m_tasks s ! i)\<lparr>t_func := None\<rparr>
           else (m_tasks s ! i)\<lparr>t_next_ts := get_timestamp lt s1 nxt\<rparr>) \<and>
        (\<forall>j < length (m_tasks s). j \<noteq> i \<longrightarrow> m_tasks (perform_task lt body s (Some i)) ! j = m_tasks s1 ! j))"
proof -
  define s1 where "s1 = exec_calls lt calls s"
  have eq: "perform_task lt body s (Some i) =
      (if \<not> t_updated (m_tasks s1 ! i) \<and> \<not> t_removed (m_tasks s1 ! i)
       then (if nxt = APP_SCHEDULER_STOP_TASK then set_task s1 i ((m_tasks s1 ! i)\<lparr>t_func := None\<rparr>)
             else set_task s1 i ((m_tasks s1 ! i)\<lparr>t_next_ts := get_timestamp lt s1 nxt\<rparr>))
       else s1)"
    using assms(2,5) by (simp add: perform_task_def s1_def Let_def)
  have i: "i < length (m_tasks s1)" using assms(1) by (simp add: live_def s1_def)
  have len: "length (m_tasks s1) = length (m_tasks s)" by (simp add: s1_def)
  have "m_tasks s1 ! i = m_tasks s ! i" if "\<not> list_ex (touches f) calls"
    using exec_calls_untouched [OF assms(1,2) that] by (simp add: s1_def)
  then show ?thesis unfolding s1_def [symmetric] Let_def eq using assms(3,4) i len by (auto simp: set_task_nth)
qed

theorem perform_task_effect_witness:
  "m_tasks (perform_task us_clock (\<lambda>_. ([Tick 7 101], 0xFFFFFFFF)) two_tasks (Some 1)) ! 1 =
     (m_tasks two_tasks ! 1)\<lparr>t_func := None\<rparr>"
  using perform_task_effect [of two_tasks 1 "''b''" "\<lambda>_. ([Tick 7 101], 0xFFFFFFFF)" "[Tick 7 101]" "0xFFFFFFFF" us_clock]
  by (simp add: two_tasks_def live_def APP_SCHEDULER_STOP_TASK_def Let_def)

text \<open>C6: adding a task.  The result is determined in every case: the scheduler is not
  initialised, the execution time, computed on 32 bits, exceeds the limit, the table holds
  neither the callback nor a free slot, and the task is accepted otherwise; a refused call
  changes nothing.  An accepted call changes one slot only: the one that has the callback
  already, whose execution time is kept, or a free slot when no slot has it; the slot is
  due after the delay and not removed.\<close>

theorem add_task_result:
  "case App_Scheduler_addTask_execTime lt s cb d e of (res, s') \<Rightarrow>
     res = (if \<not> m_initialized s then APP_SCHEDULER_RES_UNINITIALIZED
            else if e + 20 > 100000 then APP_SCHEDULER_RES_TOO_LONG_EXECUTION_TIME
            else if \<exists>t \<in> set (m_tasks s). t_func t = cb \<or> t_func t = None then APP_SCHEDULER_RES_OK
            else APP_SCHEDULER_RES_NO_MORE_TASK) \<and>
     (res \<noteq> APP_SCHEDULER_RES_OK \<longrightarrow> s' = s) \<and>
     (res = APP_SCHEDULER_RES_OK \<longrightarrow>
        (\<exists>i < length (m_tasks s). t_func (m_tasks s' ! i) = cb \<and> t_next_ts (m_tasks s' ! i) = get_timestamp lt s d \<and>
           \<not> t_removed (m_tasks s' ! i) \<and>
           (if cb \<in> t_func ` set (m_tasks s)
            then t_func (m_tasks s ! i) = cb \<and> t_exec_time_us (m_tasks s' ! i) = t_exec_time_us (m_tasks s ! i)
            else t_func (m_tasks s ! i) = None \<and> t_exec_time_us (m_tasks s' ! i) = e) \<and>
           (\<forall>j < length (m_tasks s). j \<noteq> i \<longrightarrow> m_tasks s' ! j = m_tasks s ! j)))"
proof (cases rule: add_cases [of s lt cb d e])
  case (ok i t s1)
  have some: "\<exists>t \<in> set (m_tasks s). t_func t = cb \<or> t_func t = None"
    using ok(3,7) nth_mem by blast
  have tasks: "m_tasks (snd (App_Scheduler_addTask_execTime lt s cb d e)) = (m_tasks s)[i := t]"
    unfolding ok(9) by (simp add: ok(8) set_task_def)
  have known: "cb \<in> t_func ` set (m_tasks s) \<longleftrightarrow> (\<exists>j < length (m_tasks s). t_func (m_tasks s ! j) = cb)"
    unfolding set_conv_nth by auto
  have slot: "if cb \<in> t_func ` set (m_tasks s)
      then t_func (m_tasks s ! i) = cb \<and> t_exec_time_us t = t_exec_time_us (m_tasks s ! i)
      else t_func (m_tasks s ! i) = None \<and> t_exec_time_us t = e"
    using ok(3,7) unfolding known by auto
  have "App_Scheduler_addTask_execTime lt s cb d e =
      (APP_SCHEDULER_RES_OK, snd (App_Scheduler_addTask_execTime lt s cb d e))" by (subst (1) ok(9)) (simp add: ok(9))
  then obtain s' where s': "App_Scheduler_addTask_execTime lt s cb d e = (APP_SCHEDULER_RES_OK, s')"
    "m_tasks s' = (m_tasks s)[i := t]" using tasks by auto
  show ?thesis using ok(1-6) some slot unfolding s'(1)
    by (simp add: s'(2) not_less) (metis nth_list_update_eq nth_list_update_neq)
next
  case full
  have "\<not> (\<exists>t \<in> set (m_tasks s). t_func t = cb \<or> t_func t = None)"
    using full(3,4) by (metis in_set_conv_nth)
  with full show ?thesis by (simp add: not_less)
qed simp_all

theorem add_task_result_witness:
  "fst (App_Scheduler_addTask_execTime us_clock two_tasks (Some ''c'') 10 5) = APP_SCHEDULER_RES_NO_MORE_TASK"
  using add_task_result [where lt = us_clock and s = two_tasks and cb = "Some ''c''" and d = 10 and e = 5]
  by (auto simp: two_tasks_def split: prod.splits)

text \<open>The sum of the execution time and of the scheduler's own time wraps at 32 bits, so
  that the longest execution times are accepted, and the stack is asked for a few
  microseconds only.\<close>

lemma huge_execution_time_accepted:
  assumes "m_initialized s" "0xFFFFFFEC \<le> e" "t \<in> set (m_tasks s)" "t_func t = None"
  shows "fst (App_Scheduler_addTask_execTime lt s (Some f) d e) = APP_SCHEDULER_RES_OK \<and> unat (e + 20) < 20"
proof -
  have e: "4294967276 \<le> unat e" using assms(2) by (simp add: word_le_nat_alt)
  have "unat (e + 20) = (unat e + 20) mod 4294967296" by (simp add: unat_word_ariths)
  also have "\<dots> = unat e - 4294967276" using e unat_lt_32 [of e] by (simp add: mod_if)
  finally have u: "unat (e + 20) = unat e - 4294967276" .
  then have l: "unat (e + 20) < 20" using unat_lt_32 [of e] by simp
  then have "\<not> e + 20 > 100000" by (simp add: word_less_nat_alt)
  moreover obtain i where "i < length (m_tasks s)" "t_func (m_tasks s ! i) = None"
    using assms(3,4) by (auto simp: in_set_conv_nth)
  ultimately show ?thesis
    using l assms(1) by (cases rule: add_cases [of s lt "Some f" d e]) auto
qed

lemma huge_execution_time_accepted_example:
  "fst (App_Scheduler_addTask_execTime us_clock (App_Scheduler_init us_clock (sched_boot 2)) (Some ''c'') 10 0xFFFFFFFF)
     = APP_SCHEDULER_RES_OK"
proof -
  let ?s = "App_Scheduler_init us_clock (sched_boot 2)"
  have "m_initialized ?s" "hd (m_tasks ?s) \<in> set (m_tasks ?s)" "t_func (hd (m_tasks ?s)) = None"
    by (simp_all add: App_Scheduler_init_def sched_boot_def numeral_2_eq_2)
  then show ?thesis using huge_execution_time_accepted [of ?s "0xFFFFFFFF" "hd (m_tasks ?s)" us_clock "''c''" 10] by simp
qed

text \<open>A delay in ms becomes a coarse timestamp without overflow.  Up to \<open>2 ^ 25\<close> ms
  it is the first tick of 1/128 s that is not early; a longer delay may end early, by less
  than one second.\<close>

lemma coarse_timestamp_accuracy:
  "let T = unat (coarse_after now ms - now) in
     T * 1000 \<le> unat ms * 128 + 999 \<and> unat ms * 128 < (T + 128) * 1000 \<and>
     (unat ms < 2 ^ 25 \<longrightarrow> unat ms * 128 \<le> T * 1000)"
proof -
  have "coarse_after now ms - now = of_nat (delay_ticks (unat ms))" by (simp add: coarse_after_ticks(1))
  moreover have "unat (of_nat (delay_ticks (unat ms)) :: u32) = delay_ticks (unat ms)"
    using coarse_after_ticks(2) [of ms] by (intro unat_of_nat_small) simp
  ultimately show ?thesis unfolding Let_def using delay_ticks_bounds [of "unat ms"] by simp
qed

lemma coarse_timestamp_accuracy_example:
  "unat (coarse_after 7 1000 - 7) * 1000 \<ge> 128000"
  using coarse_timestamp_accuracy [of 7 1000] by (simp add: Let_def)

text \<open>The delay to a coarse timestamp: zero exactly when it is not in the future, never
  longer than the real time left, and less than one ms shorter for as long as it fits in
  32 bits of microseconds; nothing overflows.\<close>

lemma coarse_delay_accuracy:
  assumes "ticks < 2 ^ 30"
  shows "coarse_delay_us (now - of_nat ticks) now = 0 \<and>
     (coarse_delay_us (now + of_nat ticks) now = 0 \<longleftrightarrow> ticks = 0) \<and>
     unat (coarse_delay_us (now + of_nat ticks) now) * 128 \<le> ticks * 1000000 \<and>
     (ticks \<le> 549755 \<longrightarrow> ticks * 1000000 < unat (coarse_delay_us (now + of_nat ticks) now) * 128 + 128000)"
proof -
  let ?u = "of_nat ticks :: u32"
  have u: "unat ?u = ticks" using assms by (intro unat_of_nat_small) simp
  have "now - ?u - (now - 2 ^ 30) = of_nat (2 ^ 30 - ticks)" using assms by (simp add: of_nat_diff)
  then have past: "coarse_offset now (now - ?u) = 2 ^ 30 - ticks"
    unfolding coarse_offset_def by (simp only:) (rule unat_of_nat_small, simp)
  have "now + ?u - (now - 2 ^ 30) = of_nat (2 ^ 30 + ticks)" by simp
  then have fut: "coarse_offset now (now + ?u) = 2 ^ 30 + ticks"
    unfolding coarse_offset_def using assms by (simp only:) (rule unat_of_nat_small, simp)
  have p: "unat (coarse_delay_us (now - ?u) now) = 0"
    using coarse_delay_offset [of now "now - ?u"] past assms by (auto simp: coarse_near_def tick_delay_us_def)
  have f: "unat (coarse_delay_us (now + ?u) now) = tick_delay_us ticks"
    using coarse_delay_offset [of now "now + ?u"] fut assms by (simp add: coarse_near_def)
  have d: "ticks * 1000 div 128 * 128 \<le> ticks * 1000" "ticks * 1000 < ticks * 1000 div 128 * 128 + 128"
    using div_mult_mod_eq [of "ticks * 1000" 128] mod_less_divisor [of 128 "ticks * 1000"] by linarith+
  have z: "tick_delay_us ticks = 0 \<longleftrightarrow> ticks = 0" using d by (auto simp: tick_delay_us_def)
  have le: "tick_delay_us ticks * 128 \<le> ticks * 1000000" using d(1) by (auto simp: tick_delay_us_def)
  have lt: "ticks * 1000000 < tick_delay_us ticks * 128 + 128000" if "ticks \<le> 549755"
    using d(2) that by (simp add: tick_delay_us_def)
  show ?thesis using p f z le lt by (simp add: unat_eq_0 flip: f)
qed

lemma coarse_delay_accuracy_example:
  "unat (coarse_delay_us (0xFFFFFFFF + of_nat 128) 0xFFFFFFFF) * 128 \<le> 128 * 1000000"
  using coarse_delay_accuracy [of 128 "0xFFFFFFFF"] by simp

end
