(* ===== verification/Waps_Uart.thy ===== *)
theory Waps_Uart
  imports Util_Crc Scheduler
begin

text \<open>
  The serial line of the dual MCU application:
  \<open>libraries/dualmcu/waps/comm/uart/waps_uart.c\<close> (SLIP framing with a CRC) and
  \<open>waps_uart_power.c\<close> (automatic power of the receiver), with \<open>wakeup_task\<close> of
  \<open>waps.c\<close>.

  \<open>mx\<close> is \<open>WAPS_MAX_FRAME_LENGTH\<close>, the size of the largest frame.  The buffers are
  the arrays of \<open>waps_protocol.c\<close>, of the sizes of \<open>waps_buffer_sizes.h\<close>.  The
  calls of the frame callback are collected in \<open>u_frames\<close>, the state of the UART,
  wake-up pin and deep sleep drivers are the fields \<open>hw_\<close>.  Tasks are entered in the
  scheduler of \<open>Scheduler\<close>.
\<close>

datatype usart_power_state = USART_POWER_OFF | USART_POWER_UP | USART_POWER_ON

datatype edge = EXTI_IRQ_RISING_EDGE | EXTI_IRQ_FALLING_EDGE

datatype node_role =
  ROLE_SINK_LE | ROLE_SINK_LL | ROLE_HEADNODE_LE | ROLE_HEADNODE_LL | ROLE_SUBNODE_LE | ROLE_SUBNODE_LL
| ROLE_AUTOROLE_LE | ROLE_AUTOROLE_LL | ROLE_ADVERTISER

record wuart =
  m_tx_buffer_idx :: nat
  m_tx_buffer :: "u8 list"
  m_rx_buffer_idx :: nat
  m_rx_buffer :: "u8 list"
  m_rx_crc :: u16
  m_escaped :: bool
  m_frame_cb :: bool
  m_baudrate :: u32
  m_autopower_enabled :: bool
  m_power_on :: usart_power_state
  m_signal :: bool
  u_frames :: "u8 list list"
  u_sched :: "string sched"
  hw_enabled :: bool
  hw_receiver :: bool
  hw_edge :: "(edge \<times> bool)"
  hw_wakeup_pin :: bool
  hw_deep_sleep_disabled :: bool
  hw_irq :: bool

definition SLIP_END :: u8 where "SLIP_END = 0xC0"
definition SLIP_ESC :: u8 where "SLIP_ESC = 0xDB"
definition SLIP_ESC_END :: u8 where "SLIP_ESC_END = 0xDC"
definition SLIP_ESC_ESC :: u8 where "SLIP_ESC_ESC = 0xDD"

lemmas slip_consts = SLIP_END_def SLIP_ESC_def SLIP_ESC_END_def SLIP_ESC_ESC_def

definition WAPS_MIN_FRAME_LENGTH :: nat where "WAPS_MIN_FRAME_LENGTH = 3"

definition WAPS_TX_BUFFER_SIZE :: "nat \<Rightarrow> nat" where
  "WAPS_TX_BUFFER_SIZE mx = 2 * mx + 2 * 2 + 2"

definition WAPS_RX_BUFFER_SIZE :: "nat \<Rightarrow> nat" where
  "WAPS_RX_BUFFER_SIZE mx = mx + 2 + 2"

definition MAX_BAUDRATE_FOR_AUTOPOWER :: u32 where "MAX_BAUDRATE_FOR_AUTOPOWER = 125000"

subsection \<open>Power\<close>

definition addTask :: "lib_time \<Rightarrow> wuart \<Rightarrow> string \<Rightarrow> u32 \<Rightarrow> u32 \<Rightarrow> wuart" where
  "addTask lt u f delay_ms exec_us =
     u\<lparr>u_sched := snd (App_Scheduler_addTask_execTime lt (u_sched u) (Some f) delay_ms exec_us)\<rparr>"

definition wakeup_task :: "lib_time \<Rightarrow> wuart \<Rightarrow> wuart" where
  "wakeup_task lt u =
     (let signaled = m_signal u; u = u\<lparr>m_signal := True\<rparr>
      in if \<not> signaled then addTask lt u ''Waps_exec'' 0 8000 else u)"

definition Waps_uart_AutoPowerOn :: "wuart \<Rightarrow> wuart" where
  "Waps_uart_AutoPowerOn u =
     u\<lparr>m_power_on := USART_POWER_OFF, hw_wakeup_pin := True, hw_edge := (EXTI_IRQ_FALLING_EDGE, True),
       m_autopower_enabled := True\<rparr>"

definition Waps_uart_AutoPowerOff :: "wuart \<Rightarrow> wuart" where
  "Waps_uart_AutoPowerOff u =
     u\<lparr>m_power_on := USART_POWER_OFF, hw_edge := (EXTI_IRQ_FALLING_EDGE, False), hw_wakeup_pin := False,
       m_autopower_enabled := False\<rparr>"

definition Waps_uart_keepPowerOn :: "lib_time \<Rightarrow> wuart \<Rightarrow> wuart" where
  "Waps_uart_keepPowerOn lt u =
     (if \<not> m_autopower_enabled u then u else addTask lt u ''shutdown_uart'' 100 100)"

definition Waps_uart_powerOff :: "lib_time \<Rightarrow> wuart \<Rightarrow> wuart" where
  "Waps_uart_powerOff lt u =
     (if \<not> m_autopower_enabled u then u else addTask lt u ''shutdown_uart'' 0 100)"

definition reset_rx_buffer :: "wuart \<Rightarrow> wuart" where
  "reset_rx_buffer u = u\<lparr>m_rx_buffer_idx := 0, m_rx_crc := 0xffff\<rparr>"

definition Waps_uart_clean :: "wuart \<Rightarrow> wuart" where
  "Waps_uart_clean u = reset_rx_buffer u"

definition uart_gpio_isr :: "lib_time \<Rightarrow> wuart \<Rightarrow> wuart" where
  "uart_gpio_isr lt u =
     (if m_power_on u = USART_POWER_OFF
      then wakeup_task lt (u\<lparr>hw_edge := (EXTI_IRQ_RISING_EDGE, True), m_power_on := USART_POWER_UP,
             hw_deep_sleep_disabled := True\<rparr>)
      else if m_power_on u = USART_POWER_UP
      then u\<lparr>hw_enabled := True, hw_receiver := True, m_power_on := USART_POWER_ON,
             hw_deep_sleep_disabled := False, hw_edge := (EXTI_IRQ_FALLING_EDGE, False)\<rparr>
      else u)"

definition power_off :: "wuart \<Rightarrow> wuart" where
  "power_off u =
     (if m_power_on u = USART_POWER_OFF then u
      else
        let u = (if m_power_on u = USART_POWER_ON
                 then Waps_uart_clean (u\<lparr>hw_receiver := False, hw_enabled := False\<rparr>)
                 else if m_power_on u = USART_POWER_UP then u\<lparr>hw_deep_sleep_disabled := False\<rparr>
                 else u)
        in u\<lparr>m_power_on := USART_POWER_OFF, hw_edge := (EXTI_IRQ_FALLING_EDGE, True)\<rparr>)"

definition shutdown_uart :: "wuart \<Rightarrow> u32 \<times> wuart" where
  "shutdown_uart u = (APP_SCHEDULER_STOP_TASK, power_off u)"

text \<open>\<open>role\<close> is the answer of \<open>lib_settings->getNodeRole\<close>, \<open>None\<close> when it is not
  \<open>APP_RES_OK\<close>.\<close>

definition is_autopower_in_use :: "node_role option \<Rightarrow> wuart \<Rightarrow> bool" where
  "is_autopower_in_use role u =
     (if m_baudrate u > MAX_BAUDRATE_FOR_AUTOPOWER then False
      else case role of
          None \<Rightarrow> True
        | Some r \<Rightarrow> r \<notin> {ROLE_SINK_LE, ROLE_SINK_LL, ROLE_HEADNODE_LL, ROLE_SUBNODE_LL, ROLE_AUTOROLE_LL})"

definition Waps_uart_powerReset :: "node_role option \<Rightarrow> wuart \<Rightarrow> wuart" where
  "Waps_uart_powerReset role u =
     (let u = (if is_autopower_in_use role u
               then Waps_uart_AutoPowerOn (u\<lparr>hw_receiver := False, hw_enabled := False\<rparr>)
               else (Waps_uart_AutoPowerOff u)\<lparr>hw_enabled := True, hw_receiver := True\<rparr>)
      in u\<lparr>hw_irq := False\<rparr>)"

text \<open>\<open>usart_init\<close> is the result of the driver's initialisation.\<close>

definition Waps_uart_init ::
  "node_role option \<Rightarrow> bool \<Rightarrow> wuart \<Rightarrow> bool \<Rightarrow> u32 \<Rightarrow> u8 list \<Rightarrow> u8 list \<Rightarrow> bool \<times> wuart" where
  "Waps_uart_init role usart_init u frame_cb baud tx_buffer rx_buffer =
     (usart_init,
      Waps_uart_powerReset role
        (reset_rx_buffer (u\<lparr>m_escaped := False, m_frame_cb := frame_cb, m_tx_buffer := tx_buffer,
           m_rx_buffer := rx_buffer, m_tx_buffer_idx := 0, m_baudrate := baud\<rparr>)))"

definition Waps_uart_setIrq :: "wuart \<Rightarrow> bool \<Rightarrow> wuart" where
  "Waps_uart_setIrq u state = u\<lparr>hw_irq := state\<rparr>"

subsection \<open>Sending\<close>

definition write_tx_buffer :: "nat \<Rightarrow> u8 \<Rightarrow> wuart \<Rightarrow> wuart" where
  "write_tx_buffer mx ch u =
     (if m_tx_buffer_idx u < WAPS_TX_BUFFER_SIZE mx
      then u\<lparr>m_tx_buffer := (m_tx_buffer u)[m_tx_buffer_idx u := ch], m_tx_buffer_idx := m_tx_buffer_idx u + 1\<rparr>
      else u)"

definition slip_put :: "nat \<Rightarrow> u8 \<Rightarrow> wuart \<Rightarrow> wuart" where
  "slip_put mx ch u =
     (if ch = SLIP_ESC then write_tx_buffer mx SLIP_ESC_ESC (write_tx_buffer mx SLIP_ESC u)
      else if ch = SLIP_END then write_tx_buffer mx SLIP_ESC_END (write_tx_buffer mx SLIP_ESC u)
      else write_tx_buffer mx ch u)"

definition crc_lsb :: "u16 \<Rightarrow> u8" where "crc_lsb crc = ucast crc"
definition crc_msb :: "u16 \<Rightarrow> u8" where "crc_msb crc = ucast (drop_bit 8 crc)"

text \<open>The bytes written by \<open>Usart_sendBuffer\<close> are those of the transmit buffer;
  \<open>usart_send\<close> tells how many of them the driver accepts.\<close>

definition Waps_uart_send :: "nat \<Rightarrow> (u8 list \<Rightarrow> nat) \<Rightarrow> wuart \<Rightarrow> u8 list \<Rightarrow> bool \<times> wuart" where
  "Waps_uart_send mx usart_send u buffer =
     (let crc = Crc_fromBuffer buffer;
          u = write_tx_buffer mx SLIP_END (u\<lparr>m_tx_buffer_idx := 0\<rparr>);
          u = fold (slip_put mx) buffer u;
          u = slip_put mx (crc_lsb crc) u;
          u = slip_put mx (crc_msb crc) u;
          u = write_tx_buffer mx SLIP_END u
      in if m_tx_buffer_idx u < length buffer then (False, u)
         else (usart_send (take (m_tx_buffer_idx u) (m_tx_buffer u)) = m_tx_buffer_idx u, u))"

subsection \<open>Receiving\<close>

definition write_rx_buffer :: "nat \<Rightarrow> u8 \<Rightarrow> wuart \<Rightarrow> wuart" where
  "write_rx_buffer mx ch u =
     (if m_rx_buffer_idx u < WAPS_RX_BUFFER_SIZE mx
      then u\<lparr>m_rx_buffer := (m_rx_buffer u)[m_rx_buffer_idx u := ch], m_rx_buffer_idx := m_rx_buffer_idx u + 1,
             m_rx_crc := Crc_addByte (m_rx_crc u) ch\<rparr>
      else u)"

definition crc_of_bytes :: "u8 \<Rightarrow> u8 \<Rightarrow> u16" where
  "crc_of_bytes lsb msb = ucast lsb OR push_bit 8 (ucast msb)"

definition frame_completed :: "lib_time \<Rightarrow> nat \<Rightarrow> wuart \<Rightarrow> wuart" where
  "frame_completed lt mx u =
     reset_rx_buffer
       (if m_rx_buffer_idx u \<ge> 2
        then
          let pld_size = m_rx_buffer_idx u - 2
          in if pld_size \<ge> WAPS_MIN_FRAME_LENGTH \<and> pld_size \<le> mx
             then
               let crc_1 = m_rx_crc u;
                   b0 = m_rx_buffer u ! pld_size;
                   b1 = m_rx_buffer u ! (pld_size + 1);
                   crc_2 = crc_of_bytes b0 b1;
                   crc_2 = Crc_addByte crc_2 b0;
                   crc_2 = Crc_addByte crc_2 b1
               in if crc_1 = crc_2
                  then
                    let u = Waps_uart_powerOff lt u
                    in if m_frame_cb u then u\<lparr>u_frames := u_frames u @ [take pld_size (m_rx_buffer u)]\<rparr> else u
                  else u
             else u
        else u)"

definition receive_char :: "lib_time \<Rightarrow> nat \<Rightarrow> u8 \<Rightarrow> wuart \<Rightarrow> wuart" where
  "receive_char lt mx ch u =
     (if m_escaped u
      then (if ch = SLIP_ESC_END then write_rx_buffer mx SLIP_END u
            else if ch = SLIP_ESC_ESC then write_rx_buffer mx SLIP_ESC u
            else reset_rx_buffer u)\<lparr>m_escaped := False\<rparr>
      else if ch = SLIP_END then (if m_rx_buffer_idx u \<noteq> 0 then frame_completed lt mx u else u)
      else if ch = SLIP_ESC then u\<lparr>m_escaped := True\<rparr>
      else write_rx_buffer mx ch u)"

definition waps_uart_receive :: "lib_time \<Rightarrow> nat \<Rightarrow> wuart \<Rightarrow> u8 list \<Rightarrow> wuart" where
  "waps_uart_receive lt mx u chars =
     (let u = Waps_uart_keepPowerOn lt u
      in if length chars = 0 \<or> length chars \<ge> WAPS_RX_BUFFER_SIZE mx * 2 then u
         else fold (receive_char lt mx) chars u)"

subsection \<open>The receiver on byte sequences\<close>

text \<open>What the receiver has to do, on the bytes of the frame so far, the escape flag and the
  frames delivered.\<close>

type_synonym rx_view = "u8 list \<times> bool \<times> u8 list list"

definition frame_valid :: "nat \<Rightarrow> u8 list \<Rightarrow> bool" where
  "frame_valid mx c \<longleftrightarrow>
     (\<exists>p. c = p @ [crc_lsb (Crc_fromBuffer p), crc_msb (Crc_fromBuffer p)] \<and> 3 \<le> length p \<and> length p \<le> mx)"

definition rx_put :: "nat \<Rightarrow> u8 \<Rightarrow> u8 list \<Rightarrow> u8 list" where
  "rx_put mx ch c = (if length c < WAPS_RX_BUFFER_SIZE mx then c @ [ch] else c)"

definition rx_step :: "nat \<Rightarrow> bool \<Rightarrow> u8 \<Rightarrow> rx_view \<Rightarrow> rx_view" where
  "rx_step mx cb ch = (\<lambda>(c, escaped, frames).
     if escaped
     then (if ch = SLIP_ESC_END then rx_put mx SLIP_END c
           else if ch = SLIP_ESC_ESC then rx_put mx SLIP_ESC c
           else [], False, frames)
     else if ch = SLIP_END
     then ([], False, if frame_valid mx c \<and> cb then frames @ [take (length c - 2) c] else frames)
     else if ch = SLIP_ESC then (c, True, frames)
     else (rx_put mx ch c, False, frames))"

definition rx_content :: "wuart \<Rightarrow> u8 list" where
  "rx_content u = take (m_rx_buffer_idx u) (m_rx_buffer u)"

definition rx_view_of :: "wuart \<Rightarrow> rx_view" where
  "rx_view_of u = (rx_content u, m_escaped u, u_frames u)"

definition rx_wf :: "nat \<Rightarrow> wuart \<Rightarrow> bool" where
  "rx_wf mx u \<longleftrightarrow> length (m_rx_buffer u) = WAPS_RX_BUFFER_SIZE mx \<and> m_rx_buffer_idx u \<le> WAPS_RX_BUFFER_SIZE mx \<and>
     m_rx_crc u = foldl Crc_addByte 0xffff (rx_content u)"

lemma length_rx_content: "rx_wf mx u \<Longrightarrow> length (rx_content u) = m_rx_buffer_idx u"
  by (simp add: rx_wf_def rx_content_def)

lemma addTask_rx [simp]:
  "m_rx_buffer_idx (addTask lt u f d e) = m_rx_buffer_idx u" "m_rx_buffer (addTask lt u f d e) = m_rx_buffer u"
  "m_rx_crc (addTask lt u f d e) = m_rx_crc u" "m_escaped (addTask lt u f d e) = m_escaped u"
  "u_frames (addTask lt u f d e) = u_frames u" "m_frame_cb (addTask lt u f d e) = m_frame_cb u"
  by (simp_all add: addTask_def)

lemma powerOff_rx [simp]:
  "m_rx_buffer_idx (Waps_uart_powerOff lt u) = m_rx_buffer_idx u" "m_rx_buffer (Waps_uart_powerOff lt u) = m_rx_buffer u"
  "m_rx_crc (Waps_uart_powerOff lt u) = m_rx_crc u" "m_escaped (Waps_uart_powerOff lt u) = m_escaped u"
  "u_frames (Waps_uart_powerOff lt u) = u_frames u" "m_frame_cb (Waps_uart_powerOff lt u) = m_frame_cb u"
  by (simp_all add: Waps_uart_powerOff_def)

lemma keepPowerOn_rx [simp]:
  "rx_content (Waps_uart_keepPowerOn lt u) = rx_content u" "rx_wf mx (Waps_uart_keepPowerOn lt u) = rx_wf mx u"
  "rx_view_of (Waps_uart_keepPowerOn lt u) = rx_view_of u" "m_frame_cb (Waps_uart_keepPowerOn lt u) = m_frame_cb u"
  by (simp_all add: Waps_uart_keepPowerOn_def rx_content_def rx_wf_def rx_view_of_def)

lemma write_rx_refines:
  assumes "rx_wf mx u"
  shows "rx_wf mx (write_rx_buffer mx ch u) \<and> rx_content (write_rx_buffer mx ch u) = rx_put mx ch (rx_content u) \<and>
     m_escaped (write_rx_buffer mx ch u) = m_escaped u \<and> u_frames (write_rx_buffer mx ch u) = u_frames u \<and>
     m_frame_cb (write_rx_buffer mx ch u) = m_frame_cb u"
  using assms length_rx_content [OF assms]
  by (auto simp: write_rx_buffer_def rx_wf_def rx_put_def rx_content_def take_Suc_conv_app_nth)

lemma reset_rx_refines:
  assumes "length (m_rx_buffer u) = WAPS_RX_BUFFER_SIZE mx"
  shows "rx_wf mx (reset_rx_buffer u) \<and> rx_content (reset_rx_buffer u) = [] \<and>
     m_escaped (reset_rx_buffer u) = m_escaped u \<and> u_frames (reset_rx_buffer u) = u_frames u \<and>
     m_frame_cb (reset_rx_buffer u) = m_frame_cb u"
  using assms by (simp add: reset_rx_buffer_def rx_wf_def rx_content_def)

text \<open>The comparison of the CRCs over data and checksum is the comparison of the received
  checksum with that of the data.\<close>

lemma crc_bytes: "crc_of_bytes b0 b1 = crc \<longleftrightarrow> b0 = crc_lsb crc \<and> b1 = crc_msb crc"
proof
  assume "crc_of_bytes b0 b1 = crc"
  moreover have "ucast (crc_of_bytes b0 b1) = b0" "ucast (drop_bit 8 (crc_of_bytes b0 b1)) = b1"
    by (rule bit_word_eqI, auto simp: crc_of_bytes_def bit_simps dest: bit_imp_le_length)+
  ultimately show "b0 = crc_lsb crc \<and> b1 = crc_msb crc" by (auto simp: crc_lsb_def crc_msb_def)
next
  assume "b0 = crc_lsb crc \<and> b1 = crc_msb crc"
  moreover have "crc_of_bytes (crc_lsb crc) (crc_msb crc) = crc"
    by (rule bit_word_eqI) (auto simp: crc_of_bytes_def crc_lsb_def crc_msb_def bit_simps dest: bit_imp_le_length)
  ultimately show "crc_of_bytes b0 b1 = crc" by simp
qed

lemma crc_check:
  "foldl Crc_addByte 0xffff (p @ [b0, b1]) = Crc_addByte (Crc_addByte (crc_of_bytes b0 b1) b0) b1 \<longleftrightarrow>
     b0 = crc_lsb (Crc_fromBuffer p) \<and> b1 = crc_msb (Crc_fromBuffer p)"
  unfolding crc_bytes [symmetric] by (auto simp: Crc_fromBuffer_foldl dest!: Crc_addByte_inj)

lemma frame_completed_refines:
  assumes wf: "rx_wf mx u"
  shows "rx_wf mx (frame_completed lt mx u) \<and> rx_content (frame_completed lt mx u) = [] \<and>
     m_escaped (frame_completed lt mx u) = m_escaped u \<and> m_frame_cb (frame_completed lt mx u) = m_frame_cb u \<and>
     u_frames (frame_completed lt mx u) =
       (if frame_valid mx (rx_content u) \<and> m_frame_cb u
        then u_frames u @ [take (length (rx_content u) - 2) (rx_content u)] else u_frames u)"
proof -
  let ?c = "rx_content u" and ?n = "m_rx_buffer_idx u - 2"
  let ?b0 = "m_rx_buffer u ! ?n" and ?b1 = "m_rx_buffer u ! (?n + 1)"
  define ok where "ok \<longleftrightarrow> 2 \<le> m_rx_buffer_idx u \<and> 3 \<le> ?n \<and> ?n \<le> mx \<and>
    m_rx_crc u = Crc_addByte (Crc_addByte (crc_of_bytes ?b0 ?b1) ?b0) ?b1"
  define v where "v = (if ok then let u = Waps_uart_powerOff lt u in
    if m_frame_cb u then u\<lparr>u_frames := u_frames u @ [take ?n (m_rx_buffer u)]\<rparr> else u else u)"
  have eq: "frame_completed lt mx u = reset_rx_buffer v"
    unfolding v_def ok_def frame_completed_def WAPS_MIN_FRAME_LENGTH_def Let_def
    by (cases "2 \<le> m_rx_buffer_idx u"; cases "3 \<le> ?n \<and> ?n \<le> mx") auto
  have len: "m_rx_buffer_idx u \<le> length (m_rx_buffer u)" using wf by (simp add: rx_wf_def)
  have valid: "ok \<longleftrightarrow> frame_valid mx ?c"
  proof (cases "2 \<le> m_rx_buffer_idx u")
    case True
    have c: "?c = take ?n (m_rx_buffer u) @ [?b0, ?b1]"
    proof -
      have "m_rx_buffer_idx u = Suc (Suc ?n)" using True by simp
      then have "?c = take (Suc (Suc ?n)) (m_rx_buffer u)" by (simp add: rx_content_def)
      also have "\<dots> = take ?n (m_rx_buffer u) @ [?b0, ?b1]"
        using True len by (simp add: take_Suc_conv_app_nth)
      finally show ?thesis .
    qed
    have l: "length (take ?n (m_rx_buffer u)) = ?n" using len by simp
    have crc: "m_rx_crc u = foldl Crc_addByte 0xffff (take ?n (m_rx_buffer u) @ [?b0, ?b1])"
      using wf c by (simp add: rx_wf_def)
    show ?thesis
      unfolding ok_def crc crc_check frame_valid_def using True l by (auto simp: c)
  next
    case False
    then show ?thesis using length_rx_content [OF wf] by (auto simp: ok_def frame_valid_def)
  qed
  have tk: "take ?n (m_rx_buffer u) = take (length ?c - 2) ?c"
    using length_rx_content [OF wf] by (simp add: rx_content_def)
  have v: "length (m_rx_buffer v) = WAPS_RX_BUFFER_SIZE mx" "m_escaped v = m_escaped u" "m_frame_cb v = m_frame_cb u"
    "u_frames v = (if ok \<and> m_frame_cb u then u_frames u @ [take ?n (m_rx_buffer u)] else u_frames u)"
    using wf by (simp_all add: v_def Let_def rx_wf_def)
  show ?thesis unfolding eq using reset_rx_refines [OF v(1)] v(2-4) valid tk by simp
qed

lemma receive_char_refines:
  assumes wf: "rx_wf mx u"
  shows "rx_wf mx (receive_char lt mx ch u) \<and> m_frame_cb (receive_char lt mx ch u) = m_frame_cb u \<and>
     rx_view_of (receive_char lt mx ch u) = rx_step mx (m_frame_cb u) ch (rx_view_of u)"
proof -
  have esc: "rx_wf mx (w\<lparr>m_escaped := b\<rparr>) = rx_wf mx w" "rx_content (w\<lparr>m_escaped := b\<rparr>) = rx_content w" for w b
    by (simp_all add: rx_wf_def rx_content_def)
  have buf: "length (m_rx_buffer u) = WAPS_RX_BUFFER_SIZE mx" using wf by (simp add: rx_wf_def)
  have empty: "\<not> frame_valid mx []" by (simp add: frame_valid_def)
  have idx: "m_rx_buffer_idx u = 0 \<longleftrightarrow> rx_content u = []" using length_rx_content [OF wf] by auto
  show ?thesis
  proof (cases "m_escaped u")
    case True
    then show ?thesis
      using write_rx_refines [OF wf, of SLIP_END] write_rx_refines [OF wf, of SLIP_ESC] reset_rx_refines [OF buf]
      by (auto simp: receive_char_def rx_step_def rx_view_of_def esc)
  next
    case False
    then show ?thesis
      using write_rx_refines [OF wf, of ch] frame_completed_refines [OF wf, of lt] wf idx empty
      by (auto simp: receive_char_def rx_step_def rx_view_of_def esc)
  qed
qed

lemma receive_chars_refines:
  "rx_wf mx u \<Longrightarrow> rx_wf mx (fold (receive_char lt mx) cs u) \<and> m_frame_cb (fold (receive_char lt mx) cs u) = m_frame_cb u \<and>
     rx_view_of (fold (receive_char lt mx) cs u) = fold (rx_step mx (m_frame_cb u)) cs (rx_view_of u)"
proof (induction cs arbitrary: u)
  case (Cons c cs)
  from receive_char_refines [OF Cons.prems, of lt c] Cons.IH [of "receive_char lt mx c u"] show ?case by simp
qed simp

definition chunk_ok :: "nat \<Rightarrow> u8 list \<Rightarrow> bool" where
  "chunk_ok mx chars \<longleftrightarrow> chars \<noteq> [] \<and> length chars < WAPS_RX_BUFFER_SIZE mx * 2"

text \<open>The interrupts of the driver, one for each chunk of bytes.\<close>

definition receive_chunks :: "lib_time \<Rightarrow> nat \<Rightarrow> u8 list list \<Rightarrow> wuart \<Rightarrow> wuart" where
  "receive_chunks lt mx chunks u = fold (\<lambda>chars u. waps_uart_receive lt mx u chars) chunks u"

lemma receive_chunks_refines:
  assumes "rx_wf mx u" "list_all (chunk_ok mx) chunks"
  shows "rx_wf mx (receive_chunks lt mx chunks u) \<and> m_frame_cb (receive_chunks lt mx chunks u) = m_frame_cb u \<and>
     rx_view_of (receive_chunks lt mx chunks u) = fold (rx_step mx (m_frame_cb u)) (concat chunks) (rx_view_of u)"
  using assms
proof (induction chunks arbitrary: u)
  case (Cons c cs)
  let ?k = "Waps_uart_keepPowerOn lt u" and ?u = "waps_uart_receive lt mx u c"
  have "?u = fold (receive_char lt mx) c ?k"
    using Cons.prems(2) by (auto simp: waps_uart_receive_def chunk_ok_def)
  with receive_chars_refines [of mx ?k lt c] Cons.prems(1)
  have "rx_wf mx ?u" "m_frame_cb ?u = m_frame_cb u" "rx_view_of ?u = fold (rx_step mx (m_frame_cb u)) c (rx_view_of u)"
    by simp_all
  with Cons.IH [of ?u] Cons.prems(2) show ?case by (simp add: receive_chunks_def)
qed (simp add: receive_chunks_def)

subsection \<open>Framing\<close>

definition slip_char :: "u8 \<Rightarrow> u8 list" where
  "slip_char ch = (if ch = SLIP_ESC then [SLIP_ESC, SLIP_ESC_ESC]
     else if ch = SLIP_END then [SLIP_ESC, SLIP_ESC_END] else [ch])"

definition with_crc :: "u8 list \<Rightarrow> u8 list" where
  "with_crc p = p @ [crc_lsb (Crc_fromBuffer p), crc_msb (Crc_fromBuffer p)]"

definition slip_frame :: "u8 list \<Rightarrow> u8 list" where
  "slip_frame p = SLIP_END # concat (map slip_char (with_crc p)) @ [SLIP_END]"

definition payload_ok :: "nat \<Rightarrow> u8 list \<Rightarrow> bool" where
  "payload_ok mx p \<longleftrightarrow> 3 \<le> length p \<and> length p \<le> mx"

lemma rx_slip_char:
  "length c < WAPS_RX_BUFFER_SIZE mx \<Longrightarrow> fold (rx_step mx cb) (slip_char ch) (c, False, fs) = (c @ [ch], False, fs)"
  by (simp add: slip_char_def rx_step_def rx_put_def slip_consts)

lemma rx_slip_chars:
  "length c + length p \<le> WAPS_RX_BUFFER_SIZE mx \<Longrightarrow>
     fold (rx_step mx cb) (concat (map slip_char p)) (c, False, fs) = (c @ p, False, fs)"
proof (induction p arbitrary: c)
  case (Cons ch p)
  then have "fold (rx_step mx cb) (slip_char ch) (c, False, fs) = (c @ [ch], False, fs)"
    by (intro rx_slip_char) simp
  with Cons show ?case by simp
qed simp

text \<open>The leading delimiter brings the receiver back in step whatever it received before.\<close>

lemma rx_resync:
  assumes "payload_ok mx p"
  shows "fold (rx_step mx cb) (slip_frame p) (c, escaped, fs) =
     ([], False, fs @ (if \<not> escaped \<and> frame_valid mx c \<and> cb then [take (length c - 2) c] else []) @ (if cb then [p] else []))"
proof -
  let ?fs = "fs @ (if \<not> escaped \<and> frame_valid mx c \<and> cb then [take (length c - 2) c] else [])"
  have s: "rx_step mx cb SLIP_END (c, escaped, fs) = ([], False, ?fs)"
    by (simp add: rx_step_def slip_consts)
  have "fold (rx_step mx cb) (concat (map slip_char (with_crc p))) ([], False, ?fs) = ([] @ with_crc p, False, ?fs)"
    using assms by (intro rx_slip_chars) (simp add: with_crc_def payload_ok_def WAPS_RX_BUFFER_SIZE_def)
  moreover have "frame_valid mx (with_crc p)"
    using assms by (auto simp: frame_valid_def with_crc_def payload_ok_def)
  ultimately show ?thesis using s by (simp add: slip_frame_def rx_step_def with_crc_def)
qed

definition tx_content :: "wuart \<Rightarrow> u8 list" where
  "tx_content u = take (m_tx_buffer_idx u) (m_tx_buffer u)"

definition tx_wf :: "nat \<Rightarrow> wuart \<Rightarrow> bool" where
  "tx_wf mx u \<longleftrightarrow> length (m_tx_buffer u) = WAPS_TX_BUFFER_SIZE mx \<and> m_tx_buffer_idx u \<le> WAPS_TX_BUFFER_SIZE mx"

lemma write_tx_content:
  "tx_wf mx u \<Longrightarrow> length (tx_content u) < WAPS_TX_BUFFER_SIZE mx \<Longrightarrow>
     tx_wf mx (write_tx_buffer mx ch u) \<and> tx_content (write_tx_buffer mx ch u) = tx_content u @ [ch] \<and>
     rx_view_of (write_tx_buffer mx ch u) = rx_view_of u"
  by (auto simp: write_tx_buffer_def tx_wf_def tx_content_def take_Suc_conv_app_nth rx_view_of_def rx_content_def)

lemma slip_put_content:
  assumes "tx_wf mx u" "length (tx_content u) + length (slip_char ch) \<le> WAPS_TX_BUFFER_SIZE mx"
  shows "tx_wf mx (slip_put mx ch u) \<and> tx_content (slip_put mx ch u) = tx_content u @ slip_char ch \<and>
     rx_view_of (slip_put mx ch u) = rx_view_of u"
  using assms write_tx_content [of mx u] write_tx_content [of mx "write_tx_buffer mx SLIP_ESC u"]
  by (auto simp: slip_put_def slip_char_def split: if_splits)

lemma slip_puts_content:
  "tx_wf mx u \<Longrightarrow> length (tx_content u) + length (concat (map slip_char p)) \<le> WAPS_TX_BUFFER_SIZE mx \<Longrightarrow>
     tx_wf mx (fold (slip_put mx) p u) \<and> tx_content (fold (slip_put mx) p u) = tx_content u @ concat (map slip_char p) \<and>
     rx_view_of (fold (slip_put mx) p u) = rx_view_of u"
proof (induction p arbitrary: u)
  case (Cons ch p)
  then have "tx_wf mx (slip_put mx ch u) \<and> tx_content (slip_put mx ch u) = tx_content u @ slip_char ch \<and>
     rx_view_of (slip_put mx ch u) = rx_view_of u"
    by (intro slip_put_content) auto
  with Cons show ?case by simp
qed simp

lemma length_slip_chars: "length (concat (map slip_char p)) \<le> 2 * length p" "length p \<le> length (concat (map slip_char p))"
  by (induction p) (auto simp: slip_char_def)

lemma send_content:
  assumes buf: "length (m_tx_buffer u) = WAPS_TX_BUFFER_SIZE mx" and p: "length p \<le> mx"
  shows "\<exists>u'. Waps_uart_send mx usart_send u p = (usart_send (slip_frame p) = length (slip_frame p), u') \<and>
     tx_content u' = slip_frame p \<and> rx_view_of u' = rx_view_of u"
proof -
  let ?u0 = "u\<lparr>m_tx_buffer_idx := 0\<rparr>"
  have w0: "tx_wf mx ?u0" "tx_content ?u0 = []" "rx_view_of ?u0 = rx_view_of u"
    using buf by (simp_all add: tx_wf_def tx_content_def rx_view_of_def rx_content_def)
  define u1 where "u1 = write_tx_buffer mx SLIP_END ?u0"
  have w1: "tx_wf mx u1" "tx_content u1 = [SLIP_END]" "rx_view_of u1 = rx_view_of u"
    using write_tx_content [OF w0(1)] w0 by (simp_all add: u1_def WAPS_TX_BUFFER_SIZE_def)
  define u2 where "u2 = fold (slip_put mx) (with_crc p) u1"
  have "length (concat (map slip_char (with_crc p))) \<le> 2 * length (with_crc p)" by (rule length_slip_chars)
  then have fits: "length (tx_content u1) + length (concat (map slip_char (with_crc p))) < WAPS_TX_BUFFER_SIZE mx"
    using p w1(2) by (simp add: with_crc_def WAPS_TX_BUFFER_SIZE_def)
  with slip_puts_content [OF w1(1), of "with_crc p"] w1
  have w2: "tx_wf mx u2" "tx_content u2 = SLIP_END # concat (map slip_char (with_crc p))" "rx_view_of u2 = rx_view_of u"
    by (simp_all add: u2_def)
  define u3 where "u3 = write_tx_buffer mx SLIP_END u2"
  have w3: "tx_wf mx u3" "tx_content u3 = slip_frame p" "rx_view_of u3 = rx_view_of u"
    using write_tx_content [OF w2(1)] w2 w1(2) fits by (simp_all add: u3_def slip_frame_def)
  have idx: "m_tx_buffer_idx u3 = length (slip_frame p)"
    using w3(1) arg_cong [OF w3(2), of length] by (simp add: tx_wf_def tx_content_def)
  have "length p \<le> length (slip_frame p)"
    using length_slip_chars(2) [of "with_crc p"] by (simp add: slip_frame_def with_crc_def)
  then have "Waps_uart_send mx usart_send u p = (usart_send (slip_frame p) = length (slip_frame p), u3)"
    using w3(2) idx
    by (simp add: Waps_uart_send_def Let_def u3_def u2_def u1_def with_crc_def tx_content_def)
  with w3 show ?thesis by blast
qed

subsection \<open>Streams of frames\<close>

text \<open>A channel on which whole messages are sent: bytes can be fed in any portions, and in
  an idle state a message goes through and leaves the state idle.\<close>

locale frame_channel =
  fixes feed :: "'b list \<Rightarrow> 's \<Rightarrow> 's" and enc :: "'m \<Rightarrow> 'b list" and sendable :: "'m \<Rightarrow> bool"
    and idle :: "'s \<Rightarrow> bool" and received :: "'s \<Rightarrow> 'm list"
  assumes feed_append: "feed (a @ b) s = feed b (feed a s)"
    and feed_nil: "feed [] s = s"
    and feed_enc: "idle s \<Longrightarrow> sendable m \<Longrightarrow> idle (feed (enc m) s) \<and> received (feed (enc m) s) = received s @ [m]"
begin

lemma stream_received:
  "idle s \<Longrightarrow> list_all sendable ms \<Longrightarrow>
     idle (feed (concat (map enc ms)) s) \<and> received (feed (concat (map enc ms)) s) = received s @ ms"
  by (induction ms arbitrary: s) (auto simp: feed_append feed_nil feed_enc)

lemma stream_in_chunks:
  "idle s \<Longrightarrow> list_all sendable ms \<Longrightarrow> concat chunks = concat (map enc ms) \<Longrightarrow>
     received (fold feed chunks s) = received s @ ms"
proof -
  assume a: "idle s" "list_all sendable ms" "concat chunks = concat (map enc ms)"
  have "fold feed chunks s = feed (concat chunks) s" for s
    by (induction chunks arbitrary: s) (simp_all add: feed_append feed_nil)
  with stream_received [OF a(1,2)] a(3) show ?thesis by simp
qed

end

interpretation slip: frame_channel "fold (rx_step mx True)" slip_frame "payload_ok mx"
    "\<lambda>v. fst v = [] \<and> \<not> fst (snd v)" "\<lambda>v. snd (snd v)" for mx
proof unfold_locales
  fix a b :: "u8 list" and s m
  show "fold (rx_step mx True) (a @ b) s = fold (rx_step mx True) b (fold (rx_step mx True) a s)" by simp
  show "fold (rx_step mx True) [] s = s" by simp
  assume "fst s = [] \<and> \<not> fst (snd s)" "payload_ok mx m"
  moreover have "\<not> frame_valid mx []" by (simp add: frame_valid_def)
  ultimately show "(fst (fold (rx_step mx True) (slip_frame m) s) = [] \<and> \<not> fst (snd (fold (rx_step mx True) (slip_frame m) s))) \<and>
      snd (snd (fold (rx_step mx True) (slip_frame m) s)) = snd (snd s) @ [m]"
    using rx_resync [of mx m True "fst s" "fst (snd s)" "snd (snd s)"] by (cases s) simp
qed

subsection \<open>Automatic power\<close>

text \<open>Events while automatic power is in use: an edge on the pin, received bytes, the
  shutdown task, and a new choice of the power mode, with the role of the node.\<close>

inductive power_step :: "lib_time \<Rightarrow> nat \<Rightarrow> wuart \<Rightarrow> wuart \<Rightarrow> bool" for lt mx where
  isr: "power_step lt mx u (uart_gpio_isr lt u)"
| rx: "hw_receiver u \<Longrightarrow> power_step lt mx u (waps_uart_receive lt mx u chars)"
| shutdown: "power_step lt mx u (snd (shutdown_uart u))"
| reset: "m_power_on u \<noteq> USART_POWER_UP \<Longrightarrow> is_autopower_in_use role u \<Longrightarrow>
    power_step lt mx u (Waps_uart_powerReset role u)"

definition power_inv :: "wuart \<Rightarrow> bool" where
  "power_inv u \<longleftrightarrow> m_autopower_enabled u \<and> (hw_receiver u \<longleftrightarrow> m_power_on u = USART_POWER_ON) \<and>
     (hw_enabled u \<longleftrightarrow> m_power_on u = USART_POWER_ON) \<and> (hw_deep_sleep_disabled u \<longleftrightarrow> m_power_on u = USART_POWER_UP) \<and>
     hw_edge u = (if m_power_on u = USART_POWER_UP then EXTI_IRQ_RISING_EDGE else EXTI_IRQ_FALLING_EDGE,
       m_power_on u \<noteq> USART_POWER_ON)"

abbreviation power_fields :: "wuart \<Rightarrow> bool \<times> usart_power_state \<times> bool \<times> bool \<times> (edge \<times> bool) \<times> bool" where
  "power_fields u \<equiv> (m_autopower_enabled u, m_power_on u, hw_receiver u, hw_enabled u, hw_edge u, hw_deep_sleep_disabled u)"

lemma power_inv_fields: "power_fields u = power_fields v \<Longrightarrow> power_inv u = power_inv v"
  by (auto simp: power_inv_def)

lemma addTask_power [simp]: "power_fields (addTask lt u f d e) = power_fields u"
  by (simp add: addTask_def)

lemma wakeup_task_power [simp]: "power_fields (wakeup_task lt u) = power_fields u"
  by (simp add: wakeup_task_def addTask_def Let_def)

lemma frame_completed_power: "power_fields (frame_completed lt mx u) = power_fields u"
  by (simp add: frame_completed_def Waps_uart_powerOff_def reset_rx_buffer_def addTask_def Let_def)

lemma receive_char_power: "power_fields (receive_char lt mx ch u) = power_fields u"
  using frame_completed_power [of lt mx u]
  by (simp add: receive_char_def write_rx_buffer_def reset_rx_buffer_def)

lemma receive_power: "power_fields (waps_uart_receive lt mx u chars) = power_fields u"
proof -
  have "power_fields (fold (receive_char lt mx) cs u) = power_fields u" for cs u
  proof (induction cs arbitrary: u)
    case (Cons c cs)
    then show ?case using receive_char_power [of lt mx c u] by simp
  qed simp
  then show ?thesis by (simp add: waps_uart_receive_def Waps_uart_keepPowerOn_def Let_def addTask_def)
qed

lemma power_step_inv: "power_step lt mx u u' \<Longrightarrow> power_inv u \<Longrightarrow> power_inv u'"
proof (induction rule: power_step.induct)
  case (isr u)
  then show ?case
    by (cases "m_power_on u")
      (auto simp: uart_gpio_isr_def power_inv_def wakeup_task_def addTask_def Let_def)
next
  case (rx u chars)
  then show ?case using receive_power power_inv_fields by metis
next
  case (shutdown u)
  then show ?case
    by (cases "m_power_on u")
      (auto simp: shutdown_uart_def power_off_def power_inv_def Waps_uart_clean_def reset_rx_buffer_def Let_def)
next
  case (reset u role)
  then show ?case
    by (auto simp: Waps_uart_powerReset_def Waps_uart_AutoPowerOn_def power_inv_def Let_def)
qed

subsection \<open>Properties\<close>

text \<open>C13: what \<open>Waps_uart_send\<close> writes for a sequence of frames of 3 bytes to the maximal size,
  in whatever portions the driver delivers the bytes to an idle receiver, as long as each is not
  empty and shorter than twice the receive buffer (the code drops other portions), is received
  by \<open>waps_uart_receive\<close> as exactly these frames, in order.\<close>

theorem uart_stream_roundtrip:
  assumes rx: "rx_wf mx u" "m_frame_cb u" "rx_content u = []" "\<not> m_escaped u"
    and tx: "length (m_tx_buffer t) = WAPS_TX_BUFFER_SIZE mx" "list_all (payload_ok mx) ps"
    and line: "list_all (chunk_ok mx) chunks"
      "concat chunks = concat (map (\<lambda>p. tx_content (snd (Waps_uart_send mx usart_send t p))) ps)"
  shows "u_frames (receive_chunks lt mx chunks u) = u_frames u @ ps"
proof -
  have sent: "tx_content (snd (Waps_uart_send mx usart_send t p)) = slip_frame p" if "p \<in> set ps" for p
    using send_content [OF tx(1), of p usart_send] tx(2) that by (auto simp: list_all_iff payload_ok_def)
  then have "concat chunks = concat (map slip_frame ps)" unfolding line(2) by (simp cong: map_cong)
  then have "snd (snd (fold (rx_step mx True) (concat chunks) (rx_view_of u))) = u_frames u @ ps"
    using slip.stream_received [of "rx_view_of u" mx ps] rx tx(2) by (simp add: rx_view_of_def)
  then show ?thesis
    using receive_chunks_refines [OF rx(1) line(1), of lt] rx(2) by (simp add: rx_view_of_def prod_eq_iff)
qed

definition idle_uart :: "nat \<Rightarrow> wuart" where
  "idle_uart mx = \<lparr>m_tx_buffer_idx = 0, m_tx_buffer = replicate (WAPS_TX_BUFFER_SIZE mx) 0, m_rx_buffer_idx = 0,
     m_rx_buffer = replicate (WAPS_RX_BUFFER_SIZE mx) 0, m_rx_crc = 0xffff, m_escaped = False, m_frame_cb = True,
     m_baudrate = 115200, m_autopower_enabled = True, m_power_on = USART_POWER_OFF, m_signal = False, u_frames = [],
     u_sched = sched_boot 4, hw_enabled = False, hw_receiver = False, hw_edge = (EXTI_IRQ_FALLING_EDGE, True),
     hw_wakeup_pin = True, hw_deep_sleep_disabled = False, hw_irq = False\<rparr>"

lemma idle_uart_wf: "rx_wf mx (idle_uart mx)" "m_frame_cb (idle_uart mx)" "rx_content (idle_uart mx) = []"
  "\<not> m_escaped (idle_uart mx)" "length (m_tx_buffer (idle_uart mx)) = WAPS_TX_BUFFER_SIZE mx" "u_frames (idle_uart mx) = []"
  by (simp_all add: idle_uart_def rx_wf_def rx_content_def)

theorem uart_stream_roundtrip_witness:
  "let bytes = tx_content (snd (Waps_uart_send 8 length (idle_uart 8) [0xC0, 0xDB, 1, 2]))
   in u_frames (receive_chunks us_clock 8 [take 3 bytes, drop 3 bytes] (idle_uart 8)) = [[0xC0, 0xDB, 1, 2]]"
proof -
  let ?p = "[0xC0, 0xDB, 1, 2] :: u8 list"
  let ?b = "tx_content (snd (Waps_uart_send 8 length (idle_uart 8) ?p))"
  obtain u' where "Waps_uart_send 8 length (idle_uart 8) ?p = (True, u')" "tx_content u' = slip_frame ?p"
    using send_content [OF idle_uart_wf(5), of ?p 8 length] by auto
  then have "?b = slip_frame ?p" by simp
  moreover have "length (concat (map slip_char (with_crc ?p))) \<le> 2 * length (with_crc ?p)"
    "length (with_crc ?p) \<le> length (concat (map slip_char (with_crc ?p)))" by (rule length_slip_chars)+
  ultimately have len: "6 \<le> length ?b" "length ?b \<le> 14" by (simp_all add: slip_frame_def with_crc_def)
  then have "list_all (chunk_ok 8) [take 3 ?b, drop 3 ?b]"
    by (auto simp: chunk_ok_def WAPS_RX_BUFFER_SIZE_def)
  then show ?thesis unfolding Let_def
    using uart_stream_roundtrip [OF idle_uart_wf(1-5), where ps = "[?p]" and chunks = "[take 3 ?b, drop 3 ?b]"
        and usart_send = length and lt = us_clock]
    by (simp add: payload_ok_def idle_uart_wf(6))
qed

text \<open>After any bytes, noise included, the next frame sent is delivered: at most what
  the noise itself completes as a valid frame comes before it.\<close>

lemma uart_resynchronises:
  assumes "rx_wf mx u" "m_frame_cb u" "list_all (chunk_ok mx) noise" "list_all (chunk_ok mx) chunks"
    and "payload_ok mx p" "concat chunks = slip_frame p"
  shows "\<exists>extra. length extra \<le> 1 \<and>
     u_frames (receive_chunks lt mx (noise @ chunks) u) = u_frames (receive_chunks lt mx noise u) @ extra @ [p]"
proof -
  let ?n = "receive_chunks lt mx noise u"
  note n = receive_chunks_refines [OF assms(1,3), of lt]
  note r = receive_chunks_refines [of mx ?n chunks lt]
  have "receive_chunks lt mx (noise @ chunks) u = receive_chunks lt mx chunks ?n" by (simp add: receive_chunks_def)
  moreover define extra where "extra = (if \<not> m_escaped ?n \<and> frame_valid mx (rx_content ?n) \<and> True
        then [take (length (rx_content ?n) - 2) (rx_content ?n)] else [])"
  moreover have "u_frames (receive_chunks lt mx chunks ?n) = u_frames ?n @ extra @ [p]"
    unfolding extra_def
    using r n assms(2,4,6) rx_resync [OF assms(5), of True "rx_content ?n" "m_escaped ?n" "u_frames ?n"]
    by (simp add: rx_view_of_def prod_eq_iff)
  ultimately show ?thesis by (intro exI [of _ extra]) (auto simp: extra_def)
qed

lemma uart_resynchronises_example:
  "\<exists>extra. length extra \<le> 1 \<and>
     u_frames (receive_chunks us_clock 8 ([[1, 0xDB, 0xC0, 7], [9]] @ [take 4 (slip_frame [1, 2, 3]), drop 4 (slip_frame [1, 2, 3])]) (idle_uart 8)) =
     u_frames (receive_chunks us_clock 8 [[1, 0xDB, 0xC0, 7], [9]] (idle_uart 8)) @ extra @ [[1, 2, 3]]"
proof (rule uart_resynchronises [OF idle_uart_wf(1,2)])
  have "length (concat (map slip_char (with_crc [1, 2, 3]))) \<le> 2 * length (with_crc [1, 2, 3])"
    "length (with_crc [1, 2, 3]) \<le> length (concat (map slip_char (with_crc [1, 2, 3])))" by (rule length_slip_chars)+
  then have "7 \<le> length (slip_frame [1, 2, 3])" "length (slip_frame [1, 2, 3]) \<le> 12"
    unfolding slip_frame_def by (simp_all add: with_crc_def del: length_concat map_append concat_append)
  then show "list_all (chunk_ok 8) [take 4 (slip_frame [1, 2, 3]), drop 4 (slip_frame [1, 2, 3])]"
    by (auto simp: chunk_ok_def WAPS_RX_BUFFER_SIZE_def)
qed (simp_all add: chunk_ok_def WAPS_RX_BUFFER_SIZE_def payload_ok_def)

text \<open>C14: the receiver stays inside of its buffer whatever bytes and however many it is
  given, and a delimiter delivers a frame exactly when the bytes before it are a frame of
  an allowed size followed by its CRC.\<close>

theorem uart_delivers_valid_frames:
  assumes "rx_wf mx u" "m_frame_cb u"
  shows "rx_wf mx (waps_uart_receive lt mx u chars) \<and>
     (u_frames (frame_completed lt mx u) = u_frames u @ [p] \<longleftrightarrow>
        3 \<le> length p \<and> length p \<le> mx \<and> rx_content u = p @ [crc_lsb (Crc_fromBuffer p), crc_msb (Crc_fromBuffer p)]) \<and>
     (\<not> frame_valid mx (rx_content u) \<longrightarrow> u_frames (frame_completed lt mx u) = u_frames u)"
proof -
  have "rx_wf mx (waps_uart_receive lt mx u chars)"
    using receive_chars_refines [of mx "Waps_uart_keepPowerOn lt u" lt chars] assms(1)
    by (simp add: waps_uart_receive_def Let_def)
  then show ?thesis
    using frame_completed_refines [OF assms(1), of lt] assms(2) by (auto simp: frame_valid_def)
qed

theorem uart_delivers_valid_frames_witness:
  "rx_wf 8 (waps_uart_receive us_clock 8 (idle_uart 8) [1, 2, 3, 0xDB, 4, 0xC0]) \<and>
   u_frames (frame_completed us_clock 8 (idle_uart 8)) = []"
  using uart_delivers_valid_frames [OF idle_uart_wf(1,2), of 8 us_clock "[1, 2, 3, 0xDB, 4, 0xC0]"]
  by (simp add: idle_uart_wf frame_valid_def)

text \<open>While automatic power is in use and the mode is not chosen anew in the middle of a
  wake-up, the receiver is on exactly in the powered state, deep sleep is prevented exactly
  while the line wakes up, and the pin waits for the edge of the next state.\<close>

lemma uart_power_invariant:
  assumes "(power_step lt mx)\<^sup>*\<^sup>* u u'" "power_inv u"
  shows "power_inv u'"
  using assms by (induction rule: rtranclp_induct) (auto intro: power_step_inv)

lemma uart_power_invariant_example:
  "power_inv (idle_uart 8) \<and> power_inv (snd (shutdown_uart (uart_gpio_isr us_clock (idle_uart 8))))"
proof -
  have i: "power_inv (idle_uart 8)" by (simp add: power_inv_def idle_uart_def)
  have "(power_step us_clock 8)\<^sup>*\<^sup>* (idle_uart 8) (snd (shutdown_uart (uart_gpio_isr us_clock (idle_uart 8))))"
    by (rule rtranclp.rtrancl_into_rtrancl [where b = "uart_gpio_isr us_clock (idle_uart 8)"])
      (rule r_into_rtranclp, rule power_step.isr, rule power_step.shutdown)
  from uart_power_invariant [OF this i] i show ?thesis by blast
qed

text \<open>Choosing the power mode anew in the middle of a wake-up leaves deep sleep
  prevented in the powered off state.\<close>

lemma uart_power_reset_leaks_deep_sleep:
  assumes "power_inv u" "m_power_on u = USART_POWER_UP"
  shows "m_power_on (Waps_uart_powerReset role u) = USART_POWER_OFF \<and> hw_deep_sleep_disabled (Waps_uart_powerReset role u)"
  using assms
  by (simp add: power_inv_def Waps_uart_powerReset_def Waps_uart_AutoPowerOn_def Waps_uart_AutoPowerOff_def Let_def)

lemma uart_power_reset_leaks_deep_sleep_example:
  "hw_deep_sleep_disabled (Waps_uart_powerReset None (uart_gpio_isr us_clock (idle_uart 8)))"
proof -
  have "power_inv (idle_uart 8)" by (simp add: power_inv_def idle_uart_def)
  then have "power_inv (uart_gpio_isr us_clock (idle_uart 8))" using power_step_inv power_step.isr by metis
  moreover have "m_power_on (uart_gpio_isr us_clock (idle_uart 8)) = USART_POWER_UP"
    by (simp add: uart_gpio_isr_def idle_uart_def wakeup_task_def addTask_def Let_def)
  ultimately show ?thesis by (simp add: uart_power_reset_leaks_deep_sleep)
qed

end
