(* ===== verification/Waps.thy ===== *)
theory Waps
  imports Sl_List Util_Num "HOL-Library.Multiset"
begin

text \<open>
  The item pool, the queues and the request/reply and indication/response protocol of the
  dual MCU application: \<open>libraries/dualmcu/waps/waps_item.c\<close>,
  \<open>protocol/waps_protocol.c\<close>, \<open>protocol/uart/waps_uart_protocol.c\<close>,
  \<open>waps.c\<close> and \<open>sap/function_codes.c\<close>.

  An item is known by its address, here its number in the pool.  The four lists
  (\<open>free_items\<close> and the three queues) are \<open>sl_list\<close> heads over one store of links.
  The environment \<open>waps_env\<close> stands for what the protocol calls: whether the UART
  accepts a frame, the work of the access points on a request (they build the reply in the
  item), the callbacks stored in items, and the coarse clock.
\<close>

subsection \<open>Function codes\<close>

definition m_dsap_req :: "u8 list" where "m_dsap_req = [0x01, 0x1F, 0x0F]"

definition m_msap_req :: "u8 list" where
  "m_msap_req = [0x04, 0x05, 0x06, 0x0B, 0x0C, 0x17, 0x18, 0x19, 0x1A, 0x1B, 0x1C, 0x1E, 0x20, 0x21, 0x23,
     0x38, 0x39, 0x3A, 0x3B, 0x40, 0x41, 0x42, 0x4C, 0x4F, 0x50, 0x27, 0x26, 0x28]"

definition m_csap_req :: "u8 list" where "m_csap_req = [0x0D, 0x0E, 0x16]"

definition m_cnf :: "u8 list" where
  "m_cnf = [0x81, 0x8F, 0x84, 0x85, 0x86, 0xBA, 0xBB, 0x8B, 0x8C, 0xA0, 0xA1, 0xA3, 0xB8, 0xB9, 0x8D, 0x8E, 0x96,
     0x97, 0x98, 0x99, 0x9A, 0x9B, 0x9C, 0x9E, 0x9F, 0xBA, 0xBB, 0xC0, 0xC1, 0xCF, 0xD0, 0xA7, 0xA6, 0xA8]"

definition m_ind :: "u8 list" where "m_ind = [0x02, 0x10, 0x03, 0x07, 0x3F, 0x1D, 0x22]"

definition m_rsp :: "u8 list" where "m_rsp = [0x82, 0x90, 0x83, 0x87, 0xBF, 0x9D, 0xA2, 0xC2, 0xCC]"

fun find_code :: "u8 list \<Rightarrow> u8 \<Rightarrow> bool" where
  "find_code [] value = False"
| "find_code (c # cs) value = (if c = value then True else find_code cs value)"

definition WapsFunc_isDsapRequest :: "u8 \<Rightarrow> bool" where "WapsFunc_isDsapRequest func = find_code m_dsap_req func"
definition WapsFunc_isMsapRequest :: "u8 \<Rightarrow> bool" where "WapsFunc_isMsapRequest func = find_code m_msap_req func"
definition WapsFunc_isCsapRequest :: "u8 \<Rightarrow> bool" where "WapsFunc_isCsapRequest func = find_code m_csap_req func"

definition WapsFunc_isRequest :: "u8 \<Rightarrow> bool" where
  "WapsFunc_isRequest func \<longleftrightarrow> WapsFunc_isDsapRequest func \<or> WapsFunc_isMsapRequest func \<or> WapsFunc_isCsapRequest func"

definition WapsFunc_isConfirmation :: "u8 \<Rightarrow> bool" where "WapsFunc_isConfirmation func = find_code m_cnf func"
definition WapsFunc_isIndication :: "u8 \<Rightarrow> bool" where "WapsFunc_isIndication func = find_code m_ind func"
definition WapsFunc_isResponse :: "u8 \<Rightarrow> bool" where "WapsFunc_isResponse func = find_code m_rsp func"

subsection \<open>Items and queues\<close>

record wframe =
  sfunc :: u8
  sfid :: u8
  splen :: u8
  spld :: "u8 list"

record 'c witem =
  w_time :: u32
  pre_cb :: "'c option"
  post_cb :: "'c option"
  frame :: wframe

datatype waps_item_type = WAPS_ITEM_TYPE_REQUEST | WAPS_ITEM_TYPE_INDICATION

datatype qid = FREE | IND | REPLY | REQUEST

datatype sap = DSAP | MSAP | CSAP

record 'c waps =
  w_heads :: "qid \<Rightarrow> nat sl_list_head"
  w_links :: "nat links"
  w_items :: "nat \<Rightarrow> 'c witem"
  prot_reply :: "nat option"
  prot_indication :: "nat option"
  prot_seq :: u8
  m_free_waps_items :: u32
  m_threshold_cb :: bool
  w_threshold_calls :: nat
  w_irq :: bool
  w_signal :: bool
  w_wakeups :: nat
  w_sent :: "u8 list list"
  w_post :: "'c list"

record 'c waps_env =
  hw_write :: "u8 list \<Rightarrow> bool"
  run_pre_cb :: "'c \<Rightarrow> bool \<Rightarrow> 'c witem \<Rightarrow> 'c witem"
  sap_handle :: "sap \<Rightarrow> 'c witem \<Rightarrow> bool \<times> 'c witem"
  coarse_now :: u32

definition set_queue :: "qid \<Rightarrow> nat sll \<Rightarrow> 'c waps \<Rightarrow> 'c waps" where
  "set_queue q s w = w\<lparr>w_heads := (w_heads w)(q := fst s), w_links := snd s\<rparr>"

definition get_queue :: "qid \<Rightarrow> 'c waps \<Rightarrow> nat sll" where
  "get_queue q w = (w_heads w q, w_links w)"

definition q_push_back :: "qid \<Rightarrow> nat \<Rightarrow> 'c waps \<Rightarrow> 'c waps option" where
  "q_push_back q e w = map_option (\<lambda>s. set_queue q s w) (sl_list_push_back (get_queue q w) e)"

definition q_push_front :: "qid \<Rightarrow> nat \<Rightarrow> 'c waps \<Rightarrow> 'c waps" where
  "q_push_front q e w = set_queue q (sl_list_push_front (get_queue q w) e) w"

definition q_pop_front :: "qid \<Rightarrow> 'c waps \<Rightarrow> nat option \<times> 'c waps" where
  "q_pop_front q w = (case sl_list_pop_front (get_queue q w) of (e, s) \<Rightarrow> (e, set_queue q s w))"

definition q_size :: "qid \<Rightarrow> 'c waps \<Rightarrow> u32" where
  "q_size q w = sl_size (w_heads w q)"

definition set_item :: "nat \<Rightarrow> 'c witem \<Rightarrow> 'c waps \<Rightarrow> 'c waps" where
  "set_item i it w = w\<lparr>w_items := (w_items w)(i := it)\<rparr>"

text \<open>\<open>n\<close> is the number of items of the bank and of the free RAM, all of them cleared.
  A payload has the largest size of the union of frames, that of
  \<open>dsap_data_rx_frag_ind_t\<close>.\<close>

definition zero_item :: "'c witem" where
  "zero_item = \<lparr>w_time = 0, pre_cb = None, post_cb = None, frame = \<lparr>sfunc = 0, sfid = 0, splen = 0, spld = replicate 123 0\<rparr>\<rparr>"

definition Waps_itemInit :: "nat \<Rightarrow> u8 \<Rightarrow> 'c waps \<Rightarrow> 'c waps" where
  "Waps_itemInit n percent w =
     fold (q_push_front FREE) [0..<n]
       (w\<lparr>m_threshold_cb := True, m_free_waps_items := of_nat n * ucast percent div 100,
          w_heads := (w_heads w)(FREE := sl_list_init),
          w_items := (\<lambda>_. zero_item), w_links := (\<lambda>_. None)\<rparr>)"

definition Waps_itemReserve :: "waps_item_type \<Rightarrow> 'c waps \<Rightarrow> nat option \<times> 'c waps" where
  "Waps_itemReserve type w =
     (if type = WAPS_ITEM_TYPE_REQUEST \<or> q_size FREE w > 2 then q_pop_front FREE w else (None, w))"

definition Waps_itemFree :: "nat \<Rightarrow> 'c waps \<Rightarrow> 'c waps" where
  "Waps_itemFree item w =
     (let w = q_push_front FREE item w
      in if q_size FREE w \<ge> m_free_waps_items w \<and> m_threshold_cb w
         then w\<lparr>w_threshold_calls := w_threshold_calls w + 1\<rparr> else w)"

definition queued_indications :: "'c waps \<Rightarrow> u8" where
  "queued_indications w = (if q_size IND w \<noteq> 0 then 1 else 0)"

definition frames_pending :: "'c waps \<Rightarrow> bool" where
  "frames_pending w \<longleftrightarrow> q_size REQUEST w \<noteq> 0 \<or> q_size REPLY w \<noteq> 0"

definition Waps_prot_hasIndication :: "'c waps \<Rightarrow> bool" where
  "Waps_prot_hasIndication w \<longleftrightarrow> prot_indication w \<noteq> None"

definition Waps_prot_updateIrqPin :: "'c waps \<Rightarrow> 'c waps" where
  "Waps_prot_updateIrqPin w = w\<lparr>w_irq := (q_size IND w \<noteq> 0 \<or> prot_indication w \<noteq> None)\<rparr>"

definition wakeup_waps_exec :: "'c waps \<Rightarrow> 'c waps" where
  "wakeup_waps_exec w =
     (let signaled = w_signal w; w = w\<lparr>w_signal := True\<rparr>
      in if \<not> signaled then w\<lparr>w_wakeups := w_wakeups w + 1\<rparr> else w)"

definition add_indication :: "nat option \<Rightarrow> 'c waps \<Rightarrow> 'c waps option" where
  "add_indication msg w =
     (case msg of None \<Rightarrow> Some w | Some i \<Rightarrow> map_option Waps_prot_updateIrqPin (q_push_back IND i w))"

definition add_reply :: "nat \<Rightarrow> 'c waps \<Rightarrow> 'c waps option" where
  "add_reply resp w = q_push_back REPLY resp w"

definition receive_request :: "nat \<Rightarrow> 'c waps \<Rightarrow> 'c waps option" where
  "receive_request item w = map_option wakeup_waps_exec (q_push_back REQUEST item w)"

definition frame_bytes :: "wframe \<Rightarrow> u8 list" where
  "frame_bytes f = sfunc f # sfid f # splen f # spld f"

text \<open>\<open>memcpy(&item->frame, data, size)\<close> for at least a header.\<close>

definition frame_of_bytes :: "u8 list \<Rightarrow> wframe \<Rightarrow> wframe" where
  "frame_of_bytes data f =
     \<lparr>sfunc = data ! 0, sfid = data ! 1, splen = data ! 2, spld = drop 3 data @ drop (length data - 3) (spld f)\<rparr>"

definition frame_receive :: "'c waps_env \<Rightarrow> u8 list \<Rightarrow> 'c waps \<Rightarrow> (bool \<times> 'c waps) option" where
  "frame_receive env data w =
     (if 3 \<le> length data \<and> unat (data ! 2) = length data - 3
      then case Waps_itemReserve WAPS_ITEM_TYPE_REQUEST w of
          (None, w) \<Rightarrow> Some (False, w)
        | (Some item, w) \<Rightarrow>
            do {
              let it = w_items w item;
              w \<leftarrow> receive_request item
                (set_item item (it\<lparr>w_time := coarse_now env, pre_cb := None, post_cb := None,
                   frame := frame_of_bytes data (frame it)\<rparr>) w);
              Some (True, w)
            }
      else Some (False, w))"

subsection \<open>Protocol\<close>

definition prot_send_item :: "'c waps_env \<Rightarrow> nat \<Rightarrow> 'c waps \<Rightarrow> bool \<times> 'c waps" where
  "prot_send_item env i w =
     (let w = (case pre_cb (w_items w i) of
                 None \<Rightarrow> w
               | Some cb \<Rightarrow> set_item i (run_pre_cb env cb (queued_indications w \<noteq> 0 \<or> Waps_prot_hasIndication w) (w_items w i)) w);
          f = frame (w_items w i);
          bytes = take (3 + unat (splen f)) (frame_bytes f)
      in if \<not> hw_write env bytes then (False, w)
         else (True, w\<lparr>w_sent := w_sent w @ [bytes],
                w_post := w_post w @ (case post_cb (w_items w i) of None \<Rightarrow> [] | Some cb \<Rightarrow> [cb])\<rparr>))"

definition send_indication :: "'c waps_env \<Rightarrow> wframe \<Rightarrow> 'c waps \<Rightarrow> 'c waps" where
  "send_indication env rx_frame w =
     Waps_prot_updateIrqPin
       (if sfunc rx_frame \<noteq> 0x84 \<and> \<not> (WapsFunc_isResponse (sfunc rx_frame) \<and> spld rx_frame ! 0 = 1) then w
        else
          let w = (if prot_indication w = None
                   then case q_pop_front IND w of (p, w) \<Rightarrow> w\<lparr>prot_indication := p\<rparr> else w)
          in case prot_indication w of
               None \<Rightarrow> w
             | Some p \<Rightarrow>
                 (let it = w_items w p;
                      it = it\<lparr>frame := (frame it)\<lparr>sfid := prot_seq w,
                             spld := (spld (frame it))[0 := queued_indications w]\<rparr>\<rparr>;
                      (sent, w) = prot_send_item env p (set_item p it w)
                  in if \<not> sent then (q_push_front IND p w)\<lparr>prot_indication := None\<rparr> else w))"

definition Waps_protUart_processResponse :: "'c waps_env \<Rightarrow> nat \<Rightarrow> 'c waps \<Rightarrow> bool \<times> 'c waps" where
  "Waps_protUart_processResponse env item w =
     (let f = frame (w_items w item)
      in if WapsFunc_isResponse (sfunc f)
         then (True, case prot_indication w of
               None \<Rightarrow> w
             | Some p \<Rightarrow>
                 send_indication env f
                   (if sfid f = prot_seq w \<and> sfunc f = (sfunc (frame (w_items w p)) OR 0x80)
                    then (Waps_itemFree p w)\<lparr>prot_indication := None, prot_seq := prot_seq w + 1\<rparr>
                    else w))
         else (False, w))"

definition Waps_protUart_sendReply :: "'c waps_env \<Rightarrow> 'c waps \<Rightarrow> 'c waps" where
  "Waps_protUart_sendReply env w =
     (let w = (if prot_reply w = None
               then case q_pop_front REPLY w of (p, w) \<Rightarrow> w\<lparr>prot_reply := p\<rparr> else w)
      in case prot_reply w of
           None \<Rightarrow> w
         | Some p \<Rightarrow>
             (case prot_send_item env p w of
                (False, w) \<Rightarrow> w
              | (True, w) \<Rightarrow>
                  (Waps_itemFree p (send_indication env (frame (w_items w p)) w))\<lparr>prot_reply := None\<rparr>))"

definition process_request :: "'c waps_env \<Rightarrow> nat \<Rightarrow> 'c waps \<Rightarrow> bool \<times> 'c waps" where
  "process_request env item w =
     (let func = sfunc (frame (w_items w item));
          run = (\<lambda>s. case sap_handle env s (w_items w item) of (res, it) \<Rightarrow> (res, set_item item it w))
      in if WapsFunc_isDsapRequest func then run DSAP
         else if WapsFunc_isMsapRequest func then run MSAP
         else if WapsFunc_isCsapRequest func then run CSAP
         else (False, w))"

text \<open>One run, which no interrupt of the serial line divides.\<close>

definition Waps_exec :: "'c waps_env \<Rightarrow> 'c waps \<Rightarrow> (u32 \<times> 'c waps) option" where
  "Waps_exec env w =
     (case q_pop_front REQUEST (w\<lparr>w_signal := False\<rparr>) of (item, w) \<Rightarrow>
        do {
          w \<leftarrow> (case item of
                  None \<Rightarrow> Some w
                | Some i \<Rightarrow>
                    (case Waps_protUart_processResponse env i w of
                       (True, w) \<Rightarrow> Some (Waps_itemFree i w)
                     | (False, w) \<Rightarrow>
                         if coarse_now env - w_time (w_items w i) > 57 then Some (Waps_itemFree i w)
                         else (case process_request env i w of
                                 (True, w) \<Rightarrow> add_reply i w
                               | (False, w) \<Rightarrow> Some (Waps_itemFree i w))));
          let w = Waps_protUart_sendReply env w;
          Some (if frames_pending w then 0 else 0xFFFFFFFF, w)
        })"

subsection \<open>Indications\<close>

text \<open>\<open>data_cb\<close> and \<open>Waps_packetSent\<close>: \<open>build\<close> is what \<open>Dsap_packetReceived\<close>
  and \<open>Dsap_packetSent\<close> write in the item.  The result tells whether the packet was
  handled.\<close>

definition new_indication :: "('c witem \<Rightarrow> 'c witem) \<Rightarrow> 'c waps \<Rightarrow> (bool \<times> 'c waps) option" where
  "new_indication build w =
     (case Waps_itemReserve WAPS_ITEM_TYPE_INDICATION w of
        (None, w) \<Rightarrow> Some (False, w)
      | (Some i, w) \<Rightarrow>
          do { w \<leftarrow> add_indication (Some i) (set_item i (build (w_items w i)) w); Some (True, w) })"

text \<open>\<open>find_indication\<close>: the search along the queue, \<open>None\<close> of the outer option when it
  does not end.\<close>

partial_function (option) find_ind_loop :: "(nat \<Rightarrow> bool) \<Rightarrow> nat links \<Rightarrow> nat option \<Rightarrow> nat option option" where
  "find_ind_loop match lk item =
     (case item of
        None \<Rightarrow> Some None
      | Some i \<Rightarrow> if match i then Some (Some i) else find_ind_loop match lk (sl_list_next lk i))"

definition find_indication :: "u8 \<Rightarrow> 'c waps \<Rightarrow> nat option option" where
  "find_indication fid w =
     find_ind_loop (\<lambda>i. sfunc (frame (w_items w i)) = fid) (w_links w) (sl_next (w_heads w IND))"

text \<open>\<open>app_config_received_cb\<close> (function 0x3F) and \<open>on_scanned_nbors_cb\<close> (0x22): an
  indication that is still queued is written again instead of queueing another.\<close>

definition renew_indication :: "u8 \<Rightarrow> ('c witem \<Rightarrow> 'c witem) \<Rightarrow> 'c waps \<Rightarrow> 'c waps option" where
  "renew_indication fid build w =
     do {
       old \<leftarrow> find_indication fid w;
       case old of
         Some i \<Rightarrow> Some (set_item i (build (w_items w i)) w)
       | None \<Rightarrow>
           (case Waps_itemReserve WAPS_ITEM_TYPE_INDICATION w of
              (None, w) \<Rightarrow> add_indication None w
            | (Some i, w) \<Rightarrow> add_indication (Some i) (set_item i (build (w_items w i)) w))
     }"

text \<open>The state part of \<open>Waps_init\<close>: queues and pool, and the first indication, of the
  stack's state.\<close>

definition Waps_init :: "nat \<Rightarrow> ('c witem \<Rightarrow> 'c witem) \<Rightarrow> 'c waps \<Rightarrow> 'c waps option" where
  "Waps_init n build w =
     do {
       let w = w\<lparr>w_heads := (w_heads w)(REQUEST := sl_list_init, IND := sl_list_init, REPLY := sl_list_init)\<rparr>;
       let w = Waps_itemInit n 50 w;
       (_, w) \<leftarrow> new_indication build w;
       Some (w\<lparr>w_signal := False\<rparr>)
     }"

subsection \<open>Who owns an item\<close>

definition opt_mset :: "'a option \<Rightarrow> 'a multiset" where
  "opt_mset x = (case x of None \<Rightarrow> {#} | Some y \<Rightarrow> {#y#})"

definition queued :: "(qid \<Rightarrow> nat list) \<Rightarrow> nat multiset" where
  "queued L = mset (L FREE) + mset (L IND) + mset (L REPLY) + mset (L REQUEST)"

text \<open>\<open>L\<close> are the contents of the lists, \<open>held\<close> the items a running operation works
  on; together with the two current frames they are all items of the pool, each once.\<close>

definition winv :: "nat \<Rightarrow> 'c waps \<Rightarrow> (qid \<Rightarrow> nat list) \<Rightarrow> nat list \<Rightarrow> bool" where
  "winv n w L held \<longleftrightarrow> (\<forall>q. sl_repr (get_queue q w) (L q)) \<and>
     queued L + opt_mset (prot_reply w) + opt_mset (prot_indication w) + mset held = mset_set {0..<n} \<and> n < 2 ^ 32"

lemma opt_mset_simps [simp]: "opt_mset None = {#}" "opt_mset (Some x) = {#x#}"
  by (simp_all add: opt_mset_def)

lemma queued_push: "queued (L(q := e # xs)) = add_mset e (queued (L(q := xs)))"
  by (cases q) (simp_all add: queued_def)

lemma queued_push_back: "queued (L(q := xs @ [e])) = add_mset e (queued (L(q := xs)))"
  by (cases q) (simp_all add: queued_def)

lemma in_queued: "x \<in># queued L \<longleftrightarrow> (\<exists>q. x \<in> set (L q))"
proof
  show "x \<in># queued L \<Longrightarrow> \<exists>q. x \<in> set (L q)" by (auto simp: queued_def)
next
  assume "\<exists>q. x \<in> set (L q)"
  then obtain q where "x \<in> set (L q)" ..
  then show "x \<in># queued L" by (cases q) (auto simp: queued_def)
qed

lemma queued_split: "q \<noteq> r \<Longrightarrow> mset (L q) + mset (L r) \<subseteq># queued L"
  by (cases q; cases r) (auto simp: queued_def subseteq_mset_def)

lemma mset_set_disjoint:
  assumes "A + B \<subseteq># mset_set S" "x \<in># A"
  shows "x \<notin># B"
proof
  assume "x \<in># B"
  with assms(2) have "2 \<le> count (A + B) x" by (simp add: Suc_le_eq count_greater_zero_iff [symmetric] del: count_greater_zero_iff)
  also have "\<dots> \<le> count (mset_set S) x" using assms(1) by (rule mset_subset_eq_count)
  also have "\<dots> \<le> 1" by (simp add: count_mset_set')
  finally show False by simp
qed

lemma winv_disjoint:
  assumes w: "winv n w L held" and "q \<noteq> r"
  shows "set (L q) \<inter> set (L r) = {}"
proof -
  have "queued L \<subseteq># mset_set {0..<n}"
    using w unfolding winv_def by (metis (no_types, opaque_lifting) add.assoc mset_subset_eq_add_left)
  then have "mset (L q) + mset (L r) \<subseteq># mset_set {0..<n}"
    using queued_split [OF assms(2)] subset_mset.order_trans by blast
  from mset_set_disjoint [OF this] show ?thesis by auto
qed

lemma winv_held: "winv n w L (e # held) \<Longrightarrow> e \<notin> set (L q)"
proof
  assume w: "winv n w L (e # held)" and e: "e \<in> set (L q)"
  have "queued L + {#e#} \<subseteq># mset_set {0..<n}"
  proof -
    have "queued L + {#e#} + (opt_mset (prot_reply w) + opt_mset (prot_indication w) + mset held) = mset_set {0..<n}"
      using w by (simp add: winv_def ac_simps)
    then show ?thesis by (metis mset_subset_eq_add_left)
  qed
  from mset_set_disjoint [OF this, of e] e show False by (auto simp: in_queued)
qed

lemma get_set_queue: "get_queue r (set_queue q s w) = (if r = q then s else (w_heads w r, snd s))"
  by (simp add: get_queue_def set_queue_def)

lemma set_queue_prot [simp]:
  "prot_reply (set_queue q s w) = prot_reply w" "prot_indication (set_queue q s w) = prot_indication w"
  "w_items (set_queue q s w) = w_items w" "prot_seq (set_queue q s w) = prot_seq w" "w_irq (set_queue q s w) = w_irq w"
  "w_sent (set_queue q s w) = w_sent w" "r \<noteq> q \<Longrightarrow> w_heads (set_queue q s w) r = w_heads w r"
  by (simp_all add: set_queue_def)

text \<open>An operation on one list keeps the other lists when it changes only links of its own
  elements and of the element it moves.\<close>

lemma winv_set_queue:
  assumes w: "winv n w L held" and s: "sl_repr s xs"
    and frame: "links_frame A (w_links w) (snd s)" "\<And>r. r \<noteq> q \<Longrightarrow> set (L r) \<inter> A = {}"
    and own: "queued (L(q := xs)) + mset held' = queued L + mset held"
  shows "winv n (set_queue q s w) (L(q := xs)) held'"
proof -
  have "sl_repr (get_queue r (set_queue q s w)) ((L(q := xs)) r)" for r
  proof (cases "r = q")
    case False
    then have "sl_repr (w_heads w r, w_links w) (L r)" using w by (simp add: winv_def get_queue_def)
    from sl_repr_frame [OF this frame(1)] frame(2) [OF False] False show ?thesis by (simp add: get_set_queue)
  qed (use s in \<open>simp add: get_set_queue\<close>)
  moreover have "queued (L(q := xs)) + a + b + mset held' = queued L + a + b + mset held" for a b
    using own by (metis add.assoc add.commute)
  ultimately show ?thesis using w unfolding winv_def by (simp only: set_queue_prot) blast
qed

lemma push_back_inv:
  assumes w: "winv n w L (e # held)"
  shows "\<exists>s. q_push_back q e w = Some (set_queue q s w) \<and> winv n (set_queue q s w) (L(q := L q @ [e])) held"
proof -
  have r: "sl_repr (get_queue q w) (L q)" using w by (simp add: winv_def)
  obtain s where s: "sl_list_push_back (get_queue q w) e = Some s" "sl_repr s (L q @ [e])"
    "links_frame (insert e (set (L q))) (w_links w) (snd s)"
    using sl_list_push_back_repr [OF r winv_held [OF w]] by (auto simp: get_queue_def)
  have "winv n (set_queue q s w) (L(q := L q @ [e])) held"
  proof (rule winv_set_queue [OF w s(2,3)])
    show "set (L r) \<inter> insert e (set (L q)) = {}" if "r \<noteq> q" for r
      using winv_disjoint [OF w that] winv_held [OF w, of r] by auto
    show "queued (L(q := L q @ [e])) + mset held = queued L + mset (e # held)" by (simp add: queued_push_back)
  qed
  with s(1) show ?thesis by (intro exI [of _ s]) (simp add: q_push_back_def)
qed

lemma push_front_inv:
  assumes w: "winv n w L (e # held)"
  shows "winv n (q_push_front q e w) (L(q := e # L q)) held"
proof -
  have r: "sl_repr (get_queue q w) (L q)" using w by (simp add: winv_def)
  note s = sl_list_push_front_repr [OF r winv_held [OF w]]
  show ?thesis unfolding q_push_front_def
  proof (rule winv_set_queue [OF w])
    show "links_frame {e} (w_links w) (snd (sl_list_push_front (get_queue q w) e))" using s by (simp add: get_queue_def)
    show "set (L r) \<inter> {e} = {}" for r using winv_held [OF w, of r] by auto
    show "queued (L(q := e # L q)) + mset held = queued L + mset (e # held)" by (simp add: queued_push)
  qed (use s in blast)
qed

lemma pop_front_inv:
  assumes w: "winv n w L held"
  shows "case L q of
      [] \<Rightarrow> q_pop_front q w = (None, w)
    | x # xs \<Rightarrow> \<exists>s. q_pop_front q w = (Some x, set_queue q s w) \<and> winv n (set_queue q s w) (L(q := xs)) (x # held)"
proof (cases "L q")
  case Nil
  then have "sl_repr (get_queue q w) []" using w unfolding winv_def by metis
  from sl.pop_front_Nil [OF this] Nil show ?thesis by (simp add: q_pop_front_def set_queue_def get_queue_def)
next
  case (Cons x xs)
  then have "sl_repr (get_queue q w) (x # xs)" using w unfolding winv_def by metis
  then obtain s where s: "sl_list_pop_front (get_queue q w) = (Some x, s)" "sl_repr s xs" "snd s = (w_links w)(x := None)"
    using sl_list_pop_front_repr [of "get_queue q w" "x # xs"] by (auto simp: get_queue_def)
  have "winv n (set_queue q s w) (L(q := xs)) (x # held)"
  proof (rule winv_set_queue [OF w s(2)])
    show "links_frame {x} (w_links w) (snd s)" using s(3) by (simp add: links_frame_def)
    show "set (L r) \<inter> {x} = {}" if "r \<noteq> q" for r using winv_disjoint [OF w that] Cons by auto
    show "queued (L(q := xs)) + mset (x # held) = queued L + mset held"
      using queued_push [of L q x xs] Cons by (metis add_mset_add_single fun_upd_triv mset.simps(2) union_mset_add_mset_left union_mset_add_mset_right)
  qed
  with s(1) Cons show ?thesis unfolding q_pop_front_def by (simp only: list.case prod.case) blast
qed

lemma winv_fields [simp]:
  "winv n (w\<lparr>w_items := a\<rparr>) L held = winv n w L held"
  "winv n (w\<lparr>w_irq := b\<rparr>) L held = winv n w L held"
  "winv n (w\<lparr>w_signal := b\<rparr>) L held = winv n w L held"
  "winv n (w\<lparr>w_wakeups := k\<rparr>) L held = winv n w L held"
  "winv n (w\<lparr>w_threshold_calls := k\<rparr>) L held = winv n w L held"
  "winv n (w\<lparr>prot_seq := c\<rparr>) L held = winv n w L held"
  "winv n (w\<lparr>w_sent := d, w_post := e\<rparr>) L held = winv n w L held"
  by (simp_all add: winv_def get_queue_def)

lemma winv_set_item [simp]: "winv n (set_item i it w) L held = winv n w L held"
  by (simp add: set_item_def)

lemma winv_updateIrq [simp]: "winv n (Waps_prot_updateIrqPin w) L held = winv n w L held"
  by (simp add: Waps_prot_updateIrqPin_def)

lemma winv_take_reply: "prot_reply w = Some p \<Longrightarrow> winv n w L held \<Longrightarrow> winv n (w\<lparr>prot_reply := None\<rparr>) L (p # held)"
  by (simp add: winv_def get_queue_def)

lemma winv_put_reply: "prot_reply w = None \<Longrightarrow> winv n w L (p # held) \<Longrightarrow> winv n (w\<lparr>prot_reply := Some p\<rparr>) L held"
  by (simp add: winv_def get_queue_def)

lemma winv_take_ind: "prot_indication w = Some p \<Longrightarrow> winv n w L held \<Longrightarrow> winv n (w\<lparr>prot_indication := None\<rparr>) L (p # held)"
  by (simp add: winv_def get_queue_def)

lemma winv_put_ind: "prot_indication w = None \<Longrightarrow> winv n w L (p # held) \<Longrightarrow> winv n (w\<lparr>prot_indication := Some p\<rparr>) L held"
  by (simp add: winv_def get_queue_def)

lemma winv_length: "winv n w L held \<Longrightarrow> length (L q) \<le> n"
proof -
  assume w: "winv n w L held"
  have "mset (L q) \<subseteq># queued L" by (cases q) (auto simp: queued_def subseteq_mset_def)
  moreover have "queued L \<subseteq># mset_set {0..<n}"
    using w unfolding winv_def by (metis (no_types, opaque_lifting) add.assoc mset_subset_eq_add_left)
  ultimately have "mset (L q) \<subseteq># mset_set {0..<n}" by (rule subset_mset.order_trans)
  from size_mset_mono [OF this] show ?thesis by simp
qed

lemma q_size_unat: "winv n w L held \<Longrightarrow> unat (q_size q w) = length (L q)"
proof -
  assume w: "winv n w L held"
  then have "q_size q w = of_nat (length (L q))" by (auto simp: winv_def q_size_def get_queue_def sl_repr_def)
  moreover have "length (L q) < 2 ^ 32" using winv_length [OF w, of q] w by (simp add: winv_def)
  ultimately show ?thesis by (simp add: unat_of_nat_small)
qed

lemma q_size_zero: "winv n w L held \<Longrightarrow> q_size q w = 0 \<longleftrightarrow> L q = []"
  using q_size_unat [of n w L held q] by (metis length_0_conv unat_0 unat_eq_0)

definition irq_ok :: "'c waps \<Rightarrow> bool" where
  "irq_ok w \<longleftrightarrow> (w_irq w \<longleftrightarrow> q_size IND w \<noteq> 0 \<or> prot_indication w \<noteq> None)"

lemma irq_ok_update [simp]: "irq_ok (Waps_prot_updateIrqPin w)"
  by (simp add: irq_ok_def Waps_prot_updateIrqPin_def q_size_def)

lemma irq_ok_other [simp]: "q \<noteq> IND \<Longrightarrow> irq_ok (set_queue q s w) = irq_ok w"
  by (simp add: irq_ok_def q_size_def)

lemma irq_ok_fields [simp]:
  "irq_ok (w\<lparr>w_items := a\<rparr>) = irq_ok w" "irq_ok (w\<lparr>w_signal := b\<rparr>) = irq_ok w"
  "irq_ok (w\<lparr>w_wakeups := k\<rparr>) = irq_ok w" "irq_ok (w\<lparr>w_threshold_calls := k\<rparr>) = irq_ok w"
  "irq_ok (w\<lparr>w_sent := d, w_post := e\<rparr>) = irq_ok w" "irq_ok (w\<lparr>prot_reply := p\<rparr>) = irq_ok w"
  "irq_ok (set_item i it w) = irq_ok w"
  by (simp_all add: irq_ok_def q_size_def set_item_def)

lemma reserve_inv:
  assumes w: "winv n w L held"
  shows "Waps_itemReserve type w = (None, w) \<and> (L FREE = [] \<or> type = WAPS_ITEM_TYPE_INDICATION \<and> length (L FREE) \<le> 2) \<or>
    (\<exists>i s. Waps_itemReserve type w = (Some i, set_queue FREE s w) \<and> L FREE = i # tl (L FREE) \<and>
       winv n (set_queue FREE s w) (L(FREE := tl (L FREE))) (i # held) \<and>
       (type = WAPS_ITEM_TYPE_INDICATION \<longrightarrow> 2 < length (L FREE)))"
proof (cases "type = WAPS_ITEM_TYPE_REQUEST \<or> q_size FREE w > 2")
  case True
  show ?thesis
  proof (cases "L FREE")
    case Nil
    then show ?thesis using True pop_front_inv [OF w, of FREE] by (simp add: Waps_itemReserve_def)
  next
    case (Cons i xs)
    then obtain s where "q_pop_front FREE w = (Some i, set_queue FREE s w)"
      "winv n (set_queue FREE s w) (L(FREE := xs)) (i # held)"
      using pop_front_inv [OF w, of FREE] by auto
    moreover have "q_size FREE w > 2 \<longleftrightarrow> 2 < length (L FREE)"
      using q_size_unat [OF w, of FREE] by (simp add: word_less_nat_alt)
    ultimately show ?thesis using True Cons
      by (intro disjI2 exI [of _ i] exI [of _ s]) (auto simp: Waps_itemReserve_def)
  qed
next
  case False
  moreover have "q_size FREE w > 2 \<longleftrightarrow> 2 < length (L FREE)"
    using q_size_unat [OF w, of FREE] by (simp add: word_less_nat_alt)
  ultimately show ?thesis by (cases type) (auto simp: Waps_itemReserve_def)
qed

lemma free_inv:
  assumes "winv n w L (i # held)"
  shows "winv n (Waps_itemFree i w) (L(FREE := i # L FREE)) held"
    and "irq_ok (Waps_itemFree i w) = irq_ok w"
    and "prot_indication (Waps_itemFree i w) = prot_indication w" "prot_reply (Waps_itemFree i w) = prot_reply w"
    and "w_items (Waps_itemFree i w) = w_items w" "prot_seq (Waps_itemFree i w) = prot_seq w"
    and "w_sent (Waps_itemFree i w) = w_sent w"
  using push_front_inv [OF assms, of FREE]
  by (simp_all add: Waps_itemFree_def Let_def q_push_front_def)

lemma send_item_frame [simp]:
  "w_heads (snd (prot_send_item env i w)) = w_heads w" "w_links (snd (prot_send_item env i w)) = w_links w"
  "prot_reply (snd (prot_send_item env i w)) = prot_reply w" "prot_indication (snd (prot_send_item env i w)) = prot_indication w"
  "prot_seq (snd (prot_send_item env i w)) = prot_seq w" "w_irq (snd (prot_send_item env i w)) = w_irq w"
  by (simp_all add: prot_send_item_def set_item_def Let_def split: option.split)

lemma winv_send_item [simp]: "winv n (snd (prot_send_item env i w)) L held = winv n w L held"
  by (simp add: winv_def get_queue_def)

lemma irq_ok_send_item [simp]: "irq_ok (snd (prot_send_item env i w)) = irq_ok w"
  by (simp add: irq_ok_def q_size_def)

lemma next_indication_inv:
  assumes w: "winv n w L held"
  defines "v \<equiv> if prot_indication w = None
      then case q_pop_front IND w of (p, w) \<Rightarrow> w\<lparr>prot_indication := p\<rparr> else w"
  shows "\<exists>L'. winv n v L' held \<and> prot_seq v = prot_seq w \<and> prot_reply v = prot_reply w \<and> w_items v = w_items w \<and>
     (prot_indication v = None \<longleftrightarrow> prot_indication w = None \<and> L IND = [])"
proof (cases "prot_indication w")
  case (Some p)
  then show ?thesis using w by (auto simp: v_def)
next
  case None
  show ?thesis
  proof (cases "L IND")
    case Nil
    then have "v = w\<lparr>prot_indication := None\<rparr>" using pop_front_inv [OF w, of IND] None by (simp add: v_def)
    moreover have "w\<lparr>prot_indication := None\<rparr> = w" using None by simp
    ultimately show ?thesis using w None Nil by auto
  next
    case (Cons x xs)
    then obtain s where s: "q_pop_front IND w = (Some x, set_queue IND s w)"
      "winv n (set_queue IND s w) (L(IND := xs)) (x # held)"
      using pop_front_inv [OF w, of IND] by auto
    then have v: "v = set_queue IND s w\<lparr>prot_indication := Some x\<rparr>" using None by (simp add: v_def)
    have "winv n v (L(IND := xs)) held" unfolding v using s(2) None by (intro winv_put_ind) simp_all
    then show ?thesis using v Cons by auto
  qed
qed

lemma send_indication_inv:
  assumes w: "winv n w L held"
  shows "\<exists>L'. winv n (send_indication env f w) L' held" "irq_ok (send_indication env f w)"
    "prot_reply (send_indication env f w) = prot_reply w" "prot_seq (send_indication env f w) = prot_seq w"
proof -
  define v where "v = (if prot_indication w = None
      then case q_pop_front IND w of (p, w) \<Rightarrow> w\<lparr>prot_indication := p\<rparr> else w)"
  define att where "att = (case prot_indication v of
               None \<Rightarrow> v
             | Some p \<Rightarrow>
                 (let it = w_items v p;
                      it = it\<lparr>frame := (frame it)\<lparr>sfid := prot_seq v,
                             spld := (spld (frame it))[0 := queued_indications v]\<rparr>\<rparr>;
                      (sent, w) = prot_send_item env p (set_item p it v)
                  in if \<not> sent then (q_push_front IND p w)\<lparr>prot_indication := None\<rparr> else w))"
  have eq: "send_indication env f w = Waps_prot_updateIrqPin
      (if sfunc f \<noteq> 0x84 \<and> \<not> (WapsFunc_isResponse (sfunc f) \<and> spld f ! 0 = 1) then w else att)"
    unfolding send_indication_def att_def v_def Let_def by (rule refl)
  obtain L1 where v: "winv n v L1 held" "prot_seq v = prot_seq w" "prot_reply v = prot_reply w"
    using next_indication_inv [OF w] unfolding v_def by blast
  have "(\<exists>L'. winv n att L' held) \<and> prot_reply att = prot_reply w \<and> prot_seq att = prot_seq w"
  proof (cases "prot_indication v")
    case None
    then show ?thesis using v by (auto simp: att_def)
  next
    case (Some p)
    define it where "it = (w_items v p)\<lparr>frame := (frame (w_items v p))\<lparr>sfid := prot_seq v,
        spld := (spld (frame (w_items v p)))[0 := queued_indications v]\<rparr>\<rparr>"
    obtain sent w2 where s: "prot_send_item env p (set_item p it v) = (sent, w2)" by fastforce
    then have att: "att = (if \<not> sent then (q_push_front IND p w2)\<lparr>prot_indication := None\<rparr> else w2)"
      unfolding att_def Some by (simp add: it_def Let_def)
    have "w2 = snd (prot_send_item env p (set_item p it v))" using s by simp
    then have w2: "winv n w2 L1 held" "prot_indication w2 = Some p" "prot_reply w2 = prot_reply w" "prot_seq w2 = prot_seq w"
      using v Some by (simp_all add: set_item_def)
    note winv_take_ind [OF w2(2,1)]
    moreover have "(q_push_front IND p w2)\<lparr>prot_indication := None\<rparr> = q_push_front IND p (w2\<lparr>prot_indication := None\<rparr>)"
      by (simp add: q_push_front_def set_queue_def get_queue_def)
    ultimately have "winv n ((q_push_front IND p w2)\<lparr>prot_indication := None\<rparr>) (L1(IND := p # L1 IND)) held"
      using push_front_inv by metis
    then show ?thesis using w2 unfolding att by (auto simp: q_push_front_def)
  qed
  then show "\<exists>L'. winv n (send_indication env f w) L' held" "irq_ok (send_indication env f w)"
    "prot_reply (send_indication env f w) = prot_reply w" "prot_seq (send_indication env f w) = prot_seq w"
    unfolding eq using w by (auto simp: Waps_prot_updateIrqPin_def [of w] Waps_prot_updateIrqPin_def [of att])
qed

lemma processResponse_inv:
  assumes w: "winv n w L held" and irq: "irq_ok w"
  shows "(\<exists>L'. winv n (snd (Waps_protUart_processResponse env i w)) L' held) \<and>
     irq_ok (snd (Waps_protUart_processResponse env i w)) \<and> prot_reply (snd (Waps_protUart_processResponse env i w)) = prot_reply w"
proof (cases "prot_indication w")
  case None
  then show ?thesis using w irq by (auto simp: Waps_protUart_processResponse_def Let_def)
next
  case (Some p)
  note f = free_inv [OF winv_take_ind [OF Some w]]
  let ?u = "(Waps_itemFree p w)\<lparr>prot_indication := None, prot_seq := prot_seq w + 1\<rparr>"
  have "?u = (Waps_itemFree p (w\<lparr>prot_indication := None\<rparr>))\<lparr>prot_seq := prot_seq w + 1\<rparr>"
    by (simp add: Waps_itemFree_def q_push_front_def set_queue_def get_queue_def q_size_def Let_def)
  then have u: "winv n ?u (L(FREE := p # L FREE)) held" "prot_reply ?u = prot_reply w" using f(1,4) by simp_all
  show ?thesis
    using send_indication_inv [OF u(1), of env "frame (w_items w i)"] send_indication_inv [OF w, of env "frame (w_items w i)"] u(2) w irq Some
    by (auto simp: Waps_protUart_processResponse_def Let_def)
qed

lemma sendReply_inv:
  assumes w: "winv n w L held" and irq: "irq_ok w"
  shows "(\<exists>L'. winv n (Waps_protUart_sendReply env w) L' held) \<and> irq_ok (Waps_protUart_sendReply env w)"
proof -
  define v where "v = (if prot_reply w = None
      then case q_pop_front REPLY w of (p, w) \<Rightarrow> w\<lparr>prot_reply := p\<rparr> else w)"
  have "\<exists>L1. winv n v L1 held \<and> irq_ok v"
  proof (cases "prot_reply w = None")
    case True
    show ?thesis
    proof (cases "L REPLY")
      case Nil
      then have "v = w\<lparr>prot_reply := None\<rparr>" using pop_front_inv [OF w, of REPLY] True by (simp add: v_def)
      moreover have "w\<lparr>prot_reply := None\<rparr> = w" using True by simp
      ultimately show ?thesis using w irq by auto
    next
      case (Cons x xs)
      then obtain s where s: "q_pop_front REPLY w = (Some x, set_queue REPLY s w)"
        "winv n (set_queue REPLY s w) (L(REPLY := xs)) (x # held)"
        using pop_front_inv [OF w, of REPLY] by auto
      then have v: "v = set_queue REPLY s w\<lparr>prot_reply := Some x\<rparr>" using True by (simp add: v_def)
      have "winv n v (L(REPLY := xs)) held" unfolding v using s(2) True by (intro winv_put_reply) simp_all
      then show ?thesis using v irq by auto
    qed
  qed (use w irq in \<open>auto simp: v_def\<close>)
  then obtain L1 where v: "winv n v L1 held" "irq_ok v" by blast
  show ?thesis
  proof (cases "prot_reply v")
    case None
    then have "Waps_protUart_sendReply env w = v"
      unfolding Waps_protUart_sendReply_def v_def [symmetric] by simp
    then show ?thesis using v by auto
  next
    case (Some p)
    obtain sent w2 where s: "prot_send_item env p v = (sent, w2)" by fastforce
    then have "w2 = snd (prot_send_item env p v)" by simp
    then have w2: "winv n w2 L1 held" "irq_ok w2" "prot_reply w2 = Some p"
      using v Some by simp_all
    let ?i = "send_indication env (frame (w_items w2 p)) w2"
    have eq: "Waps_protUart_sendReply env w = (if sent then (Waps_itemFree p ?i)\<lparr>prot_reply := None\<rparr> else w2)"
      unfolding Waps_protUart_sendReply_def v_def [symmetric] using s Some by simp
    obtain L2 where i: "winv n ?i L2 held" "irq_ok ?i" "prot_reply ?i = Some p"
      using send_indication_inv [OF w2(1)] w2(3) by metis
    note f = free_inv(1,2) [OF winv_take_reply [OF i(3,1)]]
    have "(Waps_itemFree p ?i)\<lparr>prot_reply := None\<rparr> = Waps_itemFree p (?i\<lparr>prot_reply := None\<rparr>)"
      by (simp add: Waps_itemFree_def q_push_front_def set_queue_def get_queue_def q_size_def Let_def)
    then show ?thesis unfolding eq using f w2 i(2) by auto
  qed
qed

lemma process_request_inv:
  "winv n (snd (process_request env i w)) L held = winv n w L held" "irq_ok (snd (process_request env i w)) = irq_ok w"
  by (auto simp: process_request_def Let_def split: prod.split)

lemma exec_inv:
  assumes w: "winv n w L held" and irq: "irq_ok w"
  shows "\<exists>r w'. Waps_exec env w = Some (r, w') \<and> (\<exists>L'. winv n w' L' held) \<and> irq_ok w' \<and>
     (frames_pending w' \<longrightarrow> r = 0)"
proof -
  let ?w = "w\<lparr>w_signal := False\<rparr>"
  have w0: "winv n ?w L held" "irq_ok ?w" using w irq by simp_all
  have fin: "\<exists>r w'. Some (if frames_pending (Waps_protUart_sendReply env v) then 0 else 0xFFFFFFFF, Waps_protUart_sendReply env v) = Some (r :: u32, w') \<and>
      (\<exists>L'. winv n w' L' held) \<and> irq_ok w' \<and> (frames_pending w' \<longrightarrow> r = 0)"
    if "winv n v L1 held" "irq_ok v" for v L1
    using sendReply_inv [OF that, of env] by simp
  show ?thesis
  proof (cases "L REQUEST")
    case Nil
    then have "q_pop_front REQUEST ?w = (None, ?w)" using pop_front_inv [OF w0(1), of REQUEST] by simp
    then show ?thesis using fin [OF w0] by (simp add: Waps_exec_def Let_def)
  next
    case (Cons i xs)
    then obtain s where s: "q_pop_front REQUEST ?w = (Some i, set_queue REQUEST s ?w)"
      "winv n (set_queue REQUEST s ?w) (L(REQUEST := xs)) (i # held)"
      using pop_front_inv [OF w0(1), of REQUEST] by auto
    have irq1: "irq_ok (set_queue REQUEST s ?w)" using w0(2) by simp
    obtain res w1 where p: "Waps_protUart_processResponse env i (set_queue REQUEST s ?w) = (res, w1)" by fastforce
    then obtain L1 where w1: "winv n w1 L1 (i # held)" "irq_ok w1"
      using processResponse_inv [OF s(2) irq1, of env i] by auto
    obtain ok w2 where r: "process_request env i w1 = (ok, w2)" by fastforce
    then have "w2 = snd (process_request env i w1)" by simp
    then have w2: "winv n w2 L1 (i # held)" "irq_ok w2" using w1 by (simp_all add: process_request_inv)
    obtain t where t: "add_reply i w2 = Some (set_queue REPLY t w2)"
      "winv n (set_queue REPLY t w2) (L1(REPLY := L1 REPLY @ [i])) held"
      using push_back_inv [OF w2(1), of REPLY] by (auto simp: add_reply_def)
    note f1 = free_inv(1,2) [OF w1(1)] and f2 = free_inv(1,2) [OF w2(1)]
    have "irq_ok (set_queue REPLY t w2)" using w2(2) by simp
    note fins = fin [OF f1(1)] fin [OF f2(1)] fin [OF t(2) this]
    show ?thesis
      using fins f1(2) f2(2) w1(2) w2(2) t(1) s(1) p r by (auto simp: Waps_exec_def Let_def split: bool.split)
  qed
qed

lemma add_indication_inv:
  assumes w: "winv n w L (i # held)"
  shows "\<exists>w'. add_indication (Some i) w = Some w' \<and> winv n w' (L(IND := L IND @ [i])) held \<and> irq_ok w'"
  using push_back_inv [OF w, of IND] by (auto simp: add_indication_def)

lemma wakeup_inv [simp]:
  "winv n (wakeup_waps_exec w) L held = winv n w L held" "irq_ok (wakeup_waps_exec w) = irq_ok w"
  by (simp_all add: wakeup_waps_exec_def Let_def)

lemma frame_received:
  assumes w: "winv n w L held" and free: "L FREE = i # free" and ok: "3 \<le> length data" "unat (data ! 2) = length data - 3"
  shows "\<exists>w'. frame_receive env data w = Some (True, w') \<and> winv n w' (L(FREE := free, REQUEST := L REQUEST @ [i])) held \<and>
     irq_ok w' = irq_ok w \<and> w_sent w' = w_sent w \<and> prot_reply w' = prot_reply w \<and>
     w_items w' i = (w_items w i)\<lparr>w_time := coarse_now env, pre_cb := None, post_cb := None,
        frame := frame_of_bytes data (frame (w_items w i))\<rparr>"
proof -
  obtain s where r: "Waps_itemReserve WAPS_ITEM_TYPE_REQUEST w = (Some i, set_queue FREE s w)"
    "winv n (set_queue FREE s w) (L(FREE := free)) (i # held)"
    using reserve_inv [OF w, of WAPS_ITEM_TYPE_REQUEST] free by auto
  let ?it = "(w_items w i)\<lparr>w_time := coarse_now env, pre_cb := None, post_cb := None,
      frame := frame_of_bytes data (frame (w_items w i))\<rparr>"
  have "winv n (set_item i ?it (set_queue FREE s w)) (L(FREE := free)) (i # held)" using r(2) by simp
  from push_back_inv [OF this, of REQUEST] obtain t where
    t: "q_push_back REQUEST i (set_item i ?it (set_queue FREE s w)) = Some (set_queue REQUEST t (set_item i ?it (set_queue FREE s w)))"
    "winv n (set_queue REQUEST t (set_item i ?it (set_queue FREE s w))) (L(FREE := free, REQUEST := L REQUEST @ [i])) held"
    by auto
  let ?w' = "wakeup_waps_exec (set_queue REQUEST t (set_item i ?it (set_queue FREE s w)))"
  have "frame_receive env data w = Some (True, ?w')"
    using ok r(1) t(1) by (simp add: frame_receive_def receive_request_def Let_def)
  moreover have "w_items ?w' i = ?it" "w_sent ?w' = w_sent w" "prot_reply ?w' = prot_reply w"
    by (simp_all add: wakeup_waps_exec_def Let_def set_item_def set_queue_def)
  ultimately show ?thesis using t(2) by (intro exI [of _ ?w'] conjI) simp_all
qed

lemma frame_bytes_of_bytes:
  assumes "3 \<le> length data"
  shows "frame_bytes (frame_of_bytes data f) = data @ drop (length data - 3) (spld f)"
proof -
  obtain a b c rest where "data = a # b # c # rest" using assms by (auto simp: Suc_le_length_iff numeral_3_eq_3)
  then show ?thesis by (simp add: frame_bytes_def frame_of_bytes_def numeral_2_eq_2 numeral_3_eq_3)
qed

lemma frame_receive_inv:
  assumes w: "winv n w L held" and irq: "irq_ok w"
  shows "\<exists>r w' L'. frame_receive env data w = Some (r, w') \<and> winv n w' L' held \<and> irq_ok w' \<and>
     (r \<longleftrightarrow> 3 \<le> length data \<and> unat (data ! 2) = length data - 3 \<and> L FREE \<noteq> []) \<and>
     (if r then L' REQUEST = L REQUEST @ [hd (L FREE)] \<and> frame_bytes (frame (w_items w' (hd (L FREE)))) = data @ drop (length data - 3) (spld (frame (w_items w (hd (L FREE)))))
      else w' = w)"
proof (cases "3 \<le> length data \<and> unat (data ! 2) = length data - 3 \<and> L FREE \<noteq> []")
  case ok: True
  then obtain i free where free: "L FREE = i # free" by (cases "L FREE") auto
  with frame_received [OF w free, of data env] ok obtain w' where w': "frame_receive env data w = Some (True, w')"
    "winv n w' (L(FREE := free, REQUEST := L REQUEST @ [i])) held" "irq_ok w' = irq_ok w"
    "frame (w_items w' i) = frame_of_bytes data (frame (w_items w i))" by auto
  show ?thesis
    by (rule exI [of _ True], rule exI [of _ w'], rule exI [of _ "L(FREE := free, REQUEST := L REQUEST @ [i])"])
      (use w' ok irq free frame_bytes_of_bytes [of data "frame (w_items w i)"] in simp)
next
  case False
  have "Waps_itemReserve WAPS_ITEM_TYPE_REQUEST w = (None, w)" if "L FREE = []" using reserve_inv [OF w, of WAPS_ITEM_TYPE_REQUEST] that by auto
  with False show ?thesis using w irq by (auto simp: frame_receive_def)
qed

lemma new_indication_inv:
  assumes w: "winv n w L held" and irq: "irq_ok w"
  shows "\<exists>r w' L'. new_indication build w = Some (r, w') \<and> winv n w' L' held \<and> irq_ok w' \<and>
     (r \<longleftrightarrow> 2 < length (L FREE)) \<and> (if r then L' IND = L IND @ [hd (L FREE)] else w' = w)"
  using reserve_inv [OF w, of WAPS_ITEM_TYPE_INDICATION]
proof (elim disjE exE conjE)
  fix i s
  assume r: "Waps_itemReserve WAPS_ITEM_TYPE_INDICATION w = (Some i, set_queue FREE s w)" "L FREE = i # tl (L FREE)"
    "winv n (set_queue FREE s w) (L(FREE := tl (L FREE))) (i # held)"
    "WAPS_ITEM_TYPE_INDICATION = WAPS_ITEM_TYPE_INDICATION \<longrightarrow> 2 < length (L FREE)"
  have "winv n (set_item i (build (w_items w i)) (set_queue FREE s w)) (L(FREE := tl (L FREE))) (i # held)" using r(3) by simp
  from add_indication_inv [OF this] obtain w' where
    "add_indication (Some i) (set_item i (build (w_items w i)) (set_queue FREE s w)) = Some w'"
    "winv n w' (L(FREE := tl (L FREE), IND := L IND @ [i])) held" "irq_ok w'" by auto
  moreover have "hd (L FREE) = i" using r(2) by (metis list.sel(1))
  ultimately show ?thesis using r(1,4) by (intro exI [of _ True] exI [of _ w'] exI) (auto simp: new_indication_def)
qed (use w irq in \<open>auto simp: new_indication_def\<close>)

lemma find_ind_loop_seg:
  "seg lk p xs None \<Longrightarrow> find_ind_loop P lk p = Some (List.find P xs)"
proof (induction xs arbitrary: p)
  case Nil
  then show ?case by (simp add: find_ind_loop.simps)
next
  case (Cons x xs)
  then show ?case by (simp add: find_ind_loop.simps [of P lk "Some x"] sl_list_next_def)
qed

lemma find_indication_inv:
  "winv n w L held \<Longrightarrow> find_indication fid w = Some (List.find (\<lambda>i. sfunc (frame (w_items w i)) = fid) (L IND))"
  unfolding find_indication_def by (rule find_ind_loop_seg) (auto simp: winv_def sl_repr_def get_queue_def)

lemma renew_indication_inv:
  assumes w: "winv n w L held" and irq: "irq_ok w"
  shows "\<exists>w' L'. renew_indication fid build w = Some w' \<and> winv n w' L' held \<and> irq_ok w'"
proof (cases "List.find (\<lambda>i. sfunc (frame (w_items w i)) = fid) (L IND)")
  case (Some i)
  then show ?thesis using find_indication_inv [OF w, of fid] w irq by (auto simp: renew_indication_def)
next
  case None
  then have eq: "renew_indication fid build w = (case Waps_itemReserve WAPS_ITEM_TYPE_INDICATION w of
              (None, w) \<Rightarrow> add_indication None w
            | (Some i, w) \<Rightarrow> add_indication (Some i) (set_item i (build (w_items w i)) w))"
    using find_indication_inv [OF w, of fid] by (simp add: renew_indication_def)
  from new_indication_inv [OF w irq, of build] show ?thesis
    unfolding eq using w irq
    by (auto simp: new_indication_def add_indication_def [of None] bind_eq_Some_conv split: prod.splits option.splits)
qed

lemma push_all_inv:
  "winv n w L es \<Longrightarrow> winv n (fold (q_push_front FREE) es w) (L(FREE := rev es @ L FREE)) []"
proof (induction es arbitrary: w L)
  case (Cons e es)
  have "(L(FREE := e # L FREE))(FREE := rev es @ (L(FREE := e # L FREE)) FREE) = L(FREE := rev (e # es) @ L FREE)" by simp
  with Cons.IH [OF push_front_inv [OF Cons.prems, of FREE]] show ?case by (metis fold_simps(2))
qed simp

lemma fold_push_prot [simp]:
  "prot_indication (fold (q_push_front q) es w) = prot_indication w" "w_irq (fold (q_push_front q) es w) = w_irq w"
  "q \<noteq> IND \<Longrightarrow> w_heads (fold (q_push_front q) es w) IND = w_heads w IND"
  by (induction es arbitrary: w) (simp_all add: q_push_front_def)

lemma waps_init_inv:
  assumes "prot_reply w = None" "prot_indication w = None" "\<not> w_irq w" "n < 2 ^ 32"
  shows "\<exists>w' L'. Waps_init n build w = Some w' \<and> winv n w' L' [] \<and> irq_ok w'"
proof -
  let ?w = "w\<lparr>w_heads := (w_heads w)(REQUEST := sl_list_init, IND := sl_list_init, REPLY := sl_list_init),
      m_threshold_cb := True, m_free_waps_items := of_nat n * ucast (50 :: u8) div 100,
      w_heads := (w_heads w)(REQUEST := sl_list_init, IND := sl_list_init, REPLY := sl_list_init, FREE := sl_list_init),
      w_items := (\<lambda>_. zero_item), w_links := (\<lambda>_. None)\<rparr>"
  let ?v = "fold (q_push_front FREE) [0..<n] ?w"
  have "get_queue q ?w = (sl_list_init, \<lambda>_. None)" for q by (cases q) (simp_all add: get_queue_def)
  then have "winv n ?w (\<lambda>_. []) [0..<n]" using assms by (simp add: winv_def sl_repr_init queued_def)
  from push_all_inv [OF this] have v: "winv n ?v ((\<lambda>_. [])(FREE := rev [0..<n])) []" by simp
  have "irq_ok ?v" using assms by (simp add: irq_ok_def q_size_def sl_list_init_def)
  from new_indication_inv [OF v this, of build] obtain r w' L' where
    "new_indication build ?v = Some (r, w')" "winv n w' L' []" "irq_ok w'" by blast
  moreover have "Waps_itemInit n 50 (w\<lparr>w_heads := (w_heads w)(REQUEST := sl_list_init, IND := sl_list_init, REPLY := sl_list_init)\<rparr>) = ?v"
    by (simp add: Waps_itemInit_def)
  ultimately show ?thesis by (auto simp: Waps_init_def Let_def)
qed

text \<open>When an indication is on its way, a frame from the host that is not its response does
  not lose it.\<close>

lemma send_indication_keeps:
  assumes w: "winv n w L held" and p: "prot_indication w = Some p"
  shows "\<exists>L'. winv n (send_indication env f w) L' held \<and> prot_seq (send_indication env f w) = prot_seq w \<and>
     (prot_indication (send_indication env f w) = Some p \<and> L' = L \<or>
      prot_indication (send_indication env f w) = None \<and> L' = L(IND := p # L IND))"
proof -
  define it where "it = (w_items w p)\<lparr>frame := (frame (w_items w p))\<lparr>sfid := prot_seq w,
      spld := (spld (frame (w_items w p)))[0 := queued_indications w]\<rparr>\<rparr>"
  obtain sent w2 where s: "prot_send_item env p (set_item p it w) = (sent, w2)" by fastforce
  then have "w2 = snd (prot_send_item env p (set_item p it w))" by simp
  then have w2: "winv n w2 L held" "prot_indication w2 = Some p" "prot_seq w2 = prot_seq w"
    using w p by (simp_all add: set_item_def)
  have "winv n (q_push_front IND p (w2\<lparr>prot_indication := None\<rparr>)) (L(IND := p # L IND)) held"
    by (rule push_front_inv [OF winv_take_ind [OF w2(2,1)]])
  moreover have "(q_push_front IND p w2)\<lparr>prot_indication := None\<rparr> = q_push_front IND p (w2\<lparr>prot_indication := None\<rparr>)"
    by (simp add: q_push_front_def set_queue_def get_queue_def)
  ultimately have f: "winv n ((q_push_front IND p w2)\<lparr>prot_indication := None\<rparr>) (L(IND := p # L IND)) held" by simp
  have irq: "prot_indication (Waps_prot_updateIrqPin v) = prot_indication v" "prot_seq (Waps_prot_updateIrqPin v) = prot_seq v" for v :: "'a waps"
    by (simp_all add: Waps_prot_updateIrqPin_def)
  have "send_indication env f w = Waps_prot_updateIrqPin
      (if sfunc f \<noteq> 0x84 \<and> \<not> (WapsFunc_isResponse (sfunc f) \<and> spld f ! 0 = 1) then w
       else if \<not> sent then (q_push_front IND p w2)\<lparr>prot_indication := None\<rparr> else w2)"
    using p s by (simp add: send_indication_def Let_def it_def)
  then show ?thesis using w p w2 f by (auto simp: irq q_push_front_def)
qed

subsection \<open>Runs of the protocol\<close>

inductive waps_step :: "'c waps \<Rightarrow> 'c waps option \<Rightarrow> bool" where
  receive: "waps_step w (map_option snd (frame_receive env data w))"
| exec: "waps_step w (map_option snd (Waps_exec env w))"
| packet: "waps_step w (map_option snd (new_indication build w))"
| renew: "waps_step w (renew_indication fid build w)"

definition waps_boot :: "'c waps" where
  "waps_boot = \<lparr>w_heads = (\<lambda>_. sl_list_init), w_links = (\<lambda>_. None),
     w_items = (\<lambda>_. zero_item),
     prot_reply = None, prot_indication = None, prot_seq = 0, m_free_waps_items = 0, m_threshold_cb = False,
     w_threshold_calls = 0, w_irq = False, w_signal = False, w_wakeups = 0, w_sent = [], w_post = []\<rparr>"

inductive waps_reachable :: "nat \<Rightarrow> 'c waps option \<Rightarrow> bool" for n where
  init: "waps_reachable n (Waps_init n build waps_boot)"
| step: "waps_reachable n (Some w) \<Longrightarrow> waps_step w r \<Longrightarrow> waps_reachable n r"

lemma waps_step_inv:
  assumes "waps_step w r" "winv n w L []" "irq_ok w"
  shows "\<exists>w' L'. r = Some w' \<and> winv n w' L' [] \<and> irq_ok w'"
  using assms
proof (induction rule: waps_step.induct)
  case (receive w env data)
  from frame_receive_inv [OF receive, of env data] show ?case by (auto 0 3)
next
  case (exec w env)
  from exec_inv [OF exec, of env] show ?case by (auto 0 3)
next
  case (packet w build)
  from new_indication_inv [OF packet, of build] show ?case by (auto 0 3)
next
  case (renew w fid build)
  from renew_indication_inv [OF renew, of fid build] show ?case .
qed

lemma waps_reachable_inv:
  assumes "waps_reachable n r" "n < 2 ^ 32"
  shows "\<exists>w L. r = Some w \<and> winv n w L [] \<and> irq_ok w"
  using assms
proof (induction rule: waps_reachable.induct)
  case (init build)
  then show ?case using waps_init_inv [of waps_boot n build] by (auto simp: waps_boot_def)
next
  case (step w r)
  then show ?case using waps_step_inv by (metis option.inject)
qed

subsection \<open>Properties\<close>

text \<open>C7: whatever the order of frames from the host, runs of \<open>Waps_exec\<close> and new
  indications, no operation follows a bad pointer, every item of the pool is in exactly one
  place (a list, the current reply or the current indication), and the interrupt pin is
  asserted exactly while an indication waits for the host.\<close>

theorem waps_items_conserved:
  assumes "waps_reachable n r" "n < 2 ^ 32"
  shows "\<exists>w L. r = Some w \<and> (\<forall>q. sl_repr (get_queue q w) (L q)) \<and>
     mset (L FREE @ L IND @ L REPLY @ L REQUEST) + opt_mset (prot_reply w) + opt_mset (prot_indication w) = mset_set {0..<n} \<and>
     (w_irq w \<longleftrightarrow> L IND \<noteq> [] \<or> prot_indication w \<noteq> None)"
proof -
  obtain w L where w: "r = Some w" "winv n w L []" "irq_ok w" using waps_reachable_inv [OF assms] by blast
  then show ?thesis using q_size_zero [OF w(2), of IND]
    by (intro exI [of _ w] exI [of _ L]) (simp add: winv_def irq_ok_def queued_def add.assoc)
qed

definition env_ok :: "unit waps_env" where
  "env_ok = \<lparr>hw_write = (\<lambda>_. True), run_pre_cb = (\<lambda>_ _ it. it), sap_handle = (\<lambda>_ it. (True, it)), coarse_now = 0\<rparr>"

theorem waps_items_conserved_witness:
  "\<exists>w. map_option snd (frame_receive env_ok [4, 7, 0] (the (Waps_init 6 id waps_boot))) = Some w \<and>
     (\<exists>L. mset (L FREE @ L IND @ L REPLY @ L REQUEST) + opt_mset (prot_reply w) + opt_mset (prot_indication w) = mset_set {0..<6})"
proof -
  have i: "waps_reachable 6 (Waps_init 6 id (waps_boot :: unit waps))" by (rule waps_reachable.init)
  then have "Waps_init 6 id (waps_boot :: unit waps) \<noteq> None" using waps_items_conserved [OF i] by auto
  then have "waps_reachable 6 (Some (the (Waps_init 6 id (waps_boot :: unit waps))))" using i by simp
  from waps_items_conserved [OF waps_reachable.step [OF this waps_step.receive], of env_ok "[4, 7, 0]"] show ?thesis by auto
qed

text \<open>A pool of six items: one indication on its way, one queued, one reply and one frame
  in work.\<close>

definition queue_example :: "qid \<Rightarrow> nat list" where
  "queue_example q = (case q of FREE \<Rightarrow> [5] | IND \<Rightarrow> [1] | _ \<Rightarrow> [])"

definition single :: "nat \<Rightarrow> nat sl_list_head" where
  "single k = \<lparr>sl_next = Some k, sl_last = Some k, sl_size = 1\<rparr>"

definition waps_example :: "nat option \<Rightarrow> u8 \<Rightarrow> u8 \<Rightarrow> unit waps" where
  "waps_example ind func payload = waps_boot\<lparr>
     w_heads := (\<lambda>q. case q of FREE \<Rightarrow> single 5 | IND \<Rightarrow> single 1 | _ \<Rightarrow> sl_list_init),
     w_items := (\<lambda>i. \<lparr>w_time = 0, pre_cb = None, post_cb = None,
       frame = \<lparr>sfunc = (if i = 0 then 0x07 else func), sfid = 0, splen = 1, spld = [payload]\<rparr>\<rparr>),
     prot_reply := Some 2, prot_indication := ind, w_irq := True\<rparr>"

lemma waps_example_inv:
  "winv 6 (waps_example (Some 0) func b) queue_example [3, 4]"
  "winv 6 (waps_example None func b) queue_example [0, 3, 4]"
  "irq_ok (waps_example (Some 0) func b)"
proof -
  have q: "sl_repr (get_queue q (waps_example ind func b)) (queue_example q)" for q ind
    by (cases q) (simp_all add: get_queue_def waps_example_def queue_example_def single_def sl_repr_def cursor_def
        waps_boot_def sl_list_init_def)
  have m: "mset_set {0..<6} = {#0, 1, 2, 3, 4, 5 :: nat#}"
    using mset_upt [of 0 6, symmetric] by (simp add: upt_rec numeral_eq_Suc)
  show "winv 6 (waps_example (Some 0) func b) queue_example [3, 4]"
    "winv 6 (waps_example None func b) queue_example [0, 3, 4]"
    using q unfolding winv_def m by (simp_all add: queued_def queue_example_def waps_example_def)
  show "irq_ok (waps_example (Some 0) func b)" by (simp add: irq_ok_def waps_example_def)
qed

text \<open>A response that does not carry the sequence number and the function of the
  indication on its way does not lose it: it stays the current one, or goes back to the
  front of the queue when the line does not take it, and the sequence number stays.\<close>

lemma indication_retained:
  assumes w: "winv n w L held" and p: "prot_indication w = Some p"
    and f: "WapsFunc_isResponse (sfunc (frame (w_items w i)))"
    and other: "\<not> (sfid (frame (w_items w i)) = prot_seq w \<and>
      sfunc (frame (w_items w i)) = (sfunc (frame (w_items w p)) OR 0x80))"
  shows "\<exists>L' w'. Waps_protUart_processResponse env i w = (True, w') \<and> winv n w' L' held \<and> prot_seq w' = prot_seq w \<and>
     (prot_indication w' = Some p \<and> L' = L \<or> prot_indication w' = None \<and> L' = L(IND := p # L IND))"
  using send_indication_keeps [OF w p, of env "frame (w_items w i)"] p f other
  by (auto simp: Waps_protUart_processResponse_def Let_def)

lemma indication_retained_example:
  "\<exists>L' w'. Waps_protUart_processResponse env_ok 3 (waps_example (Some 0) 0x83 1) = (True, w') \<and> winv 6 w' L' [3, 4]"
proof -
  have "WapsFunc_isResponse (sfunc (frame (w_items (waps_example (Some 0) 0x83 1) 3)))"
    "sfunc (frame (w_items (waps_example (Some 0) 0x83 1) 3)) \<noteq> (sfunc (frame (w_items (waps_example (Some 0) 0x83 1) 0)) OR 0x80)"
    "prot_indication (waps_example (Some 0) 0x83 1) = Some 0"
    by (simp_all add: waps_example_def WapsFunc_isResponse_def m_rsp_def)
  then show ?thesis using indication_retained [OF waps_example_inv(1), of "0x83" 1 0 3 env_ok] by blast
qed

text \<open>The response to the indication on its way frees its item and moves on to the next
  sequence number.\<close>

lemma indication_acknowledged:
  assumes w: "winv n w L held" and p: "prot_indication w = Some p"
    and f: "WapsFunc_isResponse (sfunc (frame (w_items w i)))" "sfid (frame (w_items w i)) = prot_seq w"
      "sfunc (frame (w_items w i)) = (sfunc (frame (w_items w p)) OR 0x80)"
    and quiet: "spld (frame (w_items w i)) ! 0 \<noteq> 1"
  shows "\<exists>w'. Waps_protUart_processResponse env i w = (True, w') \<and> winv n w' (L(FREE := p # L FREE)) held \<and>
     prot_indication w' = None \<and> prot_seq w' = prot_seq w + 1 \<and> (w_irq w' \<longleftrightarrow> L IND \<noteq> [])"
proof -
  note fr = free_inv [OF winv_take_ind [OF p w]]
  let ?u = "(Waps_itemFree p w)\<lparr>prot_indication := None, prot_seq := prot_seq w + 1\<rparr>"
  have "?u = (Waps_itemFree p (w\<lparr>prot_indication := None\<rparr>))\<lparr>prot_seq := prot_seq w + 1\<rparr>"
    by (simp add: Waps_itemFree_def q_push_front_def set_queue_def get_queue_def q_size_def Let_def)
  then have u: "winv n ?u (L(FREE := p # L FREE)) held" using fr(1) by simp
  have "sfunc (frame (w_items w i)) \<noteq> 0x84" using f(1) by (auto simp: WapsFunc_isResponse_def m_rsp_def)
  then have "send_indication env (frame (w_items w i)) ?u = Waps_prot_updateIrqPin ?u"
    using quiet by (simp add: send_indication_def)
  moreover have "q_size IND ?u = 0 \<longleftrightarrow> L IND = []" using q_size_zero [OF u, of IND] by simp
  ultimately have "Waps_protUart_processResponse env i w = (True, Waps_prot_updateIrqPin ?u)"
    "w_irq (Waps_prot_updateIrqPin ?u) \<longleftrightarrow> L IND \<noteq> []"
    using p f by (simp_all add: Waps_protUart_processResponse_def Let_def Waps_prot_updateIrqPin_def [of ?u])
  moreover have "prot_indication (Waps_prot_updateIrqPin ?u) = None" "prot_seq (Waps_prot_updateIrqPin ?u) = prot_seq w + 1"
    by (simp_all add: Waps_prot_updateIrqPin_def)
  ultimately show ?thesis using u by auto
qed

lemma indication_acknowledged_example:
  "\<exists>w'. Waps_protUart_processResponse env_ok 3 (waps_example (Some 0) 0x87 0) = (True, w') \<and> prot_indication w' = None \<and>
     prot_seq w' = 1"
proof -
  let ?w = "waps_example (Some 0) 0x87 0"
  have "WapsFunc_isResponse (sfunc (frame (w_items ?w 3)))" "sfid (frame (w_items ?w 3)) = prot_seq ?w"
    "sfunc (frame (w_items ?w 3)) = (sfunc (frame (w_items ?w 0)) OR 0x80)" "prot_indication ?w = Some 0"
    "spld (frame (w_items ?w 3)) ! 0 \<noteq> 1" "prot_seq ?w = 0"
    by (simp_all add: waps_example_def waps_boot_def WapsFunc_isResponse_def m_rsp_def)
  then show ?thesis using indication_acknowledged [OF waps_example_inv(1), of "0x87" 0 0 3 env_ok] by auto
qed

text \<open>A frame from the host becomes a queued request exactly when its length field is
  right and an item is free, and the request holds its bytes; indications leave the last
  two items to requests.\<close>

lemma request_and_indication_admission:
  assumes w: "winv n w L held" and irq: "irq_ok w"
  shows "(\<exists>r w' L'. frame_receive env data w = Some (r, w') \<and> winv n w' L' held \<and>
       (r \<longleftrightarrow> 3 \<le> length data \<and> unat (data ! 2) = length data - 3 \<and> L FREE \<noteq> []) \<and>
       (r \<longrightarrow> L' REQUEST = L REQUEST @ [hd (L FREE)] \<and> take (length data) (frame_bytes (frame (w_items w' (hd (L FREE))))) = data)) \<and>
     (\<exists>r w' L'. new_indication build w = Some (r, w') \<and> winv n w' L' held \<and> (r \<longleftrightarrow> 2 < length (L FREE)) \<and>
       (r \<longrightarrow> L' IND = L IND @ [hd (L FREE)]))"
  using frame_receive_inv [OF w irq, of env data] new_indication_inv [OF w irq, of build]
  by (intro conjI) (auto 0 4 split: if_splits)

lemma request_and_indication_admission_example:
  "\<exists>w'. frame_receive env_ok [0x01, 9, 1, 42] (waps_example (Some 0) 0x87 0) = Some (True, w')"
proof -
  note a = request_and_indication_admission [OF waps_example_inv(1,3), of env_ok "[0x01, 9, 1, 42]" "0x87" 0 id]
  then show ?thesis by (auto simp: queue_example_def)
qed

text \<open>The replies to the two sleep queries have codes of the table of responses, so that
  a reply whose first payload byte is 1 is followed by an indication the host has not asked
  for.\<close>

lemma sleep_reply_sends_indication:
  assumes w: "winv n w L held" and r: "prot_reply w = Some i" "prot_indication w = None" "L IND = p # rest"
    and f: "sfunc (frame (w_items w i)) = 0xC2" "spld (frame (w_items w i)) ! 0 = 1" "pre_cb (w_items w i) = None"
    and line: "hw_write env = (\<lambda>_. True)"
  shows "prot_indication (Waps_protUart_sendReply env w) = Some p \<and>
     length (w_sent (Waps_protUart_sendReply env w)) = length (w_sent w) + 2"
proof -
  define w2 where "w2 = snd (prot_send_item env i w)"
  have s: "prot_send_item env i w = (True, w2)" using f(3) line by (simp add: w2_def prot_send_item_def Let_def)
  have w2: "winv n w2 L held" "prot_indication w2 = None" "prot_reply w2 = Some i" using w r by (simp_all add: w2_def)
  have l2: "length (w_sent w2) = length (w_sent w) + 1" "w_items w2 = w_items w"
    using f(3) line by (simp_all add: w2_def prot_send_item_def Let_def)
  obtain s where s2: "q_pop_front IND w2 = (Some p, set_queue IND s w2)"
    using pop_front_inv [OF w2(1), of IND] r(3) by auto
  let ?x = "send_indication env (frame (w_items w i)) w2"
  let ?v = "set_queue IND s w2\<lparr>prot_indication := Some p\<rparr>"
  define u where "u = set_item p ((w_items ?v p)\<lparr>frame := (frame (w_items ?v p))\<lparr>sfid := prot_seq ?v,
      spld := (spld (frame (w_items ?v p)))[0 := queued_indications ?v]\<rparr>\<rparr>) ?v"
  define w3 where "w3 = snd (prot_send_item env p u)"
  have w3: "prot_send_item env p u = (True, w3)" "length (w_sent w3) = length (w_sent u) + 1"
    using line by (simp_all add: w3_def prot_send_item_def Let_def set_item_def split: option.split)
  have u: "prot_indication u = Some p" "w_sent u = w_sent w2" by (simp_all add: u_def set_item_def)
  have "WapsFunc_isResponse 0xC2" by (simp add: WapsFunc_isResponse_def m_rsp_def)
  then have "?x = Waps_prot_updateIrqPin w3"
    using f(1,2) w2(2) s2 w3(1) by (simp add: send_indication_def u_def Let_def)
  moreover have "prot_indication w3 = Some p" using u(1) by (simp add: w3_def)
  ultimately have x: "prot_indication ?x = Some p" "length (w_sent ?x) = length (w_sent w) + 2"
    using w3(2) u(2) l2(1) by (simp_all add: Waps_prot_updateIrqPin_def)
  have "Waps_protUart_sendReply env w = (Waps_itemFree i ?x)\<lparr>prot_reply := None\<rparr>"
    using r(1) s l2(2) by (simp add: Waps_protUart_sendReply_def)
  then show ?thesis using x by (simp add: Waps_itemFree_def q_push_front_def Let_def)
qed

lemma sleep_reply_sends_indication_example:
  "prot_indication (Waps_protUart_sendReply env_ok (waps_example None 0xC2 1)) = Some 1"
proof -
  let ?w = "waps_example None 0xC2 1"
  have "prot_reply ?w = Some 2" "prot_indication ?w = None" "queue_example IND = 1 # []"
    "sfunc (frame (w_items ?w 2)) = 0xC2" "spld (frame (w_items ?w 2)) ! 0 = 1" "pre_cb (w_items ?w 2) = None"
    "hw_write env_ok = (\<lambda>_. True)"
    by (simp_all add: waps_example_def queue_example_def env_ok_def)
  then show ?thesis using sleep_reply_sends_indication [OF waps_example_inv(2)] by blast
qed

text \<open>The function codes.  No code is in two of the classes request, confirmation,
  indication and response; the response to an indication is its code with the top bit set,
  and every other code of the table of responses is a reply to a sleep query.\<close>

lemma function_codes:
  "(WapsFunc_isRequest f \<longrightarrow> \<not> WapsFunc_isConfirmation f \<and> \<not> WapsFunc_isIndication f \<and> \<not> WapsFunc_isResponse f) \<and>
   (WapsFunc_isConfirmation f \<longrightarrow> \<not> WapsFunc_isIndication f \<and> \<not> WapsFunc_isResponse f) \<and>
   (WapsFunc_isIndication f \<longrightarrow> \<not> WapsFunc_isResponse f \<and> WapsFunc_isResponse (f OR 0x80)) \<and>
   (WapsFunc_isResponse f \<longrightarrow> WapsFunc_isIndication (f AND 0x7F) \<or> f = 0xC2 \<or> f = 0xCC) \<and>
   \<not> (WapsFunc_isDsapRequest f \<and> WapsFunc_isMsapRequest f) \<and> \<not> (WapsFunc_isDsapRequest f \<and> WapsFunc_isCsapRequest f) \<and>
   \<not> (WapsFunc_isMsapRequest f \<and> WapsFunc_isCsapRequest f)"
proof -
  have find: "find_code cs v \<longleftrightarrow> v \<in> set cs" for cs v by (induction cs) auto
  note codes = WapsFunc_isRequest_def WapsFunc_isDsapRequest_def WapsFunc_isMsapRequest_def WapsFunc_isCsapRequest_def
    WapsFunc_isConfirmation_def WapsFunc_isIndication_def WapsFunc_isResponse_def find
  have dist: "distinct (m_dsap_req @ m_msap_req @ m_csap_req @ m_ind @ m_rsp)"
    "set (m_dsap_req @ m_msap_req @ m_csap_req @ m_ind @ m_rsp) \<inter> set m_cnf = {}"
    by (simp_all add: m_dsap_req_def m_msap_req_def m_csap_req_def m_ind_def m_rsp_def m_cnf_def)
  have "f \<in> set m_ind \<Longrightarrow> (f OR 0x80) \<in> set m_rsp" by (auto simp: m_ind_def m_rsp_def)
  moreover have "f \<in> set m_rsp \<Longrightarrow> (f AND 0x7F) \<in> set m_ind \<or> f = 0xC2 \<or> f = 0xCC" by (auto simp: m_ind_def m_rsp_def)
  ultimately show ?thesis unfolding codes using dist by auto
qed

lemma function_codes_example:
  "WapsFunc_isIndication 0x03 \<and> WapsFunc_isResponse 0x83"
  using function_codes [of "0x03"] by (simp add: WapsFunc_isIndication_def m_ind_def)

end
