(* ===== verification/Wms_Api.thy ===== *)
theory Wms_Api
  imports Prelude
begin

text \<open>
  Result codes and addresses of the interface to the stack (\<open>api/wms_app.h\<close>,
  \<open>api/wms_data.h\<close>) that several libraries use.
\<close>

datatype app_res =
  APP_RES_OK | APP_RES_UNSPECIFIED_ERROR | APP_RES_NOT_IMPLEMENTED | APP_RES_INVALID_VALUE
| APP_RES_INVALID_NULL_POINTER | APP_RES_INVALID_CONFIGURATION | APP_RES_RESOURCE_UNAVAILABLE
| APP_RES_INVALID_STACK_STATE | APP_RES_ACCESS_DENIED

datatype data_receive_res =
  APP_LIB_DATA_RECEIVE_RES_HANDLED | APP_LIB_DATA_RECEIVE_RES_NOT_FOR_APP | APP_LIB_DATA_RECEIVE_RES_NO_SPACE

datatype data_send_res =
  APP_LIB_DATA_SEND_RES_SUCCESS | APP_LIB_DATA_SEND_RES_INVALID_STACK_STATE | APP_LIB_DATA_SEND_RES_INVALID_QOS
| APP_LIB_DATA_SEND_RES_INVALID_FLAGS | APP_LIB_DATA_SEND_RES_OUT_OF_MEMORY
| APP_LIB_DATA_SEND_RES_INVALID_DEST_ADDRESS | APP_LIB_DATA_SEND_RES_INVALID_NUM_BYTES
| APP_LIB_DATA_SEND_RES_OUT_OF_TRACKING_IDS | APP_LIB_DATA_SEND_RES_INVALID_TRACKING_ID
| APP_LIB_DATA_SEND_RES_RESERVED_ENDPOINT | APP_LIB_DATA_SEND_RES_ACCESS_DENIED
| APP_LIB_DATA_SEND_RES_INVALID_HOP_LIMIT | APP_LIB_DATA_SEND_RES_UNINITIALIZED
| APP_LIB_DATA_SEND_RES_INVALID_FRAGMENT_INFO

definition APP_ADDR_BROADCAST :: u32 where "APP_ADDR_BROADCAST = 0xffffffff"
definition APP_ADDR_MULTICAST :: u32 where "APP_ADDR_MULTICAST = 0x80000000"
definition APP_ADDR_ANYSINK :: u32 where "APP_ADDR_ANYSINK = 0xfffffffe"

subsection \<open>Packets\<close>

record fragment_info =
  fi_offset :: u16
  fi_last :: bool
  fi_packet_id :: u16

record data_to_send =
  ds_bytes :: "u8 list"
  ds_dest_address :: u32
  ds_delay :: u32
  ds_tracking_id :: u16
  ds_qos :: u8
  ds_flags :: u8
  ds_src_endpoint :: u8
  ds_dest_endpoint :: u8
  ds_hop_limit :: u8
  ds_fragment_info :: "fragment_info option"

record data_received =
  dr_bytes :: "u8 list"
  dr_src_address :: u32
  dr_dest_address :: u32
  dr_delay :: u32
  dr_qos :: u8
  dr_hops :: u8
  dr_src_endpoint :: u8
  dr_dest_endpoint :: u8
  dr_fragment_info :: "fragment_info option"

end
