(* ===== verification/Shared_Data.thy ===== *)
theory Shared_Data
  imports Sl_List Wms_Api
begin

text \<open>
  \<open>libraries/shared_data/shared_data.c\<close>: modules of an application share the data
  library.  Filters for received packets are client owned items in a list of
  \<open>sl_list.c\<close>; an item is its address, here a \<open>nat\<close>.  Packets whose sending is
  tracked have a slot in a table, and the index of the slot replaces the module's own
  tracking id on the way through the stack.

  A client's callback is a function of the state that gives the calls it makes into this
  library and its result.  Calls to the stack are recorded in the state.
\<close>

subsection \<open>Data\<close>

definition SHARED_DATA_NET_MODE_UNICAST :: u32 where "SHARED_DATA_NET_MODE_UNICAST = 0"
definition SHARED_DATA_NET_MODE_BROADCAST :: u32 where "SHARED_DATA_NET_MODE_BROADCAST = 1"
definition SHARED_DATA_NET_MODE_MULTICAST :: u32 where "SHARED_DATA_NET_MODE_MULTICAST = 2"
definition SHARED_DATA_NET_MODE_ALL :: u32 where "SHARED_DATA_NET_MODE_ALL = 3"

definition SHARED_DATA_UNUSED_ENDPOINT :: int where "SHARED_DATA_UNUSED_ENDPOINT = -1"
definition ENDPOINT_MIN :: int where "ENDPOINT_MIN = SHARED_DATA_UNUSED_ENDPOINT"
definition ENDPOINT_MAX :: int where "ENDPOINT_MAX = 255"

text \<open>Endpoints of a filter are of type \<open>int16_t\<close>, with no arithmetic on them.\<close>

record sd_filter =
  sf_mode :: u32
  sf_src_endpoint :: int
  sf_dest_endpoint :: int
  sf_multicast_cb :: "(u32 \<Rightarrow> bool) option"

text \<open>\<open>reserved2\<close> marks an item for removal, \<open>reserved3\<close> a busy filter.\<close>

record sd_item =
  sd_reserved2 :: bool
  sd_reserved3 :: bool
  sd_cb :: "nat option"
  sd_filter :: sd_filter

record rx_data =
  rx_dest_address :: u32
  rx_src_endpoint :: u8
  rx_dest_endpoint :: u8

record tracked_packet =
  tp_cb :: "nat option"
  tp_id :: u16

record shared =
  m_shared_data_head :: "nat sll"
  sd_items :: "nat \<Rightarrow> sd_item"
  m_iterating_list :: bool
  m_tracked_packets :: "tracked_packet list"
  sd_initialized :: bool
  sd_allow_calls :: nat
  sd_received :: "(nat \<times> data_receive_res) list"
  sd_sent :: "(nat \<times> u16) list"

definition upd_item :: "nat \<Rightarrow> (sd_item \<Rightarrow> sd_item) \<Rightarrow> shared \<Rightarrow> shared" where
  "upd_item i f w = w\<lparr>sd_items := (sd_items w)(i := f (sd_items w i))\<rparr>"

text \<open>\<open>memset(item, 0, sizeof(shared_data_item_t))\<close> clears the link too.\<close>

definition clear_item :: "nat \<Rightarrow> shared \<Rightarrow> shared" where
  "clear_item i w = (upd_item i (\<lambda>_. \<lparr>sd_reserved2 = False, sd_reserved3 = False, sd_cb = None,
      sd_filter = \<lparr>sf_mode = 0, sf_src_endpoint = 0, sf_dest_endpoint = 0, sf_multicast_cb = None\<rparr>\<rparr>) w)
    \<lparr>m_shared_data_head := (fst (m_shared_data_head w), (snd (m_shared_data_head w))(i := None))\<rparr>"

definition IS_MULTICAST_ADDRESS :: "u32 \<Rightarrow> bool" where
  "IS_MULTICAST_ADDRESS address \<longleftrightarrow> address AND 0xff000000 = APP_ADDR_MULTICAST"

definition IS_UNICAST_ADDRESS :: "u32 \<Rightarrow> bool" where
  "IS_UNICAST_ADDRESS address \<longleftrightarrow> address \<noteq> APP_ADDR_BROADCAST \<and> \<not> IS_MULTICAST_ADDRESS address"

subsection \<open>Removal of filters\<close>

text \<open>\<open>Shared_Data_removeDataReceivedCb\<close>, \<open>enable_reception_if_needed\<close> and
  \<open>delete_marked_items\<close> call each other: one function of the procedure to run, where
  \<open>Delete_from\<close> is the loop of \<open>delete_marked_items\<close>.  \<open>None\<close> is a loop or a
  recursion that does not end, or a list that is not well formed.\<close>

datatype sd_proc = Remove nat | Enable | Delete | Delete_from "nat option"

partial_function (option) sd_run :: "sd_proc \<Rightarrow> shared \<Rightarrow> shared option" where
  "sd_run p w =
     (case p of
        Remove item \<Rightarrow>
          if \<not> m_iterating_list w then
            do {
              (removed, s) \<leftarrow> sl_list_remove (m_shared_data_head w) item;
              let w = w\<lparr>m_shared_data_head := s\<rparr>;
              if item \<noteq> removed then
                do {
                  w \<leftarrow> (if sd_reserved3 (sd_items w item) then sd_run Enable w else Some w);
                  Some (clear_item item w)
                }
              else Some w
            }
          else Some (upd_item item (\<lambda>it. it\<lparr>sd_reserved2 := True\<rparr>) w)
      | Enable \<Rightarrow>
          do {
            let w = w\<lparr>m_iterating_list := True\<rparr>;
            busy \<leftarrow> sl_search_loop (snd (m_shared_data_head w)) (\<lambda>i. sd_reserved3 (sd_items w i))
                     (sl_next (fst (m_shared_data_head w)));
            w \<leftarrow> sd_run Delete w;
            Some (if busy = None then w\<lparr>sd_allow_calls := sd_allow_calls w + 1\<rparr> else w)
          }
      | Delete \<Rightarrow>
          sd_run (Delete_from (sl_next (fst (m_shared_data_head w)))) (w\<lparr>m_iterating_list := False\<rparr>)
      | Delete_from i \<Rightarrow>
          (case i of
             None \<Rightarrow> Some w
           | Some item \<Rightarrow>
               do {
                 let i = sl_list_next (snd (m_shared_data_head w)) item;
                 w \<leftarrow> (if sd_reserved2 (sd_items w item) then sd_run (Remove item) w else Some w);
                 sd_run (Delete_from i) w
               }))"

definition Shared_Data_removeDataReceivedCb :: "nat \<Rightarrow> shared \<Rightarrow> shared option" where
  "Shared_Data_removeDataReceivedCb item w = sd_run (Remove item) w"

definition enable_reception_if_needed :: "shared \<Rightarrow> shared option" where
  "enable_reception_if_needed w = sd_run Enable w"

definition delete_marked_items :: "shared \<Rightarrow> shared option" where
  "delete_marked_items w = sd_run Delete w"

subsection \<open>Registration\<close>

definition Shared_Data_init :: "nat \<Rightarrow> shared \<Rightarrow> app_res \<times> shared" where
  "Shared_Data_init max_tracked w =
     (if sd_initialized w then (APP_RES_OK, w)
      else (APP_RES_OK, w\<lparr>m_shared_data_head := (sl_list_init, snd (m_shared_data_head w)), m_iterating_list := False,
         m_tracked_packets := replicate max_tracked \<lparr>tp_cb = None, tp_id = 0\<rparr>, sd_initialized := True\<rparr>))"

definition filter_params_ok :: "sd_filter \<Rightarrow> bool" where
  "filter_params_ok f \<longleftrightarrow>
     \<not> (sf_mode f > SHARED_DATA_NET_MODE_ALL \<or>
        sf_dest_endpoint f < ENDPOINT_MIN \<or> sf_dest_endpoint f > ENDPOINT_MAX \<or>
        sf_src_endpoint f < ENDPOINT_MIN \<or> sf_src_endpoint f > ENDPOINT_MAX) \<and>
     \<not> (sf_mode f \<noteq> SHARED_DATA_NET_MODE_ALL \<and> sf_mode f \<noteq> SHARED_DATA_NET_MODE_MULTICAST \<and>
        sf_multicast_cb f \<noteq> None)"

definition Shared_Data_addDataReceivedCb :: "nat \<Rightarrow> shared \<Rightarrow> (app_res \<times> shared) option" where
  "Shared_Data_addDataReceivedCb item w =
     (if \<not> sd_initialized w then Some (APP_RES_RESOURCE_UNAVAILABLE, w)
      else if sd_cb (sd_items w item) = None then Some (APP_RES_INVALID_NULL_POINTER, w)
      else if \<not> filter_params_ok (sd_filter (sd_items w item)) then Some (APP_RES_INVALID_VALUE, w)
      else
        do {
          found \<leftarrow> sl_list_contains (m_shared_data_head w) item;
          w \<leftarrow> (if found then Some w
                else do {
                  let w = upd_item item (\<lambda>it. it\<lparr>sd_reserved2 := False\<rparr>) w;
                  s \<leftarrow> sl_list_push_back (m_shared_data_head w) item;
                  Some (w\<lparr>m_shared_data_head := s\<rparr>)
                });
          Some (APP_RES_OK, upd_item item (\<lambda>it. it\<lparr>sd_reserved3 := False\<rparr>) w)
        })"

definition Shared_Data_readyToReceive :: "nat \<Rightarrow> shared \<Rightarrow> (app_res \<times> shared) option" where
  "Shared_Data_readyToReceive item w =
     (if sd_reserved3 (sd_items w item) then
        do {
          w \<leftarrow> enable_reception_if_needed (upd_item item (\<lambda>it. it\<lparr>sd_reserved3 := False\<rparr>) w);
          Some (APP_RES_OK, w)
        }
      else Some (APP_RES_OK, w))"

subsection \<open>Reception\<close>

definition filter_received_packet :: "sd_filter \<Rightarrow> rx_data \<Rightarrow> bool" where
  "filter_received_packet f d =
     (if sf_mode f = SHARED_DATA_NET_MODE_UNICAST \<and> \<not> IS_UNICAST_ADDRESS (rx_dest_address d) then False
      else if sf_mode f = SHARED_DATA_NET_MODE_BROADCAST \<and> rx_dest_address d \<noteq> APP_ADDR_BROADCAST then False
      else if sf_mode f = SHARED_DATA_NET_MODE_MULTICAST \<and> \<not> IS_MULTICAST_ADDRESS (rx_dest_address d) then False
      else if IS_MULTICAST_ADDRESS (rx_dest_address d) \<and>
        (case sf_multicast_cb f of None \<Rightarrow> False | Some cb \<Rightarrow> cb (rx_dest_address d) = False) then False
      else if sf_src_endpoint f \<noteq> SHARED_DATA_UNUSED_ENDPOINT \<and>
        (of_int (sf_src_endpoint f) :: u8) \<noteq> rx_src_endpoint d then False
      else if sf_dest_endpoint f \<noteq> SHARED_DATA_UNUSED_ENDPOINT \<and>
        (of_int (sf_dest_endpoint f) :: u8) \<noteq> rx_dest_endpoint d then False
      else True)"

definition group_member :: "u32 \<Rightarrow> sd_filter \<Rightarrow> bool" where
  "group_member group_addr f =
     (if sf_mode f \<noteq> SHARED_DATA_NET_MODE_MULTICAST \<and> sf_mode f \<noteq> SHARED_DATA_NET_MODE_ALL then False
      else case sf_multicast_cb f of None \<Rightarrow> True | Some cb \<Rightarrow> cb group_addr)"

definition group_query_cb :: "u32 \<Rightarrow> shared \<Rightarrow> (bool \<times> shared) option" where
  "group_query_cb group_addr w =
     do {
       member \<leftarrow> sl_search_loop (snd (m_shared_data_head w)) (\<lambda>i. group_member group_addr (sd_filter (sd_items w i)))
                  (sl_next (fst (m_shared_data_head w)));
       if member \<noteq> None then Some (True, w)
       else do { w \<leftarrow> delete_marked_items w; Some (False, w) }
     }"

text \<open>The calls a client makes from its callback.\<close>

datatype sd_call = Call_add nat | Call_remove nat | Call_ready nat

definition client_call :: "sd_call \<Rightarrow> shared \<Rightarrow> shared option" where
  "client_call c w =
     (case c of
        Call_add i \<Rightarrow> map_option snd (Shared_Data_addDataReceivedCb i w)
      | Call_remove i \<Rightarrow> Shared_Data_removeDataReceivedCb i w
      | Call_ready i \<Rightarrow> map_option snd (Shared_Data_readyToReceive i w))"

fun client_calls :: "sd_call list \<Rightarrow> shared \<Rightarrow> shared option" where
  "client_calls [] w = Some w"
| "client_calls (c # cs) w = do { w \<leftarrow> client_call c w; client_calls cs w }"

type_synonym sd_client = "nat \<Rightarrow> nat \<Rightarrow> rx_data \<Rightarrow> shared \<Rightarrow> sd_call list \<times> data_receive_res"

definition call_received_cb :: "sd_client \<Rightarrow> nat \<Rightarrow> rx_data \<Rightarrow> shared \<Rightarrow> (data_receive_res \<times> shared) option" where
  "call_received_cb client item d w =
     do {
       cb \<leftarrow> sd_cb (sd_items w item);
       let (calls, res) = client cb item d w;
       w \<leftarrow> client_calls calls (w\<lparr>sd_received := sd_received w @ [(item, res)]\<rparr>);
       Some (res, w)
     }"

partial_function (option) received_loop ::
  "sd_client \<Rightarrow> rx_data \<Rightarrow> nat option \<Rightarrow> data_receive_res \<Rightarrow> shared \<Rightarrow> (data_receive_res \<times> shared) option" where
  "received_loop client d i res w =
     (case i of
        None \<Rightarrow> Some (res, w)
      | Some item \<Rightarrow>
          do {
            (res, w) \<leftarrow>
              (if filter_received_packet (sd_filter (sd_items w item)) d then
                 do {
                   (cb_res, w) \<leftarrow> call_received_cb client item d w;
                   Some (if cb_res = APP_LIB_DATA_RECEIVE_RES_HANDLED \<and> res = APP_LIB_DATA_RECEIVE_RES_NOT_FOR_APP
                         then (cb_res, w)
                         else if cb_res = APP_LIB_DATA_RECEIVE_RES_NO_SPACE
                         then (cb_res, upd_item item (\<lambda>it. it\<lparr>sd_reserved3 := True\<rparr>) w)
                         else (res, w))
                 }
               else Some (res, w));
            received_loop client d (sl_list_next (snd (m_shared_data_head w)) item) res w
          })"

definition received_cb :: "sd_client \<Rightarrow> rx_data \<Rightarrow> shared \<Rightarrow> (data_receive_res \<times> shared) option" where
  "received_cb client d w =
     do {
       (res, w) \<leftarrow> received_loop client d (sl_next (fst (m_shared_data_head w)))
                    APP_LIB_DATA_RECEIVE_RES_NOT_FOR_APP (w\<lparr>m_iterating_list := True\<rparr>);
       w \<leftarrow> delete_marked_items w;
       Some (res, w)
     }"

subsection \<open>Tracked packets\<close>

definition sent_cb :: "u16 \<Rightarrow> shared \<Rightarrow> shared option" where
  "sent_cb tracking_id w =
     do {
       t \<leftarrow> rd (m_tracked_packets w) (unat tracking_id);
       Some (case tp_cb t of
               None \<Rightarrow> w
             | Some cb \<Rightarrow> w\<lparr>m_tracked_packets := (m_tracked_packets w)[unat tracking_id := t\<lparr>tp_cb := None\<rparr>],
                            sd_sent := sd_sent w @ [(cb, tp_id t)]\<rparr>)
     }"

record to_send =
  ts_flags :: u8
  ts_tracking_id :: u16

text \<open>The search for a free slot: \<open>Inl ()\<close> when the same callback uses the id already, else
  the first free slot.\<close>

fun slot_scan :: "nat \<Rightarrow> u16 \<Rightarrow> tracked_packet list \<Rightarrow> nat \<Rightarrow> nat option \<Rightarrow> unit + nat option" where
  "slot_scan cb mid [] i free = Inr free"
| "slot_scan cb mid (t # ts) i free =
     (if tp_cb t = None then slot_scan cb mid ts (i + 1) (if free = None then Some i else free)
      else if tp_cb t = Some cb \<and> tp_id t = mid then Inl ()
      else slot_scan cb mid ts (i + 1) free)"

definition Shared_Data_sendData ::
  "(to_send \<Rightarrow> data_send_res) \<Rightarrow> to_send \<Rightarrow> nat option \<Rightarrow> shared \<Rightarrow> (data_send_res \<times> to_send \<times> shared) option" where
  "Shared_Data_sendData sendData d cb w =
     (if \<not> sd_initialized w then Some (APP_LIB_DATA_SEND_RES_UNINITIALIZED, d, w)
      else case cb of
        None \<Rightarrow>
          (let d = d\<lparr>ts_flags := ts_flags d AND NOT 1, ts_tracking_id := -1\<rparr> in Some (sendData d, d, w))
      | Some c \<Rightarrow>
          (case slot_scan c (ts_tracking_id d) (m_tracked_packets w) 0 None of
             Inl _ \<Rightarrow> Some (APP_LIB_DATA_SEND_RES_INVALID_TRACKING_ID, d, w)
           | Inr None \<Rightarrow> Some (APP_LIB_DATA_SEND_RES_OUT_OF_TRACKING_IDS, d, w)
           | Inr (Some slot) \<Rightarrow>
               do {
                 ts \<leftarrow> wr (m_tracked_packets w) slot \<lparr>tp_cb = Some c, tp_id = ts_tracking_id d\<rparr>;
                 let w = w\<lparr>m_tracked_packets := ts\<rparr>;
                 let d = d\<lparr>ts_flags := ts_flags d OR 1, ts_tracking_id := of_nat slot\<rparr>;
                 let res = sendData d;
                 if res \<noteq> APP_LIB_DATA_SEND_RES_SUCCESS then
                   do {
                     t \<leftarrow> rd (m_tracked_packets w) (unat (ts_tracking_id d));
                     ts \<leftarrow> wr (m_tracked_packets w) (unat (ts_tracking_id d)) (t\<lparr>tp_cb := None\<rparr>);
                     Some (res, d, w\<lparr>m_tracked_packets := ts\<rparr>)
                   }
                 else Some (res, d, w)
               }))"

subsection \<open>Removal\<close>

text \<open>\<open>sd_list w l\<close>: the filters are those of \<open>l\<close>, in the order of registration.\<close>

abbreviation sd_list :: "shared \<Rightarrow> nat list \<Rightarrow> bool" where
  "sd_list w l \<equiv> sl_repr (m_shared_data_head w) l"

abbreviation marked :: "shared \<Rightarrow> nat \<Rightarrow> bool" where
  "marked w i \<equiv> sd_reserved2 (sd_items w i)"

abbreviation busy :: "shared \<Rightarrow> nat \<Rightarrow> bool" where
  "busy w i \<equiv> sd_reserved3 (sd_items w i)"

text \<open>The first element of the rest of a list, as the pointer to it.\<close>

definition first_of :: "'a list \<Rightarrow> 'a option" where
  "first_of xs = (case xs of [] \<Rightarrow> None | x # _ \<Rightarrow> Some x)"

lemma first_of_simps [simp]: "first_of [] = None" "first_of (x # xs) = Some x"
  by (simp_all add: first_of_def)

lemma sl_repr_first: "sl_repr s l \<Longrightarrow> sl_next (fst s) = first_of l"
  by (cases l) (auto simp: sl_repr_def)

lemma sl_repr_step: "sl_repr s (xs @ y # ys) \<Longrightarrow> sl_list_next (snd s) y = first_of ys"
  by (cases ys) (auto simp: sl_repr_def seg_append sl_list_next_def)

lemma upd_item_simps [simp]:
  "m_shared_data_head (upd_item i f w) = m_shared_data_head w"
  "m_iterating_list (upd_item i f w) = m_iterating_list w"
  "sd_received (upd_item i f w) = sd_received w"
  "sd_allow_calls (upd_item i f w) = sd_allow_calls w"
  "sd_items (upd_item i f w) = (sd_items w)(i := f (sd_items w i))"
  by (simp_all add: upd_item_def)

text \<open>As \<open>sl_list_remove\<close> returns the element whether or not it was in the list, the
  branch that would enable reception again is never taken.\<close>

lemma remove_now:
  assumes "sd_list w l" "\<not> m_iterating_list w"
  shows "\<exists>s. sd_run (Remove i) w = Some (w\<lparr>m_shared_data_head := s\<rparr>) \<and> sl_repr s (removeAll i l)"
proof -
  obtain s where "sl_list_remove (m_shared_data_head w) i = Some (i, s)" "sl_repr s (removeAll i l)"
    using sl_list_remove_repr [OF assms(1), of i] by blast
  then show ?thesis using assms(2) by (intro exI [of _ s]) (simp add: sd_run.simps)
qed

lemma remove_later:
  "m_iterating_list w \<Longrightarrow> sd_run (Remove i) w = Some (upd_item i (\<lambda>it. it\<lparr>sd_reserved2 := True\<rparr>) w)"
  by (simp add: sd_run.simps)

lemma delete_from_run:
  assumes "sd_list w (xs @ ys)" "\<not> m_iterating_list w"
  shows "\<exists>s. sd_run (Delete_from (first_of ys)) w = Some (w\<lparr>m_shared_data_head := s\<rparr>) \<and>
     sl_repr s (xs @ filter (\<lambda>i. \<not> marked w i) ys)"
  using assms
proof (induction ys arbitrary: w xs)
  case Nil
  then show ?case by (intro exI [of _ "m_shared_data_head w"]) (simp add: sd_run.simps)
next
  case (Cons y ys)
  have y: "y \<notin> set xs" "y \<notin> set ys" using sl_repr_distinct [OF Cons.prems(1)] by auto
  have n: "sl_list_next (snd (m_shared_data_head w)) y = first_of ys" by (rule sl_repr_step [OF Cons.prems(1)])
  show ?case
  proof (cases "marked w y")
    case True
    obtain s where s: "sd_run (Remove y) w = Some (w\<lparr>m_shared_data_head := s\<rparr>)" "sl_repr s (xs @ ys)"
      using remove_now [OF Cons.prems, of y] y by auto
    with Cons.IH [of "w\<lparr>m_shared_data_head := s\<rparr>" xs] Cons.prems(2) True n show ?thesis
      by (auto simp: sd_run.simps [of "Delete_from (Some y)"])
  next
    case False
    with Cons.IH [of w "xs @ [y]"] Cons.prems n show ?thesis
      by (auto simp: sd_run.simps [of "Delete_from (Some y)"])
  qed
qed

lemma delete_marked_run:
  assumes "sd_list w l"
  shows "\<exists>s. delete_marked_items w = Some (w\<lparr>m_iterating_list := False, m_shared_data_head := s\<rparr>) \<and>
     sl_repr s (filter (\<lambda>i. \<not> marked w i) l)"
  using delete_from_run [of "w\<lparr>m_iterating_list := False\<rparr>" "[]" l] assms sl_repr_first [OF assms]
  by (auto simp: delete_marked_items_def sd_run.simps [of Delete])

lemma enable_run:
  assumes "sd_list w l"
  shows "\<exists>s. enable_reception_if_needed w =
      Some (w\<lparr>m_iterating_list := False, m_shared_data_head := s,
        sd_allow_calls := sd_allow_calls w + (if \<exists>i \<in> set l. busy w i then 0 else 1)\<rparr>) \<and>
     sl_repr s (filter (\<lambda>i. \<not> marked w i) l)"
proof -
  have "sl_search_loop (snd (m_shared_data_head w)) (busy w) (sl_next (fst (m_shared_data_head w))) =
      Some (List.find (busy w) l)"
    using assms by (intro sl_search_loop_seg) (simp add: sl_repr_def)
  moreover have "List.find (busy w) l = None \<longleftrightarrow> \<not> (\<exists>i \<in> set l. busy w i)" by (auto simp: find_None_iff)
  moreover obtain s where "sd_run Delete (w\<lparr>m_iterating_list := True\<rparr>) =
      Some (w\<lparr>m_iterating_list := False, m_shared_data_head := s\<rparr>)" "sl_repr s (filter (\<lambda>i. \<not> marked w i) l)"
    using delete_marked_run [of "w\<lparr>m_iterating_list := True\<rparr>" l] assms by (auto simp: delete_marked_items_def)
  ultimately show ?thesis
    by (intro exI [of _ s]) (simp add: enable_reception_if_needed_def sd_run.simps [of Enable] del: not_None_eq)
qed

subsection \<open>Dispatch of a packet\<close>

text \<open>Clients that call the library from their callbacks only to remove filters.\<close>

definition only_removes :: "sd_client \<Rightarrow> bool" where
  "only_removes client \<longleftrightarrow> (\<forall>cb i d w. list_all (\<lambda>c. \<exists>j. c = Call_remove j) (fst (client cb i d w)))"

text \<open>What a callback may change of the items: they may be marked.\<close>

definition marks :: "shared \<Rightarrow> shared \<Rightarrow> bool" where
  "marks w w' \<longleftrightarrow> (\<exists>M. w' = w\<lparr>sd_items := (\<lambda>i. (sd_items w i)\<lparr>sd_reserved2 := sd_reserved2 (sd_items w i) \<or> i \<in> M\<rparr>)\<rparr>)"

lemma marks_refl: "marks w w"
  unfolding marks_def by (rule exI [of _ "{}"]) simp

lemma marks_trans: "marks u v \<Longrightarrow> marks v w \<Longrightarrow> marks u w"
  unfolding marks_def by (elim exE, rule_tac x = "M \<union> Ma" in exI) (simp add: disj_assoc)

lemma client_calls_marks:
  assumes "list_all (\<lambda>c. \<exists>j. c = Call_remove j) cs" "m_iterating_list w"
  shows "\<exists>w'. client_calls cs w = Some w' \<and> marks w w'"
  using assms
proof (induction cs arbitrary: w)
  case Nil
  then show ?case by (simp add: marks_refl)
next
  case (Cons c cs)
  then obtain j where c: "c = Call_remove j" by auto
  let ?w = "upd_item j (\<lambda>it. it\<lparr>sd_reserved2 := True\<rparr>) w"
  have "marks w ?w" unfolding marks_def
    by (rule exI [of _ "{j}"]) (simp add: upd_item_def fun_upd_def fun_eq_iff)
  with Cons.IH [of ?w] Cons.prems c show ?case
    by (auto simp: client_call_def Shared_Data_removeDataReceivedCb_def remove_later intro: marks_trans)
qed

text \<open>The result of a reception from the results of the callbacks.\<close>

definition reception_result :: "data_receive_res \<Rightarrow> data_receive_res list \<Rightarrow> data_receive_res" where
  "reception_result res rs =
     (if APP_LIB_DATA_RECEIVE_RES_NO_SPACE \<in> set rs then APP_LIB_DATA_RECEIVE_RES_NO_SPACE
      else if res = APP_LIB_DATA_RECEIVE_RES_NOT_FOR_APP \<and> APP_LIB_DATA_RECEIVE_RES_HANDLED \<in> set rs
      then APP_LIB_DATA_RECEIVE_RES_HANDLED else res)"

definition next_result :: "data_receive_res \<Rightarrow> data_receive_res \<Rightarrow> data_receive_res" where
  "next_result res r =
     (if r = APP_LIB_DATA_RECEIVE_RES_HANDLED \<and> res = APP_LIB_DATA_RECEIVE_RES_NOT_FOR_APP then r
      else if r = APP_LIB_DATA_RECEIVE_RES_NO_SPACE then r else res)"

lemma reception_result_simps:
  "reception_result res [] = res"
  "reception_result res (r # rs) = reception_result (next_result res r) rs"
  by (cases r; cases res; simp add: reception_result_def next_result_def)+

text \<open>What stays of the state while the list is walked: the list itself, the filters and the
  marks.\<close>

definition walk_keeps :: "shared \<Rightarrow> shared \<Rightarrow> bool" where
  "walk_keeps w w' \<longleftrightarrow> m_shared_data_head w' = m_shared_data_head w \<and> m_iterating_list w' = m_iterating_list w \<and>
     sd_allow_calls w' = sd_allow_calls w \<and>
     (\<forall>i. sd_filter (sd_items w' i) = sd_filter (sd_items w i) \<and> sd_cb (sd_items w' i) = sd_cb (sd_items w i) \<and>
       (marked w i \<longrightarrow> marked w' i))"

lemma walk_keeps_refl: "walk_keeps w w"
  by (simp add: walk_keeps_def)

lemma walk_keeps_trans: "walk_keeps u v \<Longrightarrow> walk_keeps v w \<Longrightarrow> walk_keeps u w"
  by (simp add: walk_keeps_def)

lemma marks_keeps: "marks w w' \<Longrightarrow> walk_keeps w w' \<and> sd_received w' = sd_received w \<and> busy w' i = busy w i"
  by (auto simp: marks_def walk_keeps_def)

lemma call_received_run:
  assumes "only_removes client" "m_iterating_list w" "sd_cb (sd_items w i) \<noteq> None"
  shows "\<exists>r w'. call_received_cb client i d w = Some (r, w') \<and> walk_keeps w w' \<and>
     sd_received w' = sd_received w @ [(i, r)] \<and> (\<forall>j. busy w' j = busy w j)"
proof -
  obtain cb calls r where cb: "sd_cb (sd_items w i) = Some cb" "client cb i d w = (calls, r)" using assms(3) by fastforce
  let ?w = "w\<lparr>sd_received := sd_received w @ [(i, r)]\<rparr>"
  have "list_all (\<lambda>c. \<exists>j. c = Call_remove j) calls"
    using assms(1) cb(2) unfolding only_removes_def by (metis fst_conv)
  from client_calls_marks [OF this, of ?w] assms(2) obtain w' where
    w': "client_calls calls ?w = Some w'" "marks ?w w'" by auto
  then have "walk_keeps w w'" "sd_received w' = sd_received w @ [(i, r)]" "\<And>j. busy w' j = busy w j"
    using marks_keeps [OF w'(2)] by (simp_all add: walk_keeps_def)
  with w'(1) cb show ?thesis by (simp add: call_received_cb_def)
qed

lemma received_loop_run:
  assumes "only_removes client" "sd_list w (xs @ ys)" "m_iterating_list w" "\<forall>i \<in> set ys. sd_cb (sd_items w i) \<noteq> None"
  shows "\<exists>w' rs. received_loop client d (first_of ys) res w = Some (reception_result res (map snd rs), w') \<and>
     walk_keeps w w' \<and> sd_received w' = sd_received w @ rs \<and>
     map fst rs = filter (\<lambda>i. filter_received_packet (sd_filter (sd_items w i)) d) ys \<and>
     (\<forall>i. busy w' i \<longleftrightarrow> busy w i \<or> (i, APP_LIB_DATA_RECEIVE_RES_NO_SPACE) \<in> set rs)"
  using assms
proof (induction ys arbitrary: w xs res)
  case Nil
  then show ?case
    by (intro exI [of _ w] exI [of _ "[]"]) (simp add: received_loop.simps reception_result_simps walk_keeps_refl)
next
  case (Cons y ys)
  let ?f = "\<lambda>w i. filter_received_packet (sd_filter (sd_items w i)) d"
  have n: "sl_list_next (snd (m_shared_data_head w)) y = first_of ys" by (rule sl_repr_step [OF Cons.prems(2)])
  have rest: "\<exists>w' rs. received_loop client d (first_of ys) res' v = Some (reception_result res' (map snd rs), w') \<and>
     walk_keeps v w' \<and> sd_received w' = sd_received v @ rs \<and> map fst rs = filter (?f w) ys \<and>
     (\<forall>i. busy w' i \<longleftrightarrow> busy v i \<or> (i, APP_LIB_DATA_RECEIVE_RES_NO_SPACE) \<in> set rs)"
    if "walk_keeps w v" for v res'
    using Cons.IH [of v "xs @ [y]" res'] Cons.prems that by (simp add: walk_keeps_def)
  show ?case
  proof (cases "?f w y")
    case False
    with rest [OF walk_keeps_refl, of res] n show ?thesis by (simp add: received_loop.simps [of client d "Some y"])
  next
    case True
    obtain r v where v: "call_received_cb client y d w = Some (r, v)" "walk_keeps w v"
      "sd_received v = sd_received w @ [(y, r)]" "\<And>j. busy v j = busy w j"
      using call_received_run [OF Cons.prems(1,3), of y d] Cons.prems(4) by auto
    let ?v = "if r = APP_LIB_DATA_RECEIVE_RES_NO_SPACE then upd_item y (\<lambda>it. it\<lparr>sd_reserved3 := True\<rparr>) v else v"
    have k: "walk_keeps w ?v" using v(2) by (simp add: walk_keeps_def)
    then have nv: "sl_list_next (snd (m_shared_data_head ?v)) y = first_of ys" using n by (simp add: walk_keeps_def)
    have "received_loop client d (Some y) res w = received_loop client d (first_of ys) (next_result res r) ?v"
      using True v(1) nv by (cases r) (auto simp: received_loop.simps [of client d "Some y"] next_result_def)
    moreover obtain w' rs where w': "received_loop client d (first_of ys) (next_result res r) ?v =
        Some (reception_result (next_result res r) (map snd rs), w')" "walk_keeps ?v w'"
      "sd_received w' = sd_received ?v @ rs" "map fst rs = filter (?f w) ys"
      "\<And>i. busy w' i \<longleftrightarrow> busy ?v i \<or> (i, APP_LIB_DATA_RECEIVE_RES_NO_SPACE) \<in> set rs"
      using rest [OF k, of "next_result res r"] by blast
    moreover have "busy ?v i \<longleftrightarrow> busy w i \<or> (i, APP_LIB_DATA_RECEIVE_RES_NO_SPACE) = (y, r)" for i using v(4) by auto
    ultimately show ?thesis using True v(3) walk_keeps_trans [OF k w'(2)]
      by (intro exI [of _ w'] exI [of _ "(y, r) # rs"]) (simp add: reception_result_simps)
  qed
qed

subsection \<open>Slots of tracked packets\<close>

definition used_by :: "nat \<Rightarrow> u16 \<Rightarrow> tracked_packet \<Rightarrow> bool" where
  "used_by cb mid t \<longleftrightarrow> tp_cb t = Some cb \<and> tp_id t = mid"

definition free_slot :: "tracked_packet \<Rightarrow> bool" where
  "free_slot t \<longleftrightarrow> tp_cb t = None"

lemma slot_scan_eq:
  "slot_scan cb mid ts i free =
     (if \<exists>t \<in> set ts. used_by cb mid t then Inl ()
      else Inr (case free of Some k \<Rightarrow> Some k | None \<Rightarrow> map_option ((+) i) (first_index free_slot ts)))"
proof (induction ts arbitrary: i free)
  case Nil
  then show ?case by (cases free) simp_all
next
  case (Cons t ts)
  show ?case
    by (cases "tp_cb t"; cases free; cases "first_index free_slot ts") (auto simp: Cons.IH used_by_def free_slot_def)
qed

text \<open>No two outstanding packets of one callback have the same id.\<close>

definition tracked_unique :: "tracked_packet list \<Rightarrow> bool" where
  "tracked_unique ts \<longleftrightarrow>
     (\<forall>i < length ts. \<forall>j < length ts. \<forall>cb. tp_cb (ts ! i) = Some cb \<longrightarrow> used_by cb (tp_id (ts ! i)) (ts ! j) \<longrightarrow> i = j)"

lemma tracked_unique_insert:
  "tracked_unique ts \<Longrightarrow> \<not> (\<exists>t \<in> set ts. used_by cb mid t) \<Longrightarrow>
     tracked_unique (ts[k := \<lparr>tp_cb = Some cb, tp_id = mid\<rparr>])"
  unfolding tracked_unique_def used_by_def length_list_update
proof (intro allI impI, goal_cases)
  case (1 i j c)
  then show ?case using nth_mem [of i ts] nth_mem [of j ts] by (cases "i = k"; cases "j = k") auto
qed

lemma tracked_unique_clear: "tracked_unique ts \<Longrightarrow> tracked_unique (ts[k := t\<lparr>tp_cb := None\<rparr>])"
  unfolding tracked_unique_def used_by_def length_list_update
proof (intro allI impI, goal_cases)
  case (1 i j c)
  then show ?case by (cases "i = k"; cases "j = k") auto
qed

subsection \<open>Properties\<close>

text \<open>C15: a received packet is given, in the order of registration, to exactly the filters
  that accept it, also when callbacks remove filters, their own included: removed filters
  leave the list when the walk is over.  The stack gets \<open>NO_SPACE\<close> when some client had
  none, then \<open>HANDLED\<close> when some client took the packet, and the clients without
  space, and no others, become busy.\<close>

theorem packet_dispatch:
  assumes "only_removes client" "sd_list w l" "\<forall>i \<in> set l. sd_cb (sd_items w i) \<noteq> None"
  shows "\<exists>w' rs. received_cb client d w =
        Some (reception_result APP_LIB_DATA_RECEIVE_RES_NOT_FOR_APP (map snd rs), w') \<and>
     sd_received w' = sd_received w @ rs \<and>
     map fst rs = filter (\<lambda>i. filter_received_packet (sd_filter (sd_items w i)) d) l \<and>
     sd_list w' (filter (\<lambda>i. \<not> marked w' i) l) \<and> \<not> m_iterating_list w' \<and>
     (\<forall>i. busy w' i \<longleftrightarrow> busy w i \<or> (i, APP_LIB_DATA_RECEIVE_RES_NO_SPACE) \<in> set rs)"
proof -
  let ?w = "w\<lparr>m_iterating_list := True\<rparr>"
  obtain v rs where v: "received_loop client d (first_of l) APP_LIB_DATA_RECEIVE_RES_NOT_FOR_APP ?w =
      Some (reception_result APP_LIB_DATA_RECEIVE_RES_NOT_FOR_APP (map snd rs), v)" "walk_keeps ?w v"
    "sd_received v = sd_received w @ rs" "map fst rs = filter (\<lambda>i. filter_received_packet (sd_filter (sd_items w i)) d) l"
    "\<forall>i. busy v i \<longleftrightarrow> busy w i \<or> (i, APP_LIB_DATA_RECEIVE_RES_NO_SPACE) \<in> set rs"
    using received_loop_run [OF assms(1), of ?w "[]" l d APP_LIB_DATA_RECEIVE_RES_NOT_FOR_APP] assms by auto
  have "sd_list v l" using v(2) assms(2) by (simp add: walk_keeps_def)
  from delete_marked_run [OF this] obtain s where
    "delete_marked_items v = Some (v\<lparr>m_iterating_list := False, m_shared_data_head := s\<rparr>)"
    "sl_repr s (filter (\<lambda>i. \<not> marked v i) l)" by blast
  with v sl_repr_first [OF assms(2)] show ?thesis
    by (intro exI [of _ "v\<lparr>m_iterating_list := False, m_shared_data_head := s\<rparr>"] exI [of _ rs]) (simp add: received_cb_def)
qed

definition any_filter :: sd_filter where
  "any_filter = \<lparr>sf_mode = SHARED_DATA_NET_MODE_ALL, sf_src_endpoint = -1, sf_dest_endpoint = -1, sf_multicast_cb = None\<rparr>"

text \<open>Two filters, of which the second is busy.\<close>

definition two_filters :: shared where
  "two_filters = \<lparr>m_shared_data_head = (\<lparr>sl_next = Some 1, sl_last = Some 2, sl_size = 2\<rparr>, [1 \<mapsto> 2]),
     sd_items = (\<lambda>i. \<lparr>sd_reserved2 = False, sd_reserved3 = (i = 2), sd_cb = Some i, sd_filter = any_filter\<rparr>),
     m_iterating_list = False, m_tracked_packets = [\<lparr>tp_cb = Some 1, tp_id = 7\<rparr>, \<lparr>tp_cb = None, tp_id = 0\<rparr>],
     sd_initialized = True, sd_allow_calls = 0, sd_received = [], sd_sent = []\<rparr>"

lemma two_filters_list: "sd_list two_filters [1, 2]"
  by (simp add: two_filters_def sl_repr_def cursor_def)

definition remove_own :: sd_client where
  "remove_own = (\<lambda>cb i d w. ([Call_remove i], APP_LIB_DATA_RECEIVE_RES_HANDLED))"

definition packet_example :: rx_data where
  "packet_example = \<lparr>rx_dest_address = 5, rx_src_endpoint = 1, rx_dest_endpoint = 2\<rparr>"

theorem packet_dispatch_witness:
  "\<exists>w' rs. received_cb remove_own packet_example two_filters =
     Some (reception_result APP_LIB_DATA_RECEIVE_RES_NOT_FOR_APP (map snd rs), w') \<and> map fst rs = [1 :: nat, 2]"
proof -
  have c: "only_removes remove_own" by (simp add: only_removes_def remove_own_def)
  have f: "filter_received_packet any_filter packet_example"
    by (simp add: filter_received_packet_def any_filter_def IS_MULTICAST_ADDRESS_def SHARED_DATA_UNUSED_ENDPOINT_def
        SHARED_DATA_NET_MODE_ALL_def SHARED_DATA_NET_MODE_UNICAST_def SHARED_DATA_NET_MODE_BROADCAST_def
        SHARED_DATA_NET_MODE_MULTICAST_def APP_ADDR_MULTICAST_def packet_example_def)
  have i: "\<forall>i \<in> set [1, 2]. sd_cb (sd_items two_filters i) \<noteq> None" "\<And>i. sd_filter (sd_items two_filters i) = any_filter"
    by (simp_all add: two_filters_def)
  from packet_dispatch [OF c two_filters_list i(1), of packet_example] obtain w' rs where
    "received_cb remove_own packet_example two_filters =
       Some (reception_result APP_LIB_DATA_RECEIVE_RES_NOT_FOR_APP (map snd rs), w')"
    "map fst rs = filter (\<lambda>i. filter_received_packet (sd_filter (sd_items two_filters i)) packet_example) [1, 2]" by blast
  then show ?thesis by (intro exI [of _ w'] exI [of _ rs]) (simp add: i(2) f)
qed

text \<open>A filter without space that reports ready lets the stack deliver packets again
  exactly when no other filter of the list is busy; a filter that was not busy changes
  nothing.\<close>

lemma flow_control_resumes:
  assumes "sd_list w l" "\<not> m_iterating_list w" "\<forall>i \<in> set l. \<not> marked w i"
  shows "\<exists>w'. Shared_Data_readyToReceive i w = Some (APP_RES_OK, w') \<and> sd_list w' l \<and> \<not> busy w' i \<and>
     sd_allow_calls w' = sd_allow_calls w + (if busy w i \<and> (\<forall>j \<in> set l. j \<noteq> i \<longrightarrow> \<not> busy w j) then 1 else 0)"
proof (cases "busy w i")
  case False
  with assms show ?thesis by (simp add: Shared_Data_readyToReceive_def)
next
  case True
  let ?w = "upd_item i (\<lambda>it. it\<lparr>sd_reserved3 := False\<rparr>) w"
  obtain s where s: "enable_reception_if_needed ?w = Some (?w\<lparr>m_iterating_list := False, m_shared_data_head := s,
        sd_allow_calls := sd_allow_calls w + (if \<exists>j \<in> set l. busy ?w j then 0 else 1)\<rparr>)"
    "sl_repr s (filter (\<lambda>j. \<not> marked ?w j) l)"
    using enable_run [of ?w l] assms(1) by auto
  moreover have "filter (\<lambda>j. \<not> marked ?w j) l = l" using assms(3) by (simp add: filter_id_conv)
  moreover have "(\<exists>j \<in> set l. busy ?w j) \<longleftrightarrow> \<not> (\<forall>j \<in> set l. j \<noteq> i \<longrightarrow> \<not> busy w j)" by auto
  ultimately show ?thesis using True
    by (auto simp: Shared_Data_readyToReceive_def)
qed

lemma flow_control_resumes_example:
  "\<exists>w'. Shared_Data_readyToReceive 2 two_filters = Some (APP_RES_OK, w') \<and> sd_allow_calls w' = 1"
  using flow_control_resumes [OF two_filters_list, of 2] by (auto simp: two_filters_def)

text \<open>Removing the only busy filter does not let the stack deliver packets again, and
  no call of the remaining filters does: \<open>sl_list_remove\<close> returns its argument, so the
  branch that would look for busy filters, and clear the item, is never taken.\<close>

lemma busy_filter_removal_blocks:
  assumes "sd_list w l" "\<not> m_iterating_list w" "i \<in> set l" "busy w i" "\<forall>j \<in> set l. j \<noteq> i \<longrightarrow> \<not> busy w j"
  shows "\<exists>w'. Shared_Data_removeDataReceivedCb i w = Some w' \<and> sd_list w' (removeAll i l) \<and>
     sd_items w' = sd_items w \<and> sd_allow_calls w' = sd_allow_calls w \<and>
     (\<forall>j \<in> set (removeAll i l). Shared_Data_readyToReceive j w' = Some (APP_RES_OK, w'))"
  using remove_now [OF assms(1,2), of i] assms(5)
  by (auto simp: Shared_Data_removeDataReceivedCb_def Shared_Data_readyToReceive_def)

lemma busy_filter_removal_blocks_example:
  "\<exists>w'. Shared_Data_removeDataReceivedCb 2 two_filters = Some w' \<and> sd_list w' [1] \<and> sd_allow_calls w' = 0"
  using busy_filter_removal_blocks [OF two_filters_list, of 2] by (auto simp: two_filters_def)

text \<open>A tracked packet is refused when its module has another one of the same id on its
  way, or when there is no free slot, and then nothing changes.  Otherwise the stack gets
  the index of a free slot as id; when it refuses the packet the slot is free again, and
  when it takes it the report of the stack on that index calls the module back with the
  id the module gave.\<close>

lemma tracked_send:
  assumes "sd_initialized w" "length (m_tracked_packets w) \<le> 2 ^ 16" "tracked_unique (m_tracked_packets w)"
  shows "\<exists>res d' w'. Shared_Data_sendData send d (Some cb) w = Some (res, d', w') \<and> tracked_unique (m_tracked_packets w') \<and>
     (if \<exists>t \<in> set (m_tracked_packets w). used_by cb (ts_tracking_id d) t
      then res = APP_LIB_DATA_SEND_RES_INVALID_TRACKING_ID \<and> d' = d \<and> w' = w
      else if \<forall>t \<in> set (m_tracked_packets w). \<not> free_slot t
      then res = APP_LIB_DATA_SEND_RES_OUT_OF_TRACKING_IDS \<and> d' = d \<and> w' = w
      else res = send d' \<and> (\<exists>k < length (m_tracked_packets w).
        free_slot (m_tracked_packets w ! k) \<and> d' = d\<lparr>ts_flags := ts_flags d OR 1, ts_tracking_id := of_nat k\<rparr> \<and>
        (\<forall>j. j \<noteq> k \<longrightarrow> m_tracked_packets w' ! j = m_tracked_packets w ! j) \<and>
        (if res = APP_LIB_DATA_SEND_RES_SUCCESS
         then \<exists>w''. sent_cb (ts_tracking_id d') w' = Some w'' \<and> sd_sent w'' = sd_sent w @ [(cb, ts_tracking_id d)] \<and>
                free_slot (m_tracked_packets w'' ! k)
         else free_slot (m_tracked_packets w' ! k))))"
proof (cases "(\<exists>t \<in> set (m_tracked_packets w). used_by cb (ts_tracking_id d) t) \<or> (\<forall>t \<in> set (m_tracked_packets w). \<not> free_slot t)")
  case True
  then have "first_index free_slot (m_tracked_packets w) = None" if "\<not> (\<exists>t \<in> set (m_tracked_packets w). used_by cb (ts_tracking_id d) t)"
    using that by (auto simp: first_index_None)
  with True assms show ?thesis by (auto simp: Shared_Data_sendData_def slot_scan_eq)
next
  case False
  let ?ts = "m_tracked_packets w"
  obtain k where k: "first_index free_slot ?ts = Some k"
    using False first_index_None [of free_slot ?ts] by fastforce
  note kd = first_index_SomeD [OF k]
  have u: "unat (of_nat k :: u16) = k" using kd assms(2) by (intro unat_of_nat_small) simp
  let ?ts' = "?ts[k := \<lparr>tp_cb = Some cb, tp_id = ts_tracking_id d\<rparr>]"
  let ?d = "d\<lparr>ts_flags := ts_flags d OR 1, ts_tracking_id := of_nat k\<rparr>"
  have un: "tracked_unique ?ts'" using False assms(3) by (intro tracked_unique_insert) auto
  have "Shared_Data_sendData send d (Some cb) w = Some (send ?d, ?d,
     w\<lparr>m_tracked_packets := if send ?d = APP_LIB_DATA_SEND_RES_SUCCESS then ?ts'
        else ?ts'[k := (?ts' ! k)\<lparr>tp_cb := None\<rparr>]\<rparr>)"
    using False assms(1) k kd u by (auto simp: Shared_Data_sendData_def slot_scan_eq wr_def rd_def Let_def)
  moreover have "tracked_unique (?ts'[k := (?ts' ! k)\<lparr>tp_cb := None\<rparr>])" by (rule tracked_unique_clear [OF un])
  ultimately show ?thesis using False kd u un
    by (auto simp: sent_cb_def rd_def free_slot_def intro!: exI [of _ k])
qed

lemma tracked_send_example:
  "\<exists>res d' w'. Shared_Data_sendData (\<lambda>_. APP_LIB_DATA_SEND_RES_SUCCESS) \<lparr>ts_flags = 0, ts_tracking_id = 7\<rparr> (Some 2) two_filters =
     Some (res, d', w') \<and> tracked_unique (m_tracked_packets w') \<and> res = APP_LIB_DATA_SEND_RES_SUCCESS"
proof -
  have "tracked_unique (m_tracked_packets two_filters)"
    by (simp add: two_filters_def tracked_unique_def used_by_def less_Suc_eq numeral_2_eq_2 all_conj_distrib)
  with tracked_send [of two_filters "\<lambda>_. APP_LIB_DATA_SEND_RES_SUCCESS" "\<lparr>ts_flags = 0, ts_tracking_id = 7\<rparr>" 2]
  show ?thesis by (auto simp: two_filters_def used_by_def free_slot_def)
qed

end
