(* ===== verification/Shared_Appconfig.thy ===== *)
theory Shared_Appconfig
  imports Util_Tlv Wms_Api
begin

text \<open>
  \<open>libraries/shared_appconfig/shared_appconfig.c\<close>: the entries of the network wide
  application configuration are dispatched to the modules that registered for their type.

  The callbacks are recorded in \<open>ac_calls\<close>: callback, type, length and the bytes at
  the pointer (\<open>None\<close> for \<open>NULL\<close>).  The dispatch works on a copy of the filters on
  the C stack; an entry of it that was not written is \<open>None\<close>, and reading it has no
  defined result.
\<close>

subsection \<open>State and operations\<close>

datatype ac_res =
  SHARED_APP_CONFIG_RES_OK | SHARED_APP_CONFIG_RES_NO_FILTER | SHARED_APP_CONFIG_RES_INVALID_PARAM
| SHARED_APP_CONFIG_RES_INVALID_FILTER | SHARED_APP_CONFIG_RES_UNINITIALIZED | SHARED_APP_CONFIG_RES_INVALID_ROLE

datatype lib_config_res =
  APP_LIB_DATA_APP_CONFIG_RES_SUCCESS | APP_LIB_DATA_APP_CONFIG_RES_INVALID_ROLE
| APP_LIB_DATA_APP_CONFIG_RES_INVALID_APP_CONFIG | APP_LIB_DATA_APP_CONFIG_RES_INVALID_SEQ
| APP_LIB_DATA_APP_CONFIG_RES_INVALID_INTERVAL | APP_LIB_DATA_APP_CONFIG_RES_INVALID_NULL_POINTER

definition APP_CONFIG_V1_TLV :: u16 where "APP_CONFIG_V1_TLV = 0x7EF6"
definition SHARED_APP_CONFIG_ALL_TYPE_FILTER :: u16 where "SHARED_APP_CONFIG_ALL_TYPE_FILTER = 0xFFFF"
definition SHARED_APP_CONFIG_INCOMPATIBLE_FILTER :: u16 where "SHARED_APP_CONFIG_INCOMPATIBLE_FILTER = 0xFFFE"

record ac_filter =
  ac_type :: u16
  ac_cb :: "nat option"
  ac_call_cb_always :: bool

record ac_internal =
  ac_filter :: ac_filter
  ac_called :: bool

type_synonym ac_call = "nat \<times> u16 \<times> u8 \<times> u8 list option"

record appconf =
  m_filter :: "ac_filter list"
  ac_initialized :: bool
  ac_calls :: "ac_call list"

record ac_env =
  getAppConfigNumBytes :: nat
  readAppConfig :: "u8 list option"
  writeAppConfigData :: "u8 list \<Rightarrow> lib_config_res"

text \<open>The loops over the filters count with an 8-bit index and do not end for more than 255
  filters.\<close>

definition for_filters :: "(nat \<Rightarrow> 's \<Rightarrow> 's option) \<Rightarrow> nat \<Rightarrow> 's \<Rightarrow> 's option" where
  "for_filters body num s = (if 255 < num then None else foldo body [0..<num] s)"

definition filter_matches :: "u16 \<Rightarrow> ac_filter \<Rightarrow> bool" where
  "filter_matches type f \<longleftrightarrow> ac_type f = type \<or> ac_type f = SHARED_APP_CONFIG_ALL_TYPE_FILTER"

definition dispatch_one ::
  "u16 \<Rightarrow> u8 \<Rightarrow> u8 list \<Rightarrow> nat \<Rightarrow> ac_internal option list \<times> ac_call list \<Rightarrow> (ac_internal option list \<times> ac_call list) option" where
  "dispatch_one type len val i s =
     do {
       e \<leftarrow> rd (fst s) i;
       f \<leftarrow> e;
       if filter_matches type (ac_filter f) then
         do {
           cb \<leftarrow> ac_cb (ac_filter f);
           Some ((fst s)[i := Some (f\<lparr>ac_called := True\<rparr>)], snd s @ [(cb, type, len, Some val)])
         }
       else Some s
     }"

definition dispatch_to_modules ::
  "nat \<Rightarrow> u16 \<Rightarrow> u8 \<Rightarrow> u8 list \<Rightarrow> ac_internal option list \<times> ac_call list \<Rightarrow> (ac_internal option list \<times> ac_call list) option" where
  "dispatch_to_modules num type len val s = for_filters (dispatch_one type len val) num s"

definition inform_one :: "ac_internal option list \<Rightarrow> nat \<Rightarrow> ac_call list \<Rightarrow> ac_call list option" where
  "inform_one filters i calls =
     do {
       e \<leftarrow> rd filters i;
       f \<leftarrow> e;
       if \<not> ac_called f \<and> ac_call_cb_always (ac_filter f) then
         do { cb \<leftarrow> ac_cb (ac_filter f); Some (calls @ [(cb, ac_type (ac_filter f), 0, None)]) }
       else Some calls
     }"

definition inform_other_modules :: "nat \<Rightarrow> ac_internal option list \<times> ac_call list \<Rightarrow> ac_call list option" where
  "inform_other_modules num s = for_filters (inform_one (fst s)) num (snd s)"

text \<open>\<open>while (entry_number--)\<close>\<close>

fun entries_loop ::
  "nat \<Rightarrow> nat \<Rightarrow> tlv_record \<Rightarrow> ac_internal option list \<times> ac_call list \<Rightarrow> (ac_internal option list \<times> ac_call list) option" where
  "entries_loop num 0 rcd s = Some s"
| "entries_loop num (Suc n) rcd s =
     do {
       (res, rcd, item) \<leftarrow> Tlv_Decode_getNextItem rcd;
       if res = TLV_RES_ERROR then Some s
       else if res = TLV_RES_END then Some s
       else do {
         item \<leftarrow> item;
         s \<leftarrow> dispatch_to_modules num (it_type item) (it_length item) (it_value item) s;
         entries_loop num n rcd s
       }
     }"

definition inform_filters :: "ac_env \<Rightarrow> u8 list \<Rightarrow> nat \<Rightarrow> ac_internal option list \<times> ac_call list \<Rightarrow> ac_call list option" where
  "inform_filters env bytes num s =
     do {
       v0 \<leftarrow> rd bytes 0;
       v1 \<leftarrow> rd bytes 1;
       if (ucast v0 :: u16) OR push_bit 8 (ucast v1) \<noteq> APP_CONFIG_V1_TLV then
         do {
           s \<leftarrow> dispatch_to_modules num SHARED_APP_CONFIG_INCOMPATIBLE_FILTER
                 (of_nat (getAppConfigNumBytes env)) bytes s;
           inform_other_modules num s
         }
       else
         do {
           entry_number \<leftarrow> rd bytes 2;
           let rcd = Tlv_init (drop 3 bytes) (of_nat (getAppConfigNumBytes env) - 3);
           s \<leftarrow> entries_loop num (unat entry_number) rcd s;
           inform_other_modules num s
         }
     }"

text \<open>The working copy keeps the positions of the table, and \<open>nb_filter\<close> counts the filters
  in use.\<close>

definition copy_filters :: "ac_filter list \<Rightarrow> ac_internal option list" where
  "copy_filters fs = map (\<lambda>f. if ac_cb f \<noteq> None then Some \<lparr>ac_filter = f, ac_called = False\<rparr> else None) fs"

definition new_app_config_cb :: "ac_env \<Rightarrow> u8 list \<Rightarrow> appconf \<Rightarrow> appconf option" where
  "new_app_config_cb env bytes st =
     do {
       calls \<leftarrow> inform_filters env bytes (length (filter (\<lambda>f. ac_cb f \<noteq> None) (m_filter st)))
                 (copy_filters (m_filter st), ac_calls st);
       Some (st\<lparr>ac_calls := calls\<rparr>)
     }"

definition Shared_Appconfig_init :: "appconf \<Rightarrow> ac_res \<times> appconf" where
  "Shared_Appconfig_init st =
     (if ac_initialized st then (SHARED_APP_CONFIG_RES_OK, st)
      else (SHARED_APP_CONFIG_RES_OK,
            st\<lparr>m_filter := map (\<lambda>f. f\<lparr>ac_cb := None\<rparr>) (m_filter st), ac_initialized := True\<rparr>))"

text \<open>The second result is the id written by \<open>*filter_id = i\<close>.\<close>

definition Shared_Appconfig_addFilter :: "ac_env \<Rightarrow> ac_filter \<Rightarrow> appconf \<Rightarrow> (ac_res \<times> u16 option \<times> appconf) option" where
  "Shared_Appconfig_addFilter env f st =
     (if \<not> ac_initialized st then Some (SHARED_APP_CONFIG_RES_UNINITIALIZED, None, st)
      else if ac_cb f = None then Some (SHARED_APP_CONFIG_RES_INVALID_PARAM, None, st)
      else case first_index (\<lambda>g. ac_cb g = None) (m_filter st) of
        None \<Rightarrow> Some (SHARED_APP_CONFIG_RES_NO_FILTER, None, st)
      | Some i \<Rightarrow>
          (let st = st\<lparr>m_filter := (m_filter st)[i := f]\<rparr> in
           case readAppConfig env of
             None \<Rightarrow> Some (SHARED_APP_CONFIG_RES_OK, Some (of_nat i), st)
           | Some appconfig \<Rightarrow>
               do {
                 calls \<leftarrow> inform_filters env appconfig 1 ([Some \<lparr>ac_filter = f, ac_called = False\<rparr>], ac_calls st);
                 Some (SHARED_APP_CONFIG_RES_OK, Some (of_nat i), st\<lparr>ac_calls := calls\<rparr>)
               }))"

definition Shared_Appconfig_removeFilter :: "u16 \<Rightarrow> appconf \<Rightarrow> ac_res \<times> appconf" where
  "Shared_Appconfig_removeFilter filter_id st =
     (if \<not> ac_initialized st then (SHARED_APP_CONFIG_RES_UNINITIALIZED, st)
      else if unat filter_id < length (m_filter st) \<and> ac_cb (m_filter st ! unat filter_id) \<noteq> None
      then (SHARED_APP_CONFIG_RES_OK,
            st\<lparr>m_filter := (m_filter st)[unat filter_id := (m_filter st ! unat filter_id)\<lparr>ac_cb := None\<rparr>]\<rparr>)
      else (SHARED_APP_CONFIG_RES_INVALID_FILTER, st))"

definition Shared_Appconfig_setAppConfig :: "ac_env \<Rightarrow> u8 list \<Rightarrow> appconf \<Rightarrow> (ac_res \<times> appconf) option" where
  "Shared_Appconfig_setAppConfig env bytes st =
     (if \<not> ac_initialized st then Some (SHARED_APP_CONFIG_RES_UNINITIALIZED, st)
      else
        let res = writeAppConfigData env bytes in
        if res = APP_LIB_DATA_APP_CONFIG_RES_INVALID_NULL_POINTER then Some (SHARED_APP_CONFIG_RES_INVALID_PARAM, st)
        else if res = APP_LIB_DATA_APP_CONFIG_RES_INVALID_ROLE then Some (SHARED_APP_CONFIG_RES_INVALID_ROLE, st)
        else if res \<noteq> APP_LIB_DATA_APP_CONFIG_RES_SUCCESS then Some (SHARED_APP_CONFIG_RES_INVALID_PARAM, st)
        else do { st \<leftarrow> new_app_config_cb env bytes st; Some (SHARED_APP_CONFIG_RES_OK, st) })"

definition Shared_Appconfig_notifyAppConfig :: "ac_env \<Rightarrow> u8 list \<Rightarrow> appconf \<Rightarrow> (ac_res \<times> appconf) option" where
  "Shared_Appconfig_notifyAppConfig env bytes st =
     (if \<not> ac_initialized st then Some (SHARED_APP_CONFIG_RES_UNINITIALIZED, st)
      else do { st \<leftarrow> new_app_config_cb env bytes st; Some (SHARED_APP_CONFIG_RES_OK, st) })"

subsection \<open>Dispatch to a table without holes\<close>

definition cb_of :: "ac_filter \<Rightarrow> nat" where
  "cb_of f = the (ac_cb f)"

text \<open>The calls made for one entry, and those for modules that want to know of every
  configuration and have seen no entry.\<close>

definition entry_calls :: "ac_filter list \<Rightarrow> u16 \<Rightarrow> u8 \<Rightarrow> u8 list \<Rightarrow> ac_call list" where
  "entry_calls fs type len val = map (\<lambda>f. (cb_of f, type, len, Some val)) (filter (filter_matches type) fs)"

definition absent_calls :: "ac_filter list \<Rightarrow> u16 set \<Rightarrow> ac_call list" where
  "absent_calls fs types = map (\<lambda>f. (cb_of f, ac_type f, 0, None))
     (filter (\<lambda>f. ac_call_cb_always f \<and> \<not> (\<exists>t \<in> types. filter_matches t f)) fs)"

text \<open>The working copy of the filters \<open>fs\<close> after entries of some types.\<close>

definition working :: "ac_filter list \<Rightarrow> ac_internal option list \<Rightarrow> u16 set \<Rightarrow> ac_internal option list" where
  "working fs rest types =
     map (\<lambda>f. Some \<lparr>ac_filter = f, ac_called = (\<exists>t \<in> types. filter_matches t f)\<rparr>) fs @ rest"

lemma working_nth: "k < length fs \<Longrightarrow>
    rd (working fs rest types) k = Some (Some \<lparr>ac_filter = fs ! k, ac_called = (\<exists>t \<in> types. filter_matches t (fs ! k))\<rparr>)"
  by (simp add: working_def rd_def nth_append)

text \<open>The working copy in the middle of a pass: the first \<open>k\<close> filters have seen the type.\<close>

definition half_working :: "ac_filter list \<Rightarrow> ac_internal option list \<Rightarrow> u16 set \<Rightarrow> u16 \<Rightarrow> nat \<Rightarrow> ac_internal option list" where
  "half_working fs rest types type k = working (take k fs) (working (drop k fs) rest types) (insert type types)"

lemma half_working_ends:
  "half_working fs rest types type 0 = working fs rest types"
  "half_working fs rest types type (length fs) = working fs rest (insert type types)"
  by (simp_all add: half_working_def working_def)

lemma half_working_step:
  assumes "k < length fs"
  shows "rd (half_working fs rest types type k) k =
      Some (Some \<lparr>ac_filter = fs ! k, ac_called = (\<exists>t \<in> types. filter_matches t (fs ! k))\<rparr>)"
    and "(half_working fs rest types type k)[k := Some \<lparr>ac_filter = fs ! k, ac_called = (\<exists>t \<in> insert type types. filter_matches t (fs ! k))\<rparr>] =
      half_working fs rest types type (Suc k)"
proof -
  have d: "drop k fs = fs ! k # drop (Suc k) fs" "take (Suc k) fs = take k fs @ [fs ! k]"
    using assms by (simp_all add: Cons_nth_drop_Suc take_Suc_conv_app_nth)
  let ?m = "map (\<lambda>f. Some \<lparr>ac_filter = f, ac_called = (\<exists>t \<in> insert type types. filter_matches t f)\<rparr>) (take k fs)"
  have l: "length ?m = k" using assms by simp
  show "rd (half_working fs rest types type k) k =
      Some (Some \<lparr>ac_filter = fs ! k, ac_called = (\<exists>t \<in> types. filter_matches t (fs ! k))\<rparr>)"
    using l by (simp add: half_working_def working_def d(1) rd_def nth_append)
  show "(half_working fs rest types type k)[k := Some \<lparr>ac_filter = fs ! k, ac_called = (\<exists>t \<in> insert type types. filter_matches t (fs ! k))\<rparr>] =
      half_working fs rest types type (Suc k)"
    using l assms by (simp add: half_working_def working_def d list_update_append)
qed

lemma dispatch_run:
  assumes "\<forall>f \<in> set fs. ac_cb f \<noteq> None" "length fs \<le> 255"
  shows "dispatch_to_modules (length fs) type len val (working fs rest types, calls) =
     Some (working fs rest (insert type types), calls @ entry_calls fs type len val)"
proof -
  let ?st = "\<lambda>k. (half_working fs rest types type k, calls @ entry_calls (take k fs) type len val)"
  have "dispatch_one type len val k (?st k) = Some (?st (Suc k))" if k: "k < length fs" for k
  proof -
    obtain cb where cb: "ac_cb (fs ! k) = Some cb" using bspec [OF assms(1) nth_mem [OF k]] by auto
    have t: "entry_calls (take (Suc k) fs) type len val = entry_calls (take k fs) type len val @
        (if filter_matches type (fs ! k) then [(cb, type, len, Some val)] else [])"
      using k cb by (simp add: take_Suc_conv_app_nth entry_calls_def cb_of_def)
    have same: "half_working fs rest types type (Suc k) = half_working fs rest types type k" if "\<not> filter_matches type (fs ! k)"
      using half_working_step [OF k, of rest types type] that
      by (auto simp: rd_def split: if_splits) (metis list_update_id)
    from half_working_step [OF k, of rest types type] cb t same show ?thesis
      by (auto simp: dispatch_one_def)
  qed
  from foldo_upt_run [of "length fs" "dispatch_one type len val" ?st, OF this] show ?thesis
    using assms(2) by (simp add: dispatch_to_modules_def for_filters_def half_working_ends entry_calls_def)
qed

lemma inform_run:
  assumes "\<forall>f \<in> set fs. ac_cb f \<noteq> None" "length fs \<le> 255"
  shows "inform_other_modules (length fs) (working fs rest types, calls) = Some (calls @ absent_calls fs types)"
proof -
  let ?st = "\<lambda>k. calls @ absent_calls (take k fs) types"
  have "inform_one (working fs rest types) k (?st k) = Some (?st (Suc k))" if k: "k < length fs" for k
  proof -
    obtain cb where cb: "ac_cb (fs ! k) = Some cb" using bspec [OF assms(1) nth_mem [OF k]] by auto
    with k show ?thesis
      by (simp add: inform_one_def working_nth take_Suc_conv_app_nth absent_calls_def cb_of_def)
  qed
  from foldo_upt_run [of "length fs" "inform_one (working fs rest types)" ?st, OF this] show ?thesis
    using assms(2) by (simp add: inform_other_modules_def for_filters_def absent_calls_def)
qed

lemma entries_run:
  assumes "\<forall>f \<in> set fs. ac_cb f \<noteq> None" "length fs \<le> 255" "tlv_wf rcd"
  shows "\<exists>items r. tlv_decode_all n rcd = Some (items, r) \<and>
     entries_loop (length fs) n rcd (working fs rest types, calls) =
       Some (working fs rest (types \<union> it_type ` set items),
         calls @ concat (map (\<lambda>i. entry_calls fs (it_type i) (it_length i) (it_value i)) items))"
  using assms(3)
proof (induction n arbitrary: rcd types calls)
  case 0
  then show ?case by simp
next
  case (Suc n)
  obtain res rcd' it where d: "Tlv_Decode_getNextItem rcd = Some (res, rcd', it)" "tlv_wf rcd'"
    "res = TLV_RES_OK \<longrightarrow> (\<exists>i. it = Some i)" using decode_step [OF Suc.prems] by blast
  show ?case
  proof (cases res)
    case TLV_RES_OK
    with d obtain i where i: "it = Some i" by auto
    from Suc.IH [OF d(2), of "insert (it_type i) types" "calls @ entry_calls fs (it_type i) (it_length i) (it_value i)"]
    show ?thesis using d i TLV_RES_OK dispatch_run [OF assms(1,2)] by auto
  qed (use d in auto)
qed

lemma copy_compact:
  assumes "\<forall>f \<in> set fs. ac_cb f \<noteq> None" "\<forall>f \<in> set free. ac_cb f = None"
  shows "copy_filters (fs @ free) = working fs (copy_filters free) {}"
    and "length (filter (\<lambda>f. ac_cb f \<noteq> None) (fs @ free)) = length fs"
proof -
  show "copy_filters (fs @ free) = working fs (copy_filters free) {}"
    using assms(1) by (auto simp: copy_filters_def working_def)
  have "filter (\<lambda>f. ac_cb f \<noteq> None) fs = fs" "filter (\<lambda>f. ac_cb f \<noteq> None) free = []"
    using assms by (simp_all add: filter_id_conv filter_empty_conv del: not_None_eq)
  then show "length (filter (\<lambda>f. ac_cb f \<noteq> None) (fs @ free)) = length fs" by (metis append_Nil2 filter_append)
qed

definition config_version :: "u8 list \<Rightarrow> u16" where
  "config_version bytes = ucast (bytes ! 0) OR push_bit 8 (ucast (bytes ! 1))"

definition config_items :: "u8 list \<Rightarrow> tlv_item list" where
  "config_items bytes =
     fst (the (tlv_decode_all (unat (bytes ! 2)) (Tlv_init (drop 3 bytes) (of_nat (length bytes) - 3))))"

lemma config_record_wf:
  assumes "3 \<le> length bytes" "length bytes < 256"
  shows "tlv_wf (Tlv_init (drop 3 bytes) (of_nat (length bytes) - 3))"
proof -
  have "(of_nat (length bytes) - 3 :: u8) = of_nat (length bytes - 3)" using assms(1) by (simp add: of_nat_diff)
  then have "unat (of_nat (length bytes) - 3 :: u8) = length bytes - 3" using assms(2) by (simp add: unat_of_nat_small)
  then show ?thesis by (simp add: tlv_wf_def Tlv_init_def)
qed

subsection \<open>Properties\<close>

text \<open>C16: while the table of filters has no holes (a filter removed before another one leaves
  one, see \<open>removed_filter_reads_garbage\<close>), a new configuration of 3 to 255 bytes calls, for every
  entry in order, the filters of its type in the order of the table, and then the filters
  that want every configuration and have seen no entry of their type.  A configuration of
  another format goes to the filters for such, in the same way.\<close>

theorem app_config_dispatch:
  assumes "m_filter st = fs @ free" "\<forall>f \<in> set fs. ac_cb f \<noteq> None" "\<forall>f \<in> set free. ac_cb f = None" "length fs \<le> 255"
    and "length bytes = getAppConfigNumBytes env" "3 \<le> length bytes" "length bytes < 256"
  shows "new_app_config_cb env bytes st = Some (st\<lparr>ac_calls := ac_calls st @
     (if config_version bytes = APP_CONFIG_V1_TLV
      then concat (map (\<lambda>i. entry_calls fs (it_type i) (it_length i) (it_value i)) (config_items bytes)) @
        absent_calls fs (it_type ` set (config_items bytes))
      else entry_calls fs SHARED_APP_CONFIG_INCOMPATIBLE_FILTER (of_nat (length bytes)) bytes @
        absent_calls fs {SHARED_APP_CONFIG_INCOMPATIBLE_FILTER})\<rparr>)"
proof -
  let ?rcd = "Tlv_init (drop 3 bytes) (of_nat (length bytes) - 3)"
  have r: "rd bytes 0 = Some (bytes ! 0)" "rd bytes 1 = Some (bytes ! 1)" "rd bytes 2 = Some (bytes ! 2)"
    using assms(6) by (auto simp: rd_def)
  obtain items res where items: "tlv_decode_all (unat (bytes ! 2)) ?rcd = Some (items, res)"
    "entries_loop (length fs) (unat (bytes ! 2)) ?rcd (working fs (copy_filters free) {}, ac_calls st) =
       Some (working fs (copy_filters free) (it_type ` set items),
         ac_calls st @ concat (map (\<lambda>i. entry_calls fs (it_type i) (it_length i) (it_value i)) items))"
    using entries_run [OF assms(2,4) config_record_wf [OF assms(6,7)], of "unat (bytes ! 2)" "copy_filters free" "{}" "ac_calls st"] by auto
  then have "config_items bytes = items" by (simp add: config_items_def)
  then have "inform_filters env bytes (length fs) (working fs (copy_filters free) {}, ac_calls st) =
     Some (ac_calls st @ (if config_version bytes = APP_CONFIG_V1_TLV
      then concat (map (\<lambda>i. entry_calls fs (it_type i) (it_length i) (it_value i)) (config_items bytes)) @
        absent_calls fs (it_type ` set (config_items bytes))
      else entry_calls fs SHARED_APP_CONFIG_INCOMPATIBLE_FILTER (of_nat (length bytes)) bytes @
        absent_calls fs {SHARED_APP_CONFIG_INCOMPATIBLE_FILTER}))"
    using r items(2) dispatch_run [OF assms(2,4)] inform_run [OF assms(2,4)] assms(5)
    by (simp add: inform_filters_def Let_def config_version_def)
  then show ?thesis
    unfolding new_app_config_cb_def assms(1) copy_compact [OF assms(2,3)] by simp
qed

definition config_example :: "u8 list" where
  "config_example = [0xF6, 0x7E, 1, 9, 1, 42]"

definition env_example :: ac_env where
  "env_example = \<lparr>getAppConfigNumBytes = 6, readAppConfig = None, writeAppConfigData = (\<lambda>_. APP_LIB_DATA_APP_CONFIG_RES_SUCCESS)\<rparr>"

definition ac_free :: ac_filter where
  "ac_free = \<lparr>ac_type = 0, ac_cb = None, ac_call_cb_always = False\<rparr>"

definition ac_use :: "u16 \<Rightarrow> nat \<Rightarrow> ac_filter" where
  "ac_use type cb = \<lparr>ac_type = type, ac_cb = Some cb, ac_call_cb_always = True\<rparr>"

theorem app_config_dispatch_witness:
  "new_app_config_cb env_example config_example \<lparr>m_filter = [ac_use 9 1, ac_use 5 2, ac_free], ac_initialized = True, ac_calls = []\<rparr> =
   Some \<lparr>m_filter = [ac_use 9 1, ac_use 5 2, ac_free], ac_initialized = True, ac_calls = [(1, 9, 1, Some [42]), (2, 5, 0, None)]\<rparr>"
proof -
  let ?st = "\<lparr>m_filter = [ac_use 9 1, ac_use 5 2, ac_free], ac_initialized = True, ac_calls = []\<rparr>"
  have i: "config_items config_example = [\<lparr>it_value = [42], it_type = 9, it_length = 1\<rparr>]"
    by (simp add: config_items_def config_example_def Tlv_init_def Tlv_Decode_getNextItem_def rd_def Let_def)
  have v: "config_version config_example = APP_CONFIG_V1_TLV"
    by (simp add: config_version_def config_example_def APP_CONFIG_V1_TLV_def)
  have "new_app_config_cb env_example config_example ?st = Some (?st\<lparr>ac_calls := ac_calls ?st @
     (if config_version config_example = APP_CONFIG_V1_TLV
      then concat (map (\<lambda>i. entry_calls [ac_use 9 1, ac_use 5 2] (it_type i) (it_length i) (it_value i)) (config_items config_example)) @
        absent_calls [ac_use 9 1, ac_use 5 2] (it_type ` set (config_items config_example))
      else entry_calls [ac_use 9 1, ac_use 5 2] SHARED_APP_CONFIG_INCOMPATIBLE_FILTER (of_nat (length config_example)) config_example @
        absent_calls [ac_use 9 1, ac_use 5 2] {SHARED_APP_CONFIG_INCOMPATIBLE_FILTER})\<rparr>)"
    by (rule app_config_dispatch [where free = "[ac_free]"]) (simp_all add: ac_use_def ac_free_def config_example_def env_example_def)
  then show ?thesis
    by (simp add: i v entry_calls_def absent_calls_def filter_matches_def ac_use_def cb_of_def SHARED_APP_CONFIG_ALL_TYPE_FILTER_def)
qed

text \<open>When the first filter of the table has been removed and another one is still
  registered, the next configuration makes the code read a filter of the working copy that
  was never written: the copy keeps the positions of the table, the loops only count.\<close>

lemma removed_filter_reads_garbage:
  assumes "m_filter st = f # fs" "ac_cb f = None" "\<exists>g \<in> set fs. ac_cb g \<noteq> None"
  shows "new_app_config_cb env bytes st = None"
proof -
  define n where "n = length (filter (\<lambda>f. ac_cb f \<noteq> None) (m_filter st))"
  define cf where "cf = copy_filters (m_filter st)"
  have "n \<noteq> 0" using assms by (auto simp: n_def filter_empty_conv)
  then have n: "[0..<n] = 0 # [1..<n]" by (simp add: upt_conv_Cons)
  have hole: "rd cf 0 = Some None" using assms by (simp add: cf_def copy_filters_def rd_def)
  have d: "dispatch_to_modules n type len val (cf, calls) = None" for type len val calls
    using hole n by (simp add: dispatch_to_modules_def for_filters_def dispatch_one_def)
  have o: "inform_other_modules n (cf, calls) = None" for calls
    using hole n by (simp add: inform_other_modules_def for_filters_def inform_one_def)
  have e: "entries_loop n m rcd (cf, calls) = None \<or> entries_loop n m rcd (cf, calls) = Some (cf, calls)" for m rcd calls
    by (cases m) (auto simp: d split: bind_splits)
  have "Option.bind (entries_loop n m rcd (cf, calls)) (inform_other_modules n) = None" for m rcd calls
    using e [of m rcd calls] by (elim disjE) (simp_all add: o)
  then have "inform_filters env bytes n (cf, ac_calls st) = None" using d
    by (simp add: inform_filters_def Let_def split: bind_splits)
  then show ?thesis by (simp add: new_app_config_cb_def n_def cf_def)
qed

lemma removed_filter_reads_garbage_example:
  "new_app_config_cb env_example config_example
     (snd (Shared_Appconfig_removeFilter 0 \<lparr>m_filter = [ac_use 9 1, ac_use 5 2], ac_initialized = True, ac_calls = []\<rparr>)) = None"
  by (rule removed_filter_reads_garbage [where f = "(ac_use 9 1)\<lparr>ac_cb := None\<rparr>" and fs = "[ac_use 5 2]"])
    (simp_all add: Shared_Appconfig_removeFilter_def ac_use_def)

end
