(* ===== verification/Shared_Offline.thy ===== *)
theory Shared_Offline
  imports Scheduler Wms_Api
begin

text \<open>
  \<open>libraries/shared_offline/shared_offline.c\<close>: modules agree on when the node goes
  offline (non-router long sleep) and when it comes back.  The wake-up and the polling are
  tasks of the scheduler, whose model is part of the state.  The sleep library and the
  clock in seconds are the environment \<open>sleep_env\<close> of a call; calls to the sleep library
  and to the callbacks of the modules are recorded in \<open>off_log\<close>.  A callback is a number,
  and \<open>off_client\<close> gives the calls it makes into this library.
\<close>

subsection \<open>State\<close>

datatype offline_state = STATE_ONLINE | STATE_ENTERING_OFFLINE | STATE_OFFLINE

datatype sleep_state = APP_LIB_SLEEP_STOPPED | APP_LIB_SLEEP_STARTED | APP_LIB_SLEEP_PENDING

datatype offline_res =
  SHARED_OFFLINE_RES_OK | SHARED_OFFLINE_RES_NO_MORE_ROOM | SHARED_OFFLINE_RES_WRONG_ID
| SHARED_OFFLINE_RES_UNINITIALIZED | SHARED_OFFLINE_RES_ALREADY_ONLINE | SHARED_OFFLINE_RES_WRONG_ROLE

datatype offline_status =
  SHARED_OFFLINE_STATUS_OFFLINE | SHARED_OFFLINE_STATUS_ONLINE | SHARED_OFFLINE_STATUS_UNINITIALIZED

record off_module =
  mo_in_use :: bool
  mo_on_offline_event :: "nat option"
  mo_on_online_event :: "nat option"
  mo_online_deadline_ts :: u32
  mo_ready_to_enter_offline :: bool

datatype off_event = Sleep_stack bool | Wakeup_stack | Online_event nat u32 | Offline_event nat u32

record offline =
  m_offline_state :: offline_state
  m_delayed_wakeup :: bool
  m_modules :: "off_module list"
  off_initialized :: bool
  m_last_enterring_offline_ts :: u32
  m_next_online_ts :: u32
  off_sched :: "string sched"
  off_log :: "off_event list"

record sleep_env =
  se_time :: lib_time
  getTimestampS :: u32
  sleepStackforTime :: "u32 \<Rightarrow> u32 \<Rightarrow> app_res"
  getSleepState :: sleep_state

definition SHARED_OFFLINE_INFINITE_DELAY :: u32 where "SHARED_OFFLINE_INFINITE_DELAY = -1"
definition TIME_TO_SLEEP :: u32 where "TIME_TO_SLEEP = 6 * 24 * 3600"
definition POLING_INTERVAL_OFFLINE_MS :: u32 where "POLING_INTERVAL_OFFLINE_MS = 1000"

definition log_event :: "off_event \<Rightarrow> offline \<Rightarrow> offline" where
  "log_event e w = w\<lparr>off_log := off_log w @ [e]\<rparr>"

definition upd_module :: "nat \<Rightarrow> (off_module \<Rightarrow> off_module) \<Rightarrow> offline \<Rightarrow> offline" where
  "upd_module i f w = w\<lparr>m_modules := (m_modules w)[i := f (m_modules w ! i)]\<rparr>"

definition off_addTask :: "sleep_env \<Rightarrow> string \<Rightarrow> u32 \<Rightarrow> offline \<Rightarrow> bool \<times> offline" where
  "off_addTask env f delay_ms w =
     (case App_Scheduler_addTask_execTime (se_time env) (off_sched w) (Some f) delay_ms 100 of
        (r, s) \<Rightarrow> (r = APP_SCHEDULER_RES_OK, w\<lparr>off_sched := s\<rparr>))"

subsection \<open>Going offline\<close>

definition wakeup_stack_task :: "sleep_env \<Rightarrow> offline \<Rightarrow> u32 \<times> offline" where
  "wakeup_stack_task env w =
     (if m_offline_state w = STATE_ENTERING_OFFLINE
      then (APP_SCHEDULER_STOP_TASK, w\<lparr>m_delayed_wakeup := True\<rparr>)
      else (APP_SCHEDULER_STOP_TASK, log_event Wakeup_stack w))"

definition enter_offline_mode_locked :: "sleep_env \<Rightarrow> u32 \<Rightarrow> offline \<Rightarrow> bool \<times> offline" where
  "enter_offline_mode_locked env delay_s w =
     (let now = getTimestampS env;
          (added, w) = off_addTask env ''wakeup_stack_task'' (delay_s * 1000) w
      in if \<not> added then (False, w)
      else
        let w = w\<lparr>m_next_online_ts := now + delay_s\<rparr>
        in if getSleepState env = APP_LIB_SLEEP_STARTED then (True, w)
        else
          let res = (sleepStackforTime env TIME_TO_SLEEP 0 = APP_RES_OK);
              w = log_event (Sleep_stack res) w
          in if res
             then (res, snd (off_addTask env ''poll_for_offline'' POLING_INTERVAL_OFFLINE_MS
                 (w\<lparr>m_last_enterring_offline_ts := now, m_offline_state := STATE_ENTERING_OFFLINE\<rparr>)))
             else (res, w))"

definition enter_online_mode :: "sleep_env \<Rightarrow> offline \<Rightarrow> bool \<times> offline" where
  "enter_online_mode env w = off_addTask env ''wakeup_stack_task'' 0 (w\<lparr>m_next_online_ts := 0\<rparr>)"

text \<open>The loop of \<open>is_ready_to_sleep_locked\<close>: whether all are ready, and the earliest
  deadline.\<close>

fun is_ready_to_sleep_locked :: "off_module list \<Rightarrow> u32 \<Rightarrow> bool \<times> u32" where
  "is_ready_to_sleep_locked [] deadline = (True, deadline)"
| "is_ready_to_sleep_locked (m # ms) deadline =
     (if mo_in_use m then
        if \<not> mo_ready_to_enter_offline m then (False, deadline)
        else is_ready_to_sleep_locked ms
          (if mo_online_deadline_ts m < deadline then mo_online_deadline_ts m else deadline)
      else is_ready_to_sleep_locked ms deadline)"

definition evaluate_sleep :: "sleep_env \<Rightarrow> offline \<Rightarrow> offline" where
  "evaluate_sleep env w =
     (let now = getTimestampS env
      in case is_ready_to_sleep_locked (m_modules w) SHARED_OFFLINE_INFINITE_DELAY of
           (True, next_online_ts) \<Rightarrow>
             snd (enter_offline_mode_locked env (if now > next_online_ts then 0 else next_online_ts - now) w)
         | (False, _) \<Rightarrow> w)"

subsection \<open>Interface\<close>

definition Shared_Offline_init :: "offline \<Rightarrow> offline_res \<times> offline" where
  "Shared_Offline_init w =
     (if off_initialized w then (SHARED_OFFLINE_RES_OK, w)
      else (SHARED_OFFLINE_RES_OK,
        w\<lparr>m_modules := map (\<lambda>m. m\<lparr>mo_in_use := False\<rparr>) (m_modules w), m_next_online_ts := 0,
          m_last_enterring_offline_ts := 0, m_offline_state := STATE_ONLINE, off_initialized := True\<rparr>))"

definition Shared_Offline_register ::
  "sleep_env \<Rightarrow> nat option \<Rightarrow> nat option \<Rightarrow> offline \<Rightarrow> offline_res \<times> u8 option \<times> offline" where
  "Shared_Offline_register env on_offline on_online w =
     (if \<not> off_initialized w then (SHARED_OFFLINE_RES_UNINITIALIZED, None, w)
      else if sleepStackforTime env 0 0 = APP_RES_INVALID_CONFIGURATION then (SHARED_OFFLINE_RES_WRONG_ROLE, None, w)
      else case first_index (\<lambda>m. \<not> mo_in_use m) (m_modules w) of
        None \<Rightarrow> (SHARED_OFFLINE_RES_NO_MORE_ROOM, None, w)
      | Some i \<Rightarrow>
          (let w = upd_module i (\<lambda>m. m\<lparr>mo_in_use := True, mo_on_offline_event := on_offline,
                 mo_on_online_event := on_online, mo_ready_to_enter_offline := False\<rparr>) w;
               w = (if getSleepState env = APP_LIB_SLEEP_STARTED then snd (enter_online_mode env w) else w)
           in (SHARED_OFFLINE_RES_OK, Some (of_nat i), w)))"

definition wrong_id :: "u8 \<Rightarrow> offline \<Rightarrow> bool" where
  "wrong_id i w \<longleftrightarrow> unat i \<ge> length (m_modules w) \<or> \<not> mo_in_use (m_modules w ! unat i)"

definition Shared_Offline_unregister :: "sleep_env \<Rightarrow> u8 \<Rightarrow> offline \<Rightarrow> offline_res \<times> offline" where
  "Shared_Offline_unregister env i w =
     (if \<not> off_initialized w then (SHARED_OFFLINE_RES_UNINITIALIZED, w)
      else if wrong_id i w then (SHARED_OFFLINE_RES_WRONG_ID, w)
      else (SHARED_OFFLINE_RES_OK, evaluate_sleep env (upd_module (unat i) (\<lambda>m. m\<lparr>mo_in_use := False\<rparr>) w)))"

definition Shared_Offline_enter_offline_state :: "sleep_env \<Rightarrow> u8 \<Rightarrow> u32 \<Rightarrow> offline \<Rightarrow> offline_res \<times> offline" where
  "Shared_Offline_enter_offline_state env i delay_s w =
     (let now = getTimestampS env
      in if \<not> off_initialized w then (SHARED_OFFLINE_RES_UNINITIALIZED, w)
      else if wrong_id i w then (SHARED_OFFLINE_RES_WRONG_ID, w)
      else (SHARED_OFFLINE_RES_OK, evaluate_sleep env
        (upd_module (unat i) (\<lambda>m. m\<lparr>mo_online_deadline_ts :=
             (if delay_s = SHARED_OFFLINE_INFINITE_DELAY then SHARED_OFFLINE_INFINITE_DELAY else now + delay_s),
           mo_ready_to_enter_offline := True\<rparr>) w)))"

definition Shared_Offline_enter_online_state :: "sleep_env \<Rightarrow> u8 \<Rightarrow> offline \<Rightarrow> offline_res \<times> offline" where
  "Shared_Offline_enter_online_state env i w =
     (if \<not> off_initialized w then (SHARED_OFFLINE_RES_UNINITIALIZED, w)
      else if wrong_id i w then (SHARED_OFFLINE_RES_WRONG_ID, w)
      else (SHARED_OFFLINE_RES_OK, snd (enter_online_mode env w)))"

text \<open>The times are written through the two pointers, of which a \<open>True\<close> argument says that
  it is not \<open>NULL\<close>; the outer \<open>None\<close> is a write through \<open>NULL\<close>.\<close>

definition Shared_Offline_get_status ::
  "sleep_env \<Rightarrow> bool \<Rightarrow> bool \<Rightarrow> offline \<Rightarrow> (offline_status \<times> (u32 \<times> u32) option) option" where
  "Shared_Offline_get_status env elapsed_p remaining_p w =
     (let now = getTimestampS env
      in if \<not> off_initialized w then Some (SHARED_OFFLINE_STATUS_UNINITIALIZED, None)
      else if getSleepState env = APP_LIB_SLEEP_STARTED then
        if elapsed_p \<and> remaining_p
        then Some (SHARED_OFFLINE_STATUS_OFFLINE,
               Some (now - m_last_enterring_offline_ts w, m_next_online_ts w - now))
        else None
      else Some (SHARED_OFFLINE_STATUS_ONLINE, None))"

subsection \<open>Events of the stack and tasks\<close>

datatype off_call = Call_offline u8 u32 | Call_online u8 | Call_unregister u8

type_synonym off_client = "nat \<Rightarrow> u32 \<Rightarrow> off_call list"

definition off_client_call :: "sleep_env \<Rightarrow> off_call \<Rightarrow> offline \<Rightarrow> offline" where
  "off_client_call env c w =
     (case c of
        Call_offline i delay \<Rightarrow> snd (Shared_Offline_enter_offline_state env i delay w)
      | Call_online i \<Rightarrow> snd (Shared_Offline_enter_online_state env i w)
      | Call_unregister i \<Rightarrow> snd (Shared_Offline_unregister env i w))"

definition call_event :: "sleep_env \<Rightarrow> off_client \<Rightarrow> (nat \<Rightarrow> u32 \<Rightarrow> off_event) \<Rightarrow> nat \<Rightarrow> u32 \<Rightarrow> offline \<Rightarrow> offline" where
  "call_event env client ev cb delay w = fold (off_client_call env) (client cb delay) (log_event (ev cb delay) w)"

definition online_one :: "sleep_env \<Rightarrow> off_client \<Rightarrow> nat \<Rightarrow> offline \<Rightarrow> offline" where
  "online_one env client i w =
     (let now = getTimestampS env
      in if mo_in_use (m_modules w ! i) then
        let w = upd_module i (\<lambda>m. m\<lparr>mo_ready_to_enter_offline := False\<rparr>) w
        in case mo_on_online_event (m_modules w ! i) of
          None \<Rightarrow> w
        | Some cb \<Rightarrow>
            let deadline = mo_online_deadline_ts (m_modules w ! i);
                delay = (if deadline = SHARED_OFFLINE_INFINITE_DELAY then SHARED_OFFLINE_INFINITE_DELAY
                         else if deadline < now then 0 else deadline - now)
            in call_event env client Online_event cb delay w
      else w)"

definition on_stack_online_cb :: "sleep_env \<Rightarrow> off_client \<Rightarrow> offline \<Rightarrow> offline" where
  "on_stack_online_cb env client w =
     fold (online_one env client) [0..<length (m_modules w)] (w\<lparr>m_offline_state := STATE_ONLINE\<rparr>)"

definition offline_one :: "sleep_env \<Rightarrow> off_client \<Rightarrow> u32 \<Rightarrow> nat \<Rightarrow> offline \<Rightarrow> offline" where
  "offline_one env client delay_s i w =
     (if mo_in_use (m_modules w ! i)
      then case mo_on_offline_event (m_modules w ! i) of
          None \<Rightarrow> w
        | Some cb \<Rightarrow> call_event env client Offline_event cb delay_s w
      else w)"

definition call_offline_cbs :: "sleep_env \<Rightarrow> off_client \<Rightarrow> offline \<Rightarrow> offline" where
  "call_offline_cbs env client w =
     (let now = getTimestampS env;
          delay_s = (if m_next_online_ts w < now then 0 else m_next_online_ts w - now)
      in fold (offline_one env client delay_s) [0..<length (m_modules w)] w)"

definition poll_for_offline :: "sleep_env \<Rightarrow> off_client \<Rightarrow> offline \<Rightarrow> u32 \<times> offline" where
  "poll_for_offline env client w =
     (if getSleepState env = APP_LIB_SLEEP_STARTED \<and> m_offline_state w = STATE_ENTERING_OFFLINE then
        let w = call_offline_cbs env client (w\<lparr>m_offline_state := STATE_OFFLINE\<rparr>);
            w = (if m_delayed_wakeup w then (snd (wakeup_stack_task env w))\<lparr>m_delayed_wakeup := False\<rparr> else w)
        in (APP_SCHEDULER_STOP_TASK, w)
      else (POLING_INTERVAL_OFFLINE_MS, w))"

subsection \<open>Agreement\<close>

definition all_ready :: "off_module list \<Rightarrow> bool" where
  "all_ready ms \<longleftrightarrow> (\<forall>m \<in> set ms. mo_in_use m \<longrightarrow> mo_ready_to_enter_offline m)"

definition earliest_deadline :: "off_module list \<Rightarrow> u32" where
  "earliest_deadline ms = Min (insert SHARED_OFFLINE_INFINITE_DELAY (mo_online_deadline_ts ` {m \<in> set ms. mo_in_use m}))"

lemma is_ready_fst: "fst (is_ready_to_sleep_locked ms d) = all_ready ms"
  by (induction ms arbitrary: d) (auto simp: all_ready_def)

lemma is_ready_snd:
  "all_ready ms \<Longrightarrow>
     snd (is_ready_to_sleep_locked ms d) = Min (insert d (mo_online_deadline_ts ` {m \<in> set ms. mo_in_use m}))"
proof (induction ms arbitrary: d)
  case Nil
  then show ?case by simp
next
  case (Cons m ms)
  let ?D = "mo_online_deadline_ts ` {m \<in> set ms. mo_in_use m}"
  have e: "{x \<in> set (m # ms). mo_in_use x} = (if mo_in_use m then insert m {x \<in> set ms. mo_in_use x} else {x \<in> set ms. mo_in_use x})"
    by auto
  have "Min (insert d (insert x ?D)) = Min (insert (if x < d then x else d) ?D)" for x
    by (rule Min_insert2) simp
  with Cons show ?case unfolding e by (simp add: all_ready_def)
qed

lemma evaluate_sleep_eq:
  "evaluate_sleep env w =
     (if all_ready (m_modules w)
      then snd (enter_offline_mode_locked env
        (if getTimestampS env > earliest_deadline (m_modules w) then 0
         else earliest_deadline (m_modules w) - getTimestampS env) w)
      else w)"
  using is_ready_fst [of "m_modules w" SHARED_OFFLINE_INFINITE_DELAY]
    is_ready_snd [of "m_modules w" SHARED_OFFLINE_INFINITE_DELAY]
  by (auto simp: evaluate_sleep_def earliest_deadline_def Let_def split: prod.splits bool.splits)

text \<open>A task the scheduler will run.\<close>

definition scheduled :: "'f sched \<Rightarrow> 'f \<Rightarrow> timestamp \<Rightarrow> bool" where
  "scheduled s f ts \<longleftrightarrow>
     (\<exists>t \<in> set (m_tasks s). t_func t = Some f \<and> t_next_ts t = ts \<and> \<not> t_removed t)"

lemma scheduled_setPeriodic [simp]:
  "scheduled (setPeriodicCb s d e) f ts = scheduled s f ts" "scheduled (s\<lparr>m_force_reschedule := b\<rparr>) f ts = scheduled s f ts"
  by (simp_all add: scheduled_def)

lemma added_scheduled:
  assumes "App_Scheduler_addTask_execTime lt s (Some f) d e = (APP_SCHEDULER_RES_OK, s')"
  shows "scheduled s' f (get_timestamp lt s d)"
proof (cases rule: add_cases [where s = s and e = e and cb = "Some f" and lt = lt and d = d])
  case (ok i t s1)
  then have "scheduled s1 f (get_timestamp lt s d)"
    by (auto simp: scheduled_def set_task_def intro!: bexI [of _ t] set_update_memI)
  with ok(9) assms show ?thesis by (auto split: if_splits)
qed (use assms in auto)

lemma other_scheduled:
  assumes "scheduled s f ts" "g \<noteq> f"
  shows "scheduled (snd (App_Scheduler_addTask_execTime lt s (Some g) d e)) f ts"
proof (cases rule: add_cases [where s = s and e = e and cb = "Some g" and lt = lt and d = d])
  case (ok i t s1)
  obtain k where k: "k < length (m_tasks s)" "t_func (m_tasks s ! k) = Some f" "t_next_ts (m_tasks s ! k) = ts"
    "\<not> t_removed (m_tasks s ! k)" using assms(1) by (auto simp: scheduled_def in_set_conv_nth)
  then have "k \<noteq> i" using ok(7) assms(2) by auto
  then have "m_tasks s1 ! k = m_tasks s ! k" "k < length (m_tasks s1)" using ok(8) k(1) by (simp_all add: set_task_def)
  then have "scheduled s1 f ts" using k by (metis scheduled_def nth_mem)
  with ok(9) show ?thesis by simp
qed (use assms in simp_all)

lemma off_addTask_fields [simp]:
  "m_modules (snd (off_addTask env f d w)) = m_modules w" "m_offline_state (snd (off_addTask env f d w)) = m_offline_state w"
  "off_log (snd (off_addTask env f d w)) = off_log w" "m_next_online_ts (snd (off_addTask env f d w)) = m_next_online_ts w"
  "off_initialized (snd (off_addTask env f d w)) = off_initialized w" "m_delayed_wakeup (snd (off_addTask env f d w)) = m_delayed_wakeup w"
  by (simp_all add: off_addTask_def split: prod.splits)

lemma off_addTask_scheduled:
  "fst (off_addTask env f d w) \<Longrightarrow> scheduled (off_sched (snd (off_addTask env f d w))) f (get_timestamp (se_time env) (off_sched w) d)"
  using added_scheduled [of "se_time env" "off_sched w" f d 100]
  by (auto simp: off_addTask_def split: prod.splits)

lemma off_addTask_other:
  "scheduled (off_sched w) f ts \<Longrightarrow> g \<noteq> f \<Longrightarrow> scheduled (off_sched (snd (off_addTask env g d w))) f ts"
  using other_scheduled [of "off_sched w" f ts g "se_time env" d 100]
  by (auto simp: off_addTask_def split: prod.splits)

lemma log_event_fields [simp]:
  "m_modules (log_event e w) = m_modules w" "m_offline_state (log_event e w) = m_offline_state w"
  "off_log (log_event e w) = off_log w @ [e]" "m_next_online_ts (log_event e w) = m_next_online_ts w"
  "off_sched (log_event e w) = off_sched w" "off_initialized (log_event e w) = off_initialized w"
  "m_delayed_wakeup (log_event e w) = m_delayed_wakeup w"
  by (simp_all add: log_event_def)

lemma enter_offline_modules: "m_modules (snd (enter_offline_mode_locked env d w)) = m_modules w"
proof (cases "off_addTask env ''wakeup_stack_task'' (d * 1000) w")
  case (Pair a v)
  then have "m_modules v = m_modules w" using off_addTask_fields(1) [of env "''wakeup_stack_task''" "d * 1000" w] by simp
  with Pair show ?thesis by (simp add: enter_offline_mode_locked_def Let_def)
qed

lemma enter_offline_run:
  assumes "fst (off_addTask env ''wakeup_stack_task'' (d * 1000) w)"
  shows "m_next_online_ts (snd (enter_offline_mode_locked env d w)) = getTimestampS env + d \<and>
     scheduled (off_sched (snd (enter_offline_mode_locked env d w))) ''wakeup_stack_task''
       (get_timestamp (se_time env) (off_sched w) (d * 1000)) \<and>
     (if getSleepState env = APP_LIB_SLEEP_STARTED
      then off_log (snd (enter_offline_mode_locked env d w)) = off_log w \<and>
        m_offline_state (snd (enter_offline_mode_locked env d w)) = m_offline_state w
      else off_log (snd (enter_offline_mode_locked env d w)) =
          off_log w @ [Sleep_stack (sleepStackforTime env TIME_TO_SLEEP 0 = APP_RES_OK)] \<and>
        m_offline_state (snd (enter_offline_mode_locked env d w)) =
          (if sleepStackforTime env TIME_TO_SLEEP 0 = APP_RES_OK then STATE_ENTERING_OFFLINE else m_offline_state w))"
proof (cases "off_addTask env ''wakeup_stack_task'' (d * 1000) w")
  case (Pair a v)
  with assms have a: "a" by simp
  have v: "off_log v = off_log w" "m_offline_state v = m_offline_state w"
    "scheduled (off_sched v) ''wakeup_stack_task'' (get_timestamp (se_time env) (off_sched w) (d * 1000))"
    using off_addTask_fields [of env "''wakeup_stack_task''" "d * 1000" w]
      off_addTask_scheduled [OF assms] Pair by simp_all
  show ?thesis using Pair a v
    by (auto simp: enter_offline_mode_locked_def Let_def intro!: off_addTask_other)
qed

text \<open>There is room in the scheduler for the wake-up task.\<close>

definition wakeup_room :: "sleep_env \<Rightarrow> offline \<Rightarrow> bool" where
  "wakeup_room env w \<longleftrightarrow> m_initialized (off_sched w) \<and>
     (\<exists>t \<in> set (m_tasks (off_sched w)). t_func t = None \<or> t_func t = Some ''wakeup_stack_task'')"

lemma wakeup_room_added:
  assumes "wakeup_room env w"
  shows "fst (off_addTask env ''wakeup_stack_task'' d w)"
proof (cases rule: add_cases [where s = "off_sched w" and e = 100 and cb = "Some ''wakeup_stack_task''" and lt = "se_time env" and d = d])
  case full
  with assms show ?thesis by (metis in_set_conv_nth wakeup_room_def)
qed (use assms in \<open>auto simp: wakeup_room_def off_addTask_def\<close>)

text \<open>The events of a walk along the modules.\<close>

definition offline_events :: "u32 \<Rightarrow> off_module \<Rightarrow> off_event list" where
  "offline_events d m =
     (if mo_in_use m then case mo_on_offline_event m of None \<Rightarrow> [] | Some cb \<Rightarrow> [Offline_event cb d] else [])"

lemma offline_walk:
  assumes "\<And>cb d. client cb d = []"
  shows "fold (offline_one env client d) is w =
     w\<lparr>off_log := off_log w @ concat (map (\<lambda>i. offline_events d (m_modules w ! i)) is)\<rparr>"
proof (induction "is" arbitrary: w)
  case Nil
  then show ?case by simp
next
  case (Cons i "is")
  have "offline_one env client d i w = w\<lparr>off_log := off_log w @ offline_events d (m_modules w ! i)\<rparr>"
    using assms by (simp add: offline_one_def call_event_def offline_events_def log_event_def split: option.splits)
  with Cons show ?case by simp
qed

lemma concat_map_nth: "concat (map (\<lambda>i. f (xs ! i)) [0..<length xs]) = concat (map f xs)"
  by (metis map_map map_nth comp_apply map_cong)

lemma millis_mod:
  "unat (d * 1000) = 1000 * unat d mod 2 ^ 32 \<and> (unat d \<le> 4294967 \<longrightarrow> unat (d * 1000) = 1000 * unat d)" for d :: u32
proof -
  have "unat (d * 1000) = 1000 * unat d mod 2 ^ 32" by (simp add: unat_word_ariths mult.commute)
  then show ?thesis by simp
qed

subsection \<open>Properties\<close>

text \<open>C17: a request to go offline succeeds for a registered module, when the scheduler has
  or can take the wake-up task.  While another registered module is not ready nothing else
  happens; when all are ready the next online time is the earliest deadline, computed on 32
  bits of seconds (or now, when it has passed), the scheduler gets the wake-up task with the delay
  to that deadline in milliseconds modulo \<open>2 ^ 32\<close>, that is, for this deadline if it is at
  most 4294967 s away, and the stack, unless it sleeps already, is asked to sleep.\<close>

theorem offline_by_agreement:
  assumes "off_initialized w" "\<not> wrong_id i w" "wakeup_room env w"
    and ms: "ms = (m_modules w)[unat i := (m_modules w ! unat i)\<lparr>mo_online_deadline_ts :=
        (if d = SHARED_OFFLINE_INFINITE_DELAY then SHARED_OFFLINE_INFINITE_DELAY else getTimestampS env + d),
        mo_ready_to_enter_offline := True\<rparr>]"
    and delay: "delay = (if getTimestampS env > earliest_deadline ms then 0 else earliest_deadline ms - getTimestampS env)"
  shows "\<exists>w' ms32. Shared_Offline_enter_offline_state env i d w = (SHARED_OFFLINE_RES_OK, w') \<and> m_modules w' = ms \<and>
     (if all_ready ms
      then m_next_online_ts w' = max (getTimestampS env) (earliest_deadline ms) \<and>
        scheduled (off_sched w') ''wakeup_stack_task'' (get_timestamp (se_time env) (off_sched w) ms32) \<and>
        unat ms32 = 1000 * unat delay mod 2 ^ 32 \<and> (unat delay \<le> 4294967 \<longrightarrow> unat ms32 = 1000 * unat delay) \<and>
        off_log w' = off_log w @ (if getSleepState env = APP_LIB_SLEEP_STARTED then []
          else [Sleep_stack (sleepStackforTime env TIME_TO_SLEEP 0 = APP_RES_OK)])
      else w' = w\<lparr>m_modules := ms\<rparr>)"
proof -
  let ?w = "w\<lparr>m_modules := ms\<rparr>"
  have op: "Shared_Offline_enter_offline_state env i d w = (SHARED_OFFLINE_RES_OK, evaluate_sleep env ?w)"
    using assms(1,2) ms by (simp add: Shared_Offline_enter_offline_state_def Let_def upd_module_def)
  have ev: "evaluate_sleep env ?w = (if all_ready ms then snd (enter_offline_mode_locked env delay ?w) else ?w)"
    by (simp add: evaluate_sleep_eq delay)
  have "wakeup_room env ?w" using assms(3) by (simp add: wakeup_room_def)
  from enter_offline_run [OF wakeup_room_added [OF this, of "delay * 1000"]]
  have "m_next_online_ts (snd (enter_offline_mode_locked env delay ?w)) = max (getTimestampS env) (earliest_deadline ms)"
    "scheduled (off_sched (snd (enter_offline_mode_locked env delay ?w))) ''wakeup_stack_task''
       (get_timestamp (se_time env) (off_sched w) (delay * 1000))"
    "off_log (snd (enter_offline_mode_locked env delay ?w)) = off_log w @ (if getSleepState env = APP_LIB_SLEEP_STARTED then []
          else [Sleep_stack (sleepStackforTime env TIME_TO_SLEEP 0 = APP_RES_OK)])"
    by (auto simp: delay max_def)
  then show ?thesis using op ev enter_offline_modules [of env delay ?w] millis_mod [of delay]
    by (intro exI [of _ "snd (Shared_Offline_enter_offline_state env i d w)"] exI [of _ "delay * 1000"]) simp
qed

definition off_example :: "bool \<Rightarrow> offline" where
  "off_example r = \<lparr>m_offline_state = STATE_ENTERING_OFFLINE, m_delayed_wakeup = False,
     m_modules = [\<lparr>mo_in_use = True, mo_on_offline_event = Some 4, mo_on_online_event = Some 2, mo_online_deadline_ts = 100, mo_ready_to_enter_offline = r\<rparr>,
        \<lparr>mo_in_use = True, mo_on_offline_event = None, mo_on_online_event = Some 3, mo_online_deadline_ts = 80, mo_ready_to_enter_offline = True\<rparr>],
     off_initialized = True, m_last_enterring_offline_ts = 0, m_next_online_ts = 0,
     off_sched = \<lparr>m_max_time_ms = 1000, m_initialized = True,
        m_tasks = replicate 2 \<lparr>t_func = None, t_next_ts = Hp 0, t_exec_time_us = 0, t_updated = False, t_removed = False\<rparr>,
        m_next_task_p = None, m_force_reschedule = False, now_hp = 0, now_coarse = 0, periodic_cb = None\<rparr>,
     off_log = []\<rparr>"

definition sleep_example :: "sleep_state \<Rightarrow> sleep_env" where
  "sleep_example st = \<lparr>se_time = us_clock, getTimestampS = 10, sleepStackforTime = (\<lambda>_ _. APP_RES_OK), getSleepState = st\<rparr>"

lemma off_example_room: "wakeup_room env (off_example r)"
  by (simp add: wakeup_room_def off_example_def)

theorem offline_by_agreement_witness:
  "\<exists>w'. Shared_Offline_enter_offline_state (sleep_example APP_LIB_SLEEP_STOPPED) 0 40 (off_example False) = (SHARED_OFFLINE_RES_OK, w') \<and>
     m_next_online_ts w' = 50 \<and> off_log w' = [Sleep_stack True]"
proof -
  let ?ms = "[\<lparr>mo_in_use = True, mo_on_offline_event = Some 4, mo_on_online_event = Some 2, mo_online_deadline_ts = 50, mo_ready_to_enter_offline = True\<rparr>,
        \<lparr>mo_in_use = True, mo_on_offline_event = None, mo_on_online_event = Some 3, mo_online_deadline_ts = 80, mo_ready_to_enter_offline = True\<rparr>]"
  have r: "all_ready ?ms" by (simp add: all_ready_def)
  have e: "earliest_deadline ?ms = 50"
    unfolding earliest_deadline_def is_ready_snd [OF r, symmetric] by (simp add: SHARED_OFFLINE_INFINITE_DELAY_def)
  have "\<exists>w' ms32. Shared_Offline_enter_offline_state (sleep_example APP_LIB_SLEEP_STOPPED) 0 40 (off_example False) = (SHARED_OFFLINE_RES_OK, w') \<and>
     m_modules w' = ?ms \<and>
     (if all_ready ?ms
      then m_next_online_ts w' = max (getTimestampS (sleep_example APP_LIB_SLEEP_STOPPED)) (earliest_deadline ?ms) \<and>
        scheduled (off_sched w') ''wakeup_stack_task''
          (get_timestamp (se_time (sleep_example APP_LIB_SLEEP_STOPPED)) (off_sched (off_example False)) ms32) \<and>
        unat ms32 = 1000 * unat (40 :: u32) mod 2 ^ 32 \<and> (unat (40 :: u32) \<le> 4294967 \<longrightarrow> unat ms32 = 1000 * unat (40 :: u32)) \<and>
        off_log w' = off_log (off_example False) @ (if getSleepState (sleep_example APP_LIB_SLEEP_STOPPED) = APP_LIB_SLEEP_STARTED then []
          else [Sleep_stack (sleepStackforTime (sleep_example APP_LIB_SLEEP_STOPPED) TIME_TO_SLEEP 0 = APP_RES_OK)])
      else w' = (off_example False)\<lparr>m_modules := ?ms\<rparr>)"
    by (rule offline_by_agreement [OF _ _ off_example_room])
      (simp_all add: e, simp_all add: off_example_def sleep_example_def wrong_id_def SHARED_OFFLINE_INFINITE_DELAY_def)
  then show ?thesis using r e by (auto simp: sleep_example_def off_example_def)
qed

text \<open>The delay in milliseconds overflows: a node whose modules ask for 4294968 s (fifty days)
  is woken up after 704 ms, while the modules are told the time they asked for.\<close>

lemma long_sleep_ends_early:
  "let w = (off_example False)\<lparr>m_modules := take 1 (m_modules (off_example False))\<rparr>;
       w' = snd (Shared_Offline_enter_offline_state (sleep_example APP_LIB_SLEEP_STOPPED) 0 4294968 w)
   in m_next_online_ts w' = 10 + 4294968 \<and>
      map t_next_ts (filter (\<lambda>t. t_func t = Some ''wakeup_stack_task'') (m_tasks (off_sched w'))) = [get_timestamp us_clock (off_sched w) 704]"
  by code_simp

text \<open>A wake-up that comes while the node is still entering the offline state is not
  lost: it is kept, and the poll that finds the stack asleep tells the modules, wakes the
  stack up and ends; a poll before that changes nothing and asks to be run again.\<close>

lemma delayed_wakeup_executed:
  assumes "m_offline_state w = STATE_ENTERING_OFFLINE" "\<And>cb d. client cb d = []"
  shows "\<exists>w1. wakeup_stack_task env0 w = (APP_SCHEDULER_STOP_TASK, w1) \<and> off_log w1 = off_log w \<and>
     poll_for_offline env client w1 =
      (if getSleepState env = APP_LIB_SLEEP_STARTED
       then (APP_SCHEDULER_STOP_TASK, w\<lparr>m_offline_state := STATE_OFFLINE, m_delayed_wakeup := False,
         off_log := off_log w @ concat (map (offline_events (if m_next_online_ts w < getTimestampS env then 0
             else m_next_online_ts w - getTimestampS env)) (m_modules w)) @ [Wakeup_stack]\<rparr>)
       else (POLING_INTERVAL_OFFLINE_MS, w1))"
proof -
  define d where "d = (if m_next_online_ts w < getTimestampS env then 0 else m_next_online_ts w - getTimestampS env)"
  let ?w = "w\<lparr>m_delayed_wakeup := True, m_offline_state := STATE_OFFLINE\<rparr>"
  have c: "call_offline_cbs env client ?w = fold (offline_one env client d) [0..<length (m_modules w)] ?w"
    unfolding call_offline_cbs_def Let_def d_def by simp
  have "call_offline_cbs env client ?w = ?w\<lparr>off_log := off_log w @ concat (map (offline_events d) (m_modules w))\<rparr>"
    using offline_walk [of client, OF assms(2), where w = ?w and d = d] concat_map_nth [of "offline_events d" "m_modules w"] c by simp
  then show ?thesis using assms(1) unfolding d_def [symmetric]
    by (simp add: wakeup_stack_task_def poll_for_offline_def log_event_def)
qed

lemma delayed_wakeup_executed_example:
  "\<exists>w1 w2. wakeup_stack_task (sleep_example APP_LIB_SLEEP_PENDING) (off_example True) = (APP_SCHEDULER_STOP_TASK, w1) \<and>
     poll_for_offline (sleep_example APP_LIB_SLEEP_STARTED) (\<lambda>_ _. []) w1 = (APP_SCHEDULER_STOP_TASK, w2) \<and>
     off_log w2 = [Offline_event 4 0, Wakeup_stack]"
  using delayed_wakeup_executed [of "off_example True" "\<lambda>_ _. []" "sleep_example APP_LIB_SLEEP_PENDING" "sleep_example APP_LIB_SLEEP_STARTED"]
  by (auto simp: off_example_def sleep_example_def offline_events_def)

text \<open>When the stack comes back online and the callback of the first module asks at once
  to go offline again, the second module still counts as ready from before: the stack is
  asked to sleep before the second module has been told that it is online.\<close>

lemma sleeps_before_all_are_told:
  assumes "m_modules w = [a, b]" "mo_in_use a" "mo_in_use b" "mo_ready_to_enter_offline b"
    and "mo_on_online_event a = Some ca" "mo_on_online_event b = Some cb"
    and "\<And>d. client ca d = [Call_offline 0 t]" "\<And>d. client cb d = []"
    and "off_initialized w" "wakeup_room env w" "getSleepState env \<noteq> APP_LIB_SLEEP_STARTED"
    and "sleepStackforTime env TIME_TO_SLEEP 0 = APP_RES_OK"
  shows "\<exists>d1 d2. off_log (on_stack_online_cb env client w) = off_log w @ [Online_event ca d1, Sleep_stack True, Online_event cb d2] \<and>
     m_offline_state (on_stack_online_cb env client w) = STATE_ENTERING_OFFLINE \<and>
     \<not> mo_ready_to_enter_offline (m_modules (on_stack_online_cb env client w) ! 1)"
proof -
  let ?w = "w\<lparr>m_offline_state := STATE_ONLINE\<rparr>"
  define d1 where "d1 = (if mo_online_deadline_ts a = SHARED_OFFLINE_INFINITE_DELAY then SHARED_OFFLINE_INFINITE_DELAY
      else if mo_online_deadline_ts a < getTimestampS env then 0 else mo_online_deadline_ts a - getTimestampS env)"
  define a' where "a' = a\<lparr>mo_online_deadline_ts :=
      (if t = SHARED_OFFLINE_INFINITE_DELAY then SHARED_OFFLINE_INFINITE_DELAY else getTimestampS env + t),
      mo_ready_to_enter_offline := True\<rparr>"
  define v where "v = w\<lparr>m_offline_state := STATE_ONLINE, off_log := off_log w @ [Online_event ca d1], m_modules := [a', b]\<rparr>"
  have "online_one env client 0 ?w = evaluate_sleep env v"
    using assms(1,2,5,7,9)
    by (simp add: online_one_def Let_def upd_module_def call_event_def off_client_call_def log_event_def
        Shared_Offline_enter_offline_state_def wrong_id_def d1_def [symmetric] v_def a'_def)
  moreover have "all_ready (m_modules v)" using assms(4) by (simp add: v_def a'_def all_ready_def)
  moreover have "wakeup_room env v" using assms(10) by (simp add: wakeup_room_def v_def)
  ultimately obtain u where u: "online_one env client 0 ?w = u" "off_log u = off_log w @ [Online_event ca d1, Sleep_stack True]"
    "m_offline_state u = STATE_ENTERING_OFFLINE" "m_modules u = [a', b]"
    using enter_offline_run [OF wakeup_room_added] assms(11,12) enter_offline_modules
    by (simp add: evaluate_sleep_eq v_def)
  have "[0..<length (m_modules w)] = [0, 1]" using assms(1) by (simp add: upt_rec)
  then have "on_stack_online_cb env client w = online_one env client 1 u" using u(1) by (simp add: on_stack_online_cb_def)
  then show ?thesis using u assms(3,6,8)
    by (simp add: online_one_def Let_def upd_module_def call_event_def)
qed

lemma sleeps_before_all_are_told_example:
  "\<exists>d1 d2. off_log (on_stack_online_cb (sleep_example APP_LIB_SLEEP_STOPPED) (\<lambda>cb _. if cb = 2 then [Call_offline 0 60] else [])
       (off_example True)) = [Online_event 2 d1, Sleep_stack True, Online_event 3 d2]"
proof -
  let ?w = "off_example True"
  have "\<exists>d1 d2. off_log (on_stack_online_cb (sleep_example APP_LIB_SLEEP_STOPPED) (\<lambda>cb _. if cb = 2 then [Call_offline 0 60] else [])
       ?w) = off_log ?w @ [Online_event 2 d1, Sleep_stack True, Online_event 3 d2] \<and>
     m_offline_state (on_stack_online_cb (sleep_example APP_LIB_SLEEP_STOPPED) (\<lambda>cb _. if cb = 2 then [Call_offline 0 60] else []) ?w) =
       STATE_ENTERING_OFFLINE \<and>
     \<not> mo_ready_to_enter_offline (m_modules (on_stack_online_cb (sleep_example APP_LIB_SLEEP_STOPPED)
       (\<lambda>cb _. if cb = 2 then [Call_offline 0 60] else []) ?w) ! 1)"
    by (rule sleeps_before_all_are_told [where a = "m_modules ?w ! 0" and b = "m_modules ?w ! 1" and t = 60, OF _ _ _ _ _ _ _ _ _ off_example_room])
      (simp_all add: off_example_def sleep_example_def)
  then show ?thesis by (auto simp: off_example_def)
qed

end
