(* ===== verification/App_Persistent.thy ===== *)
theory App_Persistent
  imports Scheduler
begin

text \<open>
  \<open>libraries/app_persistent/app_persistent.c\<close>: one block of data of the application in
  a flash area, behind a magic number that is written last.  The memory area library is
  closed: its functions are the parameters \<open>mem_lib\<close>, on a flash that is the list of its
  bytes, and what the code relies on of them is the predicate \<open>area_ok\<close>.  Waiting for the
  flash polls the library; the \<open>k\<close>th poll sees \<open>ml_busy k\<close> and the time \<open>ml_hp k\<close>.
  \<open>None\<close> is a read outside of a buffer or a wait that does not end.
\<close>

subsection \<open>State and operations\<close>

datatype persistent_res =
  APP_PERSISTENT_RES_OK | APP_PERSISTENT_RES_NO_AREA | APP_PERSISTENT_RES_UNINITIALIZED
| APP_PERSISTENT_RES_TOO_BIG | APP_PERSISTENT_RES_INVALID_CONTENT | APP_PERSISTENT_RES_ACCESS_TIMEOUT
| APP_PERSISTENT_RES_FLASH_ERROR

record mem_info =
  area_size :: u32
  external_flash :: bool
  erase_sector_size :: u32
  write_alignment :: u32
  sector_erase_time :: u32
  byte_write_time :: u32
  byte_write_call_time :: u32

text \<open>\<open>ml_erase\<close> takes a base and a number of sectors and also gives the next base and the
  number of sectors it has left over.\<close>

record mem_lib =
  ml_time :: lib_time
  ml_info :: "mem_info option"
  ml_read :: "u32 \<Rightarrow> u32 \<Rightarrow> u8 list \<Rightarrow> u8 list option"
  ml_erase :: "u32 \<Rightarrow> u32 \<Rightarrow> u8 list \<Rightarrow> (u32 \<times> u32 \<times> u8 list) option"
  ml_write :: "u32 \<Rightarrow> u8 list \<Rightarrow> u8 list \<Rightarrow> u8 list option"
  ml_busy :: "nat \<Rightarrow> bool"
  ml_hp :: "nat \<Rightarrow> u32"

record persist =
  ap_initialized :: bool
  m_magic_size :: u32
  m_usable_memory_size :: u32
  m_memory_area :: mem_info
  ap_flash :: "u8 list"
  ap_polls :: nat

definition APP_PERSISTENT_MAGIC :: u32 where "APP_PERSISTENT_MAGIC = 0x1E75FED8"

text \<open>The bytes of \<open>&magic\<close>.\<close>

definition magic_bytes :: "u8 list" where
  "magic_bytes = map (\<lambda>i. ucast (drop_bit (8 * i) APP_PERSISTENT_MAGIC)) [0..<4]"

partial_function (option) wait_loop :: "mem_lib \<Rightarrow> u32 \<Rightarrow> nat \<Rightarrow> (bool \<times> nat) option" where
  "wait_loop lib timeout_end k =
     (let busy = ml_busy lib k; timeout_reached = isHpTimestampBefore (ml_time lib) timeout_end (ml_hp lib k)
      in if busy \<and> \<not> timeout_reached then wait_loop lib timeout_end (k + 1) else Some (\<not> busy, k + 1))"

definition active_wait_for_end_of_operation :: "mem_lib \<Rightarrow> u32 \<Rightarrow> persist \<Rightarrow> (bool \<times> persist) option" where
  "active_wait_for_end_of_operation lib timeout_us w =
     do {
       let timeout_end = addUsToHpTimestamp (ml_time lib) (ml_hp lib (ap_polls w)) timeout_us;
       (ready, k) \<leftarrow> wait_loop lib timeout_end (ap_polls w + 1);
       Some (ready, w\<lparr>ap_polls := k\<rparr>)
     }"

definition flash_read :: "mem_lib \<Rightarrow> u32 \<Rightarrow> u32 \<Rightarrow> persist \<Rightarrow> (u8 list option \<times> persist) option" where
  "flash_read lib from amount w =
     (case ml_read lib from amount (ap_flash w) of
        None \<Rightarrow> Some (None, w)
      | Some to \<Rightarrow>
          do {
            let timeout_us = (if external_flash (m_memory_area w) then 100000 else 0);
            (ready, w) \<leftarrow> active_wait_for_end_of_operation lib timeout_us w;
            Some (if ready then Some to else None, w)
          })"

definition App_Persistent_init :: "mem_lib \<Rightarrow> persist \<Rightarrow> persistent_res \<times> persist" where
  "App_Persistent_init lib w =
     (if ap_initialized w then (APP_PERSISTENT_RES_OK, w)
      else case ml_info lib of
        None \<Rightarrow> (APP_PERSISTENT_RES_NO_AREA, w)
      | Some info \<Rightarrow>
          (let magic_size = (if write_alignment info > 4 then write_alignment info else 4)
           in (APP_PERSISTENT_RES_OK, w\<lparr>m_memory_area := info, m_magic_size := magic_size,
                m_usable_memory_size := area_size info - magic_size, ap_initialized := True\<rparr>)))"

definition App_Persistent_read :: "mem_lib \<Rightarrow> u32 \<Rightarrow> persist \<Rightarrow> (persistent_res \<times> u8 list option \<times> persist) option" where
  "App_Persistent_read lib len w =
     (if \<not> ap_initialized w then Some (APP_PERSISTENT_RES_UNINITIALIZED, None, w)
      else if len > m_usable_memory_size w then Some (APP_PERSISTENT_RES_TOO_BIG, None, w)
      else do {
        (magic, w) \<leftarrow> flash_read lib 0 4 w;
        case magic of
          None \<Rightarrow> Some (APP_PERSISTENT_RES_FLASH_ERROR, None, w)
        | Some magic \<Rightarrow>
            if magic \<noteq> magic_bytes then Some (APP_PERSISTENT_RES_INVALID_CONTENT, None, w)
            else do {
              (data, w) \<leftarrow> flash_read lib (m_magic_size w) len w;
              Some (case data of None \<Rightarrow> (APP_PERSISTENT_RES_FLASH_ERROR, None, w)
                    | Some bs \<Rightarrow> (APP_PERSISTENT_RES_OK, Some bs, w))
            }
      })"

text \<open>\<open>startWrite\<close> of the bytes at a pointer, and the wait for its end.\<close>

definition write_and_wait :: "mem_lib \<Rightarrow> u32 \<Rightarrow> u8 list \<Rightarrow> u32 \<Rightarrow> persist \<Rightarrow> (persistent_res \<times> persist) option" where
  "write_and_wait lib to from amount w =
     do {
       bs \<leftarrow> rd_bytes from 0 (unat amount);
       case ml_write lib to bs (ap_flash w) of
         None \<Rightarrow> Some (APP_PERSISTENT_RES_FLASH_ERROR, w)
       | Some flash \<Rightarrow>
           do {
             let timeout = (byte_write_time (m_memory_area w) + byte_write_call_time (m_memory_area w)) * amount * 2;
             (ready, w) \<leftarrow> active_wait_for_end_of_operation lib timeout (w\<lparr>ap_flash := flash\<rparr>);
             Some (if \<not> ready then APP_PERSISTENT_RES_ACCESS_TIMEOUT else APP_PERSISTENT_RES_OK, w)
           }
     }"

definition App_Persistent_write :: "mem_lib \<Rightarrow> u8 list \<Rightarrow> u32 \<Rightarrow> persist \<Rightarrow> (persistent_res \<times> persist) option" where
  "App_Persistent_write lib data len w =
     (let erase_block_size = erase_sector_size (m_memory_area w);
          write_alignement = write_alignment (m_memory_area w)
      in if \<not> ap_initialized w then Some (APP_PERSISTENT_RES_UNINITIALIZED, w)
      else if len > m_usable_memory_size w then Some (APP_PERSISTENT_RES_TOO_BIG, w)
      else
        let num_block = (len + erase_block_size - 1) div erase_block_size
        in case ml_erase lib 0 num_block (ap_flash w) of
          None \<Rightarrow> Some (APP_PERSISTENT_RES_FLASH_ERROR, w)
        | Some (sector_base, num_block_temp, flash) \<Rightarrow>
            do {
              let timeout = sector_erase_time (m_memory_area w) * num_block * 2;
              (ready, w) \<leftarrow> active_wait_for_end_of_operation lib timeout (w\<lparr>ap_flash := flash\<rparr>);
              if \<not> ready then Some (APP_PERSISTENT_RES_ACCESS_TIMEOUT, w)
              else do {
                let len = (len + write_alignement - 1) div write_alignement * write_alignement;
                (res, w) \<leftarrow> write_and_wait lib (m_magic_size w) data len w;
                if res \<noteq> APP_PERSISTENT_RES_OK then Some (res, w)
                else write_and_wait lib 0 magic_bytes (m_magic_size w) w
              }
            })"

subsection \<open>What the code relies on of the library\<close>

text \<open>A flash of \<open>n\<close> bytes with sectors of \<open>S\<close> bytes, as documented in
  \<open>api/wms_memory_area.h\<close>: an erase sets all bytes of the sectors to 0xFF, except for a number
  of last sectors it returns as left over; writing to erased bytes stores the data, and reading
  gives the bytes.\<close>

definition area_ok :: "mem_lib \<Rightarrow> nat \<Rightarrow> nat \<Rightarrow> bool" where
  "area_ok lib S n \<longleftrightarrow>
     (\<forall>num f. length f = n \<longrightarrow> unat num * S \<le> n \<longrightarrow>
        (\<exists>base left. left \<le> num \<and> ml_erase lib 0 num f =
           Some (base, left, replicate (unat (num - left) * S) 0xFF @ drop (unat (num - left) * S) f))) \<and>
     (\<forall>to bs f. length f = n \<longrightarrow> unat to + length bs \<le> n \<longrightarrow> (\<forall>i < length bs. f ! (unat to + i) = 0xFF) \<longrightarrow>
        ml_write lib to bs f = Some (take (unat to) f @ bs @ drop (unat to + length bs) f)) \<and>
     (\<forall>from num f. length f = n \<longrightarrow> unat from + unat num \<le> n \<longrightarrow>
        ml_read lib from num f = Some (take (unat num) (drop (unat from) f)))"

text \<open>The operations are asynchronous.  Whenever the code waits, the flash gets ready or the time
  passes the timeout; \<open>ready_in_time\<close>: it gets ready first.\<close>

definition timed_out :: "mem_lib \<Rightarrow> u32 \<Rightarrow> nat \<Rightarrow> bool" where
  "timed_out lib t k = isHpTimestampBefore (ml_time lib) t (ml_hp lib k)"

definition waits_end :: "mem_lib \<Rightarrow> bool" where
  "waits_end lib \<longleftrightarrow> (\<forall>k t. \<exists>j \<ge> k. \<not> ml_busy lib j \<or> timed_out lib t j)"

definition ready_in_time :: "mem_lib \<Rightarrow> bool" where
  "ready_in_time lib \<longleftrightarrow> (\<forall>k t. \<exists>j \<ge> k. \<not> ml_busy lib j \<and> (\<forall>i. k \<le> i \<and> i < j \<longrightarrow> \<not> timed_out lib t i))"

text \<open>A flash whose writes can only clear bits.\<close>

definition nor_lib :: "nat \<Rightarrow> mem_info \<Rightarrow> mem_lib" where
  "nor_lib S info = \<lparr>ml_time = us_clock, ml_info = Some info,
     ml_read = (\<lambda>from num f. if unat from + unat num \<le> length f then Some (take (unat num) (drop (unat from) f)) else None),
     ml_erase = (\<lambda>base num f. if base = 0 \<and> unat num * S \<le> length f
        then Some (num * of_nat S, 0, replicate (unat num * S) 0xFF @ drop (unat num * S) f) else None),
     ml_write = (\<lambda>to bs f. if unat to + length bs \<le> length f
        then Some (take (unat to) f @ map2 (AND) (take (length bs) (drop (unat to) f)) bs @ drop (unat to + length bs) f) else None),
     ml_busy = (\<lambda>_. False), ml_hp = (\<lambda>_. 0)\<rparr>"

lemma and_ones_u8: "(255 :: u8) AND b = b"
proof -
  have "(255 :: u8) = - 1" by simp
  then show ?thesis by (simp only: and.left_neutral)
qed

lemma map2_and_erased:
  "length xs = length bs \<Longrightarrow> \<forall>i < length bs. xs ! i = 0xFF \<Longrightarrow> map2 (AND) xs (bs :: u8 list) = bs"
  by (rule nth_equalityI) (simp_all add: and_ones_u8)

lemma nor_area_ok: "area_ok (nor_lib S info) S n" "waits_end (nor_lib S info)" "ready_in_time (nor_lib S info)"
proof -
  show "waits_end (nor_lib S info)" "ready_in_time (nor_lib S info)" by (auto simp: waits_end_def ready_in_time_def nor_lib_def)
  show "area_ok (nor_lib S info) S n"
    unfolding area_ok_def
  proof (intro conjI allI impI)
    show "\<exists>base left. left \<le> num \<and> ml_erase (nor_lib S info) 0 num f =
        Some (base, left, replicate (unat (num - left) * S) 0xFF @ drop (unat (num - left) * S) f)"
      if "length f = n" "unat num * S \<le> n" for num f
      using that by (intro exI [of _ "num * of_nat S"] exI [of _ 0]) (simp add: nor_lib_def)
  qed (auto simp: nor_lib_def intro!: map2_and_erased)
qed

subsection \<open>Sizes\<close>

lemma round_up:
  fixes len a :: u32
  assumes "unat len + unat a \<le> 2 ^ 32" "a \<noteq> 0"
  shows "unat ((len + a - 1) div a) = (unat len + unat a - 1) div unat a"
    and "unat ((len + a - 1) div a * a) = (unat len + unat a - 1) div unat a * unat a"
proof -
  have a: "0 < unat a" using assms(2) by (simp add: unat_gt_0)
  have e: "len + a - 1 = len + (a - 1)" by simp
  have "unat (a - 1) = unat a - 1" using assms(2) by (simp add: unat_minus_one)
  then have s: "unat (len + a - 1) = unat len + unat a - 1"
    unfolding e using assms(1) a by (subst unat_add_small) simp_all
  then show d: "unat ((len + a - 1) div a) = (unat len + unat a - 1) div unat a" by (simp add: unat_div)
  have "unat ((len + a - 1) div a) * unat a < 2 ^ LENGTH(32)"
    unfolding d by (rule le_less_trans [OF div_times_less_eq_dividend]) (use assms(1) a in simp)
  then show "unat ((len + a - 1) div a * a) = (unat len + unat a - 1) div unat a * unat a"
    using d by (simp add: unat_word_ariths)
qed

lemma round_up_ge: "0 < a \<Longrightarrow> (len :: nat) \<le> (len + a - 1) div a * a"
  using div_mod_decomp [of "len + a - 1" a] mod_less_divisor [of a "len + a - 1"] by linarith

lemma length_magic [simp]: "length magic_bytes = 4"
  by (simp add: magic_bytes_def)

subsection \<open>The steps on an area\<close>

lemma wait_ready:
  "(\<And>k. \<not> ml_busy lib k) \<Longrightarrow> active_wait_for_end_of_operation lib t w = Some (True, w\<lparr>ap_polls := ap_polls w + 2\<rparr>)"
  by (simp add: active_wait_for_end_of_operation_def wait_loop.simps Let_def)

lemma wait_loop_first:
  assumes "k \<le> m" "\<not> ml_busy lib m \<or> timed_out lib t m" "\<forall>i. k \<le> i \<and> i < m \<longrightarrow> ml_busy lib i \<and> \<not> timed_out lib t i"
  shows "wait_loop lib t k = Some (\<not> ml_busy lib m, m + 1)"
  using assms
proof (induction "m - k" arbitrary: k)
  case 0
  then show ?case by (auto simp: wait_loop.simps [of lib t k] timed_out_def Let_def)
next
  case (Suc d)
  then have "wait_loop lib t (k + 1) = Some (\<not> ml_busy lib m, m + 1)" by (intro Suc.hyps(1)) auto
  then show ?case using Suc.prems Suc.hyps(2) by (subst wait_loop.simps) (auto simp: timed_out_def Let_def)
qed

lemma wait_returns:
  assumes "waits_end lib"
  shows "\<exists>r k. active_wait_for_end_of_operation lib t w = Some (r, w\<lparr>ap_polls := k\<rparr>) \<and> (ready_in_time lib \<longrightarrow> r)"
proof -
  let ?t = "addUsToHpTimestamp (ml_time lib) (ml_hp lib (ap_polls w)) t" and ?k = "ap_polls w + 1"
  let ?P = "\<lambda>m. ?k \<le> m \<and> (\<not> ml_busy lib m \<or> timed_out lib ?t m)"
  define m where "m = (LEAST m. ?P m)"
  have ex: "\<exists>m. ?P m" using assms unfolding waits_end_def by blast
  then have m: "?P m" unfolding m_def by (rule LeastI_ex)
  have before: "ml_busy lib i \<and> \<not> timed_out lib ?t i" if "?k \<le> i \<and> i < m" for i
    using that not_less_Least [of i ?P] unfolding m_def by blast
  have "\<not> ml_busy lib m" if ready: "ready_in_time lib"
  proof -
    obtain j where j: "?k \<le> j" "\<not> ml_busy lib j" "\<forall>i. ?k \<le> i \<and> i < j \<longrightarrow> \<not> timed_out lib ?t i"
      using ready unfolding ready_in_time_def by blast
    then have "m \<le> j" unfolding m_def by (intro Least_le) auto
    then show ?thesis using m j(2,3) by (cases "m = j") auto
  qed
  moreover have "wait_loop lib ?t ?k = Some (\<not> ml_busy lib m, m + 1)"
    using m before by (intro wait_loop_first) auto
  ultimately show ?thesis
    by (intro exI [of _ "\<not> ml_busy lib m"] exI [of _ "m + 1"]) (simp add: active_wait_for_end_of_operation_def)
qed

lemma read_step:
  assumes "area_ok lib S n" "waits_end lib" "length (ap_flash w) = n" "unat from + unat num \<le> n"
    and "take (unat num) (drop (unat from) (ap_flash w)) = bs"
  shows "\<exists>r k. flash_read lib from num w = Some (if r then Some bs else None, w\<lparr>ap_polls := k\<rparr>) \<and> (ready_in_time lib \<longrightarrow> r)"
proof -
  have read: "ml_read lib from num (ap_flash w) = Some bs"
    using assms(1,3,4) unfolding area_ok_def assms(5) [symmetric] by blast
  obtain r k where "active_wait_for_end_of_operation lib (if external_flash (m_memory_area w) then 100000 else 0) w =
      Some (r, w\<lparr>ap_polls := k\<rparr>)" "ready_in_time lib \<longrightarrow> r"
    using wait_returns [OF assms(2)] by blast
  then show ?thesis using read by (intro exI [of _ r] exI [of _ k]) (simp add: flash_read_def Let_def)
qed

lemma write_step:
  assumes "area_ok lib S n" "waits_end lib" "length (ap_flash w) = n" "unat to + unat num \<le> n" "unat num \<le> length data"
    and "\<forall>i < unat num. ap_flash w ! (unat to + i) = 0xFF"
    and "take (unat to) (ap_flash w) @ take (unat num) data @ drop (unat to + unat num) (ap_flash w) = f"
  shows "\<exists>r k. write_and_wait lib to data num w = Some (if r then APP_PERSISTENT_RES_OK else APP_PERSISTENT_RES_ACCESS_TIMEOUT,
     w\<lparr>ap_flash := f, ap_polls := k\<rparr>) \<and> (ready_in_time lib \<longrightarrow> r)"
proof -
  have l: "length (take (unat num) data) = unat num" using assms(5) by simp
  have "ml_write lib to (take (unat num) data) (ap_flash w) = Some f"
    using assms(1,3,4,6) l unfolding area_ok_def assms(7) [symmetric] by metis
  moreover obtain r k where "active_wait_for_end_of_operation lib
      ((byte_write_time (m_memory_area w) + byte_write_call_time (m_memory_area w)) * num * 2) (w\<lparr>ap_flash := f\<rparr>) =
      Some (r, w\<lparr>ap_flash := f, ap_polls := k\<rparr>)" "ready_in_time lib \<longrightarrow> r"
    using wait_returns [OF assms(2)] by blast
  ultimately show ?thesis using assms(5)
    by (intro exI [of _ r] exI [of _ k]) (simp add: write_and_wait_def rd_bytes_def Let_def)
qed

text \<open>An initialised area with a magic number of four bytes.\<close>

definition area_state :: "nat \<Rightarrow> nat \<Rightarrow> persist \<Rightarrow> bool" where
  "area_state S n w \<longleftrightarrow> ap_initialized w \<and> m_magic_size w = 4 \<and> unat (m_usable_memory_size w) = n - 4 \<and>
     length (ap_flash w) = n \<and> 4 \<le> n \<and> n < 2 ^ 31 \<and>
     0 < S \<and> S \<le> n \<and> unat (erase_sector_size (m_memory_area w)) = S \<and>
     0 < unat (write_alignment (m_memory_area w)) \<and> unat (write_alignment (m_memory_area w)) \<le> 4"

definition blocks :: "nat \<Rightarrow> nat \<Rightarrow> nat" where
  "blocks S len = (len + S - 1) div S"

definition aligned_len :: "persist \<Rightarrow> nat \<Rightarrow> nat" where
  "aligned_len w len = (len + unat (write_alignment (m_memory_area w)) - 1) div unat (write_alignment (m_memory_area w))
      * unat (write_alignment (m_memory_area w))"

lemma write_sizes:
  fixes len :: u32
  assumes "area_state S n w" "unat len \<le> n - 4"
  shows "unat ((len + erase_sector_size (m_memory_area w) - 1) div erase_sector_size (m_memory_area w)) = blocks S (unat len)"
    and "unat ((len + write_alignment (m_memory_area w) - 1) div write_alignment (m_memory_area w) * write_alignment (m_memory_area w)) =
      aligned_len w (unat len)"
    and "unat len \<le> aligned_len w (unat len)"
proof -
  have s: "unat (erase_sector_size (m_memory_area w)) = S" "0 < S" "S \<le> n" "n < 2 ^ 31"
    "0 < unat (write_alignment (m_memory_area w))" "unat (write_alignment (m_memory_area w)) \<le> 4" "4 \<le> n"
    using assms(1) by (simp_all add: area_state_def)
  have "erase_sector_size (m_memory_area w) \<noteq> 0" "write_alignment (m_memory_area w) \<noteq> 0" using s by auto
  then show "unat ((len + erase_sector_size (m_memory_area w) - 1) div erase_sector_size (m_memory_area w)) = blocks S (unat len)"
    "unat ((len + write_alignment (m_memory_area w) - 1) div write_alignment (m_memory_area w) * write_alignment (m_memory_area w)) =
      aligned_len w (unat len)"
    using round_up [of len "erase_sector_size (m_memory_area w)"] round_up [of len "write_alignment (m_memory_area w)"] s assms(2)
    by (simp_all add: blocks_def aligned_len_def)
  show "unat len \<le> aligned_len w (unat len)" unfolding aligned_len_def by (rule round_up_ge [OF s(5)])
qed

text \<open>The flash after the erase, the data and the magic number.\<close>

lemma write_run:
  assumes ok: "area_ok lib S n" "waits_end lib" and w: "area_state S n w" and len: "unat len \<le> n - 4"
    and data: "aligned_len w (unat len) \<le> length data"
    and erase: "ml_erase lib 0 (of_nat (blocks S (unat len))) (ap_flash w) = Some (base, left, f)"
    and fits: "4 + aligned_len w (unat len) \<le> (blocks S (unat len) - unat left) * S" "blocks S (unat len) * S \<le> n"
  shows "\<exists>r w'. App_Persistent_write lib data len w = Some (if r then APP_PERSISTENT_RES_OK else APP_PERSISTENT_RES_ACCESS_TIMEOUT, w') \<and>
     (ready_in_time lib \<longrightarrow> r) \<and> (r \<longrightarrow> area_state S n w' \<and> take 4 (ap_flash w') = magic_bytes \<and>
       take (aligned_len w (unat len)) (drop 4 (ap_flash w')) = take (aligned_len w (unat len)) data)"
proof -
  define L where "L = aligned_len w (unat len)"
  define E where "E = (blocks S (unat len) - unat left) * S"
  have st: "ap_initialized w" "m_magic_size w = 4" "unat (m_usable_memory_size w) = n - 4" "length (ap_flash w) = n" "4 \<le> n"
    using w by (simp_all add: area_state_def)
  note sz = write_sizes [OF w len, folded L_def]
  let ?nb = "(len + erase_sector_size (m_memory_area w) - 1) div erase_sector_size (m_memory_area w)"
  let ?al = "(len + write_alignment (m_memory_area w) - 1) div write_alignment (m_memory_area w) * write_alignment (m_memory_area w)"
  have nb: "of_nat (blocks S (unat len)) = ?nb" unfolding sz(1) [symmetric] by simp
  have er: "ml_erase lib 0 ?nb (ap_flash w) = Some (base, left, f)" using erase unfolding nb .
  obtain base' left' where "left' \<le> ?nb" "ml_erase lib 0 ?nb (ap_flash w) =
      Some (base', left', replicate (unat (?nb - left') * S) 0xFF @ drop (unat (?nb - left') * S) (ap_flash w))"
    using ok(1) st(4) fits(2) sz(1) unfolding area_ok_def by metis
  then have f: "f = replicate E 0xFF @ drop E (ap_flash w)" using er sz(1) by (simp add: E_def unat_minus_le)
  have fit: "4 + L \<le> E" using fits by (simp add: L_def E_def)
  have "E \<le> blocks S (unat len) * S" by (simp add: E_def)
  then have En: "E \<le> n" using fits(2) by (rule le_trans)
  have f1: "length f = n" "\<And>i. i < E \<Longrightarrow> f ! i = 0xFF" using st(4) En by (simp_all add: f nth_append)
  obtain r1 k1 where w1: "active_wait_for_end_of_operation lib (sector_erase_time (m_memory_area w) * ?nb * 2) (w\<lparr>ap_flash := f\<rparr>) =
      Some (r1, w\<lparr>ap_flash := f, ap_polls := k1\<rparr>)" "ready_in_time lib \<longrightarrow> r1"
    using wait_returns [OF ok(2)] by blast
  let ?w1 = "w\<lparr>ap_flash := f, ap_polls := k1\<rparr>"
  define f2 where "f2 = take 4 f @ take L data @ drop (4 + L) f"
  obtain r2 k2 where w2: "write_and_wait lib 4 data ?al ?w1 =
      Some (if r2 then APP_PERSISTENT_RES_OK else APP_PERSISTENT_RES_ACCESS_TIMEOUT, w\<lparr>ap_flash := f2, ap_polls := k2\<rparr>)" "ready_in_time lib \<longrightarrow> r2"
  proof -
    have c: "unat (4 :: u32) + unat ?al \<le> n" "unat ?al \<le> length data" "\<forall>i < unat ?al. ap_flash ?w1 ! (unat (4 :: u32) + i) = 0xFF"
      "take (unat (4 :: u32)) (ap_flash ?w1) @ take (unat ?al) data @ drop (unat (4 :: u32) + unat ?al) (ap_flash ?w1) = f2"
      "length (ap_flash ?w1) = n"
      using f1 fit En data sz(2) by (simp_all add: L_def f2_def)
    show thesis using that write_step [OF ok c(5,1-4)] by auto
  qed
  let ?w2 = "w\<lparr>ap_flash := f2, ap_polls := k2\<rparr>"
  have f2: "length f2 = n" "\<And>i. i < 4 \<Longrightarrow> f2 ! i = 0xFF" using f1 fit En data st(5) by (simp_all add: f2_def L_def nth_append)
  define f3 where "f3 = magic_bytes @ drop 4 f2"
  obtain r3 k3 where w3: "write_and_wait lib 0 magic_bytes 4 ?w2 =
      Some (if r3 then APP_PERSISTENT_RES_OK else APP_PERSISTENT_RES_ACCESS_TIMEOUT, w\<lparr>ap_flash := f3, ap_polls := k3\<rparr>)" "ready_in_time lib \<longrightarrow> r3"
  proof -
    have c: "unat (0 :: u32) + unat (4 :: u32) \<le> n" "unat (4 :: u32) \<le> length magic_bytes"
      "\<forall>i < unat (4 :: u32). ap_flash ?w2 ! (unat (0 :: u32) + i) = 0xFF"
      "take (unat (0 :: u32)) (ap_flash ?w2) @ take (unat (4 :: u32)) magic_bytes @ drop (unat (0 :: u32) + unat (4 :: u32)) (ap_flash ?w2) = f3"
      "length (ap_flash ?w2) = n"
      using f2 st(5) by (simp_all add: f3_def)
    show thesis using that write_step [OF ok c(5,1-4)] by auto
  qed
  have "\<not> len > m_usable_memory_size w" using len st(3) by (simp add: word_less_nat_alt)
  then have "App_Persistent_write lib data len w = Some (if r1 \<and> r2 \<and> r3 then APP_PERSISTENT_RES_OK else APP_PERSISTENT_RES_ACCESS_TIMEOUT,
      if \<not> r1 then ?w1 else if \<not> r2 then ?w2 else w\<lparr>ap_flash := f3, ap_polls := k3\<rparr>)"
    using st er w1(1) w2(1) w3(1) by (simp add: App_Persistent_write_def Let_def)
  moreover have "length f3 = n" "take 4 f3 = magic_bytes" "take L (drop 4 f3) = take L data"
    using f2(1) f1(1) st(5) data fit En by (simp_all add: f3_def f2_def L_def)
  moreover have "area_state S n (w\<lparr>ap_flash := f3, ap_polls := k3\<rparr>)" using w \<open>length f3 = n\<close> by (simp add: area_state_def)
  ultimately show ?thesis unfolding L_def [symmetric] using w1(2) w2(2) w3(2)
    by (intro exI [of _ "r1 \<and> r2 \<and> r3"]
        exI [of _ "if \<not> r1 then ?w1 else if \<not> r2 then ?w2 else w\<lparr>ap_flash := f3, ap_polls := k3\<rparr>"] conjI) simp_all
qed

lemma read_run:
  assumes ok: "area_ok lib S n" "waits_end lib" and w: "area_state S n w" and len: "unat len \<le> n - 4" and m: "take 4 (ap_flash w) = magic_bytes"
  shows "\<exists>r w'. App_Persistent_read lib len w =
     Some (if r then (APP_PERSISTENT_RES_OK, Some (take (unat len) (drop 4 (ap_flash w))), w') else (APP_PERSISTENT_RES_FLASH_ERROR, None, w')) \<and>
     (ready_in_time lib \<longrightarrow> r)"
proof -
  have st: "ap_initialized w" "m_magic_size w = 4" "unat (m_usable_memory_size w) = n - 4" "length (ap_flash w) = n" "4 \<le> n"
    using w by (simp_all add: area_state_def)
  have c: "unat (0 :: u32) + unat (4 :: u32) \<le> n" "take (unat (4 :: u32)) (drop (unat (0 :: u32)) (ap_flash w)) = magic_bytes"
    "unat (4 :: u32) + unat len \<le> n" "take (unat len) (drop (unat (4 :: u32)) (ap_flash (w\<lparr>ap_polls := k\<rparr>))) = take (unat len) (drop 4 (ap_flash w))" for k
    using st(5) m len by simp_all
  obtain r1 k1 where r1: "flash_read lib 0 4 w = Some (if r1 then Some magic_bytes else None, w\<lparr>ap_polls := k1\<rparr>)" "ready_in_time lib \<longrightarrow> r1"
    using read_step [OF ok st(4) c(1,2)] by blast
  obtain r2 k2 where r2: "flash_read lib 4 len (w\<lparr>ap_polls := k1\<rparr>) =
      Some (if r2 then Some (take (unat len) (drop 4 (ap_flash w))) else None, w\<lparr>ap_polls := k2\<rparr>)" "ready_in_time lib \<longrightarrow> r2"
    using read_step [OF ok _ c(3,4), of k1] st(4) by auto
  have "\<not> len > m_usable_memory_size w" using len st(3) by (simp add: word_less_nat_alt)
  then have "App_Persistent_read lib len w =
     Some (if r1 \<and> r2 then (APP_PERSISTENT_RES_OK, Some (take (unat len) (drop 4 (ap_flash w))), w\<lparr>ap_polls := k2\<rparr>)
       else (APP_PERSISTENT_RES_FLASH_ERROR, None, if r1 then w\<lparr>ap_polls := k2\<rparr> else w\<lparr>ap_polls := k1\<rparr>))"
    using st r1(1) r2(1) by (simp add: App_Persistent_read_def)
  then show ?thesis using r1(2) r2(2)
    by (intro exI [of _ "r1 \<and> r2"] exI [of _ "if r1 then w\<lparr>ap_polls := k2\<rparr> else w\<lparr>ap_polls := k1\<rparr>"]) simp
qed

subsection \<open>Properties\<close>


definition small_area :: mem_info where
  "small_area = \<lparr>area_size = 32, external_flash = False, erase_sector_size = 8, write_alignment = 4,
     sector_erase_time = 0, byte_write_time = 0, byte_write_call_time = 0\<rparr>"

definition zero_area :: persist where
  "zero_area = \<lparr>ap_initialized = True, m_magic_size = 4, m_usable_memory_size = 28, m_memory_area = small_area,
     ap_flash = replicate 32 0, ap_polls = 0\<rparr>"


text \<open>The number of sectors to erase does not count the magic number.  On a flash whose
  writes only clear bits, data of exactly one sector is reported as written, and the bytes
  that lie in the next sector are read back as what was there before.\<close>

lemma write_crosses_sector:
  "\<exists>w' w''. App_Persistent_write (nor_lib 8 small_area) [a, b, c, d, e, f, g, h] 8 zero_area = Some (APP_PERSISTENT_RES_OK, w') \<and>
     App_Persistent_read (nor_lib 8 small_area) 8 w' = Some (APP_PERSISTENT_RES_OK, Some [a, b, c, d, 0, 0, 0, 0], w'')"
proof -
  have m: "magic_bytes = [0xD8, 0xFE, 0x75, 0x1E]"
    by (simp add: magic_bytes_def APP_PERSISTENT_MAGIC_def upt_rec)
  define lib where "lib = nor_lib 8 small_area"
  have wt: "active_wait_for_end_of_operation lib t w = Some (True, w\<lparr>ap_polls := ap_polls w + 2\<rparr>)" for t w
    by (rule wait_ready) (simp add: lib_def nor_lib_def)
  have r: "replicate 8 (0xFF :: u8) = [0xFF, 0xFF, 0xFF, 0xFF, 0xFF, 0xFF, 0xFF, 0xFF]" "replicate 24 (0 :: u8) = [0, 0, 0, 0] @ replicate 20 0"
    by (simp_all add: numeral_eq_Suc)
  have er: "ml_erase lib 0 1 (replicate 32 0) = Some (8, 0, [0xFF, 0xFF, 0xFF, 0xFF, 0xFF, 0xFF, 0xFF, 0xFF, 0, 0, 0, 0] @ replicate 20 0)"
    using r by (simp add: lib_def nor_lib_def)
  have w1: "ml_write lib 4 [a, b, c, d, e, f, g, h] ([0xFF, 0xFF, 0xFF, 0xFF, 0xFF, 0xFF, 0xFF, 0xFF, 0, 0, 0, 0] @ replicate 20 0) =
      Some ([0xFF, 0xFF, 0xFF, 0xFF, a, b, c, d, 0, 0, 0, 0] @ replicate 20 0)"
    by (simp add: lib_def nor_lib_def and_ones_u8)
  have w2: "ml_write lib 0 magic_bytes ([0xFF, 0xFF, 0xFF, 0xFF, a, b, c, d, 0, 0, 0, 0] @ replicate 20 0) =
      Some ([0xD8, 0xFE, 0x75, 0x1E, a, b, c, d, 0, 0, 0, 0] @ replicate 20 0)"
    by (simp add: lib_def nor_lib_def and_ones_u8 m)
  let ?w = "zero_area\<lparr>ap_flash := [0xD8, 0xFE, 0x75, 0x1E, a, b, c, d, 0, 0, 0, 0] @ replicate 20 0, ap_polls := 6\<rparr>"
  have "App_Persistent_write lib [a, b, c, d, e, f, g, h] 8 zero_area = Some (APP_PERSISTENT_RES_OK, ?w)"
    using er w1 w2 by (simp add: App_Persistent_write_def write_and_wait_def wt rd_bytes_def zero_area_def small_area_def Let_def)
  moreover have "ml_read lib 0 4 (ap_flash ?w) = Some magic_bytes" "ml_read lib 4 8 (ap_flash ?w) = Some [a, b, c, d, 0, 0, 0, 0]"
    by (simp_all add: lib_def nor_lib_def m)
  then have "\<exists>w''. App_Persistent_read lib 8 ?w = Some (APP_PERSISTENT_RES_OK, Some [a, b, c, d, 0, 0, 0, 0], w'')"
    by (simp add: App_Persistent_read_def flash_read_def wt zero_area_def Let_def)
  ultimately show ?thesis unfolding lib_def by blast
qed

text \<open>The number of sectors the driver has left over is ignored: when it erases one sector per call,
  data of two sectors is reported as written, and its part in the second sector is read back as
  what was there before.\<close>

declare wait_loop.simps [code]

definition one_sector_lib :: mem_lib where
  "one_sector_lib = (nor_lib 8 small_area)\<lparr>ml_erase := (\<lambda>base num f. Some (8, num - 1, replicate 8 0xFF @ drop 8 f))\<rparr>"

lemma left_sectors_ignored:
  "map_option (\<lambda>(res, w). (res, map_option (\<lambda>(res, data, _). (res, data)) (App_Persistent_read one_sector_lib 12 w)))
     (App_Persistent_write one_sector_lib [1, 2, 3, 4, 5, 6, 7, 8, 9, 10, 11, 12] 12 zero_area) =
   Some (APP_PERSISTENT_RES_OK, Some (APP_PERSISTENT_RES_OK, Some [1, 2, 3, 4, 0, 0, 0, 0, 0, 0, 0, 0]))"
  by code_simp

end
