(* ===== verification/Stack_State.thy ===== *)
theory Stack_State
  imports Wms_Api
begin

text \<open>
  \<open>libraries/stack_state/stack_state.c\<close> (with \<open>STACK_STATE_CB\<close> not 0): modules
  subscribe a callback to events of the stack.  A callback is a number, an event its
  position in the bit field, the calls made are recorded in \<open>ss_calls\<close>; the state library
  of the stack is a parameter.  The table refines a map from callbacks to bit fields.
\<close>

subsection \<open>Operations\<close>

record event_cb =
  ss_cb :: "nat option"
  ss_bitfields :: u32

record stack_state =
  ss_initialized :: bool
  m_stack_state_cbs :: "event_cb list"
  ss_calls :: "(nat \<times> nat) list"

definition wants_event :: "nat \<Rightarrow> event_cb \<Rightarrow> bool" where
  "wants_event event e \<longleftrightarrow> ss_cb e \<noteq> None \<and> ss_bitfields e AND push_bit event 1 \<noteq> 0"

definition notify_one :: "nat \<Rightarrow> event_cb \<Rightarrow> stack_state \<Rightarrow> stack_state" where
  "notify_one event e w =
     (if wants_event event e then w\<lparr>ss_calls := ss_calls w @ [(the (ss_cb e), event)]\<rparr> else w)"

text \<open>The callbacks do not call this library back.\<close>

definition notify_modules :: "nat \<Rightarrow> stack_state \<Rightarrow> stack_state" where
  "notify_modules event w = fold (notify_one event) (m_stack_state_cbs w) w"

definition onStackEventCb :: "nat \<Rightarrow> stack_state \<Rightarrow> stack_state" where
  "onStackEventCb event w = notify_modules event w"

definition Stack_State_init :: "app_res \<Rightarrow> stack_state \<Rightarrow> app_res \<times> stack_state" where
  "Stack_State_init setOnStackEventCb w =
     (if ss_initialized w then (APP_RES_OK, w)
      else
        let w = w\<lparr>m_stack_state_cbs := map (\<lambda>e. e\<lparr>ss_cb := None\<rparr>) (m_stack_state_cbs w)\<rparr>
        in if setOnStackEventCb \<noteq> APP_RES_OK then (setOnStackEventCb, w)
           else (APP_RES_OK, w\<lparr>ss_initialized := True\<rparr>))"

definition Stack_State_startStack :: "app_res \<Rightarrow> stack_state \<Rightarrow> app_res" where
  "Stack_State_startStack startStack w = (if \<not> ss_initialized w then APP_RES_INVALID_VALUE else startStack)"

definition Stack_State_stopStack :: "app_res \<Rightarrow> stack_state \<Rightarrow> app_res" where
  "Stack_State_stopStack stopStack w = (if \<not> ss_initialized w then APP_RES_INVALID_VALUE else stopStack)"

definition Stack_State_isStarted :: "u8 \<Rightarrow> bool" where
  "Stack_State_isStarted getStackState \<longleftrightarrow> getStackState = 0"

text \<open>The search loop: the last free slot seen before the callback, or before the end.\<close>

fun event_scan :: "event_cb list \<Rightarrow> nat \<Rightarrow> nat \<Rightarrow> nat option \<Rightarrow> nat option \<times> nat option" where
  "event_scan [] callback i free_slot = (None, free_slot)"
| "event_scan (e # es) callback i free_slot =
     (if ss_cb e = None then event_scan es callback (i + 1) (Some i)
      else if ss_cb e = Some callback then (Some i, free_slot)
      else event_scan es callback (i + 1) free_slot)"

definition Stack_State_addEventCb :: "nat option \<Rightarrow> u32 \<Rightarrow> stack_state \<Rightarrow> app_res \<times> stack_state" where
  "Stack_State_addEventCb callback event_bitfield w =
     (if \<not> ss_initialized w then (APP_RES_INVALID_VALUE, w)
      else case callback of
        None \<Rightarrow> (APP_RES_INVALID_NULL_POINTER, w)
      | Some c \<Rightarrow>
          if event_bitfield = 0 then (APP_RES_INVALID_VALUE, w)
          else (case event_scan (m_stack_state_cbs w) c 0 None of
              (Some i, _) \<Rightarrow>
                (APP_RES_OK, w\<lparr>m_stack_state_cbs := (m_stack_state_cbs w)[i := (m_stack_state_cbs w ! i)\<lparr>ss_bitfields := event_bitfield\<rparr>]\<rparr>)
            | (None, Some i) \<Rightarrow>
                (APP_RES_OK, w\<lparr>m_stack_state_cbs := (m_stack_state_cbs w)[i := \<lparr>ss_cb = Some c, ss_bitfields = event_bitfield\<rparr>]\<rparr>)
            | (None, None) \<Rightarrow> (APP_RES_RESOURCE_UNAVAILABLE, w)))"

definition Stack_State_removeEventCb :: "nat option \<Rightarrow> stack_state \<Rightarrow> app_res \<times> stack_state" where
  "Stack_State_removeEventCb callback w =
     (if \<not> ss_initialized w then (APP_RES_INVALID_VALUE, w)
      else
        (if \<exists>e \<in> set (m_stack_state_cbs w). ss_cb e = callback then APP_RES_OK else APP_RES_INVALID_VALUE,
         w\<lparr>m_stack_state_cbs := map (\<lambda>e. if ss_cb e = callback then e\<lparr>ss_cb := None\<rparr> else e) (m_stack_state_cbs w)\<rparr>))"

subsection \<open>Subscriptions\<close>

text \<open>The contract of a table of subscriptions with limited room.\<close>

locale subscriptions =
  fixes wf :: "'t \<Rightarrow> bool" and subs :: "'t \<Rightarrow> 'c \<rightharpoonup> u32" and room :: "'t \<Rightarrow> bool"
    and subscribe :: "'c \<Rightarrow> u32 \<Rightarrow> 't \<Rightarrow> app_res \<times> 't" and unsubscribe :: "'c \<Rightarrow> 't \<Rightarrow> app_res \<times> 't"
  assumes subscribe_ok: "wf w \<Longrightarrow> b \<noteq> 0 \<Longrightarrow> c \<in> dom (subs w) \<or> room w \<Longrightarrow>
      \<exists>w'. subscribe c b w = (APP_RES_OK, w') \<and> wf w' \<and> subs w' = (subs w)(c \<mapsto> b)"
    and subscribe_full: "wf w \<Longrightarrow> b \<noteq> 0 \<Longrightarrow> c \<notin> dom (subs w) \<Longrightarrow> \<not> room w \<Longrightarrow>
      subscribe c b w = (APP_RES_RESOURCE_UNAVAILABLE, w)"
    and unsubscribe_ok: "wf w \<Longrightarrow> c \<in> dom (subs w) \<Longrightarrow>
      \<exists>w'. unsubscribe c w = (APP_RES_OK, w') \<and> wf w' \<and> subs w' = (subs w)(c := None) \<and> room w'"
begin

lemma subscribe_unsubscribe:
  assumes "wf w" "b \<noteq> 0" "c \<in> dom (subs w) \<or> room w"
  shows "\<exists>w1 w2. subscribe c b w = (APP_RES_OK, w1) \<and> unsubscribe c w1 = (APP_RES_OK, w2) \<and>
     subs w2 = (subs w)(c := None) \<and> room w2"
proof -
  obtain w1 where w1: "subscribe c b w = (APP_RES_OK, w1)" "wf w1" "subs w1 = (subs w)(c \<mapsto> b)"
    using subscribe_ok [OF assms] by blast
  with unsubscribe_ok [OF w1(2), of c] show ?thesis by auto
qed

lemma resubscribe:
  assumes "wf w" "c \<in> dom (subs w)" "b \<noteq> 0"
  shows "\<exists>w1 w2. unsubscribe c w = (APP_RES_OK, w1) \<and> subscribe d b w1 = (APP_RES_OK, w2) \<and> subs w2 = (subs w)(c := None, d \<mapsto> b)"
proof -
  obtain w1 where w1: "unsubscribe c w = (APP_RES_OK, w1)" "wf w1" "subs w1 = (subs w)(c := None)" "room w1"
    using unsubscribe_ok [OF assms(1,2)] by blast
  with subscribe_ok [OF w1(2) assms(3), of d] show ?thesis by auto
qed

end

definition live_cbs :: "event_cb list \<Rightarrow> (nat \<times> u32) list" where
  "live_cbs es = map (\<lambda>e. (the (ss_cb e), ss_bitfields e)) (filter (\<lambda>e. ss_cb e \<noteq> None) es)"

definition ss_subs :: "stack_state \<Rightarrow> nat \<rightharpoonup> u32" where
  "ss_subs w = map_of (live_cbs (m_stack_state_cbs w))"

definition ss_wf :: "stack_state \<Rightarrow> bool" where
  "ss_wf w \<longleftrightarrow> ss_initialized w \<and> distinct (map fst (live_cbs (m_stack_state_cbs w)))"

definition ss_room :: "stack_state \<Rightarrow> bool" where
  "ss_room w \<longleftrightarrow> (\<exists>e \<in> set (m_stack_state_cbs w). ss_cb e = None)"

lemma live_cbs_simps [simp]:
  "live_cbs [] = []"
  "live_cbs (e # es) = (case ss_cb e of None \<Rightarrow> live_cbs es | Some c \<Rightarrow> (c, ss_bitfields e) # live_cbs es)"
  "live_cbs (es @ fs) = live_cbs es @ live_cbs fs"
  by (simp_all add: live_cbs_def split: option.splits)

lemma event_scan_cases:
  obtains (found) es e fs free where "es0 = es @ e # fs" "ss_cb e = Some c" "c \<notin> fst ` set (live_cbs es)"
      "event_scan es0 c i f = (Some (i + length es), free)"
  | (absent) "c \<notin> fst ` set (live_cbs es0)" "\<not> (\<exists>e \<in> set es0. ss_cb e = None)" "event_scan es0 c i f = (None, f)"
  | (free) es e fs where "c \<notin> fst ` set (live_cbs es0)" "es0 = es @ e # fs" "ss_cb e = None"
      "event_scan es0 c i f = (None, Some (i + length es))"
proof (induction es0 arbitrary: i f thesis)
  case Nil
  then show ?case by simp
next
  case (Cons x xs)
  consider (none) "ss_cb x = None" | (same) "ss_cb x = Some c" | (other) d where "ss_cb x = Some d" "d \<noteq> c"
    by (cases "ss_cb x") auto
  then show ?case
  proof cases
    case none
    show ?thesis
    proof (cases rule: Cons.IH [of "i + 1" "Some i"])
      case (1 es e fs free)
      then show ?thesis using none by (intro Cons.prems(1) [of "x # es" e fs free]) simp_all
    next
      case 2
      then show ?thesis using none by (intro Cons.prems(3) [of "[]" x xs]) simp_all
    next
      case (3 es e fs)
      then show ?thesis using none by (intro Cons.prems(3) [of "x # es" e fs]) simp_all
    qed
  next
    case same
    then show ?thesis by (intro Cons.prems(1) [of "[]" x xs f]) simp_all
  next
    case other
    show ?thesis
    proof (cases rule: Cons.IH [of "i + 1" f])
      case (1 es e fs free)
      then show ?thesis using other by (intro Cons.prems(1) [of "x # es" e fs free]) auto
    next
      case 2
      then show ?thesis using other by (intro Cons.prems(2)) auto
    next
      case (3 es e fs)
      then show ?thesis using other by (intro Cons.prems(3) [of "x # es" e fs]) auto
    qed
  qed
qed

lemma map_of_insert:
  "c \<notin> fst ` set xs \<Longrightarrow> map_of (xs @ (c, b) # ys) = (map_of (xs @ ys))(c \<mapsto> b)"
  by (induction xs) auto

lemma map_of_replace:
  "c \<notin> fst ` set xs \<Longrightarrow> map_of (xs @ (c, b) # ys) = (map_of (xs @ (c, b') # ys))(c \<mapsto> b)"
  by (induction xs) auto

lemma unsubscribe_live:
  "live_cbs (map (\<lambda>e. if ss_cb e = Some c then e\<lparr>ss_cb := None\<rparr> else e) es) = filter (\<lambda>p. fst p \<noteq> c) (live_cbs es)"
  by (induction es) (auto split: option.splits)

lemma map_of_filter_neq: "map_of (filter (\<lambda>p. fst p \<noteq> c) xs) = (map_of xs)(c := None)"
  by (induction xs) auto

lemma dom_subs: "dom (ss_subs w) = fst ` set (live_cbs (m_stack_state_cbs w))"
  by (simp add: ss_subs_def dom_map_of_conv_image_fst)

interpretation stack_events: subscriptions ss_wf ss_subs ss_room "\<lambda>c. Stack_State_addEventCb (Some c)" "\<lambda>c. Stack_State_removeEventCb (Some c)"
proof
  fix w b and c :: nat
  assume w: "ss_wf w" and b: "(b :: u32) \<noteq> 0"
  let ?es = "m_stack_state_cbs w"
  show "\<exists>w'. Stack_State_addEventCb (Some c) b w = (APP_RES_OK, w') \<and> ss_wf w' \<and> ss_subs w' = (ss_subs w)(c \<mapsto> b)"
    if r: "c \<in> dom (ss_subs w) \<or> ss_room w"
  proof (cases rule: event_scan_cases [of ?es c 0 None])
    case (found es e fs free)
    then show ?thesis using w b map_of_replace [of c "live_cbs es" b "live_cbs fs" "ss_bitfields e"]
      by (auto simp: Stack_State_addEventCb_def ss_wf_def ss_subs_def list_update_append)
  next
    case absent
    then show ?thesis using r by (auto simp: dom_subs ss_room_def)
  next
    case (free es e fs)
    then show ?thesis using w b map_of_insert [of c "live_cbs es" b "live_cbs fs"]
      by (auto simp: Stack_State_addEventCb_def ss_wf_def ss_subs_def list_update_append)
  qed
  show "Stack_State_addEventCb (Some c) b w = (APP_RES_RESOURCE_UNAVAILABLE, w)"
    if "c \<notin> dom (ss_subs w)" "\<not> ss_room w"
    using that w b
    by (cases rule: event_scan_cases [of ?es c 0 None]) (auto simp: dom_subs ss_room_def ss_wf_def Stack_State_addEventCb_def)
next
  fix w and c :: nat
  assume w: "ss_wf w" and c: "c \<in> dom (ss_subs w)"
  let ?es = "map (\<lambda>e. if ss_cb e = Some c then e\<lparr>ss_cb := None\<rparr> else e) (m_stack_state_cbs w)"
  from c have e: "\<exists>e \<in> set (m_stack_state_cbs w). ss_cb e = Some c" unfolding dom_subs live_cbs_def by force
  then obtain e where "e \<in> set (m_stack_state_cbs w)" "ss_cb e = Some c" by blast
  then have "e\<lparr>ss_cb := None\<rparr> \<in> set ?es" by (auto intro!: image_eqI [of _ _ e])
  then have "\<exists>e \<in> set ?es. ss_cb e = None" by (rule bexI [rotated]) simp
  moreover have "distinct (map fst (live_cbs ?es))" using w by (simp add: ss_wf_def unsubscribe_live distinct_map_filter)
  ultimately show "\<exists>w'. Stack_State_removeEventCb (Some c) w = (APP_RES_OK, w') \<and> ss_wf w' \<and>
      ss_subs w' = (ss_subs w)(c := None) \<and> ss_room w'"
    using w e by (simp add: Stack_State_removeEventCb_def ss_wf_def ss_subs_def unsubscribe_live map_of_filter_neq ss_room_def)
qed

lemma notify_calls:
  "fold (notify_one event) es w = w\<lparr>ss_calls := ss_calls w @ map (\<lambda>e. (the (ss_cb e), event)) (filter (wants_event event) es)\<rparr>"
  by (induction es arbitrary: w) (simp_all add: notify_one_def)

lemma wanted_set:
  "distinct (map fst (live_cbs es)) \<Longrightarrow>
     (\<lambda>e. the (ss_cb e)) ` set (filter (wants_event event) es) =
       {c. \<exists>b. map_of (live_cbs es) c = Some b \<and> b AND push_bit event 1 \<noteq> 0}"
proof (induction es)
  case Nil
  then show ?case by simp
next
  case (Cons e es)
  show ?case
  proof (cases "ss_cb e")
    case None
    with Cons show ?thesis by (simp add: wants_event_def)
  next
    case (Some d)
    with Cons.prems have "map_of (live_cbs es) d = None" by (simp add: map_of_eq_None_iff)
    with Some Cons show ?thesis by (auto simp: wants_event_def)
  qed
qed

lemma notified_distinct:
  "distinct (map fst (live_cbs es)) \<Longrightarrow> distinct (map (\<lambda>e. the (ss_cb e)) (filter (wants_event event) es))"
proof (induction es)
  case Nil
  then show ?case by simp
next
  case (Cons e es)
  show ?case
  proof (cases "ss_cb e")
    case None
    with Cons show ?thesis by (simp add: wants_event_def)
  next
    case (Some d)
    with Cons.prems have "map_of (live_cbs es) d = None" by (simp add: map_of_eq_None_iff)
    with Some Cons wanted_set [of es event] show ?thesis by (auto simp: image_iff)
  qed
qed

subsection \<open>Properties\<close>

text \<open>C19: the table implements a map from callbacks to sets of events.  Subscribing sets
  the entry of the callback, with the same callback replacing its entry, and fails only
  when there is no room; unsubscribing removes the entry and makes room; an event calls
  exactly the callbacks whose entry has its bit, each once.\<close>

theorem stack_events_refine_map:
  assumes "ss_wf w" "b \<noteq> 0"
  shows "(if c \<in> dom (ss_subs w) \<or> ss_room w
      then \<exists>w'. Stack_State_addEventCb (Some c) b w = (APP_RES_OK, w') \<and> ss_wf w' \<and> ss_subs w' = (ss_subs w)(c \<mapsto> b)
      else Stack_State_addEventCb (Some c) b w = (APP_RES_RESOURCE_UNAVAILABLE, w)) \<and>
    (c \<in> dom (ss_subs w) \<longrightarrow>
      (\<exists>w1 w2. Stack_State_removeEventCb (Some c) w = (APP_RES_OK, w1) \<and> ss_subs w1 = (ss_subs w)(c := None) \<and>
        Stack_State_addEventCb (Some d) b w1 = (APP_RES_OK, w2))) \<and>
    (\<exists>cs. onStackEventCb event w = w\<lparr>ss_calls := ss_calls w @ map (\<lambda>c. (c, event)) cs\<rparr> \<and> distinct cs \<and>
      set cs = {c. \<exists>b. ss_subs w c = Some b \<and> b AND push_bit event 1 \<noteq> 0})"
proof (intro conjI impI)
  show "if c \<in> dom (ss_subs w) \<or> ss_room w
      then \<exists>w'. Stack_State_addEventCb (Some c) b w = (APP_RES_OK, w') \<and> ss_wf w' \<and> ss_subs w' = (ss_subs w)(c \<mapsto> b)
      else Stack_State_addEventCb (Some c) b w = (APP_RES_RESOURCE_UNAVAILABLE, w)"
    using stack_events.subscribe_ok [OF assms, of c] stack_events.subscribe_full [OF assms, of c] by simp
  show "\<exists>w1 w2. Stack_State_removeEventCb (Some c) w = (APP_RES_OK, w1) \<and> ss_subs w1 = (ss_subs w)(c := None) \<and>
        Stack_State_addEventCb (Some d) b w1 = (APP_RES_OK, w2)" if "c \<in> dom (ss_subs w)"
    using stack_events.resubscribe [OF assms(1) that assms(2), of d] stack_events.unsubscribe_ok [OF assms(1) that] by auto
  let ?cs = "map (\<lambda>e. the (ss_cb e)) (filter (wants_event event) (m_stack_state_cbs w))"
  have "onStackEventCb event w = w\<lparr>ss_calls := ss_calls w @ map (\<lambda>c. (c, event)) ?cs\<rparr>"
    by (simp add: onStackEventCb_def notify_modules_def notify_calls comp_def)
  moreover have "distinct ?cs" "set ?cs = {c. \<exists>b. ss_subs w c = Some b \<and> b AND push_bit event 1 \<noteq> 0}"
    using notified_distinct [of "m_stack_state_cbs w" event] wanted_set [of "m_stack_state_cbs w" event] assms(1)
    by (simp_all add: ss_wf_def ss_subs_def)
  ultimately show "\<exists>cs. onStackEventCb event w = w\<lparr>ss_calls := ss_calls w @ map (\<lambda>c. (c, event)) cs\<rparr> \<and> distinct cs \<and>
      set cs = {c. \<exists>b. ss_subs w c = Some b \<and> b AND push_bit event 1 \<noteq> 0}" by blast
qed

definition stack_state_example :: stack_state where
  "stack_state_example = \<lparr>ss_initialized = True,
     m_stack_state_cbs = [\<lparr>ss_cb = None, ss_bitfields = 1\<rparr>, \<lparr>ss_cb = Some 7, ss_bitfields = 2\<rparr>], ss_calls = []\<rparr>"

theorem stack_events_refine_map_witness:
  "ss_wf stack_state_example \<and>
     (\<exists>w'. Stack_State_addEventCb (Some 5) 3 stack_state_example = (APP_RES_OK, w') \<and> ss_subs w' = [7 \<mapsto> 2, 5 \<mapsto> 3])"
proof -
  have w: "ss_wf stack_state_example" "ss_room stack_state_example" "ss_subs stack_state_example = [7 \<mapsto> 2]"
    by (simp_all add: ss_wf_def ss_room_def ss_subs_def stack_state_example_def)
  then show ?thesis using stack_events_refine_map [OF w(1), of 3 5 0 0] by auto
qed

end
