(* ===== verification/Shared_Beacon.thy ===== *)
theory Shared_Beacon
  imports Wms_Api
begin

text \<open>
  \<open>libraries/shared_beacon/shared_beacon.c\<close> and
  \<open>libraries/shared_neighbors/shared_neighbors.c\<close>: modules share the transmission of
  beacons, with one interval for all of them, and the reception of the beacons of the
  network.  The beacon library of the stack is a parameter: the results of the calls that
  set power, channels and contents; the interval last set is part of the state.
\<close>

subsection \<open>Beacons\<close>

datatype beacon_res =
  SHARED_BEACON_RES_OK | SHARED_BEACON_INIT_NOT_DONE | SHARED_BEACON_INDEX_NOT_AVAILABLE
| SHARED_BEACON_INDEX_NOT_ACTIVE | SHARED_BEACON_INVALID_PARAM

record beacon_slot =
  bs_interval_ms :: u16
  bs_in_use :: bool

record beacons =
  m_init_done :: bool
  m_beacons_enabled :: bool
  m_beacon_index :: "beacon_slot list"
  m_min_interval_used_ms :: u32
  hw_interval :: "u32 option"

definition APP_LIB_BEACON_TX_MAX_INDEX :: nat where "APP_LIB_BEACON_TX_MAX_INDEX = 7"
definition APP_LIB_BEACON_TX_MAX_INTERVAL :: u32 where "APP_LIB_BEACON_TX_MAX_INTERVAL = 60000"

definition Shared_Beacon_init :: "beacons \<Rightarrow> beacon_res \<times> beacons" where
  "Shared_Beacon_init w =
     (if m_init_done w then (SHARED_BEACON_RES_OK, w)
      else (SHARED_BEACON_RES_OK,
        w\<lparr>m_beacon_index := replicate (APP_LIB_BEACON_TX_MAX_INDEX + 1) \<lparr>bs_interval_ms = 0, bs_in_use = False\<rparr>,
          m_init_done := True, m_beacons_enabled := False,
          m_min_interval_used_ms := APP_LIB_BEACON_TX_MAX_INTERVAL\<rparr>))"

text \<open>The first argument says whether the three calls that set up a beacon succeed: their
  results are combined bit by bit and compared with \<open>APP_RES_OK\<close>, which is 0.\<close>

definition Shared_Beacon_startBeacon :: "app_res list \<Rightarrow> u16 \<Rightarrow> beacons \<Rightarrow> beacon_res \<times> u8 option \<times> beacons" where
  "Shared_Beacon_startBeacon set_results interval_ms w =
     (if \<not> m_init_done w then (SHARED_BEACON_INIT_NOT_DONE, None, w)
      else case first_index (\<lambda>b. \<not> bs_in_use b) (m_beacon_index w) of
        None \<Rightarrow> (SHARED_BEACON_INDEX_NOT_AVAILABLE, None, w)
      | Some n \<Rightarrow>
          if \<not> list_all (\<lambda>r. r = APP_RES_OK) set_results
          then (SHARED_BEACON_INVALID_PARAM, None,
            w\<lparr>m_beacon_index := (m_beacon_index w)[n := (m_beacon_index w ! n)\<lparr>bs_in_use := False\<rparr>]\<rparr>)
          else
            let mn = (if ucast interval_ms < m_min_interval_used_ms w then ucast interval_ms else m_min_interval_used_ms w)
            in (SHARED_BEACON_RES_OK, Some (of_nat n),
                w\<lparr>m_beacon_index := (m_beacon_index w)[n := \<lparr>bs_interval_ms = interval_ms, bs_in_use = True\<rparr>],
                  m_min_interval_used_ms := mn, hw_interval := Some mn, m_beacons_enabled := True\<rparr>))"

definition smallest_step :: "beacon_slot \<Rightarrow> u32 \<Rightarrow> u32" where
  "smallest_step b interval_ms =
     (if bs_in_use b \<and> ucast (bs_interval_ms b) < interval_ms then ucast (bs_interval_ms b) else interval_ms)"

definition smallest_interval :: "beacons \<Rightarrow> u32" where
  "smallest_interval w = fold smallest_step (m_beacon_index w) APP_LIB_BEACON_TX_MAX_INTERVAL"

definition Shared_Beacon_stopBeacon :: "app_res \<Rightarrow> u8 \<Rightarrow> beacons \<Rightarrow> beacon_res \<times> beacons" where
  "Shared_Beacon_stopBeacon clear_result shared_beacon_index w =
     (if \<not> m_init_done w then (SHARED_BEACON_INIT_NOT_DONE, w)
      else if unat shared_beacon_index > APP_LIB_BEACON_TX_MAX_INDEX then (SHARED_BEACON_INVALID_PARAM, w)
      else if \<not> bs_in_use (m_beacon_index w ! unat shared_beacon_index) then (SHARED_BEACON_INDEX_NOT_AVAILABLE, w)
      else
        let i = unat shared_beacon_index;
            w = w\<lparr>m_beacon_index := (m_beacon_index w)[i := (m_beacon_index w ! i)\<lparr>bs_in_use := False\<rparr>]\<rparr>;
            mn = smallest_interval w;
            w = w\<lparr>m_min_interval_used_ms := mn, hw_interval := Some mn\<rparr>
        in (if clear_result \<noteq> APP_RES_OK then SHARED_BEACON_INDEX_NOT_ACTIVE else SHARED_BEACON_RES_OK, w))"

subsection \<open>Beacons of the network\<close>

record neighbors =
  m_neighbor_cb :: "nat option list"
  nb_calls :: "nat list"

definition received_beacon_cb :: "neighbors \<Rightarrow> neighbors" where
  "received_beacon_cb w =
     fold (\<lambda>cb w. case cb of None \<Rightarrow> w | Some c \<Rightarrow> w\<lparr>nb_calls := nb_calls w @ [c]\<rparr>) (m_neighbor_cb w) w"

definition Shared_Neighbors_init :: "neighbors \<Rightarrow> app_res \<times> neighbors" where
  "Shared_Neighbors_init w = (APP_RES_OK, w\<lparr>m_neighbor_cb := map (\<lambda>_. None) (m_neighbor_cb w)\<rparr>)"

definition Shared_Neighbors_addOnBeaconCb :: "nat option \<Rightarrow> neighbors \<Rightarrow> app_res \<times> u16 option \<times> neighbors" where
  "Shared_Neighbors_addOnBeaconCb cb w =
     (if cb = None then (APP_RES_INVALID_NULL_POINTER, None, w)
      else case first_index (\<lambda>c. c = None) (m_neighbor_cb w) of
        None \<Rightarrow> (APP_RES_RESOURCE_UNAVAILABLE, None, w)
      | Some i \<Rightarrow> (APP_RES_OK, Some (of_nat i), w\<lparr>m_neighbor_cb := (m_neighbor_cb w)[i := cb]\<rparr>))"

text \<open>The id is not checked: \<open>None\<close> is an access outside of the table.\<close>

definition Shared_Neighbors_removeBeaconCb :: "u16 \<Rightarrow> neighbors \<Rightarrow> (app_res \<times> neighbors) option" where
  "Shared_Neighbors_removeBeaconCb cb_id w =
     do {
       cb \<leftarrow> rd (m_neighbor_cb w) (unat cb_id);
       Some (if cb \<noteq> None then (APP_RES_OK, w\<lparr>m_neighbor_cb := (m_neighbor_cb w)[unat cb_id := None]\<rparr>)
             else (APP_RES_INVALID_CONFIGURATION, w))
     }"

subsection \<open>The common interval\<close>

definition used_intervals :: "beacon_slot list \<Rightarrow> u32 set" where
  "used_intervals bs = {ucast (bs_interval_ms b) | b. b \<in> set bs \<and> bs_in_use b}"

lemma used_intervals_simps [simp]:
  "used_intervals [] = {}"
  "used_intervals (b # bs) = (if bs_in_use b then insert (ucast (bs_interval_ms b)) (used_intervals bs) else used_intervals bs)"
  "used_intervals (bs @ cs) = used_intervals bs \<union> used_intervals cs"
  by (auto simp: used_intervals_def)

lemma used_intervals_finite [simp]: "finite (used_intervals bs)"
  by (induction bs) simp_all

lemma fold_smallest: "fold smallest_step bs m = Min (insert m (used_intervals bs))"
proof (induction bs arbitrary: m)
  case Nil
  then show ?case by simp
next
  case (Cons b bs)
  then show ?case by (simp add: smallest_step_def Min_insert2 del: Min_insert)
qed

text \<open>One interval is set for all beacons: the smallest of those in use, at most the largest
  the stack allows.\<close>

definition beacons_inv :: "beacons \<Rightarrow> bool" where
  "beacons_inv w \<longleftrightarrow> m_init_done w \<and> length (m_beacon_index w) = APP_LIB_BEACON_TX_MAX_INDEX + 1 \<and>
     m_min_interval_used_ms w = Min (insert APP_LIB_BEACON_TX_MAX_INTERVAL (used_intervals (m_beacon_index w))) \<and>
     (used_intervals (m_beacon_index w) \<noteq> {} \<longrightarrow> hw_interval w = Some (m_min_interval_used_ms w))"

inductive beacon_step :: "beacons \<Rightarrow> beacons \<Rightarrow> bool" where
  start: "beacon_step w (snd (snd (Shared_Beacon_startBeacon rs interval w)))"
| stop: "beacon_step w (snd (Shared_Beacon_stopBeacon r i w))"
| init: "beacon_step w (snd (Shared_Beacon_init w))"

lemma start_inv:
  assumes "beacons_inv w"
  shows "beacons_inv (snd (snd (Shared_Beacon_startBeacon rs interval w)))"
proof (cases "first_index (\<lambda>b. \<not> bs_in_use b) (m_beacon_index w)")
  case None
  with assms show ?thesis by (simp add: Shared_Beacon_startBeacon_def)
next
  case (Some n)
  note n = first_index_SomeD [OF Some]
  define xs ys where "xs = take n (m_beacon_index w)" and "ys = drop (Suc n) (m_beacon_index w)"
  have e: "m_beacon_index w = xs @ m_beacon_index w ! n # ys" "length xs = n" using n by (simp_all add: id_take_nth_drop xs_def ys_def)
  define D where "D = used_intervals xs \<union> used_intervals ys"
  have D: "used_intervals (m_beacon_index w) = D" "finite D" using n by (subst e(1)) (simp_all add: D_def)
  have u: "used_intervals ((m_beacon_index w)[n := b]) = (if bs_in_use b then insert (ucast (bs_interval_ms b)) D else D)" for b
    by (subst e(1)) (simp add: list_update_append e(2) D_def)
  from Some assms D u Min_insert_if [OF D(2)] show ?thesis
    by (simp del: Min_insert add: beacons_inv_def Shared_Beacon_startBeacon_def Let_def)
qed

lemma stop_inv: "beacons_inv w \<Longrightarrow> beacons_inv (snd (Shared_Beacon_stopBeacon r i w))"
  by (simp add: beacons_inv_def Shared_Beacon_stopBeacon_def Let_def smallest_interval_def fold_smallest)

lemma beacon_steps_inv: "beacon_step\<^sup>*\<^sup>* w w' \<Longrightarrow> beacons_inv w \<Longrightarrow> beacons_inv w'"
  by (induction rule: rtranclp_induct)
    (auto elim!: beacon_step.cases simp: start_inv stop_inv, simp add: Shared_Beacon_init_def beacons_inv_def)

subsection \<open>Properties\<close>

text \<open>C20: whatever beacons are started and stopped after the initialisation, the interval
  given to the stack is the smallest of those the running beacons asked for, and never
  above the largest allowed.\<close>

theorem beacon_interval_smallest:
  assumes "beacon_step\<^sup>*\<^sup>* (snd (Shared_Beacon_init w0)) w" "\<not> m_init_done w0"
  shows "m_min_interval_used_ms w = Min (insert APP_LIB_BEACON_TX_MAX_INTERVAL (used_intervals (m_beacon_index w))) \<and>
     (used_intervals (m_beacon_index w) \<noteq> {} \<longrightarrow> hw_interval w = Some (m_min_interval_used_ms w))"
proof -
  have "used_intervals (replicate k \<lparr>bs_interval_ms = 0, bs_in_use = False\<rparr>) = {}" for k by (auto simp: used_intervals_def)
  with assms(2) have "beacons_inv (snd (Shared_Beacon_init w0))" by (simp add: beacons_inv_def Shared_Beacon_init_def)
  from beacon_steps_inv [OF assms(1) this] show ?thesis by (simp add: beacons_inv_def)
qed

definition beacons_boot :: beacons where
  "beacons_boot = \<lparr>m_init_done = False, m_beacons_enabled = False, m_beacon_index = [], m_min_interval_used_ms = 0, hw_interval = None\<rparr>"

theorem beacon_interval_smallest_witness:
  "hw_interval (snd (snd (Shared_Beacon_startBeacon [APP_RES_OK, APP_RES_OK, APP_RES_OK] 500 (snd (Shared_Beacon_init beacons_boot))))) = Some 500"
proof -
  let ?w = "snd (snd (Shared_Beacon_startBeacon [APP_RES_OK, APP_RES_OK, APP_RES_OK] 500 (snd (Shared_Beacon_init beacons_boot))))"
  have s: "beacon_step\<^sup>*\<^sup>* (snd (Shared_Beacon_init beacons_boot)) ?w" by (rule r_into_rtranclp) (rule beacon_step.start)
  have r: "replicate 8 b = [b, b, b, b, b, b, b, b]" for b :: beacon_slot by (simp add: numeral_eq_Suc)
  have u: "used_intervals (m_beacon_index ?w) = {500}"
    by (simp add: r Shared_Beacon_startBeacon_def Shared_Beacon_init_def beacons_boot_def APP_LIB_BEACON_TX_MAX_INDEX_def
        APP_LIB_BEACON_TX_MAX_INTERVAL_def Let_def)
  from beacon_interval_smallest [OF s] show ?thesis
    unfolding u by (simp add: beacons_boot_def APP_LIB_BEACON_TX_MAX_INTERVAL_def)
qed

text \<open>Every registered callback gets a received beacon, in the order of the table, and an id
  beyond the table is not refused.\<close>

lemma neighbor_beacon_calls:
  "nb_calls (received_beacon_cb w) = nb_calls w @ map the (filter (\<lambda>c. c \<noteq> None) (m_neighbor_cb w))"
proof -
  have "nb_calls (fold (\<lambda>cb w. case cb of None \<Rightarrow> w | Some c \<Rightarrow> w\<lparr>nb_calls := nb_calls w @ [c]\<rparr>) cbs v) =
      nb_calls v @ map the (filter (\<lambda>c. c \<noteq> None) cbs)" for cbs v
    by (induction cbs arbitrary: v) (simp_all split: option.splits)
  then show ?thesis by (simp add: received_beacon_cb_def)
qed

lemma neighbor_id_unchecked: "length (m_neighbor_cb w) \<le> unat i \<Longrightarrow> Shared_Neighbors_removeBeaconCb i w = None"
  by (simp add: Shared_Neighbors_removeBeaconCb_def rd_def)

end
