(* ===== verification/Util_Aes.thy ===== *)
theory Util_Aes
  imports Util_Num
begin

text \<open>
  \<open>util/aessw.c\<close>: counter mode and the OMAC1 (CMAC) message code on top of a block cipher,
  and the random numbers of \<open>util/random.c\<close>.  The block cipher of the vendored tinyaes is
  the parameter \<open>aes\<close>, a function of the key and a block of 16 bytes.  The counter is held
  in four 32-bit words, least significant first, on a little endian processor.  The tags of
  \<open>aes_omac1\<close> are those of RFC 4493 for every text that is not empty.
\<close>

type_synonym block_cipher = "u8 list \<Rightarrow> u8 list \<Rightarrow> u8 list"
type_synonym ctr128 = "u32 \<times> u32 \<times> u32 \<times> u32"

definition aes_ok :: "block_cipher \<Rightarrow> bool" where
  "aes_ok aes \<longleftrightarrow> (\<forall>key b. length (aes key b) = 16)"

subsection \<open>Counter mode\<close>

definition le_word :: "u8 list \<Rightarrow> u32" where
  "le_word bs = fold (\<lambda>b w. push_bit 8 w OR ucast b) (rev bs) 0"

text \<open>\<open>memcpy\<close> between bytes and the words of the counter.\<close>

definition ctr_of_bytes :: "u8 list \<Rightarrow> ctr128" where
  "ctr_of_bytes bs = (le_word (take 4 bs), le_word (take 4 (drop 4 bs)), le_word (take 4 (drop 8 bs)), le_word (take 4 (drop 12 bs)))"

definition bytes_of_ctr :: "ctr128 \<Rightarrow> u8 list" where
  "bytes_of_ctr = (\<lambda>(a, b, c, d). le_bytes a 4 @ le_bytes b 4 @ le_bytes c 4 @ le_bytes d 4)"

record aes_data_stream =
  as_key :: "u8 list"
  as_iv_ctr :: ctr128
  as_aes_out :: "u8 list"

definition aes_setupStream :: "u8 list \<Rightarrow> u8 list \<Rightarrow> aes_data_stream \<Rightarrow> aes_data_stream" where
  "aes_setupStream key128 iv_ctr stream = stream\<lparr>as_key := take 16 key128, as_iv_ctr := ctr_of_bytes iv_ctr\<rparr>"

definition ctr_increment :: "ctr128 \<Rightarrow> ctr128" where
  "ctr_increment = (\<lambda>(a, b, c, d).
     let a = a + 1 in
     if a = 0 then
       (let b = b + 1 in
        if b = 0 then (let c = c + 1 in if c = 0 then (a, b, c, d + 1) else (a, b, c, d))
        else (a, b, c, d))
     else (a, b, c, d))"

function ctr_loop :: "block_cipher \<Rightarrow> aes_data_stream \<Rightarrow> u8 list \<Rightarrow> u8 list \<times> aes_data_stream" where
  "ctr_loop aes stream text =
     (if text = [] then ([], stream)
      else
        (let out = aes (as_key stream) (bytes_of_ctr (as_iv_ctr stream));
             stream = stream\<lparr>as_aes_out := out, as_iv_ctr := ctr_increment (as_iv_ctr stream)\<rparr>;
             n = min (length text) 16;
             (rest, stream) = ctr_loop aes stream (drop n text)
         in (map2 (\<lambda>x k. x XOR k) (take n text) out @ rest, stream)))"
  by pat_completeness auto
termination by (relation "measure (\<lambda>(aes, stream, text). length text)") (auto simp: min_def)

declare ctr_loop.simps [simp del]

definition aes_crypto128Ctr :: "block_cipher \<Rightarrow> aes_data_stream \<Rightarrow> u8 list \<Rightarrow> u8 list \<times> aes_data_stream" where
  "aes_crypto128Ctr aes stream intext = ctr_loop aes stream intext"

subsection \<open>Message codes\<close>

text \<open>The loop of \<open>aes_omac1GenerateSubkey\<close> from the last byte to the first: the shifted
  bytes and the carry.\<close>

fun shift_loop :: "u8 list \<Rightarrow> u8 list \<times> u8" where
  "shift_loop [] = ([], 0)"
| "shift_loop (s # src) = (case shift_loop src of (tgt, carry) \<Rightarrow>
     ((push_bit 1 s OR carry) # tgt, if s AND 0x80 \<noteq> 0 then 1 else 0))"

definition aes_omac1GenerateSubkey :: "u8 list \<Rightarrow> u8 list" where
  "aes_omac1GenerateSubkey src =
     (case shift_loop src of (tgt, carry) \<Rightarrow> if carry \<noteq> 0 then tgt[15 := tgt ! 15 XOR 0x87] else tgt)"

record aes_omac1_state =
  om_data :: aes_data_stream
  om_hl1 :: "u8 list"
  om_hl2 :: "u8 list"

definition aes_initOmac1 :: "block_cipher \<Rightarrow> u8 list \<Rightarrow> aes_omac1_state \<Rightarrow> aes_omac1_state" where
  "aes_initOmac1 aes mic_key state =
     (let stream = aes_setupStream mic_key (replicate 16 0) (om_data state);
          (_, stream) = aes_crypto128Ctr aes stream (replicate 16 0);
          hl1 = aes_omac1GenerateSubkey (as_aes_out stream);
          hl2 = aes_omac1GenerateSubkey hl1
      in \<lparr>om_data = stream, om_hl1 = hl1, om_hl2 = hl2\<rparr>)"

definition xor_bytes :: "u8 list \<Rightarrow> u8 list \<Rightarrow> u8 list" where
  "xor_bytes xs ys = map2 (\<lambda>x y. x XOR y) xs ys"

text \<open>One turn per block of the text; the last block is padded and masked.\<close>

function omac1_loop :: "block_cipher \<Rightarrow> aes_omac1_state \<Rightarrow> u8 list \<Rightarrow> u8 list \<Rightarrow> u8 list" where
  "omac1_loop aes state aes_out text =
     (if text = [] then aes_out
      else
        (let bytes = min 16 (length text);
             rest = drop bytes text;
             aes_in = take bytes text;
             aes_in =
               (if rest = [] then
                  (let padding_bytes = 16 - bytes
                   in if padding_bytes \<noteq> 0
                      then xor_bytes (aes_in @ 0x80 # replicate (padding_bytes - 1) 0) (om_hl2 state)
                      else xor_bytes aes_in (om_hl1 state))
                else aes_in);
             aes_in = xor_bytes aes_in aes_out
         in omac1_loop aes state (aes (as_key (om_data state)) aes_in) rest))"
  by pat_completeness auto
termination by (relation "measure (\<lambda>(aes, state, aes_out, text). length text)") (auto simp: min_def)

declare omac1_loop.simps [simp del]

text \<open>\<open>mic_out_bytes\<close> is 1 to 16, as documented; the code would copy behind the block for more.\<close>

definition aes_omac1 :: "block_cipher \<Rightarrow> aes_omac1_state \<Rightarrow> nat \<Rightarrow> u8 list \<Rightarrow> u8 list" where
  "aes_omac1 aes state mic_out_bytes intext = take mic_out_bytes (omac1_loop aes state (replicate 16 0) intext)"

subsection \<open>Random numbers\<close>

record random =
  rn_seed :: u32
  rn_value :: u32

definition Random_init :: "u32 \<Rightarrow> random \<Rightarrow> random" where
  "Random_init seed r = r\<lparr>rn_seed := 1 XOR seed\<rparr>"

text \<open>The timestamp of the stack is a parameter.\<close>

definition random_update :: "u32 \<Rightarrow> random \<Rightarrow> random" where
  "random_update getTimestampHp r =
     (let seed = 1664525 * rn_seed r + 1013904223 in r\<lparr>rn_seed := seed, rn_value := getTimestampHp + seed\<rparr>)"

definition Random_get32 :: "u32 \<Rightarrow> random \<Rightarrow> u32 \<times> random" where
  "Random_get32 ts r = (let r = random_update ts r in (rn_value r, r))"

definition Random_get16 :: "u32 \<Rightarrow> random \<Rightarrow> u16 \<times> random" where
  "Random_get16 ts r = (let r = random_update ts r in (ucast (drop_bit 16 (rn_value r)), r))"

definition Random_get8 :: "u32 \<Rightarrow> random \<Rightarrow> u8 \<times> random" where
  "Random_get8 ts r = (let r = random_update ts r in (ucast (drop_bit 24 (rn_value r)), r))"

subsection \<open>The counter is a 128-bit number\<close>

definition ctr_nat :: "ctr128 \<Rightarrow> nat" where
  "ctr_nat = (\<lambda>(a, b, c, d). unat a + 2 ^ 32 * (unat b + 2 ^ 32 * (unat c + 2 ^ 32 * unat d)))"

text \<open>Adding to the counter, as the provisioning library does it.\<close>

definition ctr_add :: "ctr128 \<Rightarrow> u32 \<Rightarrow> ctr128" where
  "ctr_add = (\<lambda>(a, b, c, d) n.
     let temp = a + n in
     if temp < a then
       (let b = b + 1 in
        if b = 0 then (let c = c + 1 in if c = 0 then (temp, b, c, d + 1) else (temp, b, c, d))
        else (temp, b, c, d))
     else (temp, b, c, d))"

lemma word_carry: "unat (a :: u32) + unat n = unat (a + n) + (if a + n < a then 2 ^ 32 else 0)"
proof -
  have s: "unat (a + n) = (unat a + unat n) mod 2 ^ 32" by (simp add: unat_word_ariths)
  show ?thesis
  proof (cases "unat a + unat n < 2 ^ 32")
    case True
    then show ?thesis using s by (simp add: word_less_nat_alt)
  next
    case False
    then have "(unat a + unat n) mod 2 ^ 32 = unat a + unat n - 2 ^ 32"
      using unat_lt_32 [of a] unat_lt_32 [of n] by (simp add: le_mod_geq)
    then show ?thesis using s False unat_lt_32 [of n] by (simp add: word_less_nat_alt)
  qed
qed

lemma word_inc_carry: "unat (b :: u32) + 1 = unat (b + 1) + (if b + 1 = 0 then 2 ^ 32 else 0)"
proof (cases "b + 1 < b")
  case True
  then have "unat (b + 1) = 0" using word_carry [of b 1] unat_lt_32 [of b] by simp
  then show ?thesis using word_carry [of b 1] True by (simp add: unat_eq_zero)
next
  case False
  then have "unat (b + 1) = unat b + 1" using word_carry [of b 1] by simp
  moreover then have "b + 1 \<noteq> 0" by (metis One_nat_def add_is_0 nat.simps(3) unat_0)
  ultimately show ?thesis by simp
qed

lemma carry_chain:
  fixes a b c d :: nat
  assumes "a = a' + 4294967296 * k1" "b + k1 = b' + 4294967296 * k2" "c + k2 = c' + 4294967296 * k3" "d + k3 = d' + 4294967296 * k4"
  shows "a + 4294967296 * (b + 4294967296 * (c + 4294967296 * d)) =
     a' + 4294967296 * (b' + 4294967296 * (c' + 4294967296 * d')) + 340282366920938463463374607431768211456 * k4"
  using assms by (simp add: algebra_simps)

lemma ctr_add_nat: "ctr_nat (ctr_add x n) = (ctr_nat x + unat n) mod 2 ^ 128"
proof -
  obtain a b c d where x: "x = (a, b, c, d)" by (cases x)
  define A B C D N where "A = unat a" and "B = unat b" and "C = unat c" and "D = unat d" and "N = unat n"
  define A' B' C' D' where "A' = unat (a + n)" and "B' = unat (b + 1)" and "C' = unat (c + 1)" and "D' = unat (d + 1)"
  define k1 k2 k3 k4 where "k1 = (if a + n < a then 1 else (0::nat))" and "k2 = (if b + 1 = 0 then 1 else (0::nat))"
    and "k3 = (if c + 1 = 0 then 1 else (0::nat))" and "k4 = (if d + 1 = 0 then 1 else (0::nat))"
  have e: "A + N = A' + 4294967296 * k1" "B + 1 = B' + 4294967296 * k2" "C + 1 = C' + 4294967296 * k3" "D + 1 = D' + 4294967296 * k4"
    using word_carry [of a n] word_inc_carry [of b] word_inc_carry [of c] word_inc_carry [of d]
    by (simp_all add: A_def B_def C_def D_def N_def A'_def B'_def C'_def D'_def k1_def k2_def k3_def k4_def)
  have lt: "A < 4294967296" "B < 4294967296" "C < 4294967296" "D < 4294967296" "A' < 4294967296" "B' < 4294967296" "C' < 4294967296" "D' < 4294967296"
    using unat_lt_32 by (simp_all add: A_def B_def C_def D_def A'_def B'_def C'_def D'_def)
  define X2 X3 X4 where "X2 = (if k1 = 0 then B else B')" and "X3 = (if k1 * k2 = 0 then C else C')"
    and "X4 = (if k1 * k2 * k3 = 0 then D else D')"
  have f: "B + k1 = X2 + 4294967296 * (k1 * k2)" "C + k1 * k2 = X3 + 4294967296 * (k1 * k2 * k3)"
    "D + k1 * k2 * k3 = X4 + 4294967296 * (k1 * k2 * k3 * k4)"
    using e by (simp_all add: X2_def X3_def X4_def k1_def k2_def k3_def)
  have r: "ctr_nat (ctr_add x n) = A' + 4294967296 * (X2 + 4294967296 * (X3 + 4294967296 * X4))"
    by (simp add: x ctr_add_def ctr_nat_def Let_def A'_def B'_def C'_def D'_def B_def C_def D_def k1_def k2_def k3_def X2_def X3_def X4_def)
  have s: "ctr_nat x + unat n = A + N + 4294967296 * (B + 4294967296 * (C + 4294967296 * D))"
    by (simp add: x ctr_nat_def A_def B_def C_def D_def N_def)
  have "ctr_nat x + unat n = ctr_nat (ctr_add x n) + 340282366920938463463374607431768211456 * (k1 * k2 * k3 * k4)"
    unfolding r s by (rule carry_chain [OF e(1) f])
  moreover have "ctr_nat (ctr_add x n) < 340282366920938463463374607431768211456"
    unfolding r using lt by (auto simp: X2_def X3_def X4_def)
  ultimately show ?thesis by simp
qed

lemma ctr_increment_add: "ctr_increment x = ctr_add x 1"
proof -
  have "a + 1 = 0 \<longleftrightarrow> a + 1 < a" for a :: u32
    using word_inc_carry [of a] word_carry [of a 1] by (auto split: if_splits)
  then show ?thesis by (cases x) (simp add: ctr_increment_def ctr_add_def Let_def)
qed

lemma ctr_increments: "ctr_nat ((ctr_increment ^^ k) x) = (ctr_nat x + k) mod 2 ^ 128"
proof (induction k)
  case 0
  have "ctr_nat x = (ctr_nat x + unat (0::u32)) mod 2 ^ 128"
    using ctr_add_nat [of x 0] by (cases x) (simp add: ctr_add_def Let_def)
  then show ?case by simp
next
  case (Suc k)
  then show ?case by (simp add: ctr_increment_add ctr_add_nat mod_Suc_eq)
qed

subsection \<open>Counter mode is a key stream\<close>

definition key_stream :: "block_cipher \<Rightarrow> u8 list \<Rightarrow> ctr128 \<Rightarrow> nat \<Rightarrow> u8" where
  "key_stream aes key iv i = aes key (bytes_of_ctr ((ctr_increment ^^ (i div 16)) iv)) ! (i mod 16)"

lemma key_stream_next: "key_stream aes key (ctr_increment iv) i = key_stream aes key iv (i + 16)"
  proof -
  have "(i + 16) div 16 = Suc (i div 16)" by simp
  then show ?thesis by (simp only: key_stream_def funpow.simps comp_def funpow_swap1 mod_add_self2)
qed

lemma ctr_loop_stream:
  assumes "aes_ok aes"
  shows "fst (ctr_loop aes stream xs) =
     map (\<lambda>i. xs ! i XOR key_stream aes (as_key stream) (as_iv_ctr stream) i) [0..<length xs]"
  using assms
proof (induction aes stream xs rule: ctr_loop.induct)
  case (1 aes stream xs)
  show ?case
  proof (cases "xs = []")
    case True
    then show ?thesis by (simp add: ctr_loop.simps)
  next
    case False
    define n where "n = min (length xs) 16"
    define out where "out = aes (as_key stream) (bytes_of_ctr (as_iv_ctr stream))"
    define stream' where "stream' = stream\<lparr>as_aes_out := out, as_iv_ctr := ctr_increment (as_iv_ctr stream)\<rparr>"
    have n: "n \<le> length xs" "n \<le> 16" "length xs - n = 0 \<or> n = 16" by (auto simp: n_def)
    have len: "length out = 16" using 1(2) by (simp add: out_def aes_ok_def)
    have "fst (ctr_loop aes stream xs) = map2 (\<lambda>x k. x XOR k) (take n xs) out @ fst (ctr_loop aes stream' (drop n xs))"
      using False by (subst ctr_loop.simps) (simp add: n_def out_def stream'_def Let_def split: prod.splits)
    also have "fst (ctr_loop aes stream' (drop n xs)) =
        map (\<lambda>i. drop n xs ! i XOR key_stream aes (as_key stream') (as_iv_ctr stream') i) [0..<length xs - n]"
      using 1 False by (simp add: n_def out_def stream'_def)
    also have "map2 (\<lambda>x k. x XOR k) (take n xs) out = map (\<lambda>i. xs ! i XOR key_stream aes (as_key stream) (as_iv_ctr stream) i) [0..<n]"
      by (rule nth_equalityI) (use n len in \<open>simp_all add: key_stream_def out_def\<close>)
    also have "map (\<lambda>i. drop n xs ! i XOR key_stream aes (as_key stream') (as_iv_ctr stream') i) [0..<length xs - n] =
        map (\<lambda>i. xs ! i XOR key_stream aes (as_key stream) (as_iv_ctr stream) i) [n..<length xs]"
      by (rule nth_equalityI) (use n in \<open>auto simp: stream'_def key_stream_next add.commute\<close>)
    finally show ?thesis using upt_add_eq_append [of 0 n "length xs - n"] n(1) by simp
  qed
qed

lemma ctr_length [simp]: "aes_ok aes \<Longrightarrow> length (fst (aes_crypto128Ctr aes stream xs)) = length xs"
  by (simp add: aes_crypto128Ctr_def ctr_loop_stream)

lemma ctr_twice:
  assumes "aes_ok aes" "as_key s1 = as_key s2" "as_iv_ctr s1 = as_iv_ctr s2"
  shows "fst (aes_crypto128Ctr aes s1 (fst (aes_crypto128Ctr aes s2 xs))) = xs"
  by (rule nth_equalityI) (simp_all add: aes_crypto128Ctr_def ctr_loop_stream assms xor.assoc)

subsection \<open>OMAC1 is CMAC\<close>

text \<open>A block as a number, first byte most significant, and doubling in the field of RFC 4493.\<close>

definition be_word :: "u8 list \<Rightarrow> 128 word" where
  "be_word bs = foldl (\<lambda>w b. push_bit 8 w OR ucast b) 0 bs"

definition cmac_double :: "128 word \<Rightarrow> 128 word" where
  "cmac_double x = (if bit x 127 then push_bit 1 x XOR 0x87 else push_bit 1 x)"

text \<open>RFC 4493: \<open>n\<close> blocks, the last one masked with the first subkey, or padded and masked
  with the second, and the chain over all of them.\<close>

definition cmac :: "block_cipher \<Rightarrow> u8 list \<Rightarrow> u8 list \<Rightarrow> u8 list \<Rightarrow> u8 list \<Rightarrow> u8 list" where
  "cmac aes key K1 K2 M =
     (let n = (if M = [] then 1 else (length M + 15) div 16);
          M_n = drop (16 * (n - 1)) M;
          M_last = (if length M_n = 16 then xor_bytes M_n K1
                    else xor_bytes (M_n @ 0x80 # replicate (15 - length M_n) 0) K2);
          X = fold (\<lambda>i X. aes key (xor_bytes (take 16 (drop (16 * i) M)) X)) [0..<n - 1] (replicate 16 0)
      in aes key (xor_bytes M_last X))"

fun be_nat :: "u8 list \<Rightarrow> nat" where
  "be_nat [] = 0"
| "be_nat (b # bs) = unat b * 256 ^ length bs + be_nat bs"

lemma be_word_snoc: "be_word (xs @ [b]) = push_bit 8 (be_word xs) OR ucast b"
  by (simp add: be_word_def)

lemma be_word_snoc_xor: "be_word (xs @ [b XOR m]) = be_word (xs @ [b]) XOR ucast m"
  unfolding be_word_snoc by (rule bit_word_eqI) (auto simp: bit_simps dest: bit_imp_le_length)

lemma be_nat_snoc: "be_nat (xs @ [b]) = 256 * be_nat xs + unat b"
  by (induction xs) (simp_all add: algebra_simps)

lemma be_nat_less: "be_nat bs < 256 ^ length bs"
proof (induction bs)
  case (Cons b bs)
  have "unat b * 256 ^ length bs + be_nat bs < unat b * 256 ^ length bs + 256 ^ length bs" using Cons by simp
  also have "\<dots> = (unat b + 1) * 256 ^ length bs" by simp
  also have "\<dots> \<le> 256 * 256 ^ length bs" by (rule mult_right_mono) (use unat_lt_8 [of b] in simp_all)
  finally show ?case by simp
qed simp

lemma be_word_nat: "be_word bs = of_nat (be_nat bs)"
proof (induction bs rule: rev_induct)
  case Nil
  then show ?case by (simp add: be_word_def)
next
  case (snoc b bs)
  have "push_bit 8 w OR ucast b = push_bit 8 w + (ucast b :: 128 word)" for w
    by (rule disjunctive_add_eq_or [symmetric]) (rule bit_word_eqI, auto simp: bit_simps dest: bit_imp_le_length)
  then show ?case using snoc by (simp add: be_word_snoc be_nat_snoc push_bit_eq_mult mult.commute)
qed

lemma shift_byte: "unat (push_bit 1 s OR c) + 256 * (unat s div 128) = 2 * unat s + unat c" if "c = 0 \<or> c = 1" for s c :: u8
proof -
  have "push_bit 1 s OR c = push_bit 1 s + c" using that by (auto simp: or_one_eq)
  moreover have "unat (push_bit 1 s) = (2 * unat s) mod 256"
    by (simp add: push_bit_eq_mult unat_word_ariths mult.commute)
  moreover have "(2 * unat s) mod 256 + unat c < 256"
  proof -
    have "(2 * unat s) mod (2 * 128) = 2 * (unat s mod 128)" by (rule mult_mod_right [symmetric])
    moreover have "unat s mod 128 < 128" by simp
    ultimately show ?thesis using that by auto
  qed
  ultimately have "unat (push_bit 1 s OR c) = (2 * unat s) mod 256 + unat c" by (simp add: unat_add_small)
  moreover have "(2 * unat s) mod 256 + 256 * (unat s div 128) = 2 * unat s"
  proof -
    define q r where "q = unat s div 128" and "r = unat s mod 128"
    have "(2 * unat s) mod (2 * 128) = 2 * r" unfolding r_def by (rule mult_mod_right [symmetric])
    moreover have "unat s = r + 128 * q" unfolding q_def r_def by (rule mod_mult_div_eq [symmetric])
    ultimately show ?thesis unfolding q_def [symmetric] by simp
  qed
  ultimately show ?thesis by simp
qed

lemma top_byte: "unat (s :: u8) div 128 = 0 \<or> unat s div 128 = 1"
proof -
  have "unat s div 128 < 2" by (rule less_mult_imp_div_less) (use unat_lt_8 [of s] in simp)
  then show ?thesis by linarith
qed

lemma top_byte_bit: "s AND 0x80 \<noteq> 0 \<longleftrightarrow> unat s div 128 = 1" for s :: u8
proof -
  have "s AND 0x80 \<noteq> 0 \<longleftrightarrow> bit s 7" using and_exp_eq_0_iff_not_bit [of s 7] by simp
  also have "\<dots> \<longleftrightarrow> bit (unat s) 7" by (simp add: bit_unsigned_iff)
  also have "\<dots> \<longleftrightarrow> odd (unat s div 128)" by (simp add: bit_iff_odd)
  also have "\<dots> \<longleftrightarrow> unat s div 128 = 1" using top_byte [of s] by (elim disjE) simp_all
  finally show ?thesis .
qed

lemma shift_loop_nat:
  "case shift_loop bs of (ys, c) \<Rightarrow> length ys = length bs \<and> (c = 0 \<or> c = 1) \<and>
     be_nat ys + 256 ^ length bs * unat c = 2 * be_nat bs"
proof (induction bs)
  case (Cons s bs)
  obtain ys c where r: "shift_loop bs = (ys, c)" by fastforce
  with Cons have IH: "length ys = length bs" "c = 0 \<or> c = 1" "be_nat ys + 256 ^ length bs * unat c = 2 * be_nat bs" by auto
  define c' :: u8 where "c' = (if s AND 0x80 \<noteq> 0 then 1 else 0)"
  have c': "unat c' = unat s div 128" using top_byte [of s] top_byte_bit [of s] by (elim disjE) (simp_all add: c'_def)
  define P :: nat where "P = 256 ^ length bs"
  define b where "b = unat (push_bit 1 s OR c)"
  have sb: "b + 256 * unat c' = 2 * unat s + unat c" using shift_byte [OF IH(2), of s] c' by (simp add: b_def)
  have "b * P + be_nat ys + 256 * P * unat c' = (b + 256 * unat c') * P + be_nat ys" by (simp add: algebra_simps)
  also have "\<dots> = 2 * unat s * P + (be_nat ys + P * unat c)" unfolding sb by (simp add: algebra_simps)
  also have "\<dots> = 2 * (unat s * P + be_nat bs)" using IH(3) by (simp add: P_def)
  finally have "b * P + be_nat ys + 256 * P * unat c' = 2 * (unat s * P + be_nat bs)" .
  moreover have "shift_loop (s # bs) = ((push_bit 1 s OR c) # ys, c')" by (simp add: r c'_def)
  ultimately show ?case using IH(1) by (simp add: P_def b_def) (simp add: c'_def)
qed simp

lemma subkey_double:
  assumes "length bs = 16"
  shows "length (aes_omac1GenerateSubkey bs) = 16" "be_word (aes_omac1GenerateSubkey bs) = cmac_double (be_word bs)"
proof -
  obtain ys c where r: "shift_loop bs = (ys, c)" by fastforce
  with shift_loop_nat [of bs] assms have h: "length ys = 16" "c = 0 \<or> c = 1"
      "be_nat ys + 2 ^ 128 * unat c = 2 * be_nat bs" by auto
  then show "length (aes_omac1GenerateSubkey bs) = 16" by (simp add: aes_omac1GenerateSubkey_def r)
  have lt: "be_nat ys < 2 ^ 128" using be_nat_less [of ys] h(1) by simp
  have z: "(2 :: 128 word) ^ 128 = 0" by simp
  have "(of_nat (2 * be_nat bs) :: 128 word) = of_nat (be_nat ys)"
    unfolding h(3) [symmetric] of_nat_add of_nat_mult of_nat_power of_nat_numeral z by simp
  then have y: "be_word ys = push_bit 1 (be_word bs)" by (simp add: be_word_nat push_bit_eq_mult mult.commute)
  have "bit (be_word bs) 127 \<longleftrightarrow> bit (be_nat bs) 127" by (simp add: be_word_nat bit_of_nat_iff)
  also have "\<dots> \<longleftrightarrow> odd (be_nat bs div 2 ^ 127)" by (rule bit_iff_odd)
  also have "be_nat bs div 2 ^ 127 = unat c" by (rule div_nat_eqI) (use h(3) lt in simp_all)
  finally have c: "c \<noteq> 0 \<longleftrightarrow> bit (be_word bs) 127" using h(2) by auto
  have ys: "ys = butlast ys @ [ys ! 15]" using h(1) append_butlast_last_id [of ys] last_conv_nth [of ys] by (cases ys) auto
  have "ys[15 := v] = butlast ys @ [v]" for v
    using h(1) by (subst ys) (simp add: list_update_append)
  then have "be_word (ys[15 := ys ! 15 XOR 0x87]) = be_word (butlast ys @ [ys ! 15]) XOR 0x87"
    by (simp add: be_word_snoc_xor)
  then show "be_word (aes_omac1GenerateSubkey bs) = cmac_double (be_word bs)"
    using c y ys by (simp add: aes_omac1GenerateSubkey_def r cmac_double_def)
qed

text \<open>The tag of the text \<open>M\<close> continued from the chaining value \<open>X\<close>.\<close>

definition cmac_from :: "block_cipher \<Rightarrow> u8 list \<Rightarrow> u8 list \<Rightarrow> u8 list \<Rightarrow> u8 list \<Rightarrow> u8 list \<Rightarrow> u8 list" where
  "cmac_from aes key K1 K2 M X =
     (let n = (length M + 15) div 16;
          M_n = drop (16 * (n - 1)) M;
          M_last = (if length M_n = 16 then xor_bytes M_n K1
                    else xor_bytes (M_n @ 0x80 # replicate (15 - length M_n) 0) K2)
      in aes key (xor_bytes M_last (fold (\<lambda>i X. aes key (xor_bytes (take 16 (drop (16 * i) M)) X)) [0..<n - 1] X)))"

lemma cmac_from_step:
  assumes "16 < length M"
  shows "cmac_from aes key K1 K2 M X = cmac_from aes key K1 K2 (drop 16 M) (aes key (xor_bytes (take 16 M) X))"
proof -
  define k where "k = (length (drop 16 M) + 15) div 16 - 1"
  have "length M + 15 = length (drop 16 M) + 15 + 16" "0 < (length (drop 16 M) + 15) div 16" using assms by auto
  then have n: "(length M + 15) div 16 = Suc (Suc k)" "(length (drop 16 M) + 15) div 16 = Suc k" by (auto simp: k_def)
  have "[0..<Suc k] = 0 # map Suc [0..<k]" by (simp add: upt_conv_Cons map_Suc_upt del: upt_Suc)
  then have "fold (\<lambda>i X. aes key (xor_bytes (take 16 (drop (16 * i) M)) X)) [0..<Suc k] X =
     fold (\<lambda>i X. aes key (xor_bytes (take 16 (drop (16 * i) (drop 16 M))) X)) [0..<k] (aes key (xor_bytes (take 16 M) X))"
    by (simp add: fold_map comp_def add.commute)
  then show ?thesis unfolding cmac_from_def n Let_def by (simp add: add.commute)
qed

lemma omac1_loop_cmac:
  assumes "xs \<noteq> []"
  shows "omac1_loop aes state X xs = cmac_from aes (as_key (om_data state)) (om_hl1 state) (om_hl2 state) xs X"
  using assms
proof (induction aes state X xs rule: omac1_loop.induct)
  case (1 aes state X xs)
  show ?case
  proof (cases "16 < length xs")
    case True
    then have "omac1_loop aes state X xs = omac1_loop aes state (aes (as_key (om_data state)) (xor_bytes (take 16 xs) X)) (drop 16 xs)"
      by (subst omac1_loop.simps) (auto simp: min_def Let_def)
    also have "\<dots> = cmac_from aes (as_key (om_data state)) (om_hl1 state) (om_hl2 state) (drop 16 xs) (aes (as_key (om_data state)) (xor_bytes (take 16 xs) X))"
      by (rule "1.IH") (use True in \<open>auto simp: min_def\<close>)
    finally show ?thesis using cmac_from_step [OF True, of aes] by simp
  next
    case False
    then have n: "(length xs + 15) div 16 = 1" "drop 16 xs = []" using 1(2) by (auto simp: div_nat_eqI Suc_le_eq)
    show ?thesis unfolding cmac_from_def n(1) using False 1(2)
      by (subst omac1_loop.simps) (auto simp: min_def Let_def omac1_loop.simps)
  qed
qed

subsection \<open>Properties\<close>

text \<open>C37: counter mode.  Every byte of the text is combined with the byte of a key stream
  made of the encrypted successive values of the counter, counted modulo 2^128 from the
  initial value; applying it twice with the same key and counter gives the text back.\<close>

theorem ctr_mode_stream:
  assumes "aes_ok aes" "i < length intext"
  shows "(\<exists>ctr. ctr_nat ctr = (ctr_nat (as_iv_ctr stream) + i div 16) mod 2 ^ 128 \<and>
       fst (aes_crypto128Ctr aes stream intext) ! i = intext ! i XOR aes (as_key stream) (bytes_of_ctr ctr) ! (i mod 16)) \<and>
     fst (aes_crypto128Ctr aes (aes_setupStream key iv s1) (fst (aes_crypto128Ctr aes (aes_setupStream key iv s2) intext))) = intext"
proof
  have "fst (aes_crypto128Ctr aes stream intext) ! i =
      intext ! i XOR aes (as_key stream) (bytes_of_ctr ((ctr_increment ^^ (i div 16)) (as_iv_ctr stream))) ! (i mod 16)"
    using assms by (simp add: aes_crypto128Ctr_def ctr_loop_stream key_stream_def)
  then show "\<exists>ctr. ctr_nat ctr = (ctr_nat (as_iv_ctr stream) + i div 16) mod 2 ^ 128 \<and>
       fst (aes_crypto128Ctr aes stream intext) ! i = intext ! i XOR aes (as_key stream) (bytes_of_ctr ctr) ! (i mod 16)"
    using ctr_increments by blast
  show "fst (aes_crypto128Ctr aes (aes_setupStream key iv s1) (fst (aes_crypto128Ctr aes (aes_setupStream key iv s2) intext))) = intext"
    by (rule ctr_twice) (simp_all add: assms aes_setupStream_def)
qed

text \<open>A block cipher for the examples.\<close>

definition toy_cipher :: block_cipher where
  "toy_cipher key b = map (\<lambda>i. (key @ replicate 16 0) ! i XOR (b @ replicate 16 0) ! i XOR of_nat i) [0..<16]"

lemma toy_cipher_ok: "aes_ok toy_cipher"
  by (simp add: aes_ok_def toy_cipher_def)

definition toy_stream :: aes_data_stream where
  "toy_stream = \<lparr>as_key = [], as_iv_ctr = (0, 0, 0, 0), as_aes_out = []\<rparr>"

theorem ctr_mode_stream_witness:
  "fst (aes_crypto128Ctr toy_cipher (aes_setupStream [1] [2] toy_stream)
     (fst (aes_crypto128Ctr toy_cipher (aes_setupStream [1] [2] toy_stream) [7, 8, 9]))) = [7, 8, 9]"
  using ctr_mode_stream [OF toy_cipher_ok, of 2 "[7, 8, 9]" toy_stream "[1]" "[2]" toy_stream toy_stream] by simp

text \<open>C36: the message code of every text that is not empty is the CMAC of RFC 4493,
  cut to the length asked for; the subkeys are the doubled encryption of the zero
  block.\<close>

theorem omac1_is_cmac:
  assumes "aes_ok aes" "intext \<noteq> []"
  shows "\<exists>K1 K2. length K1 = 16 \<and> length K2 = 16 \<and>
     be_word K1 = cmac_double (be_word (aes (take 16 mic_key) (replicate 16 0))) \<and> be_word K2 = cmac_double (be_word K1) \<and>
     aes_omac1 aes (aes_initOmac1 aes mic_key state) mic_out_bytes intext = take mic_out_bytes (cmac aes (take 16 mic_key) K1 K2 intext)"
proof -
  define L where "L = aes (take 16 mic_key) (replicate 16 0)"
  define K1 where "K1 = aes_omac1GenerateSubkey L"
  define st where "st = aes_initOmac1 aes mic_key state"
  have zero: "bytes_of_ctr (ctr_of_bytes (replicate 16 0)) = replicate 16 0"
    by (simp add: ctr_of_bytes_def bytes_of_ctr_def le_word_def numeral_eq_Suc)
  have "replicate 16 0 \<noteq> ([] :: u8 list)" "drop 16 (replicate 16 (0 :: u8)) = []" by simp_all
  then have "as_aes_out (snd (aes_crypto128Ctr aes (aes_setupStream mic_key (replicate 16 0) (om_data state)) (replicate 16 0))) = L \<and>
     as_key (snd (aes_crypto128Ctr aes (aes_setupStream mic_key (replicate 16 0) (om_data state)) (replicate 16 0))) = take 16 mic_key"
    unfolding aes_crypto128Ctr_def
    by (subst (1 2) ctr_loop.simps) (simp add: ctr_loop.simps zero L_def aes_setupStream_def Let_def)
  then have st: "om_hl1 st = K1" "om_hl2 st = aes_omac1GenerateSubkey K1" "as_key (om_data st) = take 16 mic_key"
    by (auto simp: st_def aes_initOmac1_def K1_def Let_def split: prod.splits)
  have L: "length L = 16" using assms(1) by (simp add: L_def aes_ok_def)
  have "omac1_loop aes st (replicate 16 0) intext = cmac aes (take 16 mic_key) K1 (aes_omac1GenerateSubkey K1) intext"
    using omac1_loop_cmac [OF assms(2), of aes st "replicate 16 0"] assms(2)
    by (simp add: st cmac_def cmac_from_def Let_def)
  then show ?thesis using subkey_double [OF L] subkey_double [of K1]
    unfolding aes_omac1_def st_def [symmetric] L_def [symmetric] by (metis K1_def)
qed

theorem omac1_is_cmac_witness:
  "length (aes_omac1 toy_cipher (aes_initOmac1 toy_cipher [1, 2] \<lparr>om_data = toy_stream, om_hl1 = [], om_hl2 = []\<rparr>) 5 [3, 4]) = 5"
proof -
  obtain K1 K2 where "aes_omac1 toy_cipher (aes_initOmac1 toy_cipher [1, 2] \<lparr>om_data = toy_stream, om_hl1 = [], om_hl2 = []\<rparr>) 5 [3, 4] =
      take 5 (cmac toy_cipher (take 16 [1, 2]) K1 K2 [3, 4])"
    using omac1_is_cmac [OF toy_cipher_ok, of "[3, 4]" "[1, 2]" "\<lparr>om_data = toy_stream, om_hl1 = [], om_hl2 = []\<rparr>" 5] by auto
  moreover have "length (cmac toy_cipher (take 16 [1, 2]) K1 K2 [3, 4]) = 16"
    using toy_cipher_ok by (simp add: cmac_def Let_def aes_ok_def)
  ultimately show ?thesis by simp
qed

text \<open>For the empty text the code returns zeros, not the code of RFC 4493.\<close>

lemma omac1_of_empty_text: "aes_omac1 aes state n [] = replicate (min n 16) 0"
  by (simp add: aes_omac1_def omac1_loop.simps min.commute)

text \<open>The seed of the random numbers is 0 for the seed 1, and not for 0.\<close>

lemma random_seed_zero: "rn_seed (Random_init 1 r) = 0" "rn_seed (Random_init 0 r) = 1"
  by (simp_all add: Random_init_def)

end
