(* ===== verification/Prov_Joining.thy ===== *)
theory Prov_Joining
  imports Scheduler_Props Stack_State
begin

text \<open>
  \<open>libraries/provisioning/joining.c\<close>: a new node scans for joining beacons, selects one
  and joins the network of its sender.

  The state machine runs as a task of the scheduler and subscribes to route changes, both
  through the models of those libraries.  The results of the stack libraries at one call are
  the fields of \<open>join_env\<close>; calls to the joining library and to the client are recorded in
  \<open>jn_calls\<close>.  The callback \<open>m_conf.end_cb\<close> of the client is a parameter of the
  operations, a transformer of the state; \<open>None\<close> is a call through a NULL pointer or
  a computation that does not return.  The state is an extensible record, to which the
  provisioning library adds its own variables.
\<close>

subsection \<open>Data\<close>

datatype provisioning_ret =
  PROV_RET_OK | PROV_RET_INVALID_STATE | PROV_RET_INVALID_PARAM | PROV_RET_INVALID_DATA
| PROV_RET_JOINING_LIB_ERROR | PROV_RET_INTERNAL_ERROR

datatype provisioning_res =
  PROV_RES_SUCCESS | PROV_RES_TIMEOUT | PROV_RES_NACK | PROV_RES_INVALID_DATA | PROV_RES_INVALID_PACKET
| PROV_RES_ERROR_SENDING_DATA | PROV_RES_ERROR_SCANNING_BEACONS | PROV_RES_ERROR_JOINING
| PROV_RES_ERROR_NO_ROUTE | PROV_RES_STOPPED | PROV_RES_ERROR_INTERNAL

definition JOINING_BEACON_TYPE :: u32 where "JOINING_BEACON_TYPE = 0x647650fb"
definition DELAY_RESTART_SCAN_MS :: u32 where "DELAY_RESTART_SCAN_MS = 5000"
definition DELAY_WAIT_END_SCAN_MS :: u32 where "DELAY_WAIT_END_SCAN_MS = 5000"
definition DELAY_WAIT_END_JOINING_MS :: u32 where "DELAY_WAIT_END_JOINING_MS = 20000"

text \<open>The tasks of the joining and the provisioning module among those of the node.\<close>

datatype prov_task = JOIN_run_state_machine | JOIN_timeout_task | PROV_run_state_machine | PROV_timeout_task | OTHER_task nat

datatype joining_state =
  JOIN_STATE_UNINIT | JOIN_STATE_IDLE | JOIN_STATE_START | JOIN_STATE_WAIT_SCAN_END | JOIN_STATE_WAIT_ROUTE_CHANGE

record joining_events =
  ev_scan_end :: bool
  ev_route_change :: bool
  ev_timeout :: bool
  ev_start :: bool

definition no_join_events :: joining_events where
  "no_join_events = \<lparr>ev_scan_end = False, ev_route_change = False, ev_timeout = False, ev_start = False\<rparr>"

text \<open>A received beacon; a pointer to one is its index in \<open>m_beacon_rx_buffer\<close>.\<close>

record joining_beacon =
  jb_next :: "nat option"
  jb_addr :: u32
  jb_channel :: u8
  jb_type :: u32
  jb_payload :: "u8 list"
  jb_rssi :: u8

record joining_conf =
  jc_joining_cb :: "(joining_beacon list \<Rightarrow> nat option \<Rightarrow> joining_beacon option) option"
  jc_end_cb_set :: bool
  jc_nb_retry :: u8

datatype join_call =
  StopJoiningBeaconRx | StartJoiningBeaconRx | StopJoiningProcess | StartJoiningProcess u32 u8
| End_cb provisioning_res

record joining =
  jn_sched :: "prov_task sched"
  jn_stack :: stack_state
  jn_calls :: "join_call list"
  jn_retry :: u8
  jn_state :: joining_state
  jn_events :: joining_events
  jn_conf :: "joining_conf option"
  jn_buffer :: "joining_beacon list"
  jn_num_beacons :: nat

record join_env =
  je_time :: lib_time
  je_startJoiningBeaconRx :: app_res
  je_startJoiningProcess :: app_res
  je_getNetworkAddress :: "app_res \<times> u32"
  je_getNetworkChannel :: "app_res \<times> u8"
  je_route_valid :: bool

subsection \<open>The beacon list\<close>

text \<open>The loop of \<open>sort_provisioning_beacons\<close>; \<open>prev\<close> is the first beacon, all along.
  \<open>None\<close> is an access outside of the buffer or a list with a cycle.\<close>

partial_function (option) sort_loop ::
  "nat \<Rightarrow> joining_beacon list \<Rightarrow> nat option \<Rightarrow> nat option \<Rightarrow> (joining_beacon list \<times> nat option) option" where
  "sort_loop prev buf beacon start =
     (case beacon of
        None \<Rightarrow> Some (buf, start)
      | Some i \<Rightarrow>
          do {
            b \<leftarrow> rd buf i;
            (buf, start) \<leftarrow>
              (if jb_type b \<noteq> JOINING_BEACON_TYPE then
                 if beacon = start then Some (buf, jb_next b)
                 else do {
                   p \<leftarrow> rd buf prev;
                   Some (buf[prev := p\<lparr>jb_next := jb_next b\<rparr>], start)
                 }
               else Some (buf, start));
            b \<leftarrow> rd buf i;
            sort_loop prev buf (jb_next b) start
          })"

definition sort_provisioning_beacons :: "joining_beacon list \<Rightarrow> nat option \<Rightarrow> (joining_beacon list \<times> nat option) option" where
  "sort_provisioning_beacons buf beacons =
     (case beacons of None \<Rightarrow> Some (buf, None) | Some prev \<Rightarrow> sort_loop prev buf beacons beacons)"

subsection \<open>Calls of other libraries\<close>

definition jn_log :: "join_call \<Rightarrow> 'a joining_scheme \<Rightarrow> 'a joining_scheme" where
  "jn_log c w = w\<lparr>jn_calls := jn_calls w @ [c]\<rparr>"

definition jn_add_task :: "lib_time \<Rightarrow> prov_task \<Rightarrow> u32 \<Rightarrow> 'a joining_scheme \<Rightarrow> bool \<times> 'a joining_scheme" where
  "jn_add_task lt f delay_ms w =
     (case App_Scheduler_addTask_execTime lt (jn_sched w) (Some f) delay_ms 500 of
        (res, s) \<Rightarrow> (res = APP_SCHEDULER_RES_OK, w\<lparr>jn_sched := s\<rparr>))"

definition jn_cancel_task :: "prov_task \<Rightarrow> 'a joining_scheme \<Rightarrow> 'a joining_scheme" where
  "jn_cancel_task f w = w\<lparr>jn_sched := snd (App_Scheduler_cancelTask (jn_sched w) (Some f))\<rparr>"

text \<open>\<open>route_changed_cb\<close> in the table of \<open>stack_state.c\<close>.\<close>

definition ROUTE_CHANGED_CB :: nat where "ROUTE_CHANGED_CB = 6"

definition jn_subscribe :: "'a joining_scheme \<Rightarrow> 'a joining_scheme" where
  "jn_subscribe w =
     w\<lparr>jn_stack := snd (Stack_State_addEventCb (Some ROUTE_CHANGED_CB) (push_bit 6 1) (jn_stack w))\<rparr>"

definition jn_unsubscribe :: "'a joining_scheme \<Rightarrow> 'a joining_scheme" where
  "jn_unsubscribe w = w\<lparr>jn_stack := snd (Stack_State_removeEventCb (Some ROUTE_CHANGED_CB) (jn_stack w))\<rparr>"

type_synonym 'a end_cb = "provisioning_res \<Rightarrow> 'a joining_scheme \<Rightarrow> 'a joining_scheme option"

definition call_end_cb :: "'a end_cb \<Rightarrow> provisioning_res \<Rightarrow> 'a joining_scheme \<Rightarrow> 'a joining_scheme option" where
  "call_end_cb end_cb res w = (if jn_conf w = None then None else end_cb res (jn_log (End_cb res) w))"

subsection \<open>Operations\<close>

definition reset_joining :: "bool \<Rightarrow> 'a joining_scheme \<Rightarrow> 'a joining_scheme" where
  "reset_joining stopJoining w =
     (let w = jn_log StopJoiningBeaconRx w;
          w = (if stopJoining then jn_log StopJoiningProcess w else w);
          w = jn_cancel_task JOIN_timeout_task w;
          w = jn_unsubscribe w
      in w\<lparr>jn_state := JOIN_STATE_IDLE, jn_events := no_join_events\<rparr>)"

text \<open>Ending a session with an error: \<open>reset_joining(true)\<close> and the callback.\<close>

definition end_joining :: "'a end_cb \<Rightarrow> provisioning_res \<Rightarrow> 'a joining_scheme \<Rightarrow> 'a joining_scheme option" where
  "end_joining end_cb res w = call_end_cb end_cb res (reset_joining True w)"

definition schedule_join :: "lib_time \<Rightarrow> 'a end_cb \<Rightarrow> 'a joining_scheme \<Rightarrow> (bool \<times> 'a joining_scheme) option" where
  "schedule_join lt end_cb w =
     (case jn_add_task lt JOIN_run_state_machine APP_SCHEDULER_SCHEDULE_ASAP w of
        (True, w) \<Rightarrow> Some (True, w)
      | (False, w) \<Rightarrow> do { w \<leftarrow> end_joining end_cb PROV_RES_ERROR_INTERNAL w; Some (False, w) })"

definition joining_beacon_rx_cb :: "lib_time \<Rightarrow> 'a end_cb \<Rightarrow> nat \<Rightarrow> 'a joining_scheme \<Rightarrow> 'a joining_scheme option" where
  "joining_beacon_rx_cb lt end_cb num_beacons w =
     map_option snd (schedule_join lt end_cb
       (w\<lparr>jn_num_beacons := num_beacons, jn_events := (jn_events w)\<lparr>ev_scan_end := True\<rparr>\<rparr>))"

definition route_changed_cb :: "lib_time \<Rightarrow> 'a end_cb \<Rightarrow> 'a joining_scheme \<Rightarrow> 'a joining_scheme option" where
  "route_changed_cb lt end_cb w =
     map_option snd (schedule_join lt end_cb (w\<lparr>jn_events := (jn_events w)\<lparr>ev_route_change := True\<rparr>\<rparr>))"

definition join_timeout_task :: "lib_time \<Rightarrow> 'a end_cb \<Rightarrow> 'a joining_scheme \<Rightarrow> (u32 \<times> 'a joining_scheme) option" where
  "join_timeout_task lt end_cb w =
     do {
       (_, w) \<leftarrow> schedule_join lt end_cb (w\<lparr>jn_events := (jn_events w)\<lparr>ev_timeout := True\<rparr>\<rparr>);
       Some (APP_SCHEDULER_STOP_TASK, w)
     }"

definition join_state_idle :: "'a joining_scheme \<Rightarrow> u32 \<times> 'a joining_scheme" where
  "join_state_idle w =
     (let (new_delay_ms, w) =
            (if ev_start (jn_events w)
             then (APP_SCHEDULER_SCHEDULE_ASAP, w\<lparr>jn_state := JOIN_STATE_START, jn_retry := 0\<rparr>)
             else (APP_SCHEDULER_STOP_TASK, w));
          w = jn_cancel_task JOIN_timeout_task w
      in (new_delay_ms, w\<lparr>jn_events := no_join_events\<rparr>))"

text \<open>\<open>m_retry++\<close> and the comparison with the configured number; the first result tells
  that the session has ended.\<close>

definition join_retry :: "'a end_cb \<Rightarrow> provisioning_res \<Rightarrow> 'a joining_scheme \<Rightarrow> (bool \<times> 'a joining_scheme) option" where
  "join_retry end_cb res w =
     (let w = w\<lparr>jn_retry := jn_retry w + 1\<rparr>
      in case jn_conf w of
           None \<Rightarrow> None
         | Some conf \<Rightarrow>
             if jn_retry w > jc_nb_retry conf
             then do { w \<leftarrow> end_joining end_cb res w; Some (True, w) }
             else Some (False, w))"

definition zero_beacon :: joining_beacon where
  "zero_beacon = \<lparr>jb_next = None, jb_addr = 0, jb_channel = 0, jb_type = 0, jb_payload = [], jb_rssi = 0\<rparr>"

definition join_state_start :: "join_env \<Rightarrow> 'a end_cb \<Rightarrow> 'a joining_scheme \<Rightarrow> (u32 \<times> 'a joining_scheme) option" where
  "join_state_start env end_cb w =
     do {
       let w = jn_log StopJoiningBeaconRx w;
       let w = w\<lparr>jn_buffer := map (\<lambda>_. zero_beacon) (jn_buffer w)\<rparr>;
       let w = jn_log StartJoiningBeaconRx w;
       (new_delay_ms, w) \<leftarrow>
         (if je_startJoiningBeaconRx env \<noteq> APP_RES_OK then
            do {
              (ended, w) \<leftarrow> join_retry end_cb PROV_RES_ERROR_SCANNING_BEACONS w;
              Some (if ended then APP_SCHEDULER_STOP_TASK else DELAY_RESTART_SCAN_MS, w)
            }
          else
            do {
              w \<leftarrow> (case jn_add_task (je_time env) JOIN_timeout_task DELAY_WAIT_END_SCAN_MS w of
                      (True, w) \<Rightarrow> Some w
                    | (False, w) \<Rightarrow> end_joining end_cb PROV_RES_ERROR_INTERNAL w);
              Some (APP_SCHEDULER_STOP_TASK, w\<lparr>jn_state := JOIN_STATE_WAIT_SCAN_END\<rparr>)
            });
       Some (new_delay_ms, w\<lparr>jn_events := no_join_events\<rparr>)
     }"

definition join_wait_timeout :: "join_env \<Rightarrow> 'a end_cb \<Rightarrow> 'a joining_scheme \<Rightarrow> 'a joining_scheme option" where
  "join_wait_timeout env end_cb w =
     (case jn_add_task (je_time env) JOIN_timeout_task DELAY_WAIT_END_JOINING_MS w of
        (True, w) \<Rightarrow> Some w
      | (False, w) \<Rightarrow> end_joining end_cb PROV_RES_ERROR_INTERNAL w)"

text \<open>The part of \<open>state_wait_scan_end\<close> for a selected beacon: its result, the delay and
  the state.\<close>

definition join_beacon :: "join_env \<Rightarrow> 'a end_cb \<Rightarrow> joining_beacon \<Rightarrow> 'a joining_scheme \<Rightarrow>
    (provisioning_res \<times> u32 \<times> 'a joining_scheme) option" where
  "join_beacon env end_cb beacon w =
     (let (res_a, addr) = je_getNetworkAddress env; (res_c, ch) = je_getNetworkChannel env
      in if res_a = APP_RES_OK \<and> res_c = APP_RES_OK \<and> \<not> (addr = jb_addr beacon \<and> ch = jb_channel beacon)
         then
           (let w = jn_log (StartJoiningProcess (jb_addr beacon) (jb_channel beacon)) w
            in if je_startJoiningProcess env \<noteq> APP_RES_OK
               then Some (PROV_RES_ERROR_JOINING, APP_SCHEDULER_STOP_TASK, w)
               else do {
                 let w = jn_subscribe w;
                 w \<leftarrow> join_wait_timeout env end_cb (w\<lparr>jn_state := JOIN_STATE_WAIT_ROUTE_CHANGE\<rparr>);
                 Some (PROV_RES_SUCCESS, APP_SCHEDULER_STOP_TASK, w)
               })
         else
           do {
             let w = w\<lparr>jn_events := (jn_events w)\<lparr>ev_route_change := True\<rparr>, jn_state := JOIN_STATE_WAIT_ROUTE_CHANGE\<rparr>;
             w \<leftarrow> join_wait_timeout env end_cb w;
             Some (PROV_RES_SUCCESS, APP_SCHEDULER_SCHEDULE_ASAP, w)
           })"

definition scan_result :: "join_env \<Rightarrow> 'a end_cb \<Rightarrow> 'a joining_scheme \<Rightarrow>
    (provisioning_res \<times> u32 \<times> 'a joining_scheme) option" where
  "scan_result env end_cb w =
     (if jn_num_beacons w > 0 then
        do {
          conf \<leftarrow> jn_conf w;
          joining_cb \<leftarrow> jc_joining_cb conf;
          (buf, beacons) \<leftarrow> sort_provisioning_beacons (jn_buffer w) (Some 0);
          let w = w\<lparr>jn_buffer := buf\<rparr>;
          (case joining_cb buf beacons of
             Some beacon \<Rightarrow> join_beacon env end_cb beacon w
           | None \<Rightarrow> Some (PROV_RES_ERROR_SCANNING_BEACONS, APP_SCHEDULER_STOP_TASK, w))
        }
      else Some (PROV_RES_ERROR_SCANNING_BEACONS, APP_SCHEDULER_STOP_TASK, w))"

definition join_state_wait_scan_end :: "join_env \<Rightarrow> 'a end_cb \<Rightarrow> 'a joining_scheme \<Rightarrow> (u32 \<times> 'a joining_scheme) option" where
  "join_state_wait_scan_end env end_cb w =
     do {
       (res, new_delay_ms, w) \<leftarrow>
         (if ev_scan_end (jn_events w) then
            scan_result env end_cb ((jn_cancel_task JOIN_timeout_task w)\<lparr>jn_events := no_join_events\<rparr>)
          else if ev_timeout (jn_events w) then Some (PROV_RES_TIMEOUT, APP_SCHEDULER_STOP_TASK, w)
          else Some (PROV_RES_SUCCESS, APP_SCHEDULER_STOP_TASK, w));
       if res \<noteq> PROV_RES_SUCCESS then
         do {
           (ended, w) \<leftarrow> join_retry end_cb res w;
           let (new_delay_ms, w) =
             (if ended then (new_delay_ms, w)
              else (APP_SCHEDULER_SCHEDULE_ASAP, w\<lparr>jn_state := JOIN_STATE_START\<rparr>));
           Some (new_delay_ms, w\<lparr>jn_events := no_join_events\<rparr>)
         }
       else Some (new_delay_ms, w)
     }"

definition join_state_wait_route_change :: "join_env \<Rightarrow> 'a end_cb \<Rightarrow> 'a joining_scheme \<Rightarrow> (u32 \<times> 'a joining_scheme) option" where
  "join_state_wait_route_change env end_cb w =
     do {
       w \<leftarrow>
         (if \<not> je_route_valid env then Some (w\<lparr>jn_events := (jn_events w)\<lparr>ev_route_change := False\<rparr>\<rparr>)
          else call_end_cb end_cb PROV_RES_SUCCESS
            (reset_joining False (jn_unsubscribe (jn_cancel_task JOIN_timeout_task w))));
       if ev_timeout (jn_events w) then
         do {
           (ended, w) \<leftarrow> join_retry end_cb PROV_RES_ERROR_NO_ROUTE (jn_unsubscribe w);
           Some (if ended then (APP_SCHEDULER_STOP_TASK, w)
                 else (APP_SCHEDULER_SCHEDULE_ASAP, w\<lparr>jn_state := JOIN_STATE_START\<rparr>))
         }
       else Some (APP_SCHEDULER_STOP_TASK, w)
     }"

definition join_run_state_machine :: "join_env \<Rightarrow> 'a end_cb \<Rightarrow> 'a joining_scheme \<Rightarrow> (u32 \<times> 'a joining_scheme) option" where
  "join_run_state_machine env end_cb w =
     (case jn_state w of
        JOIN_STATE_UNINIT \<Rightarrow> Some (APP_SCHEDULER_STOP_TASK, w)
      | JOIN_STATE_IDLE \<Rightarrow> Some (join_state_idle w)
      | JOIN_STATE_START \<Rightarrow> join_state_start env end_cb w
      | JOIN_STATE_WAIT_SCAN_END \<Rightarrow> join_state_wait_scan_end env end_cb w
      | JOIN_STATE_WAIT_ROUTE_CHANGE \<Rightarrow> join_state_wait_route_change env end_cb w)"

definition Provisioning_Joining_init :: "joining_conf \<Rightarrow> 'a joining_scheme \<Rightarrow> provisioning_ret \<times> 'a joining_scheme" where
  "Provisioning_Joining_init conf w =
     (if jn_state w \<noteq> JOIN_STATE_UNINIT \<and> jn_state w \<noteq> JOIN_STATE_IDLE then (PROV_RET_INVALID_STATE, w)
      else if jc_joining_cb conf = None \<or> \<not> jc_end_cb_set conf then (PROV_RET_INVALID_PARAM, w)
      else (PROV_RET_OK, w\<lparr>jn_conf := Some conf, jn_state := JOIN_STATE_IDLE\<rparr>))"

definition Provisioning_Joining_start :: "lib_time \<Rightarrow> 'a end_cb \<Rightarrow> 'a joining_scheme \<Rightarrow>
    (provisioning_ret \<times> 'a joining_scheme) option" where
  "Provisioning_Joining_start lt end_cb w =
     (if jn_state w \<noteq> JOIN_STATE_IDLE then Some (PROV_RET_INVALID_STATE, w)
      else do {
        (added, w) \<leftarrow> schedule_join lt end_cb (w\<lparr>jn_events := (jn_events w)\<lparr>ev_start := True\<rparr>\<rparr>);
        Some (if added then PROV_RET_OK else PROV_RET_INTERNAL_ERROR, w)
      })"

definition Provisioning_Joining_stop :: "'a end_cb \<Rightarrow> 'a joining_scheme \<Rightarrow> (provisioning_ret \<times> 'a joining_scheme) option" where
  "Provisioning_Joining_stop end_cb w = do { w \<leftarrow> end_joining end_cb PROV_RES_STOPPED w; Some (PROV_RET_OK, w) }"

subsection \<open>What the beacon loop computes\<close>

text \<open>\<open>beacon_chain buf p is\<close>: following the links from \<open>p\<close> visits the
  beacons \<open>is\<close> and ends.\<close>

fun beacon_chain :: "joining_beacon list \<Rightarrow> nat option \<Rightarrow> nat list \<Rightarrow> bool" where
  "beacon_chain buf p [] \<longleftrightarrow> p = None"
| "beacon_chain buf p (i # is) \<longleftrightarrow> p = Some i \<and> i < length buf \<and> beacon_chain buf (jb_next (buf ! i)) is"

definition prov_beacon :: "joining_beacon list \<Rightarrow> nat \<Rightarrow> bool" where
  "prov_beacon buf i \<longleftrightarrow> jb_type (buf ! i) = JOINING_BEACON_TYPE"

text \<open>The beacons after the last one of another type.\<close>

definition tail_run :: "('a \<Rightarrow> bool) \<Rightarrow> 'a list \<Rightarrow> 'a list" where
  "tail_run P xs = rev (takeWhile P (rev xs))"

lemma tail_run_bad: "\<not> P x \<Longrightarrow> tail_run P (ys @ x # xs) = tail_run P xs"
  by (cases "\<forall>y \<in> set xs. P y") (simp_all add: tail_run_def takeWhile_append takeWhile_eq_all_conv [THEN iffD2])

lemma tail_run_all: "\<forall>x \<in> set xs. P x \<Longrightarrow> tail_run P xs = xs"
  by (simp add: tail_run_def takeWhile_eq_all_conv [THEN iffD2])

lemma beacon_chain_cong:
  "length buf' = length buf \<Longrightarrow> (\<And>i. i \<in> set is \<Longrightarrow> buf' ! i = buf ! i) \<Longrightarrow> beacon_chain buf p is \<Longrightarrow> beacon_chain buf' p is"
  by (induction buf p "is" rule: beacon_chain.induct) auto

lemma beacon_chain_range: "beacon_chain buf p is \<Longrightarrow> \<forall>k \<in> set is. k < length buf"
  by (induction buf p "is" rule: beacon_chain.induct) auto

lemma sort_loop_end [simp]: "sort_loop prev buf None start = Some (buf, start)"
  by (subst sort_loop.simps) simp

text \<open>With a provisioning beacon in front, everything up to the last other beacon goes.\<close>

lemma sort_loop_front:
  assumes "beacon_chain buf beacon xs" "beacon_chain buf (jb_next (buf ! prev)) (ys @ xs)"
    and "prev \<notin> set (ys @ xs)" "prev < length buf" "\<forall>y \<in> set ys. prov_beacon buf y"
  shows "\<exists>buf'. sort_loop prev buf beacon (Some prev) = Some (buf', Some prev) \<and> length buf' = length buf \<and>
     map jb_type buf' = map jb_type buf \<and>
     beacon_chain buf' (jb_next (buf' ! prev)) (tail_run (prov_beacon buf) (ys @ xs))"
  using assms
proof (induction xs arbitrary: beacon ys buf)
  case Nil
  then show ?case by (simp add: tail_run_all)
next
  case (Cons j xs)
  from Cons.prems have j: "beacon = Some j" "j < length buf" "j \<noteq> prev" by auto
  show ?case
  proof (cases "prov_beacon buf j")
    case True
    have "\<exists>buf'. sort_loop prev buf (jb_next (buf ! j)) (Some prev) = Some (buf', Some prev) \<and> length buf' = length buf \<and>
       map jb_type buf' = map jb_type buf \<and>
       beacon_chain buf' (jb_next (buf' ! prev)) (tail_run (prov_beacon buf) ((ys @ [j]) @ xs))"
      using Cons.prems True by (intro Cons.IH) auto
    moreover have "sort_loop prev buf beacon (Some prev) = sort_loop prev buf (jb_next (buf ! j)) (Some prev)"
      using True j by (subst sort_loop.simps) (simp add: rd_def prov_beacon_def)
    ultimately show ?thesis by simp
  next
    case False
    define buf1 where "buf1 = buf[prev := (buf ! prev)\<lparr>jb_next := jb_next (buf ! j)\<rparr>]"
    have b1: "length buf1 = length buf" "map jb_type buf1 = map jb_type buf" "buf1 ! j = buf ! j"
      "jb_next (buf1 ! prev) = jb_next (buf ! j)" "\<forall>k. k \<noteq> prev \<longrightarrow> buf1 ! k = buf ! k"
      using Cons.prems(4) j by (simp_all add: buf1_def map_update list_update_same_conv)
    then have P: "prov_beacon buf1 k = prov_beacon buf k" if "k < length buf" for k
      using that by (metis nth_map prov_beacon_def)
    have ch: "beacon_chain buf1 (jb_next (buf ! j)) xs"
      by (rule beacon_chain_cong [of _ buf]) (use Cons.prems b1 in auto)
    then have in_range: "\<forall>k \<in> set xs. k < length buf" using beacon_chain_range b1(1) by metis
    have "\<exists>buf'. sort_loop prev buf1 (jb_next (buf ! j)) (Some prev) = Some (buf', Some prev) \<and>
       length buf' = length buf1 \<and> map jb_type buf' = map jb_type buf1 \<and>
       beacon_chain buf' (jb_next (buf' ! prev)) (tail_run (prov_beacon buf1) ([] @ xs))"
      using Cons.prems ch b1 by (intro Cons.IH) auto
    moreover have "tail_run (prov_beacon buf1) xs = tail_run (prov_beacon buf) (ys @ j # xs)"
      unfolding tail_run_bad [of "prov_beacon buf" j, OF False] using in_range P by (auto simp: tail_run_def intro!: takeWhile_cong)
    moreover have "sort_loop prev buf beacon (Some prev) = sort_loop prev buf1 (jb_next (buf ! j)) (Some prev)"
      using False j Cons.prems(4) b1(3) by (subst sort_loop.simps) (simp add: rd_def prov_beacon_def buf1_def)
    ultimately show ?thesis using b1(1,2) by simp
  qed
qed

text \<open>Behind a first beacon of another type only the beacons in front are removed: the
  later ones are unlinked from the removed first beacon.\<close>

lemma sort_loop_unlinked:
  assumes "beacon_chain buf beacon xs" "prev \<notin> set xs" "prev < length buf" "start \<notin> Some ` set xs"
  shows "\<exists>buf'. sort_loop prev buf beacon start = Some (buf', start) \<and> length buf' = length buf \<and>
     map jb_type buf' = map jb_type buf \<and> (\<forall>k. k \<noteq> prev \<longrightarrow> buf' ! k = buf ! k)"
  using assms
proof (induction xs arbitrary: beacon buf)
  case Nil
  then show ?case by simp
next
  case (Cons j xs)
  from Cons.prems have j: "beacon = Some j" "j < length buf" "j \<noteq> prev" "start \<noteq> Some j" by auto
  define buf1 where "buf1 = (if prov_beacon buf j then buf else buf[prev := (buf ! prev)\<lparr>jb_next := jb_next (buf ! j)\<rparr>])"
  have b1: "length buf1 = length buf" "map jb_type buf1 = map jb_type buf" "\<forall>k. k \<noteq> prev \<longrightarrow> buf1 ! k = buf ! k"
    using Cons.prems(3) by (auto simp: buf1_def map_update list_update_same_conv)
  have "beacon_chain buf1 (jb_next (buf ! j)) xs"
    by (rule beacon_chain_cong [of _ buf]) (use Cons.prems b1 in auto)
  then have "\<exists>buf'. sort_loop prev buf1 (jb_next (buf ! j)) start = Some (buf', start) \<and> length buf' = length buf1 \<and>
     map jb_type buf' = map jb_type buf1 \<and> (\<forall>k. k \<noteq> prev \<longrightarrow> buf' ! k = buf1 ! k)"
    using Cons.prems b1 by (intro Cons.IH) auto
  moreover have "sort_loop prev buf beacon start = sort_loop prev buf1 (jb_next (buf ! j)) start"
    using j Cons.prems(3) b1(1,3) by (subst sort_loop.simps) (auto simp: rd_def prov_beacon_def buf1_def)
  ultimately show ?case using b1 by auto
qed

lemma sort_loop_skip:
  assumes "beacon_chain buf beacon xs" "prev \<notin> set xs" "prev < length buf" "distinct xs"
  shows "\<exists>buf' start. sort_loop prev buf beacon beacon = Some (buf', start) \<and> length buf' = length buf \<and>
     map jb_type buf' = map jb_type buf \<and> beacon_chain buf' start (dropWhile (\<lambda>i. \<not> prov_beacon buf i) xs)"
  using assms
proof (induction xs arbitrary: beacon)
  case Nil
  then show ?case by simp
next
  case (Cons j xs)
  from Cons.prems have j: "beacon = Some j" "j < length buf" by auto
  show ?case
  proof (cases "prov_beacon buf j")
    case True
    have "\<exists>buf'. sort_loop prev buf (jb_next (buf ! j)) beacon = Some (buf', beacon) \<and> length buf' = length buf \<and>
       map jb_type buf' = map jb_type buf \<and> (\<forall>k. k \<noteq> prev \<longrightarrow> buf' ! k = buf ! k)"
      using Cons.prems by (intro sort_loop_unlinked [where xs = xs]) auto
    then obtain buf' where b: "sort_loop prev buf (jb_next (buf ! j)) beacon = Some (buf', beacon)" "length buf' = length buf"
       "map jb_type buf' = map jb_type buf" "\<forall>k. k \<noteq> prev \<longrightarrow> buf' ! k = buf ! k" by blast
    have "sort_loop prev buf beacon beacon = Some (buf', beacon)"
      using True j b(1) by (subst sort_loop.simps) (simp add: rd_def prov_beacon_def)
    moreover have "beacon_chain buf' beacon (j # xs)"
      by (rule beacon_chain_cong [of _ buf]) (use Cons.prems b in auto)
    ultimately show ?thesis using True b by auto
  next
    case False
    then have "sort_loop prev buf beacon beacon = sort_loop prev buf (jb_next (buf ! j)) (jb_next (buf ! j))"
      using j by (subst sort_loop.simps) (simp add: rd_def prov_beacon_def)
    moreover have "\<exists>buf' start. sort_loop prev buf (jb_next (buf ! j)) (jb_next (buf ! j)) = Some (buf', start) \<and>
       length buf' = length buf \<and> map jb_type buf' = map jb_type buf \<and>
       beacon_chain buf' start (dropWhile (\<lambda>i. \<not> prov_beacon buf i) xs)"
      using Cons.prems by (intro Cons.IH) auto
    ultimately show ?thesis using False by simp
  qed
qed

lemma sort_beacons:
  assumes "beacon_chain buf (Some i) (i # is)" "distinct (i # is)"
  shows "\<exists>buf' start. sort_provisioning_beacons buf (Some i) = Some (buf', start) \<and> map jb_type buf' = map jb_type buf \<and>
     beacon_chain buf' start
       (if prov_beacon buf i then i # tail_run (prov_beacon buf) is else dropWhile (\<lambda>i. \<not> prov_beacon buf i) is)"
proof (cases "prov_beacon buf i")
  case True
  then have "sort_loop i buf (Some i) (Some i) = sort_loop i buf (jb_next (buf ! i)) (Some i)"
    using assms by (subst sort_loop.simps) (simp add: rd_def prov_beacon_def)
  moreover have "\<exists>buf'. sort_loop i buf (jb_next (buf ! i)) (Some i) = Some (buf', Some i) \<and> length buf' = length buf \<and>
     map jb_type buf' = map jb_type buf \<and> beacon_chain buf' (jb_next (buf' ! i)) (tail_run (prov_beacon buf) ([] @ is))"
    using assms by (intro sort_loop_front) auto
  ultimately show ?thesis using True assms by (auto simp: sort_provisioning_beacons_def)
next
  case False
  then have "sort_loop i buf (Some i) (Some i) = sort_loop i buf (jb_next (buf ! i)) (jb_next (buf ! i))"
    using assms by (subst sort_loop.simps) (simp add: rd_def prov_beacon_def)
  moreover have "\<exists>buf' start. sort_loop i buf (jb_next (buf ! i)) (jb_next (buf ! i)) = Some (buf', start) \<and>
     length buf' = length buf \<and> map jb_type buf' = map jb_type buf \<and>
     beacon_chain buf' start (dropWhile (\<lambda>i. \<not> prov_beacon buf i) is)"
    using assms by (intro sort_loop_skip) auto
  ultimately show ?thesis using False by (auto simp: sort_provisioning_beacons_def)
qed

text \<open>The beacons that are left of a scan.  With a provisioning beacon in front,
  the list becomes that beacon and those after the last beacon of another type, so that
  provisioning beacons in between are lost; with another beacon in front, the list starts at
  the first provisioning beacon, and beacons of other types behind it stay.  The function
  ends, stays in its buffer, and the first beacon left, if any, is a provisioning beacon.\<close>

lemma sorted_beacons:
  assumes "beacon_chain buf (Some i) (i # is)" "distinct (i # is)"
  shows "\<exists>buf' start. sort_provisioning_beacons buf (Some i) = Some (buf', start) \<and> map jb_type buf' = map jb_type buf \<and>
     beacon_chain buf' start
       (if prov_beacon buf i then i # tail_run (prov_beacon buf) is else dropWhile (\<lambda>i. \<not> prov_beacon buf i) is)"
  by (rule sort_beacons [OF assms])

definition scanned_beacons :: "joining_beacon list" where
  "scanned_beacons = [\<lparr>jb_next = Some 1, jb_addr = 5, jb_channel = 2, jb_type = JOINING_BEACON_TYPE, jb_payload = [], jb_rssi = 0\<rparr>,
     \<lparr>jb_next = Some 2, jb_addr = 6, jb_channel = 2, jb_type = JOINING_BEACON_TYPE, jb_payload = [], jb_rssi = 0\<rparr>,
     \<lparr>jb_next = Some 3, jb_addr = 7, jb_channel = 2, jb_type = 0, jb_payload = [], jb_rssi = 0\<rparr>,
     \<lparr>jb_next = None, jb_addr = 8, jb_channel = 2, jb_type = JOINING_BEACON_TYPE, jb_payload = [], jb_rssi = 0\<rparr>]"

text \<open>Of the beacons 0, 1 and 3 of provisioning proxies the second is lost.\<close>

lemma sorted_beacons_example:
  "prov_beacon scanned_beacons 1 \<and>
     (\<exists>buf' start. sort_provisioning_beacons scanned_beacons (Some 0) = Some (buf', start) \<and> beacon_chain buf' start [0, 3])"
proof -
  have n: "scanned_beacons ! 1 = \<lparr>jb_next = Some 2, jb_addr = 6, jb_channel = 2, jb_type = JOINING_BEACON_TYPE, jb_payload = [], jb_rssi = 0\<rparr>"
    "scanned_beacons ! 2 = \<lparr>jb_next = Some 3, jb_addr = 7, jb_channel = 2, jb_type = 0, jb_payload = [], jb_rssi = 0\<rparr>"
    "scanned_beacons ! 3 = \<lparr>jb_next = None, jb_addr = 8, jb_channel = 2, jb_type = JOINING_BEACON_TYPE, jb_payload = [], jb_rssi = 0\<rparr>"
    "scanned_beacons ! 0 = \<lparr>jb_next = Some 1, jb_addr = 5, jb_channel = 2, jb_type = JOINING_BEACON_TYPE, jb_payload = [], jb_rssi = 0\<rparr>"
    "length scanned_beacons = 4"
    by (simp_all add: scanned_beacons_def)
  have p: "prov_beacon scanned_beacons 0" "prov_beacon scanned_beacons 1" "\<not> prov_beacon scanned_beacons 2" "prov_beacon scanned_beacons 3"
    unfolding prov_beacon_def n by (simp_all add: JOINING_BEACON_TYPE_def)
  have "beacon_chain scanned_beacons (Some 0) (0 # [1, 2, 3])" using n by simp
  moreover have "distinct (0 # [1, 2, 3 :: nat])" by simp
  ultimately have "\<exists>buf' start. sort_provisioning_beacons scanned_beacons (Some 0) = Some (buf', start) \<and>
     map jb_type buf' = map jb_type scanned_beacons \<and>
     beacon_chain buf' start (if prov_beacon scanned_beacons 0 then 0 # tail_run (prov_beacon scanned_beacons) [1, 2, 3]
       else dropWhile (\<lambda>i. \<not> prov_beacon scanned_beacons i) [1, 2, 3])"
    by (rule sorted_beacons)
  then show ?thesis using p by (auto simp: tail_run_def)
qed

end
