(* ===== verification/Prov_Sessions.thy ===== *)
theory Prov_Sessions
  imports Prov_Joining
begin

text \<open>
  Sessions of \<open>joining.c\<close>: for every client whose callback leaves the variables of the
  module alone (locale \<open>joining_client\<close>), each event of a session keeps its invariant and
  either changes nothing or uses up one of a bounded number of steps; when the callback
  returns (locale \<open>joining_returns\<close>), so do all handlers.  The provisioning library
  interprets both locales.
\<close>

subsection \<open>Sessions\<close>

definition join_phase :: "joining_state \<Rightarrow> nat" where
  "join_phase st =
     (case st of JOIN_STATE_START \<Rightarrow> 3 | JOIN_STATE_WAIT_SCAN_END \<Rightarrow> 2 | JOIN_STATE_WAIT_ROUTE_CHANGE \<Rightarrow> 1 | _ \<Rightarrow> 0)"

definition in_session :: "'a joining_scheme \<Rightarrow> bool" where
  "in_session w \<longleftrightarrow> jn_state w \<noteq> JOIN_STATE_UNINIT \<and> jn_state w \<noteq> JOIN_STATE_IDLE"

definition nb_retry :: "'a joining_scheme \<Rightarrow> u8" where
  "nb_retry w = (case jn_conf w of None \<Rightarrow> 0 | Some conf \<Rightarrow> jc_nb_retry conf)"

text \<open>The steps a session has left at most.\<close>

definition join_left :: "'a joining_scheme \<Rightarrow> nat" where
  "join_left w = (if in_session w then 4 * (unat (nb_retry w) - unat (jn_retry w)) + join_phase (jn_state w) else 0)"

text \<open>A session is configured, its retries are counted without overflow, a route change
  is awaited only in the state for it, and no new session is requested.\<close>

definition join_inv :: "'a joining_scheme \<Rightarrow> bool" where
  "join_inv w \<longleftrightarrow> jn_state w \<noteq> JOIN_STATE_UNINIT \<and> jn_conf w \<noteq> None \<and> nb_retry w < 255 \<and> \<not> ev_start (jn_events w) \<and>
     (in_session w \<longrightarrow> jn_retry w \<le> nb_retry w) \<and> ss_wf (jn_stack w) \<and>
     (jn_state w \<noteq> JOIN_STATE_WAIT_ROUTE_CHANGE \<longrightarrow> ROUTE_CHANGED_CB \<notin> dom (ss_subs (jn_stack w)))"

datatype join_event = Ev_run join_env | Ev_scan lib_time "joining_beacon list" nat | Ev_route lib_time | Ev_timeout lib_time

text \<open>One event of a session: the state machine runs, the stack ends a scan after it has
  written the beacons, the route changes, the timeout task runs.\<close>

definition join_handle :: "'a end_cb \<Rightarrow> join_event \<Rightarrow> 'a joining_scheme \<Rightarrow> 'a joining_scheme option" where
  "join_handle end_cb ev w =
     (case ev of
        Ev_run env \<Rightarrow> map_option snd (join_run_state_machine env end_cb w)
      | Ev_scan lt buf n \<Rightarrow> joining_beacon_rx_cb lt end_cb n (w\<lparr>jn_buffer := buf\<rparr>)
      | Ev_route lt \<Rightarrow> route_changed_cb lt end_cb w
      | Ev_timeout lt \<Rightarrow> map_option snd (join_timeout_task lt end_cb w))"

text \<open>A run over a list of events, with the number of those that changed the state or the
  count of retries.\<close>

fun join_exec :: "'a end_cb \<Rightarrow> join_event list \<Rightarrow> 'a joining_scheme \<Rightarrow> (nat \<times> 'a joining_scheme) option" where
  "join_exec end_cb [] w = Some (0, w)"
| "join_exec end_cb (ev # evs) w =
     do {
       w1 \<leftarrow> join_handle end_cb ev w;
       (n, w2) \<leftarrow> join_exec end_cb evs w1;
       Some (if jn_state w1 = jn_state w \<and> jn_retry w1 = jn_retry w then n else n + 1, w2)
     }"

definition end_calls :: "'a joining_scheme \<Rightarrow> nat" where
  "end_calls w = length (filter (\<lambda>c. case c of End_cb _ \<Rightarrow> True | _ \<Rightarrow> False) (jn_calls w))"

lemma jn_log_fields [simp]:
  "jn_sched (jn_log c w) = jn_sched w" "jn_stack (jn_log c w) = jn_stack w" "jn_retry (jn_log c w) = jn_retry w"
  "jn_state (jn_log c w) = jn_state w" "jn_events (jn_log c w) = jn_events w" "jn_conf (jn_log c w) = jn_conf w"
  "jn_num_beacons (jn_log c w) = jn_num_beacons w" "jn_buffer (jn_log c w) = jn_buffer w"
  "end_calls (jn_log c w) = end_calls w + (case c of End_cb _ \<Rightarrow> 1 | _ \<Rightarrow> 0)"
  by (simp_all add: jn_log_def end_calls_def split: join_call.split)

lemma jn_cancel_fields [simp]:
  "jn_stack (jn_cancel_task f w) = jn_stack w" "jn_retry (jn_cancel_task f w) = jn_retry w"
  "jn_state (jn_cancel_task f w) = jn_state w" "jn_events (jn_cancel_task f w) = jn_events w"
  "jn_conf (jn_cancel_task f w) = jn_conf w" "jn_num_beacons (jn_cancel_task f w) = jn_num_beacons w"
  "jn_buffer (jn_cancel_task f w) = jn_buffer w" "end_calls (jn_cancel_task f w) = end_calls w"
  by (simp_all add: jn_cancel_task_def end_calls_def)

lemma jn_subscribe_fields [simp]:
  "jn_retry (jn_subscribe w) = jn_retry w" "jn_state (jn_subscribe w) = jn_state w"
  "jn_events (jn_subscribe w) = jn_events w" "jn_conf (jn_subscribe w) = jn_conf w"
  "jn_sched (jn_subscribe w) = jn_sched w" "end_calls (jn_subscribe w) = end_calls w"
  "jn_retry (jn_unsubscribe w) = jn_retry w" "jn_state (jn_unsubscribe w) = jn_state w"
  "jn_events (jn_unsubscribe w) = jn_events w" "jn_conf (jn_unsubscribe w) = jn_conf w"
  "jn_sched (jn_unsubscribe w) = jn_sched w" "end_calls (jn_unsubscribe w) = end_calls w"
  by (simp_all add: jn_subscribe_def jn_unsubscribe_def end_calls_def)

lemma reset_joining_fields [simp]:
  "jn_state (reset_joining b w) = JOIN_STATE_IDLE" "jn_events (reset_joining b w) = no_join_events"
  "jn_retry (reset_joining b w) = jn_retry w" "jn_conf (reset_joining b w) = jn_conf w"
  "jn_stack (reset_joining b w) = jn_stack (jn_unsubscribe w)"
  "end_calls (reset_joining b w) = end_calls w"
  by (simp_all add: reset_joining_def Let_def jn_unsubscribe_def end_calls_def jn_log_def jn_cancel_task_def)

lemma no_join_events_fields [simp]:
  "\<not> ev_scan_end no_join_events" "\<not> ev_route_change no_join_events" "\<not> ev_timeout no_join_events" "\<not> ev_start no_join_events"
  by (simp_all add: no_join_events_def)

lemma end_calls_update [simp]:
  "end_calls (w\<lparr>jn_sched := s\<rparr>) = end_calls w" "end_calls (w\<lparr>jn_stack := t\<rparr>) = end_calls w"
  "end_calls (w\<lparr>jn_retry := r\<rparr>) = end_calls w" "end_calls (w\<lparr>jn_state := st\<rparr>) = end_calls w"
  "end_calls (w\<lparr>jn_events := e\<rparr>) = end_calls w" "end_calls (w\<lparr>jn_buffer := b\<rparr>) = end_calls w"
  "end_calls (w\<lparr>jn_num_beacons := n\<rparr>) = end_calls w"
  by (simp_all add: end_calls_def)

lemma jn_add_task_cases:
  obtains (res) b s where "jn_add_task lt f d w = (b, w\<lparr>jn_sched := s\<rparr>)"
  by (cases "App_Scheduler_addTask_execTime lt (jn_sched w) (Some f) d 500") (simp add: jn_add_task_def)

lemma unsubscribed:
  assumes "ss_wf (jn_stack w)"
  shows "ss_wf (jn_stack (jn_unsubscribe w))" "ROUTE_CHANGED_CB \<notin> dom (ss_subs (jn_stack (jn_unsubscribe w)))"
proof -
  have "ss_wf (jn_stack (jn_unsubscribe w)) \<and> ROUTE_CHANGED_CB \<notin> dom (ss_subs (jn_stack (jn_unsubscribe w)))"
  proof (cases "ROUTE_CHANGED_CB \<in> dom (ss_subs (jn_stack w))")
    case True
    from stack_events.unsubscribe_ok [OF assms True] show ?thesis by (auto simp: jn_unsubscribe_def)
  next
    case False
    then have "\<not> (\<exists>e \<in> set (m_stack_state_cbs (jn_stack w)). ss_cb e = Some ROUTE_CHANGED_CB)"
      unfolding dom_subs live_cbs_def by force
    then have "map (\<lambda>e. if ss_cb e = Some ROUTE_CHANGED_CB then e\<lparr>ss_cb := None\<rparr> else e) (m_stack_state_cbs (jn_stack w)) =
        m_stack_state_cbs (jn_stack w)" by (intro map_idI) auto
    then show ?thesis using assms False by (simp add: jn_unsubscribe_def Stack_State_removeEventCb_def)
  qed
  then show "ss_wf (jn_stack (jn_unsubscribe w))" "ROUTE_CHANGED_CB \<notin> dom (ss_subs (jn_stack (jn_unsubscribe w)))" by auto
qed

lemma subscribed_wf: "ss_wf (jn_stack w) \<Longrightarrow> ss_wf (jn_stack (jn_subscribe w))"
proof -
  assume w: "ss_wf (jn_stack w)"
  have b: "(push_bit 6 1 :: u32) \<noteq> 0" by simp
  show ?thesis
  proof (cases "ROUTE_CHANGED_CB \<in> dom (ss_subs (jn_stack w)) \<or> ss_room (jn_stack w)")
    case True
    from stack_events.subscribe_ok [OF w b True] show ?thesis by (auto simp: jn_subscribe_def)
  next
    case False
    then show ?thesis using stack_events.subscribe_full [OF w b, of ROUTE_CHANGED_CB] w by (auto simp: jn_subscribe_def)
  qed
qed

lemma retry_count: "(r::u8) \<le> n \<Longrightarrow> n < 255 \<Longrightarrow> unat (r + 1) = Suc (unat r)"
  by (subst unat_add_small) (simp_all add: word_le_nat_alt word_less_nat_alt)

lemma retry_gt: "(r::u8) \<le> n \<Longrightarrow> n < 255 \<Longrightarrow> n < r + 1 \<longleftrightarrow> r = n"
  by (auto simp: word_less_nat_alt word_le_nat_alt retry_count word_unat_eq_iff)

text \<open>What one event does to a session: the invariant stays, the state is unchanged or
  the steps left are fewer, and a session ends with the callback of the client.\<close>

definition join_ok :: "'a joining_scheme \<Rightarrow> 'a joining_scheme \<Rightarrow> bool" where
  "join_ok w w' \<longleftrightarrow> join_inv w' \<and> jn_conf w' = jn_conf w \<and>
     (jn_state w' = jn_state w \<and> jn_retry w' = jn_retry w \<or> join_left w' < join_left w) \<and>
     (in_session w \<and> \<not> in_session w' \<longrightarrow> end_calls w' = Suc (end_calls w)) \<and> end_calls w \<le> end_calls w'"

lemma session_events [simp]:
  "in_session (w\<lparr>jn_events := e\<rparr>) = in_session w" "nb_retry (w\<lparr>jn_events := e\<rparr>) = nb_retry w"
  "join_left (w\<lparr>jn_events := e\<rparr>) = join_left w"
  by (simp_all add: in_session_def nb_retry_def join_left_def)

lemmas session_defs = join_ok_def join_inv_def join_left_def in_session_def join_phase_def nb_retry_def

locale joining_client =
  fixes end_cb :: "'a end_cb"
  assumes end_cb_keeps: "end_cb res w = Some w' \<Longrightarrow> jn_state w = JOIN_STATE_IDLE \<Longrightarrow>
      jn_state w' = jn_state w \<and> jn_stack w' = jn_stack w \<and> jn_retry w' = jn_retry w \<and> jn_events w' = jn_events w \<and>
      jn_conf w' = jn_conf w \<and> end_calls w' = end_calls w"
begin

lemma called_end_cb:
  assumes "call_end_cb end_cb res w = Some w'" "jn_state w = JOIN_STATE_IDLE"
  shows "jn_state w' = JOIN_STATE_IDLE" "jn_stack w' = jn_stack w" "jn_retry w' = jn_retry w" "jn_events w' = jn_events w"
    "jn_conf w' = jn_conf w" "end_calls w' = Suc (end_calls w)"
  using end_cb_keeps [of res "jn_log (End_cb res) w" w'] assms by (auto simp: call_end_cb_def split: if_splits)

lemma ended_joining:
  assumes "end_joining end_cb res w = Some w'"
  shows "jn_state w' = JOIN_STATE_IDLE" "jn_stack w' = jn_stack (jn_unsubscribe w)" "jn_retry w' = jn_retry w"
    "jn_events w' = no_join_events" "jn_conf w' = jn_conf w" "end_calls w' = Suc (end_calls w)"
  using called_end_cb [of res "reset_joining True w" w'] assms by (auto simp: end_joining_def)

lemma ended_ok:
  assumes "end_joining end_cb res w1 = Some w'" "join_inv w" "jn_conf w1 = jn_conf w" "ss_wf (jn_stack w1)"
    "end_calls w1 = end_calls w" "in_session w \<or> jn_state w = JOIN_STATE_IDLE \<and> jn_retry w1 = jn_retry w"
  shows "join_ok w w'"
  using ended_joining [OF assms(1)] assms(2-) unsubscribed [OF assms(4)]
  by (auto simp: session_defs split: option.splits joining_state.splits)

lemma scheduled_ok:
  assumes "schedule_join lt end_cb w1 = Some (b, w')" "join_inv w"
    "jn_conf w1 = jn_conf w" "jn_stack w1 = jn_stack w" "jn_state w1 = jn_state w" "jn_retry w1 = jn_retry w"
    "\<not> ev_start (jn_events w1)" "end_calls w1 = end_calls w"
  shows "join_ok w w'"
proof (cases rule: jn_add_task_cases [of lt JOIN_run_state_machine APP_SCHEDULER_SCHEDULE_ASAP w1])
  case (res b' s)
  show ?thesis
  proof (cases b')
    case True
    with res assms show ?thesis by (auto simp: schedule_join_def session_defs)
  next
    case False
    with res assms(1) have e: "end_joining end_cb PROV_RES_ERROR_INTERNAL (w1\<lparr>jn_sched := s\<rparr>) = Some w'"
      by (auto simp: schedule_join_def split: bind_splits)
    show ?thesis by (rule ended_ok [OF e assms(2)]) (use assms in \<open>auto simp: in_session_def join_inv_def\<close>)
  qed
qed

lemma scheduled_state:
  "schedule_join lt end_cb w1 = Some (b, w') \<Longrightarrow> jn_state w' = jn_state w1 \<or> jn_state w' = JOIN_STATE_IDLE"
  by (cases rule: jn_add_task_cases [of lt JOIN_run_state_machine APP_SCHEDULER_SCHEDULE_ASAP w1])
    (auto simp: schedule_join_def split: bool.splits bind_splits dest: ended_joining(1))

lemma retried:
  assumes "join_retry end_cb res w1 = Some (ended, w')" "join_inv w" "in_session w" "jn_conf w1 = jn_conf w"
    "ss_wf (jn_stack w1)" "jn_retry w1 = jn_retry w" "end_calls w1 = end_calls w"
  shows "if ended then join_ok w w' \<and> jn_state w' = JOIN_STATE_IDLE
     else jn_retry w < nb_retry w \<and> w' = w1\<lparr>jn_retry := jn_retry w + 1\<rparr>"
proof -
  obtain conf where c: "jn_conf w = Some conf" using assms(2) by (auto simp: join_inv_def)
  have r: "jn_retry w \<le> jc_nb_retry conf" "jc_nb_retry conf < 255"
    using assms(2,3) c by (auto simp: join_inv_def nb_retry_def)
  show ?thesis
  proof (cases "jn_retry w = jc_nb_retry conf")
    case True
    then have e: "end_joining end_cb res (w1\<lparr>jn_retry := jn_retry w1 + 1\<rparr>) = Some w'" "ended"
      using assms(1,4,6) c retry_gt [OF r] by (auto simp: join_retry_def split: bind_splits)
    have "join_ok w w'" by (rule ended_ok [OF e(1) assms(2)]) (use assms in simp_all)
    with e ended_joining(1) [OF e(1)] show ?thesis by simp
  next
    case False
    then show ?thesis using assms(1,4,6) c retry_gt [OF r] r
      by (auto simp: join_retry_def nb_retry_def)
  qed
qed

lemma retried_ok:
  assumes "jn_retry w < nb_retry w" "join_inv w" "in_session w" "jn_conf w' = jn_conf w" "jn_retry w' = jn_retry w + 1"
    "jn_state w' = JOIN_STATE_START" "\<not> ev_start (jn_events w')" "ss_wf (jn_stack w')"
    "ROUTE_CHANGED_CB \<notin> dom (ss_subs (jn_stack w'))" "end_calls w' = end_calls w"
  shows "join_ok w w'"
proof -
  have "nb_retry w < 255" "jn_retry w \<le> nb_retry w" "nb_retry w' = nb_retry w" "0 < join_phase (jn_state w)"
    using assms by (auto simp: session_defs split: joining_state.splits)
  moreover then have "unat (jn_retry w + 1) = Suc (unat (jn_retry w))" by (simp add: retry_count)
  ultimately show ?thesis using assms by (auto simp: join_ok_def join_inv_def join_left_def in_session_def join_phase_def word_less_nat_alt word_le_nat_alt)
qed

lemma ok_clear_events: "join_ok w w' \<Longrightarrow> join_ok w (w'\<lparr>jn_events := no_join_events\<rparr>)"
  by (auto simp: join_ok_def join_inv_def)

lemma start_ok:
  assumes run: "join_state_start env end_cb w = Some (d, w')" and inv: "join_inv w" and st: "jn_state w = JOIN_STATE_START"
  shows "join_ok w w'"
proof -
  have ins: "in_session w" using st by (simp add: in_session_def)
  define w1 where "w1 = jn_log StartJoiningBeaconRx ((jn_log StopJoiningBeaconRx w)
     \<lparr>jn_buffer := map (\<lambda>_. zero_beacon) (jn_buffer w)\<rparr>)"
  have w1: "jn_conf w1 = jn_conf w" "jn_stack w1 = jn_stack w" "jn_retry w1 = jn_retry w" "end_calls w1 = end_calls w"
    "jn_state w1 = jn_state w" "ss_wf (jn_stack w1)" "ROUTE_CHANGED_CB \<notin> dom (ss_subs (jn_stack w))"
    using inv st by (simp_all add: w1_def join_inv_def)
  show ?thesis
  proof (cases "je_startJoiningBeaconRx env = APP_RES_OK")
    case False
    then obtain ended w2 where r: "join_retry end_cb PROV_RES_ERROR_SCANNING_BEACONS w1 = Some (ended, w2)"
        "w' = w2\<lparr>jn_events := no_join_events\<rparr>"
      using run by (auto simp: join_state_start_def w1_def [symmetric] Let_def split: bind_splits)
    show ?thesis
    proof (cases ended)
      case True
      then show ?thesis using retried [OF r(1) inv ins] w1 r(2) by (auto intro: ok_clear_events)
    next
      case False
      then have "jn_retry w < nb_retry w" "w2 = w1\<lparr>jn_retry := jn_retry w + 1\<rparr>"
        using retried [OF r(1) inv ins] w1 by auto
      then show ?thesis using r(2) w1 st inv by (intro retried_ok) (auto simp: in_session_def)
    qed
  next
    case rx: True
    show ?thesis
    proof (cases rule: jn_add_task_cases [of "je_time env" JOIN_timeout_task DELAY_WAIT_END_SCAN_MS w1])
      case (res b s)
      show ?thesis
      proof (cases b)
        case True
        then have "w' = w1\<lparr>jn_sched := s, jn_state := JOIN_STATE_WAIT_SCAN_END, jn_events := no_join_events\<rparr>"
          using run rx res by (auto simp: join_state_start_def w1_def [symmetric] Let_def)
        then show ?thesis using w1 inv st by (auto simp: session_defs)
      next
        case False
        then obtain w2 where e: "end_joining end_cb PROV_RES_ERROR_INTERNAL (w1\<lparr>jn_sched := s\<rparr>) = Some w2"
            "w' = w2\<lparr>jn_state := JOIN_STATE_WAIT_SCAN_END, jn_events := no_join_events\<rparr>"
          using run rx res by (auto simp: join_state_start_def w1_def [symmetric] Let_def split: bind_splits)
        have "jn_stack (jn_unsubscribe (w1\<lparr>jn_sched := s\<rparr>)) = jn_stack (jn_unsubscribe w1)"
          by (simp add: jn_unsubscribe_def)
        then show ?thesis using ended_joining [OF e(1)] e(2) w1 inv st unsubscribed [of w1] by (auto simp: session_defs)
      qed
    qed
  qed
qed

lemma waited_ok:
  assumes run: "join_wait_timeout env end_cb w1 = Some w'" and inv: "join_inv w" and st: "jn_state w = JOIN_STATE_WAIT_SCAN_END"
    and w1: "jn_conf w1 = jn_conf w" "ss_wf (jn_stack w1)" "jn_retry w1 = jn_retry w" "end_calls w1 = end_calls w"
      "jn_state w1 = JOIN_STATE_WAIT_ROUTE_CHANGE" "\<not> ev_start (jn_events w1)"
  shows "join_ok w w'"
proof (cases rule: jn_add_task_cases [of "je_time env" JOIN_timeout_task DELAY_WAIT_END_JOINING_MS w1])
  case (res b s)
  show ?thesis
  proof (cases b)
    case True
    then have "w' = w1\<lparr>jn_sched := s\<rparr>" using run res by (simp add: join_wait_timeout_def)
    then show ?thesis using w1 inv st by (auto simp: session_defs)
  next
    case False
    then have e: "end_joining end_cb PROV_RES_ERROR_INTERNAL (w1\<lparr>jn_sched := s\<rparr>) = Some w'"
      using run res by (simp add: join_wait_timeout_def)
    show ?thesis by (rule ended_ok [OF e inv]) (use w1 st in \<open>simp_all add: in_session_def\<close>)
  qed
qed

text \<open>The first part of \<open>state_wait_scan_end\<close> moves on, or leaves the session for a
  retry.\<close>

lemma scan_result_ok:
  assumes run: "scan_result env end_cb w1 = Some (res, d, w')" and inv: "join_inv w" and st: "jn_state w = JOIN_STATE_WAIT_SCAN_END"
    and w1: "jn_conf w1 = jn_conf w" "jn_stack w1 = jn_stack w" "jn_retry w1 = jn_retry w" "end_calls w1 = end_calls w"
      "jn_state w1 = jn_state w" "\<not> ev_start (jn_events w1)"
  shows "if res = PROV_RES_SUCCESS then join_ok w w'
     else jn_conf w' = jn_conf w \<and> jn_stack w' = jn_stack w \<and> jn_retry w' = jn_retry w \<and> end_calls w' = end_calls w"
proof -
  have wf: "ss_wf (jn_stack w1)" using inv w1 by (simp add: join_inv_def)
  have joined: "if res = PROV_RES_SUCCESS then join_ok w w'
     else jn_conf w' = jn_conf w \<and> jn_stack w' = jn_stack w \<and> jn_retry w' = jn_retry w \<and> end_calls w' = end_calls w"
    if j: "join_beacon env end_cb beacon (w1\<lparr>jn_buffer := buf\<rparr>) = Some (res, d, w')" for beacon buf
  proof -
    define w2 where "w2 = w1\<lparr>jn_buffer := buf\<rparr>"
    have w2: "jn_conf w2 = jn_conf w" "jn_stack w2 = jn_stack w" "jn_retry w2 = jn_retry w" "end_calls w2 = end_calls w"
      "\<not> ev_start (jn_events w2)" "ss_wf (jn_stack w2)" using w1 wf by (simp_all add: w2_def)
    let ?c = "StartJoiningProcess (jb_addr beacon) (jb_channel beacon)"
    from j consider
        (fail) "res = PROV_RES_ERROR_JOINING" "w' = jn_log ?c w2"
      | (go) "res = PROV_RES_SUCCESS" "join_wait_timeout env end_cb ((jn_subscribe (jn_log ?c w2))\<lparr>jn_state := JOIN_STATE_WAIT_ROUTE_CHANGE\<rparr>) = Some w'"
      | (there) "res = PROV_RES_SUCCESS"
          "join_wait_timeout env end_cb (w2\<lparr>jn_events := (jn_events w2)\<lparr>ev_route_change := True\<rparr>, jn_state := JOIN_STATE_WAIT_ROUTE_CHANGE\<rparr>) = Some w'"
      unfolding w2_def [symmetric] join_beacon_def Let_def by (auto split: prod.splits if_splits bind_splits)
    then show ?thesis
    proof cases
      case fail
      then show ?thesis using w2 by simp
    next
      case go
      have "ss_wf (jn_stack (jn_subscribe (jn_log ?c w2)))" by (rule subscribed_wf) (use w2 in simp)
      then have "join_ok w w'" by (intro waited_ok [OF go(2) inv st]) (use w2 in auto)
      with go show ?thesis by simp
    next
      case there
      have "join_ok w w'" by (rule waited_ok [OF there(2) inv st]) (use w2 in auto)
      with there show ?thesis by simp
    qed
  qed
  show ?thesis
  proof (cases "jn_num_beacons w1 > 0")
    case False
    then show ?thesis using run w1 by (auto simp: scan_result_def)
  next
    case True
    with run obtain conf cb buf beacons where c: "jn_conf w1 = Some conf" "jc_joining_cb conf = Some cb"
        "sort_provisioning_beacons (jn_buffer w1) (Some 0) = Some (buf, beacons)"
        "(case cb buf beacons of Some beacon \<Rightarrow> join_beacon env end_cb beacon (w1\<lparr>jn_buffer := buf\<rparr>)
          | None \<Rightarrow> Some (PROV_RES_ERROR_SCANNING_BEACONS, APP_SCHEDULER_STOP_TASK, w1\<lparr>jn_buffer := buf\<rparr>)) = Some (res, d, w')"
      by (auto simp: scan_result_def Let_def split: bind_splits)
    show ?thesis
    proof (cases "cb buf beacons")
      case None
      then show ?thesis using c(4) w1 by auto
    next
      case (Some beacon)
      then show ?thesis using c(4) joined [of beacon buf] by simp
    qed
  qed
qed

lemma scan_end_ok:
  assumes run: "join_state_wait_scan_end env end_cb w = Some (d, w')" and inv: "join_inv w" and st: "jn_state w = JOIN_STATE_WAIT_SCAN_END"
  shows "join_ok w w'"
proof -
  have ins: "in_session w" using st by (simp add: in_session_def)
  from run obtain res d1 w1 where r1: "(if ev_scan_end (jn_events w) then
            scan_result env end_cb ((jn_cancel_task JOIN_timeout_task w)\<lparr>jn_events := no_join_events\<rparr>)
          else if ev_timeout (jn_events w) then Some (PROV_RES_TIMEOUT, APP_SCHEDULER_STOP_TASK, w)
          else Some (PROV_RES_SUCCESS, APP_SCHEDULER_STOP_TASK, w)) = Some (res, d1, w1)"
      (is "?first = _")
    by (auto simp: join_state_wait_scan_end_def split: bind_splits)
  have first: "if res = PROV_RES_SUCCESS then join_ok w w1
     else jn_conf w1 = jn_conf w \<and> jn_stack w1 = jn_stack w \<and> jn_retry w1 = jn_retry w \<and> end_calls w1 = end_calls w"
  proof (cases "ev_scan_end (jn_events w)")
    case True
    with r1 have s: "scan_result env end_cb ((jn_cancel_task JOIN_timeout_task w)\<lparr>jn_events := no_join_events\<rparr>) = Some (res, d1, w1)"
      by simp
    show ?thesis by (rule scan_result_ok [OF s inv st]) simp_all
  next
    case False
    then show ?thesis using r1 inv by (auto simp: session_defs split: if_splits)
  qed
  show ?thesis
  proof (cases "res = PROV_RES_SUCCESS")
    case True
    then show ?thesis using first run r1 by (auto simp: join_state_wait_scan_end_def)
  next
    case False
    with run r1 obtain ended w2 where r: "join_retry end_cb res w1 = Some (ended, w2)"
        "w' = (if ended then w2 else w2\<lparr>jn_state := JOIN_STATE_START\<rparr>)\<lparr>jn_events := no_join_events\<rparr>"
      by (auto simp: join_state_wait_scan_end_def Let_def split: bind_splits if_splits)
    have w1: "jn_conf w1 = jn_conf w" "jn_stack w1 = jn_stack w" "jn_retry w1 = jn_retry w" "end_calls w1 = end_calls w"
      "ss_wf (jn_stack w1)" using first False inv by (simp_all add: join_inv_def)
    show ?thesis
    proof (cases ended)
      case True
      then show ?thesis using retried [OF r(1) inv ins] w1 r(2) by (auto intro: ok_clear_events)
    next
      case False
      then have "jn_retry w < nb_retry w" "w2 = w1\<lparr>jn_retry := jn_retry w + 1\<rparr>"
        using retried [OF r(1) inv ins] w1 by auto
      then show ?thesis using False r(2) w1 st inv ins by (intro retried_ok) (auto simp: join_inv_def)
    qed
  qed
qed

lemma route_ok:
  assumes run: "join_state_wait_route_change env end_cb w = Some (d, w')" and inv: "join_inv w"
    and st: "jn_state w = JOIN_STATE_WAIT_ROUTE_CHANGE"
  shows "join_ok w w'"
proof -
  have ins: "in_session w" using st by (simp add: in_session_def)
  show ?thesis
  proof (cases "je_route_valid env")
    case True
    define w1 where "w1 = jn_unsubscribe (jn_cancel_task JOIN_timeout_task w)"
    have wf: "ss_wf (jn_stack w1)"
      using unsubscribed(1) [of "jn_cancel_task JOIN_timeout_task w"] inv by (simp add: w1_def join_inv_def)
    from True run obtain w2 where e: "call_end_cb end_cb PROV_RES_SUCCESS (reset_joining False w1) = Some w2"
      by (auto simp: join_state_wait_route_change_def w1_def split: bind_splits)
    note c = called_end_cb [OF e]
    have "w' = w2" using True run e c by (auto simp: join_state_wait_route_change_def w1_def [symmetric])
    then show ?thesis using c inv st unsubscribed [OF wf] by (auto simp: session_defs w1_def)
  next
    case False
    show ?thesis
    proof (cases "ev_timeout (jn_events w)")
      case nt: False
      then have "w' = w\<lparr>jn_events := (jn_events w)\<lparr>ev_route_change := False\<rparr>\<rparr>"
        using False run by (simp add: join_state_wait_route_change_def)
      then show ?thesis using inv by (auto simp: session_defs)
    next
      case True
      define w1 where "w1 = jn_unsubscribe (w\<lparr>jn_events := (jn_events w)\<lparr>ev_route_change := False\<rparr>\<rparr>)"
      have w1: "jn_conf w1 = jn_conf w" "jn_retry w1 = jn_retry w" "end_calls w1 = end_calls w" "ss_wf (jn_stack w1)"
        "ROUTE_CHANGED_CB \<notin> dom (ss_subs (jn_stack w1))" "\<not> ev_start (jn_events w1)"
        using inv unsubscribed [of "w\<lparr>jn_events := (jn_events w)\<lparr>ev_route_change := False\<rparr>\<rparr>"]
        by (auto simp: w1_def join_inv_def)
      from True False run obtain ended w2 where r: "join_retry end_cb PROV_RES_ERROR_NO_ROUTE w1 = Some (ended, w2)"
          "w' = (if ended then w2 else w2\<lparr>jn_state := JOIN_STATE_START\<rparr>)"
        by (auto simp: join_state_wait_route_change_def w1_def split: bind_splits if_splits)
      show ?thesis
      proof (cases ended)
        case True
        then show ?thesis using retried [OF r(1) inv ins] w1 r(2) by auto
      next
        case False
        then have "jn_retry w < nb_retry w" "w2 = w1\<lparr>jn_retry := jn_retry w + 1\<rparr>"
          using retried [OF r(1) inv ins] w1 by auto
        then show ?thesis using False r(2) w1 inv ins by (intro retried_ok) auto
      qed
    qed
  qed
qed

lemma handle_ok:
  assumes "join_handle end_cb ev w = Some w'" "join_inv w"
  shows "join_ok w w'"
proof (cases ev)
  case (Ev_run env)
  with assms obtain d where run: "join_run_state_machine env end_cb w = Some (d, w')"
    by (auto simp: join_handle_def)
  then show ?thesis
  proof (cases "jn_state w")
    case JOIN_STATE_IDLE
    then show ?thesis using run assms(2)
      by (auto simp: join_run_state_machine_def join_state_idle_def Let_def session_defs)
  qed (use run assms start_ok scan_end_ok route_ok in \<open>auto simp: join_run_state_machine_def join_inv_def\<close>)
next
  case (Ev_scan lt buf n)
  with assms(1) obtain b where s: "schedule_join lt end_cb
      (w\<lparr>jn_buffer := buf, jn_num_beacons := n, jn_events := (jn_events w)\<lparr>ev_scan_end := True\<rparr>\<rparr>) = Some (b, w')"
    by (auto simp: join_handle_def joining_beacon_rx_cb_def)
  show ?thesis by (rule scheduled_ok [OF s assms(2)]) (use assms(2) in \<open>simp_all add: join_inv_def\<close>)
next
  case (Ev_route lt)
  with assms(1) obtain b where s: "schedule_join lt end_cb (w\<lparr>jn_events := (jn_events w)\<lparr>ev_route_change := True\<rparr>\<rparr>) = Some (b, w')"
    by (auto simp: join_handle_def route_changed_cb_def)
  show ?thesis by (rule scheduled_ok [OF s assms(2)]) (use assms(2) in \<open>simp_all add: join_inv_def\<close>)
next
  case (Ev_timeout lt)
  with assms(1) obtain b where s: "schedule_join lt end_cb (w\<lparr>jn_events := (jn_events w)\<lparr>ev_timeout := True\<rparr>\<rparr>) = Some (b, w')"
    by (auto simp: join_handle_def join_timeout_task_def split: bind_splits)
  show ?thesis by (rule scheduled_ok [OF s assms(2)]) (use assms(2) in \<open>simp_all add: join_inv_def\<close>)
qed

lemma exec_bound:
  assumes "join_exec end_cb evs w = Some (n, w')" "join_inv w"
  shows "join_inv w' \<and> n + join_left w' \<le> join_left w \<and>
     (in_session w \<and> \<not> in_session w' \<longrightarrow> end_calls w < end_calls w') \<and> end_calls w \<le> end_calls w'"
  using assms
proof (induction evs arbitrary: w n)
  case Nil
  then show ?case by simp
next
  case (Cons ev evs)
  from Cons.prems(1) obtain w1 m where s: "join_handle end_cb ev w = Some w1" "join_exec end_cb evs w1 = Some (m, w')"
      "n = (if jn_state w1 = jn_state w \<and> jn_retry w1 = jn_retry w then m else m + 1)"
    by (auto split: bind_splits)
  have ok: "join_ok w w1" by (rule handle_ok [OF s(1) Cons.prems(2)])
  then have "join_inv w1" by (simp add: join_ok_def)
  from Cons.IH [OF s(2) this] have IH: "join_inv w'" "m + join_left w' \<le> join_left w1" "end_calls w1 \<le> end_calls w'"
      "in_session w1 \<and> \<not> in_session w' \<longrightarrow> end_calls w1 < end_calls w'" by auto
  have "jn_state w1 = jn_state w \<and> jn_retry w1 = jn_retry w \<longrightarrow> join_left w1 = join_left w"
    using ok by (simp add: join_ok_def join_left_def in_session_def nb_retry_def)
  with IH s(3) ok show ?case by (auto simp: join_ok_def)
qed

end

text \<open>The handlers return, as long as the callback of the client does: \<open>R\<close> is the
  condition on the task table under which it returns.\<close>

definition beacons_ok :: "joining_beacon list \<Rightarrow> bool" where
  "beacons_ok buf \<longleftrightarrow> (\<exists>is. beacon_chain buf (Some 0) (0 # is) \<and> distinct (0 # is))"

definition event_ok :: "join_event \<Rightarrow> bool" where
  "event_ok ev \<longleftrightarrow> (case ev of Ev_scan lt buf n \<Rightarrow> beacons_ok buf | _ \<Rightarrow> True)"

definition join_ready :: "(prov_task sched \<Rightarrow> bool) \<Rightarrow> 'a joining_scheme \<Rightarrow> bool" where
  "join_ready R w \<longleftrightarrow> R (jn_sched w) \<and> jn_buffer w \<noteq> [] \<and>
     (\<exists>conf cb. jn_conf w = Some conf \<and> jc_joining_cb conf = Some cb) \<and>
     (jn_state w = JOIN_STATE_WAIT_SCAN_END \<longrightarrow> beacons_ok (jn_buffer w))"

locale joining_returns = joining_client end_cb for end_cb :: "'a end_cb" +
  fixes R :: "prov_task sched \<Rightarrow> bool"
  assumes R_add: "R s \<Longrightarrow> f \<in> {JOIN_run_state_machine, JOIN_timeout_task} \<Longrightarrow> R (snd (App_Scheduler_addTask_execTime lt s (Some f) d e))"
    and R_cancel: "R s \<Longrightarrow> R (snd (App_Scheduler_cancelTask s cb))"
    and end_cb_returns: "R (jn_sched w) \<Longrightarrow> jn_state w = JOIN_STATE_IDLE \<Longrightarrow>
      \<exists>w'. end_cb res w = Some w' \<and> R (jn_sched w') \<and> jn_buffer w' = jn_buffer w"
begin

lemma add_task_R:
  assumes "R (jn_sched w)" "f \<in> {JOIN_run_state_machine, JOIN_timeout_task}"
  obtains b s where "jn_add_task lt f d w = (b, w\<lparr>jn_sched := s\<rparr>)" "R s"
  using R_add [OF assms, of lt d 500] that
  by (cases "App_Scheduler_addTask_execTime lt (jn_sched w) (Some f) d 500") (auto simp: jn_add_task_def)

lemma reset_joining_sched [simp]: "jn_buffer (reset_joining b w) = jn_buffer w" "R (jn_sched w) \<Longrightarrow> R (jn_sched (reset_joining b w))"
  by (auto simp: reset_joining_def Let_def jn_unsubscribe_def jn_cancel_task_def jn_log_def R_cancel)

lemma end_joining_returns:
  assumes "jn_conf w = Some conf" "R (jn_sched w)"
  shows "\<exists>w'. end_joining end_cb res w = Some w' \<and> R (jn_sched w') \<and> jn_buffer w' = jn_buffer w"
proof -
  let ?w = "jn_log (End_cb res) (reset_joining True w)"
  have "R (jn_sched ?w)" "jn_state ?w = JOIN_STATE_IDLE" "jn_buffer ?w = jn_buffer w" using assms by simp_all
  from end_cb_returns [OF this(1,2), of res] this(3) show ?thesis
    using assms by (auto simp: end_joining_def call_end_cb_def)
qed

lemma schedule_returns:
  assumes "jn_conf w = Some conf" "R (jn_sched w)"
  shows "\<exists>b w'. schedule_join lt end_cb w = Some (b, w') \<and> R (jn_sched w') \<and> jn_buffer w' = jn_buffer w"
proof -
  obtain b s where a: "jn_add_task lt JOIN_run_state_machine APP_SCHEDULER_SCHEDULE_ASAP w = (b, w\<lparr>jn_sched := s\<rparr>)" "R s"
    using add_task_R [OF assms(2), of JOIN_run_state_machine lt APP_SCHEDULER_SCHEDULE_ASAP] by auto
  show ?thesis
  proof (cases b)
    case True
    with a show ?thesis by (auto simp: schedule_join_def)
  next
    case False
    from end_joining_returns [of "w\<lparr>jn_sched := s\<rparr>" conf PROV_RES_ERROR_INTERNAL] assms a(2)
    show ?thesis using False a(1) by (auto simp: schedule_join_def)
  qed
qed

lemma wait_timeout_returns:
  assumes "jn_conf w = Some conf" "R (jn_sched w)"
  shows "\<exists>w'. join_wait_timeout env end_cb w = Some w' \<and> R (jn_sched w') \<and> jn_buffer w' = jn_buffer w"
proof -
  obtain b s where a: "jn_add_task (je_time env) JOIN_timeout_task DELAY_WAIT_END_JOINING_MS w = (b, w\<lparr>jn_sched := s\<rparr>)" "R s"
    using add_task_R [OF assms(2), of JOIN_timeout_task "je_time env" DELAY_WAIT_END_JOINING_MS] by auto
  show ?thesis
  proof (cases b)
    case True
    with a show ?thesis by (simp add: join_wait_timeout_def)
  next
    case False
    from end_joining_returns [of "w\<lparr>jn_sched := s\<rparr>" conf PROV_RES_ERROR_INTERNAL] assms a(2)
    show ?thesis using False a(1) by (auto simp: join_wait_timeout_def)
  qed
qed

lemma retry_returns:
  assumes "jn_conf w = Some conf" "R (jn_sched w)"
  shows "\<exists>b w'. join_retry end_cb res w = Some (b, w') \<and> R (jn_sched w') \<and> jn_buffer w' = jn_buffer w \<and>
     jn_state w' = (if b then JOIN_STATE_IDLE else jn_state w)"
  using end_joining_returns [of "w\<lparr>jn_retry := jn_retry w + 1\<rparr>" conf res] assms
  by (auto simp: join_retry_def Let_def dest: ended_joining(1))

lemma start_returns:
  assumes "join_ready R w"
  shows "\<exists>d w'. join_state_start env end_cb w = Some (d, w') \<and> R (jn_sched w') \<and> jn_buffer w' \<noteq> [] \<and> beacons_ok (jn_buffer w')"
proof -
  define w1 where "w1 = jn_log StartJoiningBeaconRx ((jn_log StopJoiningBeaconRx w)
     \<lparr>jn_buffer := map (\<lambda>_. zero_beacon) (jn_buffer w)\<rparr>)"
  obtain conf where c: "jn_conf w1 = Some conf" "R (jn_sched w1)" using assms by (auto simp: w1_def join_ready_def)
  have "0 < length (jn_buffer w1)" "jn_buffer w1 ! 0 = zero_beacon" using assms by (auto simp: w1_def join_ready_def)
  then have buf: "jn_buffer w1 \<noteq> [] \<and> beacons_ok (jn_buffer w1)"
    unfolding beacons_ok_def by (auto simp: zero_beacon_def intro!: exI [of _ "[]"])
  obtain b s where a: "jn_add_task (je_time env) JOIN_timeout_task DELAY_WAIT_END_SCAN_MS w1 = (b, w1\<lparr>jn_sched := s\<rparr>)" "R s"
    using add_task_R [OF c(2), of JOIN_timeout_task "je_time env" DELAY_WAIT_END_SCAN_MS] by auto
  obtain b' w2 where r: "join_retry end_cb PROV_RES_ERROR_SCANNING_BEACONS w1 = Some (b', w2)" "R (jn_sched w2)" "jn_buffer w2 = jn_buffer w1"
    using retry_returns [OF c] by blast
  obtain w3 where e: "end_joining end_cb PROV_RES_ERROR_INTERNAL (w1\<lparr>jn_sched := s\<rparr>) = Some w3" "R (jn_sched w3)" "jn_buffer w3 = jn_buffer w1"
    using end_joining_returns [of "w1\<lparr>jn_sched := s\<rparr>" conf] c a(2) by auto
  have w1': "jn_log StartJoiningBeaconRx ((jn_log StopJoiningBeaconRx w)
     \<lparr>jn_buffer := map (\<lambda>_. zero_beacon) (jn_buffer (jn_log StopJoiningBeaconRx w))\<rparr>) = w1" by (simp add: w1_def)
  show ?thesis
    unfolding join_state_start_def Let_def w1' using a e r buf by (cases b) auto
qed

lemma scan_returns:
  assumes "join_ready R w" "jn_state w = JOIN_STATE_WAIT_SCAN_END" "jn_conf w1 = jn_conf w" "jn_buffer w1 = jn_buffer w"
    "R (jn_sched w1)"
  shows "\<exists>res d w'. scan_result env end_cb w1 = Some (res, d, w') \<and> R (jn_sched w') \<and> jn_buffer w' \<noteq> []"
proof -
  from assms obtain conf cb where c: "jn_conf w1 = Some conf" "jc_joining_cb conf = Some cb" by (auto simp: join_ready_def)
  obtain "is" where chain: "beacon_chain (jn_buffer w1) (Some 0) (0 # is)" "distinct (0 # is)"
    using assms by (auto simp: join_ready_def beacons_ok_def)
  obtain buf start where s: "sort_provisioning_beacons (jn_buffer w1) (Some 0) = Some (buf, start)"
      "map jb_type buf = map jb_type (jn_buffer w1)"
    using sort_beacons [OF chain] by blast
  have ne: "buf \<noteq> []" using s(2) assms(1,4) by (auto simp: join_ready_def)
  have "\<exists>res d w'. join_beacon env end_cb beacon (w1\<lparr>jn_buffer := buf\<rparr>) = Some (res, d, w') \<and> R (jn_sched w') \<and> jn_buffer w' \<noteq> []"
    for beacon
  proof -
    define w2 where "w2 = w1\<lparr>jn_buffer := buf\<rparr>"
    let ?c = "StartJoiningProcess (jb_addr beacon) (jb_channel beacon)"
    have w2: "jn_conf w2 = Some conf" "R (jn_sched w2)" "jn_buffer w2 = buf" using c assms by (simp_all add: w2_def)
    obtain w3 where w3: "join_wait_timeout env end_cb ((jn_subscribe (jn_log ?c w2))\<lparr>jn_state := JOIN_STATE_WAIT_ROUTE_CHANGE\<rparr>) = Some w3"
        "R (jn_sched w3)" "jn_buffer w3 = buf"
      using wait_timeout_returns [of "(jn_subscribe (jn_log ?c w2))\<lparr>jn_state := JOIN_STATE_WAIT_ROUTE_CHANGE\<rparr>" conf env] w2
      by (auto simp: jn_subscribe_def)
    obtain w4 where w4: "join_wait_timeout env end_cb (w2\<lparr>jn_events := (jn_events w2)\<lparr>ev_route_change := True\<rparr>,
          jn_state := JOIN_STATE_WAIT_ROUTE_CHANGE\<rparr>) = Some w4" "R (jn_sched w4)" "jn_buffer w4 = buf"
      using wait_timeout_returns [of "w2\<lparr>jn_events := (jn_events w2)\<lparr>ev_route_change := True\<rparr>, jn_state := JOIN_STATE_WAIT_ROUTE_CHANGE\<rparr>" conf env] w2
      by auto
    show ?thesis unfolding w2_def [symmetric] join_beacon_def Let_def using w2 w3 w4 ne by (auto split: prod.splits)
  qed
  then show ?thesis using c s ne assms by (auto simp: scan_result_def Let_def split: option.splits)
qed

lemma scan_result_state:
  assumes "scan_result env end_cb w = Some (res, d, w')"
  shows "jn_conf w' = jn_conf w" "res = PROV_RES_SUCCESS \<Longrightarrow> jn_state w' \<noteq> JOIN_STATE_WAIT_SCAN_END"
proof -
  have wait: "jn_conf w' = jn_conf w1 \<and> (jn_state w' = jn_state w1 \<or> jn_state w' = JOIN_STATE_IDLE)"
    if "join_wait_timeout env end_cb w1 = Some w'" for w1
    using that by (cases rule: jn_add_task_cases [of "je_time env" JOIN_timeout_task DELAY_WAIT_END_JOINING_MS w1])
      (auto simp: join_wait_timeout_def split: if_splits bool.splits dest: ended_joining(1,5))
  show "jn_conf w' = jn_conf w" using assms
    by (auto simp: scan_result_def join_beacon_def Let_def split: bind_splits if_splits option.splits prod.splits dest!: wait)
  show "jn_state w' \<noteq> JOIN_STATE_WAIT_SCAN_END" if "res = PROV_RES_SUCCESS" using assms that
    by (auto simp: scan_result_def join_beacon_def Let_def split: bind_splits if_splits option.splits prod.splits dest!: wait)
qed

lemma scan_end_returns:
  assumes "join_ready R w" "jn_state w = JOIN_STATE_WAIT_SCAN_END"
  shows "\<exists>d w'. join_state_wait_scan_end env end_cb w = Some (d, w') \<and> R (jn_sched w') \<and> jn_buffer w' \<noteq> [] \<and>
     (jn_state w' = JOIN_STATE_WAIT_SCAN_END \<longrightarrow> jn_buffer w' = jn_buffer w)"
proof -
  let ?w = "(jn_cancel_task JOIN_timeout_task w)\<lparr>jn_events := no_join_events\<rparr>"
  obtain conf where conf: "jn_conf w = Some conf" using assms by (auto simp: join_ready_def)
  have "R (jn_sched ?w)" using assms by (simp add: jn_cancel_task_def join_ready_def R_cancel)
  then obtain res d w1 where s: "scan_result env end_cb ?w = Some (res, d, w1)" "R (jn_sched w1)" "jn_buffer w1 \<noteq> []"
    using scan_returns [OF assms, of ?w env] by auto
  note st = scan_result_state [OF s(1)]
  have "\<exists>res d w1. (if ev_scan_end (jn_events w) then scan_result env end_cb ?w
          else if ev_timeout (jn_events w) then Some (PROV_RES_TIMEOUT, APP_SCHEDULER_STOP_TASK, w)
          else Some (PROV_RES_SUCCESS, APP_SCHEDULER_STOP_TASK, w)) = Some (res, d, w1) \<and>
      R (jn_sched w1) \<and> jn_buffer w1 \<noteq> [] \<and> jn_conf w1 = Some conf \<and>
      (res = PROV_RES_SUCCESS \<longrightarrow> jn_state w1 \<noteq> JOIN_STATE_WAIT_SCAN_END \<or> w1 = w)"
    using s st assms conf by (auto simp: join_ready_def)
  then obtain res d w1 where f: "(if ev_scan_end (jn_events w) then scan_result env end_cb ?w
          else if ev_timeout (jn_events w) then Some (PROV_RES_TIMEOUT, APP_SCHEDULER_STOP_TASK, w)
          else Some (PROV_RES_SUCCESS, APP_SCHEDULER_STOP_TASK, w)) = Some (res, d, w1)"
      "R (jn_sched w1)" "jn_buffer w1 \<noteq> []" "jn_conf w1 = Some conf"
      "res = PROV_RES_SUCCESS \<longrightarrow> jn_state w1 \<noteq> JOIN_STATE_WAIT_SCAN_END \<or> w1 = w" by blast
  obtain b w2 where r: "join_retry end_cb res w1 = Some (b, w2)" "R (jn_sched w2)" "jn_buffer w2 = jn_buffer w1"
      "jn_state w2 = (if b then JOIN_STATE_IDLE else jn_state w1)"
    using retry_returns [OF f(4,2)] by blast
  show ?thesis unfolding join_state_wait_scan_end_def f(1) using f r by (auto simp: Let_def)
qed

lemma route_returns:
  assumes "join_ready R w" "jn_state w = JOIN_STATE_WAIT_ROUTE_CHANGE"
  shows "\<exists>d w'. join_state_wait_route_change env end_cb w = Some (d, w') \<and> R (jn_sched w') \<and> jn_buffer w' \<noteq> [] \<and>
     jn_state w' \<noteq> JOIN_STATE_WAIT_SCAN_END"
proof -
  obtain conf where conf: "jn_conf w = Some conf" using assms by (auto simp: join_ready_def)
  let ?w = "jn_log (End_cb PROV_RES_SUCCESS) (reset_joining False (jn_unsubscribe (jn_cancel_task JOIN_timeout_task w)))"
  have "R (jn_sched ?w)" "jn_state ?w = JOIN_STATE_IDLE" "jn_buffer ?w \<noteq> []"
    using assms by (simp_all add: jn_cancel_task_def join_ready_def R_cancel) (simp add: jn_unsubscribe_def)
  then obtain w1 where e: "end_cb PROV_RES_SUCCESS ?w = Some w1" "R (jn_sched w1)" "jn_buffer w1 \<noteq> []"
    using end_cb_returns [of ?w PROV_RES_SUCCESS] by auto
  have k: "jn_state w1 = JOIN_STATE_IDLE" "\<not> ev_timeout (jn_events w1)" using end_cb_keeps [OF e(1)] by simp_all
  let ?v = "jn_unsubscribe (w\<lparr>jn_events := (jn_events w)\<lparr>ev_route_change := False\<rparr>\<rparr>)"
  obtain b1 v1 where r1: "join_retry end_cb PROV_RES_ERROR_NO_ROUTE ?v = Some (b1, v1)" "R (jn_sched v1)" "jn_buffer v1 = jn_buffer w"
      "jn_state v1 = (if b1 then JOIN_STATE_IDLE else jn_state w)"
    using retry_returns [of ?v conf PROV_RES_ERROR_NO_ROUTE] conf assms by (auto simp: join_ready_def jn_unsubscribe_def)
  show ?thesis using e k r1 conf assms
    by (auto simp: join_state_wait_route_change_def call_end_cb_def join_ready_def)
qed

lemma handle_returns:
  assumes inv: "join_inv w" and ready: "join_ready R w" and ev: "event_ok ev"
  shows "\<exists>w'. join_handle end_cb ev w = Some w' \<and> join_inv w' \<and> join_ready R w'"
proof -
  obtain conf cb where c: "jn_conf w = Some conf" "jc_joining_cb conf = Some cb" using ready by (auto simp: join_ready_def)
  have "\<exists>w'. join_handle end_cb ev w = Some w' \<and> R (jn_sched w') \<and> jn_buffer w' \<noteq> [] \<and>
      (jn_state w' = JOIN_STATE_WAIT_SCAN_END \<longrightarrow> beacons_ok (jn_buffer w'))"
  proof (cases ev)
    case (Ev_run env)
    show ?thesis
    proof (cases "jn_state w")
      case JOIN_STATE_IDLE
      then show ?thesis using Ev_run inv ready
        by (auto simp: join_handle_def join_run_state_machine_def join_state_idle_def Let_def join_inv_def join_ready_def jn_cancel_task_def R_cancel)
    next
      case JOIN_STATE_START
      then show ?thesis using Ev_run start_returns [OF ready, of env]
        by (auto simp: join_handle_def join_run_state_machine_def)
    next
      case JOIN_STATE_WAIT_SCAN_END
      then show ?thesis using Ev_run scan_end_returns [OF ready, of env] ready
        by (auto simp: join_handle_def join_run_state_machine_def join_ready_def)
    next
      case JOIN_STATE_WAIT_ROUTE_CHANGE
      then show ?thesis using Ev_run route_returns [OF ready, of env]
        by (auto simp: join_handle_def join_run_state_machine_def)
    qed (use inv in \<open>simp add: join_inv_def\<close>)
  next
    case (Ev_scan lt buf n)
    then have "beacons_ok buf" "buf \<noteq> []" using ev by (auto simp: event_ok_def beacons_ok_def)
    then show ?thesis using Ev_scan schedule_returns [of "w\<lparr>jn_buffer := buf, jn_num_beacons := n,
        jn_events := (jn_events w)\<lparr>ev_scan_end := True\<rparr>\<rparr>" conf lt] c ready
      by (auto simp: join_handle_def joining_beacon_rx_cb_def join_ready_def)
  next
    case (Ev_route lt)
    obtain b w' where s: "schedule_join lt end_cb (w\<lparr>jn_events := (jn_events w)\<lparr>ev_route_change := True\<rparr>\<rparr>) = Some (b, w')"
        "R (jn_sched w')" "jn_buffer w' = jn_buffer w"
      using schedule_returns [of "w\<lparr>jn_events := (jn_events w)\<lparr>ev_route_change := True\<rparr>\<rparr>" conf lt] c ready
      by (auto simp: join_ready_def)
    then show ?thesis using Ev_route scheduled_state [OF s(1)] ready by (auto simp: join_handle_def route_changed_cb_def join_ready_def)
  next
    case (Ev_timeout lt)
    obtain b w' where s: "schedule_join lt end_cb (w\<lparr>jn_events := (jn_events w)\<lparr>ev_timeout := True\<rparr>\<rparr>) = Some (b, w')"
        "R (jn_sched w')" "jn_buffer w' = jn_buffer w"
      using schedule_returns [of "w\<lparr>jn_events := (jn_events w)\<lparr>ev_timeout := True\<rparr>\<rparr>" conf lt] c ready
      by (auto simp: join_ready_def)
    then show ?thesis using Ev_timeout scheduled_state [OF s(1)] ready by (auto simp: join_handle_def join_timeout_task_def join_ready_def)
  qed
  then obtain w' where w': "join_handle end_cb ev w = Some w'" "R (jn_sched w')" "jn_buffer w' \<noteq> []"
      "jn_state w' = JOIN_STATE_WAIT_SCAN_END \<longrightarrow> beacons_ok (jn_buffer w')" by blast
  then show ?thesis using handle_ok [OF w'(1) inv] c by (auto simp: join_ok_def join_ready_def)
qed

lemma exec_returns:
  assumes "join_inv w" "join_ready R w" "list_all event_ok evs"
  shows "\<exists>n w'. join_exec end_cb evs w = Some (n, w')"
  using assms
proof (induction evs arbitrary: w)
  case Nil
  then show ?case by simp
next
  case (Cons ev evs)
  obtain w1 where w1: "join_handle end_cb ev w = Some w1" "join_inv w1" "join_ready R w1"
    using handle_returns [OF Cons.prems(1,2), of ev] Cons.prems(3) by auto
  with Cons.IH [OF w1(2,3)] Cons.prems(3) show ?case by auto
qed

end

subsection \<open>Errors of the code\<close>

text \<open>With 255 retries configured the counter wraps around before it exceeds the limit.\<close>

lemma retries_without_end:
  assumes "jn_conf w = Some conf" "jc_nb_retry conf = 255"
  shows "join_retry end_cb res w = Some (False, w\<lparr>jn_retry := jn_retry w + 1\<rparr>)"
proof -
  have "\<not> (255 :: u8) < x" for x using unat_lt_8 [of x] by (simp add: word_less_nat_alt)
  then show ?thesis using assms by (simp add: join_retry_def)
qed

text \<open>When the timeout task of a scan cannot be added, the session ends with an error, but
  the state machine stays in the state that waits for the end of the scan, where the next
  session cannot be started.\<close>

lemma failed_scan_blocks_restart:
  assumes "jn_state w = JOIN_STATE_START" "je_startJoiningBeaconRx env = APP_RES_OK"
    and f: "fst (App_Scheduler_addTask_execTime (je_time env) (jn_sched w) (Some JOIN_timeout_task) DELAY_WAIT_END_SCAN_MS 500) \<noteq>
      APP_SCHEDULER_RES_OK"
    and "join_run_state_machine env end_cb w = Some (d, w')"
  shows "d = APP_SCHEDULER_STOP_TASK \<and> Provisioning_Joining_start lt end_cb w' = Some (PROV_RET_INVALID_STATE, w')"
proof -
  define w1 where "w1 = jn_log StartJoiningBeaconRx
      ((jn_log StopJoiningBeaconRx w)\<lparr>jn_buffer := map (\<lambda>_. zero_beacon) (jn_buffer w)\<rparr>)"
  have "jn_sched w1 = jn_sched w" by (simp add: w1_def)
  then obtain w2 where "jn_add_task (je_time env) JOIN_timeout_task DELAY_WAIT_END_SCAN_MS w1 = (False, w2)"
    using f by (cases "App_Scheduler_addTask_execTime (je_time env) (jn_sched w) (Some JOIN_timeout_task) DELAY_WAIT_END_SCAN_MS 500")
      (auto simp: jn_add_task_def)
  with assms show ?thesis
    by (auto simp: join_run_state_machine_def join_state_start_def Let_def Provisioning_Joining_start_def w1_def split: bind_splits)
qed

end
