(* ===== verification/Prov_Data.thy ===== *)
theory Prov_Data
  imports Prov_Joining
begin

text \<open>
  \<open>libraries/provisioning/data.c\<close>: decoding of the provisioning data, a CBOR map from
  item numbers to values, into the network parameters, which are applied at the restart.

  The iterator of the vendored tinycbor is a stream of values: advancing gives the number of
  an error or the rest of the stream.  The parser itself is a parameter, a function of the bytes.  The
  accessors of single values (\<open>cbor_value_get_uint64\<close>, \<open>cbor_value_copy_byte_string\<close>
  and so on) are as documented: strings are copied when they fit.  The checks of the settings library are the
  parameter \<open>settings_lib\<close>, calls of the client are recorded.
\<close>

subsection \<open>CBOR values\<close>

datatype cbor_error =
  CborNoError | CborErrorIllegalType | CborErrorDataTooLarge | CborErrorImproperValue | CborErrorTooFewItems
| CborErrorUnknownType | CborErrorOutOfMemory | CborErrorOther nat

datatype cbor_value =
  Cbor_uint "64 word" | Cbor_negint "64 word" | Cbor_bytes "u8 list" | Cbor_text "u8 list" | Cbor_simple u8 | Cbor_bool bool
| Cbor_double "64 word" | Cbor_float u32 | Cbor_half u16 | Cbor_nested

datatype cbor_stream = At_end | Item cbor_value "nat + cbor_stream"

text \<open>Entering the buffer: \<open>cbor_parser_init\<close>, \<open>cbor_value_is_map\<close> and
  \<open>cbor_value_enter_container\<close>.\<close>

datatype cbor_top = Init_error cbor_error | Not_a_map | Enter_error cbor_error | Map cbor_stream

type_synonym cbor_parser = "u8 list \<Rightarrow> cbor_top"

definition cbor_current :: "cbor_stream \<Rightarrow> cbor_value option" where
  "cbor_current v = (case v of At_end \<Rightarrow> None | Item c _ \<Rightarrow> Some c)"

text \<open>\<open>cbor_value_copy_byte_string\<close>: the bytes, with a zero behind them when there is room.\<close>

definition cbor_copy :: "u8 list \<Rightarrow> u8 list \<Rightarrow> cbor_error \<times> u8 list" where
  "cbor_copy bs buffer =
     (if length bs \<le> length buffer
      then (CborNoError, bs @ (if length bs < length buffer then 0 # drop (length bs + 1) buffer else []))
      else (CborErrorOutOfMemory, buffer))"

subsection \<open>Data\<close>

record provisioning_data =
  pd_enc_key :: "u8 list"
  pd_is_enc_key_set :: bool
  pd_auth_key :: "u8 list"
  pd_is_auth_key_set :: bool
  pd_net_addr :: u32
  pd_net_chan :: u8
  pd_node_addr :: u32
  pd_node_role :: u8

definition INVALID_NET_ADDR :: u32 where "INVALID_NET_ADDR = 0"
definition INVALID_NET_CHAN :: u8 where "INVALID_NET_CHAN = 0"
definition INVALID_NODE_ADDR :: u32 where "INVALID_NODE_ADDR = 0"
definition INVALID_NODE_ROLE :: u8 where "INVALID_NODE_ROLE = 0xFF"

record settings_lib =
  isValidNetworkAddress :: "u32 \<Rightarrow> bool"
  isValidNetworkChannel :: "u8 \<Rightarrow> bool"
  isValidNodeAddress :: "u32 \<Rightarrow> bool"
  isValidNodeRole :: "u8 \<Rightarrow> bool"

definition MAX_STRING_BUFFER_SIZE :: nat where "MAX_STRING_BUFFER_SIZE = 94"

subsection \<open>Extraction\<close>

text \<open>Result: the error, the buffer and the length of the string.\<close>

definition extract_byte_string :: "cbor_value option \<Rightarrow> u8 list \<Rightarrow> cbor_error \<times> u8 list \<times> nat" where
  "extract_byte_string v buffer =
     (case v of
        Some (Cbor_bytes bs) \<Rightarrow> (case cbor_copy bs buffer of (err, buffer) \<Rightarrow> (err, buffer, length bs))
      | _ \<Rightarrow> (CborErrorIllegalType, buffer, length buffer))"

text \<open>The limit \<open>(2<<(size*8)) - 1\<close>, computed on signed 32-bit integers: for four bytes
  and more the shift is undefined, and \<open>ub\<close> is what the compiler makes of it.\<close>

definition uint_limit :: "64 word \<Rightarrow> nat \<Rightarrow> 64 word" where
  "uint_limit ub sz = (if sz * 8 < 30 then push_bit (sz * 8) 2 - 1 else ub)"

definition extract_unsigned_int :: "64 word \<Rightarrow> cbor_value option \<Rightarrow> nat \<Rightarrow> cbor_error + 64 word" where
  "extract_unsigned_int ub v sz =
     (case v of
        Some (Cbor_uint val) \<Rightarrow>
          if sz = 8 then Inr val
          else if sz = 0 then Inl CborErrorDataTooLarge
          else if sz > 8 \<or> val > uint_limit ub sz then Inl CborErrorDataTooLarge
          else Inr (take_bit (8 * sz) val)
      | _ \<Rightarrow> Inl CborErrorIllegalType)"

definition parse_enc_key :: "cbor_value option \<Rightarrow> provisioning_data \<Rightarrow> cbor_error \<times> provisioning_data" where
  "parse_enc_key v d =
     (case extract_byte_string v (pd_enc_key d) of (err, key, len) \<Rightarrow>
        (let d = d\<lparr>pd_enc_key := key\<rparr>
         in if err \<noteq> CborNoError then (err, d)
            else if len \<noteq> 16 then (CborErrorImproperValue, d)
            else (err, d\<lparr>pd_is_enc_key_set := True\<rparr>)))"

definition parse_auth_key :: "cbor_value option \<Rightarrow> provisioning_data \<Rightarrow> cbor_error \<times> provisioning_data" where
  "parse_auth_key v d =
     (case extract_byte_string v (pd_auth_key d) of (err, key, len) \<Rightarrow>
        (let d = d\<lparr>pd_auth_key := key\<rparr>
         in if err \<noteq> CborNoError then (err, d)
            else if len \<noteq> 16 then (CborErrorImproperValue, d)
            else (err, d\<lparr>pd_is_auth_key_set := True\<rparr>)))"

definition parse_net_address :: "64 word \<Rightarrow> settings_lib \<Rightarrow> cbor_value option \<Rightarrow> provisioning_data \<Rightarrow> cbor_error \<times> provisioning_data" where
  "parse_net_address ub lib v d =
     (case extract_unsigned_int ub v 4 of
        Inl err \<Rightarrow> (err, d)
      | Inr x \<Rightarrow>
          (if isValidNetworkAddress lib (ucast x) then (CborNoError, d\<lparr>pd_net_addr := ucast x\<rparr>)
           else (CborErrorImproperValue, d\<lparr>pd_net_addr := INVALID_NET_ADDR\<rparr>)))"

definition parse_net_channel :: "64 word \<Rightarrow> settings_lib \<Rightarrow> cbor_value option \<Rightarrow> provisioning_data \<Rightarrow> cbor_error \<times> provisioning_data" where
  "parse_net_channel ub lib v d =
     (case extract_unsigned_int ub v 1 of
        Inl err \<Rightarrow> (err, d)
      | Inr x \<Rightarrow>
          (if isValidNetworkChannel lib (ucast x) then (CborNoError, d\<lparr>pd_net_chan := ucast x\<rparr>)
           else (CborErrorImproperValue, d\<lparr>pd_net_chan := INVALID_NET_CHAN\<rparr>)))"

definition parse_node_address :: "64 word \<Rightarrow> settings_lib \<Rightarrow> cbor_value option \<Rightarrow> provisioning_data \<Rightarrow> cbor_error \<times> provisioning_data" where
  "parse_node_address ub lib v d =
     (case extract_unsigned_int ub v 4 of
        Inl err \<Rightarrow> (err, d)
      | Inr x \<Rightarrow>
          (if isValidNodeAddress lib (ucast x) then (CborNoError, d\<lparr>pd_node_addr := ucast x\<rparr>)
           else (CborErrorImproperValue, d\<lparr>pd_node_addr := INVALID_NODE_ADDR\<rparr>)))"

definition parse_node_role :: "settings_lib \<Rightarrow> cbor_value option \<Rightarrow> provisioning_data \<Rightarrow> cbor_error \<times> provisioning_data" where
  "parse_node_role lib v d =
     (case extract_byte_string v [pd_node_role d] of (err, role, len) \<Rightarrow>
        (let d = d\<lparr>pd_node_role := role ! 0\<rparr>
         in if err \<noteq> CborNoError then (err, d)
            else if len \<noteq> 1 \<or> \<not> isValidNodeRole lib (pd_node_role d)
            then (CborErrorImproperValue, d\<lparr>pd_node_role := INVALID_NODE_ROLE\<rparr>)
            else (err, d)))"

definition parse_wirepas_data :: "64 word \<Rightarrow> settings_lib \<Rightarrow> cbor_value option \<Rightarrow> nat \<Rightarrow> provisioning_data \<Rightarrow> cbor_error \<times> provisioning_data" where
  "parse_wirepas_data ub lib v idn d =
     (if idn = 0 then parse_enc_key v d
      else if idn = 1 then parse_auth_key v d
      else if idn = 2 then parse_net_address ub lib v d
      else if idn = 3 then parse_net_channel ub lib v d
      else if idn = 4 then parse_node_address ub lib v d
      else if idn = 5 then parse_node_role lib v d
      else (CborErrorImproperValue, d))"

text \<open>\<open>parse_user_data\<close>: the error; the callback gets the item and its value.\<close>

definition user_value_error :: "cbor_value option \<Rightarrow> cbor_error" where
  "user_value_error v =
     (case v of
        None \<Rightarrow> CborErrorUnknownType
      | Some Cbor_nested \<Rightarrow> CborErrorUnknownType
      | Some (Cbor_uint x) \<Rightarrow> if bit x 63 then CborErrorDataTooLarge else CborNoError
      | Some (Cbor_negint x) \<Rightarrow> if bit x 63 then CborErrorDataTooLarge else CborNoError
      | Some (Cbor_bytes bs) \<Rightarrow> if length bs \<le> MAX_STRING_BUFFER_SIZE then CborNoError else CborErrorOutOfMemory
      | Some (Cbor_text bs) \<Rightarrow> if length bs \<le> MAX_STRING_BUFFER_SIZE then CborNoError else CborErrorOutOfMemory
      | Some _ \<Rightarrow> CborNoError)"

definition parse_user_data :: "bool \<Rightarrow> cbor_value option \<Rightarrow> nat \<Rightarrow> (nat \<times> cbor_value) list \<Rightarrow> cbor_error \<times> (nat \<times> cbor_value) list" where
  "parse_user_data cb v idn calls =
     (let err = user_value_error v
      in if err \<noteq> CborNoError then (err, calls)
         else (err, if cb then calls @ [(idn, the v)] else calls))"

subsection \<open>The map\<close>

fun parse_loop :: "64 word \<Rightarrow> settings_lib \<Rightarrow> bool \<Rightarrow> cbor_stream \<Rightarrow> provisioning_data \<Rightarrow> (nat \<times> cbor_value) list \<Rightarrow>
    cbor_error \<times> provisioning_data \<times> (nat \<times> cbor_value) list" where
  "parse_loop ub lib cb At_end d calls = (CborNoError, d, calls)"
| "parse_loop ub lib cb (Item k nxt) d calls =
     (case k of
        Cbor_uint x \<Rightarrow>
          if unat x \<ge> 2 ^ 31 then (CborErrorDataTooLarge, d, calls)
          else (case nxt of
              Inl err \<Rightarrow> (CborErrorOther err, d, calls)
            | Inr v \<Rightarrow>
                (let idn = unat x;
                     (err, d, calls) =
                       (if idn \<le> 5 then
                          (case parse_wirepas_data ub lib (cbor_current v) idn d of (err, d) \<Rightarrow> (err, d, calls))
                        else if 128 \<le> idn \<and> idn \<le> 255 then
                          (case parse_user_data cb (cbor_current v) idn calls of (err, calls) \<Rightarrow> (err, d, calls))
                        else (CborErrorImproperValue, d, calls))
                 in if err \<noteq> CborNoError then (err, d, calls)
                    else (case v of
                        At_end \<Rightarrow> (CborErrorOther 0, d, calls)
                      | Item _ (Inl err) \<Rightarrow> (CborErrorOther err, d, calls)
                      | Item _ (Inr rest) \<Rightarrow> parse_loop ub lib cb rest d calls)))
      | _ \<Rightarrow> (CborErrorIllegalType, d, calls))"

definition parse_map :: "64 word \<Rightarrow> settings_lib \<Rightarrow> bool \<Rightarrow> cbor_stream \<Rightarrow> provisioning_data \<Rightarrow> (nat \<times> cbor_value) list \<Rightarrow>
    cbor_error \<times> provisioning_data \<times> (nat \<times> cbor_value) list" where
  "parse_map ub lib cb v d calls =
     (let d = d\<lparr>pd_is_auth_key_set := False, pd_is_enc_key_set := False, pd_net_addr := INVALID_NET_ADDR,
            pd_net_chan := INVALID_NET_CHAN, pd_node_addr := INVALID_NODE_ADDR, pd_node_role := INVALID_NODE_ROLE\<rparr>
      in case parse_loop ub lib cb v d calls of (err, d, calls) \<Rightarrow>
           if err \<noteq> CborNoError then (err, d, calls)
           else if \<not> pd_is_enc_key_set d \<or> \<not> pd_is_auth_key_set d \<or> pd_net_addr d = INVALID_NET_ADDR \<or> pd_net_chan d = INVALID_NET_CHAN
           then (CborErrorTooFewItems, d, calls)
           else (CborNoError, d, calls))"

subsection \<open>Applying the data\<close>

datatype setting =
  Set_authentication_key "u8 list" | Set_encryption_key "u8 list" | Set_network_address u32 | Set_network_channel u8
| Set_node_address u32 | Set_node_role u8

definition apply_network_parameters :: "provisioning_data \<Rightarrow> setting list" where
  "apply_network_parameters d =
     [Set_authentication_key (pd_auth_key d), Set_encryption_key (pd_enc_key d)] @
     (if pd_net_addr d \<noteq> INVALID_NET_ADDR then [Set_network_address (pd_net_addr d)] else []) @
     (if pd_net_chan d \<noteq> INVALID_NET_CHAN then [Set_network_channel (pd_net_chan d)] else []) @
     (if pd_node_addr d \<noteq> INVALID_NODE_ADDR then [Set_node_address (pd_node_addr d)] else []) @
     (if pd_node_role d \<noteq> INVALID_NODE_ROLE then [Set_node_role (pd_node_role d)] else [])"

text \<open>The outcome of a decoding: a result, or the restart of the node with new settings
  (\<open>stopStack\<close> does not return).  \<open>dc_user_data_cb\<close> and \<open>dc_end_cb\<close> tell whether the
  callbacks are set and what the second answers.\<close>

record data_conf =
  dc_end_cb :: "bool option"
  dc_user_data_cb :: bool
  dc_buffer :: "u8 list"

datatype decode_out = Decoded provisioning_ret provisioning_data "(nat \<times> cbor_value) list" | Rebooted "setting list" "(nat \<times> cbor_value) list"

definition Provisioning_Data_decode :: "64 word \<Rightarrow> settings_lib \<Rightarrow> cbor_parser \<Rightarrow> data_conf \<Rightarrow> bool \<Rightarrow> provisioning_data \<Rightarrow> decode_out" where
  "Provisioning_Data_decode ub lib parser conf dry_run d =
     (if dc_buffer conf = [] then Decoded PROV_RET_INVALID_PARAM d []
      else case parser (dc_buffer conf) of
          Init_error err \<Rightarrow> Decoded PROV_RET_INVALID_DATA d []
        | Not_a_map \<Rightarrow> Decoded PROV_RET_INVALID_DATA d []
        | Enter_error err \<Rightarrow> Decoded PROV_RET_INVALID_DATA d []
        | Map v \<Rightarrow>
            if dry_run then
              (case parse_map ub lib False v d [] of (err, d, calls) \<Rightarrow>
                 if err \<noteq> CborNoError then Decoded PROV_RET_INVALID_DATA d calls else Decoded PROV_RET_OK d calls)
            else
              (case parse_map ub lib (dc_user_data_cb conf) v d [] of (err, d, calls) \<Rightarrow>
                 if err \<noteq> CborNoError then Decoded PROV_RET_INVALID_DATA d calls
                 else if dc_end_cb conf = Some True then Rebooted (apply_network_parameters d) calls
                 else Decoded PROV_RET_OK d calls))"

subsection \<open>What is decoded\<close>

text \<open>A well formed map as a list of items, and the items the decoder accepts.\<close>

fun stream_of :: "(nat \<times> cbor_value) list \<Rightarrow> cbor_stream" where
  "stream_of [] = At_end"
| "stream_of ((k, v) # items) = Item (Cbor_uint (of_nat k)) (Inr (Item v (Inr (stream_of items))))"

definition item_ok :: "64 word \<Rightarrow> settings_lib \<Rightarrow> nat \<times> cbor_value \<Rightarrow> bool" where
  "item_ok ub lib = (\<lambda>(k, v).
     if k = 0 \<or> k = 1 then (case v of Cbor_bytes bs \<Rightarrow> length bs = 16 | _ \<Rightarrow> False)
     else if k = 2 then (case v of Cbor_uint x \<Rightarrow> x \<le> ub \<and> isValidNetworkAddress lib (ucast x) | _ \<Rightarrow> False)
     else if k = 3 then (case v of Cbor_uint x \<Rightarrow> x \<le> 511 \<and> isValidNetworkChannel lib (ucast x) | _ \<Rightarrow> False)
     else if k = 4 then (case v of Cbor_uint x \<Rightarrow> x \<le> ub \<and> isValidNodeAddress lib (ucast x) | _ \<Rightarrow> False)
     else if k = 5 then (case v of Cbor_bytes bs \<Rightarrow> length bs = 1 \<and> isValidNodeRole lib (bs ! 0) | _ \<Rightarrow> False)
     else 128 \<le> k \<and> k \<le> 255 \<and> user_value_error (Some v) = CborNoError)"

lemma stream_of_inject:
  "stream_of items = stream_of items' \<Longrightarrow> list_all (item_ok ub lib) items \<Longrightarrow> list_all (item_ok ub' lib') items' \<Longrightarrow> items = items'"
proof (induction items arbitrary: items')
  case Nil
  then show ?case by (cases items') auto
next
  case (Cons i items)
  then obtain j items2 where j: "items' = j # items2" by (cases i; cases items') auto
  have "fst i < 256" "fst j < 256" using Cons.prems(2,3) j by (auto simp: item_ok_def split: prod.splits if_splits)
  then have "unat (of_nat (fst i) :: 64 word) = fst i" "unat (of_nat (fst j) :: 64 word) = fst j" by (simp_all add: unat_of_nat_small)
  moreover have "(of_nat (fst i) :: 64 word) = of_nat (fst j)" "snd i = snd j" "stream_of items = stream_of items2"
    using Cons.prems(1) j by (cases i, cases j, simp)+
  ultimately have "i = j" by (metis prod.collapse)
  then show ?case using Cons.IH [OF \<open>stream_of items = stream_of items2\<close>] Cons.prems(2,3) j by simp
qed

text \<open>What an accepted item does to the data.\<close>

definition store_item :: "nat \<times> cbor_value \<Rightarrow> provisioning_data \<Rightarrow> provisioning_data" where
  "store_item = (\<lambda>(k, v) d.
     case v of
       Cbor_bytes bs \<Rightarrow>
         if k = 0 then d\<lparr>pd_enc_key := bs, pd_is_enc_key_set := True\<rparr>
         else if k = 1 then d\<lparr>pd_auth_key := bs, pd_is_auth_key_set := True\<rparr>
         else if k = 5 then d\<lparr>pd_node_role := bs ! 0\<rparr>
         else d
     | Cbor_uint x \<Rightarrow>
         if k = 2 then d\<lparr>pd_net_addr := ucast x\<rparr>
         else if k = 3 then d\<lparr>pd_net_chan := ucast x\<rparr>
         else if k = 4 then d\<lparr>pd_node_addr := ucast x\<rparr>
         else d
     | _ \<Rightarrow> d)"

definition user_items :: "(nat \<times> cbor_value) list \<Rightarrow> (nat \<times> cbor_value) list" where
  "user_items items = filter (\<lambda>(k, v). 128 \<le> k) items"

definition keys_ok :: "provisioning_data \<Rightarrow> bool" where
  "keys_ok d \<longleftrightarrow> length (pd_enc_key d) = 16 \<and> length (pd_auth_key d) = 16"

definition no_data :: "provisioning_data \<Rightarrow> provisioning_data" where
  "no_data d = d\<lparr>pd_is_auth_key_set := False, pd_is_enc_key_set := False, pd_net_addr := INVALID_NET_ADDR,
            pd_net_chan := INVALID_NET_CHAN, pd_node_addr := INVALID_NODE_ADDR, pd_node_role := INVALID_NODE_ROLE\<rparr>"

lemma cut_u32: "ucast (take_bit 32 (x :: 64 word)) = (ucast x :: u32)"
  by (rule bit_word_eqI) (auto simp: bit_simps)

lemma cut_u8: "ucast (take_bit 8 (x :: 64 word)) = (ucast x :: u8)"
  by (rule bit_word_eqI) (auto simp: bit_simps)

lemma wirepas_item:
  assumes "keys_ok d" "k \<le> 5"
  shows "parse_wirepas_data ub lib v k d = (CborNoError, d') \<longleftrightarrow>
     (\<exists>c. v = Some c \<and> item_ok ub lib (k, c) \<and> d' = store_item (k, c) d)"
proof -
  consider "k = 0" | "k = 1" | "k = 2" | "k = 3" | "k = 4" | "k = 5" using assms(2) by linarith
  then show ?thesis
  proof cases
    case 1
    then show ?thesis using assms(1)
      by (auto simp: parse_wirepas_data_def parse_enc_key_def item_ok_def store_item_def keys_ok_def extract_byte_string_def cbor_copy_def Let_def
        split: option.splits cbor_value.splits if_splits)
  next
    case 2
    then show ?thesis using assms(1)
      by (auto simp: parse_wirepas_data_def parse_auth_key_def item_ok_def store_item_def keys_ok_def extract_byte_string_def cbor_copy_def Let_def
        split: option.splits cbor_value.splits if_splits)
  next
    case 3
    then show ?thesis
      by (auto simp: parse_wirepas_data_def parse_net_address_def item_ok_def store_item_def extract_unsigned_int_def uint_limit_def cut_u32
        split: option.splits cbor_value.splits if_splits)
  next
    case 4
    then show ?thesis
      by (auto simp: parse_wirepas_data_def parse_net_channel_def item_ok_def store_item_def extract_unsigned_int_def uint_limit_def cut_u8 push_bit_eq_mult
        split: option.splits cbor_value.splits if_splits)
  next
    case 5
    then show ?thesis
      by (auto simp: parse_wirepas_data_def parse_node_address_def item_ok_def store_item_def extract_unsigned_int_def uint_limit_def cut_u32
        split: option.splits cbor_value.splits if_splits)
  next
    case 6
    then show ?thesis
      by (auto simp: parse_wirepas_data_def parse_node_role_def item_ok_def store_item_def extract_byte_string_def cbor_copy_def Let_def length_Suc_conv
        split: option.splits cbor_value.splits if_splits)
  qed
qed

lemma store_keys_ok: "keys_ok d \<Longrightarrow> item_ok ub lib i \<Longrightarrow> keys_ok (store_item i d)"
  by (auto simp: keys_ok_def item_ok_def store_item_def split: prod.splits cbor_value.splits if_splits)

text \<open>One item: the key, the value and the rest.\<close>

lemma parse_item:
  assumes "keys_ok d"
  shows "parse_loop ub lib cb (Item k nxt) d calls = (CborNoError, d', calls') \<longleftrightarrow>
     (\<exists>i c rest. k = Cbor_uint (of_nat i) \<and> nxt = Inr (Item c (Inr rest)) \<and> item_ok ub lib (i, c) \<and>
        parse_loop ub lib cb rest (store_item (i, c) d) (if cb then calls @ user_items [(i, c)] else calls) = (CborNoError, d', calls'))"
    (is "?l \<longleftrightarrow> ?r")
proof
  assume l: ?l
  then obtain x v where k: "k = Cbor_uint x" "unat x < 2 ^ 31" "nxt = Inr v"
    by (auto simp: not_le split: cbor_value.splits if_splits sum.splits)
  define i where "i = unat x"
  have x: "x = of_nat i" by (simp add: i_def)
  have "\<exists>c rest. v = Item c (Inr rest) \<and> item_ok ub lib (i, c) \<and>
      parse_loop ub lib cb rest (store_item (i, c) d) (if cb then calls @ user_items [(i, c)] else calls) = (CborNoError, d', calls')"
  proof (cases "i \<le> 5")
    case True
    obtain err d1 where p: "parse_wirepas_data ub lib (cbor_current v) i d = (err, d1)" by fastforce
    then have "err = CborNoError" using l k True by (auto simp: i_def [symmetric] split: if_splits)
    then obtain c where c: "cbor_current v = Some c" "item_ok ub lib (i, c)" "d1 = store_item (i, c) d"
      using p wirepas_item [OF assms True] by auto
    then show ?thesis using l k True p \<open>err = CborNoError\<close>
      by (auto simp: i_def [symmetric] cbor_current_def user_items_def split: cbor_stream.splits sum.splits)
  next
    case False
    then show ?thesis using l k
      by (auto simp: i_def [symmetric] cbor_current_def user_items_def parse_user_data_def item_ok_def store_item_def Let_def
        split: cbor_stream.splits sum.splits if_splits cbor_value.splits)
  qed
  then show ?r using k x by blast
next
  assume ?r
  then obtain i c rest where r: "k = Cbor_uint (of_nat i)" "nxt = Inr (Item c (Inr rest))" "item_ok ub lib (i, c)"
      "parse_loop ub lib cb rest (store_item (i, c) d) (if cb then calls @ user_items [(i, c)] else calls) = (CborNoError, d', calls')"
    by blast
  have "i < 256" using r(3) by (auto simp: item_ok_def split: if_splits)
  then have u: "unat (of_nat i :: 64 word) = i" by (simp add: unat_of_nat_small)
  show ?l
  proof (cases "i \<le> 5")
    case True
    have "parse_wirepas_data ub lib (Some c) i d = (CborNoError, store_item (i, c) d)"
      using wirepas_item [OF assms True, of ub lib "Some c"] r(3) by auto
    then show ?thesis using r True u by (cases cb) (auto simp: cbor_current_def user_items_def)
  next
    case False
    then have "store_item (i, c) d = d" "128 \<le> i" "i \<le> 255" "user_value_error (Some c) = CborNoError"
      using r(3) by (auto simp: item_ok_def store_item_def split: if_splits cbor_value.splits)
    then show ?thesis using r False u by (auto simp: cbor_current_def user_items_def parse_user_data_def)
  qed
qed

lemma parse_loop_success:
  assumes "keys_ok d"
  shows "parse_loop ub lib cb v d calls = (CborNoError, d', calls') \<longleftrightarrow>
     (\<exists>items. v = stream_of items \<and> list_all (item_ok ub lib) items \<and> d' = fold store_item items d \<and>
        calls' = (if cb then calls @ user_items items else calls))" (is "?l \<longleftrightarrow> ?r v d calls")
proof
  show "?r v d calls" if ?l
    using that assms
  proof (induction "size v" arbitrary: v d calls rule: less_induct)
    case less
    show ?case
    proof (cases v)
      case At_end
      then show ?thesis using less.prems by (auto simp: user_items_def intro!: exI [of _ "[]"])
    next
      case (Item k nxt)
      with less.prems obtain i c rest where r: "k = Cbor_uint (of_nat i)" "nxt = Inr (Item c (Inr rest))" "item_ok ub lib (i, c)"
          "parse_loop ub lib cb rest (store_item (i, c) d) (if cb then calls @ user_items [(i, c)] else calls) = (CborNoError, d', calls')"
        using parse_item [OF less.prems(2)] by auto
      have "size rest < size v" using Item r by simp
      from less.hyps [OF this r(4) store_keys_ok [OF less.prems(2) r(3)]] obtain items where
        it: "rest = stream_of items" "list_all (item_ok ub lib) items" "d' = fold store_item items (store_item (i, c) d)"
          "calls' = (if cb then (if cb then calls @ user_items [(i, c)] else calls) @ user_items items else (if cb then calls @ user_items [(i, c)] else calls))"
        by blast
      then show ?thesis using Item r by (intro exI [of _ "(i, c) # items"]) (auto simp: user_items_def)
    qed
  qed
  show ?l if r: "?r v d calls"
  proof -
    from r obtain items where it: "v = stream_of items" "list_all (item_ok ub lib) items" "d' = fold store_item items d"
        "calls' = (if cb then calls @ user_items items else calls)" by blast
    show ?thesis unfolding it(1) using it(2-) assms
    proof (induction items arbitrary: d calls)
      case Nil
      then show ?case by (simp add: user_items_def)
    next
      case (Cons ic items)
      obtain i c where ic: "ic = (i, c)" by fastforce
      have "parse_loop ub lib cb (stream_of items) (store_item (i, c) d) (if cb then calls @ user_items [(i, c)] else calls) = (CborNoError, d', calls')"
        using Cons.prems ic by (intro Cons.IH) (auto simp: user_items_def store_keys_ok)
      then show ?case using parse_item [OF Cons.prems(4)] Cons.prems(1) ic by (auto simp del: parse_loop.simps)
    qed
  qed
qed

text \<open>The mandatory items are there.\<close>

definition data_complete :: "provisioning_data \<Rightarrow> bool" where
  "data_complete d \<longleftrightarrow> pd_is_enc_key_set d \<and> pd_is_auth_key_set d \<and> pd_net_addr d \<noteq> INVALID_NET_ADDR \<and> pd_net_chan d \<noteq> INVALID_NET_CHAN"

lemma parse_map_success:
  assumes "keys_ok d"
  shows "parse_map ub lib cb v d [] = (CborNoError, d', calls) \<longleftrightarrow>
     (\<exists>items. v = stream_of items \<and> list_all (item_ok ub lib) items \<and> d' = fold store_item items (no_data d) \<and> data_complete d' \<and>
        calls = (if cb then user_items items else []))"
proof -
  have "keys_ok (no_data d)" using assms by (simp add: keys_ok_def no_data_def)
  note l = parse_loop_success [OF this, of ub lib cb v "[]"]
  have "parse_map ub lib cb v d [] = (CborNoError, d', calls) \<longleftrightarrow>
      parse_loop ub lib cb v (no_data d) [] = (CborNoError, d', calls) \<and> data_complete d'"
    by (cases "parse_loop ub lib cb v (no_data d) []")
      (auto simp: parse_map_def no_data_def [symmetric] data_complete_def Let_def)
  then show ?thesis unfolding l by auto
qed

text \<open>Once the keys are set, the data do not depend on what was there before.\<close>

lemma stored_data:
  assumes "pd_is_enc_key_set (fold store_item items (no_data d))" "pd_is_auth_key_set (fold store_item items (no_data d))"
  shows "fold store_item items (no_data d2) = fold store_item items (no_data d)"
proof -
  define same where "same a b \<longleftrightarrow> pd_is_enc_key_set a = pd_is_enc_key_set b \<and> pd_is_auth_key_set a = pd_is_auth_key_set b \<and>
      (pd_is_enc_key_set a \<longrightarrow> pd_enc_key a = pd_enc_key b) \<and> (pd_is_auth_key_set a \<longrightarrow> pd_auth_key a = pd_auth_key b) \<and>
      pd_net_addr a = pd_net_addr b \<and> pd_net_chan a = pd_net_chan b \<and> pd_node_addr a = pd_node_addr b \<and> pd_node_role a = pd_node_role b"
    for a b :: provisioning_data
  have step: "same a b \<Longrightarrow> same (store_item i a) (store_item i b)" for a b i
    by (auto simp: same_def store_item_def split: prod.splits cbor_value.splits)
  have "same a b \<Longrightarrow> same (fold store_item items a) (fold store_item items b)" for a b
    by (induction items arbitrary: a b) (auto simp: step)
  moreover have "same (no_data d) (no_data d2)" by (simp add: same_def no_data_def)
  ultimately have "same (fold store_item items (no_data d)) (fold store_item items (no_data d2))" by blast
  with assms show ?thesis by (simp add: same_def provisioning_data.equality)
qed

subsection \<open>Properties\<close>


definition any_settings :: settings_lib where
  "any_settings = \<lparr>isValidNetworkAddress = (\<lambda>_. True), isValidNetworkChannel = (\<lambda>_. True), isValidNodeAddress = (\<lambda>_. True),
     isValidNodeRole = (\<lambda>_. True)\<rparr>"

definition some_items :: "(nat \<times> cbor_value) list" where
  "some_items = [(0, Cbor_bytes (replicate 16 1)), (1, Cbor_bytes (replicate 16 2)), (2, Cbor_uint 77), (3, Cbor_uint 12), (130, Cbor_bool True)]"

definition empty_data :: provisioning_data where
  "empty_data = \<lparr>pd_enc_key = replicate 16 0, pd_is_enc_key_set = False, pd_auth_key = replicate 16 0, pd_is_auth_key_set = False,
     pd_net_addr = 0, pd_net_chan = 0, pd_node_addr = 0, pd_node_role = 0\<rparr>"

lemma some_items_ok: "list_all (item_ok 1000 any_settings) some_items"
  "data_complete (fold store_item some_items (no_data empty_data))"
  by (simp_all add: some_items_def item_ok_def any_settings_def user_value_error_def store_item_def data_complete_def no_data_def
    empty_data_def INVALID_NET_ADDR_def INVALID_NET_CHAN_def)


text \<open>The limit for a value of one byte is 511: a channel of 257 is accepted as channel 1.\<close>

lemma channel_truncated:
  assumes "isValidNetworkChannel lib 1"
  shows "parse_net_channel ub lib (Some (Cbor_uint 257)) d = (CborNoError, d\<lparr>pd_net_chan := 1\<rparr>)"
  using assms by (simp add: parse_net_channel_def extract_unsigned_int_def uint_limit_def push_bit_eq_mult cut_u8)

end
