(* ===== verification/Provisioning.thy ===== *)
theory Provisioning
  imports Prov_Sessions Prov_Data Util_Aes
begin

text \<open>
  \<open>libraries/provisioning/provisioning.c\<close>: a new node joins a network, asks the
  provisioning server or proxy for the network parameters with a START packet, verifies the
  DATA packet it gets and applies the data.

  The variables of the module extend the record of \<open>joining.c\<close>; the joining library calls
  back into this module at the end of a session.  Calls of \<open>shared_data.c\<close>, of the system
  library and of the client are recorded in \<open>pv_calls\<close>; the results of the libraries at one
  event are the fields of \<open>prov_env\<close>.  \<open>None\<close> is an access outside of an object, a call
  through a NULL pointer, or a recursion that does not end.
\<close>

subsection \<open>Data\<close>

datatype provisioning_method = PROV_METHOD_UNSECURED | PROV_METHOD_SECURED | PROV_METHOD_EXTENDED_UID | PROV_METHOD_OTHER u8

definition method_byte :: "provisioning_method \<Rightarrow> u8" where
  "method_byte m = (case m of PROV_METHOD_UNSECURED \<Rightarrow> 0 | PROV_METHOD_SECURED \<Rightarrow> 1 | PROV_METHOD_EXTENDED_UID \<Rightarrow> 3 | PROV_METHOD_OTHER b \<Rightarrow> b)"

datatype provisioning_state =
  PROV_STATE_UNINIT | PROV_STATE_IDLE | PROV_STATE_WAIT_JOINING | PROV_STATE_START | PROV_STATE_WAIT_DATA | PROV_STATE_WAIT_ACK_SENT

record provisioning_events =
  pe_rxd_packet :: bool
  pe_timeout :: bool
  pe_start :: bool
  pe_ack_sent :: bool
  pe_joined :: bool

definition no_prov_events :: provisioning_events where
  "no_prov_events = \<lparr>pe_rxd_packet = False, pe_timeout = False, pe_start = False, pe_ack_sent = False, pe_joined = False\<rparr>"

text \<open>\<open>pc_uid\<close> and the callbacks are \<open>None\<close> for NULL pointers; \<open>pc_end_cb\<close> is what the
  callback answers.\<close>

record provisioning_conf =
  pc_method :: provisioning_method
  pc_nb_retry :: u8
  pc_timeout_s :: u16
  pc_uid :: "u8 list option"
  pc_uid_len :: u8
  pc_key :: "u8 list"
  pc_key_len :: u8
  pc_end_cb :: "(provisioning_res \<Rightarrow> bool) option"
  pc_user_data_cb :: bool
  pc_beacon_joining_cb :: "(joining_beacon list \<Rightarrow> nat option \<Rightarrow> joining_beacon option) option"

text \<open>\<open>Send bytes dest src_ep dest_ep tracked\<close>.\<close>

datatype prov_call =
  Add_rx_cb | Remove_rx_cb | Shutdown_cb_null | Send "u8 list" u32 u8 u8 bool
| Client_end provisioning_res | User_data "(nat \<times> cbor_value) list" | Reboot "setting list"

record prov = joining +
  pv_calls :: "prov_call list"
  pv_events :: provisioning_events
  pv_retry :: u8
  pv_timeout_ms :: u32
  pv_session_id :: u8
  pv_state :: provisioning_state
  pv_conf :: "provisioning_conf option"
  pv_iv :: "u8 list"
  pv_buffer :: "u8 list"
  pv_length :: u8
  pv_joining_res :: provisioning_res
  pv_data :: provisioning_data
  pv_random :: random

record prov_env =
  en_time :: lib_time
  en_aes :: block_cipher
  en_parser :: cbor_parser
  en_settings :: settings_lib
  en_ub :: "64 word"
  en_sendData :: data_send_res
  en_next_hop :: u32
  en_node_address :: u32
  en_hp :: "nat \<Rightarrow> u32"

definition DELAY_RESEND_PACKET_MS :: u32 where "DELAY_RESEND_PACKET_MS = 4000"
definition PROV_PDU_SIZE :: nat where "PROV_PDU_SIZE = 102"
definition PROV_MIC_SIZE :: nat where "PROV_MIC_SIZE = 5"
definition PROV_DATA_OFFSET :: nat where "PROV_DATA_OFFSET = 9"
definition ENC_KEY_OFFSET :: nat where "ENC_KEY_OFFSET = 16"
definition PROV_UPLINK_EP :: u8 where "PROV_UPLINK_EP = 246"
definition PROV_DOWNLINK_EP :: u8 where "PROV_DOWNLINK_EP = 255"
definition PROV_PACKET_TYPE_START :: u8 where "PROV_PACKET_TYPE_START = 1"
definition PROV_PACKET_TYPE_DATA :: u8 where "PROV_PACKET_TYPE_DATA = 2"
definition PROV_PACKET_TYPE_DATA_ACK :: u8 where "PROV_PACKET_TYPE_DATA_ACK = 3"
definition PROV_PACKET_TYPE_NACK :: u8 where "PROV_PACKET_TYPE_NACK = 4"

lemmas prov_consts = PROV_PDU_SIZE_def PROV_MIC_SIZE_def PROV_DATA_OFFSET_def ENC_KEY_OFFSET_def PROV_UPLINK_EP_def
  PROV_DOWNLINK_EP_def PROV_PACKET_TYPE_START_def PROV_PACKET_TYPE_DATA_def PROV_PACKET_TYPE_DATA_ACK_def PROV_PACKET_TYPE_NACK_def

text \<open>\<open>pdu_prov_hdr_t\<close>, packed.\<close>

definition pdu_header :: "u8 \<Rightarrow> u32 \<Rightarrow> u8 \<Rightarrow> u8 list" where
  "pdu_header ptype address session_id = ptype # le_bytes address 4 @ [session_id]"

subsection \<open>The end of a session\<close>

definition pv_log :: "prov_call \<Rightarrow> prov \<Rightarrow> prov" where
  "pv_log c w = w\<lparr>pv_calls := pv_calls w @ [c]\<rparr>"

definition client_end :: "provisioning_res \<Rightarrow> prov \<Rightarrow> prov option" where
  "client_end res w =
     (case pv_conf w of
        None \<Rightarrow> None
      | Some conf \<Rightarrow> if pc_end_cb conf = None then None else Some (pv_log (Client_end res) w))"

text \<open>\<open>reset_provisioning\<close> up to the call of \<open>Provisioning_Joining_stop\<close>.\<close>

definition clear_provisioning :: "prov \<Rightarrow> prov" where
  "clear_provisioning w =
     (let w = pv_log Remove_rx_cb w;
          w = jn_cancel_task PROV_timeout_task w;
          w = jn_cancel_task PROV_run_state_machine w;
          w = w\<lparr>pv_state := PROV_STATE_IDLE, pv_events := no_prov_events\<rparr>
      in pv_log Shutdown_cb_null w)"

lemma joining_stop_mono [partial_function_mono]:
  assumes "\<And>r w. mono_option (\<lambda>f. B f r w)"
  shows "mono_option (\<lambda>f. Provisioning_Joining_stop (\<lambda>r w. B f r w) w0)"
  unfolding Provisioning_Joining_stop_def end_joining_def call_end_cb_def
  by (intro partial_function_mono assms)

text \<open>The callback at the end of a joining session.  When its task cannot be added it
  resets the module, which stops the joining library, which calls it again.\<close>

partial_function (option) end_joining_cb :: "lib_time \<Rightarrow> provisioning_res \<Rightarrow> prov \<Rightarrow> prov option" where
  "end_joining_cb lt result w =
     (case jn_add_task lt PROV_run_state_machine APP_SCHEDULER_SCHEDULE_ASAP
         (w\<lparr>pv_joining_res := result, pv_events := (pv_events w)\<lparr>pe_joined := True\<rparr>\<rparr>) of
        (added, w) \<Rightarrow>
          if added then Some w
          else do {
            (_, w) \<leftarrow> Provisioning_Joining_stop (\<lambda>r w. end_joining_cb lt r w) (clear_provisioning w);
            client_end PROV_RES_ERROR_INTERNAL w
          })"

definition reset_provisioning :: "lib_time \<Rightarrow> prov \<Rightarrow> prov option" where
  "reset_provisioning lt w =
     map_option snd (Provisioning_Joining_stop (end_joining_cb lt) (clear_provisioning w))"

definition end_provisioning :: "lib_time \<Rightarrow> provisioning_res \<Rightarrow> prov \<Rightarrow> prov option" where
  "end_provisioning lt res w = do { w \<leftarrow> reset_provisioning lt w; client_end res w }"

text \<open>The callbacks raise an event and schedule the state machine.\<close>

definition schedule_prov :: "lib_time \<Rightarrow> prov \<Rightarrow> prov option" where
  "schedule_prov lt w =
     (case jn_add_task lt PROV_run_state_machine APP_SCHEDULER_SCHEDULE_ASAP w of
        (True, w) \<Rightarrow> Some w
      | (False, w) \<Rightarrow> end_provisioning lt PROV_RES_ERROR_INTERNAL w)"

subsection \<open>Callbacks\<close>

definition prov_pkt_received_cb :: "lib_time \<Rightarrow> u8 list \<Rightarrow> prov \<Rightarrow> (data_receive_res \<times> prov) option" where
  "prov_pkt_received_cb lt bytes w =
     do {
       let w = w\<lparr>pv_events := (pv_events w)\<lparr>pe_rxd_packet := True\<rparr>\<rparr>;
       let n = (if length bytes > PROV_PDU_SIZE then PROV_PDU_SIZE else length bytes);
       let w = w\<lparr>pv_length := of_nat n\<rparr>;
       buffer \<leftarrow> wr_bytes (pv_buffer w) 0 (take n bytes);
       w \<leftarrow> schedule_prov lt (w\<lparr>pv_buffer := buffer\<rparr>);
       Some (APP_LIB_DATA_RECEIVE_RES_HANDLED, w)
     }"

definition prov_timeout_task :: "lib_time \<Rightarrow> prov \<Rightarrow> (u32 \<times> prov) option" where
  "prov_timeout_task lt w =
     do {
       w \<leftarrow> schedule_prov lt (w\<lparr>pv_events := (pv_events w)\<lparr>pe_timeout := True\<rparr>\<rparr>);
       Some (APP_SCHEDULER_STOP_TASK, w)
     }"

definition prov_packet_sent_cb :: "lib_time \<Rightarrow> prov \<Rightarrow> prov option" where
  "prov_packet_sent_cb lt w = schedule_prov lt (w\<lparr>pv_events := (pv_events w)\<lparr>pe_ack_sent := True\<rparr>\<rparr>)"

text \<open>\<open>m_timeout_ms = m_conf.timeout_s * 1000\<close> and the timeout task.\<close>

definition start_timeout :: "lib_time \<Rightarrow> prov \<Rightarrow> prov option" where
  "start_timeout lt w =
     do {
       conf \<leftarrow> pv_conf w;
       let w = w\<lparr>pv_timeout_ms := ucast (pc_timeout_s conf) * 1000\<rparr>;
       (case jn_add_task lt PROV_timeout_task (pv_timeout_ms w) w of
          (True, w) \<Rightarrow> Some w
        | (False, w) \<Rightarrow> end_provisioning lt PROV_RES_ERROR_INTERNAL w)
     }"

definition send_ack_packet :: "prov_env \<Rightarrow> prov \<Rightarrow> (u32 \<times> prov) option" where
  "send_ack_packet env w =
     do {
       let ack_data = pdu_header PROV_PACKET_TYPE_DATA_ACK (en_node_address env) (pv_session_id w);
       let w = pv_log (Send ack_data (en_next_hop env) PROV_UPLINK_EP PROV_DOWNLINK_EP True) w;
       if en_sendData env \<noteq> APP_LIB_DATA_SEND_RES_SUCCESS then Some (APP_SCHEDULER_SCHEDULE_ASAP, w)
       else do { w \<leftarrow> start_timeout (en_time env) w; Some (APP_SCHEDULER_STOP_TASK, w) }
     }"

subsection \<open>Data packets\<close>

definition zero_stream :: aes_data_stream where
  "zero_stream = \<lparr>as_key = [], as_iv_ctr = (0, 0, 0, 0), as_aes_out = []\<rparr>"

definition zero_omac :: aes_omac1_state where
  "zero_omac = \<lparr>om_data = zero_stream, om_hl1 = [], om_hl2 = []\<rparr>"

text \<open>The secured part of \<open>process_data_packet\<close>: decryption in place, authentication.
  \<open>data_len\<close> is \<open>data_conf.length\<close> without the message code, an 8-bit number.\<close>

definition decrypt_packet :: "prov_env \<Rightarrow> u8 list \<Rightarrow> u8 list \<Rightarrow> u8 \<Rightarrow> u8 \<Rightarrow> u8 list \<Rightarrow> (provisioning_res \<times> u8 list) option" where
  "decrypt_packet env key iv data_len pkt_len buffer =
     do {
       c0 \<leftarrow> rd buffer 7;
       c1 \<leftarrow> rd buffer 8;
       let counter = (ucast c0 OR push_bit 8 (ucast c1) :: u32);
       let icb = ctr_add (ctr_of_bytes iv) counter;
       let data_stream = aes_setupStream (drop ENC_KEY_OFFSET key) (bytes_of_ctr icb) zero_stream;
       cipher \<leftarrow> rd_bytes buffer PROV_DATA_OFFSET (unat data_len + PROV_MIC_SIZE);
       buffer \<leftarrow> wr_bytes buffer PROV_DATA_OFFSET (fst (aes_crypto128Ctr (en_aes env) data_stream cipher));
       authed \<leftarrow> (if unat pkt_len < PROV_MIC_SIZE then None else rd_bytes buffer 0 (unat pkt_len - PROV_MIC_SIZE));
       let mic = aes_omac1 (en_aes env) (aes_initOmac1 (en_aes env) key zero_omac) PROV_MIC_SIZE authed;
       received \<leftarrow> rd_bytes buffer (PROV_DATA_OFFSET + unat data_len) PROV_MIC_SIZE;
       Some (if mic \<noteq> received then PROV_RES_INVALID_DATA else PROV_RES_SUCCESS, buffer)
     }"

definition is_secured :: "provisioning_method \<Rightarrow> bool" where
  "is_secured m \<longleftrightarrow> m = PROV_METHOD_SECURED \<or> m = PROV_METHOD_EXTENDED_UID"

definition process_data_packet :: "prov_env \<Rightarrow> prov \<Rightarrow> (provisioning_res \<times> prov) option" where
  "process_data_packet env w =
     do {
       conf \<leftarrow> pv_conf w;
       key_index \<leftarrow> rd (pv_buffer w) 6;
       let data_len = pv_length w - of_nat PROV_DATA_OFFSET;
       (res, data_len, buffer) \<leftarrow>
         (if pc_method conf = PROV_METHOD_UNSECURED then
            Some (if key_index = 0 then PROV_RES_SUCCESS else PROV_RES_INVALID_PACKET, data_len, pv_buffer w)
          else if is_secured (pc_method conf) then
            if key_index = 1 then
              do {
                let data_len = data_len - of_nat PROV_MIC_SIZE;
                (res, buffer) \<leftarrow> decrypt_packet env (pc_key conf) (pv_iv w) data_len (pv_length w) (pv_buffer w);
                Some (res, data_len, buffer)
              }
            else Some (PROV_RES_INVALID_DATA, data_len, pv_buffer w)
          else Some (PROV_RES_INVALID_DATA, data_len, pv_buffer w));
       let w = w\<lparr>pv_buffer := buffer\<rparr>;
       if res = PROV_RES_SUCCESS then
         do {
           data \<leftarrow> rd_bytes buffer PROV_DATA_OFFSET (unat data_len);
           (case Provisioning_Data_decode (en_ub env) (en_settings env) (en_parser env)
               \<lparr>dc_end_cb = None, dc_user_data_cb = False, dc_buffer = data\<rparr> True (pv_data w) of
              Decoded ret d calls \<Rightarrow>
                Some (if ret \<noteq> PROV_RET_OK then PROV_RES_INVALID_DATA else res, w\<lparr>pv_data := d\<rparr>)
            | Rebooted _ _ \<Rightarrow> None)
         }
       else Some (res, w)
     }"

subsection \<open>The state machine\<close>

text \<open>The initial vector: one random byte for each position.\<close>

fun random_bytes :: "(nat \<Rightarrow> u32) \<Rightarrow> nat \<Rightarrow> nat \<Rightarrow> random \<Rightarrow> u8 list \<times> random" where
  "random_bytes hp i 0 r = ([], r)"
| "random_bytes hp i (Suc n) r = (case Random_get8 (hp i) r of (b, r) \<Rightarrow>
     (case random_bytes hp (i + 1) n r of (bs, r) \<Rightarrow> (b # bs, r)))"

definition prov_state_idle :: "prov_env \<Rightarrow> prov \<Rightarrow> (u32 \<times> prov) option" where
  "prov_state_idle env w =
     do {
       w \<leftarrow>
         (if pe_start (pv_events w) then
            do {
              let w = w\<lparr>pv_state := PROV_STATE_WAIT_JOINING, pv_retry := 0\<rparr>;
              (ret, w) \<leftarrow> Provisioning_Joining_start (en_time env) (end_joining_cb (en_time env)) w;
              if ret \<noteq> PROV_RET_OK then end_provisioning (en_time env) PROV_RES_ERROR_JOINING w
              else do {
                conf \<leftarrow> pv_conf w;
                Some (if is_secured (pc_method conf)
                      then (case random_bytes (en_hp env) 0 16 (pv_random w) of (iv, r) \<Rightarrow> w\<lparr>pv_iv := iv, pv_random := r\<rparr>)
                      else w)
              }
            }
          else Some w);
       let w = pv_log Remove_rx_cb w;
       let w = jn_cancel_task PROV_timeout_task w;
       Some (APP_SCHEDULER_STOP_TASK, w\<lparr>pv_events := no_prov_events\<rparr>)
     }"

definition prov_state_wait_joining :: "prov_env \<Rightarrow> prov \<Rightarrow> (u32 \<times> prov) option" where
  "prov_state_wait_joining env w =
     do {
       (new_delay_ms, w) \<leftarrow>
         (if pe_joined (pv_events w) then
            if pv_joining_res w = PROV_RES_SUCCESS then
              Some (APP_SCHEDULER_SCHEDULE_ASAP, w\<lparr>pv_state := PROV_STATE_START, pv_session_id := pv_session_id w + 1\<rparr>)
            else do {
              w \<leftarrow> reset_provisioning (en_time env) w;
              w \<leftarrow> client_end (pv_joining_res w) w;
              Some (APP_SCHEDULER_STOP_TASK, w)
            }
          else Some (APP_SCHEDULER_STOP_TASK, w));
       Some (new_delay_ms, w\<lparr>pv_events := no_prov_events\<rparr>)
     }"

text \<open>\<open>m_retry++\<close> and the comparison with the configured number of retries; the first
  result tells that the session has ended.\<close>

definition prov_retry :: "lib_time \<Rightarrow> provisioning_res \<Rightarrow> prov \<Rightarrow> (bool \<times> prov) option" where
  "prov_retry lt res w =
     do {
       conf \<leftarrow> pv_conf w;
       let w = w\<lparr>pv_retry := pv_retry w + 1\<rparr>;
       if pv_retry w > pc_nb_retry conf
       then do { w \<leftarrow> end_provisioning lt res w; Some (True, w) }
       else Some (False, w)
     }"

text \<open>The START packet: the structure \<open>pdu_prov_start_t\<close> filled, and cut to its length.\<close>

definition start_packet :: "prov_env \<Rightarrow> provisioning_conf \<Rightarrow> prov \<Rightarrow> u8 list option" where
  "start_packet env conf w =
     do {
       uid \<leftarrow> pc_uid conf;
       uid \<leftarrow> rd_bytes uid 0 (unat (pc_uid_len conf));
       let start_data = pdu_header PROV_PACKET_TYPE_START (en_node_address env) (pv_session_id w) @
         [method_byte (pc_method conf)] @ replicate 95 0;
       start_data \<leftarrow> wr_bytes start_data 23 uid;
       start_data \<leftarrow> wr_bytes start_data 7 (take 16 (pv_iv w));
       rd_bytes start_data 0 (6 + 1 + unat (pc_uid_len conf) + 16)
     }"

definition prov_state_start :: "prov_env \<Rightarrow> prov \<Rightarrow> (u32 \<times> prov) option" where
  "prov_state_start env w =
     do {
       conf \<leftarrow> pv_conf w;
       pkt \<leftarrow> start_packet env conf w;
       let w = pv_log (Send pkt (en_next_hop env) PROV_UPLINK_EP PROV_DOWNLINK_EP False) w;
       (new_delay_ms, w) \<leftarrow>
         (if en_sendData env \<noteq> APP_LIB_DATA_SEND_RES_SUCCESS then
            do {
              (ended, w) \<leftarrow> prov_retry (en_time env) PROV_RES_ERROR_SENDING_DATA w;
              Some (if ended then APP_SCHEDULER_STOP_TASK else DELAY_RESEND_PACKET_MS, w)
            }
          else
            do {
              w \<leftarrow> start_timeout (en_time env) (pv_log Add_rx_cb w);
              Some (APP_SCHEDULER_STOP_TASK, w\<lparr>pv_state := PROV_STATE_WAIT_DATA\<rparr>)
            });
       Some (new_delay_ms, w\<lparr>pv_events := no_prov_events\<rparr>)
     }"

text \<open>The checks on a received packet.\<close>

definition check_packet :: "prov_env \<Rightarrow> prov \<Rightarrow> (provisioning_res \<times> prov) option" where
  "check_packet env w =
     do {
       conf \<leftarrow> pv_conf w;
       ptype \<leftarrow> rd (pv_buffer w) 0;
       session_id \<leftarrow> rd (pv_buffer w) 5;
       if session_id \<noteq> pv_session_id w then Some (PROV_RES_INVALID_PACKET, w)
       else if ptype = PROV_PACKET_TYPE_NACK then Some (PROV_RES_NACK, w\<lparr>pv_retry := pc_nb_retry conf\<rparr>)
       else if ptype \<noteq> PROV_PACKET_TYPE_DATA then Some (PROV_RES_INVALID_PACKET, w)
       else process_data_packet env w
     }"

definition prov_state_wait_data :: "prov_env \<Rightarrow> prov \<Rightarrow> (u32 \<times> prov) option" where
  "prov_state_wait_data env w =
     do {
       (res, new_delay_ms, w) \<leftarrow>
         (if pe_rxd_packet (pv_events w) then
            do {
              (res, w) \<leftarrow> check_packet env w;
              if res = PROV_RES_SUCCESS then
                do {
                  let w = pv_log Remove_rx_cb (w\<lparr>pv_state := PROV_STATE_WAIT_ACK_SENT\<rparr>);
                  (d, w) \<leftarrow> send_ack_packet env (jn_cancel_task PROV_timeout_task w);
                  Some (res, d, w)
                }
              else Some (res, APP_SCHEDULER_STOP_TASK, w)
            }
          else if pe_timeout (pv_events w) then Some (PROV_RES_TIMEOUT, APP_SCHEDULER_STOP_TASK, w)
          else Some (PROV_RES_SUCCESS, APP_SCHEDULER_STOP_TASK, w));
       (new_delay_ms, w) \<leftarrow>
         (if res \<noteq> PROV_RES_SUCCESS then
            do {
              (ended, w) \<leftarrow> prov_retry (en_time env) res w;
              if ended then Some (new_delay_ms, w)
              else do {
                conf \<leftarrow> pv_conf w;
                let w = w\<lparr>pv_conf := Some (conf\<lparr>pc_timeout_s := pc_timeout_s conf * 2\<rparr>), pv_state := PROV_STATE_START\<rparr>;
                Some (APP_SCHEDULER_SCHEDULE_ASAP, jn_cancel_task PROV_timeout_task (pv_log Remove_rx_cb w))
              }
            }
          else Some (new_delay_ms, w));
       Some (new_delay_ms, w\<lparr>pv_events := no_prov_events\<rparr>)
     }"

text \<open>When the node restarts, nothing after \<open>stopStack\<close> is executed.\<close>

definition prov_state_wait_ack_sent :: "prov_env \<Rightarrow> prov \<Rightarrow> (u32 \<times> prov) option" where
  "prov_state_wait_ack_sent env w =
     (if pe_ack_sent (pv_events w) \<or> pe_timeout (pv_events w) then
        do {
          conf \<leftarrow> pv_conf w;
          let data_len = pv_length w - of_nat PROV_DATA_OFFSET;
          let data_len = (if pc_method conf = PROV_METHOD_SECURED then data_len - of_nat PROV_MIC_SIZE else data_len);
          let w = jn_cancel_task PROV_timeout_task w;
          data \<leftarrow> rd_bytes (pv_buffer w) PROV_DATA_OFFSET (unat data_len);
          (case Provisioning_Data_decode (en_ub env) (en_settings env) (en_parser env)
              \<lparr>dc_end_cb = map_option (\<lambda>f. f PROV_RES_SUCCESS) (pc_end_cb conf), dc_user_data_cb = pc_user_data_cb conf, dc_buffer = data\<rparr>
              False (pv_data w) of
             Rebooted settings calls \<Rightarrow>
               Some (APP_SCHEDULER_STOP_TASK,
                 pv_log (Reboot settings) (pv_log (Client_end PROV_RES_SUCCESS) (pv_log (User_data calls) w)))
           | Decoded ret d calls \<Rightarrow>
               do {
                 let w = pv_log (User_data calls) (w\<lparr>pv_data := d\<rparr>);
                 w \<leftarrow>
                   (if ret \<noteq> PROV_RET_OK then end_provisioning (en_time env) PROV_RES_INVALID_DATA w
                    else reset_provisioning (en_time env)
                      (if pc_end_cb conf = None then w else pv_log (Client_end PROV_RES_SUCCESS) w));
                 Some (APP_SCHEDULER_STOP_TASK, w\<lparr>pv_events := no_prov_events\<rparr>)
               })
        }
      else Some (APP_SCHEDULER_STOP_TASK, w\<lparr>pv_events := no_prov_events\<rparr>))"

definition prov_run_state_machine :: "prov_env \<Rightarrow> prov \<Rightarrow> (u32 \<times> prov) option" where
  "prov_run_state_machine env w =
     (case pv_state w of
        PROV_STATE_UNINIT \<Rightarrow> Some (APP_SCHEDULER_STOP_TASK, w)
      | PROV_STATE_IDLE \<Rightarrow> prov_state_idle env w
      | PROV_STATE_WAIT_JOINING \<Rightarrow> prov_state_wait_joining env w
      | PROV_STATE_START \<Rightarrow> prov_state_start env w
      | PROV_STATE_WAIT_DATA \<Rightarrow> prov_state_wait_data env w
      | PROV_STATE_WAIT_ACK_SENT \<Rightarrow> prov_state_wait_ack_sent env w)"

subsection \<open>Interface\<close>

text \<open>\<open>getUniqueId\<close> is a parameter.\<close>

definition Provisioning_init :: "prov_env \<Rightarrow> u32 \<Rightarrow> provisioning_conf \<Rightarrow> prov \<Rightarrow> provisioning_ret \<times> prov" where
  "Provisioning_init env getUniqueId conf w =
     (if pv_state w \<noteq> PROV_STATE_UNINIT \<and> pv_state w \<noteq> PROV_STATE_IDLE then (PROV_RET_INVALID_STATE, w)
      else if (pc_method conf = PROV_METHOD_UNSECURED \<and> pc_key_len conf \<noteq> 0) \<or>
              (pc_method conf = PROV_METHOD_SECURED \<and> pc_key_len conf \<noteq> 32) \<or>
              pc_timeout_s conf = 0 \<or> pc_uid conf = None \<or> pc_uid_len conf = 0 \<or> pc_beacon_joining_cb conf = None
      then (PROV_RET_INVALID_PARAM, w)
      else
        (let r = Random_init (getUniqueId XOR en_hp env 0) (pv_random w);
             (sid, r) = Random_get8 (en_hp env 1) r;
             w = w\<lparr>pv_conf := Some conf, pv_random := r, pv_session_id := sid\<rparr>;
             (ret, w) = Provisioning_Joining_init \<lparr>jc_joining_cb = pc_beacon_joining_cb conf, jc_end_cb_set = True,
                jc_nb_retry = pc_nb_retry conf\<rparr> w
         in if ret \<noteq> PROV_RET_OK then (ret, w) else (PROV_RET_OK, w\<lparr>pv_state := PROV_STATE_IDLE\<rparr>)))"

definition Provisioning_start :: "lib_time \<Rightarrow> prov \<Rightarrow> (provisioning_ret \<times> prov) option" where
  "Provisioning_start lt w =
     (if pv_state w \<noteq> PROV_STATE_IDLE then Some (PROV_RET_INVALID_STATE, w)
      else (case jn_add_task lt PROV_run_state_machine APP_SCHEDULER_SCHEDULE_ASAP w of
          (True, w) \<Rightarrow> Some (PROV_RET_OK, w\<lparr>pv_events := (pv_events w)\<lparr>pe_start := True\<rparr>\<rparr>)
        | (False, w) \<Rightarrow>
            do { w \<leftarrow> end_provisioning lt PROV_RES_ERROR_INTERNAL w; Some (PROV_RET_INTERNAL_ERROR, w) }))"

definition Provisioning_stop :: "lib_time \<Rightarrow> prov \<Rightarrow> (provisioning_ret \<times> prov) option" where
  "Provisioning_stop lt w = do { w \<leftarrow> end_provisioning lt PROV_RES_STOPPED w; Some (PROV_RET_OK, w) }"

subsection \<open>When the end of a joining session returns\<close>

text \<open>The task table has a slot for the callback.\<close>

definition slot_for :: "prov_task \<Rightarrow> prov_task sched \<Rightarrow> bool" where
  "slot_for f s \<longleftrightarrow> m_initialized s \<and> (\<exists>t \<in> set (m_tasks s). t_func t = Some f \<or> t_func t = None)"

lemma add_iff: "fst (App_Scheduler_addTask_execTime lt s (Some f) d 500) = APP_SCHEDULER_RES_OK \<longleftrightarrow> slot_for f s"
proof (cases rule: add_cases [of s lt "Some f" d 500])
  case full
  then have "\<forall>t \<in> set (m_tasks s). t_func t \<noteq> Some f \<and> t_func t \<noteq> None" by (auto simp: in_set_conv_nth)
  then show ?thesis using full by (auto simp: slot_for_def)
next
  case (ok i t s1)
  then show ?thesis unfolding slot_for_def by (auto intro!: bexI [of _ "m_tasks s ! i"])
qed (auto simp: slot_for_def)

lemma cancel_funcs: "map t_func (m_tasks (snd (App_Scheduler_cancelTask s cb))) = map t_func (m_tasks s)"
  "m_initialized (snd (App_Scheduler_cancelTask s cb)) = m_initialized s"
proof -
  have "map t_func (m_tasks (snd (App_Scheduler_cancelTask s cb))) = map t_func (m_tasks s) \<and>
      m_initialized (snd (App_Scheduler_cancelTask s cb)) = m_initialized s"
    by (cases rule: cancel_cases [of s cb])
      (auto simp: set_task_def setPeriodicCb_def map_update list_update_same_conv)
  then show "map t_func (m_tasks (snd (App_Scheduler_cancelTask s cb))) = map t_func (m_tasks s)"
    "m_initialized (snd (App_Scheduler_cancelTask s cb)) = m_initialized s" by auto
qed

lemma slot_for_funcs: "slot_for f s \<longleftrightarrow> m_initialized s \<and> (Some f \<in> set (map t_func (m_tasks s)) \<or> None \<in> set (map t_func (m_tasks s)))"
  by (force simp: slot_for_def)

lemma slot_for_cancel [simp]: "slot_for f (snd (App_Scheduler_cancelTask s cb)) = slot_for f s"
  by (simp only: slot_for_funcs cancel_funcs)

lemma jn_add_task_slot:
  obtains s where "jn_add_task lt f d w = (slot_for f (jn_sched w), w\<lparr>jn_sched := s\<rparr>)" "\<not> slot_for f (jn_sched w) \<Longrightarrow> s = jn_sched w"
proof -
  obtain res s where a: "App_Scheduler_addTask_execTime lt (jn_sched w) (Some f) d 500 = (res, s)" by fastforce
  have "s = jn_sched w" if "\<not> slot_for f (jn_sched w)"
    using that a add_iff [of lt "jn_sched w" f d] by (cases rule: add_cases [of "jn_sched w" lt "Some f" d 500]) auto
  then show ?thesis using that [of s] a add_iff [of lt "jn_sched w" f d] by (auto simp: jn_add_task_def)
qed

lemma clear_provisioning_fields [simp]:
  "jn_conf (clear_provisioning w) = jn_conf w" "jn_retry (clear_provisioning w) = jn_retry w" "jn_stack (clear_provisioning w) = jn_stack w"
  "jn_state (clear_provisioning w) = jn_state w" "pv_conf (clear_provisioning w) = pv_conf w" "pv_state (clear_provisioning w) = PROV_STATE_IDLE"
  "pv_events (clear_provisioning w) = no_prov_events" "pv_calls (clear_provisioning w) = pv_calls w @ [Remove_rx_cb, Shutdown_cb_null]"
  "slot_for f (jn_sched (clear_provisioning w)) = slot_for f (jn_sched w)"
  by (simp_all add: clear_provisioning_def pv_log_def jn_cancel_task_def Let_def)

lemma reset_joining_slot [simp]: "slot_for f (jn_sched (reset_joining b w)) = slot_for f (jn_sched w)"
  by (simp add: reset_joining_def Let_def jn_unsubscribe_def jn_cancel_task_def jn_log_def)

lemma end_joining_cb_slot:
  assumes e: "end_joining_cb lt res w = Some w'"
  shows "slot_for PROV_run_state_machine (jn_sched w)"
proof (rule end_joining_cb.raw_induct [where P = "\<lambda>_ _ w _. slot_for PROV_run_state_machine (jn_sched w)", OF _ e])
  fix f lt result and w w' :: prov
  assume IH: "\<And>lt result w y. f lt result w = Some y \<Longrightarrow> slot_for PROV_run_state_machine (jn_sched w)"
    and body: "(case jn_add_task lt PROV_run_state_machine APP_SCHEDULER_SCHEDULE_ASAP
         (w\<lparr>pv_joining_res := result, pv_events := (pv_events w)\<lparr>pe_joined := True\<rparr>\<rparr>) of
        (added, w) \<Rightarrow>
          if added then Some w
          else do {
            (_, w) \<leftarrow> Provisioning_Joining_stop (f lt) (clear_provisioning w);
            client_end PROV_RES_ERROR_INTERNAL w
          }) = Some w'"
  let ?v = "w\<lparr>pv_joining_res := result, pv_events := (pv_events w)\<lparr>pe_joined := True\<rparr>\<rparr>"
  obtain s where a: "jn_add_task lt PROV_run_state_machine APP_SCHEDULER_SCHEDULE_ASAP ?v =
      (slot_for PROV_run_state_machine (jn_sched w), ?v\<lparr>jn_sched := s\<rparr>)"
      "\<not> slot_for PROV_run_state_machine (jn_sched w) \<Longrightarrow> s = jn_sched w"
    by (rule jn_add_task_slot [of lt PROV_run_state_machine APP_SCHEDULER_SCHEDULE_ASAP ?v]) auto
  show "slot_for PROV_run_state_machine (jn_sched w)"
  proof (rule ccontr)
    assume n: "\<not> slot_for PROV_run_state_machine (jn_sched w)"
    from body n a(1) obtain w1 where "Provisioning_Joining_stop (f lt) (clear_provisioning (?v\<lparr>jn_sched := s\<rparr>)) = Some w1"
      by (auto split: bind_splits)
    then obtain w2 where
      "f lt PROV_RES_STOPPED (jn_log (End_cb PROV_RES_STOPPED) (reset_joining True (clear_provisioning (?v\<lparr>jn_sched := s\<rparr>)))) = Some w2"
      by (auto simp: Provisioning_Joining_stop_def end_joining_def call_end_cb_def split: bind_splits if_splits)
    from IH [OF this] n a(2) show False by simp
  qed
qed

text \<open>The callback returns exactly when the table has a slot, and then only raises its
  event.\<close>

lemma end_joining_cb_eq:
  "end_joining_cb lt res w = (if slot_for PROV_run_state_machine (jn_sched w)
     then Some (w\<lparr>pv_joining_res := res, pv_events := (pv_events w)\<lparr>pe_joined := True\<rparr>,
       jn_sched := snd (App_Scheduler_addTask_execTime lt (jn_sched w) (Some PROV_run_state_machine) 0 500)\<rparr>) else None)"
proof (cases "slot_for PROV_run_state_machine (jn_sched w)")
  case True
  then obtain s where "App_Scheduler_addTask_execTime lt (jn_sched w) (Some PROV_run_state_machine) 0 500 = (APP_SCHEDULER_RES_OK, s)"
    using add_iff [of lt "jn_sched w" PROV_run_state_machine 0] by (metis prod.collapse)
  with True show ?thesis
    by (subst end_joining_cb.simps) (simp add: jn_add_task_def APP_SCHEDULER_SCHEDULE_ASAP_def)
next
  case False
  then have "end_joining_cb lt res w = None" using end_joining_cb_slot [of lt res w] by (cases "end_joining_cb lt res w") auto
  with False show ?thesis by simp
qed

interpretation prov_joining: joining_client "end_joining_cb lt"
  by unfold_locales (auto simp: end_joining_cb_eq end_calls_def split: if_splits)

text \<open>The table holds the task of the provisioning library, or has a free slot for it
  beside those the joining library needs.\<close>

definition prov_room :: "prov_task sched \<Rightarrow> bool" where
  "prov_room s \<longleftrightarrow> m_initialized s \<and>
     (Some PROV_run_state_machine \<in> set (map t_func (m_tasks s)) \<or>
      length (filter (\<lambda>f. Some f \<notin> set (map t_func (m_tasks s))) [JOIN_run_state_machine, JOIN_timeout_task]) <
        count_list (map t_func (m_tasks s)) None)"

lemma add_funcs:
  obtains (same) "map t_func (m_tasks (snd (App_Scheduler_addTask_execTime lt s (Some f) d e))) = map t_func (m_tasks s)"
      "m_initialized (snd (App_Scheduler_addTask_execTime lt s (Some f) d e)) = m_initialized s"
  | (fresh) xs ys where "map t_func (m_tasks s) = xs @ None # ys" "Some f \<notin> set (map t_func (m_tasks s))"
      "map t_func (m_tasks (snd (App_Scheduler_addTask_execTime lt s (Some f) d e))) = xs @ Some f # ys"
      "m_initialized (snd (App_Scheduler_addTask_execTime lt s (Some f) d e)) = m_initialized s"
proof (cases rule: add_cases [of s lt "Some f" d e])
  case (ok i t s1)
  have F: "map t_func (m_tasks (snd (App_Scheduler_addTask_execTime lt s (Some f) d e))) = (map t_func (m_tasks s))[i := Some f]"
      "m_initialized (snd (App_Scheduler_addTask_execTime lt s (Some f) d e)) = m_initialized s"
    unfolding ok(9) using ok(4) by (simp_all add: ok(8) set_task_def setPeriodicCb_def map_update)
  from ok(7) show thesis
  proof (elim disjE conjE)
    assume "t_func (m_tasks s ! i) = Some f"
    then have "(map t_func (m_tasks s))[i := Some f] = map t_func (m_tasks s)" using ok(3) by (simp add: list_update_same_conv)
    with F show thesis by (intro same) simp_all
  next
    assume n: "t_func (m_tasks s ! i) = None" "\<forall>j < length (m_tasks s). t_func (m_tasks s ! j) \<noteq> Some f"
    have "map t_func (m_tasks s) = take i (map t_func (m_tasks s)) @ None # drop (Suc i) (map t_func (m_tasks s))"
      using id_take_nth_drop [of i "map t_func (m_tasks s)"] n(1) ok(3) by simp
    moreover have "Some f \<notin> set (map t_func (m_tasks s))" using n(2) by (auto simp: in_set_conv_nth)
    moreover have "(map t_func (m_tasks s))[i := Some f] = take i (map t_func (m_tasks s)) @ Some f # drop (Suc i) (map t_func (m_tasks s))"
      using ok(3) by (simp add: upd_conv_take_nth_drop)
    ultimately show thesis using F by (intro fresh) simp_all
  qed
qed (use same in auto)

interpretation prov_joining_returns: joining_returns "end_joining_cb lt" prov_room
proof
  show "prov_room (snd (App_Scheduler_addTask_execTime lt s (Some f) d e))"
    if "prov_room s" "f \<in> {JOIN_run_state_machine, JOIN_timeout_task}" for s lt f d e
  proof (cases rule: add_funcs [of lt s f d e])
    case same
    then show ?thesis using that(1) by (simp only: prov_room_def)
  next
    case (fresh xs ys)
    then show ?thesis using that unfolding prov_room_def fresh(3,4) by (auto split: if_splits)
  qed
  show "prov_room (snd (App_Scheduler_cancelTask s cb))" if "prov_room s" for s cb
    using that by (simp only: prov_room_def cancel_funcs)
  fix res and w :: prov
  assume r: "prov_room (jn_sched w)"
  then have "None \<in> set (map t_func (m_tasks (jn_sched w))) \<or> Some PROV_run_state_machine \<in> set (map t_func (m_tasks (jn_sched w)))"
    unfolding prov_room_def by (metis count_list_0_iff less_nat_zero_code)
  with r have slot: "slot_for PROV_run_state_machine (jn_sched w)" by (auto simp: slot_for_funcs prov_room_def)
  have "prov_room (snd (App_Scheduler_addTask_execTime lt (jn_sched w) (Some PROV_run_state_machine) 0 500))"
  proof (cases rule: add_funcs [of lt "jn_sched w" PROV_run_state_machine 0 500])
    case same
    then show ?thesis using r by (simp only: prov_room_def)
  next
    case (fresh xs ys)
    then show ?thesis using r unfolding prov_room_def fresh(3,4) by simp
  qed
  then show "\<exists>w'. end_joining_cb lt res w = Some w' \<and> prov_room (jn_sched w') \<and> jn_buffer w' = jn_buffer w"
    using slot by (simp add: end_joining_cb_eq)
qed

text \<open>C23: a joining session ends.  As long as the task table has room for the tasks of the
  two libraries and the retries are at most 254 (with 255 the session never ends, see
  \<open>retries_without_end\<close>), every sequence of events is handled, whatever the stack answers, and of all
  events at most \<open>4 * nb_retry + 3\<close> change the state or the count of retries; when the
  session is over, its end was reported to the provisioning library; the invariant of the
  session holds throughout, so that the node listens to route changes only while it waits
  for one.\<close>

theorem joining_session_ends:
  assumes "join_inv w" "join_ready prov_room w" "jn_state w = JOIN_STATE_START" "jn_retry w = 0" "list_all event_ok evs"
  shows "\<exists>n w'. join_exec (end_joining_cb lt) evs w = Some (n, w') \<and> join_inv w' \<and> n \<le> 4 * unat (nb_retry w) + 3 \<and>
     (\<not> in_session w' \<longrightarrow> end_calls w < end_calls w')"
proof -
  obtain n w' where x: "join_exec (end_joining_cb lt) evs w = Some (n, w')"
    using prov_joining_returns.exec_returns [OF assms(1,2,5)] by blast
  moreover have "in_session w" "join_left w = 4 * unat (nb_retry w) + 3"
    using assms(3,4) by (simp_all add: in_session_def join_left_def join_phase_def)
  ultimately show ?thesis using prov_joining.exec_bound [OF x assms(1)] by fastforce
qed

definition prov_example :: prov where
  "prov_example = \<lparr>jn_sched = App_Scheduler_init us_clock (sched_boot 6), jn_stack = stack_state_example, jn_calls = [], jn_retry = 0,
     jn_state = JOIN_STATE_START, jn_events = no_join_events,
     jn_conf = Some \<lparr>jc_joining_cb = Some (\<lambda>buf p. None), jc_end_cb_set = True, jc_nb_retry = 2\<rparr>,
     jn_buffer = [zero_beacon], jn_num_beacons = 0,
     pv_calls = [], pv_events = no_prov_events, pv_retry = 0, pv_timeout_ms = 0, pv_session_id = 5, pv_state = PROV_STATE_WAIT_JOINING,
     pv_conf = Some \<lparr>pc_method = PROV_METHOD_SECURED, pc_nb_retry = 2, pc_timeout_s = 10, pc_uid = Some [1, 2, 3], pc_uid_len = 3,
       pc_key = replicate 32 7, pc_key_len = 32, pc_end_cb = Some (\<lambda>_. True), pc_user_data_cb = True, pc_beacon_joining_cb = Some (\<lambda>buf p. None)\<rparr>,
     pv_iv = replicate 16 9, pv_buffer = replicate 102 0, pv_length = 0, pv_joining_res = PROV_RES_SUCCESS,
     pv_data = empty_data, pv_random = \<lparr>rn_seed = 1, rn_value = 0\<rparr>\<rparr>"

lemma prov_example_ok: "join_inv prov_example" "join_ready prov_room prov_example" "prov_room (jn_sched prov_example)"
proof -
  have F: "map t_func (m_tasks (App_Scheduler_init us_clock (sched_boot 6))) = [None, None, None, None, None, None :: prov_task option]"
    "m_initialized (App_Scheduler_init us_clock (sched_boot 6 :: prov_task sched))"
    by (simp_all add: App_Scheduler_init_def sched_boot_def numeral_eq_Suc)
  then show room: "prov_room (jn_sched prov_example)" unfolding prov_room_def prov_example_def joining.simps F by simp
  show "join_ready prov_room prov_example"
    using room by (simp add: join_ready_def) (simp add: prov_example_def)
  show "join_inv prov_example"
    by (simp add: join_inv_def nb_retry_def in_session_def prov_example_def ss_wf_def ss_subs_def stack_state_example_def ROUTE_CHANGED_CB_def)
qed

theorem joining_session_ends_witness:
  "\<exists>n w'. join_exec (end_joining_cb us_clock) [Ev_route us_clock, Ev_timeout us_clock] prov_example = Some (n, w') \<and> join_inv w' \<and> n \<le> 11"
proof -
  have "nb_retry prov_example = 2" "jn_state prov_example = JOIN_STATE_START" "jn_retry prov_example = 0"
    by (simp_all add: nb_retry_def prov_example_def)
  then show ?thesis
    using joining_session_ends [OF prov_example_ok(1,2), of "[Ev_route us_clock, Ev_timeout us_clock]" us_clock] by (auto simp: event_ok_def)
qed

subsection \<open>The end of a provisioning session\<close>

text \<open>\<open>reset_provisioning\<close> returns exactly when the table has a slot for the state machine;
  the joining library reports its end, which overwrites the result of the joining.\<close>

lemma reset_provisioning_eq:
  "reset_provisioning lt w =
     (if jn_conf w \<noteq> None \<and> slot_for PROV_run_state_machine (jn_sched w)
      then end_joining_cb lt PROV_RES_STOPPED (jn_log (End_cb PROV_RES_STOPPED) (reset_joining True (clear_provisioning w)))
      else None)"
  by (auto simp: reset_provisioning_def Provisioning_Joining_stop_def end_joining_def call_end_cb_def end_joining_cb_eq split: bind_splits)

lemma clear_provisioning_keeps [simp]:
  "pv_retry (clear_provisioning w) = pv_retry w" "pv_session_id (clear_provisioning w) = pv_session_id w"
  "pv_buffer (clear_provisioning w) = pv_buffer w" "pv_length (clear_provisioning w) = pv_length w"
  "pv_data (clear_provisioning w) = pv_data w" "pv_iv (clear_provisioning w) = pv_iv w"
  by (simp_all add: clear_provisioning_def pv_log_def jn_cancel_task_def Let_def)

lemma joining_keeps_prov [simp]:
  "pv_calls (jn_log c w) = pv_calls w" "pv_state (jn_log c w) = pv_state w" "pv_events (jn_log c w) = pv_events w"
  "pv_conf (jn_log c w) = pv_conf w" "pv_retry (jn_log c w) = pv_retry w" "pv_data (jn_log c w) = pv_data w"
  "pv_calls (reset_joining b w) = pv_calls w" "pv_state (reset_joining b w) = pv_state w" "pv_events (reset_joining b w) = pv_events w"
  "pv_conf (reset_joining b w) = pv_conf w" "pv_retry (reset_joining b w) = pv_retry w" "pv_data (reset_joining b w) = pv_data w"
  by (simp_all add: jn_log_def reset_joining_def Let_def jn_cancel_task_def jn_unsubscribe_def)

lemma reset_done:
  assumes "reset_provisioning lt w = Some w'"
  shows "pv_state w' = PROV_STATE_IDLE" "pv_joining_res w' = PROV_RES_STOPPED" "pv_conf w' = pv_conf w" "jn_state w' = JOIN_STATE_IDLE"
    "pv_calls w' = pv_calls w @ [Remove_rx_cb, Shutdown_cb_null]" "pv_events w' = no_prov_events\<lparr>pe_joined := True\<rparr>"
    "jn_conf w' = jn_conf w" "pv_data w' = pv_data w"
  using assms by (auto simp: reset_provisioning_eq end_joining_cb_eq split: if_splits)

lemma schedule_prov_eq:
  assumes "jn_conf w \<noteq> None"
  shows "schedule_prov lt w = (if slot_for PROV_run_state_machine (jn_sched w)
     then Some (w\<lparr>jn_sched := snd (App_Scheduler_addTask_execTime lt (jn_sched w) (Some PROV_run_state_machine) 0 500)\<rparr>) else None)"
proof (cases "slot_for PROV_run_state_machine (jn_sched w)")
  case True
  then obtain s where "App_Scheduler_addTask_execTime lt (jn_sched w) (Some PROV_run_state_machine) 0 500 = (APP_SCHEDULER_RES_OK, s)"
    using add_iff [of lt "jn_sched w" PROV_run_state_machine 0] by (metis prod.collapse)
  with True show ?thesis by (simp add: schedule_prov_def jn_add_task_def APP_SCHEDULER_SCHEDULE_ASAP_def)
next
  case False
  then obtain s where "jn_add_task lt PROV_run_state_machine APP_SCHEDULER_SCHEDULE_ASAP w = (False, w\<lparr>jn_sched := s\<rparr>)" "s = jn_sched w"
    using jn_add_task_slot [of lt PROV_run_state_machine APP_SCHEDULER_SCHEDULE_ASAP w] by metis
  with False show ?thesis by (simp add: schedule_prov_def end_provisioning_def reset_provisioning_eq)
qed

lemma prov_pkt_received_eq:
  assumes "length (pv_buffer w) = PROV_PDU_SIZE"
  shows "prov_pkt_received_cb lt bytes w = map_option (\<lambda>w. (APP_LIB_DATA_RECEIVE_RES_HANDLED, w))
      (schedule_prov lt (w\<lparr>pv_events := (pv_events w)\<lparr>pe_rxd_packet := True\<rparr>, pv_length := of_nat (min (length bytes) PROV_PDU_SIZE),
         pv_buffer := take PROV_PDU_SIZE bytes @ drop (length bytes) (pv_buffer w)\<rparr>))"
proof -
  have "wr_bytes (pv_buffer w) 0 (take (min (length bytes) PROV_PDU_SIZE) bytes) = Some (take PROV_PDU_SIZE bytes @ drop (length bytes) (pv_buffer w))"
    using assms by (simp add: wr_bytes_def min_def)
  moreover have "(if length bytes > PROV_PDU_SIZE then PROV_PDU_SIZE else length bytes) = min (length bytes) PROV_PDU_SIZE" by simp
  ultimately show ?thesis by (simp add: prov_pkt_received_cb_def Let_def map_option_case split: option.splits)
qed

text \<open>C24: the callbacks of the module store the packet, raise their event and schedule the
  state machine, and they return exactly when the task table has a slot for it.  Without a
  slot the handling of the error stops the joining library, whose callback finds the table
  full again, and so on without end.\<close>

theorem provisioning_callbacks_return:
  assumes "jn_conf w \<noteq> None" "length (pv_buffer w) = PROV_PDU_SIZE"
  shows "if slot_for PROV_run_state_machine (jn_sched w)
     then (\<exists>w1 w2 w3 w4.
         prov_pkt_received_cb lt bytes w = Some (APP_LIB_DATA_RECEIVE_RES_HANDLED, w1) \<and>
         pe_rxd_packet (pv_events w1) \<and> take (unat (pv_length w1)) (pv_buffer w1) = take PROV_PDU_SIZE bytes \<and>
         slot_for PROV_run_state_machine (jn_sched w1) \<and>
         prov_timeout_task lt w = Some (APP_SCHEDULER_STOP_TASK, w2) \<and> pe_timeout (pv_events w2) \<and>
         prov_packet_sent_cb lt w = Some w3 \<and> pe_ack_sent (pv_events w3) \<and>
         end_joining_cb lt res w = Some w4 \<and> pe_joined (pv_events w4) \<and> pv_joining_res w4 = res)
     else prov_pkt_received_cb lt bytes w = None \<and> prov_timeout_task lt w = None \<and> prov_packet_sent_cb lt w = None \<and>
         end_joining_cb lt res w = None"
proof -
  have u: "unat (of_nat (min (length bytes) PROV_PDU_SIZE) :: u8) = min (length bytes) PROV_PDU_SIZE"
    by (rule unat_of_nat_small) (simp add: prov_consts)
  have t: "take (min (length bytes) PROV_PDU_SIZE) bytes = take PROV_PDU_SIZE bytes" by (simp add: min_def)
  have slot: "slot_for PROV_run_state_machine (snd (App_Scheduler_addTask_execTime lt s (Some PROV_run_state_machine) d 500))"
    if "slot_for PROV_run_state_machine s" for s d
    by (cases rule: add_funcs [of lt s PROV_run_state_machine d 500]) (use that in \<open>auto simp: slot_for_funcs simp del: set_map\<close>)
  show ?thesis
    using assms(1) u slot t unfolding prov_pkt_received_eq [OF assms(2)]
    by (auto simp: schedule_prov_eq prov_timeout_task_def prov_packet_sent_cb_def end_joining_cb_eq)
qed

theorem provisioning_callbacks_return_witness:
  "\<exists>w. prov_pkt_received_cb us_clock [3, 4, 5] prov_example = Some (APP_LIB_DATA_RECEIVE_RES_HANDLED, w) \<and>
     take (unat (pv_length w)) (pv_buffer w) = [3, 4, 5]"
proof -
  have "slot_for PROV_run_state_machine (jn_sched prov_example)"
    by (simp add: slot_for_funcs prov_example_def App_Scheduler_init_def sched_boot_def)
  moreover have "jn_conf prov_example \<noteq> None" "length (pv_buffer prov_example) = PROV_PDU_SIZE"
    by (simp_all add: prov_example_def prov_consts)
  ultimately show ?thesis
    using provisioning_callbacks_return [of prov_example us_clock "[3, 4, 5]" PROV_RES_SUCCESS] by (auto simp: prov_consts)
qed

text \<open>A joining session that fails is reported to the client as stopped, whatever the
  reason: the reset overwrites the stored result before it is reported.\<close>

lemma joining_failure_reported_as_stopped:
  assumes "pe_joined (pv_events w)" "pv_joining_res w \<noteq> PROV_RES_SUCCESS" "prov_state_wait_joining env w = Some (d, w')"
  shows "pv_calls w' = pv_calls w @ [Remove_rx_cb, Shutdown_cb_null, Client_end PROV_RES_STOPPED]"
  using assms
  by (auto simp: prov_state_wait_joining_def client_end_def pv_log_def reset_done split: bind_splits option.splits if_splits)

text \<open>The timeout of the configuration is doubled with every retry, on 16 bits and also
  across sessions: a timeout of 32768 s becomes 0.\<close>

lemma timeout_wraps:
  assumes "\<not> pe_rxd_packet (pv_events w)" "pe_timeout (pv_events w)" "pv_conf w = Some conf" "pc_timeout_s conf = 0x8000"
    "pv_retry w + 1 \<le> pc_nb_retry conf" "prov_state_wait_data env w = Some (d, w')"
  shows "pv_state w' = PROV_STATE_START \<and> (\<exists>conf'. pv_conf w' = Some conf' \<and> pc_timeout_s conf' = 0)"
proof -
  have "\<not> pc_nb_retry conf < pv_retry w + 1" using assms(5) by simp
  then show ?thesis using assms by (auto simp: prov_state_wait_data_def prov_retry_def pv_log_def jn_cancel_task_def Let_def)
qed

subsection \<open>Data packets\<close>

text \<open>The plain text of a secured packet of \<open>len\<close> bytes in the buffer.\<close>

definition packet_stream :: "u8 list \<Rightarrow> u8 list \<Rightarrow> u8 list \<Rightarrow> aes_data_stream" where
  "packet_stream key iv buffer =
     aes_setupStream (drop ENC_KEY_OFFSET key)
       (bytes_of_ctr (ctr_add (ctr_of_bytes iv) (ucast (buffer ! 7) OR push_bit 8 (ucast (buffer ! 8))))) zero_stream"

definition plain_buffer :: "block_cipher \<Rightarrow> u8 list \<Rightarrow> u8 list \<Rightarrow> nat \<Rightarrow> u8 list \<Rightarrow> u8 list" where
  "plain_buffer aes key iv len buffer =
     take 9 buffer @ fst (aes_crypto128Ctr aes (packet_stream key iv buffer) (take (len - 9) (drop 9 buffer))) @ drop len buffer"

definition packet_tag :: "block_cipher \<Rightarrow> u8 list \<Rightarrow> u8 list \<Rightarrow> u8 list" where
  "packet_tag aes key bytes = aes_omac1 aes (aes_initOmac1 aes key zero_omac) 5 bytes"

lemma wrapped_length: "unat (len :: u8) < n \<Longrightarrow> n \<le> 255 \<Longrightarrow> unat (len - of_nat n) = 256 + unat len - n"
  by (simp add: unat_sub_if' unat_of_nat_small)

lemma long_length: "n \<le> unat (len :: u8) \<Longrightarrow> unat (len - of_nat n) = unat len - n"
  using unat_lt_8 [of len] by (subst unat_minus_le) (simp_all add: word_le_nat_alt unat_of_nat_small)

lemma decrypt_packet_eq:
  assumes "aes_ok (en_aes env)" "length buffer = 102" "unat len \<le> 102"
  shows "decrypt_packet env key iv (len - 14) len buffer =
     (if unat len < 14 then None
      else let buffer = plain_buffer (en_aes env) key iv (unat len) buffer
           in Some (if packet_tag (en_aes env) key (take (unat len - 5) buffer) \<noteq> take 5 (drop (unat len - 5) buffer)
                then PROV_RES_INVALID_DATA else PROV_RES_SUCCESS, buffer))"
proof (cases "unat len < 14")
  case True
  then have "unat (len - 14) = 242 + unat len" using wrapped_length [of len 14] by simp
  then show ?thesis using True assms(2) by (simp add: decrypt_packet_def rd_def rd_bytes_def prov_consts Let_def)
next
  case False
  then have u: "unat (len - 14) = unat len - 14" using long_length [of 14 len] by simp
  have e: "unat len - 14 + 5 = unat len - 9" "9 + (unat len - 9) = unat len" "9 + (unat len - 14) = unat len - 5" "unat len - 5 + 5 = unat len"
    using False by simp_all
  have l: "length (plain_buffer (en_aes env) key iv (unat len) buffer) = 102"
    using assms False by (simp add: plain_buffer_def)
  show ?thesis using False assms l
    by (simp add: decrypt_packet_def rd_def prov_consts Let_def u e rd_bytes_in wr_bytes_in packet_stream_def [symmetric, unfolded prov_consts]
      plain_buffer_def packet_tag_def)
qed

text \<open>What the dry run makes of the bytes of a packet.\<close>

definition dry_run_ok :: "prov_env \<Rightarrow> u8 list \<Rightarrow> provisioning_data \<Rightarrow> provisioning_data \<Rightarrow> bool" where
  "dry_run_ok env bytes d d' \<longleftrightarrow>
     Provisioning_Data_decode (en_ub env) (en_settings env) (en_parser env)
       \<lparr>dc_end_cb = None, dc_user_data_cb = False, dc_buffer = bytes\<rparr> True d = Decoded PROV_RET_OK d' []"

lemma dry_run_cases:
  assumes "keys_ok d"
  obtains (ok) d' where "dry_run_ok env bytes d d'"
  | (bad) ret d' calls where "\<And>d'. \<not> dry_run_ok env bytes d d'" "ret \<noteq> PROV_RET_OK"
      "Provisioning_Data_decode (en_ub env) (en_settings env) (en_parser env)
         \<lparr>dc_end_cb = None, dc_user_data_cb = False, dc_buffer = bytes\<rparr> True d = Decoded ret d' calls"
proof (cases "Provisioning_Data_decode (en_ub env) (en_settings env) (en_parser env)
      \<lparr>dc_end_cb = None, dc_user_data_cb = False, dc_buffer = bytes\<rparr> True d")
  case (Decoded ret d' calls)
  show thesis
  proof (cases "ret = PROV_RET_OK")
    case True
    have "calls = []" using Decoded True parse_map_success [OF assms]
      by (auto simp: Provisioning_Data_decode_def split: if_splits cbor_top.splits prod.splits)
    with Decoded True show thesis by (intro ok) (simp add: dry_run_ok_def)
  next
    case False
    with Decoded show thesis by (intro bad [of ret d' calls]) (auto simp: dry_run_ok_def)
  qed
next
  case (Rebooted settings calls)
  then show thesis by (auto simp: Provisioning_Data_decode_def split: if_splits cbor_top.splits prod.splits)
qed

lemma process_secured_packet:
  assumes "aes_ok (en_aes env)" "length (pv_buffer w) = 102" "unat (pv_length w) \<le> 102" "pv_conf w = Some conf"
    "is_secured (pc_method conf)" "pv_buffer w ! 6 = 1"
  defines "n \<equiv> unat (pv_length w)"
  defines "plain \<equiv> plain_buffer (en_aes env) (pc_key conf) (pv_iv w) n (pv_buffer w)"
  shows "process_data_packet env w =
     (if n < 14 then None
      else if packet_tag (en_aes env) (pc_key conf) (take (n - 5) plain) = take 5 (drop (n - 5) plain)
      then (case Provisioning_Data_decode (en_ub env) (en_settings env) (en_parser env)
              \<lparr>dc_end_cb = None, dc_user_data_cb = False, dc_buffer = take (n - 14) (drop 9 plain)\<rparr> True (pv_data w) of
             Decoded ret d calls \<Rightarrow>
               Some (if ret \<noteq> PROV_RET_OK then PROV_RES_INVALID_DATA else PROV_RES_SUCCESS, w\<lparr>pv_buffer := plain, pv_data := d\<rparr>)
           | Rebooted _ _ \<Rightarrow> None)
      else Some (PROV_RES_INVALID_DATA, w\<lparr>pv_buffer := plain\<rparr>))"
proof -
  have m: "pc_method conf \<noteq> PROV_METHOD_UNSECURED" using assms(5) by (auto simp: is_secured_def)
  have l: "pv_length w - 9 - 5 = pv_length w - 14" by simp
  note d = decrypt_packet_eq [OF assms(1-3), of "pc_key conf" "pv_iv w", folded n_def, folded plain_def]
  show ?thesis
  proof (cases "n < 14")
    case True
    then show ?thesis using d assms(2,4,5,6) m
      by (simp add: process_data_packet_def rd_def prov_consts Let_def l)
  next
    case False
    have n: "n \<le> 102" using assms(3) by (simp add: n_def)
    have u: "unat (pv_length w - 14) = n - 14" using False long_length [of 14 "pv_length w"] by (simp add: n_def)
    have p: "length plain = 102" using assms(1,2) False n by (simp add: plain_def plain_buffer_def)
    have rd: "rd_bytes plain 9 (n - 14) = Some (take (n - 14) (drop 9 plain))" using p n by (simp add: rd_bytes_in)
    show ?thesis using False d assms(2,4,5,6) m rd u by (simp add: process_data_packet_def rd_def prov_consts Let_def l)
  qed
qed

text \<open>C22: the check of a secured data packet.  A packet of at least 14 bytes is decrypted
  inside of the buffer and accepted exactly when the tag of its header and plain data is the
  one it carries and the data between them pass the dry run of the decoder; nothing outside
  of the packet changes.  For shorter packets the length wraps around and the code accesses
  memory beyond the buffer.\<close>

theorem secured_packet_checked:
  assumes "aes_ok (en_aes env)" "length (pv_buffer w) = 102" "unat (pv_length w) \<le> 102" "pv_conf w = Some conf"
    "is_secured (pc_method conf)" "pv_buffer w ! 6 = 1" "keys_ok (pv_data w)"
  defines "n \<equiv> unat (pv_length w)"
  defines "plain \<equiv> plain_buffer (en_aes env) (pc_key conf) (pv_iv w) n (pv_buffer w)"
  shows "if n < 14 then process_data_packet env w = None
     else \<exists>res d'. process_data_packet env w = Some (res, w\<lparr>pv_buffer := plain, pv_data := d'\<rparr>) \<and>
       length plain = 102 \<and> take 9 plain = take 9 (pv_buffer w) \<and> drop n plain = drop n (pv_buffer w) \<and>
       (res = PROV_RES_SUCCESS \<longleftrightarrow>
          packet_tag (en_aes env) (pc_key conf) (take (n - 5) plain) = take 5 (drop (n - 5) plain) \<and>
          (\<exists>d. dry_run_ok env (take (n - 14) (drop 9 plain)) (pv_data w) d)) \<and>
       (res = PROV_RES_SUCCESS \<longrightarrow> dry_run_ok env (take (n - 14) (drop 9 plain)) (pv_data w) d') \<and>
       (res \<noteq> PROV_RES_SUCCESS \<longrightarrow> res = PROV_RES_INVALID_DATA)"
proof (cases "n < 14")
  case True
  then show ?thesis using process_secured_packet [OF assms(1-6)] by (simp add: n_def)
next
  case n: False
  have p: "length plain = 102" "take 9 plain = take 9 (pv_buffer w)" "drop n plain = drop n (pv_buffer w)"
    using assms(1-3) n by (simp_all add: plain_def plain_buffer_def n_def)
  define tag where "tag \<longleftrightarrow> packet_tag (en_aes env) (pc_key conf) (take (n - 5) plain) = take 5 (drop (n - 5) plain)"
  note run = process_secured_packet [OF assms(1-6), folded n_def, folded plain_def, folded tag_def]
  show ?thesis
  proof (cases tag)
    case False
    then show ?thesis using n p run unfolding tag_def [symmetric] by (auto intro!: exI [of _ "pv_data w"])
  next
    case True
    show ?thesis
    proof (cases rule: dry_run_cases [OF assms(7), of env "take (n - 14) (drop 9 plain)"])
      case (1 d')
      then show ?thesis using True n p run unfolding tag_def [symmetric] by (auto simp: dry_run_ok_def)
    next
      case (2 ret d' calls)
      then show ?thesis using True n p run unfolding tag_def [symmetric] by auto
    qed
  qed
qed

definition env_example :: prov_env where
  "env_example = \<lparr>en_time = us_clock, en_aes = toy_cipher, en_parser = (\<lambda>_. Map (stream_of some_items)), en_settings = any_settings,
     en_ub = 1000, en_sendData = APP_LIB_DATA_SEND_RES_SUCCESS, en_next_hop = 17, en_node_address = 33, en_hp = (\<lambda>_. 0)\<rparr>"

text \<open>A packet of ten bytes makes the node access memory outside of its buffer.\<close>

theorem secured_packet_checked_witness:
  "process_data_packet env_example (prov_example\<lparr>pv_buffer := (replicate 102 0)[6 := 1], pv_length := 10\<rparr>) = None"
proof -
  let ?w = "prov_example\<lparr>pv_buffer := (replicate 102 0)[6 := 1], pv_length := 10\<rparr>"
  obtain conf where c: "pv_conf ?w = Some conf" "is_secured (pc_method conf)" by (simp add: prov_example_def is_secured_def)
  have "aes_ok (en_aes env_example)" "length (pv_buffer ?w) = 102" "unat (pv_length ?w) \<le> 102" "pv_buffer ?w ! 6 = 1" "keys_ok (pv_data ?w)"
    by (simp_all add: env_example_def toy_cipher_ok keys_ok_def) (simp_all add: prov_example_def empty_data_def)
  from secured_packet_checked [OF this(1-3) c this(4,5)] show ?thesis by simp
qed

end
