(* ===== verification/Prov_Proxy.thy ===== *)
theory Prov_Proxy
  imports Provisioning
begin

text \<open>
  \<open>libraries/provisioning/proxy.c\<close>: a node of the network that sends joining beacons and
  answers START packets of new nodes with the network parameters, or forwards them to the
  sink.

  The CBOR encoder of the vendored tinycbor is a parameter: the bytes one call appends.
  Calls of the stack and of \<open>shared_data.c\<close> are recorded in \<open>px_calls\<close>.  With the node of
  \<open>provisioning.c\<close> the proxy transfers its network parameters (\<open>parameters_transferred\<close>).
\<close>

subsection \<open>Data\<close>

record net_param =
  np_enc_key :: "u8 list"
  np_auth_key :: "u8 list"
  np_net_addr :: u32
  np_net_chan :: u8

record proxy_conf =
  xc_payload :: "u8 list option"
  xc_num_bytes :: u8
  xc_tx_power :: int
  xc_is_local_unsec_allowed :: bool
  xc_is_local_sec_allowed :: bool
  xc_key :: "u8 list"
  xc_key_len :: u8
  xc_start_cb :: "(u8 list \<Rightarrow> u8 \<Rightarrow> net_param \<Rightarrow> bool \<times> net_param) option"

text \<open>\<open>app_lib_joining_beacon_tx_param_t\<close>.  The channel depends on the MAC profile the
  library is built for, \<open>ism24\<close> is whether it is \<open>MAC_PROFILE_ISM24\<close>.\<close>

record joining_beacon_tx_param =
  bt_interval :: u32
  bt_addr :: u32
  bt_channel :: u8
  bt_tx_power :: int
  bt_type :: u32
  bt_payload :: "u8 list option"
  bt_payload_num_bytes :: u8

definition JOINING_NETWORK_ADDRESS :: u32 where "JOINING_NETWORK_ADDRESS = 0x9E4ADC"
definition JOINING_NETWORK_CHANNEL :: "bool \<Rightarrow> u8" where "JOINING_NETWORK_CHANNEL ism24 = (if ism24 then 36 else 4)"
definition JOINING_TX_INTERVAL :: u32 where "JOINING_TX_INTERVAL = 500"

datatype proxy_call =
  Enable_proxy bool | Proxy_add_rx_cb | Proxy_remove_rx_cb | Start_beacon_tx joining_beacon_tx_param | Stop_beacon_tx
| Proxy_send "u8 list" u32 u8 u8

record proxy =
  px_conf :: "proxy_conf option"
  px_net_param :: net_param
  px_started :: bool
  px_init :: bool
  px_counter :: u16
  px_random :: random
  px_calls :: "proxy_call list"

text \<open>A received packet: the structure \<open>app_lib_data_received_t\<close> begins with the pointer to
  the bytes, their number and the address of the sender.\<close>

record rx_packet =
  rp_bytes_ptr :: u32
  rp_bytes :: "u8 list"
  rp_src_address :: u32

definition rx_struct :: "rx_packet \<Rightarrow> u8 list" where
  "rx_struct p = le_bytes (rp_bytes_ptr p) 4 @ le_bytes (of_nat (length (rp_bytes p))) 4 @ le_bytes (rp_src_address p) 4"

definition px_log :: "proxy_call \<Rightarrow> proxy \<Rightarrow> proxy" where
  "px_log c x = x\<lparr>px_calls := px_calls x @ [c]\<rparr>"

subsection \<open>Packets\<close>

text \<open>\<open>send_nack\<close> casts the structure, not the bytes it points to, and marks the packet as
  DATA.\<close>

definition send_nack :: "u8 \<Rightarrow> rx_packet \<Rightarrow> proxy \<Rightarrow> proxy option" where
  "send_nack nack_type p x =
     do {
       address \<leftarrow> rd_bytes (rx_struct p) 1 4;
       session_id \<leftarrow> rd (rx_struct p) 5;
       let nack_pdu = PROV_PACKET_TYPE_DATA # address @ [session_id, nack_type];
       Some (px_log (Proxy_send nack_pdu (rp_src_address p) PROV_DOWNLINK_EP PROV_UPLINK_EP) x)
     }"

datatype cbor_op = Op_create_map nat | Op_value cbor_value | Op_close

type_synonym cbor_encoder = "cbor_op \<Rightarrow> u8 list"

fun encode_ops :: "cbor_encoder \<Rightarrow> nat \<Rightarrow> cbor_op list \<Rightarrow> u8 list \<Rightarrow> cbor_error + u8 list" where
  "encode_ops enc len [] out = Inr out"
| "encode_ops enc len (op # ops) out =
     (let out = out @ enc op
      in if length out > len then Inl CborErrorOutOfMemory else encode_ops enc len ops out)"

definition net_param_ops :: "net_param \<Rightarrow> cbor_op list" where
  "net_param_ops np =
     [Op_create_map 4,
      Op_value (Cbor_uint 0), Op_value (Cbor_bytes (np_enc_key np)),
      Op_value (Cbor_uint 1), Op_value (Cbor_bytes (np_auth_key np)),
      Op_value (Cbor_uint 2), Op_value (Cbor_uint (ucast (np_net_addr np))),
      Op_value (Cbor_uint 3), Op_value (Cbor_uint (ucast (np_net_chan np))),
      Op_close]"

definition encode_cbor_map :: "cbor_encoder \<Rightarrow> nat \<Rightarrow> net_param \<Rightarrow> cbor_error + u8 list" where
  "encode_cbor_map enc len np = encode_ops enc len (net_param_ops np) []"

text \<open>\<open>encrypt_data\<close> on the buffer of the packet.\<close>

definition encrypt_data :: "block_cipher \<Rightarrow> u8 list \<Rightarrow> u8 list \<Rightarrow> nat \<Rightarrow> u8 list \<Rightarrow> proxy \<Rightarrow> (u8 list \<times> proxy) option" where
  "encrypt_data aes key data_pdu data_len iv x =
     do {
       let x = x\<lparr>px_counter := px_counter x + 1\<rparr>;
       data_pdu \<leftarrow> wr data_pdu 6 1;
       data_pdu \<leftarrow> wr_bytes data_pdu 7 (le_bytes (ucast (px_counter x)) 2);
       let icb = ctr_add (ctr_of_bytes iv) (ucast (px_counter x));
       authed \<leftarrow> rd_bytes data_pdu 0 (data_len + PROV_DATA_OFFSET);
       let mic = aes_omac1 aes (aes_initOmac1 aes key zero_omac) PROV_MIC_SIZE authed;
       data_pdu \<leftarrow> wr_bytes data_pdu (PROV_DATA_OFFSET + data_len) mic;
       let data_stream = aes_setupStream (drop ENC_KEY_OFFSET key) (bytes_of_ctr icb) zero_stream;
       plain \<leftarrow> rd_bytes data_pdu PROV_DATA_OFFSET (data_len + PROV_MIC_SIZE);
       data_pdu \<leftarrow> wr_bytes data_pdu PROV_DATA_OFFSET (fst (aes_crypto128Ctr aes data_stream plain));
       Some (data_pdu, x)
     }"

text \<open>Generation and sending of the DATA packet, with the stack buffer of arbitrary
  content.\<close>

definition send_data_packet :: "block_cipher \<Rightarrow> cbor_encoder \<Rightarrow> u8 list \<Rightarrow> u8 list \<Rightarrow> rx_packet \<Rightarrow> proxy \<Rightarrow> proxy option" where
  "send_data_packet aes enc key data_buffer p x =
     do {
       address \<leftarrow> rd_bytes (rp_bytes p) 1 4;
       session_id \<leftarrow> rd (rp_bytes p) 5;
       method \<leftarrow> rd (rp_bytes p) 6;
       iv \<leftarrow> rd_bytes (rp_bytes p) 7 16;
       data_buffer \<leftarrow> wr_bytes data_buffer 0 (PROV_PACKET_TYPE_DATA # address @ [session_id, 0, 0, 0]);
       (case encode_cbor_map enc (PROV_PDU_SIZE - PROV_DATA_OFFSET - PROV_MIC_SIZE) (px_net_param x) of
          Inl err \<Rightarrow> Some x
        | Inr data \<Rightarrow>
            do {
              data_buffer \<leftarrow> wr_bytes data_buffer PROV_DATA_OFFSET data;
              (data_buffer, data_len, x) \<leftarrow>
                (if method = 1 then
                   do {
                     (data_buffer, x) \<leftarrow> encrypt_data aes key data_buffer (length data) iv x;
                     Some (data_buffer, length data + PROV_MIC_SIZE, x)
                   }
                 else Some (data_buffer, length data, x));
              pkt \<leftarrow> rd_bytes data_buffer 0 (PROV_DATA_OFFSET + data_len);
              Some (px_log (Proxy_send pkt (rp_src_address p) PROV_DOWNLINK_EP PROV_UPLINK_EP) x)
            })
     }"

definition proxy_pkt_received_cb ::
    "block_cipher \<Rightarrow> cbor_encoder \<Rightarrow> u8 list \<Rightarrow> rx_packet \<Rightarrow> proxy \<Rightarrow> (data_receive_res \<times> proxy) option" where
  "proxy_pkt_received_cb aes enc data_buffer p x =
     do {
       conf \<leftarrow> px_conf x;
       ptype \<leftarrow> rd (rp_bytes p) 0;
       if ptype \<noteq> PROV_PACKET_TYPE_START then Some (APP_LIB_DATA_RECEIVE_RES_HANDLED, x)
       else do {
         let uid_len = sint (of_int (int (length (rp_bytes p)) - 6 - 1 - 16) :: u8);
         if uid_len \<le> 0 then Some (APP_LIB_DATA_RECEIVE_RES_HANDLED, x)
         else do {
           method \<leftarrow> rd (rp_bytes p) 6;
           if method = 0 \<and> \<not> xc_is_local_unsec_allowed conf \<or> method = 1 \<and> \<not> xc_is_local_sec_allowed conf then
             do { x \<leftarrow> send_nack 1 p x; Some (APP_LIB_DATA_RECEIVE_RES_HANDLED, x) }
           else if method \<noteq> 0 \<and> method \<noteq> 1 then Some (APP_LIB_DATA_RECEIVE_RES_HANDLED, x)
           else do {
             uid \<leftarrow> rd_bytes (rp_bytes p) 23 (nat uid_len);
             let (accepted, x) =
               (case xc_start_cb conf of
                  None \<Rightarrow> (True, x)
                | Some start_cb \<Rightarrow> (case start_cb uid method (px_net_param x) of (a, np) \<Rightarrow> (a, x\<lparr>px_net_param := np\<rparr>)));
             if \<not> accepted then do { x \<leftarrow> send_nack 0 p x; Some (APP_LIB_DATA_RECEIVE_RES_HANDLED, x) }
             else do {
               x \<leftarrow> send_data_packet aes enc (xc_key conf) data_buffer p x;
               Some (APP_LIB_DATA_RECEIVE_RES_HANDLED, x)
             }
           }
         }
       }
     }"

subsection \<open>Interface\<close>

definition local_provisioning :: "proxy_conf \<Rightarrow> bool" where
  "local_provisioning conf \<longleftrightarrow> xc_is_local_sec_allowed conf \<or> xc_is_local_unsec_allowed conf"

definition Provisioning_Proxy_init :: "u32 \<Rightarrow> (nat \<Rightarrow> u32) \<Rightarrow> proxy_conf \<Rightarrow> proxy \<Rightarrow> provisioning_ret \<times> proxy" where
  "Provisioning_Proxy_init getUniqueId hp conf x =
     (if px_init x \<and> px_started x then (PROV_RET_INVALID_STATE, x)
      else if (xc_payload conf = None \<and> xc_num_bytes conf \<noteq> 0) \<or> (xc_payload conf \<noteq> None \<and> xc_num_bytes conf = 0)
      then (PROV_RET_INVALID_PARAM, x)
      else if local_provisioning conf \<and> (xc_is_local_sec_allowed conf \<and> xc_key_len conf = 0 \<or> xc_start_cb conf = None)
      then (PROV_RET_INVALID_PARAM, x)
      else
        (let x = x\<lparr>px_conf := Some conf\<rparr>;
             x = (if local_provisioning conf
                  then (let x = px_log Proxy_add_rx_cb (px_log (Enable_proxy False) x);
                            r = Random_init (getUniqueId XOR hp 0) (px_random x);
                            (c, r) = Random_get16 (hp 1) r
                        in x\<lparr>px_random := r, px_counter := c\<rparr>)
                  else x)
         in (PROV_RET_OK, x\<lparr>px_started := False, px_init := True\<rparr>)))"

definition Provisioning_Proxy_start :: "bool \<Rightarrow> app_res \<Rightarrow> proxy \<Rightarrow> (provisioning_ret \<times> proxy) option" where
  "Provisioning_Proxy_start ism24 startJoiningBeaconTx x =
     (if \<not> px_init x \<or> px_started x then Some (PROV_RET_INVALID_STATE, x)
      else do {
        conf \<leftarrow> px_conf x;
        let param =
          \<lparr>bt_interval = JOINING_TX_INTERVAL, bt_addr = JOINING_NETWORK_ADDRESS, bt_channel = JOINING_NETWORK_CHANNEL ism24,
           bt_tx_power = xc_tx_power conf, bt_type = JOINING_BEACON_TYPE, bt_payload = xc_payload conf,
           bt_payload_num_bytes = xc_num_bytes conf\<rparr>;
        let x = px_log (Start_beacon_tx param) x;
        if startJoiningBeaconTx \<noteq> APP_RES_OK then Some (PROV_RET_JOINING_LIB_ERROR, x)
        else do {
          let x = (if local_provisioning conf then px_log Proxy_add_rx_cb (px_log (Enable_proxy False) x) else x);
          Some (PROV_RET_OK, x\<lparr>px_started := True\<rparr>)
        }
      })"

definition Provisioning_Proxy_stop :: "app_res \<Rightarrow> proxy \<Rightarrow> (provisioning_ret \<times> proxy) option" where
  "Provisioning_Proxy_stop stopJoiningBeaconTx x =
     (if \<not> px_init x \<or> \<not> px_started x then Some (PROV_RET_INVALID_STATE, x)
      else do {
        conf \<leftarrow> px_conf x;
        let x = (if local_provisioning conf then px_log Proxy_remove_rx_cb (px_log (Enable_proxy True) x) else x);
        let x = px_log Stop_beacon_tx x;
        if stopJoiningBeaconTx \<noteq> APP_RES_OK then Some (PROV_RET_JOINING_LIB_ERROR, x)
        else Some (PROV_RET_OK, x\<lparr>px_started := False\<rparr>)
      })"

subsection \<open>The packets of the two sides\<close>

lemma length_pdu_header [simp]: "length (pdu_header t a i) = 6"
  by (simp add: pdu_header_def)

lemma start_packet_eq:
  assumes "pc_uid conf = Some uid" "unat (pc_uid_len conf) \<le> 79" "unat (pc_uid_len conf) \<le> length uid" "length (pv_iv w) = 16"
  shows "start_packet env conf w =
     Some (pdu_header PROV_PACKET_TYPE_START (en_node_address env) (pv_session_id w) @ [method_byte (pc_method conf)] @
       pv_iv w @ take (unat (pc_uid_len conf)) uid)"
proof -
  define k where "k = unat (pc_uid_len conf)"
  define h where "h = pdu_header PROV_PACKET_TYPE_START (en_node_address env) (pv_session_id w) @ [method_byte (pc_method conf)]"
  have h: "length h = 7" by (simp add: h_def)
  have k: "k \<le> 79" "k \<le> length uid" using assms by (simp_all add: k_def)
  have "wr_bytes (h @ replicate 95 0) 23 (take k uid) = Some (h @ replicate 16 0 @ take k uid @ replicate (79 - k) 0)"
    using h k by (simp add: wr_bytes_def min_def)
  moreover have "wr_bytes (h @ replicate 16 0 @ take k uid @ replicate (79 - k) 0) 7 (pv_iv w) =
      Some (h @ pv_iv w @ take k uid @ replicate (79 - k) 0)"
    using h k assms(4) by (simp add: wr_bytes_def min_def)
  moreover have "rd_bytes (h @ pv_iv w @ take k uid @ replicate (79 - k) 0) 0 (23 + k) = Some (h @ pv_iv w @ take k uid)"
    using h k assms(4) by (simp add: rd_bytes_def min_def)
  ultimately show ?thesis using assms(1,4) k unfolding start_packet_def k_def [symmetric]
    by (simp add: rd_bytes_def h_def)
qed

lemma encode_ops_fits:
  "length out + length (concat (map enc ops)) \<le> len \<Longrightarrow> encode_ops enc len ops out = Inr (out @ concat (map enc ops))"
  by (induction ops arbitrary: out) (simp_all add: Let_def)

text \<open>The packet before and after encryption.\<close>

definition plain_packet :: "u8 list \<Rightarrow> u16 \<Rightarrow> u8 list \<Rightarrow> u8 list" where
  "plain_packet hdr counter data = hdr @ [1] @ le_bytes (ucast counter) 2 @ data"

definition proxy_stream :: "u8 list \<Rightarrow> u8 list \<Rightarrow> u16 \<Rightarrow> aes_data_stream" where
  "proxy_stream key iv counter =
     aes_setupStream (drop ENC_KEY_OFFSET key) (bytes_of_ctr (ctr_add (ctr_of_bytes iv) (ucast counter))) zero_stream"

definition sealed_packet :: "block_cipher \<Rightarrow> u8 list \<Rightarrow> u8 list \<Rightarrow> u8 list \<Rightarrow> u16 \<Rightarrow> u8 list \<Rightarrow> u8 list" where
  "sealed_packet aes key iv hdr counter data =
     plain_packet hdr counter [] @
     fst (aes_crypto128Ctr aes (proxy_stream key iv counter) (data @ packet_tag aes key (plain_packet hdr counter data)))"

lemma length_packet_tag [simp]:
  assumes "aes_ok aes"
  shows "length (packet_tag aes key bytes) = 5"
proof -
  have "length (omac1_loop aes st X bs) = 16" if "length X = 16" for st X bs
    using assms that
  proof (induction aes st X bs rule: omac1_loop.induct)
    case (1 aes st X bs)
    have "length (aes (as_key (om_data st)) b) = 16" for b using 1(2) by (simp add: aes_ok_def)
    with 1 show ?case by (subst omac1_loop.simps) (simp add: Let_def)
  qed
  then show ?thesis by (simp add: packet_tag_def aes_omac1_def)
qed

lemma encrypt_data_eq:
  assumes "aes_ok aes" "length data_pdu = 102" "take 6 data_pdu = hdr" "take (length data) (drop 9 data_pdu) = data" "length data \<le> 88"
  shows "\<exists>rest. encrypt_data aes key data_pdu (length data) iv x =
     Some (sealed_packet aes key iv hdr (px_counter x + 1) data @ rest, x\<lparr>px_counter := px_counter x + 1\<rparr>)"
proof -
  define L where "L = length data"
  define c where "c = px_counter x + 1"
  define rest where "rest = drop (14 + L) data_pdu"
  define junk where "junk = take 5 (drop (9 + L) data_pdu)"
  define b678 where "b678 = take 3 (drop 6 data_pdu)"
  have "drop 9 data_pdu = data @ drop (9 + L) data_pdu"
    using append_take_drop_id [of L "drop 9 data_pdu"] assms(4) by (simp add: L_def add.commute)
  moreover have "drop 6 data_pdu = b678 @ drop 9 data_pdu"
    using append_take_drop_id [of 3 "drop 6 data_pdu"] by (simp add: b678_def)
  moreover have "drop (9 + L) data_pdu = junk @ rest"
    using append_take_drop_id [of 5 "drop (9 + L) data_pdu"] by (simp add: junk_def rest_def)
  ultimately have pdu: "data_pdu = hdr @ b678 @ data @ junk @ rest"
    using append_take_drop_id [of 6 data_pdu] assms(3) by simp
  have len: "length hdr = 6" "length b678 = 3" "length junk = 5"
    using assms(2,3,5) by (auto simp: b678_def junk_def L_def)
  obtain b6 b7 b8 where b: "b678 = [b6, b7, b8]" using len(2) by (auto simp: numeral_3_eq_3 length_Suc_conv)
  have e1: "wr data_pdu 6 1 = Some (hdr @ [1] @ [b7, b8] @ data @ junk @ rest)"
    using len by (simp add: wr_def pdu b list_update_append)
  have e2: "wr_bytes (hdr @ [1] @ [b7, b8] @ data @ junk @ rest) 7 (le_bytes (ucast c) 2) =
      Some (plain_packet hdr c data @ junk @ rest)"
    using len by (simp add: wr_bytes_def plain_packet_def)
  have lp: "length (plain_packet hdr c data) = 9 + L" using len by (simp add: plain_packet_def L_def)
  have e3: "rd_bytes (plain_packet hdr c data @ junk @ rest) 0 (L + 9) = Some (plain_packet hdr c data)"
    using lp by (simp add: rd_bytes_def add.commute)
  define mic where "mic = packet_tag aes key (plain_packet hdr c data)"
  have m: "length mic = 5" using assms(1) by (simp add: mic_def)
  have e4: "wr_bytes (plain_packet hdr c data @ junk @ rest) (9 + L) mic = Some (plain_packet hdr c data @ mic @ rest)"
    using lp m len by (simp add: wr_bytes_def)
  have split: "plain_packet hdr c data = plain_packet hdr c [] @ data" "length (plain_packet hdr c []) = 9"
    using len by (simp_all add: plain_packet_def)
  have e5: "rd_bytes (plain_packet hdr c data @ mic @ rest) 9 (L + 5) = Some (data @ mic)"
    using split m by (simp add: rd_bytes_def L_def)
  define out where "out = fst (aes_crypto128Ctr aes (proxy_stream key iv c) (data @ mic))"
  have lo: "length out = L + 5" using assms(1) m by (simp add: out_def L_def)
  have e6: "wr_bytes (plain_packet hdr c data @ mic @ rest) 9 out = Some (plain_packet hdr c [] @ out @ rest)"
    using split lo m by (simp add: wr_bytes_def L_def)
  have "encrypt_data aes key data_pdu L iv x = Some (plain_packet hdr c [] @ out @ rest, x\<lparr>px_counter := c\<rparr>)"
    unfolding encrypt_data_def
    using e1 e2 e3 e4 e5 e6
    by (simp add: c_def [symmetric] prov_consts Let_def mic_def packet_tag_def out_def proxy_stream_def)
  then show ?thesis by (auto simp: sealed_packet_def L_def c_def out_def mic_def)
qed

subsection \<open>The transfer of the network parameters\<close>

lemma counter_bytes:
  fixes c :: u16
  shows "ucast (ucast (ucast c :: u32) :: u8) OR push_bit 8 (ucast (ucast (drop_bit 8 (ucast c :: u32)) :: u8)) = (ucast c :: u32)"
  by (rule bit_word_eqI) (auto simp: bit_simps dest: bit_imp_le_length)

lemma packet_stream_sealed:
  assumes "length hdr = 6"
  shows "packet_stream key iv (sealed_packet aes key iv hdr c data @ rest) = proxy_stream key iv c"
proof -
  have "(sealed_packet aes key iv hdr c data @ rest) ! 7 = ucast (ucast c :: u32)"
    "(sealed_packet aes key iv hdr c data @ rest) ! 8 = ucast (drop_bit 8 (ucast c :: u32))"
    using assms by (simp_all add: sealed_packet_def plain_packet_def nth_append numeral_2_eq_2)
  then show ?thesis by (simp add: packet_stream_def proxy_stream_def counter_bytes)
qed

lemma length_sealed_packet:
  "aes_ok aes \<Longrightarrow> length hdr = 6 \<Longrightarrow> length (sealed_packet aes key iv hdr c data) = 14 + length data"
  by (simp add: sealed_packet_def plain_packet_def)

lemma plain_buffer_sealed:
  assumes "aes_ok aes" "length hdr = 6"
  shows "plain_buffer aes key iv (14 + length data) (sealed_packet aes key iv hdr c data @ rest) =
     plain_packet hdr c data @ packet_tag aes key (plain_packet hdr c data) @ rest"
proof -
  define s where "s = sealed_packet aes key iv hdr c data"
  define out where "out = fst (aes_crypto128Ctr aes (proxy_stream key iv c) (data @ packet_tag aes key (plain_packet hdr c data)))"
  have s: "s = plain_packet hdr c [] @ out" by (simp add: s_def sealed_packet_def out_def)
  have l: "length (plain_packet hdr c []) = 9" "length out = 5 + length data"
    using assms by (simp_all add: plain_packet_def out_def)
  have "fst (aes_crypto128Ctr aes (proxy_stream key iv c) out) = data @ packet_tag aes key (plain_packet hdr c data)"
    unfolding out_def using assms(1) by (rule ctr_twice) simp_all
  moreover have "take (14 + length data - 9) (drop 9 (s @ rest)) = out" "take 9 (s @ rest) = plain_packet hdr c []"
    "drop (14 + length data) (s @ rest) = rest"
    using l by (simp_all add: s)
  ultimately show ?thesis
    unfolding plain_buffer_def s_def [symmetric] using packet_stream_sealed [OF assms(2), of key iv aes c data rest]
    by (simp add: s_def [symmetric] plain_packet_def)
qed

text \<open>The parameters as the entries of the map the decoder sees.\<close>

definition np_items :: "net_param \<Rightarrow> (nat \<times> cbor_value) list" where
  "np_items np = [(0, Cbor_bytes (np_enc_key np)), (1, Cbor_bytes (np_auth_key np)),
     (2, Cbor_uint (ucast (np_net_addr np))), (3, Cbor_uint (ucast (np_net_chan np)))]"

definition np_valid :: "prov_env \<Rightarrow> net_param \<Rightarrow> bool" where
  "np_valid env np \<longleftrightarrow> length (np_enc_key np) = 16 \<and> length (np_auth_key np) = 16 \<and>
     np_net_addr np \<noteq> INVALID_NET_ADDR \<and> np_net_chan np \<noteq> INVALID_NET_CHAN \<and> ucast (np_net_addr np) \<le> en_ub env \<and>
     isValidNetworkAddress (en_settings env) (np_net_addr np) \<and> isValidNetworkChannel (en_settings env) (np_net_chan np)"

lemma ucast_u64 [simp]: "ucast (ucast (a :: u32) :: 64 word) = a" "ucast (ucast (c :: u8) :: 64 word) = c"
  "ucast (c :: u8) \<le> (511 :: 64 word)"
proof -
  have "unat (ucast c :: 64 word) = unat c" using unat_lt_8 [of c] by (simp add: unsigned_ucast_eq take_bit_nat_eq_self)
  then show "ucast (c :: u8) \<le> (511 :: 64 word)" using unat_lt_8 [of c] by (simp add: word_le_nat_alt)
qed (rule bit_word_eqI; auto simp: bit_simps)+

lemma np_items_stored:
  assumes "np_valid env np"
  shows "list_all (item_ok (en_ub env) (en_settings env)) (np_items np)" (is ?ok)
    and "fold store_item (np_items np) (no_data d) = (no_data d)\<lparr>pd_enc_key := np_enc_key np, pd_is_enc_key_set := True,
       pd_auth_key := np_auth_key np, pd_is_auth_key_set := True, pd_net_addr := np_net_addr np, pd_net_chan := np_net_chan np\<rparr>"
  using assms by (simp_all add: np_items_def np_valid_def item_ok_def store_item_def)

lemma np_dry_run:
  assumes "np_valid env np" "keys_ok d" "bytes \<noteq> []" "en_parser env bytes = Map (stream_of (np_items np))"
  shows "Provisioning_Data_decode (en_ub env) (en_settings env) (en_parser env)
       \<lparr>dc_end_cb = None, dc_user_data_cb = False, dc_buffer = bytes\<rparr> True d =
     Decoded PROV_RET_OK ((no_data d)\<lparr>pd_enc_key := np_enc_key np, pd_is_enc_key_set := True,
       pd_auth_key := np_auth_key np, pd_is_auth_key_set := True, pd_net_addr := np_net_addr np, pd_net_chan := np_net_chan np\<rparr>) []"
proof -
  have "parse_map (en_ub env) (en_settings env) False (stream_of (np_items np)) d [] =
      (CborNoError, fold store_item (np_items np) (no_data d), [])"
    unfolding parse_map_success [OF assms(2)] using np_items_stored [OF assms(1)] assms(1)
    by (intro exI [of _ "np_items np"]) (simp add: data_complete_def np_valid_def)
  then show ?thesis using assms(3,4) np_items_stored(2) [OF assms(1)] by (simp add: Provisioning_Data_decode_def)
qed

lemma process_data_reply:
  assumes "aes_ok (en_aes env)" "pv_conf w = Some conf" "is_secured (pc_method conf)" "length hdr = 6" "length data \<le> 88"
    "pv_buffer w = sealed_packet (en_aes env) (pc_key conf) (pv_iv w) hdr c data @ rest" "length (pv_buffer w) = 102"
    "unat (pv_length w) = 14 + length data"
    "Provisioning_Data_decode (en_ub env) (en_settings env) (en_parser env)
       \<lparr>dc_end_cb = None, dc_user_data_cb = False, dc_buffer = data\<rparr> True (pv_data w) = Decoded PROV_RET_OK d []"
  shows "\<exists>buffer. process_data_packet env w = Some (PROV_RES_SUCCESS, w\<lparr>pv_buffer := buffer, pv_data := d\<rparr>)"
proof -
  let ?p = "plain_packet hdr c data"
  have p: "plain_buffer (en_aes env) (pc_key conf) (pv_iv w) (unat (pv_length w)) (pv_buffer w) =
      ?p @ packet_tag (en_aes env) (pc_key conf) ?p @ rest"
    unfolding assms(6,8) by (rule plain_buffer_sealed) fact+
  have l: "length ?p = 9 + length data" "take (length data) (drop 9 ?p) = data" using assms(4) by (simp_all add: plain_packet_def)
  have "pv_buffer w ! 6 = 1" using assms(4,6) by (simp add: sealed_packet_def plain_packet_def nth_append)
  with process_secured_packet [of env w conf] assms(1,2,3,5,7,8,9) show ?thesis unfolding p using l by auto
qed

lemma send_data_packet_eq:
  assumes "aes_ok aes" "length buffer = 102" "rp_bytes p = ptype # le_bytes address 4 @ [sid] @ [1] @ iv @ uid" "length iv = 16"
    "concat (map enc (net_param_ops (px_net_param x))) = data" "length data \<le> 88"
  shows "send_data_packet aes enc key buffer p x =
     Some (px_log (Proxy_send (sealed_packet aes key iv (pdu_header PROV_PACKET_TYPE_DATA address sid) (px_counter x + 1) data)
       (rp_src_address p) PROV_DOWNLINK_EP PROV_UPLINK_EP) (x\<lparr>px_counter := px_counter x + 1\<rparr>))"
proof -
  define hdr where "hdr = pdu_header PROV_PACKET_TYPE_DATA address sid"
  define b1 where "b1 = hdr @ [0, 0, 0] @ drop 9 buffer"
  define b2 where "b2 = hdr @ [0, 0, 0] @ data @ drop (9 + length data) buffer"
  have h: "length hdr = 6" by (simp add: hdr_def)
  have r: "rd_bytes (rp_bytes p) 1 4 = Some (le_bytes address 4)" "rd (rp_bytes p) 5 = Some sid" "rd (rp_bytes p) 6 = Some 1"
    "rd_bytes (rp_bytes p) 7 16 = Some iv"
    using assms(4) by (simp_all add: assms(3) rd_bytes_def rd_def nth_append)
  have w1: "wr_bytes buffer 0 (PROV_PACKET_TYPE_DATA # le_bytes address 4 @ [sid, 0, 0, 0]) = Some b1"
    using assms(2) by (simp add: wr_bytes_def b1_def hdr_def pdu_header_def)
  have w2: "wr_bytes b1 9 data = Some b2"
    using assms(2,6) h by (simp add: wr_bytes_def b1_def b2_def add.commute numeral_3_eq_3)
  have e: "encode_cbor_map enc 88 (px_net_param x) = Inr data"
    using encode_ops_fits [of "[]" enc "net_param_ops (px_net_param x)" 88] assms(5,6) by (simp add: encode_cbor_map_def)
  have b2: "length b2 = 102" "take 6 b2 = hdr" "take (length data) (drop 9 b2) = data" using h assms(2,6) by (simp_all add: b2_def)
  from encrypt_data_eq [OF assms(1) b2 assms(6), of key iv x] obtain rest where
    c: "encrypt_data aes key b2 (length data) iv x =
      Some (sealed_packet aes key iv hdr (px_counter x + 1) data @ rest, x\<lparr>px_counter := px_counter x + 1\<rparr>)" by blast
  have "rd_bytes (sealed_packet aes key iv hdr (px_counter x + 1) data @ rest) 0 (14 + length data) =
      Some (sealed_packet aes key iv hdr (px_counter x + 1) data)"
    using length_sealed_packet [OF assms(1) h, of key iv "px_counter x + 1" data] by (simp add: rd_bytes_def)
  then show ?thesis
    unfolding send_data_packet_def hdr_def [symmetric] using r w1 w2 e c by (simp add: prov_consts add.commute)
qed

text \<open>The reply of the proxy to the START packet of a node.\<close>

lemma proxy_reply:
  assumes "aes_ok aes" "length buffer = 102" "px_conf x = Some xconf" "xc_is_local_sec_allowed xconf"
    "xc_start_cb xconf = Some cb" "cb uid 1 (px_net_param x) = (True, np)"
    "uid \<noteq> []" "length uid \<le> 79" "length iv = 16" "concat (map enc (net_param_ops np)) = data" "length data \<le> 88"
    "rp_bytes p = pdu_header PROV_PACKET_TYPE_START address sid @ [1] @ iv @ uid"
  shows "proxy_pkt_received_cb aes enc buffer p x =
     Some (APP_LIB_DATA_RECEIVE_RES_HANDLED,
       px_log (Proxy_send (sealed_packet aes (xc_key xconf) iv (pdu_header PROV_PACKET_TYPE_DATA address sid) (px_counter x + 1) data)
         (rp_src_address p) PROV_DOWNLINK_EP PROV_UPLINK_EP) (x\<lparr>px_net_param := np, px_counter := px_counter x + 1\<rparr>))"
proof -
  let ?x = "x\<lparr>px_net_param := np\<rparr>"
  have "rp_bytes p = PROV_PACKET_TYPE_START # le_bytes address 4 @ [sid] @ [1] @ iv @ uid"
    using assms(12) by (simp add: pdu_header_def)
  note send = send_data_packet_eq [OF assms(1,2) this assms(9), of enc ?x data "xc_key xconf", simplified, OF assms(10,11)]
  have l: "length (rp_bytes p) = 23 + length uid" using assms(9,12) by simp
  have u: "sint (of_int (int (length (rp_bytes p)) - 6 - 1 - 16) :: u8) = int (length uid)"
    unfolding l using assms(8) by (simp add: signed_of_nat signed_take_bit_int_eq_self)
  have r: "rd (rp_bytes p) 0 = Some PROV_PACKET_TYPE_START" "rd (rp_bytes p) 6 = Some 1" "rd_bytes (rp_bytes p) 23 (length uid) = Some uid"
    using assms(9) by (simp_all add: assms(12) rd_bytes_def rd_def nth_append pdu_header_def)
  show ?thesis
    unfolding proxy_pkt_received_cb_def u using assms(3-7) r send by (simp add: Let_def)
qed

text \<open>The packets of a session between a node and a proxy with the same factory key.  The proxy
  answers the START packet of the node with one packet; the node accepts this packet, and the
  data it verified are the keys, the address and the channel the application of the proxy gave
  for the identifier of the node.  Of the CBOR library this uses that the parser reads the map
  the encoder wrote, of the cipher only that blocks have 16 bytes.\<close>

lemma parameters_transferred:
  assumes node: "pv_conf w = Some conf" "pc_method conf = PROV_METHOD_SECURED" "pc_uid conf = Some uid" "0 < unat (pc_uid_len conf)"
      "unat (pc_uid_len conf) \<le> 79" "unat (pc_uid_len conf) \<le> length uid" "length (pv_iv w) = 16" "length (pv_buffer w) = PROV_PDU_SIZE"
      "jn_conf w \<noteq> None" "slot_for PROV_run_state_machine (jn_sched w)" "keys_ok (pv_data w)"
    and proxy: "px_conf x = Some xconf" "xc_is_local_sec_allowed xconf" "xc_key xconf = pc_key conf" "xc_start_cb xconf = Some cb"
      "cb (take (unat (pc_uid_len conf)) uid) 1 (px_net_param x) = (True, np)" "length buffer = PROV_PDU_SIZE"
    and libs: "aes_ok (en_aes env)" "np_valid env np" "concat (map enc (net_param_ops np)) = data" "data \<noteq> []" "length data \<le> 88"
      "en_parser env data = Map (stream_of (np_items np))"
  shows "\<exists>start x' reply w1 w2.
     start_packet env conf w = Some start \<and>
     proxy_pkt_received_cb (en_aes env) enc buffer \<lparr>rp_bytes_ptr = ptr, rp_bytes = start, rp_src_address = src\<rparr> x =
       Some (APP_LIB_DATA_RECEIVE_RES_HANDLED, x') \<and>
     px_calls x' = px_calls x @ [Proxy_send reply src PROV_DOWNLINK_EP PROV_UPLINK_EP] \<and>
     prov_pkt_received_cb (en_time env) reply w = Some (APP_LIB_DATA_RECEIVE_RES_HANDLED, w1) \<and>
     check_packet env w1 = Some (PROV_RES_SUCCESS, w2) \<and>
     pd_enc_key (pv_data w2) = np_enc_key np \<and> pd_auth_key (pv_data w2) = np_auth_key np \<and>
     pd_net_addr (pv_data w2) = np_net_addr np \<and> pd_net_chan (pv_data w2) = np_net_chan np"
proof -
  let ?id = "take (unat (pc_uid_len conf)) uid"
  define start where "start = pdu_header PROV_PACKET_TYPE_START (en_node_address env) (pv_session_id w) @ [1] @ pv_iv w @ ?id"
  define hdr where "hdr = pdu_header PROV_PACKET_TYPE_DATA (en_node_address env) (pv_session_id w)"
  define reply where "reply = sealed_packet (en_aes env) (pc_key conf) (pv_iv w) hdr (px_counter x + 1) data"
  define w1 where "w1 = w\<lparr>pv_events := (pv_events w)\<lparr>pe_rxd_packet := True\<rparr>, pv_length := of_nat (length reply),
    pv_buffer := reply @ drop (length reply) (pv_buffer w),
    jn_sched := snd (App_Scheduler_addTask_execTime (en_time env) (jn_sched w) (Some PROV_run_state_machine) 0 500)\<rparr>"
  have s: "start_packet env conf w = Some start"
    using start_packet_eq [OF node(3,5,6,7), of env] node(2) by (simp add: start_def method_byte_def)
  have h: "length hdr = 6" by (simp add: hdr_def)
  have lr: "length reply = 14 + length data" unfolding reply_def by (rule length_sealed_packet) fact+
  have id: "?id \<noteq> []" "length ?id \<le> 79" using node(4-6) by auto
  note px = proxy_reply [OF libs(1) _ proxy(1,2,4,5) id node(7) libs(3,5), of buffer "\<lparr>rp_bytes_ptr = ptr, rp_bytes = start, rp_src_address = src\<rparr>"
      "en_node_address env" "pv_session_id w", folded hdr_def, unfolded proxy(3), folded reply_def]
  have rx: "prov_pkt_received_cb (en_time env) reply w = Some (APP_LIB_DATA_RECEIVE_RES_HANDLED, w1)"
    unfolding prov_pkt_received_eq [OF node(8)] using node(9,10) lr libs(5)
    by (simp add: schedule_prov_eq w1_def prov_consts)
  have n: "unat (pv_length w1) = 14 + length data"
  proof -
    have "unat (of_nat (length reply) :: u8) = length reply" by (rule unat_of_nat_small) (use lr libs(5) in simp)
    then show ?thesis using lr by (simp add: w1_def)
  qed
  have buf: "pv_buffer w1 = reply @ drop (length reply) (pv_buffer w)" "length (pv_buffer w1) = 102"
    using node(8) lr libs(5) by (simp_all add: w1_def prov_consts)
  define d where "d = (no_data (pv_data w))\<lparr>pd_enc_key := np_enc_key np, pd_is_enc_key_set := True,
       pd_auth_key := np_auth_key np, pd_is_auth_key_set := True, pd_net_addr := np_net_addr np, pd_net_chan := np_net_chan np\<rparr>"
  have "Provisioning_Data_decode (en_ub env) (en_settings env) (en_parser env)
       \<lparr>dc_end_cb = None, dc_user_data_cb = False, dc_buffer = data\<rparr> True (pv_data w1) = Decoded PROV_RET_OK d []"
    using np_dry_run [OF libs(2) node(11) libs(4,6)] by (simp add: w1_def d_def)
  moreover have "pv_conf w1 = Some conf" "is_secured (pc_method conf)" "pv_iv w1 = pv_iv w" "pv_session_id w1 = pv_session_id w"
    using node(1,2) by (simp_all add: w1_def is_secured_def)
  ultimately obtain buffer' where p: "process_data_packet env w1 = Some (PROV_RES_SUCCESS, w1\<lparr>pv_buffer := buffer', pv_data := d\<rparr>)"
    using process_data_reply [OF libs(1) _ _ h libs(5), of w1 conf "px_counter x + 1" "drop (length reply) (pv_buffer w)" d] n buf
    by (auto simp: reply_def)
  have "rd (pv_buffer w1) 0 = Some PROV_PACKET_TYPE_DATA" "rd (pv_buffer w1) 5 = Some (pv_session_id w)"
    unfolding buf(1) reply_def sealed_packet_def plain_packet_def hdr_def pdu_header_def by (simp_all add: rd_def nth_append)
  with p have "check_packet env w1 = Some (PROV_RES_SUCCESS, w1\<lparr>pv_buffer := buffer', pv_data := d\<rparr>)"
    using \<open>pv_conf w1 = Some conf\<close> \<open>pv_session_id w1 = pv_session_id w\<close> by (simp add: check_packet_def prov_consts)
  then show ?thesis using s px rx proxy(6) by (auto simp: start_def px_log_def prov_consts d_def)
qed

text \<open>The encoding of the items used here for small numbers and byte strings.\<close>

definition small_cbor :: cbor_encoder where
  "small_cbor op =
     (case op of
        Op_create_map n \<Rightarrow> [0xA0 + of_nat n]
      | Op_value (Cbor_uint v) \<Rightarrow> if v < 24 then [ucast v] else [0x18, ucast v]
      | Op_value (Cbor_bytes bs) \<Rightarrow> (0x40 + of_nat (length bs)) # bs
      | _ \<Rightarrow> [])"

definition np_example :: net_param where
  "np_example = \<lparr>np_enc_key = replicate 16 1, np_auth_key = replicate 16 2, np_net_addr = 77, np_net_chan = 5\<rparr>"

definition np_bytes :: "u8 list" where
  "np_bytes = [0xA4, 0, 0x50] @ replicate 16 1 @ [1, 0x50] @ replicate 16 2 @ [2, 0x18, 77, 3, 5]"

definition proxy_example :: proxy where
  "proxy_example =
     \<lparr>px_conf = Some \<lparr>xc_payload = None, xc_num_bytes = 0, xc_tx_power = 8, xc_is_local_unsec_allowed = False, xc_is_local_sec_allowed = True,
        xc_key = replicate 32 7, xc_key_len = 32, xc_start_cb = Some (\<lambda>uid method np. (uid = [1, 2, 3], np_example))\<rparr>,
      px_net_param = np_example, px_started = True, px_init = True, px_counter = 0xFFFF, px_random = \<lparr>rn_seed = 1, rn_value = 0\<rparr>,
      px_calls = []\<rparr>"

definition node_env :: prov_env where
  "node_env = env_example\<lparr>en_parser := (\<lambda>bs. if bs = np_bytes then Map (stream_of (np_items np_example)) else Not_a_map)\<rparr>"

subsection \<open>Errors\<close>

text \<open>The refusal of a proxy is not marked as one: the packet has the type DATA, and its
  header is taken from the description of the received packet, so that the session number is
  the second byte of its length.  A node in session 0 checks the seven bytes as data and
  reads beyond its buffer.\<close>

lemma nack_is_sent_as_data:
  "length (rp_bytes p) \<le> 102 \<Longrightarrow> send_nack nack_type p x =
     Some (px_log (Proxy_send (PROV_PACKET_TYPE_DATA # take 3 (drop 1 (le_bytes (rp_bytes_ptr p) 4)) @
       [of_nat (length (rp_bytes p)), 0, nack_type]) (rp_src_address p) PROV_DOWNLINK_EP PROV_UPLINK_EP) x)"
proof -
  assume l: "length (rp_bytes p) \<le> 102"
  have "unat (of_nat (length (rp_bytes p)) :: u32) = length (rp_bytes p)" by (rule unat_of_nat_small) (use l in simp)
  then have "drop_bit 8 (of_nat (length (rp_bytes p)) :: u32) = 0"
    using l by (simp add: drop_bit_eq_div word_arith_nat_div)
  moreover have "ucast (of_nat (length (rp_bytes p)) :: u32) = (of_nat (length (rp_bytes p)) :: u8)"
    using l by (simp add: unsigned_of_nat take_bit_nat_eq_self)
  ultimately show ?thesis
    by (simp add: send_nack_def rx_struct_def rd_bytes_def rd_def nth_append numeral_3_eq_3 numeral_eq_Suc)
qed

text \<open>The length of the identifier is not checked: the START packet has room for 79
  bytes.\<close>

lemma long_uid_overflows: "79 < unat (pc_uid_len conf) \<Longrightarrow> start_packet env conf w = None"
  by (auto simp: start_packet_def wr_bytes_def rd_bytes_def split: bind_splits if_splits)

end
