(* ===== verification/Node_Config.thy ===== *)
theory Node_Config
  imports Wms_Api
begin

text \<open>
  \<open>util/node_configuration.h\<close>: the initial configuration of a node.  The settings library of the
  stack is a parameter: whether a setting is set, and the result of setting it.  Every setting
  is asked for before it is set, so that the answers are constants.  The calls made are the
  second part of the result.
\<close>

subsection \<open>Operations\<close>

datatype setting_call =
  SetNodeAddress u32 | SetNodeRole u8 | SetNetworkAddress u32 | SetNetworkChannel u8
| SetAuthenticationKey "u8 list" | SetEncryptionKey "u8 list"

record node_settings =
  ns_getNodeAddress :: app_res
  ns_getAuthenticationKey :: app_res
  ns_getEncryptionKey :: app_res
  ns_getNetworkAddress :: app_res
  ns_getNetworkChannel :: app_res
  ns_set :: "setting_call \<Rightarrow> app_res"

text \<open>Calls in a row: a call is skipped when its condition does not hold, and the first one that
  fails ends the function.\<close>

fun set_missing :: "node_settings \<Rightarrow> (bool \<times> setting_call) list \<Rightarrow> app_res \<times> setting_call list" where
  "set_missing ns [] = (APP_RES_OK, [])"
| "set_missing ns ((missing, c) # cs) =
     (if \<not> missing then set_missing ns cs
      else if ns_set ns c \<noteq> APP_RES_OK then (ns_set ns c, [c])
      else case set_missing ns cs of (res, done) \<Rightarrow> (res, c # done))"

definition configureNode ::
  "node_settings \<Rightarrow> u32 \<Rightarrow> u32 \<Rightarrow> u8 \<Rightarrow> u8 list option \<Rightarrow> u8 list option \<Rightarrow> app_res \<times> setting_call list" where
  "configureNode ns my_addr my_network_addr my_network_ch my_authentication_key my_encryption_key =
     (let first = (ns_getNodeAddress ns \<noteq> APP_RES_OK)
      in set_missing ns
           [(first, SetNodeAddress my_addr),
            (first \<and> my_authentication_key \<noteq> None \<and> ns_getAuthenticationKey ns \<noteq> APP_RES_OK, SetAuthenticationKey (the my_authentication_key)),
            (first \<and> my_encryption_key \<noteq> None \<and> ns_getEncryptionKey ns \<noteq> APP_RES_OK, SetEncryptionKey (the my_encryption_key)),
            (ns_getNetworkAddress ns \<noteq> APP_RES_OK, SetNetworkAddress my_network_addr),
            (ns_getNetworkChannel ns \<noteq> APP_RES_OK, SetNetworkChannel my_network_ch)])"

definition getUniqueAddress :: "u32 \<Rightarrow> u32" where
  "getUniqueAddress getUniqueId =
     (let address = getUniqueId;
          address = (if address = 0 then 1 else if address AND 0xFF000000 = 0x80000000 then address AND 0x7ffffffd else address)
      in address AND 0x7fffffff)"

definition OverrideNodeConfig :: "node_settings \<Rightarrow> u32 \<Rightarrow> u8 \<Rightarrow> u32 \<Rightarrow> u8 \<Rightarrow> app_res \<times> setting_call list" where
  "OverrideNodeConfig ns new_addr new_role new_network_addr new_network_ch =
     set_missing ns
       [(True, SetNodeAddress new_addr), (True, SetNodeRole new_role), (True, SetNetworkAddress new_network_addr),
        (True, SetNetworkChannel new_network_ch)]"

text \<open>The network address and channel are \<open>None\<close> when they are not defined at build time; the
  keys are \<open>None\<close> for NULL.\<close>

definition configureNodeFromBuildParameters ::
  "node_settings \<Rightarrow> u32 \<Rightarrow> (u32 \<times> u8) option \<Rightarrow> u8 list option \<Rightarrow> u8 list option \<Rightarrow> app_res \<times> setting_call list" where
  "configureNodeFromBuildParameters ns getUniqueId network authen_key cipher_key =
     (case network of
        Some (addr, ch) \<Rightarrow> configureNode ns (getUniqueAddress getUniqueId) addr ch authen_key cipher_key
      | None \<Rightarrow> (APP_RES_NOT_IMPLEMENTED, []))"

subsection \<open>Results\<close>

lemma set_missing_subset: "c \<in> set (snd (set_missing ns cs)) \<Longrightarrow> (True, c) \<in> set cs"
  by (induction ns cs rule: set_missing.induct) (auto simp: split_def split: if_splits)

lemma set_missing_ok: "fst (set_missing ns cs) = APP_RES_OK \<Longrightarrow> snd (set_missing ns cs) = map snd (filter fst cs)"
  by (induction ns cs rule: set_missing.induct) (auto simp: split_def split: if_splits)

text \<open>A setting that the node has is never set again, and the keys only with the address.\<close>

lemma configureNode_keeps:
  "c \<in> set (snd (configureNode ns addr net ch auth enc)) \<Longrightarrow>
     (case c of
        SetNodeAddress _ \<Rightarrow> ns_getNodeAddress ns \<noteq> APP_RES_OK
      | SetAuthenticationKey _ \<Rightarrow> ns_getNodeAddress ns \<noteq> APP_RES_OK \<and> ns_getAuthenticationKey ns \<noteq> APP_RES_OK
      | SetEncryptionKey _ \<Rightarrow> ns_getNodeAddress ns \<noteq> APP_RES_OK \<and> ns_getEncryptionKey ns \<noteq> APP_RES_OK
      | SetNetworkAddress _ \<Rightarrow> ns_getNetworkAddress ns \<noteq> APP_RES_OK
      | SetNetworkChannel _ \<Rightarrow> ns_getNetworkChannel ns \<noteq> APP_RES_OK
      | SetNodeRole _ \<Rightarrow> False)"
  unfolding configureNode_def Let_def by (drule set_missing_subset) auto

text \<open>The address is below the multicast addresses, but two chips get 0, the address of any
  sink.\<close>

lemma and_one_bit: "x AND push_bit n 1 = (if bit x n then push_bit n 1 else 0)" for x :: "'a::len word"
  by (rule bit_word_eqI) (auto simp: bit_simps)

lemma unique_address_range: "getUniqueAddress i < 0x80000000"
proof -
  have "x AND 0x7fffffff \<le> (0x7fffffff :: u32)" for x by (rule word_and_le1)
  then show ?thesis unfolding getUniqueAddress_def Let_def by (rule le_less_trans) simp
qed

lemma unique_address_zero: "getUniqueAddress i = 0 \<longleftrightarrow> i = 0x80000000 \<or> i = 0x80000002"
proof
  assume z: "getUniqueAddress i = 0"
  have ones: "(0xFFFFFFFF :: u32) = - 1" by simp
  have top: "i = (i AND 0x80000000) OR (i AND 0x7fffffff)" and split: "i = (i AND 0xFF000000) OR (i AND 0x7ffffffd) OR (i AND 2)"
    by (simp_all flip: bit.conj_disj_distrib add: ones)
  have bits: "i AND 0x80000000 \<in> {0, 0x80000000}" "i AND 2 \<in> {0, 2}"
    using and_one_bit [of i 31] and_one_bit [of i 1] by (simp_all split: if_splits)
  show "i = 0x80000000 \<or> i = 0x80000002"
  proof (cases "i AND 0xFF000000 = 0x80000000")
    case True
    then have "i \<noteq> 0" by auto
    with z True have "i AND 0x7ffffffd = 0" by (simp add: getUniqueAddress_def and.assoc)
    with split True have "i = 0x80000000 OR (i AND 2)" by simp
    then show ?thesis using bits(2) by auto
  next
    case False
    then have "i \<noteq> 0" using z by (auto simp: getUniqueAddress_def)
    with z False have "i AND 0x7fffffff = 0" by (simp add: getUniqueAddress_def)
    with top bits(1) \<open>i \<noteq> 0\<close> have "i = 0x80000000" by auto
    with False show ?thesis by simp
  qed
qed (auto simp: getUniqueAddress_def)

end
