(* ===== verification/Local_Prov.thy ===== *)
theory Local_Prov
  imports Prov_Proxy Node_Config
begin

text \<open>
  \<open>libraries/local_provisioning/local_provisioning.c\<close>: an unprovisioned node joins through a
  provisioned neighbor that knows the same key.  The module runs a session of \<open>provisioning.c\<close>
  on the one side and the proxy of \<open>proxy.c\<close> on the other; it is their only client.

  The configurations of both hold pointers to the variables of this module.  The models of the
  two have the values instead; \<open>lp_sync\<close> brings them up to date when a variable changes.  The
  settings and state libraries of the stack are parameters, calls that change them are logged.
\<close>

subsection \<open>State\<close>

datatype local_provisioning_res =
  LOCAL_PROVISIONING_RES_SUCCESS | LOCAL_PROVISIONING_RES_UNINTIALLIZED | LOCAL_PROVISIONING_RES_WRONG_STATE
| LOCAL_PROVISIONING_RES_INTERNAL_ERROR | LOCAL_PROVISIONING_RES_UNPROVISIONED | LOCAL_PROVISIONING_RES_ALREADY_PROVISIONED

record local_psk =
  psk_id :: u32
  psk_key :: "u8 list"

datatype local_call = Settings "setting_call list" | Reset_all | Start_stack | Stop_stack | Proxy_enabled bool

record local_prov =
  lp_prov :: prov
  lp_proxy :: proxy
  lp_filter_id :: u16
  lp_reset_node :: bool
  lp_psk :: local_psk
  lp_psk_init :: local_psk
  lp_proxy_enabled_cb :: bool
  lp_user_cb_end :: "(bool \<Rightarrow> bool) option"
  lp_default_selection :: bool
  lp_log :: "local_call list"

text \<open>The functions that read a setting take the buffer and return what they leave in it; the
  settings of a running stack do not change.  A filter for configurations that is added is called
  at once with those of \<open>ll_config\<close>.  \<open>ll_stale\<close>: see \<open>joining_conf_of\<close>.\<close>

record local_lib =
  ll_prov :: prov_env
  ll_getUniqueId :: u32
  ll_settings :: node_settings
  ll_getEncryptionKey :: "u8 list \<Rightarrow> app_res \<times> u8 list"
  ll_getAuthenticationKey :: "u8 list \<Rightarrow> app_res \<times> u8 list"
  ll_getNetworkAddress :: "u32 \<Rightarrow> app_res \<times> u32"
  ll_getNetworkChannel :: "u8 \<Rightarrow> app_res \<times> u8"
  ll_startStack :: app_res
  ll_stopStack :: app_res
  ll_stack_state :: u8
  ll_ism24 :: bool
  ll_startJoiningBeaconTx :: app_res
  ll_stopJoiningBeaconTx :: app_res
  ll_filter_id :: "u16 option"
  ll_config :: "u8 list list"
  ll_stale :: "u8 list"

definition default_psk_key :: local_psk where
  "default_psk_key =
     \<lparr>psk_id = 0x35f5eb3c,
      psk_key = [0xcc, 0x25, 0x37, 0xd1, 0x7c, 0x6c, 0x12, 0x80, 0x16, 0xbd, 0x8a, 0xf5, 0xe9, 0xdd, 0x97, 0x28,
        0x98, 0x47, 0xd7, 0x83, 0xa5, 0xf7, 0xde, 0xec, 0xc7, 0x0a, 0x0c, 0x31, 0xe9, 0x56, 0x42, 0xa3]\<rparr>"

definition LP_APP_CONFIG_DISABLED :: u8 where "LP_APP_CONFIG_DISABLED = 0"
definition LP_APP_CONFIG_ENABLED :: u8 where "LP_APP_CONFIG_ENABLED = 1"
definition LP_APP_CONFIG_ENABLED_WITH_KEY :: u8 where "LP_APP_CONFIG_ENABLED_WITH_KEY = 2"

lemmas lp_config_defs = LP_APP_CONFIG_DISABLED_def LP_APP_CONFIG_ENABLED_def LP_APP_CONFIG_ENABLED_WITH_KEY_def

definition add_filter_task :: prov_task where "add_filter_task = OTHER_task 1"
definition start_task :: prov_task where "start_task = OTHER_task 2"
definition LOCAL_PROVISIONING_CB :: nat where "LOCAL_PROVISIONING_CB = 7"
definition STACK_STOPPED :: nat where "STACK_STOPPED = 0"
definition STACK_STARTED :: nat where "STACK_STARTED = 1"

definition lp_call :: "local_call \<Rightarrow> local_prov \<Rightarrow> local_prov" where
  "lp_call c w = w\<lparr>lp_log := lp_log w @ [c]\<rparr>"

subsection \<open>Callbacks\<close>

text \<open>\<open>None\<close> is a list with a cycle, or out of the buffer.\<close>

partial_function (option) strongest_loop ::
  "u32 \<Rightarrow> joining_beacon list \<Rightarrow> nat option \<Rightarrow> joining_beacon option \<Rightarrow> int \<Rightarrow> joining_beacon option option" where
  "strongest_loop psk buf beacons strongest_beacon strongest_rssi =
     (case beacons of
        None \<Rightarrow> Some strongest_beacon
      | Some i \<Rightarrow> do {
          b \<leftarrow> rd buf i;
          if length (jb_payload b) = 4 \<and> psk = le_val (jb_payload b) \<and> sint (jb_rssi b) > strongest_rssi
          then strongest_loop psk buf (jb_next b) (Some b) (sint (jb_rssi b))
          else strongest_loop psk buf (jb_next b) strongest_beacon strongest_rssi
        })"

declare strongest_loop.simps [code]

definition default_rssi_joining_beacon_selection :: "u32 \<Rightarrow> joining_beacon list \<Rightarrow> nat option \<Rightarrow> joining_beacon option option" where
  "default_rssi_joining_beacon_selection psk buf beacons = strongest_loop psk buf beacons None (- 32768)"

text \<open>As the callback of the joining module, which is called with a list that ends.\<close>

definition selection_cb :: "u32 \<Rightarrow> joining_beacon list \<Rightarrow> nat option \<Rightarrow> joining_beacon option" where
  "selection_cb psk buf beacons = (case default_rssi_joining_beacon_selection psk buf beacons of Some b \<Rightarrow> b | None \<Rightarrow> None)"

text \<open>The result, and whether the stack is stopped; a stopped stack reboots the node.\<close>

definition lp_end_cb :: "(bool \<Rightarrow> bool) option \<Rightarrow> provisioning_res \<Rightarrow> bool \<times> bool" where
  "lp_end_cb user_cb_end res =
     (let reboot = (case user_cb_end of Some cb \<Rightarrow> cb (res = PROV_RES_SUCCESS) | None \<Rightarrow> True)
      in if res \<noteq> PROV_RES_SUCCESS then (False, reboot) else (True, False))"

definition start_cb :: "local_lib \<Rightarrow> u8 list \<Rightarrow> u8 \<Rightarrow> net_param \<Rightarrow> bool \<times> net_param" where
  "start_cb env uid method param =
     (let (res, k) = ll_getEncryptionKey env (np_enc_key param); param = param\<lparr>np_enc_key := k\<rparr>
      in if res \<noteq> APP_RES_OK then (False, param)
         else
           let (res, k) = ll_getAuthenticationKey env (np_auth_key param); param = param\<lparr>np_auth_key := k\<rparr>
           in if res \<noteq> APP_RES_OK then (False, param)
              else
                let (res, a) = ll_getNetworkAddress env (np_net_addr param); param = param\<lparr>np_net_addr := a\<rparr>
                in if res \<noteq> APP_RES_OK then (False, param)
                   else
                     let (res, c) = ll_getNetworkChannel env (np_net_chan param); param = param\<lparr>np_net_chan := c\<rparr>
                     in (res = APP_RES_OK, param))"

definition lp_sync :: "local_prov \<Rightarrow> local_prov" where
  "lp_sync w =
     w\<lparr>lp_proxy := (lp_proxy w)\<lparr>px_conf := map_option (\<lambda>c. c\<lparr>xc_payload := Some (le32 (psk_id (lp_psk w))), xc_key := psk_key (lp_psk w)\<rparr>)
           (px_conf (lp_proxy w))\<rparr>,
       lp_prov := (lp_prov w)
         \<lparr>pv_conf := map_option (\<lambda>c. c\<lparr>pc_key := psk_key (lp_psk_init w), pc_end_cb := Some (\<lambda>r. fst (lp_end_cb (lp_user_cb_end w) r))\<rparr>)
            (pv_conf (lp_prov w)),
          jn_conf := map_option (\<lambda>c. if lp_default_selection w then c\<lparr>jc_joining_cb := Some (selection_cb (psk_id (lp_psk w)))\<rparr> else c)
            (jn_conf (lp_prov w))\<rparr>\<rparr>"

subsection \<open>The proxy\<close>

definition proxy_conf_of :: "local_lib \<Rightarrow> local_psk \<Rightarrow> proxy_conf" where
  "proxy_conf_of env psk =
     \<lparr>xc_payload = Some (le32 (psk_id psk)), xc_num_bytes = 4, xc_tx_power = 8, xc_is_local_unsec_allowed = False,
      xc_is_local_sec_allowed = True, xc_key = psk_key psk, xc_key_len = 32, xc_start_cb = Some (start_cb env)\<rparr>"

definition appConfigTLVReceivedCb :: "local_lib \<Rightarrow> u8 list \<Rightarrow> local_prov \<Rightarrow> local_prov option" where
  "appConfigTLVReceivedCb env bytes w =
     (let (enabled, w) =
            (if length bytes = 1 \<and> bytes ! 0 = LP_APP_CONFIG_DISABLED then (False, w)
             else if length bytes = 1 \<and> bytes ! 0 = LP_APP_CONFIG_ENABLED then (True, lp_sync (w\<lparr>lp_psk := lp_psk_init w\<rparr>))
             else if length bytes = 37 \<and> bytes ! 0 = LP_APP_CONFIG_ENABLED_WITH_KEY
             then (True, lp_sync (w\<lparr>lp_psk := \<lparr>psk_id = le_val (take 4 (drop 1 bytes)), psk_key = take 32 (drop 5 bytes)\<rparr>\<rparr>))
             else (False, w))
      in do {
        (_, x) \<leftarrow> Provisioning_Proxy_stop (ll_stopJoiningBeaconTx env) (lp_proxy w);
        (_, x) \<leftarrow>
          (if enabled
           then Provisioning_Proxy_start (ll_ism24 env) (ll_startJoiningBeaconTx env)
                  (snd (Provisioning_Proxy_init (ll_getUniqueId env) (en_hp (ll_prov env)) (proxy_conf_of env (lp_psk w)) x))
           else Some (PROV_RET_OK, x));
        let w = w\<lparr>lp_proxy := x\<rparr>;
        Some (if lp_proxy_enabled_cb w then lp_call (Proxy_enabled enabled) w else w)
      })"

definition add_filter_for_proxy :: "local_lib \<Rightarrow> local_prov \<Rightarrow> (u32 \<times> local_prov) option" where
  "add_filter_for_proxy env w =
     map_option (\<lambda>w. (APP_SCHEDULER_STOP_TASK, case ll_filter_id env of Some i \<Rightarrow> w\<lparr>lp_filter_id := i\<rparr> | None \<Rightarrow> w))
       (foldo (appConfigTLVReceivedCb env) (ll_config env) w)"

definition provisioning_start_task :: "local_lib \<Rightarrow> local_prov \<Rightarrow> (u32 \<times> local_prov) option" where
  "provisioning_start_task env w =
     map_option (\<lambda>(_, p). (APP_SCHEDULER_STOP_TASK, w\<lparr>lp_prov := p\<rparr>)) (Provisioning_start (en_time (ll_prov env)) (lp_prov w))"

definition Local_provisioning_is_provisioned :: "node_settings \<Rightarrow> bool" where
  "Local_provisioning_is_provisioned ns \<longleftrightarrow>
     ns_getEncryptionKey ns = APP_RES_OK \<and> ns_getAuthenticationKey ns = APP_RES_OK \<and>
     ns_getNetworkAddress ns = APP_RES_OK \<and> ns_getNetworkChannel ns = APP_RES_OK"

definition lp_addTask :: "local_lib \<Rightarrow> prov_task \<Rightarrow> u32 \<Rightarrow> local_prov \<Rightarrow> bool \<times> local_prov" where
  "lp_addTask env f delay_ms w =
     (case App_Scheduler_addTask_execTime (en_time (ll_prov env)) (jn_sched (lp_prov w)) (Some f) delay_ms 50 of
        (res, s) \<Rightarrow> (res = APP_SCHEDULER_RES_OK, w\<lparr>lp_prov := (lp_prov w)\<lparr>jn_sched := s\<rparr>\<rparr>))"

definition enable_proxy :: "local_lib \<Rightarrow> local_prov \<Rightarrow> local_prov" where
  "enable_proxy env w =
     (if \<not> Local_provisioning_is_provisioned (ll_settings env) then w
      else snd (lp_addTask env add_filter_task APP_SCHEDULER_SCHEDULE_ASAP w))"

definition on_stack_state_event_cb :: "local_lib \<Rightarrow> nat \<Rightarrow> local_prov \<Rightarrow> local_prov" where
  "on_stack_state_event_cb env event w =
     (if event = STACK_STOPPED \<and> lp_reset_node w then lp_call Reset_all w
      else if event = STACK_STARTED then enable_proxy env w
      else w)"

subsection \<open>Interface\<close>

text \<open>The key is \<open>None\<close> for NULL.\<close>

definition Local_provisioning_init :: "local_psk option \<Rightarrow> bool \<Rightarrow> local_prov \<Rightarrow> local_provisioning_res \<times> local_prov" where
  "Local_provisioning_init psk on_proxy_enabled_cb w =
     (let key = (case psk of Some k \<Rightarrow> k | None \<Rightarrow> default_psk_key);
          w = lp_sync (w\<lparr>lp_reset_node := False, lp_proxy_enabled_cb := on_proxy_enabled_cb, lp_psk_init := key, lp_psk := key\<rparr>);
          stack = snd (Stack_State_addEventCb (Some LOCAL_PROVISIONING_CB) (push_bit STACK_STARTED 1 OR push_bit STACK_STOPPED 1) (jn_stack (lp_prov w)))
      in (LOCAL_PROVISIONING_RES_SUCCESS, w\<lparr>lp_prov := (lp_prov w)\<lparr>jn_stack := stack\<rparr>\<rparr>))"

text \<open>\<open>uid\<close> points to a local variable of \<open>Local_provisioning_start_joining\<close>: what the START
  packet, made seconds after the function has returned, takes from there is \<open>ll_stale\<close>.\<close>

definition joining_conf_of ::
  "local_lib \<Rightarrow> (joining_beacon list \<Rightarrow> nat option \<Rightarrow> joining_beacon option) option \<Rightarrow> local_prov \<Rightarrow> provisioning_conf" where
  "joining_conf_of env cb_beacons w =
     \<lparr>pc_method = PROV_METHOD_SECURED, pc_nb_retry = 3, pc_timeout_s = 20, pc_uid = Some (ll_stale env), pc_uid_len = 4,
      pc_key = psk_key (lp_psk_init w), pc_key_len = 32, pc_end_cb = Some (\<lambda>r. fst (lp_end_cb (lp_user_cb_end w) r)), pc_user_data_cb = False,
      pc_beacon_joining_cb = Some (case cb_beacons of Some cb \<Rightarrow> cb | None \<Rightarrow> selection_cb (psk_id (lp_psk w)))\<rparr>"

definition Local_provisioning_start_joining ::
  "local_lib \<Rightarrow> (joining_beacon list \<Rightarrow> nat option \<Rightarrow> joining_beacon option) option \<Rightarrow> (bool \<Rightarrow> bool) option \<Rightarrow> local_prov \<Rightarrow>
     local_provisioning_res \<times> local_prov" where
  "Local_provisioning_start_joining env cb_beacons cb_end w =
     (let w = lp_sync (w\<lparr>lp_user_cb_end := cb_end\<rparr>)
      in if Local_provisioning_is_provisioned (ll_settings env) then (LOCAL_PROVISIONING_RES_ALREADY_PROVISIONED, w)
         else
           let w = lp_call (Settings (snd (configureNode (ll_settings env) (getUniqueAddress (ll_getUniqueId env)) 0xE68FA4 18 None None))) w;
               (ret, p) = Provisioning_init (ll_prov env) (ll_getUniqueId env) (joining_conf_of env cb_beacons w) (lp_prov w);
               w = w\<lparr>lp_prov := p\<rparr>
           in if ret \<noteq> PROV_RET_OK then (LOCAL_PROVISIONING_RES_WRONG_STATE, w)
              else
                let w = lp_call Start_stack (w\<lparr>lp_default_selection := (cb_beacons = None)\<rparr>)
                in if Stack_State_startStack (ll_startStack env) (jn_stack (lp_prov w)) \<noteq> APP_RES_OK
                   then (LOCAL_PROVISIONING_RES_INTERNAL_ERROR, w)
                   else case lp_addTask env start_task 2000 w of
                     (True, w) \<Rightarrow> (LOCAL_PROVISIONING_RES_SUCCESS, w)
                   | (False, w) \<Rightarrow> (LOCAL_PROVISIONING_RES_INTERNAL_ERROR, w))"

text \<open>The stack that stops calls \<open>on_stack_state_event_cb\<close> before it reboots.\<close>

definition Local_provisioning_reset_node :: "local_lib \<Rightarrow> local_prov \<Rightarrow> local_prov" where
  "Local_provisioning_reset_node env w =
     (if Stack_State_isStarted (ll_stack_state env) then lp_call Stop_stack (w\<lparr>lp_reset_node := True\<rparr>) else lp_call Reset_all w)"

subsection \<open>The selected beacon\<close>

definition beacon_matches :: "u32 \<Rightarrow> joining_beacon \<Rightarrow> bool" where
  "beacon_matches psk b \<longleftrightarrow> jb_payload b = le32 psk"

lemma le32_le_val: "le32 (le_val [a, b, c, d]) = [a, b, c, d]"
proof -
  have "ucast (le_val [a, b, c, d]) = a" "ucast (drop_bit 8 (le_val [a, b, c, d])) = b" "ucast (drop_bit 8 (drop_bit 8 (le_val [a, b, c, d]))) = c"
    "ucast (drop_bit 8 (drop_bit 8 (drop_bit 8 (le_val [a, b, c, d])))) = d"
    by (rule bit_word_eqI; auto simp: bit_simps dest: bit_imp_le_length)+
  then show ?thesis unfolding le32_def numeral_eq_Suc le_bytes.simps pred_numeral_simps arith_simps by (simp del: le_val.simps)
qed

lemma payload_matches: "length bs = 4 \<and> psk = le_val bs \<longleftrightarrow> bs = le32 psk"
proof
  assume a: "length bs = 4 \<and> psk = le_val bs"
  then obtain a b c d where "bs = [a, b, c, d]" by (auto simp: length_Suc_conv numeral_eq_Suc)
  then show "bs = le32 psk" using a le32_le_val by simp
next
  assume "bs = le32 psk"
  then show "length bs = 4 \<and> psk = le_val bs" using le_val_le32 by (simp add: le32_def)
qed

text \<open>A beacon of the list that matches and is stronger than the best one so far.\<close>

definition stronger :: "u32 \<Rightarrow> int \<Rightarrow> joining_beacon \<Rightarrow> bool" where
  "stronger psk rssi b \<longleftrightarrow> beacon_matches psk b \<and> sint (jb_rssi b) > rssi"

fun strongest :: "u32 \<Rightarrow> joining_beacon list \<Rightarrow> joining_beacon option \<Rightarrow> int \<Rightarrow> joining_beacon option" where
  "strongest psk [] best rssi = best"
| "strongest psk (b # bs) best rssi = (if stronger psk rssi b then strongest psk bs (Some b) (sint (jb_rssi b)) else strongest psk bs best rssi)"

lemma strongest_loop_chain:
  "beacon_chain buf p is \<Longrightarrow> strongest_loop psk buf p best rssi = Some (strongest psk (map ((!) buf) is) best rssi)"
proof (induction "is" arbitrary: p best rssi)
  case Nil
  then show ?case by (subst strongest_loop.simps) simp
next
  case (Cons i "is")
  have "rd buf i = Some (buf ! i)" using Cons.prems by (simp add: rd_def)
  then show ?case
    using Cons by (subst strongest_loop.simps) (auto simp: stronger_def beacon_matches_def payload_matches [symmetric])
qed

lemma strongest_result:
  "if \<forall>b \<in> set bs. \<not> stronger psk rssi b then strongest psk bs best rssi = best
   else \<exists>x \<in> set bs. strongest psk bs best rssi = Some x \<and> stronger psk rssi x \<and> (\<forall>b \<in> set bs. \<not> stronger psk (sint (jb_rssi x)) b)"
proof (induction psk bs best rssi rule: strongest.induct)
  case (2 psk b bs best rssi)
  show ?case
  proof (cases "stronger psk rssi b")
    case True
    then show ?thesis using "2.IH"(1) by (fastforce simp: stronger_def split: if_splits)
  next
    case False
    then show ?thesis using "2.IH"(2) by (fastforce simp: stronger_def split: if_splits)
  qed
qed simp

subsection \<open>An enabled proxy\<close>

text \<open>The key a configuration announces, with the one of the application.\<close>

definition announced :: "u8 list \<Rightarrow> local_psk \<Rightarrow> local_psk option" where
  "announced bytes psk_init =
     (if bytes = [LP_APP_CONFIG_ENABLED] then Some psk_init
      else if length bytes = 37 \<and> bytes ! 0 = LP_APP_CONFIG_ENABLED_WITH_KEY
      then Some \<lparr>psk_id = le_val (take 4 (drop 1 bytes)), psk_key = take 32 (drop 5 bytes)\<rparr>
      else None)"

definition proxy_ok :: "proxy \<Rightarrow> bool" where
  "proxy_ok x \<longleftrightarrow> (px_init x \<longrightarrow> px_conf x \<noteq> None)"

lemma proxy_stopped:
  assumes "proxy_ok x"
  shows "\<exists>r x'. Provisioning_Proxy_stop APP_RES_OK x = Some (r, x') \<and> proxy_ok x' \<and> \<not> (px_init x' \<and> px_started x')"
  using assms by (auto simp: Provisioning_Proxy_stop_def proxy_ok_def px_log_def Let_def)

text \<open>The beacons of a proxy for a key.\<close>

definition beacon_of :: "local_lib \<Rightarrow> local_psk \<Rightarrow> joining_beacon_tx_param" where
  "beacon_of env psk =
     \<lparr>bt_interval = 500, bt_addr = 0x9E4ADC, bt_channel = (if ll_ism24 env then 36 else 4), bt_tx_power = 8,
      bt_type = 0x647650fb, bt_payload = Some (le32 (psk_id psk)), bt_payload_num_bytes = 4\<rparr>"

lemma proxy_started:
  assumes "\<not> (px_init x \<and> px_started x)"
  shows "\<exists>r x'. Provisioning_Proxy_start (ll_ism24 env) APP_RES_OK (snd (Provisioning_Proxy_init i hp (proxy_conf_of env psk) x)) = Some (r, x') \<and>
     px_conf x' = Some (proxy_conf_of env psk) \<and> px_started x' \<and> px_init x' \<and>
     (\<exists>cs. px_calls x' = cs @ [Start_beacon_tx (beacon_of env psk), Enable_proxy False, Proxy_add_rx_cb])"
  using assms
  by (auto simp: beacon_of_def JOINING_TX_INTERVAL_def JOINING_NETWORK_ADDRESS_def JOINING_NETWORK_CHANNEL_def JOINING_BEACON_TYPE_def
    Provisioning_Proxy_init_def Provisioning_Proxy_start_def proxy_conf_of_def local_provisioning_def px_log_def Let_def split_def)

lemma app_config_enables:
  assumes "announced bytes (lp_psk_init v) = Some psk" "proxy_ok (lp_proxy v)"
    and "ll_startJoiningBeaconTx env = APP_RES_OK" "ll_stopJoiningBeaconTx env = APP_RES_OK"
  shows "\<exists>v'. appConfigTLVReceivedCb env bytes v = Some v' \<and> px_conf (lp_proxy v') = Some (proxy_conf_of env psk) \<and>
     px_started (lp_proxy v') \<and> proxy_ok (lp_proxy v') \<and> lp_psk v' = psk \<and>
     (\<exists>cs. px_calls (lp_proxy v') = cs @ [Start_beacon_tx (beacon_of env psk), Enable_proxy False, Proxy_add_rx_cb])"
proof -
  let ?v = "lp_sync (v\<lparr>lp_psk := psk\<rparr>)"
  have "proxy_ok (lp_proxy ?v)" using assms(2) by (simp add: proxy_ok_def lp_sync_def)
  then obtain r x where x: "Provisioning_Proxy_stop APP_RES_OK (lp_proxy ?v) = Some (r, x)" "\<not> (px_init x \<and> px_started x)"
    using proxy_stopped by blast
  obtain q x' where x': "Provisioning_Proxy_start (ll_ism24 env) APP_RES_OK (snd (Provisioning_Proxy_init (ll_getUniqueId env) (en_hp (ll_prov env)) (proxy_conf_of env psk) x)) =
      Some (q, x')" "px_conf x' = Some (proxy_conf_of env psk)" "px_started x'"
      "\<exists>cs. px_calls x' = cs @ [Start_beacon_tx (beacon_of env psk), Enable_proxy False, Proxy_add_rx_cb]"
    using proxy_started [OF x(2)] by blast
  let ?e = "if lp_proxy_enabled_cb ?v then lp_call (Proxy_enabled True) (?v\<lparr>lp_proxy := x'\<rparr>) else ?v\<lparr>lp_proxy := x'\<rparr>"
  have k: "lp_psk ?v = psk" by (simp add: lp_sync_def)
  have "appConfigTLVReceivedCb env bytes v = Some ?e"
    using assms(1) x(1) x'(1) k unfolding appConfigTLVReceivedCb_def assms(3,4) Let_def
    by (auto simp: announced_def lp_config_defs length_Suc_conv split: if_splits)
  moreover have "lp_proxy ?e = x'" "lp_psk ?e = psk" using k by (simp_all add: lp_call_def)
  ultimately show ?thesis using x' by (simp add: proxy_ok_def)
qed

text \<open>Settings that can be read are what a proxy gives.\<close>

definition settings_are :: "local_lib \<Rightarrow> net_param \<Rightarrow> bool" where
  "settings_are env np \<longleftrightarrow> (\<forall>b. ll_getEncryptionKey env b = (APP_RES_OK, np_enc_key np)) \<and> (\<forall>b. ll_getAuthenticationKey env b = (APP_RES_OK, np_auth_key np)) \<and>
     (\<forall>a. ll_getNetworkAddress env a = (APP_RES_OK, np_net_addr np)) \<and> (\<forall>c. ll_getNetworkChannel env c = (APP_RES_OK, np_net_chan np))"

lemma start_cb_gives: "settings_are env np \<Longrightarrow> start_cb env uid method param = (True, np)"
  by (cases np, cases param) (simp add: settings_are_def start_cb_def Let_def)

text \<open>The session of a node.\<close>

lemma init_accepted:
  "Provisioning_init env i conf p = (PROV_RET_OK, p') \<Longrightarrow> pv_conf p' = Some conf \<and> pv_state p' = PROV_STATE_IDLE"
  by (auto simp: Provisioning_init_def Provisioning_Joining_init_def Let_def split_def split: if_splits)

lemma joining_started:
  assumes "Local_provisioning_start_joining env cb_beacons cb_end u = (LOCAL_PROVISIONING_RES_SUCCESS, u')"
  shows "\<exists>w. pv_conf (lp_prov u') = Some (joining_conf_of env cb_beacons w) \<and> lp_psk_init w = lp_psk_init u \<and> lp_psk w = lp_psk u \<and>
     pv_state (lp_prov u') = PROV_STATE_IDLE"
proof -
  let ?w = "lp_call (Settings (snd (configureNode (ll_settings env) (getUniqueAddress (ll_getUniqueId env)) 0xE68FA4 18 None None))) (lp_sync (u\<lparr>lp_user_cb_end := cb_end\<rparr>))"
  obtain ret p where i: "Provisioning_init (ll_prov env) (ll_getUniqueId env) (joining_conf_of env cb_beacons ?w) (lp_prov ?w) = (ret, p)" by fastforce
  have w: "lp_psk_init ?w = lp_psk_init u" "lp_psk ?w = lp_psk u" by (simp_all add: lp_call_def lp_sync_def)
  have "ret = PROV_RET_OK" "pv_conf (lp_prov u') = pv_conf p" "pv_state (lp_prov u') = pv_state p"
    using assms i by (auto simp: Local_provisioning_start_joining_def Let_def lp_addTask_def lp_call_def split_def split: if_splits bool.splits)
  then show ?thesis using init_accepted [of "ll_prov env" "ll_getUniqueId env"] i w by auto
qed

text \<open>Among the beacons of a scan the node joins one that carries the number of its key, and
  of those the strongest; without such a beacon it joins none.\<close>

lemma strongest_beacon_selected:
  assumes "beacon_chain buf p is"
  shows "if \<exists>i \<in> set is. beacon_matches psk (buf ! i)
     then \<exists>i \<in> set is. default_rssi_joining_beacon_selection psk buf p = Some (Some (buf ! i)) \<and> beacon_matches psk (buf ! i) \<and>
       (\<forall>j \<in> set is. beacon_matches psk (buf ! j) \<longrightarrow> sint (jb_rssi (buf ! j)) \<le> sint (jb_rssi (buf ! i)))
     else default_rssi_joining_beacon_selection psk buf p = Some None"
proof -
  have "sint (r :: u8) > - 32768" for r using sint_range_size [of r] by (simp add: word_size)
  then have m: "stronger psk (- 32768) b \<longleftrightarrow> beacon_matches psk b" for b by (auto simp: stronger_def)
  show ?thesis
    unfolding default_rssi_joining_beacon_selection_def strongest_loop_chain [OF assms]
    using strongest_result [of "map ((!) buf) is" psk "- 32768" None] unfolding m by (auto simp: stronger_def not_less split: if_splits)
qed

definition joining_beacons :: "joining_beacon list" where
  "joining_beacons =
     [zero_beacon\<lparr>jb_next := Some 1, jb_payload := le32 7, jb_rssi := - 80\<rparr>, zero_beacon\<lparr>jb_next := Some 2, jb_payload := le32 8, jb_rssi := - 40\<rparr>,
      zero_beacon\<lparr>jb_payload := le32 7, jb_rssi := - 60\<rparr>]"

lemma strongest_beacon_example:
  "map_option (map_option jb_rssi) (default_rssi_joining_beacon_selection 7 joining_beacons (Some 0)) = Some (Some (- 60))"
proof -
  have c: "beacon_chain joining_beacons (Some 0) [0, 1, 2]" by (simp add: joining_beacons_def zero_beacon_def)
  have m: "beacon_matches 7 (joining_beacons ! 0)" "\<not> beacon_matches 7 (joining_beacons ! 1)" "beacon_matches 7 (joining_beacons ! 2)"
    by code_simp+
  have r: "sint (jb_rssi (joining_beacons ! 0)) = - 80" "jb_rssi (joining_beacons ! 2) = - 60" "sint (jb_rssi (joining_beacons ! 2)) = - 60"
    by code_simp+
  show ?thesis using strongest_beacon_selected [OF c, of 7] m r by auto
qed

subsection \<open>Properties\<close>

text \<open>C21: a configuration of the network that announces a key turns a provisioned node into a
  proxy for this key, whatever it was before: the last beacons it starts are joining beacons on the
  address and the channel of the joining network, of the type and with the interval of the library,
  whose payload is the number of the key, it receives packets in place of the stack's proxy,
  and it answers the START packet of a node that was initialised with the same key by one packet,
  which this node accepts and which has the keys, the address and the channel of the network.\<close>

theorem local_provisioning_transfers:
  assumes config: "announced bytes (lp_psk_init v) = Some psk" "proxy_ok (lp_proxy v)" "settings_are penv np"
      "ll_startJoiningBeaconTx penv = APP_RES_OK" "ll_stopJoiningBeaconTx penv = APP_RES_OK"
    and node: "Local_provisioning_start_joining env cb_beacons cb_end u = (LOCAL_PROVISIONING_RES_SUCCESS, u')" "psk_key (lp_psk_init u) = psk_key psk"
      "length (ll_stale env) = 4" "pv_conf w = pv_conf (lp_prov u')" "length (pv_iv w) = 16" "length (pv_buffer w) = PROV_PDU_SIZE"
      "jn_conf w \<noteq> None" "slot_for PROV_run_state_machine (jn_sched w)" "keys_ok (pv_data w)"
    and libs: "aes_ok (en_aes (ll_prov env))" "np_valid (ll_prov env) np" "concat (map enc (net_param_ops np)) = data" "data \<noteq> []" "length data \<le> 88"
      "en_parser (ll_prov env) data = Map (stream_of (np_items np))" "length buffer = PROV_PDU_SIZE"
  shows "\<exists>v' conf start x' reply w1 w2.
     appConfigTLVReceivedCb penv bytes v = Some v' \<and> px_started (lp_proxy v') \<and>
     (\<exists>cs. px_calls (lp_proxy v') = cs @
        [Start_beacon_tx
           \<lparr>bt_interval = 500, bt_addr = 0x9E4ADC, bt_channel = (if ll_ism24 penv then 36 else 4), bt_tx_power = 8,
            bt_type = 0x647650fb, bt_payload = Some (le32 (psk_id psk)), bt_payload_num_bytes = 4\<rparr>,
         Enable_proxy False, Proxy_add_rx_cb]) \<and>
     pv_conf w = Some conf \<and> start_packet (ll_prov env) conf w = Some start \<and>
     proxy_pkt_received_cb (en_aes (ll_prov env)) enc buffer \<lparr>rp_bytes_ptr = ptr, rp_bytes = start, rp_src_address = src\<rparr> (lp_proxy v') =
       Some (APP_LIB_DATA_RECEIVE_RES_HANDLED, x') \<and>
     px_calls x' = px_calls (lp_proxy v') @ [Proxy_send reply src PROV_DOWNLINK_EP PROV_UPLINK_EP] \<and>
     prov_pkt_received_cb (en_time (ll_prov env)) reply w = Some (APP_LIB_DATA_RECEIVE_RES_HANDLED, w1) \<and>
     check_packet (ll_prov env) w1 = Some (PROV_RES_SUCCESS, w2) \<and>
     pd_enc_key (pv_data w2) = np_enc_key np \<and> pd_auth_key (pv_data w2) = np_auth_key np \<and>
     pd_net_addr (pv_data w2) = np_net_addr np \<and> pd_net_chan (pv_data w2) = np_net_chan np"
proof -
  obtain v' where v': "appConfigTLVReceivedCb penv bytes v = Some v'" "px_conf (lp_proxy v') = Some (proxy_conf_of penv psk)" "px_started (lp_proxy v')"
      "\<exists>cs. px_calls (lp_proxy v') = cs @ [Start_beacon_tx (beacon_of penv psk), Enable_proxy False, Proxy_add_rx_cb]"
    using app_config_enables [OF config(1,2,4,5)] by blast
  obtain conf where c: "pv_conf w = Some conf" "pc_method conf = PROV_METHOD_SECURED" "pc_uid conf = Some (ll_stale env)" "pc_uid_len conf = 4"
    "pc_key conf = psk_key psk"
    using joining_started [OF node(1)] node(2,4) by (auto simp: joining_conf_of_def)
  have x: "xc_is_local_sec_allowed (proxy_conf_of penv psk)" "xc_key (proxy_conf_of penv psk) = pc_key conf"
    "xc_start_cb (proxy_conf_of penv psk) = Some (start_cb penv)"
    using c(5) by (simp_all add: proxy_conf_of_def)
  have u: "0 < unat (pc_uid_len conf)" "unat (pc_uid_len conf) \<le> 79" "unat (pc_uid_len conf) \<le> length (ll_stale env)" using c(4) node(3) by simp_all
  from parameters_transferred [OF c(1-3) u node(5-9) v'(2) x(1-3) start_cb_gives [OF config(3)] libs(7) libs(1-6), of ptr src]
  show ?thesis using v'(1,3,4) c(1) unfolding beacon_of_def by blast
qed

definition local_lib_example :: local_lib where
  "local_lib_example =
     \<lparr>ll_prov = node_env, ll_getUniqueId = 77,
      ll_settings = \<lparr>ns_getNodeAddress = APP_RES_INVALID_CONFIGURATION, ns_getAuthenticationKey = APP_RES_INVALID_CONFIGURATION,
        ns_getEncryptionKey = APP_RES_INVALID_CONFIGURATION, ns_getNetworkAddress = APP_RES_INVALID_CONFIGURATION,
        ns_getNetworkChannel = APP_RES_INVALID_CONFIGURATION, ns_set = (\<lambda>_. APP_RES_OK)\<rparr>,
      ll_getEncryptionKey = (\<lambda>_. (APP_RES_OK, np_enc_key np_example)), ll_getAuthenticationKey = (\<lambda>_. (APP_RES_OK, np_auth_key np_example)),
      ll_getNetworkAddress = (\<lambda>_. (APP_RES_OK, np_net_addr np_example)), ll_getNetworkChannel = (\<lambda>_. (APP_RES_OK, np_net_chan np_example)),
      ll_startStack = APP_RES_OK, ll_stopStack = APP_RES_OK, ll_stack_state = 1, ll_ism24 = True, ll_startJoiningBeaconTx = APP_RES_OK,
      ll_stopJoiningBeaconTx = APP_RES_OK, ll_filter_id = Some 0, ll_config = [], ll_stale = [1, 2, 3, 4]\<rparr>"

definition local_example :: local_prov where
  "local_example =
     \<lparr>lp_prov = prov_example\<lparr>pv_state := PROV_STATE_UNINIT, jn_state := JOIN_STATE_UNINIT, jn_stack := (jn_stack prov_example)\<lparr>ss_initialized := True\<rparr>\<rparr>,
      lp_proxy = proxy_example\<lparr>px_init := False, px_started := False, px_conf := None\<rparr>, lp_filter_id = 0, lp_reset_node = False,
      lp_psk = \<lparr>psk_id = 5, psk_key = replicate 32 7\<rparr>, lp_psk_init = \<lparr>psk_id = 5, psk_key = replicate 32 7\<rparr>, lp_proxy_enabled_cb = False,
      lp_user_cb_end = None, lp_default_selection = False, lp_log = []\<rparr>"

lemma local_example_joins: "fst (Local_provisioning_start_joining local_lib_example None None local_example) = LOCAL_PROVISIONING_RES_SUCCESS"
  by code_simp

theorem local_provisioning_transfers_witness:
  "\<exists>v' start x' reply w w1 w2.
     appConfigTLVReceivedCb local_lib_example (2 # le32 9 @ replicate 32 7) local_example = Some v' \<and> px_started (lp_proxy v') \<and>
     (\<exists>cs. px_calls (lp_proxy v') = cs @
        [Start_beacon_tx
           \<lparr>bt_interval = 500, bt_addr = 0x9E4ADC, bt_channel = 36, bt_tx_power = 8,
            bt_type = 0x647650fb, bt_payload = Some (le32 9), bt_payload_num_bytes = 4\<rparr>,
         Enable_proxy False, Proxy_add_rx_cb]) \<and>
     proxy_pkt_received_cb toy_cipher small_cbor (replicate 102 0) \<lparr>rp_bytes_ptr = 0, rp_bytes = start, rp_src_address = 33\<rparr> (lp_proxy v') =
       Some (APP_LIB_DATA_RECEIVE_RES_HANDLED, x') \<and>
     prov_pkt_received_cb us_clock reply w = Some (APP_LIB_DATA_RECEIVE_RES_HANDLED, w1) \<and>
     check_packet node_env w1 = Some (PROV_RES_SUCCESS, w2) \<and> pd_net_addr (pv_data w2) = 77"
proof -
  let ?psk = "\<lparr>psk_id = 9, psk_key = replicate 32 (7 :: u8)\<rparr>"
  have a: "announced (2 # le32 9 @ replicate 32 7) (lp_psk_init local_example) = Some ?psk" "proxy_ok (lp_proxy local_example)"
    by (code_simp, simp add: proxy_ok_def local_example_def)
  have l: "settings_are local_lib_example np_example" "ll_startJoiningBeaconTx local_lib_example = APP_RES_OK"
    "ll_stopJoiningBeaconTx local_lib_example = APP_RES_OK" "ll_prov local_lib_example = node_env" "length (ll_stale local_lib_example) = 4"
    by (simp_all add: settings_are_def local_lib_example_def)
  obtain u' where u': "Local_provisioning_start_joining local_lib_example None None local_example = (LOCAL_PROVISIONING_RES_SUCCESS, u')"
    using local_example_joins by (cases "Local_provisioning_start_joining local_lib_example None None local_example") simp
  have k: "psk_key (lp_psk_init local_example) = psk_key ?psk" by (simp add: local_example_def)
  let ?w = "prov_example\<lparr>pv_conf := pv_conf (lp_prov u')\<rparr>"
  have w: "pv_conf ?w = pv_conf (lp_prov u')" "length (pv_iv ?w) = 16" "length (pv_buffer ?w) = PROV_PDU_SIZE" "jn_conf ?w \<noteq> None"
    "slot_for PROV_run_state_machine (jn_sched ?w)" "keys_ok (pv_data ?w)"
    by (simp_all add: prov_example_def prov_consts keys_ok_def empty_data_def slot_for_funcs App_Scheduler_init_def sched_boot_def)
  have d: "concat (map small_cbor (net_param_ops np_example)) = np_bytes" "np_bytes \<noteq> []" "length np_bytes \<le> 88"
    by (simp_all add: net_param_ops_def np_example_def small_cbor_def np_bytes_def)
  have e: "aes_ok (en_aes node_env)" "np_valid node_env np_example" "en_parser node_env np_bytes = Map (stream_of (np_items np_example))"
    by (simp_all add: node_env_def env_example_def toy_cipher_ok np_valid_def np_example_def any_settings_def INVALID_NET_ADDR_def INVALID_NET_CHAN_def)
  have f: "en_aes node_env = toy_cipher" "en_time node_env = us_clock" "np_net_addr np_example = 77" "length (replicate 102 (0 :: u8)) = PROV_PDU_SIZE"
    by (simp_all add: node_env_def env_example_def np_example_def prov_consts)
  have i: "ll_ism24 local_lib_example" by (simp add: local_lib_example_def)
  from local_provisioning_transfers [OF a(1,2) l(1-3) u' k l(5) w, unfolded l(4), OF e(1,2) d e(3) f(4), of 0 33]
  show ?thesis unfolding f local_psk.simps if_P [OF i] by blast
qed

subsection \<open>Other results\<close>

text \<open>The identifier in the START packet is not the one of the chip, but what is on the stack when
  the packet is made.\<close>

lemma uid_not_kept:
  assumes "Local_provisioning_start_joining env cb_beacons cb_end u = (LOCAL_PROVISIONING_RES_SUCCESS, u')" "length (ll_stale env) = 4"
    and "pv_conf w = pv_conf (lp_prov u')" "length (pv_iv w) = 16"
  shows "\<exists>conf hdr. pv_conf w = Some conf \<and> start_packet e conf w = Some (hdr @ ll_stale env)"
proof -
  obtain conf where c: "pv_conf w = Some conf" "pc_uid conf = Some (ll_stale env)" "pc_uid_len conf = 4"
    using joining_started [OF assms(1)] assms(3) by (auto simp: joining_conf_of_def)
  then show ?thesis using start_packet_eq [OF c(2) _ _ assms(4), of e] assms(2) by simp
qed

text \<open>A reset of a node removes its settings, at once or when its stack has stopped.\<close>

lemma node_reset:
  "Reset_all \<in> set (lp_log (if Stack_State_isStarted (ll_stack_state env)
     then on_stack_state_event_cb env STACK_STOPPED (Local_provisioning_reset_node env w) else Local_provisioning_reset_node env w))"
  by (simp add: Local_provisioning_reset_node_def on_stack_state_event_cb_def lp_call_def)

end
