(* ===== verification/Waps_Sap.thy ===== *)
theory Waps_Sap
  imports Waps Wms_Api
begin

text \<open>
  What the access points of the dual MCU application share, and the data access point:
  \<open>libraries/dualmcu/waps/waddr.c\<close>, \<open>sap/lock_bits.c\<close>, \<open>sap/persistent.c\<close>,
  \<open>sap/multicast.c\<close> and \<open>sap/dsap.c\<close>.

  A handler gets the item of a request and builds the confirmation in the same item.  The
  stack is a parameter: \<open>nl_get\<close> is the result of a query and the value it leaves in the
  variable of the caller, \<open>nl_call\<close> the result of a call that changes the stack.  Those
  calls are recorded in \<open>ss_calls\<close>.  \<open>None\<close> is an access outside of an object.  The enums
  in packed frames have one byte, as in the ABI of the microcontrollers.
\<close>

subsection \<open>The stack\<close>

datatype (plugins only: code) lib_get =
  GetFeatureLockKey | GetFeatureLockBits | GetNodeAddress | GetNetworkAddress | GetNetworkChannel | GetNodeRole
| GetMaxFragmentSize | GetOtapSeq | GetFwMajor | GetFwMinor | GetFwMaint | GetFwDevel | GetNumBuffers | GetNumFreeBuffers
| GetEncryptionKey | GetAuthenticationKey | GetChannelMin | GetChannelMax | GetAppConfigNumBytes | GetHardwareMagic
| GetProtocolProfile | GetOfflineScan | GetStackState | GetRouteState | GetAcRangeMin | GetAcRangeMax | GetAcLimitMin | GetAcLimitMax
| GetAccessCycle | GetOtapNumBytes | GetOtapCrc | GetOtapType | GetOtapStatus | GetProcessedNumBytes | GetProcessedCrc
| GetProcessedSeq | GetProcessedAreaId | GetTargetSeq | GetTargetCrc | GetTargetAction | GetTargetParam | GetSinkCost
| GetInstallQuality | GetInstallErrors | GetSleepState | GetStackWakeup | GetSleepLatestGotosleep | GetMaxMsgQueuingTime u8
| GetWapsVersion

datatype (plugins only: code) lib_call =
  SetNodeAddress u32 | SetNetworkAddress u32 | SetNetworkChannel u8 | SetNodeRole u8 | SetEncryptionKey "u8 list"
| SetAuthenticationKey "u8 list" | SetOfflineScan u16 | SetFeatureLockBits u32 | SetFeatureLockKey "u8 list"
| SetReservedChannels "u8 list" | ResetAll | StartStack | SetAcRange u16 u16 | WriteDiagnosticInterval u16 | SetAppConfig "u8 list"
| SetSinkCost u8 | StartScanNbors | OtapClear | OtapBegin u32 u8 | OtapWrite u32 "u8 list" | OtapSetToBeProcessed
| OtapSetTarget u8 u16 u8 u8 | SleepStackforTime u32 u32 | WakeupStack | SetMaxMsgQueuingTime u8 u16 | WritePersistent "u8 list"
| SendData data_to_send bool | DS_Enable | Waps_uart_powerReset

record nbor_info =
  nb_address :: u32
  nb_last_update :: u16
  nb_link_reliability :: u8
  nb_norm_rssi :: u8
  nb_cost :: u8
  nb_channel :: u8
  nb_type :: u8
  nb_tx_power :: u8
  nb_rx_power :: u8

datatype app_config_res =
  AC_SUCCESS | AC_INVALID_ROLE | AC_INVALID_APP_CONFIG | AC_INVALID_SEQ | AC_INVALID_INTERVAL | AC_INVALID_NULL_POINTER | AC_ACCESS_DENIED

datatype set_config_res = SC_OK | SC_INVALID_ROLE | SC_OTHER

datatype otap_write_res =
  OTAP_OK | OTAP_COMPLETED_OK | OTAP_COMPLETED_ERROR | OTAP_NOT_ONGOING | OTAP_INVALID_START | OTAP_INVALID_NUM_BYTES
| OTAP_INVALID_HEADER | OTAP_INVALID_NULL_BYTES

text \<open>\<open>nl_readPersistent\<close> maps the stored bytes and the buffer to the result and the buffer
  after the call, \<open>nl_writePersistent\<close> the bytes to write and the stored bytes to the result
  and the stored bytes after the call.  The last two fields are the build flags of these
  names.\<close>

record node_lib =
  nl_get :: "lib_get \<Rightarrow> app_res \<times> u32"
  nl_call :: "lib_call \<Rightarrow> app_res"
  nl_send :: "data_to_send \<Rightarrow> data_send_res"
  nl_readPersistent :: "u8 list \<Rightarrow> u8 list \<Rightarrow> app_res \<times> u8 list"
  nl_writePersistent :: "u8 list \<Rightarrow> u8 list \<Rightarrow> app_res \<times> u8 list"
  nl_getReservedChannels :: "u8 list \<Rightarrow> app_res \<times> u8 list"
  nl_readAppConfig :: "u8 list \<Rightarrow> app_config_res \<times> u8 list \<times> u8 \<times> u16"
  nl_writeDiagnosticInterval :: "u16 \<Rightarrow> app_config_res"
  nl_setAppConfig :: "u8 list \<Rightarrow> set_config_res"
  nl_getNbors :: "app_res \<times> nbor_info list"
  nl_otapWrite :: "u32 \<Rightarrow> u8 list \<Rightarrow> otap_write_res"
  nl_otapRead :: "u32 \<Rightarrow> u8 list \<Rightarrow> app_res \<times> u8 list"
  nl_now :: u32
  nl_OTAP_FORCE_LEGACY :: bool
  nl_ALLOW_SCRATCHPAD_READ :: bool

text \<open>The variables of \<open>persistent.c\<close>, of \<open>waps.c\<close> (\<open>num_channels\<close>) and of
  \<open>allowScratchpadRead\<close> (the last scratchpad it looked at and the verdict).\<close>

record sap_state =
  ss_image :: "u8 list"
  ss_storage :: "u8 list"
  ss_num_channels :: u8
  ss_checked :: "u32 \<times> u8 \<times> u16 \<times> u8 \<times> u8"
  ss_checked_result :: bool
  ss_calls :: "lib_call list"

definition ss_log :: "lib_call \<Rightarrow> sap_state \<Rightarrow> sap_state" where
  "ss_log c st = st\<lparr>ss_calls := ss_calls st @ [c]\<rparr>"

definition lib_call :: "node_lib \<Rightarrow> lib_call \<Rightarrow> sap_state \<Rightarrow> app_res \<times> sap_state" where
  "lib_call lib c st = (nl_call lib c, ss_log c st)"

definition got :: "node_lib \<Rightarrow> lib_get \<Rightarrow> u32" where
  "got lib g = snd (nl_get lib g)"

definition got_res :: "node_lib \<Rightarrow> lib_get \<Rightarrow> app_res" where
  "got_res lib g = fst (nl_get lib g)"

definition app_res_code :: "app_res \<Rightarrow> u8" where
  "app_res_code r =
     (case r of APP_RES_OK \<Rightarrow> 0 | APP_RES_UNSPECIFIED_ERROR \<Rightarrow> 1 | APP_RES_NOT_IMPLEMENTED \<Rightarrow> 2 | APP_RES_INVALID_VALUE \<Rightarrow> 3
      | APP_RES_INVALID_NULL_POINTER \<Rightarrow> 4 | APP_RES_INVALID_CONFIGURATION \<Rightarrow> 5 | APP_RES_RESOURCE_UNAVAILABLE \<Rightarrow> 6
      | APP_RES_INVALID_STACK_STATE \<Rightarrow> 7 | APP_RES_ACCESS_DENIED \<Rightarrow> 8)"

definition data_send_res_code :: "data_send_res \<Rightarrow> u8" where
  "data_send_res_code r =
     (case r of APP_LIB_DATA_SEND_RES_SUCCESS \<Rightarrow> 0 | APP_LIB_DATA_SEND_RES_INVALID_STACK_STATE \<Rightarrow> 1
      | APP_LIB_DATA_SEND_RES_INVALID_QOS \<Rightarrow> 2 | APP_LIB_DATA_SEND_RES_INVALID_FLAGS \<Rightarrow> 3 | APP_LIB_DATA_SEND_RES_OUT_OF_MEMORY \<Rightarrow> 4
      | APP_LIB_DATA_SEND_RES_INVALID_DEST_ADDRESS \<Rightarrow> 5 | APP_LIB_DATA_SEND_RES_INVALID_NUM_BYTES \<Rightarrow> 6
      | APP_LIB_DATA_SEND_RES_OUT_OF_TRACKING_IDS \<Rightarrow> 7 | APP_LIB_DATA_SEND_RES_INVALID_TRACKING_ID \<Rightarrow> 8
      | APP_LIB_DATA_SEND_RES_RESERVED_ENDPOINT \<Rightarrow> 9 | APP_LIB_DATA_SEND_RES_ACCESS_DENIED \<Rightarrow> 10
      | APP_LIB_DATA_SEND_RES_INVALID_HOP_LIMIT \<Rightarrow> 11 | APP_LIB_DATA_SEND_RES_UNINITIALIZED \<Rightarrow> 12
      | APP_LIB_DATA_SEND_RES_INVALID_FRAGMENT_INFO \<Rightarrow> 13)"

subsection \<open>Addresses\<close>

definition WADDR_BCAST :: u32 where "WADDR_BCAST = 0xFFFFFFFF"
definition WADDR_ANYSINK :: u32 where "WADDR_ANYSINK = 0xFFFFFFFE"

definition Waddr_to_Addr :: "u32 \<Rightarrow> u32" where
  "Waddr_to_Addr waddr =
     (if waddr = WADDR_BCAST then APP_ADDR_BROADCAST
      else if waddr = 0 \<or> waddr = WADDR_ANYSINK then APP_ADDR_ANYSINK
      else waddr)"

definition Addr_to_Waddr :: "u32 \<Rightarrow> u32" where
  "Addr_to_Waddr app_addr =
     (if app_addr = APP_ADDR_BROADCAST then WADDR_BCAST
      else if app_addr = APP_ADDR_ANYSINK then WADDR_ANYSINK
      else app_addr)"

subsection \<open>Feature lock\<close>

definition LockBits_isKeySet :: "node_lib \<Rightarrow> bool" where
  "LockBits_isKeySet lib \<longleftrightarrow> got_res lib GetFeatureLockKey = APP_RES_OK"

definition LockBits_isFeaturePermitted :: "node_lib \<Rightarrow> u32 \<Rightarrow> bool" where
  "LockBits_isFeaturePermitted lib lock_bits \<longleftrightarrow>
     (if \<not> LockBits_isKeySet lib then True
      else
        let active_lock_bits = (if got_res lib GetFeatureLockBits = APP_RES_OK then got lib GetFeatureLockBits else 0xFFFFFFFF)
        in active_lock_bits AND lock_bits = lock_bits)"

subsection \<open>Persistent data\<close>

text \<open>\<open>persistent_area_t\<close>: a byte of flags and the multicast groups, packed.\<close>

definition update_image :: "node_lib \<Rightarrow> sap_state \<Rightarrow> app_res \<times> sap_state" where
  "update_image lib st = (case nl_readPersistent lib (ss_storage st) (ss_image st) of (res, img) \<Rightarrow> (res, st\<lparr>ss_image := img\<rparr>))"

definition write_image :: "node_lib \<Rightarrow> sap_state \<Rightarrow> app_res \<times> sap_state" where
  "write_image lib st =
     (case nl_writePersistent lib (ss_image st) (ss_storage st) of
        (res, storage) \<Rightarrow> (res, ss_log (WritePersistent (ss_image st)) (st\<lparr>ss_storage := storage\<rparr>)))"

definition Persistent_init :: "node_lib \<Rightarrow> sap_state \<Rightarrow> sap_state" where
  "Persistent_init lib st =
     (let st = snd (update_image lib st)
      in if ss_image st ! 0 = 0xFF then snd (write_image lib (st\<lparr>ss_image := (ss_image st)[0 := 0]\<rparr>)) else st)"

definition Persistent_getAutostart :: "node_lib \<Rightarrow> sap_state \<Rightarrow> app_res \<times> bool \<times> sap_state" where
  "Persistent_getAutostart lib st = (case update_image lib st of (res, st) \<Rightarrow> (res, bit (ss_image st ! 0) 0, st))"

definition set_flag :: "nat \<Rightarrow> bool \<Rightarrow> u8 \<Rightarrow> u8" where
  "set_flag n b v = (if b then set_bit n v else unset_bit n v)"

text \<open>Reading the image, changing it, and writing it when the reading succeeded.\<close>

definition change_image :: "node_lib \<Rightarrow> (u8 list \<Rightarrow> u8 list) \<Rightarrow> sap_state \<Rightarrow> app_res \<times> sap_state" where
  "change_image lib f st =
     (case update_image lib st of
        (res, st) \<Rightarrow>
          (let st = st\<lparr>ss_image := f (ss_image st)\<rparr>
           in if res = APP_RES_OK then write_image lib st else (res, st)))"

definition Persistent_setAutostart :: "node_lib \<Rightarrow> bool \<Rightarrow> sap_state \<Rightarrow> app_res \<times> sap_state" where
  "Persistent_setAutostart lib autostart st = change_image lib (\<lambda>img. img[0 := set_flag 0 autostart (img ! 0)]) st"

definition Persistent_isFirstboot :: "node_lib \<Rightarrow> sap_state \<Rightarrow> app_res \<times> bool \<times> sap_state" where
  "Persistent_isFirstboot lib st = (case update_image lib st of (res, st) \<Rightarrow> (res, \<not> bit (ss_image st ! 0) 1, st))"

definition Persistent_setFirstboot :: "node_lib \<Rightarrow> bool \<Rightarrow> sap_state \<Rightarrow> app_res \<times> sap_state" where
  "Persistent_setFirstboot lib firstboot st = change_image lib (\<lambda>img. img[0 := set_flag 1 (\<not> firstboot) (img ! 0)]) st"

definition Persistent_getGroups :: "node_lib \<Rightarrow> sap_state \<Rightarrow> app_res \<times> u8 list \<times> sap_state" where
  "Persistent_getGroups lib st = (case update_image lib st of (res, st) \<Rightarrow> (res, take 30 (drop 1 (ss_image st)), st))"

definition Persistent_setGroups :: "node_lib \<Rightarrow> u8 list \<Rightarrow> sap_state \<Rightarrow> app_res \<times> sap_state" where
  "Persistent_setGroups lib addr st = change_image lib (\<lambda>img. take 1 img @ take 30 addr @ drop 31 img) st"

subsection \<open>Multicast groups\<close>

definition MULTICAST_ADDRESS_AMOUNT :: nat where "MULTICAST_ADDRESS_AMOUNT = 10"

text \<open>The low three bytes of \<open>APP_ADDR_MULTICAST\<close> overwritten.\<close>

definition mcast_group_addr_to_app_addr :: "u8 list \<Rightarrow> u32" where
  "mcast_group_addr_to_app_addr addr = le_val (take 3 addr @ [0x80])"

fun is_group_loop :: "nat \<Rightarrow> u8 list \<Rightarrow> u32 \<Rightarrow> bool" where
  "is_group_loop 0 addresses group_addr = False"
| "is_group_loop (Suc n) addresses group_addr =
     (if mcast_group_addr_to_app_addr addresses = group_addr then True else is_group_loop n (drop 3 addresses) group_addr)"

definition Multicast_isGroupCb :: "node_lib \<Rightarrow> u32 \<Rightarrow> sap_state \<Rightarrow> bool \<times> sap_state" where
  "Multicast_isGroupCb lib group_addr st =
     (case Persistent_getGroups lib st of
        (res, addresses, st) \<Rightarrow> (res = APP_RES_OK \<and> is_group_loop MULTICAST_ADDRESS_AMOUNT addresses group_addr, st))"

fun store_groups :: "nat \<Rightarrow> u8 list \<Rightarrow> u8 list" where
  "store_groups 0 groups = []"
| "store_groups (Suc n) groups = take 3 groups @ store_groups n (drop 4 groups)"

definition Multicast_setGroups :: "node_lib \<Rightarrow> u8 list \<Rightarrow> sap_state \<Rightarrow> app_res \<times> sap_state" where
  "Multicast_setGroups lib groups st = Persistent_setGroups lib (store_groups MULTICAST_ADDRESS_AMOUNT groups) st"

fun load_groups :: "nat \<Rightarrow> u8 list \<Rightarrow> u8 list" where
  "load_groups 0 groups = []"
| "load_groups (Suc n) groups = take 3 groups @ [0] @ load_groups n (drop 3 groups)"

text \<open>The bytes written to the buffer, when the result is \<open>APP_RES_OK\<close>.\<close>

definition Multicast_getGroups :: "node_lib \<Rightarrow> sap_state \<Rightarrow> app_res \<times> u8 list \<times> sap_state" where
  "Multicast_getGroups lib st =
     (case Persistent_getGroups lib st of
        (res, groups, st) \<Rightarrow> (res, if res = APP_RES_OK then load_groups MULTICAST_ADDRESS_AMOUNT groups else [], st))"

subsection \<open>Items\<close>

datatype waps_cb = Update_packet_delay | Update_indication_count | Update_time | Reboot_callback

type_synonym sap_item = "waps_cb witem"
type_synonym sap_handler = "node_lib \<Rightarrow> sap_item \<Rightarrow> sap_state \<Rightarrow> (bool \<times> sap_item \<times> sap_state) option"

definition Waps_item_init :: "u8 \<Rightarrow> u8 \<Rightarrow> sap_item \<Rightarrow> sap_item" where
  "Waps_item_init func len it = it\<lparr>pre_cb := None, post_cb := None, frame := (frame it)\<lparr>sfunc := func, splen := len\<rparr>\<rparr>"

definition put :: "nat \<Rightarrow> u8 list \<Rightarrow> sap_item \<Rightarrow> sap_item option" where
  "put off bs it = do { p \<leftarrow> wr_bytes (spld (frame it)) off bs; Some (it\<lparr>frame := (frame it)\<lparr>spld := p\<rparr>\<rparr>) }"

definition get_u8 :: "nat \<Rightarrow> sap_item \<Rightarrow> u8 option" where
  "get_u8 off it = rd (spld (frame it)) off"

definition get_u16 :: "nat \<Rightarrow> sap_item \<Rightarrow> u16 option" where
  "get_u16 off it = map_option (\<lambda>bs. ucast (le_val bs)) (rd_bytes (spld (frame it)) off 2)"

definition get_u32 :: "nat \<Rightarrow> sap_item \<Rightarrow> u32 option" where
  "get_u32 off it = map_option le_val (rd_bytes (spld (frame it)) off 4)"

definition get_bytes :: "nat \<Rightarrow> nat \<Rightarrow> sap_item \<Rightarrow> u8 list option" where
  "get_bytes off n it = rd_bytes (spld (frame it)) off n"


text \<open>The confirmation of one byte most requests have.\<close>

definition simple_cnf :: "u8 \<Rightarrow> u8 \<Rightarrow> sap_item \<Rightarrow> sap_state \<Rightarrow> (bool \<times> sap_item \<times> sap_state) option" where
  "simple_cnf func result it st = do { it \<leftarrow> put 0 [result] (Waps_item_init func 1 it); Some (True, it, st) }"

subsection \<open>Data access point\<close>

definition get_singlemcu_flag_from_dualmcu_tx_option :: "u8 \<Rightarrow> u8" where
  "get_singlemcu_flag_from_dualmcu_tx_option tx_opts =
     (let flags = (if tx_opts AND 1 \<noteq> 0 then 1 else 0 :: u8);
          flags = (if tx_opts AND 2 \<noteq> 0 then flags OR 8 else flags)
      in if tx_opts AND 0x3c \<noteq> 0 then flags OR 4 else flags)"

definition get_single_mcu_hop_limit_from_dualmcu_tx_option :: "u8 \<Rightarrow> u8" where
  "get_single_mcu_hop_limit_from_dualmcu_tx_option tx_opts = drop_bit 2 (tx_opts AND 0x3c)"

definition LOCK_BITS_DSAP_DATA_TX :: u32 where "LOCK_BITS_DSAP_DATA_TX = 0x00000001"

definition APDU_MAX_SIZE :: nat where "APDU_MAX_SIZE = 102"

text \<open>The common fields of the three requests; the length of the data is at \<open>hdr - 1\<close>, the
  data at \<open>hdr\<close>.  Data that are too long are not sent, and not read.\<close>

definition tx_request :: "node_lib \<Rightarrow> nat \<Rightarrow> u32 \<Rightarrow> u8 \<Rightarrow> fragment_info option \<Rightarrow> sap_item \<Rightarrow> data_to_send option" where
  "tx_request lib hdr travel_time more_flags frag it =
     do {
       apdu_id \<leftarrow> get_u16 0 it;
       src_endpoint \<leftarrow> get_u8 2 it;
       dst_addr \<leftarrow> get_u32 3 it;
       dst_endpoint \<leftarrow> get_u8 7 it;
       qos \<leftarrow> get_u8 8 it;
       tx_opts \<leftarrow> get_u8 9 it;
       apdu_len \<leftarrow> get_u8 (hdr - 1) it;
       bytes \<leftarrow> (if unat apdu_len > APDU_MAX_SIZE then Some [] else get_bytes hdr (unat apdu_len) it);
       Some \<lparr>ds_bytes = bytes, ds_dest_address = Waddr_to_Addr dst_addr, ds_delay = nl_now lib + travel_time - w_time it,
         ds_tracking_id = apdu_id, ds_qos = qos, ds_flags = get_singlemcu_flag_from_dualmcu_tx_option tx_opts OR more_flags,
         ds_src_endpoint = src_endpoint, ds_dest_endpoint = dst_endpoint,
         ds_hop_limit = get_single_mcu_hop_limit_from_dualmcu_tx_option tx_opts, ds_fragment_info = frag\<rparr>
     }"

text \<open>The checks of \<open>Dsap_handleFrame\<close> after the decoding, the call and the confirmation.\<close>

definition tx_send :: "node_lib \<Rightarrow> u8 \<Rightarrow> data_to_send \<Rightarrow> sap_item \<Rightarrow> sap_state \<Rightarrow> (bool \<times> sap_item \<times> sap_state) option" where
  "tx_send lib apdu_len data it st =
     (let (res, st) =
            (if \<not> LockBits_isFeaturePermitted lib LOCK_BITS_DSAP_DATA_TX then (APP_LIB_DATA_SEND_RES_ACCESS_DENIED, st)
             else if unat apdu_len > APDU_MAX_SIZE then (APP_LIB_DATA_SEND_RES_INVALID_NUM_BYTES, st)
             else (nl_send lib data, ss_log (SendData data (ds_flags data AND 1 \<noteq> 0)) st));
          capacity = (if got_res lib GetNumFreeBuffers = APP_RES_OK then got lib GetNumFreeBuffers else 0)
      in do {
           it \<leftarrow> put 0 (le16 (ds_tracking_id data)) (Waps_item_init (sfunc (frame it) + 0x80) 4 it);
           it \<leftarrow> put 3 [ucast capacity] it;
           it \<leftarrow> put 2 [data_send_res_code res] it;
           Some (True, it, st)
         })"

definition Dsap_handleFrame :: sap_handler where
  "Dsap_handleFrame lib it st =
     (let func = sfunc (frame it)
      in if func = 0x01 then
           do {
             apdu_len \<leftarrow> get_u8 10 it;
             if unat (splen (frame it)) \<noteq> 11 + unat apdu_len then Some (False, it, st)
             else do { data \<leftarrow> tx_request lib 11 0 0 None it; tx_send lib apdu_len data it st }
           }
         else if func = 0x1F then
           do {
             apdu_len \<leftarrow> get_u8 14 it;
             if unat (splen (frame it)) \<noteq> 15 + unat apdu_len then Some (False, it, st)
             else do {
               travel_time \<leftarrow> get_u32 10 it;
               data \<leftarrow> tx_request lib 15 travel_time 0 None it;
               tx_send lib apdu_len data it st
             }
           }
         else if func = 0x0F then
           do {
             apdu_len \<leftarrow> get_u8 18 it;
             if unat (splen (frame it)) \<noteq> 19 + unat apdu_len then Some (False, it, st)
             else do {
               travel_time \<leftarrow> get_u32 10 it;
               packet_id \<leftarrow> get_u16 14 it;
               offset_flag \<leftarrow> get_u16 16 it;
               let frag = \<lparr>fi_offset = offset_flag AND 0x0fff, fi_last = (offset_flag AND 0x8000 = 0x8000), fi_packet_id = packet_id AND 0x0fff\<rparr>;
               data \<leftarrow> tx_request lib 19 travel_time 32 (Some frag) it;
               tx_send lib apdu_len data it st
             }
           }
         else Some (False, it, st))"

definition Dsap_packetSent :: "u16 \<Rightarrow> u8 \<Rightarrow> u8 \<Rightarrow> u32 \<Rightarrow> u32 \<Rightarrow> bool \<Rightarrow> sap_item \<Rightarrow> sap_item option" where
  "Dsap_packetSent apdu_id src_ep dst_ep queue_time dst success it =
     put 0 ([0] @ le16 apdu_id @ [src_ep] @ le32 dst @ [dst_ep] @ le32 queue_time @ [if success then 0 else 1])
       ((Waps_item_init 0x02 14 it)\<lparr>w_time := 0\<rparr>)"

definition rx_info :: "data_received \<Rightarrow> u8" where
  "rx_info data =
     (let info = dr_qos data AND 3;
          hops = (if dr_hops data > 63 then 63 else dr_hops data)
      in info OR (push_bit 2 hops AND 0xfc))"

definition Dsap_packetReceived :: "node_lib \<Rightarrow> data_received \<Rightarrow> u32 \<Rightarrow> sap_item \<Rightarrow> sap_item option" where
  "Dsap_packetReceived lib data dst_addr it =
     (let n = of_nat (length (dr_bytes data));
          addressing = [0] @ le32 (dr_src_address data) @ [dr_src_endpoint data] @ le32 dst_addr @ [dr_dest_endpoint data] @
            [rx_info data] @ le32 (dr_delay data)
      in do {
           it \<leftarrow> (case dr_fragment_info data of
                    Some frag \<Rightarrow>
                      (let flag = (fi_offset frag AND 0x0fff) OR (if fi_last frag then 0x8000 else 0)
                       in do {
                         it \<leftarrow> put 0 (addressing @ le16 (fi_packet_id frag) @ le16 flag @ [n]) (Waps_item_init 0x10 (21 + n) it);
                         put 21 (dr_bytes data) it
                       })
                  | None \<Rightarrow>
                      do {
                        it \<leftarrow> put 0 (addressing @ [n]) (Waps_item_init 0x03 (17 + n) it);
                        put 17 (dr_bytes data) it
                      });
           Some (it\<lparr>w_time := nl_now lib, pre_cb := Some Update_packet_delay\<rparr>)
         })"

text \<open>The second test of \<open>update_packet_delay\<close> repeats the first one.\<close>

definition update_packet_delay :: "u32 \<Rightarrow> sap_item \<Rightarrow> sap_item option" where
  "update_packet_delay now it =
     (let local_delay = now - w_time it;
          it = it\<lparr>w_time := now\<rparr>
      in if sfunc (frame it) = 0x03 then do { d \<leftarrow> get_u32 12 it; put 12 (le32 (d + local_delay)) it }
         else if sfunc (frame it) = 0x03 then do { d \<leftarrow> get_u32 12 it; put 12 (le32 (d + local_delay)) it }
         else Some it)"

text \<open>\<open>data_cb\<close> of \<open>waps.c\<close>: the destination shown to the host.\<close>

definition rx_destination :: "node_lib \<Rightarrow> u32 \<Rightarrow> u32" where
  "rx_destination lib dest =
     (if dest = APP_ADDR_BROADCAST then WADDR_BCAST
      else if dest AND 0xff000000 = APP_ADDR_MULTICAST then dest
      else Addr_to_Waddr (got lib GetNodeAddress))"

end
