(* ===== verification/Waps_Csap.thy ===== *)
theory Waps_Csap
  imports Waps_Sap
begin

text \<open>
  The configuration access point, \<open>libraries/dualmcu/waps/sap/csap.c\<close>: attributes of the
  node and the factory reset.
\<close>

subsection \<open>Attributes\<close>

datatype attribute_result =
  ATTR_SUCCESS | ATTR_UNSUPPORTED_ATTRIBUTE | ATTR_INVALID_STACK_STATE | ATTR_INV_LENGTH | ATTR_INV_VALUE | ATTR_WRITE_ONLY | ATTR_ACCESS_DENIED

definition attr_code :: "attribute_result \<Rightarrow> u8" where
  "attr_code r =
     (case r of ATTR_SUCCESS \<Rightarrow> 0 | ATTR_UNSUPPORTED_ATTRIBUTE \<Rightarrow> 1 | ATTR_INVALID_STACK_STATE \<Rightarrow> 2 | ATTR_INV_LENGTH \<Rightarrow> 3
      | ATTR_INV_VALUE \<Rightarrow> 4 | ATTR_WRITE_ONLY \<Rightarrow> 5 | ATTR_ACCESS_DENIED \<Rightarrow> 6)"

definition csap_attr_size_lut :: "nat list" where
  "csap_attr_size_lut = [4, 3, 1, 1, 1, 1, 1, 2, 2, 2, 2, 2, 16, 16, 2, 1, 2, 2, 0, 2, 0, 4, 16, 0, 0]"

definition csap_appRes2attrRes :: "app_res \<Rightarrow> attribute_result" where
  "csap_appRes2attrRes res =
     (case res of
        APP_RES_OK \<Rightarrow> ATTR_SUCCESS
      | APP_RES_NOT_IMPLEMENTED \<Rightarrow> ATTR_UNSUPPORTED_ATTRIBUTE
      | APP_RES_INVALID_VALUE \<Rightarrow> ATTR_INV_VALUE
      | APP_RES_INVALID_NULL_POINTER \<Rightarrow> ATTR_INV_VALUE
      | APP_RES_INVALID_CONFIGURATION \<Rightarrow> ATTR_INV_VALUE
      | APP_RES_RESOURCE_UNAVAILABLE \<Rightarrow> ATTR_WRITE_ONLY
      | APP_RES_INVALID_STACK_STATE \<Rightarrow> ATTR_INVALID_STACK_STATE
      | APP_RES_ACCESS_DENIED \<Rightarrow> ATTR_ACCESS_DENIED
      | _ \<Rightarrow> ATTR_UNSUPPORTED_ATTRIBUTE)"

text \<open>The roles of the stack and those of the attribute.\<close>

definition attr_of_role :: "u8 \<Rightarrow> u8" where
  "attr_of_role role =
     (if role = 0x00 then 0x01 else if role = 0x10 then 0x11 else if role = 0x01 then 0x02 else if role = 0x11 then 0x12
      else if role = 0x02 then 0x03 else if role = 0x12 then 0x13 else if role = 0x42 then 0x83 else if role = 0x52 then 0x93
      else 0x00)"

definition role_of_attr :: "u8 \<Rightarrow> u8" where
  "role_of_attr role =
     (if role = 0x01 then 0x00 else if role = 0x02 then 0x01 else if role = 0x03 then 0x02 else if role = 0x11 then 0x10
      else if role = 0x12 then 0x11 else if role = 0x13 then 0x12 else if role = 0x82 \<or> role = 0x83 then 0x42
      else if role = 0x92 \<or> role = 0x93 then 0x52 else 0xff)"

text \<open>The switch of \<open>readAttr\<close> for the attributes that go through the variable \<open>tmp\<close>.\<close>

definition csap_attr_value :: "node_lib \<Rightarrow> u16 \<Rightarrow> app_res \<times> u32" where
  "csap_attr_value lib attr_id =
     (if attr_id = 1 then (got_res lib GetNodeAddress, Addr_to_Waddr (got lib GetNodeAddress))
      else if attr_id = 2 then nl_get lib GetNetworkAddress
      else if attr_id = 3 then nl_get lib GetNetworkChannel
      else if attr_id = 4 then (got_res lib GetNodeRole, ucast (attr_of_role (ucast (got lib GetNodeRole))))
      else if attr_id = 5 then (APP_RES_OK, got lib GetMaxFragmentSize)
      else if attr_id = 7 then (APP_RES_OK, got lib GetOtapSeq)
      else if attr_id = 8 then (APP_RES_OK, got lib GetWapsVersion)
      else if attr_id = 9 then (APP_RES_OK, got lib GetFwMajor)
      else if attr_id = 10 then (APP_RES_OK, got lib GetFwMinor)
      else if attr_id = 11 then (APP_RES_OK, got lib GetFwMaint)
      else if attr_id = 12 then (APP_RES_OK, got lib GetFwDevel)
      else if attr_id = 6 then (APP_RES_OK, got lib GetNumBuffers)
      else if attr_id = 13 then
        (if got_res lib GetEncryptionKey = APP_RES_OK then APP_RES_RESOURCE_UNAVAILABLE else APP_RES_INVALID_CONFIGURATION, 0)
      else if attr_id = 14 then
        (if got_res lib GetAuthenticationKey = APP_RES_OK then APP_RES_RESOURCE_UNAVAILABLE else APP_RES_INVALID_CONFIGURATION, 0)
      else if attr_id = 15 then
        (APP_RES_OK, (got lib GetChannelMin AND 0xff) OR push_bit 8 (got lib GetChannelMax AND 0xff))
      else if attr_id = 16 then (APP_RES_OK, got lib GetAppConfigNumBytes)
      else if attr_id = 17 then (APP_RES_OK, got lib GetHardwareMagic)
      else if attr_id = 18 then (APP_RES_OK, got lib GetProtocolProfile)
      else if attr_id = 20 then nl_get lib GetOfflineScan
      else if attr_id = 22 then nl_get lib GetFeatureLockBits
      else if attr_id = 23 then nl_get lib GetFeatureLockKey
      else (APP_RES_NOT_IMPLEMENTED, 0))"

text \<open>The value is copied from the four bytes of \<open>tmp\<close> to the place of the attribute in the
  confirmation.  The result has the size of the attribute.\<close>

definition csap_readAttr :: "node_lib \<Rightarrow> u16 \<Rightarrow> nat \<Rightarrow> sap_item \<Rightarrow> sap_state \<Rightarrow> (attribute_result \<times> nat \<times> sap_item) option" where
  "csap_readAttr lib attr_id attr_size it st =
     (if attr_id = 25 then
        (let n = (unat (ss_num_channels st) + 7) div 8;
             n = (if n > 16 then 16 else n)
         in do {
              old \<leftarrow> get_bytes 4 n it;
              let (res, value) = nl_getReservedChannels lib old;
              it \<leftarrow> put 4 value it;
              Some (csap_appRes2attrRes res, n, it)
            })
      else
        (let (res, tmp) = csap_attr_value lib attr_id
         in do {
              it \<leftarrow> (if res = APP_RES_OK \<and> attr_size > 0
                     then (if attr_size > 4 then None else put 4 (le_bytes tmp attr_size) it) else Some it);
              Some (csap_appRes2attrRes res, attr_size, it)
            }))"

definition LOCK_BITS_MSAP_SCRATCHPAD_STATUS :: u32 where "LOCK_BITS_MSAP_SCRATCHPAD_STATUS = 0x00008000"
definition LOCK_BITS_CSAP_ATTR_READ :: u32 where "LOCK_BITS_CSAP_ATTR_READ = 0x00000200"
definition LOCK_BITS_CSAP_ATTR_WRITE :: u32 where "LOCK_BITS_CSAP_ATTR_WRITE = 0x00000100"
definition LOCK_BITS_CSAP_FACTORY_RESET :: u32 where "LOCK_BITS_CSAP_FACTORY_RESET = 0x00001000"

text \<open>The confirmation of a read request, of both access points.\<close>

definition read_cnf :: "u8 \<Rightarrow> attribute_result \<Rightarrow> u16 \<Rightarrow> nat \<Rightarrow> sap_item \<Rightarrow> sap_item option" where
  "read_cnf func result attr_id attr_size it =
     (let n = (if result = ATTR_SUCCESS then attr_size else 0)
      in do {
           it \<leftarrow> put 3 [of_nat n] (Waps_item_init func (4 + of_nat n) it);
           it \<leftarrow> put 0 [attr_code result] it;
           put 1 (le16 attr_id) it
         })"

definition csap_attrReadReq :: sap_handler where
  "csap_attrReadReq lib it st =
     do {
       attr_id \<leftarrow> get_u16 0 it;
       if splen (frame it) \<noteq> 2 then Some (False, it, st)
       else do {
         let idx = (ucast attr_id - 1 :: u32);
         (result, attr_size, it) \<leftarrow>
           (if unat idx \<ge> length csap_attr_size_lut then Some (ATTR_UNSUPPORTED_ATTRIBUTE, 0, it)
            else if \<not> LockBits_isFeaturePermitted lib
                (if attr_id = 7 then LOCK_BITS_MSAP_SCRATCHPAD_STATUS else LOCK_BITS_CSAP_ATTR_READ)
            then Some (ATTR_ACCESS_DENIED, 0, it)
            else csap_readAttr lib attr_id (csap_attr_size_lut ! unat idx) it st);
         it \<leftarrow> read_cnf 0x8E result attr_id attr_size it;
         Some (True, it, st)
       }
     }"

text \<open>With the build flag for it, a sink at its first boot is set to the legacy mode of
  updates.\<close>

definition force_legacy :: "node_lib \<Rightarrow> u8 \<Rightarrow> sap_state \<Rightarrow> sap_state" where
  "force_legacy lib app_role st =
     (if \<not> nl_OTAP_FORCE_LEGACY lib then st
      else
        (let (_, firstboot, st) = Persistent_isFirstboot lib st
         in if (app_role = 0x00 \<or> app_role = 0x10) \<and> firstboot then
              (let (res, st) = lib_call lib (OtapSetTarget 0 0 4 0) st
               in if res = APP_RES_OK then snd (Persistent_setFirstboot lib False st) else st)
            else st))"

definition csap_writeAttr :: "node_lib \<Rightarrow> u16 \<Rightarrow> nat \<Rightarrow> sap_item \<Rightarrow> sap_state \<Rightarrow> (attribute_result \<times> sap_state) option" where
  "csap_writeAttr lib attr_id attr_size it st =
     do {
       tmp \<leftarrow> (if attr_size \<le> 4 then map_option le_val (get_bytes 3 attr_size it) else Some 0);
       let call = (\<lambda>c. Some (case lib_call lib c st of (res, st) \<Rightarrow> (csap_appRes2attrRes res, st)));
       if attr_id = 1 then call (SetNodeAddress (Waddr_to_Addr tmp))
       else if attr_id = 2 then call (SetNetworkAddress tmp)
       else if attr_id = 3 then call (SetNetworkChannel (ucast tmp))
       else if attr_id = 4 then
         (if ucast tmp = (0 :: u8) then Some (ATTR_INV_VALUE, st)
          else
            (let app_role = role_of_attr (ucast tmp);
                 (res, st) = lib_call lib (SetNodeRole app_role) st
             in Some (csap_appRes2attrRes res,
                  if res = APP_RES_OK then force_legacy lib app_role (ss_log Waps_uart_powerReset st) else st)))
       else if attr_id = 13 then do { key \<leftarrow> get_bytes 3 16 it; call (SetEncryptionKey key) }
       else if attr_id = 14 then do { key \<leftarrow> get_bytes 3 16 it; call (SetAuthenticationKey key) }
       else if attr_id = 20 then call (SetOfflineScan (ucast tmp))
       else if attr_id = 22 then call (SetFeatureLockBits tmp)
       else if attr_id = 23 then do { key \<leftarrow> get_bytes 3 16 it; call (SetFeatureLockKey key) }
       else if attr_id = 25 then do { value \<leftarrow> get_bytes 3 attr_size it; call (SetReservedChannels value) }
       else Some (ATTR_UNSUPPORTED_ATTRIBUTE, st)
     }"

definition csap_attrWriteReq :: sap_handler where
  "csap_attrWriteReq lib it st =
     do {
       attr_id \<leftarrow> get_u16 0 it;
       attr_len \<leftarrow> get_u8 2 it;
       if unat (splen (frame it)) \<noteq> 3 + unat attr_len then Some (False, it, st)
       else do {
         let idx = (ucast attr_id - 1 :: u32);
         (result, st) \<leftarrow>
           (if unat idx \<ge> length csap_attr_size_lut then Some (ATTR_UNSUPPORTED_ATTRIBUTE, st)
            else if attr_id = 22 \<and> LockBits_isKeySet lib then Some (ATTR_ACCESS_DENIED, st)
            else if attr_id \<noteq> 23 \<and> \<not> LockBits_isFeaturePermitted lib LOCK_BITS_CSAP_ATTR_WRITE then Some (ATTR_ACCESS_DENIED, st)
            else
              (let attr_size = csap_attr_size_lut ! unat idx
               in if attr_size = 0 then csap_writeAttr lib attr_id (unat attr_len) it st
                  else if attr_size \<noteq> unat attr_len then Some (ATTR_INV_LENGTH, st)
                  else csap_writeAttr lib attr_id attr_size it st));
         simple_cnf 0x8D (attr_code result) it st
       }
     }"

subsection \<open>Factory reset\<close>

definition RESET_KEY :: u32 where "RESET_KEY = 0x74496f44"

definition csap_resetReq :: sap_handler where
  "csap_resetReq lib it st =
     (if splen (frame it) \<noteq> 4 then Some (False, it, st)
      else do {
        reset_key \<leftarrow> get_u32 0 it;
        let (result, st) =
          (if \<not> LockBits_isFeaturePermitted lib LOCK_BITS_CSAP_FACTORY_RESET then (3, st)
           else if reset_key \<noteq> RESET_KEY then (2, st)
           else (case lib_call lib ResetAll st of
                   (res, st) \<Rightarrow> if res \<noteq> APP_RES_OK then (1, st) else (0, Persistent_init lib st)));
        simple_cnf 0x96 result it st
      })"

definition Csap_handleFrame :: sap_handler where
  "Csap_handleFrame lib it st =
     (let func = sfunc (frame it)
      in if func = 0x0E then csap_attrReadReq lib it st
         else if func = 0x0D then csap_attrWriteReq lib it st
         else if func = 0x16 then csap_resetReq lib it st
         else Some (False, it, st))"

end
