(* ===== verification/Waps_Msap.thy ===== *)
theory Waps_Msap
  imports Waps_Csap
begin

text \<open>
  The management access point, \<open>libraries/dualmcu/waps/sap/msap.c\<close>: starting and stopping
  the stack, attributes, application configuration, sink cost, neighbours, the scratchpad of
  firmware updates, sleep and queueing times.
\<close>

subsection \<open>Result codes\<close>

definition ReadLibAppCfg2appCfg :: "app_config_res \<Rightarrow> u8" where
  "ReadLibAppCfg2appCfg result = (case result of AC_SUCCESS \<Rightarrow> 0 | AC_INVALID_APP_CONFIG \<Rightarrow> 1 | _ \<Rightarrow> 2)"

definition WriteLibAppCfg2appCfg :: "app_config_res \<Rightarrow> u8" where
  "WriteLibAppCfg2appCfg result =
     (case result of AC_SUCCESS \<Rightarrow> 0 | AC_INVALID_ROLE \<Rightarrow> 1 | AC_INVALID_INTERVAL \<Rightarrow> 2 | AC_INVALID_SEQ \<Rightarrow> 3 | _ \<Rightarrow> 4)"

definition msap_appRes2attrRes :: "app_res \<Rightarrow> attribute_result" where
  "msap_appRes2attrRes res =
     (case res of
        APP_RES_OK \<Rightarrow> ATTR_SUCCESS
      | APP_RES_INVALID_VALUE \<Rightarrow> ATTR_INV_VALUE
      | APP_RES_INVALID_CONFIGURATION \<Rightarrow> ATTR_INV_VALUE
      | APP_RES_INVALID_STACK_STATE \<Rightarrow> ATTR_INVALID_STACK_STATE
      | APP_RES_ACCESS_DENIED \<Rightarrow> ATTR_ACCESS_DENIED
      | _ \<Rightarrow> ATTR_UNSUPPORTED_ATTRIBUTE)"

definition appRes2appSinkCost :: "app_res \<Rightarrow> u8" where
  "appRes2appSinkCost result = (case result of APP_RES_OK \<Rightarrow> 0 | APP_RES_INVALID_CONFIGURATION \<Rightarrow> 1 | _ \<Rightarrow> 2)"

text \<open>The flags of the stack and those of the protocol; the addresses of the node and of the
  network have each other's bit.\<close>

definition appLibState2SappStackState :: "u32 \<Rightarrow> u8" where
  "appLibState2SappStackState result =
     (if bit result 0 then 1 else 0) OR (if bit result 1 then 4 else 0) OR (if bit result 2 then 2 else 0) OR
     (if bit result 3 then 8 else 0) OR (if bit result 4 then 16 else 0) OR (if bit result 5 then 32 else 0) OR
     (if bit result 7 then 128 else 0)"

definition stack_started :: "node_lib \<Rightarrow> bool" where
  "stack_started lib \<longleftrightarrow> got lib GetStackState = 0"

definition LOCK_BITS_MSAP_STACK_START :: u32 where "LOCK_BITS_MSAP_STACK_START = 0x00000004"
definition LOCK_BITS_MSAP_STACK_STOP :: u32 where "LOCK_BITS_MSAP_STACK_STOP = 0x00000008"
definition LOCK_BITS_MSAP_APP_CONFIG_WRITE :: u32 where "LOCK_BITS_MSAP_APP_CONFIG_WRITE = 0x00000010"
definition LOCK_BITS_MSAP_APP_CONFIG_READ :: u32 where "LOCK_BITS_MSAP_APP_CONFIG_READ = 0x00000020"
definition LOCK_BITS_MSAP_ATTR_WRITE :: u32 where "LOCK_BITS_MSAP_ATTR_WRITE = 0x00000040"
definition LOCK_BITS_MSAP_ATTR_READ :: u32 where "LOCK_BITS_MSAP_ATTR_READ = 0x00000080"
definition LOCK_BITS_MSAP_SCRATCHPAD_START :: u32 where "LOCK_BITS_MSAP_SCRATCHPAD_START = 0x00002000"
definition LOCK_BITS_MSAP_GET_NBORS :: u32 where "LOCK_BITS_MSAP_GET_NBORS = 0x00200000"
definition LOCK_BITS_MSAP_SCAN_NBORS :: u32 where "LOCK_BITS_MSAP_SCAN_NBORS = 0x00400000"
definition LOCK_BITS_MSAP_SINK_COST_WRITE :: u32 where "LOCK_BITS_MSAP_SINK_COST_WRITE = 0x02000000"
definition LOCK_BITS_MSAP_SINK_COST_READ :: u32 where "LOCK_BITS_MSAP_SINK_COST_READ = 0x04000000"

lemmas lock_bits_defs = LOCK_BITS_DSAP_DATA_TX_def LOCK_BITS_MSAP_SCRATCHPAD_STATUS_def LOCK_BITS_CSAP_ATTR_READ_def
  LOCK_BITS_CSAP_ATTR_WRITE_def LOCK_BITS_CSAP_FACTORY_RESET_def LOCK_BITS_MSAP_STACK_START_def LOCK_BITS_MSAP_STACK_STOP_def
  LOCK_BITS_MSAP_APP_CONFIG_WRITE_def LOCK_BITS_MSAP_APP_CONFIG_READ_def LOCK_BITS_MSAP_ATTR_WRITE_def LOCK_BITS_MSAP_ATTR_READ_def
  LOCK_BITS_MSAP_SCRATCHPAD_START_def LOCK_BITS_MSAP_GET_NBORS_def LOCK_BITS_MSAP_SCAN_NBORS_def LOCK_BITS_MSAP_SINK_COST_WRITE_def
  LOCK_BITS_MSAP_SINK_COST_READ_def

subsection \<open>Indications\<close>

definition Msap_getStackStatusIndication :: "node_lib \<Rightarrow> sap_item \<Rightarrow> sap_item option" where
  "Msap_getStackStatusIndication lib it =
     (let it = (Waps_item_init 0x07 2 it)\<lparr>w_time := 0\<rparr>
      in put 0 [0, appLibState2SappStackState (got lib GetStackState)] (it\<lparr>frame := (frame it)\<lparr>sfid := 0\<rparr>\<rparr>))"

definition Msap_handleAppConfig :: "u8 \<Rightarrow> u8 list \<Rightarrow> u16 \<Rightarrow> sap_item \<Rightarrow> sap_item option" where
  "Msap_handleAppConfig seq config interval it =
     (let it = (Waps_item_init 0x3F 84 it)\<lparr>w_time := 0\<rparr>
      in put 0 ([0, seq] @ le16 interval @ take 80 config) (it\<lparr>frame := (frame it)\<lparr>sfid := 0\<rparr>\<rparr>))"

definition Msap_onScannedNbors :: "sap_item \<Rightarrow> sap_item option" where
  "Msap_onScannedNbors it =
     (let it = (Waps_item_init 0x22 2 it)\<lparr>w_time := 0\<rparr>
      in put 0 [0, 1] (it\<lparr>frame := (frame it)\<lparr>sfid := 0\<rparr>\<rparr>))"

definition pollRequest :: sap_handler where
  "pollRequest lib it st =
     (if splen (frame it) \<noteq> 0 then Some (False, it, st)
      else Some (True, (Waps_item_init 0x84 1 it)\<lparr>pre_cb := Some Update_indication_count\<rparr>, st))"

subsection \<open>Starting and stopping\<close>

definition stackStart :: sap_handler where
  "stackStart lib it st =
     (if splen (frame it) \<noteq> 1 then Some (False, it, st)
      else if \<not> LockBits_isFeaturePermitted lib LOCK_BITS_MSAP_STACK_START then simple_cnf 0x85 128 it st
      else do {
        start_options \<leftarrow> get_u8 0 it;
        (case Persistent_setAutostart lib (start_options \<noteq> 0) st of
           (res, st) \<Rightarrow>
             if res \<noteq> APP_RES_OK then Some (False, it, st)
             else
               (case lib_call lib StartStack st of
                  (res, st) \<Rightarrow>
                    if res = APP_RES_OK then simple_cnf 0x85 0 it (ss_log DS_Enable st)
                    else simple_cnf 0x85 (appLibState2SappStackState (got lib GetStackState)) it st))
      })"

definition stackStop :: sap_handler where
  "stackStop lib it st =
     (if splen (frame it) \<noteq> 0 then Some (False, it, st)
      else if \<not> LockBits_isFeaturePermitted lib LOCK_BITS_MSAP_STACK_STOP then simple_cnf 0x86 128 it st
      else
        (case Persistent_setAutostart lib False st of
           (res, st) \<Rightarrow>
             if res \<noteq> APP_RES_OK then Some (False, it, st)
             else map_option (\<lambda>(b, it, st). (b, it\<lparr>post_cb := Some Reboot_callback\<rparr>, st)) (simple_cnf 0x86 0 it st)))"

subsection \<open>Attributes\<close>

definition msap_attr_size_lut :: "nat list" where
  "msap_attr_size_lut = [1, 1, 1, 1, 1, 1, 1, 4, 4, 4, 2, 1, 40, 4]"

definition msap_attr_value :: "node_lib \<Rightarrow> u16 \<Rightarrow> sap_state \<Rightarrow> app_res \<times> u32" where
  "msap_attr_value lib attr_id st =
     (if attr_id = 1 then (APP_RES_OK, ucast (appLibState2SappStackState (got lib GetStackState)))
      else if attr_id = 2 then
        (got_res lib GetNumFreeBuffers,
         got lib GetNumBuffers - (if got_res lib GetNumFreeBuffers = APP_RES_OK then got lib GetNumFreeBuffers else 0))
      else if attr_id = 3 then nl_get lib GetNumFreeBuffers
      else if attr_id = 6 then (APP_RES_OK, le_val (snd (nl_readPersistent lib (ss_storage st) (replicate 4 0))) AND 1)
      else if attr_id = 7 then
        (if \<not> stack_started lib then (APP_RES_INVALID_STACK_STATE, 0)
         else (got_res lib GetRouteState,
           if got_res lib GetRouteState = APP_RES_OK \<and> got lib GetRouteState = 2 then 1 else 0))
      else if attr_id = 8 then (APP_RES_OK, 0)
      else if attr_id = 9 then (got_res lib GetAcRangeMin, (got lib GetAcRangeMin AND 0xffff) + push_bit 16 (got lib GetAcRangeMax))
      else if attr_id = 10 then (got_res lib GetAcLimitMin, (got lib GetAcLimitMin AND 0xffff) + push_bit 16 (got lib GetAcLimitMax))
      else if attr_id = 11 then nl_get lib GetAccessCycle
      else if attr_id = 12 then (APP_RES_OK, 112)
      else if attr_id = 14 then
        (if got lib GetOtapNumBytes = 0 then APP_RES_INVALID_CONFIGURATION else APP_RES_OK, got lib GetOtapNumBytes)
      else (APP_RES_NOT_IMPLEMENTED, 0))"

definition msap_readAttr :: "node_lib \<Rightarrow> u16 \<Rightarrow> nat \<Rightarrow> sap_item \<Rightarrow> sap_state \<Rightarrow> (attribute_result \<times> sap_item \<times> sap_state) option" where
  "msap_readAttr lib attr_id attr_size it st =
     (if attr_id = 13 then
        (case Multicast_getGroups lib st of
           (res, groups, st) \<Rightarrow> do { it \<leftarrow> put 4 groups it; Some (msap_appRes2attrRes res, it, st) })
      else
        (let (res, tmp) = msap_attr_value lib attr_id st
         in do {
              it \<leftarrow> (if res = APP_RES_OK \<and> attr_size \<le> 4 then put 4 (le_bytes tmp attr_size) it else Some it);
              Some (msap_appRes2attrRes res, it, st)
            }))"

definition msap_attrReadReq :: sap_handler where
  "msap_attrReadReq lib it st =
     do {
       attr_id \<leftarrow> get_u16 0 it;
       if splen (frame it) \<noteq> 2 then Some (False, it, st)
       else do {
         let idx = (ucast attr_id - 1 :: u32);
         (result, attr_size, it, st) \<leftarrow>
           (if unat idx \<ge> length msap_attr_size_lut then Some (ATTR_UNSUPPORTED_ATTRIBUTE, 0, it, st)
            else if \<not> LockBits_isFeaturePermitted lib
                (if attr_id = 12 \<or> attr_id = 14 then LOCK_BITS_MSAP_SCRATCHPAD_STATUS
                 else if attr_id = 4 \<or> attr_id = 7 then LOCK_BITS_MSAP_GET_NBORS else LOCK_BITS_MSAP_ATTR_READ)
            then Some (ATTR_ACCESS_DENIED, 0, it, st)
            else
              (let attr_size = msap_attr_size_lut ! unat idx
               in do { (result, it, st) \<leftarrow> msap_readAttr lib attr_id attr_size it st; Some (result, attr_size, it, st) }));
         it \<leftarrow> read_cnf 0x8C result attr_id attr_size it;
         Some (True, if result = ATTR_SUCCESS \<and> attr_id = 8 then it\<lparr>pre_cb := Some Update_time\<rparr> else it, st)
       }
     }"

definition msap_writeAttr :: "node_lib \<Rightarrow> u16 \<Rightarrow> nat \<Rightarrow> sap_item \<Rightarrow> sap_state \<Rightarrow> (attribute_result \<times> sap_state) option" where
  "msap_writeAttr lib attr_id attr_size it st =
     do {
       tmp \<leftarrow> (if attr_size \<le> 4 then map_option le_val (get_bytes 3 attr_size it) else Some 0);
       if attr_id = 6 then
         (if tmp > 1 then Some (msap_appRes2attrRes APP_RES_INVALID_VALUE, st)
          else Some (case Persistent_setAutostart lib (tmp \<noteq> 0) st of (res, st) \<Rightarrow> (msap_appRes2attrRes res, st)))
       else if attr_id = 9 then
         Some (case lib_call lib (SetAcRange (ucast (tmp AND 0xffff)) (ucast (drop_bit 16 tmp AND 0xffff))) st of
                 (res, st) \<Rightarrow> (msap_appRes2attrRes res, st))
       else if attr_id = 13 then
         do {
           groups \<leftarrow> get_bytes 3 40 it;
           Some (case Multicast_setGroups lib groups st of (res, st) \<Rightarrow> (msap_appRes2attrRes res, st))
         }
       else Some (msap_appRes2attrRes APP_RES_NOT_IMPLEMENTED, st)
     }"

definition msap_attrWriteReq :: sap_handler where
  "msap_attrWriteReq lib it st =
     do {
       attr_id \<leftarrow> get_u16 0 it;
       attr_len \<leftarrow> get_u8 2 it;
       if unat (splen (frame it)) \<noteq> 3 + unat attr_len then Some (False, it, st)
       else do {
         let idx = (ucast attr_id - 1 :: u32);
         (result, st) \<leftarrow>
           (if unat idx \<ge> length msap_attr_size_lut then Some (ATTR_UNSUPPORTED_ATTRIBUTE, st)
            else if \<not> LockBits_isFeaturePermitted lib LOCK_BITS_MSAP_ATTR_WRITE then Some (ATTR_ACCESS_DENIED, st)
            else
              (let attr_size = msap_attr_size_lut ! unat idx
               in if attr_size \<noteq> unat attr_len then Some (ATTR_INV_LENGTH, st)
                  else msap_writeAttr lib attr_id attr_size it st));
         simple_cnf 0x8B (attr_code result) it st
       }
     }"

subsection \<open>Application configuration and sink cost\<close>

definition writeInterest :: sap_handler where
  "writeInterest lib it st =
     (if splen (frame it) \<noteq> 83 then Some (False, it, st)
      else if \<not> LockBits_isFeaturePermitted lib LOCK_BITS_MSAP_APP_CONFIG_WRITE then simple_cnf 0xBA 4 it st
      else do {
        interval \<leftarrow> get_u16 1 it;
        config \<leftarrow> get_bytes 3 80 it;
        let (read_res, cur_config, cur_seq, cur_interval) = nl_readAppConfig lib (replicate 80 0);
        let (result, st) =
          (if read_res = AC_SUCCESS \<and> cur_interval = interval then (0, st)
           else (WriteLibAppCfg2appCfg (nl_writeDiagnosticInterval lib interval), ss_log (WriteDiagnosticInterval interval) st));
        let (result, st) =
          (if result \<noteq> 0 then (result, st)
           else if read_res = AC_SUCCESS \<and> cur_config = config then (0, st)
           else (case nl_setAppConfig lib config of SC_OK \<Rightarrow> 0 | SC_INVALID_ROLE \<Rightarrow> 1 | SC_OTHER \<Rightarrow> 4, ss_log (SetAppConfig config) st));
        simple_cnf 0xBA result it st
      })"

definition readInterest :: sap_handler where
  "readInterest lib it st =
     (if splen (frame it) \<noteq> 0 then Some (False, it, st)
      else do {
        (result, seq, seconds, it) \<leftarrow>
          (if \<not> LockBits_isFeaturePermitted lib LOCK_BITS_MSAP_APP_CONFIG_READ then Some (AC_INVALID_NULL_POINTER, 0, 0, it)
           else do {
             old \<leftarrow> get_bytes 4 80 it;
             let (res, config, seq, seconds) = nl_readAppConfig lib old;
             it \<leftarrow> put 4 config it;
             Some (res, seq, seconds, it)
           });
        it \<leftarrow> put 2 (le16 seconds) (Waps_item_init 0xBB 84 it);
        it \<leftarrow> put 1 [seq] it;
        it \<leftarrow> put 0 [ReadLibAppCfg2appCfg result] it;
        Some (True, it, st)
      })"

definition writeSinkCost :: sap_handler where
  "writeSinkCost lib it st =
     (if splen (frame it) \<noteq> 1 then Some (False, it, st)
      else if \<not> LockBits_isFeaturePermitted lib LOCK_BITS_MSAP_SINK_COST_WRITE
      then simple_cnf 0xB8 (appRes2appSinkCost APP_RES_ACCESS_DENIED) it st
      else do {
        cost \<leftarrow> get_u8 0 it;
        (case lib_call lib (SetSinkCost cost) st of (res, st) \<Rightarrow> simple_cnf 0xB8 (appRes2appSinkCost res) it st)
      })"

definition readSinkCost :: sap_handler where
  "readSinkCost lib it st =
     (if splen (frame it) \<noteq> 0 then Some (False, it, st)
      else
        (let (res, cost) =
               (if LockBits_isFeaturePermitted lib LOCK_BITS_MSAP_SINK_COST_READ
                then (got_res lib GetSinkCost, if got_res lib GetSinkCost = APP_RES_OK then ucast (got lib GetSinkCost) else 0)
                else (APP_RES_ACCESS_DENIED, 0))
         in do {
              it \<leftarrow> put 0 [appRes2appSinkCost res, cost] (Waps_item_init 0xB9 2 it);
              Some (True, it, st)
            }))"

subsection \<open>Neighbours\<close>

definition nbor_entry :: "nbor_info \<Rightarrow> u8 list" where
  "nbor_entry info =
     le32 (Addr_to_Waddr (nb_address info)) @
     [nb_link_reliability info, nb_norm_rssi info, nb_cost info, nb_channel info,
      if nb_type info = 0 then 0 else if nb_type info = 1 then 1 else 2, nb_tx_power info, nb_rx_power info] @
     le16 (nb_last_update info)"

fun nbor_loop :: "nat \<Rightarrow> nbor_info list \<Rightarrow> sap_item \<Rightarrow> sap_item option" where
  "nbor_loop idx [] it = Some it"
| "nbor_loop idx (info # infos) it = do { it \<leftarrow> put (1 + 13 * idx) (nbor_entry info) it; nbor_loop (idx + 1) infos it }"

text \<open>The local array has place for eight neighbours.\<close>

definition getNbors :: sap_handler where
  "getNbors lib it st =
     (if splen (frame it) \<noteq> 0 then Some (False, it, st)
      else do {
        it \<leftarrow> put 1 (replicate 104 0) (Waps_item_init 0xA0 105 it);
        if \<not> LockBits_isFeaturePermitted lib LOCK_BITS_MSAP_GET_NBORS then Some (True, it, st)
        else
          (case nl_getNbors lib of
             (res, infos) \<Rightarrow>
               if res = APP_RES_OK then
                 if length infos > 8 then None
                 else do {
                   it \<leftarrow> nbor_loop 0 infos it;
                   it \<leftarrow> put 0 [of_nat (length infos)] it;
                   Some (True, it, st)
                 }
               else do { it \<leftarrow> put 0 [0] it; Some (False, it, st) })
      })"

definition startScanNbors :: sap_handler where
  "startScanNbors lib it st =
     (if splen (frame it) \<noteq> 0 then Some (False, it, st)
      else if \<not> LockBits_isFeaturePermitted lib LOCK_BITS_MSAP_SCAN_NBORS then simple_cnf 0xA1 2 it st
      else (case lib_call lib StartScanNbors st of (res, st) \<Rightarrow> simple_cnf 0xA1 (if res = APP_RES_OK then 0 else 1) it st))"

definition getInstallQuality :: sap_handler where
  "getInstallQuality lib it st =
     (if splen (frame it) \<noteq> 0 then Some (False, it, st)
      else do {
        it \<leftarrow> put 0 [app_res_code (got_res lib GetInstallQuality), ucast (got lib GetInstallQuality), ucast (got lib GetInstallErrors)]
          (Waps_item_init 0xA3 3 it);
        Some (True, it, st)
      })"

subsection \<open>Scratchpad\<close>

definition scratchpadClear :: sap_handler where
  "scratchpadClear lib it st =
     (if splen (frame it) \<noteq> 0 then Some (False, it, st)
      else if \<not> LockBits_isFeaturePermitted lib LOCK_BITS_MSAP_SCRATCHPAD_START then simple_cnf 0x9B 2 it st
      else if stack_started lib then simple_cnf 0x9B 1 it st
      else (case lib_call lib OtapClear st of (_, st) \<Rightarrow> simple_cnf 0x9B 0 it st))"

definition scratchpadStart :: sap_handler where
  "scratchpadStart lib it st =
     (if splen (frame it) \<noteq> 5 then Some (False, it, st)
      else if \<not> LockBits_isFeaturePermitted lib LOCK_BITS_MSAP_SCRATCHPAD_START then simple_cnf 0x97 4 it st
      else if stack_started lib then simple_cnf 0x97 1 it st
      else do {
        num_bytes \<leftarrow> get_u32 0 it;
        seq \<leftarrow> get_u8 4 it;
        (case lib_call lib (OtapBegin num_bytes seq) st of (res, st) \<Rightarrow> simple_cnf 0x97 (if res \<noteq> APP_RES_OK then 2 else 0) it st)
      })"

definition otap_write_code :: "otap_write_res \<Rightarrow> u8" where
  "otap_write_code r =
     (case r of OTAP_OK \<Rightarrow> 0 | OTAP_COMPLETED_OK \<Rightarrow> 1 | OTAP_COMPLETED_ERROR \<Rightarrow> 2 | OTAP_NOT_ONGOING \<Rightarrow> 4 | OTAP_INVALID_START \<Rightarrow> 5
      | OTAP_INVALID_NUM_BYTES \<Rightarrow> 6 | OTAP_INVALID_HEADER \<Rightarrow> 7 | OTAP_INVALID_NULL_BYTES \<Rightarrow> 7)"

definition scratchpadBlock :: sap_handler where
  "scratchpadBlock lib it st =
     do {
       num_bytes \<leftarrow> get_u8 4 it;
       if unat (splen (frame it)) \<noteq> 5 + unat num_bytes then Some (False, it, st)
       else if stack_started lib then simple_cnf 0x98 3 it st
       else do {
         start_addr \<leftarrow> get_u32 0 it;
         bytes \<leftarrow> get_bytes 5 (unat num_bytes) it;
         simple_cnf 0x98 (otap_write_code (nl_otapWrite lib start_addr bytes)) it (ss_log (OtapWrite start_addr bytes) st)
       }
     }"

definition scratchpadStatus :: sap_handler where
  "scratchpadStatus lib it st =
     (if splen (frame it) \<noteq> 0 then Some (False, it, st)
      else do {
        it \<leftarrow> put 0
          (if LockBits_isFeaturePermitted lib LOCK_BITS_MSAP_SCRATCHPAD_STATUS
           then le32 (got lib GetOtapNumBytes) @ le16 (ucast (got lib GetOtapCrc)) @
             [ucast (got lib GetOtapSeq), ucast (got lib GetOtapType), ucast (got lib GetOtapStatus AND 0xff)] @
             le32 (got lib GetProcessedNumBytes) @ le16 (ucast (got lib GetProcessedCrc)) @ [ucast (got lib GetProcessedSeq)] @
             le32 (got lib GetProcessedAreaId) @
             [ucast (got lib GetFwMajor), ucast (got lib GetFwMinor), ucast (got lib GetFwMaint), ucast (got lib GetFwDevel)]
           else replicate 24 0)
          (Waps_item_init 0x99 24 it);
        Some (True, it, st)
      })"

definition scratchpadSetUpdate :: sap_handler where
  "scratchpadSetUpdate lib it st =
     (if splen (frame it) \<noteq> 0 then Some (False, it, st)
      else if \<not> LockBits_isFeaturePermitted lib LOCK_BITS_MSAP_SCRATCHPAD_START then simple_cnf 0x9A 3 it st
      else if stack_started lib then simple_cnf 0x9A 1 it st
      else (case lib_call lib OtapSetToBeProcessed st of (res, st) \<Rightarrow> simple_cnf 0x9A (if res \<noteq> APP_RES_OK then 2 else 0) it st))"

definition scratchpadWriteTarget :: sap_handler where
  "scratchpadWriteTarget lib it st =
     (if splen (frame it) \<noteq> 5 then Some (False, it, st)
      else do {
        target_sequence \<leftarrow> get_u8 0 it;
        target_crc \<leftarrow> get_u16 1 it;
        action \<leftarrow> get_u8 3 it;
        param \<leftarrow> get_u8 4 it;
        (case lib_call lib (OtapSetTarget target_sequence target_crc action param) st of
           (res, st) \<Rightarrow>
             simple_cnf 0xA6 (case res of APP_RES_OK \<Rightarrow> 0 | APP_RES_INVALID_CONFIGURATION \<Rightarrow> 1 | APP_RES_INVALID_VALUE \<Rightarrow> 2 | _ \<Rightarrow> 3) it st)
      })"

definition scratchpadReadTarget :: sap_handler where
  "scratchpadReadTarget lib it st =
     (if splen (frame it) \<noteq> 0 then Some (False, it, st)
      else if got_res lib GetTargetSeq \<noteq> APP_RES_OK then Some (False, it, st)
      else do {
        it \<leftarrow> put 0 ([0, ucast (got lib GetTargetSeq)] @ le16 (ucast (got lib GetTargetCrc)) @
            [ucast (got lib GetTargetAction), ucast (got lib GetTargetParam)]) (Waps_item_init 0xA7 6 it);
        Some (True, it, st)
      })"

text \<open>The verdict on a scratchpad is kept until its number of bytes, sequence, checksum, type
  or status changes.  The scratchpad may be read when its tag has only bytes 0xff.\<close>

definition allowScratchpadRead :: "node_lib \<Rightarrow> sap_state \<Rightarrow> bool \<times> sap_state" where
  "allowScratchpadRead lib st =
     (let now = (got lib GetOtapNumBytes, ucast (got lib GetOtapSeq), ucast (got lib GetOtapCrc), ucast (got lib GetOtapType),
            ucast (got lib GetOtapStatus))
      in if now = ss_checked st then (ss_checked_result st, st)
         else
           (let (res, tag) = nl_otapRead lib 32 (replicate 16 0);
                ok = (res = APP_RES_OK \<and> list_all (\<lambda>b. b = 0xff) tag)
            in (ok, st\<lparr>ss_checked := now, ss_checked_result := ok\<rparr>)))"

definition scratchpadReadBlock :: sap_handler where
  "scratchpadReadBlock lib it st =
     (if splen (frame it) \<noteq> 5 then Some (False, it, st)
      else do {
        start_addr \<leftarrow> get_u32 0 it;
        num_bytes \<leftarrow> get_u8 4 it;
        let it = Waps_item_init 0xA8 1 it;
        let max_num_bytes = got lib GetOtapNumBytes;
        (result, it, st) \<leftarrow>
          (if \<not> nl_ALLOW_SCRATCHPAD_READ lib then Some (5, it, st)
           else if \<not> LockBits_isFeaturePermitted lib LOCK_BITS_MSAP_SCRATCHPAD_START then Some (5, it, st)
           else
             (case allowScratchpadRead lib st of
                (False, st) \<Rightarrow> Some (5, it, st)
              | (True, st) \<Rightarrow>
                  if start_addr AND 3 \<noteq> 0 \<or> start_addr > max_num_bytes then Some (2, it, st)
                  else if num_bytes AND 3 \<noteq> 0 \<or> unat num_bytes > 112 then Some (3, it, st)
                  else if max_num_bytes = 0 then Some (4, it, st)
                  else
                    (let n = (if max_num_bytes - start_addr < ucast num_bytes then unat (max_num_bytes - start_addr) else unat num_bytes);
                         it = it\<lparr>frame := (frame it)\<lparr>splen := of_nat (1 + n)\<rparr>\<rparr>
                     in if n = 0 then Some (0, it, st)
                        else do {
                          old \<leftarrow> get_bytes 1 n it;
                          let (res, bytes) = nl_otapRead lib start_addr old;
                          it \<leftarrow> put 1 bytes it;
                          Some (case res of APP_RES_OK \<Rightarrow> 0 | APP_RES_INVALID_STACK_STATE \<Rightarrow> 1 | APP_RES_RESOURCE_UNAVAILABLE \<Rightarrow> 4 | _ \<Rightarrow> 3,
                            it, st)
                        })));
        it \<leftarrow> put 0 [result] it;
        Some (True, it, st)
      })"

definition remoteStatus :: sap_handler where
  "remoteStatus lib it st = (if splen (frame it) \<noteq> 4 then Some (False, it, st) else simple_cnf 0x9C 4 it st)"

definition remoteUpdate :: sap_handler where
  "remoteUpdate lib it st = (if splen (frame it) \<noteq> 7 then Some (False, it, st) else simple_cnf 0x9E 6 it st)"

subsection \<open>Sleep and queueing times\<close>

definition sleep_request :: sap_handler where
  "sleep_request lib it st =
     do {
       seconds \<leftarrow> get_u32 0 it;
       app_config_nrls \<leftarrow> get_u32 4 it;
       (case lib_call lib (SleepStackforTime seconds app_config_nrls) st of
          (res, st) \<Rightarrow>
            simple_cnf 0xC0
              (case res of APP_RES_OK \<Rightarrow> 0 | APP_RES_INVALID_STACK_STATE \<Rightarrow> 1 | APP_RES_INVALID_CONFIGURATION \<Rightarrow> 2
               | APP_RES_INVALID_VALUE \<Rightarrow> 5 | _ \<Rightarrow> 6) it st)
     }"

definition sleep_stop_request :: sap_handler where
  "sleep_stop_request lib it st =
     (case lib_call lib WakeupStack st of
        (res, st) \<Rightarrow> simple_cnf 0xC1 (case res of APP_RES_OK \<Rightarrow> 0 | APP_RES_INVALID_STACK_STATE \<Rightarrow> 1 | _ \<Rightarrow> 6) it st)"

definition sleep_state_request :: sap_handler where
  "sleep_state_request lib it st =
     do {
       it \<leftarrow> put 0 ([if got lib GetSleepState \<noteq> 0 then 1 else 2] @ le32 (got lib GetStackWakeup)) (Waps_item_init 0xC2 5 it);
       Some (True, it, st)
     }"

definition sleep_gotosleepinfo_request :: sap_handler where
  "sleep_gotosleepinfo_request lib it st =
     do {
       it \<leftarrow> put 0 (le32 (got lib GetSleepLatestGotosleep)) (Waps_item_init 0xCC 4 it);
       Some (True, it, st)
     }"

definition max_msg_queuing_time_write_req :: sap_handler where
  "max_msg_queuing_time_write_req lib it st =
     do {
       priority \<leftarrow> get_u8 0 it;
       time \<leftarrow> get_u16 1 it;
       let status = (splen (frame it) = 3);
       let (res, st) = (if status then lib_call lib (SetMaxMsgQueuingTime priority time) st else (APP_RES_INVALID_VALUE, st));
       map_option (\<lambda>(_, it, st). (status, it, st)) (simple_cnf 0xCF (app_res_code res) it st)
     }"

definition max_msg_queuing_time_read_req :: sap_handler where
  "max_msg_queuing_time_read_req lib it st =
     do {
       priority \<leftarrow> get_u8 0 it;
       let status = (splen (frame it) = 1);
       let res = (if status then got_res lib (GetMaxMsgQueuingTime priority) else APP_RES_INVALID_VALUE);
       let time = (if res = APP_RES_OK then ucast (got lib (GetMaxMsgQueuingTime priority)) else 0);
       it \<leftarrow> put 0 (app_res_code res # le16 time) (Waps_item_init 0xD0 3 it);
       Some (status, it, st)
     }"

subsection \<open>Dispatch\<close>

definition Msap_handleFrame :: sap_handler where
  "Msap_handleFrame lib it st =
     (let func = sfunc (frame it)
      in if func = 0x05 then stackStart lib it st
         else if func = 0x06 then stackStop lib it st
         else if func = 0x3A then writeInterest lib it st
         else if func = 0x3B then readInterest lib it st
         else if func = 0x0C then msap_attrReadReq lib it st
         else if func = 0x0B then msap_attrWriteReq lib it st
         else if func = 0x04 then pollRequest lib it st
         else if func = 0x17 then scratchpadStart lib it st
         else if func = 0x18 then scratchpadBlock lib it st
         else if func = 0x19 then scratchpadStatus lib it st
         else if func = 0x1A then scratchpadSetUpdate lib it st
         else if func = 0x1B then scratchpadClear lib it st
         else if func = 0x26 then scratchpadWriteTarget lib it st
         else if func = 0x27 then scratchpadReadTarget lib it st
         else if func = 0x28 then scratchpadReadBlock lib it st
         else if func = 0x1C then remoteStatus lib it st
         else if func = 0x1E then remoteUpdate lib it st
         else if func = 0x20 then getNbors lib it st
         else if func = 0x21 then startScanNbors lib it st
         else if func = 0x23 then getInstallQuality lib it st
         else if func = 0x38 then writeSinkCost lib it st
         else if func = 0x39 then readSinkCost lib it st
         else if func = 0x40 then sleep_request lib it st
         else if func = 0x41 then sleep_stop_request lib it st
         else if func = 0x42 then sleep_state_request lib it st
         else if func = 0x4C then sleep_gotosleepinfo_request lib it st
         else if func = 0x4F then max_msg_queuing_time_write_req lib it st
         else if func = 0x50 then max_msg_queuing_time_read_req lib it st
         else Some (False, it, st))"

text \<open>The callbacks before a frame is sent.\<close>

definition run_sap_cb :: "u32 \<Rightarrow> waps_cb \<Rightarrow> bool \<Rightarrow> sap_item \<Rightarrow> sap_item option" where
  "run_sap_cb now cb pending it =
     (case cb of
        Update_packet_delay \<Rightarrow> update_packet_delay now it
      | Update_indication_count \<Rightarrow> put 0 [if pending then 1 else 0] it
      | Update_time \<Rightarrow> put 4 (le32 now) it
      | Reboot_callback \<Rightarrow> Some it)"

end
