(* ===== verification/Waps_Services.thy ===== *)
theory Waps_Services
  imports Waps_Msap
begin

text \<open>
  Properties of the access points: the contract of a service as a locale, interpreted for the
  three access points; what requests are answered with; the feature lock; the transmission of
  data; the multicast groups.
\<close>

subsection \<open>Frames in an item\<close>

text \<open>A request that came over the serial line: the payload of an item has 123 bytes, and the
  frame fits in it.\<close>

definition item_ok :: "sap_item \<Rightarrow> bool" where
  "item_ok it \<longleftrightarrow> length (spld (frame it)) = 123"

definition request_ok :: "sap_item \<Rightarrow> bool" where
  "request_ok it \<longleftrightarrow> item_ok it \<and> unat (splen (frame it)) \<le> 123"

definition paid :: "nat \<Rightarrow> u8 list \<Rightarrow> sap_item \<Rightarrow> sap_item" where
  "paid off bs it = it\<lparr>frame := (frame it)\<lparr>spld := take off (spld (frame it)) @ bs @ drop (off + length bs) (spld (frame it))\<rparr>\<rparr>"

lemma put_in: "item_ok it \<Longrightarrow> off + length bs \<le> 123 \<Longrightarrow> put off bs it = Some (paid off bs it)"
  by (simp add: put_def item_ok_def wr_bytes_in paid_def)

lemma item_ok_keeps:
  "item_ok (Waps_item_init func len it) = item_ok it"
  "item_ok it \<Longrightarrow> off + length bs \<le> 123 \<Longrightarrow> item_ok (paid off bs it)"
  "item_ok (it\<lparr>pre_cb := c\<rparr>) = item_ok it" "item_ok (it\<lparr>post_cb := c\<rparr>) = item_ok it" "item_ok (it\<lparr>w_time := t\<rparr>) = item_ok it"
  "item_ok (it\<lparr>frame := (frame it)\<lparr>splen := n\<rparr>\<rparr>) = item_ok it" "item_ok (it\<lparr>frame := (frame it)\<lparr>sfid := i\<rparr>\<rparr>) = item_ok it"
  by (simp_all add: item_ok_def paid_def Waps_item_init_def)

lemma frame_fields:
  "sfid (frame (paid off bs it)) = sfid (frame it)" "sfunc (frame (paid off bs it)) = sfunc (frame it)"
  "splen (frame (paid off bs it)) = splen (frame it)" "pre_cb (paid off bs it) = pre_cb it" "post_cb (paid off bs it) = post_cb it"
  "sfid (frame (Waps_item_init func len it)) = sfid (frame it)" "sfunc (frame (Waps_item_init func len it)) = func"
  "splen (frame (Waps_item_init func len it)) = len" "spld (frame (Waps_item_init func len it)) = spld (frame it)"
  by (simp_all add: paid_def Waps_item_init_def)

lemma gets_in:
  "item_ok it \<Longrightarrow> i < 123 \<Longrightarrow> get_u8 i it = Some (spld (frame it) ! i)"
  "item_ok it \<Longrightarrow> i + 2 \<le> 123 \<Longrightarrow> get_u16 i it = Some (ucast (le_val (take 2 (drop i (spld (frame it))))))"
  "item_ok it \<Longrightarrow> i + 4 \<le> 123 \<Longrightarrow> get_u32 i it = Some (le_val (take 4 (drop i (spld (frame it)))))"
  "item_ok it \<Longrightarrow> i + n \<le> 123 \<Longrightarrow> get_bytes i n it = Some (take n (drop i (spld (frame it))))"
  by (simp_all add: get_u8_def get_u16_def get_u32_def get_bytes_def item_ok_def rd_in rd_bytes_in)

lemma length_le [simp]: "length (le16 v) = 2" "length (le32 w) = 4"
  by (simp_all add: le16_def le32_def)

lemmas item_simps = put_in item_ok_keeps frame_fields gets_in

subsection \<open>The contract of a service\<close>

text \<open>What the documentation of the stack says on the sizes of its answers.\<close>

definition lib_ok :: "node_lib \<Rightarrow> bool" where
  "lib_ok lib \<longleftrightarrow>
     (\<forall>bs. length (snd (nl_getReservedChannels lib bs)) = length bs) \<and>
     (\<forall>bs. length (fst (snd (nl_readAppConfig lib bs))) = length bs) \<and>
     (\<forall>a bs. length (snd (nl_otapRead lib a bs)) = length bs) \<and>
     length (snd (nl_getNbors lib)) \<le> 8"

definition answered :: "sap_item \<Rightarrow> (bool \<times> sap_item \<times> sap_state) option \<Rightarrow> bool" where
  "answered it r \<longleftrightarrow>
     (case r of
        None \<Rightarrow> False
      | Some (b, it', st') \<Rightarrow>
          item_ok it' \<and> sfid (frame it') = sfid (frame it) \<and>
          (b \<longrightarrow> sfunc (frame it') = sfunc (frame it) OR 0x80 \<and> unat (splen (frame it')) \<le> 123))"

lemma answered_Some:
  "answered it (Some (b, it', st')) \<longleftrightarrow>
     item_ok it' \<and> sfid (frame it') = sfid (frame it) \<and>
     (b \<longrightarrow> sfunc (frame it') = sfunc (frame it) OR 0x80 \<and> unat (splen (frame it')) \<le> 123)"
  by (simp add: answered_def)

lemma answered_refused: "item_ok it \<Longrightarrow> answered it (Some (False, it, st))"
  by (simp add: answered_def)

lemma answered_simple: "item_ok it \<Longrightarrow> func = sfunc (frame it) OR 0x80 \<Longrightarrow> answered it (simple_cnf func r it st)"
  by (simp add: simple_cnf_def item_simps answered_Some)

lemmas answered_simps = answered_refused answered_simple answered_Some item_simps

text \<open>With a key set and all lock bits cleared, these calls are left to a host.\<close>

definition locked :: "node_lib \<Rightarrow> bool" where
  "locked lib \<longleftrightarrow> LockBits_isKeySet lib \<and> nl_get lib GetFeatureLockBits = (APP_RES_OK, 0)"

fun unlocked_call :: "lib_call \<Rightarrow> bool" where
  "unlocked_call (SetFeatureLockKey _) = True"
| "unlocked_call (OtapWrite _ _) = True"
| "unlocked_call (OtapSetTarget _ _ _ _) = True"
| "unlocked_call (SleepStackforTime _ _) = True"
| "unlocked_call WakeupStack = True"
| "unlocked_call (SetMaxMsgQueuingTime _ _) = True"
| "unlocked_call _ = False"

definition harmless :: "sap_state \<Rightarrow> (bool \<times> sap_item \<times> sap_state) option \<Rightarrow> bool" where
  "harmless st r \<longleftrightarrow>
     (case r of None \<Rightarrow> True | Some (b, it', st') \<Rightarrow>
        ss_storage st' = ss_storage st \<and> (\<exists>cs. ss_calls st' = ss_calls st @ cs \<and> list_all unlocked_call cs))"

lemma locked_permits: "locked lib \<Longrightarrow> LockBits_isFeaturePermitted lib bits \<longleftrightarrow> bits = 0"
  by (auto simp: locked_def LockBits_isFeaturePermitted_def got_def got_res_def Let_def)

lemma harmless_Some:
  "harmless st (Some (b, it, st')) \<longleftrightarrow>
     ss_storage st' = ss_storage st \<and> (\<exists>cs. ss_calls st' = ss_calls st @ cs \<and> list_all unlocked_call cs)"
  by (simp add: harmless_def)

lemma harmless_None: "harmless st None"
  by (simp add: harmless_def)

lemma harmless_refl: "harmless st (Some (b, it, st))"
  by (simp add: harmless_Some)

lemma harmless_bind: "(\<And>x. m = Some x \<Longrightarrow> harmless st (f x)) \<Longrightarrow> harmless st (m \<bind> f)"
  by (cases m) (simp_all add: harmless_def)

lemma harmless_cnf: "harmless st (Some (True, it, st')) \<Longrightarrow> harmless st (simple_cnf func r it st')"
  unfolding simple_cnf_def by (rule harmless_bind) (simp add: harmless_Some)

lemma harmless_log: "unlocked_call c \<Longrightarrow> harmless st (simple_cnf func r it (ss_log c st))"
  by (rule harmless_cnf) (simp add: harmless_Some ss_log_def)

lemma harmless_if: "(c \<Longrightarrow> harmless st a) \<Longrightarrow> (\<not> c \<Longrightarrow> harmless st b) \<Longrightarrow> harmless st (if c then a else b)"
  by simp

lemmas harmless_rules = harmless_if harmless_None harmless_refl harmless_bind harmless_cnf [OF harmless_refl] harmless_log

locale sap_service =
  fixes handle :: sap_handler and codes :: "u8 list" and fault :: "node_lib \<Rightarrow> sap_item \<Rightarrow> bool"
  assumes answers: "lib_ok lib \<Longrightarrow> request_ok it \<Longrightarrow> \<not> fault lib it \<Longrightarrow> answered it (handle lib it st)"
    and faults: "lib_ok lib \<Longrightarrow> request_ok it \<Longrightarrow> fault lib it \<Longrightarrow> handle lib it st = None"
    and foreign: "sfunc (frame it) \<notin> set codes \<Longrightarrow> handle lib it st = Some (False, it, st)"
    and lock: "locked lib \<Longrightarrow> harmless st (handle lib it st)"
begin

lemma fault_iff: "lib_ok lib \<Longrightarrow> request_ok it \<Longrightarrow> handle lib it st = None \<longleftrightarrow> fault lib it"
  using answers [of lib it st] faults [of lib it st] by (cases "fault lib it") (auto simp: answered_def split: option.splits)

lemma reply:
  assumes "lib_ok lib" "request_ok it" "handle lib it st = Some (b, it', st')"
  shows "item_ok it' \<and> sfid (frame it') = sfid (frame it) \<and>
     (b \<longrightarrow> sfunc (frame it) \<in> set codes \<and> sfunc (frame it') = sfunc (frame it) OR 0x80 \<and> unat (splen (frame it')) \<le> 123)"
  using answers [OF assms(1,2), of st] fault_iff [OF assms(1,2), of st] foreign [of it lib st] assms(3)
  by (auto simp: answered_def)

end

subsection \<open>Data access point\<close>

lemma tx_request_in:
  "item_ok it \<Longrightarrow> hdr \<le> 19 \<Longrightarrow> 0 < hdr \<Longrightarrow> \<exists>data. tx_request lib hdr travel_time fl frag it = Some data"
  by (auto simp: tx_request_def item_simps APDU_MAX_SIZE_def Let_def)

lemma tx_send_answered: "item_ok it \<Longrightarrow> sfunc (frame it) + 0x80 = sfunc (frame it) OR 0x80 \<Longrightarrow> answered it (tx_send lib n data it st)"
  by (auto simp: tx_send_def Let_def answered_simps split: prod.splits)

lemma dsap_answers:
  assumes "item_ok it"
  shows "answered it (Dsap_handleFrame lib it st)"
proof -
  have tx: "answered it (do { data \<leftarrow> tx_request lib hdr t fl frag it; tx_send lib n data it st })"
    if "hdr \<in> {11, 15, 19}" "sfunc (frame it) \<in> {0x01, 0x1F, 0x0F}" for hdr t fl frag n
    using tx_request_in [OF assms, of hdr lib t fl frag] tx_send_answered [OF assms] that by auto
  show ?thesis unfolding Dsap_handleFrame_def
    using assms tx by (auto simp: answered_simps Let_def)
qed

lemma tx_send_lock: "locked lib \<Longrightarrow> harmless st (tx_send lib n data it st)"
  by (simp add: tx_send_def locked_permits LOCK_BITS_DSAP_DATA_TX_def Let_def) (intro conjI impI harmless_rules)

lemma dsap_lock: "locked lib \<Longrightarrow> harmless st (Dsap_handleFrame lib it st)"
  unfolding Dsap_handleFrame_def Let_def by (intro harmless_rules tx_send_lock)

interpretation dsap: sap_service Dsap_handleFrame m_dsap_req "\<lambda>_ _. False"
proof unfold_locales
  fix lib it st
  show "answered it (Dsap_handleFrame lib it st)" if "request_ok it" using that dsap_answers by (simp add: request_ok_def)
  show "Dsap_handleFrame lib it st = Some (False, it, st)" if "sfunc (frame it) \<notin> set m_dsap_req"
    using that by (auto simp: Dsap_handleFrame_def m_dsap_req_def Let_def)
qed (simp_all add: dsap_lock)

subsection \<open>Configuration access point\<close>

lemma attr_index:
  assumes "unat (ucast (a :: u16) - 1 :: u32) < 255"
  shows "unat a = unat (ucast a - 1 :: u32) + 1"
proof (cases "a = 0")
  case True
  have "(- 1 :: u32) = 4294967295" by simp
  then have "unat (- 1 :: u32) = 4294967295" by (simp only: unat_numeral) simp
  with True assms show ?thesis by simp
next
  case False
  have u: "unat (ucast a :: u32) = unat a" using unat_lt_16 [of a] by (simp add: unsigned_ucast_eq take_bit_nat_eq_self)
  have "unat a \<noteq> 0" using False by (simp add: unat_eq_zero)
  then have "1 \<le> (ucast a :: u32)" using u by (simp add: word_le_nat_alt)
  then show ?thesis using u \<open>unat a \<noteq> 0\<close> by (simp add: unat_minus_le)
qed

lemma csap_lut_small:
  assumes "k < length csap_attr_size_lut"
  shows "csap_attr_size_lut ! k \<le> 4 \<or> k \<in> {12, 13, 22}" and "csap_attr_size_lut ! k \<le> 16"
proof -
  have "list_all (\<lambda>k. (csap_attr_size_lut ! k \<le> 4 \<or> k \<in> {12, 13, 22}) \<and> csap_attr_size_lut ! k \<le> 16) [0..<25]" by code_simp
  moreover have "k < 25" using assms by (simp add: csap_attr_size_lut_def)
  ultimately show "csap_attr_size_lut ! k \<le> 4 \<or> k \<in> {12, 13, 22}" "csap_attr_size_lut ! k \<le> 16" by (simp_all add: list_all_iff)
qed

definition csap_fault :: "node_lib \<Rightarrow> sap_item \<Rightarrow> bool" where
  "csap_fault lib it \<longleftrightarrow> sfunc (frame it) = 0x0E \<and> splen (frame it) = 2 \<and> get_u16 0 it = Some 23 \<and> LockBits_isKeySet lib \<and>
     LockBits_isFeaturePermitted lib LOCK_BITS_CSAP_ATTR_READ"

lemma read_cnf_answers:
  assumes "item_ok it" "n \<le> 100" "sfid (frame it) = sfid (frame it0)" "func = sfunc (frame it0) OR 0x80"
  shows "\<exists>it'. read_cnf func res a n it = Some it' \<and> item_ok it' \<and> sfid (frame it') = sfid (frame it0) \<and>
     sfunc (frame it') = sfunc (frame it0) OR 0x80 \<and> unat (splen (frame it')) \<le> 123"
proof -
  have "unat (4 + of_nat n :: u8) = 4 + n" using unat_of_nat_small [of "4 + n", where 'a = 8] assms(2) by simp
  then show ?thesis using assms by (auto simp: read_cnf_def Let_def item_simps)
qed

lemma csap_read:
  assumes "lib_ok lib" "item_ok it" "k < length csap_attr_size_lut" "unat a = k + 1"
  shows "if a = 23 \<and> LockBits_isKeySet lib then csap_readAttr lib a (csap_attr_size_lut ! k) it st = None
     else \<exists>res n it'. csap_readAttr lib a (csap_attr_size_lut ! k) it st = Some (res, n, it') \<and> n \<le> 100 \<and> item_ok it' \<and>
       sfid (frame it') = sfid (frame it)"
proof (cases "a = 25")
  case True
  define n where "n = (if (unat (ss_num_channels st) + 7) div 8 > 16 then 16 else (unat (ss_num_channels st) + 7) div 8)"
  obtain r v where v: "nl_getReservedChannels lib (take n (drop 4 (spld (frame it)))) = (r, v)" by fastforce
  have n: "n \<le> 16" by (simp add: n_def)
  have "length v = length (snd (nl_getReservedChannels lib (take n (drop 4 (spld (frame it))))))" using v by simp
  also have "\<dots> \<le> n" using assms(1) by (simp add: lib_ok_def)
  finally show ?thesis using True assms(2) n v
    unfolding csap_readAttr_def Let_def n_def [symmetric] by (simp add: item_simps)
next
  case a25: False
  have "a = 13 \<longleftrightarrow> k = 12" "a = 14 \<longleftrightarrow> k = 13" "a = 23 \<longleftrightarrow> k = 22" using assms(4) by (auto simp: word_unat_eq_iff)
  with csap_lut_small [OF assms(3)] have lut: "csap_attr_size_lut ! k \<le> 4 \<or> a \<in> {13, 14, 23}" "csap_attr_size_lut ! k \<le> 16" by auto
  have lut23: "csap_attr_size_lut ! k = 16" if "a = 23" using \<open>a = 23 \<longleftrightarrow> k = 22\<close> that by (simp add: csap_attr_size_lut_def)
  show ?thesis
  proof (cases "a \<in> {13, 14, 23}")
    case True
    obtain r v where v: "nl_get lib GetFeatureLockKey = (r, v)" by fastforce
    from True consider "a = 13" | "a = 14" | "a = 23" by auto
    then show ?thesis
    proof cases
      case 1
      then show ?thesis using assms(2) lut(2) by (simp add: csap_readAttr_def csap_attr_value_def)
    next
      case 2
      then show ?thesis using assms(2) lut(2) by (simp add: csap_readAttr_def csap_attr_value_def)
    next
      case 3
      then show ?thesis using assms(2) lut23 v by (simp add: csap_readAttr_def csap_attr_value_def LockBits_isKeySet_def got_res_def)
    qed
  next
    case False
    obtain r v where "csap_attr_value lib a = (r, v)" by fastforce
    then show ?thesis using False a25 assms(2) lut by (simp add: csap_readAttr_def item_simps)
  qed
qed

lemma answered_bind: "\<exists>x. m = Some x \<Longrightarrow> (\<And>x. answered it (f x)) \<Longrightarrow> answered it (m \<bind> f)"
  by auto

lemma answered_if: "(c \<Longrightarrow> answered it a) \<Longrightarrow> (\<not> c \<Longrightarrow> answered it b) \<Longrightarrow> answered it (if c then a else b)"
  by simp

lemma csap_read_answers:
  assumes "lib_ok lib" "item_ok it" "sfunc (frame it) = 0x0E"
  shows "if csap_fault lib it then csap_attrReadReq lib it st = None else answered it (csap_attrReadReq lib it st)"
proof (cases "splen (frame it) = 2")
  case False
  then show ?thesis using assms by (simp add: csap_attrReadReq_def csap_fault_def item_simps answered_refused)
next
  case len: True
  obtain a where a: "get_u16 0 it = Some a" using assms(2) by (simp add: item_simps)
  define idx where "idx = unat (ucast a - 1 :: u32)"
  have cnf: "answered it (do { it \<leftarrow> read_cnf 0x8E res a n it'; Some (True, it, st) })"
    if "item_ok it'" "n \<le> 100" "sfid (frame it') = sfid (frame it)" for res n it'
    using read_cnf_answers [OF that, where func = "0x8E" and res = res and a = a] assms(3) by (auto simp: answered_Some)
  show ?thesis
  proof (cases "idx < length csap_attr_size_lut \<and>
      LockBits_isFeaturePermitted lib (if a = 7 then LOCK_BITS_MSAP_SCRATCHPAD_STATUS else LOCK_BITS_CSAP_ATTR_READ)")
    case True
    then have ua: "unat a = idx + 1" using attr_index [of a] by (simp add: idx_def csap_attr_size_lut_def)
    have f: "csap_fault lib it \<longleftrightarrow> a = 23 \<and> LockBits_isKeySet lib" using True a len assms(3) by (auto simp: csap_fault_def)
    show ?thesis
    proof (cases "a = 23 \<and> LockBits_isKeySet lib")
      case fault: True
      then show ?thesis using csap_read [OF assms(1,2) conjunct1 [OF True] ua, of st] True a len f
        by (simp add: csap_attrReadReq_def Let_def idx_def)
    next
      case fault: False
      then obtain res n it' where "csap_readAttr lib a (csap_attr_size_lut ! idx) it st = Some (res, n, it')" "n \<le> 100" "item_ok it'"
          "sfid (frame it') = sfid (frame it)"
        using csap_read [OF assms(1,2) conjunct1 [OF True] ua, of st] by auto
      then show ?thesis using cnf [of it' n res] True a len f fault by (simp add: csap_attrReadReq_def Let_def idx_def)
    qed
  next
    case False
    then have "\<not> csap_fault lib it" using a by (auto simp: csap_fault_def idx_def csap_attr_size_lut_def)
    moreover have "answered it (csap_attrReadReq lib it st)"
      using False a len cnf [of it 0] assms(2) unfolding csap_attrReadReq_def Let_def idx_def by auto
    ultimately show ?thesis by simp
  qed
qed

lemma csap_write_total:
  assumes "item_ok it" "n \<le> 120"
  shows "\<exists>res st'. csap_writeAttr lib a n it st = Some (res, st')"
  using assms unfolding csap_writeAttr_def by (auto simp: item_simps Let_def lib_call_def)

lemma csap_write_answers:
  assumes "request_ok it" "sfunc (frame it) = 0x0D"
  shows "answered it (csap_attrWriteReq lib it st)"
proof -
  have ok: "item_ok it" and len: "unat (splen (frame it)) \<le> 123" using assms(1) by (simp_all add: request_ok_def)
  define a where "a = (ucast (le_val (take 2 (drop 0 (spld (frame it))))) :: u16)"
  define n where "n = spld (frame it) ! 2"
  define idx where "idx = unat (ucast a - 1 :: u32)"
  have r: "get_u16 0 it = Some a" "get_u8 2 it = Some n" using ok by (simp_all add: item_simps a_def n_def)
  have s: "answered it (simple_cnf 0x8D x it st)" for x st by (rule answered_simple [OF ok]) (simp add: assms(2))
  have n: "unat n \<le> 120" if "unat (splen (frame it)) = 3 + unat n" using that len by simp
  have l: "csap_attr_size_lut ! idx \<le> 120" if "idx < length csap_attr_size_lut" using csap_lut_small(2) [OF that] by simp
  note w = csap_write_total [OF ok, of _ lib a st]
  show ?thesis unfolding csap_attrWriteReq_def r idx_def [symmetric] Let_def bind.bind_lunit
    using w n l by (intro answered_if answered_bind) (auto simp: s ok answered_refused)
qed

lemma csap_reset_answers:
  "item_ok it \<Longrightarrow> sfunc (frame it) = 0x16 \<Longrightarrow> answered it (csap_resetReq lib it st)"
  by (auto simp: csap_resetReq_def Let_def answered_simps split: prod.splits)

lemma csap_lock: "locked lib \<Longrightarrow> harmless st (Csap_handleFrame lib it st)"
proof -
  assume l: "locked lib"
  note p = locked_permits [OF l] lock_bits_defs
  have read: "harmless st (csap_attrReadReq lib it st)"
    unfolding csap_attrReadReq_def Let_def by (intro harmless_rules) (auto simp: split_def intro!: harmless_rules)
  have key: "harmless st (Some (True, it, st'))" if "csap_writeAttr lib 23 n it st = Some (res, st')" for n res st'
    using that by (auto simp: csap_writeAttr_def Let_def lib_call_def harmless_Some ss_log_def split: bind_splits if_splits)
  have chg: "harmless st (csap_attrWriteReq lib it st)"
    unfolding csap_attrWriteReq_def Let_def
    by (intro harmless_if harmless_bind harmless_refl)
      (use key p in \<open>auto intro!: harmless_cnf harmless_refl simp: locked_def split: if_splits\<close>)
  have reset: "harmless st (csap_resetReq lib it st)"
    using p unfolding csap_resetReq_def Let_def by (intro harmless_rules) (auto intro!: harmless_rules)
  show ?thesis unfolding Csap_handleFrame_def Let_def using read chg reset by (intro harmless_rules)
qed

interpretation csap: sap_service Csap_handleFrame m_csap_req csap_fault
proof unfold_locales
  fix lib it st assume *: "lib_ok lib" "request_ok it"
  then have ok: "item_ok it" by (simp add: request_ok_def)
  show "answered it (Csap_handleFrame lib it st)" if "\<not> csap_fault lib it"
    using csap_read_answers [OF *(1) ok, of st] csap_write_answers [OF *(2), of lib st] csap_reset_answers [OF ok, of lib st] ok that
    by (simp add: Csap_handleFrame_def Let_def answered_refused)
  show "Csap_handleFrame lib it st = None" if "csap_fault lib it"
    using csap_read_answers [OF *(1) ok, of st] that by (simp add: Csap_handleFrame_def Let_def csap_fault_def)
next
  fix lib it st
  show "Csap_handleFrame lib it st = Some (False, it, st)" if "sfunc (frame it) \<notin> set m_csap_req"
    using that by (auto simp: Csap_handleFrame_def m_csap_req_def Let_def)
qed (rule csap_lock)

subsection \<open>Management access point\<close>

lemma answered_pre: "answered it (Some (True, it', st')) \<Longrightarrow> answered it (Some (True, it'\<lparr>pre_cb := c\<rparr>, st'))"
  by (simp add: answered_Some item_ok_keeps)

lemma answered_post:
  "answered it r \<Longrightarrow> answered it (map_option (\<lambda>(b, it, st). (b, it\<lparr>post_cb := c\<rparr>, st)) r)"
  by (auto simp: answered_def item_ok_keeps split: option.splits prod.splits)

lemma nbor_loop_in: "item_ok it \<Longrightarrow> idx + length infos \<le> 8 \<Longrightarrow> \<exists>it'. nbor_loop idx infos it = Some it' \<and> item_ok it' \<and>
    sfid (frame it') = sfid (frame it) \<and> sfunc (frame it') = sfunc (frame it) \<and> splen (frame it') = splen (frame it)"
proof (induction infos arbitrary: idx it)
  case Nil
  then show ?case by simp
next
  case (Cons info infos)
  have "length (nbor_entry info) = 13" by (simp add: nbor_entry_def)
  then show ?case using Cons.prems Cons.IH [of "paid (1 + 13 * idx) (nbor_entry info) it" "idx + 1"] by (auto simp: item_simps)
qed

lemma msap_simple_answers:
  assumes "item_ok it"
  shows
    "sfunc (frame it) = 0x05 \<Longrightarrow> answered it (stackStart lib it st)"
    "sfunc (frame it) = 0x3A \<Longrightarrow> answered it (writeInterest lib it st)"
    "sfunc (frame it) = 0x04 \<Longrightarrow> answered it (pollRequest lib it st)"
    "sfunc (frame it) = 0x17 \<Longrightarrow> answered it (scratchpadStart lib it st)"
    "sfunc (frame it) = 0x19 \<Longrightarrow> answered it (scratchpadStatus lib it st)"
    "sfunc (frame it) = 0x1A \<Longrightarrow> answered it (scratchpadSetUpdate lib it st)"
    "sfunc (frame it) = 0x1B \<Longrightarrow> answered it (scratchpadClear lib it st)"
    "sfunc (frame it) = 0x26 \<Longrightarrow> answered it (scratchpadWriteTarget lib it st)"
    "sfunc (frame it) = 0x27 \<Longrightarrow> answered it (scratchpadReadTarget lib it st)"
    "sfunc (frame it) = 0x1C \<Longrightarrow> answered it (remoteStatus lib it st)"
    "sfunc (frame it) = 0x1E \<Longrightarrow> answered it (remoteUpdate lib it st)"
    "sfunc (frame it) = 0x21 \<Longrightarrow> answered it (startScanNbors lib it st)"
    "sfunc (frame it) = 0x23 \<Longrightarrow> answered it (getInstallQuality lib it st)"
    "sfunc (frame it) = 0x38 \<Longrightarrow> answered it (writeSinkCost lib it st)"
    "sfunc (frame it) = 0x39 \<Longrightarrow> answered it (readSinkCost lib it st)"
    "sfunc (frame it) = 0x40 \<Longrightarrow> answered it (sleep_request lib it st)"
    "sfunc (frame it) = 0x41 \<Longrightarrow> answered it (sleep_stop_request lib it st)"
    "sfunc (frame it) = 0x42 \<Longrightarrow> answered it (sleep_state_request lib it st)"
    "sfunc (frame it) = 0x4C \<Longrightarrow> answered it (sleep_gotosleepinfo_request lib it st)"
    "sfunc (frame it) = 0x50 \<Longrightarrow> answered it (max_msg_queuing_time_read_req lib it st)"
  using assms
  by (simp_all add: stackStart_def writeInterest_def pollRequest_def scratchpadStart_def scratchpadStatus_def scratchpadSetUpdate_def scratchpadClear_def scratchpadWriteTarget_def scratchpadReadTarget_def remoteStatus_def remoteUpdate_def startScanNbors_def getInstallQuality_def writeSinkCost_def readSinkCost_def sleep_request_def sleep_stop_request_def sleep_state_request_def sleep_gotosleepinfo_request_def max_msg_queuing_time_read_req_def
      answered_simps Let_def lib_call_def split: prod.splits)

lemma msap_callback_answers:
  assumes "item_ok it"
  shows "sfunc (frame it) = 0x06 \<Longrightarrow> answered it (stackStop lib it st)"
    and "sfunc (frame it) = 0x4F \<Longrightarrow> answered it (max_msg_queuing_time_write_req lib it st)"
  using assms
  by (simp_all add: stackStop_def max_msg_queuing_time_write_req_def simple_cnf_def answered_simps Let_def lib_call_def split: prod.splits)

lemma getNbors_answers:
  assumes "lib_ok lib" "item_ok it" "sfunc (frame it) = 0x20"
  shows "answered it (getNbors lib it st)"
proof -
  define it1 where "it1 = paid 1 (replicate 104 0) (Waps_item_init 0xA0 105 it)"
  obtain r infos where n: "nl_getNbors lib = (r, infos)" by fastforce
  have l: "length infos \<le> 8" using assms(1) n by (simp add: lib_ok_def)
  have it1: "item_ok it1" "sfid (frame it1) = sfid (frame it)" "sfunc (frame it1) = 0xA0" "splen (frame it1) = 105"
    using assms(2) by (simp_all add: it1_def item_simps)
  have p: "put 1 (replicate 104 0) (Waps_item_init 0xA0 105 it) = Some it1" using assms(2) by (simp add: it1_def item_simps)
  show ?thesis using nbor_loop_in [OF it1(1), of 0 infos] it1 n l assms(2,3)
    unfolding getNbors_def p by (auto simp: answered_simps)
qed

lemma readInterest_answers:
  assumes "lib_ok lib" "item_ok it" "sfunc (frame it) = 0x3B"
  shows "answered it (readInterest lib it st)"
proof -
  obtain r config q i where c: "nl_readAppConfig lib (take 80 (drop 4 (spld (frame it)))) = (r, config, q, i)"
    by (meson prod_cases4)
  have "length (fst (snd (nl_readAppConfig lib (take 80 (drop 4 (spld (frame it))))))) = length (take 80 (drop 4 (spld (frame it))))"
    using assms(1) unfolding lib_ok_def by blast
  then have "length config \<le> 80" using c by simp
  then show ?thesis using assms(2,3) c by (simp add: readInterest_def Let_def answered_simps)
qed

lemma scratchpadBlock_answers:
  assumes "request_ok it" "sfunc (frame it) = 0x18"
  shows "answered it (scratchpadBlock lib it st)"
  using assms by (simp add: scratchpadBlock_def request_ok_def answered_simps)

lemma scratchpadReadBlock_answers:
  assumes "lib_ok lib" "item_ok it" "sfunc (frame it) = 0x28"
  shows "answered it (scratchpadReadBlock lib it st)"
proof -
  define a where "a = le_val (take 4 (drop 0 (spld (frame it))))"
  define nb where "nb = spld (frame it) ! 4"
  define it1 where "it1 = Waps_item_init 0xA8 1 it"
  define mx where "mx = got lib GetOtapNumBytes"
  define n where "n = (if mx - a < ucast nb then unat (mx - a) else unat nb)"
  define it2 where "it2 = it1\<lparr>frame := (frame it1)\<lparr>splen := of_nat (1 + n)\<rparr>\<rparr>"
  define bs where "bs = nl_otapRead lib a (take n (drop 1 (spld (frame it))))"
  have g: "get_u32 0 it = Some a" "get_u8 4 it = Some nb" using assms(2) by (simp_all add: item_simps a_def nb_def)
  have i1: "item_ok it1" "sfid (frame it1) = sfid (frame it)" "sfunc (frame it1) = 0xA8" "splen (frame it1) = 1"
    using assms(2) by (simp_all add: it1_def item_simps)
  have cnf: "answered it (do { it \<leftarrow> put 0 [r] it'; Some (True, it, st') })"
    if "item_ok it'" "sfid (frame it') = sfid (frame it)" "sfunc (frame it') = 0xA8" "unat (splen (frame it')) \<le> 123" for r it' st'
    using that assms(3) by (simp add: answered_simps)
  have n: "n \<le> 112" if "unat nb \<le> 112"
  proof -
    have "unat (ucast nb :: u32) = unat nb" using unat_lt_8 [of nb] by (simp add: unsigned_ucast_eq take_bit_nat_eq_self)
    then show ?thesis using that by (auto simp: n_def word_less_nat_alt)
  qed
  have i2: "item_ok it2" "sfid (frame it2) = sfid (frame it)" "sfunc (frame it2) = 0xA8" "unat (splen (frame it2)) \<le> 123"
    "spld (frame it2) = spld (frame it)" if "unat nb \<le> 112"
    using i1 n [OF that] unat_of_nat_small [of "1 + n", where 'a = 8] by (simp_all add: it2_def item_ok_keeps it1_def frame_fields)
  have b: "length (snd bs) \<le> n" using assms(1) by (simp add: lib_ok_def bs_def)
  show ?thesis
    using assms(2) i1 i2 cnf n b unfolding scratchpadReadBlock_def g bind.bind_lunit Let_def
    unfolding it1_def [symmetric] mx_def [symmetric] n_def [symmetric] it2_def [symmetric]
    by (auto simp: answered_refused item_simps bs_def split: prod.splits bool.splits)
qed

lemma msap_lut_small: "k < length msap_attr_size_lut \<Longrightarrow> msap_attr_size_lut ! k \<le> 40"
proof -
  have "list_all (\<lambda>n. n \<le> 40) msap_attr_size_lut" by code_simp
  then show "k < length msap_attr_size_lut \<Longrightarrow> msap_attr_size_lut ! k \<le> 40" by (simp add: list_all_length)
qed

lemma length_load_groups: "length (load_groups n groups) \<le> 4 * n"
  by (induction n groups rule: load_groups.induct) auto

lemma msap_readAttr_total:
  assumes "item_ok it"
  shows "\<exists>res it' st'. msap_readAttr lib a n it st = Some (res, it', st') \<and> item_ok it' \<and> sfid (frame it') = sfid (frame it)"
proof (cases "a = 13")
  case True
  obtain r gs st' where g: "Multicast_getGroups lib st = (r, gs, st')" by (meson prod_cases3)
  have "length gs \<le> 40" using g length_load_groups [of 10]
    by (auto simp: Multicast_getGroups_def MULTICAST_ADDRESS_AMOUNT_def split: prod.splits)
  then show ?thesis using True g assms by (simp add: msap_readAttr_def item_simps)
next
  case False
  obtain r v where "msap_attr_value lib a st = (r, v)" by fastforce
  then show ?thesis using False assms by (simp add: msap_readAttr_def item_simps)
qed

lemma msap_read_answers:
  assumes "item_ok it" "sfunc (frame it) = 0x0C"
  shows "answered it (msap_attrReadReq lib it st)"
proof -
  define a where "a = (ucast (le_val (take 2 (drop 0 (spld (frame it))))) :: u16)"
  define idx where "idx = unat (ucast a - 1 :: u32)"
  have r: "get_u16 0 it = Some a" using assms(1) by (simp add: item_simps a_def)
  have cnf: "answered it (do { it \<leftarrow> read_cnf 0x8C res a n it'; Some (True, it\<lparr>pre_cb := Some Update_time\<rparr>, st') })"
      "answered it (do { it \<leftarrow> read_cnf 0x8C res a n it'; Some (True, it, st') })"
    if "item_ok it'" "n \<le> 100" "sfid (frame it') = sfid (frame it)" for res n it' st'
    using read_cnf_answers [OF that, where func = "0x8C" and res = res and a = a] assms(2) by (auto simp: answered_simps)
  obtain res it' st' where rd: "msap_readAttr lib a (msap_attr_size_lut ! idx) it st = Some (res, it', st')" "item_ok it'"
      "sfid (frame it') = sfid (frame it)"
    using msap_readAttr_total [OF assms(1), of lib a "msap_attr_size_lut ! idx" st] by auto
  have l: "msap_attr_size_lut ! idx \<le> 100" if "idx < length msap_attr_size_lut" using msap_lut_small [OF that] by simp
  show ?thesis
    unfolding msap_attrReadReq_def r bind.bind_lunit Let_def unfolding idx_def [symmetric]
    using cnf rd l assms(1) by (cases "res = ATTR_SUCCESS \<and> a = 8") (auto simp: answered_refused)
qed

lemma msap_write_answers:
  assumes "item_ok it" "sfunc (frame it) = 0x0B"
  shows "answered it (msap_attrWriteReq lib it st)"
proof -
  have s: "answered it (simple_cnf 0x8B x it st)" for x st by (rule answered_simple [OF assms(1)]) (simp add: assms(2))
  have t: "\<exists>x. msap_writeAttr lib a n it st = Some x" for a n
    using assms(1) by (auto simp: msap_writeAttr_def item_simps split: prod.splits)
  show ?thesis unfolding msap_attrWriteReq_def Let_def
    using assms(1) t by (simp add: gets_in) (intro conjI impI answered_refused answered_bind, auto simp: s)
qed

lemma msap_answers:
  assumes "lib_ok lib" "request_ok it"
  shows "answered it (Msap_handleFrame lib it st)"
proof -
  have ok: "item_ok it" using assms(2) by (simp add: request_ok_def)
  note a = msap_simple_answers [OF ok, of lib st] msap_callback_answers [OF ok, of lib st] getNbors_answers [OF assms(1) ok, of st]
    readInterest_answers [OF assms(1) ok, of st] scratchpadBlock_answers [OF assms(2), of lib st]
    scratchpadReadBlock_answers [OF assms(1) ok, of st] msap_read_answers [OF ok, of lib st] msap_write_answers [OF ok, of lib st]
  show ?thesis unfolding Msap_handleFrame_def Let_def by (intro answered_if a answered_refused ok)
qed

text \<open>Handlers that do not change the stack at all keep the state, or only what
  \<open>allowScratchpadRead\<close> remembers.\<close>

lemma harmless_case: "(\<And>a b. p = (a, b) \<Longrightarrow> harmless st (f a b)) \<Longrightarrow> harmless st (case p of (a, b) \<Rightarrow> f a b)"
  by (cases p) simp

lemma harmless_same:
  "ss_storage st' = ss_storage st \<Longrightarrow> ss_calls st' = ss_calls st \<Longrightarrow> harmless st (Some (b, it, st'))"
  by (simp add: harmless_Some)

lemma harmless_map: "harmless st r \<Longrightarrow> (\<And>b it st. snd (snd (f (b, it, st))) = st) \<Longrightarrow> harmless st (map_option f r)"
proof (cases r)
  case (Some x)
  assume *: "harmless st r" "\<And>b it st. snd (snd (f (b, it, st))) = st"
  obtain b it st' where x: "x = (b, it, st')" by (cases x)
  obtain b' it' st'' where f: "f x = (b', it', st'')" by (cases "f x")
  have "st'' = st'" using *(2) [of b it st'] x f by simp
  then show ?thesis using *(1) Some x f by (simp add: harmless_Some)
qed (simp add: harmless_None)

lemma update_image_keeps: "update_image lib st = (r, st') \<Longrightarrow> ss_storage st' = ss_storage st \<and> ss_calls st' = ss_calls st"
  by (auto simp: update_image_def split: prod.splits)

lemma getGroups_keeps: "Multicast_getGroups lib st = (r, gs, st') \<Longrightarrow> ss_storage st' = ss_storage st \<and> ss_calls st' = ss_calls st"
  using update_image_keeps [of lib st] by (auto simp: Multicast_getGroups_def Persistent_getGroups_def split: prod.splits)

lemma msap_read_lock: "harmless st (msap_attrReadReq lib it st)"
proof -
  have keep: "ss_storage st' = ss_storage st \<and> ss_calls st' = ss_calls st" if "msap_readAttr lib a n it st = Some (r, it', st')" for a n it r it' st'
    using that getGroups_keeps [of lib st] by (auto simp: msap_readAttr_def Let_def split: if_splits prod.splits bind_splits)
  show ?thesis unfolding msap_attrReadReq_def Let_def
    by (intro harmless_if harmless_bind harmless_refl harmless_case) (auto intro!: harmless_bind harmless_same dest!: keep split: if_splits bind_splits)
qed

lemma msap_unguarded_lock:
  "harmless st (pollRequest lib it st)" "harmless st (scratchpadBlock lib it st)" "harmless st (scratchpadStatus lib it st)"
  "harmless st (scratchpadWriteTarget lib it st)" "harmless st (scratchpadReadTarget lib it st)" "harmless st (remoteStatus lib it st)"
  "harmless st (remoteUpdate lib it st)" "harmless st (getInstallQuality lib it st)" "harmless st (sleep_request lib it st)"
  "harmless st (sleep_stop_request lib it st)" "harmless st (sleep_state_request lib it st)"
  "harmless st (sleep_gotosleepinfo_request lib it st)" "harmless st (max_msg_queuing_time_read_req lib it st)"
  unfolding pollRequest_def scratchpadBlock_def scratchpadStatus_def scratchpadWriteTarget_def scratchpadReadTarget_def remoteStatus_def
    remoteUpdate_def getInstallQuality_def sleep_request_def sleep_stop_request_def sleep_state_request_def
    sleep_gotosleepinfo_request_def max_msg_queuing_time_read_req_def lib_call_def Let_def prod.case
  by (intro harmless_rules; simp)+

lemma queueing_lock: "harmless st (max_msg_queuing_time_write_req lib it st)"
  unfolding max_msg_queuing_time_write_req_def Let_def lib_call_def
  by (intro harmless_bind) (auto intro!: harmless_map harmless_rules)

lemma msap_guarded_lock:
  assumes "locked lib"
  shows "harmless st (stackStart lib it st)" "harmless st (stackStop lib it st)" "harmless st (writeInterest lib it st)"
    "harmless st (readInterest lib it st)" "harmless st (msap_attrWriteReq lib it st)" "harmless st (scratchpadStart lib it st)"
    "harmless st (scratchpadSetUpdate lib it st)" "harmless st (scratchpadClear lib it st)" "harmless st (scratchpadReadBlock lib it st)"
    "harmless st (getNbors lib it st)" "harmless st (startScanNbors lib it st)" "harmless st (writeSinkCost lib it st)"
    "harmless st (readSinkCost lib it st)"
  unfolding stackStart_def stackStop_def writeInterest_def readInterest_def msap_attrWriteReq_def scratchpadStart_def scratchpadSetUpdate_def
    scratchpadClear_def scratchpadReadBlock_def getNbors_def startScanNbors_def writeSinkCost_def readSinkCost_def Let_def
  using locked_permits [OF assms]
  by (auto simp: lock_bits_defs intro!: harmless_rules split: if_splits prod.splits)

interpretation msap: sap_service Msap_handleFrame m_msap_req "\<lambda>_ _. False"
proof unfold_locales
  fix lib it st
  show "answered it (Msap_handleFrame lib it st)" if "lib_ok lib" "request_ok it" using that by (rule msap_answers)
  show "Msap_handleFrame lib it st = Some (False, it, st)" if "sfunc (frame it) \<notin> set m_msap_req"
    using that by (simp add: Msap_handleFrame_def m_msap_req_def Let_def)
  show "harmless st (Msap_handleFrame lib it st)" if "locked lib"
    unfolding Msap_handleFrame_def Let_def
    by (intro harmless_if msap_guarded_lock [OF that] msap_unguarded_lock queueing_lock msap_read_lock harmless_refl)
qed simp

subsection \<open>All requests\<close>

text \<open>\<open>process_request\<close> of \<open>waps.c\<close> with the access points.\<close>

definition process_sap_request :: sap_handler where
  "process_sap_request lib it st =
     (let func = sfunc (frame it)
      in if WapsFunc_isDsapRequest func then Dsap_handleFrame lib it st
         else if WapsFunc_isMsapRequest func then Msap_handleFrame lib it st
         else if WapsFunc_isCsapRequest func then Csap_handleFrame lib it st
         else Some (False, it, st))"

lemma find_code_set: "find_code cs v \<longleftrightarrow> v \<in> set cs"
  by (induction cs v rule: find_code.induct) auto

lemmas is_request_simps = WapsFunc_isDsapRequest_def WapsFunc_isMsapRequest_def WapsFunc_isCsapRequest_def WapsFunc_isRequest_def find_code_set

interpretation saps: sap_service process_sap_request "m_dsap_req @ m_msap_req @ m_csap_req" csap_fault
proof unfold_locales
  fix lib it st
  have f: "csap_fault lib it \<Longrightarrow> sfunc (frame it) \<notin> set m_dsap_req \<and> sfunc (frame it) \<notin> set m_msap_req \<and> sfunc (frame it) \<in> set m_csap_req"
    by (simp add: csap_fault_def m_dsap_req_def m_msap_req_def m_csap_req_def)
  show "answered it (process_sap_request lib it st)" if "lib_ok lib" "request_ok it" "\<not> csap_fault lib it"
    using dsap.answers [OF that(1,2), of st] msap.answers [OF that(1,2), of st] csap.answers [OF that, of st] answered_refused [of it st] that(2)
    by (simp add: process_sap_request_def Let_def request_ok_def)
  show "process_sap_request lib it st = None" if "lib_ok lib" "request_ok it" "csap_fault lib it"
    using csap.faults [OF that, of st] f [OF that(3)] by (simp add: process_sap_request_def is_request_simps)
  show "process_sap_request lib it st = Some (False, it, st)" if "sfunc (frame it) \<notin> set (m_dsap_req @ m_msap_req @ m_csap_req)"
    using that by (simp add: process_sap_request_def is_request_simps)
  show "harmless st (process_sap_request lib it st)" if "locked lib"
    unfolding process_sap_request_def Let_def by (intro harmless_if dsap.lock msap.lock csap.lock harmless_refl that)
qed

text \<open>C9: every request the serial line can deliver is handled inside of its item, and a
  confirmation has the function code of its request with the top bit set, the same frame
  number and a payload that fits.  The only exception is reading the feature lock key while
  one is set: the code then copies sixteen bytes from a variable of four.\<close>

theorem requests_answered:
  assumes "lib_ok lib" "request_ok it"
  shows "(process_sap_request lib it st = None \<longleftrightarrow>
       sfunc (frame it) = 0x0E \<and> splen (frame it) = 2 \<and> get_u16 0 it = Some 23 \<and> LockBits_isKeySet lib \<and>
       LockBits_isFeaturePermitted lib LOCK_BITS_CSAP_ATTR_READ) \<and>
     (\<forall>b it' st'. process_sap_request lib it st = Some (b, it', st') \<longrightarrow> item_ok it' \<and> sfid (frame it') = sfid (frame it) \<and>
       (b \<longrightarrow> WapsFunc_isRequest (sfunc (frame it)) \<and> sfunc (frame it') = sfunc (frame it) OR 0x80 \<and> unat (splen (frame it')) \<le> 123))"
  using saps.fault_iff [OF assms, of st] saps.reply [OF assms, of st] by (auto simp: csap_fault_def is_request_simps)

text \<open>C10: with a lock key set and all lock bits cleared no request changes the persistent data
  or calls anything of the stack that changes it, but for setting the lock key, writing blocks
  of a scratchpad, setting its target, sleeping, waking up and queueing times.\<close>

theorem locked_features_refused:
  assumes "locked lib" "process_sap_request lib it st = Some (b, it', st')"
  shows "ss_storage st' = ss_storage st \<and> (\<exists>cs. ss_calls st' = ss_calls st @ cs \<and> list_all unlocked_call cs)"
  using saps.lock [OF assms(1), of st it] assms(2) by (simp add: harmless_Some)

definition sap_lib_example :: "(lib_get \<Rightarrow> app_res \<times> u32) \<Rightarrow> node_lib" where
  "sap_lib_example get =
     \<lparr>nl_get = get, nl_call = (\<lambda>_. APP_RES_OK), nl_send = (\<lambda>_. APP_LIB_DATA_SEND_RES_SUCCESS),
      nl_readPersistent = (\<lambda>store buf. (APP_RES_OK, take (length buf) store)), nl_writePersistent = (\<lambda>bs store. (APP_RES_OK, bs)),
      nl_getReservedChannels = (\<lambda>buf. (APP_RES_OK, buf)), nl_readAppConfig = (\<lambda>buf. (AC_SUCCESS, buf, 1, 60)),
      nl_writeDiagnosticInterval = (\<lambda>_. AC_SUCCESS), nl_setAppConfig = (\<lambda>_. SC_OK), nl_getNbors = (APP_RES_OK, []),
      nl_otapWrite = (\<lambda>_ _. OTAP_OK), nl_otapRead = (\<lambda>_ buf. (APP_RES_OK, buf)), nl_now = 100, nl_OTAP_FORCE_LEGACY = False,
      nl_ALLOW_SCRATCHPAD_READ = False\<rparr>"

definition sap_state_example :: sap_state where
  "sap_state_example = \<lparr>ss_image = replicate 31 0, ss_storage = replicate 31 0, ss_num_channels = 40, ss_checked = (0xFFFFFFFF, 0, 0, 0, 0),
     ss_checked_result = False, ss_calls = []\<rparr>"

definition sap_request :: "u8 \<Rightarrow> u8 list \<Rightarrow> sap_item" where
  "sap_request func payload =
     \<lparr>w_time = 90, pre_cb = None, post_cb = None,
      frame = \<lparr>sfunc = func, sfid = 7, splen = of_nat (length payload), spld = payload @ replicate (123 - length payload) 0\<rparr>\<rparr>"

lemma sap_lib_example_ok: "lib_ok (sap_lib_example get)"
  by (simp add: lib_ok_def sap_lib_example_def)

lemma sap_request_ok: "length payload \<le> 123 \<Longrightarrow> request_ok (sap_request func payload)"
  by (simp add: request_ok_def item_ok_def sap_request_def unat_of_nat_small)

theorem requests_answered_witness:
  "process_sap_request (sap_lib_example (\<lambda>_. (APP_RES_OK, 0xFFFFFFFF))) (sap_request 0x0E [23, 0]) sap_state_example = None"
proof -
  let ?it = "sap_request 0x0E [23, 0]"
  have "get_u16 0 ?it = Some 23" by (simp add: get_u16_def rd_bytes_def sap_request_def)
  then show ?thesis
    using requests_answered [OF sap_lib_example_ok sap_request_ok, of "[23, 0]" "\<lambda>_. (APP_RES_OK, 0xFFFFFFFF)" "0x0E" sap_state_example]
    by (simp add: sap_request_def LockBits_isKeySet_def LockBits_isFeaturePermitted_def got_res_def got_def sap_lib_example_def LOCK_BITS_CSAP_ATTR_READ_def)
qed

text \<open>A locked node refuses to send data.\<close>

theorem locked_features_refused_witness:
  "\<exists>b it' st'. process_sap_request (sap_lib_example (\<lambda>_. (APP_RES_OK, 0))) (sap_request 0x01 [1, 0, 2, 0, 0, 0, 0, 3, 0, 0, 1, 42]) sap_state_example =
     Some (b, it', st') \<and> ss_storage st' = replicate 31 0 \<and> list_all unlocked_call (ss_calls st')"
proof -
  let ?lib = "sap_lib_example (\<lambda>_. (APP_RES_OK, 0))" and ?it = "sap_request 0x01 [1, 0, 2, 0, 0, 0, 0, 3, 0, 0, 1, 42]"
  have l: "locked ?lib" by (simp add: locked_def LockBits_isKeySet_def got_res_def sap_lib_example_def)
  have "request_ok ?it" by (rule sap_request_ok) simp
  moreover have "\<not> csap_fault ?lib ?it" by (simp add: csap_fault_def sap_request_def)
  ultimately have "process_sap_request ?lib ?it sap_state_example \<noteq> None"
    using saps.fault_iff [OF sap_lib_example_ok, of ?it] by simp
  then obtain b it' st' where "process_sap_request ?lib ?it sap_state_example = Some (b, it', st')" by (metis not_None_eq prod_cases3)
  with locked_features_refused [OF l this] show ?thesis by (auto simp: sap_state_example_def)
qed

end
