(* ===== verification/Waps_Data.thy ===== *)
theory Waps_Data
  imports Waps_Services
begin

text \<open>
  The work of the access points seen from the host: transmission of data, multicast groups
  and flags in the persistent area, and the way of a request through the protocol of
  \<open>Waps\<close> and back as a confirmation.
\<close>

subsection \<open>Transmission of data\<close>

text \<open>The three requests as the host encodes them.\<close>

datatype tx_kind = Tx | Tx_tt u32 | Tx_frag u32 u16 u16

primrec tx_code :: "tx_kind \<Rightarrow> u8" where
  "tx_code Tx = 0x01"
| "tx_code (Tx_tt t) = 0x1F"
| "tx_code (Tx_frag t pid off) = 0x0F"

primrec tx_extra :: "tx_kind \<Rightarrow> u8 list" where
  "tx_extra Tx = []"
| "tx_extra (Tx_tt t) = le32 t"
| "tx_extra (Tx_frag t pid off) = le32 t @ le16 pid @ le16 off"

primrec tx_travel_time :: "tx_kind \<Rightarrow> u32" where
  "tx_travel_time Tx = 0"
| "tx_travel_time (Tx_tt t) = t"
| "tx_travel_time (Tx_frag t pid off) = t"

primrec tx_fragment :: "tx_kind \<Rightarrow> fragment_info option" where
  "tx_fragment Tx = None"
| "tx_fragment (Tx_tt t) = None"
| "tx_fragment (Tx_frag t pid off) =
     Some \<lparr>fi_offset = off AND 0x0fff, fi_last = bit off 15, fi_packet_id = pid AND 0x0fff\<rparr>"

definition tx_options :: "bool \<Rightarrow> bool \<Rightarrow> nat \<Rightarrow> u8" where
  "tx_options track unack hops = of_bool track + 2 * of_bool unack + 4 * of_nat hops"

definition tx_payload :: "tx_kind \<Rightarrow> u16 \<Rightarrow> u8 \<Rightarrow> u32 \<Rightarrow> u8 \<Rightarrow> u8 \<Rightarrow> u8 \<Rightarrow> u8 list \<Rightarrow> u8 list" where
  "tx_payload kind tid src_ep dst dst_ep qos opts data =
     le16 tid @ [src_ep] @ le32 dst @ [dst_ep, qos, opts] @ tx_extra kind @ [of_nat (length data)] @ data"

lemma tx_options_decoded:
  assumes "hops < 16"
  shows "get_singlemcu_flag_from_dualmcu_tx_option (tx_options track unack hops) =
      of_bool track + 8 * of_bool unack + 4 * of_bool (0 < hops)"
    and "get_single_mcu_hop_limit_from_dualmcu_tx_option (tx_options track unack hops) = of_nat hops"
proof -
  have "list_all (\<lambda>h. list_all (\<lambda>t. list_all (\<lambda>u.
      get_singlemcu_flag_from_dualmcu_tx_option (tx_options t u h) = of_bool t + 8 * of_bool u + 4 * of_bool (0 < h) \<and>
      get_single_mcu_hop_limit_from_dualmcu_tx_option (tx_options t u h) = of_nat h) [True, False]) [True, False]) [0..<16]"
    by code_simp
  moreover have "hops \<in> set [0..<16]" "track \<in> set [True, False]" "unack \<in> set [True, False]" using assms by auto
  ultimately show "get_singlemcu_flag_from_dualmcu_tx_option (tx_options track unack hops) =
      of_bool track + 8 * of_bool unack + 4 * of_bool (0 < hops)"
    and "get_single_mcu_hop_limit_from_dualmcu_tx_option (tx_options track unack hops) = of_nat hops"
    unfolding list_all_iff by blast+
qed

text \<open>What the stack is asked to send.\<close>

definition tx_data :: "node_lib \<Rightarrow> sap_item \<Rightarrow> tx_kind \<Rightarrow> u16 \<Rightarrow> u8 \<Rightarrow> u32 \<Rightarrow> u8 \<Rightarrow> u8 \<Rightarrow> bool \<Rightarrow> bool \<Rightarrow> nat \<Rightarrow> u8 list \<Rightarrow> data_to_send" where
  "tx_data lib it kind tid src_ep dst dst_ep qos track unack hops data =
     \<lparr>ds_bytes = data, ds_dest_address = Waddr_to_Addr dst, ds_delay = nl_now lib + tx_travel_time kind - w_time it,
      ds_tracking_id = tid, ds_qos = qos,
      ds_flags = (of_bool track + 8 * of_bool unack + 4 * of_bool (0 < hops)) OR (if tx_fragment kind = None then 0 else 32),
      ds_src_endpoint = src_ep, ds_dest_endpoint = dst_ep, ds_hop_limit = of_nat hops, ds_fragment_info = tx_fragment kind\<rparr>"

definition tx_verdict :: "node_lib \<Rightarrow> data_to_send \<Rightarrow> u8 list \<Rightarrow> data_send_res" where
  "tx_verdict lib d data =
     (if \<not> LockBits_isFeaturePermitted lib LOCK_BITS_DSAP_DATA_TX then APP_LIB_DATA_SEND_RES_ACCESS_DENIED
      else if length data > 102 then APP_LIB_DATA_SEND_RES_INVALID_NUM_BYTES
      else nl_send lib d)"

lemma bit15: "off AND 0x8000 = 0x8000 \<longleftrightarrow> bit (off :: u16) 15"
proof -
  have "(0x8000 :: u16) = push_bit 15 1" by simp
  then have b: "bit (0x8000 :: u16) n \<longleftrightarrow> n = 15" for n by (simp only: bit_push_bit_iff) (auto simp: bit_simps)
  show ?thesis
  proof
    assume "off AND 0x8000 = 0x8000"
    then have "bit (off AND 0x8000) 15" using b by metis
    then show "bit off 15" by (simp add: bit_and_iff)
  next
    assume "bit off 15"
    then show "off AND 0x8000 = 0x8000" by (intro bit_word_eqI) (simp only: bit_and_iff b, blast)
  qed
qed

lemma cnf_bytes:
  assumes "item_ok it" "length bs = 2"
  shows "take 4 (spld (frame (paid 2 [r] (paid 3 [c] (paid 0 bs it))))) = bs @ [r, c]"
proof -
  obtain a b p q rest where "spld (frame it) = a # b # p # q # rest"
    using assms(1) by (auto simp: item_ok_def numeral_eq_Suc length_Suc_conv)
  moreover obtain x y where "bs = [x, y]" using assms(2) by (auto simp: numeral_2_eq_2 length_Suc_conv)
  ultimately show ?thesis by (simp add: paid_def numeral_eq_Suc)
qed

lemma tx_confirmation:
  assumes ok: "item_ok it" and d: "ds_tracking_id d = tid" "length data < 200"
  shows "\<exists>it'. tx_send lib (of_nat (length data)) d it st =
      Some (True, it', if LockBits_isFeaturePermitted lib LOCK_BITS_DSAP_DATA_TX \<and> length data \<le> 102
                       then ss_log (SendData d (ds_flags d AND 1 \<noteq> 0)) st else st) \<and>
      sfunc (frame it') = sfunc (frame it) + 0x80 \<and> sfid (frame it') = sfid (frame it) \<and> splen (frame it') = 4 \<and>
      take 4 (spld (frame it')) = le16 tid @ [data_send_res_code (tx_verdict lib d data),
        ucast (if got_res lib GetNumFreeBuffers = APP_RES_OK then got lib GetNumFreeBuffers else 0)]"
proof -
  have n: "unat (of_nat (length data) :: u8) = length data" using d(2) by (simp add: unat_of_nat_small)
  show ?thesis using ok d(1)
    by (simp add: tx_send_def Let_def item_simps n APDU_MAX_SIZE_def tx_verdict_def cnf_bytes)
qed

lemmas payload_simps = gets_in nth_append nth_Cons' le_val_le16 le_val_le32

lemma tx_request_decoded:
  assumes ok: "item_ok it" and pld: "spld (frame it) = le16 tid @ [src_ep] @ le32 dst @ [dst_ep, qos, opts] @ extra @ [of_nat (length data)] @ data @ rest"
    and hdr: "hdr = 11 + length extra" "hdr + length data \<le> 123"
  shows "tx_request lib hdr t fl frag it =
     Some \<lparr>ds_bytes = if length data > 102 then [] else data, ds_dest_address = Waddr_to_Addr dst, ds_delay = nl_now lib + t - w_time it,
       ds_tracking_id = tid, ds_qos = qos, ds_flags = get_singlemcu_flag_from_dualmcu_tx_option opts OR fl,
       ds_src_endpoint = src_ep, ds_dest_endpoint = dst_ep, ds_hop_limit = get_single_mcu_hop_limit_from_dualmcu_tx_option opts,
       ds_fragment_info = frag\<rparr>"
proof -
  have n: "unat (of_nat (length data) :: u8) = length data" using hdr by (intro unat_of_nat_small) simp
  have g: "get_u16 0 it = Some tid" "get_u8 2 it = Some src_ep" "get_u32 3 it = Some dst" "get_u8 7 it = Some dst_ep"
    "get_u8 8 it = Some qos" "get_u8 9 it = Some opts" "get_u8 (hdr - 1) it = Some (of_nat (length data))"
    "get_bytes hdr (length data) it = Some data"
    using ok hdr by (simp_all add: payload_simps pld drop_Cons')
  show ?thesis unfolding tx_request_def g bind.bind_lunit by (simp add: g n APDU_MAX_SIZE_def)
qed

lemma tx_fields_decoded:
  assumes ok: "item_ok it" and pld: "spld (frame it) = tx_payload kind tid src_ep dst dst_ep qos opts data @ rest"
    and len: "splen (frame it) = of_nat (length (tx_payload kind tid src_ep dst dst_ep qos opts data))"
    and func: "sfunc (frame it) = tx_code kind"
  shows "Dsap_handleFrame lib it st =
     (do { d \<leftarrow> tx_request lib (11 + length (tx_extra kind)) (tx_travel_time kind) (if tx_fragment kind = None then 0 else 32) (tx_fragment kind) it;
           tx_send lib (of_nat (length data)) d it st })"
proof -
  have small: "11 + length (tx_extra kind) + length data \<le> 123"
    using ok unfolding item_ok_def pld by (simp add: tx_payload_def)
  have n: "unat (of_nat (length data) :: u8) = length data" using small by (intro unat_of_nat_small) simp
  have l: "unat (splen (frame it)) = 11 + length (tx_extra kind) + length data"
    unfolding len using small by (subst unat_of_nat_small) (simp_all add: tx_payload_def)
  show ?thesis
  proof (cases kind)
    case Tx
    have "get_u8 10 it = Some (of_nat (length data))" using ok Tx by (simp add: payload_simps pld tx_payload_def)
    then show ?thesis using Tx func l n by (simp add: Dsap_handleFrame_def)
  next
    case (Tx_tt t)
    have "get_u8 14 it = Some (of_nat (length data))" "get_u32 10 it = Some t" using ok Tx_tt by (simp_all add: payload_simps pld tx_payload_def)
    then show ?thesis using Tx_tt func l n by (simp add: Dsap_handleFrame_def)
  next
    case (Tx_frag t pid off)
    have "get_u8 18 it = Some (of_nat (length data))" "get_u32 10 it = Some t" "get_u16 14 it = Some pid" "get_u16 16 it = Some off"
      using ok Tx_frag by (simp_all add: payload_simps pld tx_payload_def)
    then show ?thesis using Tx_frag func l n by (simp add: Dsap_handleFrame_def bit15)
  qed
qed

text \<open>C11: a host that encodes a transmission of any of the three kinds gets exactly this
  transmission: when data may be sent and there are at most 102 bytes the stack is called
  once, with the addresses, the flags, the hop limit, the delay and the fragment of the
  request, and the confirmation has the identifier of the packet, the result code and the
  number of free buffers; otherwise the stack is not called and the result says why.\<close>

theorem data_transmitted:
  fixes lib :: node_lib
  assumes "item_ok it" "spld (frame it) = tx_payload kind tid src_ep dst dst_ep qos (tx_options track unack hops) data @ rest"
    and "splen (frame it) = of_nat (length (tx_payload kind tid src_ep dst dst_ep qos (tx_options track unack hops) data))"
    and "sfunc (frame it) = tx_code kind" "hops < 16"
  defines "d \<equiv> tx_data lib it kind tid src_ep dst dst_ep qos track unack hops data"
  shows "\<exists>it'. Dsap_handleFrame lib it st =
      Some (True, it', if LockBits_isFeaturePermitted lib LOCK_BITS_DSAP_DATA_TX \<and> length data \<le> 102
                       then ss_log (SendData d track) st else st) \<and>
      sfunc (frame it') = tx_code kind + 0x80 \<and> sfid (frame it') = sfid (frame it) \<and> splen (frame it') = 4 \<and>
      take 4 (spld (frame it')) = le16 tid @ [data_send_res_code (tx_verdict lib d data),
        ucast (if got_res lib GetNumFreeBuffers = APP_RES_OK then got lib GetNumFreeBuffers else 0)]"
proof -
  let ?opts = "tx_options track unack hops"
  have small: "11 + length (tx_extra kind) + length data \<le> 123"
    using assms(1) unfolding item_ok_def assms(2) by (simp add: tx_payload_def)
  define d' where "d' = d\<lparr>ds_bytes := if length data > 102 then [] else data\<rparr>"
  have r: "tx_request lib (11 + length (tx_extra kind)) (tx_travel_time kind) (if tx_fragment kind = None then 0 else 32) (tx_fragment kind) it = Some d'"
    using tx_request_decoded [OF assms(1) assms(2) [unfolded tx_payload_def append.assoc] refl small]
    unfolding tx_options_decoded [OF assms(5)] d'_def d_def tx_data_def by simp
  have t: "ds_flags d AND 1 \<noteq> 0 \<longleftrightarrow> track" "ds_tracking_id d = tid"
    by (cases track; cases unack; simp add: d_def tx_data_def)+
  have "d' = d" if "length data \<le> 102" using that by (simp add: d'_def d_def tx_data_def)
  moreover have "ds_tracking_id d' = tid" "ds_flags d' = ds_flags d" using t by (simp_all add: d'_def)
  moreover have "tx_verdict lib d' data = tx_verdict lib d data" by (auto simp: tx_verdict_def d'_def d_def tx_data_def)
  moreover note tx_confirmation [OF assms(1), of d' tid data lib st]
  ultimately show ?thesis
    unfolding tx_fields_decoded [OF assms(1-4)] r bind.bind_lunit using t small assms(4) by (auto split: if_splits)
qed

text \<open>Three bytes to the broadcast address, tracked, two hops, in a fragment.\<close>

theorem data_transmitted_witness:
  "\<exists>it'. Dsap_handleFrame (sap_lib_example (\<lambda>_. (APP_RES_OK, 0xFFFFFFFF)))
      (sap_request 0x0F (tx_payload (Tx_frag 5 1 0x8010) 9 1 0xFFFFFFFF 2 0 (tx_options True False 2) [7, 8, 9])) sap_state_example =
      Some (True, it', ss_log (SendData (tx_data (sap_lib_example (\<lambda>_. (APP_RES_OK, 0xFFFFFFFF))) (sap_request 0x0F [])
         (Tx_frag 5 1 0x8010) 9 1 0xFFFFFFFF 2 0 True False 2 [7, 8, 9]) True) sap_state_example) \<and>
      take 3 (spld (frame it')) = [9, 0, 0]"
proof -
  let ?lib = "sap_lib_example (\<lambda>_. (APP_RES_OK, 0xFFFFFFFF))"
  let ?p = "tx_payload (Tx_frag 5 1 0x8010) 9 1 0xFFFFFFFF 2 0 (tx_options True False 2) [7, 8, 9]"
  let ?it = "sap_request 0x0F ?p"
  have l: "length ?p = 22" by (simp add: tx_payload_def)
  have i: "item_ok ?it" using sap_request_ok [of ?p "0x0F"] l by (simp add: request_ok_def)
  have f: "spld (frame ?it) = ?p @ replicate 101 0" "splen (frame ?it) = of_nat (length ?p)" "sfunc (frame ?it) = tx_code (Tx_frag 5 1 0x8010)"
    by (simp_all add: sap_request_def l)
  have p: "LockBits_isFeaturePermitted ?lib LOCK_BITS_DSAP_DATA_TX"
    by (simp add: LockBits_isFeaturePermitted_def LOCK_BITS_DSAP_DATA_TX_def got_def got_res_def sap_lib_example_def)
  have d: "tx_data lib ?it k a b c e q t u h ds = tx_data lib (sap_request 0x0F []) k a b c e q t u h ds" for lib k a b c e q t u h ds
    by (simp add: tx_data_def sap_request_def)
  have v: "tx_verdict ?lib x [7, 8, 9] = APP_LIB_DATA_SEND_RES_SUCCESS" for x using p by (simp add: tx_verdict_def sap_lib_example_def)
  have c: "(if got_res ?lib GetNumFreeBuffers = APP_RES_OK then got ?lib GetNumFreeBuffers else 0) = 0xFFFFFFFF"
    by (simp add: got_res_def got_def sap_lib_example_def)
  have bs: "le16 9 @ [data_send_res_code APP_LIB_DATA_SEND_RES_SUCCESS, ucast (0xFFFFFFFF :: u32)] = [9, 0, 0, 0xFF]" by code_simp
  have n: "length [7, 8, 9 :: u8] \<le> 102" "2 < (16 :: nat)" by simp_all
  note t = data_transmitted [OF i f n(2), of ?lib sap_state_example, unfolded v c bs if_P [OF conjI [OF p n(1)]]]
  then obtain it' where it: "Dsap_handleFrame ?lib ?it sap_state_example = Some (True, it', ss_log (SendData (tx_data ?lib ?it
        (Tx_frag 5 1 0x8010) 9 1 0xFFFFFFFF 2 0 True False 2 [7, 8, 9]) True) sap_state_example)"
      "take 4 (spld (frame it')) = [9, 0, 0, 0xFF]" by blast
  from it(2) have "take 3 (spld (frame it')) = [9, 0, 0]"
    by (cases "spld (frame it')"; cases "tl (spld (frame it'))"; cases "tl (tl (spld (frame it')))") (auto simp: take_Cons')
  with it(1) show ?thesis unfolding d by blast
qed

subsection \<open>Reception of data\<close>

text \<open>The indication the host should decode.\<close>

definition rx_payload :: "data_received \<Rightarrow> u32 \<Rightarrow> u32 \<Rightarrow> u8 list" where
  "rx_payload data dst delay =
     [0] @ le32 (dr_src_address data) @ [dr_src_endpoint data] @ le32 dst @ [dr_dest_endpoint data, rx_info data] @ le32 delay @
     (case dr_fragment_info data of
        None \<Rightarrow> []
      | Some frag \<Rightarrow> le16 (fi_packet_id frag) @ le16 ((fi_offset frag AND 0x0fff) OR (if fi_last frag then 0x8000 else 0))) @
     [of_nat (length (dr_bytes data))] @ dr_bytes data"

lemma spld_paid: "item_ok it \<Longrightarrow> off + length bs \<le> 123 \<Longrightarrow>
    spld (frame (paid off bs it)) = take off (spld (frame it)) @ bs @ drop (off + length bs) (spld (frame it))"
  by (simp add: paid_def)

lemma packet_received:
  assumes ok: "item_ok it" and len: "length (dr_bytes data) \<le> 102"
  shows "\<exists>it'. Dsap_packetReceived lib data dst it = Some it' \<and> item_ok it' \<and> w_time it' = nl_now lib \<and>
     pre_cb it' = Some Update_packet_delay \<and> unat (splen (frame it')) = length (rx_payload data dst (dr_delay data)) \<and>
     sfunc (frame it') = (if dr_fragment_info data = None then 0x03 else 0x10) \<and>
     (\<exists>rest. spld (frame it') = rx_payload data dst (dr_delay data) @ rest)"
proof (cases "dr_fragment_info data")
  case None
  have "unat (17 + of_nat (length (dr_bytes data)) :: u8) = 17 + length (dr_bytes data)"
    using unat_of_nat_small [of "17 + length (dr_bytes data)", where 'a = 8] len by simp
  then show ?thesis using None ok len
    by (simp add: Dsap_packetReceived_def Let_def item_simps spld_paid rx_payload_def)
next
  case (Some frag)
  have "unat (21 + of_nat (length (dr_bytes data)) :: u8) = 21 + length (dr_bytes data)"
    using unat_of_nat_small [of "21 + length (dr_bytes data)", where 'a = 8] len by simp
  then show ?thesis using Some ok len
    by (simp add: Dsap_packetReceived_def Let_def item_simps spld_paid rx_payload_def)
qed

text \<open>A packet for the host is indicated with its addresses, its quality of service and
  hops, the data, and the travel time at the moment the indication is sent: the time the
  indication waits is added to the delay of the packet.  For a fragment it is not, since the
  test that should find its indications looks for those of whole packets.\<close>

lemma packet_indicated:
  assumes "item_ok it" "length (dr_bytes data) \<le> 102"
  shows "\<exists>it1 it2 rest. Dsap_packetReceived lib data dst it = Some it1 \<and> pre_cb it1 = Some Update_packet_delay \<and>
     update_packet_delay now it1 = Some it2 \<and> sfunc (frame it2) = (if dr_fragment_info data = None then 0x03 else 0x10) \<and>
     spld (frame it2) = rx_payload data dst
       (if dr_fragment_info data = None then dr_delay data + (now - nl_now lib) else dr_delay data) @ rest \<and>
     unat (splen (frame it2)) = length (rx_payload data dst 0)"
proof -
  obtain it1 rest where it1: "Dsap_packetReceived lib data dst it = Some it1" "item_ok it1" "w_time it1 = nl_now lib"
     "pre_cb it1 = Some Update_packet_delay" "unat (splen (frame it1)) = length (rx_payload data dst (dr_delay data))"
     "sfunc (frame it1) = (if dr_fragment_info data = None then 0x03 else 0x10)"
     "spld (frame it1) = rx_payload data dst (dr_delay data) @ rest"
    using packet_received [OF assms, of lib dst] by auto
  have l: "length (rx_payload data dst d) = length (rx_payload data dst 0)" for d by (simp add: rx_payload_def)
  show ?thesis
  proof (cases "dr_fragment_info data")
    case None
    have "get_u32 12 (it1\<lparr>w_time := now\<rparr>) = Some (dr_delay data)"
      using it1(2,7) None by (simp add: gets_in item_ok_keeps rx_payload_def le_val_le32)
    then have "update_packet_delay now it1 = Some (paid 12 (le32 (dr_delay data + (now - nl_now lib))) (it1\<lparr>w_time := now\<rparr>))"
      using it1(2,3,6) None by (simp add: update_packet_delay_def Let_def item_simps)
    moreover have "spld (frame (paid 12 (le32 v) (it1\<lparr>w_time := now\<rparr>))) = rx_payload data dst v @ rest" for v
      using it1(2,7) None by (simp add: spld_paid item_ok_keeps rx_payload_def)
    ultimately show ?thesis using it1 None l [of "dr_delay data"] by (auto simp: frame_fields)
  next
    case (Some frag)
    then have "update_packet_delay now it1 = Some (it1\<lparr>w_time := now\<rparr>)" using it1(6) by (simp add: update_packet_delay_def)
    then show ?thesis using it1 Some l [of "dr_delay data"] by auto
  qed
qed

text \<open>Two bytes that wait ten ticks.\<close>

lemma packet_indicated_example:
  "\<exists>it1 it2 rest. Dsap_packetReceived (sap_lib_example (\<lambda>_. (APP_RES_OK, 0)))
       \<lparr>dr_bytes = [7, 8], dr_src_address = 5, dr_dest_address = 6, dr_delay = 3, dr_qos = 1, dr_hops = 2, dr_src_endpoint = 10,
        dr_dest_endpoint = 11, dr_fragment_info = None\<rparr> 6 (sap_request 0 []) = Some it1 \<and>
     update_packet_delay 110 it1 = Some it2 \<and>
     spld (frame it2) = [0, 5, 0, 0, 0, 10, 6, 0, 0, 0, 11, 9, 13, 0, 0, 0, 2, 7, 8] @ rest"
proof -
  let ?lib = "sap_lib_example (\<lambda>_. (APP_RES_OK, 0))"
  let ?d = "\<lparr>dr_bytes = [7, 8], dr_src_address = 5, dr_dest_address = 6, dr_delay = 3, dr_qos = 1, dr_hops = 2, dr_src_endpoint = 10,
        dr_dest_endpoint = 11, dr_fragment_info = None\<rparr> :: data_received"
  have i: "item_ok (sap_request 0 [])" using sap_request_ok [of "[]" 0] by (simp add: request_ok_def)
  have "rx_payload ?d 6 13 = [0, 5, 0, 0, 0, 10, 6, 0, 0, 0, 11, 9, 13, 0, 0, 0, 2, 7, 8]" by code_simp
  moreover have "3 + (110 - nl_now ?lib) = 13" by (simp add: sap_lib_example_def)
  moreover have "length (dr_bytes ?d) \<le> 102" by simp
  ultimately show ?thesis using packet_indicated [OF i, of ?d ?lib 6 110] by auto
qed

subsection \<open>Persistent data and multicast groups\<close>

text \<open>The documentation of the storage area: 31 bytes that keep what is written.\<close>

definition storage_ok :: "node_lib \<Rightarrow> sap_state \<Rightarrow> bool" where
  "storage_ok lib st \<longleftrightarrow> length (ss_storage st) = 31 \<and> length (ss_image st) = 31 \<and>
     (\<forall>store buf. length store = 31 \<and> length buf = 31 \<longrightarrow> nl_readPersistent lib store buf = (APP_RES_OK, store)) \<and>
     (\<forall>bs store. length bs = 31 \<and> length store = 31 \<longrightarrow> nl_writePersistent lib bs store = (APP_RES_OK, bs))"

lemma update_image_ok: "storage_ok lib st \<Longrightarrow> update_image lib st = (APP_RES_OK, st\<lparr>ss_image := ss_storage st\<rparr>)"
  by (simp add: storage_ok_def update_image_def)

lemma change_image_ok:
  assumes "storage_ok lib st" "length (f (ss_storage st)) = 31"
  shows "\<exists>st'. change_image lib f st = (APP_RES_OK, st') \<and> storage_ok lib st' \<and> ss_storage st' = f (ss_storage st)"
  using assms unfolding change_image_def update_image_ok [OF assms(1)] by (simp add: write_image_def storage_ok_def Let_def ss_log_def)

text \<open>A group has three bytes in the persistent area.\<close>

definition stored :: "u32 list \<Rightarrow> u8 list" where
  "stored gs = concat (map (\<lambda>g. le_bytes g 3) gs)"

lemma le_bytes_le32: "take 3 (le32 g) = le_bytes g 3" "drop 4 (le32 g) = []" "le_bytes g 3 @ [0] = le32 (take_bit 24 g)"
proof -
  show "take 3 (le32 g) = le_bytes g 3" "drop 4 (le32 g) = []" by (simp_all add: le32_def numeral_eq_Suc)
  have "le_bytes (take_bit 24 g) 3 = le_bytes g 3"
    by (simp add: numeral_3_eq_3) (intro conjI bit_word_eqI; auto simp: bit_simps)
  moreover have "ucast (drop_bit 24 (take_bit 24 g)) = (0 :: u8)" by (rule bit_word_eqI) (auto simp: bit_simps)
  moreover have "le32 (take_bit 24 g) = le_bytes (take_bit 24 g) 3 @ [ucast (drop_bit 24 (take_bit 24 g))]"
    unfolding le32_def using le_bytes_snoc [of "take_bit 24 g" 3] by (simp add: numeral_eq_Suc)
  ultimately show "le_bytes g 3 @ [0] = le32 (take_bit 24 g)" by simp
qed

lemma store_groups_encoded: "store_groups (length gs) (concat (map le32 gs)) = stored gs"
  by (induction gs) (simp_all add: stored_def le_bytes_le32)

lemma load_groups_encoded: "load_groups (length gs) (stored gs) = concat (map (\<lambda>g. le32 (take_bit 24 g)) gs)"
proof (induction gs)
  case (Cons g gs)
  have "load_groups (length (g # gs)) (stored (g # gs)) = (le_bytes g 3 @ [0]) @ load_groups (length gs) (stored gs)"
    by (simp add: stored_def)
  then show ?case using Cons le_bytes_le32(3) [of g] by simp
qed (simp add: stored_def)

lemma group_address: "mcast_group_addr_to_app_addr (le_bytes g 3 @ rest) = 0x80000000 OR take_bit 24 g"
proof -
  have v: "le_val (bs @ [x]) = le_val bs OR push_bit (8 * length bs) (ucast x)" for bs x
  proof (induction bs)
    case (Cons b bs)
    have "push_bit 8 (push_bit (8 * length bs) y) = push_bit (8 * length (b # bs)) y" for y :: u32
      by (simp only: push_bit_push_bit length_Cons mult_Suc_right)
    with Cons show ?case by (simp only: append_Cons le_val.simps push_bit_or or.assoc)
  qed simp
  have "push_bit 24 (ucast (0x80 :: u8)) = (0x80000000 :: u32)" by simp
  then show ?thesis
    using v [of "le_bytes g 3" "0x80"] unfolding mcast_group_addr_to_app_addr_def le_val_le_bytes
    by (simp only: length_le_bytes take_append take_all diff_self_eq_0 take0 append_Nil2 mult_numeral_1 le_refl) (simp add: or.commute)
qed

lemma is_group_encoded: "is_group_loop (length gs) (stored gs) a \<longleftrightarrow> (\<exists>g\<in>set gs. a = 0x80000000 OR take_bit 24 g)"
proof (induction gs)
  case (Cons g gs)
  have "stored (g # gs) = le_bytes g 3 @ stored gs" by (simp add: stored_def)
  then show ?case using Cons by (auto simp: group_address)
qed simp

lemma length_stored: "length (stored gs) = 3 * length gs"
  by (induction gs) (simp_all add: stored_def)



text \<open>The flags of the area are independent of each other and of the groups.\<close>

lemma autostart_roundtrip:
  assumes "storage_ok lib st"
  shows "\<exists>st'. Persistent_setAutostart lib b st = (APP_RES_OK, st') \<and> storage_ok lib st' \<and>
     fst (snd (Persistent_getAutostart lib st')) = b \<and>
     fst (snd (Persistent_isFirstboot lib st')) = fst (snd (Persistent_isFirstboot lib st)) \<and>
     fst (snd (Multicast_getGroups lib st')) = fst (snd (Multicast_getGroups lib st))"
proof -
  let ?f = "\<lambda>img. img[0 := set_flag 0 b (img ! 0)]"
  have l: "length (ss_storage st) = 31" using assms by (simp add: storage_ok_def)
  then obtain x xs where x: "ss_storage st = x # xs" by (cases "ss_storage st") auto
  obtain st' where st': "change_image lib ?f st = (APP_RES_OK, st')" "storage_ok lib st'" "ss_storage st' = ?f (ss_storage st)"
    using change_image_ok [of lib st ?f, OF assms] l by auto
  have "bit (set_flag 0 b v) 0 = b" "bit (set_flag 0 b v) 1 = bit v 1" for v
    by (auto simp: set_flag_def bit_simps)
  then show ?thesis using st' x
    by (simp add: Persistent_setAutostart_def Persistent_getAutostart_def Persistent_isFirstboot_def Multicast_getGroups_def
        Persistent_getGroups_def update_image_ok [OF st'(2)] update_image_ok [OF assms])
qed

subsection \<open>From request to confirmation\<close>

text \<open>The access points and the callbacks of items as the environment of the protocol.\<close>

definition sap_env :: "(u8 list \<Rightarrow> bool) \<Rightarrow> node_lib \<Rightarrow> sap_state \<Rightarrow> waps_cb waps_env" where
  "sap_env hw lib st =
     \<lparr>hw_write = hw,
      run_pre_cb = (\<lambda>cb pending it. case run_sap_cb (nl_now lib) cb pending it of None \<Rightarrow> it | Some it' \<Rightarrow> it'),
      sap_handle = (\<lambda>s it.
        case (case s of DSAP \<Rightarrow> Dsap_handleFrame lib it st | MSAP \<Rightarrow> Msap_handleFrame lib it st | CSAP \<Rightarrow> Csap_handleFrame lib it st) of
          None \<Rightarrow> (False, it) | Some (b, it', st') \<Rightarrow> (b, it')),
      coarse_now = nl_now lib\<rparr>"

lemma process_request_sap:
  "process_sap_request lib (w_items w i) st = Some (b, it', st') \<Longrightarrow>
     process_request (sap_env hw lib st) i w = (b, set_item i it' w)"
  by (auto simp: process_request_def process_sap_request_def sap_env_def Let_def set_item_def split: if_splits)

lemma send_item_ok:
  assumes "\<And>bs. hw_write env bs"
  shows "\<exists>pending w'. prot_send_item env i w = (True, w') \<and>
     w_items w' i = (case pre_cb (w_items w i) of None \<Rightarrow> w_items w i | Some cb \<Rightarrow> run_pre_cb env cb pending (w_items w i)) \<and>
     w_sent w' = w_sent w @ [take (3 + unat (splen (frame (w_items w' i)))) (frame_bytes (frame (w_items w' i)))]"
  using assms by (auto simp: prot_send_item_def Let_def set_item_def split: option.splits)

lemma send_indication_sent:
  "\<exists>rest. w_sent (send_indication env f w) = w_sent w @ rest \<and> length rest \<le> 1"
proof -
  have s: "\<exists>rest. w_sent w' = w_sent w @ rest \<and> length rest \<le> 1" if "prot_send_item env p w = (b, w')" for p w b w'
    using that by (auto simp: prot_send_item_def Let_def set_item_def split: option.splits if_splits)
  have p: "w_sent (snd (q_pop_front IND w)) = w_sent w" for w by (simp add: q_pop_front_def split: prod.split)
  define v where "v = (if prot_indication w = None then case q_pop_front IND w of (p, w) \<Rightarrow> w\<lparr>prot_indication := p\<rparr> else w)"
  have v: "w_sent v = w_sent w" using p [of w] by (auto simp: v_def split: prod.split)
  show ?thesis
    unfolding send_indication_def v_def [symmetric] using v
    by (auto simp: Waps_prot_updateIrqPin_def Let_def set_item_def q_push_front_def dest!: s split: prod.splits option.splits)
qed

lemma reply_sent:
  assumes w: "winv n w L held" "L REPLY = [i]" "prot_reply w = None" and line: "\<And>bs. hw_write env bs"
  shows "\<exists>pending it rest.
     it = (case pre_cb (w_items w i) of None \<Rightarrow> w_items w i | Some cb \<Rightarrow> run_pre_cb env cb pending (w_items w i)) \<and>
     w_sent (Waps_protUart_sendReply env w) = w_sent w @ take (3 + unat (splen (frame it))) (frame_bytes (frame it)) # rest \<and>
     length rest \<le> 1 \<and> prot_reply (Waps_protUart_sendReply env w) = None"
proof -
  obtain u where u: "q_pop_front REPLY w = (Some i, set_queue REPLY u w)"
    using pop_front_inv [OF w(1), of REPLY] w(2) by auto
  define w4 where "w4 = set_queue REPLY u w\<lparr>prot_reply := Some i\<rparr>"
  have w4: "w_items w4 i = w_items w i" "w_sent w4 = w_sent w" by (simp_all add: w4_def)
  obtain pending w5 where w5: "prot_send_item env i w4 = (True, w5)"
      "w_items w5 i = (case pre_cb (w_items w i) of None \<Rightarrow> w_items w i | Some cb \<Rightarrow> run_pre_cb env cb pending (w_items w i))"
      "w_sent w5 = w_sent w @ [take (3 + unat (splen (frame (w_items w5 i)))) (frame_bytes (frame (w_items w5 i)))]"
    using send_item_ok [OF line, of i w4] unfolding w4 by blast
  obtain rest where rest: "w_sent (send_indication env (frame (w_items w5 i)) w5) = w_sent w5 @ rest" "length rest \<le> 1"
    using send_indication_sent by blast
  have "Waps_protUart_sendReply env w = (Waps_itemFree i (send_indication env (frame (w_items w5 i)) w5))\<lparr>prot_reply := None\<rparr>"
    using w(3) u w5(1) by (simp add: Waps_protUart_sendReply_def w4_def [symmetric]) (simp add: w4_def)
  then have "w_sent (Waps_protUart_sendReply env w) = w_sent w5 @ rest" "prot_reply (Waps_protUart_sendReply env w) = None"
    using rest by (simp_all add: Waps_itemFree_def q_push_front_def Let_def)
  then show ?thesis using w5(2,3) rest(2) by (intro exI [of _ pending] exI [of _ "w_items w5 i"] exI [of _ rest]) auto
qed

text \<open>A run of \<open>Waps_exec\<close> with one request and no reply in the queues.\<close>

lemma exec_confirms:
  assumes w: "winv n w L held" "irq_ok w" and q: "L REQUEST = [i]" "L REPLY = []" "prot_reply w = None"
    and f: "\<not> WapsFunc_isResponse (sfunc (frame (w_items w i)))" "coarse_now env = w_time (w_items w i)"
    and r: "\<And>u. w_items u i = w_items w i \<Longrightarrow> process_request env i u = (True, set_item i it' u)"
    and line: "\<And>bs. hw_write env bs"
  shows "\<exists>pending it'' t w' rest. Waps_exec env w = Some (t, w') \<and> (\<exists>L'. winv n w' L' held) \<and> irq_ok w' \<and> prot_reply w' = None \<and>
     it'' = (case pre_cb it' of None \<Rightarrow> it' | Some cb \<Rightarrow> run_pre_cb env cb pending it') \<and>
     w_sent w' = w_sent w @ take (3 + unat (splen (frame it''))) (frame_bytes (frame it'')) # rest \<and> length rest \<le> 1"
proof -
  let ?w = "w\<lparr>w_signal := False\<rparr>"
  have "winv n ?w L held" using w by simp
  then obtain s where s: "q_pop_front REQUEST ?w = (Some i, set_queue REQUEST s ?w)"
    "winv n (set_queue REQUEST s ?w) (L(REQUEST := [])) (i # held)"
    using pop_front_inv [of n ?w L held REQUEST] q(1) by auto
  define w1 where "w1 = set_queue REQUEST s ?w"
  have w1: "w_items w1 = w_items w" "prot_reply w1 = None" "w_sent w1 = w_sent w" using q(3) by (simp_all add: w1_def)
  define w2 where "w2 = set_item i it' w1"
  have p: "process_request env i w1 = (True, w2)" using r [of w1] w1(1) by (simp add: w2_def)
  have w2: "winv n w2 (L(REQUEST := [])) (i # held)" using s(2) by (simp add: w2_def w1_def)
  from push_back_inv [OF w2, of REPLY] obtain t where
    t: "q_push_back REPLY i w2 = Some (set_queue REPLY t w2)" "winv n (set_queue REPLY t w2) (L(REQUEST := [], REPLY := [i])) held"
    using q(2) by auto
  define w3 where "w3 = set_queue REPLY t w2"
  obtain tm where exec: "Waps_exec env w = Some (tm, Waps_protUart_sendReply env w3)"
    using s(1) f w1(1) p t(1) by (simp add: Waps_exec_def Waps_protUart_processResponse_def Let_def add_reply_def w1_def [symmetric] w3_def)
  have w3: "winv n w3 (L(REQUEST := [], REPLY := [i])) held" "prot_reply w3 = None" "w_items w3 i = it'" "w_sent w3 = w_sent w"
    using t(2) w1 by (simp_all add: w3_def w2_def set_item_def)
  have inv: "\<exists>L'. winv n (Waps_protUart_sendReply env w3) L' held" "irq_ok (Waps_protUart_sendReply env w3)"
    using exec_inv [OF w, of env] exec by auto
  have "(L(REQUEST := [], REPLY := [i])) REPLY = [i]" by simp
  from reply_sent [OF w3(1) this w3(2) line] show ?thesis using inv exec w3(3,4) by auto
qed

text \<open>The item of a frame from the host.\<close>

definition request_item :: "u32 \<Rightarrow> u8 list \<Rightarrow> sap_item \<Rightarrow> sap_item" where
  "request_item now data it = it\<lparr>w_time := now, pre_cb := None, post_cb := None, frame := frame_of_bytes data (frame it)\<rparr>"

lemma request_item_ok:
  assumes "item_ok it" "3 \<le> length data" "length data \<le> 126" "unat (data ! 2) = length data - 3"
  shows "request_ok (request_item now data it)"
  using assms by (simp add: request_item_def request_ok_def item_ok_def frame_of_bytes_def)

lemma callback_keeps:
  "item_ok it \<Longrightarrow> run_sap_cb now cb pending it = Some it' \<Longrightarrow>
     sfunc (frame it') = sfunc (frame it) \<and> sfid (frame it') = sfid (frame it) \<and> splen (frame it') = splen (frame it) \<and> item_ok it'"
  by (cases cb) (auto simp: run_sap_cb_def update_packet_delay_def Let_def item_simps split: if_splits bind_splits)

text \<open>C8: a request frame of at most 126 bytes whose length field is right, that comes over the
  serial line to a node with a free item, empty queues of requests and replies and no reply being
  sent, is answered in one run of \<open>Waps_exec\<close>, when the access point accepts it, the serial line
  accepts the frames and the clock does not move meanwhile: the node sends a frame with the code of the request and the top bit set, the same frame
  number and the payload its length field tells, and has all of its items again; at most one
  indication follows.\<close>

theorem request_confirmed:
  assumes w: "winv n w L []" "irq_ok w" and q: "L FREE \<noteq> []" "L REQUEST = []" "L REPLY = []" "prot_reply w = None"
    and d: "3 \<le> length data" "length data \<le> 126" "unat (data ! 2) = length data - 3"
    and items: "item_ok (w_items w (hd (L FREE)))"
    and acc: "lib_ok lib" "process_sap_request lib (request_item (nl_now lib) data (w_items w (hd (L FREE)))) st = Some (True, it', st')"
    and line: "\<And>bs. hw bs"
  shows "\<exists>w1 t w2 L2 reply rest. frame_receive (sap_env hw lib st) data w = Some (True, w1) \<and>
     Waps_exec (sap_env hw lib st) w1 = Some (t, w2) \<and> winv n w2 L2 [] \<and> prot_reply w2 = None \<and>
     w_sent w2 = w_sent w @ reply # rest \<and> length rest \<le> 1 \<and>
     reply ! 0 = data ! 0 OR 0x80 \<and> reply ! 1 = data ! 1 \<and> length reply = 3 + unat (reply ! 2)"
proof -
  define i where "i = hd (L FREE)"
  let ?env = "sap_env hw lib st" and ?it = "request_item (nl_now lib) data (w_items w i)"
  have ok: "request_ok ?it" using request_item_ok items d by (simp add: i_def)
  note a = saps.reply [OF acc(1) ok acc(2) [folded i_def]]
  have free: "L FREE = i # tl (L FREE)" using q(1) by (simp add: i_def)
  obtain w1 where w1: "frame_receive ?env data w = Some (True, w1)" "winv n w1 (L(FREE := tl (L FREE), REQUEST := [i])) []"
    "irq_ok w1" "w_sent w1 = w_sent w" "prot_reply w1 = None" "w_items w1 i = ?it"
    using frame_received [OF w(1) free d(1,3), of ?env] q w(2) by (auto simp: request_item_def sap_env_def)
  have req: "\<not> WapsFunc_isResponse (sfunc (frame (w_items w1 i)))"
    using a function_codes [of "sfunc (frame ?it)"] w1(6) by (auto simp: is_request_simps)
  have now: "coarse_now ?env = w_time (w_items w1 i)" using w1(6) by (simp add: request_item_def sap_env_def)
  have r: "process_request ?env i u = (True, set_item i it' u)" if "w_items u i = w_items w1 i" for u
    using process_request_sap [of lib u i st True it' st' hw] acc(2) that w1(6) by (simp add: i_def)
  have l: "hw_write ?env bs" for bs using line by (simp add: sap_env_def)
  have "(L(FREE := tl (L FREE), REQUEST := [i])) REQUEST = [i]" "(L(FREE := tl (L FREE), REQUEST := [i])) REPLY = []" using q by simp_all
  from exec_confirms [OF w1(2,3) this w1(5) req now r l] obtain pending it'' t w2 rest where
    e: "Waps_exec ?env w1 = Some (t, w2)" "\<exists>L'. winv n w2 L' []" "prot_reply w2 = None" "length rest \<le> 1"
      "it'' = (case pre_cb it' of None \<Rightarrow> it' | Some cb \<Rightarrow> run_pre_cb ?env cb pending it')"
      "w_sent w2 = w_sent w @ take (3 + unat (splen (frame it''))) (frame_bytes (frame it'')) # rest"
    unfolding w1(4) by blast
  have k: "sfunc (frame it'') = sfunc (frame it') \<and> sfid (frame it'') = sfid (frame it') \<and> splen (frame it'') = splen (frame it') \<and> item_ok it''"
    using e(5) a callback_keeps [of it' "nl_now lib" _ pending] by (auto simp: sap_env_def split: option.splits)
  have h: "sfunc (frame ?it) = data ! 0" "sfid (frame ?it) = data ! 1" by (simp_all add: request_item_def frame_of_bytes_def)
  let ?reply = "take (3 + unat (splen (frame it''))) (frame_bytes (frame it''))"
  have "?reply ! 0 = data ! 0 OR 0x80" "?reply ! 1 = data ! 1" "?reply ! 2 = splen (frame it'')" "length ?reply = 3 + unat (splen (frame it''))"
    using k a h by (simp_all add: frame_bytes_def item_ok_def)
  then show ?thesis using w1(1) e by metis
qed

definition sap_waps_example :: "waps_cb waps" where
  "sap_waps_example = waps_boot\<lparr>w_heads := (\<lambda>q. if q = FREE then single 0 else sl_list_init), w_items := (\<lambda>_. zero_item)\<rparr>"

text \<open>The host polls for indications.\<close>

theorem request_confirmed_witness:
  "\<exists>w1 t w2 reply rest. frame_receive (sap_env (\<lambda>_. True) (sap_lib_example (\<lambda>_. (APP_RES_OK, 0))) sap_state_example) [0x04, 9, 0] sap_waps_example = Some (True, w1) \<and>
     Waps_exec (sap_env (\<lambda>_. True) (sap_lib_example (\<lambda>_. (APP_RES_OK, 0))) sap_state_example) w1 = Some (t, w2) \<and>
     w_sent w2 = reply # rest \<and> reply ! 0 = 0x84 \<and> reply ! 1 = 9"
proof -
  let ?lib = "sap_lib_example (\<lambda>_. (APP_RES_OK, 0))" and ?L = "\<lambda>q. if q = FREE then [0] else []"
  let ?it = "request_item (nl_now ?lib) [0x04, 9, 0] (zero_item :: sap_item)"
  have inv: "winv 1 sap_waps_example ?L []"
    by (auto simp: winv_def get_queue_def sap_waps_example_def single_def sl_repr_def cursor_def waps_boot_def sl_list_init_def queued_def)
  have irq: "irq_ok sap_waps_example" by (simp add: irq_ok_def sap_waps_example_def waps_boot_def q_size_def sl_list_init_def)
  have z: "item_ok (zero_item :: sap_item)" by (simp add: item_ok_def zero_item_def)
  obtain it' st' where p: "process_sap_request ?lib ?it sap_state_example = Some (True, it', st')"
    by (simp add: process_sap_request_def is_request_simps m_dsap_req_def m_msap_req_def Msap_handleFrame_def pollRequest_def
        request_item_def frame_of_bytes_def zero_item_def put_def wr_bytes_def Waps_item_init_def)
  have f: "w_items sap_waps_example k = zero_item" "prot_reply sap_waps_example = None" "w_sent sap_waps_example = []" for k
    by (simp_all add: sap_waps_example_def waps_boot_def)
  have "?L FREE \<noteq> []" "?L REQUEST = []" "?L REPLY = []" "hd (?L FREE) = 0" by simp_all
  note h = request_confirmed [OF inv irq this(1-3) f(2), of "[0x04, 9, 0]" ?lib sap_state_example it' st' "\<lambda>_. True"]
  have "?it = request_item (nl_now ?lib) [0x04, 9, 0] (w_items sap_waps_example (hd (?L FREE)))" by (simp add: f)
  then show ?thesis using h z p sap_lib_example_ok by (force simp: f)
qed

end
