(* ===== verification/Control_Node.thy ===== *)
theory Control_Node
  imports Scheduler_Props Util_Num Wms_Api
begin

text \<open>
  The control node, \<open>libraries/control_node/control_node.c\<close> and \<open>control_router.c\<close>: an
  advertiser sends a packet through the best router in its range, and through a second one
  when the first does not answer in time; routers forward the diagnostics of advertisers to
  the sink.

  The tasks are in a model of the scheduler, which also has the clocks.  The environment of a
  call \<open>cn_env\<close> has the neighbors, the results of \<open>Shared_Data_sendData\<close> and of the
  libraries of the stack, and what the callback of the user does: nothing, or a call of
  \<open>Control_Node_send\<close>.  Packets and calls of callbacks are recorded in \<open>cn_log\<close>.  A
  callback is a number.  \<open>norm_rssi\<close> is a signed byte.
\<close>

subsection \<open>State\<close>

datatype control_node_ret =
  CONTROL_RET_OK | CONTROL_RET_ERROR | CONTROL_RET_INVALID_STATE | CONTROL_RET_INVALID_PARAM | CONTROL_RET_INVALID_ROLE
| CONTROL_RET_SEND_ERROR

datatype control_node_state = CTRL_STATE_UNINIT | CTRL_STATE_IDLE | CTRL_STATE_BUSY

record da_nbor =
  dn_address :: u32
  dn_last_update :: u16
  dn_norm_rssi :: u8
  dn_diradv_support :: bool

record send_handle =
  sh_sent :: bool
  sh_ack :: bool
  sh_end :: bool
  sh_address :: u32

record control_node_conf =
  cc_diag_period_ms :: u32
  cc_packet_ttl_ms :: u32
  cc_ack_cb :: "nat option"

record diag_info =
  di_success :: u16
  di_error :: u16
  di_send_time_us :: u32

record sent_status =
  ss_dest_address :: u32
  ss_success :: bool

datatype cn_event = Da_send data_to_send bool | Da_sent_cb nat sent_status | Da_ack_cb nat "u8 list" | Da_filter_added

record control_node =
  cn_state :: control_node_state
  cn_h0 :: send_handle
  cn_h1 :: send_handle
  cn_data :: data_to_send
  cn_sent_cb :: "nat option"
  cn_time_sent :: u32
  cn_conf :: control_node_conf
  cn_diag_info :: diag_info
  cn_sched :: "string sched"
  cn_log :: "cn_event list"

record cn_env =
  ce_time :: lib_time
  ce_nbors :: "da_nbor list"
  ce_send :: "data_to_send \<Rightarrow> data_send_res"
  ce_user :: "nat \<Rightarrow> sent_status \<Rightarrow> (data_to_send \<times> nat option) option"
  ce_getNodeRole :: "app_res \<times> u8"
  ce_setOptions :: app_res
  ce_setQueuingTimeHp :: "u32 \<Rightarrow> app_res"
  ce_addDataReceivedCb :: app_res
  ce_getProcessedSeq :: u8
  ce_getSeq :: u8

definition NBOR_MAX_TIME_LAST_SEEN :: u16 where "NBOR_MAX_TIME_LAST_SEEN = 60"
definition NO_ROUTE_FOUND_ADDRESS :: u32 where "NO_ROUTE_FOUND_ADDRESS = 0"
definition MAX_PAYLOAD :: nat where "MAX_PAYLOAD = 102"
definition MAX_NBORS :: nat where "MAX_NBORS = 10"
definition MIN_DIAG_PERIOD_MS :: u32 where "MIN_DIAG_PERIOD_MS = 30000"
definition CONTROL_DIAG_EP :: u8 where "CONTROL_DIAG_EP = 237"
definition ROLE_ADVERTISER :: u8 where "ROLE_ADVERTISER = 0x04"

definition cn_event :: "cn_event \<Rightarrow> control_node \<Rightarrow> control_node" where
  "cn_event e w = w\<lparr>cn_log := cn_log w @ [e]\<rparr>"

definition da_sendData :: "cn_env \<Rightarrow> data_to_send \<Rightarrow> control_node \<Rightarrow> bool \<times> control_node" where
  "da_sendData env d w = (let ok = (ce_send env d = APP_LIB_DATA_SEND_RES_SUCCESS) in (ok, cn_event (Da_send d ok) w))"

definition cn_addTask :: "cn_env \<Rightarrow> string \<Rightarrow> u32 \<Rightarrow> u32 \<Rightarrow> control_node \<Rightarrow> bool \<times> control_node" where
  "cn_addTask env f delay_ms exec_us w =
     (case App_Scheduler_addTask_execTime (ce_time env) (cn_sched w) (Some f) delay_ms exec_us of
        (r, s) \<Rightarrow> (r = APP_SCHEDULER_RES_OK, w\<lparr>cn_sched := s\<rparr>))"

definition cn_cancelTask :: "string \<Rightarrow> control_node \<Rightarrow> control_node" where
  "cn_cancelTask f w = w\<lparr>cn_sched := snd (App_Scheduler_cancelTask (cn_sched w) (Some f))\<rparr>"

subsection \<open>Choice of a router\<close>

text \<open>The loop over the neighbors: the best signal seen in the last minute and its index,
  the best signal and its index; the index \<open>MAX_NBORS\<close> is none.\<close>

fun router_scan :: "u32 \<Rightarrow> da_nbor list \<Rightarrow> nat \<Rightarrow> int \<Rightarrow> nat \<Rightarrow> int \<Rightarrow> nat \<Rightarrow> nat \<times> nat" where
  "router_scan exclude [] i max_in idx_in max_all idx_all = (idx_in, idx_all)"
| "router_scan exclude (n # ns) i max_in idx_in max_all idx_all =
     (if dn_address n \<noteq> exclude \<and> dn_diradv_support n
      then
        let rssi = sint (dn_norm_rssi n);
            better_in = (dn_last_update n < NBOR_MAX_TIME_LAST_SEEN \<and> rssi > max_in);
            better = (rssi > max_all)
        in router_scan exclude ns (i + 1) (if better_in then rssi else max_in) (if better_in then i else idx_in)
             (if better then rssi else max_all) (if better then i else idx_all)
      else router_scan exclude ns (i + 1) max_in idx_in max_all idx_all)"

definition get_da_router_address :: "cn_env \<Rightarrow> u32 \<Rightarrow> u32" where
  "get_da_router_address env exclude =
     (let (idx_in, idx_all) = router_scan exclude (ce_nbors env) 0 (-128) MAX_NBORS (-128) MAX_NBORS
      in if idx_in \<noteq> MAX_NBORS then dn_address (ce_nbors env ! idx_in)
         else if idx_all \<noteq> MAX_NBORS then dn_address (ce_nbors env ! idx_all)
         else NO_ROUTE_FOUND_ADDRESS)"

subsection \<open>Sending\<close>

definition fresh_handle :: "u32 \<Rightarrow> send_handle" where
  "fresh_handle a = \<lparr>sh_sent = False, sh_ack = False, sh_end = False, sh_address = a\<rparr>"

text \<open>\<open>null\<close> tells that the pointer to the bytes is NULL.\<close>

definition Control_Node_send ::
  "cn_env \<Rightarrow> bool \<Rightarrow> data_to_send \<Rightarrow> nat option \<Rightarrow> control_node \<Rightarrow> control_node_ret \<times> control_node" where
  "Control_Node_send env null data sent_cb w =
     (if cn_state w \<noteq> CTRL_STATE_IDLE then (CONTROL_RET_INVALID_STATE, w)
      else if null \<or> length (ds_bytes data) = 0 \<or> length (ds_bytes data) > MAX_PAYLOAD then (CONTROL_RET_INVALID_PARAM, w)
      else
        let a0 = get_da_router_address env 0;
            a1 = get_da_router_address env a0;
            w = w\<lparr>cn_state := CTRL_STATE_BUSY, cn_time_sent := now_coarse (cn_sched w),
                  cn_h0 := (fresh_handle a0)\<lparr>sh_sent := True\<rparr>, cn_h1 := fresh_handle a1,
                  cn_data := data\<lparr>ds_dest_address := a0\<rparr>, cn_sent_cb := sent_cb\<rparr>;
            (ok, w) = da_sendData env (cn_data w) w;
            (failed, w) =
              (if ok then (False, w)
               else
                 let w = w\<lparr>cn_h0 := (cn_h0 w)\<lparr>sh_end := True\<rparr>\<rparr>
                 in if a1 = NO_ROUTE_FOUND_ADDRESS then (True, w\<lparr>cn_state := CTRL_STATE_IDLE\<rparr>)
                 else
                   let w = w\<lparr>cn_data := (cn_data w)\<lparr>ds_dest_address := a1\<rparr>, cn_h1 := (cn_h1 w)\<lparr>sh_sent := True\<rparr>\<rparr>;
                       (ok, w) = da_sendData env (cn_data w) w
                   in if ok then (False, w) else (True, w\<lparr>cn_state := CTRL_STATE_IDLE\<rparr>))
        in if failed then (CONTROL_RET_SEND_ERROR, w)
           else
             let (_, w) = cn_addTask env ''reset_task'' (cc_packet_ttl_ms (cn_conf w) * 2) 30 w
             in if sh_address (cn_h1 w) = NO_ROUTE_FOUND_ADDRESS \<or> sh_sent (cn_h1 w)
                then (CONTROL_RET_OK, w\<lparr>cn_h1 := (cn_h1 w)\<lparr>sh_end := True\<rparr>\<rparr>)
                else
                  let (added, w) = cn_addTask env ''backup_route_task'' (cc_packet_ttl_ms (cn_conf w) div 2) 30 w
                  in (CONTROL_RET_OK, if added then w else w\<lparr>cn_h1 := (cn_h1 w)\<lparr>sh_end := True\<rparr>\<rparr>))"

text \<open>The callback of the user, if there is one, and its pointer set to NULL.\<close>

definition call_sent_cb :: "cn_env \<Rightarrow> sent_status \<Rightarrow> control_node \<Rightarrow> control_node" where
  "call_sent_cb env status w =
     (case cn_sent_cb w of
        None \<Rightarrow> w
      | Some cb \<Rightarrow>
          (let w = cn_event (Da_sent_cb cb status) w;
               w = (case ce_user env cb status of
                      None \<Rightarrow> w
                    | Some (data, sent_cb) \<Rightarrow> snd (Control_Node_send env False data sent_cb w))
           in w\<lparr>cn_sent_cb := None\<rparr>))"

definition failed_status :: sent_status where
  "failed_status = \<lparr>ss_dest_address = 0, ss_success = False\<rparr>"

definition closed_handle :: "send_handle \<Rightarrow> send_handle" where
  "closed_handle h = h\<lparr>sh_end := True, sh_ack := True, sh_address := NO_ROUTE_FOUND_ADDRESS\<rparr>"

definition reset_task :: "cn_env \<Rightarrow> control_node \<Rightarrow> u32 \<times> control_node" where
  "reset_task env w =
     (let w = cn_cancelTask ''backup_route_task'' w;
          w = w\<lparr>cn_h0 := closed_handle (cn_h0 w), cn_h1 := closed_handle (cn_h1 w), cn_state := CTRL_STATE_IDLE\<rparr>
      in (APP_SCHEDULER_STOP_TASK, call_sent_cb env failed_status w))"

text \<open>The second packet, with the time since the first one as its delay.\<close>

definition send_backup :: "cn_env \<Rightarrow> control_node \<Rightarrow> control_node" where
  "send_backup env w =
     (let w = w\<lparr>cn_h1 := (cn_h1 w)\<lparr>sh_sent := True\<rparr>,
                cn_data := (cn_data w)\<lparr>ds_dest_address := sh_address (cn_h1 w), ds_delay := now_coarse (cn_sched w) - cn_time_sent w\<rparr>\<rparr>;
          (ok, w) = da_sendData env (cn_data w) w
      in if ok then w else w\<lparr>cn_h1 := (cn_h1 w)\<lparr>sh_end := True\<rparr>\<rparr>)"

definition backup_route_task :: "cn_env \<Rightarrow> control_node \<Rightarrow> u32 \<times> control_node" where
  "backup_route_task env w =
     (let w = send_backup env w
      in (APP_SCHEDULER_STOP_TASK,
          if sh_end (cn_h0 w) \<and> sh_end (cn_h1 w)
          then (call_sent_cb env failed_status (cn_cancelTask ''reset_task'' w))\<lparr>cn_state := CTRL_STATE_IDLE\<rparr>
          else w))"

definition packet_sent_cb :: "cn_env \<Rightarrow> sent_status \<Rightarrow> control_node \<Rightarrow> control_node" where
  "packet_sent_cb env status w =
     (if cn_state w \<noteq> CTRL_STATE_BUSY then w
      else
        let w = (if ss_dest_address status = sh_address (cn_h0 w)
                 then
                   let w = cn_cancelTask ''backup_route_task'' (w\<lparr>cn_h0 := (cn_h0 w)\<lparr>sh_end := True\<rparr>\<rparr>)
                   in if \<not> sh_sent (cn_h1 w)
                      then if ss_success status then w\<lparr>cn_h1 := (cn_h1 w)\<lparr>sh_end := True\<rparr>\<rparr> else send_backup env w
                      else w
                 else if ss_dest_address status = sh_address (cn_h1 w) then w\<lparr>cn_h1 := (cn_h1 w)\<lparr>sh_end := True\<rparr>\<rparr>
                 else w\<lparr>cn_h0 := (cn_h0 w)\<lparr>sh_end := True, sh_ack := True\<rparr>, cn_h1 := (cn_h1 w)\<lparr>sh_end := True, sh_ack := True\<rparr>\<rparr>);
            w = (if ss_success status \<or> sh_end (cn_h0 w) \<and> sh_end (cn_h1 w) then call_sent_cb env status w else w)
        in if sh_end (cn_h0 w) \<and> sh_end (cn_h1 w) then (cn_cancelTask ''reset_task'' w)\<lparr>cn_state := CTRL_STATE_IDLE\<rparr> else w)"

definition ack_received :: "u32 \<Rightarrow> u8 list \<Rightarrow> control_node \<Rightarrow> data_receive_res \<times> control_node" where
  "ack_received src_address bytes w =
     (let deliver = (\<lambda>w. (APP_LIB_DATA_RECEIVE_RES_HANDLED,
            case cc_ack_cb (cn_conf w) of None \<Rightarrow> w | Some cb \<Rightarrow> cn_event (Da_ack_cb cb bytes) w))
      in if src_address = sh_address (cn_h0 w) \<and> \<not> sh_end (cn_h0 w) \<or> src_address = sh_address (cn_h1 w) \<and> \<not> sh_end (cn_h1 w)
         then if \<not> sh_ack (cn_h0 w) \<and> \<not> sh_ack (cn_h1 w)
              then deliver (w\<lparr>cn_h0 := (cn_h0 w)\<lparr>sh_ack := True\<rparr>, cn_h1 := (cn_h1 w)\<lparr>sh_ack := True\<rparr>\<rparr>)
              else (APP_LIB_DATA_RECEIVE_RES_HANDLED, w)
         else deliver w)"

subsection \<open>Diagnostics\<close>

definition diag_sent_cb :: "cn_env \<Rightarrow> bool \<Rightarrow> control_node \<Rightarrow> control_node" where
  "diag_sent_cb env success w =
     (let d = cn_diag_info w
      in w\<lparr>cn_diag_info :=
           if success
           then d\<lparr>di_success := di_success d + 1, di_send_time_us := getTimeDiffUs (ce_time env) (now_hp (cn_sched w)) (di_send_time_us d)\<rparr>
           else d\<lparr>di_error := di_error d + 1, di_send_time_us := 0xFFFFFFFF\<rparr>\<rparr>)"

text \<open>\<open>control_diag_t\<close>, packed.\<close>

definition diag_bytes :: "u8 \<Rightarrow> u8 \<Rightarrow> diag_info \<Rightarrow> u8 list" where
  "diag_bytes proc stored d =
     [proc, stored] @ le_bytes (ucast (di_success d)) 2 @ le_bytes (ucast (di_error d)) 2 @ le_bytes (di_send_time_us d) 4"

definition diag_packet :: "u8 list \<Rightarrow> u32 \<Rightarrow> data_to_send" where
  "diag_packet bs dest =
     \<lparr>ds_bytes = bs, ds_dest_address = dest, ds_delay = 0, ds_tracking_id = 0xFFFF, ds_qos = 0, ds_flags = 0,
      ds_src_endpoint = CONTROL_DIAG_EP, ds_dest_endpoint = CONTROL_DIAG_EP, ds_hop_limit = 0, ds_fragment_info = None\<rparr>"

definition diagnostic_task :: "cn_env \<Rightarrow> control_node \<Rightarrow> u32 \<times> control_node" where
  "diagnostic_task env w =
     (if cn_state w = CTRL_STATE_UNINIT then (APP_SCHEDULER_STOP_TASK, w)
      else
        let bs = diag_bytes (ce_getProcessedSeq env) (ce_getSeq env) (cn_diag_info w);
            (ok, w) = da_sendData env (diag_packet bs (get_da_router_address env 0)) w;
            d = cn_diag_info w;
            d = (if ok then d\<lparr>di_send_time_us := now_hp (cn_sched w)\<rparr>
                 else d\<lparr>di_error := di_error d + 1, di_send_time_us := 0xFFFFFFFF\<rparr>)
        in (cc_diag_period_ms (cn_conf w), w\<lparr>cn_diag_info := d\<rparr>))"

subsection \<open>Initialisation\<close>

definition Control_Node_init :: "cn_env \<Rightarrow> control_node_conf \<Rightarrow> control_node \<Rightarrow> control_node_ret \<times> control_node" where
  "Control_Node_init env conf w =
     (let conf = (if cc_diag_period_ms conf < MIN_DIAG_PERIOD_MS then conf\<lparr>cc_diag_period_ms := APP_SCHEDULER_STOP_TASK\<rparr> else conf)
      in if fst (ce_getNodeRole env) \<noteq> APP_RES_OK then (CONTROL_RET_INVALID_ROLE, w)
      else if snd (ce_getNodeRole env) \<noteq> ROLE_ADVERTISER then (CONTROL_RET_INVALID_ROLE, w)
      else
        let w = w\<lparr>cn_conf := conf, cn_diag_info := \<lparr>di_success = 0, di_error = 0, di_send_time_us = 0\<rparr>\<rparr>
        in if ce_setOptions env \<noteq> APP_RES_OK then (CONTROL_RET_ERROR, w)
        else if ce_setQueuingTimeHp env (cc_packet_ttl_ms conf) \<noteq> APP_RES_OK then (CONTROL_RET_ERROR, w)
        else if ce_addDataReceivedCb env \<noteq> APP_RES_OK then (CONTROL_RET_ERROR, w)
        else
          let w = cn_event Da_filter_added w;
              (ok, w) = (if cc_diag_period_ms conf \<noteq> APP_SCHEDULER_STOP_TASK
                         then cn_addTask env ''diagnostic_task'' (cc_diag_period_ms conf) 60 w else (True, w))
          in if \<not> ok then (CONTROL_RET_ERROR, w)
             else (CONTROL_RET_OK, if cn_state w = CTRL_STATE_UNINIT then w\<lparr>cn_state := CTRL_STATE_IDLE\<rparr> else w))"

subsection \<open>Router\<close>

text \<open>The diagnostics of an advertiser are forwarded with its address in front.  The copy
  takes the size of \<open>control_diag_t\<close>, whatever the size of the packet.\<close>

record control_router =
  cr_ack_gen_cb :: "nat option"
  cr_initialized :: bool
  cr_sent :: "data_to_send list"

definition forwarded_diag :: "u32 \<Rightarrow> u8 list \<Rightarrow> u8 list option" where
  "forwarded_diag src_address bytes = do { d \<leftarrow> rd_bytes bytes 0 10; Some (le_bytes src_address 4 @ d) }"

definition data_received_router :: "u32 \<Rightarrow> u8 list \<Rightarrow> control_router \<Rightarrow> (data_receive_res \<times> control_router) option" where
  "data_received_router src_address bytes r =
     (if \<not> cr_initialized r then Some (APP_LIB_DATA_RECEIVE_RES_NOT_FOR_APP, r)
      else do {
        bs \<leftarrow> forwarded_diag src_address bytes;
        Some (APP_LIB_DATA_RECEIVE_RES_HANDLED, r\<lparr>cr_sent := cr_sent r @ [diag_packet bs APP_ADDR_ANYSINK]\<rparr>)
      })"

definition Control_Router_init :: "app_res \<Rightarrow> app_res \<Rightarrow> nat option \<Rightarrow> control_router \<Rightarrow> control_node_ret \<times> control_router" where
  "Control_Router_init role_res add_res ack_gen_cb r =
     (if ack_gen_cb = None then (CONTROL_RET_INVALID_PARAM, r)
      else if role_res \<noteq> APP_RES_OK then (CONTROL_RET_INVALID_ROLE, r)
      else
        let r = r\<lparr>cr_ack_gen_cb := ack_gen_cb\<rparr>
        in if add_res \<noteq> APP_RES_OK then (CONTROL_RET_ERROR, r) else (CONTROL_RET_OK, r\<lparr>cr_initialized := True\<rparr>))"

end
