(* ===== verification/Control_Props.thy ===== *)
theory Control_Props
  imports Control_Node
begin

text \<open>
  Properties of the control node: which router it chooses, that every accepted packet is
  reported once to its sender, and the diagnostics forwarded by a router.
\<close>

subsection \<open>Choice of a router\<close>

text \<open>Each of the two searches of the loop, on its own.\<close>

fun best_scan :: "(da_nbor \<Rightarrow> bool) \<Rightarrow> da_nbor list \<Rightarrow> nat \<Rightarrow> int \<Rightarrow> nat \<Rightarrow> nat" where
  "best_scan P [] i m k = k"
| "best_scan P (n # ns) i m k =
     (if P n \<and> sint (dn_norm_rssi n) > m then best_scan P ns (i + 1) (sint (dn_norm_rssi n)) i else best_scan P ns (i + 1) m k)"

definition capable :: "u32 \<Rightarrow> da_nbor \<Rightarrow> bool" where
  "capable exclude n \<longleftrightarrow> dn_address n \<noteq> exclude \<and> dn_diradv_support n"

definition recent :: "da_nbor \<Rightarrow> bool" where
  "recent n \<longleftrightarrow> dn_last_update n < 60"

lemma router_scan_split:
  "router_scan ex ns i mi ii ma ia = (best_scan (\<lambda>n. capable ex n \<and> recent n) ns i mi ii, best_scan (capable ex) ns i ma ia)"
  by (induction ex ns i mi ii ma ia rule: router_scan.induct)
    (simp_all add: Let_def capable_def recent_def NBOR_MAX_TIME_LAST_SEEN_def)

lemma best_scan_spec:
  "(best_scan P ns i m k = k \<and> (\<forall>n\<in>set ns. P n \<longrightarrow> sint (dn_norm_rssi n) \<le> m)) \<or>
   (\<exists>j<length ns. best_scan P ns i m k = i + j \<and> P (ns ! j) \<and> m < sint (dn_norm_rssi (ns ! j)) \<and>
      (\<forall>n\<in>set ns. P n \<longrightarrow> sint (dn_norm_rssi n) \<le> sint (dn_norm_rssi (ns ! j))))"
proof (induction P ns i m k rule: best_scan.induct)
  case (2 P n ns i m k)
  show ?case
  proof (cases "P n \<and> m < sint (dn_norm_rssi n)")
    case True
    with 2(1) show ?thesis by (fastforce intro: exI [of _ "Suc _"])
  next
    case False
    from 2(2) [OF False] show ?thesis
    proof (elim disjE exE conjE)
      fix j assume "j < length ns" "best_scan P ns (i + 1) m k = i + 1 + j" "P (ns ! j)" "m < sint (dn_norm_rssi (ns ! j))"
        "\<forall>n\<in>set ns. P n \<longrightarrow> sint (dn_norm_rssi n) \<le> sint (dn_norm_rssi (ns ! j))"
      then show ?thesis using False by (intro disjI2 exI [of _ "Suc j"]) auto
    qed (use False in auto)
  qed
qed simp

text \<open>A router with the best signal among those with \<open>P\<close>; a signal of -128 is none.\<close>

definition best :: "(da_nbor \<Rightarrow> bool) \<Rightarrow> da_nbor list \<Rightarrow> u32 \<Rightarrow> bool" where
  "best P ns a \<longleftrightarrow> (\<exists>n\<in>set ns. a = dn_address n \<and> P n \<and> -128 < sint (dn_norm_rssi n) \<and>
     (\<forall>n'\<in>set ns. P n' \<longrightarrow> sint (dn_norm_rssi n') \<le> sint (dn_norm_rssi n)))"

definition audible :: "(da_nbor \<Rightarrow> bool) \<Rightarrow> da_nbor list \<Rightarrow> bool" where
  "audible P ns \<longleftrightarrow> (\<exists>n\<in>set ns. P n \<and> -128 < sint (dn_norm_rssi n))"

lemma best_scan_best:
  assumes "length ns \<le> 10" "best_scan P ns 0 (-128) 10 = j"
  shows "if audible P ns then j \<noteq> 10 \<and> best P ns (dn_address (ns ! j)) else j = 10"
  using best_scan_spec [of P ns 0 "-128" 10] assms unfolding best_def audible_def by (fastforce simp: not_less)

text \<open>C27: with the ten neighbors the stack can return, the packet goes to a router that
  supports it and has the best signal of those heard in the last minute, else the best signal
  of all; 0 is returned exactly when there is none with a signal above -128.  The excluded
  address is not returned, so that the backup router differs from the first one.\<close>

theorem best_router_chosen:
  assumes "length (ce_nbors env) \<le> 10"
  shows "let a = get_da_router_address env ex; P = capable ex; ns = ce_nbors env in
     (if audible (\<lambda>n. P n \<and> recent n) ns then best (\<lambda>n. P n \<and> recent n) ns a \<and> a \<noteq> ex
      else if audible P ns then best P ns a \<and> a \<noteq> ex else a = 0)"
proof -
  have "\<not> best (\<lambda>n. capable ex n \<and> recent n) ns ex" "\<not> best (capable ex) ns ex" for ns by (auto simp: best_def capable_def)
  then show ?thesis
    using best_scan_best [OF assms HOL.refl, of "capable ex"] best_scan_best [OF assms HOL.refl, of "\<lambda>n. capable ex n \<and> recent n"]
    by (auto simp: get_da_router_address_def router_scan_split MAX_NBORS_def NO_ROUTE_FOUND_ADDRESS_def Let_def)
qed

definition nbors_example :: "da_nbor list" where
  "nbors_example =
     [\<lparr>dn_address = 5, dn_last_update = 90, dn_norm_rssi = -40, dn_diradv_support = True\<rparr>,
      \<lparr>dn_address = 6, dn_last_update = 10, dn_norm_rssi = -70, dn_diradv_support = True\<rparr>,
      \<lparr>dn_address = 7, dn_last_update = 10, dn_norm_rssi = -50, dn_diradv_support = False\<rparr>]"

definition cn_env_example :: "da_nbor list \<Rightarrow> (u32 \<Rightarrow> bool) \<Rightarrow> (nat \<Rightarrow> sent_status \<Rightarrow> (data_to_send \<times> nat option) option) \<Rightarrow> cn_env" where
  "cn_env_example ns accepts user =
     \<lparr>ce_time = us_clock, ce_nbors = ns,
      ce_send = (\<lambda>d. if accepts (ds_dest_address d) then APP_LIB_DATA_SEND_RES_SUCCESS else APP_LIB_DATA_SEND_RES_INVALID_DEST_ADDRESS),
      ce_user = user, ce_getNodeRole = (APP_RES_OK, 4), ce_setOptions = APP_RES_OK, ce_setQueuingTimeHp = (\<lambda>_. APP_RES_OK),
      ce_addDataReceivedCb = APP_RES_OK, ce_getProcessedSeq = 1, ce_getSeq = 2\<rparr>"

text \<open>The only router heard in the last minute has a worse signal than an older one.\<close>

theorem best_router_chosen_witness:
  "get_da_router_address (cn_env_example nbors_example (\<lambda>_. True) (\<lambda>_ _. None)) 0 = 6"
proof -
  let ?env = "cn_env_example nbors_example (\<lambda>_. True) (\<lambda>_ _. None)"
  have l: "length (ce_nbors ?env) \<le> 10" by (simp add: cn_env_example_def nbors_example_def)
  have "audible (\<lambda>n. capable 0 n \<and> recent n) (ce_nbors ?env)"
    by (simp add: audible_def capable_def recent_def cn_env_example_def nbors_example_def)
  with best_router_chosen [OF l, of 0] have "best (\<lambda>n. capable 0 n \<and> recent n) (ce_nbors ?env) (get_da_router_address ?env 0)"
    by (simp add: Let_def)
  then show ?thesis by (auto simp: best_def capable_def recent_def cn_env_example_def nbors_example_def)
qed

subsection \<open>Tasks\<close>

text \<open>A task that may run: its slot is neither removed nor updated since it was selected.
  After it returned \<open>APP_SCHEDULER_STOP_TASK\<close> the scheduler frees its slot, or leaves it as
  calls made by the task have left it (\<open>perform_task\<close>).\<close>

definition may_run :: "string \<Rightarrow> string sched \<Rightarrow> nat \<Rightarrow> bool" where
  "may_run f s i \<longleftrightarrow> i < length (m_tasks s) \<and> t_func (m_tasks s ! i) = Some f \<and> \<not> t_removed (m_tasks s ! i) \<and> \<not> t_updated (m_tasks s ! i)"

definition task_done :: "lib_time \<Rightarrow> nat \<Rightarrow> u32 \<times> control_node \<Rightarrow> control_node" where
  "task_done lt i r = (case r of (nxt, w) \<Rightarrow> w\<lparr>cn_sched := perform_task lt (\<lambda>_. ([], nxt)) (cn_sched w) (Some i)\<rparr>)"

lemma cancel_always_cancels:
  assumes "sched_core s"
  shows "cancelled f (snd (App_Scheduler_cancelTask s (Some f)))"
proof (cases rule: cancel_cases [of s "Some f"])
  case uninit
  then have "\<not> live s i" for i using core_live_init [OF assms] by blast
  then show ?thesis using uninit(2) by (auto simp: cancelled_def live_def)
next
  case (marked i)
  then show ?thesis using cancel_cancelled [OF assms, of f] by simp
next
  case unknown
  then show ?thesis by (simp add: cancelled_def)
qed

lemma cancel_other: "cancelled g s \<Longrightarrow> cancelled g (snd (App_Scheduler_cancelTask s cb))"
  using cancelled_exec_call [of g s "Cancel cb"] by simp

lemma add_other: "cancelled g s \<Longrightarrow> cb \<noteq> Some g \<Longrightarrow> cancelled g (snd (App_Scheduler_addTask_execTime lt s cb d e))"
  using cancelled_exec_call [of g s "Add cb d e" lt] by simp

lemma done_other: "cancelled g s \<Longrightarrow> cancelled g (perform_task lt (\<lambda>_. ([], nxt)) s task)"
  by (rule cancelled_perform) simp_all

lemma done_cancels:
  assumes "sched_core s" "i < length (m_tasks s)" "t_func (m_tasks s ! i) = Some f" "\<not> t_updated (m_tasks s ! i) \<or> t_removed (m_tasks s ! i)"
  shows "cancelled f (perform_task lt (\<lambda>_. ([], APP_SCHEDULER_STOP_TASK)) s (Some i))"
proof -
  have u: "j = i" if "j < length (m_tasks s)" "t_func (m_tasks s ! j) = Some f" for j
    using core_distinct [OF assms(1), of j i] assms(2,3) that by (simp add: live_def)
  show ?thesis
  proof (cases "t_removed (m_tasks s ! i)")
    case True
    then show ?thesis using assms(3) u by (auto simp: perform_task_def exec_calls_def cancelled_def)
  next
    case False
    then have "perform_task lt (\<lambda>_. ([], APP_SCHEDULER_STOP_TASK)) s (Some i) = set_task s i ((m_tasks s ! i)\<lparr>t_func := None\<rparr>)"
      using assms(3,4) by (simp add: perform_task_def exec_calls_def)
    then show ?thesis using u by (auto simp: cancelled_def set_task_nth)
  qed
qed

text \<open>Cancelling another task and adding another task leave the slot of a task alone.\<close>

lemma cancel_slot:
  assumes "may_run f s i" "g \<noteq> f"
  shows "may_run f (snd (App_Scheduler_cancelTask s (Some g))) i"
proof (cases rule: cancel_cases [of s "Some g"])
  case (marked j)
  then have "j \<noteq> i" using assms by (auto simp: may_run_def)
  then show ?thesis using assms marked by (simp add: may_run_def set_task_nth)
qed (use assms in simp_all)

subsection \<open>Every accepted packet is reported once\<close>

text \<open>A user whose callbacks do not send.\<close>

definition quiet_user :: "cn_env \<Rightarrow> bool" where
  "quiet_user env \<longleftrightarrow> (\<forall>cb st. ce_user env cb st = None)"

fun is_report :: "cn_event \<Rightarrow> bool" where
  "is_report (Da_sent_cb _ _) = True"
| "is_report _ = False"

definition reports :: "control_node \<Rightarrow> nat" where
  "reports w = length (filter is_report (cn_log w))"

definition waiting :: "control_node \<Rightarrow> bool" where
  "waiting w \<longleftrightarrow> cn_state w = CTRL_STATE_BUSY \<and> cn_sent_cb w \<noteq> None"

text \<open>The runs of the library, with the number of accepted packets that have a callback: its
  own functions, the calls of the stack, and the scheduler used by others.  A report of the
  stack is about a router of the packet on its way.\<close>

inductive cn_reach :: "control_node \<Rightarrow> nat \<Rightarrow> bool" where
  boot: "cn_state w = CTRL_STATE_UNINIT \<Longrightarrow> cn_log w = [] \<Longrightarrow> sched_core (cn_sched w) \<Longrightarrow>
    cancelled ''reset_task'' (cn_sched w) \<Longrightarrow> cancelled ''backup_route_task'' (cn_sched w) \<Longrightarrow> cn_reach w 0"
| init: "cn_reach w k \<Longrightarrow> cn_reach (snd (Control_Node_init env conf w)) k"
| send: "cn_reach w k \<Longrightarrow> Control_Node_send env null data cb w = (r, w') \<Longrightarrow>
    cn_reach w' (if r = CONTROL_RET_OK \<and> cb \<noteq> None then k + 1 else k)"
| sent: "cn_reach w k \<Longrightarrow> quiet_user env \<Longrightarrow> ss_dest_address status \<in> {sh_address (cn_h0 w), sh_address (cn_h1 w)} \<Longrightarrow>
    cn_reach (packet_sent_cb env status w) k"
| reset: "cn_reach w k \<Longrightarrow> quiet_user env \<Longrightarrow> may_run ''reset_task'' (cn_sched w) i \<Longrightarrow>
    cn_reach (task_done (ce_time env) i (reset_task env w)) k"
| backup: "cn_reach w k \<Longrightarrow> quiet_user env \<Longrightarrow> may_run ''backup_route_task'' (cn_sched w) i \<Longrightarrow>
    cn_reach (task_done (ce_time env) i (backup_route_task env w)) k"
| diag: "cn_reach w k \<Longrightarrow> may_run ''diagnostic_task'' (cn_sched w) i \<Longrightarrow>
    cn_reach (task_done (ce_time env) i (diagnostic_task env w)) k"
| diag_sent: "cn_reach w k \<Longrightarrow> cn_reach (diag_sent_cb env success w) k"
| ack: "cn_reach w k \<Longrightarrow> cn_reach (snd (ack_received src bytes w)) k"
| other: "cn_reach w k \<Longrightarrow> \<not> adds ''reset_task'' c \<Longrightarrow> \<not> adds ''backup_route_task'' c \<Longrightarrow>
    cn_reach (w\<lparr>cn_sched := exec_call lt c (cn_sched w)\<rparr>) k"
| select: "cn_reach w k \<Longrightarrow> cn_reach (w\<lparr>cn_sched := select_next lt (cn_sched w)\<rparr>) k"

definition cn_inv :: "control_node \<Rightarrow> nat \<Rightarrow> bool" where
  "cn_inv w k \<longleftrightarrow> sched_core (cn_sched w) \<and>
     (cn_state w \<noteq> CTRL_STATE_BUSY \<longrightarrow> cancelled ''reset_task'' (cn_sched w) \<and> cancelled ''backup_route_task'' (cn_sched w)) \<and>
     (sh_end (cn_h0 w) \<longrightarrow> cancelled ''backup_route_task'' (cn_sched w)) \<and>
     reports w + (if waiting w then 1 else 0) = k"

lemma call_quiet:
  "quiet_user env \<Longrightarrow> call_sent_cb env st w =
     (case cn_sent_cb w of None \<Rightarrow> w | Some cb \<Rightarrow> w\<lparr>cn_log := cn_log w @ [Da_sent_cb cb st], cn_sent_cb := None\<rparr>)"
  by (simp add: call_sent_cb_def quiet_user_def cn_event_def split: option.split)

lemmas cn_ops = cn_cancelTask_def cn_event_def da_sendData_def reports_def waiting_def

lemma cn_addTask_eq:
  "cn_addTask env f d e w =
     (fst (App_Scheduler_addTask_execTime (ce_time env) (cn_sched w) (Some f) d e) = APP_SCHEDULER_RES_OK,
      w\<lparr>cn_sched := snd (App_Scheduler_addTask_execTime (ce_time env) (cn_sched w) (Some f) d e)\<rparr>)"
  by (simp add: cn_addTask_def split_def)

text \<open>An operation that leaves the packet on its way alone.\<close>

definition same_packet :: "control_node \<Rightarrow> control_node \<Rightarrow> bool" where
  "same_packet w w' \<longleftrightarrow> sh_end (cn_h0 w') = sh_end (cn_h0 w) \<and> cn_sent_cb w' = cn_sent_cb w \<and> reports w' = reports w \<and>
     (cn_state w' = CTRL_STATE_BUSY \<longleftrightarrow> cn_state w = CTRL_STATE_BUSY)"

lemma inv_same_packet:
  assumes "cn_inv w k" "same_packet w w'" "sched_core (cn_sched w')"
    and "\<And>f. f \<in> {''reset_task'', ''backup_route_task''} \<Longrightarrow> cancelled f (cn_sched w) \<Longrightarrow> cancelled f (cn_sched w')"
  shows "cn_inv w' k"
  using assms unfolding cn_inv_def same_packet_def waiting_def by simp

lemma init_effect:
  "same_packet w (snd (Control_Node_init env conf w)) \<and>
   (cn_sched (snd (Control_Node_init env conf w)) = cn_sched w \<or>
    (\<exists>d. cn_sched (snd (Control_Node_init env conf w)) =
       snd (App_Scheduler_addTask_execTime (ce_time env) (cn_sched w) (Some ''diagnostic_task'') d 60)))"
  by (simp add: Control_Node_init_def Let_def cn_addTask_eq same_packet_def reports_def cn_event_def) blast

lemma inv_init:
  assumes "cn_inv w k"
  shows "cn_inv (snd (Control_Node_init env conf w)) k"
proof (rule inv_same_packet [OF assms])
  have core: "sched_core (cn_sched w)" using assms by (simp add: cn_inv_def)
  show "same_packet w (snd (Control_Node_init env conf w))" using init_effect by blast
  show "sched_core (cn_sched (snd (Control_Node_init env conf w)))" using init_effect [of w env conf] core add_core by auto
  show "cancelled f (cn_sched (snd (Control_Node_init env conf w)))" if "f \<in> {''reset_task'', ''backup_route_task''}" "cancelled f (cn_sched w)" for f
    using init_effect [of w env conf] that add_other [of f] by auto
qed

lemma inv_send:
  assumes "cn_inv w k" "Control_Node_send env null data cb w = (r, w')"
  shows "cn_inv w' (if r = CONTROL_RET_OK \<and> cb \<noteq> None then k + 1 else k)"
proof (cases "cn_state w = CTRL_STATE_IDLE \<and> \<not> (null \<or> length (ds_bytes data) = 0 \<or> length (ds_bytes data) > MAX_PAYLOAD)")
  case True
  have inv: "sched_core (cn_sched w)" "cancelled ''reset_task'' (cn_sched w)" "cancelled ''backup_route_task'' (cn_sched w)" "reports w = k"
    using assms(1) True by (simp_all add: cn_inv_def waiting_def)
  have other: "cancelled ''backup_route_task'' (snd (App_Scheduler_addTask_execTime (ce_time env) (cn_sched w) (Some ''reset_task'') d e))" for d e
    using inv(3) by (rule add_other) simp
  have w': "w' = snd (Control_Node_send env null data cb w)" and r: "r = fst (Control_Node_send env null data cb w)" using assms(2) by simp_all
  define a0 where "a0 = get_da_router_address env 0"
  define a1 where "a1 = get_da_router_address env a0"
  define ok0 where "ok0 = (ce_send env (data\<lparr>ds_dest_address := a0\<rparr>) = APP_LIB_DATA_SEND_RES_SUCCESS)"
  define ok1 where "ok1 = (ce_send env (data\<lparr>ds_dest_address := a1\<rparr>) = APP_LIB_DATA_SEND_RES_SUCCESS)"
  note defs = Control_Node_send_def Let_def cn_addTask_eq da_sendData_def cn_event_def fresh_handle_def a0_def [symmetric] a1_def [symmetric]
    ok0_def [symmetric] ok1_def [symmetric] NO_ROUTE_FOUND_ADDRESS_def
  show ?thesis
    unfolding cn_inv_def w' r
    by (cases ok0; cases ok1; cases "a1 = 0")
      (simp_all add: defs True inv other add_core [OF inv(1)] add_core [OF add_core [OF inv(1)]] reports_def [symmetric] waiting_def, simp_all add: reports_def inv [unfolded reports_def])
next
  case False
  then have "w' = w" "r \<noteq> CONTROL_RET_OK" using assms(2) by (auto simp: Control_Node_send_def split: if_splits)
  then show ?thesis using assms(1) by simp
qed

text \<open>While the packet is on its way.\<close>

definition busy_inv :: "control_node \<Rightarrow> nat \<Rightarrow> bool" where
  "busy_inv w k \<longleftrightarrow> sched_core (cn_sched w) \<and> (sh_end (cn_h0 w) \<longrightarrow> cancelled ''backup_route_task'' (cn_sched w)) \<and>
     reports w + (if cn_sent_cb w \<noteq> None then 1 else 0) = k"

lemma busy_inv_eq: "cn_state w = CTRL_STATE_BUSY \<Longrightarrow> cn_inv w k = busy_inv w k"
  by (simp add: cn_inv_def busy_inv_def waiting_def)

lemma busy_call: "quiet_user env \<Longrightarrow> busy_inv w k \<Longrightarrow> busy_inv (call_sent_cb env st w) k \<and> cn_sent_cb (call_sent_cb env st w) = None \<and>
    cn_h0 (call_sent_cb env st w) = cn_h0 w \<and> cn_h1 (call_sent_cb env st w) = cn_h1 w \<and>
    cn_sched (call_sent_cb env st w) = cn_sched w \<and> cn_state (call_sent_cb env st w) = cn_state w"
  by (cases "cn_sent_cb w") (simp_all add: call_quiet busy_inv_def reports_def)

lemma busy_cancel:
  "busy_inv w k \<Longrightarrow> busy_inv (cn_cancelTask f w) k" "cn_state (cn_cancelTask f w) = cn_state w" "cn_h0 (cn_cancelTask f w) = cn_h0 w"
  "cn_h1 (cn_cancelTask f w) = cn_h1 w" "cn_sent_cb (cn_cancelTask f w) = cn_sent_cb w"
  "sched_core (cn_sched w) \<Longrightarrow> cancelled f (cn_sched (cn_cancelTask f w))"
  "cancelled g (cn_sched w) \<Longrightarrow> cancelled g (cn_sched (cn_cancelTask f w))"
  by (auto simp: busy_inv_def cn_cancelTask_def cancel_core cancel_other cancel_always_cancels reports_def)

lemma busy_h1: "busy_inv (w\<lparr>cn_h1 := h\<rparr>) k = busy_inv w k"
  by (simp add: busy_inv_def reports_def)

lemma busy_backup: "busy_inv w k \<Longrightarrow> busy_inv (send_backup env w) k" "cn_state (send_backup env w) = cn_state w"
  "cn_h0 (send_backup env w) = cn_h0 w" "cn_sched (send_backup env w) = cn_sched w"
  by (simp_all add: send_backup_def Let_def da_sendData_def cn_event_def busy_inv_def reports_def)

text \<open>The end of a session: nothing waits and no task of the packet is left.\<close>

lemma inv_idle:
  assumes "busy_inv w k" "cn_sent_cb w = None" "cancelled ''reset_task'' (cn_sched w)" "cancelled ''backup_route_task'' (cn_sched w)"
  shows "cn_inv (w\<lparr>cn_state := CTRL_STATE_IDLE\<rparr>) k"
  using assms by (simp add: cn_inv_def busy_inv_def waiting_def reports_def)

lemma inv_conclude:
  fixes status :: sent_status
  assumes "quiet_user env" "busy_inv w k" "cn_state w = CTRL_STATE_BUSY"
  defines "v \<equiv> if ss_success status \<or> sh_end (cn_h0 w) \<and> sh_end (cn_h1 w) then call_sent_cb env status w else w"
  shows "cn_inv (if sh_end (cn_h0 v) \<and> sh_end (cn_h1 v) then (cn_cancelTask ''reset_task'' v)\<lparr>cn_state := CTRL_STATE_IDLE\<rparr> else v) k"
proof -
  note c = busy_call [OF assms(1,2), of status]
  have v: "busy_inv v k" "cn_state v = CTRL_STATE_BUSY" "cn_h0 v = cn_h0 w" "cn_h1 v = cn_h1 w" using c assms(2,3) by (simp_all add: v_def)
  show ?thesis
  proof (cases "sh_end (cn_h0 v) \<and> sh_end (cn_h1 v)")
    case True
    then have "cn_sent_cb v = None" using c v(3,4) by (simp add: v_def)
    moreover have "sched_core (cn_sched v)" "cancelled ''backup_route_task'' (cn_sched v)" using v(1) True by (simp_all add: busy_inv_def)
    ultimately have "cn_inv ((cn_cancelTask ''reset_task'' v)\<lparr>cn_state := CTRL_STATE_IDLE\<rparr>) k"
      using busy_cancel(1) [OF v(1)] by (intro inv_idle) (simp_all add: busy_cancel)
    then show ?thesis using True by simp
  qed (use v busy_inv_eq in auto)
qed

lemma inv_sent:
  assumes "cn_inv w k" "quiet_user env" "ss_dest_address status \<in> {sh_address (cn_h0 w), sh_address (cn_h1 w)}"
  shows "cn_inv (packet_sent_cb env status w) k"
proof (cases "cn_state w = CTRL_STATE_BUSY")
  case True
  then have b: "busy_inv w k" using assms(1) busy_inv_eq by blast
  let ?u = "cn_cancelTask ''backup_route_task'' (w\<lparr>cn_h0 := (cn_h0 w)\<lparr>sh_end := True\<rparr>\<rparr>)"
  have u: "busy_inv ?u k"
    using b by (simp add: busy_inv_def cn_cancelTask_def reports_def cancel_core cancel_always_cancels)
  have us: "cn_state ?u = CTRL_STATE_BUSY" using True by (simp add: busy_cancel)
  define w1 where "w1 = (if ss_dest_address status = sh_address (cn_h0 w)
                 then if \<not> sh_sent (cn_h1 ?u)
                      then if ss_success status then ?u\<lparr>cn_h1 := (cn_h1 ?u)\<lparr>sh_end := True\<rparr>\<rparr> else send_backup env ?u
                      else ?u
                 else w\<lparr>cn_h1 := (cn_h1 w)\<lparr>sh_end := True\<rparr>\<rparr>)"
  have "busy_inv w1 k" using b u by (simp add: w1_def busy_h1 busy_backup(1))
  moreover have "cn_state w1 = CTRL_STATE_BUSY" using True us by (simp add: w1_def busy_backup(2))
  moreover have "packet_sent_cb env status w =
      (let v = (if ss_success status \<or> sh_end (cn_h0 w1) \<and> sh_end (cn_h1 w1) then call_sent_cb env status w1 else w1)
       in if sh_end (cn_h0 v) \<and> sh_end (cn_h1 v) then (cn_cancelTask ''reset_task'' v)\<lparr>cn_state := CTRL_STATE_IDLE\<rparr> else v)"
  proof -
    have "(if ss_dest_address status = sh_address (cn_h0 w)
           then let w = ?u in if \<not> sh_sent (cn_h1 w)
                then if ss_success status then w\<lparr>cn_h1 := (cn_h1 w)\<lparr>sh_end := True\<rparr>\<rparr> else send_backup env w else w
           else if ss_dest_address status = sh_address (cn_h1 w) then w\<lparr>cn_h1 := (cn_h1 w)\<lparr>sh_end := True\<rparr>\<rparr>
           else w\<lparr>cn_h0 := (cn_h0 w)\<lparr>sh_end := True, sh_ack := True\<rparr>, cn_h1 := (cn_h1 w)\<lparr>sh_end := True, sh_ack := True\<rparr>\<rparr>) = w1"
      using assms(3) by (auto simp: w1_def Let_def)
    then show ?thesis unfolding packet_sent_cb_def by (simp only: True not_True_eq_False if_False simp_thms) (simp only: Let_def)
  qed
  ultimately show ?thesis using inv_conclude [OF assms(2)] by (simp only: Let_def)
qed (use assms in \<open>simp add: packet_sent_cb_def\<close>)

lemma inv_done:
  assumes "cn_inv w k"
  shows "cn_inv (w\<lparr>cn_sched := perform_task lt (\<lambda>_. ([], nxt)) (cn_sched w) (Some i)\<rparr>) k"
  using assms by (auto simp: cn_inv_def waiting_def reports_def perform_core done_other)

lemma may_run_not_cancelled: "may_run f s i \<Longrightarrow> \<not> cancelled f s"
  by (auto simp: may_run_def cancelled_def)

lemma inv_reset:
  assumes "cn_inv w k" "quiet_user env" "may_run ''reset_task'' (cn_sched w) i"
  shows "cn_inv (task_done (ce_time env) i (reset_task env w)) k"
proof -
  have busy: "cn_state w = CTRL_STATE_BUSY" using assms(1,3) may_run_not_cancelled by (auto simp: cn_inv_def)
  then have b: "busy_inv w k" using assms(1) busy_inv_eq by blast
  let ?s = "snd (App_Scheduler_cancelTask (cn_sched w) (Some ''backup_route_task''))"
  let ?d = "perform_task (ce_time env) (\<lambda>_. ([], APP_SCHEDULER_STOP_TASK)) ?s (Some i)"
  have core: "sched_core ?s" using b by (simp add: busy_inv_def cancel_core)
  have run: "may_run ''reset_task'' ?s i" using cancel_slot [OF assms(3)] by simp
  have "cancelled ''reset_task'' ?d" using run by (intro done_cancels [OF core]) (simp_all add: may_run_def)
  moreover have "cancelled ''backup_route_task'' ?d" using b by (intro done_other cancel_always_cancels) (simp add: busy_inv_def)
  moreover have "sched_core ?d" using core by (rule perform_core)
  ultimately show ?thesis using b assms(2)
    by (cases "cn_sent_cb w") (simp_all add: task_done_def reset_task_def Let_def cn_cancelTask_def call_quiet cn_inv_def busy_inv_def waiting_def
      reports_def)
qed

lemma inv_backup:
  assumes "cn_inv w k" "quiet_user env" "may_run ''backup_route_task'' (cn_sched w) i"
  shows "cn_inv (task_done (ce_time env) i (backup_route_task env w)) k"
proof -
  have busy: "cn_state w = CTRL_STATE_BUSY" "\<not> sh_end (cn_h0 w)" using assms(1,3) may_run_not_cancelled by (auto simp: cn_inv_def)
  then have "busy_inv w k" using assms(1) busy_inv_eq by blast
  then have "cn_inv (send_backup env w) k" using busy by (simp add: busy_inv_eq busy_backup)
  from inv_done [OF this, of "ce_time env" APP_SCHEDULER_STOP_TASK i] show ?thesis
    using busy by (simp add: task_done_def backup_route_task_def Let_def busy_backup)
qed

lemma inv_diag:
  assumes "cn_inv w k"
  shows "cn_inv (task_done (ce_time env) i (diagnostic_task env w)) k"
proof -
  obtain nxt v where v: "diagnostic_task env w = (nxt, v)" by fastforce
  have "same_packet w v \<and> cn_sched v = cn_sched w"
    using v by (auto simp: diagnostic_task_def Let_def da_sendData_def cn_event_def same_packet_def reports_def split: if_splits)
  then have "cn_inv v k" using assms by (intro inv_same_packet [OF assms]) (simp_all add: cn_inv_def)
  from inv_done [OF this] show ?thesis by (simp add: task_done_def v)
qed

lemma inv_ack:
  assumes "cn_inv w k"
  shows "cn_inv (snd (ack_received src bytes w)) k"
proof -
  have "same_packet w (snd (ack_received src bytes w)) \<and> cn_sched (snd (ack_received src bytes w)) = cn_sched w"
    by (cases "cc_ack_cb (cn_conf w)") (simp_all add: ack_received_def Let_def same_packet_def reports_def cn_event_def)
  then show ?thesis using assms by (intro inv_same_packet [OF assms]) (simp_all add: cn_inv_def)
qed

lemma cn_reach_inv: "cn_reach w k \<Longrightarrow> cn_inv w k"
proof (induction rule: cn_reach.induct)
  case (boot w)
  then show ?case by (simp add: cn_inv_def waiting_def reports_def)
next
  case (diag_sent w k env success)
  then show ?case by (simp add: diag_sent_cb_def Let_def cn_inv_def waiting_def reports_def)
next
  case (ack w k src bytes)
  then show ?case by (intro inv_ack)
next
  case (other w k c lt)
  then show ?case
    by (intro inv_same_packet [OF other.IH]) (auto simp: same_packet_def reports_def cn_inv_def exec_call_core cancelled_exec_call)
next
  case (select w k lt)
  then show ?case
    by (intro inv_same_packet [OF select.IH]) (auto simp: same_packet_def reports_def cn_inv_def select_next_inv cancelled_select_next)
next
  case (init w k env conf)
  then show ?case by (intro inv_init)
next
  case (send w k env null data cb r w')
  then show ?case by (intro inv_send)
next
  case (sent w k env status)
  then show ?case by (intro inv_sent)
next
  case (reset w k env i)
  then show ?case by (intro inv_reset)
next
  case (backup w k env i)
  then show ?case by (intro inv_backup)
next
  case (diag w k i env)
  then show ?case by (intro inv_diag)
qed

text \<open>C26: in every run in which the reports of the stack are about the packet on its way and
  callbacks do not send, every accepted packet with a callback is reported to it exactly
  once: the calls of callbacks are as many as the accepted packets, or one less while a
  packet is on its way.  No timer of a packet outlives it, and the branch of
  \<open>backup_route_task\<close> that reports a failure is never taken.\<close>

theorem packet_reported_once:
  assumes "cn_reach w k"
  shows "reports w + (if cn_state w = CTRL_STATE_BUSY \<and> cn_sent_cb w \<noteq> None then 1 else 0) = k \<and>
     (cn_state w \<noteq> CTRL_STATE_BUSY \<longrightarrow> cancelled ''reset_task'' (cn_sched w) \<and> cancelled ''backup_route_task'' (cn_sched w)) \<and>
     (may_run ''backup_route_task'' (cn_sched w) i \<longrightarrow> cn_state w = CTRL_STATE_BUSY \<and> \<not> sh_end (cn_h0 w))"
  using cn_reach_inv [OF assms] may_run_not_cancelled by (auto simp: cn_inv_def waiting_def)

definition cn_boot :: control_node where
  "cn_boot = \<lparr>cn_state = CTRL_STATE_UNINIT, cn_h0 = fresh_handle 0, cn_h1 = fresh_handle 0, cn_data = diag_packet [] 0, cn_sent_cb = None,
     cn_time_sent = 0, cn_conf = \<lparr>cc_diag_period_ms = 0, cc_packet_ttl_ms = 0, cc_ack_cb = None\<rparr>,
     cn_diag_info = \<lparr>di_success = 0, di_error = 0, di_send_time_us = 0\<rparr>, cn_sched = App_Scheduler_init us_clock (sched_boot 4), cn_log = []\<rparr>"

definition conf_example :: control_node_conf where
  "conf_example = \<lparr>cc_diag_period_ms = 60000, cc_packet_ttl_ms = 4000, cc_ack_cb = Some 9\<rparr>"

lemma cn_boot_reach: "cn_reach cn_boot 0"
proof (rule cn_reach.boot)
  have b: "cn_sched cn_boot = App_Scheduler_init us_clock (sched_boot 4)" by (simp add: cn_boot_def)
  have n: "\<not> live (App_Scheduler_init us_clock (sched_boot 4) :: string sched) i" for i
    by (simp add: live_def App_Scheduler_init_def sched_boot_def)
  show "sched_core (cn_sched cn_boot)" unfolding b
    using sched_reachable_inv [OF sched_reachable.step [OF sched_reachable.boot sched_step.init]] by blast
  have "cancelled f (cn_sched cn_boot)" for f unfolding b using n by (auto simp: cancelled_def live_def)
  then show "cancelled ''reset_task'' (cn_sched cn_boot)" "cancelled ''backup_route_task'' (cn_sched cn_boot)" by blast+
qed (simp_all add: cn_boot_def)

text \<open>A packet is accepted and waits for its report.\<close>

definition sent_example :: "control_node_ret \<times> control_node" where
  "sent_example = Control_Node_send (cn_env_example nbors_example (\<lambda>_. True) (\<lambda>_ _. None)) False (diag_packet [1, 2] 0) (Some 3)
     (snd (Control_Node_init (cn_env_example nbors_example (\<lambda>_. True) (\<lambda>_ _. None)) conf_example cn_boot))"

theorem packet_reported_once_witness:
  "reports (snd sent_example) + (if cn_state (snd sent_example) = CTRL_STATE_BUSY \<and> cn_sent_cb (snd sent_example) \<noteq> None then 1 else 0) = 1"
proof -
  have "fst sent_example = CONTROL_RET_OK" by code_simp
  then have "sent_example = (CONTROL_RET_OK, snd sent_example)" by (metis prod.collapse)
  from cn_reach.send [OF cn_reach.init [OF cn_boot_reach] this [unfolded sent_example_def]]
  have "cn_reach (snd sent_example) 1" by (simp add: sent_example_def)
  from packet_reported_once [OF this] show ?thesis by blast
qed

subsection \<open>Where a report is lost\<close>

text \<open>A failed report of the first router is answered by a second packet also when there is
  no second router: it goes to the address 0, although the session ends.\<close>

lemma second_packet_without_route:
  assumes "cn_state w = CTRL_STATE_BUSY" "sh_address (cn_h0 w) = a" "sh_address (cn_h1 w) = 0" "\<not> sh_sent (cn_h1 w)" "sh_end (cn_h1 w)"
    and "quiet_user env" "\<not> ss_success status" "ss_dest_address status = a" "ce_send env = (\<lambda>_. APP_LIB_DATA_SEND_RES_SUCCESS)"
  shows "cn_state (packet_sent_cb env status w) = CTRL_STATE_IDLE"
    and "\<exists>d. Da_send d True \<in> set (cn_log (packet_sent_cb env status w)) \<and> ds_dest_address d = 0"
  using assms
  by (auto simp: packet_sent_cb_def Let_def send_backup_def da_sendData_def cn_cancelTask_def cn_event_def call_quiet split: option.split)

text \<open>The report of that packet may come while another packet is on its way: it ends the
  session of that one, whose sender gets the report.\<close>

lemma foreign_report_ends_session:
  assumes "cn_state w = CTRL_STATE_BUSY" "ss_dest_address status \<notin> {sh_address (cn_h0 w), sh_address (cn_h1 w)}"
    and "quiet_user env" "cn_sent_cb w = Some cb"
  shows "cn_state (packet_sent_cb env status w) = CTRL_STATE_IDLE \<and> cn_log (packet_sent_cb env status w) = cn_log w @ [Da_sent_cb cb status]"
  using assms by (simp add: packet_sent_cb_def Let_def cn_cancelTask_def call_quiet)

lemma send_ok_busy: "Control_Node_send env null data cb w = (CONTROL_RET_OK, w') \<Longrightarrow> cn_state w' = CTRL_STATE_BUSY"
  by (auto simp: Control_Node_send_def Let_def cn_addTask_eq da_sendData_def cn_event_def split: if_splits)

text \<open>When the callback that gets the failure of the timeout sends the next packet, the
  callback of that packet is forgotten.\<close>

lemma nested_send_loses_callback:
  assumes "cn_sent_cb w = Some cb" "ce_user env cb failed_status = Some (data, Some cb')"
    and "fst (Control_Node_send env False data (Some cb') (cn_event (Da_sent_cb cb failed_status)
       ((cn_cancelTask ''backup_route_task'' w)\<lparr>cn_h0 := closed_handle (cn_h0 w), cn_h1 := closed_handle (cn_h1 w), cn_state := CTRL_STATE_IDLE\<rparr>))) = CONTROL_RET_OK"
  shows "cn_state (snd (reset_task env w)) = CTRL_STATE_BUSY \<and> cn_sent_cb (snd (reset_task env w)) = None"
  using assms send_ok_busy [of env False data "Some cb'"]
  by (simp add: reset_task_def call_sent_cb_def Let_def) (simp add: cn_cancelTask_def prod_eq_iff)

subsection \<open>Diagnostics\<close>

text \<open>The diagnostics of a node arrive at the sink with its address in front.  A packet of
  less than ten bytes makes the router read outside of it.\<close>

lemma diagnostics_forwarded:
  assumes "cr_initialized r"
  shows "data_received_router src (diag_bytes p s d) r =
      Some (APP_LIB_DATA_RECEIVE_RES_HANDLED, r\<lparr>cr_sent := cr_sent r @ [diag_packet (le_bytes src 4 @ diag_bytes p s d) APP_ADDR_ANYSINK]\<rparr>)"
    and "data_received_router src bytes r = None \<longleftrightarrow> length bytes < 10"
proof -
  have "length (diag_bytes p s d) = 10" by (simp add: diag_bytes_def)
  then show "data_received_router src (diag_bytes p s d) r =
      Some (APP_LIB_DATA_RECEIVE_RES_HANDLED, r\<lparr>cr_sent := cr_sent r @ [diag_packet (le_bytes src 4 @ diag_bytes p s d) APP_ADDR_ANYSINK]\<rparr>)"
    using assms by (simp add: data_received_router_def forwarded_diag_def rd_bytes_in)
  show "data_received_router src bytes r = None \<longleftrightarrow> length bytes < 10"
    using assms by (auto simp: data_received_router_def forwarded_diag_def rd_bytes_def)
qed

end
