(* ===== verification/Pos_Tlv.thy ===== *)
theory Pos_Tlv
  imports Util_Tlv
begin

text \<open>
  \<open>libraries/positioning/poslib/poslib_tlv.c\<close>: the compact type-length-value items of the
  positioning library.  A type of five bits and a length of three bits share a byte; the
  length 0 says that the length is in the next byte.  The C structures have the fields of
  those of \<open>util/tlv.c\<close> and use the same records.

  \<open>item_reader\<close> is what the loops that read items rely on, for both formats: a read does
  not fault, moves on, and gives an item whose value is inside of the buffer.
\<close>

subsection \<open>Items\<close>

datatype poslib_tlv_res = POSLIB_TLV_RES_OK | POSLIB_TLV_RES_ERROR | POSLIB_TLV_RES_END

type_synonym poslib_tlv_record = tlv_record
type_synonym poslib_tlv_item = tlv_item

definition MINIMAL_POSLIB_TLV_SIZE :: int where "MINIMAL_POSLIB_TLV_SIZE = 2"

definition PosLibTlv_init :: "u8 list \<Rightarrow> u8 \<Rightarrow> poslib_tlv_record" where
  "PosLibTlv_init buffer len = \<lparr>tlv_buffer = buffer, tlv_length = len, tlv_index = 0\<rparr>"

definition PosLibTlv_Decode_getNextItem ::
  "poslib_tlv_record \<Rightarrow> (poslib_tlv_res \<times> poslib_tlv_record \<times> poslib_tlv_item option) option" where
  "PosLibTlv_Decode_getNextItem rcd =
     (if tlv_index rcd \<ge> tlv_length rcd then Some (POSLIB_TLV_RES_END, rcd, None)
      else if uint (tlv_length rcd) - uint (tlv_index rcd) < MINIMAL_POSLIB_TLV_SIZE
      then Some (POSLIB_TLV_RES_ERROR, rcd, None)
      else do {
        type \<leftarrow> rd (tlv_buffer rcd) (unat (tlv_index rcd));
        (type, len, rcd) \<leftarrow>
          (if type AND 0xE0 = 0
           then do {
             let rcd = rcd\<lparr>tlv_index := tlv_index rcd + 1\<rparr>;
             len \<leftarrow> rd (tlv_buffer rcd) (unat (tlv_index rcd));
             Some (type, len, rcd)
           }
           else Some (type AND 0x1F, drop_bit 5 type, rcd));
        if uint (tlv_length rcd) - uint (tlv_index rcd) \<ge> uint len
        then
          let rcd = rcd\<lparr>tlv_index := tlv_index rcd + 1\<rparr>
          in Some (POSLIB_TLV_RES_OK, rcd\<lparr>tlv_index := tlv_index rcd + len\<rparr>,
               Some \<lparr>it_value = drop (unat (tlv_index rcd)) (tlv_buffer rcd), it_type = ucast type, it_length = len\<rparr>)
        else Some (POSLIB_TLV_RES_ERROR, rcd\<lparr>tlv_index := tlv_length rcd\<rparr>, None)
      })"

text \<open>\<open>null\<close> tells that the pointer to the buffer or to the value is NULL.\<close>

definition PosLibTlv_Encode_addItem ::
  "bool \<Rightarrow> poslib_tlv_record \<Rightarrow> poslib_tlv_item \<Rightarrow> (poslib_tlv_res \<times> poslib_tlv_record) option" where
  "PosLibTlv_Encode_addItem null rcd item =
     (if tlv_index rcd \<ge> tlv_length rcd \<or> it_length item = 0 \<or> null \<or> it_type item > 31
      then Some (POSLIB_TLV_RES_ERROR, rcd)
      else
        let bytes_left = tlv_length rcd - tlv_index rcd
        in if it_length item \<le> 7 \<and> uint bytes_left \<ge> uint (it_length item) + 1
           then do {
             buf \<leftarrow> wr (tlv_buffer rcd) (unat (tlv_index rcd)) (push_bit 5 (it_length item) OR ucast (it_type item AND 0x1F));
             let rcd = rcd\<lparr>tlv_buffer := buf, tlv_index := tlv_index rcd + 1\<rparr>;
             val \<leftarrow> rd_bytes (it_value item) 0 (unat (it_length item));
             buf \<leftarrow> wr_bytes (tlv_buffer rcd) (unat (tlv_index rcd)) val;
             Some (POSLIB_TLV_RES_OK, rcd\<lparr>tlv_buffer := buf, tlv_index := tlv_index rcd + it_length item\<rparr>)
           }
           else if it_length item > 7 \<and> uint bytes_left \<ge> uint (it_length item) + 2
           then do {
             buf \<leftarrow> wr (tlv_buffer rcd) (unat (tlv_index rcd)) (ucast (it_type item AND 0x1F));
             let rcd = rcd\<lparr>tlv_buffer := buf, tlv_index := tlv_index rcd + 1\<rparr>;
             buf \<leftarrow> wr (tlv_buffer rcd) (unat (tlv_index rcd)) (it_length item);
             let rcd = rcd\<lparr>tlv_buffer := buf, tlv_index := tlv_index rcd + 1\<rparr>;
             val \<leftarrow> rd_bytes (it_value item) 0 (unat (it_length item));
             buf \<leftarrow> wr_bytes (tlv_buffer rcd) (unat (tlv_index rcd)) val;
             Some (POSLIB_TLV_RES_OK, rcd\<lparr>tlv_buffer := buf, tlv_index := tlv_index rcd + it_length item\<rparr>)
           }
           else Some (POSLIB_TLV_RES_ERROR, rcd))"

subsection \<open>Loops over items\<close>

text \<open>\<open>while (go) { res = next(r, &item); if (res is not OK) break; act(item); }\<close>.  A read gives
  the item and the rest, or the result that ends the loop.\<close>

partial_function (option) walk_items ::
  "('r \<Rightarrow> ('r \<times> 'i + 'e) option) \<Rightarrow> ('s \<Rightarrow> bool) \<Rightarrow> ('i \<Rightarrow> 's \<Rightarrow> 's option) \<Rightarrow> 'r \<Rightarrow> 's \<Rightarrow> ('e option \<times> 's) option" where
  "walk_items nxt go act r s =
     (if \<not> go s then Some (None, s)
      else do {
        x \<leftarrow> nxt r;
        case x of
          Inr e \<Rightarrow> Some (Some e, s)
        | Inl (r', i) \<Rightarrow> do { s \<leftarrow> act i s; walk_items nxt go act r' s }
      })"

declare walk_items.simps [code]

definition tlv_read :: "tlv_record \<Rightarrow> (tlv_record \<times> tlv_item + tlv_res) option" where
  "tlv_read rcd =
     map_option (\<lambda>(res, rcd', it). case (res, it) of (TLV_RES_OK, Some i) \<Rightarrow> Inl (rcd', i) | _ \<Rightarrow> Inr res)
       (Tlv_Decode_getNextItem rcd)"

definition poslib_read :: "poslib_tlv_record \<Rightarrow> (poslib_tlv_record \<times> poslib_tlv_item + poslib_tlv_res) option" where
  "poslib_read rcd =
     map_option (\<lambda>(res, rcd', it). case (res, it) of (POSLIB_TLV_RES_OK, Some i) \<Rightarrow> Inl (rcd', i) | _ \<Rightarrow> Inr res)
       (PosLibTlv_Decode_getNextItem rcd)"

locale item_reader =
  fixes nxt :: "'r \<Rightarrow> ('r \<times> 'i + 'e) option" and wf :: "'r \<Rightarrow> bool" and left :: "'r \<Rightarrow> nat" and fits :: "'i \<Rightarrow> bool"
  assumes read_ok: "wf r \<Longrightarrow> nxt r \<noteq> None"
    and read_item: "wf r \<Longrightarrow> nxt r = Some (Inl (r', i)) \<Longrightarrow> wf r' \<and> left r' < left r \<and> fits i"
begin

text \<open>The loop ends and keeps what every step keeps.\<close>

lemma walk_returns:
  assumes "wf r" "I s" and act: "\<And>i s. fits i \<Longrightarrow> I s \<Longrightarrow> \<exists>s'. act i s = Some s' \<and> I s'"
  shows "\<exists>e s'. walk_items nxt go act r s = Some (e, s') \<and> I s'"
  using assms(1,2)
proof (induction "left r" arbitrary: r s rule: less_induct)
  case less
  obtain x where x: "nxt r = Some x" using read_ok [OF less.prems(1)] by blast
  show ?case
  proof (cases x)
    case (Inr e)
    then show ?thesis using x less.prems by (subst walk_items.simps) simp
  next
    case (Inl p)
    obtain r' i where p: "p = (r', i)" by (cases p)
    have r': "wf r' \<and> left r' < left r \<and> fits i" using read_item less.prems(1) x Inl p by blast
    obtain s' where s': "act i s = Some s'" "I s'" using act r' less.prems(2) by blast
    have "\<exists>e s''. walk_items nxt go act r' s' = Some (e, s'') \<and> I s''" using less.hyps r' s' by blast
    then show ?thesis using x Inl p s' less.prems by (subst walk_items.simps) simp
  qed
qed

end


subsection \<open>The header byte\<close>

lemma and_1f: "(b::u8) AND 0x1F = take_bit 5 b"
  by (simp add: take_bit_eq_mask mask_eq_exp_minus_1)

lemma and_e0: "(b::u8) AND 0xE0 = push_bit 5 (drop_bit 5 b)"
proof -
  have "b AND NOT (mask 5) = push_bit 5 (drop_bit 5 b)" by (rule bit_word_eqI) (auto simp: bit_simps)
  moreover have "NOT (mask 5) = (0xE0::u8)" by (simp add: mask_eq_exp_minus_1)
  ultimately show ?thesis by simp
qed

lemma and_e0_iff: "(b::u8) AND 0xE0 = 0 \<longleftrightarrow> drop_bit 5 b = 0"
proof
  assume "b AND 0xE0 = 0"
  then have "push_bit 5 (drop_bit 5 b) = 0" by (simp only: and_e0)
  then have "drop_bit 5 (push_bit 5 (drop_bit 5 b)) = 0" by (simp only: drop_bit_of_0)
  moreover have "drop_bit 5 (push_bit 5 (drop_bit 5 b)) = drop_bit 5 b"
    by (rule bit_word_eqI) (auto simp: bit_simps dest: bit_imp_le_length)
  ultimately show "drop_bit 5 b = 0" by simp
qed (simp add: and_e0)

lemma drop_5_bound: "unat (drop_bit 5 (b::u8)) \<le> 7"
proof -
  have "unat (drop_bit 5 b) = take_bit 8 (unat b) div 32"
    using unsigned_drop_bit_eq [of 5 b, where 'a = nat] by (simp add: drop_bit_eq_div)
  moreover have "take_bit 8 (unat b) < 2 ^ 8" by (rule take_bit_nat_less_exp)
  ultimately show ?thesis by simp
qed

lemma low_bits:
  assumes "unat (w::'a::len word) < 2 ^ k"
  shows "bit w n \<Longrightarrow> n < k"
  using take_bit_small [OF assms] by (metis bit_take_bit_iff)

lemma tl_parts:
  assumes "(l::u8) \<le> 7" "(t::u16) \<le> 31"
  shows "drop_bit 5 (push_bit 5 l OR ucast (t AND 0x1F)) = l" "(push_bit 5 l OR ucast (t AND 0x1F)) AND 0x1F = ucast t"
proof -
  have l: "bit l n \<Longrightarrow> n < 3" for n using assms(1) low_bits [of l 3 n] by (simp add: word_le_nat_alt)
  have t: "bit t n \<Longrightarrow> n < 5" for n using assms(2) low_bits [of t 5 n] by (simp add: word_le_nat_alt)
  have m: "t AND 0x1F = t"
    using assms(2) take_bit_small [of t 5] by (simp add: take_bit_eq_mask mask_eq_exp_minus_1 word_le_nat_alt)
  show "drop_bit 5 (push_bit 5 l OR ucast (t AND 0x1F)) = l"
    unfolding m by (rule bit_word_eqI) (auto simp: bit_simps dest: l t)
  show "(push_bit 5 l OR ucast (t AND 0x1F)) AND 0x1F = ucast t"
    unfolding m and_1f by (rule bit_word_eqI) (auto simp: bit_simps dest: t)
qed

lemma long_type:
  assumes "(t::u16) \<le> 31"
  shows "ucast (t AND 0x1F) = (ucast t :: u8)" "drop_bit 5 (ucast t :: u8) = 0" "ucast (ucast t :: u8) = t"
proof -
  have t: "bit t n \<Longrightarrow> n < 5" for n using assms low_bits [of t 5 n] by (simp add: word_le_nat_alt)
  show "ucast (t AND 0x1F) = (ucast t :: u8)"
    using assms take_bit_small [of t 5] by (simp add: take_bit_eq_mask mask_eq_exp_minus_1 word_le_nat_alt)
  show "drop_bit 5 (ucast t :: u8) = 0" by (rule bit_word_eqI) (auto simp: bit_simps dest: t)
  show "ucast (ucast t :: u8) = t" by (rule bit_word_eqI) (auto simp: bit_simps dest: t)
qed

subsection \<open>Reading one item\<close>

text \<open>Records whose length is at most 254, so that the index does not wrap around.\<close>

definition ptlv_wf :: "poslib_tlv_record \<Rightarrow> bool" where
  "ptlv_wf rcd \<longleftrightarrow> tlv_length rcd < 255 \<and> unat (tlv_length rcd) \<le> length (tlv_buffer rcd)"

definition ptlv_finish :: "poslib_tlv_record \<Rightarrow> u8 \<Rightarrow> u8 \<Rightarrow> poslib_tlv_res \<times> poslib_tlv_record \<times> poslib_tlv_item option" where
  "ptlv_finish rcd type len =
     (if unat (tlv_index rcd) + unat len \<le> unat (tlv_length rcd)
      then (POSLIB_TLV_RES_OK, rcd\<lparr>tlv_index := tlv_index rcd + 1 + len\<rparr>,
        Some \<lparr>it_value = drop (unat (tlv_index rcd + 1)) (tlv_buffer rcd), it_type = ucast type, it_length = len\<rparr>)
      else (POSLIB_TLV_RES_ERROR, rcd\<lparr>tlv_index := tlv_length rcd\<rparr>, None))"

lemma uint_room: "uint (a::u8) - uint b \<ge> uint c \<longleftrightarrow> unat b + unat c \<le> unat a"
  unfolding uint_nat by linarith

lemma uint_short: "uint (a::u8) - uint b < MINIMAL_POSLIB_TLV_SIZE \<longleftrightarrow> unat a < unat b + 2"
  unfolding uint_nat MINIMAL_POSLIB_TLV_SIZE_def by linarith

lemma ptlv_body:
  assumes wf: "ptlv_wf rcd" and rem: "unat (tlv_index rcd) + 2 \<le> unat (tlv_length rcd)"
  defines "b \<equiv> tlv_buffer rcd ! unat (tlv_index rcd)"
  shows "PosLibTlv_Decode_getNextItem rcd =
     Some (if drop_bit 5 b = 0
           then ptlv_finish (rcd\<lparr>tlv_index := tlv_index rcd + 1\<rparr>) b (tlv_buffer rcd ! (unat (tlv_index rcd) + 1))
           else ptlv_finish rcd (b AND 0x1F) (drop_bit 5 b))"
proof -
  have i: "unat (tlv_index rcd) + 2 \<le> length (tlv_buffer rcd)" using wf rem by (simp add: ptlv_wf_def)
  have u: "unat (tlv_index rcd + 1) = unat (tlv_index rcd) + 1"
    using rem unat_lt_8 [of "tlv_length rcd"] by (subst unat_add_small) simp_all
  have r0: "rd (tlv_buffer rcd) (unat (tlv_index rcd)) = Some b" using i by (simp add: rd_in b_def)
  have r1: "rd (tlv_buffer rcd) (Suc (unat (tlv_index rcd))) = Some (tlv_buffer rcd ! Suc (unat (tlv_index rcd)))"
    using i by (simp add: rd_in)
  have "\<not> tlv_index rcd \<ge> tlv_length rcd" using rem by (simp add: word_le_nat_alt)
  moreover have "\<not> uint (tlv_length rcd) - uint (tlv_index rcd) < MINIMAL_POSLIB_TLV_SIZE"
    using rem by (simp add: uint_short)
  ultimately show ?thesis
    unfolding PosLibTlv_Decode_getNextItem_def uint_room and_e0_iff
    by (simp add: r0 r1 u ptlv_finish_def Let_def)
qed

lemma ptlv_short:
  assumes "ptlv_wf rcd" "\<not> unat (tlv_index rcd) + 2 \<le> unat (tlv_length rcd)"
  shows "PosLibTlv_Decode_getNextItem rcd =
     Some (if tlv_length rcd \<le> tlv_index rcd then POSLIB_TLV_RES_END else POSLIB_TLV_RES_ERROR, rcd, None)"
proof -
  have "uint (tlv_length rcd) - uint (tlv_index rcd) < MINIMAL_POSLIB_TLV_SIZE"
    using assms(2) by (simp add: uint_short)
  then show ?thesis by (simp add: PosLibTlv_Decode_getNextItem_def)
qed

text \<open>A value can end one byte after the end of the record, not more.\<close>

definition fits_past :: "nat \<Rightarrow> tlv_item \<Rightarrow> bool" where
  "fits_past n i \<longleftrightarrow> unat (it_length i) \<le> length (it_value i) + n"

lemma ptlv_finish_step:
  assumes wf: "ptlv_wf rcd" and i: "unat (tlv_index rcd) < unat (tlv_length rcd)"
    and fin: "ptlv_finish rcd type len = (res, rcd', it)"
  shows "tlv_buffer rcd' = tlv_buffer rcd \<and> tlv_length rcd' = tlv_length rcd \<and> res \<noteq> POSLIB_TLV_RES_END \<and>
     unat (tlv_index rcd) < unat (tlv_index rcd') \<and> unat (tlv_index rcd') \<le> unat (tlv_length rcd) + 1 \<and>
     (res = POSLIB_TLV_RES_OK \<longleftrightarrow> it \<noteq> None) \<and>
     (\<forall>i. it = Some i \<longrightarrow> fits_past 1 i \<and> (unat (tlv_length rcd) < length (tlv_buffer rcd) \<longrightarrow> fits_past 0 i))"
proof (cases "unat (tlv_index rcd) + unat len \<le> unat (tlv_length rcd)")
  case False
  then show ?thesis using i fin by (auto simp: ptlv_finish_def)
next
  case True
  have l: "unat (tlv_length rcd) < 255" using wf by (simp add: ptlv_wf_def word_less_nat_alt)
  have u1: "unat (tlv_index rcd + 1) = unat (tlv_index rcd) + 1"
    using i l by (subst unat_add_small) simp_all
  have u2: "unat (tlv_index rcd + 1 + len) = unat (tlv_index rcd) + 1 + unat len"
    using True l u1 by (subst unat_add_small) simp_all
  show ?thesis using True fin wf i u1 u2 by (auto simp: ptlv_finish_def fits_past_def ptlv_wf_def)
qed

lemma ptlv_step:
  assumes wf: "ptlv_wf rcd"
  obtains res rcd' it where "PosLibTlv_Decode_getNextItem rcd = Some (res, rcd', it)"
    "tlv_buffer rcd' = tlv_buffer rcd" "tlv_length rcd' = tlv_length rcd"
    "res = POSLIB_TLV_RES_END \<longleftrightarrow> tlv_length rcd \<le> tlv_index rcd" "res = POSLIB_TLV_RES_OK \<longleftrightarrow> it \<noteq> None"
    "it \<noteq> None \<longrightarrow> unat (tlv_index rcd) < unat (tlv_index rcd') \<and> unat (tlv_index rcd') \<le> unat (tlv_length rcd) + 1"
    "\<forall>i. it = Some i \<longrightarrow> fits_past 1 i \<and> (unat (tlv_length rcd) < length (tlv_buffer rcd) \<longrightarrow> fits_past 0 i)"
proof (cases "unat (tlv_index rcd) + 2 \<le> unat (tlv_length rcd)")
  case False
  then show ?thesis using that [OF ptlv_short [OF wf False]] by simp
next
  case True
  have u: "unat (tlv_index rcd + 1) = unat (tlv_index rcd) + 1"
    using True unat_lt_8 [of "tlv_length rcd"] by (subst unat_add_small) simp_all
  obtain rcd0 type len where body: "PosLibTlv_Decode_getNextItem rcd = Some (ptlv_finish rcd0 type len)"
    and rcd0: "ptlv_wf rcd0" "unat (tlv_index rcd0) < unat (tlv_length rcd0)" "unat (tlv_index rcd) \<le> unat (tlv_index rcd0)"
      "tlv_buffer rcd0 = tlv_buffer rcd" "tlv_length rcd0 = tlv_length rcd"
  proof (cases "drop_bit 5 (tlv_buffer rcd ! unat (tlv_index rcd)) = 0")
    case long: True
    show ?thesis by (rule that [OF ptlv_body [OF wf True, unfolded if_P [OF long]]]) (use wf True u in \<open>simp_all add: ptlv_wf_def\<close>)
  next
    case short: False
    show ?thesis by (rule that [OF ptlv_body [OF wf True, unfolded if_not_P [OF short]]]) (use wf True in simp_all)
  qed
  obtain res rcd' it where fin: "ptlv_finish rcd0 type len = (res, rcd', it)" by (cases "ptlv_finish rcd0 type len")
  note st = ptlv_finish_step [OF rcd0(1,2) fin, unfolded rcd0(4,5)]
  show ?thesis
    by (rule that [OF body [unfolded fin]]) (use st rcd0(3) True in \<open>auto simp: word_le_nat_alt\<close>)
qed

interpretation poslib_items: item_reader poslib_read "\<lambda>rcd. ptlv_wf rcd \<and> unat (tlv_length rcd) < length (tlv_buffer rcd)"
  "\<lambda>rcd. unat (tlv_length rcd) + 1 - unat (tlv_index rcd)" "fits_past 0"
proof
  fix rcd assume w: "ptlv_wf rcd \<and> unat (tlv_length rcd) < length (tlv_buffer rcd)"
  obtain res rcd' it where st: "PosLibTlv_Decode_getNextItem rcd = Some (res, rcd', it)"
    "tlv_buffer rcd' = tlv_buffer rcd" "tlv_length rcd' = tlv_length rcd"
    "res = POSLIB_TLV_RES_END \<longleftrightarrow> tlv_length rcd \<le> tlv_index rcd" "res = POSLIB_TLV_RES_OK \<longleftrightarrow> it \<noteq> None"
    "it \<noteq> None \<longrightarrow> unat (tlv_index rcd) < unat (tlv_index rcd') \<and> unat (tlv_index rcd') \<le> unat (tlv_length rcd) + 1"
    "\<forall>i. it = Some i \<longrightarrow> fits_past 1 i \<and> (unat (tlv_length rcd) < length (tlv_buffer rcd) \<longrightarrow> fits_past 0 i)"
    using conjunct1 [OF w] by (rule ptlv_step)
  show "poslib_read rcd \<noteq> None" using st(1) by (simp add: poslib_read_def)
  fix r' i assume "poslib_read rcd = Some (Inl (r', i))"
  then have "it = Some i" "r' = rcd'"
    using st(1) by (auto simp: poslib_read_def split: poslib_tlv_res.splits option.splits)
  then show "(ptlv_wf r' \<and> unat (tlv_length r') < length (tlv_buffer r')) \<and>
      unat (tlv_length r') + 1 - unat (tlv_index r') < unat (tlv_length rcd) + 1 - unat (tlv_index rcd) \<and> fits_past 0 i"
    using w st by (auto simp: ptlv_wf_def)
qed

text \<open>The reader of \<open>util/tlv.c\<close> keeps to the record; its items fit in any case.\<close>

interpretation tlv_items: item_reader tlv_read tlv_wf "\<lambda>rcd. unat (tlv_length rcd) - unat (tlv_index rcd)" "fits_past 0"
proof
  fix rcd assume w: "tlv_wf rcd"
  obtain res rcd' it where st: "Tlv_Decode_getNextItem rcd = Some (res, rcd', it)" "tlv_wf rcd'"
     "tlv_length rcd' = tlv_length rcd"
     "res = TLV_RES_OK \<longrightarrow> unat (tlv_index rcd) + 2 \<le> unat (tlv_index rcd') \<and>
        (\<exists>i. it = Some i \<and> unat (it_length i) \<le> length (it_value i))"
    using decode_step [OF w] by blast
  show "tlv_read rcd \<noteq> None" using st(1) by (simp add: tlv_read_def)
  fix r' i assume "tlv_read rcd = Some (Inl (r', i))"
  then have "res = TLV_RES_OK" "it = Some i" "r' = rcd'"
    using st(1) by (auto simp: tlv_read_def split: tlv_res.splits option.splits)
  then show "tlv_wf r' \<and> unat (tlv_length r') - unat (tlv_index r') < unat (tlv_length rcd) - unat (tlv_index rcd) \<and> fits_past 0 i"
    using st tlv_remaining(2) [OF st(2)] by (auto simp: fits_past_def)
qed

subsection \<open>Writing items and reading them back\<close>

text \<open>What an item occupies, and the items that can be written.\<close>

definition pitem_wire :: "poslib_tlv_item \<Rightarrow> u8 list" where
  "pitem_wire i =
     (if it_length i \<le> 7 then [push_bit 5 (it_length i) OR ucast (it_type i AND 0x1F)]
      else [ucast (it_type i AND 0x1F), it_length i]) @ item_bytes i"

definition pitem_ok :: "poslib_tlv_item \<Rightarrow> bool" where
  "pitem_ok i \<longleftrightarrow> it_length i \<noteq> 0 \<and> it_type i \<le> 31 \<and> fits_past 0 i"

lemma length_pitem_bytes: "pitem_ok i \<Longrightarrow> length (item_bytes i) = unat (it_length i)"
  by (simp add: pitem_ok_def fits_past_def item_bytes_def)

lemma length_pitem_wire:
  "pitem_ok i \<Longrightarrow> length (pitem_wire i) = (if it_length i \<le> 7 then 1 else 2) + unat (it_length i)"
  by (simp add: pitem_wire_def length_pitem_bytes)

lemma ptlv_add_writes:
  assumes wf: "tlv_wf rcd" and ok: "pitem_ok i"
    and room: "unat (tlv_index rcd) + length (pitem_wire i) \<le> unat (tlv_length rcd)"
  defines "k \<equiv> unat (tlv_index rcd)"
  shows "PosLibTlv_Encode_addItem False rcd i =
     Some (POSLIB_TLV_RES_OK, rcd\<lparr>
       tlv_buffer := take k (tlv_buffer rcd) @ pitem_wire i @ drop (k + length (pitem_wire i)) (tlv_buffer rcd),
       tlv_index := tlv_index rcd + of_nat (length (pitem_wire i))\<rparr>)"
proof -
  let ?h = "if it_length i \<le> 7 then 1 else 2 :: nat" and ?w = "if it_length i \<le> 7 then 1 else 2 :: u8"
  have len: "length (pitem_wire i) = ?h + unat (it_length i)" by (rule length_pitem_wire [OF ok])
  have b: "k + ?h + unat (it_length i) \<le> length (tlv_buffer rcd)"
    using room wf len by (simp add: tlv_wf_def k_def)
  have u1: "unat (tlv_index rcd + 1) = k + 1"
    using tlv_wf_advance(2) [OF wf, of 1] room len by (auto simp: k_def split: if_splits)
  have u2: "unat (tlv_index rcd + 2) = k + 2" if "\<not> it_length i \<le> 7"
    using tlv_wf_advance(2) [OF wf, of 2] room len that by (simp add: k_def)
  have r: "uint (tlv_length rcd - tlv_index rcd) \<ge> uint (it_length i) + int ?h"
    using room len tlv_remaining [OF wf] unfolding uint_nat k_def by linarith
  have c: "\<not> tlv_index rcd \<ge> tlv_length rcd" "\<not> it_type i > 31" "it_length i \<noteq> 0"
    using room len ok by (auto simp: pitem_ok_def word_le_nat_alt word_less_nat_alt split: if_splits)
  have v: "rd_bytes (it_value i) 0 (unat (it_length i)) = Some (item_bytes i)"
    using ok by (simp add: rd_bytes_in pitem_ok_def fits_past_def item_bytes_def)
  have w: "of_nat (?h + unat (it_length i)) = ?w + it_length i" by simp
  show ?thesis
  proof (cases "it_length i \<le> 7")
    case True
    then show ?thesis using b u1 r c v w length_pitem_bytes [OF ok]
      by (simp add: PosLibTlv_Encode_addItem_def Let_def buf_simps len pitem_wire_def update_slice add.assoc add.commute [of k] flip: k_def)
  next
    case False
    moreover have "it_length i > 7" using False by simp
    ultimately show ?thesis using b u1 u2 r c v w length_pitem_bytes [OF ok]
      by (simp add: PosLibTlv_Encode_addItem_def Let_def buf_simps len pitem_wire_def update_slice add.assoc add.commute [of k] flip: k_def)
  qed
qed

text \<open>The record a list of items leaves, when all of them fit.\<close>

definition with_wire :: "tlv_record \<Rightarrow> u8 list \<Rightarrow> tlv_record" where
  "with_wire rcd ws =
     rcd\<lparr>tlv_buffer := take (unat (tlv_index rcd)) (tlv_buffer rcd) @ ws @ drop (unat (tlv_index rcd) + length ws) (tlv_buffer rcd),
         tlv_index := tlv_index rcd + of_nat (length ws)\<rparr>"

lemma with_wire:
  assumes wf: "tlv_wf rcd" and room: "unat (tlv_index rcd) + length ws \<le> unat (tlv_length rcd)"
  shows "tlv_wf (with_wire rcd ws)" "unat (tlv_index (with_wire rcd ws)) = unat (tlv_index rcd) + length ws"
    "tlv_length (with_wire rcd ws) = tlv_length rcd"
proof -
  have w: "unat (of_nat (length ws) :: u8) = length ws"
    using room unat_lt_8 [of "tlv_length rcd"] by (intro unat_of_nat_small) simp
  show u: "unat (tlv_index (with_wire rcd ws)) = unat (tlv_index rcd) + length ws"
    using tlv_wf_advance(2) [OF wf, of "of_nat (length ws)"] room w by (simp add: with_wire_def)
  show "tlv_length (with_wire rcd ws) = tlv_length rcd" by (simp add: with_wire_def)
  show "tlv_wf (with_wire rcd ws)"
    using wf room u by (simp add: tlv_wf_def word_le_nat_alt) (simp add: with_wire_def)
qed

lemma with_wire_append:
  assumes wf: "tlv_wf rcd" and room: "unat (tlv_index rcd) + length (vs @ ws) \<le> unat (tlv_length rcd)"
  shows "with_wire (with_wire rcd vs) ws = with_wire rcd (vs @ ws)"
proof -
  have v: "unat (tlv_index (with_wire rcd vs)) = unat (tlv_index rcd) + length vs" using with_wire(2) [OF wf, of vs] room by simp
  moreover have "unat (tlv_index rcd) + length vs + length ws \<le> length (tlv_buffer rcd)" using wf room by (simp add: tlv_wf_def)
  ultimately show ?thesis unfolding with_wire_def [of "with_wire rcd vs"] v by (simp add: with_wire_def ac_simps)
qed

definition add_items :: "poslib_tlv_item list \<Rightarrow> tlv_record \<Rightarrow> tlv_record option" where
  "add_items = foldo (\<lambda>i rcd. map_option snd (PosLibTlv_Encode_addItem False rcd i))"

lemma add_items_writes:
  assumes "tlv_wf rcd" "list_all pitem_ok is"
    "unat (tlv_index rcd) + length (concat (map pitem_wire is)) \<le> unat (tlv_length rcd)"
  shows "add_items is rcd = Some (with_wire rcd (concat (map pitem_wire is)))"
  using assms
proof (induction "is" arbitrary: rcd)
  case Nil
  then show ?case by (simp add: add_items_def with_wire_def)
next
  case (Cons i "is")
  let ?w = "pitem_wire i" and ?ws = "concat (map pitem_wire is)"
  have add: "PosLibTlv_Encode_addItem False rcd i = Some (POSLIB_TLV_RES_OK, with_wire rcd ?w)"
    using ptlv_add_writes [OF Cons.prems(1), of i] Cons.prems by (simp add: with_wire_def)
  have room: "unat (tlv_index rcd) + length ?w \<le> unat (tlv_length rcd)" using Cons.prems by simp
  have "add_items is (with_wire rcd ?w) = Some (with_wire (with_wire rcd ?w) ?ws)"
    using Cons.prems with_wire [OF Cons.prems(1) room] by (intro Cons.IH) simp_all
  then show ?case using add with_wire_append [OF Cons.prems(1), of ?w ?ws] Cons.prems by (simp add: add_items_def)
qed

text \<open>An item at the index is read.\<close>

lemma ptlv_finish_reads:
  assumes "unat (tlv_index rcd) + unat len \<le> unat (tlv_length rcd)"
    "take (unat len) (drop (unat (tlv_index rcd + 1)) (tlv_buffer rcd)) = item_bytes i"
    "unat (tlv_index rcd + 1) + unat len \<le> length (tlv_buffer rcd)" "ucast type = it_type i" "len = it_length i"
  shows "\<exists>j. ptlv_finish rcd type len = (POSLIB_TLV_RES_OK, rcd\<lparr>tlv_index := tlv_index rcd + 1 + len\<rparr>, Some j) \<and>
     same_item i j \<and> fits_past 0 j"
  using assms by (simp add: ptlv_finish_def same_item_def item_bytes_def fits_past_def)

lemma poslib_reads:
  assumes wf: "ptlv_wf rcd" and ok: "pitem_ok i"
    and wire: "drop (unat (tlv_index rcd)) (take (unat (tlv_length rcd)) (tlv_buffer rcd)) = pitem_wire i @ rest"
  shows "\<exists>j. poslib_read rcd = Some (Inl (rcd\<lparr>tlv_index := tlv_index rcd + of_nat (length (pitem_wire i))\<rparr>, j)) \<and>
     same_item i j \<and> fits_past 0 j"
proof -
  let ?k = "unat (tlv_index rcd)" and ?buf = "tlv_buffer rcd" and ?l = "it_length i"
  note len = length_pitem_wire [OF ok]
  have l: "?l \<noteq> 0" and t: "it_type i \<le> 31" using ok by (simp_all add: pitem_ok_def)
  have "length (pitem_wire i @ rest) = unat (tlv_length rcd) - ?k"
    using wf by (simp add: ptlv_wf_def flip: wire)
  moreover have "2 \<le> length (pitem_wire i)" using len l by (auto simp: unat_gt_0 Suc_le_eq)
  ultimately have rem: "?k + 2 \<le> unat (tlv_length rcd)" and tot: "?k + length (pitem_wire i) \<le> unat (tlv_length rcd)"
    by auto
  have l8: "unat (tlv_length rcd) < 255" using wf by (simp add: ptlv_wf_def word_less_nat_alt)
  have nth: "?buf ! (?k + m) = pitem_wire i ! m" if "m < length (pitem_wire i)" for m
    using slice_nth [OF wire, of m] that by (simp add: nth_append)
  have val: "take (unat ?l) (drop (?k + (if ?l \<le> 7 then 1 else 2)) ?buf) = item_bytes i"
  proof -
    have "take (length (pitem_wire i)) (drop ?k ?buf) = pitem_wire i" by (rule slice_take [OF wire])
    then have "drop (if ?l \<le> 7 then 1 else 2) (take ((if ?l \<le> 7 then 1 else 2) + unat ?l) (drop ?k ?buf)) = item_bytes i"
      using len by (auto simp: pitem_wire_def numeral_2_eq_2 split: if_splits)
    then show ?thesis by (simp add: drop_take add.commute split: if_splits)
  qed
  have fit: "?k + (if ?l \<le> 7 then 1 else 2) + unat ?l \<le> length ?buf" using tot len wf by (simp add: ptlv_wf_def)
  have u1: "unat (tlv_index rcd + 1) = ?k + 1" using rem l8 by (subst unat_add_small) simp_all
  show ?thesis
  proof (cases "?l \<le> 7")
    case True
    have b: "?buf ! ?k = push_bit 5 ?l OR ucast (it_type i AND 0x1F)" using nth [of 0] True len by (simp add: pitem_wire_def)
    have "PosLibTlv_Decode_getNextItem rcd = Some (ptlv_finish rcd (ucast (it_type i)) ?l)"
      using ptlv_body [OF wf rem, unfolded b tl_parts [OF True t] if_not_P [OF l]] .
    moreover have "\<exists>j. ptlv_finish rcd (ucast (it_type i)) ?l = (POSLIB_TLV_RES_OK, rcd\<lparr>tlv_index := tlv_index rcd + 1 + ?l\<rparr>, Some j) \<and>
        same_item i j \<and> fits_past 0 j"
      using True tot len val fit by (intro ptlv_finish_reads) (simp_all add: u1 long_type(3) [OF t])
    moreover have "of_nat (length (pitem_wire i)) = 1 + ?l" using True len by simp
    ultimately show ?thesis by (auto simp: poslib_read_def add.assoc)
  next
    case False
    have b: "?buf ! ?k = ucast (it_type i)" "?buf ! (?k + 1) = ?l"
      using nth [of 0] nth [of 1] False len long_type(1) [OF t] by (simp_all add: pitem_wire_def)
    have u2: "unat (2 + tlv_index rcd) = ?k + 2" using rem l8 by (subst unat_add_small) simp_all
    have "PosLibTlv_Decode_getNextItem rcd = Some (ptlv_finish (rcd\<lparr>tlv_index := tlv_index rcd + 1\<rparr>) (ucast (it_type i)) ?l)"
      using ptlv_body [OF wf rem, unfolded b long_type(2) [OF t] if_P [OF HOL.refl]] .
    moreover have "\<exists>j. ptlv_finish (rcd\<lparr>tlv_index := tlv_index rcd + 1\<rparr>) (ucast (it_type i)) ?l =
        (POSLIB_TLV_RES_OK, rcd\<lparr>tlv_index := tlv_index rcd + 1, tlv_index := tlv_index rcd + 1 + 1 + ?l\<rparr>, Some j) \<and>
        same_item i j \<and> fits_past 0 j"
      using ptlv_finish_reads [of "rcd\<lparr>tlv_index := tlv_index rcd + 1\<rparr>" ?l i "ucast (it_type i)"] False tot len val fit u1 u2
      by (simp add: long_type(3) [OF t])
    moreover have "of_nat (length (pitem_wire i)) = 2 + ?l" using False len by simp
    ultimately show ?thesis by (auto simp: poslib_read_def add.assoc)
  qed
qed

subsection \<open>Loops over written items\<close>

text \<open>The bytes that are left.\<close>

definition tlv_rest :: "tlv_record \<Rightarrow> u8 list" where
  "tlv_rest rcd = drop (unat (tlv_index rcd)) (take (unat (tlv_length rcd)) (tlv_buffer rcd))"

text \<open>A format of items: what is written for an item is read as that item.  A loop over written
  items acts on them in order and then sees the end, when the condition of the loop holds as
  long as it runs.\<close>

locale item_format =
  fixes nxt :: "'r \<Rightarrow> ('r \<times> 'i + 'e) option" and wf :: "'r \<Rightarrow> bool" and rest :: "'r \<Rightarrow> u8 list"
    and wire :: "'i \<Rightarrow> u8 list" and ok :: "'i \<Rightarrow> bool" and same :: "'i \<Rightarrow> 'i \<Rightarrow> bool" and ending :: 'e
  assumes read_wire: "wf r \<Longrightarrow> ok i \<Longrightarrow> rest r = wire i @ ws \<Longrightarrow>
      \<exists>r' j. nxt r = Some (Inl (r', j)) \<and> wf r' \<and> rest r' = ws \<and> same i j"
    and read_end: "wf r \<Longrightarrow> rest r = [] \<Longrightarrow> nxt r = Some (Inr ending)"
begin

lemma walk_reads:
  assumes go: "\<And>s. I s \<Longrightarrow> go s" "\<And>i s s'. I s \<Longrightarrow> act i s = Some s' \<Longrightarrow> I s'"
    and "\<And>i j. i \<in> set is \<Longrightarrow> same i j \<Longrightarrow> act j = act i" "wf r" "list_all ok is" "rest r = concat (map wire is)" "I s"
  shows "walk_items nxt go act r s = map_option (Pair (Some ending)) (foldo act is s)"
  using assms(3-)
proof (induction "is" arbitrary: r s)
  case Nil
  then show ?case using read_end go(1) by (simp add: walk_items.simps [of _ _ _ r])
next
  case (Cons i "is")
  note prems = Cons.prems(2-)
  from prems obtain r' j where j: "nxt r = Some (Inl (r', j))" "wf r'" "rest r' = concat (map wire is)" "same i j"
    using read_wire [of r i "concat (map wire is)"] by auto
  have act: "act j = act i" using Cons.prems(1) [of i j] j by simp
  show ?case
  proof (cases "act i s")
    case None
    then show ?thesis using j act go(1) prems by (simp add: walk_items.simps [of _ _ _ r])
  next
    case (Some s')
    then have "walk_items nxt go act r' s' = map_option (Pair (Some ending)) (foldo act is s')"
      using Cons.IH [OF Cons.prems(1) j(2), of s'] prems j go(2) [of s i s'] by simp
    then show ?thesis using Some j act go(1) prems by (simp add: walk_items.simps [of _ _ _ r])
  qed
qed

end

text \<open>Two items that cannot be told apart, with their values inside of their buffers.\<close>

definition alike :: "tlv_item \<Rightarrow> tlv_item \<Rightarrow> bool" where
  "alike i j \<longleftrightarrow> same_item i j \<and> fits_past 0 j"

lemma rest_advance:
  assumes wf: "tlv_wf rcd" and rest: "tlv_rest rcd = w @ ws"
  defines "r \<equiv> rcd\<lparr>tlv_index := tlv_index rcd + of_nat (length w)\<rparr>"
  shows "tlv_wf r" "tlv_rest r = ws"
proof -
  have "length w + length ws = unat (tlv_length rcd) - unat (tlv_index rcd)"
    using wf arg_cong [OF rest, of length] by (simp add: tlv_wf_def tlv_rest_def)
  then have le: "unat (tlv_index rcd) + length w \<le> unat (tlv_length rcd)"
    using tlv_remaining(2) [OF wf] by linarith
  have u: "unat (of_nat (length w) :: u8) = length w"
    using le unat_lt_8 [of "tlv_length rcd"] by (intro unat_of_nat_small) simp
  note adv = tlv_wf_advance [OF wf, of "of_nat (length w)", unfolded u, OF le]
  show "tlv_wf r" using adv(1) by (simp add: r_def)
  show "tlv_rest r = ws"
    using arg_cong [OF rest, of "drop (length w)"] adv(2) by (simp add: tlv_rest_def r_def add.commute)
qed

lemma rest_end: "tlv_wf rcd \<Longrightarrow> tlv_rest rcd = [] \<Longrightarrow> tlv_index rcd = tlv_length rcd"
  by (simp add: tlv_wf_def tlv_rest_def word_le_nat_alt word_unat_eq_iff)

interpretation tlv_format: item_format tlv_read tlv_wf tlv_rest item_wire item_decodable alike TLV_RES_END
proof
  fix rcd i ws assume w: "tlv_wf rcd" and i: "item_decodable i" and rest: "tlv_rest rcd = item_wire i @ ws"
  have ok: "item_ok i" and "it_length i \<noteq> 0 \<or> it_type i > 255" using i by (auto simp: item_decodable_def)
  then have "3 \<le> length (item_wire i @ ws)" by (auto simp: length_item_wire [OF ok] unat_gt_0 Suc_le_eq)
  then obtain j where j: "Tlv_Decode_getNextItem rcd =
      Some (TLV_RES_OK, rcd\<lparr>tlv_index := tlv_index rcd + of_nat (length (item_wire i))\<rparr>, Some j)" "same_item i j"
    using decode_reads [OF w ok rest [unfolded tlv_rest_def]] by blast
  then have r: "tlv_read rcd = Some (Inl (rcd\<lparr>tlv_index := tlv_index rcd + of_nat (length (item_wire i))\<rparr>, j))"
    by (simp add: tlv_read_def)
  show "\<exists>r' j. tlv_read rcd = Some (Inl (r', j)) \<and> tlv_wf r' \<and> tlv_rest r' = ws \<and> alike i j"
    using r j tlv_items.read_item [OF w r] rest_advance [OF w rest] by (auto simp: alike_def)
next
  fix rcd assume "tlv_wf rcd" "tlv_rest rcd = []"
  then show "tlv_read rcd = Some (Inr TLV_RES_END)"
    using rest_end [of rcd] by (simp add: tlv_read_def Tlv_Decode_getNextItem_def)
qed

interpretation poslib_format: item_format poslib_read "\<lambda>rcd. tlv_wf rcd \<and> tlv_length rcd < 255" tlv_rest pitem_wire pitem_ok alike
  POSLIB_TLV_RES_END
proof
  fix rcd i ws assume w: "tlv_wf rcd \<and> tlv_length rcd < 255" and i: "pitem_ok i" and rest: "tlv_rest rcd = pitem_wire i @ ws"
  then obtain j where j: "poslib_read rcd = Some (Inl (rcd\<lparr>tlv_index := tlv_index rcd + of_nat (length (pitem_wire i))\<rparr>, j))"
    "same_item i j" "fits_past 0 j"
    using poslib_reads [of rcd i ws] by (auto simp: ptlv_wf_def tlv_wf_def tlv_rest_def)
  then show "\<exists>r' j. poslib_read rcd = Some (Inl (r', j)) \<and> (tlv_wf r' \<and> tlv_length r' < 255) \<and> tlv_rest r' = ws \<and> alike i j"
    using w rest_advance [OF _ rest] by (auto simp: alike_def)
next
  fix rcd assume "tlv_wf rcd \<and> tlv_length rcd < 255" "tlv_rest rcd = []"
  then show "poslib_read rcd = Some (Inr POSLIB_TLV_RES_END)"
    using rest_end [of rcd] by (simp add: poslib_read_def PosLibTlv_Decode_getNextItem_def)
qed

end
