(* ===== verification/Pos_Decode.thy ===== *)
theory Pos_Decode
  imports Pos_Tlv Util_Num Wms_Api
begin

text \<open>
  The settings of the positioning library (\<open>libraries/positioning/poslib.h\<close>) and their
  configuration over the network, \<open>libraries/positioning/poslib/poslib_decode.c\<close>.  A
  configuration is a list of items of \<open>util/tlv.c\<close>, one for each class of nodes; the value of
  an item is a list of compact items, the commands.

  The enumerations of the settings are the bytes they are read from.  The options of the build
  are a record, the settings of the node and the update library of the stack are the
  parameter \<open>pos_lib\<close>.  A start of an update (\<open>lib_otap->setToBeProcessed\<close> and
  \<open>lib_state->stopStack\<close>) is the flag \<open>dc_otap\<close>.
\<close>

subsection \<open>Settings\<close>

record mbcn_record =
  mr_type :: u8
  mr_length :: u8
  mr_value :: "u8 list"

record mbcn_config =
  mc_enabled :: bool
  mc_tx_interval_ms :: u16
  mc_records :: "mbcn_record list"

record ble_mode_config =
  bm_tx_power :: u8
  bm_channels :: u8
  bm_tx_interval_ms :: u16

record ble_settings =
  bl_type :: u8
  bl_mode :: u8
  bl_eddystone :: ble_mode_config
  bl_ibeacon :: ble_mode_config
  bl_activation_delay_s :: u16

record motion_settings =
  mo_enabled :: bool
  mo_threshold_mg :: u16
  mo_duration_ms :: u16

record da_settings =
  da_routing_enabled :: bool
  da_follow_network :: bool

record pos_settings =
  ps_node_mode :: u8
  ps_node_class :: u8
  ps_update_period_static_s :: u32
  ps_update_period_dynamic_s :: u32
  ps_update_period_offline_s :: u32
  ps_ble :: ble_settings
  ps_motion :: motion_settings
  ps_mbcn :: mbcn_config
  ps_da :: da_settings

record pos_aux =
  ax_led_on_duration_s :: u16
  ax_led_cmd_seq :: u8

definition POSLIB_MODE_NRLS_TAG :: u8 where "POSLIB_MODE_NRLS_TAG = 1"
definition POSLIB_MODE_AUTOSCAN_TAG :: u8 where "POSLIB_MODE_AUTOSCAN_TAG = 2"
definition POSLIB_MODE_AUTOSCAN_ANCHOR :: u8 where "POSLIB_MODE_AUTOSCAN_ANCHOR = 3"
definition POSLIB_MODE_OPPORTUNISTIC_ANCHOR :: u8 where "POSLIB_MODE_OPPORTUNISTIC_ANCHOR = 4"
definition POSLIB_MODE_DA_TAG :: u8 where "POSLIB_MODE_DA_TAG = 5"

definition POSLIB_BLE_OFF :: u8 where "POSLIB_BLE_OFF = 0"
definition POSLIB_BLE_ON :: u8 where "POSLIB_BLE_ON = 1"
definition POSLIB_BLE_ON_WHEN_OFFLINE :: u8 where "POSLIB_BLE_ON_WHEN_OFFLINE = 2"

definition POSLIB_CLASS_NODE_SPECIFIC :: u8 where "POSLIB_CLASS_NODE_SPECIFIC = 0xF8"

definition POSLIB_MIN_MEAS_RATE_S :: u32 where "POSLIB_MIN_MEAS_RATE_S = 8"
definition POSLIB_MAX_MEAS_RATE_S :: u32 where "POSLIB_MAX_MEAS_RATE_S = 86400"
definition POSAPP_MOTION_THRESHOLD_MG_MIN :: u16 where "POSAPP_MOTION_THRESHOLD_MG_MIN = 100"
definition POSAPP_MOTION_THRESHOLD_MG_MAX :: u16 where "POSAPP_MOTION_THRESHOLD_MG_MAX = 2000"
definition POSAPP_MOTION_THRESHOLD_MG_DISABLED :: u16 where "POSAPP_MOTION_THRESHOLD_MG_DISABLED = 65535"
definition POSAPP_MOTION_DURATION_MS_MIN :: u16 where "POSAPP_MOTION_DURATION_MS_MIN = 0"
definition POSAPP_MOTION_DURATION_MS_MAX :: u16 where "POSAPP_MOTION_DURATION_MS_MAX = 2000"

lemmas mode_defs = POSLIB_MODE_NRLS_TAG_def POSLIB_MODE_AUTOSCAN_TAG_def POSLIB_MODE_AUTOSCAN_ANCHOR_def
  POSLIB_MODE_OPPORTUNISTIC_ANCHOR_def POSLIB_MODE_DA_TAG_def

lemmas motion_defs = POSAPP_MOTION_THRESHOLD_MG_MIN_def POSAPP_MOTION_THRESHOLD_MG_MAX_def
  POSAPP_MOTION_DURATION_MS_MIN_def POSAPP_MOTION_DURATION_MS_MAX_def

record pos_build =
  bd_persistent :: bool
  bd_motion :: bool
  bd_voltage :: bool

record pos_lib =
  pl_build :: pos_build
  pl_getNodeAddress :: "app_res \<times> u32"
  pl_getNodeRole :: u8
  pl_otap_isValid :: bool
  pl_otap_isProcessed :: bool
  pl_otap_getSeq :: u8

subsection \<open>Commands\<close>

record decoding =
  dc_ret :: bool
  dc_settings :: pos_settings
  dc_aux :: pos_aux
  dc_otap :: bool

definition is_node_mode_anchor :: "u8 \<Rightarrow> bool" where
  "is_node_mode_anchor m \<longleftrightarrow> m = POSLIB_MODE_AUTOSCAN_ANCHOR \<or> m = POSLIB_MODE_OPPORTUNISTIC_ANCHOR"

definition is_node_mode_tag :: "u8 \<Rightarrow> bool" where
  "is_node_mode_tag m \<longleftrightarrow> m = POSLIB_MODE_NRLS_TAG \<or> m = POSLIB_MODE_AUTOSCAN_TAG \<or> m = POSLIB_MODE_DA_TAG"

text \<open>The outer \<open>None\<close> is a copy from outside of the buffer, the inner one the result false.\<close>

definition get_uint :: "tlv_item \<Rightarrow> nat \<Rightarrow> u32 option option" where
  "get_uint item uint_type =
     (if uint_type = unat (it_length item) \<and> (uint_type = 1 \<or> uint_type = 2 \<or> uint_type = 4)
      then map_option (\<lambda>bs. Some (le_val bs)) (rd_bytes (it_value item) 0 (unat (it_length item)))
      else Some None)"

definition check_node_address :: "pos_lib \<Rightarrow> tlv_item \<Rightarrow> bool option" where
  "check_node_address lib item =
     (if it_type item \<noteq> 0x06 then Some False
      else map_option (\<lambda>v. v \<noteq> None \<and> fst (pl_getNodeAddress lib) = APP_RES_OK \<and> v = Some (snd (pl_getNodeAddress lib)))
             (get_uint item 4))"

definition set_measurement_rate :: "tlv_item \<Rightarrow> pos_settings \<Rightarrow> (bool \<times> pos_settings) option" where
  "set_measurement_rate item settings =
     do {
       v \<leftarrow> get_uint item 2;
       v \<leftarrow> (if v = None then get_uint item 4 else Some v);
       Some (case v of
           None \<Rightarrow> (False, settings)
         | Some meas_rate_s \<Rightarrow>
             if meas_rate_s > POSLIB_MAX_MEAS_RATE_S \<or> meas_rate_s < POSLIB_MIN_MEAS_RATE_S \<and> meas_rate_s \<noteq> 0
             then (False, settings)
             else if it_type item = 0x01
             then if meas_rate_s = 0 then (False, settings)
                  else (True, settings\<lparr>ps_update_period_static_s := meas_rate_s\<rparr>)
             else if it_type item = 0x03 then (True, settings\<lparr>ps_update_period_dynamic_s := meas_rate_s\<rparr>)
             else if it_type item = 0x05 then (True, settings\<lparr>ps_update_period_offline_s := meas_rate_s\<rparr>)
             else (False, settings))
     }"

definition set_blebeacon :: "tlv_item \<Rightarrow> pos_settings \<Rightarrow> (bool \<times> pos_settings) option" where
  "set_blebeacon item settings =
     map_option (\<lambda>v. case v of
         None \<Rightarrow> (False, settings)
       | Some v \<Rightarrow>
           (let delay = ucast v :: u16;
                mode = (if delay = 0 then POSLIB_BLE_OFF else if delay = 65535 then POSLIB_BLE_ON else POSLIB_BLE_ON_WHEN_OFFLINE)
            in (True, settings\<lparr>ps_ble := (ps_ble settings)\<lparr>bl_activation_delay_s := delay, bl_mode := mode\<rparr>\<rparr>)))
       (get_uint item 2)"

definition set_class :: "tlv_item \<Rightarrow> pos_settings \<Rightarrow> (bool \<times> pos_settings) option" where
  "set_class item settings =
     map_option (\<lambda>v. case v of
         None \<Rightarrow> (False, settings)
       | Some v \<Rightarrow>
           (let class = ucast v :: u8
            in if class \<in> {0xF9, 0xFA, 0xFB, 0xFC, 0xFD, 0xFE, 0xFF} then (True, settings\<lparr>ps_node_class := class\<rparr>)
               else (False, settings)))
       (get_uint item 1)"

text \<open>The result, and whether the update starts.\<close>

definition set_otap :: "pos_lib \<Rightarrow> tlv_item \<Rightarrow> (bool \<times> bool) option" where
  "set_otap lib item =
     map_option (\<lambda>v. case v of
         None \<Rightarrow> (False, False)
       | Some target_seq \<Rightarrow>
           (True, pl_otap_isValid lib \<and> \<not> pl_otap_isProcessed lib \<and> ucast target_seq = pl_otap_getSeq lib))
       (get_uint item 1)"

definition set_mode :: "pos_lib \<Rightarrow> tlv_item \<Rightarrow> bool \<Rightarrow> pos_settings \<Rightarrow> (bool \<times> pos_settings) option" where
  "set_mode lib item node_specific settings =
     map_option (\<lambda>v. case v of
         None \<Rightarrow> (False, settings)
       | Some v \<Rightarrow>
           (let node_mode = ucast v :: u8;
                force = (bd_persistent (pl_build lib) \<and> node_specific);
                role = pl_getNodeRole lib;
                accepted =
                  (if role \<in> {0x00, 0x10, 0x01, 0x11} then is_node_mode_anchor node_mode \<or> force
                   else if role \<in> {0x02, 0x12} then is_node_mode_tag node_mode \<or> force
                   else if role = 0x04 then is_node_mode_tag node_mode \<or> force
                   else False)
            in (True, if accepted then settings\<lparr>ps_node_mode := node_mode\<rparr> else settings)))
       (get_uint item 1)"

definition set_motion_threshold :: "tlv_item \<Rightarrow> pos_settings \<Rightarrow> (bool \<times> pos_settings) option" where
  "set_motion_threshold item settings =
     map_option (\<lambda>v. case v of
         None \<Rightarrow> (False, settings)
       | Some v \<Rightarrow>
           (let t = ucast v :: u16
            in if t \<ge> POSAPP_MOTION_THRESHOLD_MG_MIN \<and> t \<le> POSAPP_MOTION_THRESHOLD_MG_MAX
               then (True, settings\<lparr>ps_motion := (ps_motion settings)\<lparr>mo_enabled := True, mo_threshold_mg := t\<rparr>\<rparr>)
               else if t = POSAPP_MOTION_THRESHOLD_MG_DISABLED
               then (True, settings\<lparr>ps_motion := (ps_motion settings)\<lparr>mo_enabled := False, mo_threshold_mg := POSAPP_MOTION_THRESHOLD_MG_MAX\<rparr>\<rparr>)
               else (False, settings)))
       (get_uint item 2)"

definition set_motion_duration :: "tlv_item \<Rightarrow> pos_settings \<Rightarrow> (bool \<times> pos_settings) option" where
  "set_motion_duration item settings =
     map_option (\<lambda>v. case v of
         None \<Rightarrow> (False, settings)
       | Some v \<Rightarrow>
           (let d = ucast v :: u16
            in if d \<le> POSAPP_MOTION_DURATION_MS_MIN \<or> d > POSAPP_MOTION_DURATION_MS_MAX then (False, settings)
               else (True, settings\<lparr>ps_motion := (ps_motion settings)\<lparr>mo_duration_ms := d\<rparr>\<rparr>)))
       (get_uint item 2)"

definition set_led_on_duration :: "tlv_item \<Rightarrow> pos_aux \<Rightarrow> (bool \<times> pos_aux) option" where
  "set_led_on_duration item aux =
     map_option (\<lambda>v. case v of None \<Rightarrow> (False, aux) | Some v \<Rightarrow> (True, aux\<lparr>ax_led_on_duration_s := ucast v\<rparr>)) (get_uint item 2)"

definition set_led_cmd :: "tlv_item \<Rightarrow> pos_aux \<Rightarrow> (bool \<times> pos_aux) option" where
  "set_led_cmd item aux =
     map_option (\<lambda>v. case v of None \<Rightarrow> (False, aux) | Some v \<Rightarrow> (True, aux\<lparr>ax_led_cmd_seq := ucast v\<rparr>)) (get_uint item 1)"

text \<open>\<open>ret |= ...\<close> for a command on the settings or on the auxiliary settings.\<close>

definition on_settings :: "(pos_settings \<Rightarrow> (bool \<times> pos_settings) option) \<Rightarrow> decoding \<Rightarrow> decoding option" where
  "on_settings f d = map_option (\<lambda>(r, s). d\<lparr>dc_ret := dc_ret d \<or> r, dc_settings := s\<rparr>) (f (dc_settings d))"

definition on_aux :: "(pos_aux \<Rightarrow> (bool \<times> pos_aux) option) \<Rightarrow> decoding \<Rightarrow> decoding option" where
  "on_aux f d = map_option (\<lambda>(r, a). d\<lparr>dc_ret := dc_ret d \<or> r, dc_aux := a\<rparr>) (f (dc_aux d))"

text \<open>The switch over the type of an item.\<close>

definition config_command :: "pos_lib \<Rightarrow> bool \<Rightarrow> tlv_item \<Rightarrow> decoding \<Rightarrow> decoding option" where
  "config_command lib node_specific item d =
     (let t = it_type item; motion = bd_motion (pl_build lib)
      in if t = 0x01 \<or> t = 0x03 \<or> t = 0x05 then on_settings (set_measurement_rate item) d
         else if t = 0x08 then on_settings (set_blebeacon item) d
         else if t = 0x02 then on_settings (set_mode lib item node_specific) d
         else if t = 0x04 then map_option (\<lambda>(r, go). d\<lparr>dc_ret := dc_ret d \<or> r, dc_otap := dc_otap d \<or> go\<rparr>) (set_otap lib item)
         else if t = 0x0A then if node_specific then on_settings (set_class item) d else Some d
         else if t = 0x0B \<and> motion then on_settings (set_motion_threshold item) d
         else if t = 0x0C \<and> motion then on_settings (set_motion_duration item) d
         else if t = 0x0E then on_aux (set_led_on_duration item) d
         else if t = 0x0F then on_aux (set_led_cmd item) d
         else Some d)"

subsection \<open>Configurations\<close>

definition decode_configuration_commands :: "pos_lib \<Rightarrow> tlv_record \<Rightarrow> bool \<Rightarrow> decoding \<Rightarrow> decoding option" where
  "decode_configuration_commands lib rcd node_specific d =
     map_option snd (walk_items poslib_read (\<lambda>_. True) (config_command lib node_specific) rcd d)"

text \<open>The result of one record is combined with that of the others (\<open>ret |= ...\<close>).\<close>

definition decode_configuration_record :: "pos_lib \<Rightarrow> u16 \<Rightarrow> u8 list \<Rightarrow> u8 \<Rightarrow> decoding \<Rightarrow> decoding option" where
  "decode_configuration_record lib class buffer len d =
     (let rcd = PosLibTlv_init buffer len
      in if class = ucast POSLIB_CLASS_NODE_SPECIFIC
         then do {
           x \<leftarrow> poslib_read rcd;
           case x of
             Inr _ \<Rightarrow> Some d
           | Inl (rcd, item) \<Rightarrow> do {
               ok \<leftarrow> check_node_address lib item;
               if \<not> ok then Some d else decode_configuration_commands lib rcd True d
             }
         }
         else decode_configuration_commands lib rcd False d)"

definition decode_configuration :: "pos_lib \<Rightarrow> u16 \<Rightarrow> u8 list \<Rightarrow> u8 \<Rightarrow> decoding \<Rightarrow> decoding option" where
  "decode_configuration lib class buffer len d =
     map_option snd (walk_items tlv_read (\<lambda>_. True)
       (\<lambda>item d. if it_type item = class then decode_configuration_record lib class (it_value item) (it_length item) d
                 else Some d)
       (Tlv_init buffer len) d)"

definition PosLibDecode_config :: "pos_lib \<Rightarrow> u8 list \<Rightarrow> u32 \<Rightarrow> pos_settings \<Rightarrow> pos_aux \<Rightarrow> decoding option" where
  "PosLibDecode_config lib buffer len settings aux =
     do {
       d \<leftarrow> decode_configuration lib (ucast POSLIB_CLASS_NODE_SPECIFIC) buffer (ucast len)
              \<lparr>dc_ret = False, dc_settings = settings, dc_aux = aux, dc_otap = False\<rparr>;
       decode_configuration lib (ucast (ps_node_class (dc_settings d))) buffer (ucast len) d
     }"

subsection \<open>Records of a configuration\<close>

text \<open>The items the outer loop sees: at most 127 bytes, and with a byte after them when there is
  one after the configuration.\<close>

definition conf_fits :: "tlv_item \<Rightarrow> bool" where
  "conf_fits i \<longleftrightarrow> it_length i \<le> 127 \<and> unat (it_length i) < length (it_value i)"

lemma tlv_finish_conf:
  assumes "tlv_wf rcd" "unat (tlv_length rcd) < length (tlv_buffer rcd)" "len \<le> 127"
    "tlv_finish rcd type len = (TLV_RES_OK, rcd', Some i)"
  shows "conf_fits i"
proof -
  have "unat (tlv_index rcd) + unat len \<le> unat (tlv_length rcd)"
    using assms tlv_remaining [OF assms(1)] by (auto simp: tlv_finish_def not_less word_le_nat_alt split: if_splits)
  then show ?thesis using assms by (auto simp: tlv_finish_def conf_fits_def split: if_splits)
qed

lemma decode_conf:
  assumes wf: "tlv_wf rcd" and spare: "unat (tlv_length rcd) < length (tlv_buffer rcd)"
    and item: "Tlv_Decode_getNextItem rcd = Some (TLV_RES_OK, rcd', Some i)"
  shows "conf_fits i"
proof (cases "unat (tlv_index rcd) + 3 \<le> unat (tlv_length rcd)")
  case False
  then show ?thesis using decode_short [OF wf] item by (simp split: if_splits)
next
  case True
  have adv: "tlv_wf (rcd\<lparr>tlv_index := tlv_index rcd + w\<rparr>)" if "unat w \<le> 3" for w
    using tlv_wf_advance(1) [OF wf, of w] True that by simp
  obtain w type len where "unat w \<le> 3" "len \<le> 127"
    "tlv_finish (rcd\<lparr>tlv_index := tlv_index rcd + w\<rparr>) type len = (TLV_RES_OK, rcd', Some i)"
  proof (cases "bit (tlv_buffer rcd ! (unat (tlv_index rcd) + 1)) 7")
    case True
    then show ?thesis using decode_body [OF wf \<open>_ + 3 \<le> _\<close>] item by (intro that [of 3]) (simp_all add: take_7_le)
  next
    case False
    then show ?thesis using decode_body [OF wf \<open>_ + 3 \<le> _\<close>] item by (intro that [of 2]) (simp_all add: take_7_le)
  qed
  then show ?thesis using tlv_finish_conf [OF adv] spare by simp
qed

lemma tlv_read_item:
  assumes "tlv_read rcd = Some (Inl (r', i))"
  shows "Tlv_Decode_getNextItem rcd = Some (TLV_RES_OK, r', Some i)"
proof -
  obtain res rcd' it where d: "Tlv_Decode_getNextItem rcd = Some (res, rcd', it)"
    using assms by (auto simp: tlv_read_def)
  then show ?thesis using assms by (cases res; cases it) (simp_all add: tlv_read_def)
qed

interpretation conf_items: item_reader tlv_read "\<lambda>rcd. tlv_wf rcd \<and> unat (tlv_length rcd) < length (tlv_buffer rcd)"
  "\<lambda>rcd. unat (tlv_length rcd) - unat (tlv_index rcd)" conf_fits
proof
  fix rcd assume w: "tlv_wf rcd \<and> unat (tlv_length rcd) < length (tlv_buffer rcd)"
  then show "tlv_read rcd \<noteq> None" using tlv_items.read_ok by blast
  fix r' i assume r: "tlv_read rcd = Some (Inl (r', i))"
  then have "Tlv_Decode_getNextItem rcd = Some (TLV_RES_OK, r', Some i)" by (rule tlv_read_item)
  moreover from this have "tlv_buffer r' = tlv_buffer rcd" "tlv_length r' = tlv_length rcd"
    using decode_step [of rcd] w by auto
  ultimately show "(tlv_wf r' \<and> unat (tlv_length r') < length (tlv_buffer r')) \<and>
      unat (tlv_length r') - unat (tlv_index r') < unat (tlv_length rcd) - unat (tlv_index rcd) \<and> conf_fits i"
    using tlv_items.read_item [of rcd r' i] r w decode_conf [of rcd r' i] by simp
qed

subsection \<open>Every configuration is read and leaves valid settings\<close>

definition period_ok :: "u32 \<Rightarrow> bool" where
  "period_ok p \<longleftrightarrow> POSLIB_MIN_MEAS_RATE_S \<le> p \<and> p \<le> POSLIB_MAX_MEAS_RATE_S"

definition periods_ok :: "pos_settings \<Rightarrow> bool" where
  "periods_ok s \<longleftrightarrow> period_ok (ps_update_period_static_s s) \<and>
     (ps_update_period_dynamic_s s = 0 \<or> period_ok (ps_update_period_dynamic_s s)) \<and>
     (ps_update_period_offline_s s = 0 \<or> period_ok (ps_update_period_offline_s s))"

definition motion_ok :: "motion_settings \<Rightarrow> bool" where
  "motion_ok m \<longleftrightarrow> POSAPP_MOTION_THRESHOLD_MG_MIN \<le> mo_threshold_mg m \<and> mo_threshold_mg m \<le> POSAPP_MOTION_THRESHOLD_MG_MAX \<and>
     POSAPP_MOTION_DURATION_MS_MIN < mo_duration_ms m \<and> mo_duration_ms m \<le> POSAPP_MOTION_DURATION_MS_MAX"

definition settings_ok :: "pos_lib \<Rightarrow> pos_settings \<Rightarrow> bool" where
  "settings_ok lib s \<longleftrightarrow> periods_ok s \<and> ps_node_class s > POSLIB_CLASS_NODE_SPECIFIC \<and> bl_mode (ps_ble s) \<le> 2 \<and>
     motion_ok (ps_motion s) \<and>
     (bd_persistent (pl_build lib) \<or> is_node_mode_anchor (ps_node_mode s) \<or> is_node_mode_tag (ps_node_mode s))"

lemma get_uint_in: "fits_past 0 i \<Longrightarrow> \<exists>v. get_uint i n = Some v"
  by (auto simp: get_uint_def rd_bytes_in fits_past_def)

text \<open>A command on the settings reads inside of the buffer and keeps the settings valid.\<close>

definition keeps_valid :: "pos_lib \<Rightarrow> pos_settings \<Rightarrow> pos_settings \<Rightarrow> bool" where
  "keeps_valid lib s s' \<longleftrightarrow> (periods_ok s \<longrightarrow> periods_ok s') \<and> (settings_ok lib s \<longrightarrow> settings_ok lib s')"

lemma keeps_valid_refl [simp]: "keeps_valid lib s s"
  by (simp add: keeps_valid_def)

lemma keeps_valid_trans: "keeps_valid lib s s' \<Longrightarrow> keeps_valid lib s' s'' \<Longrightarrow> keeps_valid lib s s''"
  by (simp add: keeps_valid_def)

definition good_setter :: "pos_lib \<Rightarrow> (pos_settings \<Rightarrow> (bool \<times> pos_settings) option) \<Rightarrow> bool" where
  "good_setter lib f \<longleftrightarrow> (\<forall>s. \<exists>p. f s = Some p \<and> keeps_valid lib s (snd p))"

named_theorems setters \<open>commands that keep the settings valid\<close>

lemma good_map:
  assumes "fits_past 0 i" "\<And>v s. keeps_valid lib s (snd (g s v))"
  shows "good_setter lib (\<lambda>s. map_option (g s) (get_uint i n))"
proof -
  obtain v where "get_uint i n = Some v" using get_uint_in [OF assms(1)] by blast
  then have "map_option (g s) (get_uint i n) = Some (g s v)" for s by simp
  then show ?thesis unfolding good_setter_def using assms(2) by blast
qed

lemma rate_good [setters]: "fits_past 0 i \<Longrightarrow> good_setter lib (set_measurement_rate i)"
  using get_uint_in [of i 2] get_uint_in [of i 4]
  by (auto simp: good_setter_def set_measurement_rate_def keeps_valid_def settings_ok_def periods_ok_def period_ok_def not_less
      split: option.splits)

lemma blebeacon_good [setters]: "fits_past 0 i \<Longrightarrow> good_setter lib (set_blebeacon i)"
  unfolding set_blebeacon_def
  by (erule good_map) (simp add: keeps_valid_def settings_ok_def periods_ok_def Let_def POSLIB_BLE_OFF_def
      POSLIB_BLE_ON_def POSLIB_BLE_ON_WHEN_OFFLINE_def split: option.splits)

lemma class_good [setters]: "fits_past 0 i \<Longrightarrow> good_setter lib (set_class i)"
  unfolding set_class_def
  by (erule good_map) (auto simp: keeps_valid_def settings_ok_def periods_ok_def Let_def POSLIB_CLASS_NODE_SPECIFIC_def split: option.splits)

lemma mode_good [setters]: "fits_past 0 i \<Longrightarrow> good_setter lib (set_mode lib i ns)"
  unfolding set_mode_def
  by (erule good_map) (auto simp: keeps_valid_def settings_ok_def periods_ok_def Let_def split: option.splits)

lemma threshold_good [setters]: "fits_past 0 i \<Longrightarrow> good_setter lib (set_motion_threshold i)"
  unfolding set_motion_threshold_def
  by (erule good_map) (auto simp: keeps_valid_def settings_ok_def periods_ok_def motion_ok_def Let_def motion_defs
      split: option.splits)

lemma duration_good [setters]: "fits_past 0 i \<Longrightarrow> good_setter lib (set_motion_duration i)"
  unfolding set_motion_duration_def
  by (erule good_map) (auto simp: keeps_valid_def settings_ok_def periods_ok_def motion_ok_def Let_def split: option.splits)

definition decoding_ok :: "pos_lib \<Rightarrow> pos_settings \<Rightarrow> decoding \<Rightarrow> bool" where
  "decoding_ok lib s d \<longleftrightarrow> keeps_valid lib s (dc_settings d)"

lemma on_settings_good:
  "good_setter lib f \<Longrightarrow> decoding_ok lib s d \<Longrightarrow> \<exists>d'. on_settings f d = Some d' \<and> decoding_ok lib s d'"
  unfolding good_setter_def on_settings_def decoding_ok_def
  by (drule spec [of _ "dc_settings d"]) (auto intro: keeps_valid_trans)

lemma good_if:
  "\<exists>d. a = Some d \<and> P d \<Longrightarrow> \<exists>d. b = Some d \<and> P d \<Longrightarrow> \<exists>d. (if c then a else b) = Some d \<and> P d"
  by simp

lemma config_command_good:
  assumes i: "fits_past 0 i" and d: "decoding_ok lib s d"
  shows "\<exists>d'. config_command lib ns i d = Some d' \<and> decoding_ok lib s d'"
proof -
  obtain v1 v2 where v: "get_uint i 1 = Some v1" "get_uint i 2 = Some v2" using get_uint_in [OF i] by metis
  have o: "\<exists>d'. map_option (\<lambda>(r, go). d\<lparr>dc_ret := dc_ret d \<or> r, dc_otap := dc_otap d \<or> go\<rparr>) (set_otap lib i) = Some d' \<and>
      decoding_ok lib s d'"
    using v d by (simp add: set_otap_def decoding_ok_def split_def)
  have l: "\<exists>d'. on_aux (set_led_on_duration i) d = Some d' \<and> decoding_ok lib s d'"
    "\<exists>d'. on_aux (set_led_cmd i) d = Some d' \<and> decoding_ok lib s d'"
    using v d by (simp_all add: on_aux_def set_led_on_duration_def set_led_cmd_def decoding_ok_def split_def)
  have n: "\<exists>d'. Some d = Some d' \<and> decoding_ok lib s d'" using d by simp
  show ?thesis
    unfolding config_command_def Let_def
    by (intro good_if o l n setters [OF i, THEN on_settings_good, OF d])
qed

lemma commands_good:
  assumes "ptlv_wf rcd" "unat (tlv_length rcd) < length (tlv_buffer rcd)" "decoding_ok lib s d"
  shows "\<exists>d'. decode_configuration_commands lib rcd ns d = Some d' \<and> decoding_ok lib s d'"
  using poslib_items.walk_returns [where I = "decoding_ok lib s", OF _ assms(3) config_command_good] assms(1,2)
  by (fastforce simp: decode_configuration_commands_def)

lemma record_good:
  assumes i: "conf_fits i" and d: "decoding_ok lib s d"
  shows "\<exists>d'. decode_configuration_record lib c (it_value i) (it_length i) d = Some d' \<and> decoding_ok lib s d'"
proof -
  let ?r = "PosLibTlv_init (it_value i) (it_length i)"
  have r: "ptlv_wf ?r" "unat (tlv_length ?r) < length (tlv_buffer ?r)"
    using i by (auto simp: conf_fits_def ptlv_wf_def PosLibTlv_init_def word_le_nat_alt word_less_nat_alt)
  obtain x where x: "poslib_read ?r = Some x" using poslib_items.read_ok [of ?r] r by blast
  show ?thesis
  proof (cases "c = ucast POSLIB_CLASS_NODE_SPECIFIC \<and> isl x")
    case True
    then obtain r' j where l: "x = Inl (r', j)" by (metis sum.collapse(1) surj_pair)
    then have j: "ptlv_wf r'" "unat (tlv_length r') < length (tlv_buffer r')" "fits_past 0 j"
      using poslib_items.read_item [of ?r r' j] x r by auto
    obtain ok where "check_node_address lib j = Some ok"
      using get_uint_in [OF j(3), of 4] unfolding check_node_address_def by (metis option.map(2))
    then show ?thesis
      using True x l d commands_good [OF j(1,2) d] by (auto simp: decode_configuration_record_def Let_def)
  next
    case False
    then show ?thesis using x d commands_good [OF r d]
      by (auto simp: decode_configuration_record_def Let_def split: sum.splits)
  qed
qed

lemma configuration_good:
  assumes len: "unat len < length buffer" and d: "decoding_ok lib s d"
  shows "\<exists>d'. decode_configuration lib c buffer len d = Some d' \<and> decoding_ok lib s d'"
proof -
  have "tlv_wf (Tlv_init buffer len) \<and> unat (tlv_length (Tlv_init buffer len)) < length (tlv_buffer (Tlv_init buffer len))"
    using len by (simp add: tlv_wf_def Tlv_init_def)
  then have "\<exists>e d'. walk_items tlv_read (\<lambda>_. True) (\<lambda>item d. if it_type item = c
        then decode_configuration_record lib c (it_value item) (it_length item) d else Some d) (Tlv_init buffer len) d = Some (e, d') \<and>
      decoding_ok lib s d'"
    by (rule conf_items.walk_returns) (use d record_good in auto)
  then show ?thesis by (auto simp: decode_configuration_def)
qed

lemma config_decoded:
  assumes "unat (ucast len :: u8) < length buffer"
  shows "\<exists>d. PosLibDecode_config lib buffer len s aux = Some d \<and> keeps_valid lib s (dc_settings d)"
proof -
  let ?d = "\<lparr>dc_ret = False, dc_settings = s, dc_aux = aux, dc_otap = False\<rparr>"
  have "decoding_ok lib s ?d" by (simp add: decoding_ok_def)
  from configuration_good [OF assms this] obtain d
    where d: "decode_configuration lib (ucast POSLIB_CLASS_NODE_SPECIFIC) buffer (ucast len) ?d = Some d" "decoding_ok lib s d"
    by blast
  from configuration_good [OF assms d(2), of "ucast (ps_node_class (dc_settings d))"] d(1)
  show ?thesis by (auto simp: PosLibDecode_config_def decoding_ok_def)
qed

subsection \<open>What a configuration does\<close>

lemma get_uint_alike:
  assumes "fits_past 0 i" "alike i j"
  shows "get_uint j n = get_uint i n"
proof -
  have "it_length j = it_length i" "take (unat (it_length i)) (it_value j) = take (unat (it_length i)) (it_value i)"
    using assms by (auto simp: alike_def same_item_def item_bytes_def)
  moreover have "unat (it_length i) \<le> length (it_value i)" "unat (it_length i) \<le> length (it_value j)"
    using assms calculation(1) by (auto simp: fits_past_def alike_def)
  ultimately show ?thesis unfolding get_uint_def rd_bytes_def by auto
qed

lemma config_command_alike:
  assumes "pitem_ok i" "alike i j"
  shows "config_command lib ns j = config_command lib ns i" "check_node_address lib j = check_node_address lib i"
proof -
  have g: "get_uint j n = get_uint i n" for n using assms by (intro get_uint_alike) (simp_all add: pitem_ok_def)
  have t: "it_type j = it_type i" using assms by (simp add: alike_def same_item_def)
  show "check_node_address lib j = check_node_address lib i" by (simp add: check_node_address_def g t)
  show "config_command lib ns j = config_command lib ns i"
    unfolding config_command_def set_measurement_rate_def set_blebeacon_def set_mode_def set_otap_def set_class_def
      set_motion_threshold_def set_motion_duration_def set_led_on_duration_def set_led_cmd_def g t ..
qed

text \<open>A record of a configuration is for a class and has commands.  That of the node specific
  class starts with the address of the node it is for.\<close>

definition carries :: "tlv_item \<Rightarrow> u16 \<times> tlv_item list \<Rightarrow> bool" where
  "carries i rec \<longleftrightarrow> item_decodable i \<and> it_type i = fst rec \<and> list_all pitem_ok (snd rec) \<and>
     item_bytes i = concat (map pitem_wire (snd rec))"

definition record_effect :: "pos_lib \<Rightarrow> u16 \<Rightarrow> tlv_item list \<Rightarrow> decoding \<Rightarrow> decoding option" where
  "record_effect lib c cmds d =
     (if c = ucast POSLIB_CLASS_NODE_SPECIFIC
      then case cmds of
             [] \<Rightarrow> Some d
           | a # cmds \<Rightarrow> if check_node_address lib a = Some True then foldo (config_command lib True) cmds d else Some d
      else foldo (config_command lib False) cmds d)"

lemma commands_applied:
  assumes "tlv_wf rcd" "tlv_length rcd < 255" "list_all pitem_ok cmds" "tlv_rest rcd = concat (map pitem_wire cmds)"
  shows "decode_configuration_commands lib rcd ns d = foldo (config_command lib ns) cmds d"
proof -
  have "walk_items poslib_read (\<lambda>_. True) (config_command lib ns) rcd d =
      map_option (Pair (Some POSLIB_TLV_RES_END)) (foldo (config_command lib ns) cmds d)"
    by (rule poslib_format.walk_reads [where I = "\<lambda>_. True"]) (use assms config_command_alike in \<open>auto simp: list_all_iff\<close>)
  then show ?thesis by (simp add: decode_configuration_commands_def option.map_comp comp_def option.map_ident)
qed

lemma record_applied:
  assumes i: "carries i (c, cmds)" and j: "alike i j"
  shows "decode_configuration_record lib c (it_value j) (it_length j) d = record_effect lib c cmds d"
proof -
  let ?r = "PosLibTlv_init (it_value j) (it_length j)"
  have cmds: "list_all pitem_ok cmds" using i by (simp add: carries_def)
  have "it_length j \<le> 127" using i j by (simp add: carries_def item_decodable_def item_ok_def alike_def same_item_def)
  then have r: "tlv_wf ?r" "tlv_length ?r < 255"
    using j by (auto simp: tlv_wf_def PosLibTlv_init_def alike_def fits_past_def word_le_nat_alt word_less_nat_alt)
  have rest: "tlv_rest ?r = concat (map pitem_wire cmds)"
    using i j by (simp add: tlv_rest_def PosLibTlv_init_def carries_def alike_def same_item_def item_bytes_def)
  show ?thesis
  proof (cases "c = ucast POSLIB_CLASS_NODE_SPECIFIC")
    case False
    then show ?thesis using commands_applied [OF r cmds rest] by (simp add: decode_configuration_record_def record_effect_def)
  next
    case True
    show ?thesis
    proof (cases cmds)
      case Nil
      then show ?thesis using True poslib_format.read_end [of ?r] r rest
        by (simp add: decode_configuration_record_def record_effect_def)
    next
      case (Cons a as)
      then obtain r' b where b: "poslib_read ?r = Some (Inl (r', b))" "tlv_wf r'" "tlv_length r' < 255"
        "tlv_rest r' = concat (map pitem_wire as)" "alike a b"
        using poslib_format.read_wire [of ?r a "concat (map pitem_wire as)"] r rest cmds by auto
      have a: "check_node_address lib b = check_node_address lib a" "list_all pitem_ok as" "pitem_ok a"
        using config_command_alike(2) b cmds Cons by auto
      obtain k where "check_node_address lib a = Some k"
        using get_uint_in [of a 4] a(3) unfolding check_node_address_def pitem_ok_def by (metis option.map(2))
      then show ?thesis using True Cons b a commands_applied [OF b(2,3) a(2) b(4)]
        by (simp add: decode_configuration_record_def record_effect_def)
    qed
  qed
qed

lemma foldo_cong2:
  "list_all2 P xs ys \<Longrightarrow> (\<And>x y. P x y \<Longrightarrow> f x = g y) \<Longrightarrow> foldo f xs s = foldo g ys s"
  by (induction arbitrary: s rule: list_all2_induct) (auto split: bind_splits)

lemma configuration_applied:
  assumes recs: "list_all2 carries is recs" and len: "length (concat (map item_wire is)) = unat len"
  shows "decode_configuration lib c (concat (map item_wire is) @ rest) len d =
     foldo (\<lambda>(c', cmds) d. if c' = c then record_effect lib c cmds d else Some d) recs d"
proof -
  let ?r = "Tlv_init (concat (map item_wire is) @ rest) len"
  let ?act = "\<lambda>i d. if it_type i = c then decode_configuration_record lib c (it_value i) (it_length i) d else Some d"
  have r: "tlv_wf ?r" "tlv_rest ?r = concat (map item_wire is)" using len by (simp_all add: tlv_wf_def tlv_rest_def Tlv_init_def)
  have one: "?act j = (case rec of (c', cmds) \<Rightarrow> \<lambda>d. if c' = c then record_effect lib c cmds d else Some d)"
    if "carries i rec" "alike i j" for i j rec
    using that record_applied [of i c "snd rec" j lib]
    by (auto simp: carries_def alike_def same_item_def fun_eq_iff split: prod.splits)
  have self: "alike i i" if "carries i rec" for i rec
    using that by (simp add: carries_def item_decodable_def item_ok_def alike_def same_item_def fits_past_def)
  have ex: "\<exists>rec. carries i rec" if "i \<in> set is" for i using recs that by (metis in_set_conv_nth list_all2_conv_all_nth)
  have "walk_items tlv_read (\<lambda>_. True) ?act ?r d = map_option (Pair (Some TLV_RES_END)) (foldo ?act is d)"
  proof (rule tlv_format.walk_reads [where I = "\<lambda>_. True", OF _ _ _ r(1) _ r(2)])
    show "list_all item_decodable is" using ex by (auto simp: list_all_iff carries_def)
    fix i j assume "i \<in> set is" and j: "alike i j"
    then obtain rec where c: "carries i rec" using ex by blast
    show "?act j = ?act i" unfolding one [OF c j] one [OF c self [OF c]] ..
  qed simp_all
  moreover have "foldo ?act is d = foldo (\<lambda>(c', cmds) d. if c' = c then record_effect lib c cmds d else Some d) recs d"
    using recs by (rule foldo_cong2) (rule one [OF _ self])
  ultimately show ?thesis by (simp add: decode_configuration_def option.map_comp comp_def option.map_ident)
qed

text \<open>A configuration in a buffer is decoded without a read after the buffer when it does not
  fill the buffer, or when it does and is made of whole records and commands.\<close>

definition config_readable :: "u8 list \<Rightarrow> u8 \<Rightarrow> bool" where
  "config_readable buffer len \<longleftrightarrow> unat len < length buffer \<or>
     (unat len = length buffer \<and> (\<exists>is recs. list_all2 carries is recs \<and> buffer = concat (map item_wire is)))"

lemma foldo_good:
  assumes "P d" "\<And>x d. x \<in> set xs \<Longrightarrow> P d \<Longrightarrow> \<exists>d'. f x d = Some d' \<and> P d'"
  shows "\<exists>d'. foldo f xs d = Some d' \<and> P d'"
  using assms
proof (induction xs arbitrary: d)
  case (Cons x xs)
  then obtain d1 where d1: "f x d = Some d1" "P d1" by (metis list.set_intros(1))
  from Cons.IH [OF d1(2)] Cons.prems(2) obtain d' where "foldo f xs d1 = Some d'" "P d'" by auto
  with d1 show ?case by simp
qed simp

lemma record_effect_good:
  assumes "list_all pitem_ok cmds" "decoding_ok lib s d"
  shows "\<exists>d'. record_effect lib c cmds d = Some d' \<and> decoding_ok lib s d'"
proof -
  have run: "\<exists>d'. foldo (config_command lib ns) cs d = Some d' \<and> decoding_ok lib s d'" if "set cs \<subseteq> set cmds" for ns cs
    using assms that by (intro foldo_good config_command_good) (auto simp: list_all_iff pitem_ok_def)
  show ?thesis
    using run [of cmds] assms(2) run [of "tl cmds"] by (cases cmds) (auto simp: record_effect_def)
qed

lemma readable_decoded:
  assumes "config_readable buffer (ucast len)"
  shows "\<exists>d. PosLibDecode_config lib buffer len s aux = Some d \<and> keeps_valid lib s (dc_settings d)"
proof (cases "unat (ucast len :: u8) < length buffer")
  case True
  then show ?thesis by (rule config_decoded)
next
  case False
  then obtain "is" recs where r: "list_all2 carries is recs" and b: "buffer = concat (map item_wire is)"
    and l: "length (concat (map item_wire is)) = unat (ucast len :: u8)"
    using assms by (auto simp: config_readable_def)
  have cmds: "list_all pitem_ok (snd rec)" if "rec \<in> set recs" for rec
    using r that by (auto simp: list_all2_conv_all_nth in_set_conv_nth carries_def)
  have good: "\<exists>d'. decode_configuration lib c buffer (ucast len) d = Some d' \<and> decoding_ok lib s d'" if "decoding_ok lib s d" for c d
    using configuration_applied [OF r l, of lib c "[]" d] foldo_good [of "decoding_ok lib s" d recs] that record_effect_good cmds
    unfolding b append_Nil2 by (fastforce split: prod.splits)
  let ?d = "\<lparr>dc_ret = False, dc_settings = s, dc_aux = aux, dc_otap = False\<rparr>"
  have "decoding_ok lib s ?d" by (simp add: decoding_ok_def)
  from good [OF this] obtain d where d: "decode_configuration lib (ucast POSLIB_CLASS_NODE_SPECIFIC) buffer (ucast len) ?d = Some d"
    "decoding_ok lib s d" by blast
  from good [OF d(2), of "ucast (ps_node_class (dc_settings d))"] d(1)
  show ?thesis by (auto simp: PosLibDecode_config_def decoding_ok_def)
qed

subsection \<open>Properties\<close>

text \<open>C33: whatever bytes a configuration has, with one readable byte after it, decoding it ends
  without reading anything else, and settings in their documented ranges stay in them: the
  update periods (8 s to 86400 s, for the dynamic and the offline one also 0), the class, the
  beacon mode, the node mode and the threshold and the duration of the motion detection.  With
  persistent settings a command for the node may set any node mode, which is then not claimed.\<close>

theorem config_keeps_settings_valid:
  assumes "unat (ucast len :: u8) < length buffer"
  shows "\<exists>d. PosLibDecode_config lib buffer len s aux = Some d \<and> (settings_ok lib s \<longrightarrow> settings_ok lib (dc_settings d))"
  using config_decoded [OF assms] unfolding keeps_valid_def by blast

definition settings_example :: pos_settings where
  "settings_example =
     \<lparr>ps_node_mode = 2, ps_node_class = 0xF9, ps_update_period_static_s = 60, ps_update_period_dynamic_s = 0,
      ps_update_period_offline_s = 0,
      ps_ble = \<lparr>bl_type = 1, bl_mode = 0, bl_eddystone = \<lparr>bm_tx_power = 0, bm_channels = 6, bm_tx_interval_ms = 500\<rparr>,
        bl_ibeacon = \<lparr>bm_tx_power = 0, bm_channels = 6, bm_tx_interval_ms = 500\<rparr>, bl_activation_delay_s = 0\<rparr>,
      ps_motion = \<lparr>mo_enabled = False, mo_threshold_mg = 2000, mo_duration_ms = 100\<rparr>,
      ps_mbcn = \<lparr>mc_enabled = False, mc_tx_interval_ms = 1000, mc_records = []\<rparr>,
      ps_da = \<lparr>da_routing_enabled = False, da_follow_network = False\<rparr>\<rparr>"

definition aux_example :: pos_aux where
  "aux_example = \<lparr>ax_led_on_duration_s = 0, ax_led_cmd_seq = 0\<rparr>"

definition pos_lib_example :: pos_lib where
  "pos_lib_example =
     \<lparr>pl_build = \<lparr>bd_persistent = False, bd_motion = True, bd_voltage = True\<rparr>, pl_getNodeAddress = (APP_RES_OK, 0x1234),
      pl_getNodeRole = 0x12, pl_otap_isValid = False, pl_otap_isProcessed = False, pl_otap_getSeq = 0\<rparr>"

theorem config_keeps_settings_valid_witness:
  "\<exists>d. PosLibDecode_config pos_lib_example [0xF9, 3, 0x41, 30, 0, 0] 5 settings_example aux_example = Some d \<and>
     settings_ok pos_lib_example (dc_settings d)"
proof -
  have "settings_ok pos_lib_example settings_example"
    by (simp add: settings_ok_def periods_ok_def period_ok_def settings_example_def POSLIB_MIN_MEAS_RATE_S_def
        POSLIB_MAX_MEAS_RATE_S_def POSLIB_CLASS_NODE_SPECIFIC_def is_node_mode_tag_def mode_defs
        motion_ok_def motion_defs)
  then show ?thesis
    using config_keeps_settings_valid [of 5 "[0xF9, 3, 0x41, 30, 0, 0]" pos_lib_example settings_example aux_example] by simp
qed

text \<open>C32: a configuration written as items for classes is applied in two passes: first the
  commands of the node specific records that start with the address of this node, in order,
  then those of the records for the class the node is in after the first pass; records for
  other nodes and other classes do nothing.\<close>

theorem config_applied:
  assumes "list_all2 carries is recs" "length (concat (map item_wire is)) = unat (ucast len :: u8)"
  shows "PosLibDecode_config lib (concat (map item_wire is) @ rest) len s aux =
     do {
       d \<leftarrow> foldo (\<lambda>(c, cmds). if c = 0xF8 then record_effect lib c cmds else Some) recs
              \<lparr>dc_ret = False, dc_settings = s, dc_aux = aux, dc_otap = False\<rparr>;
       foldo (\<lambda>(c, cmds). if c = ucast (ps_node_class (dc_settings d)) then record_effect lib c cmds else Some) recs d
     }"
proof -
  have k: "ucast POSLIB_CLASS_NODE_SPECIFIC = (0xF8 :: u16)" by (simp add: POSLIB_CLASS_NODE_SPECIFIC_def)
  have e: "(\<lambda>(c', cmds) d. if c' = c then record_effect lib c cmds d else Some d) =
      (\<lambda>(c', cmds). if c' = c then record_effect lib c' cmds else Some)" for c
    by (auto simp: fun_eq_iff)
  show ?thesis
    unfolding PosLibDecode_config_def configuration_applied [OF assms] e k ..
qed

definition conf_item :: "u16 \<Rightarrow> tlv_item list \<Rightarrow> tlv_item" where
  "conf_item c cmds =
     (let bs = concat (map pitem_wire cmds) in \<lparr>it_value = bs, it_type = c, it_length = of_nat (length bs)\<rparr>)"

definition command_item :: "u16 \<Rightarrow> u8 list \<Rightarrow> tlv_item" where
  "command_item t bs = \<lparr>it_value = bs, it_type = t, it_length = of_nat (length bs)\<rparr>"

definition conf_example :: "(u16 \<times> tlv_item list) list" where
  "conf_example =
     [(0xF8, [command_item 6 [0x34, 0x12, 0, 0], command_item 0x0A [0xFA]]), (0xF9, [command_item 1 [30, 0]]),
      (0xFA, [command_item 1 [120, 0]])]"

theorem config_applied_witness:
  "map_option (\<lambda>d. (ps_node_class (dc_settings d), ps_update_period_static_s (dc_settings d)))
     (PosLibDecode_config pos_lib_example (concat (map item_wire (map (\<lambda>(c, cmds). conf_item c cmds) conf_example)) @ [])
        19 settings_example aux_example) = Some (0xFA, 120)"
proof -
  have c: "list_all2 carries (map (\<lambda>(c, cmds). conf_item c cmds) conf_example) conf_example" by code_simp
  have l: "length (concat (map item_wire (map (\<lambda>(c, cmds). conf_item c cmds) conf_example))) = unat (ucast (19::u32) :: u8)"
    by code_simp
  show ?thesis unfolding config_applied [OF c l] by code_simp
qed

text \<open>The length of a compact item is checked as if its first byte was not there: the last
  command of a configuration can have a byte of its value after the end.\<close>

lemma value_past_end:
  "PosLibDecode_config pos_lib_example [0xF9, 2, 0x41, 30] 4 settings_example aux_example = None"
  by code_simp

text \<open>So does one that fills the 80 bytes of the buffer for the configuration.\<close>

lemma full_buffer_overread:
  "PosLibDecode_config pos_lib_example ([0xF9, 78] @ concat (replicate 38 [0x3F, 0]) @ [0x41, 30]) 80 settings_example aux_example = None"
  by code_simp

end
