(* ===== verification/Pos_Event.thy ===== *)
theory Pos_Event
  imports Sl_List Scheduler_Props Pos_Decode Shared_Offline Shared_Appconfig
begin

text \<open>
  \<open>libraries/positioning/poslib/poslib_event.c\<close>: the events of the positioning library are
  queued in one of 16 slots, which a task hands one by one to the modules and, as public events,
  to the subscribers.  The state \<open>pos_core\<close> also has the scheduler, with the tasks by their
  names, and the log \<open>co_log\<close> of the calls to the stack, to shared libraries and to
  callbacks; the records of the other modules extend it.  The handlers of the modules are an
  argument of \<open>handle_events\<close>.

  The queue is an intrusive list of \<open>util/sl_list.c\<close> over the numbers of the slots.
\<close>

subsection \<open>State\<close>

datatype (plugins only: code) poslib_event =
  POSLIB_CTRL_EVENT_NONE | POSLIB_CTRL_EVENT_SCAN_STARTED | POSLIB_CTRL_EVENT_SCAN_END | POSLIB_CTRL_EVENT_ONLINE
| POSLIB_CTRL_EVENT_OFFLINE | POSLIB_CTRL_EVENT_APPCFG | POSLIB_CTRL_EVENT_TIMEOUT | POSLIB_CTRL_EVENT_DATA_SENT
| POSLIB_CTRL_EVENT_ONESHOT | POSLIB_CTRL_EVENT_CONFIG_CHANGE | POSLIB_CTRL_EVENT_ROUTE_CHANGE
| POSLIB_CTRL_EVENT_UPDATE_START | POSLIB_CTRL_EVENT_UPDATE_END | POSLIB_CTRL_EVENT_OUTSIDE_WM | POSLIB_CTRL_EVENT_UNDER_WM
| POSLIB_CTRL_EVENT_MOTION | POSLIB_CTRL_EVENT_BLE_START | POSLIB_CTRL_EVENT_BLE_STOP | POSLIB_CTRL_EVENT_LED_ON
| POSLIB_CTRL_EVENT_LED_OFF

datatype poslib_ret =
  POS_RET_OK | POS_RET_INVALID_STATE | POS_RET_INVALID_PARAM | POS_RET_INVALID_DATA | POS_RET_LIB_ERROR
| POS_RET_INTERNAL_ERROR | POS_RET_NOT_CONFIGURED | POS_RET_EVENT_REG_ERROR | POS_RET_MOTION_NOT_ENABLED

datatype pos_call =
  Listener_cb nat u16 u32 | Send_data data_to_send bool | Start_scan | Stop_scan | Enter_offline u32 | Enter_online
| Add_filter string | Remove_filter string | Ack_gen_cb bool | Advertiser_options bool | Otap_started | Start_beacon "u8 list"

record pos_core =
  ev_init :: bool
  ev_head :: "nat sl_list_head"
  ev_links :: "nat links"
  ev_slots :: "poslib_event list"
  pub_init :: bool
  pub_db :: "(u16 \<times> nat option) list"
  co_sched :: "string sched"
  co_log :: "pos_call list"

text \<open>The rest of the node as a call finds it: the clocks that are not in the scheduler, the
  libraries of the stack, the results of the shared libraries, and the neighbors, with the
  \<open>qsort\<close> of the C library.\<close>

record da_neighbor =
  nb_address :: u32
  nb_cost :: u8
  nb_last_update :: u16
  nb_norm_rssi :: u8
  nb_diradv_support :: u8

record pos_env =
  pe_time :: lib_time
  pe_now_s :: u32
  pe_lib :: pos_lib
  pe_network_address :: u32
  pe_send :: "data_to_send \<Rightarrow> data_send_res"
  pe_addDataReceivedCb :: "string \<Rightarrow> app_res"
  pe_set_beacon :: "app_res list"
  pe_clear_beacon :: app_res
  pe_stack_started :: bool
  pe_sleep_started :: bool
  pe_startScanNbors :: app_res
  pe_voltage :: u16
  pe_nbors :: "da_neighbor list"
  pe_qsort :: "(da_neighbor \<Rightarrow> da_neighbor \<Rightarrow> int) \<Rightarrow> da_neighbor list \<Rightarrow> da_neighbor list"
  pe_free_buffers :: nat
  pe_offline_register :: "offline_res \<times> u8"
  pe_offline_unregister :: offline_res
  pe_offline_status :: offline_status
  pe_enter_online :: offline_res
  pe_enter_offline :: "u32 \<Rightarrow> offline_res"
  pe_appcfg_addFilter :: "u16 \<Rightarrow> ac_res \<times> u16"
  pe_appcfg_removeFilter :: ac_res

definition MAX_INTERNAL_EVENTS :: nat where "MAX_INTERNAL_EVENTS = 16"
definition POSLIB_FLAG_EVENT_SUBSCRIBERS_MAX :: nat where "POSLIB_FLAG_EVENT_SUBSCRIBERS_MAX = 8"
definition POSLIB_FLAG_EVENT_ALL :: u16 where "POSLIB_FLAG_EVENT_ALL = 511"

definition co_addTask :: "lib_time \<Rightarrow> string \<Rightarrow> u32 \<Rightarrow> u32 \<Rightarrow> 'a pos_core_scheme \<Rightarrow> bool \<times> 'a pos_core_scheme" where
  "co_addTask lt f delay_ms exec_us w =
     (case App_Scheduler_addTask_execTime lt (co_sched w) (Some f) delay_ms exec_us of
        (r, s) \<Rightarrow> (r = APP_SCHEDULER_RES_OK, w\<lparr>co_sched := s\<rparr>))"

definition co_cancelTask :: "string \<Rightarrow> 'a pos_core_scheme \<Rightarrow> 'a pos_core_scheme" where
  "co_cancelTask f w = w\<lparr>co_sched := snd (App_Scheduler_cancelTask (co_sched w) (Some f))\<rparr>"

definition co_call :: "pos_call \<Rightarrow> 'a pos_core_scheme \<Rightarrow> 'a pos_core_scheme" where
  "co_call c w = w\<lparr>co_log := co_log w @ [c]\<rparr>"

subsection \<open>Internal events\<close>

definition PosLibEvent_add :: "lib_time \<Rightarrow> poslib_event \<Rightarrow> 'a pos_core_scheme \<Rightarrow> (bool \<times> 'a pos_core_scheme) option" where
  "PosLibEvent_add lt type w =
     (let w = (if \<not> ev_init w
               then w\<lparr>ev_head := sl_list_init, ev_slots := replicate MAX_INTERNAL_EVENTS POSLIB_CTRL_EVENT_NONE, ev_init := True\<rparr>
               else w)
      in case first_index (\<lambda>t. t = POSLIB_CTRL_EVENT_NONE) (ev_slots w) of
           None \<Rightarrow> Some (False, w)
         | Some i \<Rightarrow> do {
             (h, lk) \<leftarrow> sl_list_push_back (ev_head w, ev_links w) i;
             let w = w\<lparr>ev_slots := (ev_slots w)[i := type], ev_head := h, ev_links := lk\<rparr>;
             Some (True, snd (co_addTask lt ''handle_events'' APP_SCHEDULER_SCHEDULE_ASAP 500 w))
           })"

text \<open>The public events of an internal event; 0 is none.\<close>

definition public_flags :: "poslib_event \<Rightarrow> u16" where
  "public_flags t =
     (case t of
        POSLIB_CTRL_EVENT_SCAN_STARTED \<Rightarrow> 1
      | POSLIB_CTRL_EVENT_ONLINE \<Rightarrow> 1 OR 32
      | POSLIB_CTRL_EVENT_CONFIG_CHANGE \<Rightarrow> 64
      | POSLIB_CTRL_EVENT_UPDATE_END \<Rightarrow> 2
      | POSLIB_CTRL_EVENT_BLE_START \<Rightarrow> 4
      | POSLIB_CTRL_EVENT_BLE_STOP \<Rightarrow> 8
      | POSLIB_CTRL_EVENT_LED_ON \<Rightarrow> 128
      | POSLIB_CTRL_EVENT_LED_OFF \<Rightarrow> 256
      | _ \<Rightarrow> 0)"

text \<open>The callbacks of the subscribers are logged; they do not call the library back.\<close>

definition generate_public_events :: "poslib_event \<Rightarrow> 'a pos_core_scheme \<Rightarrow> 'a pos_core_scheme" where
  "generate_public_events t w =
     (let event = public_flags t
      in if event = 0 then w
         else fold (\<lambda>(mask, cb) w. case cb of
                        Some c \<Rightarrow> if mask AND event \<noteq> 0 then co_call (Listener_cb c event (now_hp (co_sched w))) w else w
                      | None \<Rightarrow> w)
                (pub_db w) w)"

definition handle_events ::
  "(poslib_event \<Rightarrow> 'a pos_core_scheme \<Rightarrow> 'a pos_core_scheme option) \<Rightarrow> 'a pos_core_scheme \<Rightarrow> (u32 \<times> 'a pos_core_scheme) option" where
  "handle_events process w =
     (if sl_size (ev_head w) = 0 then Some (APP_SCHEDULER_STOP_TASK, w)
      else case sl_list_pop_front (ev_head w, ev_links w) of
        (None, _) \<Rightarrow> None
      | (Some i, h, lk) \<Rightarrow> do {
          let w = w\<lparr>ev_head := h, ev_links := lk\<rparr>;
          t \<leftarrow> rd (ev_slots w) i;
          w \<leftarrow> process t w;
          let w = generate_public_events t w;
          slots \<leftarrow> wr (ev_slots w) i POSLIB_CTRL_EVENT_NONE;
          let w = w\<lparr>ev_slots := slots\<rparr>;
          Some (if sl_size (ev_head w) = 0 then APP_SCHEDULER_STOP_TASK else APP_SCHEDULER_SCHEDULE_ASAP, w)
        })"

subsection \<open>Subscribers\<close>

definition PosLibEvent_register :: "u16 \<Rightarrow> nat option \<Rightarrow> 'a pos_core_scheme \<Rightarrow> poslib_ret \<times> u8 option \<times> 'a pos_core_scheme" where
  "PosLibEvent_register event cb w =
     (let w = (if \<not> pub_init w then w\<lparr>pub_db := replicate POSLIB_FLAG_EVENT_SUBSCRIBERS_MAX (0, None), pub_init := True\<rparr> else w)
      in if cb = None then (POS_RET_EVENT_REG_ERROR, None, w)
         else if event AND POSLIB_FLAG_EVENT_ALL = 0 then (POS_RET_EVENT_REG_ERROR, None, w)
         else case first_index (\<lambda>e. snd e = None) (pub_db w) of
                None \<Rightarrow> (POS_RET_EVENT_REG_ERROR, None, w)
              | Some i \<Rightarrow> (POS_RET_OK, Some (of_nat i), w\<lparr>pub_db := (pub_db w)[i := (event, cb)]\<rparr>))"

definition PosLibEvent_deregister :: "u8 \<Rightarrow> 'a pos_core_scheme \<Rightarrow> 'a pos_core_scheme" where
  "PosLibEvent_deregister sid w =
     (if unat sid < POSLIB_FLAG_EVENT_SUBSCRIBERS_MAX then w\<lparr>pub_db := (pub_db w)[unat sid := (0, None)]\<rparr> else w)"

subsection \<open>The queue\<close>

text \<open>The events that wait, in order, and the slots that do not hold one of them but are used:
  at most the slot of the event in process.\<close>

definition ev_queue :: "'a pos_core_scheme \<Rightarrow> nat set \<Rightarrow> poslib_event list \<Rightarrow> bool" where
  "ev_queue w busy ts \<longleftrightarrow>
     (if ev_init w
      then length (ev_slots w) = MAX_INTERNAL_EVENTS \<and>
        (\<exists>q. sl_repr (ev_head w, ev_links w) q \<and> ts = map ((!) (ev_slots w)) q \<and> set q \<inter> busy = {} \<and>
          set q \<union> busy = {i. i < MAX_INTERNAL_EVENTS \<and> ev_slots w ! i \<noteq> POSLIB_CTRL_EVENT_NONE})
      else ts = [] \<and> busy = {})"

lemma ev_queueE:
  assumes "ev_queue w busy ts" "ev_init w"
  obtains q where "length (ev_slots w) = MAX_INTERNAL_EVENTS" "sl_repr (ev_head w, ev_links w) q" "ts = map ((!) (ev_slots w)) q"
    "set q \<inter> busy = {}" "set q \<union> busy = {i. i < MAX_INTERNAL_EVENTS \<and> ev_slots w ! i \<noteq> POSLIB_CTRL_EVENT_NONE}"
  using assms by (auto simp: ev_queue_def)

text \<open>The state after the queue is set up.\<close>

definition ev_setup :: "'a pos_core_scheme \<Rightarrow> 'a pos_core_scheme" where
  "ev_setup w = (if \<not> ev_init w
     then w\<lparr>ev_head := sl_list_init, ev_slots := replicate MAX_INTERNAL_EVENTS POSLIB_CTRL_EVENT_NONE, ev_init := True\<rparr> else w)"

lemma ev_setup_queue: "ev_queue w busy ts \<Longrightarrow> ev_queue (ev_setup w) busy ts \<and> ev_init (ev_setup w)"
  by (auto simp: ev_queue_def ev_setup_def sl_repr_init intro!: exI [of _ "[]"] split: if_splits)

lemma co_addTask_core:
  "\<exists>s. co_addTask lt f d e w = (fst (co_addTask lt f d e w), w\<lparr>co_sched := s\<rparr>)"
  by (auto simp: co_addTask_def split: prod.splits)

lemma ev_queue_sched [simp]: "ev_queue (w\<lparr>co_sched := s\<rparr>) busy ts = ev_queue w busy ts"
  "ev_queue (w\<lparr>co_log := l\<rparr>) busy ts = ev_queue w busy ts"
  by (simp_all add: ev_queue_def)

lemma slots_insert:
  assumes "q \<union> busy = {j. j < n \<and> xs ! j \<noteq> z}" "i < n" "length xs = n" "t \<noteq> z"
  shows "insert i q \<union> busy = {j. j < n \<and> xs[i := t] ! j \<noteq> z}"
proof -
  have "j \<in> insert i q \<union> busy \<longleftrightarrow> j < n \<and> xs[i := t] ! j \<noteq> z" for j
    using assms by (cases "j = i") auto
  then show ?thesis by blast
qed

text \<open>An event is appended when a slot is free.\<close>

lemma add_queued:
  assumes q: "ev_queue w busy ts" and t: "t \<noteq> POSLIB_CTRL_EVENT_NONE" and room: "length ts + card busy < MAX_INTERNAL_EVENTS"
  shows "\<exists>w'. PosLibEvent_add lt t w = Some (True, w') \<and> ev_queue w' busy (ts @ [t])"
proof -
  let ?w = "ev_setup w"
  have q': "ev_queue ?w busy ts" "ev_init ?w" using ev_setup_queue [OF q] by simp_all
  obtain q where len: "length (ev_slots ?w) = MAX_INTERNAL_EVENTS" and repr: "sl_repr (ev_head ?w, ev_links ?w) q"
    and ts: "ts = map ((!) (ev_slots ?w)) q" and dis: "set q \<inter> busy = {}"
    and used: "set q \<union> busy = {i. i < MAX_INTERNAL_EVENTS \<and> ev_slots ?w ! i \<noteq> POSLIB_CTRL_EVENT_NONE}"
    using ev_queueE [OF q'] .
  have "card (set q \<union> busy) < MAX_INTERNAL_EVENTS"
    using room ts sl_repr_distinct [OF repr] card_Un_le [of "set q" busy] by (simp add: distinct_card)
  then have "{i. i < MAX_INTERNAL_EVENTS \<and> ev_slots ?w ! i \<noteq> POSLIB_CTRL_EVENT_NONE} \<noteq> {..<MAX_INTERNAL_EVENTS}"
    unfolding used by (metis card_lessThan less_irrefl)
  then obtain k where "k < MAX_INTERNAL_EVENTS" "ev_slots ?w ! k = POSLIB_CTRL_EVENT_NONE" by blast
  then obtain i where i: "first_index (\<lambda>t. t = POSLIB_CTRL_EVENT_NONE) (ev_slots ?w) = Some i"
    using first_index_NoneD [of _ "ev_slots ?w" k] len by (cases "first_index (\<lambda>t. t = POSLIB_CTRL_EVENT_NONE) (ev_slots ?w)") auto
  then have free: "i < MAX_INTERNAL_EVENTS" "ev_slots ?w ! i = POSLIB_CTRL_EVENT_NONE"
    using first_index_SomeD len by fastforce+
  then have "i \<notin> set q \<union> busy" unfolding used by simp
  then have notin: "i \<notin> set q" "i \<notin> busy" by auto
  obtain h lk where push: "sl_list_push_back (ev_head ?w, ev_links ?w) i = Some (h, lk)" "sl_repr (h, lk) (q @ [i])"
    using sl_list_push_back_repr [OF repr notin(1)] by auto
  let ?v = "?w\<lparr>ev_slots := (ev_slots ?w)[i := t], ev_head := h, ev_links := lk\<rparr>"
  obtain s where s: "snd (co_addTask lt ''handle_events'' APP_SCHEDULER_SCHEDULE_ASAP 500 ?v) = ?v\<lparr>co_sched := s\<rparr>"
    using co_addTask_core [of lt "''handle_events''" APP_SCHEDULER_SCHEDULE_ASAP 500 ?v] by (metis snd_conv)
  have add: "PosLibEvent_add lt t w = Some (True, ?v\<lparr>co_sched := s\<rparr>)"
    unfolding PosLibEvent_add_def ev_setup_def [symmetric] Let_def by (simp add: i push(1) s)
  have "map ((!) ((ev_slots ?w)[i := t])) q = ts"
    unfolding ts by (intro map_cong HOL.refl nth_list_update_neq) (use notin in blast)
  moreover have "insert i (set q) \<union> busy = {j. j < MAX_INTERNAL_EVENTS \<and> (ev_slots ?w)[i := t] ! j \<noteq> POSLIB_CTRL_EVENT_NONE}"
    using used free(1) len t by (intro slots_insert) auto
  ultimately have "ev_queue ?v busy (ts @ [t])"
    unfolding ev_queue_def using q'(2) len free push(2) dis notin
    by (simp, intro exI [of _ "q @ [i]"]) simp
  then show ?thesis using add by auto
qed

lemma add_full:
  assumes q: "ev_queue w busy ts" and full: "length ts + card busy = MAX_INTERNAL_EVENTS"
  shows "PosLibEvent_add lt t w = Some (False, w)"
proof -
  have init: "ev_init w"
    using q full by (auto simp: ev_queue_def MAX_INTERNAL_EVENTS_def split: if_splits)
  obtain q where len: "length (ev_slots w) = MAX_INTERNAL_EVENTS" and repr: "sl_repr (ev_head w, ev_links w) q"
    and ts: "ts = map ((!) (ev_slots w)) q" and dis: "set q \<inter> busy = {}"
    and used: "set q \<union> busy = {i. i < MAX_INTERNAL_EVENTS \<and> ev_slots w ! i \<noteq> POSLIB_CTRL_EVENT_NONE}"
    using ev_queueE [OF q init] .
  have "finite busy" using used by (metis finite_Un finite_Collect_conjI finite_Collect_less_nat)
  then have "card (set q \<union> busy) = MAX_INTERNAL_EVENTS"
    using full ts dis sl_repr_distinct [OF repr] by (simp add: card_Un_disjoint distinct_card)
  then have "set q \<union> busy = {..<MAX_INTERNAL_EVENTS}"
    unfolding used by (intro card_subset_eq) auto
  then have "ev_slots w ! i \<noteq> POSLIB_CTRL_EVENT_NONE" if "i < MAX_INTERNAL_EVENTS" for i
    using used that by blast
  then have "first_index (\<lambda>t. t = POSLIB_CTRL_EVENT_NONE) (ev_slots w) = None"
    using len by (metis (mono_tags, lifting) first_index_None in_set_conv_nth)
  then show ?thesis using init by (simp add: PosLibEvent_add_def)
qed

lemma ev_queue_finite:
  assumes q: "ev_queue w busy ts"
  shows "finite busy" "length ts + card busy \<le> MAX_INTERNAL_EVENTS"
proof -
  have "finite busy \<and> length ts + card busy \<le> MAX_INTERNAL_EVENTS"
  proof (cases "ev_init w")
    case False
    then show ?thesis using q by (simp add: ev_queue_def)
  next
    case True
    obtain q where repr: "sl_repr (ev_head w, ev_links w) q" and ts: "ts = map ((!) (ev_slots w)) q" and dis: "set q \<inter> busy = {}"
      and used: "set q \<union> busy = {i. i < MAX_INTERNAL_EVENTS \<and> ev_slots w ! i \<noteq> POSLIB_CTRL_EVENT_NONE}"
      using ev_queueE [OF q True] .
    have f: "finite busy" using used by (metis finite_Un finite_Collect_conjI finite_Collect_less_nat)
    have "card (set q \<union> busy) \<le> card {..<MAX_INTERNAL_EVENTS}" unfolding used by (intro card_mono) auto
    then show ?thesis using f ts dis sl_repr_distinct [OF repr] by (simp add: card_Un_disjoint distinct_card)
  qed
  then show "finite busy" "length ts + card busy \<le> MAX_INTERNAL_EVENTS" by simp_all
qed

text \<open>An event is appended, or the queue is full and stays as it is.\<close>

lemma add_total:
  assumes q: "ev_queue w busy ts" and t: "t \<noteq> POSLIB_CTRL_EVENT_NONE"
  obtains (added) w' where "PosLibEvent_add lt t w = Some (True, w')" "ev_queue w' busy (ts @ [t])"
  | (full) "PosLibEvent_add lt t w = Some (False, w)" "length ts + card busy = MAX_INTERNAL_EVENTS"
  using add_queued [OF q t] add_full [OF q] ev_queue_finite(2) [OF q] by (metis le_neq_implies_less)

text \<open>Only the queue and the scheduler change.\<close>

lemma add_frame:
  assumes "PosLibEvent_add lt t w = Some (b, w')"
  shows "\<exists>i h lk sl s. w' = w\<lparr>ev_init := i, ev_head := h, ev_links := lk, ev_slots := sl, co_sched := s\<rparr>"
proof -
  obtain i h lk sl s where v: "ev_setup w = w\<lparr>ev_init := i, ev_head := h, ev_links := lk, ev_slots := sl, co_sched := s\<rparr>"
  proof (cases "ev_init w")
    case True
    then show ?thesis using that [of "co_sched w" "ev_slots w" "ev_links w" "ev_head w" True] by (simp add: ev_setup_def)
  next
    case False
    then show ?thesis
      using that [of "co_sched w" "replicate MAX_INTERNAL_EVENTS POSLIB_CTRL_EVENT_NONE" "ev_links w" sl_list_init True]
      by (simp add: ev_setup_def)
  qed
  show ?thesis
  proof (cases "first_index (\<lambda>t. t = POSLIB_CTRL_EVENT_NONE) (ev_slots (ev_setup w))")
    case None
    then have "w' = ev_setup w"
      using assms unfolding PosLibEvent_add_def ev_setup_def [symmetric] Let_def by simp
    then show ?thesis using v by blast
  next
    case (Some k)
    obtain h' lk' where p: "sl_list_push_back (ev_head (ev_setup w), ev_links (ev_setup w)) k = Some (h', lk')"
      using assms Some unfolding PosLibEvent_add_def ev_setup_def [symmetric] Let_def by (auto simp: bind_eq_Some_conv)
    let ?v = "(ev_setup w)\<lparr>ev_slots := (ev_slots (ev_setup w))[k := t], ev_head := h', ev_links := lk'\<rparr>"
    obtain s' where s': "snd (co_addTask lt ''handle_events'' APP_SCHEDULER_SCHEDULE_ASAP 500 ?v) = ?v\<lparr>co_sched := s'\<rparr>"
      using co_addTask_core [of lt "''handle_events''" APP_SCHEDULER_SCHEDULE_ASAP 500 ?v] by (metis snd_conv)
    have "w' = ?v\<lparr>co_sched := s'\<rparr>"
      using assms Some p s' unfolding PosLibEvent_add_def ev_setup_def [symmetric] Let_def by simp
    then show ?thesis
      by (intro exI [of _ i] exI [of _ h'] exI [of _ lk'] exI [of _ "sl[k := t]"] exI [of _ s']) (simp add: v)
  qed
qed

text \<open>The subscribers that hear of an event, in the order of their slots.\<close>

definition listeners :: "u16 \<Rightarrow> (u16 \<times> nat option) list \<Rightarrow> nat list" where
  "listeners event db = map (\<lambda>p. the (snd p)) (filter (\<lambda>p. snd p \<noteq> None \<and> fst p AND event \<noteq> 0) db)"

lemma public_events:
  "generate_public_events t w =
     w\<lparr>co_log := co_log w @ map (\<lambda>c. Listener_cb c (public_flags t) (now_hp (co_sched w))) (listeners (public_flags t) (pub_db w))\<rparr>"
proof -
  have f: "fold (\<lambda>(mask, cb) w. case cb of
           Some c \<Rightarrow> if mask AND e \<noteq> 0 then co_call (Listener_cb c e (now_hp (co_sched w))) w else w
         | None \<Rightarrow> w) db v =
      v\<lparr>co_log := co_log v @ map (\<lambda>c. Listener_cb c e (now_hp (co_sched v))) (listeners e db)\<rparr>" for e db and v :: "'a pos_core_scheme"
  proof (induction db arbitrary: v)
    case Nil
    show ?case by (simp add: listeners_def)
  next
    case (Cons p db)
    obtain mask cb where p: "p = (mask, cb)" by (cases p)
    show ?case
    proof (cases "cb \<noteq> None \<and> mask AND e \<noteq> 0")
      case True
      then show ?thesis using Cons.IH p by (auto simp: co_call_def listeners_def)
    next
      case False
      then show ?thesis using Cons.IH p by (cases cb) (auto simp: listeners_def)
    qed
  qed
  show ?thesis
  proof (cases "public_flags t = 0")
    case True
    then show ?thesis by (simp add: generate_public_events_def listeners_def)
  next
    case False
    then show ?thesis by (simp only: generate_public_events_def Let_def f if_False)
  qed
qed

text \<open>The state in which the modules see an event: its slot is used, the others wait.\<close>

lemma take_next:
  assumes q: "ev_queue w {} (t # ts)"
  obtains i w1 where "ev_queue w1 {i} ts" "i < MAX_INTERNAL_EVENTS" "\<exists>h lk. w1 = w\<lparr>ev_head := h, ev_links := lk\<rparr>"
    "handle_events process w = do {
       w2 \<leftarrow> process t w1;
       let w2 = generate_public_events t w2;
       slots \<leftarrow> wr (ev_slots w2) i POSLIB_CTRL_EVENT_NONE;
       let w3 = w2\<lparr>ev_slots := slots\<rparr>;
       Some (if sl_size (ev_head w3) = 0 then APP_SCHEDULER_STOP_TASK else APP_SCHEDULER_SCHEDULE_ASAP, w3)
     }"
proof -
  have init: "ev_init w" using q by (auto simp: ev_queue_def split: if_splits)
  obtain q where len: "length (ev_slots w) = MAX_INTERNAL_EVENTS" and repr: "sl_repr (ev_head w, ev_links w) q"
    and ts: "t # ts = map ((!) (ev_slots w)) q" and dis: "set q \<inter> {} = {}"
    and used: "set q \<union> {} = {i. i < MAX_INTERNAL_EVENTS \<and> ev_slots w ! i \<noteq> POSLIB_CTRL_EVENT_NONE}"
    using ev_queueE [OF q init] .
  obtain i q' where iq: "q = i # q'" using ts by (cases q) auto
  have i: "i < MAX_INTERNAL_EVENTS" "rd (ev_slots w) i = Some t" "i \<notin> set q'"
    using used iq ts len sl_repr_distinct [OF repr] by (auto simp: rd_def)
  obtain h lk where pop: "sl_list_pop_front (ev_head w, ev_links w) = (Some i, h, lk)" "sl_repr (h, lk) q'"
    using sl_list_pop_front_repr [OF repr] iq by auto
  have "length q \<le> MAX_INTERNAL_EVENTS" using ev_queue_finite(2) [OF q] arg_cong [OF ts, of length] by simp
  then have "sl_size (ev_head w) \<noteq> 0"
    using repr iq by (simp add: sl_repr_def MAX_INTERNAL_EVENTS_def word_unat_eq_iff unat_of_nat_small del: of_nat_Suc)
  moreover have "ev_queue (w\<lparr>ev_head := h, ev_links := lk\<rparr>) {i} ts"
    using init len pop(2) ts iq i used by (auto simp: ev_queue_def intro!: exI [of _ q'])
  ultimately show ?thesis
    using that [of "w\<lparr>ev_head := h, ev_links := lk\<rparr>" i] i pop(1) by (auto simp: handle_events_def Let_def)
qed

lemma slot_released:
  assumes q: "ev_queue w {i} us" and i: "i < MAX_INTERNAL_EVENTS"
  shows "\<exists>slots. wr (ev_slots w) i POSLIB_CTRL_EVENT_NONE = Some slots \<and> ev_queue (w\<lparr>ev_slots := slots\<rparr>) {} us"
    "sl_size (ev_head w) = 0 \<longleftrightarrow> us = []"
proof -
  have init: "ev_init w" using q by (auto simp: ev_queue_def split: if_splits)
  obtain q where len: "length (ev_slots w) = MAX_INTERNAL_EVENTS" and repr: "sl_repr (ev_head w, ev_links w) q"
    and ts: "us = map ((!) (ev_slots w)) q" and dis: "set q \<inter> {i} = {}"
    and used: "set q \<union> {i} = {i. i < MAX_INTERNAL_EVENTS \<and> ev_slots w ! i \<noteq> POSLIB_CTRL_EVENT_NONE}"
    using ev_queueE [OF q init] .
  have "j \<in> set q \<longleftrightarrow> j < MAX_INTERNAL_EVENTS \<and> (ev_slots w)[i := POSLIB_CTRL_EVENT_NONE] ! j \<noteq> POSLIB_CTRL_EVENT_NONE" for j
    using used dis i len by (cases "j = i") (auto simp: set_eq_iff)
  then have "set q = {j. j < MAX_INTERNAL_EVENTS \<and> (ev_slots w)[i := POSLIB_CTRL_EVENT_NONE] ! j \<noteq> POSLIB_CTRL_EVENT_NONE}" by blast
  moreover have "map ((!) ((ev_slots w)[i := POSLIB_CTRL_EVENT_NONE])) q = us"
    unfolding ts by (intro map_cong HOL.refl nth_list_update_neq) (use dis in blast)
  ultimately show "\<exists>slots. wr (ev_slots w) i POSLIB_CTRL_EVENT_NONE = Some slots \<and> ev_queue (w\<lparr>ev_slots := slots\<rparr>) {} us"
    using init len repr i by (auto simp: ev_queue_def wr_in intro!: exI [of _ q])
  have "length q \<le> MAX_INTERNAL_EVENTS" using ev_queue_finite(2) [OF q] ts by simp
  then show "sl_size (ev_head w) = 0 \<longleftrightarrow> us = []"
    using repr ts by (simp add: sl_repr_def MAX_INTERNAL_EVENTS_def word_unat_eq_iff unat_of_nat_small)
qed

subsection \<open>Modules that handle events\<close>

text \<open>An event can make a handler add others, but only events of less weight: a bound for the
  number of events that follow from one.\<close>

definition ev_weight :: "poslib_event \<Rightarrow> nat" where
  "ev_weight t =
     (case t of
        POSLIB_CTRL_EVENT_APPCFG \<Rightarrow> 5 | POSLIB_CTRL_EVENT_SCAN_END \<Rightarrow> 4 | POSLIB_CTRL_EVENT_CONFIG_CHANGE \<Rightarrow> 2
      | POSLIB_CTRL_EVENT_UNDER_WM \<Rightarrow> 2 | POSLIB_CTRL_EVENT_DATA_SENT \<Rightarrow> 2 | POSLIB_CTRL_EVENT_TIMEOUT \<Rightarrow> 2 | _ \<Rightarrow> 1)"

abbreviation ev_weights :: "poslib_event list \<Rightarrow> nat" where
  "ev_weights ts \<equiv> sum_list (map ev_weight ts)"

lemma ev_weight_pos [simp]: "ev_weight t \<noteq> 0"
  by (cases t) (simp_all add: ev_weight_def)

text \<open>What the task relies on: a handler returns, keeps its invariant and only appends events.
  The invariant holds where the rank \<open>R\<close> has a value, the events that the state has in store;
  with the weights of the new events it grows by at most \<open>k\<close>.\<close>

definition appends :: "('a pos_core_scheme \<Rightarrow> nat option) \<Rightarrow> nat \<Rightarrow> 'a pos_core_scheme option \<Rightarrow> 'a pos_core_scheme \<Rightarrow> bool" where
  "appends R k m w \<longleftrightarrow>
     (\<forall>r busy ts. R w = Some r \<longrightarrow> ev_queue w busy ts \<longrightarrow>
        (\<exists>w' us r'. m = Some w' \<and> R w' = Some r' \<and> r' + ev_weights us \<le> r + k \<and> ev_queue w' busy (ts @ us)))"

text \<open>A rank that does not depend on the state of this theory.\<close>

definition core_free :: "('a pos_core_scheme \<Rightarrow> 'b) \<Rightarrow> bool" where
  "core_free R \<longleftrightarrow> (\<forall>w w'. pos_core.more w' = pos_core.more w \<longrightarrow> R w' = R w)"

locale event_handler =
  fixes process :: "poslib_event \<Rightarrow> 'a pos_core_scheme \<Rightarrow> 'a pos_core_scheme option" and R :: "'a pos_core_scheme \<Rightarrow> nat option"
  assumes process_appends: "appends R (ev_weight t - 1) (process t w) w"
    and rank_free: "core_free R"
begin

lemma handled:
  assumes q: "ev_queue w {} (t # ts)" and r: "R w = Some r"
  shows "\<exists>w1 w2 us w3 r3. (\<exists>h lk. w1 = w\<lparr>ev_head := h, ev_links := lk\<rparr>) \<and> process t w1 = Some w2 \<and>
     handle_events process w = Some (if ts @ us = [] then APP_SCHEDULER_STOP_TASK else APP_SCHEDULER_SCHEDULE_ASAP, w3) \<and>
     ev_queue w3 {} (ts @ us) \<and> R w3 = Some r3 \<and> r3 + ev_weights us < r + ev_weight t"
proof -
  have free: "R w' = R v" if "pos_core.more w' = pos_core.more v" for w' v using rank_free that unfolding core_free_def by blast
  obtain i w1 where w1: "ev_queue w1 {i} ts" "i < MAX_INTERNAL_EVENTS" "\<exists>h lk. w1 = w\<lparr>ev_head := h, ev_links := lk\<rparr>"
    and run: "handle_events process w = do {
       w2 \<leftarrow> process t w1;
       let w2 = generate_public_events t w2;
       slots \<leftarrow> wr (ev_slots w2) i POSLIB_CTRL_EVENT_NONE;
       let w3 = w2\<lparr>ev_slots := slots\<rparr>;
       Some (if sl_size (ev_head w3) = 0 then APP_SCHEDULER_STOP_TASK else APP_SCHEDULER_SCHEDULE_ASAP, w3)
     }"
    using q by (rule take_next)
  have "pos_core.more w1 = pos_core.more w" using w1(3) by auto
  then have "R w1 = Some r" using free r by metis
  then obtain w2 us r2 where w2: "process t w1 = Some w2" "R w2 = Some r2" "r2 + ev_weights us \<le> r + (ev_weight t - 1)" "ev_queue w2 {i} (ts @ us)"
    using process_appends [of t w1] w1(1) unfolding appends_def by blast
  let ?v = "generate_public_events t w2"
  have v: "ev_queue ?v {i} (ts @ us)" using w2(4) by (simp add: public_events)
  obtain slots where sl: "wr (ev_slots ?v) i POSLIB_CTRL_EVENT_NONE = Some slots" "ev_queue (?v\<lparr>ev_slots := slots\<rparr>) {} (ts @ us)"
    using slot_released(1) [OF v w1(2)] by blast
  have "R (?v\<lparr>ev_slots := slots\<rparr>) = Some r2" using free [of "?v\<lparr>ev_slots := slots\<rparr>" w2] w2(2) by (simp add: public_events)
  moreover have "r2 + ev_weights us < r + ev_weight t" using w2(3) ev_weight_pos [of t] by linarith
  ultimately show ?thesis
    using w1(3) w2 sl run slot_released(2) [OF v w1(2)]
    by (intro exI [of _ w1] exI [of _ w2] exI [of _ us] exI [of _ "?v\<lparr>ev_slots := slots\<rparr>"] exI [of _ r2]) simp
qed

end

text \<open>Building blocks of handlers.  The part of the state the queue is in:\<close>

definition ev_part :: "'a pos_core_scheme \<Rightarrow> bool \<times> nat sl_list_head \<times> nat links \<times> poslib_event list" where
  "ev_part w = (ev_init w, ev_head w, ev_links w, ev_slots w)"

lemma ev_part_updates [simp]:
  "ev_part (w\<lparr>co_sched := s\<rparr>) = ev_part w" "ev_part (w\<lparr>co_log := l\<rparr>) = ev_part w" "ev_part (w\<lparr>pub_db := d\<rparr>) = ev_part w"
  by (simp_all add: ev_part_def)

lemma ev_part_calls [simp]:
  "ev_part (co_call c w) = ev_part w" "ev_part (co_cancelTask f w) = ev_part w" "ev_part (snd (co_addTask lt f d e w)) = ev_part w"
  by (simp_all add: co_call_def co_cancelTask_def co_addTask_def split_def)

lemma more_calls [simp]:
  "pos_core.more (co_call c w) = pos_core.more w" "pos_core.more (co_cancelTask f w) = pos_core.more w"
  "pos_core.more (snd (co_addTask lt f d e w)) = pos_core.more w"
  by (simp_all add: co_call_def co_cancelTask_def co_addTask_def split_def)

lemma ev_queue_part: "ev_part w' = ev_part w \<Longrightarrow> ev_queue w' busy ts = ev_queue w busy ts"
  by (simp add: ev_part_def ev_queue_def)

lemma appends_rank:
  "ev_part w' = ev_part w \<Longrightarrow> (\<And>r. R w = Some r \<Longrightarrow> \<exists>r'. R w' = Some r' \<and> r' \<le> r + k) \<Longrightarrow> appends R k (Some w') w"
  unfolding appends_def using ev_queue_part by (metis append_Nil2 list.map(1) monoid_add_class.add.right_neutral sum_list.Nil)

lemma appends_part: "ev_part w' = ev_part w \<Longrightarrow> R w' = R w \<Longrightarrow> appends R k (Some w') w"
  by (rule appends_rank) simp_all

lemma appends_from: "appends R k m w1 \<Longrightarrow> ev_part w1 = ev_part w \<Longrightarrow> R w1 = R w \<Longrightarrow> appends R k m w"
  unfolding appends_def using ev_queue_part by metis

lemma appends_mono:
  assumes "appends R i m w" "i \<le> k"
  shows "appends R k m w"
  using assms unfolding appends_def by (meson add_left_mono order_trans)

lemma appends_map:
  assumes "appends R k m w" "\<And>w'. ev_part (f w') = ev_part w'" "\<And>w'. R (f w') = R w'"
  shows "appends R k (map_option f m) w"
  using assms(1) unfolding appends_def using ev_queue_part [OF assms(2)] assms(3) by (metis option.map(2))

lemma appends_bind:
  assumes m: "appends R i m w" and f: "\<And>w'. R w' \<noteq> None \<Longrightarrow> appends R j (f w') w'" and k: "i + j \<le> k"
  shows "appends R k (m \<bind> f) w"
  unfolding appends_def
proof (intro allI impI)
  fix r busy ts assume r: "R w = Some r" "ev_queue w busy ts"
  obtain w1 us r1 where 1: "m = Some w1" "R w1 = Some r1" "r1 + ev_weights us \<le> r + i" "ev_queue w1 busy (ts @ us)"
    using m r unfolding appends_def by blast
  moreover obtain w2 vs r2 where 2: "f w1 = Some w2" "R w2 = Some r2" "r2 + ev_weights vs \<le> r1 + j" "ev_queue w2 busy ((ts @ us) @ vs)"
    using f [of w1] 1 unfolding appends_def by blast
  ultimately show "\<exists>w' us r'. m \<bind> f = Some w' \<and> R w' = Some r' \<and> r' + ev_weights us \<le> r + k \<and> ev_queue w' busy (ts @ us)"
    using k by (intro exI [of _ w2] exI [of _ "us @ vs"] exI [of _ r2]) simp
qed

lemma appends_bind_pair:
  assumes "appends R i (map_option snd m) w" "\<And>x w'. R w' \<noteq> None \<Longrightarrow> appends R j (f (x, w')) w'" "i + j \<le> k"
  shows "appends R k (m \<bind> f) w"
proof (cases m)
  case None
  then show ?thesis using assms(1) by (auto simp: appends_def)
next
  case (Some x)
  have "appends R k (map_option snd m \<bind> (\<lambda>w'. f (fst x, w'))) w" by (rule appends_bind [OF assms])
  then show ?thesis using Some by simp
qed

lemma appends_if: "(c \<Longrightarrow> appends R k a w) \<Longrightarrow> (\<not> c \<Longrightarrow> appends R k b w) \<Longrightarrow> appends R k (if c then a else b) w"
  by simp

lemma add_appends:
  assumes "t \<noteq> POSLIB_CTRL_EVENT_NONE" "core_free R" "ev_weight t \<le> k"
  shows "appends R k (map_option snd (PosLibEvent_add lt t w)) w"
  unfolding appends_def
proof (intro allI impI)
  fix r busy ts assume r: "R w = Some r" and q: "ev_queue w busy ts"
  from q assms(1) show "\<exists>w' us r'. map_option snd (PosLibEvent_add lt t w) = Some w' \<and> R w' = Some r' \<and>
      r' + ev_weights us \<le> r + k \<and> ev_queue w' busy (ts @ us)"
  proof (cases rule: add_total [of w busy ts t lt])
    case (added w')
    have "pos_core.more w' = pos_core.more w" using add_frame [OF added(1)] by auto
    then have "R w' = Some r" using assms(2) r unfolding core_free_def by metis
    then show ?thesis using added assms(3) by (intro exI [of _ w'] exI [of _ "[t]"] exI [of _ r]) auto
  next
    case full
    then show ?thesis using q r by (auto intro!: exI [of _ "[]"])
  qed
qed

subsection \<open>A node\<close>

definition core_boot :: pos_core where
  "core_boot =
     \<lparr>ev_init = False, ev_head = sl_list_init, ev_links = (\<lambda>_. None),
      ev_slots = replicate MAX_INTERNAL_EVENTS POSLIB_CTRL_EVENT_NONE, pub_init = False,
      pub_db = replicate POSLIB_FLAG_EVENT_SUBSCRIBERS_MAX (0, None), co_sched = App_Scheduler_init us_clock (sched_boot 12), co_log = []\<rparr>"

lemma core_boot_queue: "ev_queue (pos_core.extend core_boot x) {} []"
  by (simp add: ev_queue_def core_boot_def pos_core.defs)

definition pos_env_example :: pos_env where
  "pos_env_example =
     \<lparr>pe_time = us_clock, pe_now_s = 1000, pe_lib = pos_lib_example, pe_network_address = 0x123456,
      pe_send = (\<lambda>_. APP_LIB_DATA_SEND_RES_SUCCESS), pe_addDataReceivedCb = (\<lambda>_. APP_RES_OK),
      pe_set_beacon = [APP_RES_OK, APP_RES_OK, APP_RES_OK], pe_clear_beacon = APP_RES_OK, pe_stack_started = True,
      pe_sleep_started = False, pe_startScanNbors = APP_RES_OK, pe_voltage = 3000, pe_nbors = [], pe_qsort = (\<lambda>_ xs. xs),
      pe_free_buffers = 4, pe_offline_register = (SHARED_OFFLINE_RES_OK, 0), pe_offline_unregister = SHARED_OFFLINE_RES_OK,
      pe_offline_status = SHARED_OFFLINE_STATUS_ONLINE, pe_enter_online = SHARED_OFFLINE_RES_ALREADY_ONLINE,
      pe_enter_offline = (\<lambda>_. SHARED_OFFLINE_RES_OK), pe_appcfg_addFilter = (\<lambda>_. (SHARED_APP_CONFIG_RES_OK, 0)),
      pe_appcfg_removeFilter = SHARED_APP_CONFIG_RES_OK\<rparr>"

end
