(* ===== verification/Pos_Mbcn.thy ===== *)
theory Pos_Mbcn
  imports Pos_Event
begin

text \<open>
  \<open>libraries/positioning/poslib/poslib_mbcn.c\<close>: anchors broadcast mini-beacons, a counter and
  compact items with the interval, features and the records of the settings.  The array of 8
  records of a decoded mini-beacon is checked: a write after its end is \<open>None\<close>.
\<close>

subsection \<open>Operations\<close>

record pos_mbcn = pos_core +
  mb_seq :: u16
  mb_data :: "u8 list"
  mb_num_bytes :: nat
  mb_settings :: mbcn_config
  mb_started :: bool

record mbcn_data =
  md_seq :: u16
  md_tx_interval_ms :: u16
  md_features :: u16
  md_records :: "mbcn_record list"

definition POSLIB_MBCN_RECORD_MAX_SIZE :: nat where "POSLIB_MBCN_RECORD_MAX_SIZE = 16"
definition POSLIB_MBCN_RECORDS :: nat where "POSLIB_MBCN_RECORDS = 8"
definition MBCN_DATA_SIZE :: nat where "MBCN_DATA_SIZE = 100"
definition POSLIB_MBCN_SRC_EP :: u8 where "POSLIB_MBCN_SRC_EP = 238"
definition POSLIB_MBCN_DEST_EP :: u8 where "POSLIB_MBCN_DEST_EP = 238"
definition APP_LIB_DATA_SEND_NW_CH_ONLY :: u8 where "APP_LIB_DATA_SEND_NW_CH_ONLY = 16"

definition mbcn_frame :: "'a pos_mbcn_scheme \<Rightarrow> data_to_send" where
  "mbcn_frame w =
     \<lparr>ds_bytes = take (mb_num_bytes w) (le16 (mb_seq w) @ mb_data w), ds_dest_address = APP_ADDR_BROADCAST, ds_delay = 0,
      ds_tracking_id = 0, ds_qos = 0, ds_flags = APP_LIB_DATA_SEND_NW_CH_ONLY, ds_src_endpoint = POSLIB_MBCN_SRC_EP,
      ds_dest_endpoint = POSLIB_MBCN_DEST_EP, ds_hop_limit = 1, ds_fragment_info = None\<rparr>"

definition co_send :: "pos_env \<Rightarrow> data_to_send \<Rightarrow> 'a pos_core_scheme \<Rightarrow> data_send_res \<times> 'a pos_core_scheme" where
  "co_send env d w = (pe_send env d, co_call (Send_data d (pe_send env d = APP_LIB_DATA_SEND_RES_SUCCESS)) w)"

definition mbcn_task :: "pos_env \<Rightarrow> 'a pos_mbcn_scheme \<Rightarrow> u32 \<times> 'a pos_mbcn_scheme" where
  "mbcn_task env w =
     (let w = w\<lparr>mb_seq := mb_seq w + 1\<rparr>;
          (_, w) = co_send env (mbcn_frame w) w
      in (ucast (mc_tx_interval_ms (mb_settings w)), w))"

text \<open>The items: the interval, the features, which are 0, and the valid records.\<close>

definition le16_item :: "u16 \<Rightarrow> u16 \<Rightarrow> tlv_item" where
  "le16_item t v = \<lparr>it_value = le16 v, it_type = t, it_length = 2\<rparr>"

definition record_valid :: "mbcn_record \<Rightarrow> bool" where
  "record_valid r \<longleftrightarrow> mr_type r \<noteq> 0 \<and> mr_type r \<le> 31 \<and> mr_length r \<noteq> 0 \<and> unat (mr_length r) \<le> POSLIB_MBCN_RECORD_MAX_SIZE"

definition record_item :: "mbcn_record \<Rightarrow> tlv_item" where
  "record_item r = \<lparr>it_value = mr_value r, it_type = ucast (mr_type r), it_length = mr_length r\<rparr>"

definition encode_mbcn :: "mbcn_config \<Rightarrow> u8 list \<Rightarrow> u8 \<Rightarrow> tlv_record option" where
  "encode_mbcn settings buf len =
     do {
       let rcd = \<lparr>tlv_buffer = buf, tlv_length = len, tlv_index = 0\<rparr>;
       (_, rcd) \<leftarrow> PosLibTlv_Encode_addItem False rcd (le16_item 1 (mc_tx_interval_ms settings));
       (_, rcd) \<leftarrow> PosLibTlv_Encode_addItem False rcd (le16_item 2 0);
       foldo (\<lambda>r rcd. if record_valid r
                        then map_option snd (PosLibTlv_Encode_addItem False rcd (record_item r))
                        else Some rcd) (mc_records settings) rcd
     }"

definition PosLibMbcn_stop :: "'a pos_mbcn_scheme \<Rightarrow> 'a pos_mbcn_scheme" where
  "PosLibMbcn_stop w = (co_cancelTask ''mbcn_task'' w)\<lparr>mb_started := False\<rparr>"

definition PosLibMbcn_start :: "pos_env \<Rightarrow> mbcn_config \<Rightarrow> 'a pos_mbcn_scheme \<Rightarrow> (bool \<times> 'a pos_mbcn_scheme) option" where
  "PosLibMbcn_start env settings w =
     (let w = w\<lparr>mb_settings := settings\<rparr>
      in if \<not> mc_enabled settings then Some (False, w\<lparr>mb_started := False\<rparr>)
         else do {
           rcd \<leftarrow> encode_mbcn settings (mb_data w) (of_nat MBCN_DATA_SIZE);
           let w = w\<lparr>mb_seq := 0, mb_data := tlv_buffer rcd, mb_num_bytes := 2 + unat (tlv_index rcd)\<rparr>;
           let w = (if \<not> mb_started w
                    then let (ok, w) = co_addTask (pe_time env) ''mbcn_task'' (ucast (mc_tx_interval_ms settings)) 50 w
                         in w\<lparr>mb_started := ok\<rparr>
                    else w);
           Some (mb_started w, w)
         })"

subsection \<open>Decoding\<close>

text \<open>One item; the state of the loop is the next free record and the result.\<close>

definition mbcn_item :: "tlv_item \<Rightarrow> nat \<times> mbcn_data \<Rightarrow> (nat \<times> mbcn_data) option" where
  "mbcn_item item = (\<lambda>(i, m).
     let t = it_type item; l = unat (it_length item)
     in if t = 1
        then if l = 2 then map_option (\<lambda>bs. (i, m\<lparr>md_tx_interval_ms := ucast (le_val bs)\<rparr>)) (rd_bytes (it_value item) 0 l)
             else Some (i, m)
        else if t = 2
        then if l = 2 then map_option (\<lambda>bs. (i, m\<lparr>md_features := ucast (le_val bs)\<rparr>)) (rd_bytes (it_value item) 0 l)
             else Some (i, m)
        else if t \<in> {3, 4, 5, 6, 7, 16, 17, 18, 19}
        then if l \<le> POSLIB_MBCN_RECORD_MAX_SIZE
             then do {
               bs \<leftarrow> rd_bytes (it_value item) 0 l;
               r \<leftarrow> rd (md_records m) i;
               rs \<leftarrow> wr (md_records m) i
                      \<lparr>mr_type = ucast t, mr_length = it_length item, mr_value = bs @ drop l (mr_value r)\<rparr>;
               Some (i + 1, m\<lparr>md_records := rs\<rparr>)
             }
             else Some (i, m)
        else Some (i, m))"

text \<open>The loop compares the number of records with the size of the array in bytes.\<close>

definition SIZEOF_RECORDS :: nat where
  "SIZEOF_RECORDS = POSLIB_MBCN_RECORDS * (2 + POSLIB_MBCN_RECORD_MAX_SIZE)"

definition empty_record :: mbcn_record where
  "empty_record = \<lparr>mr_type = 0, mr_length = 0, mr_value = replicate POSLIB_MBCN_RECORD_MAX_SIZE 0\<rparr>"

definition PosLibMbcn_decode :: "bool \<Rightarrow> u8 list \<Rightarrow> u8 \<Rightarrow> mbcn_data \<Rightarrow> (bool \<times> mbcn_data) option" where
  "PosLibMbcn_decode null buf len mbcn =
     (if null \<or> unat len < 2 then Some (False, mbcn)
      else do {
        seq \<leftarrow> rd_bytes buf 0 2;
        let rcd = \<lparr>tlv_buffer = drop 2 buf, tlv_length = len - 2, tlv_index = 0\<rparr>;
        let mbcn = mbcn\<lparr>md_seq := ucast (le_val seq),
              md_records := replicate POSLIB_MBCN_RECORDS empty_record\<rparr>;
        (e, _, mbcn) \<leftarrow> walk_items poslib_read (\<lambda>(i, _). i < SIZEOF_RECORDS) mbcn_item rcd (0, mbcn);
        Some (e \<noteq> Some POSLIB_TLV_RES_ERROR, mbcn)
      })"

subsection \<open>What is sent\<close>

definition mbcn_items :: "mbcn_config \<Rightarrow> tlv_item list" where
  "mbcn_items settings =
     le16_item 1 (mc_tx_interval_ms settings) # le16_item 2 0 # map record_item (filter record_valid (mc_records settings))"

abbreviation mbcn_wire :: "mbcn_config \<Rightarrow> u8 list" where
  "mbcn_wire settings \<equiv> concat (map pitem_wire (mbcn_items settings))"

text \<open>The values of records are arrays of 16 bytes, of which there are 8.\<close>

definition config_wf :: "mbcn_config \<Rightarrow> bool" where
  "config_wf settings \<longleftrightarrow> length (mc_records settings) \<le> POSLIB_MBCN_RECORDS \<and>
     list_all (\<lambda>r. length (mr_value r) = POSLIB_MBCN_RECORD_MAX_SIZE) (mc_records settings)"

lemma encode_mbcn_items: "encode_mbcn settings buf len = add_items (mbcn_items settings) \<lparr>tlv_buffer = buf, tlv_length = len, tlv_index = 0\<rparr>"
proof -
  have "foldo (\<lambda>r rcd. if record_valid r then map_option snd (PosLibTlv_Encode_addItem False rcd (record_item r)) else Some rcd) rs rcd =
      add_items (map record_item (filter record_valid rs)) rcd" for rs rcd
    by (induction rs arbitrary: rcd) (auto simp: add_items_def split: bind_splits)
  moreover have "map_option snd m \<bind> f = m \<bind> (\<lambda>(_, rcd). f rcd)" for m :: "(poslib_tlv_res \<times> tlv_record) option" and f :: "tlv_record \<Rightarrow> tlv_record option"
    by (cases m) auto
  ultimately show ?thesis by (simp add: encode_mbcn_def mbcn_items_def add_items_def Let_def)
qed

lemma le16_item_ok: "t \<le> 31 \<Longrightarrow> pitem_ok (le16_item t v)"
  by (simp add: pitem_ok_def le16_item_def fits_past_def le16_def)

lemma record_item_ok: "record_valid r \<Longrightarrow> length (mr_value r) = POSLIB_MBCN_RECORD_MAX_SIZE \<Longrightarrow> pitem_ok (record_item r)"
  by (auto simp: pitem_ok_def record_item_def fits_past_def record_valid_def word_le_nat_alt unsigned_ucast_eq take_bit_nat_eq_self
      unat_lt_8 order_less_le_trans [OF unat_lt_8])

lemma mbcn_items_ok: "config_wf settings \<Longrightarrow> list_all pitem_ok (mbcn_items settings)"
  by (auto simp: mbcn_items_def le16_item_ok list_all_iff config_wf_def intro!: record_item_ok)

text \<open>Of the valid records those that fit after the two items of 3 bytes and the records before
  them are encoded, the others are left out.\<close>

definition record_size :: "mbcn_record \<Rightarrow> nat" where
  "record_size r = (if mr_length r \<le> 7 then 1 else 2) + unat (mr_length r)"

fun fitting :: "nat \<Rightarrow> mbcn_record list \<Rightarrow> mbcn_record list" where
  "fitting room [] = []"
| "fitting room (r # rs) =
     (if record_valid r \<and> record_size r \<le> room then r # fitting (room - record_size r) rs else fitting room rs)"

definition sent_config :: "mbcn_config \<Rightarrow> mbcn_config" where
  "sent_config settings = settings\<lparr>mc_records := fitting 94 (mc_records settings)\<rparr>"

lemma fitting_set: "set (fitting room rs) \<subseteq> {r \<in> set rs. record_valid r}" "length (fitting room rs) \<le> length rs"
  by (induction rs arbitrary: room) (auto simp: le_SucI)

lemma fitting_room: "sum_list (map record_size (fitting room rs)) \<le> room"
proof (induction rs arbitrary: room)
  case (Cons r rs)
  show ?case using Cons.IH [of "room - record_size r"] Cons.IH [of room] by auto
qed simp

lemma fitting_all: "sum_list (map record_size (filter record_valid rs)) \<le> room \<Longrightarrow> fitting room rs = filter record_valid rs"
  by (induction rs arbitrary: room) auto

lemma sent_config_ok:
  assumes "config_wf settings"
  shows "config_wf (sent_config settings)" "filter record_valid (fitting room rs) = fitting room rs"
proof -
  show "filter record_valid (fitting room rs) = fitting room rs" using fitting_set(1) [of room rs] by (auto intro!: filter_True)
  show "config_wf (sent_config settings)"
    using assms fitting_set [of 94 "mc_records settings"] by (auto simp: config_wf_def sent_config_def list_all_iff)
qed

lemma length_record_wire:
  "record_valid r \<Longrightarrow> length (mr_value r) = POSLIB_MBCN_RECORD_MAX_SIZE \<Longrightarrow> length (pitem_wire (record_item r)) = record_size r"
  using length_pitem_wire [OF record_item_ok, of r] by (simp add: record_size_def record_item_def)

lemma length_sent_wire:
  assumes "config_wf settings"
  shows "length (mbcn_wire (sent_config settings)) \<le> MBCN_DATA_SIZE"
proof -
  have "length (concat (map (pitem_wire \<circ> record_item) rs)) = sum_list (map record_size rs)"
    if "\<forall>r \<in> set rs. record_valid r \<and> length (mr_value r) = POSLIB_MBCN_RECORD_MAX_SIZE" for rs
    using that by (induction rs) (simp_all add: length_record_wire)
  moreover have "\<forall>r \<in> set (fitting 94 (mc_records settings)). record_valid r \<and> length (mr_value r) = POSLIB_MBCN_RECORD_MAX_SIZE"
    using assms fitting_set(1) [of 94 "mc_records settings"] by (auto simp: config_wf_def list_all_iff)
  moreover have "length (pitem_wire (le16_item t v)) = 3" if "t \<le> 31" for t v
    using length_pitem_wire [OF le16_item_ok, OF that] by (simp add: le16_item_def)
  ultimately show ?thesis
    using fitting_room [of 94 "mc_records settings"] sent_config_ok(2) [OF assms]
    by (simp add: mbcn_items_def sent_config_def MBCN_DATA_SIZE_def)
qed

lemma no_room_int: "n < i + ((if c then 1 else 2) + l) \<Longrightarrow> \<not> int l + (if c then 1 else 2) \<le> int n - int i"
  by auto

lemma add_no_room:
  assumes "tlv_wf rcd" "record_valid r" "unat (tlv_length rcd) < unat (tlv_index rcd) + record_size r"
  shows "\<exists>res. PosLibTlv_Encode_addItem False rcd (record_item r) = Some (res, rcd)"
proof -
  have "\<not> uint (tlv_length rcd - tlv_index rcd) \<ge> uint (mr_length r) + (if mr_length r \<le> 7 then 1 else 2)"
    using assms(3) unfolding uint_nat tlv_remaining(1) [OF assms(1)] record_size_def of_nat_diff [OF tlv_remaining(2) [OF assms(1)]]
    by (rule no_room_int)
  then show ?thesis by (auto simp: PosLibTlv_Encode_addItem_def record_item_def Let_def split: if_splits)
qed

lemma add_records:
  assumes "tlv_wf rcd" "\<forall>r \<in> set rs. length (mr_value r) = POSLIB_MBCN_RECORD_MAX_SIZE"
    "unat (tlv_index rcd) + room = unat (tlv_length rcd)"
  shows "add_items (map record_item (filter record_valid rs)) rcd = add_items (map record_item (fitting room rs)) rcd"
  using assms
proof (induction rs arbitrary: rcd room)
  case Nil
  then show ?case by simp
next
  case (Cons r rs)
  consider (invalid) "\<not> record_valid r" | (fits) "record_valid r" "record_size r \<le> room" | (no) "record_valid r" "\<not> record_size r \<le> room" by blast
  then show ?case
  proof cases
    case invalid
    then show ?thesis using Cons by simp
  next
    case no
    then obtain res where "PosLibTlv_Encode_addItem False rcd (record_item r) = Some (res, rcd)"
      using add_no_room [OF Cons.prems(1), of r] Cons.prems(3) by auto
    then show ?thesis using no Cons by (simp add: add_items_def)
  next
    case fits
    let ?w = "pitem_wire (record_item r)"
    have l: "length ?w = record_size r" and ok: "pitem_ok (record_item r)"
      using fits Cons.prems(2) by (auto intro: length_record_wire record_item_ok)
    have room: "unat (tlv_index rcd) + length ?w \<le> unat (tlv_length rcd)" using Cons.prems(3) fits l by simp
    have add: "PosLibTlv_Encode_addItem False rcd (record_item r) = Some (POSLIB_TLV_RES_OK, with_wire rcd ?w)"
      using ptlv_add_writes [OF Cons.prems(1) ok room] by (simp add: with_wire_def)
    have "add_items (map record_item (filter record_valid rs)) (with_wire rcd ?w) =
        add_items (map record_item (fitting (room - record_size r) rs)) (with_wire rcd ?w)"
      using Cons.prems fits l with_wire [OF Cons.prems(1) room] by (intro Cons.IH) auto
    then show ?thesis using fits add by (simp add: add_items_def)
  qed
qed

lemma encode_sent:
  assumes "config_wf settings" "length buf = MBCN_DATA_SIZE"
  shows "encode_mbcn settings buf (of_nat MBCN_DATA_SIZE) = encode_mbcn (sent_config settings) buf (of_nat MBCN_DATA_SIZE)"
proof -
  let ?r = "\<lparr>tlv_buffer = buf, tlv_length = of_nat MBCN_DATA_SIZE, tlv_index = 0\<rparr>"
  let ?is = "[le16_item 1 (mc_tx_interval_ms settings), le16_item 2 0]"
  let ?ws = "concat (map pitem_wire ?is)"
  have r: "tlv_wf ?r" "unat (tlv_length ?r) = 100" using assms(2) by (simp_all add: tlv_wf_def MBCN_DATA_SIZE_def)
  have "length (pitem_wire (le16_item t v)) = 3" if "t \<le> 31" for t v
    using length_pitem_wire [OF le16_item_ok, OF that] by (simp add: le16_item_def)
  then have l: "length ?ws = 6" by simp
  have room: "unat (tlv_index ?r) + length ?ws \<le> unat (tlv_length ?r)" using l r(2) by simp
  have two: "add_items ?is ?r = Some (with_wire ?r ?ws)"
    using r(1) room by (intro add_items_writes) (simp_all add: le16_item_ok)
  have "add_items (map record_item (filter record_valid (mc_records settings))) (with_wire ?r ?ws) =
      add_items (map record_item (fitting 94 (mc_records settings))) (with_wire ?r ?ws)"
    using assms(1) with_wire [OF r(1) room] l r(2) by (intro add_records) (auto simp: config_wf_def list_all_iff)
  moreover have "add_items (?is @ js) ?r = add_items js (with_wire ?r ?ws)" for js
    using two unfolding add_items_def foldo_append by simp
  ultimately have "add_items (?is @ map record_item (filter record_valid (mc_records settings))) ?r =
      add_items (?is @ map record_item (fitting 94 (mc_records settings))) ?r" by simp
  then show ?thesis
    unfolding encode_mbcn_items mbcn_items_def using sent_config_ok(2) [OF assms(1)] by (simp add: sent_config_def)
qed

lemma start_sends:
  assumes "mc_enabled settings" "config_wf settings" "length (mb_data w) = MBCN_DATA_SIZE"
  obtains ok w' where "PosLibMbcn_start env settings w = Some (ok, w')" "mb_seq w' = 0" "mb_settings w' = settings"
    "\<And>seq. ds_bytes (mbcn_frame (w'\<lparr>mb_seq := seq\<rparr>)) = le16 seq @ mbcn_wire (sent_config settings)"
proof -
  let ?r = "\<lparr>tlv_buffer = mb_data w, tlv_length = of_nat MBCN_DATA_SIZE, tlv_index = 0\<rparr>"
  let ?ws = "mbcn_wire (sent_config settings)"
  have r: "tlv_wf ?r" "unat (tlv_length ?r) = 100" using assms by (simp_all add: tlv_wf_def MBCN_DATA_SIZE_def)
  have room: "unat (tlv_index ?r) + length ?ws \<le> unat (tlv_length ?r)" using length_sent_wire [OF assms(2)] r by (simp add: MBCN_DATA_SIZE_def)
  have enc: "encode_mbcn settings (mb_data w) (of_nat MBCN_DATA_SIZE) = Some (with_wire ?r ?ws)"
    unfolding encode_sent [OF assms(2,3)] unfolding encode_mbcn_items
    by (rule add_items_writes [OF r(1) mbcn_items_ok [OF sent_config_ok(1) [OF assms(2)]] room])
  have idx: "unat (tlv_index (with_wire ?r ?ws)) = length ?ws" using with_wire(2) [OF r(1) room] by simp
  have buf: "tlv_buffer (with_wire ?r ?ws) = ?ws @ drop (length ?ws) (mb_data w)" by (simp add: with_wire_def)
  let ?v = "w\<lparr>mb_settings := settings, mb_seq := 0, mb_data := ?ws @ drop (length ?ws) (mb_data w), mb_num_bytes := 2 + length ?ws\<rparr>"
  obtain ok w' s where run: "PosLibMbcn_start env settings w = Some (ok, w')" and w': "w' = ?v\<lparr>co_sched := s, mb_started := ok\<rparr>"
  proof (cases "mb_started w")
    case True
    then show ?thesis using assms(1) enc idx buf by (intro that [of True "?v\<lparr>co_sched := co_sched w, mb_started := True\<rparr>" "co_sched w"])
        (simp_all add: PosLibMbcn_start_def)
  next
    case False
    obtain b s where "co_addTask (pe_time env) ''mbcn_task'' (ucast (mc_tx_interval_ms settings)) 50 ?v = (b, ?v\<lparr>co_sched := s\<rparr>)"
      using co_addTask_core by metis
    then show ?thesis using False assms(1) enc idx buf by (intro that [of b "?v\<lparr>co_sched := s, mb_started := b\<rparr>" s])
        (simp_all add: PosLibMbcn_start_def)
  qed
  show ?thesis by (rule that [OF run]) (simp_all add: w' mbcn_frame_def le16_def)
qed

subsection \<open>What is received\<close>

definition known_type :: "u16 \<Rightarrow> bool" where
  "known_type t \<longleftrightarrow> t \<in> {3, 4, 5, 6, 7, 16, 17, 18, 19}"

text \<open>A record as it arrives: the bytes after its length are 0.\<close>

definition received_record :: "mbcn_record \<Rightarrow> mbcn_record" where
  "received_record r =
     r\<lparr>mr_value := take (unat (mr_length r)) (mr_value r) @ replicate (POSLIB_MBCN_RECORD_MAX_SIZE - unat (mr_length r)) 0\<rparr>"

lemma rd_bytes_alike:
  assumes "fits_past 0 i" "alike i j"
  shows "rd_bytes (it_value j) 0 (unat (it_length i)) = rd_bytes (it_value i) 0 (unat (it_length i))" "it_type j = it_type i" "it_length j = it_length i"
  using assms by (auto simp: alike_def same_item_def item_bytes_def fits_past_def rd_bytes_def)

lemma mbcn_item_alike:
  assumes "pitem_ok i" "alike i j"
  shows "mbcn_item j = mbcn_item i"
proof -
  have "fits_past 0 i" using assms(1) by (simp add: pitem_ok_def)
  note a = rd_bytes_alike [OF this assms(2)]
  show ?thesis unfolding mbcn_item_def Let_def a ..
qed

lemma mbcn_item_inv:
  "mbcn_item item (i, m) = Some (i', m') \<Longrightarrow> i \<le> length (md_records m) \<Longrightarrow>
     i' \<le> length (md_records m') \<and> length (md_records m') = length (md_records m)"
  by (auto simp: mbcn_item_def Let_def bind_eq_Some_conv rd_def wr_def split: if_splits)

lemma record_received:
  assumes "record_valid r" "known_type (ucast (mr_type r))" "length (mr_value r) = POSLIB_MBCN_RECORD_MAX_SIZE"
    "md_records m = rs @ empty_record # es"
  shows "mbcn_item (record_item r) (length rs, m) = Some (length rs + 1, m\<lparr>md_records := rs @ received_record r # es\<rparr>)"
proof -
  have l: "unat (mr_length r) \<le> POSLIB_MBCN_RECORD_MAX_SIZE" "unat (mr_length r) \<le> length (mr_value r)"
    using assms by (simp_all add: record_valid_def)
  have t: "ucast (mr_type r) \<noteq> (1::u16)" "ucast (mr_type r) \<noteq> (2::u16)" using assms(2) by (auto simp: known_type_def)
  have u: "ucast (ucast (mr_type r) :: u16) = mr_type r"
    by (rule bit_word_eqI) (auto simp: bit_simps dest: bit_imp_le_length)
  have v: "\<lparr>mr_type = mr_type r, mr_length = mr_length r,
      mr_value = take (unat (mr_length r)) (mr_value r) @ drop (unat (mr_length r)) (mr_value empty_record)\<rparr> = received_record r"
    by (simp add: received_record_def empty_record_def)
  show ?thesis
    using assms(2,4) l t v
    by (simp add: mbcn_item_def record_item_def rd_bytes_in rd_in wr_in u known_type_def nth_append list_update_append)
qed

lemma records_received:
  assumes "list_all (\<lambda>r. record_valid r \<and> known_type (ucast (mr_type r)) \<and> length (mr_value r) = POSLIB_MBCN_RECORD_MAX_SIZE) rs"
    "md_records m = xs @ replicate n empty_record" "length rs \<le> n"
  shows "foldo mbcn_item (map record_item rs) (length xs, m) =
     Some (length xs + length rs, m\<lparr>md_records := xs @ map received_record rs @ replicate (n - length rs) empty_record\<rparr>)"
  using assms
proof (induction rs arbitrary: m xs n)
  case Nil
  then show ?case by simp
next
  case (Cons r rs)
  then obtain k where n: "n = Suc k" by (cases n) auto
  have "mbcn_item (record_item r) (length xs, m) = Some (length xs + 1, m\<lparr>md_records := xs @ received_record r # replicate k empty_record\<rparr>)"
    using Cons.prems n by (intro record_received) simp_all
  moreover have "foldo mbcn_item (map record_item rs)
      (length (xs @ [received_record r]), m\<lparr>md_records := xs @ received_record r # replicate k empty_record\<rparr>) =
     Some (length (xs @ [received_record r]) + length rs, m\<lparr>md_records := xs @ received_record r # replicate k empty_record,
       md_records := (xs @ [received_record r]) @ map received_record rs @ replicate (k - length rs) empty_record\<rparr>)"
    using Cons.prems n by (intro Cons.IH) simp_all
  ultimately show ?case using n by simp
qed

lemma le16_received:
  "mbcn_item (le16_item 1 v) (i, m) = Some (i, m\<lparr>md_tx_interval_ms := v\<rparr>)"
  "mbcn_item (le16_item 2 v) (i, m) = Some (i, m\<lparr>md_features := v\<rparr>)"
proof -
  have l: "length (le16 v) = 2" by (simp add: le16_def)
  have r: "rd_bytes (le16 v) 0 2 = Some (le16 v)" using l by (simp add: rd_bytes_in)
  show "mbcn_item (le16_item 1 v) (i, m) = Some (i, m\<lparr>md_tx_interval_ms := v\<rparr>)"
    "mbcn_item (le16_item 2 v) (i, m) = Some (i, m\<lparr>md_features := v\<rparr>)"
    by (simp_all add: mbcn_item_def le16_item_def r le_val_le16)
qed

text \<open>The records of the settings a receiver can read.\<close>

definition config_known :: "mbcn_config \<Rightarrow> bool" where
  "config_known settings \<longleftrightarrow> list_all (\<lambda>r. record_valid r \<longrightarrow> known_type (ucast (mr_type r))) (mc_records settings)"

definition received_mbcn :: "u16 \<Rightarrow> mbcn_config \<Rightarrow> mbcn_data" where
  "received_mbcn seq settings =
     (let rs = map received_record (filter record_valid (mc_records settings))
      in \<lparr>md_seq = seq, md_tx_interval_ms = mc_tx_interval_ms settings, md_features = 0,
          md_records = rs @ replicate (POSLIB_MBCN_RECORDS - length rs) empty_record\<rparr>)"

lemma mbcn_received:
  assumes wf: "config_wf settings" "config_known settings" and len: "length (mbcn_wire settings) \<le> MBCN_DATA_SIZE"
  shows "PosLibMbcn_decode False (le16 seq @ mbcn_wire settings) (of_nat (2 + length (mbcn_wire settings))) m =
     Some (True, received_mbcn seq settings)"
proof -
  let ?ws = "mbcn_wire settings" and ?rs = "filter record_valid (mc_records settings)"
  let ?r = "\<lparr>tlv_buffer = ?ws, tlv_length = of_nat (length ?ws), tlv_index = 0\<rparr>"
  let ?m = "m\<lparr>md_seq := seq, md_records := replicate POSLIB_MBCN_RECORDS empty_record\<rparr>"
  have u: "unat (of_nat (length ?ws) :: u8) = length ?ws" "unat (of_nat (2 + length ?ws) :: u8) = 2 + length ?ws"
    using len by (intro unat_of_nat_small, simp add: MBCN_DATA_SIZE_def)+
  have r: "tlv_wf ?r \<and> tlv_length ?r < 255" "tlv_rest ?r = ?ws"
    using u(1) len by (auto simp: tlv_wf_def tlv_rest_def MBCN_DATA_SIZE_def word_less_nat_alt)
  have rs: "length ?rs \<le> POSLIB_MBCN_RECORDS"
    using wf(1) unfolding config_wf_def by (meson le_trans length_filter_le)
  have good: "list_all (\<lambda>r. record_valid r \<and> known_type (ucast (mr_type r)) \<and> length (mr_value r) = POSLIB_MBCN_RECORD_MAX_SIZE) ?rs"
    using wf by (auto simp: list_all_iff config_wf_def config_known_def)
  have "foldo mbcn_item (mbcn_items settings) (0, ?m) = Some (length ?rs, received_mbcn seq settings)"
    using records_received [OF good, of "?m\<lparr>md_tx_interval_ms := mc_tx_interval_ms settings, md_features := 0\<rparr>" "[]" POSLIB_MBCN_RECORDS] rs
    by (simp add: mbcn_items_def le16_received received_mbcn_def)
  moreover have "walk_items poslib_read (\<lambda>(i, _). i < SIZEOF_RECORDS) mbcn_item ?r (0, ?m) =
      map_option (Pair (Some POSLIB_TLV_RES_END)) (foldo mbcn_item (mbcn_items settings) (0, ?m))"
  proof (rule poslib_format.walk_reads [where I = "\<lambda>(i, m). i \<le> length (md_records m) \<and> length (md_records m) = POSLIB_MBCN_RECORDS",
        OF _ _ _ r(1) mbcn_items_ok [OF wf(1)] r(2)])
    show "mbcn_item j = mbcn_item i" if "i \<in> set (mbcn_items settings)" "alike i j" for i j
      using that mbcn_items_ok [OF wf(1)] by (auto simp: list_all_iff intro: mbcn_item_alike)
  qed (auto simp: SIZEOF_RECORDS_def POSLIB_MBCN_RECORDS_def dest: mbcn_item_inv)
  moreover have "rd_bytes (le16 seq @ ?ws) 0 2 = Some (le16 seq)" "drop 2 (le16 seq @ ?ws) = ?ws"
    by (simp_all add: rd_bytes_in le16_def)
  moreover have "of_nat (2 + length ?ws) - 2 = (of_nat (length ?ws) :: u8)" by simp
  ultimately show ?thesis
    unfolding PosLibMbcn_decode_def using u(2) by (simp add: le_val_le16)
qed

subsection \<open>Properties\<close>

text \<open>C34: after a start with settings of at most 8 records, whose valid ones have types the
  decoder knows, the mini-beacon the task sends, when it is decoded by a receiver, has the number
  1, the interval, no features, and in their order those of the valid records that fit into the
  buffer of 100 bytes after the ones before; the other records are empty.  These are all the valid
  records when they fit together, into the 94 bytes after the first two items.\<close>

theorem mbcn_roundtrip:
  assumes "mc_enabled settings" "config_wf settings" "config_known settings" "length (mb_data w) = MBCN_DATA_SIZE"
  shows "\<exists>ok w1 w2 d. PosLibMbcn_start env settings w = Some (ok, w1) \<and> mbcn_task env w1 = (ucast (mc_tx_interval_ms settings), w2) \<and>
     co_log w2 = co_log w1 @ [Send_data d (pe_send env d = APP_LIB_DATA_SEND_RES_SUCCESS)] \<and>
     PosLibMbcn_decode False (ds_bytes d) (of_nat (length (ds_bytes d))) m =
       Some (True, received_mbcn 1 (settings\<lparr>mc_records := fitting 94 (mc_records settings)\<rparr>)) \<and>
     (sum_list (map record_size (filter record_valid (mc_records settings))) \<le> 94 \<longrightarrow>
        fitting 94 (mc_records settings) = filter record_valid (mc_records settings))"
proof -
  obtain ok w1 where w1: "PosLibMbcn_start env settings w = Some (ok, w1)" "mb_seq w1 = 0" "mb_settings w1 = settings"
    "\<And>seq. ds_bytes (mbcn_frame (w1\<lparr>mb_seq := seq\<rparr>)) = le16 seq @ mbcn_wire (sent_config settings)"
    using assms by (elim start_sends) auto
  let ?d = "mbcn_frame (w1\<lparr>mb_seq := 1\<rparr>)"
  have "length (ds_bytes ?d) = 2 + length (mbcn_wire (sent_config settings))" unfolding w1(4) by (simp add: le16_def)
  moreover have "config_known (sent_config settings)"
    using assms(3) fitting_set(1) [of 94 "mc_records settings"] by (auto simp: config_known_def sent_config_def list_all_iff)
  ultimately have "PosLibMbcn_decode False (ds_bytes ?d) (of_nat (length (ds_bytes ?d))) m = Some (True, received_mbcn 1 (sent_config settings))"
    using mbcn_received [OF sent_config_ok(1) [OF assms(2)] _ length_sent_wire [OF assms(2)], of 1 m] w1(4) by (simp del: of_nat_add)
  then show ?thesis
    using w1(1-3) fitting_all unfolding sent_config_def
    by (intro exI [of _ ok] exI [of _ w1] exI [of _ "snd (mbcn_task env w1)"] exI [of _ ?d])
      (simp add: mbcn_task_def co_send_def co_call_def Let_def)
qed

definition mbcn_boot :: pos_mbcn where
  "mbcn_boot = pos_core.extend core_boot
     (pos_mbcn.fields 0 (replicate MBCN_DATA_SIZE 0) 0 \<lparr>mc_enabled = False, mc_tx_interval_ms = 0, mc_records = []\<rparr> False)"

definition mbcn_config_example :: mbcn_config where
  "mbcn_config_example =
     \<lparr>mc_enabled = True, mc_tx_interval_ms = 500,
      mc_records = [\<lparr>mr_type = 3, mr_length = 2, mr_value = [7, 9] @ replicate 14 0\<rparr>, \<lparr>mr_type = 0, mr_length = 0, mr_value = replicate 16 0\<rparr>,
        \<lparr>mr_type = 16, mr_length = 9, mr_value = [1, 2, 3, 4, 5, 6, 7, 8, 9] @ replicate 7 0\<rparr>]\<rparr>"

definition mbcn_blank :: mbcn_data where
  "mbcn_blank = \<lparr>md_seq = 0, md_tx_interval_ms = 0, md_features = 0, md_records = []\<rparr>"

theorem mbcn_roundtrip_witness:
  "\<exists>ok w1 w2 d. PosLibMbcn_start pos_env_example mbcn_config_example mbcn_boot = Some (ok, w1) \<and> mbcn_task pos_env_example w1 = (500, w2) \<and>
     co_log w2 = co_log w1 @ [Send_data d True] \<and>
     PosLibMbcn_decode False (ds_bytes d) (of_nat (length (ds_bytes d))) mbcn_blank =
       Some (True, received_mbcn 1 (mbcn_config_example\<lparr>mc_records := filter record_valid (mc_records mbcn_config_example)\<rparr>))"
proof -
  have c: "mc_enabled mbcn_config_example" "config_wf mbcn_config_example" "config_known mbcn_config_example"
    "mbcn_config_example\<lparr>mc_records := fitting 94 (mc_records mbcn_config_example)\<rparr> =
       mbcn_config_example\<lparr>mc_records := filter record_valid (mc_records mbcn_config_example)\<rparr>" by code_simp+
  have d: "length (mb_data mbcn_boot) = MBCN_DATA_SIZE" by (simp add: mbcn_boot_def pos_core.defs pos_mbcn.defs)
  have "ucast (mc_tx_interval_ms mbcn_config_example) = (500 :: u32)" "pe_send pos_env_example p = APP_LIB_DATA_SEND_RES_SUCCESS" for p
    by (simp_all add: mbcn_config_example_def pos_env_example_def)
  then show ?thesis using mbcn_roundtrip [OF c(1-3) d, of pos_env_example mbcn_blank] unfolding c(4) by fastforce
qed

text \<open>Of eight records with 16 bytes, which the settings allow, three are left out: the results of
  the encoder are ignored.\<close>

lemma mbcn_records_lost:
  "length (fitting 94 (replicate POSLIB_MBCN_RECORDS \<lparr>mr_type = 16, mr_length = 16, mr_value = replicate 16 1\<rparr>)) = 5"
  by code_simp

text \<open>The loop of the decoder compares the number of records with the size of the array in
  bytes, 144, and not with its 8 elements: a mini-beacon of nine records of one byte makes it
  write after the end.\<close>

lemma mbcn_overflow:
  "PosLibMbcn_decode False ([1, 0] @ concat (replicate 9 [0x23, 0])) 20 mbcn_blank = None"
  by code_simp

end
