(* ===== verification/Pos_Ble.thy ===== *)
theory Pos_Ble
  imports Pos_Mbcn Shared_Beacon
begin

text \<open>
  \<open>libraries/positioning/poslib/poslib_ble_beacon.c\<close>: Bluetooth beacons in the Eddystone and
  iBeacon formats, always or when the node is out of the network, sent by the shared beacon
  library, whose state is \<open>bb_beacons\<close>.  A beacon that is started is logged with its bytes.
\<close>

subsection \<open>Frames\<close>

record pos_ble = pos_mbcn +
  bb_beacons :: beacons
  bb_addresses :: "u8 list"
  bb_eddystone_idx :: u8
  bb_ibeacon_idx :: u8
  bb_eddystone_enabled :: bool
  bb_ibeacon_enabled :: bool
  bb_initialised :: bool
  bb_settings :: ble_settings
  bb_activation_started :: bool

definition MAX_BLE_BEACON_TX_SIZE :: nat where "MAX_BLE_BEACON_TX_SIZE = 38"
definition BLE_STACK_WAIT_MS :: u32 where "BLE_STACK_WAIT_MS = 15000"
definition POSLIB_EDDYSTONE :: u8 where "POSLIB_EDDYSTONE = 1"
definition POSLIB_IBEACON :: u8 where "POSLIB_IBEACON = 2"
definition POSLIB_BEACON_ALL :: u8 where "POSLIB_BEACON_ALL = 3"

text \<open>The letters of \<open>wirepas\<close> and of \<open>wirepas mesh\<close>.\<close>

definition wirepas_bytes :: "u8 list" where
  "wirepas_bytes = [0x77, 0x69, 0x72, 0x65, 0x70, 0x61, 0x73]"

definition be_bytes :: "u32 \<Rightarrow> nat \<Rightarrow> u8 list" where
  "be_bytes v n = rev (le_bytes v n)"

definition set_common_dataframe :: "'a pos_ble_scheme \<Rightarrow> u8 list" where
  "set_common_dataframe w = [0x42] @ bb_addresses w @ [0x02, 0x01, 0x04]"

definition set_eddystone_dataframe :: "pos_env \<Rightarrow> u8 \<Rightarrow> 'a pos_ble_scheme \<Rightarrow> u8 list" where
  "set_eddystone_dataframe env tx_power w =
     set_common_dataframe w @ [0x03, 0x03, 0xaa, 0xfe, 0x17, 0x16, 0xaa, 0xfe, 0x00, tx_power] @
     wirepas_bytes @ be_bytes (pe_network_address env) 3 @
     [0x00, 0x00] @ be_bytes (snd (pl_getNodeAddress (pe_lib env))) 4 @ [0x00, 0x00]"

definition set_ibeacon_dataframe :: "pos_env \<Rightarrow> u8 \<Rightarrow> 'a pos_ble_scheme \<Rightarrow> u8 list" where
  "set_ibeacon_dataframe env tx_power w =
     set_common_dataframe w @ [0x1a, 0xff, 0x4C, 0x00, 0x02, 0x15] @
     wirepas_bytes @ [0x20, 0x6d, 0x65, 0x73, 0x68, 0x00] @ be_bytes (pe_network_address env) 3 @
     [0x00, 0x00, 0x00, 0x00, tx_power]"

definition set_random_address :: "pos_env \<Rightarrow> 'a pos_ble_scheme \<Rightarrow> 'a pos_ble_scheme" where
  "set_random_address env w =
     w\<lparr>bb_addresses := le_bytes (snd (pl_getNodeAddress (pe_lib env))) 4 @ [0x00, 0xC0]\<rparr>"

subsection \<open>Starting and stopping\<close>

definition bb_stop :: "pos_env \<Rightarrow> u8 \<Rightarrow> 'a pos_ble_scheme \<Rightarrow> beacon_res \<times> 'a pos_ble_scheme" where
  "bb_stop env idx w =
     (case Shared_Beacon_stopBeacon (pe_clear_beacon env) idx (bb_beacons w) of (res, b) \<Rightarrow> (res, w\<lparr>bb_beacons := b\<rparr>))"

text \<open>The index is written when the beacon is started; the frame is followed by zeros up to the
  size of the buffer.\<close>

definition start_beacon ::
  "pos_env \<Rightarrow> u8 \<Rightarrow> ble_mode_config \<Rightarrow> u8 \<Rightarrow> 'a pos_ble_scheme \<Rightarrow> bool \<times> u8 \<times> 'a pos_ble_scheme" where
  "start_beacon env ble_type cfg ble_index w =
     (let w = set_random_address env w;
          (frame, w) =
            (if ble_type = POSLIB_EDDYSTONE
             then (Some (set_eddystone_dataframe env (bm_tx_power cfg) w),
               if bb_eddystone_enabled w then (snd (bb_stop env (bb_eddystone_idx w) w))\<lparr>bb_eddystone_enabled := False\<rparr> else w)
             else if ble_type = POSLIB_IBEACON
             then (Some (set_ibeacon_dataframe env (bm_tx_power cfg) w),
               if bb_ibeacon_enabled w then (snd (bb_stop env (bb_ibeacon_idx w) w))\<lparr>bb_ibeacon_enabled := False\<rparr> else w)
             else (None, w))
      in case frame of
           None \<Rightarrow> (False, ble_index, w)
         | Some bytes \<Rightarrow>
             (case Shared_Beacon_startBeacon (pe_set_beacon env) (bm_tx_interval_ms cfg) (bb_beacons w) of
                (res, idx, b) \<Rightarrow>
                  (let buffer = bytes @ replicate (MAX_BLE_BEACON_TX_SIZE - length bytes) 0;
                       w = w\<lparr>bb_beacons := b\<rparr>;
                       w = (if res = SHARED_BEACON_RES_OK then co_call (Start_beacon buffer) w else w)
                   in (res = SHARED_BEACON_RES_OK, case idx of Some i \<Rightarrow> i | None \<Rightarrow> ble_index, w))))"

definition start_beacons :: "pos_env \<Rightarrow> ble_settings \<Rightarrow> 'a pos_ble_scheme \<Rightarrow> 'a pos_ble_scheme option" where
  "start_beacons env settings w =
     (let (ev1, w) =
            (if bl_type settings = POSLIB_BEACON_ALL \<or> bl_type settings = POSLIB_EDDYSTONE
             then case start_beacon env POSLIB_EDDYSTONE (bl_eddystone settings) (bb_eddystone_idx w) w of
                    (ok, idx, w) \<Rightarrow> (ok, w\<lparr>bb_eddystone_enabled := ok, bb_eddystone_idx := idx\<rparr>)
             else (False, w));
          (ev2, w) =
            (if bl_type settings = POSLIB_BEACON_ALL \<or> bl_type settings = POSLIB_IBEACON
             then case start_beacon env POSLIB_IBEACON (bl_ibeacon settings) (bb_ibeacon_idx w) w of
                    (ok, idx, w) \<Rightarrow> (ok, w\<lparr>bb_ibeacon_enabled := ok, bb_ibeacon_idx := idx\<rparr>)
             else (False, w))
      in if ev1 \<or> ev2 then map_option snd (PosLibEvent_add (pe_time env) POSLIB_CTRL_EVENT_BLE_START w) else Some w)"

definition start_beacons_task :: "pos_env \<Rightarrow> 'a pos_ble_scheme \<Rightarrow> (u32 \<times> 'a pos_ble_scheme) option" where
  "start_beacons_task env w =
     (if bb_initialised w
      then if pe_stack_started env \<or> pe_sleep_started env
           then map_option (Pair APP_SCHEDULER_STOP_TASK) (start_beacons env (bb_settings w) w)
           else Some (BLE_STACK_WAIT_MS, w)
      else Some (APP_SCHEDULER_STOP_TASK, w))"

definition stop_beacons :: "pos_env \<Rightarrow> 'a pos_ble_scheme \<Rightarrow> 'a pos_ble_scheme option" where
  "stop_beacons env w =
     (let w = co_cancelTask ''start_beacons_task'' w;
          (ok1, w) =
            (if bb_eddystone_enabled w
             then case bb_stop env (bb_eddystone_idx w) w of (r, w) \<Rightarrow> (r = SHARED_BEACON_RES_OK, w\<lparr>bb_eddystone_enabled := False\<rparr>)
             else (True, w));
          (ok2, w) =
            (if bb_ibeacon_enabled w
             then case bb_stop env (bb_ibeacon_idx w) w of (r, w) \<Rightarrow> (r = SHARED_BEACON_RES_OK, w\<lparr>bb_ibeacon_enabled := False\<rparr>)
             else (True, w))
      in if ok1 \<and> ok2 then map_option snd (PosLibEvent_add (pe_time env) POSLIB_CTRL_EVENT_BLE_STOP w) else Some w)"

definition PosLibBle_start :: "pos_env \<Rightarrow> ble_settings \<Rightarrow> 'a pos_ble_scheme \<Rightarrow> (poslib_ret \<times> 'a pos_ble_scheme) option" where
  "PosLibBle_start env settings w =
     (if bb_initialised w \<and> bb_settings w = settings then Some (POS_RET_OK, w)
      else
        let w = w\<lparr>bb_initialised := True, bb_settings := settings\<rparr>
        in if bl_mode settings = POSLIB_BLE_OFF then map_option (Pair POS_RET_OK) (stop_beacons env w)
           else if bl_mode settings = POSLIB_BLE_ON
           then Some (POS_RET_OK,
             snd (co_addTask (pe_time env) ''start_beacons_task'' BLE_STACK_WAIT_MS 500 (co_cancelTask ''start_beacons_task'' w)))
           else if bl_mode settings = POSLIB_BLE_ON_WHEN_OFFLINE then Some (POS_RET_OK, w)
           else Some (POS_RET_INVALID_PARAM, w\<lparr>bb_initialised := False\<rparr>))"

definition PosLibBle_stop :: "pos_env \<Rightarrow> 'a pos_ble_scheme \<Rightarrow> 'a pos_ble_scheme option" where
  "PosLibBle_stop env w = map_option (\<lambda>w. w\<lparr>bb_initialised := False\<rparr>) (stop_beacons env w)"

definition setConnectionStatus :: "pos_env \<Rightarrow> bool \<Rightarrow> 'a pos_ble_scheme \<Rightarrow> 'a pos_ble_scheme option" where
  "setConnectionStatus env wm_coverage w =
     (if \<not> bb_initialised w \<or> bl_mode (bb_settings w) \<noteq> POSLIB_BLE_ON_WHEN_OFFLINE then Some w
      else if wm_coverage then map_option (\<lambda>w. w\<lparr>bb_activation_started := False\<rparr>) (stop_beacons env w)
      else if \<not> bb_activation_started w
      then Some (snd (co_addTask (pe_time env) ''start_beacons_task'' (ucast (bl_activation_delay_s (bb_settings w)) * 1000) 500
             (co_cancelTask ''start_beacons_task'' (w\<lparr>bb_activation_started := True\<rparr>))))
      else Some w)"

definition PosLibBle_processEvent :: "pos_env \<Rightarrow> poslib_event \<Rightarrow> 'a pos_ble_scheme \<Rightarrow> 'a pos_ble_scheme option" where
  "PosLibBle_processEvent env t w =
     (case t of
        POSLIB_CTRL_EVENT_OUTSIDE_WM \<Rightarrow> setConnectionStatus env False w
      | POSLIB_CTRL_EVENT_UNDER_WM \<Rightarrow> setConnectionStatus env True w
      | _ \<Rightarrow> Some w)"

subsection \<open>Lemmas\<close>

text \<open>A frame fills the buffer and has the addresses of the node, the lowest byte last in the
  Eddystone identifiers.\<close>

lemma frame_sizes:
  assumes "length (bb_addresses w) = 6"
  shows "length (set_eddystone_dataframe env p w) = MAX_BLE_BEACON_TX_SIZE" "length (set_ibeacon_dataframe env p w) = 37"
  using assms by (simp_all add: set_eddystone_dataframe_def set_ibeacon_dataframe_def set_common_dataframe_def wirepas_bytes_def
      be_bytes_def MAX_BLE_BEACON_TX_SIZE_def)

lemma eddystone_identifiers:
  assumes "length (bb_addresses w) = 6"
  shows "le_val (rev (take 3 (drop 27 (set_eddystone_dataframe env p w)))) = take_bit 24 (pe_network_address env)"
    "le_val (rev (take 4 (drop 32 (set_eddystone_dataframe env p w)))) = snd (pl_getNodeAddress (pe_lib env))"
proof -
  have n: "rev (take 3 (drop 27 (set_eddystone_dataframe env p w))) = le_bytes (pe_network_address env) 3"
    and a: "rev (take 4 (drop 32 (set_eddystone_dataframe env p w))) = le_bytes (snd (pl_getNodeAddress (pe_lib env))) 4"
    using assms by (simp_all add: set_eddystone_dataframe_def set_common_dataframe_def wirepas_bytes_def be_bytes_def take_rev drop_rev)
  show "le_val (rev (take 3 (drop 27 (set_eddystone_dataframe env p w)))) = take_bit 24 (pe_network_address env)"
    unfolding n le_val_le_bytes by simp
  show "le_val (rev (take 4 (drop 32 (set_eddystone_dataframe env p w)))) = snd (pl_getNodeAddress (pe_lib env))"
    unfolding a le_val_le_bytes by (rule bit_word_eqI) (auto simp: bit_simps)
qed

lemma ev_part_ble [simp]:
  "ev_part (w\<lparr>bb_beacons := b\<rparr>) = ev_part w" "ev_part (w\<lparr>bb_addresses := as\<rparr>) = ev_part w"
  "ev_part (w\<lparr>bb_eddystone_enabled := e\<rparr>) = ev_part w" "ev_part (w\<lparr>bb_ibeacon_enabled := e\<rparr>) = ev_part w"
  "ev_part (w\<lparr>bb_eddystone_idx := i\<rparr>) = ev_part w" "ev_part (w\<lparr>bb_ibeacon_idx := i\<rparr>) = ev_part w"
  "ev_part (w\<lparr>bb_initialised := e\<rparr>) = ev_part w" "ev_part (w\<lparr>bb_settings := t\<rparr>) = ev_part w"
  "ev_part (w\<lparr>bb_activation_started := e\<rparr>) = ev_part w"
  by (simp_all add: ev_part_def)

text \<open>Ranks of the modules that are built on this one.\<close>

definition ble_free :: "('a pos_ble_scheme \<Rightarrow> 'b) \<Rightarrow> bool" where
  "ble_free R \<longleftrightarrow> (\<forall>w w'. pos_ble.more w' = pos_ble.more w \<longrightarrow> R w' = R w)"

lemma ble_more: "pos_core.more w' = pos_core.more w \<Longrightarrow> pos_ble.more w' = pos_ble.more w"
  by (cases w; cases w') simp

lemma ble_free_core: "ble_free R \<Longrightarrow> core_free R"
  unfolding ble_free_def core_free_def using ble_more by blast

lemma ble_freeD: "ble_free R \<Longrightarrow> pos_ble.more w' = pos_ble.more w \<Longrightarrow> R w' = R w"
  unfolding ble_free_def by blast

lemma ble_more_calls [simp]:
  "pos_ble.more (co_call c w) = pos_ble.more w" "pos_ble.more (co_cancelTask f w) = pos_ble.more w"
  "pos_ble.more (snd (co_addTask lt f d e w)) = pos_ble.more w"
  by (rule ble_more, simp)+

lemma bb_stop_part [simp]: "ev_part (snd (bb_stop env i w)) = ev_part w" "pos_ble.more (snd (bb_stop env i w)) = pos_ble.more w"
  by (simp_all add: bb_stop_def split_def)

lemma start_beacon_part [simp]:
  "ev_part (snd (snd (start_beacon env t c i w))) = ev_part w" "pos_ble.more (snd (snd (start_beacon env t c i w))) = pos_ble.more w"
  by (simp_all add: start_beacon_def set_random_address_def Let_def split_def)

lemma beacon_event_appends:
  assumes "ble_free R" "t = POSLIB_CTRL_EVENT_BLE_START \<or> t = POSLIB_CTRL_EVENT_BLE_STOP" "ev_part v = ev_part w" "pos_ble.more v = pos_ble.more w"
  shows "appends R 1 (map_option snd (PosLibEvent_add lt t v)) w"
  using assms(2) ble_free_core [OF assms(1)]
  by (intro appends_from [OF add_appends] assms(3) ble_freeD [OF assms(1) assms(4)]) (auto simp: ev_weight_def)

lemma start_beacons_appends:
  assumes "ble_free R"
  shows "appends R 1 (start_beacons env settings w) w"
  unfolding start_beacons_def Let_def split_def
  by (intro appends_if appends_part beacon_event_appends assms ble_freeD [OF assms]) simp_all

lemma stop_beacons_appends:
  assumes "ble_free R"
  shows "appends R 1 (stop_beacons env w) w"
  unfolding stop_beacons_def Let_def split_def
  by (intro appends_if appends_part beacon_event_appends assms ble_freeD [OF assms]) simp_all

lemma ble_event_appends:
  assumes "ble_free R"
  shows "appends R (if t = POSLIB_CTRL_EVENT_UNDER_WM then 1 else 0) (PosLibBle_processEvent env t w) w"
proof -
  have "appends R 1 (setConnectionStatus env True w) w" "appends R 0 (setConnectionStatus env False w) w"
    unfolding setConnectionStatus_def
    by (auto intro!: appends_part appends_map [OF stop_beacons_appends [simplified]] assms ble_freeD [OF assms])
  moreover have "appends R 0 (Some w) w" by (rule appends_part) simp_all
  ultimately show ?thesis by (cases t) (simp_all add: PosLibBle_processEvent_def)
qed

lemma ble_start_appends:
  assumes "ble_free R"
  shows "appends R 1 (map_option snd (PosLibBle_start env settings w)) w"
  unfolding PosLibBle_start_def Let_def
  by (auto simp: option.map_comp comp_def option.map_ident
      intro!: appends_part appends_from [OF stop_beacons_appends [simplified]] assms ble_freeD [OF assms])

lemma ble_stop_appends:
  assumes "ble_free R"
  shows "appends R 1 (PosLibBle_stop env w) w"
  unfolding PosLibBle_stop_def
  by (rule appends_map [OF stop_beacons_appends]) (auto intro!: assms ble_freeD [OF assms])

text \<open>A stop of the beacons does not forget that their activation has started: after a restart
  the node does not send beacons when it leaves the network.\<close>

lemma stop_beacons_activation:
  assumes "stop_beacons env w = Some w1"
  shows "bb_activation_started w1 = bb_activation_started w"
proof -
  have "bb_activation_started (snd (bb_stop env i v)) = bb_activation_started v"
    "bb_activation_started (co_cancelTask f v) = bb_activation_started v" for i f and v :: "'a pos_ble_scheme"
    by (simp_all add: bb_stop_def co_cancelTask_def split_def)
  moreover have "bb_activation_started w' = bb_activation_started v" if "PosLibEvent_add lt t v = Some (b, w')" for lt t b and v w' :: "'a pos_ble_scheme"
    using add_frame [OF that] by auto
  ultimately show ?thesis
    using assms unfolding stop_beacons_def Let_def split_def by (auto split: if_splits)
qed

lemma activation_lost:
  assumes "bb_activation_started w" "bl_mode settings = POSLIB_BLE_ON_WHEN_OFFLINE"
    "PosLibBle_stop env w = Some w1" "PosLibBle_start env settings w1 = Some (r, w2)"
  shows "PosLibBle_processEvent env POSLIB_CTRL_EVENT_OUTSIDE_WM w2 = Some w2"
proof -
  have "bb_activation_started w1" using assms(1,3) stop_beacons_activation [of env w] by (auto simp: PosLibBle_stop_def)
  moreover have "w2 = w1\<lparr>bb_initialised := True, bb_settings := settings\<rparr>"
    using assms(2-4) by (auto simp: PosLibBle_start_def PosLibBle_stop_def Let_def POSLIB_BLE_OFF_def POSLIB_BLE_ON_def
        POSLIB_BLE_ON_WHEN_OFFLINE_def split: if_splits)
  ultimately show ?thesis by (simp add: PosLibBle_processEvent_def setConnectionStatus_def)
qed

end
