(* ===== verification/Pos_Meas.thy ===== *)
theory Pos_Meas
  imports Pos_Ble Stack_State "HOL-Library.Signed_Division"
begin

text \<open>
  \<open>libraries/positioning/poslib/poslib_measurement.c\<close>: the table of the beacons heard in a
  scan, the scan, and the message with the measurements.  Signal strengths are signed integers
  whose operands are signed bytes, so that the 16-bit arithmetic of the code does not overflow;
  a quotient is rounded to zero.  The callbacks with the shared libraries are the states of
  these libraries, with \<open>SCANEND_CB\<close> and \<open>BEACON_CB\<close> for the functions of this module.
\<close>

subsection \<open>State\<close>

datatype meas_beacon_type =
  POSLIB_MEAS_BEACON_TYPE_CB | POSLIB_MEAS_BEACON_TYPE_NB | POSLIB_MEAS_BEACON_TYPE_MBCN | POSLIB_MEAS_BEACON_TYPE_FLT
| POSLIB_MEAS_BEACON_TYPE_UNKNOWN

record wm_beacon =
  wb_address :: u32
  wb_norm_rss :: int
  wb_txpower :: int
  wb_type :: meas_beacon_type
  wb_samples :: nat
  wb_last_update :: u32

record meas_table =
  mt_beacons :: "wm_beacon list"
  mt_num_beacons :: nat
  mt_min_index :: nat
  mt_min_rss :: int

record pos_meas = pos_ble +
  me_table :: meas_table
  me_beacon_cb_id :: u16
  me_beacon_cb_reg :: bool
  me_opportunistic :: bool
  me_mbcn_item_cb :: bool
  me_time_when_no_beacons_s :: u32
  me_scan_pending :: bool
  me_init :: bool
  me_stack_cbs :: stack_state
  me_neighbors :: neighbors
  mv_samples :: nat
  mv_sampling_time_s :: u32
  mv_voltage_flt :: u16

record beacon_rx =
  rx_address :: u32
  rx_rssi :: u8
  rx_txpower :: u8
  rx_type :: u8

definition MAX_BEACONS :: nat where "MAX_BEACONS = 14"
definition MAX_FLT_SAMPLES :: nat where "MAX_FLT_SAMPLES = 8"
definition SCANEND_CB :: nat where "SCANEND_CB = 1"
definition BEACON_CB :: nat where "BEACON_CB = 2"
definition APP_LIB_STATE_STACK_EVENT_SCAN_STOPPED :: nat where "APP_LIB_STATE_STACK_EVENT_SCAN_STOPPED = 3"
definition POSLIB_VOLTAGE_SAMPLING_MAX_S :: u32 where "POSLIB_VOLTAGE_SAMPLING_MAX_S = 60"
definition POSLIB_VOLTAGE_FILTER_SAMPLES :: nat where "POSLIB_VOLTAGE_FILTER_SAMPLES = 30"

definition zero_entry :: wm_beacon where
  "zero_entry = \<lparr>wb_address = 0, wb_norm_rss = 0, wb_txpower = 0, wb_type = POSLIB_MEAS_BEACON_TYPE_CB, wb_samples = 0, wb_last_update = 0\<rparr>"

definition zero_table :: meas_table where
  "zero_table = \<lparr>mt_beacons = replicate MAX_BEACONS zero_entry, mt_num_beacons = 0, mt_min_index = 0, mt_min_rss = 0\<rparr>"

subsection \<open>The table\<close>

fun min_scan :: "wm_beacon list \<Rightarrow> nat \<Rightarrow> nat \<times> int \<Rightarrow> nat \<times> int" where
  "min_scan [] i m = m"
| "min_scan (b # bs) i m = min_scan bs (i + 1) (if wb_norm_rss b < snd m then (i, wb_norm_rss b) else m)"

definition update_min :: "meas_table \<Rightarrow> meas_table" where
  "update_min t =
     (case min_scan (take (mt_num_beacons t) (mt_beacons t)) 0 (mt_min_index t, 0) of
        (idx, rss) \<Rightarrow> t\<lparr>mt_min_index := idx, mt_min_rss := rss\<rparr>)"

definition update_entry :: "u32 \<Rightarrow> wm_beacon \<Rightarrow> wm_beacon \<Rightarrow> wm_beacon" where
  "update_entry now beacon bcn =
     (let samples = (if wb_samples bcn < MAX_FLT_SAMPLES then wb_samples bcn + 1 else wb_samples bcn);
          bcn = bcn\<lparr>wb_samples := samples, wb_address := wb_address beacon, wb_txpower := wb_txpower beacon, wb_last_update := now\<rparr>
      in if samples > 1
         then bcn\<lparr>wb_type := POSLIB_MEAS_BEACON_TYPE_FLT,
                  wb_norm_rss := wb_norm_rss bcn + (wb_norm_rss beacon - wb_norm_rss bcn) sdiv int samples\<rparr>
         else bcn\<lparr>wb_type := wb_type beacon, wb_norm_rss := wb_norm_rss beacon\<rparr>)"

definition insert_beacon :: "u32 \<Rightarrow> wm_beacon \<Rightarrow> meas_table \<Rightarrow> meas_table" where
  "insert_beacon now beacon t =
     (let (insert_idx, t) =
            (case first_index (\<lambda>b. wb_address b = wb_address beacon) (take (mt_num_beacons t) (mt_beacons t)) of
               Some i \<Rightarrow> (i, t)
             | None \<Rightarrow>
                 if mt_num_beacons t = MAX_BEACONS
                 then let t = update_min t
                      in (if wb_norm_rss beacon > mt_min_rss t then mt_min_index t else MAX_BEACONS, t)
                 else (mt_num_beacons t, t\<lparr>mt_num_beacons := mt_num_beacons t + 1\<rparr>))
      in if insert_idx < MAX_BEACONS
         then t\<lparr>mt_beacons := (mt_beacons t)[insert_idx := update_entry now beacon (mt_beacons t ! insert_idx)]\<rparr>
         else t)"

definition beacon_cb :: "beacon_rx \<Rightarrow> 'a pos_meas_scheme \<Rightarrow> 'a pos_meas_scheme" where
  "beacon_cb rx w =
     (let now = now_hp (co_sched w);
          type = (if rx_type rx = 0 then POSLIB_MEAS_BEACON_TYPE_NB
                  else if rx_type rx = 1 then POSLIB_MEAS_BEACON_TYPE_CB else POSLIB_MEAS_BEACON_TYPE_UNKNOWN);
          bcn = \<lparr>wb_address = rx_address rx, wb_norm_rss = sint (rx_rssi rx) - sint (rx_txpower rx), wb_txpower = sint (rx_txpower rx),
                 wb_type = type, wb_samples = 1, wb_last_update = now\<rparr>
      in w\<lparr>me_table := insert_beacon now bcn (me_table w)\<rparr>)"

text \<open>The filter of the item has the endpoints of mini-beacons.\<close>

definition mbcn_cb :: "u32 \<Rightarrow> u8 \<Rightarrow> u8 \<Rightarrow> 'a pos_meas_scheme \<Rightarrow> data_receive_res \<times> 'a pos_meas_scheme" where
  "mbcn_cb src rssi tx_power w =
     (let now = now_hp (co_sched w);
          bcn = \<lparr>wb_address = src, wb_norm_rss = sint rssi - sint tx_power, wb_txpower = sint tx_power,
                 wb_type = POSLIB_MEAS_BEACON_TYPE_MBCN, wb_samples = 1, wb_last_update = now\<rparr>
      in (APP_LIB_DATA_RECEIVE_RES_HANDLED, w\<lparr>me_table := insert_beacon now bcn (me_table w)\<rparr>))"

subsection \<open>Scans\<close>

definition register_callbacks :: "pos_env \<Rightarrow> 'a pos_meas_scheme \<Rightarrow> 'a pos_meas_scheme" where
  "register_callbacks env w =
     (let w = w\<lparr>me_stack_cbs := snd (Stack_State_addEventCb (Some SCANEND_CB) (push_bit APP_LIB_STATE_STACK_EVENT_SCAN_STOPPED 1)
              (me_stack_cbs w))\<rparr>;
          w = (if \<not> me_beacon_cb_reg w
               then case Shared_Neighbors_addOnBeaconCb (Some BEACON_CB) (me_neighbors w) of
                      (_, cb_id, nb) \<Rightarrow>
                        w\<lparr>me_neighbors := nb, me_beacon_cb_id := (case cb_id of Some i \<Rightarrow> i | None \<Rightarrow> me_beacon_cb_id w),
                          me_beacon_cb_reg := True\<rparr>
               else w)
      in if \<not> me_mbcn_item_cb w
         then if pe_addDataReceivedCb env ''m_mbcn_item'' = APP_RES_OK
              then (co_call (Add_filter ''m_mbcn_item'') w)\<lparr>me_mbcn_item_cb := True\<rparr> else w
         else w)"

definition deregister_callbacks :: "'a pos_meas_scheme \<Rightarrow> 'a pos_meas_scheme option" where
  "deregister_callbacks w =
     do {
       let w = w\<lparr>me_stack_cbs := snd (Stack_State_removeEventCb (Some SCANEND_CB) (me_stack_cbs w))\<rparr>;
       w \<leftarrow> (if me_beacon_cb_reg w
             then map_option (\<lambda>(_, nb). w\<lparr>me_neighbors := nb, me_beacon_cb_reg := False\<rparr>)
                    (Shared_Neighbors_removeBeaconCb (me_beacon_cb_id w) (me_neighbors w))
             else Some w);
       Some (if me_mbcn_item_cb w then (co_call (Remove_filter ''m_mbcn_item'') w)\<lparr>me_mbcn_item_cb := False\<rparr> else w)
     }"

definition init_module :: "'a pos_meas_scheme \<Rightarrow> 'a pos_meas_scheme" where
  "init_module w = w\<lparr>me_table := zero_table\<rparr>"

definition clear_measurement_table :: "'a pos_meas_scheme \<Rightarrow> 'a pos_meas_scheme" where
  "clear_measurement_table w =
     w\<lparr>me_table := (me_table w)\<lparr>mt_num_beacons := 0, mt_beacons := replicate MAX_BEACONS zero_entry\<rparr>\<rparr>"

definition PosLibMeas_clearMeas :: "'a pos_meas_scheme \<Rightarrow> 'a pos_meas_scheme" where
  "PosLibMeas_clearMeas w = w\<lparr>me_table := zero_table\<rparr>"

definition scanend_cb :: "pos_env \<Rightarrow> bool \<Rightarrow> 'a pos_meas_scheme \<Rightarrow> 'a pos_meas_scheme option" where
  "scanend_cb env complete w =
     do {
       w \<leftarrow> (if complete \<or> pl_getNodeRole (pe_lib env) = 0x04
             then do {
               w \<leftarrow> (if \<not> me_opportunistic w then deregister_callbacks w else Some w);
               Some (if mt_num_beacons (me_table w) = 0 \<and> me_time_when_no_beacons_s w = 0
                     then w\<lparr>me_time_when_no_beacons_s := pe_now_s env\<rparr>
                     else if mt_num_beacons (me_table w) \<noteq> 0 then w\<lparr>me_time_when_no_beacons_s := 0\<rparr> else w)
             }
             else Some w);
       (_, w) \<leftarrow> PosLibEvent_add (pe_time env) POSLIB_CTRL_EVENT_SCAN_END w;
       Some (w\<lparr>me_scan_pending := False\<rparr>)
     }"

definition ensure_init :: "'a pos_meas_scheme \<Rightarrow> 'a pos_meas_scheme" where
  "ensure_init w = (if \<not> me_init w then (init_module w)\<lparr>me_init := True\<rparr> else w)"

definition PosLibMeas_opportunisticScan :: "pos_env \<Rightarrow> bool \<Rightarrow> 'a pos_meas_scheme \<Rightarrow> 'a pos_meas_scheme option" where
  "PosLibMeas_opportunisticScan env enable w =
     (let w = ensure_init w
      in if enable then Some (clear_measurement_table ((register_callbacks env w)\<lparr>me_opportunistic := True\<rparr>))
         else map_option (\<lambda>w. w\<lparr>me_opportunistic := False\<rparr>) (deregister_callbacks w))"

definition stopScanNbors :: "'a pos_meas_scheme \<Rightarrow> u32 \<times> 'a pos_meas_scheme" where
  "stopScanNbors w = (APP_SCHEDULER_STOP_TASK, co_call Stop_scan w)"

text \<open>The mode is \<open>SCAN_MODE_STANDARD\<close>, 1.\<close>

definition PosLibMeas_startScan :: "pos_env \<Rightarrow> u32 \<Rightarrow> u32 \<Rightarrow> 'a pos_meas_scheme \<Rightarrow> (bool \<times> 'a pos_meas_scheme) option" where
  "PosLibMeas_startScan env mode max_duration_ms w =
     (let w = ensure_init w
      in if me_scan_pending w then Some (False, w)
         else if mode \<noteq> 1 then Some (False, w)
         else
           let w = register_callbacks env (clear_measurement_table w)
           in if pe_startScanNbors env \<noteq> APP_RES_OK then Some (False, w)
              else do {
                let w = (co_call Start_scan w)\<lparr>me_scan_pending := True\<rparr>;
                let w = (if max_duration_ms > 0 then snd (co_addTask (pe_time env) ''stopScanNbors'' max_duration_ms 100 w) else w);
                (_, w) \<leftarrow> PosLibEvent_add (pe_time env) POSLIB_CTRL_EVENT_SCAN_STARTED w;
                Some (True, w)
              })"

definition PosLibMeas_stop :: "'a pos_meas_scheme \<Rightarrow> 'a pos_meas_scheme option" where
  "PosLibMeas_stop w = map_option (\<lambda>w. w\<lparr>me_opportunistic := False, me_scan_pending := False\<rparr>) (deregister_callbacks w)"

definition PosLibMeas_getBeaconNum :: "'a pos_meas_scheme \<Rightarrow> nat" where
  "PosLibMeas_getBeaconNum w = mt_num_beacons (me_table w)"

subsection \<open>The message\<close>

text \<open>The bytes written so far are the second argument; a record that does not fit leaves them
  as they are.\<close>

definition meas_copy_payload :: "nat \<Rightarrow> u8 list \<Rightarrow> u8 list \<Rightarrow> u8 list option" where
  "meas_copy_payload max_len out bs = (if length bs > max_len - length out then None else Some (out @ bs))"

record node_info =
  ni_update_s :: u32
  ni_features :: u32
  ni_node_mode :: u8
  ni_node_class :: u8

definition node_info_bytes :: "node_info \<Rightarrow> u8 list" where
  "node_info_bytes n = le32 (ni_update_s n) @ le32 (ni_features n) @ [ni_node_mode n, ni_node_class n]"

definition add_node_info_record :: "nat \<Rightarrow> u8 list \<Rightarrow> node_info \<Rightarrow> bool \<times> u8 list" where
  "add_node_info_record max_len out n =
     (case meas_copy_payload max_len out [0x06, 10] of
        None \<Rightarrow> (False, out)
      | Some out' \<Rightarrow> (case meas_copy_payload max_len out' (node_info_bytes n) of None \<Rightarrow> (False, out) | Some out'' \<Rightarrow> (True, out'')))"

definition rss_byte :: "int \<Rightarrow> u8" where
  "rss_byte norm_rss = (let v = norm_rss * -2 in if v \<ge> 0xFF then 0xFF else word_of_int v)"

definition rss_data :: "wm_beacon \<Rightarrow> u8 list" where
  "rss_data b = le32 (wb_address b) @ [rss_byte (wb_norm_rss b)]"

fun rss_loop :: "nat \<Rightarrow> wm_beacon list \<Rightarrow> u8 list \<Rightarrow> u8 list option" where
  "rss_loop max_len [] out = Some out"
| "rss_loop max_len (b # bs) out = do { out \<leftarrow> meas_copy_payload max_len out (rss_data b); rss_loop max_len bs out }"

definition add_rss_record :: "nat \<Rightarrow> u8 list \<Rightarrow> u8 \<Rightarrow> meas_table \<Rightarrow> nat \<times> u8 list" where
  "add_rss_record max_len out meas_type t =
     (let num_meas = mt_num_beacons t
      in if num_meas = 0 then (0, out)
         else case do {
                out' \<leftarrow> meas_copy_payload max_len out [meas_type, of_nat (num_meas * 5)];
                rss_loop max_len (take num_meas (mt_beacons t)) out'
              } of
                None \<Rightarrow> (0, out)
              | Some out' \<Rightarrow> (num_meas, out'))"

definition get_voltage :: "pos_env \<Rightarrow> 'a pos_meas_scheme \<Rightarrow> u16 \<times> 'a pos_meas_scheme" where
  "get_voltage env w =
     (if \<not> bd_voltage (pl_build (pe_lib env)) then (0, w)
      else
        let now_s = pe_now_s env;
            delta_s = now_s - mv_sampling_time_s w;
            w = (if delta_s \<ge> POSLIB_VOLTAGE_SAMPLING_MAX_S \<or> mv_samples w = 0
                 then
                   let n = (if mv_samples w \<ge> POSLIB_VOLTAGE_FILTER_SAMPLES then POSLIB_VOLTAGE_FILTER_SAMPLES else mv_samples w + 1);
                       delta_v = sint (pe_voltage env - mv_voltage_flt w) sdiv int n
                   in w\<lparr>mv_sampling_time_s := now_s, mv_samples := (if mv_samples w \<ge> POSLIB_VOLTAGE_FILTER_SAMPLES then mv_samples w else mv_samples w + 1),
                        mv_voltage_flt := mv_voltage_flt w + word_of_int delta_v\<rparr>
                 else w)
        in (mv_voltage_flt w, w))"

definition add_voltage_record :: "pos_env \<Rightarrow> nat \<Rightarrow> u8 list \<Rightarrow> 'a pos_meas_scheme \<Rightarrow> bool \<times> u8 list \<times> 'a pos_meas_scheme" where
  "add_voltage_record env max_len out w =
     (let (v, w) = get_voltage env w
      in case meas_copy_payload max_len out ([0x04, 2] @ le16 v) of None \<Rightarrow> (False, out, w) | Some out' \<Rightarrow> (True, out', w))"

text \<open>The sequence is a byte of the message header of two bytes.  The result is the return value,
  the bytes and the number of measurements.\<close>

definition PosLibMeas_getPayload ::
  "pos_env \<Rightarrow> nat \<Rightarrow> u8 \<Rightarrow> u8 \<Rightarrow> bool \<Rightarrow> node_info option \<Rightarrow> 'a pos_meas_scheme \<Rightarrow> (bool \<times> u8 list \<times> nat) \<times> 'a pos_meas_scheme" where
  "PosLibMeas_getPayload env max_len sequence meas_type add_voltage node_info w =
     (case meas_copy_payload max_len [] (le16 (ucast sequence)) of
        None \<Rightarrow> ((False, [], 0), w)
      | Some out \<Rightarrow>
          let (num_meas, out) = add_rss_record max_len out meas_type (me_table w);
              ret = (num_meas \<noteq> 0);
              (ret, out, w) = (if ret \<and> add_voltage then add_voltage_record env max_len out w else (ret, out, w));
              (ret, out) = (case node_info of Some n \<Rightarrow> if ret then add_node_info_record max_len out n else (ret, out) | None \<Rightarrow> (ret, out))
          in ((ret, out, num_meas), w))"

subsection \<open>The table as a list of beacons\<close>

definition heard :: "meas_table \<Rightarrow> wm_beacon list" where
  "heard t = take (mt_num_beacons t) (mt_beacons t)"

definition entry_ok :: "wm_beacon \<Rightarrow> bool" where
  "entry_ok b \<longleftrightarrow> 1 \<le> wb_samples b \<and> wb_samples b \<le> MAX_FLT_SAMPLES \<and> - 255 \<le> wb_norm_rss b \<and> wb_norm_rss b \<le> 255"

definition table_wf :: "meas_table \<Rightarrow> bool" where
  "table_wf t \<longleftrightarrow> length (mt_beacons t) = MAX_BEACONS \<and> mt_num_beacons t \<le> MAX_BEACONS \<and> mt_min_index t < MAX_BEACONS \<and>
     list_all entry_ok (heard t) \<and> distinct (map wb_address (heard t)) \<and>
     (\<forall>i. mt_num_beacons t \<le> i \<and> i < MAX_BEACONS \<longrightarrow> mt_beacons t ! i = zero_entry)"

text \<open>The step of the code on the list alone, for the proofs; what a scan computes is said by
  \<open>scan_result\<close> below.\<close>

definition weakest :: "wm_beacon list \<Rightarrow> nat" where
  "weakest bs = the (first_index (\<lambda>b. wb_norm_rss b = Min (wb_norm_rss ` set bs)) bs)"

definition table_step :: "u32 \<Rightarrow> wm_beacon \<Rightarrow> wm_beacon list \<Rightarrow> wm_beacon list" where
  "table_step now b bs =
     (case first_index (\<lambda>x. wb_address x = wb_address b) bs of
        Some i \<Rightarrow> bs[i := update_entry now b (bs ! i)]
      | None \<Rightarrow>
          if length bs < MAX_BEACONS then bs @ [b\<lparr>wb_samples := 1, wb_last_update := now\<rparr>]
          else if wb_norm_rss b > wb_norm_rss (bs ! weakest bs) then bs[weakest bs := update_entry now b (bs ! weakest bs)]
          else bs)"

lemma length_heard: "table_wf t \<Longrightarrow> length (heard t) = mt_num_beacons t"
  by (simp add: table_wf_def heard_def)

lemma heard_full: "table_wf t \<Longrightarrow> mt_num_beacons t = MAX_BEACONS \<Longrightarrow> heard t = mt_beacons t"
  by (simp add: table_wf_def heard_def)

subsection \<open>The filter\<close>

lemma sdiv_between: "1 \<le> n \<Longrightarrow> (0 \<le> d \<longrightarrow> 0 \<le> d sdiv n \<and> d sdiv n \<le> d) \<and> (d \<le> 0 \<longrightarrow> d \<le> d sdiv n \<and> d sdiv n \<le> 0)" for d n :: int
proof -
  assume n: "1 \<le> n"
  have p: "0 \<le> e div n \<and> e div n \<le> e" if "0 \<le> e" for e :: int
    using that n zdiv_mono2 [of e 1 n] by (simp add: pos_imp_zdiv_nonneg_iff)
  show ?thesis
  proof (cases "0 \<le> d")
    case True
    then show ?thesis using p [of d] n by (cases "d = 0") (auto simp: signed_divide_int_def sgn_if)
  next
    case False
    then show ?thesis using p [of "- d"] n by (auto simp: signed_divide_int_def sgn_if)
  qed
qed

lemma update_entry_simps [simp]:
  "wb_address (update_entry now b e) = wb_address b" "wb_last_update (update_entry now b e) = now"
  "wb_txpower (update_entry now b e) = wb_txpower b"
  "wb_samples (update_entry now b e) = (if wb_samples e < MAX_FLT_SAMPLES then wb_samples e + 1 else wb_samples e)"
  by (simp_all add: update_entry_def Let_def)

text \<open>A filtered value lies between the old one and the new one.\<close>

lemma filtered_between:
  assumes "1 \<le> wb_samples e"
  shows "min (wb_norm_rss e) (wb_norm_rss b) \<le> wb_norm_rss (update_entry now b e)"
    "wb_norm_rss (update_entry now b e) \<le> max (wb_norm_rss e) (wb_norm_rss b)"
proof -
  let ?n = "int (if wb_samples e < MAX_FLT_SAMPLES then wb_samples e + 1 else wb_samples e)"
  have n: "1 \<le> ?n" using assms by simp
  have v: "wb_norm_rss (update_entry now b e) = wb_norm_rss e + (wb_norm_rss b - wb_norm_rss e) sdiv ?n"
    using assms by (auto simp: update_entry_def Let_def MAX_FLT_SAMPLES_def)
  show "min (wb_norm_rss e) (wb_norm_rss b) \<le> wb_norm_rss (update_entry now b e)"
    "wb_norm_rss (update_entry now b e) \<le> max (wb_norm_rss e) (wb_norm_rss b)"
    unfolding v using sdiv_between [OF n, of "wb_norm_rss b - wb_norm_rss e"] by linarith+
qed

lemma update_entry_ok: "entry_ok e \<Longrightarrow> entry_ok b \<Longrightarrow> entry_ok (update_entry now b e)"
  using filtered_between [where e = e and b = b and now = now] by (auto simp: entry_ok_def MAX_FLT_SAMPLES_def)

lemma update_zero: "update_entry now b zero_entry = b\<lparr>wb_samples := 1, wb_last_update := now\<rparr>"
  by (simp add: update_entry_def zero_entry_def MAX_FLT_SAMPLES_def)

subsection \<open>The weakest entry\<close>

lemma min_scan_le: "snd (min_scan bs k m) \<le> snd m \<and> (\<forall>b \<in> set bs. snd (min_scan bs k m) \<le> wb_norm_rss b)"
proof (induction bs arbitrary: k m)
  case (Cons b bs)
  show ?case using Cons.IH [of "k + 1" "if wb_norm_rss b < snd m then (k, wb_norm_rss b) else m"] by (cases "wb_norm_rss b < snd m") auto
qed simp

lemma min_scan_same: "snd (min_scan bs k m) = snd m \<Longrightarrow> min_scan bs k m = m"
proof (induction bs arbitrary: k m)
  case (Cons b bs)
  have "\<not> wb_norm_rss b < snd m" using Cons.prems min_scan_le [of bs "k + 1" "(k, wb_norm_rss b)"] by (auto split: if_splits)
  then show ?case using Cons by simp
qed simp

lemma min_scan_below:
  assumes "snd (min_scan bs k m) < snd m"
  shows "k \<le> fst (min_scan bs k m) \<and>
     first_index (\<lambda>b. wb_norm_rss b = snd (min_scan bs k m)) bs = Some (fst (min_scan bs k m) - k) \<and>
     (\<forall>b \<in> set bs. snd (min_scan bs k m) \<le> wb_norm_rss b)"
  using assms
proof (induction bs arbitrary: k m)
  case Nil
  then show ?case by simp
next
  case (Cons b bs)
  let ?m = "if wb_norm_rss b < snd m then (k, wb_norm_rss b) else m"
  show ?case
  proof (cases "snd (min_scan bs (k + 1) ?m) < snd ?m")
    case True
    then show ?thesis
      using Cons.IH [OF True] min_scan_le [of bs "k + 1" ?m] by (auto split: if_splits)
  next
    case False
    then have e: "snd (min_scan bs (k + 1) ?m) = snd ?m" using min_scan_le [of bs "k + 1" ?m] by linarith
    then have b: "wb_norm_rss b < snd m" using Cons.prems by (auto split: if_splits)
    show ?thesis using min_scan_same [OF e] e b min_scan_le [of bs "k + 1" ?m] by simp
  qed
qed

text \<open>When the entries are below 0 dB the search finds the weakest.\<close>

lemma update_min_weakest:
  assumes "table_wf t" "mt_num_beacons t = MAX_BEACONS" "\<forall>b \<in> set (heard t). wb_norm_rss b < 0"
  shows "update_min t = t\<lparr>mt_min_index := weakest (heard t), mt_min_rss := wb_norm_rss (heard t ! weakest (heard t))\<rparr>"
    "weakest (heard t) < MAX_BEACONS"
proof -
  let ?s = "min_scan (heard t) 0 (mt_min_index t, 0)"
  have ne: "heard t \<noteq> []" using assms(1,2) length_heard [of t] by (auto simp: MAX_BEACONS_def)
  have "snd ?s \<le> wb_norm_rss (heard t ! 0)" using min_scan_le [of "heard t"] ne by (metis length_greater_0_conv nth_mem)
  then have "snd ?s < snd (mt_min_index t, 0)" using assms(3) ne by (metis length_greater_0_conv nth_mem order_le_less_trans snd_conv)
  note m = min_scan_below [OF this]
  have i: "first_index (\<lambda>b. wb_norm_rss b = snd ?s) (heard t) = Some (fst ?s)" using m by simp
  have "Min (wb_norm_rss ` set (heard t)) = snd ?s"
    using m first_index_SomeD [OF i] by (intro Min_eqI) (auto intro!: rev_image_eqI [of "heard t ! fst ?s"])
  then have w: "weakest (heard t) = fst ?s" using i by (simp add: weakest_def)
  then show "update_min t = t\<lparr>mt_min_index := weakest (heard t), mt_min_rss := wb_norm_rss (heard t ! weakest (heard t))\<rparr>"
    using first_index_SomeD [OF i] by (simp add: update_min_def heard_def [symmetric] split_def)
  show "weakest (heard t) < MAX_BEACONS" using w first_index_SomeD [OF i] length_heard [OF assms(1)] assms(2) by simp
qed

subsection \<open>Beacons and the table\<close>

lemma entry_replaced:
  fixes now :: u32
  assumes t: "table_wf t" and i: "i < mt_num_beacons t" and b: "entry_ok b"
    and new: "\<And>j. j < mt_num_beacons t \<Longrightarrow> j \<noteq> i \<Longrightarrow> wb_address (heard t ! j) \<noteq> wb_address b"
  defines "t' \<equiv> t\<lparr>mt_beacons := (mt_beacons t)[i := update_entry now b (mt_beacons t ! i)]\<rparr>"
  shows "table_wf t'" "heard t' = (heard t)[i := update_entry now b (heard t ! i)]"
proof -
  have h: "heard t ! i = mt_beacons t ! i" using i by (simp add: heard_def)
  show hd: "heard t' = (heard t)[i := update_entry now b (heard t ! i)]"
    unfolding t'_def heard_def using i by (simp add: take_update_swap)
  have len: "length (heard t) = mt_num_beacons t" using t by (rule length_heard)
  have e: "entry_ok (heard t ! i)" using t i len by (simp add: table_wf_def list_all_length)
  have "list_all entry_ok (heard t')"
    unfolding hd using t update_entry_ok [OF e b] by (auto simp: table_wf_def list_all_iff dest!: set_update_subset_insert [THEN subsetD])
  moreover have "distinct (map wb_address (heard t'))"
  proof -
    have "wb_address b \<notin> set (map wb_address (heard t)) - {wb_address (heard t ! i)}"
      using new len by (simp add: image_iff) (metis in_set_conv_nth)
    then show ?thesis
      unfolding hd map_update update_entry_simps using t i len by (intro distinct_list_update) (auto simp: table_wf_def)
  qed
  ultimately show "table_wf t'" using t i by (auto simp: table_wf_def t'_def)
qed

lemma entry_added:
  fixes now :: u32
  assumes t: "table_wf t" and n: "mt_num_beacons t < MAX_BEACONS" and b: "entry_ok b"
    and new: "wb_address b \<notin> wb_address ` set (heard t)"
  defines "t' \<equiv> t\<lparr>mt_num_beacons := mt_num_beacons t + 1,
      mt_beacons := (mt_beacons t)[mt_num_beacons t := update_entry now b (mt_beacons t ! mt_num_beacons t)]\<rparr>"
  shows "table_wf t'" "heard t' = heard t @ [b\<lparr>wb_samples := 1, wb_last_update := now\<rparr>]"
proof -
  have z: "mt_beacons t ! mt_num_beacons t = zero_entry" and len: "mt_num_beacons t < length (mt_beacons t)"
    using t n by (auto simp: table_wf_def)
  show hd: "heard t' = heard t @ [b\<lparr>wb_samples := 1, wb_last_update := now\<rparr>]"
    unfolding t'_def heard_def using len by (simp add: take_Suc_conv_app_nth z update_zero)
  have "entry_ok (b\<lparr>wb_samples := 1, wb_last_update := now\<rparr>)" using b by (simp add: entry_ok_def MAX_FLT_SAMPLES_def)
  then have "list_all entry_ok (heard t')" "distinct (map wb_address (heard t'))"
    unfolding hd using t new by (auto simp: table_wf_def)
  then show "table_wf t'" using t n by (auto simp: table_wf_def t'_def nth_list_update)
qed

lemma min_scan_index: "fst (min_scan bs k m) = fst m \<or> fst (min_scan bs k m) < k + length bs"
proof (induction bs arbitrary: k m)
  case (Cons b bs)
  show ?case using Cons.IH [of "k + 1" "if wb_norm_rss b < snd m then (k, wb_norm_rss b) else m"] by (auto split: if_splits)
qed simp

lemma update_min_table:
  assumes "table_wf t"
  shows "table_wf (update_min t)" "heard (update_min t) = heard t" "mt_num_beacons (update_min t) = mt_num_beacons t"
    "mt_beacons (update_min t) = mt_beacons t"
proof -
  show h: "heard (update_min t) = heard t" "mt_num_beacons (update_min t) = mt_num_beacons t" "mt_beacons (update_min t) = mt_beacons t"
    by (simp_all add: update_min_def heard_def split_def)
  have "mt_min_index (update_min t) < MAX_BEACONS"
    using assms min_scan_index [of "heard t" 0 "(mt_min_index t, 0)"] length_heard [OF assms]
    by (auto simp: update_min_def heard_def [symmetric] split_def table_wf_def)
  then show "table_wf (update_min t)" using assms h by (simp add: table_wf_def)
qed

text \<open>The cases of \<open>insert_beacon\<close>.\<close>

lemma insert_known:
  assumes "first_index (\<lambda>x. wb_address x = wb_address b) (heard t) = Some i" "table_wf t"
  shows "insert_beacon now b t = t\<lparr>mt_beacons := (mt_beacons t)[i := update_entry now b (mt_beacons t ! i)]\<rparr>"
  using assms first_index_lt [OF assms(1)] length_heard [OF assms(2)]
  by (simp add: insert_beacon_def heard_def [symmetric] table_wf_def)

lemma insert_new:
  assumes "first_index (\<lambda>x. wb_address x = wb_address b) (heard t) = None" "mt_num_beacons t < MAX_BEACONS"
  shows "insert_beacon now b t = t\<lparr>mt_num_beacons := mt_num_beacons t + 1,
      mt_beacons := (mt_beacons t)[mt_num_beacons t := update_entry now b (mt_beacons t ! mt_num_beacons t)]\<rparr>"
  using assms by (simp add: insert_beacon_def heard_def [symmetric])

lemma insert_full:
  assumes "first_index (\<lambda>x. wb_address x = wb_address b) (heard t) = None" "mt_num_beacons t = MAX_BEACONS" "table_wf t"
  defines "t' \<equiv> update_min t"
  shows "insert_beacon now b t =
     (if wb_norm_rss b > mt_min_rss t'
      then t'\<lparr>mt_beacons := (mt_beacons t')[mt_min_index t' := update_entry now b (mt_beacons t' ! mt_min_index t')]\<rparr> else t')"
  unfolding insert_beacon_def heard_def [symmetric] t'_def
  using assms(1,2) update_min_table(1) [OF assms(3)] by (simp add: Let_def table_wf_def)

lemma insert_wf:
  assumes t: "table_wf t" and b: "entry_ok b"
  shows "table_wf (insert_beacon now b t)"
proof (cases "first_index (\<lambda>x. wb_address x = wb_address b) (heard t)")
  case (Some i)
  have i: "i < mt_num_beacons t" "wb_address (heard t ! i) = wb_address b"
    using first_index_SomeD [OF Some] length_heard [OF t] by simp_all
  have "wb_address (heard t ! j) \<noteq> wb_address b" if "j < mt_num_beacons t" "j \<noteq> i" for j
    using t i that length_heard [OF t] nth_eq_iff_index_eq [of "map wb_address (heard t)" i j] by (simp add: table_wf_def)
  then show ?thesis unfolding insert_known [OF Some t] using t i(1) b by (intro entry_replaced(1)) auto
next
  case None
  then have new: "wb_address b \<notin> wb_address ` set (heard t)" by (auto simp: first_index_None)
  show ?thesis
  proof (cases "mt_num_beacons t = MAX_BEACONS")
    case True
    have "wb_address (heard t ! j) \<noteq> wb_address b" if "j < mt_num_beacons t" for j
      using new that length_heard [OF t] by (metis imageI nth_mem)
    moreover have "mt_min_index (update_min t) < mt_num_beacons (update_min t)"
      using update_min_table [OF t] True by (simp add: table_wf_def)
    ultimately show ?thesis
      unfolding insert_full [OF None True t]
      using entry_replaced(1) [OF update_min_table(1) [OF t] _ b] update_min_table [OF t] by simp
  next
    case False
    then have "mt_num_beacons t < MAX_BEACONS" using t by (simp add: table_wf_def)
    then show ?thesis unfolding insert_new [OF None \<open>mt_num_beacons t < MAX_BEACONS\<close>] using t b new by (intro entry_added(1))
  qed
qed

lemma insert_heard:
  assumes t: "table_wf t" and b: "entry_ok b"
    and below: "length (heard t) < MAX_BEACONS \<or> wb_address b \<in> wb_address ` set (heard t) \<or> (\<forall>x \<in> set (heard t). wb_norm_rss x < 0)"
  shows "heard (insert_beacon now b t) = table_step now b (heard t)"
proof (cases "first_index (\<lambda>x. wb_address x = wb_address b) (heard t)")
  case (Some i)
  then have "i < mt_num_beacons t" using first_index_lt [OF Some] length_heard [OF t] by simp
  then show ?thesis using insert_known [OF Some t] Some by (simp add: heard_def table_step_def take_update_swap)
next
  case None
  then have new: "wb_address b \<notin> wb_address ` set (heard t)" by (auto simp: first_index_None)
  show ?thesis
  proof (cases "mt_num_beacons t = MAX_BEACONS")
    case True
    have "\<forall>x \<in> set (heard t). wb_norm_rss x < 0" using below new True length_heard [OF t] by simp
    note w = update_min_weakest [OF t True this]
    have "heard t = mt_beacons t" using t True by (rule heard_full)
    then show ?thesis
      unfolding insert_full [OF None True t] w(1)
      using None True w(2) length_heard [OF t] by (simp add: table_step_def heard_def take_update_swap)
  next
    case False
    then have lt: "mt_num_beacons t < MAX_BEACONS" using t by (simp add: table_wf_def)
    show ?thesis
      unfolding insert_new [OF None lt] entry_added(2) [OF t lt b new]
      using None lt length_heard [OF t] by (simp add: table_step_def)
  qed
qed

subsection \<open>Scans\<close>

definition rx_beacon :: "u32 \<Rightarrow> beacon_rx \<Rightarrow> wm_beacon" where
  "rx_beacon now rx =
     \<lparr>wb_address = rx_address rx, wb_norm_rss = sint (rx_rssi rx) - sint (rx_txpower rx), wb_txpower = sint (rx_txpower rx),
      wb_type = (if rx_type rx = 0 then POSLIB_MEAS_BEACON_TYPE_NB
                 else if rx_type rx = 1 then POSLIB_MEAS_BEACON_TYPE_CB else POSLIB_MEAS_BEACON_TYPE_UNKNOWN),
      wb_samples = 1, wb_last_update = now\<rparr>"

lemma sint_8: "- 128 \<le> sint (x :: u8)" "sint (x :: u8) \<le> 127"
  using sint_ge [of x] sint_lt [of x] by simp_all

lemma rx_beacon_ok: "entry_ok (rx_beacon now rx)"
  using sint_8 [of "rx_rssi rx"] sint_8 [of "rx_txpower rx"] by (simp add: entry_ok_def rx_beacon_def MAX_FLT_SAMPLES_def)

lemma beacon_cb_eq: "beacon_cb rx w = w\<lparr>me_table := insert_beacon (now_hp (co_sched w)) (rx_beacon (now_hp (co_sched w)) rx) (me_table w)\<rparr>"
  by (simp add: beacon_cb_def rx_beacon_def Let_def)

lemma zero_table_wf [simp]: "table_wf zero_table" "heard zero_table = []"
  by (auto simp: table_wf_def zero_table_def heard_def MAX_BEACONS_def)

lemma clear_table_wf:
  assumes "table_wf (me_table w)"
  shows "table_wf (me_table (clear_measurement_table w))" "heard (me_table (clear_measurement_table w)) = []"
  using assms by (auto simp: clear_measurement_table_def table_wf_def heard_def)

lemma table_step_below:
  assumes "\<forall>x \<in> set bs. wb_norm_rss x < 0" "list_all entry_ok bs" "wb_norm_rss b < 0"
  shows "\<forall>x \<in> set (table_step now b bs). wb_norm_rss x < 0"
proof -
  have below: "wb_norm_rss (update_entry now b e) < 0" if "e \<in> set bs" for e
    using assms(1-3) that filtered_between(2) [of e now b] by (auto simp: entry_ok_def list_all_iff)
  have upd: "\<forall>x \<in> set (bs[i := update_entry now b (bs ! i)]). wb_norm_rss x < 0" for i
  proof (cases "i < length bs")
    case True
    then show ?thesis using below [of "bs ! i"] assms(1) by (auto dest!: set_update_subset_insert [THEN subsetD])
  next
    case False
    then show ?thesis using assms(1) by (simp add: list_update_beyond)
  qed
  show ?thesis
    unfolding table_step_def using upd assms(1,3) by (auto split: option.splits)
qed

lemma scan_heard:
  assumes "table_wf (me_table w)" "\<forall>x \<in> set (heard (me_table w)). wb_norm_rss x < 0" "\<forall>rx \<in> set rxs. sint (rx_rssi rx) < sint (rx_txpower rx)"
  shows "table_wf (me_table (fold beacon_cb rxs w)) \<and>
     heard (me_table (fold beacon_cb rxs w)) = fold (table_step (now_hp (co_sched w))) (map (rx_beacon (now_hp (co_sched w))) rxs) (heard (me_table w))"
  using assms
proof (induction rxs arbitrary: w)
  case Nil
  then show ?case by simp
next
  case (Cons rx rxs)
  let ?now = "now_hp (co_sched w)" and ?b = "rx_beacon (now_hp (co_sched w)) rx"
  have b: "wb_norm_rss ?b < 0" using Cons.prems(3) by (simp add: rx_beacon_def)
  have t: "table_wf (me_table (beacon_cb rx w))" and h: "heard (me_table (beacon_cb rx w)) = table_step ?now ?b (heard (me_table w))"
    unfolding beacon_cb_eq using insert_wf insert_heard Cons.prems(1,2) rx_beacon_ok by simp_all
  have "\<forall>x \<in> set (heard (me_table (beacon_cb rx w))). wb_norm_rss x < 0"
    unfolding h using Cons.prems(1,2) b by (intro table_step_below) (simp_all add: table_wf_def)
  moreover have "co_sched (beacon_cb rx w) = co_sched w" by (simp add: beacon_cb_eq)
  ultimately show ?case using Cons.IH [OF t] Cons.prems(3) h by simp
qed

subsection \<open>The layout of the message\<close>

lemma rss_loop_writes:
  assumes "length out + 5 * length bs \<le> max_len"
  shows "rss_loop max_len bs out = Some (out @ concat (map rss_data bs))"
  using assms
proof (induction bs arbitrary: out)
  case Nil
  then show ?case by simp
next
  case (Cons b bs)
  have l: "length (rss_data b) = 5" by (simp add: rss_data_def le32_def)
  then show ?case using Cons.prems Cons.IH [of "out @ rss_data b"] by (simp add: meas_copy_payload_def)
qed

definition rss_record :: "u8 \<Rightarrow> wm_beacon list \<Rightarrow> u8 list" where
  "rss_record meas_type bs = [meas_type, of_nat (5 * length bs)] @ concat (map rss_data bs)"

definition voltage_record :: "u16 \<Rightarrow> u8 list" where
  "voltage_record v = [0x04, 2] @ le16 v"

definition node_record :: "node_info \<Rightarrow> u8 list" where
  "node_record n = [0x06, 10] @ node_info_bytes n"

lemma record_lengths:
  "length (concat (map rss_data bs)) = 5 * length bs" "length (rss_record t bs) = 2 + 5 * length bs" "length (voltage_record v) = 4"
  "length (node_record n) = 12"
proof -
  show d: "length (concat (map rss_data bs)) = 5 * length bs" by (induction bs) (simp_all add: rss_data_def le32_def)
  show "length (rss_record t bs) = 2 + 5 * length bs" by (simp add: rss_record_def d)
  show "length (voltage_record v) = 4" "length (node_record n) = 12"
    by (simp_all add: voltage_record_def node_record_def node_info_bytes_def le16_def le32_def)
qed

lemma rss_record_written:
  assumes "table_wf t" "heard t \<noteq> []" "length out + length (rss_record meas_type (heard t)) \<le> max_len"
  shows "add_rss_record max_len out meas_type t = (length (heard t), out @ rss_record meas_type (heard t))"
proof -
  have n: "mt_num_beacons t = length (heard t)" "take (length (heard t)) (mt_beacons t) = heard t"
    using length_heard [OF assms(1)] by (simp_all add: heard_def)
  have "rss_loop max_len (heard t) (out @ [meas_type, of_nat (length (heard t) * 5)]) = Some (out @ rss_record meas_type (heard t))"
    using assms(3) rss_loop_writes [of "out @ [meas_type, of_nat (5 * length (heard t))]" "heard t" max_len]
    by (simp add: record_lengths rss_record_def mult.commute)
  then show ?thesis
    unfolding add_rss_record_def n Let_def
    using assms(2,3) by (simp add: meas_copy_payload_def record_lengths n not_less)
qed

lemma node_record_written:
  "length out + 12 \<le> max_len \<Longrightarrow> add_node_info_record max_len out n = (True, out @ node_record n)"
  using record_lengths(4) [of n] by (auto simp: add_node_info_record_def meas_copy_payload_def node_record_def)

lemma voltage_record_written:
  "length out + 4 \<le> max_len \<Longrightarrow>
     add_voltage_record env max_len out w = (True, out @ voltage_record (fst (get_voltage env w)), snd (get_voltage env w))"
  by (auto simp: add_voltage_record_def meas_copy_payload_def voltage_record_def split_def Let_def le16_def)

lemma heard_bound: "table_wf t \<Longrightarrow> length (heard t) \<le> MAX_BEACONS"
  using length_heard [of t] by (simp add: table_wf_def)

subsection \<open>Errors\<close>

text \<open>A beacon that takes the place of the weakest entry is filtered with the value of that
  entry: it is recorded weaker than it was heard, under its own address.\<close>

lemma sdiv_less: "0 < d \<Longrightarrow> 1 < n \<Longrightarrow> d sdiv n < d" for d n :: int
  by (simp add: signed_divide_int_def sgn_if int_div_less_self)

lemma replaced_entry_mixed:
  assumes "table_wf t" "mt_num_beacons t = MAX_BEACONS" "\<forall>x \<in> set (heard t). wb_norm_rss x < 0" "entry_ok b"
    "wb_address b \<notin> wb_address ` set (heard t)" "wb_norm_rss b > wb_norm_rss (heard t ! weakest (heard t))"
  shows "\<exists>e \<in> set (heard (insert_beacon now b t)). wb_address e = wb_address b \<and> wb_norm_rss e < wb_norm_rss b"
proof -
  let ?e = "heard t ! weakest (heard t)"
  have i: "weakest (heard t) < length (heard t)" using update_min_weakest(2) [OF assms(1-3)] length_heard [OF assms(1)] assms(2) by simp
  then have s: "1 \<le> wb_samples ?e" using assms(1) by (simp add: table_wf_def list_all_length entry_ok_def)
  have "first_index (\<lambda>x. wb_address x = wb_address b) (heard t) = None" unfolding first_index_None using assms(5) by (metis imageI)
  then have h: "heard (insert_beacon now b t) = (heard t)[weakest (heard t) := update_entry now b ?e]"
    using insert_heard [OF assms(1,4)] assms(2,3,6) length_heard [OF assms(1)] by (simp add: table_step_def)
  have "wb_norm_rss (update_entry now b ?e) < wb_norm_rss b"
    using s assms(6) sdiv_less [of "wb_norm_rss b - wb_norm_rss ?e" "int (wb_samples ?e + 1)"]
      sdiv_less [of "wb_norm_rss b - wb_norm_rss ?e" "int (wb_samples ?e)"]
    by (auto simp: update_entry_def Let_def MAX_FLT_SAMPLES_def)
  then show ?thesis unfolding h using i by (intro bexI [of _ "update_entry now b ?e"]) (simp_all add: set_update_memI)
qed

text \<open>The byte of the message has twice the loss; a value above 0 dB wraps round to a large loss.\<close>

lemma rss_byte_uint:
  assumes "-127 \<le> r"
  shows "uint (rss_byte r) = (- 2 * r) mod 256"
proof -
  have "rss_byte r = word_of_int (- 2 * r)" using assms by (simp add: rss_byte_def mult.commute)
  then show ?thesis by (simp only: uint_word_of_int take_bit_eq_mod) simp
qed

lemma rss_byte_loss: "-127 \<le> r \<Longrightarrow> r \<le> 0 \<Longrightarrow> uint (rss_byte r) = - 2 * r"
  by (simp add: rss_byte_uint)

lemma rss_byte_gain:
  assumes "0 < r" "r \<le> 127"
  shows "uint (rss_byte r) = 256 - 2 * r"
proof -
  have "- (2 * r) mod 256 = (256 + - (2 * r)) mod 256" by (simp only: mod_add_self1)
  also have "\<dots> = 256 - 2 * r" using assms by (subst mod_pos_pos_trivial) simp_all
  finally show ?thesis using assms by (simp add: rss_byte_uint)
qed

text \<open>The result of the registration of the beacon callback is not looked at: without a free
  slot, the end of the scan removes the callback of another module.\<close>

lemma other_callback_removed:
  assumes "\<not> me_beacon_cb_reg w" "me_beacon_cb_id w = 0" "m_neighbor_cb (me_neighbors w) = Some c # cbs" "None \<notin> set cbs"
  shows "\<exists>w'. deregister_callbacks (register_callbacks env w) = Some w' \<and> m_neighbor_cb (me_neighbors w') = None # cbs"
proof -
  have "first_index (\<lambda>c. c = None) (m_neighbor_cb (me_neighbors w)) = None"
    unfolding first_index_None assms(3) using assms(4) by (metis option.distinct(1) set_ConsD)
  then have "me_beacon_cb_reg (register_callbacks env w) \<and> me_beacon_cb_id (register_callbacks env w) = 0 \<and>
      me_neighbors (register_callbacks env w) = me_neighbors w"
    using assms(1,2) by (simp add: register_callbacks_def Shared_Neighbors_addOnBeaconCb_def co_call_def Let_def)
  then show ?thesis
    using assms(3) by (simp add: deregister_callbacks_def Shared_Neighbors_removeBeaconCb_def rd_def co_call_def Let_def)
qed

subsection \<open>Events\<close>

text \<open>The id of the beacon callback is inside of the table.  Ranks of the modules that are built
  on this one depend on this state only through that.\<close>

definition meas_ok :: "'a pos_meas_scheme \<Rightarrow> bool" where
  "meas_ok w \<longleftrightarrow> unat (me_beacon_cb_id w) < length (m_neighbor_cb (me_neighbors w)) \<and> length (m_neighbor_cb (me_neighbors w)) < 65536"

definition meas_free :: "('a pos_meas_scheme \<Rightarrow> 'b option) \<Rightarrow> bool" where
  "meas_free R \<longleftrightarrow> (\<forall>w w'. pos_meas.more w' = pos_meas.more w \<longrightarrow> meas_ok w' = meas_ok w \<longrightarrow> R w' = R w) \<and> (\<forall>w. R w \<noteq> None \<longrightarrow> meas_ok w)"

lemma meas_freeD: "meas_free R \<Longrightarrow> pos_meas.more w' = pos_meas.more w \<Longrightarrow> meas_ok w' = meas_ok w \<Longrightarrow> R w' = R w"
  unfolding meas_free_def by blast

lemma meas_free_ok: "meas_free R \<Longrightarrow> R w \<noteq> None \<Longrightarrow> meas_ok w"
  unfolding meas_free_def by blast

lemma meas_more: "pos_ble.more w' = pos_ble.more w \<Longrightarrow> pos_meas.more w' = pos_meas.more w" "pos_ble.more w' = pos_ble.more w \<Longrightarrow> meas_ok w' = meas_ok w"
  by (cases w; cases w'; simp add: meas_ok_def)+

lemma meas_free_ble: "meas_free R \<Longrightarrow> ble_free R"
  unfolding meas_free_def ble_free_def using meas_more by blast

lemma ev_part_meas [simp]:
  "ev_part (w\<lparr>me_table := t\<rparr>) = ev_part w" "ev_part (w\<lparr>me_beacon_cb_id := i\<rparr>) = ev_part w" "ev_part (w\<lparr>me_beacon_cb_reg := b\<rparr>) = ev_part w"
  "ev_part (w\<lparr>me_opportunistic := b\<rparr>) = ev_part w" "ev_part (w\<lparr>me_mbcn_item_cb := b\<rparr>) = ev_part w"
  "ev_part (w\<lparr>me_time_when_no_beacons_s := n\<rparr>) = ev_part w" "ev_part (w\<lparr>me_scan_pending := b\<rparr>) = ev_part w"
  "ev_part (w\<lparr>me_init := b\<rparr>) = ev_part w" "ev_part (w\<lparr>me_stack_cbs := s\<rparr>) = ev_part w" "ev_part (w\<lparr>me_neighbors := nb\<rparr>) = ev_part w"
  "ev_part (w\<lparr>mv_samples := m\<rparr>) = ev_part w" "ev_part (w\<lparr>mv_sampling_time_s := n\<rparr>) = ev_part w" "ev_part (w\<lparr>mv_voltage_flt := v\<rparr>) = ev_part w"
  by (simp_all add: ev_part_def)

lemma meas_more_calls [simp]:
  "pos_meas.more (co_call c w) = pos_meas.more w" "pos_meas.more (co_cancelTask f w) = pos_meas.more w"
  "pos_meas.more (snd (co_addTask lt f d e w)) = pos_meas.more w"
  "meas_ok (co_call c w) = meas_ok w" "meas_ok (co_cancelTask f w) = meas_ok w" "meas_ok (snd (co_addTask lt f d e w)) = meas_ok w"
  by (rule meas_more; simp)+

lemma meas_ok_updates [simp]:
  "meas_ok (w\<lparr>me_table := t\<rparr>) = meas_ok w" "meas_ok (w\<lparr>me_beacon_cb_reg := b\<rparr>) = meas_ok w"
  "meas_ok (w\<lparr>me_opportunistic := b\<rparr>) = meas_ok w" "meas_ok (w\<lparr>me_mbcn_item_cb := b\<rparr>) = meas_ok w"
  "meas_ok (w\<lparr>me_time_when_no_beacons_s := n\<rparr>) = meas_ok w" "meas_ok (w\<lparr>me_scan_pending := b\<rparr>) = meas_ok w"
  "meas_ok (w\<lparr>me_init := b\<rparr>) = meas_ok w" "meas_ok (w\<lparr>me_stack_cbs := s\<rparr>) = meas_ok w"
  "meas_ok (w\<lparr>mv_samples := m\<rparr>) = meas_ok w" "meas_ok (w\<lparr>mv_sampling_time_s := n\<rparr>) = meas_ok w" "meas_ok (w\<lparr>mv_voltage_flt := v\<rparr>) = meas_ok w"
  by (simp_all add: meas_ok_def)

lemma register_part [simp]:
  "ev_part (register_callbacks env w) = ev_part w" "pos_meas.more (register_callbacks env w) = pos_meas.more w"
  by (auto simp: register_callbacks_def Let_def split: prod.splits)

lemma register_ok:
  assumes "meas_ok w"
  shows "meas_ok (register_callbacks env w)"
proof -
  obtain r cb nb where c: "Shared_Neighbors_addOnBeaconCb (Some BEACON_CB) (me_neighbors w) = (r, cb, nb)"
    by (cases "Shared_Neighbors_addOnBeaconCb (Some BEACON_CB) (me_neighbors w)")
  then have "length (m_neighbor_cb nb) = length (m_neighbor_cb (me_neighbors w))" "cb = Some i \<Longrightarrow> unat i < length (m_neighbor_cb nb)" for i
    using assms unfolding meas_ok_def Shared_Neighbors_addOnBeaconCb_def
    by (auto split: option.splits dest!: first_index_lt simp: unat_of_nat_small)
  then show ?thesis using assms c unfolding register_callbacks_def Let_def
    by (auto simp: meas_ok_def co_call_def split: option.splits)
qed

lemma deregister_returns:
  assumes "meas_ok w"
  shows "\<exists>w'. deregister_callbacks w = Some w' \<and> ev_part w' = ev_part w \<and> pos_meas.more w' = pos_meas.more w \<and> meas_ok w'"
proof -
  let ?w = "w\<lparr>me_stack_cbs := snd (Stack_State_removeEventCb (Some SCANEND_CB) (me_stack_cbs w))\<rparr>"
  have "\<exists>r nb. Shared_Neighbors_removeBeaconCb (me_beacon_cb_id w) (me_neighbors w) = Some (r, nb) \<and>
      length (m_neighbor_cb nb) = length (m_neighbor_cb (me_neighbors w))"
    using assms by (simp add: meas_ok_def Shared_Neighbors_removeBeaconCb_def rd_in)
  then obtain r nb where nb: "Shared_Neighbors_removeBeaconCb (me_beacon_cb_id w) (me_neighbors w) = Some (r, nb)"
    "length (m_neighbor_cb nb) = length (m_neighbor_cb (me_neighbors w))" by blast
  let ?v = "if me_beacon_cb_reg w then ?w\<lparr>me_neighbors := nb, me_beacon_cb_reg := False\<rparr> else ?w"
  have v: "ev_part ?v = ev_part w" "pos_meas.more ?v = pos_meas.more w" "meas_ok ?v"
    using assms nb(2) by (simp_all add: meas_ok_def)
  have "deregister_callbacks w =
      Some (if me_mbcn_item_cb ?v then (co_call (Remove_filter ''m_mbcn_item'') ?v)\<lparr>me_mbcn_item_cb := False\<rparr> else ?v)"
    using nb(1) by (simp add: deregister_callbacks_def)
  then show ?thesis using v by simp
qed

lemma deregister_appends:
  assumes "meas_free R"
  shows "appends R 0 (deregister_callbacks w) w"
proof (cases "meas_ok w")
  case True
  then obtain w' where w': "deregister_callbacks w = Some w'" "ev_part w' = ev_part w" "pos_meas.more w' = pos_meas.more w" "meas_ok w'"
    using deregister_returns by blast
  have "R w' = R w" using w'(3) by (rule meas_freeD [OF assms]) (simp add: w'(4) True)
  then show ?thesis unfolding w'(1) by (intro appends_part w'(2))
next
  case False
  then have "R w = None" using meas_free_ok [OF assms] by blast
  then show ?thesis by (simp add: appends_def)
qed

lemma ensure_init_part [simp]:
  "ev_part (ensure_init w) = ev_part w" "pos_meas.more (ensure_init w) = pos_meas.more w" "meas_ok (ensure_init w) = meas_ok w"
  by (simp_all add: ensure_init_def init_module_def)

lemma clear_part [simp]:
  "ev_part (clear_measurement_table w) = ev_part w" "pos_meas.more (clear_measurement_table w) = pos_meas.more w"
  "meas_ok (clear_measurement_table w) = meas_ok w"
  by (simp_all add: clear_measurement_table_def)

lemma appends_outside: "(R w \<noteq> None \<Longrightarrow> appends R k m w) \<Longrightarrow> appends R k m w"
  by (cases "R w") (auto simp: appends_def)

lemma opportunistic_appends:
  assumes "meas_free R"
  shows "appends R 0 (PosLibMeas_opportunisticScan env enable w) w"
proof (rule appends_outside)
  assume "R w \<noteq> None"
  with assms have ok: "meas_ok w" by (rule meas_free_ok)
  have "appends R 0 (map_option (\<lambda>w. w\<lparr>me_opportunistic := False\<rparr>) (deregister_callbacks (ensure_init w))) w"
    using assms by (intro appends_map [OF appends_from [OF deregister_appends]] meas_freeD [OF assms]) simp_all
  then show "appends R 0 (PosLibMeas_opportunisticScan env enable w) w"
    unfolding PosLibMeas_opportunisticScan_def Let_def
    using ok register_ok [of "ensure_init w" env] by (auto intro!: appends_part meas_freeD [OF assms])
qed

lemma meas_stop_appends: "meas_free R \<Longrightarrow> appends R 0 (PosLibMeas_stop w) w"
  unfolding PosLibMeas_stop_def by (rule appends_map [OF deregister_appends]) (auto intro: meas_freeD)

lemma start_scan_appends:
  assumes "meas_free R"
  shows "appends R 1 (map_option snd (PosLibMeas_startScan env mode dur w)) w"
proof (rule appends_outside)
  assume "R w \<noteq> None"
  with assms have ok: "meas_ok w" by (rule meas_free_ok)
  let ?v = "register_callbacks env (clear_measurement_table (ensure_init w))"
  have v: "meas_ok ?v" using ok by (intro register_ok) simp
  let ?u = "(co_call Start_scan ?v)\<lparr>me_scan_pending := True\<rparr>"
  let ?u = "if dur > 0 then snd (co_addTask (pe_time env) ''stopScanNbors'' dur 100 ?u) else ?u"
  have u: "ev_part ?u = ev_part w" "pos_meas.more ?u = pos_meas.more w" "meas_ok ?u" using v by simp_all
  have "appends R 1 (map_option snd (PosLibEvent_add (pe_time env) POSLIB_CTRL_EVENT_SCAN_STARTED ?u)) w"
    using u ok meas_freeD [OF assms, of ?u w]
    by (intro appends_from [OF add_appends] ble_free_core meas_free_ble assms) (simp_all add: ev_weight_def)
  moreover have "map_option snd (PosLibEvent_add (pe_time env) POSLIB_CTRL_EVENT_SCAN_STARTED ?u \<bind> (\<lambda>(_, w). Some (True, w))) =
      map_option snd (PosLibEvent_add (pe_time env) POSLIB_CTRL_EVENT_SCAN_STARTED ?u)"
    by (cases "PosLibEvent_add (pe_time env) POSLIB_CTRL_EVENT_SCAN_STARTED ?u") (auto simp: split_def)
  ultimately show "appends R 1 (map_option snd (PosLibMeas_startScan env mode dur w)) w"
    unfolding PosLibMeas_startScan_def Let_def
    using v ok by (auto intro!: appends_part meas_freeD [OF assms])
qed

subsection \<open>The whole message\<close>

text \<open>With 90 bytes of room the message with the measurements of a table that has some is
  complete: the sequence, a record with the address and the signal loss of every beacon of the
  table, then the voltage and the description of the node when they are asked for.\<close>

lemma payload_written:
  assumes "table_wf (me_table w)" "heard (me_table w) \<noteq> []" "90 \<le> max_len"
  shows "PosLibMeas_getPayload env max_len sequence meas_type add_voltage node_info w =
     ((True, le16 (ucast sequence) @ rss_record meas_type (heard (me_table w)) @ (if add_voltage then voltage_record (fst (get_voltage env w)) else []) @
        (case node_info of None \<Rightarrow> [] | Some n \<Rightarrow> node_record n), length (heard (me_table w))),
      if add_voltage then snd (get_voltage env w) else w)"
proof -
  let ?volt = "fst (get_voltage env w)"
  have b: "length (heard (me_table w)) \<le> 14" using heard_bound [OF assms(1)] by (simp add: MAX_BEACONS_def)
  have h: "length (le16 v) = 2" for v by (simp add: le16_def)
  have room: "length (le16 (ucast sequence) @ rss_record meas_type (heard (me_table w)) @ (if add_voltage then voltage_record ?volt else [])) + 12 \<le> max_len"
    using b assms(3) by (simp add: h record_lengths)
  have r: "add_rss_record max_len (le16 (ucast sequence)) meas_type (me_table w) =
      (length (heard (me_table w)), le16 (ucast sequence) @ rss_record meas_type (heard (me_table w)))"
    using rss_record_written [OF assms(1,2)] room by (simp add: h)
  have c: "meas_copy_payload max_len [] (le16 (ucast sequence)) = Some (le16 (ucast sequence))"
    using assms(3) by (simp add: meas_copy_payload_def h)
  show ?thesis
    unfolding PosLibMeas_getPayload_def c option.case r Let_def split_conv
    using room assms(2) voltage_record_written [of "le16 (ucast sequence) @ rss_record meas_type (heard (me_table w))" max_len env w]
      node_record_written [of "le16 (ucast sequence) @ rss_record meas_type (heard (me_table w))" max_len]
      node_record_written [of "le16 (ucast sequence) @ rss_record meas_type (heard (me_table w)) @ voltage_record ?volt" max_len]
    by (cases add_voltage; cases node_info) (simp_all add: h record_lengths)
qed

subsection \<open>What a scan measures\<close>

text \<open>The smoothed strength, of the values with the latest one first.\<close>

fun smoothed :: "int list \<Rightarrow> int" where
  "smoothed [] = 0"
| "smoothed [r] = r"
| "smoothed (r # rs) = smoothed rs + (r - smoothed rs) sdiv int (min 8 (length rs + 1))"

text \<open>The entry of a node whose beacons are given.\<close>

definition measured :: "wm_beacon list \<Rightarrow> wm_beacon" where
  "measured bs =
     \<lparr>wb_address = wb_address (last bs), wb_norm_rss = smoothed (rev (map wb_norm_rss bs)), wb_txpower = wb_txpower (last bs),
      wb_type = (if length bs = 1 then wb_type (last bs) else POSLIB_MEAS_BEACON_TYPE_FLT), wb_samples = min 8 (length bs),
      wb_last_update = wb_last_update (last bs)\<rparr>"

text \<open>The nodes in the order in which they were first heard.\<close>

definition nodes :: "wm_beacon list \<Rightarrow> u32 list" where
  "nodes bs = rev (remdups (rev (map wb_address bs)))"

definition scan_result :: "wm_beacon list \<Rightarrow> wm_beacon list" where
  "scan_result bs = map (\<lambda>a. measured (filter (\<lambda>b. wb_address b = a) bs)) (nodes bs)"

lemma nodes_facts [simp]:
  "distinct (nodes bs)" "set (nodes bs) = wb_address ` set bs" "length (nodes bs) = card (wb_address ` set bs)" "nodes [] = []"
  by (simp_all add: nodes_def length_remdups_card_conv)

lemma nodes_snoc: "nodes (bs @ [b]) = (if wb_address b \<in> wb_address ` set bs then nodes bs else nodes bs @ [wb_address b])"
  by (simp add: nodes_def)

lemma measured_one: "measured [b] = b\<lparr>wb_samples := 1\<rparr>"
  by (simp add: measured_def)

lemma measured_snoc:
  assumes "bs \<noteq> []"
  shows "measured (bs @ [b]) = update_entry (wb_last_update b) b (measured bs)"
proof -
  obtain r rs where r: "rev (map wb_norm_rss bs) = r # rs" using assms by (cases "rev (map wb_norm_rss bs)") auto
  have l: "length bs = Suc (length rs)" using arg_cong [OF r, of length] by simp
  consider "length rs < 6" | "length rs = 6" | "6 < length rs" by linarith
  then show ?thesis
    by cases (simp_all add: measured_def update_entry_def r l MAX_FLT_SAMPLES_def Let_def min_def)
qed

lemma measured_address:
  assumes "a \<in> wb_address ` set bs"
  shows "wb_address (measured (filter (\<lambda>b. wb_address b = a) bs)) = a"
proof -
  have "filter (\<lambda>b. wb_address b = a) bs \<noteq> []" using assms by (auto simp: filter_empty_conv)
  from last_in_set [OF this] show ?thesis by (simp add: measured_def)
qed

lemma scan_result_addresses: "map wb_address (scan_result bs) = nodes bs"
  by (auto simp: scan_result_def measured_address intro!: map_idI)

lemma address_new: "a \<notin> wb_address ` set bs \<Longrightarrow> first_index (\<lambda>x. wb_address x = a) bs = None"
  unfolding first_index_None by (metis imageI)

lemma map_update_one:
  assumes "distinct ns" "i < length ns" "\<And>a. a \<in> set ns \<Longrightarrow> a \<noteq> ns ! i \<Longrightarrow> g a = f a"
  shows "(map f ns)[i := g (ns ! i)] = map g ns"
  using assms by (intro nth_equalityI) (auto simp: nth_list_update nth_eq_iff_index_eq)

lemma scan_result_step:
  assumes "length (nodes (bs @ [b])) \<le> MAX_BEACONS" "wb_samples b = 1" "wb_last_update b = now"
  shows "table_step now b (scan_result bs) = scan_result (bs @ [b])"
proof (cases "wb_address b \<in> wb_address ` set bs")
  case True
  let ?f = "\<lambda>a. measured (filter (\<lambda>b. wb_address b = a) bs)" and ?g = "\<lambda>a. measured (filter (\<lambda>b. wb_address b = a) (bs @ [b]))"
  have "\<exists>x \<in> set (scan_result bs). wb_address x = wb_address b"
    using True scan_result_addresses [of bs] by (metis imageE list.set_map nodes_facts(2))
  then obtain i where i: "first_index (\<lambda>x. wb_address x = wb_address b) (scan_result bs) = Some i"
    using first_index_None [of "\<lambda>x. wb_address x = wb_address b"] by (cases "first_index (\<lambda>x. wb_address x = wb_address b) (scan_result bs)") auto
  have lt: "i < length (nodes bs)" using first_index_SomeD(1) [OF i] by (simp add: scan_result_def)
  have ni: "nodes bs ! i = wb_address b"
    using first_index_SomeD [OF i] scan_result_addresses [of bs] by (metis nth_map)
  have ne: "filter (\<lambda>x. wb_address x = wb_address b) bs \<noteq> []" using True by (auto simp: filter_empty_conv)
  have "table_step now b (scan_result bs) = (map ?f (nodes bs))[i := ?g (nodes bs ! i)]"
    using i lt ni measured_snoc [OF ne, of b] assms(3) by (simp add: table_step_def scan_result_def)
  also have "\<dots> = map ?g (nodes bs)" using lt by (intro map_update_one) (auto simp: ni)
  finally show ?thesis using True by (simp add: scan_result_def nodes_snoc)
next
  case False
  have n: "length (scan_result bs) < MAX_BEACONS" using assms(1) False by (simp add: nodes_snoc scan_result_def)
  have "wb_address x \<noteq> wb_address b" if "x \<in> set (scan_result bs)" for x
    using that False scan_result_addresses [of bs] by (metis image_eqI list.set_map nodes_facts(2))
  then have none: "first_index (\<lambda>x. wb_address x = wb_address b) (scan_result bs) = None" by (auto simp: first_index_None)
  have f: "filter (\<lambda>x. wb_address x = wb_address b) bs = []" using False unfolding filter_empty_conv by (metis imageI)
  have "filter (\<lambda>x. wb_address x = a) (bs @ [b]) = filter (\<lambda>x. wb_address x = a) bs" if "a \<in> set (nodes bs)" for a
    using that False by auto
  then have "map (\<lambda>a. measured (filter (\<lambda>x. wb_address x = a) (bs @ [b]))) (nodes bs) = scan_result bs"
    unfolding scan_result_def by (intro map_cong) simp_all
  then show ?thesis using n none f False assms(2,3)
    by (simp add: table_step_def scan_result_def [of "bs @ [b]"] nodes_snoc measured_one)
qed

text \<open>A beacon received at its time.\<close>

definition receive :: "u32 \<times> beacon_rx \<Rightarrow> 'a pos_meas_scheme \<Rightarrow> 'a pos_meas_scheme" where
  "receive = (\<lambda>(now, rx) w. beacon_cb rx (w\<lparr>co_sched := (co_sched w)\<lparr>now_hp := now\<rparr>\<rparr>))"

lemma receive_table: "me_table (receive (now, rx) w) = insert_beacon now (rx_beacon now rx) (me_table w)"
  by (simp add: receive_def beacon_cb_eq)

lemma rx_beacon_simps [simp]:
  "wb_address (rx_beacon now rx) = rx_address rx" "wb_samples (rx_beacon now rx) = 1" "wb_last_update (rx_beacon now rx) = now"
  "wb_norm_rss (rx_beacon now rx) = sint (rx_rssi rx) - sint (rx_txpower rx)" "wb_txpower (rx_beacon now rx) = sint (rx_txpower rx)"
  by (simp_all add: rx_beacon_def)

text \<open>The addresses of the table after a beacon.\<close>

lemma insert_addresses:
  assumes t: "table_wf t" and b: "entry_ok b"
  shows "wb_address ` set (heard (insert_beacon now b t)) \<subseteq> insert (wb_address b) (wb_address ` set (heard t)) \<and>
     length (heard (insert_beacon now b t)) =
       (if wb_address b \<in> wb_address ` set (heard t) then length (heard t) else min MAX_BEACONS (length (heard t) + 1))"
proof (cases "wb_address b \<in> wb_address ` set (heard t) \<or> length (heard t) < MAX_BEACONS")
  case True
  then have h: "heard (insert_beacon now b t) = table_step now b (heard t)" using t b by (intro insert_heard) auto
  show ?thesis
  proof (cases "first_index (\<lambda>x. wb_address x = wb_address b) (heard t)")
    case (Some i)
    then have "wb_address b \<in> wb_address ` set (heard t)" using first_index_SomeD [OF Some] by (metis imageI nth_mem)
    then show ?thesis using Some h by (auto simp: table_step_def dest!: set_update_subset_insert [THEN subsetD])
  next
    case None
    then have "wb_address b \<notin> wb_address ` set (heard t)" by (auto simp: first_index_None)
    then show ?thesis using None h True by (auto simp: table_step_def)
  qed
next
  case False
  then have full: "mt_num_beacons t = MAX_BEACONS" "length (heard t) = MAX_BEACONS" using length_heard [OF t] heard_bound [OF t] by simp_all
  have None: "first_index (\<lambda>x. wb_address x = wb_address b) (heard t) = None" using False by (intro address_new) simp
  have "heard (insert_beacon now b t) = heard t \<or>
      (\<exists>i. heard (insert_beacon now b t) = (heard t)[i := update_entry now b (heard t ! i)])"
    unfolding insert_full [OF None full(1) t] using update_min_table [OF t] full heard_full [OF t full(1)] t
    by (auto simp: heard_def table_wf_def)
  then show ?thesis using False full by (auto dest!: set_update_subset_insert [THEN subsetD])
qed

lemma scan_measured:
  assumes "table_wf (me_table w)"
  defines "t \<equiv> \<lambda>rxs. me_table (fold receive rxs (clear_measurement_table w))" and "bs \<equiv> map (\<lambda>(now, rx). rx_beacon now rx)"
  shows "table_wf (t rxs) \<and> wb_address ` set (heard (t rxs)) \<subseteq> wb_address ` set (bs rxs) \<and>
     length (heard (t rxs)) = min MAX_BEACONS (card (wb_address ` set (bs rxs))) \<and>
     (card (wb_address ` set (bs rxs)) \<le> MAX_BEACONS \<longrightarrow> heard (t rxs) = scan_result (bs rxs))"
proof (induction rxs rule: rev_induct)
  case Nil
  then show ?case using clear_table_wf [OF assms(1)] by (simp add: t_def bs_def scan_result_def)
next
  case (snoc p rxs)
  obtain now rx where p: "p = (now, rx)" by fastforce
  let ?b = "rx_beacon now rx" and ?t = "t rxs" and ?bs = "bs rxs" and ?A = "wb_address ` set (bs rxs)"
  have t: "t (rxs @ [p]) = insert_beacon now ?b ?t" and bs: "bs (rxs @ [p]) = ?bs @ [?b]"
    by (simp_all add: t_def bs_def p receive_table)
  have wf: "table_wf ?t" and sub: "wb_address ` set (heard ?t) \<subseteq> ?A" and len: "length (heard ?t) = min MAX_BEACONS (card ?A)"
    and res: "card ?A \<le> MAX_BEACONS \<Longrightarrow> heard ?t = scan_result ?bs" using snoc.IH by blast+
  have card: "card (wb_address ` set (heard ?t)) = length (heard ?t)" using wf by (metis distinct_card length_map list.set_map table_wf_def)
  have all: "wb_address ` set (heard ?t) = ?A" if "card ?A \<le> MAX_BEACONS" using that sub card len by (intro card_subset_eq) auto
  have A: "wb_address ` set (?bs @ [?b]) = insert (rx_address rx) ?A" by auto
  have "length (heard (t (rxs @ [p]))) = min MAX_BEACONS (card (insert (rx_address rx) ?A))"
    unfolding t using insert_addresses [OF wf rx_beacon_ok [of now rx], of now] len sub all
    by (cases "card ?A \<le> MAX_BEACONS") (auto simp: card_insert_if)
  moreover have "heard (t (rxs @ [p])) = scan_result (?bs @ [?b])" if c: "card (insert (rx_address rx) ?A) \<le> MAX_BEACONS"
  proof -
    have c': "card ?A \<le> MAX_BEACONS" using c by (auto simp: card_insert_if split: if_splits)
    have "length (heard ?t) < MAX_BEACONS \<or> wb_address ?b \<in> wb_address ` set (heard ?t)"
      using c len all [OF c'] by (auto simp: card_insert_if split: if_splits)
    then have "heard (t (rxs @ [p])) = table_step now ?b (scan_result ?bs)"
      unfolding t res [OF c', symmetric] using wf rx_beacon_ok by (intro insert_heard) auto
    also have "\<dots> = scan_result (?bs @ [?b])"
      using c A nodes_facts(3) [of "?bs @ [?b]"] by (intro scan_result_step) simp_all
    finally show ?thesis .
  qed
  moreover have "wb_address ` set (heard (t (rxs @ [p]))) \<subseteq> insert (rx_address rx) ?A"
  proof -
    have "wb_address ` set (heard (t (rxs @ [p]))) \<subseteq> insert (rx_address rx) (wb_address ` set (heard ?t))"
      unfolding t using insert_addresses [OF wf rx_beacon_ok [of now rx], of now] by simp
    also have "\<dots> \<subseteq> insert (rx_address rx) ?A" using sub by (rule insert_mono)
    finally show ?thesis .
  qed
  moreover have "table_wf (t (rxs @ [p]))" unfolding t using wf rx_beacon_ok by (rule insert_wf)
  ultimately show ?case unfolding bs A by blast
qed

lemma weakest_evicted:
  assumes "table_wf (me_table w)"
  shows "let hs = heard (me_table w); hs' = heard (me_table (receive (now, rx) w));
          m = Min (wb_norm_rss ` set hs); r = sint (rx_rssi rx) - sint (rx_txpower rx)
      in length hs = MAX_BEACONS \<and> rx_address rx \<notin> wb_address ` set hs \<and> (\<forall>x \<in> set hs. wb_norm_rss x < 0) \<longrightarrow>
         (if r \<le> m then hs' = hs
          else \<exists>i e. i < MAX_BEACONS \<and> wb_norm_rss (hs ! i) = m \<and> hs' = hs[i := e] \<and> wb_address e = rx_address rx \<and>
                 wb_txpower e = sint (rx_txpower rx) \<and> wb_last_update e = now \<and> m \<le> wb_norm_rss e \<and> wb_norm_rss e \<le> r)"
proof -
  let ?hs = "heard (me_table w)" and ?b = "rx_beacon now rx"
  define m where "m = Min (wb_norm_rss ` set ?hs)"
  define i where "i = weakest ?hs"
  show ?thesis
    unfolding Let_def m_def [symmetric]
  proof (intro impI, elim conjE)
    assume len: "length ?hs = MAX_BEACONS" and new: "rx_address rx \<notin> wb_address ` set ?hs" and below: "\<forall>x \<in> set ?hs. wb_norm_rss x < 0"
    have full: "mt_num_beacons (me_table w) = MAX_BEACONS" using len length_heard [OF assms] by simp
    have lt: "i < length ?hs" using update_min_weakest(2) [OF assms full below] len by (simp add: i_def)
    have "wb_norm_rss (?hs ! i) = m"
    proof -
      have "?hs \<noteq> []" using lt by auto
      then have "m \<in> wb_norm_rss ` set ?hs" unfolding m_def by (intro Min_in) auto
      then obtain j where j: "first_index (\<lambda>b. wb_norm_rss b = m) ?hs = Some j"
        using first_index_None [of "\<lambda>b. wb_norm_rss b = m" ?hs] by (cases "first_index (\<lambda>b. wb_norm_rss b = m) ?hs") auto
      then show ?thesis using first_index_SomeD [OF j] by (simp add: i_def weakest_def m_def)
    qed
    moreover have "entry_ok (?hs ! i)" using assms lt by (simp add: table_wf_def list_all_length)
    moreover have "first_index (\<lambda>x. wb_address x = wb_address ?b) ?hs = None" using new by (intro address_new) simp
    moreover have "heard (me_table (receive (now, rx) w)) = table_step now ?b ?hs"
      unfolding receive_table using assms rx_beacon_ok below by (intro insert_heard) auto
    ultimately show "if sint (rx_rssi rx) - sint (rx_txpower rx) \<le> m then heard (me_table (receive (now, rx) w)) = ?hs
      else \<exists>i e. i < MAX_BEACONS \<and> wb_norm_rss (?hs ! i) = m \<and> heard (me_table (receive (now, rx) w)) = ?hs[i := e] \<and>
        wb_address e = rx_address rx \<and> wb_txpower e = sint (rx_txpower rx) \<and> wb_last_update e = now \<and> m \<le> wb_norm_rss e \<and>
        wb_norm_rss e \<le> sint (rx_rssi rx) - sint (rx_txpower rx)"
      using lt len filtered_between [where e = "?hs ! i" and b = ?b and now = now]
      by (auto simp: table_step_def i_def [symmetric] entry_ok_def intro!: exI [of _ i] exI [of _ "update_entry now ?b (?hs ! i)"])
  qed
qed

subsection \<open>Properties\<close>

definition ble_boot :: pos_ble where
  "ble_boot = pos_mbcn.extend mbcn_boot
     (pos_ble.fields (snd (Shared_Beacon_init beacons_boot)) [0, 0, 0, 0, 0, 0xC0] 0 0 False False True (ps_ble settings_example) False)"

definition meas_boot :: pos_meas where
  "meas_boot = pos_ble.extend ble_boot
     (pos_meas.fields zero_table 0 False False False 0 False False
       \<lparr>ss_initialized = True, m_stack_state_cbs = replicate 5 \<lparr>ss_cb = None, ss_bitfields = 0\<rparr>, ss_calls = []\<rparr>
       \<lparr>m_neighbor_cb = replicate 5 None, nb_calls = []\<rparr> 0 0 0)"

lemma meas_boot_table [simp]: "me_table meas_boot = zero_table"
  by (simp add: meas_boot_def pos_ble.defs pos_meas.defs)

text \<open>C35: the table after a scan, whose beacons are received each at its own time.  It has at
  most 14 entries, with distinct addresses of nodes that were heard, one for each of them as long as
  they are at most 14.  Then a node's entry depends on its own beacons only, in the order in which
  the nodes were first heard: the number of its beacons up to 8, the power and the time of the
  last one, and the smoothed strength, where a new value moves the smoothed one by the difference
  divided by the number of its beacons, or by 8, rounded to zero; with one beacon it is its strength
  and its type.  A new address in a full table whose entries are below 0 dB changes nothing unless
  it is stronger than the weakest; then it takes the place of one of the weakest entries,
  recorded between the strength of this entry and its own.\<close>

theorem scan_refines_list:
  fixes rxs :: "(u32 \<times> beacon_rx) list"
  assumes "table_wf (me_table w)"
  defines "t \<equiv> me_table (fold receive rxs (clear_measurement_table w))" and "bs \<equiv> map (\<lambda>(now, rx). rx_beacon now rx) rxs"
  shows "table_wf t \<and> wb_address ` set (heard t) \<subseteq> wb_address ` set bs \<and>
     length (heard t) = min 14 (card (wb_address ` set bs)) \<and>
     (card (wb_address ` set bs) \<le> 14 \<longrightarrow> heard t = scan_result bs) \<and>
     (let hs = heard (me_table w); hs' = heard (me_table (receive (now, rx) w));
          m = Min (wb_norm_rss ` set hs); r = sint (rx_rssi rx) - sint (rx_txpower rx)
      in length hs = 14 \<and> rx_address rx \<notin> wb_address ` set hs \<and> (\<forall>x \<in> set hs. wb_norm_rss x < 0) \<longrightarrow>
         (if r \<le> m then hs' = hs
          else \<exists>i e. i < 14 \<and> wb_norm_rss (hs ! i) = m \<and> hs' = hs[i := e] \<and> wb_address e = rx_address rx \<and>
                 wb_txpower e = sint (rx_txpower rx) \<and> wb_last_update e = now \<and> m \<le> wb_norm_rss e \<and> wb_norm_rss e \<le> r))"
proof -
  have "table_wf t \<and> wb_address ` set (heard t) \<subseteq> wb_address ` set bs \<and>
      length (heard t) = min MAX_BEACONS (card (wb_address ` set bs)) \<and>
      (card (wb_address ` set bs) \<le> MAX_BEACONS \<longrightarrow> heard t = scan_result bs)"
    unfolding t_def bs_def by (rule scan_measured [OF assms(1)])
  then show ?thesis
    using weakest_evicted [OF assms(1), of now rx] unfolding MAX_BEACONS_def by blast
qed

definition rx_example :: "u32 \<Rightarrow> u8 \<Rightarrow> beacon_rx" where
  "rx_example a rssi = \<lparr>rx_address = a, rx_rssi = rssi, rx_txpower = 4, rx_type = 1\<rparr>"

definition rxs_example :: "(u32 \<times> beacon_rx) list" where
  "rxs_example = [(100, rx_example 10 (- 60)), (101, rx_example 11 (- 70)), (102, rx_example 10 (- 50))]"

theorem scan_refines_list_witness:
  "map (\<lambda>b. (wb_address b, wb_norm_rss b, wb_last_update b)) (heard (me_table (fold receive rxs_example (clear_measurement_table meas_boot)))) =
   [(10, - 59, 102), (11, - 74, 101)]"
proof -
  let ?bs = "map (\<lambda>(now, rx). rx_beacon now rx) rxs_example"
  have "table_wf (me_table meas_boot)" by simp
  moreover have "card (wb_address ` set ?bs) \<le> 14" by code_simp
  ultimately have "heard (me_table (fold receive rxs_example (clear_measurement_table meas_boot))) = scan_result ?bs"
    using scan_refines_list [of meas_boot rxs_example] by simp
  then show ?thesis by (simp only:) code_simp
qed

end
