(* ===== verification/Pos_Da.thy ===== *)
theory Pos_Da
  imports Pos_Meas "HOL-Library.Multiset"
begin

text \<open>
  \<open>libraries/positioning/poslib/poslib_da.c\<close>: tags that only advertise send their messages
  through a router nearby, and routers pass them on.  The neighbors of the stack and the
  \<open>qsort\<close> of the C library are parameters; what is used of \<open>qsort\<close> is \<open>qsort_ok\<close>.  A packet
  sent with \<open>Shared_Data_sendData\<close> is logged.  The filters of the items have the endpoints the
  callbacks check.
\<close>

subsection \<open>State\<close>

record pos_da = pos_meas +
  da_router_cb :: bool
  da_tag_cb :: bool
  da_sequence :: u16
  da_nbors :: "da_neighbor list"

definition DA_MAX_NBORS :: nat where "DA_MAX_NBORS = 20"
definition NBOR_LAST_SEEN_WINDOW :: int where "NBOR_LAST_SEEN_WINDOW = 2"
definition MAX_PAYLOAD_LEN :: nat where "MAX_PAYLOAD_LEN = 102"
definition POS_SOURCE_ENDPOINT :: u8 where "POS_SOURCE_ENDPOINT = 238"
definition POS_DESTINATION_ENDPOINT :: u8 where "POS_DESTINATION_ENDPOINT = 238"
definition POSLIB_MEAS_DA :: u8 where "POSLIB_MEAS_DA = 7"

definition APP_LIB_SETTINGS_ROLE_ADVERTISER :: u8 where "APP_LIB_SETTINGS_ROLE_ADVERTISER = 0x04"
definition APP_LIB_SETTINGS_ROLE_HEADNODE_LL :: u8 where "APP_LIB_SETTINGS_ROLE_HEADNODE_LL = 0x11"

definition IS_DA_ROUTER :: "u8 \<Rightarrow> bool" where "IS_DA_ROUTER x \<longleftrightarrow> x = 0"
definition IS_NOT_DA_ROUTER :: "u8 \<Rightarrow> bool" where "IS_NOT_DA_ROUTER x \<longleftrightarrow> x = 1"
definition IS_UNKNOWN_DA_ROUTER :: "u8 \<Rightarrow> bool" where "IS_UNKNOWN_DA_ROUTER x \<longleftrightarrow> x = 2"
definition ROUTER_COST_INVALID :: "u8 \<Rightarrow> bool" where "ROUTER_COST_INVALID x \<longleftrightarrow> x = 255 \<or> x = 0"

lemmas da_class_defs = IS_DA_ROUTER_def IS_NOT_DA_ROUTER_def IS_UNKNOWN_DA_ROUTER_def

subsection \<open>Routers\<close>

definition da_packet :: "u32 \<Rightarrow> u8 list \<Rightarrow> data_to_send" where
  "da_packet delay bytes =
     \<lparr>ds_bytes = bytes, ds_dest_address = APP_ADDR_ANYSINK, ds_delay = delay, ds_tracking_id = 0, ds_qos = 0, ds_flags = 0,
      ds_src_endpoint = POS_SOURCE_ENDPOINT, ds_dest_endpoint = POS_DESTINATION_ENDPOINT, ds_hop_limit = 0, ds_fragment_info = None\<rparr>"

definition router_pos_data_cb :: "pos_env \<Rightarrow> u32 \<Rightarrow> u32 \<Rightarrow> u8 list \<Rightarrow> 'a pos_da_scheme \<Rightarrow> data_receive_res \<times> 'a pos_da_scheme" where
  "router_pos_data_cb env mac_src_address delay data w =
     (if length data = 0 then (APP_LIB_DATA_RECEIVE_RES_HANDLED, w)
      else
        let bytes = le16 (da_sequence w) @ [POSLIB_MEAS_DA, of_nat (length data + 4)] @ le32 mac_src_address;
            w = w\<lparr>da_sequence := da_sequence w + 1\<rparr>
        in if length data \<le> MAX_PAYLOAD_LEN - length bytes
           then (APP_LIB_DATA_RECEIVE_RES_HANDLED, snd (co_send env (da_packet delay (bytes @ data)) w))
           else (APP_LIB_DATA_RECEIVE_RES_HANDLED, w))"

text \<open>The acknowledgement: the configuration of the router, or nothing.\<close>

definition router_ack_cb :: "u8 list \<Rightarrow> u8 \<Rightarrow> u8 \<Rightarrow> bool \<times> u8 list" where
  "router_ack_cb appcfg src_endpoint dest_endpoint =
     (True, if src_endpoint = POS_SOURCE_ENDPOINT \<and> dest_endpoint = POS_DESTINATION_ENDPOINT then appcfg else [])"

definition start_router :: "pos_env \<Rightarrow> 'a pos_da_scheme \<Rightarrow> bool \<times> 'a pos_da_scheme" where
  "start_router env w =
     (if pl_getNodeRole (pe_lib env) \<noteq> APP_LIB_SETTINGS_ROLE_HEADNODE_LL then (False, w)
      else
        let w = (co_call (Ack_gen_cb True) w)\<lparr>da_router_cb := True\<rparr>
        in if pe_addDataReceivedCb env ''m_router_pos_item'' \<noteq> APP_RES_OK then (False, w\<lparr>da_router_cb := False\<rparr>)
           else (True, co_call (Add_filter ''m_router_pos_item'') w))"

definition stop_router :: "'a pos_da_scheme \<Rightarrow> 'a pos_da_scheme" where
  "stop_router w =
     (let w = co_call (Ack_gen_cb False) w
      in if da_router_cb w then (co_call (Remove_filter ''m_router_pos_item'') w)\<lparr>da_router_cb := False\<rparr> else w)"

subsection \<open>Tags\<close>

definition compare_neighbours :: "da_neighbor \<Rightarrow> da_neighbor \<Rightarrow> int" where
  "compare_neighbours a b =
     (if (IS_DA_ROUTER (nb_diradv_support a) \<and> IS_DA_ROUTER (nb_diradv_support b)) \<or>
         (IS_UNKNOWN_DA_ROUTER (nb_diradv_support a) \<and> IS_UNKNOWN_DA_ROUTER (nb_diradv_support b))
      then let dt = uint (nb_last_update a) - uint (nb_last_update b)
           in if \<bar>dt\<bar> > NBOR_LAST_SEEN_WINDOW then dt else sint (nb_norm_rssi b) - sint (nb_norm_rssi a)
      else if IS_DA_ROUTER (nb_diradv_support a) \<or> (IS_UNKNOWN_DA_ROUTER (nb_diradv_support a) \<and> IS_NOT_DA_ROUTER (nb_diradv_support b))
      then - 1
      else if IS_DA_ROUTER (nb_diradv_support b) \<or> (IS_UNKNOWN_DA_ROUTER (nb_diradv_support b) \<and> IS_NOT_DA_ROUTER (nb_diradv_support a))
      then 1
      else 0)"

definition update_neigbours :: "pos_env \<Rightarrow> 'a pos_da_scheme \<Rightarrow> 'a pos_da_scheme" where
  "update_neigbours env w = w\<lparr>da_nbors := pe_qsort env compare_neighbours (take DA_MAX_NBORS (pe_nbors env))\<rparr>"

text \<open>The callback for acknowledgements; the argument is \<open>PosLibCtrl_setAppConfig\<close>.\<close>

definition tag_ack_cb :: "(u8 list \<Rightarrow> 'a pos_da_scheme \<Rightarrow> 'a pos_da_scheme option) \<Rightarrow> u8 list \<Rightarrow> 'a pos_da_scheme \<Rightarrow>
    (data_receive_res \<times> 'a pos_da_scheme) option" where
  "tag_ack_cb setAppConfig bytes w =
     map_option (Pair APP_LIB_DATA_RECEIVE_RES_HANDLED) (if length bytes > 0 then setAppConfig bytes w else Some w)"

text \<open>The result is not set when the registration succeeds: \<open>None\<close> is an indeterminate value.\<close>

definition start_tag :: "pos_env \<Rightarrow> da_settings \<Rightarrow> 'a pos_da_scheme \<Rightarrow> bool option \<times> 'a pos_da_scheme" where
  "start_tag env settings w =
     (let w = (co_call (Advertiser_options (da_follow_network settings)) w)\<lparr>da_tag_cb := True\<rparr>
      in if pe_addDataReceivedCb env ''m_tag_ack_item'' = APP_RES_OK then (None, co_call (Add_filter ''m_tag_ack_item'') w)
         else (Some False, w\<lparr>da_tag_cb := False\<rparr>))"

definition stop_tag :: "'a pos_da_scheme \<Rightarrow> 'a pos_da_scheme" where
  "stop_tag w = (if da_tag_cb w then co_call (Remove_filter ''m_tag_ack_item'') w else w)"

definition PosLibDa_stop :: "'a pos_da_scheme \<Rightarrow> 'a pos_da_scheme" where
  "PosLibDa_stop w = stop_tag (stop_router w)"

definition PosLibDa_start :: "pos_env \<Rightarrow> pos_settings \<Rightarrow> 'a pos_da_scheme \<Rightarrow> bool option \<times> 'a pos_da_scheme" where
  "PosLibDa_start env settings w =
     (if ps_node_mode settings = POSLIB_MODE_DA_TAG then start_tag env (ps_da settings) (stop_router w)
      else if ps_node_mode settings = POSLIB_MODE_AUTOSCAN_ANCHOR \<or> ps_node_mode settings = POSLIB_MODE_OPPORTUNISTIC_ANCHOR
      then if da_routing_enabled (ps_da settings)
           then case start_router env (stop_tag w) of (ret, w) \<Rightarrow> (Some ret, w)
           else (Some True, w)
      else (Some True, w))"

text \<open>The destination address in \<open>data\<close> is overwritten, and stays so for the caller.\<close>

fun send_loop :: "pos_env \<Rightarrow> da_neighbor list \<Rightarrow> data_send_res \<Rightarrow> data_to_send \<Rightarrow> 'a pos_da_scheme \<Rightarrow>
    data_send_res \<times> data_to_send \<times> 'a pos_da_scheme" where
  "send_loop env [] res data w = (res, data, w)"
| "send_loop env (n # ns) res data w =
     (if ROUTER_COST_INVALID (nb_cost n) then send_loop env ns res data w
      else
        let data = data\<lparr>ds_dest_address := nb_address n\<rparr>;
            (res, w) = co_send env data w
        in if res \<noteq> APP_LIB_DATA_SEND_RES_INVALID_DEST_ADDRESS then (res, data, w) else send_loop env ns res data w)"

definition PosLibDa_sendData :: "pos_env \<Rightarrow> data_to_send \<Rightarrow> 'a pos_da_scheme \<Rightarrow> data_send_res \<times> data_to_send \<times> 'a pos_da_scheme" where
  "PosLibDa_sendData env data w =
     (if pl_getNodeRole (pe_lib env) \<noteq> APP_LIB_SETTINGS_ROLE_ADVERTISER \<or> ds_dest_address data \<noteq> APP_ADDR_ANYSINK
      then case co_send env data w of (res, w) \<Rightarrow> (res, data, w)
      else let w = update_neigbours env w
           in send_loop env (da_nbors w) APP_LIB_DATA_SEND_RES_INVALID_DEST_ADDRESS data w)"

subsection \<open>Sorting\<close>

text \<open>What the C library promises of \<open>qsort\<close>: with a comparison that is an order on the
  elements the result is sorted and has the same elements.\<close>

definition consistent :: "('a \<Rightarrow> 'a \<Rightarrow> int) \<Rightarrow> 'a set \<Rightarrow> bool" where
  "consistent cmp S \<longleftrightarrow> (\<forall>a \<in> S. \<forall>b \<in> S. (cmp a b \<le> 0 \<longleftrightarrow> 0 \<le> cmp b a)) \<and>
     (\<forall>a \<in> S. \<forall>b \<in> S. \<forall>c \<in> S. cmp a b \<le> 0 \<longrightarrow> cmp b c \<le> 0 \<longrightarrow> cmp a c \<le> 0)"

lemma consistent_mono: "consistent cmp S \<Longrightarrow> T \<subseteq> S \<Longrightarrow> consistent cmp T"
  unfolding consistent_def by (intro conjI ballI impI; meson subsetD)

lemma consistent_trans: "consistent cmp S \<Longrightarrow> {a, b, c} \<subseteq> S \<Longrightarrow> cmp a b \<le> 0 \<Longrightarrow> cmp b c \<le> 0 \<Longrightarrow> cmp a c \<le> 0"
  unfolding consistent_def insert_subset by blast

lemma consistent_swap: "consistent cmp S \<Longrightarrow> {a, b} \<subseteq> S \<Longrightarrow> \<not> cmp a b \<le> 0 \<Longrightarrow> cmp b a \<le> 0"
  unfolding consistent_def by (metis insert_subset linear)

definition qsort_ok :: "(('a \<Rightarrow> 'a \<Rightarrow> int) \<Rightarrow> 'a list \<Rightarrow> 'a list) \<Rightarrow> bool" where
  "qsort_ok qs \<longleftrightarrow> (\<forall>cmp xs. consistent cmp (set xs) \<longrightarrow> mset (qs cmp xs) = mset xs \<and> sorted_wrt (\<lambda>a b. cmp a b \<le> 0) (qs cmp xs))"

fun ins_by :: "('a \<Rightarrow> 'a \<Rightarrow> int) \<Rightarrow> 'a \<Rightarrow> 'a list \<Rightarrow> 'a list" where
  "ins_by cmp x [] = [x]"
| "ins_by cmp x (y # ys) = (if cmp x y \<le> 0 then x # y # ys else y # ins_by cmp x ys)"

fun isort_by :: "('a \<Rightarrow> 'a \<Rightarrow> int) \<Rightarrow> 'a list \<Rightarrow> 'a list" where
  "isort_by cmp [] = []"
| "isort_by cmp (x # xs) = ins_by cmp x (isort_by cmp xs)"

lemma mset_isort [simp]: "mset (ins_by cmp x xs) = add_mset x (mset xs)" "mset (isort_by cmp xs) = mset xs"
proof -
  show i: "mset (ins_by cmp x xs) = add_mset x (mset xs)" for x xs by (induction xs) simp_all
  show "mset (isort_by cmp xs) = mset xs" by (induction xs) (simp_all add: i)
qed

lemma set_isort [simp]: "set (ins_by cmp x xs) = insert x (set xs)" "set (isort_by cmp xs) = set xs"
  by (metis mset_isort(1) set_mset_add_mset_insert set_mset_mset) (metis mset_isort(2) set_mset_mset)

lemma ins_sorted:
  assumes "consistent cmp (insert x (set xs))" "sorted_wrt (\<lambda>a b. cmp a b \<le> 0) xs"
  shows "sorted_wrt (\<lambda>a b. cmp a b \<le> 0) (ins_by cmp x xs)"
  using assms
proof (induction xs)
  case Nil
  then show ?case by simp
next
  case (Cons y ys)
  have c: "consistent cmp (insert x (set ys))" using Cons.prems(1) by (rule consistent_mono) auto
  show ?case
  proof (cases "cmp x y \<le> 0")
    case True
    have "cmp x z \<le> 0" if "z \<in> set ys" for z
      using consistent_trans [OF Cons.prems(1) _ True, of z] Cons.prems(2) that by simp
    then show ?thesis using True Cons.prems(2) by simp
  next
    case False
    then have "cmp y x \<le> 0" using consistent_swap [OF Cons.prems(1), of x y] by simp
    then show ?thesis using False Cons.IH [OF c] Cons.prems(2) by simp
  qed
qed

lemma isort_ok: "qsort_ok isort_by"
proof -
  have "sorted_wrt (\<lambda>a b. cmp a b \<le> 0) (isort_by cmp xs)" if "consistent cmp (set xs)" for cmp and xs :: "'a list"
    using that
  proof (induction xs)
    case (Cons x xs)
    have "consistent cmp (set xs)" using Cons.prems by (rule consistent_mono) auto
    then show ?case using Cons ins_sorted [of cmp x "isort_by cmp xs"] by simp
  qed simp
  then show ?thesis by (simp add: qsort_ok_def)
qed

subsection \<open>The choice of a router\<close>

text \<open>Neighbors whose latest updates are near each other are compared by what is known of their
  support and by their signal.\<close>

definition da_class :: "da_neighbor \<Rightarrow> nat" where
  "da_class n = (if IS_DA_ROUTER (nb_diradv_support n) then 0 else if IS_UNKNOWN_DA_ROUTER (nb_diradv_support n) then 1 else 2)"

definition better_router :: "da_neighbor \<Rightarrow> da_neighbor \<Rightarrow> bool" where
  "better_router a b \<longleftrightarrow> da_class a < da_class b \<or> (da_class a = da_class b \<and> (da_class a = 2 \<or> sint (nb_norm_rssi b) \<le> sint (nb_norm_rssi a)))"

definition seen_together :: "da_neighbor set \<Rightarrow> bool" where
  "seen_together S \<longleftrightarrow> (\<forall>a \<in> S. nb_diradv_support a \<le> 2 \<and> (\<forall>b \<in> S. \<bar>uint (nb_last_update a) - uint (nb_last_update b)\<bar> \<le> NBOR_LAST_SEEN_WINDOW))"

lemma word_le_2: "x \<le> 2 \<longleftrightarrow> x = 0 \<or> x = 1 \<or> x = (2 :: u8)"
  by (auto simp: word_le_nat_alt word_unat_eq_iff)

lemma compare_better:
  assumes "seen_together S" "a \<in> S" "b \<in> S"
  shows "compare_neighbours a b \<le> 0 \<longleftrightarrow> better_router a b" "0 \<le> compare_neighbours a b \<longleftrightarrow> better_router b a"
proof -
  have c: "nb_diradv_support a = 0 \<or> nb_diradv_support a = 1 \<or> nb_diradv_support a = 2"
    "nb_diradv_support b = 0 \<or> nb_diradv_support b = 1 \<or> nb_diradv_support b = 2"
    using assms by (auto simp: seen_together_def word_le_2)
  have d: "\<not> \<bar>uint (nb_last_update a) - uint (nb_last_update b)\<bar> > NBOR_LAST_SEEN_WINDOW"
    using assms unfolding seen_together_def not_less by blast
  show "compare_neighbours a b \<le> 0 \<longleftrightarrow> better_router a b" "0 \<le> compare_neighbours a b \<longleftrightarrow> better_router b a"
    using c d by (auto simp: compare_neighbours_def better_router_def da_class_def da_class_defs)
qed

lemma better_trans: "better_router a b \<Longrightarrow> better_router b c \<Longrightarrow> better_router a c"
  by (auto simp: better_router_def)

lemma compare_consistent: "seen_together S \<Longrightarrow> consistent compare_neighbours S"
  unfolding consistent_def using compare_better better_trans by (metis (no_types, lifting))

text \<open>The packet is offered to the usable neighbors until one is not refused for its address.\<close>

definition usable :: "da_neighbor \<Rightarrow> bool" where
  "usable n \<longleftrightarrow> \<not> ROUTER_COST_INVALID (nb_cost n)"

definition refused :: "pos_env \<Rightarrow> data_to_send \<Rightarrow> da_neighbor \<Rightarrow> bool" where
  "refused env data n \<longleftrightarrow> pe_send env (data\<lparr>ds_dest_address := nb_address n\<rparr>) = APP_LIB_DATA_SEND_RES_INVALID_DEST_ADDRESS"

definition sent_to :: "pos_env \<Rightarrow> data_to_send \<Rightarrow> da_neighbor \<Rightarrow> pos_call" where
  "sent_to env data n = Send_data (data\<lparr>ds_dest_address := nb_address n\<rparr>)
     (pe_send env (data\<lparr>ds_dest_address := nb_address n\<rparr>) = APP_LIB_DATA_SEND_RES_SUCCESS)"

text \<open>Those the packet is offered to, in order.\<close>

definition offered :: "pos_env \<Rightarrow> data_to_send \<Rightarrow> da_neighbor list \<Rightarrow> da_neighbor list" where
  "offered env data ns = takeWhile (refused env data) ns @ take 1 (dropWhile (refused env data) ns)"

definition answer :: "pos_env \<Rightarrow> data_to_send \<Rightarrow> da_neighbor list \<Rightarrow> data_send_res" where
  "answer env data ns =
     (case dropWhile (refused env data) ns of
        [] \<Rightarrow> APP_LIB_DATA_SEND_RES_INVALID_DEST_ADDRESS
      | n # _ \<Rightarrow> pe_send env (data\<lparr>ds_dest_address := nb_address n\<rparr>))"

lemma retarget [simp]:
  "refused env (data\<lparr>ds_dest_address := a\<rparr>) = refused env data" "sent_to env (data\<lparr>ds_dest_address := a\<rparr>) = sent_to env data"
  by (simp_all add: refused_def sent_to_def fun_eq_iff)

lemma offered_retarget [simp]: "offered env (data\<lparr>ds_dest_address := a\<rparr>) = offered env data"
  unfolding offered_def retarget ..

lemma answer_retarget [simp]: "answer env (data\<lparr>ds_dest_address := a\<rparr>) = answer env data"
proof (rule ext)
  show "answer env (data\<lparr>ds_dest_address := a\<rparr>) ns = answer env data ns" for ns
    unfolding answer_def retarget by (cases "dropWhile (refused env data) ns") (simp_all del: dropWhile_eq_Nil_conv)
qed

lemma answer_Cons:
  "answer env data (n # ns) =
     (if refused env data n then answer env data ns else pe_send env (data\<lparr>ds_dest_address := nb_address n\<rparr>))"
  by (simp add: answer_def)

lemma offered_Cons: "offered env data (n # ns) = (if refused env data n then n # offered env data ns else [n])"
  by (simp add: offered_def)

lemma send_loop_eq:
  assumes "res = APP_LIB_DATA_SEND_RES_INVALID_DEST_ADDRESS"
  shows "fst (send_loop env ns res data w) = answer env data (filter usable ns) \<and>
     co_log (snd (snd (send_loop env ns res data w))) = co_log w @ map (sent_to env data) (offered env data (filter usable ns))"
  using assms
proof (induction ns arbitrary: res data w)
  case Nil
  then show ?case by (simp add: offered_def answer_def)
next
  case (Cons m ns)
  let ?d = "data\<lparr>ds_dest_address := nb_address m\<rparr>"
  consider (bad) "\<not> usable m" | (no) "usable m" "refused env data m" | (ok) "usable m" "\<not> refused env data m" by blast
  then show ?case
  proof cases
    case bad
    then show ?thesis using Cons by (simp add: usable_def)
  next
    case no
    then have m: "pe_send env ?d = APP_LIB_DATA_SEND_RES_INVALID_DEST_ADDRESS" "\<not> ROUTER_COST_INVALID (nb_cost m)"
      "sent_to env data m = Send_data ?d False" by (simp_all add: usable_def refused_def sent_to_def)
    then show ?thesis
      using no Cons.IH [OF HOL.refl, of ?d "w\<lparr>co_log := co_log w @ [Send_data ?d False]\<rparr>"] Cons.prems
      by (simp add: answer_Cons offered_Cons co_send_def co_call_def Let_def)
  next
    case ok
    then show ?thesis using Cons.prems
      by (simp add: answer_Cons offered_Cons) (simp add: usable_def refused_def sent_to_def co_send_def co_call_def Let_def)
  qed
qed

lemma da_send_eq:
  assumes "pl_getNodeRole (pe_lib env) = APP_LIB_SETTINGS_ROLE_ADVERTISER" "ds_dest_address data = APP_ADDR_ANYSINK"
  shows "PosLibDa_sendData env data w =
     send_loop env (da_nbors (update_neigbours env w)) APP_LIB_DATA_SEND_RES_INVALID_DEST_ADDRESS data (update_neigbours env w)"
  using assms by (simp add: PosLibDa_sendData_def Let_def)

lemma mset_two: "mset xs = mset [x, y] \<Longrightarrow> xs = [x, y] \<or> xs = [y, x]"
proof -
  assume m: "mset xs = mset [x, y]"
  then have "length xs = 2" by (metis size_mset length_Cons list.size(3) numeral_2_eq_2)
  then obtain a b where "xs = [a, b]" by (auto simp: numeral_2_eq_2 length_Suc_conv)
  then show ?thesis using m by (auto simp: add_eq_conv_ex)
qed

text \<open>A router passes the message of a tag on after its own header.\<close>

lemma message_relayed:
  assumes "data \<noteq> []" "length data \<le> 94"
    "d = da_packet delay (le16 (da_sequence w) @ [POSLIB_MEAS_DA, of_nat (length data + 4)] @ le32 src @ data)"
  shows "router_pos_data_cb env src delay data w =
     (APP_LIB_DATA_RECEIVE_RES_HANDLED, (w\<lparr>da_sequence := da_sequence w + 1,
        co_log := co_log w @ [Send_data d (pe_send env d = APP_LIB_DATA_SEND_RES_SUCCESS)]\<rparr>))"
  unfolding assms(3) using assms(1,2)
  by (simp add: router_pos_data_cb_def Let_def le16_def le32_def MAX_PAYLOAD_LEN_def co_send_def co_call_def del: of_nat_add)

text \<open>The comparison is not an order when the updates spread over more than the window, and the
  result of \<open>qsort\<close> is then undefined.\<close>

definition da_neighbor_of :: "u32 \<Rightarrow> u16 \<Rightarrow> u8 \<Rightarrow> da_neighbor" where
  "da_neighbor_of a t rssi = \<lparr>nb_address = a, nb_cost = 10, nb_last_update = t, nb_norm_rssi = rssi, nb_diradv_support = 0\<rparr>"

lemma compare_cyclic:
  "compare_neighbours (da_neighbor_of 1 0 1) (da_neighbor_of 3 4 3) < 0" "compare_neighbours (da_neighbor_of 3 4 3) (da_neighbor_of 2 2 2) < 0"
  "compare_neighbours (da_neighbor_of 2 2 2) (da_neighbor_of 1 0 1) < 0"
  by (simp_all add: compare_neighbours_def da_neighbor_of_def da_class_defs NBOR_LAST_SEEN_WINDOW_def)

subsection \<open>Properties\<close>


text \<open>Of three neighbors the strongest has no route, and the next is refused.\<close>

definition da_env_example :: pos_env where
  "da_env_example = pos_env_example\<lparr>pe_lib := pos_lib_example\<lparr>pl_getNodeRole := 4\<rparr>, pe_qsort := isort_by,
     pe_send := (\<lambda>d. if ds_dest_address d = 3 then APP_LIB_DATA_SEND_RES_INVALID_DEST_ADDRESS else APP_LIB_DATA_SEND_RES_SUCCESS),
     pe_nbors := [da_neighbor_of 1 1 (- 60), (da_neighbor_of 2 2 90)\<lparr>nb_cost := 255\<rparr>, da_neighbor_of 3 0 40]\<rparr>"

definition da_boot :: pos_da where
  "da_boot = pos_meas.extend meas_boot (pos_da.fields False False 0 [])"


end
