(* ===== verification/Pos_Control.thy ===== *)
theory Pos_Control
  imports Pos_Da
begin

text \<open>
  \<open>libraries/positioning/poslib/poslib_control.c\<close> and \<open>libraries/positioning/poslib.c\<close>: the
  periodic update of a node.  A task triggers a scan, the end of the scan sends the message
  with the measurements, and the next update is scheduled.  The state \<open>pos_ctrl\<close> extends the
  ones of the other modules; the shared offline and app config libraries are parameters of
  \<open>pos_env\<close>, calls of them are logged.  The option \<open>ROUTE_CHECK\<close> is off.
\<close>

subsection \<open>State\<close>

text \<open>Two flags of the events that nothing uses are left out.\<close>

record control_events =
  ce_online :: bool
  ce_offline :: bool
  ce_scan_start :: bool
  ce_scan_end :: bool
  ce_data_sent :: bool
  ce_data_sent_complete :: bool
  ce_app_cfg :: bool
  ce_timeout :: bool
  ce_oneshot :: bool
  ce_sent_success :: bool
  ce_scan_fail :: bool
  ce_is_static :: bool

datatype poslib_state = POSLIB_STATE_STOPPED | POSLIB_STATE_IDLE | POSLIB_STATE_UPDATE

record control_state =
  cs_state :: poslib_state
  cs_mode :: u8
  cs_scheduled :: bool
  cs_outside_wm :: bool
  cs_sequence :: u16
  cs_events :: control_events
  cs_last_update_s :: u32
  cs_next_update_s :: u32
  cs_update_start_hp :: u32

record pos_ctrl = pos_da +
  ct_motion_mode :: u8
  ct_settings :: pos_settings
  ct_aux :: pos_aux
  ct_offline_reg :: bool
  ct_offline_id :: u16
  ct_appcfg_reg :: bool
  ct_appcfg_id :: u16
  ct_legacy_reg :: bool
  ct_legacy_id :: u16
  ct_appcfg :: "u8 list"
  ct_appcfg_len :: u8
  ct_started :: bool
  ct_configured :: bool
  ct_init :: bool
  ct_ctrl :: control_state
  ct_sent_success :: bool
  ct_timeout_type :: poslib_event

definition TIMEOUT_APPCFG_MS :: u32 where "TIMEOUT_APPCFG_MS = 30000"
definition TIMEOUT_SCAN_MS :: u32 where "TIMEOUT_SCAN_MS = 60000"
definition POSLIB_TLV_TYPE :: u16 where "POSLIB_TLV_TYPE = 0xC1"
definition APP_CONFIG_NUM_BYTES :: nat where "APP_CONFIG_NUM_BYTES = 80"
definition POSLIB_MOTION_STATIC :: u8 where "POSLIB_MOTION_STATIC = 1"
definition POSLIB_MOTION_DYNAMIC :: u8 where "POSLIB_MOTION_DYNAMIC = 2"
definition APP_LIB_BEACON_TX_MIN_INTERVAL :: u16 where "APP_LIB_BEACON_TX_MIN_INTERVAL = 100"
definition APP_LIB_BEACON_TX_CHANNELS_ALL :: u8 where "APP_LIB_BEACON_TX_CHANNELS_ALL = 6"

definition no_events :: control_events where
  "no_events = \<lparr>ce_online = False, ce_offline = False, ce_scan_start = False, ce_scan_end = False, ce_data_sent = False,
     ce_data_sent_complete = False, ce_app_cfg = False, ce_timeout = False, ce_oneshot = False, ce_sent_success = False,
     ce_scan_fail = False, ce_is_static = False\<rparr>"

abbreviation map_ctrl :: "(control_state \<Rightarrow> control_state) \<Rightarrow> 'a pos_ctrl_scheme \<Rightarrow> 'a pos_ctrl_scheme" where
  "map_ctrl f w \<equiv> w\<lparr>ct_ctrl := f (ct_ctrl w)\<rparr>"

abbreviation map_events :: "(control_events \<Rightarrow> control_events) \<Rightarrow> 'a pos_ctrl_scheme \<Rightarrow> 'a pos_ctrl_scheme" where
  "map_events f w \<equiv> map_ctrl (\<lambda>c. c\<lparr>cs_events := f (cs_events c)\<rparr>) w"

abbreviation add_event :: "pos_env \<Rightarrow> poslib_event \<Rightarrow> 'a pos_core_scheme \<Rightarrow> 'a pos_core_scheme option" where
  "add_event env t w \<equiv> map_option snd (PosLibEvent_add (pe_time env) t w)"

subsection \<open>Callbacks\<close>

definition on_offline_cb :: "pos_env \<Rightarrow> u32 \<Rightarrow> 'a pos_ctrl_scheme \<Rightarrow> 'a pos_ctrl_scheme option" where
  "on_offline_cb env delay_s w = add_event env POSLIB_CTRL_EVENT_OFFLINE w"

definition on_online_cb :: "pos_env \<Rightarrow> u32 \<Rightarrow> 'a pos_ctrl_scheme \<Rightarrow> 'a pos_ctrl_scheme option" where
  "on_online_cb env delay_from_deadline_s w = add_event env POSLIB_CTRL_EVENT_ONLINE w"

definition data_send_cb :: "pos_env \<Rightarrow> bool \<Rightarrow> 'a pos_ctrl_scheme \<Rightarrow> 'a pos_ctrl_scheme option" where
  "data_send_cb env success w = add_event env POSLIB_CTRL_EVENT_DATA_SENT (w\<lparr>ct_sent_success := success\<rparr>)"

definition led_off_cb :: "pos_env \<Rightarrow> 'a pos_ctrl_scheme \<Rightarrow> (u32 \<times> 'a pos_ctrl_scheme) option" where
  "led_off_cb env w =
     map_option (\<lambda>w. (APP_SCHEDULER_STOP_TASK, w\<lparr>ct_aux := (ct_aux w)\<lparr>ax_led_on_duration_s := 0\<rparr>\<rparr>)) (add_event env POSLIB_CTRL_EVENT_LED_OFF w)"

definition process_led_status :: "pos_env \<Rightarrow> 'a pos_ctrl_scheme \<Rightarrow> 'a pos_ctrl_scheme option" where
  "process_led_status env w =
     (if ax_led_on_duration_s (ct_aux w) = 0
      then map_option (co_cancelTask ''led_off_cb'') (add_event env POSLIB_CTRL_EVENT_LED_OFF w)
      else map_option (\<lambda>w. snd (co_addTask (pe_time env) ''led_off_cb'' (ucast (ax_led_on_duration_s (ct_aux w)) * 1000) 500 w))
             (add_event env POSLIB_CTRL_EVENT_LED_ON w))"

definition process_appcfg :: "pos_env \<Rightarrow> 'a pos_ctrl_scheme \<Rightarrow> 'a pos_ctrl_scheme option" where
  "process_appcfg env w =
     do {
       d \<leftarrow> PosLibDecode_config (pe_lib env) (ct_appcfg w) (ucast (ct_appcfg_len w)) (ct_settings w) (ct_aux w);
       let w = (if dc_otap d then co_call Otap_started w else w);
       if dc_ret d
       then do {
         w \<leftarrow> (if ct_settings w \<noteq> dc_settings d
               then add_event env POSLIB_CTRL_EVENT_CONFIG_CHANGE (w\<lparr>ct_settings := dc_settings d\<rparr>) else Some w);
         if ax_led_cmd_seq (dc_aux d) \<noteq> ax_led_cmd_seq (ct_aux w)
         then process_led_status env (w\<lparr>ct_aux := dc_aux d\<rparr>) else Some w
       }
       else Some w
     }"

definition appconfig_cb :: "pos_env \<Rightarrow> u16 \<Rightarrow> u8 list \<Rightarrow> 'a pos_ctrl_scheme \<Rightarrow> 'a pos_ctrl_scheme option" where
  "appconfig_cb env types bytes w =
     (if types = POSLIB_TLV_TYPE
      then do {
        buf \<leftarrow> wr_bytes (ct_appcfg w) 0 bytes;
        add_event env POSLIB_CTRL_EVENT_APPCFG (w\<lparr>ct_appcfg := buf, ct_appcfg_len := of_nat (length bytes)\<rparr>)
      }
      else Some w)"

definition appconfig_legacy_cb :: "pos_env \<Rightarrow> u16 \<Rightarrow> 'a pos_ctrl_scheme \<Rightarrow> 'a pos_ctrl_scheme option" where
  "appconfig_legacy_cb env types w =
     (if types = SHARED_APP_CONFIG_INCOMPATIBLE_FILTER then add_event env POSLIB_CTRL_EVENT_APPCFG (w\<lparr>ct_appcfg_len := 0\<rparr>) else Some w)"

definition ctrl_register_callbacks :: "pos_env \<Rightarrow> 'a pos_ctrl_scheme \<Rightarrow> bool \<times> 'a pos_ctrl_scheme" where
  "ctrl_register_callbacks env w =
     (let (ret1, w) =
            (if \<not> ct_appcfg_reg w
             then case pe_appcfg_addFilter env POSLIB_TLV_TYPE of
                    (res, i) \<Rightarrow> (res = SHARED_APP_CONFIG_RES_OK, w\<lparr>ct_appcfg_id := i, ct_appcfg_reg := (res = SHARED_APP_CONFIG_RES_OK)\<rparr>)
             else (True, w));
          (ret2, w) =
            (if \<not> ct_legacy_reg w
             then case pe_appcfg_addFilter env SHARED_APP_CONFIG_INCOMPATIBLE_FILTER of
                    (res, i) \<Rightarrow> (res = SHARED_APP_CONFIG_RES_OK, w\<lparr>ct_legacy_id := i, ct_legacy_reg := (res = SHARED_APP_CONFIG_RES_OK)\<rparr>)
             else (True, w))
      in (ret1 \<and> ret2, w))"

definition ctrl_deregister_callbacks :: "'a pos_ctrl_scheme \<Rightarrow> 'a pos_ctrl_scheme" where
  "ctrl_deregister_callbacks w =
     (let w = (if ct_appcfg_reg w then (co_call (Remove_filter ''appconfig_cb'') w)\<lparr>ct_appcfg_reg := False\<rparr> else w)
      in if ct_legacy_reg w then (co_call (Remove_filter ''appconfig_legacy_cb'') w)\<lparr>ct_legacy_reg := False\<rparr> else w)"

subsection \<open>Checks of the settings\<close>

definition check_params :: "pos_settings \<Rightarrow> poslib_ret" where
  "check_params s =
     (if ps_update_period_static_s s < POSLIB_MIN_MEAS_RATE_S \<or> ps_update_period_static_s s > POSLIB_MAX_MEAS_RATE_S
      then POS_RET_INVALID_PARAM
      else if ps_update_period_dynamic_s s > POSLIB_MAX_MEAS_RATE_S \<or>
              (ps_update_period_dynamic_s s < POSLIB_MIN_MEAS_RATE_S \<and> ps_update_period_dynamic_s s \<noteq> 0)
      then POS_RET_INVALID_PARAM
      else if ps_update_period_offline_s s > POSLIB_MAX_MEAS_RATE_S \<or>
              (ps_update_period_offline_s s < POSLIB_MIN_MEAS_RATE_S \<and> ps_update_period_offline_s s \<noteq> 0)
      then POS_RET_INVALID_PARAM
      else POS_RET_OK)"

definition check_role :: "pos_env \<Rightarrow> pos_settings \<Rightarrow> poslib_ret" where
  "check_role env s =
     (let role = pl_getNodeRole (pe_lib env); mode = ps_node_mode s
      in if mode = POSLIB_MODE_AUTOSCAN_ANCHOR \<or> mode = POSLIB_MODE_OPPORTUNISTIC_ANCHOR
         then if role = 0x11 \<or> role = 0x01 \<or> role = 0x10 \<or> role = 0x00 \<or>
                 (role = 0x02 \<and> mc_enabled (ps_mbcn s)) \<or> (role = 0x12 \<and> mc_enabled (ps_mbcn s))
              then POS_RET_OK else POS_RET_INVALID_PARAM
         else if mode = POSLIB_MODE_NRLS_TAG \<or> mode = POSLIB_MODE_AUTOSCAN_TAG
         then if role \<noteq> 0x02 \<and> role \<noteq> 0x12 then POS_RET_INVALID_PARAM else POS_RET_OK
         else if mode = POSLIB_MODE_DA_TAG
         then if role \<noteq> APP_LIB_SETTINGS_ROLE_ADVERTISER then POS_RET_INVALID_PARAM else POS_RET_OK
         else POS_RET_INVALID_PARAM)"

definition ble_config_ok :: "ble_mode_config \<Rightarrow> bool" where
  "ble_config_ok c \<longleftrightarrow> \<not> (ucast (bm_tx_interval_ms c) > APP_LIB_BEACON_TX_MAX_INTERVAL \<or>
     bm_tx_interval_ms c < APP_LIB_BEACON_TX_MIN_INTERVAL \<or> bm_channels c > APP_LIB_BEACON_TX_CHANNELS_ALL)"

definition check_ble_params :: "pos_settings \<Rightarrow> poslib_ret" where
  "check_ble_params s =
     (let ble_type = bl_type (ps_ble s)
      in if ble_type \<noteq> POSLIB_BEACON_ALL \<and> ble_type \<noteq> POSLIB_IBEACON \<and> ble_type \<noteq> POSLIB_EDDYSTONE then POS_RET_INVALID_PARAM
         else if (ble_type = POSLIB_EDDYSTONE \<or> ble_type = POSLIB_BEACON_ALL) \<and> \<not> ble_config_ok (bl_eddystone (ps_ble s)) then POS_RET_INVALID_PARAM
         else if (ble_type = POSLIB_IBEACON \<or> ble_type = POSLIB_BEACON_ALL) \<and> \<not> ble_config_ok (bl_ibeacon (ps_ble s)) then POS_RET_INVALID_PARAM
         else POS_RET_OK)"

definition check_ctrl_params :: "pos_env \<Rightarrow> pos_settings \<Rightarrow> poslib_ret" where
  "check_ctrl_params env s =
     (if check_role env s = POS_RET_INVALID_PARAM then POS_RET_INVALID_PARAM
      else if check_ble_params s = POS_RET_INVALID_PARAM then POS_RET_INVALID_PARAM
      else if check_params s = POS_RET_INVALID_PARAM then POS_RET_INVALID_PARAM
      else POS_RET_OK)"

subsection \<open>Shared offline\<close>

definition shared_offline_register :: "pos_env \<Rightarrow> 'a pos_ctrl_scheme \<Rightarrow> bool \<times> 'a pos_ctrl_scheme" where
  "shared_offline_register env w =
     (let w = (if \<not> ct_offline_reg w
               then case pe_offline_register env of
                      (res, i) \<Rightarrow> w\<lparr>ct_offline_id := ucast i, ct_offline_reg := (res = SHARED_OFFLINE_RES_OK)\<rparr>
               else w)
      in (ct_offline_reg w, w))"

definition shared_offline_unregister :: "pos_env \<Rightarrow> 'a pos_ctrl_scheme \<Rightarrow> bool \<times> 'a pos_ctrl_scheme" where
  "shared_offline_unregister env w =
     (let w = (if ct_offline_reg w \<and> pe_offline_unregister env = SHARED_OFFLINE_RES_OK then w\<lparr>ct_offline_reg := False\<rparr> else w)
      in (ct_offline_reg w, w))"

subsection \<open>Scheduling\<close>

definition control_init :: "pos_env \<Rightarrow> 'a pos_ctrl_scheme \<Rightarrow> 'a pos_ctrl_scheme" where
  "control_init env w =
     (if \<not> ct_init w
      then w\<lparr>ct_ctrl := \<lparr>cs_state = POSLIB_STATE_STOPPED, cs_mode = 0, cs_scheduled = False, cs_outside_wm = False, cs_sequence = 0,
               cs_events = no_events, cs_last_update_s = pe_now_s env - 1, cs_next_update_s = pe_now_s env - 1, cs_update_start_hp = 0\<rparr>,
             ct_motion_mode := POSLIB_MOTION_STATIC, ct_init := True,
             ct_aux := \<lparr>ax_led_on_duration_s = 0, ax_led_cmd_seq = 0\<rparr>\<rparr>
      else w)"

definition stop_tasks :: "'a pos_ctrl_scheme \<Rightarrow> 'a pos_ctrl_scheme" where
  "stop_tasks w = co_cancelTask ''timeout_task'' (co_cancelTask ''trigger_update_task'' w)"

definition set_timeout :: "pos_env \<Rightarrow> poslib_event \<Rightarrow> u32 \<Rightarrow> 'a pos_ctrl_scheme \<Rightarrow> 'a pos_ctrl_scheme" where
  "set_timeout env type timeout_ms w = snd (co_addTask (pe_time env) ''timeout_task'' timeout_ms 500 (w\<lparr>ct_timeout_type := type\<rparr>))"

definition clear_timeout :: "'a pos_ctrl_scheme \<Rightarrow> 'a pos_ctrl_scheme" where
  "clear_timeout w = co_cancelTask ''timeout_task'' w"

definition update_autoscan :: "pos_env \<Rightarrow> u32 \<Rightarrow> 'a pos_ctrl_scheme \<Rightarrow> bool \<times> 'a pos_ctrl_scheme" where
  "update_autoscan env delta_s w =
     co_addTask (pe_time env) ''trigger_update_task'' (if delta_s = 0 then APP_SCHEDULER_SCHEDULE_ASAP else delta_s * 1000) 500 w"

definition update_nrls :: "pos_env \<Rightarrow> u32 \<Rightarrow> 'a pos_ctrl_scheme \<Rightarrow> bool \<times> 'a pos_ctrl_scheme" where
  "update_nrls env delta_s w =
     (case shared_offline_register env w of
        (False, w) \<Rightarrow> (False, w)
      | (True, w) \<Rightarrow> (pe_enter_offline env delta_s = SHARED_OFFLINE_RES_OK, co_call (Enter_offline delta_s) w))"

definition get_update_period :: "'a pos_ctrl_scheme \<Rightarrow> u32" where
  "get_update_period w =
     (let s = ct_settings w
      in if cs_outside_wm (ct_ctrl w) \<and> ps_update_period_offline_s s \<noteq> 0 then ps_update_period_offline_s s
         else if mo_enabled (ps_motion s) \<and> ct_motion_mode w = POSLIB_MOTION_DYNAMIC \<and> ps_update_period_dynamic_s s \<noteq> 0
         then ps_update_period_dynamic_s s
         else ps_update_period_static_s s)"

definition scheduled_state :: "u32 \<Rightarrow> 'a pos_ctrl_scheme \<Rightarrow> 'a pos_ctrl_scheme" where
  "scheduled_state next_update_s w =
     (let w = stop_tasks w
      in map_ctrl (\<lambda>c. c\<lparr>cs_sequence := cs_sequence c + 1, cs_state := POSLIB_STATE_IDLE, cs_mode := ps_node_mode (ct_settings w), cs_scheduled := True,
           cs_events := no_events\<lparr>ce_is_static := ct_motion_mode w = POSLIB_MOTION_STATIC \<and> mo_enabled (ps_motion (ct_settings w))\<rparr>,
           cs_next_update_s := next_update_s\<rparr>) w)"

definition new_schedule :: "pos_env \<Rightarrow> u32 \<Rightarrow> u32 \<Rightarrow> 'a pos_ctrl_scheme \<Rightarrow> 'a pos_ctrl_scheme option" where
  "new_schedule env next_update_s delta_s w =
     (let w = scheduled_state next_update_s w;
          mode = cs_mode (ct_ctrl w)
      in if mode = POSLIB_MODE_NRLS_TAG
         then map_option (\<lambda>w. snd (update_nrls env delta_s w)) (PosLibMeas_opportunisticScan env True w)
         else if mode = POSLIB_MODE_AUTOSCAN_TAG \<or> mode = POSLIB_MODE_AUTOSCAN_ANCHOR \<or> mode = POSLIB_MODE_DA_TAG
         then map_option (\<lambda>w. snd (update_autoscan env delta_s w)) (PosLibMeas_opportunisticScan env False w)
         else if mode = POSLIB_MODE_OPPORTUNISTIC_ANCHOR
         then map_option (map_ctrl (\<lambda>c. c\<lparr>cs_next_update_s := 0\<rparr>)) (PosLibMeas_opportunisticScan env True w)
         else Some w)"

text \<open>A period of 0 is a division by zero.\<close>

definition schedule_next :: "pos_env \<Rightarrow> bool \<Rightarrow> 'a pos_ctrl_scheme \<Rightarrow> 'a pos_ctrl_scheme option" where
  "schedule_next env update_now w =
     (let now_s = pe_now_s env;
          period = get_update_period w;
          scheduled = cs_scheduled (ct_ctrl w)
      in if cs_state (ct_ctrl w) = POSLIB_STATE_STOPPED \<and> \<not> update_now then Some (map_ctrl (\<lambda>c. c\<lparr>cs_scheduled := False\<rparr>) w)
         else if \<not> update_now \<and> period = 0 then None
         else
           let next_update_s = (if update_now then now_s else now_s + period - (now_s - cs_last_update_s (ct_ctrl w)) mod period)
           in if \<not> update_now \<and> scheduled \<and> next_update_s > cs_next_update_s (ct_ctrl w) then Some w
              else
                let delta_s = next_update_s - now_s
                in if scheduled
                   then if next_update_s \<noteq> cs_next_update_s (ct_ctrl w)
                        then Some (snd (update_autoscan env delta_s (map_ctrl (\<lambda>c. c\<lparr>cs_next_update_s := next_update_s\<rparr>) w)))
                        else Some w
                   else new_schedule env next_update_s delta_s w)"

subsection \<open>Measurements\<close>

definition get_meas_type :: "'a pos_ctrl_scheme \<Rightarrow> u8" where
  "get_meas_type w =
     (let mode = ps_node_mode (ct_settings w)
      in if mode = POSLIB_MODE_AUTOSCAN_ANCHOR \<or> mode = POSLIB_MODE_OPPORTUNISTIC_ANCHOR then 0xF5 else 0x05)"

definition get_node_info :: "'a pos_ctrl_scheme \<Rightarrow> node_info" where
  "get_node_info w =
     (let s = ct_settings w;
          flag = (\<lambda>b v. if b then v else (0 :: u32))
      in \<lparr>ni_update_s = get_update_period w,
          ni_features = 1 OR flag (mo_enabled (ps_motion s)) 0x10 OR flag (ce_is_static (cs_events (ct_ctrl w))) 0x20 OR
            flag (bb_eddystone_enabled w) 0x40 OR flag (bb_ibeacon_enabled w) 0x80 OR flag (da_routing_enabled (ps_da s)) 0x100,
          ni_node_mode = ps_node_mode s, ni_node_class = ps_node_class s\<rparr>)"

text \<open>The fields of the packet that its flags leave unused, and are not set, are 0.\<close>

definition meas_packet :: "u8 list \<Rightarrow> data_to_send" where
  "meas_packet bytes = (da_packet 0 bytes)\<lparr>ds_flags := 1\<rparr>"

definition send_measurement_message :: "pos_env \<Rightarrow> 'a pos_ctrl_scheme \<Rightarrow> nat \<times> 'a pos_ctrl_scheme" where
  "send_measurement_message env w =
     (let w = w\<lparr>ct_sent_success := False\<rparr>
      in if pe_free_buffers env = 0 then (0, w)
         else
           case PosLibMeas_getPayload env MAX_PAYLOAD_LEN (ucast (cs_sequence (ct_ctrl w))) (get_meas_type w)
             (bd_voltage (pl_build (pe_lib env))) (Some (get_node_info w)) w of
             ((True, bytes, num_meas), w) \<Rightarrow>
               let (rc, w) = (if pl_getNodeRole (pe_lib env) = APP_LIB_SETTINGS_ROLE_ADVERTISER
                              then case PosLibDa_sendData env (meas_packet bytes) w of (rc, _, w) \<Rightarrow> (rc, w)
                              else co_send env (meas_packet bytes) w)
               in (num_meas, map_events (\<lambda>e. e\<lparr>ce_data_sent := (rc = APP_LIB_DATA_SEND_RES_SUCCESS)\<rparr>) w)
           | ((False, _, num_meas), w) \<Rightarrow> (num_meas, w))"

definition get_scan_duration :: "'a pos_ctrl_scheme \<Rightarrow> u32" where
  "get_scan_duration w =
     (let m = ps_mbcn (ct_settings w)
      in if mc_enabled m \<and> mc_tx_interval_ms m < 1000 then ucast (mc_tx_interval_ms m) + ucast (mc_tx_interval_ms m) div 2 else 0)"

text \<open>The mode of the scan is \<open>SCAN_MODE_STANDARD\<close>.\<close>

definition trigger_update_task :: "pos_env \<Rightarrow> 'a pos_ctrl_scheme \<Rightarrow> (u32 \<times> 'a pos_ctrl_scheme) option" where
  "trigger_update_task env w =
     (let (_, w) = shared_offline_register env w;
          offline = (pe_offline_status env = SHARED_OFFLINE_STATUS_OFFLINE);
          w = (if offline then co_call Enter_online w else w)
      in if offline \<and> pe_enter_online env = SHARED_OFFLINE_RES_OK then Some (APP_SCHEDULER_SCHEDULE_ASAP, w)
         else if offline \<and> pe_enter_online env \<noteq> SHARED_OFFLINE_RES_ALREADY_ONLINE then Some (APP_SCHEDULER_STOP_TASK, w)
         else map_option (\<lambda>(_, w). (APP_SCHEDULER_STOP_TASK, w)) (PosLibMeas_startScan env 1 (get_scan_duration w) w))"

subsection \<open>Events\<close>

definition is_update_completed :: "control_state \<Rightarrow> bool" where
  "is_update_completed c \<longleftrightarrow>
     (let e = cs_events c
      in if ce_scan_fail e \<or> ce_timeout e then True
         else if cs_mode c = POSLIB_MODE_NRLS_TAG then ce_data_sent e \<and> ce_app_cfg e \<and> ce_data_sent_complete e
         else ce_data_sent e)"

definition update_outside_wm :: "pos_env \<Rightarrow> 'a pos_ctrl_scheme \<Rightarrow> 'a pos_ctrl_scheme option" where
  "update_outside_wm env w =
     (let bcn = PosLibMeas_getBeaconNum w
      in if bcn = 0 \<and> \<not> cs_outside_wm (ct_ctrl w)
         then map_option (map_ctrl (\<lambda>c. c\<lparr>cs_outside_wm := True\<rparr>)) (add_event env POSLIB_CTRL_EVENT_OUTSIDE_WM w)
         else if bcn > 0 \<and> cs_outside_wm (ct_ctrl w)
         then map_option (map_ctrl (\<lambda>c. c\<lparr>cs_outside_wm := False\<rparr>)) (add_event env POSLIB_CTRL_EVENT_UNDER_WM w)
         else Some w)"

definition is_scan_valid :: "'a pos_ctrl_scheme \<Rightarrow> bool" where
  "is_scan_valid w \<longleftrightarrow> PosLibMeas_getBeaconNum w > 0"

definition scan_ended :: "pos_env \<Rightarrow> 'a pos_ctrl_scheme \<Rightarrow> 'a pos_ctrl_scheme option" where
  "scan_ended env w =
     map_option (\<lambda>w.
         if is_scan_valid w
         then set_timeout env POSLIB_CTRL_EVENT_APPCFG TIMEOUT_APPCFG_MS
                (map_events (\<lambda>e. e\<lparr>ce_scan_fail := False\<rparr>) (snd (send_measurement_message env w)))
         else map_events (\<lambda>e. e\<lparr>ce_scan_fail := True\<rparr>) w)
       (update_outside_wm env (clear_timeout (map_events (\<lambda>e. e\<lparr>ce_scan_end := True\<rparr>) w)))"

definition motion_noted :: "'a pos_ctrl_scheme \<Rightarrow> 'a pos_ctrl_scheme" where
  "motion_noted w = (if ct_motion_mode w = POSLIB_MOTION_DYNAMIC then map_events (\<lambda>e. e\<lparr>ce_is_static := False\<rparr>) w else w)"

definition complete_update :: "pos_env \<Rightarrow> 'a pos_ctrl_scheme \<Rightarrow> 'a pos_ctrl_scheme option" where
  "complete_update env w =
     (if is_update_completed (ct_ctrl w)
      then do {
        w \<leftarrow> add_event env POSLIB_CTRL_EVENT_UPDATE_END
               (map_ctrl (\<lambda>c. c\<lparr>cs_scheduled := False, cs_last_update_s := cs_next_update_s c\<rparr>) w);
        schedule_next env False w
      }
      else Some w)"

definition handle_update_state :: "pos_env \<Rightarrow> poslib_event \<Rightarrow> 'a pos_ctrl_scheme \<Rightarrow> 'a pos_ctrl_scheme option" where
  "handle_update_state env t w =
     do {
       w \<leftarrow> (case t of
               POSLIB_CTRL_EVENT_SCAN_END \<Rightarrow> scan_ended env w
             | POSLIB_CTRL_EVENT_APPCFG \<Rightarrow> map_option (map_events (\<lambda>e. e\<lparr>ce_app_cfg := True\<rparr>)) (process_appcfg env w)
             | POSLIB_CTRL_EVENT_DATA_SENT \<Rightarrow>
                 Some (map_events (\<lambda>e. e\<lparr>ce_data_sent_complete := True, ce_sent_success := ct_sent_success w\<rparr>) w)
             | POSLIB_CTRL_EVENT_MOTION \<Rightarrow> Some (motion_noted w)
             | POSLIB_CTRL_EVENT_TIMEOUT \<Rightarrow> Some (map_events (\<lambda>e. e\<lparr>ce_timeout := True\<rparr>) w)
             | _ \<Rightarrow> Some w);
       complete_update env w
     }"

definition handle_stopped_state :: "pos_env \<Rightarrow> poslib_event \<Rightarrow> 'a pos_ctrl_scheme \<Rightarrow> 'a pos_ctrl_scheme option" where
  "handle_stopped_state env t w =
     (if \<not> ct_started w \<and> ct_configured w \<and> t = POSLIB_CTRL_EVENT_ONESHOT
      then schedule_next env True (map_events (\<lambda>e. e\<lparr>ce_oneshot := True\<rparr>) w)
      else Some w)"

definition update_started :: "pos_env \<Rightarrow> 'a pos_ctrl_scheme \<Rightarrow> 'a pos_ctrl_scheme" where
  "update_started env w =
     set_timeout env POSLIB_CTRL_EVENT_SCAN_END TIMEOUT_SCAN_MS
       (map_ctrl (\<lambda>c. c\<lparr>cs_update_start_hp := now_hp (co_sched w), cs_state := POSLIB_STATE_UPDATE\<rparr>) w)"

definition handle_idle_state :: "pos_env \<Rightarrow> poslib_event \<Rightarrow> 'a pos_ctrl_scheme \<Rightarrow> 'a pos_ctrl_scheme option" where
  "handle_idle_state env t w =
     (case t of
        POSLIB_CTRL_EVENT_SCAN_STARTED \<Rightarrow> Some (update_started env (map_events (\<lambda>e. e\<lparr>ce_scan_start := True\<rparr>) w))
      | POSLIB_CTRL_EVENT_SCAN_END \<Rightarrow>
          if cs_scheduled (ct_ctrl w)
          then handle_update_state env t
                 (map_ctrl (\<lambda>c. c\<lparr>cs_state := POSLIB_STATE_UPDATE, cs_events := (cs_events c)\<lparr>ce_scan_end := True\<rparr>\<rparr>) w)
          else Some w
      | POSLIB_CTRL_EVENT_ONLINE \<Rightarrow> Some (update_started env (map_events (\<lambda>e. e\<lparr>ce_online := True\<rparr>) w))
      | POSLIB_CTRL_EVENT_OFFLINE \<Rightarrow>
          Some (if cs_scheduled (ct_ctrl w)
                then PosLibMeas_clearMeas (map_events (\<lambda>e. e\<lparr>ce_offline := True, ce_app_cfg := False\<rparr>) w)
                else map_events (\<lambda>e. e\<lparr>ce_offline := True\<rparr>) w)
      | POSLIB_CTRL_EVENT_CONFIG_CHANGE \<Rightarrow> do {
          let w = (if \<not> mo_enabled (ps_motion (ct_settings w)) then w\<lparr>ct_motion_mode := POSLIB_MOTION_STATIC\<rparr> else w);
          (_, w) \<leftarrow> PosLibBle_start env (ps_ble (ct_settings w)) w;
          schedule_next env False w
        }
      | POSLIB_CTRL_EVENT_ONESHOT \<Rightarrow> schedule_next env True (map_events (\<lambda>e. e\<lparr>ce_oneshot := True\<rparr>) w)
      | POSLIB_CTRL_EVENT_APPCFG \<Rightarrow> map_option (map_events (\<lambda>e. e\<lparr>ce_app_cfg := True\<rparr>)) (process_appcfg env w)
      | POSLIB_CTRL_EVENT_MOTION \<Rightarrow> schedule_next env False (motion_noted w)
      | _ \<Rightarrow> Some w)"

definition PosLibCtrl_processEvent :: "pos_env \<Rightarrow> poslib_event \<Rightarrow> 'a pos_ctrl_scheme \<Rightarrow> 'a pos_ctrl_scheme option" where
  "PosLibCtrl_processEvent env t w =
     (case cs_state (ct_ctrl w) of
        POSLIB_STATE_STOPPED \<Rightarrow> handle_stopped_state env t w
      | POSLIB_STATE_IDLE \<Rightarrow> handle_idle_state env t w
      | POSLIB_STATE_UPDATE \<Rightarrow> handle_update_state env t w)"

definition timeout_task :: "pos_env \<Rightarrow> 'a pos_ctrl_scheme \<Rightarrow> (u32 \<times> 'a pos_ctrl_scheme) option" where
  "timeout_task env w = map_option (Pair APP_SCHEDULER_STOP_TASK) (PosLibCtrl_processEvent env POSLIB_CTRL_EVENT_TIMEOUT w)"

text \<open>What the task \<open>handle_events\<close> does with an event before it makes the public events.\<close>

definition process_event :: "pos_env \<Rightarrow> poslib_event \<Rightarrow> 'a pos_ctrl_scheme \<Rightarrow> 'a pos_ctrl_scheme option" where
  "process_event env t w = do { w \<leftarrow> PosLibCtrl_processEvent env t w; PosLibBle_processEvent env t w }"

subsection \<open>The interface\<close>

definition PosLibCtrl_setConfig :: "pos_env \<Rightarrow> pos_settings \<Rightarrow> 'a pos_ctrl_scheme \<Rightarrow> (poslib_ret \<times> 'a pos_ctrl_scheme) option" where
  "PosLibCtrl_setConfig env settings w =
     (let ret = check_ctrl_params env settings
      in if ret \<noteq> POS_RET_OK then Some (ret, w)
         else
           let change = (\<not> ct_configured w \<or> ct_settings w \<noteq> settings);
               w = (if change then w\<lparr>ct_settings := settings\<rparr> else w)\<lparr>ct_configured := True\<rparr>
           in map_option (Pair POS_RET_OK)
                (if ct_started w \<and> change then add_event env POSLIB_CTRL_EVENT_CONFIG_CHANGE w else Some w))"

definition delayed_start :: "pos_env \<Rightarrow> 'a pos_ctrl_scheme \<Rightarrow> (u32 \<times> 'a pos_ctrl_scheme) option" where
  "delayed_start env w = map_option (Pair APP_SCHEDULER_STOP_TASK) (schedule_next env False w)"

definition PosLibCtrl_startPeriodic :: "pos_env \<Rightarrow> 'a pos_ctrl_scheme \<Rightarrow> (poslib_ret \<times> 'a pos_ctrl_scheme) option" where
  "PosLibCtrl_startPeriodic env w =
     (if \<not> ct_configured w then Some (POS_RET_NOT_CONFIGURED, w)
      else if ct_started w then Some (POS_RET_INVALID_STATE, w)
      else case ctrl_register_callbacks env (control_init env w) of
        (False, w) \<Rightarrow> Some (POS_RET_LIB_ERROR, w)
      | (True, w) \<Rightarrow> do {
          let w = (map_ctrl (\<lambda>c. c\<lparr>cs_state := POSLIB_STATE_IDLE\<rparr>) w)\<lparr>ct_started := True\<rparr>;
          let w = snd (co_addTask (pe_time env) ''delayed_start'' 5000 500 w);
          (_, w) \<leftarrow> PosLibBle_start env (ps_ble (ct_settings w)) w;
          w \<leftarrow> (if is_node_mode_anchor (ps_node_mode (ct_settings w))
                then map_option snd (PosLibMbcn_start env (ps_mbcn (ct_settings w)) w) else Some w);
          Some (POS_RET_OK, snd (PosLibDa_start env (ct_settings w) w))
        })"

definition PosLibCtrl_startOneshot :: "pos_env \<Rightarrow> 'a pos_ctrl_scheme \<Rightarrow> (poslib_ret \<times> 'a pos_ctrl_scheme) option" where
  "PosLibCtrl_startOneshot env w =
     (if \<not> ct_configured w then Some (POS_RET_NOT_CONFIGURED, w)
      else case ctrl_register_callbacks env (control_init env w) of
        (False, w) \<Rightarrow> Some (POS_RET_LIB_ERROR, w)
      | (True, w) \<Rightarrow> map_option (Pair POS_RET_OK) (add_event env POSLIB_CTRL_EVENT_ONESHOT w))"

definition PosLibCtrl_stopPeriodic :: "pos_env \<Rightarrow> 'a pos_ctrl_scheme \<Rightarrow> (poslib_ret \<times> 'a pos_ctrl_scheme) option" where
  "PosLibCtrl_stopPeriodic env w =
     do {
       let w = stop_tasks (map_ctrl (\<lambda>c. c\<lparr>cs_state := POSLIB_STATE_STOPPED\<rparr>) (w\<lparr>ct_started := False\<rparr>));
       let w = snd (shared_offline_unregister env (ctrl_deregister_callbacks w));
       w \<leftarrow> PosLibMeas_stop w;
       w \<leftarrow> PosLibBle_stop env w;
       Some (POS_RET_OK, PosLibDa_stop (PosLibMbcn_stop w))
     }"

definition PosLibCtrl_getMode :: "'a pos_ctrl_scheme \<Rightarrow> u8" where
  "PosLibCtrl_getMode w = ps_node_mode (ct_settings w)"

definition PosLibCtrl_getConfig :: "'a pos_ctrl_scheme \<Rightarrow> poslib_ret \<times> pos_settings" where
  "PosLibCtrl_getConfig w = (POS_RET_OK, ct_settings w)"

definition PosLibCtrl_motion :: "pos_env \<Rightarrow> u8 \<Rightarrow> 'a pos_ctrl_scheme \<Rightarrow> (poslib_ret \<times> 'a pos_ctrl_scheme) option" where
  "PosLibCtrl_motion env mode w =
     (if \<not> mo_enabled (ps_motion (ct_settings w)) then Some (POS_RET_MOTION_NOT_ENABLED, w)
      else map_option (Pair POS_RET_OK)
             (if ct_motion_mode w \<noteq> mode then add_event env POSLIB_CTRL_EVENT_MOTION (w\<lparr>ct_motion_mode := mode\<rparr>) else Some w))"

datatype poslib_status = POSLIB_STOPPED | POSLIB_IDLE | POSLIB_UPDATE_START

definition PosLibCtrl_status :: "'a pos_ctrl_scheme \<Rightarrow> poslib_status" where
  "PosLibCtrl_status w =
     (case cs_state (ct_ctrl w) of
        POSLIB_STATE_UPDATE \<Rightarrow> POSLIB_UPDATE_START | POSLIB_STATE_IDLE \<Rightarrow> POSLIB_IDLE | POSLIB_STATE_STOPPED \<Rightarrow> POSLIB_STOPPED)"

definition PosLibCtrl_getAppConfig :: "'a pos_ctrl_scheme \<Rightarrow> u8 list" where
  "PosLibCtrl_getAppConfig w = take (unat (ct_appcfg_len w)) (ct_appcfg w)"

definition PosLibCtrl_setAppConfig :: "pos_env \<Rightarrow> u8 list \<Rightarrow> 'a pos_ctrl_scheme \<Rightarrow> 'a pos_ctrl_scheme option" where
  "PosLibCtrl_setAppConfig env cfg w =
     add_event env POSLIB_CTRL_EVENT_APPCFG
       (if length cfg \<le> APP_CONFIG_NUM_BYTES
        then w\<lparr>ct_appcfg := cfg @ drop (length cfg) (ct_appcfg w), ct_appcfg_len := of_nat (length cfg)\<rparr> else w)"

subsection \<open>The functions of \<open>poslib.c\<close>\<close>

definition PosLib_setConfig :: "pos_env \<Rightarrow> pos_settings \<Rightarrow> 'a pos_ctrl_scheme \<Rightarrow> (poslib_ret \<times> 'a pos_ctrl_scheme) option" where
  "PosLib_setConfig env settings w = PosLibCtrl_setConfig env settings w"

definition PosLib_getConfig :: "'a pos_ctrl_scheme \<Rightarrow> poslib_ret \<times> pos_settings" where
  "PosLib_getConfig w = PosLibCtrl_getConfig w"

definition PosLib_startPeriodic :: "pos_env \<Rightarrow> 'a pos_ctrl_scheme \<Rightarrow> (poslib_ret \<times> 'a pos_ctrl_scheme) option" where
  "PosLib_startPeriodic env w = PosLibCtrl_startPeriodic env w"

definition PosLib_stopPeriodic :: "pos_env \<Rightarrow> 'a pos_ctrl_scheme \<Rightarrow> (poslib_ret \<times> 'a pos_ctrl_scheme) option" where
  "PosLib_stopPeriodic env w = PosLibCtrl_stopPeriodic env w"

definition PosLib_startOneshot :: "pos_env \<Rightarrow> 'a pos_ctrl_scheme \<Rightarrow> (poslib_ret \<times> 'a pos_ctrl_scheme) option" where
  "PosLib_startOneshot env w = PosLibCtrl_startOneshot env w"

definition PosLib_motion :: "pos_env \<Rightarrow> u8 \<Rightarrow> 'a pos_ctrl_scheme \<Rightarrow> (poslib_ret \<times> 'a pos_ctrl_scheme) option" where
  "PosLib_motion env mode w = PosLibCtrl_motion env mode w"

definition PosLib_status :: "'a pos_ctrl_scheme \<Rightarrow> poslib_status" where
  "PosLib_status w = PosLibCtrl_status w"

definition PosLib_eventRegister :: "u16 \<Rightarrow> nat option \<Rightarrow> 'a pos_ctrl_scheme \<Rightarrow> poslib_ret \<times> u8 option \<times> 'a pos_ctrl_scheme" where
  "PosLib_eventRegister event cb w = PosLibEvent_register event cb w"

definition PosLib_eventDeregister :: "u8 \<Rightarrow> 'a pos_ctrl_scheme \<Rightarrow> 'a pos_ctrl_scheme" where
  "PosLib_eventDeregister i w = PosLibEvent_deregister i w"

definition PosLib_sendData :: "pos_env \<Rightarrow> data_to_send \<Rightarrow> 'a pos_ctrl_scheme \<Rightarrow> data_send_res \<times> data_to_send \<times> 'a pos_ctrl_scheme" where
  "PosLib_sendData env data w = PosLibDa_sendData env data w"

definition PosLib_decodeMbcn :: "bool \<Rightarrow> u8 list \<Rightarrow> u8 \<Rightarrow> mbcn_data \<Rightarrow> (bool \<times> mbcn_data) option" where
  "PosLib_decodeMbcn buf_null buf len mbcn = PosLibMbcn_decode buf_null buf len mbcn"

end
