(* ===== verification/Pos_Props.thy ===== *)
theory Pos_Props
  imports Pos_Control
begin

text \<open>
  The positioning library as a whole: the events of a configured node are all handled, the
  updates are on the grid of the update period, and the message of an update has the
  measurements of its scan.
\<close>

subsection \<open>The invariant\<close>

definition pos_ok :: "'a pos_ctrl_scheme \<Rightarrow> bool" where
  "pos_ok w \<longleftrightarrow> meas_ok w \<and> ct_configured w \<and> periods_ok (ct_settings w) \<and>
     length (ct_appcfg w) = APP_CONFIG_NUM_BYTES \<and> config_readable (ct_appcfg w) (ct_appcfg_len w)"

text \<open>An update that is complete and not yet ended has one event in store.\<close>

definition ctrl_rank :: "'a pos_ctrl_scheme \<Rightarrow> nat option" where
  "ctrl_rank w = (if pos_ok w then Some (if is_update_completed (ct_ctrl w) then 1 else 0) else None)"

definition ctrl_flat :: "'a pos_ctrl_scheme \<Rightarrow> nat option" where
  "ctrl_flat w = (if pos_ok w then Some 0 else None)"

lemma ctrl_more:
  assumes "pos_meas.more w' = pos_meas.more w"
  shows "ct_ctrl w' = ct_ctrl w" "ct_configured w' = ct_configured w" "ct_settings w' = ct_settings w" "ct_appcfg w' = ct_appcfg w"
    "ct_appcfg_len w' = ct_appcfg_len w" "ct_motion_mode w' = ct_motion_mode w"
  using assms by (cases w; cases w'; simp)+

lemma meas_freeI:
  "(\<And>w w'. pos_meas.more w' = pos_meas.more w \<Longrightarrow> meas_ok w' = meas_ok w \<Longrightarrow> R w' = R w) \<Longrightarrow> (\<And>w. R w \<noteq> None \<Longrightarrow> meas_ok w) \<Longrightarrow> meas_free R"
  unfolding meas_free_def by blast

lemma pos_ok_more: "pos_meas.more w' = pos_meas.more w \<Longrightarrow> meas_ok w' = meas_ok w \<Longrightarrow> pos_ok w' = pos_ok w"
  using ctrl_more [of w' w] by (simp add: pos_ok_def)

lemma ctrl_free: "meas_free (ctrl_rank :: 'a pos_ctrl_scheme \<Rightarrow> nat option)" "meas_free (ctrl_flat :: 'a pos_ctrl_scheme \<Rightarrow> nat option)"
proof -
  have r: "ctrl_rank w' = ctrl_rank w" "ctrl_flat w' = ctrl_flat w"
    if m: "pos_meas.more w' = pos_meas.more w" "meas_ok w' = meas_ok w" for w w' :: "'a pos_ctrl_scheme"
    unfolding ctrl_rank_def ctrl_flat_def pos_ok_more [OF m] ctrl_more(1) [OF m(1)] by (rule HOL.refl)+
  have o: "meas_ok w" if "ctrl_rank w \<noteq> None \<or> ctrl_flat w \<noteq> None" for w :: "'a pos_ctrl_scheme"
    using that by (auto simp: ctrl_rank_def ctrl_flat_def pos_ok_def split: if_splits)
  show "meas_free (ctrl_rank :: 'a pos_ctrl_scheme \<Rightarrow> nat option)" using r(1) o by (intro meas_freeI) blast+
  show "meas_free (ctrl_flat :: 'a pos_ctrl_scheme \<Rightarrow> nat option)" using r(2) o by (intro meas_freeI) blast+
qed

lemmas ctrl_core_free = ctrl_free [THEN meas_free_ble, THEN ble_free_core]

lemma ev_part_ctrl [simp]:
  "ev_part (w\<lparr>da_router_cb := b\<rparr>) = ev_part w" "ev_part (w\<lparr>da_tag_cb := b\<rparr>) = ev_part w" "ev_part (w\<lparr>da_sequence := n\<rparr>) = ev_part w"
  "ev_part (w\<lparr>da_nbors := ns\<rparr>) = ev_part w"
  "ev_part (v\<lparr>ct_motion_mode := m\<rparr>) = ev_part v" "ev_part (v\<lparr>ct_settings := s\<rparr>) = ev_part v" "ev_part (v\<lparr>ct_aux := a\<rparr>) = ev_part v"
  "ev_part (v\<lparr>ct_offline_reg := b\<rparr>) = ev_part v" "ev_part (v\<lparr>ct_offline_id := n\<rparr>) = ev_part v" "ev_part (v\<lparr>ct_appcfg := bs\<rparr>) = ev_part v"
  "ev_part (v\<lparr>ct_appcfg_len := l\<rparr>) = ev_part v" "ev_part (v\<lparr>ct_ctrl := c\<rparr>) = ev_part v" "ev_part (v\<lparr>ct_sent_success := b\<rparr>) = ev_part v"
  "ev_part (v\<lparr>ct_timeout_type := t\<rparr>) = ev_part v" "ev_part (v\<lparr>ct_configured := b\<rparr>) = ev_part v"
  by (simp_all add: ev_part_def)

lemma pos_ok_calls [simp]:
  "pos_ok (co_call c w) = pos_ok w" "pos_ok (co_cancelTask f w) = pos_ok w" "pos_ok (snd (co_addTask lt f d e w)) = pos_ok w"
  "ct_ctrl (co_call c w) = ct_ctrl w" "ct_ctrl (co_cancelTask f w) = ct_ctrl w" "ct_ctrl (snd (co_addTask lt f d e w)) = ct_ctrl w"
  by (simp_all add: pos_ok_def ctrl_more [OF meas_more_calls(1)] ctrl_more [OF meas_more_calls(2)] ctrl_more [OF meas_more_calls(3)])

lemma pos_ok_updates [simp]:
  "pos_ok (w\<lparr>ct_ctrl := c\<rparr>) = pos_ok w" "pos_ok (w\<lparr>ct_motion_mode := m\<rparr>) = pos_ok w" "pos_ok (w\<lparr>ct_aux := a\<rparr>) = pos_ok w"
  "pos_ok (w\<lparr>ct_offline_reg := b\<rparr>) = pos_ok w" "pos_ok (w\<lparr>ct_offline_id := n\<rparr>) = pos_ok w" "pos_ok (w\<lparr>ct_sent_success := b\<rparr>) = pos_ok w"
  "pos_ok (w\<lparr>ct_timeout_type := t\<rparr>) = pos_ok w" "pos_ok (w\<lparr>me_table := tb\<rparr>) = pos_ok w"
  "pos_ok (w\<lparr>da_nbors := ns\<rparr>) = pos_ok w"
  by (simp_all add: pos_ok_def meas_ok_def)

lemma ctrl_rank_eq:
  "pos_ok w' = pos_ok w \<Longrightarrow> is_update_completed (ct_ctrl w') = is_update_completed (ct_ctrl w) \<Longrightarrow> ctrl_rank w' = ctrl_rank w"
  by (simp add: ctrl_rank_def)

lemma ctrl_rank_None: "ctrl_rank w \<noteq> None \<longleftrightarrow> pos_ok w" "ctrl_flat w \<noteq> None \<longleftrightarrow> pos_ok w"
  by (simp_all add: ctrl_rank_def ctrl_flat_def)

lemma appendsD:
  "appends R k m w \<Longrightarrow> R w = Some r \<Longrightarrow> ev_queue w busy ts \<Longrightarrow>
     \<exists>w' us r'. m = Some w' \<and> R w' = Some r' \<and> r' + ev_weights us \<le> r + k \<and> ev_queue w' busy (ts @ us)"
  unfolding appends_def by blast

text \<open>A handler that starts from a changed state.\<close>

lemma appends_after:
  assumes "appends R i m w1" "ev_part w1 = ev_part w" "\<And>r. R w = Some r \<Longrightarrow> \<exists>r1. R w1 = Some r1 \<and> r1 \<le> r + j" "i + j \<le> k"
  shows "appends R k m w"
proof -
  have "appends R k (Some w1 \<bind> (\<lambda>_. m)) w"
    unfolding appends_def
  proof (intro allI impI)
    fix r busy ts assume r: "R w = Some r" "ev_queue w busy ts"
    obtain r1 where r1: "R w1 = Some r1" "r1 \<le> r + j" using assms(3) r by blast
    have "ev_queue w1 busy ts" using r ev_queue_part [OF assms(2)] by simp
    then obtain w' us r' where "m = Some w'" "R w' = Some r'" "r' + ev_weights us \<le> r1 + i" "ev_queue w' busy (ts @ us)"
      using assms(1) r1 unfolding appends_def by blast
    then show "\<exists>w' us r'. Some w1 \<bind> (\<lambda>_. m) = Some w' \<and> R w' = Some r' \<and> r' + ev_weights us \<le> r + k \<and> ev_queue w' busy (ts @ us)"
      using r1 assms(4) by (intro exI [of _ w'] exI [of _ us] exI [of _ r']) simp
  qed
  then show ?thesis by simp
qed

text \<open>The update that ends in a run is no longer in store.\<close>

lemma appends_ended:
  assumes "appends ctrl_flat k m w" "\<And>w'. m = Some w' \<Longrightarrow> \<not> is_update_completed (ct_ctrl w')"
  shows "appends ctrl_rank k m w" "is_update_completed (ct_ctrl w) \<Longrightarrow> appends ctrl_rank (k - 1) m w"
proof -
  have e: "\<exists>w' us. m = Some w' \<and> ctrl_rank w' = Some 0 \<and> ev_weights us \<le> k \<and> ev_queue w' busy (ts @ us)"
    if p: "pos_ok w" "ev_queue w busy ts" for busy ts
  proof -
    have "ctrl_flat w = Some 0" using p(1) by (simp add: ctrl_flat_def)
    then obtain w' us r where w': "m = Some w'" "ctrl_flat w' = Some r" "r + ev_weights us \<le> 0 + k" "ev_queue w' busy (ts @ us)"
      using appendsD [OF assms(1) _ p(2)] by blast
    then have "ctrl_rank w' = Some 0" using assms(2) [OF w'(1)] by (simp add: ctrl_flat_def ctrl_rank_def split: if_splits)
    moreover have "ev_weights us \<le> k" using w'(3) by simp
    ultimately show ?thesis using w' by blast
  qed
  show "appends ctrl_rank k m w"
    unfolding appends_def
  proof (intro allI impI)
    fix r busy ts assume r: "ctrl_rank w = Some r" "ev_queue w busy ts"
    then have "pos_ok w" using ctrl_rank_None(1) [of w] by simp
    then obtain w' us where "m = Some w'" "ctrl_rank w' = Some 0" "ev_weights us \<le> k" "ev_queue w' busy (ts @ us)" using e r(2) by blast
    then show "\<exists>w' us r'. m = Some w' \<and> ctrl_rank w' = Some r' \<and> r' + ev_weights us \<le> r + k \<and> ev_queue w' busy (ts @ us)"
      by (intro exI [of _ w'] exI [of _ us] exI [of _ 0]) simp
  qed
  assume c: "is_update_completed (ct_ctrl w)"
  show "appends ctrl_rank (k - 1) m w"
    unfolding appends_def
  proof (intro allI impI)
    fix r busy ts assume r: "ctrl_rank w = Some r" "ev_queue w busy ts"
    then have "r = 1" "pos_ok w" using c by (auto simp: ctrl_rank_def split: if_splits)
    moreover obtain w' us where "m = Some w'" "ctrl_rank w' = Some 0" "ev_weights us \<le> k" "ev_queue w' busy (ts @ us)"
      using e [OF calculation(2) r(2)] by blast
    ultimately show "\<exists>w' us r'. m = Some w' \<and> ctrl_rank w' = Some r' \<and> r' + ev_weights us \<le> r + (k - 1) \<and> ev_queue w' busy (ts @ us)"
      by (intro exI [of _ w'] exI [of _ us] exI [of _ 0]) simp
  qed
qed

subsection \<open>Handlers\<close>

lemma ctrl_add_appends:
  assumes "t \<noteq> POSLIB_CTRL_EVENT_NONE" "ev_weight t \<le> k"
  shows "appends ctrl_rank k (add_event env t w) w" "appends ctrl_flat k (add_event env t w) w"
  using assms ctrl_core_free by (auto intro: add_appends)

lemma update_nrls_part [simp]:
  "ev_part (snd (update_nrls env d w)) = ev_part w" "pos_ok (snd (update_nrls env d w)) = pos_ok w"
  "ct_ctrl (snd (update_nrls env d w)) = ct_ctrl w"
  by (auto simp: update_nrls_def shared_offline_register_def Let_def split: prod.splits bool.splits)

lemma update_autoscan_part [simp]:
  "ev_part (snd (update_autoscan env d w)) = ev_part w" "pos_ok (snd (update_autoscan env d w)) = pos_ok w"
  "ct_ctrl (snd (update_autoscan env d w)) = ct_ctrl w"
  by (simp_all add: update_autoscan_def)

lemma stop_tasks_part [simp]:
  "ev_part (stop_tasks w) = ev_part w" "pos_ok (stop_tasks w) = pos_ok w" "ct_ctrl (stop_tasks w) = ct_ctrl w"
  by (simp_all add: stop_tasks_def)

lemma completed_next [simp]:
  "is_update_completed (c\<lparr>cs_next_update_s := t\<rparr>) = is_update_completed c" "is_update_completed (c\<lparr>cs_scheduled := b\<rparr>) = is_update_completed c"
  "is_update_completed (c\<lparr>cs_last_update_s := t\<rparr>) = is_update_completed c" "is_update_completed (c\<lparr>cs_state := st\<rparr>) = is_update_completed c"
  "is_update_completed (c\<lparr>cs_update_start_hp := t\<rparr>) = is_update_completed c" "is_update_completed (c\<lparr>cs_outside_wm := b\<rparr>) = is_update_completed c"
  by (simp_all add: is_update_completed_def)

lemma scheduled_state_part [simp]:
  "ev_part (scheduled_state t w) = ev_part w" "pos_ok (scheduled_state t w) = pos_ok w" "\<not> is_update_completed (ct_ctrl (scheduled_state t w))"
  by (simp_all add: scheduled_state_def Let_def is_update_completed_def no_events_def)

lemma new_schedule_appends:
  assumes R: "R = ctrl_rank \<or> R = ctrl_flat"
  shows "appends R 0 (new_schedule env t d w) w"
proof -
  have free: "meas_free R" using R ctrl_free by blast
  let ?v = "scheduled_state t w"
  have o: "appends R 0 (PosLibMeas_opportunisticScan env b ?v) ?v" for b by (rule opportunistic_appends [OF free])
  have "appends R 0 (map_option (\<lambda>w. snd (update_nrls env d w)) (PosLibMeas_opportunisticScan env True ?v)) ?v"
    "appends R 0 (map_option (\<lambda>w. snd (update_autoscan env d w)) (PosLibMeas_opportunisticScan env False ?v)) ?v"
    "appends R 0 (map_option (map_ctrl (\<lambda>c. c\<lparr>cs_next_update_s := 0\<rparr>)) (PosLibMeas_opportunisticScan env True ?v)) ?v"
    using R by (auto intro!: appends_map [OF o] simp: ctrl_rank_def ctrl_flat_def)
  moreover have "appends R 0 (Some ?v) ?v" by (rule appends_part) simp_all
  ultimately have "appends R 0 (new_schedule env t d w) ?v"
    by (simp add: new_schedule_def Let_def)
  then show ?thesis
    using R by (elim appends_after [of R 0 _ ?v _ 0]) (auto simp: ctrl_rank_def ctrl_flat_def split: if_splits)
qed

lemma period_positive:
  assumes "pos_ok w"
  shows "get_update_period w \<noteq> 0"
  using assms by (auto simp: get_update_period_def pos_ok_def periods_ok_def period_ok_def POSLIB_MIN_MEAS_RATE_S_def Let_def)

lemma schedule_next_appends:
  assumes R: "R = ctrl_rank \<or> R = ctrl_flat"
  shows "appends R 0 (schedule_next env now w) w"
proof (rule appends_outside)
  assume "R w \<noteq> None"
  then have "get_update_period w \<noteq> 0" using R ctrl_rank_None period_positive by metis
  then show "appends R 0 (schedule_next env now w) w"
    unfolding schedule_next_def Let_def
    using R by (auto intro!: appends_part new_schedule_appends simp: ctrl_rank_def ctrl_flat_def)
qed

text \<open>An update that has been scheduled anew is not complete.\<close>

lemma deregister_more: "deregister_callbacks w = Some w' \<Longrightarrow> pos_meas.more w' = pos_meas.more w"
  by (auto simp: deregister_callbacks_def Let_def bind_eq_Some_conv split: if_splits)

lemma opportunistic_more: "PosLibMeas_opportunisticScan env b w = Some w' \<Longrightarrow> pos_meas.more w' = pos_meas.more w"
  by (auto simp: PosLibMeas_opportunisticScan_def Let_def dest!: deregister_more split: if_splits)

lemma new_schedule_pending:
  assumes "new_schedule env t d w = Some w'"
  shows "\<not> is_update_completed (ct_ctrl w')"
proof -
  have o: "\<not> is_update_completed (ct_ctrl v)" if "PosLibMeas_opportunisticScan env b (scheduled_state t w) = Some v" for b v
    using ctrl_more(1) [OF opportunistic_more [OF that]] by simp
  show ?thesis
    using assms o by (auto simp: new_schedule_def Let_def split: if_splits)
qed

text \<open>Sending a message changes neither the queue nor the invariant.\<close>

lemma voltage_part [simp]:
  "ev_part (snd (get_voltage env w)) = ev_part w" "pos_meas.more (snd (get_voltage env w)) = pos_meas.more w" "meas_ok (snd (get_voltage env w)) = meas_ok w"
  by (simp_all add: get_voltage_def Let_def)

lemma voltage_ctrl [simp]: "pos_ok (snd (get_voltage env w)) = pos_ok w" "ct_ctrl (snd (get_voltage env w)) = ct_ctrl w"
  by (rule pos_ok_more; simp) (rule ctrl_more; simp)

lemma payload_state:
  "snd (PosLibMeas_getPayload env n q t v i w) = w \<or> snd (PosLibMeas_getPayload env n q t v i w) = snd (get_voltage env w)"
  by (auto simp: PosLibMeas_getPayload_def add_voltage_record_def Let_def split: option.splits prod.splits)

lemma payload_part [simp]:
  "ev_part (snd (PosLibMeas_getPayload env n q t v i w)) = ev_part w"
  "pos_ok (snd (PosLibMeas_getPayload env n q t v i w)) = pos_ok w"
  "ct_ctrl (snd (PosLibMeas_getPayload env n q t v i w)) = ct_ctrl w"
  by (rule disjE [OF payload_state [of env n q t v i w]]; simp)+

lemma send_loop_part:
  "ev_part (snd (snd (send_loop env ns r d w))) = ev_part w \<and> pos_ok (snd (snd (send_loop env ns r d w))) = pos_ok w \<and>
   ct_ctrl (snd (snd (send_loop env ns r d w))) = ct_ctrl w"
  by (induction ns arbitrary: r d w) (simp_all add: co_send_def Let_def)

lemma da_send_part [simp]:
  "ev_part (snd (snd (PosLibDa_sendData env d w))) = ev_part w" "pos_ok (snd (snd (PosLibDa_sendData env d w))) = pos_ok w"
  "ct_ctrl (snd (snd (PosLibDa_sendData env d w))) = ct_ctrl w"
  by (simp_all add: PosLibDa_sendData_def co_send_def update_neigbours_def send_loop_part Let_def)

lemma send_message_part [simp]:
  "ev_part (snd (send_measurement_message env w)) = ev_part w" "pos_ok (snd (send_measurement_message env w)) = pos_ok w"
proof -
  let ?w = "w\<lparr>ct_sent_success := False\<rparr>"
  obtain ok bytes n w1 where p: "PosLibMeas_getPayload env MAX_PAYLOAD_LEN (ucast (cs_sequence (ct_ctrl w))) (get_meas_type ?w)
      (bd_voltage (pl_build (pe_lib env))) (Some (get_node_info ?w)) ?w = ((ok, bytes, n), w1)"
    by (metis surj_pair)
  then have w1: "ev_part w1 = ev_part w" "pos_ok w1 = pos_ok w"
    using payload_part(1,2) [of env MAX_PAYLOAD_LEN "ucast (cs_sequence (ct_ctrl w))" "get_meas_type ?w" "bd_voltage (pl_build (pe_lib env))"
        "Some (get_node_info ?w)" ?w] by simp_all
  show "ev_part (snd (send_measurement_message env w)) = ev_part w" "pos_ok (snd (send_measurement_message env w)) = pos_ok w"
    using p w1 by (auto simp: send_measurement_message_def co_send_def split_def Let_def split: bool.splits)
qed

lemma set_timeout_part [simp]:
  "ev_part (set_timeout env t n w) = ev_part w" "pos_ok (set_timeout env t n w) = pos_ok w" "ct_ctrl (set_timeout env t n w) = ct_ctrl w"
  "ev_part (clear_timeout w) = ev_part w" "pos_ok (clear_timeout w) = pos_ok w" "ct_ctrl (clear_timeout w) = ct_ctrl w"
  by (simp_all add: set_timeout_def clear_timeout_def)

lemma flat_part: "ev_part w' = ev_part w \<Longrightarrow> pos_ok w' = pos_ok w \<Longrightarrow> appends ctrl_flat k (Some w') w"
  by (rule appends_part) (simp_all add: ctrl_flat_def)

lemma flat_from: "appends ctrl_flat k m w1 \<Longrightarrow> ev_part w1 = ev_part w \<Longrightarrow> pos_ok w1 = pos_ok w \<Longrightarrow> appends ctrl_flat k m w"
  by (erule appends_from) (simp_all add: ctrl_flat_def)

lemma flat_map:
  "appends ctrl_flat k m w \<Longrightarrow> (\<And>w'. ev_part (f w') = ev_part w') \<Longrightarrow> (\<And>w'. pos_ok (f w') = pos_ok w') \<Longrightarrow> appends ctrl_flat k (map_option f m) w"
  by (erule appends_map) (simp_all add: ctrl_flat_def)

lemma rank_from:
  "appends ctrl_rank k m w1 \<Longrightarrow> ev_part w1 = ev_part w \<Longrightarrow> pos_ok w1 = pos_ok w \<Longrightarrow>
     is_update_completed (ct_ctrl w1) = is_update_completed (ct_ctrl w) \<Longrightarrow> appends ctrl_rank k m w"
  by (erule appends_from) (simp_all add: ctrl_rank_def)

lemma rank_map:
  "appends ctrl_rank k m w \<Longrightarrow> (\<And>w'. ev_part (f w') = ev_part w') \<Longrightarrow> (\<And>w'. pos_ok (f w') = pos_ok w') \<Longrightarrow>
     (\<And>w'. is_update_completed (ct_ctrl (f w')) = is_update_completed (ct_ctrl w')) \<Longrightarrow> appends ctrl_rank k (map_option f m) w"
  by (erule appends_map) (simp_all add: ctrl_rank_def)

lemma outside_appends: "appends ctrl_flat 2 (update_outside_wm env w) w"
  unfolding update_outside_wm_def Let_def
  by (intro appends_if flat_map flat_part ctrl_add_appends) (simp_all add: ev_weight_def)

lemma scan_ended_appends: "appends ctrl_flat 2 (scan_ended env w) w"
  unfolding scan_ended_def
  by (rule flat_map, rule flat_from [OF outside_appends]) simp_all

lemma led_appends:
  assumes "R = ctrl_rank \<or> R = ctrl_flat"
  shows "appends R 1 (process_led_status env w) w"
  using assms unfolding process_led_status_def
  by (elim disjE; hypsubst; intro appends_if rank_map flat_map ctrl_add_appends) (simp_all add: ev_weight_def)

lemma appcfg_appends:
  assumes R: "R = ctrl_rank \<or> R = ctrl_flat"
  shows "appends R 3 (process_appcfg env w) w"
proof (rule appends_outside)
  assume "R w \<noteq> None"
  then have ok: "pos_ok w" using R ctrl_rank_None by blast
  have "ucast (ucast (ct_appcfg_len w) :: u32) = ct_appcfg_len w" by (rule bit_word_eqI) (auto simp: bit_simps)
  then have "config_readable (ct_appcfg w) (ucast (ucast (ct_appcfg_len w) :: u32))" using ok by (simp add: pos_ok_def)
  then obtain d where d: "PosLibDecode_config (pe_lib env) (ct_appcfg w) (ucast (ct_appcfg_len w)) (ct_settings w) (ct_aux w) = Some d"
    "keeps_valid (pe_lib env) (ct_settings w) (dc_settings d)"
    using readable_decoded by blast
  let ?w = "if dc_otap d then co_call Otap_started w else w"
  have w: "ev_part ?w = ev_part w" "pos_ok ?w" "ct_ctrl ?w = ct_ctrl w" "ct_settings ?w = ct_settings w"
    using ok by (simp_all add: ctrl_more(3) [OF meas_more_calls(1)])
  have s: "pos_ok (?w\<lparr>ct_settings := dc_settings d\<rparr>)"
    using w d(2) by (simp add: pos_ok_def keeps_valid_def meas_ok_def)
  have change: "appends R 2 (add_event env POSLIB_CTRL_EVENT_CONFIG_CHANGE (?w\<lparr>ct_settings := dc_settings d\<rparr>)) w"
    using R ctrl_add_appends [of POSLIB_CTRL_EVENT_CONFIG_CHANGE 2 env "?w\<lparr>ct_settings := dc_settings d\<rparr>"] s w ok
    by (auto simp: ev_weight_def intro: rank_from flat_from)
  have same: "appends R 2 (Some ?w) w" using R w ok by (auto intro!: appends_part simp: ctrl_rank_def ctrl_flat_def)
  have led: "appends R 1 (process_led_status env (v\<lparr>ct_aux := dc_aux d\<rparr>)) v" for v
    using R led_appends [OF R, of env "v\<lparr>ct_aux := dc_aux d\<rparr>"] by (auto intro: rank_from flat_from)
  have id1: "appends R 1 (Some v) v" for v by (rule appends_part) simp_all
  have "appends R 3 ((if ct_settings ?w \<noteq> dc_settings d
        then add_event env POSLIB_CTRL_EVENT_CONFIG_CHANGE (?w\<lparr>ct_settings := dc_settings d\<rparr>) else Some ?w) \<bind>
      (\<lambda>w. if ax_led_cmd_seq (dc_aux d) \<noteq> ax_led_cmd_seq (ct_aux w)
         then process_led_status env (w\<lparr>ct_aux := dc_aux d\<rparr>) else Some w)) w"
    by (rule appends_bind [OF appends_if [OF change same] appends_if [OF led id1]]) simp
  moreover have "appends R 3 (Some ?w) w" using same by (rule appends_mono) simp
  ultimately show "appends R 3 (process_appcfg env w) w"
    unfolding process_appcfg_def d(1) Option.bind.bind_lunit Let_def by (intro appends_if)
qed

text \<open>The end of an update.\<close>

lemma schedule_unscheduled:
  assumes "\<not> cs_scheduled (ct_ctrl w)" "cs_state (ct_ctrl w) \<noteq> POSLIB_STATE_STOPPED" "schedule_next env False w = Some w'"
  shows "\<not> is_update_completed (ct_ctrl w')"
  using assms by (auto simp: schedule_next_def Let_def split: if_splits dest: new_schedule_pending)

lemma add_event_more: "add_event env t w = Some w' \<Longrightarrow> pos_meas.more w' = pos_meas.more w"
proof -
  assume "add_event env t w = Some w'"
  then obtain b where "PosLibEvent_add (pe_time env) t w = Some (b, w')" by auto
  from add_frame [OF this] show ?thesis by auto
qed

lemma complete_pending:
  assumes "complete_update env w = Some w'" "cs_state (ct_ctrl w) \<noteq> POSLIB_STATE_STOPPED"
  shows "\<not> is_update_completed (ct_ctrl w')"
proof (cases "is_update_completed (ct_ctrl w)")
  case True
  let ?v = "map_ctrl (\<lambda>c. c\<lparr>cs_scheduled := False, cs_last_update_s := cs_next_update_s c\<rparr>) w"
  obtain w1 where w1: "add_event env POSLIB_CTRL_EVENT_UPDATE_END ?v = Some w1" "schedule_next env False w1 = Some w'"
    using assms(1) True unfolding complete_update_def by (auto simp: bind_eq_Some_conv)
  have "ct_ctrl w1 = ct_ctrl ?v" using ctrl_more(1) [OF add_event_more [OF w1(1)]] .
  then show ?thesis using schedule_unscheduled [OF _ _ w1(2)] assms(2) by simp
next
  case False
  then show ?thesis using assms(1) by (simp add: complete_update_def)
qed

lemma complete_flat: "appends ctrl_flat 1 (complete_update env w) w"
  unfolding complete_update_def
  by (intro appends_if appends_bind [where i = 1 and j = 0] flat_from [OF ctrl_add_appends(2)] schedule_next_appends flat_part)
    (simp_all add: ev_weight_def)

lemma complete_appends:
  assumes "cs_state (ct_ctrl w) \<noteq> POSLIB_STATE_STOPPED"
  shows "appends ctrl_rank 0 (complete_update env w) w"
proof (cases "is_update_completed (ct_ctrl w)")
  case True
  then show ?thesis using appends_ended(2) [OF complete_flat complete_pending [OF _ assms]] by simp
next
  case False
  then show ?thesis by (simp add: complete_update_def appends_part)
qed

text \<open>The modules around the control do not change its state.\<close>

lemma add_event_ctrl: "PosLibEvent_add lt t w = Some (b, w') \<Longrightarrow> ct_ctrl w' = ct_ctrl w"
  by (drule add_frame) auto

lemma appcfg_ctrl:
  assumes "process_appcfg env w = Some w'"
  shows "ct_ctrl w' = ct_ctrl w"
proof -
  have led: "ct_ctrl v' = ct_ctrl v" if "process_led_status env v = Some v'" for v v' :: "'a pos_ctrl_scheme"
    using that by (auto simp: process_led_status_def dest!: add_event_ctrl split: if_splits)
  show ?thesis
    using assms unfolding process_appcfg_def
    by (auto simp: bind_eq_Some_conv Let_def dest!: add_event_ctrl led split: if_splits)
qed

lemma send_message_state: "cs_state (ct_ctrl (snd (send_measurement_message env w))) = cs_state (ct_ctrl w)"
proof -
  let ?w = "w\<lparr>ct_sent_success := False\<rparr>"
  obtain ok bytes n w1 where p: "PosLibMeas_getPayload env MAX_PAYLOAD_LEN (ucast (cs_sequence (ct_ctrl w))) (get_meas_type ?w)
      (bd_voltage (pl_build (pe_lib env))) (Some (get_node_info ?w)) ?w = ((ok, bytes, n), w1)"
    by (metis surj_pair)
  then have "ct_ctrl w1 = ct_ctrl w"
    using payload_part(3) [of env MAX_PAYLOAD_LEN "ucast (cs_sequence (ct_ctrl w))" "get_meas_type ?w" "bd_voltage (pl_build (pe_lib env))"
        "Some (get_node_info ?w)" ?w] by simp
  then show ?thesis using p by (auto simp: send_measurement_message_def co_send_def split_def Let_def split: bool.splits)
qed

lemma scan_ended_state:
  assumes "scan_ended env w = Some w'"
  shows "cs_state (ct_ctrl w') = cs_state (ct_ctrl w)"
proof -
  have "cs_state (ct_ctrl v') = cs_state (ct_ctrl v)" if "update_outside_wm env v = Some v'" for v v' :: "'a pos_ctrl_scheme"
    using that by (auto simp: update_outside_wm_def Let_def dest!: add_event_ctrl split: if_splits)
  then show ?thesis using assms by (fastforce simp: scan_ended_def send_message_state split: if_splits)
qed

subsection \<open>All events\<close>

text \<open>An event in the state of an update.\<close>

lemma ended_by:
  assumes m: "appends ctrl_flat i m w" and st: "\<And>w'. m = Some w' \<Longrightarrow> cs_state (ct_ctrl w') \<noteq> POSLIB_STATE_STOPPED" and k: "i + 1 \<le> k"
  shows "appends ctrl_rank k (m \<bind> complete_update env) w"
proof (rule appends_ended(1))
  show "appends ctrl_flat k (m \<bind> complete_update env) w" using m complete_flat k by (rule appends_bind)
  show "\<not> is_update_completed (ct_ctrl w')" if "m \<bind> complete_update env = Some w'" for w'
    using that st complete_pending by (auto simp: bind_eq_Some_conv)
qed

lemma update_state_appends:
  assumes st: "cs_state (ct_ctrl w) = POSLIB_STATE_UPDATE"
  shows "appends ctrl_rank (if t = POSLIB_CTRL_EVENT_UNDER_WM then 0 else ev_weight t - 1) (handle_update_state env t w) w"
proof -
  have scan: "appends ctrl_rank 3 (scan_ended env w \<bind> complete_update env) w"
    using scan_ended_appends by (rule ended_by) (use st scan_ended_state in fastforce)+
  have cfg: "appends ctrl_rank 4 (map_option (map_events (\<lambda>e. e\<lparr>ce_app_cfg := True\<rparr>)) (process_appcfg env w) \<bind> complete_update env) w"
    by (rule ended_by [OF flat_map [OF appcfg_appends]]) (use st appcfg_ctrl in \<open>fastforce+\<close>)
  have set: "appends ctrl_rank 1 (Some (map_events f w) \<bind> complete_update env) w" for f
    by (rule ended_by [OF flat_part]) (simp_all add: st)
  have id0: "appends ctrl_rank k (complete_update env w) w" for k using complete_appends [of w env] st by (auto intro: appends_mono)
  have "is_update_completed (ct_ctrl (motion_noted w)) = is_update_completed (ct_ctrl w)" "pos_ok (motion_noted w) = pos_ok w"
    "ev_part (motion_noted w) = ev_part w" "cs_state (ct_ctrl (motion_noted w)) = cs_state (ct_ctrl w)"
    by (simp_all add: motion_noted_def is_update_completed_def Let_def)
  then have mot: "appends ctrl_rank 0 (complete_update env (motion_noted w)) w"
    using st by (intro rank_from [OF complete_appends]) simp_all
  show ?thesis
    using scan cfg set id0 mot by (cases t) (simp_all add: handle_update_state_def ev_weight_def)
qed

lemma idle_state_appends:
  assumes st: "cs_state (ct_ctrl w) = POSLIB_STATE_IDLE"
  shows "appends ctrl_rank (if t = POSLIB_CTRL_EVENT_UNDER_WM then 0 else ev_weight t - 1) (handle_idle_state env t w) w"
proof -
  have id0: "appends ctrl_rank k (Some w) w" for k by (rule appends_part) simp_all
  have started: "appends ctrl_rank 0 (Some (update_started env (map_events f w))) w"
    if "\<And>e. ce_scan_fail (f e) = ce_scan_fail e \<and> ce_timeout (f e) = ce_timeout e \<and> ce_data_sent (f e) = ce_data_sent e \<and>
      ce_app_cfg (f e) = ce_app_cfg e \<and> ce_data_sent_complete (f e) = ce_data_sent_complete e" for f
    using that by (intro appends_part ctrl_rank_eq) (simp_all add: update_started_def is_update_completed_def Let_def)
  let ?u = "map_ctrl (\<lambda>c. c\<lparr>cs_state := POSLIB_STATE_UPDATE, cs_events := (cs_events c)\<lparr>ce_scan_end := True\<rparr>\<rparr>) w"
  have "appends ctrl_rank 3 (handle_update_state env POSLIB_CTRL_EVENT_SCAN_END ?u) ?u"
    using update_state_appends [of ?u POSLIB_CTRL_EVENT_SCAN_END env] by (simp add: ev_weight_def)
  then have scan: "appends ctrl_rank 3 (handle_update_state env POSLIB_CTRL_EVENT_SCAN_END ?u) w"
    by (rule rank_from) (simp_all add: is_update_completed_def Let_def)
  have off: "appends ctrl_rank 0 (Some (PosLibMeas_clearMeas (map_events (\<lambda>e. e\<lparr>ce_offline := True, ce_app_cfg := False\<rparr>) w))) w"
    "appends ctrl_rank 0 (Some (map_events (\<lambda>e. e\<lparr>ce_offline := True\<rparr>) w)) w"
    by (rule appends_rank; auto simp: PosLibMeas_clearMeas_def ctrl_rank_def is_update_completed_def Let_def split: if_splits)+
  let ?v = "if \<not> mo_enabled (ps_motion (ct_settings w)) then w\<lparr>ct_motion_mode := POSLIB_MOTION_STATIC\<rparr> else w"
  have v: "ev_part ?v = ev_part w" "pos_ok ?v = pos_ok w" "ct_ctrl ?v = ct_ctrl w" by simp_all
  have "appends ctrl_rank 1 (map_option snd (PosLibBle_start env (ps_ble (ct_settings ?v)) ?v)) w"
    by (rule rank_from [OF ble_start_appends [OF ctrl_free(1) [THEN meas_free_ble]]]) (use v in simp_all)
  then have ble: "appends ctrl_rank 1 (PosLibBle_start env (ps_ble (ct_settings ?v)) ?v \<bind> (\<lambda>(_, w). schedule_next env False w)) w"
    by (rule appends_bind_pair [where j = 0]) (simp_all add: schedule_next_appends)
  have sched: "appends ctrl_rank 0 (schedule_next env b w1) w" if "ev_part w1 = ev_part w" "pos_ok w1 = pos_ok w"
    "is_update_completed (ct_ctrl w1) = is_update_completed (ct_ctrl w)" for b w1
    using that by (intro rank_from [OF schedule_next_appends]) simp_all
  have one: "appends ctrl_rank 0 (schedule_next env True (map_events (\<lambda>e. e\<lparr>ce_oneshot := True\<rparr>) w)) w"
    "appends ctrl_rank 0 (schedule_next env False (motion_noted w)) w"
    by (rule sched; simp add: is_update_completed_def motion_noted_def Let_def)+
  have cfg: "appends ctrl_rank 4 (map_option (map_events (\<lambda>e. e\<lparr>ce_app_cfg := True\<rparr>)) (process_appcfg env w)) w"
    unfolding map_conv_bind_option comp_def
    by (rule appends_bind [OF appcfg_appends, where j = 1])
      (auto intro!: appends_rank simp: ctrl_rank_def split: if_splits)
  show ?thesis
    using id0 started scan off ble one cfg by (cases t) (simp_all add: handle_idle_state_def ev_weight_def Let_def)
qed

lemma stopped_state_appends: "appends ctrl_rank 0 (handle_stopped_state env t w) w"
  unfolding handle_stopped_state_def
  by (intro appends_if appends_part rank_from [OF schedule_next_appends]) (simp_all add: is_update_completed_def Let_def)

lemma process_event_appends: "appends ctrl_rank (ev_weight t - 1) (process_event env t w) w"
proof -
  let ?k = "if t = POSLIB_CTRL_EVENT_UNDER_WM then 0 else ev_weight t - 1"
  have "appends ctrl_rank ?k (PosLibCtrl_processEvent env t w) w"
    unfolding PosLibCtrl_processEvent_def
    using update_state_appends [of w t env] idle_state_appends [of w t env] appends_mono [OF stopped_state_appends, of ?k env t w]
    by (cases "cs_state (ct_ctrl w)") simp_all
  then show ?thesis
    unfolding process_event_def
    by (rule appends_bind [OF _ ble_event_appends [OF ctrl_free(1) [THEN meas_free_ble]]]) (simp add: ev_weight_def)
qed

interpretation pos_events: event_handler "process_event env" ctrl_rank for env
  by unfold_locales (rule process_event_appends, rule ctrl_core_free(1))

subsection \<open>Scheduling\<close>

definition autoscan_mode :: "u8 \<Rightarrow> bool" where
  "autoscan_mode m \<longleftrightarrow> m = POSLIB_MODE_AUTOSCAN_TAG \<or> m = POSLIB_MODE_AUTOSCAN_ANCHOR \<or> m = POSLIB_MODE_DA_TAG"

definition next_update :: "u32 \<Rightarrow> u32 \<Rightarrow> u32 \<Rightarrow> u32" where
  "next_update now_s last_s period = now_s + period - (now_s - last_s) mod period"

lemma next_update_grid:
  assumes "unat last_s \<le> unat now_s" "unat now_s + unat period < 2 ^ 32" "period \<noteq> 0"
  defines "n \<equiv> unat (next_update now_s last_s period)"
  shows "unat now_s < n" "n \<le> unat now_s + unat period" "(n - unat last_s) mod unat period = 0"
proof -
  let ?d = "(unat now_s - unat last_s) mod unat period"
  have p: "0 < unat period" using assms(3) by (simp add: unat_gt_0)
  have "unat ((now_s - last_s) mod period) = ?d"
    using assms(1) by (simp add: unat_mod_distrib unat_minus_le word_le_nat_alt)
  moreover have s: "unat (now_s + period) = unat now_s + unat period" using assms(2) by (intro unat_add_small) simp
  moreover have d: "?d < unat period" using p by simp
  ultimately have n: "n = unat now_s + unat period - ?d"
    unfolding n_def next_update_def by (subst unat_minus_le) (simp_all add: word_le_nat_alt)
  then show "unat now_s < n" "n \<le> unat now_s + unat period" using d by linarith+
  have "n - unat last_s = (unat now_s - unat last_s - ?d) + unat period" using n d assms(1) mod_less_eq_dividend [of "unat now_s - unat last_s" "unat period"] by linarith
  then show "(n - unat last_s) mod unat period = 0" by (simp add: minus_mod_eq_mult_div)
qed

lemma scheduled_state_ctrl:
  "ct_ctrl (scheduled_state t w) = (ct_ctrl w)\<lparr>cs_sequence := cs_sequence (ct_ctrl w) + 1, cs_state := POSLIB_STATE_IDLE,
     cs_mode := ps_node_mode (ct_settings w), cs_scheduled := True,
     cs_events := no_events\<lparr>ce_is_static := ct_motion_mode w = POSLIB_MOTION_STATIC \<and> mo_enabled (ps_motion (ct_settings w))\<rparr>, cs_next_update_s := t\<rparr>"
proof -
  have "pos_meas.more (stop_tasks w) = pos_meas.more w" by (simp add: stop_tasks_def)
  from ctrl_more [OF this] show ?thesis by (simp add: scheduled_state_def Let_def)
qed

lemma log_kept [simp]:
  "co_log (co_cancelTask f w) = co_log w" "co_log (snd (co_addTask lt f d e w)) = co_log w"
  by (simp_all add: co_cancelTask_def co_addTask_def split_def)

lemma deregister_log: "deregister_callbacks w = Some w' \<Longrightarrow> \<exists>l. co_log w' = co_log w @ l \<and> set l \<subseteq> {Remove_filter ''m_mbcn_item''}"
  by (auto simp: deregister_callbacks_def Let_def bind_eq_Some_conv co_call_def split: if_splits)

text \<open>The next update of a node that scans by itself.\<close>

lemma autoscan_scheduled:
  fixes env :: pos_env and w :: "'a pos_ctrl_scheme"
  assumes "pos_ok w" "cs_state (ct_ctrl w) \<noteq> POSLIB_STATE_STOPPED" "\<not> cs_scheduled (ct_ctrl w)" "autoscan_mode (ps_node_mode (ct_settings w))"
  defines "n \<equiv> next_update (pe_now_s env) (cs_last_update_s (ct_ctrl w)) (get_update_period w)"
  shows "\<exists>v l. schedule_next env False w = Some (snd (update_autoscan env (n - pe_now_s env) v)) \<and>
     ct_ctrl v = ct_ctrl (scheduled_state n w) \<and> co_log v = co_log w @ l \<and> set l \<subseteq> {Remove_filter ''m_mbcn_item''}"
proof -
  let ?s = "scheduled_state n w"
  have "pos_ok ?s" using assms(1) by simp
  then have "meas_ok ?s" unfolding pos_ok_def by blast
  then have m: "meas_ok (ensure_init ?s)" by simp
  from deregister_returns [OF m] obtain v1 where v1: "deregister_callbacks (ensure_init ?s) = Some v1" "pos_meas.more v1 = pos_meas.more ?s" by auto
  let ?v = "v1\<lparr>me_opportunistic := False\<rparr>"
  have o: "PosLibMeas_opportunisticScan env False ?s = Some ?v" by (simp add: PosLibMeas_opportunisticScan_def v1(1))
  have c: "ct_ctrl ?v = ct_ctrl ?s" using ctrl_more(1) [OF opportunistic_more [OF o]] .
  obtain l where l: "co_log v1 = co_log (ensure_init ?s) @ l" "set l \<subseteq> {Remove_filter ''m_mbcn_item''}" using deregister_log [OF v1(1)] by blast
  have lg: "co_log ?v = co_log w @ l"
    using l(1) by (simp add: ensure_init_def init_module_def scheduled_state_def stop_tasks_def Let_def)
  have "cs_mode (ct_ctrl ?s) = ps_node_mode (ct_settings w)" by (simp add: scheduled_state_ctrl)
  then have "new_schedule env n (n - pe_now_s env) w = Some (snd (update_autoscan env (n - pe_now_s env) ?v))"
    using assms(4) o by (auto simp: new_schedule_def Let_def autoscan_mode_def mode_defs)
  then have "schedule_next env False w = Some (snd (update_autoscan env (n - pe_now_s env) ?v))"
    using assms(2,3) period_positive [OF assms(1)] by (simp add: schedule_next_def Let_def n_def next_update_def)
  then show ?thesis using c lg l(2) by blast
qed

lemma period_bound:
  assumes "pos_ok w"
  shows "unat (get_update_period w) \<le> 86400"
  using assms by (auto simp: get_update_period_def pos_ok_def periods_ok_def period_ok_def POSLIB_MAX_MEAS_RATE_S_def Let_def word_le_nat_alt)

lemma add_ctrl:
  assumes "PosLibEvent_add lt t w = Some (b, w')"
  shows "pos_ok w' = pos_ok w" "pos_core.more w' = pos_core.more w" "co_log w' = co_log w"
proof -
  from add_frame [OF assms] show m: "pos_core.more w' = pos_core.more w" "co_log w' = co_log w" by auto
  have "ctrl_flat w' = ctrl_flat w" using ctrl_core_free(2) m unfolding core_free_def by blast
  then show "pos_ok w' = pos_ok w" by (simp add: ctrl_flat_def split: if_splits)
qed

text \<open>The message of an update: the number of the update, of which 8 bits are sent, the beacons
  of the scan, and the description of a node that is under the network.\<close>

definition update_message :: "pos_env \<Rightarrow> 'a pos_ctrl_scheme \<Rightarrow> u8 list" where
  "update_message env w =
     le16 (ucast (ucast (cs_sequence (ct_ctrl w)) :: u8)) @ rss_record (get_meas_type w) (heard (me_table w)) @
     (if bd_voltage (pl_build (pe_lib env)) then voltage_record (fst (get_voltage env w)) else []) @
     node_record (get_node_info (map_ctrl (\<lambda>c. c\<lparr>cs_outside_wm := False\<rparr>) w))"

lemma core_more:
  assumes "pos_core.more w' = pos_core.more w"
  shows "pos_meas.more w' = pos_meas.more w" "me_table w' = me_table w" "bb_eddystone_enabled w' = bb_eddystone_enabled w"
    "bb_ibeacon_enabled w' = bb_ibeacon_enabled w" "mv_sampling_time_s w' = mv_sampling_time_s w" "mv_samples w' = mv_samples w"
    "mv_voltage_flt w' = mv_voltage_flt w"
  using assms by (cases w; cases w'; simp)+

lemma voltage_cong:
  "mv_sampling_time_s w' = mv_sampling_time_s w \<Longrightarrow> mv_samples w' = mv_samples w \<Longrightarrow> mv_voltage_flt w' = mv_voltage_flt w \<Longrightarrow>
     fst (get_voltage env w') = fst (get_voltage env w)"
  by (simp add: get_voltage_def Let_def)

lemma voltage_frame:
  "ev_part (snd (get_voltage env w)) = ev_part w" "co_log (snd (get_voltage env w)) = co_log w" "pos_meas.more (snd (get_voltage env w)) = pos_meas.more w"
  "meas_ok (snd (get_voltage env w)) = meas_ok w"
  by (simp_all add: get_voltage_def Let_def ev_part_def meas_ok_def)

lemma message_cong:
  fixes w w' :: "'a pos_ctrl_scheme"
  assumes "pos_core.more w' = pos_core.more (map_events f (map_ctrl (\<lambda>c. c\<lparr>cs_outside_wm := False\<rparr>) w))" "\<And>e. ce_is_static (f e) = ce_is_static e"
  shows "update_message env w' = update_message env w" "get_node_info w' = get_node_info (map_ctrl (\<lambda>c. c\<lparr>cs_outside_wm := False\<rparr>) w)"
proof -
  note m = core_more [OF assms(1)] ctrl_more [OF core_more(1) [OF assms(1)]]
  have u: "get_update_period w' = get_update_period (map_ctrl (\<lambda>c. c\<lparr>cs_outside_wm := False\<rparr>) w)"
    unfolding get_update_period_def by (simp add: m Let_def)
  have i: "get_node_info w' = get_node_info (map_ctrl (\<lambda>c. c\<lparr>cs_outside_wm := False\<rparr>) w)"
    unfolding get_node_info_def u by (simp add: m assms(2) Let_def)
  show "get_node_info w' = get_node_info (map_ctrl (\<lambda>c. c\<lparr>cs_outside_wm := False\<rparr>) w)" by (rule i)
  have "get_node_info (map_ctrl (\<lambda>c. c\<lparr>cs_outside_wm := False\<rparr>) w') = get_node_info w'"
    unfolding get_node_info_def get_update_period_def by (simp add: m Let_def)
  then show "update_message env w' = update_message env w"
    unfolding update_message_def i using voltage_cong [of w' w env] by (simp add: m get_meas_type_def)
qed

lemma beacons_heard: "table_wf t \<Longrightarrow> heard t \<noteq> [] \<Longrightarrow> 0 < mt_num_beacons t"
  by (auto simp: heard_def)

lemma add_returns:
  assumes "ev_queue w busy ts" "t \<noteq> POSLIB_CTRL_EVENT_NONE"
  shows "\<exists>b w' us. PosLibEvent_add lt t w = Some (b, w') \<and> ev_queue w' busy us"
  by (rule add_total [OF assms, of lt]) (use assms(1) in blast)+

lemma under_wm:
  assumes "ev_queue w busy ts" "0 < mt_num_beacons (me_table w)"
  shows "\<exists>w' us. update_outside_wm env w = Some w' \<and> ev_queue w' busy us \<and> co_log w' = co_log w \<and> pos_ok w' = pos_ok w \<and>
     pos_core.more w' = pos_core.more (map_ctrl (\<lambda>c. c\<lparr>cs_outside_wm := False\<rparr>) w)"
proof (cases "cs_outside_wm (ct_ctrl w)")
  case True
  obtain b w1 us where a: "PosLibEvent_add (pe_time env) POSLIB_CTRL_EVENT_UNDER_WM w = Some (b, w1)" "ev_queue w1 busy us"
    using add_returns [OF assms(1), of POSLIB_CTRL_EVENT_UNDER_WM "pe_time env"] by auto
  let ?w = "map_ctrl (\<lambda>c. c\<lparr>cs_outside_wm := False\<rparr>) w1"
  have "pos_core.more ?w = pos_core.more (map_ctrl (\<lambda>c. c\<lparr>cs_outside_wm := False\<rparr>) w)"
    using add_ctrl(2) [OF a(1)] by (cases w; cases w1; simp)
  moreover have "ev_queue ?w busy us" using a(2) ev_queue_part [of ?w w1] by simp
  ultimately show ?thesis
    using assms(2) True a(1) add_ctrl(1,3) [OF a(1)] by (simp add: update_outside_wm_def PosLibMeas_getBeaconNum_def exI [of _ us])
next
  case False
  then have "map_ctrl (\<lambda>c. c\<lparr>cs_outside_wm := False\<rparr>) w = w" by (cases "ct_ctrl w") simp
  then have "pos_core.more w = pos_core.more (map_ctrl (\<lambda>c. c\<lparr>cs_outside_wm := False\<rparr>) w)" by (rule arg_cong [OF sym])
  moreover have "update_outside_wm env w = Some w" using assms(2) False by (simp add: update_outside_wm_def PosLibMeas_getBeaconNum_def)
  ultimately show ?thesis using assms(1) by blast
qed

lemma message_sent:
  assumes "table_wf (me_table w)" "heard (me_table w) \<noteq> []" "pe_free_buffers env \<noteq> 0"
    and "pl_getNodeRole (pe_lib env) \<noteq> APP_LIB_SETTINGS_ROLE_ADVERTISER" "\<not> cs_outside_wm (ct_ctrl w)"
    and "pe_send env (meas_packet (update_message env w)) = APP_LIB_DATA_SEND_RES_SUCCESS"
  shows "\<exists>v. snd (send_measurement_message env w) = map_events (\<lambda>e. e\<lparr>ce_data_sent := True\<rparr>) v \<and> ev_part v = ev_part w \<and>
     pos_ok v = pos_ok w \<and> ct_ctrl v = ct_ctrl w \<and> ct_settings v = ct_settings w \<and>
     co_log v = co_log w @ [Send_data (meas_packet (update_message env w)) True]"
proof -
  let ?u = "w\<lparr>ct_sent_success := False\<rparr>"
  let ?p = "PosLibMeas_getPayload env MAX_PAYLOAD_LEN (ucast (cs_sequence (ct_ctrl w))) (get_meas_type ?u) (bd_voltage (pl_build (pe_lib env)))
    (Some (get_node_info ?u)) ?u"
  let ?v = "if bd_voltage (pl_build (pe_lib env)) then snd (get_voltage env ?u) else ?u"
  have "map_ctrl (\<lambda>c. c\<lparr>cs_outside_wm := False\<rparr>) w = w" using assms(5) by (cases "ct_ctrl w") simp
  then have i: "get_node_info ?u = get_node_info (map_ctrl (\<lambda>c. c\<lparr>cs_outside_wm := False\<rparr>) w)" "get_meas_type ?u = get_meas_type w"
    "fst (get_voltage env ?u) = fst (get_voltage env w)"
    using voltage_cong [of ?u w env] by (simp_all add: get_node_info_def get_update_period_def get_meas_type_def Let_def)
  have p: "?p = ((True, update_message env w, length (heard (me_table w))), ?v)"
    using assms(1,2) by (subst payload_written) (simp_all add: MAX_PAYLOAD_LEN_def update_message_def i)
  have v: "ev_part ?v = ev_part w" "co_log ?v = co_log w" "pos_meas.more ?v = pos_meas.more ?u" "meas_ok ?v = meas_ok ?u"
    by (simp_all add: voltage_frame)
  have "snd (send_measurement_message env w) =
      map_events (\<lambda>e. e\<lparr>ce_data_sent := True\<rparr>) (co_call (Send_data (meas_packet (update_message env w)) True) ?v)"
    unfolding send_measurement_message_def Let_def using assms(3,4,6) p by (simp add: co_send_def)
  moreover have "ct_settings (co_call c ?v) = ct_settings w" for c using ctrl_more(3) [OF v(3)] by (simp add: co_call_def)
  moreover have "pos_ok ?v = pos_ok w" using pos_ok_more [OF v(3,4)] by simp
  moreover have "co_log (co_call c ?v) = co_log w @ [c]" for c using v(2) by (simp add: co_call_def)
  ultimately show ?thesis using v(1) ctrl_more(1) [OF v(3)]
    by (intro exI [of _ "co_call (Send_data (meas_packet (update_message env w)) True) ?v"]) simp
qed

text \<open>The end of a scan that heard beacons, and of the update it belongs to.\<close>

lemma scan_ended_sends:
  fixes w :: "'a pos_ctrl_scheme"
  assumes ok: "ev_queue w busy ts" and heard: "table_wf (me_table w)" "heard (me_table w) \<noteq> []"
    and env: "pe_free_buffers env \<noteq> 0" "pl_getNodeRole (pe_lib env) \<noteq> APP_LIB_SETTINGS_ROLE_ADVERTISER"
      "pe_send env (meas_packet (update_message env w)) = APP_LIB_DATA_SEND_RES_SUCCESS"
  shows "\<exists>w' us. scan_ended env w = Some w' \<and> ev_queue w' busy us \<and> pos_ok w' = pos_ok w \<and> ct_settings w' = ct_settings w \<and>
     ct_ctrl w' = (ct_ctrl w)\<lparr>cs_outside_wm := False,
       cs_events := (cs_events (ct_ctrl w))\<lparr>ce_scan_end := True, ce_data_sent := True, ce_scan_fail := False\<rparr>\<rparr> \<and>
     co_log w' = co_log w @ [Send_data (meas_packet (update_message env w)) True]"
proof -
  let ?w = "map_events (\<lambda>e. e\<lparr>ce_scan_end := True\<rparr>) w" and ?m = "update_message env w"
  obtain w0 where w0: "w0 = clear_timeout ?w" by blast
  have q0: "ev_queue w0 busy ts" "pos_core.more w0 = pos_core.more ?w" "co_log w0 = co_log w" "pos_ok w0 = pos_ok w"
    using ok ev_queue_part [of w0 w] by (simp_all add: w0 clear_timeout_def)
  have "me_table w0 = me_table w" using core_more(2) [OF q0(2)] by simp
  then obtain w1 us where w1: "update_outside_wm env w0 = Some w1" "ev_queue w1 busy us" "co_log w1 = co_log w" "pos_ok w1 = pos_ok w"
    "pos_core.more w1 = pos_core.more (map_ctrl (\<lambda>c. c\<lparr>cs_outside_wm := False\<rparr>) w0)"
    using under_wm [OF q0(1), of env] beacons_heard [OF heard] q0(3,4) by auto
  have e1: "pos_core.more w1 = pos_core.more (map_events (\<lambda>e. e\<lparr>ce_scan_end := True\<rparr>) (map_ctrl (\<lambda>c. c\<lparr>cs_outside_wm := False\<rparr>) w))"
    using w1(5) q0(2) by (cases w; cases w1; cases w0; simp)
  note m1 = core_more [OF e1] ctrl_more [OF core_more(1) [OF e1]]
  have msg: "update_message env w1 = ?m" using message_cong(1) [where f = "\<lambda>e. e\<lparr>ce_scan_end := True\<rparr>", OF e1] by simp
  obtain v where v: "snd (send_measurement_message env w1) = map_events (\<lambda>e. e\<lparr>ce_data_sent := True\<rparr>) v" "ev_part v = ev_part w1"
    "pos_ok v = pos_ok w1" "ct_ctrl v = ct_ctrl w1" "ct_settings v = ct_settings w1" "co_log v = co_log w1 @ [Send_data (meas_packet ?m) True]"
    using message_sent [of w1 env] heard env m1 msg by auto
  let ?w2 = "set_timeout env POSLIB_CTRL_EVENT_APPCFG TIMEOUT_APPCFG_MS
    (map_events (\<lambda>e. e\<lparr>ce_scan_fail := False\<rparr>) (map_events (\<lambda>e. e\<lparr>ce_data_sent := True\<rparr>) v))"
  have "scan_ended env w = Some ?w2"
    using w1(1) beacons_heard [OF heard] m1 v(1) w0 by (simp add: scan_ended_def is_scan_valid_def PosLibMeas_getBeaconNum_def)
  moreover have "ct_ctrl ?w2 = (ct_ctrl v)\<lparr>cs_events := (cs_events (ct_ctrl v))\<lparr>ce_data_sent := True, ce_scan_fail := False\<rparr>\<rparr>"
    "ct_settings ?w2 = ct_settings v" "pos_ok ?w2 = pos_ok v" "ev_part ?w2 = ev_part w1" "co_log ?w2 = co_log v"
    using v(2) by (simp_all add: set_timeout_def ctrl_more(3) [OF meas_more_calls(3)])
  ultimately show ?thesis
    using w1(2-4) v m1 ev_queue_part [of ?w2 w1] by (intro exI [of _ ?w2] exI [of _ us]) simp
qed

lemma update_completed:
  fixes w :: "'a pos_ctrl_scheme"
  assumes "pos_ok w" "ev_queue w busy ts" "is_update_completed (ct_ctrl w)" "cs_state (ct_ctrl w) \<noteq> POSLIB_STATE_STOPPED"
    and "autoscan_mode (ps_node_mode (ct_settings w))"
  shows "\<exists>w' l. complete_update env w = Some w' \<and> co_log w' = co_log w @ l \<and> set l \<subseteq> {Remove_filter ''m_mbcn_item''} \<and> cs_state (ct_ctrl w') = POSLIB_STATE_IDLE \<and>
     cs_scheduled (ct_ctrl w') \<and> cs_outside_wm (ct_ctrl w') = cs_outside_wm (ct_ctrl w) \<and>
     cs_last_update_s (ct_ctrl w') = cs_next_update_s (ct_ctrl w) \<and> cs_sequence (ct_ctrl w') = cs_sequence (ct_ctrl w) + 1"
proof -
  obtain w2 where w2: "w2 = map_ctrl (\<lambda>c. c\<lparr>cs_scheduled := False, cs_last_update_s := cs_next_update_s c\<rparr>) w" by blast
  have q2: "ev_queue w2 busy ts" using assms(2) ev_queue_part [of w2 w] by (simp add: w2)
  obtain b w3 where w3: "PosLibEvent_add (pe_time env) POSLIB_CTRL_EVENT_UPDATE_END w2 = Some (b, w3)"
    using add_returns [OF q2, of POSLIB_CTRL_EVENT_UPDATE_END "pe_time env"] by blast
  note m3 = ctrl_more [OF core_more(1) [OF add_ctrl(2) [OF w3]]] add_ctrl(1,3) [OF w3]
  have run: "complete_update env w = schedule_next env False w3" using assms(3) w2 w3 by (simp add: complete_update_def)
  obtain n u l where "schedule_next env False w3 = Some (snd (update_autoscan env (n - pe_now_s env) u))"
    "ct_ctrl u = ct_ctrl (scheduled_state n w3)" "co_log u = co_log w3 @ l" "set l \<subseteq> {Remove_filter ''m_mbcn_item''}"
    using autoscan_scheduled [of w3 env] assms m3 by (auto simp: w2)
  moreover have "ct_ctrl (snd (update_autoscan env d u)) = ct_ctrl u" "co_log (snd (update_autoscan env d u)) = co_log u" for d
    by (simp_all add: update_autoscan_def)
  ultimately show ?thesis using run m3 by (simp add: scheduled_state_ctrl w2)
qed

subsection \<open>A node\<close>

definition ctrl_boot :: pos_ctrl where
  "ctrl_boot = pos_da.extend da_boot
     (pos_ctrl.fields POSLIB_MOTION_STATIC settings_example aux_example False 0 False 0 False 0 (replicate APP_CONFIG_NUM_BYTES 0) 0 True True True
       \<lparr>cs_state = POSLIB_STATE_IDLE, cs_mode = 0, cs_scheduled = False, cs_outside_wm = False, cs_sequence = 0, cs_events = no_events,
        cs_last_update_s = 970, cs_next_update_s = 970, cs_update_start_hp = 0\<rparr> False POSLIB_CTRL_EVENT_NONE)"

lemmas boot_defs = ctrl_boot_def da_boot_def meas_boot_def ble_boot_def mbcn_boot_def pos_da.defs pos_ctrl.defs pos_meas.defs
  pos_ble.defs pos_mbcn.defs pos_core.defs

lemma ctrl_boot_fields [simp]:
  "ct_settings ctrl_boot = settings_example" "ct_appcfg_len ctrl_boot = 0" "ct_appcfg ctrl_boot = replicate APP_CONFIG_NUM_BYTES 0"
  "cs_state (ct_ctrl ctrl_boot) = POSLIB_STATE_IDLE" "\<not> cs_scheduled (ct_ctrl ctrl_boot)" "\<not> cs_outside_wm (ct_ctrl ctrl_boot)"
  "cs_last_update_s (ct_ctrl ctrl_boot) = 970" "cs_sequence (ct_ctrl ctrl_boot) = 0" "ct_configured ctrl_boot" "ct_motion_mode ctrl_boot = POSLIB_MOTION_STATIC"
  by (simp_all add: boot_defs)

lemma settings_example_ok [simp]: "periods_ok settings_example"
  by (simp add: periods_ok_def period_ok_def settings_example_def POSLIB_MIN_MEAS_RATE_S_def POSLIB_MAX_MEAS_RATE_S_def)

lemma ctrl_boot_ok [simp]: "pos_ok ctrl_boot"
  by (simp add: pos_ok_def config_readable_def APP_CONFIG_NUM_BYTES_def) (simp add: meas_ok_def boot_defs)

lemma ctrl_boot_queue: "ev_queue ctrl_boot {} []"
proof -
  have "ev_part ctrl_boot = ev_part (pos_core.extend core_boot ())" by (simp add: ev_part_def boot_defs core_boot_def)
  from ev_queue_part [OF this] show ?thesis using core_boot_queue [of "()"] by simp
qed

subsection \<open>Properties\<close>

text \<open>The runs of the task until it stops or the environments end.\<close>

fun event_runs :: "pos_env list \<Rightarrow> 'a pos_ctrl_scheme \<Rightarrow> 'a pos_ctrl_scheme option" where
  "event_runs [] w = Some w"
| "event_runs (env # envs) w =
     do { (d, w) \<leftarrow> handle_events (process_event env) w; if d = APP_SCHEDULER_STOP_TASK then Some w else event_runs envs w }"

lemma runs_end:
  assumes "ctrl_rank w = Some r" "ev_queue w {} (t # ts)" "r + ev_weights (t # ts) \<le> length envs"
  shows "\<exists>w'. event_runs envs w = Some w' \<and> ev_queue w' {} [] \<and> pos_ok w'"
  using assms
proof (induction envs arbitrary: w r t ts)
  case Nil
  then show ?case by simp
next
  case (Cons env envs)
  from pos_events.handled [OF Cons.prems(2,1), of env] obtain us w3 r3 where
    h: "handle_events (process_event env) w = Some (if ts @ us = [] then APP_SCHEDULER_STOP_TASK else APP_SCHEDULER_SCHEDULE_ASAP, w3)"
      "ev_queue w3 {} (ts @ us)" "ctrl_rank w3 = Some r3" "r3 + ev_weights us < r + ev_weight t"
    by blast
  show ?case
  proof (cases "ts @ us")
    case Nil
    then show ?thesis using h by (auto simp: ctrl_rank_def split: if_splits)
  next
    case (Cons t' ts')
    have "r3 + ev_weights (t' # ts') \<le> length envs" using h(4) Cons.prems(3) by (simp flip: Cons)
    then obtain w' where "event_runs envs w3 = Some w'" "ev_queue w' {} []" "pos_ok w'"
      using Cons.IH [OF h(3)] h(2) Cons by auto
    then show ?thesis using h(1) Cons by (simp add: APP_SCHEDULER_STOP_TASK_def APP_SCHEDULER_SCHEDULE_ASAP_def)
  qed
qed

text \<open>C28: the events of a configured node are all handled, whatever the rest of the node
  answers meanwhile, as long as the stored configuration is shorter than its buffer of 80 bytes or
  fills it with whole records (with a truncated command at the end of 80 bytes the decoder reads
  after the buffer), the update periods are valid and the number of the beacon callback is one of
  the table of these callbacks: the runs of the task return, they end after a number of runs that the
  queued events bound, however many events the handlers add on the way, and they leave an empty
  queue and a state that the next events can be handled in.\<close>

theorem positioning_events_handled:
  assumes "pos_ok w" "ev_queue w {} (t # ts)" "ev_weights (t # ts) < length envs"
  shows "\<exists>w'. event_runs envs w = Some w' \<and> ev_queue w' {} [] \<and> pos_ok w'"
  using assms runs_end [OF _ assms(2), of "if is_update_completed (ct_ctrl w) then 1 else 0" envs]
  by (simp add: ctrl_rank_def split: if_splits)

theorem positioning_events_handled_witness:
  "\<exists>w1 w2. PosLibCtrl_setAppConfig pos_env_example [0xF9, 3, 0x41, 30, 0, 0] ctrl_boot = Some w1 \<and>
     event_runs (replicate 6 pos_env_example) w1 = Some w2 \<and> ev_queue w2 {} [] \<and> pos_ok w2"
proof -
  let ?v = "ctrl_boot\<lparr>ct_appcfg := [0xF9, 3, 0x41, 30, 0, 0] @ drop 6 (ct_appcfg ctrl_boot), ct_appcfg_len := 6\<rparr>"
  have v: "ev_queue ?v {} []" using ev_queue_part [of ?v ctrl_boot] ctrl_boot_queue by simp
  have "pos_ok ?v" using ctrl_boot_ok by (simp add: pos_ok_def config_readable_def meas_ok_def APP_CONFIG_NUM_BYTES_def)
  have c: "PosLibCtrl_setAppConfig pos_env_example [0xF9, 3, 0x41, 30, 0, 0] ctrl_boot =
      map_option snd (PosLibEvent_add (pe_time pos_env_example) POSLIB_CTRL_EVENT_APPCFG ?v)"
    by (simp add: PosLibCtrl_setAppConfig_def APP_CONFIG_NUM_BYTES_def)
  from v obtain w1 where w1: "PosLibEvent_add (pe_time pos_env_example) POSLIB_CTRL_EVENT_APPCFG ?v = Some (True, w1)"
    "ev_queue w1 {} [POSLIB_CTRL_EVENT_APPCFG]"
    by (cases rule: add_total [of ?v "{}" "[]" POSLIB_CTRL_EVENT_APPCFG "pe_time pos_env_example"]) (auto simp: MAX_INTERNAL_EVENTS_def)
  have "pos_ok w1" using add_ctrl(1) [OF w1(1)] \<open>pos_ok ?v\<close> by simp
  then show ?thesis
    using positioning_events_handled [OF _ w1(2), of "replicate 6 pos_env_example"] c w1(1)
    by (simp add: ev_weight_def)
qed

text \<open>C30: a node that scans by itself has its updates on a grid.  Once an update has ended the
  next one is the first time after now that is a whole number of update periods after the last
  update, at most a period away, and the task that starts it runs after just that time.\<close>

theorem update_on_grid:
  assumes "pos_ok w" "cs_state (ct_ctrl w) \<noteq> POSLIB_STATE_STOPPED" "\<not> cs_scheduled (ct_ctrl w)" "autoscan_mode (ps_node_mode (ct_settings w))"
    and "unat (cs_last_update_s (ct_ctrl w)) \<le> unat (pe_now_s env)" "unat (pe_now_s env) + 86400 < 2 ^ 32"
  shows "\<exists>w' v n d. schedule_next env False w = Some w' \<and> w' = snd (co_addTask (pe_time env) ''trigger_update_task'' d 500 v) \<and>
     n = unat (cs_next_update_s (ct_ctrl w')) \<and> unat d = 1000 * (n - unat (pe_now_s env)) \<and>
     unat (pe_now_s env) < n \<and> n \<le> unat (pe_now_s env) + unat (get_update_period w) \<and>
     unat (get_update_period w) dvd n - unat (cs_last_update_s (ct_ctrl w)) \<and>
     cs_state (ct_ctrl w') = POSLIB_STATE_IDLE \<and> cs_scheduled (ct_ctrl w') \<and> cs_sequence (ct_ctrl w') = cs_sequence (ct_ctrl w) + 1"
proof -
  let ?n = "next_update (pe_now_s env) (cs_last_update_s (ct_ctrl w)) (get_update_period w)" and ?now = "pe_now_s env"
  have p: "unat (get_update_period w) \<le> 86400" using period_bound [OF assms(1)] .
  note g = next_update_grid [OF assms(5) _ period_positive [OF assms(1)]]
  have g: "unat ?now < unat ?n" "unat ?n \<le> unat ?now + unat (get_update_period w)"
    "unat (get_update_period w) dvd unat ?n - unat (cs_last_update_s (ct_ctrl w))"
    using g p assms(6) by (simp_all add: dvd_eq_mod_eq_0)
  obtain v where v: "schedule_next env False w = Some (snd (update_autoscan env (?n - ?now) v))" "ct_ctrl v = ct_ctrl (scheduled_state ?n w)"
    using autoscan_scheduled [OF assms(1-4), of env] by blast
  have d: "unat (?n - ?now) = unat ?n - unat ?now" using g(1) by (simp add: unat_minus_le word_le_nat_alt)
  then have "?n - ?now \<noteq> 0" using g(1) by (metis diff_is_0_eq not_le unat_0)
  then have u: "update_autoscan env (?n - ?now) v = co_addTask (pe_time env) ''trigger_update_task'' ((?n - ?now) * 1000) 500 v"
    by (simp add: update_autoscan_def)
  have "unat ((?n - ?now) * 1000) = 1000 * (unat ?n - unat ?now)"
    using g(2) p d by (subst unat_mult_lem [THEN iffD1]) simp_all
  then show ?thesis
    using v(1) g unfolding u
    by (intro exI [of _ "snd (co_addTask (pe_time env) ''trigger_update_task'' ((?n - ?now) * 1000) 500 v)"] exI [of _ v] exI [of _ "unat ?n"]
        exI [of _ "(?n - ?now) * 1000"]) (simp add: v(2) scheduled_state_ctrl)
qed

theorem update_on_grid_witness:
  "map_option (\<lambda>w. (cs_state (ct_ctrl w), cs_next_update_s (ct_ctrl w))) (schedule_next pos_env_example False ctrl_boot) = Some (POSLIB_STATE_IDLE, 1030)"
proof -
  have p: "get_update_period ctrl_boot = 60" "autoscan_mode (ps_node_mode settings_example)" "pe_now_s pos_env_example = 1000"
    by (simp_all add: get_update_period_def settings_example_def autoscan_mode_def mode_defs pos_env_example_def)
  obtain w' n where n: "schedule_next pos_env_example False ctrl_boot = Some w'" "n = unat (cs_next_update_s (ct_ctrl w'))"
    "1000 < n" "n \<le> 1060" "60 dvd n - 970" "cs_state (ct_ctrl w') = POSLIB_STATE_IDLE"
    using update_on_grid [of ctrl_boot pos_env_example] p by auto
  then have "n = 1030" by presburger
  then have "cs_next_update_s (ct_ctrl w') = 1030" using n(2) by (simp add: word_unat_eq_iff)
  then show ?thesis using n(1,6) by simp
qed


definition scan_boot :: pos_ctrl where
  "scan_boot = map_ctrl (\<lambda>c. c\<lparr>cs_state := POSLIB_STATE_UPDATE, cs_mode := POSLIB_MODE_AUTOSCAN_TAG, cs_scheduled := True, cs_next_update_s := 990\<rparr>)
     (fold beacon_cb [rx_example 10 (- 60)] (clear_measurement_table ctrl_boot))"


text \<open>Stopping the updates keeps the mark of a scheduled one, and a node that has the mark is not
  scheduled again once the time of that update has passed: after a later start there are no
  updates.\<close>

lemma stop_keeps_mark:
  "map_option (\<lambda>(_, w). (cs_scheduled (ct_ctrl w), cs_next_update_s (ct_ctrl w)))
     (PosLibCtrl_stopPeriodic pos_env_example (map_ctrl (\<lambda>c. c\<lparr>cs_scheduled := True, cs_next_update_s := 990\<rparr>) ctrl_boot)) = Some (True, 990)"
  by code_simp

lemma restart_not_scheduled:
  assumes "pos_ok w" "cs_state (ct_ctrl w) \<noteq> POSLIB_STATE_STOPPED" "cs_scheduled (ct_ctrl w)" "unat (cs_next_update_s (ct_ctrl w)) \<le> unat (pe_now_s env)"
    and "unat (cs_last_update_s (ct_ctrl w)) \<le> unat (pe_now_s env)" "unat (pe_now_s env) + 86400 < 2 ^ 32"
  shows "delayed_start env w = Some (APP_SCHEDULER_STOP_TASK, w)"
proof -
  have "unat (pe_now_s env) < unat (next_update (pe_now_s env) (cs_last_update_s (ct_ctrl w)) (get_update_period w))"
    using next_update_grid(1) [OF assms(5) _ period_positive [OF assms(1)]] period_bound [OF assms(1)] assms(6) by simp
  then have "cs_next_update_s (ct_ctrl w) < next_update (pe_now_s env) (cs_last_update_s (ct_ctrl w)) (get_update_period w)"
    using assms(4) by (simp add: word_less_nat_alt)
  then show ?thesis
    using assms(2,3) period_positive [OF assms(1)] by (simp add: delayed_start_def schedule_next_def next_update_def Let_def)
qed

end
