(* ===== verification/Spec2Isabelle.thy ===== *)
theory Spec2Isabelle
  imports Prelude Util_Crc Util_Num Util_Tlv Util_Buffers Sl_List Scheduler_Props Waps_Uart Waps Wms_Api Shared_Data Shared_Appconfig Shared_Offline App_Persistent Stack_State Shared_Beacon
    Util_Aes Prov_Joining Prov_Sessions Prov_Data Provisioning Prov_Proxy Node_Config Local_Prov
    Waps_Sap Waps_Csap Waps_Msap Waps_Services Waps_Data
    Control_Node Control_Props
    Pos_Tlv Pos_Decode Pos_Event Pos_Mbcn Pos_Ble Pos_Meas Pos_Da Pos_Control Pos_Props
begin

text \<open>
  Verification of the node side software of the Wirepas SDK: the libraries an application
  links with the closed source mesh stack, under \<open>src/libraries\<close> and \<open>src/util\<close>.

  \<^bold>\<open>The program.\<close>  A node runs the stack, which calls the application from its own
  scheduler.  The libraries share the stack between the modules of an application: one
  periodic callback becomes many tasks (\<open>scheduler\<close>), one callback for received packets,
  application configurations, stack events, beacons and neighbors becomes a table of
  callbacks (\<open>shared_data\<close>, \<open>shared_appconfig\<close>, \<open>stack_state\<close>, \<open>shared_beacon\<close>,
  \<open>shared_neighbors\<close>), and going to sleep becomes an agreement (\<open>shared_offline\<close>).  On
  top of them, \<open>dualmcu\<close> serves an external host over a serial line, \<open>provisioning\<close>
  brings a new node into a network (through a neighbor with \<open>local_provisioning\<close>),
  \<open>control_node\<close> lets an advertiser send through nearby routers,
  \<open>positioning\<close> measures and reports the beacons around a node, and
  \<open>app_persistent\<close> stores data of the application.  \<open>util\<close> has the lists,
  encodings, checksums and ciphers all of them use.

  \<^bold>\<open>Conventions.\<close>  \<open>uint8_t\<close>, \<open>uint16_t\<close> and \<open>uint32_t\<close> are \<open>u8\<close>, \<open>u16\<close> and
  \<open>u32\<close>, words whose arithmetic wraps as in C; signed bytes are words read with \<open>sint\<close>.
  A struct or the variables of a module are a record, an enum a datatype, an enum of a packed
  frame one byte.  An operation is a function from the old to the new state; where the C code
  can leave an object, follow a NULL pointer or run forever the result is an \<open>option\<close>, and
  \<open>None\<close> is that case.  Loops with a bound are structural recursions; loops without an
  evident one are \<open>partial_function (option)\<close>, and a theorem about them states that the
  result is \<open>Some\<close>.  No definition uses fuel.  Critical sections are atomic steps: code that
  can run between two of them (interrupts, tasks) is an argument of the operation, a list of
  calls.  Functions of the stack are parameters, records of functions such as \<open>lib_time\<close>,
  \<open>node_lib\<close> or \<open>cn_env\<close>; calls that change the stack are recorded in a log.  What a
  theorem needs of them is a hypothesis with a name (\<open>hp_clock_ok\<close>, \<open>lib_ok\<close>,
  \<open>storage_ok\<close>, \<open>aes_ok\<close>), and its witness instantiates them.

  \<^bold>\<open>Theories.\<close>
  \<^item> \<open>Prelude\<close>: integer types, byte buffers with checked access, lemmas on words and lists.
  \<^item> \<open>Util_Crc\<close>, \<open>Util_Num\<close>, \<open>Util_Tlv\<close>, \<open>Util_Aes\<close>, \<open>Sl_List\<close>, \<open>Util_Buffers\<close>: \<open>util/crc.c\<close>;
    \<open>pack.c\<close> and \<open>util.c\<close>; \<open>tlv.c\<close>; \<open>aessw.c\<close> and \<open>random.c\<close>; \<open>sl_list.c\<close>; the macros of
    \<open>ringbuffer.h\<close>, \<open>doublebuffer.h\<close> and \<open>bitfield.h\<close>.  The CRC
    implementations agree with polynomial division; packing and TLV items round trip and the
    TLV decoder is safe for all bytes; the cipher modes equal their specifications; the
    linked list, a store of links with head and last pointer, refines lists, stated by the
    locales \<open>fifo_list\<close> and \<open>element_list\<close>, which \<open>Waps\<close> uses for its four queues.
  \<^item> \<open>Scheduler\<close>, \<open>Scheduler_Props\<close>: \<open>libraries/scheduler/app_scheduler.c\<close>.  The task
    table, the selection of the next task and the time conversions, with all interleavings of
    calls from tasks and interrupts: invariant of reachable states, earliest task first, due
    tasks run, cancelled tasks do not, effect of rescheduling from inside a task.  The tasks
    of \<open>Shared_Offline\<close>, the provisioning theories and \<open>Control_Node\<close> live in this model.
  \<^item> \<open>Wms_Api\<close>: result codes, addresses and packets of the interface to the stack.
  \<^item> \<open>Shared_Data\<close>, \<open>Shared_Appconfig\<close>, \<open>Shared_Offline\<close>, \<open>Shared_Beacon\<close> (with
    \<open>shared_neighbors.c\<close>), \<open>Stack_State\<close>, \<open>App_Persistent\<close>: the library of the same
    name.  Dispatch to exactly the modules that asked (in \<open>Shared_Data\<close> also when callbacks
    remove filters; the callbacks of \<open>Stack_State\<close> do not call the library); the agreement on
    sleep; the smallest beacon interval; stored data is read back, on an asynchronous flash.
    The locale \<open>subscriptions\<close> is the contract of a table of callbacks, refining a map.
  \<^item> \<open>Waps_Uart\<close>: \<open>libraries/dualmcu/waps/comm/uart\<close>.  SLIP frames with a CRC in bounded
    buffers, as the locale \<open>frame_channel\<close>: stream round trip, no frame with a wrong CRC,
    recovery after noise, and the automatic power of the line.
  \<^item> \<open>Waps\<close>: item pool, queues and protocol (\<open>waps.c\<close>, \<open>waps_item.c\<close>,
    \<open>protocol/\<close>).  In every run each item is in one place and the interrupt pin tells
    whether indications wait.
  \<^item> \<open>Waps_Sap\<close>, \<open>Waps_Csap\<close>, \<open>Waps_Msap\<close>: the data, configuration and management access
    points with addresses, feature lock, persistent data and multicast groups
    (\<open>libraries/dualmcu/waps/sap\<close>).  \<open>Waps_Services\<close> states the contract of an access point
    as the locale \<open>sap_service\<close>, interpreted for the three of them and for their sum: every
    request is answered inside of its item, requests of others are refused unchanged, a
    locked node is left alone.  \<open>Waps_Data\<close> has the transmission and reception of data, the
    multicast groups, and the composition with \<open>Waps\<close>: a request frame comes back as its
    confirmation.
  \<^item> \<open>Prov_Joining\<close>, \<open>Prov_Sessions\<close>, \<open>Prov_Data\<close>, \<open>Provisioning\<close>, \<open>Prov_Proxy\<close>:
    \<open>joining.c\<close>, \<open>data.c\<close>, \<open>provisioning.c\<close> and \<open>proxy.c\<close> of
    \<open>libraries/provisioning\<close>.  The locale \<open>joining_client\<close> is what a client of the joining
    module must keep, \<open>joining_returns\<close> adds that its callback returns; the node is an
    interpretation.  Joining sessions end; secured packets are checked; the data applied are
    the data verified.
  \<^item> \<open>Node_Config\<close>, \<open>Local_Prov\<close>: \<open>util/node_configuration.h\<close> and
    \<open>libraries/local_provisioning\<close>, which runs the node and the proxy of the provisioning library:
    together they transfer the network parameters, the strongest proxy with the same key is
    chosen, and settings a node has are not overwritten.
  \<^item> \<open>Control_Node\<close>, \<open>Control_Props\<close>: \<open>libraries/control_node\<close>.  The best router is
    chosen, every accepted packet is reported once, no timer outlives its packet.
  \<^item> \<open>Pos_Tlv\<close>, \<open>Pos_Decode\<close>, \<open>Pos_Event\<close>, \<open>Pos_Mbcn\<close>, \<open>Pos_Ble\<close>, \<open>Pos_Meas\<close>, \<open>Pos_Da\<close>,
    \<open>Pos_Control\<close>: the modules of \<open>libraries/positioning\<close>; each record of a module extends the
    one before, so that the last one is the state of the library.  The locales
    \<open>item_reader\<close> and \<open>item_format\<close> are the contracts of a reader of items, interpreted for
    \<open>tlv.c\<close> and \<open>poslib_tlv.c\<close>.  Any configuration leaves the settings in their ranges, a
    written one is applied as it says; mini-beacons round trip, as far as their records fit; the
    table of a scan has for every node the running average of its own beacons; an advertiser tries
    its routers in order, the best first.
  \<^item> \<open>Pos_Props\<close>: the library as a whole.  The locale \<open>event_handler\<close> of \<open>Pos_Event\<close>, the
    contract of the modules that get the events of the queue, is interpreted for the
    composition of \<open>Pos_Control\<close> and \<open>Pos_Ble\<close>: handlers return, keep the invariant, and add
    only events of a smaller weight, hence all events are handled.  The updates are on the grid of
    the update period, and the message of an update has the beacons of its scan.

  \<^bold>\<open>Findings.\<close>  Where the code differs from what it means to do, the model follows the code
  and a lemma shows the difference, for instance \<open>Waps_Services.requests_answered\<close> (reading
  the lock key), \<open>Provisioning.joining_failure_reported_as_stopped\<close>,
  \<open>Waps.sleep_reply_sends_indication\<close>, \<open>Control_Props.nested_send_loses_callback\<close>,
  \<open>Pos_Da.compare_cyclic\<close>, \<open>Pos_Props.restart_not_scheduled\<close> and \<open>Local_Prov.uid_not_kept\<close>.

  \<^bold>\<open>Not modelled.\<close>  The block cipher (\<open>util/tinyaes\<close>) and the CBOR library (\<open>util/tinycbor\<close>) are third-party
  code, and parameters here.  Drivers and startup code of the microcontrollers, the debug
  output and the opening of the libraries of the stack access hardware or fixed addresses.
  Example and test applications only call the libraries; the bootloader is a binary.
\<close>

end
